(* ===== verification/Prelude.thy ===== *)
theory Prelude
  imports Main "HOL-Library.Word" "HOL-Library.Monad_Syntax"
begin

unbundle bit_operations_syntax

text \<open>
  Shared vocabulary of the development: the machine integer types of the C++ sources, the
  theorem collections the component theories extend, and the generic lemmas on lists, options
  and words that more than one component needs.

  Conventions. \<open>uint8_t\<close>, \<open>uint16_t\<close>, \<open>uint32_t\<close> and \<open>uint64_t\<close> are words of that width, so
  that arithmetic wraps as it does in C++. A \<open>size_t\<close> that only counts elements of a container
  in memory is a \<open>nat\<close>; \<open>int64_t\<close> clock values and unwrapped sequence numbers are \<open>int\<close>. A
  C++ function that returns \<open>bool\<close> and writes through a pointer is a function into \<open>option\<close>
  (\<open>None\<close> is \<open>return false\<close>); an object's member function takes the object's record and
  returns it updated.
\<close>

type_synonym u8 = "8 word"
type_synonym u16 = "16 word"
type_synonym u32 = "32 word"
type_synonym u64 = "64 word"
type_synonym bytes = "u8 list"

named_theorems wire_simps "evaluation of readers and writers on encoded data"
named_theorems codec_intros "round trips of the wire formats"

subsection \<open>Overwriting a segment of a buffer\<close>

definition overwrite :: "'a list \<Rightarrow> nat \<Rightarrow> 'a list \<Rightarrow> 'a list" where
  "overwrite xs off ys = take off xs @ ys @ drop (off + length ys) xs"

lemma length_overwrite [simp]:
  "off + length ys \<le> length xs \<Longrightarrow> length (overwrite xs off ys) = length xs"
  by (simp add: overwrite_def)

lemma overwrite_Nil [simp]: "overwrite xs off [] = xs"
  by (simp add: overwrite_def)

lemma take_overwrite:
  "off + length ys \<le> length xs \<Longrightarrow> take (off + length ys) (overwrite xs off ys) = take off xs @ ys"
  by (simp add: overwrite_def)

lemma take_overwrite_before: "n \<le> off \<Longrightarrow> off \<le> length xs \<Longrightarrow> take n (overwrite xs off ys) = take n xs"
  by (simp add: overwrite_def min_def)

lemma drop_overwrite_after:
  "off + length ys \<le> n \<Longrightarrow> off + length ys \<le> length xs \<Longrightarrow> drop n (overwrite xs off ys) = drop n xs"
  by (auto simp: overwrite_def)

lemma overwrite_overwrite:
  assumes "off + length ys + length zs \<le> length xs"
  shows "overwrite (overwrite xs off ys) (off + length ys) zs = overwrite xs off (ys @ zs)"
  using assms by (simp add: overwrite_def ac_simps)

lemma nth_overwrite:
  assumes "off + length ys \<le> length xs" "i < length xs"
  shows "overwrite xs off ys ! i = (if off \<le> i \<and> i < off + length ys then ys ! (i - off) else xs ! i)"
  using assms by (auto simp: overwrite_def nth_append)

subsection \<open>Truncating division\<close>

text \<open>C++ division and remainder round towards zero.\<close>

definition cdiv :: "int \<Rightarrow> int \<Rightarrow> int" where
  "cdiv a b = sgn a * sgn b * (\<bar>a\<bar> div \<bar>b\<bar>)"

definition cmod :: "int \<Rightarrow> int \<Rightarrow> int" where
  "cmod a b = a - b * cdiv a b"

lemma cdiv_nonneg: "0 \<le> a \<Longrightarrow> 0 < b \<Longrightarrow> cdiv a b = a div b"
  by (cases "a = 0") (simp_all add: cdiv_def)

lemma cmod_nonneg: "0 \<le> a \<Longrightarrow> 0 < b \<Longrightarrow> cmod a b = a mod b"
  by (simp add: cmod_def cdiv_nonneg minus_mult_div_eq_mod)

lemma cdiv_neg: "a \<le> 0 \<Longrightarrow> 0 < b \<Longrightarrow> cdiv a b = - ((- a) div b)"
  by (cases "a = 0") (simp_all add: cdiv_def)

lemma mod_add_wrap:
  fixes x y m :: nat
  assumes "x < m" "y < m"
  shows "(x + y) mod m = (if x + y < m then x + y else x + y - m)"
  using assms by (simp add: le_mod_geq)

lemma int_mod_close:
  fixes a b m :: int
  assumes "a mod m = b mod m" "\<bar>a - b\<bar> < m"
  shows "a = b"
proof -
  from assms(1) have "m dvd a - b" by (simp add: mod_eq_dvd_iff)
  then obtain k where k: "a - b = m * k" by (elim dvdE)
  have "k = 0"
  proof (rule ccontr)
    assume "k \<noteq> 0"
    then have "m * 1 \<le> m * \<bar>k\<bar>" using assms(2) by (intro mult_left_mono) auto
    moreover have "\<bar>m\<bar> = m" using assms(2) by linarith
    ultimately have "m \<le> \<bar>m * k\<bar>" by (simp add: abs_mult)
    then show False using assms(2) k by simp
  qed
  with k show ?thesis by simp
qed

subsection \<open>Folding over options\<close>

fun fold_option :: "('a \<Rightarrow> 's \<Rightarrow> 's option) \<Rightarrow> 'a list \<Rightarrow> 's \<Rightarrow> 's option" where
  "fold_option f [] s = Some s"
| "fold_option f (x # xs) s = Option.bind (f x s) (fold_option f xs)"

lemma fold_option_append:
  "fold_option f (xs @ ys) s = Option.bind (fold_option f xs s) (fold_option f ys)"
  by (induction xs arbitrary: s) (auto split: Option.bind_split)

lemma fold_option_invariant:
  assumes "\<And>x s s'. x \<in> set xs \<Longrightarrow> P s \<Longrightarrow> f x s = Some s' \<Longrightarrow> P s'"
    and "P s" and "fold_option f xs s = Some t"
  shows "P t"
  using assms
proof (induction xs arbitrary: s)
  case (Cons x xs)
  from Cons.prems(3) obtain s' where "f x s = Some s'" "fold_option f xs s' = Some t"
    by (auto simp: Option.bind_eq_Some_conv)
  with Cons.prems(1,2) Cons.IH [of s'] show ?case by (metis list.set_intros)
qed simp

subsection \<open>Outcomes\<close>

text \<open>Code that reads through a raw pointer has a third outcome beside success and \<open>return false\<close>: a read
  outside the buffer, whose value the program does not control.\<close>

datatype 'a outcome = Returns 'a | Fails | OutOfBounds

fun bind_outcome :: "'a outcome \<Rightarrow> ('a \<Rightarrow> 'b outcome) \<Rightarrow> 'b outcome" where
  "bind_outcome (Returns x) f = f x"
| "bind_outcome Fails f = Fails"
| "bind_outcome OutOfBounds f = OutOfBounds"

definition of_option :: "'a option \<Rightarrow> 'a outcome" where
  "of_option x = (case x of None \<Rightarrow> Fails | Some y \<Rightarrow> Returns y)"

lemma of_option_simps [simp]: "of_option None = Fails" "of_option (Some x) = Returns x"
  by (simp_all add: of_option_def)

lemma bind_outcome_eq_Returns:
  "bind_outcome m f = Returns y \<longleftrightarrow> (\<exists>x. m = Returns x \<and> f x = Returns y)"
  by (cases m) auto

text \<open>\<open>static_cast<int16_t>\<close> of a wider integer.\<close>

definition cast16 :: "int \<Rightarrow> int" where
  "cast16 x = (x + 32768) mod 65536 - 32768"

lemma cast16_id: "- 32768 \<le> x \<Longrightarrow> x \<le> 32767 \<Longrightarrow> cast16 x = x"
  by (simp add: cast16_def)

lemma cast16_bounds: "- 32768 \<le> cast16 x" "cast16 x \<le> 32767"
  by (simp_all add: cast16_def)

definition cast32 :: "int \<Rightarrow> int" where
  "cast32 x = (x + 2 ^ 31) mod 2 ^ 32 - 2 ^ 31"

lemma cast32_id: "- (2 ^ 31) \<le> x \<Longrightarrow> x < 2 ^ 31 \<Longrightarrow> cast32 x = x"
  by (simp add: cast32_def)

subsection \<open>Lists\<close>

lemma takeWhile_dropWhile_filter:
  assumes "sorted_wrt (\<lambda>x y. P y \<longrightarrow> P x) xs"
  shows "takeWhile P xs = filter P xs" and "dropWhile P xs = filter (\<lambda>x. \<not> P x) xs"
  using assms by (induction xs) (auto simp: filter_empty_conv filter_id_conv)

lemma drop_step: "drop n xs = a @ b \<Longrightarrow> drop (n + length a) xs = b"
proof -
  assume a: "drop n xs = a @ b"
  have "drop (n + length a) xs = drop (length a) (drop n xs)" by (simp add: add.commute)
  also have "\<dots> = b" using a by simp
  finally show ?thesis .
qed

lemma drop_room: "drop n xs = a @ b \<Longrightarrow> a \<noteq> [] \<Longrightarrow> n + length a \<le> length xs"
proof -
  assume a: "drop n xs = a @ b" "a \<noteq> []"
  then have "length xs - n = length a + length b" by (metis length_append length_drop)
  moreover have "0 < length a" using a(2) by simp
  ultimately show ?thesis by linarith
qed

lemma find_SomeD: "find P xs = Some x \<Longrightarrow> x \<in> set xs \<and> P x"
  by (auto simp: find_Some_iff)

lemma sum_list_replicate_nat: "sum_list (replicate n (x::nat)) = n * x"
  by (induction n) auto

lemma set_drop_subset: "x \<in> set (drop n xs) \<Longrightarrow> x \<in> set xs"
  by (rule in_set_dropD)

subsection \<open>Words\<close>

lemma unat_of_nat_small: "n < 2 ^ LENGTH('a::len) \<Longrightarrow> unat (of_nat n :: 'a word) = n"
  by (simp add: unat_of_nat take_bit_nat_eq_self)

lemma ucast_drop_bit_or_16:
  fixes v :: u16
  shows "push_bit 8 (ucast (ucast (drop_bit 8 v) :: u8)) OR ucast (ucast v :: u8) = v"
  by (rule bit_word_eqI) (auto simp: bit_simps)

lemma u8_eq_0_iff_unat: "(x :: u8) = 0 \<longleftrightarrow> unat x = 0"
  by (simp add: unat_eq_0)

end
