(* ===== verification/Crc32.thy ===== *)
theory Crc32
  imports Prelude
begin

text \<open>
  The CRC of the STUN FINGERPRINT attribute, \<^verbatim>\<open>src/src/base/crc32.{h,cpp}\<close>: the table the process
  builds once, and the byte-wise loop over it. The reference is the bit-serial definition of the
  reflected CRC-32; the table routine is proved equal to it, and the checksum is shown to
  detect every change that is confined to four neighbouring bytes.
\<close>

definition kCrc32Polynomial :: u32 where "kCrc32Polynomial = 0xEDB88320"

fun crc_bits :: "nat \<Rightarrow> u32 \<Rightarrow> u32" where
  "crc_bits 0 c = c"
| "crc_bits (Suc j) c =
     crc_bits j (if c AND 1 \<noteq> 0 then kCrc32Polynomial XOR drop_bit 1 c else drop_bit 1 c)"

definition LoadCrc32Table :: "u32 list" where
  "LoadCrc32Table = map (\<lambda>i. crc_bits 8 (of_nat i)) [0..<256]"

fun crc_loop :: "u32 list \<Rightarrow> bytes \<Rightarrow> u32 \<Rightarrow> u32" where
  "crc_loop table [] c = c"
| "crc_loop table (d # ds) c =
     crc_loop table ds (table ! unat ((c XOR ucast d) AND 0xFF) XOR drop_bit 8 c)"

definition Calculate :: "bytes \<Rightarrow> u32" where
  "Calculate data = crc_loop LoadCrc32Table data 0xFFFFFFFF XOR 0xFFFFFFFF"

section \<open>The bit-serial reference\<close>

text \<open>One message bit is added to the low bit of the register and the register is stepped.\<close>

definition crc_shift :: "u32 \<Rightarrow> u32" where
  "crc_shift c = (if bit c 0 then kCrc32Polynomial XOR drop_bit 1 c else drop_bit 1 c)"

definition ref_bit :: "bool \<Rightarrow> u32 \<Rightarrow> u32" where
  "ref_bit b c = crc_shift (c XOR (if b then 1 else 0))"

definition byte_bits :: "u8 \<Rightarrow> bool list" where
  "byte_bits d = map (bit d) [0..<8]"

definition crc_reference :: "bytes \<Rightarrow> u32" where
  "crc_reference data = fold ref_bit (concat (map byte_bits data)) 0xFFFFFFFF XOR 0xFFFFFFFF"

lemma crc_bits_shift: "crc_bits n c = (crc_shift ^^ n) c"
  by (induction n arbitrary: c) (simp_all add: crc_shift_def and_one_eq bit_0 odd_iff_mod_2_eq_one funpow_swap1)

lemma crc_shift_xor: "crc_shift (a XOR b) = crc_shift a XOR crc_shift b"
  by (rule bit_word_eqI) (auto simp: crc_shift_def bit_simps)

lemma crc_shift_power_xor: "(crc_shift ^^ n) (a XOR b) = (crc_shift ^^ n) a XOR (crc_shift ^^ n) b"
  by (induction n arbitrary: a b) (simp_all add: crc_shift_xor funpow_swap1)

lemma word_bitwise_xor_zero: "(a :: 'a::len word) XOR b = 0 \<longleftrightarrow> a = b"
  by (metis xor.assoc xor.left_neutral xor.right_neutral xor_self_eq)

lemma word_xor_right_cancel: "(a :: 'a::len word) XOR c = b XOR c \<longleftrightarrow> a = b"
proof
  assume "a XOR c = b XOR c"
  then have "(a XOR c) XOR c = (b XOR c) XOR c" by (simp only:)
  then show "a = b" by (simp add: xor.assoc)
qed simp

lemma word_xor_left_cancel: "(c :: 'a::len word) XOR a = c XOR b \<longleftrightarrow> a = b"
  using word_xor_right_cancel [of a c b] by (simp only: xor.commute)

text \<open>A register whose low \<open>n\<close> bits are zero is just shifted for \<open>n\<close> steps.\<close>

lemma crc_shift_low_zero:
  "(\<And>k. k < n \<Longrightarrow> \<not> bit c k) \<Longrightarrow> (crc_shift ^^ n) c = drop_bit n c"
proof (induction n arbitrary: c)
  case (Suc n)
  have "crc_shift c = drop_bit 1 c" using Suc.prems [of 0] by (simp add: crc_shift_def)
  moreover have "(crc_shift ^^ n) (drop_bit 1 c) = drop_bit n (drop_bit 1 c)"
    using Suc.prems by (intro Suc.IH) (auto simp: bit_simps)
  ultimately show ?case by (simp add: funpow_swap1 drop_bit_drop_bit)
qed simp

lemma table_step:
  "LoadCrc32Table ! unat ((c XOR ucast d) AND 0xFF) XOR drop_bit 8 c = (crc_shift ^^ 8) (c XOR ucast (d :: u8))"
proof -
  let ?x = "c XOR ucast d"
  let ?lo = "?x AND 0xFF" and ?hi = "?x AND NOT 0xFF"
  have mask: "(0xFF :: u32) = mask 8" by (simp add: mask_eq_exp_minus_1)
  have "?lo = take_bit 8 ?x" by (simp only: mask take_bit_eq_mask)
  then have "unat ?lo < 256"
    using take_bit_nat_less_exp [of 8 "unat ?x"] by (simp only: unsigned_take_bit_eq) simp
  then have t: "LoadCrc32Table ! unat ?lo = (crc_shift ^^ 8) ?lo"
    by (simp add: LoadCrc32Table_def crc_bits_shift)
  have "(crc_shift ^^ 8) ?hi = drop_bit 8 ?hi"
    by (rule crc_shift_low_zero) (auto simp: mask bit_simps)
  also have "\<dots> = drop_bit 8 c"
    by (rule bit_word_eqI) (auto simp: mask bit_simps dest: bit_imp_le_length)
  finally have h: "(crc_shift ^^ 8) ?hi = drop_bit 8 c" .
  have "?x = ?lo XOR ?hi" by (rule bit_word_eqI) (auto simp: bit_simps)
  then have "(crc_shift ^^ 8) ?x = (crc_shift ^^ 8) ?lo XOR (crc_shift ^^ 8) ?hi"
    by (simp only: flip: crc_shift_power_xor)
  then show ?thesis using t h by simp
qed

lemma low_bit_split:
  fixes v :: u32
  assumes "k + n < 32"
  shows "drop_bit k v AND mask (Suc n) = (if bit v k then 1 else 0) XOR 2 * (drop_bit (Suc k) v AND mask n)"
proof (rule bit_word_eqI)
  fix j assume "j < LENGTH(32)"
  then show "bit (drop_bit k v AND mask (Suc n)) j
      = bit ((if bit v k then 1 else 0) XOR 2 * (drop_bit (Suc k) v AND mask n)) j"
    by (cases j) (simp_all add: bit_and_iff bit_xor_iff bit_drop_bit_eq bit_mask_iff bit_double_iff bit_1_iff
        bit_0_eq del: bit_0)
qed

text \<open>Feeding the bits of a word one at a time is adding the word and shifting.\<close>

lemma ref_bits_fold:
  "k + n \<le> 32 \<Longrightarrow> fold ref_bit (map (bit v) [k..<k + n]) c
     = (crc_shift ^^ n) (c XOR (drop_bit k (v :: u32) AND mask n))"
proof (induction n arbitrary: k c)
  case (Suc n)
  let ?b = "if bit v k then 1 else (0 :: u32)"
  let ?m = "drop_bit (Suc k) v AND mask n"
  have up: "[k..<k + Suc n] = k # [Suc k..<Suc k + n]" by (simp add: upt_rec)
  have split: "drop_bit k v AND mask (Suc n) = ?b XOR 2 * ?m"
    using Suc.prems by (intro low_bit_split) simp
  have "fold ref_bit (map (bit v) [k..<k + Suc n]) c = (crc_shift ^^ n) (ref_bit (bit v k) c XOR ?m)"
    using Suc.IH [of "Suc k"] Suc.prems unfolding up by simp
  also have "ref_bit (bit v k) c XOR ?m = crc_shift (c XOR ?b XOR 2 * ?m)"
  proof -
    have "\<not> bit (2 * ?m) 0" by (simp add: bit_simps)
    moreover have "drop_bit 1 (2 * ?m) = ?m"
      using Suc.prems by (intro bit_word_eqI) (auto simp: bit_simps)
    ultimately have "crc_shift (2 * ?m) = ?m" by (simp add: crc_shift_def)
    then show ?thesis by (simp add: ref_bit_def crc_shift_xor xor.assoc)
  qed
  finally show ?case by (simp add: split funpow_swap1 xor.assoc)
qed simp

lemma ref_byte: "fold ref_bit (byte_bits d) c = (crc_shift ^^ 8) (c XOR ucast d)"
proof -
  have "byte_bits d = map (bit (ucast d :: u32)) [0..<0 + 8]"
    by (simp add: byte_bits_def bit_simps)
  moreover have "drop_bit 0 (ucast d :: u32) AND mask 8 = ucast d"
    by (rule bit_word_eqI) (auto simp: bit_simps dest: bit_imp_le_length)
  ultimately show ?thesis using ref_bits_fold [of 0 8 "ucast d" c] by simp
qed

lemma crc_loop_reference: "crc_loop LoadCrc32Table data c = fold ref_bit (concat (map byte_bits data)) c"
  by (induction data arbitrary: c) (simp_all add: table_step ref_byte)

section \<open>Error detection\<close>

lemma crc_shift_zero:
  assumes "crc_shift x = 0"
  shows "x = 0"
proof -
  have low: "\<not> bit x 0"
  proof
    assume "bit x 0"
    then have "kCrc32Polynomial XOR drop_bit 1 x = 0" using assms by (simp add: crc_shift_def)
    then have "kCrc32Polynomial = drop_bit 1 x" by (simp only: word_bitwise_xor_zero)
    then have "bit kCrc32Polynomial 31 = bit (drop_bit 1 x) 31" by (simp only:)
    moreover have "bit kCrc32Polynomial 31" unfolding kCrc32Polynomial_def by code_simp
    ultimately have "bit x 32" by (simp only: bit_drop_bit_eq o_apply) simp
    then show False by (auto dest: bit_imp_le_length)
  qed
  then have "drop_bit 1 x = 0" using assms by (simp add: crc_shift_def)
  then have high: "\<not> bit (drop_bit 1 x) k" for k by simp
  show ?thesis
  proof (rule bit_word_eqI)
    fix n
    show "bit x n = bit (0 :: u32) n"
      using low high [of "n - 1"] by (cases n) (simp_all add: bit_drop_bit_eq)
  qed
qed

lemma crc_shift_inj: "crc_shift a = crc_shift b \<longleftrightarrow> a = b"
  using crc_shift_zero [of "a XOR b"] by (auto simp: crc_shift_xor word_bitwise_xor_zero)

lemma crc_shift_power_inj: "(crc_shift ^^ n) a = (crc_shift ^^ n) b \<longleftrightarrow> a = b"
  by (induction n arbitrary: a b) (simp_all add: crc_shift_inj)

text \<open>From a given register, at most 32 message bits are determined by the register they lead to.\<close>

lemma ref_bits_inj:
  assumes "length bs = length cs" "length bs \<le> 32" "fold ref_bit bs c = fold ref_bit cs c"
  shows "bs = cs"
proof -
  let ?w = "\<lambda>bs. horner_sum of_bool 2 bs :: u32"
  have bits: "map (bit (?w xs)) [0..<length xs] = xs" if "length xs \<le> 32" for xs
    using that by (intro nth_equalityI) (simp_all add: bit_horner_sum_bit_word_iff)
  have small: "?w xs AND mask (length xs) = ?w xs" for xs
    by (rule bit_word_eqI) (auto simp: bit_horner_sum_bit_word_iff bit_and_iff bit_mask_iff)
  have f: "fold ref_bit xs c = (crc_shift ^^ length xs) (c XOR ?w xs)" if "length xs \<le> 32" for xs
    using ref_bits_fold [of 0 "length xs" "?w xs" c] that
    by (simp only: add_0 bits [OF that] drop_bit_0 id_apply small)
  have "(crc_shift ^^ length bs) (c XOR ?w bs) = (crc_shift ^^ length bs) (c XOR ?w cs)"
    using assms(3) f [OF assms(2)] f [OF assms(2) [unfolded assms(1)]] assms(1) by (simp only:)
  then have "c XOR ?w bs = c XOR ?w cs" by (simp only: crc_shift_power_inj)
  then have "?w bs = ?w cs" by (simp only: word_xor_left_cancel)
  then have "map (bit (?w bs)) [0..<length bs] = map (bit (?w cs)) [0..<length cs]"
    by (simp only: assms(1))
  then show ?thesis by (simp only: bits [OF assms(2)] bits [OF assms(2) [unfolded assms(1)]])
qed

lemma ref_bits_state_inj: "fold ref_bit bs a = fold ref_bit bs b \<longleftrightarrow> a = b"
proof (induction bs arbitrary: a b)
  case (Cons x bs)
  have "ref_bit x a = ref_bit x b \<longleftrightarrow> a = b"
    by (simp only: ref_bit_def crc_shift_inj word_xor_right_cancel)
  then show ?case using Cons by simp
qed simp

lemma byte_bits_inj: "byte_bits a = byte_bits b \<Longrightarrow> a = b"
  by (rule bit_word_eqI) (auto simp: byte_bits_def)

lemma concat_byte_bits_inj:
  "length xs = length ys \<Longrightarrow> concat (map byte_bits xs) = concat (map byte_bits ys) \<Longrightarrow> xs = ys"
proof (induction xs ys rule: list_induct2)
  case (Cons x xs y ys)
  have "length (byte_bits x) = length (byte_bits y)" by (simp add: byte_bits_def)
  then show ?case using Cons byte_bits_inj by simp
qed simp

lemma length_concat_byte_bits: "length (concat (map byte_bits xs)) = 8 * length xs"
  by (induction xs) (simp_all add: byte_bits_def)

section \<open>Properties\<close>

text \<open>C29. The table-driven checksum is the bit-serial reflected CRC-32 of the message.\<close>

theorem Calculate_is_crc32: "Calculate data = crc_reference data"
  by (simp add: Calculate_def crc_reference_def crc_loop_reference)

text \<open>The checksum detects every corruption confined to at most four neighbouring bytes.\<close>

theorem Calculate_detects_burst:
  assumes "length xs = length ys" "length xs \<le> 4" "xs \<noteq> ys"
  shows "Calculate (pre @ xs @ post) \<noteq> Calculate (pre @ ys @ post)"
proof
  assume "Calculate (pre @ xs @ post) = Calculate (pre @ ys @ post)"
  then have "crc_loop LoadCrc32Table (pre @ xs @ post) 0xFFFFFFFF
      = crc_loop LoadCrc32Table (pre @ ys @ post) 0xFFFFFFFF"
    by (simp only: Calculate_def word_xor_right_cancel)
  then have "fold ref_bit (concat (map byte_bits xs)) (fold ref_bit (concat (map byte_bits pre)) 0xFFFFFFFF)
      = fold ref_bit (concat (map byte_bits ys)) (fold ref_bit (concat (map byte_bits pre)) 0xFFFFFFFF)"
    by (simp add: crc_loop_reference ref_bits_state_inj)
  then have "concat (map byte_bits xs) = concat (map byte_bits ys)"
    using assms(1,2) by (intro ref_bits_inj) (simp_all add: length_concat_byte_bits)
  then show False using concat_byte_bits_inj assms(1,3) by blast
qed

theorem Calculate_detects_burst_witness:
  "Calculate ([1, 2] @ [3, 4, 5] @ [6]) \<noteq> Calculate ([1, 2] @ [3, 9, 5] @ [6])"
  by (rule Calculate_detects_burst) simp_all

end
