(* ===== verification/Base_Utils.thy ===== *)
theory Base_Utils
  imports Prelude
begin

text \<open>
  Utilities of \<^verbatim>\<open>src/src/base\<close>: NTP time stamps and string splitting (\<^verbatim>\<open>utils.{h,cpp}\<close>), error
  codes (\<^verbatim>\<open>yl_error.{h,cpp}\<close>), the bit rate estimator (\<^verbatim>\<open>bitrate_estimator.{h,cpp}\<close>), the
  per-thread memory pool (\<^verbatim>\<open>memory_pool.{h,cpp}\<close>) and random strings (\<^verbatim>\<open>random.cpp\<close>). The clock
  is an argument of the operations that read it.
\<close>

section \<open>NTP time\<close>

record NtpTime =
  ntp_sec :: u32
  ntp_frac :: u32

text \<open>\<open>(millis % 1000) / 1000.0 * 2^32\<close> in double precision: the quotient carries a relative error of
  at most \<open>2^-53\<close>, the product is exact, and the exact value is either an integer (then the quotient
  is exact too) or at least \<open>1/125\<close> away from one, so truncating gives the integer quotient.\<close>

definition CreateFromMillis :: "u64 \<Rightarrow> NtpTime" where
  "CreateFromMillis millis =
     \<lparr>ntp_sec = of_nat (unat millis div 1000),
      ntp_frac = of_nat ((unat millis mod 1000) * 2 ^ 32 div 1000)\<rparr>"

definition CreateFromCompactNtp :: "u32 \<Rightarrow> NtpTime" where
  "CreateFromCompactNtp c = \<lparr>ntp_sec = drop_bit 16 c, ntp_frac = push_bit 16 c\<rparr>"

text \<open>\<open>fractions / 4294967.296 + 0.5\<close> truncated: the fraction is a multiple of \<open>2^-29\<close>, far more than
  the rounding error, and the ties are exact in double precision.\<close>

definition ToMillis :: "NtpTime \<Rightarrow> int" where
  "ToMillis t = 1000 * uint (ntp_sec t) + (uint (ntp_frac t) * 1000 + 2 ^ 31) div 2 ^ 32"

definition ToCompactNtp :: "NtpTime \<Rightarrow> u32" where
  "ToCompactNtp t = push_bit 16 (ntp_sec t) OR drop_bit 16 (ntp_frac t)"

lemma CreateFromMillis_fields:
  assumes "unat m < 1000 * 2 ^ 32"
  shows "uint (ntp_sec (CreateFromMillis m)) = int (unat m div 1000)"
    and "uint (ntp_frac (CreateFromMillis m)) = int ((unat m mod 1000) * 2 ^ 32 div 1000)"
proof -
  have "unat m div 1000 < 2 ^ 32" using assms by (simp add: less_mult_imp_div_less mult.commute)
  moreover have "(unat m mod 1000) * 2 ^ 32 div 1000 < 2 ^ 32"
    by (simp add: less_mult_imp_div_less)
  ultimately show "uint (ntp_sec (CreateFromMillis m)) = int (unat m div 1000)"
    "uint (ntp_frac (CreateFromMillis m)) = int ((unat m mod 1000) * 2 ^ 32 div 1000)"
    by (simp_all add: CreateFromMillis_def uint_nat unat_of_nat_small del: of_nat_div of_nat_mult)
qed

lemma compact_ntp: "ToCompactNtp (CreateFromCompactNtp c) = c"
  by (rule bit_word_eqI)
    (auto simp: ToCompactNtp_def CreateFromCompactNtp_def bit_simps dest: bit_imp_le_length)

section \<open>Strings\<close>

text \<open>\<open>find_sub d s\<close>: what precedes the first occurrence of \<open>d\<close> in \<open>s\<close> and what follows it.\<close>

fun is_prefix_of :: "'a list \<Rightarrow> 'a list \<Rightarrow> bool" where
  "is_prefix_of [] s = True"
| "is_prefix_of (d # ds) [] = False"
| "is_prefix_of (d # ds) (c # cs) = (d = c \<and> is_prefix_of ds cs)"

fun find_sub :: "'a list \<Rightarrow> 'a list \<Rightarrow> ('a list \<times> 'a list) option" where
  "find_sub d [] = (if d = [] then Some ([], []) else None)"
| "find_sub d (c # cs) =
     (if is_prefix_of d (c # cs) then Some ([], drop (length d) (c # cs))
      else map_option (\<lambda>(a, b). (c # a, b)) (find_sub d cs))"

text \<open>The loop of \<open>StringSplit\<close> from the position after the last delimiter; it does not return for an
  empty delimiter.\<close>

partial_function (option) split_from :: "'a list \<Rightarrow> 'a list \<Rightarrow> 'a list list option" where
  "split_from delim s =
     (case find_sub delim s of
        None \<Rightarrow> Some (if s \<noteq> [] then [s] else [])
      | Some (tok, rest) \<Rightarrow> Option.bind (split_from delim rest)
          (\<lambda>toks. Some ((if 0 < length tok then [tok] else []) @ toks)))"

definition StringSplit :: "'a list \<Rightarrow> 'a list \<Rightarrow> 'a list list option" where
  "StringSplit s delim = split_from delim s"

lemma find_sub_shorter: "find_sub d s = Some (a, b) \<Longrightarrow> d \<noteq> [] \<Longrightarrow> length b < length s"
proof (induction d s arbitrary: a b rule: find_sub.induct)
  case (2 d c cs)
  then show ?case by (cases "is_prefix_of d (c # cs)") (fastforce simp: neq_Nil_conv)+
qed (auto split: if_splits)

lemma split_from_total: "d \<noteq> [] \<Longrightarrow> \<exists>toks. split_from d s = Some toks"
proof (induction s rule: length_induct)
  case (1 s)
  show ?case
  proof (cases "find_sub d s")
    case (Some ab)
    obtain a b where ab: "ab = (a, b)" by (cases ab)
    then obtain toks where "split_from d b = Some toks"
      using 1 find_sub_shorter Some by blast
    then show ?thesis using Some ab by (subst split_from.simps) simp
  qed (subst split_from.simps, simp)
qed

lemma find_sub_char:
  "find_sub [c] s = (if c \<in> set s then Some (takeWhile (\<lambda>x. x \<noteq> c) s, tl (dropWhile (\<lambda>x. x \<noteq> c) s)) else None)"
  by (induction s) auto

section \<open>Error codes\<close>

datatype YlError = kOk | kRoomIdAlreadyExists | kParticipantAlreadyJoined
  | kNoRoomWithCorrespondingID | kSubscriptionFailed | kPublishFailed | kFailedToJoinRoom
  | kNoStreamWithCorrespondingIdFound | kUnsupportedActions | kErrorUnknown

fun YlErrorToString :: "YlError \<Rightarrow> string" where
  "YlErrorToString kOk = ''Ok.''"
| "YlErrorToString kRoomIdAlreadyExists = ''Room ID already exists.''"
| "YlErrorToString kParticipantAlreadyJoined = ''Participant already joined.''"
| "YlErrorToString kNoRoomWithCorrespondingID = ''No room with corresponding id.''"
| "YlErrorToString kSubscriptionFailed = ''Subscription failed.''"
| "YlErrorToString kPublishFailed = ''Publish failed.''"
| "YlErrorToString kFailedToJoinRoom = ''Failed to join room.''"
| "YlErrorToString kNoStreamWithCorrespondingIdFound = ''No stream with corresponding id found.''"
| "YlErrorToString kUnsupportedActions = ''Unsupported actions.''"
| "YlErrorToString kErrorUnknown = ''Unknown error.''"

section \<open>Memory pool\<close>

record pool_buffer =
  buf_id :: nat
  capacity :: nat

record MemoryPool =
  low_size_list :: "pool_buffer list"
  high_size_list :: "pool_buffer list"

definition kSizeThresholdHalfMTU :: nat where "kSizeThresholdHalfMTU = 750"
definition kSizeThresholdMTU :: nat where "kSizeThresholdMTU = 1500"

text \<open>\<open>use_count\<close> gives the number of owners of a pooled buffer, the list itself included; \<open>fresh\<close>
  names the buffer \<open>new\<close> returns; \<open>enabled\<close> and \<open>max_list\<close> come from the server configuration.\<close>

definition AllocMemory :: "bool \<Rightarrow> nat \<Rightarrow> (pool_buffer \<Rightarrow> nat) \<Rightarrow> nat \<Rightarrow> nat \<Rightarrow> MemoryPool
    \<Rightarrow> pool_buffer \<times> MemoryPool" where
  "AllocMemory enabled max_list use_count fresh sz p =
     (if \<not> enabled then (\<lparr>buf_id = fresh, capacity = sz\<rparr>, p)
      else if sz \<le> kSizeThresholdHalfMTU then
        (case find (\<lambda>m. use_count m = 1) (low_size_list p) of
           Some m \<Rightarrow> (m, p)
         | None \<Rightarrow> let b = \<lparr>buf_id = fresh, capacity = kSizeThresholdHalfMTU\<rparr> in
             (b, if length (low_size_list p) \<le> max_list
                 then p\<lparr>low_size_list := low_size_list p @ [b]\<rparr> else p))
      else if sz \<le> kSizeThresholdMTU then
        (case find (\<lambda>m. use_count m = 1) (high_size_list p) of
           Some m \<Rightarrow> (m, p)
         | None \<Rightarrow> let b = \<lparr>buf_id = fresh, capacity = kSizeThresholdMTU\<rparr> in
             (b, if length (high_size_list p) \<le> max_list
                 then p\<lparr>high_size_list := high_size_list p @ [b]\<rparr> else p))
      else (\<lparr>buf_id = fresh, capacity = sz\<rparr>, p))"

definition pool_ok :: "nat \<Rightarrow> MemoryPool \<Rightarrow> bool" where
  "pool_ok max_list p \<longleftrightarrow>
     (\<forall>b\<in>set (low_size_list p). capacity b = kSizeThresholdHalfMTU)
     \<and> (\<forall>b\<in>set (high_size_list p). capacity b = kSizeThresholdMTU)
     \<and> length (low_size_list p) \<le> Suc max_list \<and> length (high_size_list p) \<le> Suc max_list"

lemma AllocMemory_ok: "pool_ok max_list p \<Longrightarrow> pool_ok max_list (snd (AllocMemory e max_list uc f sz p))"
  by (auto simp: AllocMemory_def pool_ok_def Let_def split: option.split)

lemma AllocMemory_capacity:
  assumes "pool_ok max_list p"
  shows "sz \<le> capacity (fst (AllocMemory e max_list uc f sz p))"
  using assms
  by (auto simp: AllocMemory_def pool_ok_def Let_def split: option.split dest!: find_SomeD)

lemma AllocMemory_unshared:
  "fst (AllocMemory e max_list uc f sz p) = b \<Longrightarrow> buf_id b = f \<or> uc b = 1"
  by (auto simp: AllocMemory_def Let_def find_Some_iff split: if_splits option.splits)

section \<open>Random strings\<close>

definition random_characters :: string where
  "random_characters = ''0123456789abcdefghijklmnopqrstuvwxyz''"

text \<open>The generator's draws, each within the bounds asked for, are given as a list.\<close>

fun RandomString :: "nat list \<Rightarrow> nat \<Rightarrow> string" where
  "RandomString draws 0 = []"
| "RandomString (d # draws) (Suc n) = random_characters ! d # RandomString draws n"
| "RandomString [] (Suc n) = []"

section \<open>Bit rate estimator\<close>

record RateBucket =
  bk_total :: int
  bk_samples :: int
  bk_time :: int

record BitRateEstimator =
  buffers :: "RateBucket list"
  est_total_bytes :: int
  first_timestamp :: int
  est_overflow :: bool
  est_num_samples :: int
  window_size_ms :: int

definition new_estimator :: BitRateEstimator where
  "new_estimator = \<lparr>buffers = [], est_total_bytes = 0, first_timestamp = - 1, est_overflow = False,
                    est_num_samples = 0, window_size_ms = 1000\<rparr>"

fun erase_loop :: "int \<Rightarrow> RateBucket list \<Rightarrow> int \<Rightarrow> int \<Rightarrow> RateBucket list \<times> int \<times> int" where
  "erase_loop oldest [] tot n = ([], tot, n)"
| "erase_loop oldest (b # bs) tot n =
     (if bk_time b < oldest then erase_loop oldest bs (tot - bk_total b) (n - bk_samples b)
      else (b # bs, tot, n))"

definition EraseOld :: "int \<Rightarrow> BitRateEstimator \<Rightarrow> BitRateEstimator" where
  "EraseOld now e =
     (let (bs, tot, n) = erase_loop (now - window_size_ms e + 1) (buffers e) (est_total_bytes e) (est_num_samples e)
      in e\<lparr>buffers := bs, est_total_bytes := tot, est_num_samples := n\<rparr>)"

definition AddData :: "int \<Rightarrow> int \<Rightarrow> BitRateEstimator \<Rightarrow> BitRateEstimator" where
  "AddData bytes now e =
     (let e = EraseOld now e;
          e = (if first_timestamp e = - 1 then e\<lparr>first_timestamp := now\<rparr> else e);
          bs = (if buffers e = [] \<or> now \<noteq> bk_time (last (buffers e))
                then let t = (if buffers e \<noteq> [] \<and> now < bk_time (last (buffers e))
                              then bk_time (last (buffers e)) else now)
                     in buffers e @ [\<lparr>bk_total = 0, bk_samples = 0, bk_time = t\<rparr>]
                else buffers e);
          b = last bs;
          e = e\<lparr>buffers := butlast bs @ [b\<lparr>bk_total := bk_total b + bytes, bk_samples := bk_samples b + 1\<rparr>]\<rparr>;
          e = (if 2 ^ 63 - 1 - est_total_bytes e > bytes
               then e\<lparr>est_total_bytes := est_total_bytes e + bytes\<rparr> else e\<lparr>est_overflow := True\<rparr>)
      in e\<lparr>est_num_samples := est_num_samples e + 1\<rparr>)"

text \<open>A natural number converted to \<open>float\<close>: 24 significant bits, ties to even.\<close>

fun float_shift :: "nat \<Rightarrow> nat" where
  "float_shift x = (if x < 2 ^ 24 then 0 else Suc (float_shift (x div 2)))"

declare float_shift.simps [simp del]

definition round_float :: "nat \<Rightarrow> nat" where
  "round_float x =
     (let k = float_shift x; q = x div 2 ^ k; r = x mod 2 ^ k
      in (if 2 * r > 2 ^ k \<or> 2 * r = 2 ^ k \<and> odd q then q + 1 else q) * 2 ^ k)"

text \<open>Adding \<open>0.5f\<close> and truncating: exact below \<open>2^23\<close>, a tie to even below \<open>2^24\<close>, absorbed above.\<close>

definition half_up_float :: "nat \<Rightarrow> nat" where
  "half_up_float y = (if 2 ^ 23 \<le> y \<and> y < 2 ^ 24 \<and> odd y then y + 1 else y)"

definition EstimatorRate :: "int \<Rightarrow> BitRateEstimator \<Rightarrow> int option \<times> BitRateEstimator" where
  "EstimatorRate now e =
     (let e = EraseOld now e;
          active = (if first_timestamp e \<noteq> - 1
                    then if first_timestamp e \<le> now - window_size_ms e then window_size_ms e
                         else now - first_timestamp e + 1
                    else 0)
      in if est_num_samples e = 0 \<or> active \<le> 1
            \<or> est_num_samples e \<le> 1 \<and> active < window_size_ms e \<or> est_overflow e then (None, e)
         else let result = half_up_float (round_float (nat (cdiv (est_total_bytes e * 1000) active * 8)))
              in if 2 ^ 63 < result then (None, e) else (Some (int result), e))"

subsection \<open>The estimator counts the bytes of the last second\<close>

definition bucket_sum :: "int \<Rightarrow> RateBucket list \<Rightarrow> int" where
  "bucket_sum T bs = sum_list (map bk_total (filter (\<lambda>b. T \<le> bk_time b) bs))"

definition sample_sum :: "int \<Rightarrow> (int \<times> int) list \<Rightarrow> int" where
  "sample_sum T h = sum_list (map fst (filter (\<lambda>s. T \<le> snd s) h))"

text \<open>\<open>tracks h e\<close>: from the window that ends at the last sample on, the buckets hold the same bytes as
  the samples \<open>h\<close> (pairs of bytes and time), and the running total is that of the buckets.\<close>

definition tracks :: "(int \<times> int) list \<Rightarrow> BitRateEstimator \<Rightarrow> bool" where
  "tracks h e \<longleftrightarrow> window_size_ms e = 1000 \<and> sorted_wrt (<) (map bk_time (buffers e))
     \<and> (\<forall>b\<in>set (buffers e). 0 \<le> bk_total b \<and> (h \<noteq> [] \<longrightarrow> bk_time b \<le> snd (last h)))
     \<and> est_total_bytes e = sum_list (map bk_total (buffers e))
     \<and> (if h = [] then buffers e = []
        else \<forall>T \<ge> snd (last h) - 999. bucket_sum T (buffers e) = sample_sum T h)"

lemma filter_sorted_all:
  "sorted_wrt (<) (map bk_time (b # bs)) \<Longrightarrow> T \<le> bk_time b \<Longrightarrow> filter (\<lambda>b. T \<le> bk_time b) (b # bs) = b # bs"
  by (fastforce simp: filter_id_conv)

lemma erase_loop_buckets:
  "sorted_wrt (<) (map bk_time bs) \<Longrightarrow> fst (erase_loop T bs t n) = filter (\<lambda>b. T \<le> bk_time b) bs"
proof (induction T bs t n rule: erase_loop.induct)
  case (2 T b bs t n)
  then show ?case using filter_sorted_all [of b bs T] by (cases "bk_time b < T") (auto simp del: filter.simps, simp)
qed simp

lemma erase_loop_total:
  "sorted_wrt (<) (map bk_time bs) \<Longrightarrow>
   fst (snd (erase_loop T bs t n)) = t - sum_list (map bk_total bs) + bucket_sum T bs"
proof (induction T bs t n rule: erase_loop.induct)
  case (2 T b bs t n)
  show ?case
  proof (cases "bk_time b < T")
    case False
    then show ?thesis using filter_sorted_all [of b bs T] 2 by (simp add: bucket_sum_def del: filter.simps)
  qed (use 2 in \<open>simp add: bucket_sum_def\<close>)
qed (simp add: bucket_sum_def)

lemma EraseOld_simps:
  assumes "sorted_wrt (<) (map bk_time (buffers e))" "window_size_ms e = 1000"
    and "est_total_bytes e = sum_list (map bk_total (buffers e))"
  shows "buffers (EraseOld now e) = filter (\<lambda>b. now - 999 \<le> bk_time b) (buffers e)"
    and "est_total_bytes (EraseOld now e) = bucket_sum (now - 999) (buffers e)"
    and "window_size_ms (EraseOld now e) = 1000" "est_overflow (EraseOld now e) = est_overflow e"
    and "first_timestamp (EraseOld now e) = first_timestamp e"
  using erase_loop_buckets [OF assms(1)] erase_loop_total [OF assms(1)] assms(2,3)
  by (auto simp: EraseOld_def Let_def split: prod.splits)
     (metis fst_conv snd_conv diff_self add_0 add.commute)+

text \<open>What \<open>AddData\<close> does to the buckets that survive the erasing, when the clock has not gone back.\<close>

definition add_bucket :: "int \<Rightarrow> int \<Rightarrow> RateBucket list \<Rightarrow> RateBucket list" where
  "add_bucket bytes now bs =
     (if bs = [] \<or> now \<noteq> bk_time (last bs) then bs @ [\<lparr>bk_total = bytes, bk_samples = 1, bk_time = now\<rparr>]
      else butlast bs @ [(last bs)\<lparr>bk_total := bk_total (last bs) + bytes, bk_samples := bk_samples (last bs) + 1\<rparr>])"

lemma AddData_simps:
  assumes "\<forall>b\<in>set (buffers (EraseOld now e)). bk_time b \<le> now"
    and "est_total_bytes (EraseOld now e) + bytes < 2 ^ 63 - 1" "window_size_ms (EraseOld now e) = w"
  shows "buffers (AddData bytes now e) = add_bucket bytes now (buffers (EraseOld now e))"
    and "est_total_bytes (AddData bytes now e) = est_total_bytes (EraseOld now e) + bytes"
    and "est_overflow (AddData bytes now e) = est_overflow (EraseOld now e)"
    and "window_size_ms (AddData bytes now e) = w"
proof -
  have "\<not> now < bk_time (last (buffers (EraseOld now e)))" if "buffers (EraseOld now e) \<noteq> []"
    using that assms(1) last_in_set by (fastforce simp: not_less)
  then show "buffers (AddData bytes now e) = add_bucket bytes now (buffers (EraseOld now e))"
    "est_total_bytes (AddData bytes now e) = est_total_bytes (EraseOld now e) + bytes"
    "est_overflow (AddData bytes now e) = est_overflow (EraseOld now e)"
    "window_size_ms (AddData bytes now e) = w"
    using assms(2,3) by (auto simp: AddData_def Let_def add_bucket_def)
qed

lemma bucket_sum_le: "\<forall>b\<in>set bs. 0 \<le> bk_total b \<Longrightarrow> bucket_sum T bs \<le> sum_list (map bk_total bs)"
  by (induction bs) (auto simp: bucket_sum_def)

lemma add_bucket_sum:
  "bucket_sum T (add_bucket bytes now bs) = bucket_sum T bs + (if T \<le> now then bytes else 0)"
proof (cases "bs = [] \<or> now \<noteq> bk_time (last bs)")
  case False
  then have "bs = butlast bs @ [last bs]" by simp
  then have "bucket_sum T bs = bucket_sum T (butlast bs @ [last bs])" by simp
  then show ?thesis using False by (simp add: add_bucket_def bucket_sum_def)
qed (simp add: add_bucket_def bucket_sum_def)

lemma add_bucket_total: "sum_list (map bk_total (add_bucket bytes now bs)) = sum_list (map bk_total bs) + bytes"
proof (cases "bs = [] \<or> now \<noteq> bk_time (last bs)")
  case False
  then have "bs = butlast bs @ [last bs]" by simp
  then have "sum_list (map bk_total bs) = sum_list (map bk_total (butlast bs @ [last bs]))" by simp
  then show ?thesis using False by (simp add: add_bucket_def)
qed (simp add: add_bucket_def)

lemma add_bucket_times:
  assumes "sorted_wrt (<) (map bk_time bs)" "\<forall>b\<in>set bs. bk_time b \<le> now"
  shows "sorted_wrt (<) (map bk_time (add_bucket bytes now bs))"
proof (cases "bs = [] \<or> now \<noteq> bk_time (last bs)")
  case True
  have "bk_time b < now" if "b \<in> set bs" for b
  proof -
    from that have "bs \<noteq> []" by auto
    then have "bs = butlast bs @ [last bs]" by simp
    then have "sorted_wrt (<) (map bk_time (butlast bs @ [last bs]))" "b \<in> set (butlast bs @ [last bs])"
      using assms(1) that by simp_all
    then have "bk_time b \<le> bk_time (last bs)" by (auto simp: sorted_wrt_append)
    moreover have "bk_time (last bs) < now" using True that assms(2) last_in_set [of bs] by fastforce
    ultimately show ?thesis by simp
  qed
  then show ?thesis using True assms(1) by (auto simp: add_bucket_def sorted_wrt_append)
next
  case False
  then have "map bk_time bs = map bk_time (butlast bs) @ [bk_time (last bs)]"
    by (metis append_butlast_last_id list.simps(8,9) map_append)
  then show ?thesis using False assms(1) by (simp add: add_bucket_def)
qed

lemma add_bucket_bounds:
  assumes "\<forall>b\<in>set bs. 0 \<le> bk_total b \<and> bk_time b \<le> now" "0 \<le> bytes"
  shows "\<forall>b\<in>set (add_bucket bytes now bs). 0 \<le> bk_total b \<and> bk_time b \<le> now"
  using assms last_in_set [of bs] by (auto simp: add_bucket_def dest: in_set_butlastD)

lemma AddData_tracks:
  assumes "tracks h e" "\<not> est_overflow e" "0 \<le> bytes" "h \<noteq> [] \<longrightarrow> snd (last h) \<le> now"
    and "est_total_bytes e + bytes < 2 ^ 63 - 1"
  shows "tracks (h @ [(bytes, now)]) (AddData bytes now e)" and "\<not> est_overflow (AddData bytes now e)"
    and "est_total_bytes (AddData bytes now e) \<le> est_total_bytes e + bytes"
proof -
  note tr = assms(1) [unfolded tracks_def]
  let ?e = "EraseOld now e" and ?bs = "filter (\<lambda>b. now - 999 \<le> bk_time b) (buffers e)"
  have srt: "sorted_wrt (<) (map bk_time (buffers e))" and win: "window_size_ms e = 1000"
    and tot: "est_total_bytes e = sum_list (map bk_total (buffers e))" using tr by simp_all
  note er = EraseOld_simps [OF srt win tot, of now]
  have old: "\<forall>b\<in>set (buffers e). 0 \<le> bk_total b \<and> bk_time b \<le> now"
    using tr assms(4) by (cases "h = []") force+
  have le: "est_total_bytes ?e \<le> est_total_bytes e"
    unfolding er(2) tot using old by (intro bucket_sum_le) auto
  have bs: "buffers ?e = ?bs" "\<forall>b\<in>set ?bs. 0 \<le> bk_total b \<and> bk_time b \<le> now"
    using er(1) old by auto
  have srt2: "sorted_wrt (<) (map bk_time ?bs)"
    using srt by (simp add: sorted_wrt_map sorted_wrt_filter)
  have "\<forall>b\<in>set (buffers ?e). bk_time b \<le> now" using bs by simp
  moreover have "est_total_bytes ?e + bytes < 2 ^ 63 - 1" using le assms(5) by linarith
  ultimately have ad: "buffers (AddData bytes now e) = add_bucket bytes now ?bs"
    "est_total_bytes (AddData bytes now e) = est_total_bytes ?e + bytes"
    "est_overflow (AddData bytes now e) = est_overflow e" "window_size_ms (AddData bytes now e) = 1000"
    using AddData_simps [of now e bytes 1000] bs(1) er by simp_all
  have hist: "bucket_sum T (buffers e) = sample_sum T h" if "now - 999 \<le> T" for T
    using tr assms(4) that by (cases "h = []") (auto simp: bucket_sum_def sample_sum_def)
  have "bucket_sum T (add_bucket bytes now ?bs) = sample_sum T (h @ [(bytes, now)])"
    if "now - 999 \<le> T" for T
  proof -
    have "filter (\<lambda>b. T \<le> bk_time b) ?bs = filter (\<lambda>b. T \<le> bk_time b) (buffers e)"
      using that by (auto simp: filter_filter intro: filter_cong)
    then have "bucket_sum T ?bs = sample_sum T h" using hist [OF that] by (simp add: bucket_sum_def)
    then show ?thesis by (simp add: add_bucket_sum sample_sum_def)
  qed
  moreover have "sum_list (map bk_total ?bs) = est_total_bytes ?e" by (simp add: er(2) bucket_sum_def)
  ultimately show "tracks (h @ [(bytes, now)]) (AddData bytes now e)"
    using ad add_bucket_times [OF srt2] add_bucket_bounds [OF bs(2) assms(3)] bs(2)
    by (simp add: tracks_def add_bucket_total)
  show "\<not> est_overflow (AddData bytes now e)" using ad assms(2) by simp
  show "est_total_bytes (AddData bytes now e) \<le> est_total_bytes e + bytes" using ad le by simp
qed

fun run_estimator :: "(int \<times> int) list \<Rightarrow> BitRateEstimator \<Rightarrow> BitRateEstimator" where
  "run_estimator [] e = e"
| "run_estimator ((bytes, now) # h) e = run_estimator h (AddData bytes now e)"

lemma run_estimator_tracks:
  assumes "tracks h e" "\<not> est_overflow e" "\<forall>s\<in>set h'. 0 \<le> fst s"
    and "sorted (map snd (h @ h'))" "est_total_bytes e + sum_list (map fst h') < 2 ^ 63 - 1"
  shows "tracks (h @ h') (run_estimator h' e) \<and> \<not> est_overflow (run_estimator h' e)"
  using assms
proof (induction h' arbitrary: h e)
  case (Cons s h')
  obtain bytes now where s: "s = (bytes, now)" by (cases s)
  have nn: "0 \<le> sum_list (map fst h')" using Cons.prems(3) by (intro sum_list_nonneg) auto
  have last: "h \<noteq> [] \<longrightarrow> snd (last h) \<le> now"
    using Cons.prems(4) s by (auto simp: sorted_append)
  have step: "tracks (h @ [s]) (AddData bytes now e)" "\<not> est_overflow (AddData bytes now e)"
    "est_total_bytes (AddData bytes now e) \<le> est_total_bytes e + bytes"
    using AddData_tracks [OF Cons.prems(1,2) _ last] Cons.prems(3,5) nn s by auto
  have rest: "\<forall>s\<in>set h'. 0 \<le> fst s" "sorted (map snd ((h @ [s]) @ h'))"
    "est_total_bytes (AddData bytes now e) + sum_list (map fst h') < 2 ^ 63 - 1"
    using Cons.prems(3,4,5) step(3) s by auto
  show ?case using Cons.IH [OF step(1,2) rest] s by simp
qed simp

section \<open>Properties\<close>

text \<open>The rate the estimator reports is computed from exactly the bytes of the last 1000 milliseconds:
  after any sequence of samples with a clock that does not go back, the running total that
  \<open>Rate\<close> divides is the sum of the samples of that window, and nothing has overflowed.\<close>

theorem estimator_counts_window:
  assumes "\<forall>s\<in>set h. 0 \<le> fst s" "sorted (map snd h)" "sum_list (map fst h) < 2 ^ 63 - 1"
    and "h \<noteq> []" "snd (last h) \<le> now"
  shows "est_total_bytes (snd (EstimatorRate now (run_estimator h new_estimator)))
      = sum_list (map fst (filter (\<lambda>s. now - 1000 < snd s) h))
    \<and> \<not> est_overflow (run_estimator h new_estimator)"
proof -
  let ?e = "run_estimator h new_estimator"
  have tr: "tracks h ?e" and ov: "\<not> est_overflow ?e"
    using run_estimator_tracks [of "[]" new_estimator h] assms(1-3)
    by (simp_all add: tracks_def new_estimator_def)
  have "est_total_bytes (snd (EstimatorRate now ?e)) = est_total_bytes (EraseOld now ?e)"
    by (simp add: EstimatorRate_def Let_def)
  also have "\<dots> = bucket_sum (now - 999) (buffers ?e)"
    using tr by (intro EraseOld_simps(2)) (simp_all add: tracks_def)
  also have "\<dots> = sample_sum (now - 999) h"
    using tr assms(4,5) by (simp add: tracks_def)
  also have "\<dots> = sum_list (map fst (filter (\<lambda>s. now - 1000 < snd s) h))"
    by (auto simp: sample_sum_def intro!: arg_cong [of _ _ sum_list] map_cong filter_cong)
  finally show ?thesis using ov by simp
qed

theorem estimator_counts_window_witness:
  "est_total_bytes (snd (EstimatorRate 3000 (run_estimator [(100, 1000), (200, 2500), (50, 2500), (70, 2999)] new_estimator)))
      = 320 \<and> \<not> est_overflow (run_estimator [(100, 1000), (200, 2500), (50, 2500), (70, 2999)] new_estimator)"
  using estimator_counts_window [of "[(100, 1000), (200, 2500), (50, 2500), (70, 2999)]" 3000] by simp

text \<open>NTP time keeps milliseconds: converting a time in milliseconds to the 32.32 fixed point format
  and back returns it, for every time whose seconds fit in 32 bits.\<close>

theorem ntp_millis_roundtrip:
  assumes "unat m < 1000 * 2 ^ 32"
  shows "ToMillis (CreateFromMillis m) = int (unat m)"
proof -
  let ?r = "unat m mod 1000"
  have "(int (?r * 2 ^ 32 div 1000) * 1000 + 2 ^ 31) div 2 ^ 32 = int ?r"
  proof -
    let ?q = "?r * 2 ^ 32 div 1000"
    have "?q * 1000 \<le> ?r * 2 ^ 32" "?r * 2 ^ 32 < ?q * 1000 + 1000"
      using div_mult_mod_eq [of "?r * 2 ^ 32" 1000] mod_less_divisor [of 1000 "?r * 2 ^ 32"] by linarith+
    then have "(?q * 1000 + 2 ^ 31) div 2 ^ 32 = ?r" by (intro div_nat_eqI) simp_all
    then have "int ((?q * 1000 + 2 ^ 31) div 2 ^ 32) = int ?r" by (simp only:)
    then show ?thesis by (simp add: zdiv_int)
  qed
  then show ?thesis
    using CreateFromMillis_fields [OF assms] unfolding ToMillis_def
    by (simp only:) (metis of_nat_add of_nat_mult of_nat_numeral mult_div_mod_eq)
qed

theorem ntp_millis_roundtrip_witness: "ToMillis (CreateFromMillis 1700000000123) = 1700000000123"
  using ntp_millis_roundtrip [of 1700000000123] by simp

text \<open>The fields between single delimiter elements, as a specification of the split.\<close>

fun fields :: "'a \<Rightarrow> 'a list \<Rightarrow> 'a list list" where
  "fields c [] = [[]]"
| "fields c (x # xs) = (if x = c then [] # fields c xs
     else case fields c xs of [] \<Rightarrow> [[x]] | f # fs \<Rightarrow> (x # f) # fs)"

lemma fields_not_in: "c \<notin> set s \<Longrightarrow> fields c s = [s]"
  by (induction s) auto

lemma fields_in:
  "c \<in> set s \<Longrightarrow> fields c s = takeWhile (\<lambda>x. x \<noteq> c) s # fields c (tl (dropWhile (\<lambda>x. x \<noteq> c) s))"
  by (induction s) auto

text \<open>Splitting at a one-character delimiter, as the SDP code does at spaces and semicolons, returns,
  and what it returns are the non-empty fields between the delimiters, in order.\<close>

theorem StringSplit_char: "StringSplit s [c] = Some (filter (\<lambda>t. t \<noteq> []) (fields c s))"
  unfolding StringSplit_def
proof (induction s rule: length_induct)
  case (1 s)
  show ?case
  proof (cases "c \<in> set s")
    case True
    let ?tok = "takeWhile (\<lambda>x. x \<noteq> c) s" and ?rest = "tl (dropWhile (\<lambda>x. x \<noteq> c) s)"
    have f: "find_sub [c] s = Some (?tok, ?rest)" using True by (simp add: find_sub_char)
    then have "split_from [c] ?rest = Some (filter (\<lambda>t. t \<noteq> []) (fields c ?rest))"
      using 1 find_sub_shorter [OF f] by blast
    then show ?thesis using f True by (simp add: split_from.simps [of "[c]" s] fields_in)
  next
    case False
    then show ?thesis by (simp add: split_from.simps [of "[c]" s] find_sub_char fields_not_in)
  qed
qed

text \<open>A pooled allocation is large enough and is not shared: the buffer is fresh, or the pool is its
  only owner.\<close>

theorem AllocMemory_safe:
  assumes "pool_ok max_list p" "AllocMemory enabled max_list use_count fresh sz p = (b, p')"
  shows "sz \<le> capacity b \<and> (buf_id b = fresh \<or> use_count b = 1) \<and> pool_ok max_list p'"
  using AllocMemory_ok [OF assms(1), of enabled use_count fresh sz]
    AllocMemory_capacity [OF assms(1), of sz enabled use_count fresh]
    AllocMemory_unshared [of enabled max_list use_count fresh sz p b] assms(2) by simp

theorem AllocMemory_safe_witness:
  "700 \<le> capacity \<lparr>buf_id = 5, capacity = 750\<rparr>
   \<and> (buf_id \<lparr>buf_id = 5, capacity = 750\<rparr> = 9 \<or> (\<lambda>b. if buf_id b = 5 then 1 else (2::nat)) \<lparr>buf_id = 5, capacity = 750\<rparr> = 1)
   \<and> pool_ok 3 \<lparr>low_size_list = [\<lparr>buf_id = 4, capacity = 750\<rparr>, \<lparr>buf_id = 5, capacity = 750\<rparr>], high_size_list = []\<rparr>"
  by (rule AllocMemory_safe [where enabled = True
        and p = "\<lparr>low_size_list = [\<lparr>buf_id = 4, capacity = 750\<rparr>, \<lparr>buf_id = 5, capacity = 750\<rparr>], high_size_list = []\<rparr>"])
    (simp_all add: pool_ok_def AllocMemory_def kSizeThresholdHalfMTU_def)

end
