(* ===== verification/Json.thy ===== *)
theory Json
  imports Base_Utils "HOL-Library.AList"
begin

text \<open>
  The JSON values of the program. The code uses nlohmann's library through a few documented operations: lookup
  (\<open>find\<close>, \<open>at\<close>), assignment to a key, \<open>erase\<close>, iteration, and conversion to integers and strings. An object has
  one value per key, in the order of the keys. \<open>Fails\<close> is an exception. With it the numbers in strings, as
  \<open>std::to_string\<close>, \<open>std::stol\<close> and \<open>std::stoi\<close> write and read them.
\<close>

section \<open>Values\<close>

datatype json = JNull | JBool bool | JInt int | JString string | JArray "json list" | JObject "(string \<times> json) list"

text \<open>\<open>find\<close> on a value that is no object finds nothing, \<open>at\<close> throws.\<close>

fun json_at :: "string \<Rightarrow> json \<Rightarrow> json option" where
  "json_at k (JObject fs) = map_of fs k"
| "json_at k _ = None"

definition json_get :: "string \<Rightarrow> json \<Rightarrow> json outcome" where
  "json_get k j = of_option (json_at k j)"

fun key_less :: "string \<Rightarrow> string \<Rightarrow> bool" where
  "key_less s [] = False"
| "key_less [] (d # t) = True"
| "key_less (c # s) (d # t) = (of_char c < (of_char d :: nat) \<or> c = d \<and> key_less s t)"

fun json_put :: "string \<Rightarrow> json \<Rightarrow> (string \<times> json) list \<Rightarrow> (string \<times> json) list" where
  "json_put k v [] = [(k, v)]"
| "json_put k v ((k', v') # fs) =
     (if k = k' then (k, v) # fs else if key_less k k' then (k, v) # (k', v') # fs else (k', v') # json_put k v fs)"

definition json_erase :: "string \<Rightarrow> (string \<times> json) list \<Rightarrow> (string \<times> json) list" where
  "json_erase k = AList.delete k"

lemma map_of_json_put [simp]: "map_of (json_put k v fs) = (map_of fs)(k \<mapsto> v)"
  by (induction fs rule: json_put.induct) (auto intro!: ext)

lemma map_of_json_erase [simp]: "map_of (json_erase k fs) = (map_of fs)(k := None)"
  unfolding json_erase_def by (rule delete_conv')

text \<open>Iteration: a value that is neither array nor object is its own only element.\<close>

fun json_elements :: "json \<Rightarrow> json list" where
  "json_elements JNull = []"
| "json_elements (JArray xs) = xs"
| "json_elements (JObject fs) = map snd fs"
| "json_elements j = [j]"

fun json_map_elements :: "(json \<Rightarrow> json) \<Rightarrow> json \<Rightarrow> json" where
  "json_map_elements f JNull = JNull"
| "json_map_elements f (JArray xs) = JArray (map f xs)"
| "json_map_elements f (JObject fs) = JObject (map (apsnd f) fs)"
| "json_map_elements f j = f j"

fun json_empty :: "json \<Rightarrow> bool" where
  "json_empty JNull \<longleftrightarrow> True"
| "json_empty (JArray xs) \<longleftrightarrow> xs = []"
| "json_empty (JObject fs) \<longleftrightarrow> fs = []"
| "json_empty j \<longleftrightarrow> False"

text \<open>\<open>operator[]\<close> with an index on an array that has it; on objects and plain values it throws.\<close>

fun json_first :: "json \<Rightarrow> json outcome" where
  "json_first (JArray (x # xs)) = Returns x"
| "json_first _ = Fails"

text \<open>Conversions. A number goes to any integer type, and so does a Boolean.\<close>

fun json_int :: "json \<Rightarrow> int outcome" where
  "json_int (JInt n) = Returns n"
| "json_int (JBool b) = Returns (if b then 1 else 0)"
| "json_int _ = Fails"

fun json_string :: "json \<Rightarrow> string outcome" where
  "json_string (JString s) = Returns s"
| "json_string _ = Fails"

fun json_bool :: "json \<Rightarrow> bool outcome" where
  "json_bool (JBool b) = Returns b"
| "json_bool _ = Fails"

definition json_get_int :: "string \<Rightarrow> json \<Rightarrow> int outcome" where
  "json_get_int k j = bind_outcome (json_get k j) json_int"

definition json_get_string :: "string \<Rightarrow> json \<Rightarrow> string outcome" where
  "json_get_string k j = bind_outcome (json_get k j) json_string"

section \<open>Texts that can be written\<close>

text \<open>The library writes a value out only if its strings are UTF-8, else \<open>dump\<close> throws. What UTF-8 is: a first byte says
  how many bytes follow and in which range the next of them is.\<close>

definition utf8_lead :: "nat \<Rightarrow> (nat \<times> nat \<times> nat) option" where
  "utf8_lead n =
     (if n < 0x80 then Some (0, 0x80, 0xBF)
      else if n < 0xC2 then None
      else if n < 0xE0 then Some (1, 0x80, 0xBF)
      else if n < 0xF0 then Some (2, if n = 0xE0 then 0xA0 else 0x80, if n = 0xED then 0x9F else 0xBF)
      else if n < 0xF5 then Some (3, if n = 0xF0 then 0x90 else 0x80, if n = 0xF4 then 0x8F else 0xBF)
      else None)"

fun utf8_rest :: "nat \<Rightarrow> nat \<Rightarrow> nat \<Rightarrow> string \<Rightarrow> bool" where
  "utf8_rest k lo hi [] \<longleftrightarrow> k = 0"
| "utf8_rest k lo hi (c # s) \<longleftrightarrow>
     (if k = 0 then (case utf8_lead (of_char c) of None \<Rightarrow> False | Some (j, l, h) \<Rightarrow> utf8_rest j l h s)
      else lo \<le> of_char c \<and> of_char c \<le> hi \<and> utf8_rest (k - 1) 0x80 0xBF s)"

definition utf8 :: "string \<Rightarrow> bool" where
  "utf8 = utf8_rest 0 0x80 0xBF"

fun json_utf8 :: "json \<Rightarrow> bool" where
  "json_utf8 (JString s) \<longleftrightarrow> utf8 s"
| "json_utf8 (JArray xs) \<longleftrightarrow> list_all json_utf8 xs"
| "json_utf8 (JObject fs) \<longleftrightarrow> list_all (\<lambda>(k, v). utf8 k \<and> json_utf8 v) fs"
| "json_utf8 _ \<longleftrightarrow> True"

lemma utf8_Nil [simp]: "utf8 []"
  by (simp add: utf8_def)

lemma utf8_ascii_Cons [simp]: "(of_char c :: nat) < 0x80 \<Longrightarrow> utf8 (c # s) = utf8 s"
  by (simp add: utf8_def utf8_lead_def)

lemma utf8_rest_lead: "utf8_rest 0 lo hi s = utf8 s"
  by (cases s) (simp_all add: utf8_def)

lemma utf8_lead_bound: "utf8_lead n = Some (k, lo, hi) \<Longrightarrow> 0x80 \<le> lo"
  by (auto simp: utf8_lead_def split: if_splits)

lemma utf8_rest_append:
  "0x80 \<le> lo \<Longrightarrow> (of_char c :: nat) < 0x80 \<Longrightarrow> utf8_rest k lo hi (s @ c # t) \<longleftrightarrow> utf8_rest k lo hi s \<and> utf8 t"
proof (induction k lo hi s rule: utf8_rest.induct)
  case (1 k lo hi)
  then show ?case by (cases k) (auto simp: utf8_lead_def utf8_rest_lead)
next
  case (2 k lo hi d s)
  show ?case
  proof (cases "k = 0")
    case True
    then show ?thesis using 2(1) [OF True _ refl refl _ 2(4)] utf8_lead_bound by (auto split: option.split)
  qed (use 2 in auto)
qed

lemma utf8_append: "(of_char c :: nat) < 0x80 \<Longrightarrow> utf8 (s @ c # t) \<longleftrightarrow> utf8 s \<and> utf8 t"
  by (simp add: utf8_def utf8_rest_append)

lemma put_json_utf8:
  "utf8 k \<Longrightarrow> json_utf8 v \<Longrightarrow> json_utf8 (JObject fs) \<Longrightarrow> json_utf8 (JObject (json_put k v fs))"
  by (induction k v fs rule: json_put.induct) auto

lemma json_utf8_at: "json_utf8 j \<Longrightarrow> json_at k j = Some v \<Longrightarrow> json_utf8 v"
  by (induction k j rule: json_at.induct) (auto simp: list_all_iff dest!: map_of_SomeD)

section \<open>Loops that may throw\<close>

fun fold_outcome :: "('a \<Rightarrow> 's \<Rightarrow> 's outcome) \<Rightarrow> 'a list \<Rightarrow> 's \<Rightarrow> 's outcome" where
  "fold_outcome f [] s = Returns s"
| "fold_outcome f (x # xs) s = bind_outcome (f x s) (fold_outcome f xs)"

fun map_outcome :: "('a \<Rightarrow> 'b outcome) \<Rightarrow> 'a list \<Rightarrow> 'b list outcome" where
  "map_outcome f [] = Returns []"
| "map_outcome f (x # xs) = bind_outcome (f x) (\<lambda>y. bind_outcome (map_outcome f xs) (\<lambda>ys. Returns (y # ys)))"

text \<open>\<open>std::remove_if\<close> with \<open>erase\<close>: a pass over the values, with a predicate that may write to a state.
  \<open>keep\<close> is the negated predicate. In an object the values that stay move to the front keys.\<close>

fun filter_outcome :: "('a \<Rightarrow> 's \<Rightarrow> (bool \<times> 's) outcome) \<Rightarrow> 'a list \<Rightarrow> 's \<Rightarrow> ('a list \<times> 's) outcome" where
  "filter_outcome keep [] s = Returns ([], s)"
| "filter_outcome keep (x # xs) s =
     bind_outcome (keep x s) (\<lambda>(b, s). bind_outcome (filter_outcome keep xs s) (\<lambda>(ys, s). Returns (if b then x # ys else ys, s)))"

fun json_filter :: "(json \<Rightarrow> 's \<Rightarrow> (bool \<times> 's) outcome) \<Rightarrow> json \<Rightarrow> 's \<Rightarrow> (json \<times> 's) outcome" where
  "json_filter keep (JArray xs) s = bind_outcome (filter_outcome keep xs s) (\<lambda>(ys, s). Returns (JArray ys, s))"
| "json_filter keep (JObject fs) s =
     bind_outcome (filter_outcome keep (map snd fs) s) (\<lambda>(ys, s). Returns (JObject (zip (map fst fs) ys), s))"
| "json_filter keep _ s = Fails"

fun json_map_outcome :: "(json \<Rightarrow> json outcome) \<Rightarrow> json \<Rightarrow> json outcome" where
  "json_map_outcome f (JArray xs) = bind_outcome (map_outcome f xs) (\<lambda>ys. Returns (JArray ys))"
| "json_map_outcome f (JObject fs) = bind_outcome (map_outcome f (map snd fs)) (\<lambda>ys. Returns (JObject (zip (map fst fs) ys)))"
| "json_map_outcome f JNull = Returns JNull"
| "json_map_outcome f j = f j"

text \<open>Assignment to a key that is there, and the fields of an object one after the other.\<close>

fun json_replace :: "string \<Rightarrow> json \<Rightarrow> json \<Rightarrow> json" where
  "json_replace k v (JObject fs) = JObject (if map_of fs k \<noteq> None then json_put k v fs else fs)"
| "json_replace k v j = j"

definition update_field :: "string \<Rightarrow> (json \<Rightarrow> json) \<Rightarrow> (string \<times> json) list \<Rightarrow> (string \<times> json) list" where
  "update_field k f fs = (case map_of fs k of None \<Rightarrow> fs | Some j \<Rightarrow> json_put k (f j) fs)"

definition map_field :: "string \<Rightarrow> (json \<Rightarrow> json outcome) \<Rightarrow> (string \<times> json) list \<Rightarrow> (string \<times> json) list outcome" where
  "map_field k f fs = (case map_of fs k of None \<Rightarrow> Returns fs
     | Some j \<Rightarrow> bind_outcome (json_map_outcome f j) (\<lambda>j. Returns (json_put k j fs)))"

definition filter_field :: "string \<Rightarrow> (json \<Rightarrow> 's \<Rightarrow> (bool \<times> 's) outcome) \<Rightarrow> (string \<times> json) list \<Rightarrow> 's
    \<Rightarrow> ((string \<times> json) list \<times> 's) outcome" where
  "filter_field k keep fs s = (case map_of fs k of None \<Rightarrow> Returns (fs, s)
     | Some j \<Rightarrow> bind_outcome (json_filter keep j s) (\<lambda>(j, s). Returns (json_put k j fs, s)))"

text \<open>\<open>j[k][l] = v\<close> on an object: a missing or null \<open>j[k]\<close> becomes an object.\<close>

definition put_in :: "string \<Rightarrow> string \<Rightarrow> json \<Rightarrow> (string \<times> json) list \<Rightarrow> (string \<times> json) list outcome" where
  "put_in k l v fs =
     (case map_of fs k of
        Some (JObject gs) \<Rightarrow> Returns (json_put k (JObject (json_put l v gs)) fs)
      | Some JNull \<Rightarrow> Returns (json_put k (JObject [(l, v)]) fs)
      | None \<Rightarrow> Returns (json_put k (JObject [(l, v)]) fs)
      | Some _ \<Rightarrow> Fails)"

lemma map_of_update_field [simp]: "map_of (update_field k f fs) = (map_of fs)(k := map_option f (map_of fs k))"
  by (auto simp: update_field_def split: option.splits intro!: ext)

lemma bind_Returns [simp]: "bind_outcome x Returns = x"
  by (cases x) simp_all

lemma bind_bind: "bind_outcome (bind_outcome x f) g = bind_outcome x (\<lambda>y. bind_outcome (f y) g)"
  by (cases x) simp_all

lemma fold_outcome_total:
  assumes "\<And>x s. x \<in> set xs \<Longrightarrow> I s \<Longrightarrow> \<exists>s'. f x s = Returns s' \<and> I s'"
  shows "I s \<Longrightarrow> \<exists>s'. fold_outcome f xs s = Returns s' \<and> I s'"
  using assms
proof (induction xs arbitrary: s)
  case (Cons x xs)
  obtain t where "f x s = Returns t" "I t" using Cons.prems(2) [of x s] Cons.prems(1) by auto
  then show ?case using Cons.IH [of t] Cons.prems(2) by simp
qed simp

lemma filter_outcome_subset: "filter_outcome keep xs s = Returns (ys, s') \<Longrightarrow> set ys \<subseteq> set xs"
  by (induction xs arbitrary: s ys s') (fastforce simp: bind_outcome_eq_Returns split: if_splits)+

text \<open>What is kept passed the test, in some state of the pass.\<close>

lemma filter_outcome_kept:
  assumes "\<And>x s s'. I s \<Longrightarrow> keep x s = Returns (True, s') \<Longrightarrow> P x" "\<And>x s b s'. I s \<Longrightarrow> keep x s = Returns (b, s') \<Longrightarrow> I s'"
  shows "I s \<Longrightarrow> filter_outcome keep xs s = Returns (ys, s') \<Longrightarrow> \<forall>y\<in>set ys. P y"
proof (induction xs arbitrary: s ys s')
  case (Cons x xs)
  then obtain b t zs where b: "keep x s = Returns (b, t)" "filter_outcome keep xs t = Returns (zs, s')" "ys = (if b then x # zs else zs)"
    by (auto simp: bind_outcome_eq_Returns split: if_splits)
  have "\<forall>y\<in>set zs. P y" using Cons.IH [OF assms(2) [OF Cons.prems(1) b(1)] b(2)] .
  then show ?case using b assms(1) [OF Cons.prems(1)] by auto
qed simp

section \<open>Numbers in strings\<close>

fun decimal :: "nat \<Rightarrow> string" where
  "decimal n = (if n < 10 then [char_of (48 + n)] else decimal (n div 10) @ [char_of (48 + n mod 10)])"

declare decimal.simps [simp del]

definition to_string :: "int \<Rightarrow> string" where
  "to_string i = (if i < 0 then CHR ''-'' # decimal (nat (- i)) else decimal (nat i))"

definition digit_of :: "char \<Rightarrow> nat option" where
  "digit_of c = (let n = of_char c in if 48 \<le> n \<and> n \<le> 57 then Some (n - 48) else None)"

text \<open>The digits at the front of a string and whether there is one.\<close>

fun read_digits :: "nat \<Rightarrow> string \<Rightarrow> nat" where
  "read_digits acc [] = acc"
| "read_digits acc (c # cs) = (case digit_of c of None \<Rightarrow> acc | Some d \<Rightarrow> read_digits (10 * acc + d) cs)"

definition white :: "char \<Rightarrow> bool" where
  "white c \<longleftrightarrow> (let n = of_char c :: nat in n = 32 \<or> 9 \<le> n \<and> n \<le> 13)"

text \<open>\<open>std::stol\<close> and \<open>std::stoi\<close>: white space, a sign, digits; they throw without a digit and when the number
  does not fit in \<open>w\<close> bits.\<close>

definition parse_number :: "nat \<Rightarrow> string \<Rightarrow> int outcome" where
  "parse_number w s =
     (let s = dropWhile white s;
          (neg, ds) = (case s of c # cs \<Rightarrow> if c = CHR ''-'' then (True, cs) else if c = CHR ''+'' then (False, cs) else (False, s)
            | [] \<Rightarrow> (False, []));
          n = int (read_digits 0 ds); i = (if neg then - n else n)
      in if ds = [] \<or> digit_of (hd ds) = None then Fails
         else if i < - (2 ^ (w - 1)) \<or> 2 ^ (w - 1) \<le> i then Fails
         else Returns i)"

definition stol :: "string \<Rightarrow> int outcome" where "stol = parse_number 64"
definition stoi :: "string \<Rightarrow> int outcome" where "stoi = parse_number 32"

lemma digit_of_char: "n < 10 \<Longrightarrow> digit_of (char_of (48 + n)) = Some n"
  by (simp add: digit_of_def Let_def)

lemma read_digits_append: "(\<forall>c\<in>set ds. digit_of c \<noteq> None) \<Longrightarrow> read_digits acc (ds @ t) = read_digits (read_digits acc ds) t"
  by (induction ds arbitrary: acc) (auto split: option.splits)

lemma decimal_digits: "(\<forall>c\<in>set (decimal n). digit_of c \<noteq> None) \<and> decimal n \<noteq> []"
proof (induction n rule: decimal.induct)
  case (1 n)
  show ?case
    by (cases "n < 10") (use 1 in \<open>auto simp: decimal.simps [of n] digit_of_char\<close>)
qed

lemma read_decimal: "read_digits 0 (decimal n) = n"
proof (induction n rule: decimal.induct)
  case (1 n)
  show ?case
  proof (cases "n < 10")
    case True
    then show ?thesis by (simp add: decimal.simps [of n] digit_of_char)
  next
    case False
    then show ?thesis using 1 decimal_digits [of "n div 10"]
      by (simp add: decimal.simps [of n] digit_of_char read_digits_append)
  qed
qed

text \<open>A digit is neither white space nor a sign.\<close>

lemma digit_plain: "digit_of c \<noteq> None \<Longrightarrow> \<not> white c \<and> c \<noteq> CHR ''-'' \<and> c \<noteq> CHR ''+''"
  by (auto simp: digit_of_def white_def Let_def split: if_splits)

text \<open>Reading a number back.\<close>

lemma parse_decimal: "int n < 2 ^ (w - 1) \<Longrightarrow> parse_number w (decimal n) = Returns (int n)"
proof -
  assume n: "int n < 2 ^ (w - 1)"
  obtain c cs where c: "decimal n = c # cs" using decimal_digits [of n] by (cases "decimal n") auto
  have d: "digit_of c \<noteq> None" using decimal_digits [of n] c by simp
  have "\<not> int n < - (2 ^ (w - 1))" by (simp add: not_less order_trans [of _ 0])
  then show ?thesis using n d digit_plain [OF d] read_decimal [of n] unfolding c by (simp add: parse_number_def Let_def)
qed

lemma stol_to_string: "0 \<le> i \<Longrightarrow> i < 2 ^ 63 \<Longrightarrow> stol (to_string i) = Returns i"
  using parse_decimal [of "nat i" 64] by (simp add: stol_def to_string_def)

end
