(* ===== verification/Byte_Buffer.thy ===== *)
theory Byte_Buffer
  imports Prelude
begin

text \<open>
  The byte buffers all wire formats are parsed from and serialised into,
  \<^verbatim>\<open>src/src/base/byte_buffer.{h,cpp}\<close>: big-endian loads and stores, \<open>ByteReader\<close> (a cursor over a
  received datagram) and \<open>ByteWriter\<close> (a cursor over an output buffer). A pointer is the list of
  the bytes it points to; the host is little-endian, as the sources assume.

  The second half states the interface the packet formats use as the locale \<open>wire_codec\<close>: a
  reader and a writer that agree on an encoding. Its lemmas lift the round trip from one element
  to the element loops of the packet formats; the primitive integer formats interpret it here.
\<close>

section \<open>Loads and stores\<close>

definition LoadUInt8BE :: "bytes \<Rightarrow> u8" where
  "LoadUInt8BE d = d ! 0"

definition LoadUInt16BE :: "bytes \<Rightarrow> u16" where
  "LoadUInt16BE d = push_bit 8 (ucast (d ! 0)) OR ucast (d ! 1)"

definition LoadUInt24BE :: "bytes \<Rightarrow> u32" where
  "LoadUInt24BE d = push_bit 16 (ucast (d ! 0)) OR push_bit 8 (ucast (d ! 1)) OR ucast (d ! 2)"

definition LoadUInt32BE :: "bytes \<Rightarrow> u32" where
  "LoadUInt32BE d = push_bit 24 (ucast (d ! 0)) OR push_bit 16 (ucast (d ! 1))
                    OR push_bit 8 (ucast (d ! 2)) OR ucast (d ! 3)"

definition LoadUInt64BE :: "bytes \<Rightarrow> u64" where
  "LoadUInt64BE d = push_bit 56 (ucast (d ! 0)) OR push_bit 48 (ucast (d ! 1))
                    OR push_bit 40 (ucast (d ! 2)) OR push_bit 32 (ucast (d ! 3))
                    OR push_bit 24 (ucast (d ! 4)) OR push_bit 16 (ucast (d ! 5))
                    OR push_bit 8 (ucast (d ! 6)) OR ucast (d ! 7)"

definition StoreUInt8BE :: "u8 \<Rightarrow> bytes" where
  "StoreUInt8BE v = [v]"

definition StoreUInt16BE :: "u16 \<Rightarrow> bytes" where
  "StoreUInt16BE v = [ucast (drop_bit 8 v), ucast v]"

definition StoreUInt24BE :: "u32 \<Rightarrow> bytes" where
  "StoreUInt24BE v = [ucast (drop_bit 16 v), ucast (drop_bit 8 v), ucast v]"

definition StoreUInt32BE :: "u32 \<Rightarrow> bytes" where
  "StoreUInt32BE v = [ucast (drop_bit 24 v), ucast (drop_bit 16 v), ucast (drop_bit 8 v), ucast v]"

definition StoreUInt64BE :: "u64 \<Rightarrow> bytes" where
  "StoreUInt64BE v = [ucast (drop_bit 56 v), ucast (drop_bit 48 v), ucast (drop_bit 40 v),
                      ucast (drop_bit 32 v), ucast (drop_bit 24 v), ucast (drop_bit 16 v),
                      ucast (drop_bit 8 v), ucast v]"

lemma length_Store [simp]:
  "length (StoreUInt8BE a) = 1" "length (StoreUInt16BE b) = 2" "length (StoreUInt24BE c) = 3"
  "length (StoreUInt32BE c) = 4" "length (StoreUInt64BE d) = 8"
  by (simp_all add: StoreUInt8BE_def StoreUInt16BE_def StoreUInt24BE_def StoreUInt32BE_def
      StoreUInt64BE_def)

lemma byte_low: "ucast (ucast v :: u8) = take_bit 8 (v :: 'a::len word)"
  by (rule bit_word_eqI) (auto simp: bit_simps)

lemma byte_step:
  fixes v :: "'a::len word"
  shows "push_bit k (ucast (ucast (drop_bit k v) :: u8)) OR take_bit k v = take_bit (k + 8) v"
proof (rule bit_word_eqI)
  fix n assume n: "n < LENGTH('a)"
  have "n - k < LENGTH('a)" using n by linarith
  then show "bit (push_bit k (ucast (ucast (drop_bit k v) :: u8)) OR take_bit k v) n
      = bit (take_bit (k + 8) v) n"
    using n by (cases "k \<le> n") (auto simp: bit_simps)
qed

lemma Load_Store_8 [simp]: "LoadUInt8BE (StoreUInt8BE v @ xs) = v"
  by (simp add: LoadUInt8BE_def StoreUInt8BE_def)

lemma Load_Store_16 [simp]: "LoadUInt16BE (StoreUInt16BE v @ xs) = v"
  using byte_step [of 8 v] by (simp add: LoadUInt16BE_def StoreUInt16BE_def byte_low take_bit_word_eq_self)

lemma Load_Store_24 [simp]: "LoadUInt24BE (StoreUInt24BE v @ xs) = take_bit 24 v"
  using byte_step [of 8 v] byte_step [of 16 v]
  by (simp add: LoadUInt24BE_def StoreUInt24BE_def byte_low or.assoc)

lemma Load_Store_32 [simp]: "LoadUInt32BE (StoreUInt32BE v @ xs) = v"
  using byte_step [of 8 v] byte_step [of 16 v] byte_step [of 24 v]
  by (simp add: LoadUInt32BE_def StoreUInt32BE_def byte_low or.assoc take_bit_word_eq_self)

lemma Load_Store_64 [simp]: "LoadUInt64BE (StoreUInt64BE v @ xs) = v"
  using byte_step [of 8 v] byte_step [of 16 v] byte_step [of 24 v] byte_step [of 32 v]
    byte_step [of 40 v] byte_step [of 48 v] byte_step [of 56 v]
  by (simp add: LoadUInt64BE_def StoreUInt64BE_def byte_low or.assoc take_bit_word_eq_self)

lemmas Load_Store = Load_Store_8 Load_Store_16 Load_Store_24 Load_Store_32 Load_Store_64

section \<open>ByteReader\<close>

record byte_reader =
  br_bytes :: bytes
  br_start :: nat
  br_end :: nat

definition ByteReader :: "bytes \<Rightarrow> byte_reader" where
  "ByteReader d = \<lparr>br_bytes = d, br_start = 0, br_end = length d\<rparr>"

definition ReaderLeft :: "byte_reader \<Rightarrow> nat" where
  "ReaderLeft r = br_end r - br_start r"

definition CurrentData :: "byte_reader \<Rightarrow> bytes" where
  "CurrentData r = drop (br_start r) (br_bytes r)"

definition ReaderUsed :: "byte_reader \<Rightarrow> nat" where
  "ReaderUsed r = br_start r"

definition ReaderConsume :: "nat \<Rightarrow> byte_reader \<Rightarrow> byte_reader option" where
  "ReaderConsume n r =
     (if ReaderLeft r < n then None else Some (r\<lparr>br_start := br_start r + n\<rparr>))"

definition ReaderBack :: "nat \<Rightarrow> byte_reader \<Rightarrow> byte_reader option" where
  "ReaderBack n r =
     (if br_start r < n then None else Some (r\<lparr>br_start := br_start r - n\<rparr>))"

definition ReadUInt8 :: "byte_reader \<Rightarrow> (u8 \<times> byte_reader) option" where
  "ReadUInt8 r = (if ReaderLeft r < 1 then None
     else Some (CurrentData r ! 0, r\<lparr>br_start := br_start r + 1\<rparr>))"

definition ReadUInt16 :: "byte_reader \<Rightarrow> (u16 \<times> byte_reader) option" where
  "ReadUInt16 r = (if ReaderLeft r < 2 then None
     else Some (LoadUInt16BE (CurrentData r), r\<lparr>br_start := br_start r + 2\<rparr>))"

definition ReadUInt24 :: "byte_reader \<Rightarrow> (u32 \<times> byte_reader) option" where
  "ReadUInt24 r = (if ReaderLeft r < 3 then None
     else Some (LoadUInt24BE (CurrentData r), r\<lparr>br_start := br_start r + 3\<rparr>))"

definition ReadUInt32 :: "byte_reader \<Rightarrow> (u32 \<times> byte_reader) option" where
  "ReadUInt32 r = (if ReaderLeft r < 4 then None
     else Some (LoadUInt32BE (CurrentData r), r\<lparr>br_start := br_start r + 4\<rparr>))"

definition ReadUInt64 :: "byte_reader \<Rightarrow> (u64 \<times> byte_reader) option" where
  "ReadUInt64 r = (if ReaderLeft r < 8 then None
     else Some (LoadUInt64BE (CurrentData r), r\<lparr>br_start := br_start r + 8\<rparr>))"

definition ReadBytes :: "nat \<Rightarrow> byte_reader \<Rightarrow> (bytes \<times> byte_reader) option" where
  "ReadBytes len r = (if ReaderLeft r < len then None
     else Some (take len (CurrentData r), r\<lparr>br_start := br_start r + len\<rparr>))"

definition ReadString :: "bytes \<Rightarrow> nat \<Rightarrow> byte_reader \<Rightarrow> (bytes \<times> byte_reader) option" where
  "ReadString val len r = (if ReaderLeft r < len then None
     else Some (val @ take len (CurrentData r), r\<lparr>br_start := br_start r + len\<rparr>))"

text \<open>The class invariant: the cursor lies within the bytes the reader was built on.\<close>

definition reader_ok :: "byte_reader \<Rightarrow> bool" where
  "reader_ok r \<longleftrightarrow> br_end r = length (br_bytes r) \<and> br_start r \<le> br_end r"

text \<open>Every read only moves the cursor forward.\<close>

definition skip :: "byte_reader \<Rightarrow> nat \<Rightarrow> byte_reader" where
  "skip r n = r\<lparr>br_start := br_start r + n\<rparr>"

lemma skip_0 [simp]: "skip r 0 = r"
  by (simp add: skip_def)

lemma skip_skip [simp]: "skip (skip r m) n = skip r (m + n)"
  by (simp add: skip_def add.assoc)

lemma CurrentData_skip [simp]: "CurrentData (skip r n) = drop n (CurrentData r)"
  by (simp add: skip_def CurrentData_def add.commute)

lemma ReaderLeft_rest: "reader_ok r \<Longrightarrow> ReaderLeft r = length (CurrentData r)"
  by (simp add: reader_ok_def ReaderLeft_def CurrentData_def)

lemma reader_ok_skip: "reader_ok r \<Longrightarrow> reader_ok (skip r n) \<longleftrightarrow> n \<le> length (CurrentData r)"
  by (auto simp: reader_ok_def skip_def CurrentData_def)

lemma br_skip [simp]: "br_bytes (skip r n) = br_bytes r" "br_end (skip r n) = br_end r"
  "br_start (skip r n) = br_start r + n"
  by (simp_all add: skip_def)

lemma ByteReader_ok [simp]: "reader_ok (ByteReader d)" "CurrentData (ByteReader d) = d"
  "br_start (ByteReader d) = 0" "br_bytes (ByteReader d) = d"
  by (simp_all add: ByteReader_def reader_ok_def CurrentData_def)

lemma reader_step:
  "reader_ok r \<Longrightarrow> ReadUInt8 r = (if length (CurrentData r) < 1 then None
     else Some (LoadUInt8BE (CurrentData r), skip r 1))"
  "reader_ok r \<Longrightarrow> ReadUInt16 r = (if length (CurrentData r) < 2 then None
     else Some (LoadUInt16BE (CurrentData r), skip r 2))"
  "reader_ok r \<Longrightarrow> ReadUInt24 r = (if length (CurrentData r) < 3 then None
     else Some (LoadUInt24BE (CurrentData r), skip r 3))"
  "reader_ok r \<Longrightarrow> ReadUInt32 r = (if length (CurrentData r) < 4 then None
     else Some (LoadUInt32BE (CurrentData r), skip r 4))"
  "reader_ok r \<Longrightarrow> ReadUInt64 r = (if length (CurrentData r) < 8 then None
     else Some (LoadUInt64BE (CurrentData r), skip r 8))"
  "reader_ok r \<Longrightarrow> ReadBytes n r = (if length (CurrentData r) < n then None
     else Some (take n (CurrentData r), skip r n))"
  "reader_ok r \<Longrightarrow> ReadString s n r = (if length (CurrentData r) < n then None
     else Some (s @ take n (CurrentData r), skip r n))"
  "reader_ok r \<Longrightarrow> ReaderConsume n r = (if length (CurrentData r) < n then None
     else Some (skip r n))"
  by (simp_all add: ReadUInt8_def ReadUInt16_def ReadUInt24_def ReadUInt32_def ReadUInt64_def
      ReadBytes_def ReadString_def ReaderConsume_def ReaderLeft_rest skip_def LoadUInt8BE_def)

lemmas reader_simps [wire_simps] = reader_step reader_ok_skip ReaderLeft_rest

lemma ReaderBack_ok: "reader_ok r \<Longrightarrow> ReaderBack n r = Some r' \<Longrightarrow> reader_ok r' \<and> r = skip r' n"
  by (auto simp: ReaderBack_def reader_ok_def skip_def split: if_splits)

section \<open>ByteWriter\<close>

record byte_writer =
  bw_bytes :: bytes
  bw_len :: nat
  bw_size :: nat

definition ByteWriter :: "bytes \<Rightarrow> nat \<Rightarrow> byte_writer" where
  "ByteWriter buf sz = \<lparr>bw_bytes = buf, bw_len = 0, bw_size = sz\<rparr>"

definition WriterLeft :: "byte_writer \<Rightarrow> nat" where
  "WriterLeft w = bw_size w - bw_len w"

definition WriterUsed :: "byte_writer \<Rightarrow> nat" where
  "WriterUsed w = bw_len w"

definition put :: "byte_writer \<Rightarrow> bytes \<Rightarrow> byte_writer" where
  "put w d = w\<lparr>bw_bytes := overwrite (bw_bytes w) (bw_len w) d, bw_len := bw_len w + length d\<rparr>"

definition WriteUInt8 :: "u8 \<Rightarrow> byte_writer \<Rightarrow> byte_writer option" where
  "WriteUInt8 v w = (if WriterLeft w < 1 then None else Some (put w (StoreUInt8BE v)))"

definition WriteUInt16 :: "u16 \<Rightarrow> byte_writer \<Rightarrow> byte_writer option" where
  "WriteUInt16 v w = (if WriterLeft w < 2 then None else Some (put w (StoreUInt16BE v)))"

definition WriteUInt24 :: "u32 \<Rightarrow> byte_writer \<Rightarrow> byte_writer option" where
  "WriteUInt24 v w = (if WriterLeft w < 3 then None else Some (put w (StoreUInt24BE v)))"

definition WriteUInt32 :: "u32 \<Rightarrow> byte_writer \<Rightarrow> byte_writer option" where
  "WriteUInt32 v w = (if WriterLeft w < 4 then None else Some (put w (StoreUInt32BE v)))"

definition WriteUInt64 :: "u64 \<Rightarrow> byte_writer \<Rightarrow> byte_writer option" where
  "WriteUInt64 v w = (if WriterLeft w < 8 then None else Some (put w (StoreUInt64BE v)))"

definition WriteBytes :: "bytes \<Rightarrow> byte_writer \<Rightarrow> byte_writer option" where
  "WriteBytes v w = (if WriterLeft w < length v then None else Some (put w v))"

definition WriteString :: "bytes \<Rightarrow> byte_writer \<Rightarrow> byte_writer option" where
  "WriteString v w = WriteBytes v w"

text \<open>\<open>Consume(int)\<close> compares a \<open>size_t\<close> with an \<open>int\<close>: a negative size converts to a huge
  unsigned value and is refused. The bytes passed over keep what the buffer held before.\<close>

definition WriterConsume :: "int \<Rightarrow> byte_writer \<Rightarrow> byte_writer option" where
  "WriterConsume sz w = (if sz < 0 \<or> WriterLeft w < nat sz then None
     else Some (w\<lparr>bw_len := bw_len w + nat sz\<rparr>))"

definition writer_ok :: "byte_writer \<Rightarrow> bool" where
  "writer_ok w \<longleftrightarrow> bw_size w \<le> length (bw_bytes w) \<and> bw_len w \<le> bw_size w"

text \<open>What has been written so far.\<close>

definition written :: "byte_writer \<Rightarrow> bytes" where
  "written w = take (bw_len w) (bw_bytes w)"

lemma ByteWriter_ok [simp]:
  "sz \<le> length buf \<Longrightarrow> writer_ok (ByteWriter buf sz)" "written (ByteWriter buf sz) = []"
  "WriterLeft (ByteWriter buf sz) = sz" "bw_bytes (ByteWriter buf sz) = buf"
  "bw_len (ByteWriter buf sz) = 0" "bw_size (ByteWriter buf sz) = sz"
  by (simp_all add: ByteWriter_def writer_ok_def written_def WriterLeft_def)

lemma put_Nil [simp]: "put w [] = w"
  by (simp add: put_def)

lemma WriterLeft_put [simp]: "WriterLeft (put w d) = WriterLeft w - length d"
  by (simp add: WriterLeft_def put_def)

lemma bw_put [simp]: "bw_len (put w d) = bw_len w + length d" "bw_size (put w d) = bw_size w"
  by (simp_all add: put_def)

lemma writer_fits:
  "writer_ok w \<Longrightarrow> n \<le> WriterLeft w \<Longrightarrow> bw_len w + n \<le> length (bw_bytes w)"
  "writer_ok w \<Longrightarrow> n \<le> WriterLeft w \<Longrightarrow> bw_len w + n \<le> bw_size w"
  by (auto simp: writer_ok_def WriterLeft_def)

lemma put_put:
  assumes "writer_ok w" "length a + length b \<le> WriterLeft w"
  shows "put (put w a) b = put w (a @ b)"
  using writer_fits [OF assms] by (simp add: put_def overwrite_overwrite add.assoc)

lemma writer_ok_put: "writer_ok w \<Longrightarrow> length d \<le> WriterLeft w \<Longrightarrow> writer_ok (put w d)"
  using writer_fits [of w "length d"] by (simp add: put_def writer_ok_def)

lemma written_put:
  "writer_ok w \<Longrightarrow> length d \<le> WriterLeft w \<Longrightarrow> written (put w d) = written w @ d"
  using writer_fits [of w "length d"] by (simp add: put_def written_def take_overwrite)

lemmas writer_defs = WriteUInt8_def WriteUInt16_def WriteUInt24_def WriteUInt32_def
  WriteUInt64_def WriteBytes_def WriteString_def

lemmas writer_simps [wire_simps] = writer_defs put_put writer_ok_put written_put

section \<open>The interface of a wire format\<close>

text \<open>\<open>moved n r r'\<close>: the reader has advanced by \<open>n\<close> bytes of the same buffer.\<close>

definition moved :: "nat \<Rightarrow> byte_reader \<Rightarrow> byte_reader \<Rightarrow> bool" where
  "moved n r r' \<longleftrightarrow> r' = skip r n \<and> reader_ok r'"

lemma moved_trans: "moved m r s \<Longrightarrow> moved n s t \<Longrightarrow> moved (m + n) r t"
  by (auto simp: moved_def)

lemma moved_left: "moved n r r' \<Longrightarrow> length (CurrentData r) = n + length (CurrentData r')"
  by (auto simp: moved_def skip_def reader_ok_def CurrentData_def)

lemma moved_ok: "moved n r r' \<Longrightarrow> reader_ok r'"
  by (auto simp: moved_def)

text \<open>The element loops of the parsers and serialisers.\<close>

fun read_n :: "(byte_reader \<Rightarrow> ('a \<times> byte_reader) option) \<Rightarrow> nat \<Rightarrow> byte_reader
    \<Rightarrow> ('a list \<times> byte_reader) option" where
  "read_n rd 0 r = Some ([], r)"
| "read_n rd (Suc n) r = do {
     (x, r) \<leftarrow> rd r;
     (xs, r) \<leftarrow> read_n rd n r;
     Some (x # xs, r) }"

definition write_all :: "('a \<Rightarrow> byte_writer \<Rightarrow> byte_writer option) \<Rightarrow> 'a list \<Rightarrow> byte_writer
    \<Rightarrow> byte_writer option" where
  "write_all wr xs w = fold_option wr xs w"

lemma write_all_put:
  assumes "writer_ok w" "length (concat (map enc xs)) \<le> WriterLeft w"
    and "\<And>x w. x \<in> set xs \<Longrightarrow> writer_ok w \<Longrightarrow> length (enc x) \<le> WriterLeft w \<Longrightarrow> wr x w = Some (put w (enc x))"
  shows "write_all wr xs w = Some (put w (concat (map enc xs)))"
  using assms unfolding write_all_def
proof (induction xs arbitrary: w)
  case (Cons x xs)
  have "wr x w = Some (put w (enc x))" using Cons.prems by simp
  moreover have "fold_option wr xs (put w (enc x))
      = Some (put (put w (enc x)) (concat (map enc xs)))"
    using Cons.prems by (intro Cons.IH) (auto simp: writer_ok_put)
  ultimately show ?case using Cons.prems by (simp add: put_put)
qed simp

text \<open>What a parser and a serialiser of one element promise each other: the serialiser appends the
  encoding of the element or refuses when the space is short, and the parser of an encoded
  element returns it and moves past the encoding.\<close>

locale wire_codec =
  fixes enc :: "'a \<Rightarrow> bytes"
    and rd :: "byte_reader \<Rightarrow> ('a \<times> byte_reader) option"
    and wr :: "'a \<Rightarrow> byte_writer \<Rightarrow> byte_writer option"
    and valid :: "'a \<Rightarrow> bool"
  assumes rd_enc: "reader_ok r \<Longrightarrow> valid x \<Longrightarrow> CurrentData r = enc x @ bs
      \<Longrightarrow> rd r = Some (x, skip r (length (enc x)))"
    and wr_enc: "writer_ok w \<Longrightarrow> valid x
      \<Longrightarrow> wr x w = (if WriterLeft w < length (enc x) then None else Some (put w (enc x)))"
begin

lemma round_trip:
  assumes "writer_ok w" "valid x" "wr x w = Some w'"
  shows "written w' = written w @ enc x \<and> rd (ByteReader (enc x)) = Some (x, skip (ByteReader (enc x)) (length (enc x)))"
proof -
  from assms have "w' = put w (enc x)" "length (enc x) \<le> WriterLeft w"
    by (auto simp: wr_enc split: if_splits)
  then show ?thesis using assms rd_enc [of "ByteReader (enc x)" x "[]"] by (simp add: written_put)
qed

lemma read_n_enc:
  assumes "reader_ok r" "\<forall>x\<in>set xs. valid x" "CurrentData r = concat (map enc xs) @ bs"
  shows "read_n rd (length xs) r = Some (xs, skip r (length (concat (map enc xs))))"
  using assms
proof (induction xs arbitrary: r)
  case (Cons x xs)
  have "rd r = Some (x, skip r (length (enc x)))"
    using Cons.prems by (intro rd_enc) auto
  moreover have "read_n rd (length xs) (skip r (length (enc x)))
      = Some (xs, skip (skip r (length (enc x))) (length (concat (map enc xs))))"
    using Cons.prems by (intro Cons.IH) (auto simp: reader_ok_skip)
  ultimately show ?case by simp
qed simp

lemma write_all_enc:
  assumes "writer_ok w" "\<forall>x\<in>set xs. valid x" "length (concat (map enc xs)) \<le> WriterLeft w"
  shows "write_all wr xs w = Some (put w (concat (map enc xs)))"
  using assms by (intro write_all_put) (auto simp: wr_enc)

end

text \<open>A format whose elements all have the same width also fails predictably: with fewer bytes
  than the elements need, and it never reads past what it needs.\<close>

locale fixed_codec = wire_codec +
  fixes width :: nat
  assumes length_enc: "length (enc x) = width"
    and rd_short: "reader_ok r \<Longrightarrow> length (CurrentData r) < width \<Longrightarrow> rd r = None"
    and rd_moved: "reader_ok r \<Longrightarrow> rd r = Some (x, r') \<Longrightarrow> moved width r r'"
begin

lemma length_concat_enc: "length (concat (map enc xs)) = width * length xs"
  by (induction xs) (simp_all add: length_enc)

lemma read_n_moved:
  assumes "reader_ok r" "read_n rd n r = Some (xs, r')"
  shows "moved (width * n) r r' \<and> length xs = n"
  using assms
proof (induction n arbitrary: r xs)
  case (Suc n)
  then obtain x s ys where s: "rd r = Some (x, s)" "read_n rd n s = Some (ys, r')" "xs = x # ys"
    by (auto simp: Option.bind_eq_Some_conv)
  have "moved width r s" using Suc.prems(1) s(1) by (rule rd_moved)
  moreover from this have "moved (width * n) s r' \<and> length ys = n"
    using s(2) by (intro Suc.IH) (auto intro: moved_ok)
  ultimately show ?case using moved_trans [of width r s "width * n" r'] s(3) by simp
qed (simp add: moved_def)

lemma read_n_short:
  assumes "reader_ok r" "length (CurrentData r) < width * n"
  shows "read_n rd n r = None"
proof (rule ccontr)
  assume "read_n rd n r \<noteq> None"
  then obtain xs r' where "read_n rd n r = Some (xs, r')" by auto
  with assms read_n_moved moved_left show False by fastforce
qed

lemma write_all_iff:
  assumes "writer_ok w" "\<forall>x\<in>set xs. valid x"
  shows "write_all wr xs w = (if WriterLeft w < width * length xs then None
         else Some (put w (concat (map enc xs))))"
proof (cases "WriterLeft w < width * length xs")
  case True
  have "write_all wr ys v = None"
    if "writer_ok v" "\<forall>x\<in>set ys. valid x" "WriterLeft v < width * length ys" for ys v
    using that unfolding write_all_def
    by (induction ys arbitrary: v) (auto simp: wr_enc length_enc writer_ok_put)
  with True assms show ?thesis by auto
next
  case False
  then show ?thesis using write_all_enc [OF assms] by (simp add: length_concat_enc)
qed

end

text \<open>The integer formats.\<close>

lemma moved_skip: "reader_ok r \<Longrightarrow> n \<le> length (CurrentData r) \<Longrightarrow> moved n r (skip r n)"
  by (simp add: moved_def reader_ok_skip)

lemmas codec_prims = reader_step writer_defs moved_skip

interpretation u8_codec: fixed_codec StoreUInt8BE ReadUInt8 WriteUInt8 "\<lambda>_. True" 1
  by unfold_locales (auto simp: codec_prims Suc_le_eq split: if_splits intro!: moved_skip)

interpretation u16_codec: fixed_codec StoreUInt16BE ReadUInt16 WriteUInt16 "\<lambda>_. True" 2
  by unfold_locales (auto simp: codec_prims split: if_splits)

interpretation u24_codec: fixed_codec StoreUInt24BE ReadUInt24 WriteUInt24 "\<lambda>v. v < 2 ^ 24" 3
  by unfold_locales (auto simp: codec_prims take_bit_eq_mask less_mask_eq split: if_splits)

interpretation u32_codec: fixed_codec StoreUInt32BE ReadUInt32 WriteUInt32 "\<lambda>_. True" 4
  by unfold_locales (auto simp: codec_prims split: if_splits)

interpretation u64_codec: fixed_codec StoreUInt64BE ReadUInt64 WriteUInt64 "\<lambda>_. True" 8
  by unfold_locales (auto simp: codec_prims split: if_splits)

end
