(* ===== verification/Rtp_Payload.thy ===== *)
theory Rtp_Payload
  imports Byte_Buffer
begin

text \<open>
  The codec parsers that tell key frames apart, \<^verbatim>\<open>src/src/rtp_rtcp/rtp_payload_parser*\<close>: the VP8
  payload descriptor, the VP9 and AV1 first bytes, the NAL units of H.264, and the dispatch on
  the codec name. The buffer is the list of the payload's bytes, its length the \<open>size\<close> argument.
  The VP8 descriptor and the H.264 aggregation are specified by encoders, and the parsers are shown
  to invert them.
\<close>

section \<open>The code\<close>

record PayloadInfo =
  keyframe :: bool

definition new_payload_info :: PayloadInfo where
  "new_payload_info = \<lparr>keyframe = False\<rparr>"

subsection \<open>VP8\<close>

record RTPVideoHeaderVP8 =
  nonReference :: bool
  pictureId :: int
  tl0PicIdx :: int
  temporalIdx :: u8
  layerSync :: bool
  keyIdx :: int
  partitionId :: int
  beginningOfPartition :: bool

definition InitRTPVideoHeaderVP8 :: RTPVideoHeaderVP8 where
  "InitRTPVideoHeaderVP8 = \<lparr>nonReference = False, pictureId = - 1, tl0PicIdx = - 1, temporalIdx = 0xFF,
     layerSync = False, keyIdx = - 1, partitionId = 0, beginningOfPartition = False\<rparr>"

text \<open>The descriptor is read with three variables in step: the position \<open>data\<close> and the count
  \<open>data_length\<close> of what is left, here the rest of the list and its length, and \<open>parsed_bytes\<close>.\<close>

type_synonym vp8_cursor = "RTPVideoHeaderVP8 \<times> bytes \<times> nat"

definition vp8_picture_id :: "vp8_cursor \<Rightarrow> vp8_cursor option" where
  "vp8_picture_id = (\<lambda>(h, d, n).
     if length d = 0 then None
     else let pid = uint (d ! 0 AND 0x7F) in
       if d ! 0 AND 0x80 \<noteq> 0 then
         (if length d - 1 = 0 then None
          else Some (h\<lparr>pictureId := pid * 2 ^ 8 + uint (d ! 1)\<rparr>, drop 2 d, n + 2))
       else Some (h\<lparr>pictureId := pid\<rparr>, drop 1 d, n + 1))"

definition vp8_tl0_pic_idx :: "vp8_cursor \<Rightarrow> vp8_cursor option" where
  "vp8_tl0_pic_idx = (\<lambda>(h, d, n).
     if length d = 0 then None
     else Some (h\<lparr>tl0PicIdx := uint (d ! 0)\<rparr>, drop 1 d, n + 1))"

definition vp8_tid_key_idx :: "bool \<Rightarrow> bool \<Rightarrow> vp8_cursor \<Rightarrow> vp8_cursor option" where
  "vp8_tid_key_idx has_tid has_key_idx = (\<lambda>(h, d, n).
     if length d = 0 then None
     else
       let h1 = (if has_tid then h\<lparr>temporalIdx := drop_bit 6 (d ! 0) AND 0x03, layerSync := (d ! 0 AND 0x20 \<noteq> 0)\<rparr> else h);
           h2 = (if has_key_idx then h1\<lparr>keyIdx := uint (d ! 0 AND 0x1F)\<rparr> else h1)
       in Some (h2, drop 1 d, n + 1))"

definition ParseVP8Descriptor :: "RTPVideoHeaderVP8 \<Rightarrow> bytes \<Rightarrow> (RTPVideoHeaderVP8 \<times> nat) option" where
  "ParseVP8Descriptor vp8 data =
     (if length data \<le> 0 then None
      else
        let b = data ! 0;
            h = vp8\<lparr>nonReference := (b AND 0x20 \<noteq> 0), beginningOfPartition := (b AND 0x10 \<noteq> 0),
                    partitionId := uint (b AND 0x0F)\<rparr>;
            data = drop 1 data
        in if b AND 0x80 = 0 then Some (h, 1)
        else if length data = 0 then None
        else do {
          let x = data ! 0;
          c1 \<leftarrow> (if x AND 0x80 \<noteq> 0 then vp8_picture_id (h, drop 1 data, 2) else Some (h, drop 1 data, 2));
          c2 \<leftarrow> (if x AND 0x40 \<noteq> 0 then vp8_tl0_pic_idx c1 else Some c1);
          (h, d, n) \<leftarrow> (if x AND 0x20 \<noteq> 0 \<or> x AND 0x10 \<noteq> 0
                        then vp8_tid_key_idx (x AND 0x20 \<noteq> 0) (x AND 0x10 \<noteq> 0) c2 else Some c2);
          Some (h, n)
        })"

definition Vp8Parse :: "bytes \<Rightarrow> PayloadInfo option" where
  "Vp8Parse data =
     (if length data = 0 then None
      else do {
        (vp8_header, descriptor_size) \<leftarrow> ParseVP8Descriptor InitRTPVideoHeaderVP8 data;
        if partitionId vp8_header > 8 then None
        else
          let is_first_packet_in_frame = (beginningOfPartition vp8_header \<and> partitionId vp8_header = 0);
              vp8_payload_size = length data - descriptor_size
          in if vp8_payload_size = 0 then None
          else if is_first_packet_in_frame \<and> data ! descriptor_size AND 0x01 = 0 then
            (if vp8_payload_size < 10 then None else Some \<lparr>keyframe = True\<rparr>)
          else Some \<lparr>keyframe = False\<rparr>
      })"

subsection \<open>VP9 and AV1\<close>

definition Vp9Parse :: "bytes \<Rightarrow> PayloadInfo option" where
  "Vp9Parse data =
     (if length data = 0 then None else Some \<lparr>keyframe = \<not> (data ! 0 AND 0b01000000 \<noteq> 0)\<rparr>)"

definition RtpStartsWithFragment :: "u8 \<Rightarrow> bool" where
  "RtpStartsWithFragment b \<longleftrightarrow> b AND 0b10000000 \<noteq> 0"

definition RtpStartsNewCodedVideoSequence :: "u8 \<Rightarrow> bool" where
  "RtpStartsNewCodedVideoSequence b \<longleftrightarrow> b AND 0b00001000 \<noteq> 0"

definition Av1Parse :: "bytes \<Rightarrow> PayloadInfo option" where
  "Av1Parse data =
     (if length data = 0 then None
      else if RtpStartsNewCodedVideoSequence (data ! 0) \<and> RtpStartsWithFragment (data ! 0) then None
      else Some \<lparr>keyframe = RtpStartsNewCodedVideoSequence (data ! 0)\<rparr>)"

subsection \<open>H.264\<close>

function ParseStapAStartOffsets :: "bytes \<Rightarrow> nat \<Rightarrow> nat list option" where
  "ParseStapAStartOffsets nalu_ptr offset =
     (if length nalu_ptr = 0 then Some []
      else if length nalu_ptr < 2 then None
      else
        let nalu_size = unat (LoadUInt16BE nalu_ptr); rest = drop 2 nalu_ptr
        in if nalu_size > length rest then None
           else Option.bind (ParseStapAStartOffsets (drop nalu_size rest) (offset + (2 + nalu_size)))
                  (\<lambda>offsets. Some ((offset + 3) # offsets)))"
  by pat_completeness auto
termination by (relation "measure (\<lambda>(p, offset). length p)") auto

declare ParseStapAStartOffsets.simps [simp del]

text \<open>The loop over the NAL units: the start of the next one bounds each, so the last is never looked
  at.\<close>

fun h264_scan :: "bytes \<Rightarrow> nat list \<Rightarrow> PayloadInfo \<Rightarrow> PayloadInfo option" where
  "h264_scan buffer (start_offset # next_offset # rest) info =
     (let end_offset = next_offset - 2 in
      if end_offset - start_offset < 1 then None
      else
        let type = buffer ! start_offset AND 0x1F
        in h264_scan buffer (next_offset # rest)
             (if type = 7 \<or> type = 5 then info\<lparr>keyframe := True\<rparr> else info))"
| "h264_scan buffer offsets info = Some info"

definition H264Parse :: "bytes \<Rightarrow> PayloadInfo option" where
  "H264Parse buffer =
     (if length buffer < 1 then None
      else
        let nal_type = buffer ! 0 AND 0x1F in
        if nal_type = 28 then
          (if length buffer < 2 then None
           else Some (if buffer ! 1 AND 0x1F = 5 then \<lparr>keyframe = True\<rparr> else new_payload_info))
        else if nal_type = 24 then
          (if length buffer \<le> 3 then None
           else Option.bind (ParseStapAStartOffsets (drop 1 buffer) 0)
                  (\<lambda>offsets. h264_scan buffer offsets new_payload_info))
        else h264_scan buffer [0] new_payload_info)"

subsection \<open>Dispatch\<close>

definition RtpPayloadParse :: "string \<Rightarrow> bytes \<Rightarrow> PayloadInfo option" where
  "RtpPayloadParse codec data =
     (if codec = ''vp8'' then Vp8Parse data
      else if codec = ''vp9'' then Vp8Parse data
      else if codec = ''h264'' then H264Parse data
      else if codec = ''av1'' then Av1Parse data
      else None)"

section \<open>The VP8 descriptor as an encoder\<close>

text \<open>The fields of RFC 7741, section 4.2, at their widths; the X bit is set when one is present.\<close>

datatype picture = Pic7 "7 word" | Pic15 "15 word"

record Vp8Fields =
  f_nonref :: bool
  f_start :: bool
  f_part :: "4 word"
  f_picture :: "picture option"
  f_tl0 :: "u8 option"
  f_tid :: "(2 word \<times> bool) option"
  f_key :: "5 word option"

definition flag :: "nat \<Rightarrow> bool \<Rightarrow> u8" where
  "flag n b = (if b then push_bit n 1 else 0)"

definition vp8_extended :: "Vp8Fields \<Rightarrow> bool" where
  "vp8_extended f \<longleftrightarrow> f_picture f \<noteq> None \<or> f_tl0 f \<noteq> None \<or> f_tid f \<noteq> None \<or> f_key f \<noteq> None"

definition enc_picture :: "picture option \<Rightarrow> bytes" where
  "enc_picture p = (case p of None \<Rightarrow> [] | Some (Pic7 w) \<Rightarrow> [ucast w]
     | Some (Pic15 w) \<Rightarrow> [flag 7 True OR ucast (drop_bit 8 w), ucast w])"

definition enc_tid_key :: "(2 word \<times> bool) option \<Rightarrow> 5 word option \<Rightarrow> bytes" where
  "enc_tid_key t k = (if t = None \<and> k = None then []
     else [(case t of None \<Rightarrow> 0 | Some (tid, y) \<Rightarrow> push_bit 6 (ucast tid) OR flag 5 y)
           OR (case k of None \<Rightarrow> 0 | Some key \<Rightarrow> ucast key)])"

definition enc_vp8 :: "Vp8Fields \<Rightarrow> bytes" where
  "enc_vp8 f =
     (flag 7 (vp8_extended f) OR flag 5 (f_nonref f) OR flag 4 (f_start f) OR ucast (f_part f))
     # (if vp8_extended f
        then (flag 7 (f_picture f \<noteq> None) OR flag 6 (f_tl0 f \<noteq> None) OR flag 5 (f_tid f \<noteq> None) OR flag 4 (f_key f \<noteq> None))
             # enc_picture (f_picture f) @ (case f_tl0 f of None \<Rightarrow> [] | Some b \<Rightarrow> [b]) @ enc_tid_key (f_tid f) (f_key f)
        else [])"

definition vp8_header_of :: "Vp8Fields \<Rightarrow> RTPVideoHeaderVP8" where
  "vp8_header_of f = \<lparr>nonReference = f_nonref f,
     pictureId = (case f_picture f of None \<Rightarrow> - 1 | Some (Pic7 w) \<Rightarrow> uint w | Some (Pic15 w) \<Rightarrow> uint w),
     tl0PicIdx = (case f_tl0 f of None \<Rightarrow> - 1 | Some b \<Rightarrow> uint b),
     temporalIdx = (case f_tid f of None \<Rightarrow> 0xFF | Some (tid, y) \<Rightarrow> ucast tid),
     layerSync = (case f_tid f of None \<Rightarrow> False | Some (tid, y) \<Rightarrow> y),
     keyIdx = (case f_key f of None \<Rightarrow> - 1 | Some k \<Rightarrow> uint k),
     partitionId = uint (f_part f), beginningOfPartition = f_start f\<rparr>"

subsection \<open>Bits of the descriptor bytes\<close>

lemma and_flags:
  fixes x :: u8
  shows "x AND 0x80 = 0 \<longleftrightarrow> \<not> bit x 7" "x AND 0x40 = 0 \<longleftrightarrow> \<not> bit x 6"
    "x AND 0x20 = 0 \<longleftrightarrow> \<not> bit x 5" "x AND 0x10 = 0 \<longleftrightarrow> \<not> bit x 4" "x AND 0x01 = 0 \<longleftrightarrow> \<not> bit x 0"
  using and_exp_eq_0_iff_not_bit [of x 7] and_exp_eq_0_iff_not_bit [of x 6]
    and_exp_eq_0_iff_not_bit [of x 5] and_exp_eq_0_iff_not_bit [of x 4] and_exp_eq_0_iff_not_bit [of x 0]
  by simp_all

lemma bit_flag [simp]: "bit (flag m b) n \<longleftrightarrow> b \<and> n = m \<and> n < 8"
  by (auto simp: flag_def bit_exp_iff possible_bit_word)

lemma low_bits:
  fixes x :: u8
  shows "x AND 0x7F = take_bit 7 x" "x AND 0x0F = take_bit 4 x" "x AND 0x1F = take_bit 5 x" "x AND 0x03 = take_bit 2 x"
  by (simp_all add: take_bit_eq_mask mask_eq_exp_minus_1)

lemma flag_or_bits [simp]:
  "bit (flag m b OR x) n \<longleftrightarrow> (b \<and> n = m \<and> n < 8) \<or> bit x n"
  "take_bit 4 (flag 7 b OR x) = take_bit 4 x" "take_bit 4 (flag 5 b OR x) = take_bit 4 x"
  "take_bit 4 (flag 4 b OR x) = take_bit 4 x" "take_bit 7 (flag 7 b OR x) = take_bit 7 x"
  by (auto intro!: bit_word_eqI simp: bit_simps bit_or_iff)

lemma no_high_bit [simp]:
  "4 \<le> n \<Longrightarrow> \<not> bit (p :: 4 word) n" "7 \<le> n \<Longrightarrow> \<not> bit (w :: 7 word) n"
  "15 \<le> n \<Longrightarrow> \<not> bit (v :: 15 word) n" "2 \<le> n \<Longrightarrow> \<not> bit (tid :: 2 word) n"
  "5 \<le> n \<Longrightarrow> \<not> bit (key :: 5 word) n"
  using bit_imp_le_length [of p n] bit_imp_le_length [of w n] bit_imp_le_length [of v n]
    bit_imp_le_length [of tid n] bit_imp_le_length [of key n] by auto

lemma bit_lt:
  "bit (p :: 4 word) n \<Longrightarrow> n < 4" "bit (w :: 7 word) n \<Longrightarrow> n < 7" "bit (tid :: 2 word) n \<Longrightarrow> n < 2"
  "bit (key :: 5 word) n \<Longrightarrow> n < 5" "bit (v :: 15 word) (8 + n) \<Longrightarrow> n < 7"
  using bit_imp_le_length [of p n] bit_imp_le_length [of w n] bit_imp_le_length [of v "8 + n"]
    bit_imp_le_length [of tid n] bit_imp_le_length [of key n] by auto

lemma take_ucast [simp]:
  "take_bit 4 (ucast (p :: 4 word) :: u8) = ucast p" "take_bit 7 (ucast (w :: 7 word) :: u8) = ucast w"
  "take_bit 7 (ucast (drop_bit 8 (v :: 15 word)) :: u8) = ucast (drop_bit 8 v)"
  by (auto intro!: bit_word_eqI simp: bit_simps dest: bit_lt)

lemma take_flag [simp]: "take_bit k (flag m b) = (if m < k then flag m b else 0)"
  by (auto intro!: bit_word_eqI simp: bit_simps)

lemma uint_ucast_up [simp]:
  "uint (ucast (p :: 4 word) :: u8) = uint p" "uint (ucast (w :: 7 word) :: u8) = uint w" "uint (ucast (k :: 5 word) :: u8) = uint k"
  by (simp_all add: uint_up_ucast is_up)

lemma uint_15: "uint (ucast (drop_bit 8 w) :: u8) * 2 ^ 8 + uint (ucast (w :: 15 word) :: u8) = uint w"
proof -
  have b: "uint w < 2 ^ 15" "0 \<le> uint w" using uint_lt2p [of w] by simp_all
  have "uint (ucast w :: u8) = uint w mod 2 ^ 8" by (simp add: unsigned_ucast_eq take_bit_eq_mod)
  moreover have "uint (ucast (drop_bit 8 w) :: u8) = uint w div 2 ^ 8"
  proof -
    have "uint (drop_bit 8 w) = uint w div 2 ^ 8"
      using b by (subst unsigned_drop_bit_eq) (simp add: take_bit_int_eq_self drop_bit_eq_div)
    moreover have "uint (ucast (drop_bit 8 w) :: u8) = uint (drop_bit 8 w) mod 2 ^ 8"
      by (simp only: unsigned_ucast_eq take_bit_eq_mod) simp
    moreover have "uint w div 2 ^ 8 < 2 ^ 8" using b by simp
    moreover have "0 \<le> uint w div 2 ^ 8" by (rule pos_imp_zdiv_nonneg_iff [THEN iffD2]) simp_all
    ultimately show ?thesis by (simp add: mod_pos_pos_trivial)
  qed
  ultimately show ?thesis by (simp only: div_mult_mod_eq)
qed

lemma bit_ucast_high:
  "bit (ucast (p :: 4 word) :: u8) n \<longleftrightarrow> n < 4 \<and> bit p n" "bit (ucast (w :: 7 word) :: u8) m \<longleftrightarrow> m < 7 \<and> bit w m"
  by (auto simp: bit_simps dest: bit_lt)

subsection \<open>The parser inverts the encoder\<close>

lemma vp8_picture_id_enc:
  "vp8_picture_id (h, enc_picture (Some p) @ d, n)
   = Some (h\<lparr>pictureId := (case p of Pic7 w \<Rightarrow> uint w | Pic15 w \<Rightarrow> uint w)\<rparr>, d, n + length (enc_picture (Some p)))"
  by (cases p) (simp_all add: vp8_picture_id_def enc_picture_def and_flags low_bits bit_ucast_high uint_15 [simplified])

lemma vp8_tl0_enc:
  "vp8_tl0_pic_idx (h, b # d, n) = Some (h\<lparr>tl0PicIdx := uint b\<rparr>, d, n + 1)"
  by (simp add: vp8_tl0_pic_idx_def)

lemma vp8_tid_key_enc:
  assumes "t \<noteq> None \<or> k \<noteq> None"
  shows "vp8_tid_key_idx (t \<noteq> None) (k \<noteq> None) (h, enc_tid_key t k @ d, n)
    = Some (h\<lparr>temporalIdx := (case t of None \<Rightarrow> temporalIdx h | Some (tid, y) \<Rightarrow> ucast tid),
              layerSync := (case t of None \<Rightarrow> layerSync h | Some (tid, y) \<Rightarrow> y),
              keyIdx := (case k of None \<Rightarrow> keyIdx h | Some i \<Rightarrow> uint i)\<rparr>, d, n + length (enc_tid_key t k))"
proof -
  have parts: "take_bit 2 (drop_bit 6 (push_bit 6 (ucast tid :: u8))) = ucast tid" "take_bit 2 (drop_bit 6 (flag 5 y)) = 0"
    "take_bit 2 (drop_bit 6 (ucast key :: u8)) = 0" "take_bit 5 (push_bit 6 (ucast tid :: u8)) = 0" "take_bit 5 (ucast key :: u8) = ucast key"
    for tid :: "2 word" and y and key :: "5 word"
    by (auto intro!: bit_word_eqI simp: bit_simps dest: bit_lt)
  have y: "bit ((push_bit 6 (ucast tid) OR flag 5 y) OR (ucast key :: u8)) 5 = y"
    "bit (push_bit 6 (ucast tid) OR flag 5 y) 5 = y"
    for tid :: "2 word" and y and key :: "5 word"
    by (auto simp: bit_simps bit_or_iff dest: bit_lt)
  show ?thesis using assms
    by (cases t; cases k) (auto simp: vp8_tid_key_idx_def enc_tid_key_def and_flags low_bits parts y Let_def)
qed

lemma vp8_optional_picture:
  "pictureId h = - 1 \<Longrightarrow>
   (if p \<noteq> None then vp8_picture_id (h, enc_picture p @ d, n) else Some (h, enc_picture p @ d, n))
   = Some (h\<lparr>pictureId := (case p of None \<Rightarrow> - 1 | Some (Pic7 w) \<Rightarrow> uint w | Some (Pic15 w) \<Rightarrow> uint w)\<rparr>, d, n + length (enc_picture p))"
  by (cases p) (auto simp: vp8_picture_id_enc split: picture.split, simp add: enc_picture_def)

lemma vp8_optional_tl0:
  "tl0PicIdx h = - 1 \<Longrightarrow>
   (if t \<noteq> None then vp8_tl0_pic_idx (h, (case t of None \<Rightarrow> [] | Some b \<Rightarrow> [b]) @ d, n)
    else Some (h, (case t of None \<Rightarrow> [] | Some b \<Rightarrow> [b]) @ d, n))
   = Some (h\<lparr>tl0PicIdx := (case t of None \<Rightarrow> - 1 | Some b \<Rightarrow> uint b)\<rparr>, d, n + length (case t of None \<Rightarrow> [] | Some b \<Rightarrow> [b]))"
  by (cases t) (auto simp: vp8_tl0_enc)

lemma vp8_optional_tid_key:
  "temporalIdx h = 0xFF \<Longrightarrow> layerSync h = False \<Longrightarrow> keyIdx h = - 1 \<Longrightarrow>
   (if t \<noteq> None \<or> k \<noteq> None then vp8_tid_key_idx (t \<noteq> None) (k \<noteq> None) (h, enc_tid_key t k @ d, n) else Some (h, enc_tid_key t k @ d, n))
   = Some (h\<lparr>temporalIdx := (case t of None \<Rightarrow> 0xFF | Some (tid, y) \<Rightarrow> ucast tid),
              layerSync := (case t of None \<Rightarrow> False | Some (tid, y) \<Rightarrow> y),
              keyIdx := (case k of None \<Rightarrow> - 1 | Some i \<Rightarrow> uint i)\<rparr>, d, n + length (enc_tid_key t k))"
  by (cases "t \<noteq> None \<or> k \<noteq> None") (simp only: if_True vp8_tid_key_enc, auto simp: enc_tid_key_def)

lemma ParseVP8Descriptor_inverts:
  "ParseVP8Descriptor InitRTPVideoHeaderVP8 (enc_vp8 f @ payload) = Some (vp8_header_of f, length (enc_vp8 f))"
proof -
  let ?b = "flag 7 (vp8_extended f) OR flag 5 (f_nonref f) OR flag 4 (f_start f) OR ucast (f_part f)"
  let ?x = "flag 7 (f_picture f \<noteq> None) OR flag 6 (f_tl0 f \<noteq> None) OR flag 5 (f_tid f \<noteq> None) OR flag 4 (f_key f \<noteq> None)"
  have b: "bit ?b 7 = vp8_extended f" "bit ?b 5 = f_nonref f" "bit ?b 4 = f_start f" "take_bit 4 ?b = ucast (f_part f)"
    by (simp_all add: bit_ucast_high)
  have x: "bit ?x 7 = (f_picture f \<noteq> None)" "bit ?x 6 = (f_tl0 f \<noteq> None)" "bit ?x 5 = (f_tid f \<noteq> None)" "bit ?x 4 = (f_key f \<noteq> None)"
    by simp_all
  show ?thesis
  proof (cases "vp8_extended f")
    case False
    then have "f_picture f = None" "f_tl0 f = None" "f_tid f = None" "f_key f = None"
      unfolding vp8_extended_def by blast+
    then show ?thesis
      by (simp add: ParseVP8Descriptor_def enc_vp8_def vp8_header_of_def InitRTPVideoHeaderVP8_def vp8_extended_def
          and_flags low_bits bit_ucast_high Let_def)
  next
    case True
    define B X where "B = ?b" and "X = ?x"
    define d where "d = enc_picture (f_picture f) @ (case f_tl0 f of None \<Rightarrow> [] | Some b \<Rightarrow> [b]) @ enc_tid_key (f_tid f) (f_key f) @ payload"
    have e: "enc_vp8 f @ payload = B # X # d" "length (enc_vp8 f) = 2 + length (enc_picture (f_picture f))
        + length (case f_tl0 f of None \<Rightarrow> [] | Some b \<Rightarrow> [b]) + length (enc_tid_key (f_tid f) (f_key f))"
      using True by (simp_all add: enc_vp8_def B_def X_def d_def)
    have p: "ParseVP8Descriptor InitRTPVideoHeaderVP8 (B # X # d) = (do {
        c1 \<leftarrow> (if f_picture f \<noteq> None then vp8_picture_id (InitRTPVideoHeaderVP8\<lparr>nonReference := f_nonref f,
               beginningOfPartition := f_start f, partitionId := uint (f_part f)\<rparr>, d, 2)
             else Some (InitRTPVideoHeaderVP8\<lparr>nonReference := f_nonref f, beginningOfPartition := f_start f, partitionId := uint (f_part f)\<rparr>, d, 2));
        c2 \<leftarrow> (if f_tl0 f \<noteq> None then vp8_tl0_pic_idx c1 else Some c1);
        (h, d, n) \<leftarrow> (if f_tid f \<noteq> None \<or> f_key f \<noteq> None then vp8_tid_key_idx (f_tid f \<noteq> None) (f_key f \<noteq> None) c2 else Some c2);
        Some (h, n) })"
      using b x True unfolding B_def [symmetric] X_def [symmetric]
      by (simp add: ParseVP8Descriptor_def and_flags low_bits)
    show ?thesis
      unfolding e p unfolding d_def
      by (simp only: vp8_optional_picture vp8_optional_tl0 vp8_optional_tid_key InitRTPVideoHeaderVP8_def
          RTPVideoHeaderVP8.simps bind.bind_lunit prod.case)
        (simp add: vp8_header_of_def)
  qed
qed

text \<open>The VP8 parser inverts the payload descriptor of RFC 7741: for every combination of optional
  fields, followed by any payload, it finds exactly the fields written and the number of bytes
  they take; and it reports a key frame exactly when the packet starts the first partition, the
  inverse key frame bit of the payload header is clear and the uncompressed header is there.\<close>

theorem Vp8Parse_inverts:
  "ParseVP8Descriptor InitRTPVideoHeaderVP8 (enc_vp8 f @ payload) = Some (vp8_header_of f, length (enc_vp8 f))
   \<and> Vp8Parse (enc_vp8 f @ payload) =
      (if uint (f_part f) > 8 \<or> payload = [] then None
       else if f_start f \<and> f_part f = 0 \<and> \<not> bit (payload ! 0) 0
            then (if length payload < 10 then None else Some \<lparr>keyframe = True\<rparr>)
            else Some \<lparr>keyframe = False\<rparr>)"
proof -
  have "enc_vp8 f \<noteq> []" by (simp add: enc_vp8_def)
  moreover have "partitionId (vp8_header_of f) = uint (f_part f)" "beginningOfPartition (vp8_header_of f) = f_start f"
    by (simp_all add: vp8_header_of_def)
  moreover have "uint (f_part f) = 0 \<longleftrightarrow> f_part f = 0" by (simp add: uint_0_iff)
  ultimately show ?thesis
    by (simp add: Vp8Parse_def ParseVP8Descriptor_inverts and_flags nth_append Let_def)
qed

section \<open>Aggregated H.264 units\<close>

text \<open>RFC 6184, section 5.7.1: each unit of a STAP-A is preceded by its size.\<close>

definition enc_nalu :: "bytes \<Rightarrow> bytes" where
  "enc_nalu n = StoreUInt16BE (of_nat (length n)) @ n"

lemma enc_nalu_append: "enc_nalu n @ xs = StoreUInt16BE (of_nat (length n)) @ n @ xs"
  by (simp add: enc_nalu_def)

definition nalu_type :: "bytes \<Rightarrow> u8" where
  "nalu_type n = n ! 0 AND 0x1F"

fun nalu_starts :: "nat \<Rightarrow> bytes list \<Rightarrow> nat list" where
  "nalu_starts off [] = []"
| "nalu_starts off (n # ns) = (off + 3) # nalu_starts (off + (2 + length n)) ns"

lemma ParseStapA_enc:
  assumes "\<forall>n\<in>set ns. length n < 2 ^ 16"
  shows "ParseStapAStartOffsets (concat (map enc_nalu ns)) off = Some (nalu_starts off ns)"
  using assms
proof (induction ns arbitrary: off)
  case Nil
  show ?case by (subst ParseStapAStartOffsets.simps) simp
next
  case (Cons n ns)
  have "unat (of_nat (length n) :: u16) = length n" using Cons.prems by (simp add: unat_of_nat_small)
  then show ?case using Cons by (subst ParseStapAStartOffsets.simps) (simp add: enc_nalu_append)
qed

lemma h264_scan_starts:
  assumes "drop (off + 1) buffer = concat (map enc_nalu ns)" "\<forall>n\<in>set ns. n \<noteq> []"
  shows "h264_scan buffer (nalu_starts off ns) info
    = Some (if \<exists>n\<in>set (butlast ns). nalu_type n = 7 \<or> nalu_type n = 5 then info\<lparr>keyframe := True\<rparr> else info)"
  using assms
proof (induction ns arbitrary: off info)
  case (Cons n ns)
  show ?case
  proof (cases ns)
    case (Cons m ms)
    have d: "drop (off + 1) buffer = StoreUInt16BE (of_nat (length n)) @ n @ concat (map enc_nalu ns)"
      using Cons.prems(1) by (simp add: enc_nalu_append)
    have n: "n \<noteq> []" using Cons.prems(2) by simp
    have e: "drop (off + 3) buffer = n @ concat (map enc_nalu ns)" using drop_step [OF d] by (simp add: numeral_3_eq_3)
    then have "off + 3 \<le> length buffer" using n drop_room [OF e n] by linarith
    then have hd: "buffer ! (off + 3) = n ! 0"
      using n arg_cong [OF e, of "\<lambda>xs. xs ! 0"] by (simp add: nth_append)
    have "drop (off + (2 + length n) + 1) buffer = concat (map enc_nalu ns)"
      using drop_step [of "off + 1" buffer "StoreUInt16BE (of_nat (length n)) @ n"] d by (simp add: ac_simps)
    then have ih: "h264_scan buffer (nalu_starts (off + (2 + length n)) ns) i
      = Some (if \<exists>n\<in>set (butlast ns). nalu_type n = 7 \<or> nalu_type n = 5 then i\<lparr>keyframe := True\<rparr> else i)" for i
      using Cons.IH Cons.prems(2) by simp
    have "h264_scan buffer (nalu_starts off (n # ns)) info
      = h264_scan buffer (nalu_starts (off + (2 + length n)) ns)
          (if nalu_type n = 7 \<or> nalu_type n = 5 then info\<lparr>keyframe := True\<rparr> else info)"
      using n local.Cons by (cases n) (auto simp: Let_def hd nalu_type_def)
    then show ?thesis using ih local.Cons by auto
  qed simp
qed simp

text \<open>A STAP-A packet of non-empty units parses, with the starts found where the units are, and it
  counts as a key frame exactly when a unit before the last one is an IDR slice or a parameter
  set: the last unit is never looked at.\<close>

theorem H264Parse_stap_a:
  assumes "hdr AND 0x1F = 24" "ns \<noteq> []" "\<forall>n\<in>set ns. n \<noteq> [] \<and> length n < 2 ^ 16"
  shows "H264Parse (hdr # concat (map enc_nalu ns))
    = Some \<lparr>keyframe = (\<exists>n\<in>set (butlast ns). nalu_type n = 7 \<or> nalu_type n = 5)\<rparr>"
proof -
  have "length (hdr # concat (map enc_nalu ns)) > 3"
  proof (cases ns)
    case (Cons n ms)
    then have "0 < length n" using assms(3) by simp
    then show ?thesis using Cons by (simp add: enc_nalu_def)
  qed (use assms(2) in simp)
  moreover have "h264_scan (hdr # concat (map enc_nalu ns)) (nalu_starts 0 ns) new_payload_info
      = Some \<lparr>keyframe = (\<exists>n\<in>set (butlast ns). nalu_type n = 7 \<or> nalu_type n = 5)\<rparr>"
    using h264_scan_starts [of 0 "hdr # concat (map enc_nalu ns)" ns new_payload_info] assms(3)
    by (simp add: new_payload_info_def)
  ultimately show ?thesis
    using assms(1,3) by (simp add: H264Parse_def ParseStapA_enc Let_def)
qed

theorem H264Parse_stap_a_witness:
  "H264Parse (0x18 # concat (map enc_nalu [[0x67, 1], [0x68], [0x65, 7, 7]]))
     = Some \<lparr>keyframe = (\<exists>n\<in>set (butlast [[0x67, 1], [0x68], [0x65, 7, 7]]). nalu_type n = 7 \<or> nalu_type n = 5)\<rparr>"
  by (rule H264Parse_stap_a) simp_all

text \<open>A packet that carries a single NAL unit is never a key frame, an IDR slice included, although
  the same unit in fragments is one; and VP9 payloads are read by the VP8 parser.\<close>

theorem key_frames_missed:
  "H264Parse [0x65, 1, 2, 3] = Some \<lparr>keyframe = False\<rparr> \<and> H264Parse [0x7C, 0x85, 1, 2] = Some \<lparr>keyframe = True\<rparr>
   \<and> RtpPayloadParse ''vp9'' [0xA8, 0x01, 0x02] = Some \<lparr>keyframe = False\<rparr> \<and> Vp9Parse [0xA8, 0x01, 0x02] = Some \<lparr>keyframe = True\<rparr>"
  by (simp add: H264Parse_def new_payload_info_def RtpPayloadParse_def Vp8Parse_def ParseVP8Descriptor_def
      InitRTPVideoHeaderVP8_def vp8_tid_key_idx_def Vp9Parse_def Let_def)

end
