(* ===== verification/Rtp_Packet.thy ===== *)
theory Rtp_Packet
  imports Rtp_Payload "HOL-Library.AList"
begin

text \<open>
  RTP packets, \<^verbatim>\<open>src/src/rtp_rtcp/rtp_packet.{h,cpp}\<close>, the header helpers of
  \<^verbatim>\<open>rtp_utils.{h,cpp}\<close> and the header extensions of \<^verbatim>\<open>rtp_header_extension.{h,cpp}\<close>. A packet
  keeps the fields parsed from its bytes beside the bytes themselves; the invariant \<open>coherent\<close> says
  that the two agree, and every setter keeps it.

  A write or a read outside the packet's allocation, and the dereference of an empty optional, are
  the outcome \<open>OutOfBounds\<close>.
\<close>

section \<open>Header helpers\<close>

definition kMinRtpPacketLen :: nat where "kMinRtpPacketLen = 12"
definition kRtpVersion :: u8 where "kRtpVersion = 2"
definition kOneByteExtensionProfileId :: u16 where "kOneByteExtensionProfileId = 0xBEDE"
definition kTwoByteExtensionProfileId :: u16 where "kTwoByteExtensionProfileId = 0x1000"
definition kTwobyteExtensionProfileIdAppBitsFilter :: u16 where "kTwobyteExtensionProfileIdAppBitsFilter = 0xfff0"
definition kOneByteExtensionHeaderLength :: nat where "kOneByteExtensionHeaderLength = 1"
definition kTwoByteExtensionHeaderLength :: nat where "kTwoByteExtensionHeaderLength = 2"
definition kRtxHeaderSize :: nat where "kRtxHeaderSize = 2"
definition kRtpExtensionHeaderLen :: nat where "kRtpExtensionHeaderLen = 4"

lemmas rtp_consts = kMinRtpPacketLen_def kRtpVersion_def kOneByteExtensionProfileId_def kTwoByteExtensionProfileId_def
  kTwobyteExtensionProfileIdAppBitsFilter_def kOneByteExtensionHeaderLength_def kTwoByteExtensionHeaderLength_def
  kRtxHeaderSize_def kRtpExtensionHeaderLen_def

definition IsRtpPacket :: "bytes \<Rightarrow> bool" where
  "IsRtpPacket d \<longleftrightarrow> length d \<ge> kMinRtpPacketLen \<and> drop_bit 6 (d ! 0) = kRtpVersion"

definition GetRtpSsrc :: "bytes \<Rightarrow> u32 option" where
  "GetRtpSsrc d = (if length d < kMinRtpPacketLen then None else Some (LoadUInt32BE (drop 8 d)))"

definition SetRtpSsrc :: "u32 \<Rightarrow> bytes \<Rightarrow> bytes" where
  "SetRtpSsrc v d = (if length d < kMinRtpPacketLen then d else overwrite d 8 (StoreUInt32BE v))"

definition SetRtpPayloadType :: "u8 \<Rightarrow> bytes \<Rightarrow> bytes" where
  "SetRtpPayloadType t d = (if length d < kMinRtpPacketLen then d else d[1 := (d ! 1 AND 0x80) OR t])"

definition SetRtpSequenceNumber :: "u16 \<Rightarrow> bytes \<Rightarrow> bytes" where
  "SetRtpSequenceNumber v d = (if length d < kMinRtpPacketLen then d else overwrite d 2 (StoreUInt16BE v))"

definition GetRtpHeaderLength :: "bytes \<Rightarrow> nat option" where
  "GetRtpHeaderLength rtp =
     (if length rtp < kMinRtpPacketLen then None
      else
        let cc_count = unat (rtp ! 0 AND 0x0F);
            header_length_without_extension = kMinRtpPacketLen + 4 * cc_count
        in if header_length_without_extension > length rtp then None
        else if rtp ! 0 AND 0x10 = 0 then Some header_length_without_extension
        else if header_length_without_extension + kRtpExtensionHeaderLen > length rtp then None
        else
          let extension_length_in_32bits = LoadUInt16BE (drop (header_length_without_extension + 2) rtp);
              extension_length = unat extension_length_in_32bits * 4;
              rtp_header_length = extension_length + header_length_without_extension + kRtpExtensionHeaderLen
          in if rtp_header_length > length rtp then None else Some rtp_header_length)"

section \<open>Header extensions\<close>

datatype RTPHeaderExtensionType = kRtpExtensionNone | kRtpExtensionTransmissionTimeOffset | kRtpExtensionAudioLevel
  | kRtpExtensionCsrcAudioLevel | kRtpExtensionInbandComfortNoise | kRtpExtensionAbsoluteSendTime
  | kRtpExtensionAbsoluteCaptureTime | kRtpExtensionVideoRotation | kRtpExtensionTransportSequenceNumber
  | kRtpExtensionTransportSequenceNumber02 | kRtpExtensionPlayoutDelay | kRtpExtensionVideoContentType
  | kRtpExtensionVideoLayersAllocation | kRtpExtensionVideoTiming | kRtpExtensionRtpStreamId
  | kRtpExtensionRepairedRtpStreamId | kRtpExtensionMid | kRtpExtensionGenericFrameDescriptor00
  | kRtpExtensionGenericFrameDescriptor02 | kRtpExtensionColorSpace | kRtpExtensionVideoFrameTrackingId
  | kRtpExtensionNumberOfExtensions

definition UriRTPHeaderExtensionMap :: "(string \<times> RTPHeaderExtensionType) list" where
  "UriRTPHeaderExtensionMap = [
    (''urn:ietf:params:rtp-hdrext:toffset'', kRtpExtensionTransmissionTimeOffset),
    (''urn:ietf:params:rtp-hdrext:ssrc-audio-level'', kRtpExtensionAudioLevel),
    (''urn:ietf:params:rtp-hdrext:csrc-audio-level'', kRtpExtensionCsrcAudioLevel),
    (''http://www.webrtc.org/experiments/rtp-hdrext/inband-cn'', kRtpExtensionInbandComfortNoise),
    (''http://www.webrtc.org/experiments/rtp-hdrext/abs-send-time'', kRtpExtensionAbsoluteSendTime),
    (''http://www.webrtc.org/experiments/rtp-hdrext/abs-capture-time'', kRtpExtensionAbsoluteCaptureTime),
    (''urn:3gpp:video-orientation'', kRtpExtensionVideoRotation),
    (''http://www.ietf.org/id/draft-holmer-rmcat-transport-wide-cc-extensions-01'', kRtpExtensionTransportSequenceNumber),
    (''http://www.webrtc.org/experiments/rtp-hdrext/transport-wide-cc-02'', kRtpExtensionTransportSequenceNumber02),
    (''http://www.webrtc.org/experiments/rtp-hdrext/playout-delay'', kRtpExtensionPlayoutDelay),
    (''http://www.webrtc.org/experiments/rtp-hdrext/video-content-type'', kRtpExtensionVideoContentType),
    (''http://www.webrtc.org/experiments/rtp-hdrext/video-layers-allocation00'', kRtpExtensionVideoLayersAllocation),
    (''http://www.webrtc.org/experiments/rtp-hdrext/video-timing'', kRtpExtensionVideoTiming),
    (''urn:ietf:params:rtp-hdrext:sdes:rtp-stream-id'', kRtpExtensionRtpStreamId),
    (''urn:ietf:params:rtp-hdrext:sdes:repaired-rtp-stream-id'', kRtpExtensionRepairedRtpStreamId),
    (''urn:ietf:params:rtp-hdrext:sdes:mid'', kRtpExtensionMid),
    (''http://www.webrtc.org/experiments/rtp-hdrext/generic-frame-descriptor-00'', kRtpExtensionGenericFrameDescriptor00),
    (''https://aomediacodec.github.io/av1-rtp-spec/dependency-descriptor-rtp-header-extension'', kRtpExtensionGenericFrameDescriptor02),
    (''http://www.webrtc.org/experiments/rtp-hdrext/color-space'', kRtpExtensionColorSpace),
    (''http://www.webrtc.org/experiments/rtp-hdrext/video-frame-tracking-id'', kRtpExtensionVideoFrameTrackingId)]"

text \<open>The capability is an unordered map from types to ids; the list has its entries in the order the
  map iterates over them, which C++ leaves open and which only matters to \<open>GetIdType\<close> when two
  types share an id.\<close>

type_synonym ext_capability = "(RTPHeaderExtensionType \<times> int) list"

definition RegisterExtension :: "int \<Rightarrow> string \<Rightarrow> ext_capability \<Rightarrow> ext_capability" where
  "RegisterExtension i uri cap =
     (case map_of UriRTPHeaderExtensionMap uri of None \<Rightarrow> cap | Some ty \<Rightarrow> AList.update ty i cap)"

definition GetTypeId :: "RTPHeaderExtensionType \<Rightarrow> ext_capability \<Rightarrow> int option" where
  "GetTypeId ty cap = map_of cap ty"

definition GetIdType :: "int \<Rightarrow> ext_capability \<Rightarrow> RTPHeaderExtensionType option" where
  "GetIdType i cap = map_option fst (find (\<lambda>item. snd item = i) cap)"

text \<open>The value parsers take the data from the extension's offset to the end of the allocation and the
  length of the extension. \<open>atoi\<close> knows nothing of the length.\<close>

definition MidParse :: "bytes \<Rightarrow> nat \<Rightarrow> bytes option" where
  "MidParse d n = (if n = 0 \<or> d ! 0 = 0 then None else Some (take n d))"

definition is_space :: "u8 \<Rightarrow> bool" where
  "is_space c \<longleftrightarrow> c = 0x20 \<or> (9 \<le> c \<and> c \<le> 13)"

definition is_digit :: "u8 \<Rightarrow> bool" where
  "is_digit c \<longleftrightarrow> 0x30 \<le> c \<and> c \<le> 0x39"

fun atoi_digits :: "int \<Rightarrow> bytes \<Rightarrow> int outcome" where
  "atoi_digits acc [] = OutOfBounds"
| "atoi_digits acc (c # cs) = (if is_digit c then atoi_digits (acc * 10 + (uint c - 0x30)) cs else Returns acc)"

fun atoi :: "bytes \<Rightarrow> int outcome" where
  "atoi [] = OutOfBounds"
| "atoi (c # cs) =
     (if is_space c then atoi cs
      else if c = 0x2D then bind_outcome (atoi_digits 0 cs) (\<lambda>n. Returns (- n))
      else if c = 0x2B then atoi_digits 0 cs
      else atoi_digits 0 (c # cs))"

definition StreamIdParse :: "bytes \<Rightarrow> nat \<Rightarrow> u32 outcome" where
  "StreamIdParse d n =
     (if n = 0 \<or> d ! 0 = 0 then Fails
      else bind_outcome (atoi d) (\<lambda>i. let rtp_stream_id = of_int i in
        if rtp_stream_id = 0 then Fails else Returns rtp_stream_id))"

definition TransportSequenceNumberParse :: "bytes \<Rightarrow> nat \<Rightarrow> u16 option" where
  "TransportSequenceNumberParse d n = (if n \<noteq> 2 then None else Some (LoadUInt16BE d))"

text \<open>The serialiser returns the bytes it stores.\<close>

definition TransportSequenceNumberSerialize :: "nat \<Rightarrow> u16 \<Rightarrow> bytes option" where
  "TransportSequenceNumberSerialize n v = (if n \<noteq> 2 then None else Some (StoreUInt16BE v))"

section \<open>The packet\<close>

record ExtensionInfo =
  ext_id :: u8
  ext_length :: u8
  ext_offset :: u16
  ext_header_length :: u8

record RtpPacket =
  marker :: bool
  payload_type :: u8
  padding_size :: u8
  sequence_number :: u16
  timestamp :: u32
  ssrc :: u32
  payload_offset :: nat
  payload_size :: nat
  extension_entries :: "ExtensionInfo list"
  extensions_size :: nat
  data :: bytes
  payload_info :: PayloadInfo
  extension_capability :: ext_capability

text \<open>Where the entry with an id is, a new one at the back when there is none. The header length of a new
  entry is not initialised; the only caller sets it.\<close>

fun FindOrCreateExtensionInfo :: "u8 \<Rightarrow> ExtensionInfo list \<Rightarrow> nat \<times> ExtensionInfo list" where
  "FindOrCreateExtensionInfo i [] = (0, [\<lparr>ext_id = i, ext_length = 0, ext_offset = 0, ext_header_length = 0\<rparr>])"
| "FindOrCreateExtensionInfo i (e # es) =
     (if ext_id e = i then (0, e # es)
      else let (k, es') = FindOrCreateExtensionInfo i es in (k + 1, e # es'))"

text \<open>The loop over the extensions: \<open>buffer\<close>, the offset and size of the extension block, the profile and
  the length of an element header are fixed.\<close>

function parse_extensions :: "bytes \<Rightarrow> nat \<Rightarrow> nat \<Rightarrow> bool \<Rightarrow> nat \<Rightarrow> ExtensionInfo list \<Rightarrow> nat \<times> ExtensionInfo list" where
  "parse_extensions buffer extension_offset capacity one_byte sz es =
     (let hl = (if one_byte then kOneByteExtensionHeaderLength else kTwoByteExtensionHeaderLength) in
      if \<not> sz + hl < capacity then (sz, es)
      else
        let b = buffer ! (extension_offset + sz) in
        if b = 0 then parse_extensions buffer extension_offset capacity one_byte (sz + 1) es
        else
          let i = (if one_byte then drop_bit 4 b else b);
              len = (if one_byte then 1 + (b AND 0xf) else buffer ! (extension_offset + sz + 1))
          in if one_byte \<and> (i = 15 \<or> (i = 0 \<and> len \<noteq> 1)) then (sz, es)
          else if sz + hl + unat len > capacity then (sz, es)
          else
            let (k, es1) = FindOrCreateExtensionInfo i es;
                offset = extension_offset + sz + hl;
                info = \<lparr>ext_id = ext_id (es1 ! k), ext_length = len, ext_offset = of_nat offset, ext_header_length = of_nat hl\<rparr>
            in parse_extensions buffer extension_offset capacity one_byte (sz + (hl + unat len)) (es1[k := info]))"
  by pat_completeness auto
termination
  by (relation "measure (\<lambda>(buffer, off, capacity, one_byte, sz, es). capacity - sz)") (auto simp: rtp_consts split: if_splits)

declare parse_extensions.simps [simp del]

text \<open>\<open>Parse\<close> of an object whose fields hold \<open>p\<close>; a refused packet is dropped by every caller.\<close>

definition RtpParse :: "RtpPacket \<Rightarrow> bytes \<Rightarrow> RtpPacket option" where
  "RtpParse p buffer =
     (let size = length buffer in
      if size < kMinRtpPacketLen then None
      else if drop_bit 6 (buffer ! 0) \<noteq> kRtpVersion then None
      else
        let has_padding = (buffer ! 0 AND 0x20 \<noteq> 0);
            has_extension = (buffer ! 0 AND 0x10 \<noteq> 0);
            number_of_crcs = unat (buffer ! 0 AND 0x0f);
            p1 = p\<lparr>marker := (buffer ! 1 AND 0x80 \<noteq> 0), payload_type := buffer ! 1 AND 0x7f,
                   sequence_number := LoadUInt16BE (drop 2 buffer), timestamp := LoadUInt32BE (drop 4 buffer),
                   ssrc := LoadUInt32BE (drop 8 buffer)\<rparr>
        in if size < kMinRtpPacketLen + number_of_crcs * 4 then None
        else
          let off = kMinRtpPacketLen + number_of_crcs * 4;
              pad = (if has_padding then buffer ! (size - 1) else 0)
          in if has_padding \<and> pad = 0 then None
          else do {
            (ext_size, es, off) \<leftarrow>
              (if \<not> has_extension then Some (0, [], off)
               else
                 let extension_offset = off + 4 in
                 if extension_offset > size then None
                 else
                   let profile = LoadUInt16BE (drop off buffer);
                       capacity = unat (LoadUInt16BE (drop (off + 2) buffer)) * 4
                   in if extension_offset + capacity > size then None
                   else
                     let (ext_size, es) =
                       (if profile \<noteq> kOneByteExtensionProfileId
                           \<and> profile AND kTwobyteExtensionProfileIdAppBitsFilter \<noteq> kTwoByteExtensionProfileId then (0, [])
                        else parse_extensions buffer extension_offset capacity (profile = kOneByteExtensionProfileId) 0 [])
                     in Some (ext_size, es, extension_offset + capacity));
            if off + unat pad > size then None
            else Some (p1\<lparr>padding_size := pad, extensions_size := ext_size, extension_entries := es,
                          payload_offset := off, payload_size := size - off - unat pad\<rparr>)
          })"

definition RtpCreate :: "RtpPacket \<Rightarrow> bytes \<Rightarrow> RtpPacket option" where
  "RtpCreate p buffer = map_option (\<lambda>q. q\<lparr>data := buffer\<rparr>) (RtpParse p buffer)"

definition RtpSize :: "RtpPacket \<Rightarrow> nat" where
  "RtpSize p = payload_offset p + payload_size p + unat (padding_size p)"

text \<open>The copy constructor: everything but the extension capability, which stays as constructed.\<close>

definition RtpCopy :: "RtpPacket \<Rightarrow> RtpPacket" where
  "RtpCopy p = p\<lparr>data := take (RtpSize p) (data p), extension_capability := []\<rparr>"

definition SetMarker :: "bool \<Rightarrow> RtpPacket \<Rightarrow> RtpPacket" where
  "SetMarker m p = p\<lparr>marker := m, data := (data p)[1 := (if m then data p ! 1 OR 0x80 else data p ! 1 AND 0x7F)]\<rparr>"

definition SetPayloadType :: "u8 \<Rightarrow> RtpPacket \<Rightarrow> RtpPacket" where
  "SetPayloadType t p = p\<lparr>payload_type := t, data := (data p)[1 := (data p ! 1 AND 0x80) OR t]\<rparr>"

definition SetSequenceNumber :: "u16 \<Rightarrow> RtpPacket \<Rightarrow> RtpPacket" where
  "SetSequenceNumber v p = p\<lparr>sequence_number := v, data := overwrite (data p) 2 (StoreUInt16BE v)\<rparr>"

definition SetTimestamp :: "u32 \<Rightarrow> RtpPacket \<Rightarrow> RtpPacket" where
  "SetTimestamp v p = p\<lparr>timestamp := v, data := overwrite (data p) 4 (StoreUInt32BE v)\<rparr>"

definition SetSsrc :: "u32 \<Rightarrow> RtpPacket \<Rightarrow> RtpPacket" where
  "SetSsrc v p = p\<lparr>ssrc := v, data := overwrite (data p) 8 (StoreUInt32BE v)\<rparr>"

definition SetExtensionCapability :: "ext_capability \<Rightarrow> RtpPacket \<Rightarrow> RtpPacket" where
  "SetExtensionCapability c p = p\<lparr>extension_capability := c\<rparr>"

text \<open>The entry both templates of the header look for.\<close>

definition FindExtension :: "RTPHeaderExtensionType \<Rightarrow> RtpPacket \<Rightarrow> ExtensionInfo option" where
  "FindExtension ty p = Option.bind (GetTypeId ty (extension_capability p))
     (\<lambda>i. find (\<lambda>e. uint (ext_id e) = i) (extension_entries p))"

definition GetTransportSequenceNumber :: "RtpPacket \<Rightarrow> u16 option" where
  "GetTransportSequenceNumber p = Option.bind (FindExtension kRtpExtensionTransportSequenceNumber p)
     (\<lambda>e. TransportSequenceNumberParse (drop (unat (ext_offset e)) (data p)) (unat (ext_length e)))"

definition GetMid :: "RtpPacket \<Rightarrow> bytes option" where
  "GetMid p = Option.bind (FindExtension kRtpExtensionMid p)
     (\<lambda>e. MidParse (drop (unat (ext_offset e)) (data p)) (unat (ext_length e)))"

definition GetStreamId :: "RTPHeaderExtensionType \<Rightarrow> RtpPacket \<Rightarrow> u32 outcome" where
  "GetStreamId ty p = bind_outcome (of_option (FindExtension ty p))
     (\<lambda>e. StreamIdParse (drop (unat (ext_offset e)) (data p)) (unat (ext_length e)))"

definition SetTransportSequenceNumber :: "u16 \<Rightarrow> RtpPacket \<Rightarrow> RtpPacket" where
  "SetTransportSequenceNumber v p =
     (case FindExtension kRtpExtensionTransportSequenceNumber p of None \<Rightarrow> p
      | Some e \<Rightarrow> (case TransportSequenceNumberSerialize (unat (ext_length e)) v of None \<Rightarrow> p
          | Some b \<Rightarrow> p\<lparr>data := overwrite (data p) (unat (ext_offset e)) b\<rparr>))"

text \<open>One round of \<open>UpdateExtensionCapability\<close>: the entry and the byte of its element header that holds the
  id. An id the new capability does not have is dereferenced all the same.\<close>

definition update_entry :: "ext_capability \<Rightarrow> ext_capability \<Rightarrow> ExtensionInfo \<Rightarrow> bytes \<Rightarrow> (ExtensionInfo \<times> bytes) outcome" where
  "update_entry old_cap new_cap e d =
     (case GetIdType (uint (ext_id e)) old_cap of None \<Rightarrow> Returns (e, d)
      | Some ty \<Rightarrow> (case GetTypeId ty new_cap of None \<Rightarrow> OutOfBounds
          | Some expect_id \<Rightarrow>
              if expect_id \<noteq> uint (ext_id e) then
                if unat (ext_header_length e) = kOneByteExtensionHeaderLength then
                  let k = unat (ext_offset e - 1)
                  in Returns (e\<lparr>ext_id := of_int expect_id\<rparr>,
                       d[k := (d ! k AND 0xf) OR push_bit 4 (of_int expect_id)])
                else if unat (ext_header_length e) = kTwoByteExtensionHeaderLength then
                  let k = unat (ext_offset e - 2)
                  in Returns (e\<lparr>ext_id := of_int expect_id\<rparr>, d[k := of_int expect_id])
                else Returns (e\<lparr>ext_id := of_int expect_id\<rparr>, d)
              else Returns (e, d)))"

fun update_entries :: "ext_capability \<Rightarrow> ext_capability \<Rightarrow> ExtensionInfo list \<Rightarrow> bytes \<Rightarrow> (ExtensionInfo list \<times> bytes) outcome" where
  "update_entries old_cap new_cap [] d = Returns ([], d)"
| "update_entries old_cap new_cap (e # es) d =
     bind_outcome (update_entry old_cap new_cap e d) (\<lambda>(e', d').
       bind_outcome (update_entries old_cap new_cap es d') (\<lambda>(es', d''). Returns (e' # es', d'')))"

definition UpdateExtensionCapability :: "ext_capability \<Rightarrow> RtpPacket \<Rightarrow> RtpPacket outcome" where
  "UpdateExtensionCapability new_cap p =
     bind_outcome (update_entries (extension_capability p) new_cap (extension_entries p) (data p)) (\<lambda>(es, d).
       Returns (p\<lparr>extension_entries := es, data := d, extension_capability := new_cap\<rparr>))"

text \<open>\<open>RtxRepair\<close>. The memmove of a payload of one byte has the length \<open>payload_size - 2\<close> of a \<open>size_t\<close>.\<close>

definition RtxRepair :: "u16 \<Rightarrow> u8 \<Rightarrow> u32 \<Rightarrow> RtpPacket \<Rightarrow> RtpPacket outcome" where
  "RtxRepair seq pt s p =
     (if payload_size p = 0 then Fails
      else
        let p1 = SetSsrc s (SetSequenceNumber seq (SetPayloadType pt p));
            off = payload_offset p1; n = payload_size p1
        in if n < kRtxHeaderSize then OutOfBounds
        else
          let p2 = p1\<lparr>data := overwrite (data p1) off (take (n - kRtxHeaderSize) (drop (off + kRtxHeaderSize) (data p1)))\<rparr> in
          if padding_size p2 \<noteq> 0 then
            let pad = padding_size p2 + 2; k = off + n + unat pad - 1
            in if k \<ge> length (data p2) then OutOfBounds
               else Returns (p2\<lparr>padding_size := pad, data := (data p2)[k := data p2 ! k + 2], payload_size := n - kRtxHeaderSize\<rparr>)
          else Returns (p2\<lparr>payload_size := n - kRtxHeaderSize\<rparr>))"

definition ParsePayload :: "string \<Rightarrow> RtpPacket \<Rightarrow> RtpPacket option" where
  "ParsePayload codec p =
     (if payload_size p = 0 then Some p
      else map_option (\<lambda>i. p\<lparr>payload_info := i\<rparr>)
             (RtpPayloadParse codec (take (payload_size p) (drop (payload_offset p) (data p)))))"

definition IsKeyFrame :: "RtpPacket \<Rightarrow> bool" where
  "IsKeyFrame p = keyframe (payload_info p)"

section \<open>The layout of a packet\<close>

text \<open>What \<open>Parse\<close> finds out beside the fixed fields: padding, size and entries of the extension block, and
  where the payload starts.\<close>

definition layout :: "bytes \<Rightarrow> (u8 \<times> nat \<times> ExtensionInfo list \<times> nat) option" where
  "layout b =
     (let off = 12 + unat (b ! 0 AND 0x0f) * 4; pad = (if b ! 0 AND 0x20 \<noteq> 0 then b ! (length b - 1) else 0) in
      if length b < 12 \<or> drop_bit 6 (b ! 0) \<noteq> kRtpVersion \<or> length b < off \<or> (b ! 0 AND 0x20 \<noteq> 0 \<and> pad = 0) then None
      else if b ! 0 AND 0x10 = 0 then (if off + unat pad > length b then None else Some (pad, 0, [], off))
      else
        let profile = LoadUInt16BE (drop off b); cap = unat (LoadUInt16BE (drop (off + 2) b)) * 4;
            (xs, es) = (if profile \<noteq> kOneByteExtensionProfileId
                 \<and> profile AND kTwobyteExtensionProfileIdAppBitsFilter \<noteq> kTwoByteExtensionProfileId then (0, [])
               else parse_extensions b (off + 4) cap (profile = kOneByteExtensionProfileId) 0 [])
        in if off + 4 > length b \<or> off + 4 + cap + unat pad > length b then None
           else Some (pad, xs, es, off + 4 + cap))"

definition with_fixed :: "bytes \<Rightarrow> RtpPacket \<Rightarrow> RtpPacket" where
  "with_fixed b p = p\<lparr>marker := (b ! 1 AND 0x80 \<noteq> 0), payload_type := b ! 1 AND 0x7f,
     sequence_number := LoadUInt16BE (drop 2 b), timestamp := LoadUInt32BE (drop 4 b), ssrc := LoadUInt32BE (drop 8 b)\<rparr>"

definition with_layout :: "bytes \<Rightarrow> u8 \<times> nat \<times> ExtensionInfo list \<times> nat \<Rightarrow> RtpPacket \<Rightarrow> RtpPacket" where
  "with_layout b = (\<lambda>(pad, xs, es, off) p. p\<lparr>padding_size := pad, extensions_size := xs, extension_entries := es,
     payload_offset := off, payload_size := length b - off - unat pad\<rparr>)"

lemma RtpParse_layout: "RtpParse p b = map_option (\<lambda>l. with_layout b l (with_fixed b p)) (layout b)"
proof -
  obtain xs es where "(if LoadUInt16BE (drop (12 + unat (b ! 0 AND 0x0f) * 4) b) \<noteq> kOneByteExtensionProfileId
                 \<and> LoadUInt16BE (drop (12 + unat (b ! 0 AND 0x0f) * 4) b) AND kTwobyteExtensionProfileIdAppBitsFilter \<noteq> kTwoByteExtensionProfileId then (0, [])
               else parse_extensions b (12 + unat (b ! 0 AND 0x0f) * 4 + 4) (unat (LoadUInt16BE (drop (12 + unat (b ! 0 AND 0x0f) * 4 + 2) b)) * 4)
                 (LoadUInt16BE (drop (12 + unat (b ! 0 AND 0x0f) * 4) b) = kOneByteExtensionProfileId) 0 []) = (xs, es)"
    by (metis surj_pair)
  then show ?thesis
    unfolding RtpParse_def layout_def with_layout_def with_fixed_def Let_def kMinRtpPacketLen_def
    by (simp only: prod.case) (simp add: not_le add.assoc)
qed

subsection \<open>The extension entries\<close>

lemma FindOrCreate_put:
  "FindOrCreateExtensionInfo i es = (k, es1) \<Longrightarrow>
     k < length es1 \<and> ext_id (es1 ! k) = i \<and> set (es1[k := info]) \<subseteq> insert info (set es)
     \<and> (ext_id info = i \<longrightarrow> map ext_id (es1[k := info]) = (if i \<in> ext_id ` set es then map ext_id es else map ext_id es @ [i]))"
  by (induction i es arbitrary: k es1 rule: FindOrCreateExtensionInfo.induct)
    (auto split: if_splits prod.splits)

definition entry_ok :: "nat \<Rightarrow> nat \<Rightarrow> ExtensionInfo \<Rightarrow> bool" where
  "entry_ok lo hi e \<longleftrightarrow> lo + unat (ext_header_length e) \<le> unat (ext_offset e)
     \<and> unat (ext_offset e) + unat (ext_length e) \<le> hi \<and> unat (ext_header_length e) \<in> {1, 2}"

lemma parse_extensions_entries:
  assumes "off + cap < 2 ^ 16" "parse_extensions b off cap one_byte sz es = (sz', es')"
    and "\<forall>e\<in>set es. entry_ok off (off + cap) e" "distinct (map ext_id es)" "sz \<le> cap"
  shows "(\<forall>e\<in>set es'. entry_ok off (off + cap) e) \<and> distinct (map ext_id es') \<and> sz' \<le> cap"
  using assms
proof (induction b off cap one_byte sz es rule: parse_extensions.induct)
  case (1 b off cap one_byte sz es)
  define hl where "hl = (if one_byte then kOneByteExtensionHeaderLength else kTwoByteExtensionHeaderLength)"
  define x where "x = b ! (off + sz)"
  define i where "i = (if one_byte then drop_bit 4 x else x)"
  define len where "len = (if one_byte then 1 + (x AND 0xf) else b ! (off + sz + 1))"
  obtain k es1 where f: "FindOrCreateExtensionInfo i es = (k, es1)" by (metis surj_pair)
  note IH = "1.IH" [OF hl_def _ x_def]
  have hl: "hl = 1 \<or> hl = 2" by (simp add: hl_def rtp_consts)
  show ?case
  proof (cases "sz + hl < cap \<and> x \<noteq> 0 \<and> \<not> (one_byte \<and> (i = 15 \<or> (i = 0 \<and> len \<noteq> 1))) \<and> sz + hl + unat len \<le> cap")
    case True
    let ?info = "\<lparr>ext_id = ext_id (es1 ! k), ext_length = len, ext_offset = of_nat (off + sz + hl), ext_header_length = of_nat hl\<rparr>"
    note p = FindOrCreate_put [OF f, of ?info]
    have "unat (of_nat (off + sz + hl) :: u16) = off + sz + hl"
      using True "1.prems"(1) by (intro unat_of_nat_small) simp
    moreover have "unat (of_nat hl :: u8) = hl" using hl by auto
    ultimately have ok: "entry_ok off (off + cap) ?info"
      using True hl by (auto simp: entry_ok_def)
    have "\<forall>e\<in>set (es1[k := ?info]). entry_ok off (off + cap) e"
      using p "1.prems"(3) ok by blast
    moreover have "distinct (map ext_id (es1[k := ?info]))"
      using p "1.prems"(4) by (auto split: if_splits)
    moreover have "parse_extensions b off cap one_byte (sz + (hl + unat len)) (es1[k := ?info]) = (sz', es')"
      using "1.prems"(2) True f by (subst (asm) parse_extensions.simps) (simp add: hl_def [symmetric] x_def [symmetric] i_def [symmetric] len_def [symmetric] Let_def)
    ultimately show ?thesis
      using IH(2) [OF _ _ i_def len_def _ _ f [symmetric] refl refl refl] True "1.prems"(1) by auto
  next
    case False
    show ?thesis
    proof (cases "sz + hl < cap \<and> x = 0")
      case True
      then have "parse_extensions b off cap one_byte (sz + 1) es = (sz', es')"
        using "1.prems"(2) by (subst (asm) parse_extensions.simps) (simp add: hl_def [symmetric] x_def [symmetric] Let_def)
      then show ?thesis using IH(1) True "1.prems" hl by auto
    next
      case no: False
      then have "(sz', es') = (sz, es)"
        using "1.prems"(2) False f by (subst (asm) parse_extensions.simps)
          (auto simp: hl_def [symmetric] x_def [symmetric] i_def [symmetric] len_def [symmetric] Let_def split: if_splits)
      then show ?thesis using "1.prems" by simp
    qed
  qed
qed

lemma parse_extensions_cong:
  assumes "\<forall>i. off \<le> i \<and> i < off + cap \<longrightarrow> b' ! i = b ! i"
  shows "parse_extensions b' off cap one_byte sz es = parse_extensions b off cap one_byte sz es"
  using assms
proof (induction b off cap one_byte sz es rule: parse_extensions.induct)
  case (1 b off cap one_byte sz es)
  define hl where "hl = (if one_byte then kOneByteExtensionHeaderLength else kTwoByteExtensionHeaderLength)"
  define x where "x = b ! (off + sz)"
  define i where "i = (if one_byte then drop_bit 4 x else x)"
  define len where "len = (if one_byte then 1 + (x AND 0xf) else b ! (off + sz + 1))"
  obtain k es1 where f: "FindOrCreateExtensionInfo i es = (k, es1)" by (metis surj_pair)
  note IH = "1.IH" [OF hl_def _ x_def]
  show ?case
  proof (cases "sz + hl < cap")
    case True
    then have x: "b' ! (off + sz) = x" using "1.prems" by (simp add: x_def)
    have len': "len = (if one_byte then 1 + (x AND 0xf) else b' ! (off + sz + 1))"
      using True "1.prems" by (auto simp: len_def hl_def rtp_consts)
    have rec1: "x = 0 \<Longrightarrow> parse_extensions b' off cap one_byte (sz + 1) es = parse_extensions b off cap one_byte (sz + 1) es"
      using IH(1) True "1.prems" by simp
    have rec2: "x \<noteq> 0 \<Longrightarrow> \<not> (one_byte \<and> (i = 15 \<or> i = 0 \<and> len \<noteq> 1)) \<Longrightarrow> \<not> sz + hl + unat len > cap \<Longrightarrow>
      parse_extensions b' off cap one_byte (sz + (hl + unat len)) (es1[k := \<lparr>ext_id = ext_id (es1 ! k), ext_length = len, ext_offset = of_nat (off + sz + hl), ext_header_length = of_nat hl\<rparr>])
      = parse_extensions b off cap one_byte (sz + (hl + unat len)) (es1[k := \<lparr>ext_id = ext_id (es1 ! k), ext_length = len, ext_offset = of_nat (off + sz + hl), ext_header_length = of_nat hl\<rparr>])"
      by (rule IH(2) [OF _ _ i_def len_def _ _ f [symmetric] refl refl refl]) (use True "1.prems" in auto)
    show ?thesis
      unfolding parse_extensions.simps [of b' off cap one_byte sz es] parse_extensions.simps [of b off cap one_byte sz es] Let_def hl_def [symmetric] x x_def [symmetric] i_def [symmetric] len_def [symmetric] len' [symmetric] f prod.case
      using rec1 rec2 by auto
  next
    case False
    then show ?thesis
      unfolding parse_extensions.simps [of b' off cap one_byte sz es] parse_extensions.simps [of b off cap one_byte sz es]
      by (simp add: hl_def)
  qed
qed

lemma Load16_agree:
  assumes "off + 2 \<le> length b" "off + 2 \<le> length b'" "b' ! off = b ! off" "b' ! (off + 1) = b ! (off + 1)"
  shows "LoadUInt16BE (drop off b') = LoadUInt16BE (drop off b)"
  using assms by (simp add: LoadUInt16BE_def)

lemma layout_agree:
  assumes l: "layout b = Some (pad, xs, es, off)" and b0: "b' ! 0 = b ! 0"
    and agree: "\<forall>i. 12 \<le> i \<and> i < off \<longrightarrow> b' ! i = b ! i"
    and len: "off + unat pad \<le> length b'"
    and padded: "b ! 0 AND 0x20 \<noteq> 0 \<Longrightarrow> b' ! (length b' - 1) = pad"
  shows "layout b' = Some (pad, xs, es, off)"
proof (cases "b ! 0 AND 0x10 = 0")
  case True
  then show ?thesis using l len padded unfolding layout_def b0 Let_def by (auto split: if_splits)
next
  case False
  define o1 where "o1 = 12 + unat (b ! 0 AND 0x0f) * 4"
  define cap where "cap = unat (LoadUInt16BE (drop (o1 + 2) b)) * 4"
  have off: "off = o1 + 4 + cap" and le: "o1 + 4 + cap \<le> length b"
    using l False unfolding layout_def Let_def o1_def [symmetric] cap_def [symmetric] by (auto split: if_splits prod.splits)
  have "12 \<le> o1" by (simp add: o1_def)
  have p: "LoadUInt16BE (drop o1 b') = LoadUInt16BE (drop o1 b)"
    by (rule Load16_agree) (use agree off le len \<open>12 \<le> o1\<close> in auto)
  have c: "LoadUInt16BE (drop (o1 + 2) b') = LoadUInt16BE (drop (o1 + 2) b)"
    by (rule Load16_agree) (use agree off le len \<open>12 \<le> o1\<close> in auto)
  have e: "parse_extensions b' (o1 + 4) cap ob 0 [] = parse_extensions b (o1 + 4) cap ob 0 []" for ob
    by (rule parse_extensions_cong) (use agree off \<open>12 \<le> o1\<close> in auto)
  have "o1 \<le> length b'" "12 \<le> length b'" using off len \<open>12 \<le> o1\<close> by linarith+
  then show ?thesis
    using l len off padded False unfolding layout_def b0 Let_def o1_def [symmetric] p c cap_def [symmetric] e
    by (auto split: if_splits prod.splits)
qed

lemma layout_bounds:
  assumes "layout b = Some (pad, xs, es, off)"
  shows "12 \<le> off \<and> off + unat pad \<le> length b \<and> GetRtpHeaderLength b = Some off
    \<and> (length b < 2 ^ 16 \<longrightarrow> (\<forall>e\<in>set es. entry_ok 16 off e) \<and> distinct (map ext_id es))"
proof (cases "b ! 0 AND 0x10 = 0")
  case True
  then show ?thesis using assms unfolding layout_def GetRtpHeaderLength_def Let_def
    by (auto simp: rtp_consts mult.commute split: if_splits)
next
  case False
  define o1 where "o1 = 12 + unat (b ! 0 AND 0x0f) * 4"
  define cap where "cap = unat (LoadUInt16BE (drop (o1 + 2) b)) * 4"
  have off: "off = o1 + 4 + cap" and le: "o1 + 4 + cap + unat pad \<le> length b"
    using assms False unfolding layout_def Let_def o1_def [symmetric] cap_def [symmetric] by (auto split: if_splits prod.splits)
  have es: "es = [] \<or> (\<exists>ob. parse_extensions b (o1 + 4) cap ob 0 [] = (xs, es))"
    using assms False unfolding layout_def Let_def o1_def [symmetric] cap_def [symmetric] by (auto split: if_splits prod.splits)
  have en: "length b < 2 ^ 16 \<Longrightarrow> (\<forall>e\<in>set es. entry_ok (o1 + 4) off e) \<and> distinct (map ext_id es)"
    using es parse_extensions_entries [of "o1 + 4" cap b _ 0 "[]" xs es] off le by auto
  have o1: "12 + 4 * unat (b ! 0 AND 0x0f) = o1" by (simp add: o1_def)
  have "12 \<le> o1" by (simp add: o1_def)
  then have hl: "GetRtpHeaderLength b = Some off"
    using le False off unfolding GetRtpHeaderLength_def rtp_consts Let_def o1 cap_def [symmetric] by auto
  have "entry_ok (o1 + 4) off e \<Longrightarrow> entry_ok 16 off e" for e by (simp add: entry_ok_def o1_def)
  then show ?thesis using en hl le off \<open>12 \<le> o1\<close> by auto
qed

section \<open>Fields and bytes agree\<close>

definition coherent :: "RtpPacket \<Rightarrow> bool" where
  "coherent p \<longleftrightarrow> RtpParse p (data p) = Some p"

lemma RtpCreate_coherent: "RtpCreate p b = Some q \<Longrightarrow> coherent q \<and> data q = b"
  by (auto simp: RtpCreate_def coherent_def RtpParse_layout with_layout_def with_fixed_def split: prod.splits)

lemma coherent_layout:
  assumes "coherent p"
  obtains pad xs es off where "layout (data p) = Some (pad, xs, es, off)" "padding_size p = pad" "extensions_size p = xs"
    "extension_entries p = es" "payload_offset p = off" "payload_size p = length (data p) - off - unat pad"
    "with_fixed (data p) p = p"
proof -
  obtain l where l: "layout (data p) = Some l" "with_layout (data p) l (with_fixed (data p) p) = p"
    using assms by (auto simp: coherent_def RtpParse_layout)
  obtain pad xs es off where e: "l = (pad, xs, es, off)" by (cases l)
  note f = l(2) [unfolded e, THEN arg_cong]
  have "with_fixed (data p) p = p"
    using f [of marker] f [of payload_type] f [of sequence_number] f [of timestamp] f [of ssrc]
    by (simp add: with_layout_def with_fixed_def)
  moreover have "padding_size p = pad" "extensions_size p = xs" "extension_entries p = es" "payload_offset p = off"
    "payload_size p = length (data p) - off - unat pad"
    using f [of padding_size] f [of extensions_size] f [of extension_entries] f [of payload_offset] f [of payload_size]
    by (simp_all add: with_layout_def)
  ultimately show ?thesis using that l(1) e by blast
qed

lemma coherent_size:
  assumes "coherent p"
  shows "RtpSize p = length (data p) \<and> 12 \<le> payload_offset p \<and> payload_offset p + unat (padding_size p) \<le> length (data p)"
  using assms by (rule coherent_layout) (auto dest!: layout_bounds simp: RtpSize_def)

text \<open>Changing the first twelve bytes but not the first keeps the layout.\<close>

lemma coherent_update:
  assumes c: "coherent p" and len: "length d = length (data p)" and d0: "d ! 0 = data p ! 0"
    and rest: "\<And>i. 12 \<le> i \<Longrightarrow> i < length d \<Longrightarrow> d ! i = data p ! i"
  shows "coherent (with_fixed d (p\<lparr>data := d\<rparr>))"
  using c
proof (rule coherent_layout)
  fix pad xs es off
  assume l: "layout (data p) = Some (pad, xs, es, off)" and f: "padding_size p = pad" "extensions_size p = xs"
    "extension_entries p = es" "payload_offset p = off" "payload_size p = length (data p) - off - unat pad"
  have b: "12 \<le> off" "off + unat pad \<le> length (data p)" using layout_bounds [OF l] by auto
  have "data p ! 0 AND 0x20 \<noteq> 0 \<Longrightarrow> d ! (length d - 1) = pad"
  proof -
    assume "data p ! 0 AND 0x20 \<noteq> 0"
    then have "pad \<noteq> 0" "data p ! (length (data p) - 1) = pad"
      using l unfolding layout_def Let_def by (auto split: if_splits prod.splits)
    moreover from \<open>pad \<noteq> 0\<close> have "0 < unat pad" by (simp add: unat_gt_0)
    ultimately show ?thesis using rest [of "length d - 1"] b len by auto
  qed
  then have "layout d = Some (pad, xs, es, off)"
    using layout_agree [OF l d0] rest b len by auto
  then show ?thesis using f len
    by (simp add: coherent_def RtpParse_layout with_layout_def with_fixed_def)
qed

lemma Load16_nth: "LoadUInt16BE (drop k d) = push_bit 8 (ucast (d ! k)) OR ucast (d ! (k + 1))" if "k \<le> length d"
  using that by (simp add: LoadUInt16BE_def)

lemma Load32_nth:
  "LoadUInt32BE (drop k d) = push_bit 24 (ucast (d ! k)) OR push_bit 16 (ucast (d ! (k + 1)))
     OR push_bit 8 (ucast (d ! (k + 2))) OR ucast (d ! (k + 3))" if "k \<le> length d"
  using that by (simp add: LoadUInt32BE_def)

lemma drop_overwrite_at: "off + length ys \<le> length xs \<Longrightarrow> drop off (overwrite xs off ys) = ys @ drop (off + length ys) xs"
  by (simp add: overwrite_def)

lemma high_bit_or: "(x AND 0x80) OR (t :: u8) = x'' \<Longrightarrow> t < 128 \<Longrightarrow> x'' AND 0x7f = t \<and> (x'' AND 0x80 = 0 \<longleftrightarrow> x AND 0x80 = 0)"
proof -
  assume e: "(x AND 0x80) OR t = x''" and t: "t < 128"
  have "unat t < 2 ^ 7" using t by (simp add: word_less_nat_alt)
  then have "take_bit 7 t = t"
    by (intro word_unat_eq_iff [THEN iffD2]) (simp add: unsigned_take_bit_eq take_bit_nat_eq_self)
  then have "x'' AND 0x7f = t"
    unfolding e [symmetric] and_flags low_bits by (auto intro!: bit_word_eqI simp: bit_simps)
  moreover have "\<not> bit t 7" using \<open>take_bit 7 t = t\<close> by (metis bit_take_bit_iff less_irrefl)
  then have "x'' AND 0x80 = 0 \<longleftrightarrow> x AND 0x80 = 0"
    unfolding e [symmetric] and_flags by (simp add: bit_simps)
  ultimately show ?thesis by blast
qed

lemma coherent_fixedD:
  assumes "coherent p"
  shows "marker p = (data p ! 1 AND 0x80 \<noteq> 0)" "payload_type p = data p ! 1 AND 0x7f"
    "sequence_number p = LoadUInt16BE (drop 2 (data p))" "timestamp p = LoadUInt32BE (drop 4 (data p))"
    "ssrc p = LoadUInt32BE (drop 8 (data p))" "12 \<le> length (data p)"
proof -
  have f: "with_fixed (data p) p = p" using assms by (rule coherent_layout)
  show "marker p = (data p ! 1 AND 0x80 \<noteq> 0)" using arg_cong [OF f, of marker] by (simp add: with_fixed_def)
  show "payload_type p = data p ! 1 AND 0x7f" using arg_cong [OF f, of payload_type] by (simp add: with_fixed_def)
  show "sequence_number p = LoadUInt16BE (drop 2 (data p))" using arg_cong [OF f, of sequence_number] by (simp add: with_fixed_def)
  show "timestamp p = LoadUInt32BE (drop 4 (data p))" using arg_cong [OF f, of timestamp] by (simp add: with_fixed_def)
  show "ssrc p = LoadUInt32BE (drop 8 (data p))" using arg_cong [OF f, of ssrc] by (simp add: with_fixed_def)
  show "12 \<le> length (data p)" using coherent_size [OF assms] by linarith
qed

lemma SetMarker_coherent: assumes "coherent p" shows "coherent (SetMarker m p)"
proof -
  note f = coherent_fixedD [OF assms]
  let ?d = "(data p)[1 := (if m then data p ! 1 OR 0x80 else data p ! 1 AND 0x7F)]"
  have "with_fixed ?d (p\<lparr>data := ?d\<rparr>) = SetMarker m p"
  proof -
    have "(data p ! 1 OR 0x80) AND 0x7F = data p ! 1 AND 0x7F" "(data p ! 1 AND 0x7F) AND 0x7F = data p ! 1 AND 0x7F"
      "(data p ! 1 OR 0x80) AND 0x80 \<noteq> 0" "(data p ! 1 AND 0x7F) AND 0x80 = 0"
      unfolding and_flags low_bits
      by (auto intro!: bit_word_eqI simp: bit_simps and_flags(1) [symmetric] word_bw_lcs word_bw_assocs)
    then show ?thesis using f by (simp add: with_fixed_def SetMarker_def Load16_nth Load32_nth)
  qed
  moreover have "coherent (with_fixed ?d (p\<lparr>data := ?d\<rparr>))"
    by (rule coherent_update [OF assms]) simp_all
  ultimately show ?thesis by simp
qed

lemma SetPayloadType_coherent: assumes "coherent p" "t < 128" shows "coherent (SetPayloadType t p)"
proof -
  note f = coherent_fixedD [OF assms(1)]
  let ?d = "(data p)[1 := (data p ! 1 AND 0x80) OR t]"
  have "with_fixed ?d (p\<lparr>data := ?d\<rparr>) = SetPayloadType t p"
    using f high_bit_or [OF refl assms(2), of "data p ! 1"] by (simp add: with_fixed_def SetPayloadType_def Load16_nth Load32_nth)
  moreover have "coherent (with_fixed ?d (p\<lparr>data := ?d\<rparr>))"
    by (rule coherent_update [OF assms(1)]) simp_all
  ultimately show ?thesis by simp
qed

lemma coherent_overwrite:
  assumes "coherent p" "1 \<le> off" "off + length v \<le> 12"
  shows "coherent (with_fixed (overwrite (data p) off v) (p\<lparr>data := overwrite (data p) off v\<rparr>))"
proof -
  have l: "12 \<le> length (data p)" using coherent_fixedD(6) [OF assms(1)] .
  then have "overwrite (data p) off v ! 0 = data p ! 0"
    using nth_overwrite [of off v "data p" 0] assms(2,3) by (cases "data p = []") auto
  then show ?thesis using l assms(2,3)
    by (intro coherent_update [OF assms(1)]) (auto simp: nth_overwrite)
qed

lemma SetSequenceNumber_coherent: assumes "coherent p" shows "coherent (SetSequenceNumber v p)"
proof -
  note f = coherent_fixedD [OF assms]
  have "with_fixed (overwrite (data p) 2 (StoreUInt16BE v)) (p\<lparr>data := overwrite (data p) 2 (StoreUInt16BE v)\<rparr>) = SetSequenceNumber v p"
    using f by (simp add: with_fixed_def SetSequenceNumber_def drop_overwrite_at drop_overwrite_after nth_overwrite)
  then show ?thesis using coherent_overwrite [OF assms, of 2 "StoreUInt16BE v"] by simp
qed

lemma SetTimestamp_coherent: assumes "coherent p" shows "coherent (SetTimestamp v p)"
proof -
  note f = coherent_fixedD [OF assms]
  have "with_fixed (overwrite (data p) 4 (StoreUInt32BE v)) (p\<lparr>data := overwrite (data p) 4 (StoreUInt32BE v)\<rparr>) = SetTimestamp v p"
    using f by (simp add: with_fixed_def SetTimestamp_def drop_overwrite_at drop_overwrite_after nth_overwrite Load16_nth)
  then show ?thesis using coherent_overwrite [OF assms, of 4 "StoreUInt32BE v"] by simp
qed

lemma SetSsrc_coherent: assumes "coherent p" shows "coherent (SetSsrc v p)"
proof -
  note f = coherent_fixedD [OF assms]
  have "with_fixed (overwrite (data p) 8 (StoreUInt32BE v)) (p\<lparr>data := overwrite (data p) 8 (StoreUInt32BE v)\<rparr>) = SetSsrc v p"
    using f by (simp add: with_fixed_def SetSsrc_def drop_overwrite_at nth_overwrite Load16_nth Load32_nth)
  then show ?thesis using coherent_overwrite [OF assms, of 8 "StoreUInt32BE v"] by simp
qed

text \<open>A created packet is described exactly by its fields: header, payload and padding add up to the
  datagram, the payload starts where \<open>GetRtpHeaderLength\<close> says, and every recorded header
  extension lies inside the extension block, with distinct ids.\<close>

theorem RtpCreate_bounds:
  assumes "RtpCreate p b = Some q"
  shows "RtpSize q = length b \<and> data q = b \<and> GetRtpHeaderLength b = Some (payload_offset q)
    \<and> (length b < 2 ^ 16 \<longrightarrow>
        (\<forall>e\<in>set (extension_entries q). entry_ok 16 (payload_offset q) e) \<and> distinct (map ext_id (extension_entries q)))"
proof -
  have c: "coherent q" "data q = b" using RtpCreate_coherent [OF assms] by auto
  from c(1) obtain pad xs es off where l: "layout (data q) = Some (pad, xs, es, off)" "extension_entries q = es" "payload_offset q = off"
    by (rule coherent_layout)
  show ?thesis using c layout_bounds [OF l(1)] coherent_size [OF c(1)] l(2,3) by simp
qed

definition blank_rtp :: RtpPacket where
  "blank_rtp = \<lparr>marker = False, payload_type = 0, padding_size = 0, sequence_number = 0, timestamp = 0, ssrc = 0,
     payload_offset = 0, payload_size = 0, extension_entries = [], extensions_size = 0, data = [],
     payload_info = new_payload_info, extension_capability = []\<rparr>"

definition example_rtp :: bytes where
  "example_rtp = [0x90, 0xE0, 0x12, 0x34, 0, 0, 0, 9, 0, 0, 0, 7, 0xBE, 0xDE, 0, 1, 0x31, 0xAB, 0xCD, 0, 1, 2, 3, 4]"

lemma example_create:
  "RtpCreate blank_rtp example_rtp = Some \<lparr>marker = True, payload_type = 0x60, padding_size = 0, sequence_number = 0x1234,
     timestamp = 9, ssrc = 7, payload_offset = 20, payload_size = 4,
     extension_entries = [\<lparr>ext_id = 3, ext_length = 2, ext_offset = 17, ext_header_length = 1\<rparr>], extensions_size = 3,
     data = example_rtp, payload_info = new_payload_info, extension_capability = []\<rparr>"
  by (simp add: RtpCreate_def RtpParse_def example_rtp_def blank_rtp_def rtp_consts LoadUInt16BE_def LoadUInt32BE_def
      parse_extensions.simps Let_def)

theorem RtpCreate_bounds_witness:
  "\<exists>q. RtpCreate blank_rtp example_rtp = Some q \<and> RtpSize q = length example_rtp
     \<and> GetRtpHeaderLength example_rtp = Some (payload_offset q) \<and> extension_entries q \<noteq> []"
  using RtpCreate_bounds [OF example_create] example_create by auto

text \<open>Every setter keeps the fields and the bytes of a packet in agreement: parsing the bytes it leaves
  gives back the packet it leaves. For \<open>SetPayloadType\<close> the type must fit its seven bits.\<close>

theorem setters_coherent:
  assumes "coherent p" "t < 128"
  shows "coherent (SetMarker m p) \<and> coherent (SetPayloadType t p) \<and> coherent (SetSequenceNumber n p)
    \<and> coherent (SetTimestamp ts p) \<and> coherent (SetSsrc s p)"
  using assms by (simp add: SetMarker_coherent SetPayloadType_coherent SetSequenceNumber_coherent
      SetTimestamp_coherent SetSsrc_coherent)

theorem setters_coherent_witness:
  "\<exists>q. RtpCreate blank_rtp example_rtp = Some q \<and> coherent (SetMarker False q) \<and> coherent (SetPayloadType 96 q)
     \<and> coherent (SetSequenceNumber 0xFFFF q) \<and> coherent (SetTimestamp 1 q) \<and> coherent (SetSsrc 9527 q)"
  using setters_coherent [OF RtpCreate_coherent [OF example_create, THEN conjunct1], of 96] example_create by auto

section \<open>Retransmissions\<close>

lemma no_ninth_bit: "8 \<le> n \<Longrightarrow> \<not> bit (y :: u8) n"
  using bit_imp_le_length [of y n] by auto

lemma Store_Load_16: "2 \<le> length d \<Longrightarrow> StoreUInt16BE (LoadUInt16BE d) = take 2 d"
proof -
  assume "2 \<le> length d"
  then obtain x y zs where d: "d = x # y # zs" by (metis Suc_le_length_iff numeral_2_eq_2)
  show ?thesis unfolding d
    by (auto simp: StoreUInt16BE_def LoadUInt16BE_def bit_simps no_ninth_bit intro!: bit_word_eqI)
qed

lemma Store_Load_32: "4 \<le> length d \<Longrightarrow> StoreUInt32BE (LoadUInt32BE d) = take 4 d"
proof -
  assume "4 \<le> length d"
  then obtain x y z w zs where d: "d = x # y # z # w # zs" by (metis Suc_le_length_iff numeral_eq_Suc pred_numeral_simps(2) pred_numeral_simps(3) semiring_norm(26) semiring_norm(27) semiring_norm(28) numeral_2_eq_2 numeral_3_eq_3)
  show ?thesis unfolding d
    by (auto simp: StoreUInt32BE_def LoadUInt32BE_def bit_simps no_ninth_bit intro!: bit_word_eqI)
qed

text \<open>RFC 4588: the retransmission of a packet goes out with its own sequence number, payload type and
  source, and carries the original sequence number in front of the payload.\<close>

definition rtx_encapsulate :: "u16 \<Rightarrow> u8 \<Rightarrow> u32 \<Rightarrow> RtpPacket \<Rightarrow> bytes" where
  "rtx_encapsulate n t s q = SetRtpSsrc s (SetRtpPayloadType t (SetRtpSequenceNumber n
     (take (payload_offset q) (data q) @ StoreUInt16BE (sequence_number q) @ drop (payload_offset q) (data q))))"

lemma rtx_nth:
  assumes "12 \<le> payload_offset q" "payload_offset q \<le> length (data q)"
  shows "length (rtx_encapsulate n t s q) = length (data q) + 2"
    and "12 \<le> i \<Longrightarrow> i < length (data q) + 2 \<Longrightarrow> rtx_encapsulate n t s q ! i
      = (take (payload_offset q) (data q) @ StoreUInt16BE (sequence_number q) @ drop (payload_offset q) (data q)) ! i"
    and "i = 0 \<or> 4 \<le> i \<and> i < 8 \<Longrightarrow> rtx_encapsulate n t s q ! i = data q ! i"
    and "rtx_encapsulate n t s q ! 1 = (data q ! 1 AND 0x80) OR t"
  using assms by (auto simp: rtx_encapsulate_def SetRtpSsrc_def SetRtpPayloadType_def SetRtpSequenceNumber_def rtp_consts
      nth_overwrite nth_list_update nth_append)

lemma payload_byte_restore: "t < 128 \<Longrightarrow> ((((x AND 0x80) OR t) AND 0x80) OR (x AND 0x7f)) = (x :: u8)"
proof -
  assume "t < 128"
  then have "unat t < 2 ^ 7" by (simp add: word_less_nat_alt)
  then have "take_bit 7 t = t"
    by (intro word_unat_eq_iff [THEN iffD2]) (simp add: unsigned_take_bit_eq take_bit_nat_eq_self)
  then have "\<not> bit t 7" by (metis bit_take_bit_iff less_irrefl)
  show ?thesis
  proof (rule bit_word_eqI)
    fix i assume "i < LENGTH(8)"
    then have "i < 8" by simp
    moreover have "bit (0x80 :: u8) i \<longleftrightarrow> i = 7" "bit (0x7f :: u8) i \<longleftrightarrow> i < 7"
      using \<open>i < 8\<close> bit_exp_iff [where ?'a = "8 word", of 7 i] bit_mask_iff [where ?'a = "8 word", of 7 i]
      by (auto simp: mask_eq_exp_minus_1)
    moreover have "i < 7 \<or> i = 7" using \<open>i < 8\<close> by linarith
    ultimately show "bit ((((x AND 0x80) OR t) AND 0x80) OR (x AND 0x7f)) i = bit x i"
      using \<open>\<not> bit t 7\<close> by (auto simp: bit_and_iff bit_or_iff)
  qed
qed

text \<open>Writing the old payload type, number and source back restores the header.\<close>

lemma rtx_header_restored:
  fixes n :: u16 and s :: u32
  assumes c: "coherent q" and t: "t < 128" and off: "12 \<le> payload_offset q" "payload_offset q \<le> length (data q)"
  defines "d \<equiv> rtx_encapsulate n t s q"
  shows "take (payload_offset q) (overwrite (overwrite (d[1 := (d ! 1 AND 0x80) OR payload_type q]) 2 (StoreUInt16BE (sequence_number q))) 8
      (StoreUInt32BE (ssrc q))) = take (payload_offset q) (data q)"
proof -
  let ?b = "data q" and ?d = "rtx_encapsulate n t s q" and ?off = "payload_offset q"
  let ?D = "overwrite (overwrite (?d[1 := (?d ! 1 AND 0x80) OR payload_type q]) 2 (StoreUInt16BE (sequence_number q))) 8 (StoreUInt32BE (ssrc q))"
  note fx = coherent_fixedD [OF c]
  note d = rtx_nth [OF off]
  have len: "length ?D = length ?b + 2" using d(1) off by simp
  have seq: "StoreUInt16BE (sequence_number q) = take 2 (drop 2 ?b)" "StoreUInt32BE (ssrc q) = take 4 (drop 8 ?b)"
    using fx(3,5,6) by (simp_all add: Store_Load_16 Store_Load_32)
  have sq: "StoreUInt16BE (sequence_number q) ! 0 = ?b ! 2" "StoreUInt16BE (sequence_number q) ! 1 = ?b ! 3"
    using off by (simp_all add: seq(1))
  have ne: "data q \<noteq> []" using off by auto
  show ?thesis unfolding d_def
  proof (rule nth_equalityI)
    fix i assume "i < length (take ?off ?D)"
    then have i: "i < ?off" "i < length ?b + 2" using len by auto
    consider "12 \<le> i" | "i = 1" | "i = 0 \<or> 4 \<le> i \<and> i < 8" | "8 \<le> i \<and> i < 12" | "i = 2" | "i = 3" by linarith
    then have "?D ! i = ?b ! i"
    proof cases
      case 1
      then have "?D ! i = ?d ! i" using d(1) off i by (simp add: nth_overwrite)
      also have "\<dots> = ?b ! i" using d(2) [OF 1] off i by (simp add: nth_append)
      finally show ?thesis .
    next
      case 3
      then have "?D ! i = ?d ! i" using d(1) off i ne by (auto simp: nth_overwrite)
      then show ?thesis using d(3) [OF 3] by simp
    next
      case 2
      then show ?thesis using d(1,4) off fx(2) payload_byte_restore [OF t] by (simp add: nth_overwrite)
    next
      case 4
      then have "8 \<le> i" "i < 12" "i - 8 < 4" "8 + (i - 8) = i" by auto
      then show ?thesis using d(1) off by (simp add: nth_overwrite seq(2))
    next
      case 5
      then show ?thesis using d(1) off sq ne by (simp add: nth_overwrite)
    next
      case 6
      then show ?thesis using d(1) off sq ne by (simp add: nth_overwrite)
    qed
    then show "take ?off ?D ! i = take ?off ?b ! i" using i by simp
  qed (use len off in simp)
qed

lemma rtx_restored:
  assumes c: "coherent q" and np: "padding_size q = 0" and t: "t < 128"
  shows "\<exists>r r'. RtpCreate p (rtx_encapsulate n t s q) = Some r
    \<and> RtxRepair (LoadUInt16BE (drop (payload_offset r) (data r))) (payload_type q) (ssrc q) r = Returns r'
    \<and> take (RtpSize r') (data r') = data q \<and> RtpSize r' = RtpSize q
    \<and> marker r' = marker q \<and> payload_type r' = payload_type q \<and> sequence_number r' = sequence_number q
    \<and> timestamp r' = timestamp q \<and> ssrc r' = ssrc q \<and> payload_offset r' = payload_offset q
    \<and> payload_size r' = payload_size q \<and> extension_entries r' = extension_entries q"
  using c
proof (rule coherent_layout)
  fix pad xs es off
  assume l: "layout (data q) = Some (pad, xs, es, off)" and f: "padding_size q = pad" "extensions_size q = xs"
    "extension_entries q = es" "payload_offset q = off" "payload_size q = length (data q) - off - unat pad"
  let ?b = "data q" and ?d = "rtx_encapsulate n t s q"
  have off: "12 \<le> off" "off \<le> length ?b" using layout_bounds [OF l] by auto
  note fx = coherent_fixedD [OF c]
  note d = rtx_nth [of q, unfolded f, OF off]
  have "?b ! 0 AND 0x20 = 0"
    using l np f(1) unfolding layout_def Let_def by (auto split: if_splits prod.splits)
  then have ld: "layout ?d = Some (0, xs, es, off)"
    using layout_agree [OF l, of ?d] d np f(1) off by (auto simp: nth_append)
  define r where "r = (with_layout ?d (0, xs, es, off) (with_fixed ?d p))\<lparr>data := ?d\<rparr>"
  have cr: "RtpCreate p ?d = Some r" by (simp add: RtpCreate_def RtpParse_layout ld r_def)
  have r: "payload_offset r = off" "payload_size r = length ?b + 2 - off" "padding_size r = 0" "data r = ?d"
    "extension_entries r = es" "timestamp r = LoadUInt32BE (drop 4 ?d)" "marker r = (?d ! 1 AND 0x80 \<noteq> 0)"
    by (simp_all add: r_def with_layout_def with_fixed_def d)
  have osn: "LoadUInt16BE (drop off ?d) = sequence_number q"
  proof -
    have "LoadUInt16BE (drop off ?d) = LoadUInt16BE (drop off (take off ?b @ StoreUInt16BE (sequence_number q) @ drop off ?b))"
      by (rule Load16_agree) (use off d in \<open>simp_all\<close>)
    then show ?thesis using off by simp
  qed
  let ?D = "overwrite (overwrite (?d[1 := (?d ! 1 AND 0x80) OR payload_type q]) 2 (StoreUInt16BE (sequence_number q))) 8 (StoreUInt32BE (ssrc q))"
  have len: "length ?D = length ?b + 2" using d(1) off by simp
  have head: "take off ?D = take off ?b"
    using rtx_header_restored [OF c t, of n s] off by (simp add: f(4))
  have tail: "drop (off + 2) ?D = drop off ?b"
    by (rule nth_equalityI) (use d off len in \<open>auto simp: nth_overwrite nth_append\<close>)
  define r' where "r' = SetSsrc (ssrc q) (SetSequenceNumber (sequence_number q) (SetPayloadType (payload_type q) r))
    \<lparr>data := overwrite ?D off (drop off ?b), payload_size := length ?b - off\<rparr>"
  have "RtxRepair (sequence_number q) (payload_type q) (ssrc q) r = Returns r'"
  proof -
    have n: "payload_size r = (length ?b - off) + 2" using r(2) off by simp
    have D: "data (SetSsrc (ssrc q) (SetSequenceNumber (sequence_number q) (SetPayloadType (payload_type q) r))) = ?D"
      by (simp add: SetSsrc_def SetSequenceNumber_def SetPayloadType_def r(4))
    have s: "payload_offset (SetSsrc s1 (SetSequenceNumber s2 (SetPayloadType s3 r))) = off"
      "payload_size (SetSsrc s1 (SetSequenceNumber s2 (SetPayloadType s3 r))) = (length ?b - off) + 2"
      "padding_size (SetSsrc s1 (SetSequenceNumber s2 (SetPayloadType s3 r))) = 0" for s1 s2 s3
      using n r(1,3) by (simp_all add: SetSsrc_def SetSequenceNumber_def SetPayloadType_def)
    have "take (length ?b - off) (drop off ?b) = drop off ?b" by simp
    then show ?thesis
      unfolding RtxRepair_def Let_def D s kRtxHeaderSize_def tail n add_diff_cancel_right'
      by (simp add: r'_def s)
  qed
  moreover have "RtpSize r' = length ?b"
    using off r by (simp add: RtpSize_def r'_def SetSsrc_def SetSequenceNumber_def SetPayloadType_def)
  moreover have "take (length ?b) (overwrite ?D off (drop off ?b)) = ?b"
    using take_overwrite [of off "drop off ?b" ?D] off len head by simp
  moreover have "timestamp r = timestamp q" "marker r = marker q"
    using fx(1,4) d(1,4) off t r(6,7) by (simp_all add: Load32_nth d(3)) (simp add: high_bit_or [OF refl, THEN conjunct2])
  ultimately show ?thesis
    using cr r osn f np coherent_size [OF c]
    by (intro exI [of _ r] exI [of _ r']) (simp add: r'_def SetSsrc_def SetSequenceNumber_def SetPayloadType_def)
qed

lemma example_plain:
  "RtpCreate blank_rtp [0x80, 0x60, 0, 5, 0, 0, 0, 9, 0, 0, 0, 7, 1, 2, 3] = Some \<lparr>marker = False, payload_type = 0x60, padding_size = 0,
     sequence_number = 5, timestamp = 9, ssrc = 7, payload_offset = 12, payload_size = 3, extension_entries = [], extensions_size = 0,
     data = [0x80, 0x60, 0, 5, 0, 0, 0, 9, 0, 0, 0, 7, 1, 2, 3], payload_info = new_payload_info, extension_capability = []\<rparr>"
  by (simp add: RtpCreate_def RtpParse_def blank_rtp_def rtp_consts LoadUInt16BE_def LoadUInt32BE_def Let_def)

text \<open>A retransmission is repaired to the packet it carries: for every packet without padding and
  every retransmission header, the encapsulated packet parses, and repairing it with the sequence
  number found in its payload yields the bytes and the fields of the original.\<close>

theorem RtxRepair_restores:
  assumes c: "coherent q" and np: "padding_size q = 0" and t: "t < 128"
  shows "\<exists>r r'. RtpCreate p (rtx_encapsulate n t s q) = Some r
    \<and> RtxRepair (LoadUInt16BE (drop (payload_offset r) (data r))) (payload_type q) (ssrc q) r = Returns r'
    \<and> take (RtpSize r') (data r') = data q \<and> RtpSize r' = RtpSize q
    \<and> marker r' = marker q \<and> payload_type r' = payload_type q \<and> sequence_number r' = sequence_number q
    \<and> timestamp r' = timestamp q \<and> ssrc r' = ssrc q \<and> payload_offset r' = payload_offset q
    \<and> payload_size r' = payload_size q \<and> extension_entries r' = extension_entries q"
  using assms by (rule rtx_restored)

theorem RtxRepair_restores_witness:
  "\<exists>q r r'. RtpCreate blank_rtp [0x80, 0x60, 0, 5, 0, 0, 0, 9, 0, 0, 0, 7, 1, 2, 3] = Some q
     \<and> RtpCreate blank_rtp (rtx_encapsulate 77 97 8 q) = Some r
     \<and> RtxRepair (LoadUInt16BE (drop (payload_offset r) (data r))) (payload_type q) (ssrc q) r = Returns r'
     \<and> take (RtpSize r') (data r') = data q"
  using RtxRepair_restores [OF RtpCreate_coherent [OF example_plain, THEN conjunct1], of 97 blank_rtp 77 8] example_plain by auto

text \<open>A retransmission with padding is not repaired: unless the padding is within two bytes of the
  maximum, the new padding length is written behind the end of the packet's allocation.\<close>

theorem RtxRepair_padding_overruns:
  assumes "coherent p" "padding_size p \<noteq> 0" "padding_size p < 254" "2 \<le> payload_size p"
  shows "RtxRepair n t s p = OutOfBounds"
proof -
  have "unat (padding_size p + 2) = unat (padding_size p) + 2"
    using assms(3) by (simp add: unat_plus_simple [THEN iffD1] word_less_nat_alt word_le_nat_alt unat_word_ariths)
  moreover have "RtpSize p = length (data p)" using coherent_size [OF assms(1)] by simp
  moreover have "12 \<le> length (data p)" using coherent_fixedD(6) [OF assms(1)] .
  moreover have "payload_offset p + payload_size p \<le> length (data p)" using calculation(2) by (simp add: RtpSize_def)
  ultimately show ?thesis
    using assms unfolding RtxRepair_def Let_def
    by (simp add: SetSsrc_def SetSequenceNumber_def SetPayloadType_def kRtxHeaderSize_def RtpSize_def)
qed

lemma example_padded:
  "RtpCreate blank_rtp [0xA0, 0x61, 0, 5, 0, 0, 0, 9, 0, 0, 0, 7, 1, 2, 3, 1] = Some \<lparr>marker = False, payload_type = 0x61, padding_size = 1,
     sequence_number = 5, timestamp = 9, ssrc = 7, payload_offset = 12, payload_size = 3, extension_entries = [], extensions_size = 0,
     data = [0xA0, 0x61, 0, 5, 0, 0, 0, 9, 0, 0, 0, 7, 1, 2, 3, 1], payload_info = new_payload_info, extension_capability = []\<rparr>"
  by (simp add: RtpCreate_def RtpParse_def blank_rtp_def rtp_consts LoadUInt16BE_def LoadUInt32BE_def Let_def)

theorem RtxRepair_padding_overruns_witness:
  "\<exists>q. RtpCreate blank_rtp [0xA0, 0x61, 0, 5, 0, 0, 0, 9, 0, 0, 0, 7, 1, 2, 3, 1] = Some q \<and> RtxRepair 258 96 8 q = OutOfBounds"
  using RtxRepair_padding_overruns [OF RtpCreate_coherent [OF example_padded, THEN conjunct1], of 258 96 8] example_padded by auto

section \<open>Header extensions in place\<close>

text \<open>Entries are made in the order of the block.\<close>

lemma parse_extensions_after:
  assumes "off + cap < 2 ^ 16" "parse_extensions b off cap one_byte sz es = (sz', es')" "e \<in> set es'"
  shows "e \<in> set es \<or> off + sz + (if one_byte then kOneByteExtensionHeaderLength else kTwoByteExtensionHeaderLength) \<le> unat (ext_offset e)"
  using assms
proof (induction b off cap one_byte sz es rule: parse_extensions.induct)
  case (1 b off cap one_byte sz es)
  define hl where "hl = (if one_byte then kOneByteExtensionHeaderLength else kTwoByteExtensionHeaderLength)"
  define x where "x = b ! (off + sz)"
  define i where "i = (if one_byte then drop_bit 4 x else x)"
  define len where "len = (if one_byte then 1 + (x AND 0xf) else b ! (off + sz + 1))"
  obtain k es1 where f: "FindOrCreateExtensionInfo i es = (k, es1)" by (metis surj_pair)
  note IH = "1.IH" [OF hl_def _ x_def]
  let ?info = "\<lparr>ext_id = ext_id (es1 ! k), ext_length = len, ext_offset = of_nat (off + sz + hl), ext_header_length = of_nat hl\<rparr>"
  have eq: "(sz', es') = (if sz + hl < cap then
      if x = 0 then parse_extensions b off cap one_byte (sz + 1) es
      else if one_byte \<and> (i = 15 \<or> (i = 0 \<and> len \<noteq> 1)) \<or> sz + hl + unat len > cap then (sz, es)
      else parse_extensions b off cap one_byte (sz + (hl + unat len)) (es1[k := ?info]) else (sz, es))"
    using "1.prems"(2) f by (subst (asm) parse_extensions.simps)
      (auto simp: hl_def [symmetric] x_def [symmetric] i_def [symmetric] len_def [symmetric] Let_def split: if_splits)
  consider (stop) "es' = es" | (padding) "sz + hl < cap" "x = 0" "parse_extensions b off cap one_byte (sz + 1) es = (sz', es')"
    | (element) "sz + hl < cap" "x \<noteq> 0" "\<not> (one_byte \<and> (i = 15 \<or> (i = 0 \<and> len \<noteq> 1)))" "\<not> sz + hl + unat len > cap"
      "parse_extensions b off cap one_byte (sz + (hl + unat len)) (es1[k := ?info]) = (sz', es')"
    using eq by (auto split: if_splits)
  then show ?case unfolding hl_def [symmetric]
  proof cases
    case stop
    then show "e \<in> set es \<or> off + sz + hl \<le> unat (ext_offset e)" using "1.prems"(3) by simp
  next
    case padding
    then show "e \<in> set es \<or> off + sz + hl \<le> unat (ext_offset e)"
      using IH(1) "1.prems"(1,3) by (auto simp: hl_def)
  next
    case element
    have "unat (of_nat (off + sz + hl) :: u16) = off + sz + hl"
      using element(1) "1.prems"(1) by (intro unat_of_nat_small) simp
    moreover have "e \<in> set (es1[k := ?info]) \<or> off + (sz + (hl + unat len)) + hl \<le> unat (ext_offset e)"
      unfolding hl_def
      by (rule IH(2) [OF _ _ i_def len_def _ _ f [symmetric] refl refl refl, unfolded hl_def]) (use element "1.prems"(1,3) in \<open>auto simp: hl_def\<close>)
    ultimately show "e \<in> set es \<or> off + sz + hl \<le> unat (ext_offset e)"
      using FindOrCreate_put [OF f, of ?info] by auto
  qed
qed

text \<open>The bytes of an element that made an entry are not looked at.\<close>

lemma parse_extensions_data:
  assumes "off + cap < 2 ^ 16" "parse_extensions b off cap one_byte sz es = (sz', es')" "e \<in> set es'"
    and "\<forall>e\<in>set es. unat (ext_offset e) + unat (ext_length e) \<le> off + sz"
    and "\<forall>i. off + sz \<le> i \<and> i < off + cap \<and> \<not> (unat (ext_offset e) \<le> i \<and> i < unat (ext_offset e) + unat (ext_length e)) \<longrightarrow> b' ! i = b ! i"
  shows "parse_extensions b' off cap one_byte sz es = (sz', es')"
  using assms
proof (induction b off cap one_byte sz es rule: parse_extensions.induct)
  case (1 b off cap one_byte sz es)
  define hl where "hl = (if one_byte then kOneByteExtensionHeaderLength else kTwoByteExtensionHeaderLength)"
  define x where "x = b ! (off + sz)"
  define i where "i = (if one_byte then drop_bit 4 x else x)"
  define len where "len = (if one_byte then 1 + (x AND 0xf) else b ! (off + sz + 1))"
  obtain k es1 where f: "FindOrCreateExtensionInfo i es = (k, es1)" by (metis surj_pair)
  note IH = "1.IH" [OF hl_def _ x_def]
  let ?info = "\<lparr>ext_id = ext_id (es1 ! k), ext_length = len, ext_offset = of_nat (off + sz + hl), ext_header_length = of_nat hl\<rparr>"
  have far: "e \<in> set es \<or> off + sz + hl \<le> unat (ext_offset e)"
    using parse_extensions_after [OF "1.prems"(1-3)] by (simp add: hl_def)
  then have out: "\<not> (unat (ext_offset e) \<le> j \<and> j < unat (ext_offset e) + unat (ext_length e))" if "off + sz \<le> j" "j < off + sz + hl" for j
    using that "1.prems"(4) by fastforce
  show ?case
  proof (cases "sz + hl < cap")
    case True
    have hl: "0 < hl" "\<not> one_byte \<Longrightarrow> hl = 2" by (simp_all add: hl_def rtp_consts)
    have x: "b' ! (off + sz) = x" using "1.prems"(5) True hl out [of "off + sz"] by (simp add: x_def)
    have len': "len = (if one_byte then 1 + (x AND 0xf) else b' ! (off + sz + 1))"
      using True "1.prems"(5) out [of "off + sz + 1"] hl by (auto simp: len_def)
    have eq: "parse_extensions c off cap one_byte sz es = (if x = 0 then parse_extensions c off cap one_byte (sz + 1) es
      else if one_byte \<and> (i = 15 \<or> (i = 0 \<and> len \<noteq> 1)) \<or> sz + hl + unat len > cap then (sz, es)
      else parse_extensions c off cap one_byte (sz + (hl + unat len)) (es1[k := ?info]))"
      if "c ! (off + sz) = x" "len = (if one_byte then 1 + (x AND 0xf) else c ! (off + sz + 1))" for c
      unfolding parse_extensions.simps [of c off cap one_byte sz es] Let_def hl_def [symmetric] that(1) i_def [symmetric] that(2) [symmetric] f prod.case
      using True by auto
    note e1 = eq [OF x len'] and e2 = eq [OF x_def [symmetric] len_def, unfolded "1.prems"(2)]
    have small: "unat (of_nat (off + sz + hl) :: u16) = off + sz + hl"
      using True "1.prems"(1) by (intro unat_of_nat_small) simp
    show ?thesis
    proof (cases "x = 0")
      case True
      then have "parse_extensions b' off cap one_byte (sz + 1) es = (sz', es')"
        by (intro IH(1)) (use True \<open>sz + hl < cap\<close> "1.prems" e2 in auto)
      then show ?thesis using e1 True by simp
    next
      case False
      show ?thesis
      proof (cases "one_byte \<and> (i = 15 \<or> (i = 0 \<and> len \<noteq> 1)) \<or> sz + hl + unat len > cap")
        case True
        then show ?thesis using e1 e2 False by auto
      next
        case go: False
        have old: "\<forall>e\<in>set (es1[k := ?info]). unat (ext_offset e) + unat (ext_length e) \<le> off + (sz + (hl + unat len))"
          using FindOrCreate_put [OF f, of ?info] "1.prems"(4) small by fastforce
        have "parse_extensions b' off cap one_byte (sz + (hl + unat len)) (es1[k := ?info]) = (sz', es')"
          by (rule IH(2) [OF _ False i_def len_def _ _ f [symmetric] refl refl refl])
            (use True go False "1.prems" old e2 in auto)
        then show ?thesis using e1 False go by simp
      qed
    qed
  next
    case False
    then show ?thesis using "1.prems"(2)
      unfolding parse_extensions.simps [of b' off cap one_byte sz es] parse_extensions.simps [of b off cap one_byte sz es]
      by (simp add: hl_def)
  qed
qed

lemma layout_entry_data:
  assumes l: "layout b = Some (pad, xs, es, off)" and e: "e \<in> set es" and small: "length b < 2 ^ 16"
    and len: "length b' = length b"
    and agree: "\<And>i. i < length b \<Longrightarrow> \<not> (unat (ext_offset e) \<le> i \<and> i < unat (ext_offset e) + unat (ext_length e)) \<Longrightarrow> b' ! i = b ! i"
  shows "layout b' = Some (pad, xs, es, off) \<and> (\<forall>i<16. b' ! i = b ! i)"
proof -
  have bounds: "12 \<le> off" "off + unat pad \<le> length b" "16 \<le> unat (ext_offset e)" "unat (ext_offset e) + unat (ext_length e) \<le> off"
    using layout_bounds [OF l] e small by (auto simp: entry_ok_def)
  have head: "b' ! i = b ! i" if "i < 16" for i using agree bounds that by simp
  have b0: "b' ! 0 = b ! 0" using head by simp
  have ext: "b ! 0 AND 0x10 \<noteq> 0" using l e unfolding layout_def Let_def by (auto split: if_splits)
  define o1 where "o1 = 12 + unat (b ! 0 AND 0x0f) * 4"
  define cap where "cap = unat (LoadUInt16BE (drop (o1 + 2) b)) * 4"
  define ob where "ob \<longleftrightarrow> LoadUInt16BE (drop o1 b) = kOneByteExtensionProfileId"
  have off: "off = o1 + 4 + cap" "o1 + 4 + cap \<le> length b" and pe: "parse_extensions b (o1 + 4) cap ob 0 [] = (xs, es)"
    using l ext e unfolding layout_def Let_def o1_def [symmetric] cap_def [symmetric] ob_def by (auto split: if_splits prod.splits)
  have sm: "o1 + 4 + cap < 2 ^ 16" using off small by linarith
  have far: "o1 + 4 \<le> unat (ext_offset e)" using parse_extensions_after [OF sm pe e] by auto
  have pe': "parse_extensions b' (o1 + 4) cap ob 0 [] = (xs, es)"
    by (rule parse_extensions_data [OF sm pe e]) (use agree off in auto)
  have p: "LoadUInt16BE (drop o1 b') = LoadUInt16BE (drop o1 b)" "LoadUInt16BE (drop (o1 + 2) b') = LoadUInt16BE (drop (o1 + 2) b)"
    using off far agree len by (auto intro!: Load16_agree)
  have last: "b' ! (length b - 1) = b ! (length b - 1)" if "pad \<noteq> 0"
  proof -
    have "0 < unat pad" using that by (simp add: unat_gt_0)
    then show ?thesis using bounds by (intro agree) linarith+
  qed
  have padded: "pad \<noteq> 0" if "b ! 0 AND 0x20 \<noteq> 0"
    using l that unfolding layout_def Let_def by (auto split: if_splits prod.splits)
  have "layout b' = Some (pad, xs, es, off)"
    using l last padded ext pe pe' unfolding layout_def b0 len Let_def o1_def [symmetric] p cap_def [symmetric] ob_def [symmetric]
    by (auto split: if_splits prod.splits)
  then show ?thesis using head by blast
qed

text \<open>Stamping keeps bytes and fields in agreement.\<close>

lemma SetTransportSequenceNumber_coherent:
  assumes "coherent p" "length (data p) < 2 ^ 16"
  shows "coherent (SetTransportSequenceNumber v p) \<and> length (data (SetTransportSequenceNumber v p)) = length (data p)"
proof (cases "\<exists>e. FindExtension kRtpExtensionTransportSequenceNumber p = Some e \<and> unat (ext_length e) = 2")
  case True
  then obtain e where e: "FindExtension kRtpExtensionTransportSequenceNumber p = Some e" "unat (ext_length e) = 2" by blast
  obtain pad xs es off where l: "layout (data p) = Some (pad, xs, es, off)" "padding_size p = pad" "extensions_size p = xs"
      "extension_entries p = es" "payload_offset p = off" "payload_size p = length (data p) - off - unat pad"
    by (rule coherent_layout [OF assms(1)])
  have "e \<in> set es" using e(1) l(4) by (auto simp: FindExtension_def bind_eq_Some_conv dest: find_SomeD)
  then have room: "unat (ext_offset e) + 2 \<le> length (data p)" using layout_bounds [OF l(1)] assms(2) e(2) by (fastforce simp: entry_ok_def)
  define d where "d = overwrite (data p) (unat (ext_offset e)) (StoreUInt16BE v)"
  have len: "length d = length (data p)" using room by (simp add: d_def)
  have "d ! i = data p ! i" if "i < length (data p)" "\<not> (unat (ext_offset e) \<le> i \<and> i < unat (ext_offset e) + unat (ext_length e))" for i
    using that room e(2) by (auto simp: d_def nth_overwrite)
  then have d: "layout d = Some (pad, xs, es, off)" "\<forall>i<16. d ! i = data p ! i"
    using layout_entry_data [OF l(1) \<open>e \<in> set es\<close> assms(2) len] by blast+
  note f = coherent_fixedD [OF assms(1)]
  have "with_fixed d (p\<lparr>data := d\<rparr>) = p\<lparr>data := d\<rparr>"
    using f d(2) len by (simp add: with_fixed_def Load16_nth Load32_nth)
  then have "coherent (p\<lparr>data := d\<rparr>)" using d(1) l len by (simp add: coherent_def RtpParse_layout with_layout_def)
  moreover have "SetTransportSequenceNumber v p = p\<lparr>data := d\<rparr>"
    using e by (simp add: SetTransportSequenceNumber_def TransportSequenceNumberSerialize_def d_def)
  ultimately show ?thesis using len by simp
next
  case False
  then have "SetTransportSequenceNumber v p = p"
    by (auto simp: SetTransportSequenceNumber_def TransportSequenceNumberSerialize_def split: option.splits)
  then show ?thesis using assms(1) by simp
qed

text \<open>The transport-wide sequence number extension is rewritten in place: reading it back gives the value
  written, and no other byte of the packet changes.\<close>

theorem SetTransportSequenceNumber_get:
  assumes "coherent p" "length (data p) < 2 ^ 16"
    and "FindExtension kRtpExtensionTransportSequenceNumber p = Some e" "ext_length e = 2"
  shows "GetTransportSequenceNumber (SetTransportSequenceNumber v p) = Some v
    \<and> length (data (SetTransportSequenceNumber v p)) = length (data p)
    \<and> (\<forall>i<length (data p). \<not> (unat (ext_offset e) \<le> i \<and> i < unat (ext_offset e) + 2)
         \<longrightarrow> data (SetTransportSequenceNumber v p) ! i = data p ! i)"
proof -
  have "e \<in> set (extension_entries p)"
    using assms(3) by (auto simp: FindExtension_def Option.bind_eq_Some_conv dest: find_SomeD)
  from assms(1) obtain pad xs es off where l: "layout (data p) = Some (pad, xs, es, off)" "extension_entries p = es"
    by (rule coherent_layout)
  then have "entry_ok 16 off e" "off \<le> length (data p)"
    using layout_bounds [OF l(1)] \<open>e \<in> _\<close> assms(2) by auto
  then have room: "unat (ext_offset e) + 2 \<le> length (data p)" using assms(4) by (simp add: entry_ok_def)
  let ?d = "overwrite (data p) (unat (ext_offset e)) (StoreUInt16BE v)"
  have s: "SetTransportSequenceNumber v p = p\<lparr>data := ?d\<rparr>"
    using assms(3,4) by (simp add: SetTransportSequenceNumber_def TransportSequenceNumberSerialize_def)
  have "FindExtension kRtpExtensionTransportSequenceNumber (p\<lparr>data := ?d\<rparr>) = Some e"
    using assms(3) by (simp add: FindExtension_def)
  then show ?thesis
    using room assms(4) by (simp add: s GetTransportSequenceNumber_def TransportSequenceNumberParse_def drop_overwrite_at nth_overwrite)
qed

theorem SetTransportSequenceNumber_get_witness:
  "\<exists>q. RtpCreate (blank_rtp\<lparr>extension_capability := [(kRtpExtensionTransportSequenceNumber, 3)]\<rparr>) example_rtp = Some q
     \<and> GetTransportSequenceNumber q = Some 0xABCD \<and> GetTransportSequenceNumber (SetTransportSequenceNumber 0x1234 q) = Some 0x1234"
proof -
  let ?p = "blank_rtp\<lparr>extension_capability := [(kRtpExtensionTransportSequenceNumber, 3)]\<rparr>"
  let ?e = "\<lparr>ext_id = 3, ext_length = 2, ext_offset = 17, ext_header_length = 1\<rparr>"
  obtain q where q: "RtpCreate ?p example_rtp = Some q" "extension_entries q = [?e]"
    "extension_capability q = [(kRtpExtensionTransportSequenceNumber, 3)]" "data q = example_rtp"
    by (simp add: RtpCreate_def RtpParse_def example_rtp_def blank_rtp_def rtp_consts LoadUInt16BE_def LoadUInt32BE_def
        parse_extensions.simps Let_def)
  have e: "FindExtension kRtpExtensionTransportSequenceNumber q = Some ?e"
    using q by (simp add: FindExtension_def GetTypeId_def)
  have "GetTransportSequenceNumber q = Some 0xABCD"
    using e q(4) by (simp add: GetTransportSequenceNumber_def TransportSequenceNumberParse_def example_rtp_def LoadUInt16BE_def)
  then show ?thesis
    using SetTransportSequenceNumber_get [OF RtpCreate_coherent [OF q(1), THEN conjunct1] _ e] q
    by (auto simp: example_rtp_def)
qed

text \<open>Two defects of the extension code: the stream id is read with no regard to the length of the
  extension, so that it picks up the digits of the next one or runs off the packet, and updating the
  capability dereferences an id the new capability does not have.\<close>

theorem extension_defects:
  "StreamIdParse [0x31, 0x32, 0x33, 0] 1 = Returns 123 \<and> StreamIdParse [0x31] 1 = OutOfBounds
   \<and> update_entry [(kRtpExtensionMid, 4)] [] \<lparr>ext_id = 4, ext_length = 1, ext_offset = 17, ext_header_length = 1\<rparr> d = OutOfBounds"
  by (simp add: StreamIdParse_def is_space_def is_digit_def update_entry_def GetIdType_def GetTypeId_def)

end
