(* ===== verification/Seq_Num.thy ===== *)
theory Seq_Num
  imports Prelude
begin

text \<open>
  Sequence number comparison and unwrapping, \<^verbatim>\<open>src/src/base/sequence_number_util.h\<close>, at the type
  the program instantiates it with (\<open>uint16_t\<close>). In C++ the difference of two \<open>uint16_t\<close> is an
  \<open>int\<close>, so the first comparison of \<open>SeqNumGE\<close> is between integers; only the cast back wraps.
\<close>

section \<open>Comparison\<close>

definition maxDist :: u16 where
  "maxDist = 0x8000"

definition SeqNumGE :: "u16 \<Rightarrow> u16 \<Rightarrow> bool" where
  "SeqNumGE a b = (if uint a - uint b = uint maxDist then b < a else a - b < maxDist)"

definition SeqNumGT :: "u16 \<Rightarrow> u16 \<Rightarrow> bool" where
  "SeqNumGT a b = (a \<noteq> b \<and> SeqNumGE a b)"

definition IsSeqNumLessThan :: "u16 \<Rightarrow> u16 \<Rightarrow> bool" where
  "IsSeqNumLessThan a b = SeqNumGT b a"

text \<open>The distance from \<open>b\<close> forward to \<open>a\<close> on the circle of sequence numbers.\<close>

definition seq_dist :: "u16 \<Rightarrow> u16 \<Rightarrow> nat" where
  "seq_dist b a = unat (a - b)"

lemma seq_dist_less: "seq_dist b a < 65536"
  using unsigned_less [of "a - b", where ?'a = nat] by (simp add: seq_dist_def)

lemma seq_dist_self [simp]: "seq_dist a a = 0"
  by (simp add: seq_dist_def)

lemma seq_dist_eq_0 [simp]: "seq_dist b a = 0 \<longleftrightarrow> a = b"
  by (simp add: seq_dist_def unat_eq_0)

lemma seq_dist_int: "int (seq_dist b a) = (uint a - uint b) mod 65536"
  by (simp add: seq_dist_def uint_word_ariths(2) flip: uint_nat)

lemma seq_dist_trans: "seq_dist b a = (seq_dist b c + seq_dist c a) mod 65536"
proof -
  have "int (seq_dist b a) = int ((seq_dist b c + seq_dist c a) mod 65536)"
    by (simp add: seq_dist_int zmod_int mod_simps)
  then show ?thesis by (simp only: of_nat_eq_iff)
qed

lemma seq_dist_inj: "seq_dist b a = seq_dist b c \<longleftrightarrow> a = c"
  by (simp add: seq_dist_def flip: word_unat_eq_iff)

lemma seq_dist_add: "n < 65536 \<Longrightarrow> seq_dist b (b + of_nat n) = n"
  by (simp add: seq_dist_def unat_of_nat_small)

lemma seq_dist_flip: "a \<noteq> b \<Longrightarrow> seq_dist a b = 65536 - seq_dist b a"
proof -
  assume "a \<noteq> b"
  then have "seq_dist a b \<noteq> 0" by auto
  moreover have "(seq_dist a b + seq_dist b a) mod 65536 = 0"
    using seq_dist_trans [of a a b] by simp
  ultimately show ?thesis by (simp add: mod_add_wrap seq_dist_less split: if_splits)
qed

lemma SeqNumGE_dist:
  "SeqNumGE a b \<longleftrightarrow> seq_dist b a < 32768 \<or> seq_dist b a = 32768 \<and> b < a"
proof -
  have lt: "a - b < maxDist \<longleftrightarrow> seq_dist b a < 32768"
    by (simp add: maxDist_def seq_dist_def word_less_nat_alt)
  have bounds: "0 \<le> uint a" "uint a < 65536" "0 \<le> uint b" "uint b < 65536"
    using uint_lt2p [of a] uint_lt2p [of b] by simp_all
  have eq: "uint a - uint b = uint maxDist \<longleftrightarrow> seq_dist b a = 32768 \<and> b < a"
  proof
    assume h: "uint a - uint b = uint maxDist"
    then have "int (seq_dist b a) = 32768" by (simp add: seq_dist_int maxDist_def)
    then show "seq_dist b a = 32768 \<and> b < a" using h by (simp add: word_less_def maxDist_def)
  next
    assume "seq_dist b a = 32768 \<and> b < a"
    then have "(uint a - uint b) mod 65536 = 32768" "uint b < uint a"
      by (simp_all flip: seq_dist_int add: word_less_def)
    then show "uint a - uint b = uint maxDist" using bounds by (simp add: maxDist_def)
  qed
  show ?thesis unfolding SeqNumGE_def lt eq by (auto simp: eq)
qed

lemma SeqNumGT_dist:
  "SeqNumGT a b \<longleftrightarrow> 0 < seq_dist b a \<and> (seq_dist b a < 32768 \<or> seq_dist b a = 32768 \<and> b < a)"
  using seq_dist_eq_0 [of b a] by (auto simp: SeqNumGT_def SeqNumGE_dist simp del: seq_dist_eq_0)

lemma SeqNumGE_refl [simp]: "SeqNumGE a a"
  by (simp add: SeqNumGE_dist)

lemma SeqNumGT_irrefl [simp]: "\<not> SeqNumGT a a"
  by (simp add: SeqNumGT_def)

text \<open>Any two distinct sequence numbers are ordered one way and not the other.\<close>

lemma SeqNumGT_asym_total: "a \<noteq> b \<Longrightarrow> SeqNumGT a b \<longleftrightarrow> \<not> SeqNumGT b a"
  using seq_dist_flip [of a b] seq_dist_less [of b a] seq_dist_eq_0 [of b a]
  by (auto simp: SeqNumGT_dist simp del: seq_dist_eq_0)

lemma SeqNumGE_iff_not_GT: "SeqNumGE a b \<longleftrightarrow> \<not> SeqNumGT b a"
  using SeqNumGT_asym_total [of a b] by (cases "a = b") (auto simp: SeqNumGT_def)

text \<open>The comparison is not transitive on the whole circle, but it is the order of the distances
  from any point that sees all its arguments within half the circle.\<close>

lemma SeqNumGT_not_transitive:
  "SeqNumGT 20000 0 \<and> SeqNumGT 40000 20000 \<and> \<not> SeqNumGT 40000 0"
  by (simp add: SeqNumGT_def SeqNumGE_def maxDist_def)

lemma SeqNumGT_window:
  assumes "seq_dist base a < 32768" "seq_dist base b < 32768"
  shows "SeqNumGT a b \<longleftrightarrow> seq_dist base b < seq_dist base a"
proof -
  have "seq_dist base a = (seq_dist base b + seq_dist b a) mod 65536"
    by (rule seq_dist_trans)
  moreover have "seq_dist b a < 65536" by (rule seq_dist_less)
  ultimately show ?thesis using assms
    using seq_dist_less [of b a]
    by (auto simp: SeqNumGT_dist mod_add_wrap split: if_splits)
qed

lemma SeqNumGE_window:
  assumes "seq_dist base a < 32768" "seq_dist base b < 32768"
  shows "SeqNumGE a b \<longleftrightarrow> seq_dist base b \<le> seq_dist base a"
  using SeqNumGT_window [OF assms(2,1)] by (simp add: SeqNumGE_iff_not_GT not_less)

section \<open>Unwrapping\<close>

record SeqNumUnwrapper =
  last_unwrapped :: int
  last_value :: "u16 option"
  last_without_update_value :: "u16 option"

definition new_unwrapper :: SeqNumUnwrapper where
  "new_unwrapper = \<lparr>last_unwrapped = 0, last_value = None, last_without_update_value = None\<rparr>"

definition seq_step :: "u16 \<Rightarrow> u16 \<Rightarrow> int" where
  "seq_step lv value =
     (let d = uint (value - lv) in if SeqNumGE value lv then d else d - (65535 + 1))"

definition Unwrap :: "u16 \<Rightarrow> SeqNumUnwrapper \<Rightarrow> int \<times> SeqNumUnwrapper" where
  "Unwrap value u =
     (let x = (case last_value u of
                 None \<Rightarrow> uint value
               | Some lv \<Rightarrow> last_unwrapped u + seq_step lv value)
      in (x, u\<lparr>last_unwrapped := x, last_value := Some value\<rparr>))"

definition UnwrapWithoutUpdate :: "u16 \<Rightarrow> SeqNumUnwrapper \<Rightarrow> int \<times> SeqNumUnwrapper" where
  "UnwrapWithoutUpdate value u =
     ((case last_value u of
         None \<Rightarrow> uint value
       | Some lv \<Rightarrow> 0 + seq_step lv value),
      u\<lparr>last_without_update_value := Some value\<rparr>)"

definition UpdateLast :: "int \<Rightarrow> SeqNumUnwrapper \<Rightarrow> SeqNumUnwrapper" where
  "UpdateLast lv u =
     (let u' = (if last_without_update_value u \<noteq> None
                then u\<lparr>last_value := last_without_update_value u\<rparr> else u)
      in u'\<lparr>last_unwrapped := lv\<rparr>)"

lemma seq_step_dist:
  "seq_step lv v =
     (if SeqNumGE v lv then int (seq_dist lv v) else int (seq_dist lv v) - 65536)"
  by (simp add: seq_step_def seq_dist_def)

lemma seq_step_cong: "(seq_step lv v) mod 65536 = (uint v - uint lv) mod 65536"
  by (simp add: seq_step_dist seq_dist_int)

lemma seq_step_bounds: "- 32768 \<le> seq_step lv v" "seq_step lv v \<le> 32768"
  using seq_dist_less [of lv v] by (auto simp: seq_step_dist SeqNumGE_dist)

lemma seq_step_exact:
  assumes "\<bar>y - x\<bar> < 32768"
  shows "seq_step (word_of_int x) (word_of_int y) = y - x"
proof -
  let ?s = "seq_step (word_of_int x) (word_of_int y)"
  have "?s mod 65536 = (y mod 65536 - x mod 65536) mod 65536"
    by (simp add: seq_step_cong uint_word_of_int)
  also have "\<dots> = (y - x) mod 65536" by (rule mod_diff_eq)
  finally have eq: "?s mod 65536 = (y - x) mod 65536" .
  have "- 32768 \<le> ?s" "?s \<le> 32768" by (rule seq_step_bounds)+
  then have "\<bar>?s - (y - x)\<bar> < 65536" using assms by linarith
  with eq show ?thesis by (rule int_mod_close)
qed

definition unwrapper_ok :: "SeqNumUnwrapper \<Rightarrow> bool" where
  "unwrapper_ok u = (case last_value u of None \<Rightarrow> True
                     | Some v \<Rightarrow> last_unwrapped u mod 65536 = uint v)"

lemma Unwrap_ok:
  assumes "unwrapper_ok u"
  shows "unwrapper_ok (snd (Unwrap v u))" and "fst (Unwrap v u) mod 65536 = uint v"
proof -
  have uv: "uint v mod 65536 = uint v" using uint_lt2p [of v] by simp
  show "fst (Unwrap v u) mod 65536 = uint v"
  proof (cases "last_value u")
    case (Some l)
    then have "(last_unwrapped u + seq_step l v) mod 65536
        = (last_unwrapped u mod 65536 + seq_step l v mod 65536) mod 65536" by (simp add: mod_simps)
    also have "\<dots> = uint v"
      using assms Some uv by (simp add: unwrapper_ok_def seq_step_cong mod_simps)
    finally show ?thesis using Some by (simp add: Unwrap_def Let_def)
  qed (simp add: Unwrap_def Let_def uv)
  then show "unwrapper_ok (snd (Unwrap v u))"
    by (simp add: unwrapper_ok_def Unwrap_def Let_def)
qed

text \<open>Feeding a whole stream of sequence numbers to the unwrapper.\<close>

fun unwrap_all :: "u16 list \<Rightarrow> SeqNumUnwrapper \<Rightarrow> int list" where
  "unwrap_all [] u = []"
| "unwrap_all (v # vs) u = (let (x, u') = Unwrap v u in x # unwrap_all vs u')"

fun close_steps :: "int list \<Rightarrow> bool" where
  "close_steps (x # y # xs) = (\<bar>y - x\<bar> < 32768 \<and> close_steps (y # xs))"
| "close_steps xs = True"

lemma unwrap_all_from:
  assumes "close_steps (x # xs)" "last_value u = Some (word_of_int x)"
  shows "unwrap_all (map word_of_int xs) u = map (\<lambda>y. last_unwrapped u + (y - x)) xs"
  using assms
proof (induction xs arbitrary: x u)
  case (Cons y ys)
  then have step: "seq_step (word_of_int x) (word_of_int y) = y - x"
    and rest: "close_steps (y # ys)" by (simp_all add: seq_step_exact)
  show ?case
    using Cons.prems(2) step Cons.IH [OF rest] by (simp add: Unwrap_def Let_def algebra_simps)
qed simp

section \<open>Properties\<close>

text \<open>C27. The unwrapper reconstructs the true sequence: fed the low 16 bits of any sequence of integers
  that starts in the first cycle and whose neighbours differ by less than half a cycle, in either
  direction and over any number of wrap-arounds, it returns those integers.\<close>

theorem unwrap_tracks:
  assumes "0 \<le> x" "x < 65536" "close_steps (x # xs)"
  shows "unwrap_all (map word_of_int (x # xs)) new_unwrapper = x # xs"
proof -
  let ?u = "new_unwrapper\<lparr>last_unwrapped := x, last_value := Some (word_of_int x)\<rparr>"
  have "uint (word_of_int x :: u16) = x" using assms(1,2) by (simp add: uint_word_of_int)
  then have "Unwrap (word_of_int x) new_unwrapper = (x, ?u)"
    by (simp add: Unwrap_def new_unwrapper_def)
  moreover have "unwrap_all (map word_of_int xs) ?u = map (\<lambda>y. x + (y - x)) xs"
    using unwrap_all_from [OF assms(3), of ?u] by simp
  ultimately show ?thesis by simp
qed

theorem unwrap_tracks_witness:
  "unwrap_all (map word_of_int [65000, 65530, 65540, 98000, 97000, 129000, 131080]) new_unwrapper
     = [65000, 65530, 65540, 98000, 97000, 129000, 131080]"
  by (rule unwrap_tracks) simp_all

text \<open>Within any half window of the circle the comparison is the strict order of the distances from
  the start of the window, whatever wraps inside it.\<close>

theorem IsSeqNumLessThan_window:
  assumes "seq_dist base a < 32768" "seq_dist base b < 32768"
  shows "IsSeqNumLessThan a b \<longleftrightarrow> seq_dist base a < seq_dist base b"
  using assms by (simp add: IsSeqNumLessThan_def SeqNumGT_window)

theorem IsSeqNumLessThan_window_witness:
  "IsSeqNumLessThan 65530 7 \<longleftrightarrow> seq_dist 65000 65530 < seq_dist 65000 7"
  by (rule IsSeqNumLessThan_window) (simp_all add: seq_dist_def)

text \<open>\<open>UnwrapWithoutUpdate\<close> does not return the unwrapped value: once a value has been seen, it
  returns the distance to that value, short of the unwrapped value by \<open>last_unwrapped_\<close>.\<close>

theorem UnwrapWithoutUpdate_relative:
  assumes "last_value u = Some lv"
  shows "fst (UnwrapWithoutUpdate v u) = fst (Unwrap v u) - last_unwrapped u"
  using assms by (simp add: UnwrapWithoutUpdate_def Unwrap_def Let_def)

theorem UnwrapWithoutUpdate_relative_witness:
  "fst (UnwrapWithoutUpdate 1001 (snd (Unwrap 1000 new_unwrapper)))
     = fst (Unwrap 1001 (snd (Unwrap 1000 new_unwrapper))) - 1000"
  using UnwrapWithoutUpdate_relative [of "snd (Unwrap 1000 new_unwrapper)" 1000 1001]
  by (simp add: Unwrap_def new_unwrapper_def Let_def)

end
