(* ===== verification/Rtcp_Packet.thy ===== *)
theory Rtcp_Packet
  imports Byte_Buffer Seq_Num
begin

text \<open>
  RTCP packets, \<^verbatim>\<open>src/src/rtp_rtcp/rtcp_packet.{h,cpp}\<close>: the common header with its bit fields,
  sender and receiver reports, the common feedback header, PLI, FIR and NACK. The class hierarchy
  is a hierarchy of extensible records; a packet object whose \<open>header_\<close> has not been assigned yet
  holds whatever the memory held, so constructors take the initial header as an argument.
  \<open>Serialize\<close> changes the object (it leaves \<open>header_.length\<close> in network order), so it returns the
  packet together with the writer. Every format has an encoding \<open>enc_...\<close> as its specification.
\<close>

section \<open>Common header\<close>

record RtcpCommonHeader =
  count_or_format :: "5 word"
  padding :: "1 word"
  version :: "2 word"
  packet_type :: u8
  hdr_length :: u16

record RtcpPacket =
  header :: RtcpCommonHeader
  sender_ssrc :: u32

definition kHeaderLength :: nat where "kHeaderLength = 4"

text \<open>\<open>htons\<close> and \<open>ntohs\<close> on a little-endian host.\<close>

definition htons :: "u16 \<Rightarrow> u16" where
  "htons v = push_bit 8 v OR drop_bit 8 v"

text \<open>The layout of the bit fields in memory, least significant field first.\<close>

definition header_memory :: "RtcpCommonHeader \<Rightarrow> bytes" where
  "header_memory h =
     [ucast (count_or_format h) OR push_bit 5 (ucast (padding h)) OR push_bit 6 (ucast (version h)),
      packet_type h, ucast (hdr_length h), ucast (drop_bit 8 (hdr_length h))]"

definition header_of_memory :: "bytes \<Rightarrow> RtcpCommonHeader" where
  "header_of_memory d =
     \<lparr>count_or_format = ucast (d ! 0), padding = ucast (drop_bit 5 (d ! 0)),
      version = ucast (drop_bit 6 (d ! 0)), packet_type = d ! 1,
      hdr_length = ucast (d ! 2) OR push_bit 8 (ucast (d ! 3))\<rparr>"

definition ParseCommonHeader :: "'a RtcpPacket_scheme \<Rightarrow> byte_reader
    \<Rightarrow> ('a RtcpPacket_scheme \<times> byte_reader) option" where
  "ParseCommonHeader p r = do {
     (d, r) \<leftarrow> ReadBytes 4 r;
     let h = header_of_memory d;
     Some (p\<lparr>header := h\<lparr>hdr_length := htons (hdr_length h)\<rparr>\<rparr>, r) }"

definition SerializeCommonHeader :: "'a RtcpPacket_scheme \<Rightarrow> byte_writer
    \<Rightarrow> ('a RtcpPacket_scheme \<times> byte_writer) option" where
  "SerializeCommonHeader p w = do {
     let p = p\<lparr>header := (header p)\<lparr>hdr_length := htons (hdr_length (header p))\<rparr>\<rparr>;
     w \<leftarrow> WriteBytes (header_memory (header p)) w;
     Some (p, w) }"

definition Type :: "'a RtcpPacket_scheme \<Rightarrow> u8" where
  "Type p = packet_type (header p)"

definition Format :: "'a RtcpPacket_scheme \<Rightarrow> u8" where
  "Format p = ucast (count_or_format (header p))"

definition Count :: "'a RtcpPacket_scheme \<Rightarrow> u8" where
  "Count p = ucast (count_or_format (header p))"

text \<open>\<open>RtcpPacket::Parse\<close>: a packet of a type the server does not look into is passed over.\<close>

definition RtcpPacketParse :: "'a RtcpPacket_scheme \<Rightarrow> byte_reader
    \<Rightarrow> ('a RtcpPacket_scheme \<times> byte_reader) option" where
  "RtcpPacketParse p r = do {
     (p, r) \<leftarrow> ParseCommonHeader p r;
     let payload_len = unat (hdr_length (header p)) * 4;
     r \<leftarrow> ReaderConsume payload_len r;
     Some (p, r) }"

definition IsRtcp :: "bytes \<Rightarrow> bool" where
  "IsRtcp data =
     (if length data < 4 then False
      else let V = drop_bit 6 (data ! 0) in
        if V \<noteq> 2 then False
        else let payloadType = data ! 1 in
          payloadType \<in> {192, 195, 200, 201, 202, 203, 204, 205, 206, 207})"

text \<open>The specification of the header: its four bytes on the wire.\<close>

definition enc_header :: "RtcpCommonHeader \<Rightarrow> bytes" where
  "enc_header h =
     [ucast (count_or_format h) OR push_bit 5 (ucast (padding h)) OR push_bit 6 (ucast (version h)),
      packet_type h] @ StoreUInt16BE (hdr_length h)"

lemma length_enc_header [simp]: "length (enc_header h) = 4"
  by (simp add: enc_header_def)

lemma htons_htons [simp]: "htons (htons v) = v"
  by (rule bit_word_eqI) (auto simp: htons_def bit_simps)

lemma header_memory_htons:
  "header_memory (h\<lparr>hdr_length := htons (hdr_length h)\<rparr>) = enc_header h"
proof -
  have "ucast (htons v) = (ucast (drop_bit 8 v) :: u8)" for v
    by (rule bit_word_eqI) (auto simp: htons_def bit_simps)
  moreover have "ucast (drop_bit 8 (htons v)) = (ucast v :: u8)" for v
    by (rule bit_word_eqI) (auto simp: htons_def bit_simps)
  ultimately show ?thesis by (simp add: header_memory_def enc_header_def StoreUInt16BE_def)
qed

lemma header_fields:
  fixes c :: "5 word" and p :: "1 word" and v :: "2 word"
  defines "b \<equiv> (ucast c OR push_bit 5 (ucast p) OR push_bit 6 (ucast v)) :: u8"
  shows "ucast b = c" "ucast (drop_bit 5 b) = p" "ucast (drop_bit 6 b) = v"
  unfolding b_def by (rule bit_word_eqI; auto simp: bit_simps dest: bit_imp_le_length)+

lemma header_of_memory_enc:
  "header_of_memory (enc_header h @ bs) = h\<lparr>hdr_length := htons (hdr_length h)\<rparr>"
proof -
  have "ucast (ucast (drop_bit 8 v) :: u8) OR push_bit 8 (ucast (ucast v :: u8)) = htons v" for v :: u16
    by (rule bit_word_eqI) (auto simp: htons_def bit_simps dest: bit_imp_le_length)
  then show ?thesis
    by (simp add: header_of_memory_def enc_header_def StoreUInt16BE_def header_fields del: drop_bit_or)
qed

lemma ParseCommonHeader_enc [wire_simps]:
  "reader_ok r \<Longrightarrow> CurrentData r = enc_header h @ bs
    \<Longrightarrow> ParseCommonHeader p r = Some (p\<lparr>header := h\<rparr>, skip r 4)"
  using header_of_memory_enc [of h "[]"] by (simp add: ParseCommonHeader_def reader_step)

lemma ParseCommonHeader_moved:
  "reader_ok r \<Longrightarrow> ParseCommonHeader p r = Some (p', r') \<Longrightarrow> moved 4 r r'"
  by (auto simp: ParseCommonHeader_def reader_step moved_skip Let_def split: if_splits)

lemma SerializeCommonHeader_enc [wire_simps]:
  "writer_ok w \<Longrightarrow> SerializeCommonHeader p w =
     (if WriterLeft w < 4 then None
      else Some (p\<lparr>header := (header p)\<lparr>hdr_length := htons (hdr_length (header p))\<rparr>\<rparr>,
                 put w (enc_header (header p))))"
  by (simp add: SerializeCommonHeader_def writer_defs header_memory_htons)

lemma RtcpPacketParse_moved:
  assumes "reader_ok r" "RtcpPacketParse p r = Some (p', r')"
  shows "moved (4 + unat (hdr_length (header p')) * 4) r r'"
proof -
  from assms obtain q s where s: "ParseCommonHeader p r = Some (q, s)"
    "ReaderConsume (unat (hdr_length (header q)) * 4) s = Some r'" "p' = q"
    by (auto simp: RtcpPacketParse_def Option.bind_eq_Some_conv)
  have m: "moved 4 r s" using assms(1) s(1) by (rule ParseCommonHeader_moved)
  then have "reader_ok s" by (rule moved_ok)
  then have "moved (unat (hdr_length (header q)) * 4) s r'"
    using s(2) by (auto simp: reader_step moved_skip not_less split: if_splits)
  from moved_trans [OF m this] show ?thesis by (simp add: s(3))
qed

section \<open>Report blocks\<close>

record ReportBlock =
  source_ssrc :: u32
  fraction_lost :: u8
  cumulative_lost :: u32
  extended_high_seq_num :: u32
  jitter :: u32
  last_sr :: u32
  delay_since_last_sr :: u32

definition ReportBlockParse :: "byte_reader \<Rightarrow> (ReportBlock \<times> byte_reader) option" where
  "ReportBlockParse r = do {
     (ssrc, r) \<leftarrow> ReadUInt32 r;
     (lost, r) \<leftarrow> ReadUInt8 r;
     (cumulative, r) \<leftarrow> ReadUInt24 r;
     (high, r) \<leftarrow> ReadUInt32 r;
     (jit, r) \<leftarrow> ReadUInt32 r;
     (lsr, r) \<leftarrow> ReadUInt32 r;
     (dlsr, r) \<leftarrow> ReadUInt32 r;
     Some (\<lparr>source_ssrc = ssrc, fraction_lost = lost, cumulative_lost = cumulative,
            extended_high_seq_num = high, jitter = jit, last_sr = lsr, delay_since_last_sr = dlsr\<rparr>, r) }"

definition ReportBlockSerialize :: "ReportBlock \<Rightarrow> byte_writer \<Rightarrow> byte_writer option" where
  "ReportBlockSerialize b w = do {
     w \<leftarrow> WriteUInt32 (source_ssrc b) w;
     w \<leftarrow> WriteUInt8 (fraction_lost b) w;
     w \<leftarrow> WriteUInt24 (cumulative_lost b) w;
     w \<leftarrow> WriteUInt32 (extended_high_seq_num b) w;
     w \<leftarrow> WriteUInt32 (jitter b) w;
     w \<leftarrow> WriteUInt32 (last_sr b) w;
     WriteUInt32 (delay_since_last_sr b) w }"

definition enc_block :: "ReportBlock \<Rightarrow> bytes" where
  "enc_block b = StoreUInt32BE (source_ssrc b) @ StoreUInt8BE (fraction_lost b)
     @ StoreUInt24BE (cumulative_lost b) @ StoreUInt32BE (extended_high_seq_num b)
     @ StoreUInt32BE (jitter b) @ StoreUInt32BE (last_sr b) @ StoreUInt32BE (delay_since_last_sr b)"

text \<open>\<open>cumulative_lost_\<close> is a 32-bit field of which only the low 24 bits travel.\<close>

definition valid_block :: "ReportBlock \<Rightarrow> bool" where
  "valid_block b \<longleftrightarrow> cumulative_lost b < 2 ^ 24"

interpretation block_codec: fixed_codec enc_block ReportBlockParse ReportBlockSerialize valid_block 24
  by unfold_locales
    (auto simp: ReportBlockParse_def ReportBlockSerialize_def enc_block_def valid_block_def
      codec_prims put_put writer_ok_put reader_ok_skip take_bit_eq_mask less_mask_eq
      split: if_splits intro!: moved_skip)

section \<open>Sender report\<close>

record SenderReportPacket = RtcpPacket +
  ntp_seconds :: u32
  ntp_fractions :: u32
  rtp_timestamp :: u32
  send_packet_count :: u32
  send_octets :: u32

definition SenderReportSerialize :: "SenderReportPacket \<Rightarrow> byte_writer
    \<Rightarrow> (SenderReportPacket \<times> byte_writer) option" where
  "SenderReportSerialize p w = do {
     let p = p\<lparr>header := \<lparr>count_or_format = 0, padding = 0, version = 2, packet_type = 200,
                          hdr_length = of_nat ((4 + 24) div 4 - 1)\<rparr>\<rparr>;
     (p, w) \<leftarrow> SerializeCommonHeader p w;
     w \<leftarrow> WriteUInt32 (sender_ssrc p) w;
     w \<leftarrow> WriteUInt32 (ntp_seconds p) w;
     w \<leftarrow> WriteUInt32 (ntp_fractions p) w;
     w \<leftarrow> WriteUInt32 (rtp_timestamp p) w;
     w \<leftarrow> WriteUInt32 (send_packet_count p) w;
     w \<leftarrow> WriteUInt32 (send_octets p) w;
     Some (p, w) }"

definition SenderReportParse :: "SenderReportPacket \<Rightarrow> byte_reader
    \<Rightarrow> (SenderReportPacket \<times> byte_reader) option" where
  "SenderReportParse p r = do {
     (p, r) \<leftarrow> ParseCommonHeader p r;
     (ssrc, r) \<leftarrow> ReadUInt32 r;
     (seconds, r) \<leftarrow> ReadUInt32 r;
     (fractions, r) \<leftarrow> ReadUInt32 r;
     (timestamp, r) \<leftarrow> ReadUInt32 r;
     (packets, r) \<leftarrow> ReadUInt32 r;
     (octets, r) \<leftarrow> ReadUInt32 r;
     Some (p\<lparr>sender_ssrc := ssrc, ntp_seconds := seconds, ntp_fractions := fractions,
             rtp_timestamp := timestamp, send_packet_count := packets, send_octets := octets\<rparr>, r) }"

definition SenderReportSize :: "SenderReportPacket \<Rightarrow> nat" where
  "SenderReportSize p = kHeaderLength + 24"

definition sr_header :: RtcpCommonHeader where
  "sr_header = \<lparr>count_or_format = 0, padding = 0, version = 2, packet_type = 200, hdr_length = 6\<rparr>"

definition enc_sr :: "SenderReportPacket \<Rightarrow> bytes" where
  "enc_sr p = enc_header sr_header @ StoreUInt32BE (sender_ssrc p) @ StoreUInt32BE (ntp_seconds p)
     @ StoreUInt32BE (ntp_fractions p) @ StoreUInt32BE (rtp_timestamp p)
     @ StoreUInt32BE (send_packet_count p) @ StoreUInt32BE (send_octets p)"

lemma length_enc_sr: "length (enc_sr p) = SenderReportSize p"
  by (simp add: enc_sr_def SenderReportSize_def kHeaderLength_def)

lemma SenderReportSerialize_enc:
  "writer_ok w \<Longrightarrow> map_option snd (SenderReportSerialize p w) =
     (if WriterLeft w < SenderReportSize p then None else Some (put w (enc_sr p)))"
  by (auto simp: Let_def SenderReportSerialize_def SerializeCommonHeader_enc writer_defs writer_ok_put put_put
      enc_sr_def sr_header_def SenderReportSize_def kHeaderLength_def)

lemma SenderReportParse_enc:
  "reader_ok r \<Longrightarrow> CurrentData r = enc_sr p @ bs \<Longrightarrow> SenderReportParse q r =
     Some (p\<lparr>header := sr_header\<rparr>, skip r (SenderReportSize p))"
  by (simp add: SenderReportParse_def enc_sr_def ParseCommonHeader_enc reader_step reader_ok_skip
      SenderReportSize_def kHeaderLength_def)

section \<open>Receiver report\<close>

record ReceiverReportPacket = RtcpPacket +
  report_blocks :: "ReportBlock list"

definition kMaxNumberOfReportBlocks :: nat where "kMaxNumberOfReportBlocks = 0x1f"

definition ReceiverReportParse :: "ReceiverReportPacket \<Rightarrow> byte_reader
    \<Rightarrow> (ReceiverReportPacket \<times> byte_reader) option" where
  "ReceiverReportParse p r = do {
     (p, r) \<leftarrow> ParseCommonHeader p r;
     (ssrc, r) \<leftarrow> ReadUInt32 r;
     (blocks, r) \<leftarrow> read_n ReportBlockParse (unat (Count p)) r;
     Some (p\<lparr>sender_ssrc := ssrc, report_blocks := report_blocks p @ blocks\<rparr>, r) }"

definition ReceiverReportSerialize :: "ReceiverReportPacket \<Rightarrow> byte_writer
    \<Rightarrow> (ReceiverReportPacket \<times> byte_writer) option" where
  "ReceiverReportSerialize p w = do {
     let p = p\<lparr>header := \<lparr>count_or_format = of_nat (length (report_blocks p)), padding = 0, version = 2,
                          packet_type = 201,
                          hdr_length = of_nat ((4 + length (report_blocks p) * 24) div 4 - 1)\<rparr>\<rparr>;
     (p, w) \<leftarrow> SerializeCommonHeader p w;
     w \<leftarrow> WriteUInt32 (sender_ssrc p) w;
     w \<leftarrow> write_all ReportBlockSerialize (report_blocks p) w;
     Some (p, w) }"

definition SetReportBlocks :: "ReportBlock list \<Rightarrow> ReceiverReportPacket \<Rightarrow> ReceiverReportPacket option" where
  "SetReportBlocks blocks p =
     (if kMaxNumberOfReportBlocks < length blocks then None else Some (p\<lparr>report_blocks := blocks\<rparr>))"

definition ReceiverReportSize :: "ReceiverReportPacket \<Rightarrow> nat" where
  "ReceiverReportSize p = kHeaderLength + 4 + length (report_blocks p) * 24"

definition rr_header :: "nat \<Rightarrow> RtcpCommonHeader" where
  "rr_header n = \<lparr>count_or_format = of_nat n, padding = 0, version = 2, packet_type = 201,
                  hdr_length = of_nat (6 * n)\<rparr>"

definition enc_rr :: "ReceiverReportPacket \<Rightarrow> bytes" where
  "enc_rr p = enc_header (rr_header (length (report_blocks p))) @ StoreUInt32BE (sender_ssrc p)
     @ concat (map enc_block (report_blocks p))"

lemma length_enc_rr: "length (enc_rr p) = ReceiverReportSize p"
  by (simp only: enc_rr_def length_append block_codec.length_concat_enc)
     (simp add: ReceiverReportSize_def kHeaderLength_def)

lemma ReceiverReportSerialize_enc:
  assumes "writer_ok w" "\<forall>b\<in>set (report_blocks p). valid_block b"
  shows "map_option snd (ReceiverReportSerialize p w) =
     (if WriterLeft w < ReceiverReportSize p then None else Some (put w (enc_rr p)))"
proof -
  have len: "(4 + n * 24) div 4 - 1 = 6 * n" for n :: nat by simp
  show ?thesis
    using assms block_codec.length_concat_enc [of "report_blocks p"]
    by (auto simp: Let_def ReceiverReportSerialize_def SerializeCommonHeader_enc writer_defs writer_ok_put
        put_put block_codec.write_all_iff enc_rr_def rr_header_def len ReceiverReportSize_def
        kHeaderLength_def)
qed

lemma ReceiverReportParse_enc:
  assumes "reader_ok r" "CurrentData r = enc_rr p @ bs"
    and "\<forall>b\<in>set (report_blocks p). valid_block b" "length (report_blocks p) \<le> kMaxNumberOfReportBlocks"
    and "report_blocks q = []"
  shows "ReceiverReportParse q r =
     Some (p\<lparr>header := rr_header (length (report_blocks p))\<rparr>, skip r (ReceiverReportSize p))"
proof -
  let ?n = "length (report_blocks p)"
  have cnt: "unat (ucast (of_nat ?n :: 5 word) :: u8) = ?n"
    using assms(4) by (simp add: unsigned_ucast_eq unat_of_nat kMaxNumberOfReportBlocks_def take_bit_nat_def)
  have r1: "ParseCommonHeader q r = Some (q\<lparr>header := rr_header ?n\<rparr>, skip r 4)"
    using assms(1,2) by (simp add: ParseCommonHeader_enc enc_rr_def)
  have r2: "ReadUInt32 (skip r 4) = Some (sender_ssrc p, skip r 8)"
    using assms(1,2) by (simp add: reader_step reader_ok_skip enc_rr_def)
  have "read_n ReportBlockParse ?n (skip r 8)
      = Some (report_blocks p, skip (skip r 8) (length (concat (map enc_block (report_blocks p)))))"
    using assms(1,2,3) by (intro block_codec.read_n_enc) (simp_all add: reader_ok_skip enc_rr_def)
  then show ?thesis
    using r1 r2 assms(5)
    by (simp add: ReceiverReportParse_def Count_def rr_header_def cnt
        block_codec.length_concat_enc ReceiverReportSize_def kHeaderLength_def)
qed

section \<open>Feedback packets\<close>

record RtcpCommonFeedback = RtcpPacket +
  media_ssrc :: u32

definition ParseCommonFeedback :: "'a RtcpCommonFeedback_scheme \<Rightarrow> byte_reader
    \<Rightarrow> ('a RtcpCommonFeedback_scheme \<times> byte_reader) option" where
  "ParseCommonFeedback p r = do {
     (sender, r) \<leftarrow> ReadUInt32 r;
     (media, r) \<leftarrow> ReadUInt32 r;
     Some (p\<lparr>sender_ssrc := sender, media_ssrc := media\<rparr>, r) }"

definition SerializeCommonFeedback :: "'a RtcpCommonFeedback_scheme \<Rightarrow> byte_writer
    \<Rightarrow> byte_writer option" where
  "SerializeCommonFeedback p w = do {
     w \<leftarrow> WriteUInt32 (sender_ssrc p) w;
     WriteUInt32 (media_ssrc p) w }"

definition kCommonFeedbackLength :: nat where "kCommonFeedbackLength = 8"

definition enc_feedback :: "'a RtcpCommonFeedback_scheme \<Rightarrow> bytes" where
  "enc_feedback p = StoreUInt32BE (sender_ssrc p) @ StoreUInt32BE (media_ssrc p)"

lemma length_enc_feedback [simp]: "length (enc_feedback p) = 8"
  by (simp add: enc_feedback_def)

lemma SerializeCommonFeedback_enc [wire_simps]:
  "writer_ok w \<Longrightarrow> SerializeCommonFeedback p w =
     (if WriterLeft w < 8 then None else Some (put w (enc_feedback p)))"
  by (auto simp: SerializeCommonFeedback_def writer_defs writer_ok_put put_put enc_feedback_def)

lemma ParseCommonFeedback_enc [wire_simps]:
  "reader_ok r \<Longrightarrow> CurrentData r = enc_feedback p @ bs \<Longrightarrow> ParseCommonFeedback q r =
     Some (q\<lparr>sender_ssrc := sender_ssrc p, media_ssrc := media_ssrc p\<rparr>, skip r 8)"
  by (simp add: ParseCommonFeedback_def enc_feedback_def reader_step reader_ok_skip)

lemma ParseCommonFeedback_moved:
  "reader_ok r \<Longrightarrow> ParseCommonFeedback q r = Some (q', r') \<Longrightarrow> moved 8 r r' \<and> header q' = header q"
  by (auto simp: ParseCommonFeedback_def reader_step reader_ok_skip split: if_splits intro!: moved_skip)

text \<open>A serialiser that ignores the result of a write leaves the buffer as it is when the write is
  refused.\<close>

definition try_write :: "(byte_writer \<Rightarrow> byte_writer option) \<Rightarrow> byte_writer \<Rightarrow> byte_writer" where
  "try_write f w = (case f w of None \<Rightarrow> w | Some w' \<Rightarrow> w')"

subsection \<open>Picture loss indication and full intra request\<close>

definition PliSerialize :: "RtcpCommonFeedback \<Rightarrow> byte_writer
    \<Rightarrow> (RtcpCommonFeedback \<times> byte_writer) option" where
  "PliSerialize p w = do {
     let p = p\<lparr>header := \<lparr>count_or_format = 1, padding = 0, version = 2, packet_type = 206,
                          hdr_length = of_nat ((kHeaderLength + kCommonFeedbackLength) div 4 - 1)\<rparr>\<rparr>;
     (p, w) \<leftarrow> SerializeCommonHeader p w;
     w \<leftarrow> SerializeCommonFeedback p w;
     Some (p, w) }"

definition PliSize :: "RtcpCommonFeedback \<Rightarrow> nat" where
  "PliSize p = kHeaderLength + kCommonFeedbackLength"

record FciEntry =
  fci_ssrc :: u32
  seq_nr :: u8

record RtcpFirPacket = RtcpCommonFeedback +
  FCI :: "FciEntry list"

definition AddFciEntry :: "u32 \<Rightarrow> u8 \<Rightarrow> RtcpFirPacket \<Rightarrow> RtcpFirPacket" where
  "AddFciEntry s n p = p\<lparr>FCI := FCI p @ [\<lparr>fci_ssrc = s, seq_nr = n\<rparr>]\<rparr>"

definition FciWrite :: "FciEntry \<Rightarrow> byte_writer \<Rightarrow> byte_writer" where
  "FciWrite e w = try_write (WriteUInt24 0) (try_write (WriteUInt8 (seq_nr e))
     (try_write (WriteUInt32 (fci_ssrc e)) w))"

definition FirSerialize :: "RtcpFirPacket \<Rightarrow> byte_writer \<Rightarrow> (RtcpFirPacket \<times> byte_writer) option" where
  "FirSerialize p w = do {
     let p = p\<lparr>header := \<lparr>count_or_format = 4, padding = 0, version = 2, packet_type = 206,
                hdr_length = of_nat ((kHeaderLength + kCommonFeedbackLength + 8 * length (FCI p)) div 4 - 1)\<rparr>\<rparr>;
     (p, w) \<leftarrow> SerializeCommonHeader p w;
     w \<leftarrow> SerializeCommonFeedback p w;
     Some (p, fold FciWrite (FCI p) w) }"

definition FirSize :: "RtcpFirPacket \<Rightarrow> nat" where
  "FirSize p = kHeaderLength + kCommonFeedbackLength + 8 * length (FCI p)"

definition enc_fci :: "FciEntry \<Rightarrow> bytes" where
  "enc_fci e = StoreUInt32BE (fci_ssrc e) @ StoreUInt8BE (seq_nr e) @ StoreUInt24BE 0"

definition psfb_header :: "5 word \<Rightarrow> nat \<Rightarrow> RtcpCommonHeader" where
  "psfb_header f len = \<lparr>count_or_format = f, padding = 0, version = 2, packet_type = 206,
                        hdr_length = of_nat len\<rparr>"

lemma PliSerialize_enc:
  "writer_ok w \<Longrightarrow> map_option snd (PliSerialize p w) =
     (if WriterLeft w < PliSize p then None else Some (put w (enc_header (psfb_header 1 2) @ enc_feedback p)))"
  by (auto simp: PliSerialize_def Let_def SerializeCommonHeader_enc SerializeCommonFeedback_enc
      writer_ok_put put_put PliSize_def kHeaderLength_def kCommonFeedbackLength_def psfb_header_def
      enc_feedback_def)

lemma FciWrite_put:
  "writer_ok w \<Longrightarrow> 8 \<le> WriterLeft w \<Longrightarrow> FciWrite e w = put w (enc_fci e)"
  by (simp add: FciWrite_def try_write_def writer_defs writer_ok_put put_put enc_fci_def)

lemma fold_FciWrite_put:
  "writer_ok w \<Longrightarrow> 8 * length es \<le> WriterLeft w \<Longrightarrow> fold FciWrite es w = put w (concat (map enc_fci es))"
proof (induction es arbitrary: w)
  case (Cons e es)
  have len: "length (concat (map enc_fci xs)) = 8 * length xs" for xs
    by (induction xs) (simp_all add: enc_fci_def)
  have "length (enc_fci e) = 8" by (simp add: enc_fci_def)
  then show ?case
    using Cons len [of es] by (simp add: FciWrite_put writer_ok_put put_put)
qed simp

lemma FirSerialize_enc:
  assumes "writer_ok w" "FirSize p \<le> WriterLeft w"
  shows "map_option snd (FirSerialize p w) =
    Some (put w (enc_header (psfb_header 4 (2 + 2 * length (FCI p))) @ enc_feedback p
                 @ concat (map enc_fci (FCI p))))"
proof -
  have len: "length (concat (map enc_fci xs)) = 8 * length xs" for xs
    by (induction xs) (simp_all add: enc_fci_def)
  have l: "(12 + 8 * n) div 4 - Suc 0 = 2 + 2 * n" for n :: nat by simp
  show ?thesis
    using assms len [of "FCI p"]
    by (simp add: FirSerialize_def Let_def SerializeCommonHeader_enc SerializeCommonFeedback_enc
      writer_ok_put put_put FirSize_def kHeaderLength_def kCommonFeedbackLength_def psfb_header_def l
      fold_FciWrite_put enc_feedback_def)
qed

section \<open>Properties\<close>

text \<open>A sender report written with enough space is parsed back field by field, whatever packet
  follows it in the buffer.\<close>

theorem sender_report_roundtrip:
  assumes "SenderReportSize p \<le> sz" "sz \<le> length buf"
  shows "\<exists>p' w'. SenderReportSerialize p (ByteWriter buf sz) = Some (p', w')
    \<and> SenderReportParse q (ByteReader (written w' @ rest))
        = Some (p\<lparr>header := sr_header\<rparr>, skip (ByteReader (written w' @ rest)) (length (written w')))"
proof -
  let ?w = "ByteWriter buf sz"
  have w: "writer_ok ?w" "\<not> WriterLeft ?w < SenderReportSize p" using assms by simp_all
  then obtain p' where "SenderReportSerialize p ?w = Some (p', put ?w (enc_sr p))"
    using SenderReportSerialize_enc [of ?w p] by (cases "SenderReportSerialize p ?w") auto
  moreover have "written (put ?w (enc_sr p)) = enc_sr p"
    using w by (simp add: written_put length_enc_sr)
  ultimately show ?thesis
    using SenderReportParse_enc [of "ByteReader (enc_sr p @ rest)" p rest q] by (simp add: length_enc_sr)
qed

theorem sender_report_roundtrip_witness:
  fixes h :: RtcpCommonHeader
  defines "h \<equiv> \<lparr>count_or_format = 0, padding = 0, version = 0, packet_type = 0, hdr_length = 0\<rparr>"
  shows "\<exists>p' w'. SenderReportSerialize \<lparr>header = h, sender_ssrc = 7, ntp_seconds = 8, ntp_fractions = 9,
        rtp_timestamp = 10, send_packet_count = 11, send_octets = 12\<rparr> (ByteWriter (replicate 28 0) 28) = Some (p', w')
    \<and> SenderReportParse \<lparr>header = h, sender_ssrc = 0, ntp_seconds = 0, ntp_fractions = 0,
          rtp_timestamp = 0, send_packet_count = 0, send_octets = 0\<rparr> (ByteReader (written w' @ [1, 2]))
        = Some (\<lparr>header = sr_header, sender_ssrc = 7, ntp_seconds = 8, ntp_fractions = 9,
                rtp_timestamp = 10, send_packet_count = 11, send_octets = 12\<rparr>,
                skip (ByteReader (written w' @ [1, 2])) (length (written w')))"
  using sender_report_roundtrip [of "\<lparr>header = h, sender_ssrc = 7, ntp_seconds = 8, ntp_fractions = 9,
        rtp_timestamp = 10, send_packet_count = 11, send_octets = 12\<rparr>" 28 "replicate 28 0"
        "\<lparr>header = h, sender_ssrc = 0, ntp_seconds = 0, ntp_fractions = 0,
          rtp_timestamp = 0, send_packet_count = 0, send_octets = 0\<rparr>" "[1, 2]"]
  by (simp add: SenderReportSize_def kHeaderLength_def)

text \<open>A receiver report with at most 31 report blocks, each loss count in 24 bits, is parsed back
  block by block.\<close>

theorem receiver_report_roundtrip:
  assumes "ReceiverReportSize p \<le> sz" "sz \<le> length buf" "report_blocks q = []"
    and "length (report_blocks p) \<le> kMaxNumberOfReportBlocks" "\<forall>b\<in>set (report_blocks p). valid_block b"
  shows "\<exists>p' w' q' r'. ReceiverReportSerialize p (ByteWriter buf sz) = Some (p', w')
    \<and> ReceiverReportParse q (ByteReader (written w')) = Some (q', r')
    \<and> report_blocks q' = report_blocks p \<and> sender_ssrc q' = sender_ssrc p \<and> ReaderLeft r' = 0"
proof -
  let ?w = "ByteWriter buf sz"
  have w: "writer_ok ?w" "\<not> WriterLeft ?w < ReceiverReportSize p" using assms(1,2) by simp_all
  then obtain p' where p': "ReceiverReportSerialize p ?w = Some (p', put ?w (enc_rr p))"
    using ReceiverReportSerialize_enc [of ?w p] assms(5) by (cases "ReceiverReportSerialize p ?w") auto
  have "written (put ?w (enc_rr p)) = enc_rr p"
    using w by (simp add: written_put length_enc_rr)
  then show ?thesis
    using p' ReceiverReportParse_enc [of "ByteReader (enc_rr p)" p "[]" q] assms(3,4,5) length_enc_rr [of p]
    by (simp add: ReaderLeft_def) (simp add: ByteReader_def)
qed

theorem receiver_report_roundtrip_witness:
  fixes h :: RtcpCommonHeader and b :: ReportBlock
  defines "h \<equiv> \<lparr>count_or_format = 0, padding = 0, version = 0, packet_type = 0, hdr_length = 0\<rparr>"
    and "b \<equiv> \<lparr>source_ssrc = 1, fraction_lost = 2, cumulative_lost = 0xffffff, extended_high_seq_num = 4,
             jitter = 5, last_sr = 6, delay_since_last_sr = 7\<rparr>"
  shows "\<exists>p' w' q' r'. ReceiverReportSerialize \<lparr>header = h, sender_ssrc = 7, report_blocks = [b, b]\<rparr>
        (ByteWriter (replicate 56 0) 56) = Some (p', w')
    \<and> ReceiverReportParse \<lparr>header = h, sender_ssrc = 0, report_blocks = []\<rparr> (ByteReader (written w')) = Some (q', r')
    \<and> report_blocks q' = [b, b] \<and> sender_ssrc q' = 7 \<and> ReaderLeft r' = 0"
  using receiver_report_roundtrip [of "\<lparr>header = h, sender_ssrc = 7, report_blocks = [b, b]\<rparr>" 56
      "replicate 56 0" "\<lparr>header = h, sender_ssrc = 0, report_blocks = []\<rparr>"]
  by (simp add: ReceiverReportSize_def kHeaderLength_def kMaxNumberOfReportBlocks_def valid_block_def b_def)

text \<open>The length field of a receiver report is one word short: the packet written holds
  \<open>6 * n + 2\<close> words, so RFC 3550 asks for \<open>6 * n + 1\<close>, and the field says \<open>6 * n\<close>. A receiver that
  goes by the field leaves four bytes of the last block unread.\<close>

theorem receiver_report_length_short:
  assumes "ReceiverReportSize p \<le> sz" "sz \<le> length buf" "\<forall>b\<in>set (report_blocks p). valid_block b"
  shows "\<exists>p' w' q' r'. ReceiverReportSerialize p (ByteWriter buf sz) = Some (p', w')
    \<and> ParseCommonHeader q (ByteReader (written w')) = Some (q', r')
    \<and> hdr_length (header q') = of_nat (6 * length (report_blocks p))
    \<and> length (written w') = 4 * (6 * length (report_blocks p) + 2)"
proof -
  let ?w = "ByteWriter buf sz"
  have w: "writer_ok ?w" "\<not> WriterLeft ?w < ReceiverReportSize p" using assms(1,2) by simp_all
  then obtain p' where p': "ReceiverReportSerialize p ?w = Some (p', put ?w (enc_rr p))"
    using ReceiverReportSerialize_enc [of ?w p] assms(3) by (cases "ReceiverReportSerialize p ?w") auto
  have wr: "written (put ?w (enc_rr p)) = enc_rr p"
    using w by (simp add: written_put length_enc_rr)
  have "ParseCommonHeader q (ByteReader (enc_rr p))
      = Some (q\<lparr>header := rr_header (length (report_blocks p))\<rparr>, skip (ByteReader (enc_rr p)) 4)"
    by (rule ParseCommonHeader_enc) (simp_all add: enc_rr_def)
  then show ?thesis
    using p' wr length_enc_rr [of p]
    by (simp add: rr_header_def ReceiverReportSize_def kHeaderLength_def)
qed

theorem receiver_report_length_short_witness:
  fixes h :: RtcpCommonHeader and b :: ReportBlock
  defines "h \<equiv> \<lparr>count_or_format = 0, padding = 0, version = 0, packet_type = 0, hdr_length = 0\<rparr>"
    and "b \<equiv> \<lparr>source_ssrc = 1, fraction_lost = 2, cumulative_lost = 3, extended_high_seq_num = 4,
             jitter = 5, last_sr = 6, delay_since_last_sr = 7\<rparr>"
  shows "\<exists>p' w' q' r'. ReceiverReportSerialize \<lparr>header = h, sender_ssrc = 7, report_blocks = [b]\<rparr>
        (ByteWriter (replicate 32 0) 32) = Some (p', w')
    \<and> ParseCommonHeader \<lparr>header = h, sender_ssrc = 0\<rparr> (ByteReader (written w')) = Some (q', r')
    \<and> hdr_length (header q') = 6 \<and> length (written w') = 32"
  using receiver_report_length_short [of "\<lparr>header = h, sender_ssrc = 7, report_blocks = [b]\<rparr>" 32
      "replicate 32 0" "\<lparr>header = h, sender_ssrc = 0\<rparr>"]
  by (simp add: ReceiverReportSize_def kHeaderLength_def valid_block_def b_def)

end
