(* ===== verification/Track_Statistics.thy ===== *)
theory Track_Statistics
  imports Rtp_Packet Rtcp_Packet Base_Utils Seq_Num
begin

text \<open>
  Reception statistics of a track, \<^verbatim>\<open>src/src/transport/track_statistics.{h,cpp}\<close>. The clock is an
  argument. The counters of type \<open>int32_t\<close> are integers that every assignment brings back into range.

  An operation that divides by the clock rate in kilohertz is a function into \<open>option\<close>: \<open>None\<close> is the
  division by zero of a track with a clock rate below 1000.

  The second half follows a stream without loss through the code, with the reports that are taken from it.
\<close>

section \<open>The code\<close>

definition kDefaultMaxReorderingThreshold :: int where "kDefaultMaxReorderingThreshold = 5"
definition kStatisticsTimeoutMs :: int where "kStatisticsTimeoutMs = 8000"

record TrackStatistics =
  ts_ssrc :: u32
  ts_clock_rate :: u32
  incoming_bitrate :: BitRateEstimator
  max_reordering_threshold :: int
  enable_retransmit_detection :: bool
  jitter_q4 :: u32
  cumulative_loss :: int
  cumulative_loss_rtcp_offset :: int
  last_receive_time_ms :: int
  last_received_timestamp :: u32
  seq_unwrapper :: SeqNumUnwrapper
  received_seq_first :: int
  received_seq_max :: int
  received_seq_out_of_order :: "u16 option"
  last_report_cumulative_loss :: int
  last_report_seq_max :: int
  transmitted_packets :: u32
  retransmited_packets :: u32

definition new_statistics :: "u32 \<Rightarrow> u32 \<Rightarrow> TrackStatistics" where
  "new_statistics s rate =
     \<lparr>ts_ssrc = s, ts_clock_rate = rate, incoming_bitrate = new_estimator,
      max_reordering_threshold = kDefaultMaxReorderingThreshold, enable_retransmit_detection = False,
      jitter_q4 = 0, cumulative_loss = 0, cumulative_loss_rtcp_offset = 0, last_receive_time_ms = 0,
      last_received_timestamp = 0, seq_unwrapper = new_unwrapper, received_seq_first = - 1, received_seq_max = - 1,
      received_seq_out_of_order = None, last_report_cumulative_loss = 0, last_report_seq_max = - 1,
      transmitted_packets = 0, retransmited_packets = 0\<rparr>"

definition EnableRetransmitDetection :: "bool \<Rightarrow> TrackStatistics \<Rightarrow> TrackStatistics" where
  "EnableRetransmitDetection enable s = s\<lparr>enable_retransmit_detection := enable\<rparr>"

text \<open>The square root below a natural number.\<close>

fun isqrt :: "nat \<Rightarrow> nat" where
  "isqrt n = (if n = 0 then 0 else let r = 2 * isqrt (n div 4) in if (r + 1) * (r + 1) \<le> n then r + 1 else r)"

declare isqrt.simps [simp del]

text \<open>\<open>std::sqrt\<close> of a \<open>float\<close> with the integral value \<open>j\<close>, in units of \<open>2^-24\<close>. The root is computed with 23
  fractional bits and one more that is set when it is not exact, so that rounding to 24 significant
  bits rounds the exact root.\<close>

definition sqrt_float :: "nat \<Rightarrow> nat" where
  "sqrt_float j = (let n = j * 2 ^ 46; r = isqrt n in round_float (2 * r + (if r * r = n then 0 else 1)))"

text \<open>\<open>static_cast<int64_t>((2 * jitter_std) / frequency_khz)\<close>: twice the root over the frequency in units of
  \<open>2^-31\<close>, rounded in the same way and truncated. The frequency is exact as a \<open>float\<close>.\<close>

definition jitter_delay_ms :: "u32 \<Rightarrow> u32 \<Rightarrow> int" where
  "jitter_delay_ms j khz =
     (let n = sqrt_float (round_float (unat j)) * 2 ^ 7; q = n div unat khz
      in int (round_float (2 * q + (if n mod unat khz = 0 then 0 else 1)) div 2 ^ 31))"

definition IsRetransmitOfOldPacket :: "RtpPacket \<Rightarrow> int \<Rightarrow> TrackStatistics \<Rightarrow> bool option" where
  "IsRetransmitOfOldPacket packet now_ms s =
     (let frequency_khz = ts_clock_rate s div 1000;
          time_diff_ms = now_ms - last_receive_time_ms s;
          timestamp_diff = timestamp packet - last_received_timestamp s
      in if frequency_khz = 0 then None
      else
        let rtp_time_stamp_diff_ms = timestamp_diff div frequency_khz;
            max_delay_ms = jitter_delay_ms (drop_bit 4 (jitter_q4 s)) frequency_khz;
            max_delay_ms = (if max_delay_ms = 0 then 1 else max_delay_ms)
        in Some (time_diff_ms > uint rtp_time_stamp_diff_ms + max_delay_ms))"

text \<open>The part of \<open>UpdateOutOfOrder\<close> after the test for a restarted stream.\<close>

definition out_of_order :: "RtpPacket \<Rightarrow> int \<Rightarrow> int \<Rightarrow> TrackStatistics \<Rightarrow> (bool \<times> TrackStatistics) option" where
  "out_of_order packet seq now_ms s =
     (if \<bar>seq - received_seq_max s\<bar> > max_reordering_threshold s then
        Some (True, s\<lparr>received_seq_out_of_order := Some (sequence_number packet),
                      cumulative_loss := cast32 (cumulative_loss s + 1)\<rparr>)
      else if seq > received_seq_max s then Some (False, s)
      else if enable_retransmit_detection s then do {
        retransmit \<leftarrow> IsRetransmitOfOldPacket packet now_ms s;
        Some (True, if retransmit then s\<lparr>retransmited_packets := retransmited_packets s + 1\<rparr> else s) }
      else Some (True, s))"

definition UpdateOutOfOrder :: "RtpPacket \<Rightarrow> int \<Rightarrow> int \<Rightarrow> TrackStatistics \<Rightarrow> (bool \<times> TrackStatistics) option" where
  "UpdateOutOfOrder packet seq now_ms s =
     (case received_seq_out_of_order s of
        None \<Rightarrow> out_of_order packet seq now_ms s
      | Some previous \<Rightarrow>
          let s1 = s\<lparr>cumulative_loss := cast32 (cumulative_loss s - 1), received_seq_out_of_order := None\<rparr>;
              expected_sequence_number = previous + 1
          in if sequence_number packet = expected_sequence_number then
               Some (False, s1\<lparr>last_report_seq_max := seq - 2, received_seq_max := seq - 2\<rparr>)
             else out_of_order packet seq now_ms s1)"

definition UpdateJitter :: "RtpPacket \<Rightarrow> int \<Rightarrow> TrackStatistics \<Rightarrow> TrackStatistics" where
  "UpdateJitter packet receive_time_ms s =
     (let receive_diff_ms = receive_time_ms - last_receive_time_ms s;
          receive_diff_rtp = (of_int (cdiv (receive_diff_ms * uint (ts_clock_rate s)) 1000) :: u32);
          time_diff_samples = sint (receive_diff_rtp - (timestamp packet - last_received_timestamp s));
          time_diff_samples = cast32 \<bar>time_diff_samples\<bar>
      in if time_diff_samples < 450000 then
           let jitter_diff_q4 = sint (push_bit 4 (of_int time_diff_samples) - jitter_q4 s)
           in s\<lparr>jitter_q4 := jitter_q4 s + of_int ((jitter_diff_q4 + 8) div 16)\<rparr>
         else s)"

text \<open>What \<open>ReceivePacket\<close> does with a packet that is in order.\<close>

definition in_order :: "RtpPacket \<Rightarrow> int \<Rightarrow> int \<Rightarrow> TrackStatistics \<Rightarrow> TrackStatistics" where
  "in_order packet seq now_ms s =
     (let s = s\<lparr>cumulative_loss := cast32 (cumulative_loss s + (seq - received_seq_max s)),
                received_seq_max := seq, seq_unwrapper := UpdateLast seq (seq_unwrapper s)\<rparr>;
          s = (if timestamp packet \<noteq> last_received_timestamp s \<and> transmitted_packets s - retransmited_packets s > 1
               then UpdateJitter packet now_ms s else s)
      in s\<lparr>last_received_timestamp := timestamp packet, last_receive_time_ms := now_ms\<rparr>)"

definition ReceivePacket :: "RtpPacket \<Rightarrow> int \<Rightarrow> TrackStatistics \<Rightarrow> TrackStatistics option" where
  "ReceivePacket packet now_ms s =
     (if ts_ssrc s \<noteq> ssrc packet then Some s
      else
        let (seq, u) = UnwrapWithoutUpdate (sequence_number packet) (seq_unwrapper s);
            s = s\<lparr>incoming_bitrate := AddData (int (RtpSize packet)) now_ms (incoming_bitrate s),
                  transmitted_packets := transmitted_packets s + 1,
                  cumulative_loss := cast32 (cumulative_loss s - 1), seq_unwrapper := u\<rparr>
        in if received_seq_first s = - 1 then
             Some (in_order packet seq now_ms
               (s\<lparr>received_seq_first := seq, last_report_seq_max := seq - 1, received_seq_max := seq - 1\<rparr>))
           else do {
             (done, s) \<leftarrow> UpdateOutOfOrder packet seq now_ms s;
             Some (if done then s else in_order packet seq now_ms s) })"

text \<open>The report block appended, if any.\<close>

definition MaybeAppendReportBlockAndReset :: "int \<Rightarrow> TrackStatistics \<Rightarrow> ReportBlock option \<times> TrackStatistics" where
  "MaybeAppendReportBlockAndReset now_ms s =
     (if now_ms - last_receive_time_ms s \<ge> kStatisticsTimeoutMs then (None, s)
      else if received_seq_first s = - 1 then (None, s)
      else
        let exp_since_last = received_seq_max s - last_report_seq_max s;
            lost_since_last = cast32 (cumulative_loss s - last_report_cumulative_loss s);
            fraction = (if exp_since_last > 0 \<and> lost_since_last > 0
                        then of_int (cdiv (cast32 (255 * lost_since_last)) exp_since_last) else 0);
            packets_lost = cast32 (cumulative_loss s + cumulative_loss_rtcp_offset s);
            offset = (if packets_lost < 0 then cast32 (- cumulative_loss s) else cumulative_loss_rtcp_offset s);
            packets_lost = (if packets_lost < 0 then 0 else packets_lost);
            packets_lost = (if packets_lost > 0x7fffff then 0x7fffff else packets_lost)
        in (Some \<lparr>source_ssrc = ts_ssrc s, fraction_lost = fraction, cumulative_lost = of_int packets_lost,
                  extended_high_seq_num = of_int (received_seq_max s), jitter = drop_bit 4 (jitter_q4 s),
                  ReportBlock.last_sr = 0, delay_since_last_sr = 0\<rparr>,
            s\<lparr>cumulative_loss_rtcp_offset := offset, last_report_cumulative_loss := cumulative_loss s,
              last_report_seq_max := received_seq_max s\<rparr>))"

text \<open>\<open>Rate\<close> drops old samples of the estimator although it is declared \<open>const\<close>.\<close>

definition BitrateReceived :: "int \<Rightarrow> TrackStatistics \<Rightarrow> int \<times> TrackStatistics" where
  "BitrateReceived now_ms s =
     (let (rate, e) = EstimatorRate now_ms (incoming_bitrate s)
      in (case rate of None \<Rightarrow> 0 | Some r \<Rightarrow> r, s\<lparr>incoming_bitrate := e\<rparr>))"

section \<open>A stream and its reports\<close>

datatype stats_event = Arrival RtpPacket int | ReportDue int

fun stats_run :: "stats_event list \<Rightarrow> TrackStatistics \<Rightarrow> (ReportBlock list \<times> TrackStatistics) option" where
  "stats_run [] s = Some ([], s)"
| "stats_run (Arrival p now # es) s = Option.bind (ReceivePacket p now s) (stats_run es)"
| "stats_run (ReportDue now # es) s =
     (let (b, s') = MaybeAppendReportBlockAndReset now s
      in map_option (map_prod ((@) (case b of None \<Rightarrow> [] | Some x \<Rightarrow> [x])) id) (stats_run es s'))"

fun arrivals :: "stats_event list \<Rightarrow> nat" where
  "arrivals [] = 0"
| "arrivals (Arrival p now # es) = Suc (arrivals es)"
| "arrivals (ReportDue now # es) = arrivals es"

text \<open>The packets of a track arrive in order and none is missing.\<close>

fun in_sequence :: "u32 \<Rightarrow> u16 \<Rightarrow> stats_event list \<Rightarrow> bool" where
  "in_sequence i n [] = True"
| "in_sequence i n (Arrival p now # es) = (ssrc p = i \<and> sequence_number p = n \<and> in_sequence i (n + 1) es)"
| "in_sequence i n (ReportDue now # es) = in_sequence i n es"

text \<open>Where the code stands after \<open>n\<close> packets, the next one numbered \<open>k\<close>: it counts from the last packet
  it took for in order, and what it keeps as the highest number is the distance between the last two of
  those.\<close>

definition place_ok :: "nat \<Rightarrow> u16 \<Rightarrow> TrackStatistics \<Rightarrow> bool" where
  "place_ok n k s \<longleftrightarrow> max_reordering_threshold s = 5 \<and> (enable_retransmit_detection s \<longrightarrow> ts_clock_rate s div 1000 \<noteq> 0) \<and>
     (if n = 0 then received_seq_first s = - 1 \<and> last_value (seq_unwrapper s) = None \<and> received_seq_out_of_order s = None
      else received_seq_first s \<noteq> - 1 \<and> 0 \<le> received_seq_max s \<and>
        (\<exists>d. last_value (seq_unwrapper s) = Some (k - 1 - of_nat d) \<and>
          (received_seq_out_of_order s = None \<and> int d \<le> received_seq_max s \<and> received_seq_max s \<le> 6
           \<or> received_seq_out_of_order s = None \<and> d = 0 \<and> (received_seq_max s = 7 \<or> n = 1)
           \<or> received_seq_out_of_order s = Some (k - 1) \<and> d = 1 \<and> (received_seq_max s = 7 \<or> n = 2))))"

definition loss_ok :: "nat \<Rightarrow> TrackStatistics \<Rightarrow> bool" where
  "loss_ok n s \<longleftrightarrow> - int n \<le> cumulative_loss s \<and> cumulative_loss s \<le> last_report_cumulative_loss s
     \<and> last_report_cumulative_loss s \<le> 0 \<and> 0 \<le> cumulative_loss_rtcp_offset s
     \<and> cumulative_loss s + cumulative_loss_rtcp_offset s \<le> 0"

lemma UpdateLast_simps [simp]:
  "last_value (UpdateLast x u) = (if last_without_update_value u \<noteq> None then last_without_update_value u else last_value u)"
  by (simp add: UpdateLast_def Let_def)

lemma UpdateJitter_fields:
  "cumulative_loss (UpdateJitter p now s) = cumulative_loss s" "received_seq_max (UpdateJitter p now s) = received_seq_max s"
  "received_seq_first (UpdateJitter p now s) = received_seq_first s" "seq_unwrapper (UpdateJitter p now s) = seq_unwrapper s"
  "received_seq_out_of_order (UpdateJitter p now s) = received_seq_out_of_order s"
  "max_reordering_threshold (UpdateJitter p now s) = max_reordering_threshold s"
  "enable_retransmit_detection (UpdateJitter p now s) = enable_retransmit_detection s"
  "ts_clock_rate (UpdateJitter p now s) = ts_clock_rate s" "ts_ssrc (UpdateJitter p now s) = ts_ssrc s"
  "last_report_cumulative_loss (UpdateJitter p now s) = last_report_cumulative_loss s"
  "cumulative_loss_rtcp_offset (UpdateJitter p now s) = cumulative_loss_rtcp_offset s"
  by (simp_all add: UpdateJitter_def Let_def)

lemma in_order_fields:
  "cumulative_loss (in_order p x now s) = cast32 (cumulative_loss s + (x - received_seq_max s))"
  "received_seq_max (in_order p x now s) = x" "received_seq_first (in_order p x now s) = received_seq_first s"
  "seq_unwrapper (in_order p x now s) = UpdateLast x (seq_unwrapper s)"
  "received_seq_out_of_order (in_order p x now s) = received_seq_out_of_order s"
  "max_reordering_threshold (in_order p x now s) = max_reordering_threshold s"
  "enable_retransmit_detection (in_order p x now s) = enable_retransmit_detection s"
  "ts_clock_rate (in_order p x now s) = ts_clock_rate s" "ts_ssrc (in_order p x now s) = ts_ssrc s"
  "last_report_cumulative_loss (in_order p x now s) = last_report_cumulative_loss s"
  "cumulative_loss_rtcp_offset (in_order p x now s) = cumulative_loss_rtcp_offset s"
  by (simp_all add: in_order_def Let_def UpdateJitter_fields)

lemma unwrap_distance:
  assumes "last_value u = Some (k - 1 - of_nat d)" "d \<le> 7"
  shows "UnwrapWithoutUpdate k u = (int (Suc d), u\<lparr>last_without_update_value := Some k\<rparr>)"
proof -
  let ?lv = "k - 1 - of_nat d :: u16"
  have "k = ?lv + of_nat (Suc d)" by simp
  then have dist: "seq_dist ?lv k = Suc d" using seq_dist_add [of "Suc d" ?lv] assms(2) by simp
  then have "seq_step ?lv k = int (Suc d)" using assms(2) by (simp add: seq_step_dist SeqNumGE_dist)
  then show ?thesis using assms(1) by (simp add: UnwrapWithoutUpdate_def)
qed

lemma IsRetransmit_total:
  "ts_clock_rate s div 1000 \<noteq> 0 \<Longrightarrow> \<exists>b. IsRetransmitOfOldPacket p now s = Some b"
  by (simp add: IsRetransmitOfOldPacket_def Let_def)

text \<open>A late packet changes at most the number of retransmissions.\<close>

lemma out_of_order_late:
  assumes "\<bar>x - received_seq_max s\<bar> \<le> max_reordering_threshold s" "x \<le> received_seq_max s"
    and "enable_retransmit_detection s \<longrightarrow> ts_clock_rate s div 1000 \<noteq> 0"
  shows "\<exists>r. out_of_order p x now s = Some (True, s\<lparr>retransmited_packets := r\<rparr>)"
proof (cases "enable_retransmit_detection s")
  case True
  then obtain b where "IsRetransmitOfOldPacket p now s = Some b" using assms(3) IsRetransmit_total by blast
  then have "out_of_order p x now s
      = Some (True, s\<lparr>retransmited_packets := if b then retransmited_packets s + 1 else retransmited_packets s\<rparr>)"
    using assms True by (auto simp: out_of_order_def)
  then show ?thesis by blast
next
  case False
  then have "out_of_order p x now s = Some (True, s\<lparr>retransmited_packets := retransmited_packets s\<rparr>)"
    using assms by (auto simp: out_of_order_def)
  then show ?thesis by blast
qed

text \<open>The state in which a packet of the track is looked at.\<close>

definition noted :: "RtpPacket \<Rightarrow> int \<Rightarrow> TrackStatistics \<Rightarrow> TrackStatistics" where
  "noted p now s = s\<lparr>incoming_bitrate := AddData (int (RtpSize p)) now (incoming_bitrate s),
     transmitted_packets := transmitted_packets s + 1, cumulative_loss := cast32 (cumulative_loss s - 1),
     seq_unwrapper := (seq_unwrapper s)\<lparr>last_without_update_value := Some (sequence_number p)\<rparr>\<rparr>"

lemma noted_fields [simp]:
  "cumulative_loss (noted p now s) = cast32 (cumulative_loss s - 1)" "received_seq_max (noted p now s) = received_seq_max s"
  "received_seq_first (noted p now s) = received_seq_first s"
  "seq_unwrapper (noted p now s) = (seq_unwrapper s)\<lparr>last_without_update_value := Some (sequence_number p)\<rparr>"
  "received_seq_out_of_order (noted p now s) = received_seq_out_of_order s"
  "max_reordering_threshold (noted p now s) = max_reordering_threshold s"
  "enable_retransmit_detection (noted p now s) = enable_retransmit_detection s"
  "ts_clock_rate (noted p now s) = ts_clock_rate s" "ts_ssrc (noted p now s) = ts_ssrc s"
  "last_report_cumulative_loss (noted p now s) = last_report_cumulative_loss s"
  "cumulative_loss_rtcp_offset (noted p now s) = cumulative_loss_rtcp_offset s"
  by (simp_all add: noted_def)

lemma ReceivePacket_noted:
  assumes "ts_ssrc s = ssrc p" "UnwrapWithoutUpdate (sequence_number p) (seq_unwrapper s)
      = (x, (seq_unwrapper s)\<lparr>last_without_update_value := Some (sequence_number p)\<rparr>)"
  shows "ReceivePacket p now s =
     (if received_seq_first s = - 1
      then Some (in_order p x now ((noted p now s)\<lparr>received_seq_first := x, last_report_seq_max := x - 1, received_seq_max := x - 1\<rparr>))
      else do { (done, t) \<leftarrow> UpdateOutOfOrder p x now (noted p now s);
                Some (if done then t else in_order p x now t) })"
  using assms by (simp add: ReceivePacket_def noted_def Let_def)

lemma arrival_first:
  assumes "place_ok 0 k s" "loss_ok 0 s" "ssrc p = ts_ssrc s" "sequence_number p = k"
  shows "\<exists>s'. ReceivePacket p now s = Some s' \<and> place_ok 1 (k + 1) s' \<and> loss_ok 1 s' \<and> ts_ssrc s' = ts_ssrc s"
proof -
  let ?t = "(noted p now s)\<lparr>received_seq_first := uint k, last_report_seq_max := uint k - 1, received_seq_max := uint k - 1\<rparr>"
  have n: "uint k \<noteq> - 1" by (metis uint_ge_0 neg_0_le_iff_le not_one_le_zero)
  have "UnwrapWithoutUpdate k (seq_unwrapper s) = (uint k, (seq_unwrapper s)\<lparr>last_without_update_value := Some k\<rparr>)"
    using assms(1) by (simp add: UnwrapWithoutUpdate_def place_ok_def)
  then have r: "ReceivePacket p now s = Some (in_order p (uint k) now ?t)"
    using assms ReceivePacket_noted [of s p "uint k" now] by (simp add: place_ok_def)
  have "place_ok 1 (k + 1) (in_order p (uint k) now ?t)"
    using assms(1,4) n by (auto simp: place_ok_def in_order_fields intro!: exI [of _ 0])
  moreover have "loss_ok 1 (in_order p (uint k) now ?t)"
    using assms(2) by (simp add: loss_ok_def in_order_fields cast32_def)
  ultimately show ?thesis using r by (simp add: in_order_fields)
qed

lemma cast32_near: "- (2 ^ 30) \<le> x \<Longrightarrow> x \<le> 2 ^ 30 \<Longrightarrow> cast32 x = x"
  by (rule cast32_id) simp_all

lemma arrival_next:
  assumes ok: "place_ok n k s" "loss_ok n s" "ssrc p = ts_ssrc s" "sequence_number p = k" and n: "0 < n" "n < 2 ^ 29"
  shows "\<exists>s'. ReceivePacket p now s = Some s' \<and> place_ok (Suc n) (k + 1) s' \<and> loss_ok (Suc n) s' \<and> ts_ssrc s' = ts_ssrc s"
proof -
  let ?t = "noted p now s" and ?m = "received_seq_max s"
  obtain d where d: "last_value (seq_unwrapper s) = Some (k - 1 - of_nat d)" and m: "0 \<le> ?m"
    and cs: "received_seq_out_of_order s = None \<and> int d \<le> ?m \<and> ?m \<le> 6
           \<or> received_seq_out_of_order s = None \<and> d = 0 \<and> (?m = 7 \<or> n = 1)
           \<or> received_seq_out_of_order s = Some (k - 1) \<and> d = 1 \<and> (?m = 7 \<or> n = 2)"
    and st: "received_seq_first s \<noteq> - 1" "max_reordering_threshold s = 5"
      "enable_retransmit_detection s \<longrightarrow> ts_clock_rate s div 1000 \<noteq> 0"
    using ok(1) n(1) by (auto simp: place_ok_def)
  have "d \<le> 7" using cs by auto
  then have r: "ReceivePacket p now s =
      Option.bind (UpdateOutOfOrder p (int (Suc d)) now ?t) (\<lambda>(done, t). Some (if done then t else in_order p (int (Suc d)) now t))"
    using ReceivePacket_noted [of s p "int (Suc d)" now] unwrap_distance [OF d] ok(3,4) st by simp
  have lv: "k - 1 - of_nat d = k + 1 - 1 - of_nat (Suc d)" by simp
  have loss: "- int n \<le> cumulative_loss s" "cumulative_loss s \<le> last_report_cumulative_loss s"
    "last_report_cumulative_loss s \<le> 0" "0 \<le> cumulative_loss_rtcp_offset s"
    "cumulative_loss s + cumulative_loss_rtcp_offset s \<le> 0"
    using ok(2) by (auto simp: loss_ok_def)
  have small: "int n < 2 ^ 29" using n(2) by simp
  consider (restart) "received_seq_out_of_order s = Some (k - 1)" "d = 1"
    | (jump) "received_seq_out_of_order s = None" "d = 0" "?m = 7 \<or> n = 1" "6 < ?m"
    | (late) "received_seq_out_of_order s = None" "int d < ?m" "?m \<le> 6"
    | (accept) "received_seq_out_of_order s = None" "int d = ?m" "?m \<le> 6"
    using cs m by force
  then show ?thesis
  proof cases
    case restart
    let ?u = "?t\<lparr>cumulative_loss := cast32 (cast32 (cumulative_loss s - 1) - 1), received_seq_out_of_order := None,
      last_report_seq_max := 0, received_seq_max := 0\<rparr>"
    have "ReceivePacket p now s = Some (in_order p 2 now ?u)"
      using r restart ok(4) by (simp add: UpdateOutOfOrder_def Let_def)
    moreover have "place_ok (Suc n) (k + 1) (in_order p 2 now ?u)"
      using st ok(4) by (auto simp: place_ok_def in_order_fields intro!: exI [of _ 0])
    moreover have "loss_ok (Suc n) (in_order p 2 now ?u)"
      using loss small by (simp add: loss_ok_def in_order_fields cast32_near)
    ultimately show ?thesis by (simp add: in_order_fields)
  next
    case jump
    let ?u = "?t\<lparr>received_seq_out_of_order := Some k, cumulative_loss := cast32 (cast32 (cumulative_loss s - 1) + 1)\<rparr>"
    have "ReceivePacket p now s = Some ?u"
      using r jump ok(4) st by (simp add: UpdateOutOfOrder_def out_of_order_def)
    moreover have "place_ok (Suc n) (k + 1) ?u"
      using st jump d lv m n(1) by (auto simp: place_ok_def intro!: exI [of _ 1])
    moreover have "loss_ok (Suc n) ?u" using loss small by (simp add: loss_ok_def cast32_near)
    ultimately show ?thesis by simp
  next
    case late
    then obtain rt where u: "out_of_order p (int (Suc d)) now ?t = Some (True, ?t\<lparr>retransmited_packets := rt\<rparr>)"
      using out_of_order_late [of "int (Suc d)" ?t p now] st by auto
    have "ReceivePacket p now s = Some (?t\<lparr>retransmited_packets := rt\<rparr>)"
      using r late u by (simp add: UpdateOutOfOrder_def)
    moreover have "place_ok (Suc n) (k + 1) (?t\<lparr>retransmited_packets := rt\<rparr>)"
      using st late d lv m n(1) unfolding place_ok_def by (simp, intro exI [of _ "Suc d"]) simp
    moreover have "loss_ok (Suc n) (?t\<lparr>retransmited_packets := rt\<rparr>)"
      using loss small by (simp add: loss_ok_def cast32_near)
    ultimately show ?thesis by simp
  next
    case accept
    have "ReceivePacket p now s = Some (in_order p (int (Suc d)) now ?t)"
      using r accept st by (simp add: UpdateOutOfOrder_def out_of_order_def)
    moreover have "place_ok (Suc n) (k + 1) (in_order p (int (Suc d)) now ?t)"
      using st accept ok(4) by (auto simp: place_ok_def in_order_fields intro!: exI [of _ 0])
    moreover have "loss_ok (Suc n) (in_order p (int (Suc d)) now ?t)"
      using loss small accept by (simp add: loss_ok_def in_order_fields cast32_near)
    ultimately show ?thesis by (simp add: in_order_fields)
  qed
qed

lemma arrival_step:
  assumes "place_ok n k s" "loss_ok n s" "ssrc p = ts_ssrc s" "sequence_number p = k" "n < 2 ^ 29"
  shows "\<exists>s'. ReceivePacket p now s = Some s' \<and> place_ok (Suc n) (k + 1) s' \<and> loss_ok (Suc n) s' \<and> ts_ssrc s' = ts_ssrc s"
  using arrival_next [OF assms(1-4)] arrival_first [of k s p] assms by (cases "n = 0") simp_all

lemma report_step:
  assumes "place_ok n k s" "loss_ok n s" "n < 2 ^ 29" "MaybeAppendReportBlockAndReset now s = (b, s')"
  shows "place_ok n k s' \<and> loss_ok n s' \<and> ts_ssrc s' = ts_ssrc s"
    and "\<forall>x. b = Some x \<longrightarrow> fraction_lost x = 0 \<and> cumulative_lost x = 0 \<and> extended_high_seq_num x = of_int (received_seq_max s)"
proof -
  have small: "int n < 2 ^ 29" using assms(3) by simp
  have cl: "cumulative_loss s \<le> last_report_cumulative_loss s" "cumulative_loss s + cumulative_loss_rtcp_offset s \<le> 0"
    using assms(2) by (simp_all add: loss_ok_def)
  have c: "cast32 (cumulative_loss s - last_report_cumulative_loss s) = cumulative_loss s - last_report_cumulative_loss s"
    "cast32 (cumulative_loss s + cumulative_loss_rtcp_offset s) = cumulative_loss s + cumulative_loss_rtcp_offset s"
    "cast32 (- cumulative_loss s) = - cumulative_loss s"
    using assms(2) small by (auto simp: loss_ok_def intro!: cast32_near)
  let ?s = "s\<lparr>cumulative_loss_rtcp_offset := (if cumulative_loss s + cumulative_loss_rtcp_offset s < 0
      then - cumulative_loss s else cumulative_loss_rtcp_offset s),
    last_report_cumulative_loss := cumulative_loss s, last_report_seq_max := received_seq_max s\<rparr>"
  have s': "s' = s \<or> s' = ?s"
    and "\<forall>x. b = Some x \<longrightarrow> fraction_lost x = 0 \<and> cumulative_lost x = 0 \<and> extended_high_seq_num x = of_int (received_seq_max s)"
    using assms(4) cl unfolding MaybeAppendReportBlockAndReset_def Let_def c by (auto split: if_splits)
  moreover have "place_ok n k ?s" using assms(1) by (cases "n = 0") (simp_all add: place_ok_def)
  moreover have "loss_ok n ?s" using assms(2) by (auto simp: loss_ok_def)
  ultimately show "place_ok n k s' \<and> loss_ok n s' \<and> ts_ssrc s' = ts_ssrc s"
    "\<forall>x. b = Some x \<longrightarrow> fraction_lost x = 0 \<and> cumulative_lost x = 0 \<and> extended_high_seq_num x = of_int (received_seq_max s)"
    using assms(1,2) by auto
qed

lemma stream_run:
  assumes "in_sequence (ts_ssrc s) k es" "place_ok n k s" "loss_ok n s" "n + arrivals es < 2 ^ 29"
  shows "\<exists>bs s' k'. stats_run es s = Some (bs, s') \<and> place_ok (n + arrivals es) k' s' \<and> loss_ok (n + arrivals es) s'
     \<and> (\<forall>b\<in>set bs. fraction_lost b = 0 \<and> cumulative_lost b = 0)"
  using assms
proof (induction es arbitrary: n k s)
  case (Cons e es)
  show ?case
  proof (cases e)
    case (Arrival p now)
    then obtain s' where s': "ReceivePacket p now s = Some s'" "place_ok (Suc n) (k + 1) s'" "loss_ok (Suc n) s'"
      "ts_ssrc s' = ts_ssrc s"
      using arrival_step [of n k s p now] Cons.prems by auto
    show ?thesis using Cons.IH [of s' "k + 1" "Suc n"] s' Cons.prems Arrival by simp
  next
    case (ReportDue now)
    obtain b s' where b: "MaybeAppendReportBlockAndReset now s = (b, s')" by fastforce
    have lt: "n < 2 ^ 29" using Cons.prems by simp
    note step = report_step [OF Cons.prems(2,3) lt b]
    obtain bs s'' k' where "stats_run es s' = Some (bs, s'')" "place_ok (n + arrivals es) k' s''" "loss_ok (n + arrivals es) s''"
      "\<forall>b\<in>set bs. fraction_lost b = 0 \<and> cumulative_lost b = 0"
      using Cons.IH [of s' k n] step(1) Cons.prems ReportDue by auto
    then show ?thesis using ReportDue b step(2) by (auto split: option.splits)
  qed
qed (auto)

section \<open>The jitter\<close>

definition jitter_ok :: "TrackStatistics \<Rightarrow> bool" where
  "jitter_ok s \<longleftrightarrow> uint (jitter_q4 s) \<le> 16 * 449999"

text \<open>One step of the filter: the sixteenth part of the difference is added.\<close>

lemma jitter_step:
  fixes j :: u32
  assumes "uint j \<le> 16 * 449999" "0 \<le> D" "D < 450000"
  shows "uint (j + of_int ((sint (push_bit 4 (of_int D) - j) + 8) div 16)) = uint j + (16 * D - uint j + 8) div 16"
    and "uint j + (16 * D - uint j + 8) div 16 \<le> 16 * 449999" "0 \<le> uint j + (16 * D - uint j + 8) div 16"
proof -
  have j0: "0 \<le> uint j" by simp
  show le: "uint j + (16 * D - uint j + 8) div 16 \<le> 16 * 449999" and ge: "0 \<le> uint j + (16 * D - uint j + 8) div 16"
    using assms j0 by linarith+
  have "push_bit 4 (of_int D) - j = (of_int (16 * D - uint j) :: u32)"
    by (simp add: push_bit_eq_mult mult.commute)
  moreover have "sint (of_int x :: u32) = x" if "- 1073741824 \<le> x" "x \<le> 1073741824" for x
    using that by (simp add: sint_sbintrunc' signed_take_bit_int_eq_self_iff del: of_int_diff of_int_mult)
  then have "sint (of_int (16 * D - uint j) :: u32) = 16 * D - uint j"
    by this (use assms j0 in linarith)+
  ultimately have "sint (push_bit 4 (of_int D) - j) = 16 * D - uint j" by metis
  moreover have "uint (j + of_int x) = uint j + x" if "0 \<le> uint j + x" "uint j + x \<le> 16 * 449999" for x
  proof -
    have "j + of_int x = of_int (uint j + x)" by simp
    then show ?thesis using that by (simp add: uint_word_of_int del: of_int_add)
  qed
  ultimately show "uint (j + of_int ((sint (push_bit 4 (of_int D) - j) + 8) div 16)) = uint j + (16 * D - uint j + 8) div 16"
    using le ge by simp
qed


text \<open>The absolute value of the least \<open>int32_t\<close> is itself, and shifted by four it is zero.\<close>

lemma abs32_cases: "0 \<le> cast32 \<bar>sint (x :: u32)\<bar> \<or> cast32 \<bar>sint x\<bar> = - (2 ^ 31)"
proof -
  have b: "- (2 ^ 31) \<le> sint x" "sint x < 2 ^ 31" using sint_range_size [of x] by (simp_all add: word_size)
  then consider "\<bar>sint x\<bar> < 2 ^ 31" | "\<bar>sint x\<bar> = 2 ^ 31" by linarith
  then show ?thesis
  proof cases
    case 1
    then have "cast32 \<bar>sint x\<bar> = \<bar>sint x\<bar>" by (intro cast32_id) linarith+
    then show ?thesis by simp
  qed (simp add: cast32_def)
qed

lemma UpdateJitter_ok: "jitter_ok s \<Longrightarrow> jitter_ok (UpdateJitter p now s)"
proof -
  assume ok: "jitter_ok s"
  define x where "x = (of_int (cdiv ((now - last_receive_time_ms s) * uint (ts_clock_rate s)) 1000) :: u32)
      - (timestamp p - last_received_timestamp s)"
  define D where "D = cast32 \<bar>sint x\<bar>"
  have u: "UpdateJitter p now s = (if D < 450000
      then s\<lparr>jitter_q4 := jitter_q4 s + of_int ((sint (push_bit 4 (of_int D) - jitter_q4 s) + 8) div 16)\<rparr> else s)"
    by (simp add: UpdateJitter_def Let_def D_def x_def)
  consider "0 \<le> D" | "D = - (2 ^ 31)" using abs32_cases [of x] D_def by blast
  then show ?thesis
  proof cases
    case 1
    then show ?thesis using u jitter_step(1,2) [of "jitter_q4 s" D] ok unfolding jitter_ok_def by simp
  next
    case 2
    have z: "push_bit 4 (of_int D :: u32) = 0" unfolding 2 by (simp add: push_bit_eq_mult)
    show ?thesis using u jitter_step(1,2) [of "jitter_q4 s" 0] ok 2 unfolding z jitter_ok_def by simp
  qed
qed

lemma in_order_jitter: "jitter_ok s \<Longrightarrow> jitter_ok (in_order p x now s)"
proof -
  assume ok: "jitter_ok s"
  let ?s = "s\<lparr>cumulative_loss := cast32 (cumulative_loss s + (x - received_seq_max s)),
                received_seq_max := x, seq_unwrapper := UpdateLast x (seq_unwrapper s)\<rparr>"
  have "jitter_ok ?s" using ok by (simp add: jitter_ok_def)
  then have "jitter_ok (UpdateJitter p now ?s)" by (rule UpdateJitter_ok)
  then show ?thesis using ok by (simp add: in_order_def Let_def jitter_ok_def)
qed

lemma out_of_order_jitter: "out_of_order p x now s = Some (b, s') \<Longrightarrow> jitter_q4 s' = jitter_q4 s"
  by (auto simp: out_of_order_def Option.bind_eq_Some_conv split: if_splits)

lemma UpdateOutOfOrder_jitter:
  "jitter_ok s \<Longrightarrow> UpdateOutOfOrder p x now s = Some (b, s') \<Longrightarrow> jitter_ok s'"
  unfolding UpdateOutOfOrder_def Let_def jitter_ok_def
  by (cases "received_seq_out_of_order s") (auto dest!: out_of_order_jitter split: if_splits)

lemma ReceivePacket_jitter: "jitter_ok s \<Longrightarrow> ReceivePacket p now s = Some s' \<Longrightarrow> jitter_ok s'"
proof -
  assume ok: "jitter_ok s" and r: "ReceivePacket p now s = Some s'"
  show "jitter_ok s'"
  proof (cases "ts_ssrc s = ssrc p")
    case True
    obtain x where x: "UnwrapWithoutUpdate (sequence_number p) (seq_unwrapper s)
      = (x, (seq_unwrapper s)\<lparr>last_without_update_value := Some (sequence_number p)\<rparr>)"
      by (simp add: UnwrapWithoutUpdate_def)
    have n: "jitter_ok (noted p now s)" using ok by (simp add: jitter_ok_def noted_def)
    show ?thesis
    proof (cases "received_seq_first s = - 1")
      case True
      have "jitter_ok ((noted p now s)\<lparr>received_seq_first := x, last_report_seq_max := x - 1, received_seq_max := x - 1\<rparr>)"
        using n by (simp add: jitter_ok_def)
      from in_order_jitter [OF this] show ?thesis
        using r ReceivePacket_noted [OF \<open>ts_ssrc s = ssrc p\<close> x] True by auto
    next
      case False
      then obtain b t where "UpdateOutOfOrder p x now (noted p now s) = Some (b, t)" "s' = (if b then t else in_order p x now t)"
        using r ReceivePacket_noted [OF \<open>ts_ssrc s = ssrc p\<close> x] by (auto simp: Option.bind_eq_Some_conv)
      then show ?thesis using UpdateOutOfOrder_jitter [OF n] in_order_jitter by auto
    qed
  qed (use r ok in \<open>simp add: ReceivePacket_def\<close>)
qed

lemma report_jitter:
  assumes "jitter_ok s" "MaybeAppendReportBlockAndReset now s = (b, s')"
  shows "jitter_ok s' \<and> (\<forall>x. b = Some x \<longrightarrow> jitter x \<le> 449999)"
proof -
  have "uint (drop_bit 4 (jitter_q4 s)) \<le> 449999"
    using assms(1) unfolding jitter_ok_def unsigned_drop_bit_eq by (simp add: drop_bit_eq_div take_bit_int_eq_self)
  then have "drop_bit 4 (jitter_q4 s) \<le> 449999" by (simp add: word_le_def)
  then show ?thesis using assms by (auto simp: MaybeAppendReportBlockAndReset_def Let_def jitter_ok_def split: if_splits)
qed

section \<open>Properties\<close>

text \<open>C31. A stream that arrives complete and in order is never reported as losing packets: whatever packet
  starts it, wherever its numbers wrap and whenever reports are taken, every report has a fraction lost
  and a cumulative loss of zero. No operation fails.\<close>

theorem complete_stream_reports_no_loss:
  assumes "in_sequence i k es" "arrivals es < 2 ^ 29" "detect \<longrightarrow> rate div 1000 \<noteq> 0"
  shows "\<exists>bs s'. stats_run es (EnableRetransmitDetection detect (new_statistics i rate)) = Some (bs, s')
     \<and> (\<forall>b\<in>set bs. fraction_lost b = 0 \<and> cumulative_lost b = 0)"
proof -
  let ?s = "EnableRetransmitDetection detect (new_statistics i rate)"
  have "in_sequence (ts_ssrc ?s) k es" "place_ok 0 k ?s" "loss_ok 0 ?s"
    using assms(1,3) by (simp_all add: EnableRetransmitDetection_def new_statistics_def place_ok_def loss_ok_def
        new_unwrapper_def kDefaultMaxReorderingThreshold_def)
  then show ?thesis using stream_run [of ?s k es 0] assms(2) by fastforce
qed

definition numbered :: "u16 \<Rightarrow> RtpPacket" where
  "numbered n = blank_rtp\<lparr>sequence_number := n, ssrc := 7, timestamp := 3000 * ucast n\<rparr>"

definition short_stream :: "stats_event list" where
  "short_stream = [Arrival (numbered 65534) 0, Arrival (numbered 65535) 40, ReportDue 50, Arrival (numbered 0) 80,
     Arrival (numbered 1) 120, Arrival (numbered 2) 160, ReportDue 200]"

lemma short_stream_in_sequence: "in_sequence 7 65534 short_stream" "arrivals short_stream = 5"
  by (simp_all add: short_stream_def numbered_def)

theorem complete_stream_reports_no_loss_witness:
  "\<exists>bs s'. stats_run short_stream (EnableRetransmitDetection True (new_statistics 7 90000)) = Some (bs, s')
     \<and> (\<forall>b\<in>set bs. fraction_lost b = 0 \<and> cumulative_lost b = 0)"
  by (rule complete_stream_reports_no_loss [where k = 65534]) (simp_all add: short_stream_in_sequence)

text \<open>The highest sequence number the code keeps does not follow the stream: after three packets of
  any complete stream it is at most seven, however many packets came, and that is what reports carry.\<close>

theorem highest_sequence_stuck:
  assumes "in_sequence i k es" "3 \<le> arrivals es" "arrivals es < 2 ^ 29" "detect \<longrightarrow> rate div 1000 \<noteq> 0"
  shows "\<exists>bs s'. stats_run es (EnableRetransmitDetection detect (new_statistics i rate)) = Some (bs, s')
     \<and> received_seq_max s' \<le> 7
     \<and> (case fst (MaybeAppendReportBlockAndReset now s') of None \<Rightarrow> True | Some b \<Rightarrow> extended_high_seq_num b \<le> 7)"
proof -
  let ?s = "EnableRetransmitDetection detect (new_statistics i rate)"
  have "in_sequence (ts_ssrc ?s) k es" "place_ok 0 k ?s" "loss_ok 0 ?s"
    using assms(1,4) by (simp_all add: EnableRetransmitDetection_def new_statistics_def place_ok_def loss_ok_def
        new_unwrapper_def kDefaultMaxReorderingThreshold_def)
  then obtain bs s' k' where r: "stats_run es ?s = Some (bs, s')" "place_ok (arrivals es) k' s'" "loss_ok (arrivals es) s'"
    using stream_run [of ?s k es 0] assms(3) by auto
  then have m: "0 \<le> received_seq_max s'" "received_seq_max s' \<le> 7" using assms(2) by (auto simp: place_ok_def)
  obtain b t where b: "MaybeAppendReportBlockAndReset now s' = (b, t)" by fastforce
  have "(of_int (received_seq_max s') :: u32) \<le> 7" using m by (simp add: word_le_def uint_word_of_int)
  then have "case b of None \<Rightarrow> True | Some b \<Rightarrow> extended_high_seq_num b \<le> 7"
    using report_step(2) [OF r(2,3) assms(3) b] by (auto split: option.splits)
  then show ?thesis using r(1) m b by auto
qed

theorem highest_sequence_stuck_witness:
  "\<exists>bs s'. stats_run short_stream (EnableRetransmitDetection True (new_statistics 7 90000)) = Some (bs, s')
     \<and> received_seq_max s' \<le> 7
     \<and> (case fst (MaybeAppendReportBlockAndReset 300 s') of None \<Rightarrow> True | Some b \<Rightarrow> extended_high_seq_num b \<le> 7)"
  by (rule highest_sequence_stuck [where k = 65534]) (simp_all add: short_stream_in_sequence)

text \<open>The jitter filter is bounded: from a new track on, whatever packets arrive and whenever, the
  filter stays below 450000 samples in its fixed point format, so none of its additions wraps and every
  report carries a jitter below 450000.\<close>

theorem reported_jitter_bounded:
  assumes "stats_run es s = Some (bs, s')" "uint (jitter_q4 s) \<le> 16 * 449999"
  shows "uint (jitter_q4 s') \<le> 16 * 449999 \<and> (\<forall>b\<in>set bs. jitter b \<le> 449999)"
proof -
  have "jitter_ok s' \<and> (\<forall>b\<in>set bs. jitter b \<le> 449999)" if "stats_run es s = Some (bs, s')" "jitter_ok s" for bs s
    using that
  proof (induction es s arbitrary: bs rule: stats_run.induct)
    case (2 p now es s)
    then show ?case using ReceivePacket_jitter by (auto simp: Option.bind_eq_Some_conv)
  next
    case (3 now es s)
    then obtain b t where b: "MaybeAppendReportBlockAndReset now s = (b, t)" by fastforce
    have j: "jitter_ok t \<and> (\<forall>x. b = Some x \<longrightarrow> jitter x \<le> 449999)" using report_jitter [OF 3(3) b] .
    obtain cs where cs: "stats_run es t = Some (cs, s')" "bs = (case b of None \<Rightarrow> [] | Some x \<Rightarrow> [x]) @ cs"
      using 3(2) b by auto
    show ?case using 3(1) [OF b [symmetric] refl cs(1)] cs(2) j by (auto split: option.splits)
  qed simp
  from this [OF assms(1)] assms(2) show ?thesis by (simp add: jitter_ok_def)
qed

theorem reported_jitter_bounded_witness:
  "\<exists>bs s'. stats_run short_stream (new_statistics 7 90000) = Some (bs, s')
     \<and> uint (jitter_q4 s') \<le> 16 * 449999 \<and> (\<forall>b\<in>set bs. jitter b \<le> 449999)"
proof -
  obtain bs s' where r: "stats_run short_stream (EnableRetransmitDetection False (new_statistics 7 90000)) = Some (bs, s')"
    using stream_run [of "new_statistics 7 90000" 65534 short_stream 0] short_stream_in_sequence
    by (auto simp: EnableRetransmitDetection_def new_statistics_def place_ok_def loss_ok_def new_unwrapper_def
        kDefaultMaxReorderingThreshold_def)
  have e: "EnableRetransmitDetection False (new_statistics 7 90000) = new_statistics 7 90000"
    by (simp add: EnableRetransmitDetection_def new_statistics_def)
  have "uint (jitter_q4 (new_statistics 7 90000)) \<le> 16 * 449999" by (simp add: new_statistics_def)
  then show ?thesis using reported_jitter_bounded [of short_stream "new_statistics 7 90000" bs s'] r e by auto
qed

end
