(* ===== verification/Seq_Container.thy ===== *)
theory Seq_Container
  imports Seq_Num
begin

text \<open>
  The ordered containers of the sources, \<open>std::map\<close> and \<open>std::set\<close> with the comparator
  \<open>IsSeqNumLessThan\<close>, as lists of entries in iteration order; a set has entries without a value.
  The comparator is not transitive on the whole circle of sequence numbers, so the operations say what
  they compare, and the interface \<open>key_order\<close> says when that is what it seems: on any set of keys on
  which the comparator is the order of some rank. Any half window of the circle is one.
\<close>

section \<open>Operations\<close>

definition lower_bound :: "('k \<Rightarrow> 'k \<Rightarrow> bool) \<Rightarrow> 'k \<Rightarrow> ('k \<times> 'v) list \<Rightarrow> ('k \<times> 'v) list" where
  "lower_bound lt k xs = dropWhile (\<lambda>e. lt (fst e) k) xs"

definition find_key :: "('k \<Rightarrow> 'k \<Rightarrow> bool) \<Rightarrow> 'k \<Rightarrow> ('k \<times> 'v) list \<Rightarrow> 'v option" where
  "find_key lt k xs = (case lower_bound lt k xs of [] \<Rightarrow> None | e # r \<Rightarrow> if lt k (fst e) then None else Some (snd e))"

definition put_key :: "('k \<Rightarrow> 'k \<Rightarrow> bool) \<Rightarrow> 'k \<Rightarrow> 'v \<Rightarrow> ('k \<times> 'v) list \<Rightarrow> ('k \<times> 'v) list" where
  "put_key lt k v xs = takeWhile (\<lambda>e. lt (fst e) k) xs
     @ (case lower_bound lt k xs of [] \<Rightarrow> [(k, v)]
        | e # r \<Rightarrow> if lt k (fst e) then (k, v) # e # r else (fst e, v) # r)"

text \<open>\<open>std::set::insert\<close> leaves an element that is there.\<close>

definition insert_key :: "('k \<Rightarrow> 'k \<Rightarrow> bool) \<Rightarrow> 'k \<Rightarrow> ('k \<times> unit) list \<Rightarrow> ('k \<times> unit) list" where
  "insert_key lt k xs = (if find_key lt k xs = None then put_key lt k () xs else xs)"

definition erase_key :: "('k \<Rightarrow> 'k \<Rightarrow> bool) \<Rightarrow> 'k \<Rightarrow> ('k \<times> 'v) list \<Rightarrow> ('k \<times> 'v) list" where
  "erase_key lt k xs =
     (if find_key lt k xs = None then xs
      else takeWhile (\<lambda>e. lt (fst e) k) xs @ tl (lower_bound lt k xs))"

section \<open>The interface\<close>

locale key_order =
  fixes lt :: "'k \<Rightarrow> 'k \<Rightarrow> bool" and rank :: "'k \<Rightarrow> nat" and keys :: "'k set"
  assumes lt_rank: "a \<in> keys \<Longrightarrow> b \<in> keys \<Longrightarrow> lt a b \<longleftrightarrow> rank a < rank b"
    and rank_inj: "a \<in> keys \<Longrightarrow> b \<in> keys \<Longrightarrow> rank a = rank b \<Longrightarrow> a = b"
begin

definition ordered :: "('k \<times> 'v) list \<Rightarrow> bool" where
  "ordered xs \<longleftrightarrow> sorted_wrt (\<lambda>a b. lt (fst a) (fst b)) xs \<and> fst ` set xs \<subseteq> keys"

lemma ordered_rank: "ordered xs \<Longrightarrow> sorted_wrt (\<lambda>a b. rank (fst a) < rank (fst b)) xs"
proof -
  assume o: "ordered xs"
  then have "\<And>a b. a \<in> set xs \<Longrightarrow> b \<in> set xs \<Longrightarrow> lt (fst a) (fst b) \<Longrightarrow> rank (fst a) < rank (fst b)"
    by (auto simp: ordered_def image_subset_iff lt_rank)
  moreover have "sorted_wrt (\<lambda>a b. lt (fst a) (fst b)) xs" using o by (simp add: ordered_def)
  ultimately show ?thesis by (rule sorted_wrt_mono_rel)
qed

lemma ordered_distinct: "ordered xs \<Longrightarrow> distinct (map fst xs)"
proof -
  assume "ordered xs"
  then have "sorted_wrt (\<lambda>a b. rank (fst a) < rank (fst b)) xs" by (rule ordered_rank)
  then have "sorted_wrt (<) (map (rank \<circ> fst) xs)" by (simp add: sorted_wrt_map)
  then have "distinct (map rank (map fst xs))" by (simp add: strict_sorted_iff)
  then show ?thesis by (auto simp: distinct_map inj_on_def)
qed

lemma ordered_filter: "ordered xs \<Longrightarrow> ordered (filter P xs)"
  by (auto simp: ordered_def intro: sorted_wrt_filter)

lemma ordered_drop: "ordered xs \<Longrightarrow> ordered (drop n xs)"
  by (auto simp: ordered_def sorted_wrt_drop dest: in_set_dropD)

lemma split_ordered:
  assumes "ordered xs" "k \<in> keys"
  shows "takeWhile (\<lambda>e. lt (fst e) k) xs = filter (\<lambda>e. rank (fst e) < rank k) xs"
    and "lower_bound lt k xs = filter (\<lambda>e. rank k \<le> rank (fst e)) xs"
proof -
  have lt: "\<And>e. e \<in> set xs \<Longrightarrow> lt (fst e) k \<longleftrightarrow> rank (fst e) < rank k"
    using assms by (auto simp: ordered_def image_subset_iff lt_rank)
  have s: "sorted_wrt (\<lambda>x y. lt (fst y) k \<longrightarrow> lt (fst x) k) xs"
    by (rule sorted_wrt_mono_rel [OF _ ordered_rank [OF assms(1)]]) (simp add: lt)
  show "takeWhile (\<lambda>e. lt (fst e) k) xs = filter (\<lambda>e. rank (fst e) < rank k) xs"
    using takeWhile_dropWhile_filter(1) [OF s] lt by (simp cong: filter_cong)
  show "lower_bound lt k xs = filter (\<lambda>e. rank k \<le> rank (fst e)) xs"
    using takeWhile_dropWhile_filter(2) [OF s] lt by (simp add: lower_bound_def not_less cong: filter_cong)
qed

lemma keys_in: "ordered xs \<Longrightarrow> e \<in> set xs \<Longrightarrow> fst e \<in> keys"
  by (auto simp: ordered_def)

lemma lower_bound_cases:
  assumes "ordered xs" "k \<in> keys"
  shows "case lower_bound lt k xs of [] \<Rightarrow> k \<notin> fst ` set xs
    | e # r \<Rightarrow> if lt k (fst e) then k \<notin> fst ` set xs else fst e = k \<and> e \<in> set xs \<and> r = filter (\<lambda>e. rank k < rank (fst e)) xs"
proof (cases "lower_bound lt k xs")
  case Nil
  then have "\<forall>e\<in>set xs. rank (fst e) < rank k" using split_ordered(2) [OF assms] by (auto simp: filter_empty_conv not_le)
  then show ?thesis using Nil by auto
next
  case (Cons e r)
  have f: "filter (\<lambda>e. rank k \<le> rank (fst e)) xs = e # r" using split_ordered(2) [OF assms] Cons by simp
  then have "e \<in> set (filter (\<lambda>e. rank k \<le> rank (fst e)) xs)" by simp
  then have e: "e \<in> set xs" "rank k \<le> rank (fst e)" by auto
  have "sorted_wrt (\<lambda>a b. rank (fst a) < rank (fst b)) (e # r)"
    using sorted_wrt_filter [OF ordered_rank [OF assms(1)], of "\<lambda>e. rank k \<le> rank (fst e)"] f by simp
  then have r: "\<forall>x\<in>set r. rank (fst e) < rank (fst x)" by simp
  have mem: "\<And>x. x \<in> set xs \<Longrightarrow> rank k \<le> rank (fst x) \<Longrightarrow> x = e \<or> x \<in> set r"
    proof -
    fix x assume "x \<in> set xs" "rank k \<le> rank (fst x)"
    then have "x \<in> set (filter (\<lambda>e. rank k \<le> rank (fst e)) xs)" by simp
    then show "x = e \<or> x \<in> set r" unfolding f by simp
  qed
  show ?thesis
  proof (cases "lt k (fst e)")
    case True
    then have "rank k < rank (fst e)" using lt_rank assms(2) keys_in [OF assms(1) e(1)] by blast
    then have "k \<notin> fst ` set xs" using mem r by fastforce
    then show ?thesis using Cons True by simp
  next
    case False
    then have eq: "fst e = k"
      using e lt_rank [OF assms(2) keys_in [OF assms(1) e(1)]] rank_inj [OF assms(2) keys_in [OF assms(1) e(1)]] by fastforce
    have "filter (\<lambda>x. rank k < rank (fst x)) xs = filter (\<lambda>x. rank k < rank (fst x)) (filter (\<lambda>e. rank k \<le> rank (fst e)) xs)"
      by (auto intro: filter_cong)
    also have "\<dots> = r" unfolding f using r eq by (simp add: filter_id_conv)
    finally show ?thesis using Cons False eq e by simp
  qed
qed

lemma find_key_map_of:
  assumes "ordered xs" "k \<in> keys"
  shows "find_key lt k xs = map_of xs k"
proof (cases "lower_bound lt k xs")
  case Nil
  then show ?thesis using lower_bound_cases [OF assms] by (simp add: find_key_def map_of_eq_None_iff [THEN iffD2])
next
  case (Cons e r)
  have d: "distinct (map fst xs)" using ordered_distinct [OF assms(1)] .
  show ?thesis
  proof (cases "lt k (fst e)")
    case True
    then have "map_of xs k = None" using lower_bound_cases [OF assms] Cons by (simp add: map_of_eq_None_iff)
    then show ?thesis using True Cons by (simp add: find_key_def)
  next
    case False
    then have "(k, snd e) \<in> set xs" using lower_bound_cases [OF assms] Cons by (cases e) auto
    then show ?thesis using False Cons d by (simp add: find_key_def)
  qed
qed

lemma put_key_set:
  assumes "ordered xs" "k \<in> keys"
  shows "set (put_key lt k v xs) = insert (k, v) {e \<in> set xs. fst e \<noteq> k}"
proof -
  have part: "e \<in> set xs \<Longrightarrow> fst e \<noteq> k \<longleftrightarrow> rank (fst e) < rank k \<or> rank k < rank (fst e)" for e
    using rank_inj [OF keys_in [OF assms(1), of e] assms(2)] by (cases "rank (fst e)" "rank k" rule: linorder_cases) auto
  show ?thesis
  proof (cases "lower_bound lt k xs")
    case Nil
    then show ?thesis using lower_bound_cases [OF assms] split_ordered [OF assms] part
      by (auto simp: put_key_def filter_empty_conv)
  next
    case (Cons e r)
    then have "set (e # r) = {x \<in> set xs. rank k \<le> rank (fst x)}" using split_ordered(2) [OF assms] by (simp flip: set_filter)
    then show ?thesis using lower_bound_cases [OF assms] split_ordered(1) [OF assms] part Cons
      by (auto simp: put_key_def split: if_splits)
  qed
qed

lemma put_key_shape:
  assumes "ordered xs" "k \<in> keys"
  shows "put_key lt k v xs = filter (\<lambda>e. rank (fst e) < rank k) xs @ (k, v) # filter (\<lambda>e. rank k < rank (fst e)) xs"
proof (cases "lower_bound lt k xs")
  case Nil
  then have "filter (\<lambda>e. rank k \<le> rank (fst e)) xs = []" using split_ordered(2) [OF assms] by simp
  then have "filter (\<lambda>e. rank k < rank (fst e)) xs = []" by (auto simp: filter_empty_conv)
  then show ?thesis using Nil by (simp add: put_key_def split_ordered(1) [OF assms])
next
  case (Cons e r)
  have f: "filter (\<lambda>e. rank k \<le> rank (fst e)) xs = e # r" using split_ordered(2) [OF assms] Cons by simp
  have "filter (\<lambda>e. rank k < rank (fst e)) xs = (if lt k (fst e) then e # r else r)"
  proof (cases "lt k (fst e)")
    case True
    then have "k \<notin> fst ` set xs" using lower_bound_cases [OF assms] Cons by simp
    have "rank k < rank (fst x) \<longleftrightarrow> rank k \<le> rank (fst x)" if x: "x \<in> set xs" for x
    proof -
      have "k \<noteq> fst x" using \<open>k \<notin> fst ` set xs\<close> x by blast
      then have "rank k \<noteq> rank (fst x)" using rank_inj [OF assms(2) keys_in [OF assms(1) x]] by blast
      then show ?thesis by linarith
    qed
    then have "filter (\<lambda>e. rank k < rank (fst e)) xs = filter (\<lambda>e. rank k \<le> rank (fst e)) xs"
      by (rule filter_cong [OF refl])
    then show ?thesis using True f by simp
  next
    case False
    then show ?thesis using lower_bound_cases [OF assms] Cons by simp
  qed
  moreover have "\<not> lt k (fst e) \<Longrightarrow> fst e = k" using lower_bound_cases [OF assms] Cons by simp
  ultimately show ?thesis
    unfolding put_key_def Cons split_ordered(1) [OF assms] list.case by (cases "lt k (fst e)") simp_all
qed

lemma put_key_ordered:
  assumes "ordered xs" "k \<in> keys"
  shows "ordered (put_key lt k v xs)"
proof -
  have "sorted_wrt (\<lambda>a b. rank (fst a) < rank (fst b)) (put_key lt k v xs)"
    using sorted_wrt_filter [OF ordered_rank [OF assms(1)]]
    by (auto simp: put_key_shape [OF assms] sorted_wrt_append intro: less_trans)
  moreover have k: "\<And>e. e \<in> set (put_key lt k v xs) \<Longrightarrow> fst e \<in> keys"
    using put_key_set [OF assms] assms(2) keys_in [OF assms(1)] by auto
  ultimately have "sorted_wrt (\<lambda>a b. lt (fst a) (fst b)) (put_key lt k v xs)"
    using lt_rank by (auto intro: sorted_wrt_mono_rel [rotated])
  then show ?thesis using k by (auto simp: ordered_def)
qed

lemma put_key_length: "ordered xs \<Longrightarrow> k \<in> keys \<Longrightarrow> length (put_key lt k v xs) \<le> Suc (length xs)"
proof -
  assume a: "ordered xs" "k \<in> keys"
  have "length (filter (\<lambda>e. rank (fst e) < rank k) xs) + length (filter (\<lambda>e. rank k < rank (fst e)) xs)
      \<le> length (filter (\<lambda>e. rank (fst e) < rank k) xs) + length (filter (\<lambda>e. \<not> rank (fst e) < rank k) xs)"
    by (intro add_left_mono) (induction xs, auto)
  then show ?thesis by (simp add: put_key_shape [OF a] sum_length_filter_compl)
qed

lemma insert_key_set:
  assumes "ordered xs" "k \<in> keys"
  shows "ordered (insert_key lt k xs) \<and> fst ` set (insert_key lt k xs) = insert k (fst ` set xs)"
proof (cases "k \<in> fst ` set xs")
  case True
  then have "map_of xs k \<noteq> None" by (simp add: map_of_eq_None_iff)
  then show ?thesis using True assms by (simp add: insert_key_def find_key_map_of insert_absorb)
next
  case False
  then have "map_of xs k = None" by (simp add: map_of_eq_None_iff)
  then show ?thesis using put_key_set [OF assms, of "()"] put_key_ordered [OF assms, of "()"] False assms
    by (auto simp: insert_key_def find_key_map_of)
qed

lemma erase_key_filter:
  assumes "ordered xs" "k \<in> keys"
  shows "erase_key lt k xs = filter (\<lambda>e. fst e \<noteq> k) xs"
proof (cases "k \<in> fst ` set xs")
  case False
  then have "map_of xs k = None" by (simp add: map_of_eq_None_iff)
  moreover have "filter (\<lambda>e. fst e \<noteq> k) xs = xs" using False by (auto simp: filter_id_conv)
  ultimately show ?thesis using assms by (simp add: erase_key_def find_key_map_of)
next
  case True
  then obtain y where y: "map_of xs k = Some y" by (cases "map_of xs k") (auto simp: map_of_eq_None_iff)
  obtain e r where c: "lower_bound lt k xs = e # r" "r = filter (\<lambda>e. rank k < rank (fst e)) xs"
    using True lower_bound_cases [OF assms] by (auto split: list.splits if_splits)
  have "filter (\<lambda>e. fst e \<noteq> k) xs = filter (\<lambda>e. rank (fst e) < rank k) xs @ filter (\<lambda>e. rank k < rank (fst e)) xs"
    using assms(1)
  proof -
    have s: "sorted_wrt (\<lambda>x y. lt (fst y) k \<longrightarrow> lt (fst x) k) (filter (\<lambda>e. fst e \<noteq> k) xs)"
      by (rule sorted_wrt_mono_rel [OF _ ordered_rank [OF ordered_filter [OF assms(1)]]])
        (auto simp: lt_rank [OF keys_in [OF assms(1)] assms(2)])
    have ne: "\<And>x. x \<in> set xs \<Longrightarrow> fst x \<noteq> k \<Longrightarrow> lt (fst x) k \<longleftrightarrow> rank (fst x) < rank k"
      "\<And>x. x \<in> set xs \<Longrightarrow> fst x \<noteq> k \<Longrightarrow> \<not> lt (fst x) k \<longleftrightarrow> rank k < rank (fst x)"
      using lt_rank [OF keys_in [OF assms(1)] assms(2)] rank_inj [OF keys_in [OF assms(1)] assms(2)]
      by (auto simp: not_less le_eq_less_or_eq)
    have "filter (\<lambda>e. fst e \<noteq> k) xs
        = takeWhile (\<lambda>e. lt (fst e) k) (filter (\<lambda>e. fst e \<noteq> k) xs) @ dropWhile (\<lambda>e. lt (fst e) k) (filter (\<lambda>e. fst e \<noteq> k) xs)"
      by simp
    also have "\<dots> = filter (\<lambda>e. lt (fst e) k) (filter (\<lambda>e. fst e \<noteq> k) xs) @ filter (\<lambda>e. \<not> lt (fst e) k) (filter (\<lambda>e. fst e \<noteq> k) xs)"
      by (simp only: takeWhile_dropWhile_filter [OF s])
    also have "\<dots> = filter (\<lambda>e. rank (fst e) < rank k) xs @ filter (\<lambda>e. rank k < rank (fst e)) xs"
      using ne by (simp, intro arg_cong2 [where f = append] filter_cong) auto
    finally show ?thesis .
  qed
  then show ?thesis
    using c y assms by (simp add: erase_key_def find_key_map_of split_ordered(1))
qed

lemma lower_bound_ordered: "ordered xs \<Longrightarrow> k \<in> keys \<Longrightarrow> ordered (lower_bound lt k xs)"
  by (simp add: split_ordered ordered_filter)

end

text \<open>Every half window of the circle is such a set of keys.\<close>

definition half_window :: "u16 \<Rightarrow> u16 set" where
  "half_window base = {a. seq_dist base a < 32768}"

interpretation seq_keys: key_order IsSeqNumLessThan "seq_dist base" "half_window base" for base
  by unfold_locales (auto simp: half_window_def IsSeqNumLessThan_def SeqNumGT_window seq_dist_inj)

text \<open>The window in terms of the unwrapped numbers.\<close>

lemma half_window_int:
  assumes "lo \<le> k" "k < lo + 32768"
  shows "(word_of_int k :: u16) \<in> half_window (word_of_int lo)" and "seq_dist (word_of_int lo) (word_of_int k) = nat (k - lo)"
proof -
  have "int (seq_dist (word_of_int lo) (word_of_int k)) = (k - lo) mod 65536"
    by (simp add: seq_dist_int uint_word_of_int mod_diff_eq)
  also have "\<dots> = k - lo" using assms by simp
  finally show "seq_dist (word_of_int lo) (word_of_int k) = nat (k - lo)" by simp
  then show "(word_of_int k :: u16) \<in> half_window (word_of_int lo)" using assms by (simp add: half_window_def)
qed

end
