(* ===== verification/Nack_Requester.thy ===== *)
theory Nack_Requester
  imports Seq_Container
begin

text \<open>
  The generator of retransmission requests, \<^verbatim>\<open>src/src/transport/nack_requester.{h,cpp}\<close>. The timer and the
  observer are outside: an operation returns the requests it makes of the observer. The clock is an
  argument, read once per call of \<open>AddPacketsToNack\<close> and of \<open>GetNackBatch\<close>. The member
  \<open>backoff_settings_\<close> is never set, so the delay before a repeated request is the round trip time.

  The second half is a state machine: packets arrive, the timer fires, the round trip time changes. Its
  ghost state has the true, unwrapped number of the newest packet and the set of those received.
\<close>

section \<open>The code\<close>

definition kMaxPacketAge :: nat where "kMaxPacketAge = 10000"
definition kMaxNackPackets :: nat where "kMaxNackPackets = 1000"
definition kDefaultRttMs :: int where "kDefaultRttMs = 100"
definition kMaxNackRetries :: int where "kMaxNackRetries = 10"
definition send_nack_delay_ms :: int where "send_nack_delay_ms = 10"

lemmas nack_consts = kMaxPacketAge_def kMaxNackPackets_def kMaxNackRetries_def

record NackInfo =
  ni_seq_num :: u16
  send_at_seq_num :: u16
  created_at_time :: int
  sent_at_time :: int
  retries :: int

definition new_nack_info :: "u16 \<Rightarrow> u16 \<Rightarrow> int \<Rightarrow> NackInfo" where
  "new_nack_info s at created = \<lparr>ni_seq_num = s, send_at_seq_num = at, created_at_time = created, sent_at_time = - 1, retries = 0\<rparr>"

record NackRequester =
  nack_list :: "(u16 \<times> NackInfo) list"
  keyframe_list :: "(u16 \<times> unit) list"
  recovered_list :: "(u16 \<times> unit) list"
  initialized :: bool
  rtt_ms :: int
  newest_seq_num :: u16

definition new_requester :: NackRequester where
  "new_requester = \<lparr>nack_list = [], keyframe_list = [], recovered_list = [], initialized = False,
     rtt_ms = kDefaultRttMs, newest_seq_num = 0\<rparr>"

datatype nack_request = RequestNack "u16 list" | RequestKeyFrame

datatype NackFilterOptions = kSeqNumOnly | kTimeOnly | kSeqNumAndTime

definition UpdateRtt :: "int \<Rightarrow> NackRequester \<Rightarrow> NackRequester" where
  "UpdateRtt rtt s = s\<lparr>rtt_ms := rtt\<rparr>"

definition ClearUpTo :: "u16 \<Rightarrow> NackRequester \<Rightarrow> NackRequester" where
  "ClearUpTo seq s = s\<lparr>nack_list := lower_bound IsSeqNumLessThan seq (nack_list s),
     keyframe_list := lower_bound IsSeqNumLessThan seq (keyframe_list s),
     recovered_list := lower_bound IsSeqNumLessThan seq (recovered_list s)\<rparr>"

text \<open>\<open>RemovePacketsUntilKeyFrame\<close> on the key frame list and the NACK list.\<close>

fun RemovePacketsUntilKeyFrame :: "(u16 \<times> unit) list \<Rightarrow> (u16 \<times> NackInfo) list
    \<Rightarrow> bool \<times> (u16 \<times> unit) list \<times> (u16 \<times> NackInfo) list" where
  "RemovePacketsUntilKeyFrame [] nl = (False, [], nl)"
| "RemovePacketsUntilKeyFrame (kf # kfs) nl =
     (let it = lower_bound IsSeqNumLessThan (fst kf) nl in
      if length it \<noteq> length nl then (True, kf # kfs, it)
      else RemovePacketsUntilKeyFrame kfs nl)"

lemma length_lower_bound: "length (lower_bound lt k xs) \<le> length xs"
  by (simp add: lower_bound_def length_dropWhile_le)

lemma RemovePacketsUntilKeyFrame_shrinks:
  "RemovePacketsUntilKeyFrame kfs nl = (b, kfs', nl') \<Longrightarrow> b \<Longrightarrow> length nl' < length nl"
proof (induction kfs nl rule: RemovePacketsUntilKeyFrame.induct)
  case (2 kf kfs nl)
  then show ?case using length_lower_bound [of IsSeqNumLessThan "fst kf" nl]
    by (auto simp: Let_def split: if_splits)
qed simp

text \<open>The empty loop around it, \<open>n\<close> packets to come.\<close>

function make_room :: "nat \<Rightarrow> (u16 \<times> unit) list \<Rightarrow> (u16 \<times> NackInfo) list \<Rightarrow> (u16 \<times> unit) list \<times> (u16 \<times> NackInfo) list" where
  "make_room n kfs nl =
     (case RemovePacketsUntilKeyFrame kfs nl of (removed, kfs', nl') \<Rightarrow>
        if removed \<and> length nl' + n > kMaxNackPackets then make_room n kfs' nl' else (kfs', nl'))"
  by pat_completeness auto
termination
  by (relation "measure (\<lambda>(n, kfs, nl). length nl)") (auto dest: RemovePacketsUntilKeyFrame_shrinks [OF sym])

declare make_room.simps [simp del]

function add_nacks :: "int \<Rightarrow> (u16 \<times> unit) list \<Rightarrow> u16 \<Rightarrow> u16 \<Rightarrow> (u16 \<times> NackInfo) list \<Rightarrow> (u16 \<times> NackInfo) list" where
  "add_nacks now recovered seq_num seq_num_end nl =
     (if seq_num = seq_num_end then nl
      else add_nacks now recovered (seq_num + 1) seq_num_end
        (if find_key IsSeqNumLessThan seq_num recovered \<noteq> None then nl
         else put_key IsSeqNumLessThan seq_num (new_nack_info seq_num seq_num now) nl))"
  by pat_completeness auto
termination
proof (relation "measure (\<lambda>(now, recovered, s, e, nl). seq_dist s e)")
  fix now recovered and s e :: u16 and nl
  assume "s \<noteq> e"
  then have "0 < unat (e - s)" by (simp add: unat_gt_0)
  then have "unat (e - s - 1) = unat (e - s) - 1" by (simp add: unat_minus_one unat_gt_0)
  then have "unat (e - (s + 1)) = unat (e - s) - 1" by (simp only: diff_diff_eq)
  then show "((now, recovered, s + 1, e, if find_key IsSeqNumLessThan s recovered \<noteq> None then nl
      else put_key IsSeqNumLessThan s (new_nack_info s s now) nl), now, recovered, s, e, nl)
      \<in> measure (\<lambda>(now, recovered, s, e, nl). seq_dist s e)"
    using \<open>0 < unat (e - s)\<close> by (simp add: seq_dist_def)
qed simp

declare add_nacks.simps [simp del]

definition AddPacketsToNack :: "u16 \<Rightarrow> u16 \<Rightarrow> int \<Rightarrow> NackRequester \<Rightarrow> NackRequester \<times> nack_request list" where
  "AddPacketsToNack seq_num_start seq_num_end now s =
     (let nl = lower_bound IsSeqNumLessThan (seq_num_end - of_nat kMaxPacketAge) (nack_list s);
          num_new_nacks = unat (seq_num_end - seq_num_start);
          (kfs, nl) = (if length nl + num_new_nacks > kMaxNackPackets then make_room num_new_nacks (keyframe_list s) nl
                       else (keyframe_list s, nl))
      in if length nl + num_new_nacks > kMaxNackPackets
         then (s\<lparr>keyframe_list := kfs, nack_list := []\<rparr>, [RequestKeyFrame])
         else (s\<lparr>keyframe_list := kfs, nack_list := add_nacks now (recovered_list s) seq_num_start seq_num_end nl\<rparr>, []))"

definition nack_due :: "NackFilterOptions \<Rightarrow> int \<Rightarrow> NackRequester \<Rightarrow> NackInfo \<Rightarrow> bool" where
  "nack_due options now s i =
     (let consider_seq_num = (options \<noteq> kTimeOnly); consider_timestamp = (options \<noteq> kSeqNumOnly);
          resend_delay = rtt_ms s;
          delay_timed_out = (now - created_at_time i \<ge> send_nack_delay_ms);
          nack_on_rtt_passed = (now - sent_at_time i \<ge> resend_delay);
          nack_on_seq_num_passed = (sent_at_time i = - 1 \<and> SeqNumGE (newest_seq_num s) (send_at_seq_num i))
      in delay_timed_out \<and> ((consider_seq_num \<and> nack_on_seq_num_passed) \<or> (consider_timestamp \<and> nack_on_rtt_passed)))"

fun nack_batch_loop :: "(NackInfo \<Rightarrow> bool) \<Rightarrow> int \<Rightarrow> (u16 \<times> NackInfo) list \<Rightarrow> u16 list \<times> (u16 \<times> NackInfo) list" where
  "nack_batch_loop due now [] = ([], [])"
| "nack_batch_loop due now ((k, i) # nl) =
     (let (batch, nl') = nack_batch_loop due now nl in
      if due i then
        let i' = i\<lparr>retries := retries i + 1, sent_at_time := now\<rparr>
        in (ni_seq_num i # batch, if retries i' \<ge> kMaxNackRetries then nl' else (k, i') # nl')
      else (batch, (k, i) # nl'))"

definition GetNackBatch :: "NackFilterOptions \<Rightarrow> int \<Rightarrow> NackRequester \<Rightarrow> u16 list \<times> NackRequester" where
  "GetNackBatch options now s =
     (let (batch, nl) = nack_batch_loop (nack_due options now s) now (nack_list s) in (batch, s\<lparr>nack_list := nl\<rparr>))"

definition request_batch :: "u16 list \<Rightarrow> nack_request list" where
  "request_batch batch = (if batch \<noteq> [] then [RequestNack batch] else [])"

definition NackTimerTimeout :: "int \<Rightarrow> NackRequester \<Rightarrow> NackRequester \<times> nack_request list" where
  "NackTimerTimeout now s = (let (batch, s') = GetNackBatch kTimeOnly now s in (s', request_batch batch))"

text \<open>What \<open>std::set::erase(begin, lower_bound)\<close> leaves, called only when there is something to erase.\<close>

definition NackOnReceivedPacket :: "u16 \<Rightarrow> bool \<Rightarrow> bool \<Rightarrow> int \<Rightarrow> NackRequester \<Rightarrow> int \<times> NackRequester \<times> nack_request list" where
  "NackOnReceivedPacket seq_num is_keyframe is_recovered now s =
     (if \<not> initialized s then
        (0, s\<lparr>newest_seq_num := seq_num, keyframe_list := (if is_keyframe then insert_key IsSeqNumLessThan seq_num (keyframe_list s) else keyframe_list s),
              initialized := True\<rparr>, [])
      else if seq_num = newest_seq_num s then (0, s, [])
      else if SeqNumGT (newest_seq_num s) seq_num then
        (case find_key IsSeqNumLessThan seq_num (nack_list s) of
           None \<Rightarrow> (0, s, [])
         | Some i \<Rightarrow> (retries i, s\<lparr>nack_list := erase_key IsSeqNumLessThan seq_num (nack_list s)\<rparr>, []))
      else
        let kfs = (if is_keyframe then insert_key IsSeqNumLessThan seq_num (keyframe_list s) else keyframe_list s);
            s1 = s\<lparr>keyframe_list := lower_bound IsSeqNumLessThan (seq_num - of_nat kMaxPacketAge) kfs\<rparr>
        in if is_recovered then
             (0, s1\<lparr>recovered_list := lower_bound IsSeqNumLessThan (seq_num - of_nat kMaxPacketAge)
                      (insert_key IsSeqNumLessThan seq_num (recovered_list s1))\<rparr>, [])
           else
             let (s2, ev) = AddPacketsToNack (newest_seq_num s1 + 1) seq_num now s1;
                 (batch, s3) = GetNackBatch kSeqNumOnly now (s2\<lparr>newest_seq_num := seq_num\<rparr>)
             in (0, s3, ev @ request_batch batch))"

section \<open>The invariant\<close>

text \<open>\<open>N\<close> is the number of the newest packet, \<open>R\<close> the set of all received, both unwrapped.\<close>

abbreviation seq16 :: "int \<Rightarrow> u16" where "seq16 \<equiv> word_of_int"

abbreviation window :: "int \<Rightarrow> int set" where "window N \<equiv> {N - 10000..<N}"

definition missing_keys :: "int \<Rightarrow> int set \<Rightarrow> (u16 \<times> NackInfo) list \<Rightarrow> bool" where
  "missing_keys N R nl \<longleftrightarrow> seq_keys.ordered (seq16 (N - 10000)) nl
     \<and> fst ` set nl \<subseteq> seq16 ` (window N - R)
     \<and> (\<forall>(k, i)\<in>set nl. ni_seq_num i = k \<and> 0 \<le> retries i \<and> retries i < 10)"

definition nack_ok :: "int \<Rightarrow> int set \<Rightarrow> NackRequester \<Rightarrow> bool" where
  "nack_ok N R s \<longleftrightarrow> initialized s \<and> newest_seq_num s = seq16 N \<and> N \<in> R \<and> R \<subseteq> {..N}
     \<and> missing_keys N R (nack_list s) \<and> length (nack_list s) \<le> kMaxNackPackets \<and> recovered_list s = []
     \<and> seq_keys.ordered (seq16 (N - 10000)) (keyframe_list s) \<and> fst ` set (keyframe_list s) \<subseteq> seq16 ` {N - 10000..N}"

lemma seq16_inj: "seq16 a = seq16 b \<Longrightarrow> \<bar>a - b\<bar> < 65536 \<Longrightarrow> a = b"
proof -
  assume e: "seq16 a = seq16 b" and "\<bar>a - b\<bar> < 65536"
  from e have "uint (seq16 a) = uint (seq16 b)" by simp
  then have "a mod 65536 = b mod 65536" by (simp add: uint_word_of_int)
  then show ?thesis using \<open>\<bar>a - b\<bar> < 65536\<close> by (rule int_mod_close)
qed

lemma SeqNumGT_int:
  assumes "\<bar>a - b\<bar> < 32768"
  shows "SeqNumGT (seq16 a) (seq16 b) \<longleftrightarrow> b < a"
proof -
  let ?lo = "min a b"
  have h: "seq16 a \<in> half_window (seq16 ?lo)" "seq16 b \<in> half_window (seq16 ?lo)"
    "seq_dist (seq16 ?lo) (seq16 a) = nat (a - ?lo)" "seq_dist (seq16 ?lo) (seq16 b) = nat (b - ?lo)"
    using half_window_int [of ?lo a] half_window_int [of ?lo b] assms by auto
  have "SeqNumGT (seq16 a) (seq16 b) \<longleftrightarrow> seq_dist (seq16 ?lo) (seq16 b) < seq_dist (seq16 ?lo) (seq16 a)"
    using h(1,2) by (intro SeqNumGT_window) (simp_all add: half_window_def)
  then show ?thesis using h(3,4) by (auto simp: min_def split: if_splits)
qed

text \<open>The order of a list does not depend on the base of the window its keys are in.\<close>

lemma ordered_rebase:
  assumes "seq_keys.ordered b xs" "fst ` set xs \<subseteq> seq16 ` {lo..<hi}" "hi \<le> lo + 32768"
  shows "seq_keys.ordered (seq16 lo) xs"
proof -
  have "fst ` set xs \<subseteq> half_window (seq16 lo)"
    using assms(2,3) half_window_int(1) [of lo] by fastforce
  then show ?thesis using assms(1) by (simp add: seq_keys.ordered_def)
qed

lemma lower_bound_int:
  assumes "seq_keys.ordered (seq16 lo) xs" "fst ` set xs \<subseteq> seq16 ` S" "S \<subseteq> {lo..<lo + 32768}" "lo \<le> k" "k < lo + 32768"
  shows "seq_keys.ordered (seq16 lo) (lower_bound IsSeqNumLessThan (seq16 k) xs)"
    and "fst ` set (lower_bound IsSeqNumLessThan (seq16 k) xs) \<subseteq> seq16 ` (S \<inter> {k..})"
    and "set (lower_bound IsSeqNumLessThan (seq16 k) xs) \<subseteq> set xs"
proof -
  have kw: "seq16 k \<in> half_window (seq16 lo)" using half_window_int(1) [OF assms(4,5)] .
  note f = seq_keys.split_ordered(2) [OF assms(1) kw]
  show "seq_keys.ordered (seq16 lo) (lower_bound IsSeqNumLessThan (seq16 k) xs)"
    using f seq_keys.ordered_filter [OF assms(1)] by simp
  show "set (lower_bound IsSeqNumLessThan (seq16 k) xs) \<subseteq> set xs" using f by auto
  show "fst ` set (lower_bound IsSeqNumLessThan (seq16 k) xs) \<subseteq> seq16 ` (S \<inter> {k..})"
  proof
    fix x assume "x \<in> fst ` set (lower_bound IsSeqNumLessThan (seq16 k) xs)"
    then have x: "x \<in> fst ` set xs" "seq_dist (seq16 lo) (seq16 k) \<le> seq_dist (seq16 lo) x" using f by auto
    then obtain j where j: "x = seq16 j" "j \<in> S" using assms(2) by auto
    then have "nat (k - lo) \<le> nat (j - lo)"
      using x(2) half_window_int(2) [OF assms(4,5)] half_window_int(2) [of lo j] assms(3) by auto
    then have "k \<le> j" using assms(3,4) j(2) by (auto simp: nat_le_eq_zle)
    then show "x \<in> seq16 ` (S \<inter> {k..})" using j by auto
  qed
qed

section \<open>Each operation and the invariant\<close>

lemma lower_bound_drop: "\<exists>m. lower_bound lt k xs = drop m xs"
  unfolding lower_bound_def by (metis dropWhile_eq_drop)

lemma RemovePacketsUntilKeyFrame_drop:
  "RemovePacketsUntilKeyFrame kfs nl = (b, kfs', nl') \<Longrightarrow> \<exists>i j. kfs' = drop i kfs \<and> nl' = drop j nl"
proof (induction kfs nl rule: RemovePacketsUntilKeyFrame.induct)
  case (1 nl)
  then show ?case by (auto intro: exI [of _ 0])
next
  case (2 kf kfs nl)
  show ?case
  proof (cases "length (lower_bound IsSeqNumLessThan (fst kf) nl) \<noteq> length nl")
    case True
    then have "kfs' = drop 0 (kf # kfs)" "nl' = lower_bound IsSeqNumLessThan (fst kf) nl"
      using "2.prems" by (auto simp: Let_def)
    then show ?thesis using lower_bound_drop by metis
  next
    case False
    then obtain i j where "kfs' = drop i kfs" "nl' = drop j nl" using 2 by (auto simp: Let_def)
    then have "kfs' = drop (Suc i) (kf # kfs)" "nl' = drop j nl" by simp_all
    then show ?thesis by blast
  qed
qed

lemma make_room_drop: "make_room n kfs nl = (kfs', nl') \<Longrightarrow> \<exists>i j. kfs' = drop i kfs \<and> nl' = drop j nl"
proof (induction n kfs nl rule: make_room.induct)
  case (1 n kfs nl)
  obtain b k l where r: "RemovePacketsUntilKeyFrame kfs nl = (b, k, l)" by (metis surj_pair)
  then obtain i j where ij: "k = drop i kfs" "l = drop j nl" using RemovePacketsUntilKeyFrame_drop by blast
  show ?case
  proof (cases "b \<and> length l + n > kMaxNackPackets")
    case True
    then have "make_room n k l = (kfs', nl')" using "1.prems" r by (subst (asm) make_room.simps) simp
    then obtain i' j' where "kfs' = drop i' k" "nl' = drop j' l" using "1.IH" [OF r [symmetric] refl True] by blast
    then have "kfs' = drop (i' + i) kfs" "nl' = drop (j' + j) nl" using ij by (simp_all add: add.commute)
    then show ?thesis by blast
  next
    case False
    then have "kfs' = k" "nl' = l" using "1.prems" r by (subst (asm) make_room.simps, auto)+
    then show ?thesis using ij by blast
  qed
qed

lemma add_nacks_int:
  assumes "seq_keys.ordered (seq16 lo) nl" "fst ` set nl \<subseteq> seq16 ` {lo..<a}" "lo \<le> a" "a \<le> n" "n \<le> lo + 32768"
  shows "seq_keys.ordered (seq16 lo) (add_nacks now [] (seq16 a) (seq16 n) nl)
    \<and> set (add_nacks now [] (seq16 a) (seq16 n) nl) = set nl \<union> (\<lambda>j. (seq16 j, new_nack_info (seq16 j) (seq16 j) now)) ` {a..<n}
    \<and> length (add_nacks now [] (seq16 a) (seq16 n) nl) \<le> length nl + nat (n - a)"
  using assms
proof (induction "nat (n - a)" arbitrary: a nl)
  case 0
  then show ?case by (subst (1 2 3) add_nacks.simps) simp
next
  case (Suc m)
  then have an: "a < n" by linarith
  then have ne: "seq16 a \<noteq> seq16 n" using seq16_inj [of a n] Suc.prems by auto
  have a: "seq16 a \<in> half_window (seq16 lo)" using half_window_int(1) [of lo a] Suc.prems an by simp
  have notin: "seq16 a \<notin> fst ` set nl"
  proof
    assume "seq16 a \<in> fst ` set nl"
    then obtain j where "j \<in> {lo..<a}" "seq16 a = seq16 j" using Suc.prems(2) by blast
    then show False using seq16_inj [of a j] Suc.prems an by auto
  qed
  let ?nl = "put_key IsSeqNumLessThan (seq16 a) (new_nack_info (seq16 a) (seq16 a) now) nl"
  have o: "seq_keys.ordered (seq16 lo) ?nl" by (rule seq_keys.put_key_ordered [OF Suc.prems(1) a])
  have st: "set ?nl = insert (seq16 a, new_nack_info (seq16 a) (seq16 a) now) (set nl)"
    using seq_keys.put_key_set [OF Suc.prems(1) a] notin by force
  have "fst ` set ?nl \<subseteq> seq16 ` {lo..<a + 1}" unfolding st using Suc.prems(2,3) by auto
  then have ih: "seq_keys.ordered (seq16 lo) (add_nacks now [] (seq16 (a + 1)) (seq16 n) ?nl)
    \<and> set (add_nacks now [] (seq16 (a + 1)) (seq16 n) ?nl) = set ?nl \<union> (\<lambda>j. (seq16 j, new_nack_info (seq16 j) (seq16 j) now)) ` {a + 1..<n}
    \<and> length (add_nacks now [] (seq16 (a + 1)) (seq16 n) ?nl) \<le> length ?nl + nat (n - (a + 1))"
    using Suc.hyps o Suc.prems an by (intro Suc.hyps(1)) auto
  have step: "add_nacks now [] (seq16 a) (seq16 n) nl = add_nacks now [] (seq16 (a + 1)) (seq16 n) ?nl"
    using ne by (subst add_nacks.simps) (simp add: find_key_def lower_bound_def)
  have "{a..<n} = insert a {a + 1..<n}" using an by auto
  moreover have "length ?nl \<le> Suc (length nl)" by (rule seq_keys.put_key_length [OF Suc.prems(1) a])
  ultimately show ?case using ih st step an by auto
qed

definition bump :: "int \<Rightarrow> NackInfo \<Rightarrow> NackInfo" where
  "bump now i = i\<lparr>retries := retries i + 1, sent_at_time := now\<rparr>"

lemma nack_batch_loop_keys:
  "nack_batch_loop due now nl = (b, nl') \<Longrightarrow> sorted_wrt (\<lambda>x y. P (fst x) (fst y)) nl \<Longrightarrow>
     sorted_wrt (\<lambda>x y. P (fst x) (fst y)) nl' \<and> fst ` set nl' \<subseteq> fst ` set nl \<and> length nl' \<le> length nl"
proof (induction due now nl arbitrary: b nl' rule: nack_batch_loop.induct)
  case (2 due now k i nl)
  obtain c l where l: "nack_batch_loop due now nl = (c, l)" by (metis surj_pair)
  have ih: "sorted_wrt (\<lambda>x y. P (fst x) (fst y)) l" "fst ` set l \<subseteq> fst ` set nl" "length l \<le> length nl"
    using "2.IH" [OF l] "2.prems"(2) by auto
  have s: "\<And>a i. (a, i) \<in> set l \<Longrightarrow> a \<in> fst ` set nl" using ih(2) by force
  then have "\<forall>x\<in>set l. P k (fst x)" using "2.prems"(2) by fastforce
  moreover have "nl' = l \<or> (\<exists>i'. nl' = (k, i') # l)"
    using "2.prems"(1) l by (auto simp: Let_def split: if_splits)
  ultimately show ?case using ih s by auto
qed simp

lemma nack_batch_loop_set:
  "nack_batch_loop due now nl = (b, nl') \<Longrightarrow> distinct (map fst nl) \<Longrightarrow> \<forall>(k, i)\<in>set nl. ni_seq_num i = k \<Longrightarrow>
     set b = {k. \<exists>i. (k, i) \<in> set nl \<and> due i}
     \<and> set nl' = {(k, i). (k, i) \<in> set nl \<and> \<not> due i} \<union> {(k, bump now i) |k i. (k, i) \<in> set nl \<and> due i \<and> retries i + 1 < kMaxNackRetries}"
proof (induction due now nl arbitrary: b nl' rule: nack_batch_loop.induct)
  case (2 due now k i nl)
  obtain c l where l: "nack_batch_loop due now nl = (c, l)" by (metis surj_pair)
  have ih: "set c = {k. \<exists>i. (k, i) \<in> set nl \<and> due i}"
    "set l = {(k, i). (k, i) \<in> set nl \<and> \<not> due i} \<union> {(k, bump now i) |k i. (k, i) \<in> set nl \<and> due i \<and> retries i + 1 < kMaxNackRetries}"
    using "2.IH" [OF l] "2.prems"(2,3) by auto
  have "b = (if due i then k # c else c)"
    "nl' = (if due i then (if retries i + 1 \<ge> kMaxNackRetries then l else (k, bump now i) # l) else (k, i) # l)"
    using "2.prems"(1,3) l by (auto simp: Let_def bump_def split: if_splits)
  then show ?case using ih by (auto simp: not_le)
qed simp

text \<open>The requests made so far, each with the ghost state at the moment it is made, and how often a packet
  was asked for.\<close>

type_synonym ask = "int \<times> int set \<times> u16 list"

definition asked :: "int \<Rightarrow> ask list \<Rightarrow> nat" where
  "asked k as = length (filter (\<lambda>(N, R, b). k \<in> window N \<and> seq16 k \<in> set b) as)"

fun asks_of :: "int \<Rightarrow> int set \<Rightarrow> nack_request list \<Rightarrow> ask list" where
  "asks_of N R [] = []"
| "asks_of N R (RequestNack b # ev) = (N, R, b) # asks_of N R ev"
| "asks_of N R (RequestKeyFrame # ev) = asks_of N R ev"

lemma asks_of_append [simp]: "asks_of N R (x @ y) = asks_of N R x @ asks_of N R y"
  by (induction N R x rule: asks_of.induct) auto

lemma asked_append [simp]: "asked k (x @ y) = asked k x + asked k y"
  by (simp add: asked_def)

definition asks_ok :: "int \<Rightarrow> (u16 \<times> NackInfo) list \<Rightarrow> ask list \<Rightarrow> bool" where
  "asks_ok N nl as \<longleftrightarrow>
     (\<forall>k. asked k as \<le> 10 \<and> (N \<le> k \<longrightarrow> asked k as = 0)
        \<and> (k \<in> window N \<longrightarrow> (\<forall>i. (seq16 k, i) \<in> set nl \<longrightarrow> int (asked k as) = retries i)))
     \<and> (\<forall>(M, R, b)\<in>set as. set b \<subseteq> seq16 ` (window M - R))"

lemma missing_keys_distinct: "missing_keys N R nl \<Longrightarrow> distinct (map fst nl)"
  by (auto simp: missing_keys_def dest: seq_keys.ordered_distinct)

lemma missing_keys_sub:
  assumes "missing_keys N R nl" "seq_keys.ordered (seq16 (N - 10000)) nl'" "set nl' \<subseteq> set nl"
    "\<And>k. k \<in> S \<Longrightarrow> seq16 k \<notin> fst ` set nl'"
  shows "missing_keys N (R \<union> S) nl'"
proof -
  have "x \<in> seq16 ` (window N - (R \<union> S))" if "x \<in> fst ` set nl'" for x
  proof -
    have "x \<in> fst ` set nl" using that assms(3) by blast
    then obtain k where k: "x = seq16 k" "k \<in> window N - R" using assms(1) unfolding missing_keys_def by blast
    then have "k \<notin> S" using assms(4) [of k] that by blast
    then show ?thesis using k by blast
  qed
  moreover have "\<forall>(k, i)\<in>set nl'. ni_seq_num i = k \<and> 0 \<le> retries i \<and> retries i < 10"
    using assms(1,3) unfolding missing_keys_def by blast
  ultimately show ?thesis using assms(2) unfolding missing_keys_def by blast
qed

lemma batch_keys_ok:
  assumes ok: "missing_keys N R nl" and b: "nack_batch_loop due now nl = (b, nl')"
  shows "missing_keys N R nl'" "length nl' \<le> length nl"
proof -
  have o: "seq_keys.ordered (seq16 (N - 10000)) nl" "fst ` set nl \<subseteq> seq16 ` (window N - R)"
    "\<forall>(k, i)\<in>set nl. ni_seq_num i = k" "\<forall>(k, i)\<in>set nl. 0 \<le> retries i \<and> retries i < 10"
    using ok by (auto simp: missing_keys_def)
  note keys = nack_batch_loop_keys [OF b, of IsSeqNumLessThan]
  note st = nack_batch_loop_set [OF b missing_keys_distinct [OF ok] o(3)]
  have stD: "((k, j) \<in> set nl \<and> \<not> due j) \<or> (\<exists>i. (k, i) \<in> set nl \<and> due i \<and> j = bump now i \<and> retries i + 1 < kMaxNackRetries)"
    if "(k, j) \<in> set nl'" for k j
    using st that by auto
  have "seq_keys.ordered (seq16 (N - 10000)) nl' \<and> fst ` set nl' \<subseteq> fst ` set nl \<and> length nl' \<le> length nl"
    using keys o(1) unfolding seq_keys.ordered_def by blast
  moreover have "ni_seq_num i = k \<and> 0 \<le> retries i \<and> retries i < 10" if "(k, i) \<in> set nl'" for k i
  proof -
    have "(k, i) \<in> set nl \<or> (\<exists>j. (k, j) \<in> set nl \<and> i = bump now j \<and> retries j + 1 < kMaxNackRetries)"
      using stD [OF that] by blast
    then show ?thesis
    proof
      assume "(k, i) \<in> set nl" then show ?thesis using o(3,4) by auto
    next
      assume "\<exists>j. (k, j) \<in> set nl \<and> i = bump now j \<and> retries j + 1 < kMaxNackRetries"
      then obtain j where j: "(k, j) \<in> set nl" "i = bump now j" "retries j + 1 < 10" by (auto simp: kMaxNackRetries_def)
      then have "ni_seq_num j = k" "0 \<le> retries j" using o(3,4) by auto
      then show ?thesis using j by (simp add: bump_def)
    qed
  qed
  then have "\<forall>(k, i)\<in>set nl'. ni_seq_num i = k \<and> 0 \<le> retries i \<and> retries i < 10" by blast
  ultimately show "missing_keys N R nl'" "length nl' \<le> length nl"
    using o(2) unfolding missing_keys_def by blast+
qed

lemma batch_asks_ok:
  assumes ok: "missing_keys N R nl" and asks: "asks_ok N nl as"
    and b: "nack_batch_loop due now nl = (b, nl')"
  shows "asks_ok N nl' (as @ asks_of N R (request_batch b))"
proof -
  have o: "seq_keys.ordered (seq16 (N - 10000)) nl" "fst ` set nl \<subseteq> seq16 ` (window N - R)"
    "\<forall>(k, i)\<in>set nl. ni_seq_num i = k" "\<forall>(k, i)\<in>set nl. 0 \<le> retries i \<and> retries i < 10"
    using ok by (auto simp: missing_keys_def)
  note st = nack_batch_loop_set [OF b missing_keys_distinct [OF ok] o(3)]
  have stD: "((k, j) \<in> set nl \<and> \<not> due j) \<or> (\<exists>i. (k, i) \<in> set nl \<and> due i \<and> j = bump now i \<and> retries i + 1 < kMaxNackRetries)"
    if "(k, j) \<in> set nl'" for k j
    using st that by auto
  show ?thesis
  proof (cases "b = []")
    case True
    then have "set nl' \<subseteq> set nl" using st by auto
    then show ?thesis using True asks by (auto simp: request_batch_def asks_ok_def)
  next
    case False
    have ev: "asks_of N R (request_batch b) = [(N, R, b)]" using False by (simp add: request_batch_def)
    have "set b \<subseteq> fst ` set nl" using st by force
    then have bk: "set b \<subseteq> seq16 ` (window N - R)" using o(2) by blast
    have one: "asked k (as @ [(N, R, b)]) = asked k as + (if k \<in> window N \<and> seq16 k \<in> set b then 1 else 0)" for k
      by (simp add: asked_def)
    have uniq: "(k, i) \<in> set nl \<Longrightarrow> (k, j) \<in> set nl \<Longrightarrow> i = j" for k i j
      using missing_keys_distinct [OF ok] by (auto dest: eq_key_imp_eq_value)
    have "asked k (as @ [(N, R, b)]) \<le> 10 \<and> (N \<le> k \<longrightarrow> asked k (as @ [(N, R, b)]) = 0)
        \<and> (k \<in> window N \<longrightarrow> (\<forall>i. (seq16 k, i) \<in> set nl' \<longrightarrow> int (asked k (as @ [(N, R, b)])) = retries i))" for k
    proof -
    have ak: "asked k as \<le> 10" "N \<le> k \<Longrightarrow> asked k as = 0"
      "\<And>i. k \<in> window N \<Longrightarrow> (seq16 k, i) \<in> set nl \<Longrightarrow> int (asked k as) = retries i"
      using asks unfolding asks_ok_def by blast+
    show ?thesis
    proof (cases "k \<in> window N \<and> seq16 k \<in> set b")
      case True
      then obtain i where i: "(seq16 k, i) \<in> set nl" "due i" using st by auto
      then have r: "int (asked k as) = retries i" "retries i < 10" using ak(3) True o(4) by auto
      have "retries j = retries i + 1" if "(seq16 k, j) \<in> set nl'" for j
        using stD [OF that] uniq [OF i(1)] i(2) by (auto simp: bump_def)
      moreover have "asked k (as @ [(N, R, b)]) = asked k as + 1" using True one by simp
      ultimately show ?thesis using r True by auto
    next
      case False
      have "(seq16 k, j) \<in> set nl" if "k \<in> window N" "(seq16 k, j) \<in> set nl'" for j
        using stD [OF that(2)] that(1) False st by auto
      moreover have "asked k (as @ [(N, R, b)]) = asked k as" using False one by simp
      ultimately show ?thesis using ak by auto
    qed
    qed
    moreover have "\<forall>(M, R, b)\<in>set (as @ [(N, R, b)]). set b \<subseteq> seq16 ` (window M - R)"
      using asks bk by (auto simp: asks_ok_def)
    ultimately show ?thesis unfolding ev asks_ok_def by blast
  qed
qed

lemma batch_ok:
  assumes "missing_keys N R nl" "asks_ok N nl as" "nack_batch_loop due now nl = (b, nl')"
  shows "missing_keys N R nl' \<and> length nl' \<le> length nl \<and> asks_ok N nl' (as @ asks_of N R (request_batch b))"
  using batch_keys_ok [OF assms(1,3)] batch_asks_ok [OF assms] by blast

text \<open>The list after the newest packet has become \<open>n\<close>: what is still young enough, and what was skipped.\<close>

lemma missing_added_ok:
  assumes ok: "missing_keys N R nl" and asks: "asks_ok N nl as" and R: "R \<subseteq> {..N}" and n: "N < n" "n \<le> N + 10000"
    and nl2: "nl2 = drop j (lower_bound IsSeqNumLessThan (seq16 (n - 10000)) nl)"
  shows "let nl' = add_nacks now [] (seq16 (N + 1)) (seq16 n) nl2 in
    missing_keys n (insert n R) nl' \<and> asks_ok n nl' as \<and> length nl' \<le> length nl2 + nat (n - (N + 1))
    \<and> (\<lambda>j. (seq16 j, new_nack_info (seq16 j) (seq16 j) now)) ` {N + 1..<n} \<subseteq> set nl'"
proof -
  have o: "seq_keys.ordered (seq16 (N - 10000)) nl" "fst ` set nl \<subseteq> seq16 ` (window N - R)"
    "\<forall>(k, i)\<in>set nl. ni_seq_num i = k \<and> 0 \<le> retries i \<and> retries i < 10"
    using ok unfolding missing_keys_def by blast+
  have w: "window N - R \<subseteq> {N - 10000..<N - 10000 + 32768}" by auto
  note lb = lower_bound_int [OF o(1,2) w, of "n - 10000"]
  let ?lb = "lower_bound IsSeqNumLessThan (seq16 (n - 10000)) nl"
  have s2: "set nl2 \<subseteq> set ?lb" "set nl2 \<subseteq> set nl" using lb(3) n unfolding nl2 by (auto dest: in_set_dropD)
  have "fst ` set nl2 \<subseteq> fst ` set ?lb" using s2(1) by (rule image_mono)
  also have "\<dots> \<subseteq> seq16 ` ((window N - R) \<inter> {n - 10000..})" using lb(2) n by simp
  finally have k2: "fst ` set nl2 \<subseteq> seq16 ` ((window N - R) \<inter> {n - 10000..})" .
  have "seq_keys.ordered (seq16 (N - 10000)) nl2"
    unfolding nl2 by (rule seq_keys.ordered_drop, rule lb(1)) (use n in auto)
  moreover have k2': "fst ` set nl2 \<subseteq> seq16 ` {n - 10000..<N + 1}" using k2 by fastforce
  ultimately have "seq_keys.ordered (seq16 (n - 10000)) nl2"
    by (rule ordered_rebase) (use n in simp)
  note add = add_nacks_int [OF this k2', of n now]
  define nl' where "nl' = add_nacks now [] (seq16 (N + 1)) (seq16 n) nl2"
  have a: "seq_keys.ordered (seq16 (n - 10000)) nl'"
    "set nl' = set nl2 \<union> (\<lambda>j. (seq16 j, new_nack_info (seq16 j) (seq16 j) now)) ` {N + 1..<n}"
    "length nl' \<le> length nl2 + nat (n - (N + 1))"
    using add n unfolding nl'_def by simp_all
  have "fst ` set nl' \<subseteq> seq16 ` (window n - insert n R)"
  proof -
    have "(window N - R) \<inter> {n - 10000..} \<subseteq> window n - insert n R" "{N + 1..<n} \<subseteq> window n - insert n R"
      using R n by auto
    then have "fst ` set nl2 \<subseteq> seq16 ` (window n - insert n R)"
      "(\<lambda>j. seq16 j) ` {N + 1..<n} \<subseteq> seq16 ` (window n - insert n R)"
      using k2 by (blast, blast)
    then show ?thesis unfolding a(2) by (simp add: image_Un image_image)
  qed
  moreover have "ni_seq_num i = k \<and> 0 \<le> retries i \<and> retries i < 10" if "(k, i) \<in> set nl'" for k i
  proof -
    have "(k, i) \<in> set nl \<or> (\<exists>j. k = seq16 j \<and> i = new_nack_info (seq16 j) (seq16 j) now)"
      using that s2(2) unfolding a(2) by blast
    then show ?thesis using o(3) by (auto simp: new_nack_info_def)
  qed
  ultimately have m: "missing_keys n (insert n R) nl'" using a(1) unfolding missing_keys_def by blast
  have "int (asked k as) = retries i" if kw: "k \<in> window n" and ki: "(seq16 k, i) \<in> set nl'" for k i
  proof (cases "(seq16 k, i) \<in> set nl2")
    case True
    then have "seq16 k \<in> fst ` set nl2" by force
    then obtain m where m: "seq16 k = seq16 m" "m \<in> window N" using k2 by blast
    then have "k = m" using seq16_inj [of k m] kw n by auto
    then show ?thesis using asks True s2(2) m(2) unfolding asks_ok_def by blast
  next
    case False
    then obtain m where m: "seq16 k = seq16 m" "m \<in> {N + 1..<n}" "i = new_nack_info (seq16 m) (seq16 m) now"
      using ki unfolding a(2) by blast
    then have "k = m" using seq16_inj [of k m] kw n by auto
    then have "asked k as = 0" using asks m(2) unfolding asks_ok_def by simp
    then show ?thesis using m(3) by (simp add: new_nack_info_def)
  qed
  moreover have "asked k as \<le> 10 \<and> (n \<le> k \<longrightarrow> asked k as = 0)" for k
    using asks n unfolding asks_ok_def by auto
  moreover have "\<forall>(M, R, b)\<in>set as. set b \<subseteq> seq16 ` (window M - R)" using asks unfolding asks_ok_def by blast
  ultimately have "asks_ok n nl' as" unfolding asks_ok_def by blast
  then show ?thesis using m a(2,3) unfolding nl'_def [symmetric] Let_def by blast
qed

lemma seq16_age: "seq16 n - of_nat kMaxPacketAge = seq16 (n - 10000)"
  by (simp add: kMaxPacketAge_def)

lemma gap_length:
  assumes "N < n" "n \<le> N + 10000"
  shows "unat (seq16 n - (seq16 N + 1)) = nat (n - (N + 1))"
proof -
  have "uint (seq16 n - (seq16 N + 1)) = (n - (N + 1)) mod 65536"
    by (simp add: uint_word_ariths uint_word_of_int mod_simps)
  also have "\<dots> = n - (N + 1)" using assms by simp
  finally show ?thesis by (metis nat_uint_eq)
qed

lemma asks_ok_Nil: "asks_ok N nl as \<Longrightarrow> N \<le> n \<Longrightarrow> asks_ok n [] as"
  unfolding asks_ok_def by auto

lemma AddPackets_ok:
  assumes ok': "missing_keys N R (nack_list s)" "R \<subseteq> {..N}" "recovered_list s = []"
    and asks: "asks_ok N (nack_list s) as" and n: "N < n" "n \<le> N + 10000"
    and e: "AddPacketsToNack (seq16 N + 1) (seq16 n) now s = (s', ev)"
  shows "missing_keys n (insert n R) (nack_list s') \<and> asks_ok n (nack_list s') as \<and> length (nack_list s') \<le> kMaxNackPackets
    \<and> asks_of n R' ev = [] \<and> (\<exists>i. keyframe_list s' = drop i (keyframe_list s)) \<and> recovered_list s' = recovered_list s
    \<and> initialized s' = initialized s"
proof -
  note num = gap_length [OF n]
  define nl where "nl = lower_bound IsSeqNumLessThan (seq16 (n - 10000)) (nack_list s)"
  define c where "c = nat (n - (N + 1))"
  obtain kfs2 nl2 where p: "(if length nl + c > kMaxNackPackets then make_room c (keyframe_list s) nl else (keyframe_list s, nl)) = (kfs2, nl2)"
    by (metis surj_pair)
  then obtain i j where d: "kfs2 = drop i (keyframe_list s)" "nl2 = drop j nl"
    by (cases "length nl + c > kMaxNackPackets") (auto dest: make_room_drop intro: that [of 0 0])
  have e': "(if length nl2 + c > kMaxNackPackets then (s\<lparr>keyframe_list := kfs2, nack_list := []\<rparr>, [RequestKeyFrame])
      else (s\<lparr>keyframe_list := kfs2, nack_list := add_nacks now [] (seq16 (N + 1)) (seq16 n) nl2\<rparr>, [])) = (s', ev)"
  proof -
    have "seq16 (N + 1) = seq16 N + 1" by simp
    then show ?thesis
      using e unfolding AddPacketsToNack_def Let_def num seq16_age nl_def [symmetric] c_def [symmetric] p prod.case ok'(3) by (auto split: if_splits)
  qed
  have add: "missing_keys n (insert n R) (add_nacks now [] (seq16 (N + 1)) (seq16 n) nl2)"
    "asks_ok n (add_nacks now [] (seq16 (N + 1)) (seq16 n) nl2) as"
    "length (add_nacks now [] (seq16 (N + 1)) (seq16 n) nl2) \<le> length nl2 + c"
    using missing_added_ok [OF ok'(1) asks ok'(2) n d(2) [unfolded nl_def], of now] by (simp_all add: Let_def c_def)
  show ?thesis
  proof (cases "length nl2 + c > kMaxNackPackets")
    case True
    have "missing_keys n (insert n R) []" by (simp add: missing_keys_def seq_keys.ordered_def)
    then show ?thesis using True e' d asks_ok_Nil [OF asks, of n] n by auto
  next
    case False
    then show ?thesis using e' d add by auto
  qed
qed

lemma keyframes_ok:
  assumes "seq_keys.ordered (seq16 (N - 10000)) kfs" "fst ` set kfs \<subseteq> seq16 ` {N - 10000..N}" "N < n" "n \<le> N + 10000"
  shows "seq_keys.ordered (seq16 (n - 10000)) (lower_bound IsSeqNumLessThan (seq16 (n - 10000)) (if kf then insert_key IsSeqNumLessThan (seq16 n) kfs else kfs))
    \<and> fst ` set (lower_bound IsSeqNumLessThan (seq16 (n - 10000)) (if kf then insert_key IsSeqNumLessThan (seq16 n) kfs else kfs)) \<subseteq> seq16 ` {n - 10000..n}"
proof -
  let ?k = "if kf then insert_key IsSeqNumLessThan (seq16 n) kfs else kfs"
  have nw: "seq16 n \<in> half_window (seq16 (N - 10000))" using half_window_int(1) [of "N - 10000" n] assms(3,4) by simp
  have o: "seq_keys.ordered (seq16 (N - 10000)) ?k" using seq_keys.insert_key_set [OF assms(1) nw] assms(1) by simp
  have "fst ` set ?k \<subseteq> insert (seq16 n) (seq16 ` {N - 10000..N})"
    using seq_keys.insert_key_set [OF assms(1) nw] assms(2) by auto
  also have "\<dots> \<subseteq> seq16 ` {N - 10000..n}" using assms(3) by auto
  finally have k: "fst ` set ?k \<subseteq> seq16 ` {N - 10000..n}" .
  have w: "{N - 10000..n} \<subseteq> {N - 10000..<N - 10000 + 32768}" using assms(4) by auto
  note lb = lower_bound_int [OF o k w, of "n - 10000"]
  have l1: "seq_keys.ordered (seq16 (N - 10000)) (lower_bound IsSeqNumLessThan (seq16 (n - 10000)) ?k)" using lb(1) assms(3,4) by simp
  have "fst ` set (lower_bound IsSeqNumLessThan (seq16 (n - 10000)) ?k) \<subseteq> seq16 ` ({N - 10000..n} \<inter> {n - 10000..})"
    using lb(2) assms(3,4) by simp
  also have "\<dots> \<subseteq> seq16 ` {n - 10000..n}" by auto
  finally have l2: "fst ` set (lower_bound IsSeqNumLessThan (seq16 (n - 10000)) ?k) \<subseteq> seq16 ` {n - 10000..n}" .
  then have "fst ` set (lower_bound IsSeqNumLessThan (seq16 (n - 10000)) ?k) \<subseteq> seq16 ` {n - 10000..<n + 1}" by fastforce
  then have "seq_keys.ordered (seq16 (n - 10000)) (lower_bound IsSeqNumLessThan (seq16 (n - 10000)) ?k)"
    using l1 by (intro ordered_rebase) auto
  then show ?thesis using l2 by blast
qed

text \<open>An older packet takes itself off the list, wherever it is in the half circle before the newest.\<close>

lemma erase_ok:
  assumes ok: "missing_keys N R nl" and n: "N - 32768 < n" "n < N"
  shows "missing_keys N (insert n R) (erase_key IsSeqNumLessThan (seq16 n) nl)
    \<and> set (erase_key IsSeqNumLessThan (seq16 n) nl) \<subseteq> set nl \<and> length (erase_key IsSeqNumLessThan (seq16 n) nl) \<le> length nl
    \<and> find_key IsSeqNumLessThan (seq16 n) nl = map_of nl (seq16 n)"
proof -
  define lo where "lo = min n (N - 10000)"
  have o: "seq_keys.ordered (seq16 (N - 10000)) nl" "fst ` set nl \<subseteq> seq16 ` (window N - R)"
    using ok by (simp_all add: missing_keys_def)
  have sub: "fst ` set nl \<subseteq> seq16 ` {lo..<N}" using o(2) by (fastforce simp: lo_def)
  then have "seq_keys.ordered (seq16 lo) nl" using o(1) n by (intro ordered_rebase) (auto simp: lo_def)
  moreover have k: "seq16 n \<in> half_window (seq16 lo)" by (rule half_window_int(1)) (use n in \<open>auto simp: lo_def\<close>)
  ultimately have e: "erase_key IsSeqNumLessThan (seq16 n) nl = filter (\<lambda>e. fst e \<noteq> seq16 n) nl"
    "find_key IsSeqNumLessThan (seq16 n) nl = map_of nl (seq16 n)"
    by (rule seq_keys.erase_key_filter, rule seq_keys.find_key_map_of)
  have "seq_keys.ordered (seq16 (N - 10000)) (filter (\<lambda>e. fst e \<noteq> seq16 n) nl)"
    by (rule seq_keys.ordered_filter [OF o(1)])
  then have "missing_keys N (R \<union> {n}) (filter (\<lambda>e. fst e \<noteq> seq16 n) nl)"
    by (rule missing_keys_sub [OF ok]) auto
  then show ?thesis unfolding e by auto
qed

lemma missing_keys_insert_same: "missing_keys N R nl \<Longrightarrow> n \<in> R \<Longrightarrow> missing_keys N (insert n R) nl"
  by (simp add: insert_absorb)

lemma asks_ok_sub: "asks_ok N nl as \<Longrightarrow> set nl' \<subseteq> set nl \<Longrightarrow> asks_ok N nl' as"
  unfolding asks_ok_def by blast

lemma missing_not_key:
  assumes "missing_keys N R nl" "seq16 n \<notin> fst ` set nl"
  shows "missing_keys N (insert n R) nl"
  using missing_keys_sub [OF assms(1), of nl "{n}"] assms by (simp add: missing_keys_def)

lemma GetNackBatch_ok:
  assumes "missing_keys N R (nack_list s)" "asks_ok N (nack_list s) as" "GetNackBatch options now s = (b, s')"
  shows "missing_keys N R (nack_list s') \<and> length (nack_list s') \<le> length (nack_list s)
    \<and> asks_ok N (nack_list s') (as @ asks_of N R (request_batch b)) \<and> s' = s\<lparr>nack_list := nack_list s'\<rparr>"
proof -
  obtain c nl where l: "nack_batch_loop (nack_due options now s) now (nack_list s) = (c, nl)" by (metis surj_pair)
  then have "b = c" "s' = s\<lparr>nack_list := nl\<rparr>" using assms(3) by (auto simp: GetNackBatch_def)
  then show ?thesis using batch_ok [OF assms(1,2) l] by simp
qed

lemma GetNackBatch_set:
  assumes "missing_keys N R (nack_list s)" "GetNackBatch options now s = (b, s')"
  shows "set b = {k. \<exists>i. (k, i) \<in> set (nack_list s) \<and> nack_due options now s i}"
    and "(k, i) \<in> set (nack_list s) \<Longrightarrow> \<not> nack_due options now s i \<Longrightarrow> (k, i) \<in> set (nack_list s')"
proof -
  have i: "\<forall>(k, i)\<in>set (nack_list s). ni_seq_num i = k" using assms(1) by (auto simp: missing_keys_def)
  obtain c nl where l: "nack_batch_loop (nack_due options now s) now (nack_list s) = (c, nl)" by (metis surj_pair)
  note st = nack_batch_loop_set [OF l missing_keys_distinct [OF assms(1)] i]
  have "b = c" "nack_list s' = nl" using assms(2) l by (auto simp: GetNackBatch_def)
  then show "set b = {k. \<exists>i. (k, i) \<in> set (nack_list s) \<and> nack_due options now s i}"
    "(k, i) \<in> set (nack_list s) \<Longrightarrow> \<not> nack_due options now s i \<Longrightarrow> (k, i) \<in> set (nack_list s')"
    using st by auto
qed

lemma nack_okD:
  assumes "nack_ok N R s"
  shows "initialized s" "newest_seq_num s = seq16 N" "N \<in> R" "R \<subseteq> {..N}" "missing_keys N R (nack_list s)"
    "length (nack_list s) \<le> kMaxNackPackets" "recovered_list s = []"
    "seq_keys.ordered (seq16 (N - 10000)) (keyframe_list s)" "fst ` set (keyframe_list s) \<subseteq> seq16 ` {N - 10000..N}"
  using assms unfolding nack_ok_def by blast+

text \<open>A packet that is late or was sent again.\<close>

lemma OnReceived_old:
  assumes ok: "nack_ok N R s" and asks: "asks_ok N (nack_list s) as" and n: "N - 32768 < n" "n < N"
    and e: "NackOnReceivedPacket (seq16 n) kf is_recovered now s = (r, s', ev)"
  shows "nack_ok (max N n) (insert n R) s' \<and> asks_ok (max N n) (nack_list s') (as @ asks_of (max N n) (insert n R) ev)"
proof -
  note k = nack_okD [OF ok]
  have ne: "seq16 n \<noteq> seq16 N" using seq16_inj [of n N] n by auto
  have gt: "SeqNumGT (seq16 N) (seq16 n)" using SeqNumGT_int [of N n] n by simp
  note er = erase_ok [OF k(5) n]
  have "s' = s\<lparr>nack_list := nack_list s'\<rparr>" "ev = []" "missing_keys N (insert n R) (nack_list s')"
    "set (nack_list s') \<subseteq> set (nack_list s)" "length (nack_list s') \<le> length (nack_list s)"
  proof -
    have "s' = s\<lparr>nack_list := nack_list s'\<rparr> \<and> ev = [] \<and> missing_keys N (insert n R) (nack_list s')
      \<and> set (nack_list s') \<subseteq> set (nack_list s) \<and> length (nack_list s') \<le> length (nack_list s)"
    proof (cases "map_of (nack_list s) (seq16 n)")
      case None
      then have "s' = s" "ev = []" using e k(1,2) ne gt er by (auto simp: NackOnReceivedPacket_def)
      then show ?thesis using missing_not_key [OF k(5)] None by (simp add: map_of_eq_None_iff)
    next
      case (Some i)
      then have "s' = s\<lparr>nack_list := erase_key IsSeqNumLessThan (seq16 n) (nack_list s)\<rparr>" "ev = []"
        using e k(1,2) ne gt er by (auto simp: NackOnReceivedPacket_def)
      then show ?thesis using er by simp
    qed
    then show "s' = s\<lparr>nack_list := nack_list s'\<rparr>" "ev = []" "missing_keys N (insert n R) (nack_list s')"
      "set (nack_list s') \<subseteq> set (nack_list s)" "length (nack_list s') \<le> length (nack_list s)" by blast+
  qed
  note f = this
  have "initialized s' = initialized s" "newest_seq_num s' = newest_seq_num s" "recovered_list s' = recovered_list s" "keyframe_list s' = keyframe_list s"
    by (subst f(1), simp)+
  then have "nack_ok N (insert n R) s'" using k f n(2) unfolding nack_ok_def by auto
  moreover have "asks_ok N (nack_list s') (as @ asks_of N (insert n R) ev)" using asks_ok_sub [OF asks f(4)] f(2) by simp
  ultimately show ?thesis using n by (simp add: max_def)
qed

text \<open>A packet ahead of all others.\<close>

lemma OnReceived_new:
  assumes ok: "nack_ok N R s" and asks: "asks_ok N (nack_list s) as" and n: "N < n" "n \<le> N + 10000" and nr: "\<not> is_recovered"
    and e: "NackOnReceivedPacket (seq16 n) kf is_recovered now s = (r, s', ev)"
  shows "nack_ok (max N n) (insert n R) s' \<and> asks_ok (max N n) (nack_list s') (as @ asks_of (max N n) (insert n R) ev)"
proof -
  note k = nack_okD [OF ok]
  have ne: "seq16 n \<noteq> seq16 N" using seq16_inj [of n N] n by auto
  have gt: "\<not> SeqNumGT (seq16 N) (seq16 n)" using SeqNumGT_int [of N n] n by simp
  define kfs where "kfs = lower_bound IsSeqNumLessThan (seq16 (n - 10000)) (if kf then insert_key IsSeqNumLessThan (seq16 n) (keyframe_list s) else keyframe_list s)"
  define s1 where "s1 = s\<lparr>keyframe_list := kfs\<rparr>"
  obtain s2 ev2 where a: "AddPacketsToNack (seq16 N + 1) (seq16 n) now s1 = (s2, ev2)" by (metis surj_pair)
  obtain b s3 where g: "GetNackBatch kSeqNumOnly now (s2\<lparr>newest_seq_num := seq16 n\<rparr>) = (b, s3)" by (metis surj_pair)
  have e': "s' = s3" "ev = ev2 @ request_batch b"
    using e k(1,2) ne gt nr a g unfolding NackOnReceivedPacket_def Let_def seq16_age kfs_def s1_def by auto
  have f1: "missing_keys N R (nack_list s1)" "recovered_list s1 = []" "asks_ok N (nack_list s1) as" "keyframe_list s1 = kfs" "initialized s1"
    using k asks by (simp_all add: s1_def)
  note ad = AddPackets_ok [OF f1(1) k(4) f1(2,3) n a, of "insert n R"]
  have f2: "missing_keys n (insert n R) (nack_list (s2\<lparr>newest_seq_num := seq16 n\<rparr>))" "asks_ok n (nack_list (s2\<lparr>newest_seq_num := seq16 n\<rparr>)) as"
    using ad by simp_all
  note g3 = GetNackBatch_ok [OF f2 g]
  have "initialized s3 = initialized s2" "newest_seq_num s3 = seq16 n" "recovered_list s3 = recovered_list s2" "keyframe_list s3 = keyframe_list s2"
    using g by (auto simp: GetNackBatch_def split: prod.splits)
  moreover obtain i where i: "keyframe_list s2 = drop i kfs" using ad f1(4) by auto
  have "seq_keys.ordered (seq16 (n - 10000)) kfs" "fst ` set kfs \<subseteq> seq16 ` {n - 10000..n}"
    using keyframes_ok [OF k(8,9) n] unfolding kfs_def by blast+
  then have "seq_keys.ordered (seq16 (n - 10000)) (keyframe_list s2)" "fst ` set (keyframe_list s2) \<subseteq> seq16 ` {n - 10000..n}"
    unfolding i using set_drop_subset [of _ i kfs] by (blast intro: seq_keys.ordered_drop)+
  moreover have "insert n R \<subseteq> {..n}" using k(4) n by auto
  moreover have "length (nack_list s3) \<le> kMaxNackPackets" using g3 ad by auto
  moreover have "recovered_list s2 = []" "initialized s2" using ad f1 by auto
  ultimately have "nack_ok n (insert n R) s3" using g3 unfolding nack_ok_def by simp
  moreover have "asks_ok n (nack_list s3) (as @ asks_of n (insert n R) (ev2 @ request_batch b))"
    using g3 ad by simp
  ultimately show ?thesis using n e' by (simp add: max_def)
qed

lemma OnReceived_ok:
  assumes ok: "nack_ok N R s" and asks: "asks_ok N (nack_list s) as" and n: "N - 32768 < n" "n \<le> N + 10000"
    and rec: "is_recovered \<Longrightarrow> n \<le> N"
    and e: "NackOnReceivedPacket (seq16 n) kf is_recovered now s = (r, s', ev)"
  shows "nack_ok (max N n) (insert n R) s' \<and> asks_ok (max N n) (nack_list s') (as @ asks_of (max N n) (insert n R) ev)"
proof -
  consider "n = N" | "n < N" | "N < n" by linarith
  then show ?thesis
  proof cases
    case 1
    then show ?thesis using e ok asks nack_okD [OF ok] by (auto simp: NackOnReceivedPacket_def insert_absorb)
  qed (use OnReceived_old [OF ok asks n(1) _ e] OnReceived_new [OF ok asks _ n(2) _ e] rec in auto)
qed

section \<open>Runs\<close>

text \<open>A run from the first packet on. Packets are late by less than half the circle, early by at most the age
  limit, and a packet recovered from a retransmission, which was asked for, is never the newest.\<close>

inductive nack_run :: "int \<Rightarrow> int set \<Rightarrow> NackRequester \<Rightarrow> ask list \<Rightarrow> bool" where
  first: "NackOnReceivedPacket (seq16 n) kf False now new_requester = (r, s, ev) \<Longrightarrow> nack_run n {n} s []"
| receive: "nack_run N R s as \<Longrightarrow> N - 32768 < n \<Longrightarrow> n \<le> N + 10000 \<Longrightarrow> (is_recovered \<Longrightarrow> n \<le> N) \<Longrightarrow>
     NackOnReceivedPacket (seq16 n) kf is_recovered now s = (r, s', ev) \<Longrightarrow>
     nack_run (max N n) (insert n R) s' (as @ asks_of (max N n) (insert n R) ev)"
| timeout: "nack_run N R s as \<Longrightarrow> NackTimerTimeout now s = (s', ev) \<Longrightarrow> nack_run N R s' (as @ asks_of N R ev)"
| rtt: "nack_run N R s as \<Longrightarrow> nack_run N R (UpdateRtt t s) as"

lemma nack_run_ok: "nack_run N R s as \<Longrightarrow> nack_ok N R s \<and> asks_ok N (nack_list s) as"
proof (induction rule: nack_run.induct)
  case (first n kf now r s ev)
  have "seq_keys.ordered (seq16 (n - 10000)) [] \<and> seq16 n \<in> half_window (seq16 (n - 10000))"
    using half_window_int(1) [of "n - 10000" n] by (simp add: seq_keys.ordered_def)
  note ins = seq_keys.insert_key_set [OF conjunct1 [OF this] conjunct2 [OF this]]
  have "s = new_requester\<lparr>newest_seq_num := seq16 n, initialized := True,
      keyframe_list := (if kf then insert_key IsSeqNumLessThan (seq16 n) [] else [])\<rparr>"
    using first by (auto simp: NackOnReceivedPacket_def new_requester_def)
  then show ?case
    using ins by (auto simp: nack_ok_def new_requester_def missing_keys_def seq_keys.ordered_def asks_ok_def asked_def)
next
  case (receive N R s as n is_recovered kf now r s' ev)
  then show ?case using OnReceived_ok [of N R s as n is_recovered kf now r s' ev] by blast
next
  case (timeout N R s as now s' ev)
  obtain b s2 where g: "GetNackBatch kTimeOnly now s = (b, s2)" by (metis surj_pair)
  then have e: "s' = s2" "ev = request_batch b" using timeout.hyps(2) by (auto simp: NackTimerTimeout_def)
  have ok: "nack_ok N R s" "asks_ok N (nack_list s) as" using timeout.IH by blast+
  then have mk: "missing_keys N R (nack_list s)" by (simp add: nack_ok_def)
  note g2 = GetNackBatch_ok [OF mk ok(2) g]
  have "initialized s2 = initialized s" "newest_seq_num s2 = newest_seq_num s" "recovered_list s2 = recovered_list s" "keyframe_list s2 = keyframe_list s"
    using g by (auto simp: GetNackBatch_def split: prod.splits)
  then have "nack_ok N R s2" using ok(1) g2 unfolding nack_ok_def by simp
  then show ?case using g2 e by simp
next
  case (rtt N R s as t)
  then show ?case by (simp add: UpdateRtt_def nack_ok_def)
qed

text \<open>C24. The requester never asks for a packet it has: in every run, every request names only packets of the
  last 10000 that had not been received when it was made, no packet is asked for more than ten
  times, and the list of missing packets never holds more than 1000.\<close>

theorem nack_requests_missing_only:
  assumes "nack_run N R s as"
  shows "(\<forall>(M, S, b)\<in>set as. set b \<subseteq> seq16 ` (window M - S)) \<and> (\<forall>k. asked k as \<le> 10)
    \<and> length (nack_list s) \<le> kMaxNackPackets"
  using nack_run_ok [OF assms] unfolding asks_ok_def nack_ok_def by blast

lemma nack_run_example:
  "nack_run 65538 {65538, 65534}
     \<lparr>nack_list = map (\<lambda>k. (k, \<lparr>ni_seq_num = k, send_at_seq_num = k, created_at_time = 50, sent_at_time = 100, retries = 1\<rparr>)) [65535, 0, 1],
      keyframe_list = [(65534, ())], recovered_list = [], initialized = True, rtt_ms = 100, newest_seq_num = 2\<rparr>
     [(65538, {65538, 65534}, [65535, 0, 1])]"
proof -
  let ?s1 = "\<lparr>nack_list = [], keyframe_list = [(65534, ())], recovered_list = [], initialized = True, rtt_ms = 100, newest_seq_num = 65534\<rparr>"
  let ?s2 = "\<lparr>nack_list = map (\<lambda>k. (k, \<lparr>ni_seq_num = k, send_at_seq_num = k, created_at_time = 50, sent_at_time = - 1, retries = 0\<rparr>)) [65535, 0, 1],
      keyframe_list = [(65534, ())], recovered_list = [], initialized = True, rtt_ms = 100, newest_seq_num = 2\<rparr>"
  have "NackOnReceivedPacket (seq16 65534) True False 40 new_requester = (0, ?s1, [])"
    by (simp add: NackOnReceivedPacket_def new_requester_def kDefaultRttMs_def insert_key_def find_key_def lower_bound_def put_key_def)
  then have r1: "nack_run 65534 {65534} ?s1 []" by (rule nack_run.first)
  have "NackOnReceivedPacket (seq16 65538) False False 50 ?s1 = (0, ?s2, [])"
    by (simp add: NackOnReceivedPacket_def AddPacketsToNack_def nack_consts lower_bound_def add_nacks.simps find_key_def put_key_def
        IsSeqNumLessThan_def SeqNumGT_def SeqNumGE_def maxDist_def GetNackBatch_def nack_due_def send_nack_delay_ms_def new_nack_info_def
        request_batch_def Let_def)
  from nack_run.receive [OF r1 _ _ _ this] have r2: "nack_run 65538 {65538, 65534} ?s2 []" by simp
  have "NackTimerTimeout 100 ?s2 = (\<lparr>nack_list = map (\<lambda>k. (k, \<lparr>ni_seq_num = k, send_at_seq_num = k, created_at_time = 50, sent_at_time = 100, retries = 1\<rparr>)) [65535, 0, 1],
      keyframe_list = [(65534, ())], recovered_list = [], initialized = True, rtt_ms = 100, newest_seq_num = 2\<rparr>, [RequestNack [65535, 0, 1]])"
    by (simp add: NackTimerTimeout_def GetNackBatch_def nack_due_def send_nack_delay_ms_def nack_consts request_batch_def Let_def)
  from nack_run.timeout [OF r2 this] show ?thesis by simp
qed

theorem nack_requests_missing_only_witness:
  "set [65535, 0, 1] \<subseteq> seq16 ` (window 65538 - {65538, 65534}) \<and> asked 65535 [(65538, {65538, 65534}, [65535, 0, 1])] \<le> 10"
  using nack_requests_missing_only [OF nack_run_example] by auto

text \<open>A packet beyond a gap: the gap is listed before the first batch is made.\<close>

lemma gap_listed:
  assumes f: "initialized s" "newest_seq_num s = seq16 N" "recovered_list s = []" and n: "N < n" "n \<le> N + 10000"
    and room: "length (nack_list s) + nat (n - (N + 1)) \<le> kMaxNackPackets"
    and arrive: "NackOnReceivedPacket (seq16 n) kf False now s = (r, s', ev)"
  shows "\<exists>s2 b. nack_list s2 = add_nacks now [] (seq16 (N + 1)) (seq16 n) (lower_bound IsSeqNumLessThan (seq16 (n - 10000)) (nack_list s))
    \<and> GetNackBatch kSeqNumOnly now s2 = (b, s') \<and> rtt_ms s2 = rtt_ms s"
proof -
  have ne: "seq16 n \<noteq> seq16 N" using seq16_inj [of n N] n by auto
  have gt: "\<not> SeqNumGT (seq16 N) (seq16 n)" using SeqNumGT_int [of N n] n by simp
  note num = gap_length [OF n]
  define kfs where "kfs = lower_bound IsSeqNumLessThan (seq16 (n - 10000)) (if kf then insert_key IsSeqNumLessThan (seq16 n) (keyframe_list s) else keyframe_list s)"
  have "\<not> length (lower_bound IsSeqNumLessThan (seq16 (n - 10000)) (nack_list s)) + nat (n - (N + 1)) > kMaxNackPackets"
    using room length_lower_bound [of IsSeqNumLessThan "seq16 (n - 10000)" "nack_list s"] by linarith
  then have "AddPacketsToNack (newest_seq_num (s\<lparr>keyframe_list := kfs\<rparr>) + 1) (seq16 n) now (s\<lparr>keyframe_list := kfs\<rparr>)
    = (s\<lparr>keyframe_list := kfs, nack_list := add_nacks now [] (seq16 N + 1) (seq16 n) (lower_bound IsSeqNumLessThan (seq16 (n - 10000)) (nack_list s))\<rparr>, [])"
    using f(2,3) unfolding AddPacketsToNack_def seq16_age by (simp add: num)
  moreover have "seq16 (N + 1) = seq16 N + 1" by simp
  moreover define s2 where "s2 = s\<lparr>keyframe_list := kfs, nack_list := add_nacks now [] (seq16 N + 1) (seq16 n)
      (lower_bound IsSeqNumLessThan (seq16 (n - 10000)) (nack_list s)), newest_seq_num := seq16 n\<rparr>"
  ultimately have "snd (GetNackBatch kSeqNumOnly now s2) = s'"
    using arrive f(1,2) ne gt unfolding NackOnReceivedPacket_def Let_def seq16_age kfs_def [symmetric]
    by (simp split: prod.splits)
  then show ?thesis
    by (intro exI [of _ s2] exI [of _ "fst (GetNackBatch kSeqNumOnly now s2)"]) (simp add: s2_def prod_eq_iff)
qed

text \<open>C30. A gap is asked for: when a packet arrives ahead of missing ones and there is room for them, the
  first timer tick that is ten milliseconds and a round trip time later asks for every one of them.\<close>

theorem nack_gap_requested:
  assumes run: "nack_run N R s as" and n: "N < n" "n \<le> N + 10000"
    and room: "length (nack_list s) + nat (n - (N + 1)) \<le> kMaxNackPackets"
    and arrive: "NackOnReceivedPacket (seq16 n) kf False now s = (r, s', ev)"
    and tick: "now + send_nack_delay_ms \<le> t" "rtt_ms s \<le> t + 1" "NackTimerTimeout t s' = (s'', ev')"
    and k: "N < k" "k < n"
  shows "\<exists>b. ev' = [RequestNack b] \<and> seq16 k \<in> set b"
proof -
  have ok: "nack_ok N R s" "asks_ok N (nack_list s) as" using nack_run_ok [OF run] by blast+
  have f: "initialized s" "newest_seq_num s = seq16 N" "R \<subseteq> {..N}" "missing_keys N R (nack_list s)" "recovered_list s = []"
    using ok(1) unfolding nack_ok_def by blast+
  obtain s2 b where s2: "nack_list s2 = add_nacks now [] (seq16 (N + 1)) (seq16 n) (lower_bound IsSeqNumLessThan (seq16 (n - 10000)) (nack_list s))"
    "GetNackBatch kSeqNumOnly now s2 = (b, s')" "rtt_ms s2 = rtt_ms s"
    using gap_listed [OF f(1,2,5) n room arrive] by blast
  let ?i = "new_nack_info (seq16 k) (seq16 k) now"
  have mk: "missing_keys n (insert n R) (nack_list s2)" and asks: "asks_ok n (nack_list s2) as"
    and "(\<lambda>j. (seq16 j, new_nack_info (seq16 j) (seq16 j) now)) ` {N + 1..<n} \<subseteq> set (nack_list s2)"
    using missing_added_ok [OF f(4) ok(2) f(3) n, of _ 0 now] unfolding s2(1) Let_def by simp_all
  then have "(seq16 k, ?i) \<in> set (nack_list s2)" using k by auto
  moreover have "\<not> nack_due kSeqNumOnly now s2 ?i"
    by (simp add: nack_due_def new_nack_info_def send_nack_delay_ms_def Let_def)
  ultimately have i: "(seq16 k, ?i) \<in> set (nack_list s')" by (rule GetNackBatch_set(2) [OF mk s2(2)])
  have mk': "missing_keys n (insert n R) (nack_list s')" and u: "s' = s2\<lparr>nack_list := nack_list s'\<rparr>"
    using GetNackBatch_ok [OF mk asks s2(2)] by blast+
  have "rtt_ms s' = rtt_ms (s2\<lparr>nack_list := nack_list s'\<rparr>)" using u by (rule arg_cong)
  also have "\<dots> = rtt_ms s" using s2(3) by simp
  finally have "rtt_ms s' = rtt_ms s" .
  then have "nack_due kTimeOnly t s' ?i" using tick(1,2) by (simp add: nack_due_def new_nack_info_def Let_def)
  moreover obtain b' where g: "GetNackBatch kTimeOnly t s' = (b', s'')" "ev' = request_batch b'"
    using tick(3) by (auto simp: NackTimerTimeout_def split: prod.splits)
  ultimately have "seq16 k \<in> set b'" using GetNackBatch_set(1) [OF mk' g(1)] i by blast
  then show ?thesis using g(2) by (auto simp: request_batch_def)
qed

theorem nack_gap_requested_witness:
  "\<exists>s r s' ev s'' ev' b. nack_run 65534 {65534} s [] \<and> NackOnReceivedPacket (seq16 65538) False False 50 s = (r, s', ev)
     \<and> NackTimerTimeout 100 s' = (s'', ev') \<and> ev' = [RequestNack b] \<and> seq16 65536 \<in> set b"
proof -
  let ?s = "\<lparr>nack_list = [], keyframe_list = [(65534, ())], recovered_list = [], initialized = True, rtt_ms = 100, newest_seq_num = 65534\<rparr>"
  have "NackOnReceivedPacket (seq16 65534) True False 40 new_requester = (0, ?s, [])"
    by (simp add: NackOnReceivedPacket_def new_requester_def kDefaultRttMs_def insert_key_def find_key_def lower_bound_def put_key_def)
  then have run: "nack_run 65534 {65534} ?s []" by (rule nack_run.first)
  obtain r s' ev where arrive: "NackOnReceivedPacket (seq16 65538) False False 50 ?s = (r, s', ev)" by (metis surj_pair)
  obtain s'' ev' where tick: "NackTimerTimeout 100 s' = (s'', ev')" by (metis surj_pair)
  have "\<exists>b. ev' = [RequestNack b] \<and> seq16 65536 \<in> set b"
    by (rule nack_gap_requested [OF run _ _ _ arrive _ _ tick]) (simp_all add: nack_consts send_nack_delay_ms_def)
  then show ?thesis using run arrive tick by blast
qed

end
