(* ===== verification/Rtcp_Nack.thy ===== *)
theory Rtcp_Nack
  imports Rtcp_Packet
begin

text \<open>
  The generic NACK packet of \<^verbatim>\<open>src/src/rtp_rtcp/rtcp_packet.cpp\<close> (\<open>NackPacket\<close>): lost sequence
  numbers are packed into a packet identifier and a bit mask of the sixteen packets that follow
  it. Packing followed by unpacking gives back the same set, and the same list when the numbers
  increase, as those of a nack list do.
\<close>

section \<open>Packing\<close>

record PackedNack =
  first_pid :: u16
  bitmask :: u16

record NackPacket = RtcpCommonFeedback +
  packet_lost_sequence_numbers :: "u16 list"

text \<open>The inner loop of \<open>NackPacket::Serialize\<close>: it extends the mask while the next number lies in
  the window and returns the numbers it has not looked at.\<close>

fun nack_fill :: "u16 \<Rightarrow> u16 \<Rightarrow> u16 list \<Rightarrow> u16 \<times> u16 list" where
  "nack_fill pid bm [] = (bm, [])"
| "nack_fill pid bm (x # xs) =
     (let shift = x - pid - 1
      in if shift \<le> 15 then nack_fill pid (bm OR push_bit (unat shift) 1) xs else (bm, x # xs))"

lemma nack_fill_length: "length (snd (nack_fill pid bm xs)) \<le> length xs"
  by (induction pid bm xs rule: nack_fill.induct) (auto simp: Let_def)

function nack_pack :: "u16 list \<Rightarrow> PackedNack list" where
  "nack_pack [] = []"
| "nack_pack (x # xs) = (let (bm, rest) = nack_fill x 0 xs
     in \<lparr>first_pid = x, bitmask = bm\<rparr> # nack_pack rest)"
  by pat_completeness auto
termination
proof (relation "measure length")
  fix x :: u16 and xs z bm rest
  assume "z = nack_fill x 0 xs" "(bm, rest) = z"
  then have "rest = snd (nack_fill x 0 xs)" by (metis snd_conv)
  then show "(rest, x # xs) \<in> measure length"
    using nack_fill_length [of x 0 xs] by (simp add: le_imp_less_Suc)
qed simp

text \<open>The inner loop of \<open>NackPacket::Parse\<close>.\<close>

function nack_bits :: "u16 \<Rightarrow> u16 \<Rightarrow> u16 list" where
  "nack_bits pid bm =
     (if bm = 0 then []
      else (if bm AND 1 \<noteq> 0 then [pid] else []) @ nack_bits (pid + 1) (drop_bit 1 bm))"
  by pat_completeness auto
termination
proof (relation "measure (\<lambda>(pid, bm). unat bm)")
  fix pid bm :: u16
  assume "bm \<noteq> 0"
  then have "0 < unat bm" by (simp add: unat_gt_0)
  then have "unat (drop_bit 1 bm) < unat bm"
    by (simp add: drop_bit_eq_div unat_div)
  then show "((pid + 1, drop_bit 1 bm), pid, bm) \<in> measure (\<lambda>(pid, bm). unat bm)" by simp
qed simp

declare nack_bits.simps [simp del]

definition nack_unpack_item :: "PackedNack \<Rightarrow> u16 list" where
  "nack_unpack_item i = first_pid i # nack_bits (first_pid i + 1) (bitmask i)"

lemma nack_bits_filter:
  "nack_bits pid bm = map (\<lambda>k. pid + of_nat k) (filter (bit bm) [0..<16])"
proof (induction pid bm rule: nack_bits.induct)
  case (1 pid bm)
  show ?case
  proof (cases "bm = 0")
    case False
    let ?m = "drop_bit 1 bm"
    have top: "\<not> bit ?m 15" by (auto simp: bit_simps dest: bit_imp_le_length)
    have up: "[0..<16] = 0 # map Suc [0..<15]" by (simp add: upt_rec)
    have "filter (bit bm) (map Suc [0..<15]) = map Suc (filter (bit ?m) [0..<15])"
      by (simp add: filter_map o_def bit_drop_bit_eq)
    also have "filter (bit ?m) [0..<15] = filter (bit ?m) [0..<16]"
      using top upt_Suc_append [of 0 15] by (simp del: upt_Suc)
    finally have "filter (bit bm) [0..<16]
        = (if bit bm 0 then [0] else []) @ map Suc (filter (bit ?m) [0..<16])"
      using up by simp
    moreover have "bm AND 1 \<noteq> 0 \<longleftrightarrow> bit bm 0" by (simp add: and_one_eq bit_0 odd_iff_mod_2_eq_one)
    ultimately show ?thesis
      using 1 [OF False] False by (subst nack_bits.simps) (simp add: o_def algebra_simps)
  qed (simp add: nack_bits.simps)
qed

lemma nack_fill_spec:
  assumes "nack_fill p m xs = (m', rest)"
  shows "\<exists>ys. xs = ys @ rest \<and> (\<forall>y\<in>set ys. unat (y - p - 1) \<le> 15)
    \<and> (\<forall>k<16. bit m' k \<longleftrightarrow> bit m k \<or> k \<in> (\<lambda>y. unat (y - p - 1)) ` set ys)"
  using assms
proof (induction p m xs rule: nack_fill.induct)
  case (2 p m x xs)
  let ?s = "x - p - 1"
  show ?case
  proof (cases "?s \<le> 15")
    case True
    then have le: "unat ?s \<le> 15" by (simp add: word_le_nat_alt)
    obtain ys where ys: "xs = ys @ rest" "\<forall>y\<in>set ys. unat (y - p - 1) \<le> 15"
      "\<forall>k<16. bit m' k \<longleftrightarrow> bit (m OR push_bit (unat ?s) 1) k \<or> k \<in> (\<lambda>y. unat (y - p - 1)) ` set ys"
      using 2 True by (auto simp: Let_def)
    have "bit (m OR push_bit (unat ?s) 1) k \<longleftrightarrow> bit m k \<or> k = unat ?s" if "k < 16" for k
      using that by (auto simp: bit_simps)
    then show ?thesis using ys le by (intro exI [of _ "x # ys"]) auto
  next
    case False
    then show ?thesis using 2 by (auto simp: Let_def)
  qed
qed auto

lemma nack_unpack_item_set:
  assumes "nack_fill p 0 xs = (m, rest)"
  shows "\<exists>ys. xs = ys @ rest \<and> (\<forall>y\<in>set ys. unat (y - p - 1) \<le> 15)
    \<and> filter (bit m) [0..<16] = filter (\<lambda>k. k \<in> (\<lambda>y. unat (y - p - 1)) ` set ys) [0..<16]
    \<and> set (nack_unpack_item \<lparr>first_pid = p, bitmask = m\<rparr>) = insert p (set ys)"
proof -
  obtain ys where ys: "xs = ys @ rest" "\<forall>y\<in>set ys. unat (y - p - 1) \<le> 15"
    "\<forall>k<16. bit m k \<longleftrightarrow> k \<in> (\<lambda>y. unat (y - p - 1)) ` set ys"
    using nack_fill_spec [OF assms] by auto
  have f: "filter (bit m) [0..<16] = filter (\<lambda>k. k \<in> (\<lambda>y. unat (y - p - 1)) ` set ys) [0..<16]"
    using ys(3) by (intro filter_cong) auto
  have inv: "p + 1 + of_nat (unat (y - p - 1)) = y" for y by simp
  have "set (filter (bit m) [0..<16]) = (\<lambda>y. unat (y - p - 1)) ` set ys"
    using ys(2) unfolding f by force
  then have "set (nack_bits (p + 1) m) = set ys"
    by (simp only: nack_bits_filter set_map image_image inv image_ident)
  then show ?thesis using ys(1,2) f by (auto simp: nack_unpack_item_def)
qed

lemma set_nack_unpack_pack: "set (concat (map nack_unpack_item (nack_pack xs))) = set xs"
proof (induction xs rule: nack_pack.induct)
  case (2 x xs)
  obtain m rest where f: "nack_fill x 0 xs = (m, rest)" by (cases "nack_fill x 0 xs")
  then obtain ys where "xs = ys @ rest" "set (nack_unpack_item \<lparr>first_pid = x, bitmask = m\<rparr>) = insert x (set ys)"
    using nack_unpack_item_set [OF f] by blast
  then show ?case using 2 [OF f [symmetric] refl] f by auto
qed simp

text \<open>On numbers that increase around the circle from some base, as a sorted nack list has them, the
  packed form loses nothing, not even the order.\<close>

lemma nack_unpack_pack_sorted:
  assumes "sorted_wrt (\<lambda>a b. seq_dist base a < seq_dist base b) xs"
  shows "concat (map nack_unpack_item (nack_pack xs)) = xs"
  using assms
proof (induction xs rule: nack_pack.induct)
  case (2 x xs)
  obtain m rest where f: "nack_fill x 0 xs = (m, rest)" by (cases "nack_fill x 0 xs")
  obtain ys where ys: "xs = ys @ rest" "\<forall>y\<in>set ys. unat (y - x - 1) \<le> 15"
    "filter (bit m) [0..<16] = filter (\<lambda>k. k \<in> (\<lambda>y. unat (y - x - 1)) ` set ys) [0..<16]"
    using nack_unpack_item_set [OF f] by blast
  let ?s = "\<lambda>y. unat (y - x - 1)"
  have shift: "?s y = seq_dist base y - seq_dist base x - 1" if "y \<in> set ys" for y
  proof -
    have lt: "seq_dist base x < seq_dist base y" using 2(2) ys(1) that by auto
    then have "seq_dist x y = seq_dist base y - seq_dist base x"
      using seq_dist_trans [of base y x] seq_dist_less [of base x] seq_dist_less [of x y]
      by (auto simp: mod_add_wrap split: if_splits)
    moreover have "?s y = seq_dist x y - 1"
    proof -
      have "y - x \<noteq> 0" using lt by auto
      then show ?thesis unfolding seq_dist_def by (rule unat_minus_one)
    qed
    ultimately show ?thesis by simp
  qed
  have srt: "sorted_wrt (<) (map ?s ys)"
    using 2(2) ys(1) unfolding sorted_wrt_map
    by (auto simp: sorted_wrt_append shift intro!: diff_less_mono Suc_leI
        elim!: sorted_wrt_mono_rel [rotated])
  have "sorted_wrt (<) (filter (bit m) [0..<16])"
    by (intro sorted_wrt_filter) simp
  moreover have "set (filter (bit m) [0..<16]) = set (map ?s ys)" using ys(2,3) by force
  ultimately have "filter (bit m) [0..<16] = map ?s ys"
    using srt by (metis strict_sorted_equal strict_sorted_iff)
  then have "nack_bits (x + 1) m = map (\<lambda>y. x + 1 + of_nat (?s y)) ys"
    by (simp add: nack_bits_filter o_def)
  also have "\<dots> = ys" by (simp add: map_idI)
  finally have "nack_unpack_item \<lparr>first_pid = x, bitmask = m\<rparr> = x # ys"
    by (simp add: nack_unpack_item_def)
  moreover have "concat (map nack_unpack_item (nack_pack rest)) = rest"
    using 2(1) [OF f [symmetric] refl] 2(2) ys(1) by (auto simp: sorted_wrt_append)
  ultimately show ?case using ys(1) f by simp
qed simp

lemma length_nack_pack: "length (nack_pack xs) \<le> length xs"
proof (induction xs rule: nack_pack.induct)
  case (2 x xs)
  obtain m rest where f: "nack_fill x 0 xs = (m, rest)" by (cases "nack_fill x 0 xs")
  then show ?case using 2 [OF f [symmetric] refl] nack_fill_length [of x 0 xs] by simp
qed simp

section \<open>The packet\<close>

definition kNackItemLength :: nat where "kNackItemLength = 4"

definition NackItemWrite :: "PackedNack \<Rightarrow> byte_writer \<Rightarrow> byte_writer" where
  "NackItemWrite i w = try_write (WriteUInt16 (bitmask i)) (try_write (WriteUInt16 (first_pid i)) w)"

definition NackSerialize :: "NackPacket \<Rightarrow> byte_writer \<Rightarrow> (NackPacket \<times> byte_writer) option" where
  "NackSerialize p w = do {
     let packed = nack_pack (packet_lost_sequence_numbers p);
     let p = p\<lparr>header := \<lparr>count_or_format = 1, padding = 0, version = 2, packet_type = 205,
                hdr_length = of_nat ((kHeaderLength + kCommonFeedbackLength
                                      + kNackItemLength * length packed) div 4 - 1)\<rparr>\<rparr>;
     (p, w) \<leftarrow> SerializeCommonHeader p w;
     w \<leftarrow> SerializeCommonFeedback p w;
     Some (p, fold NackItemWrite packed w) }"

definition NackSize :: "NackPacket \<Rightarrow> nat" where
  "NackSize p = kHeaderLength + kCommonFeedbackLength
     + length (packet_lost_sequence_numbers p) * kNackItemLength"

fun nack_items_loop :: "nat \<Rightarrow> u16 list \<Rightarrow> byte_reader \<Rightarrow> (u16 list \<times> byte_reader) option" where
  "nack_items_loop 0 lost r = Some (lost, r)"
| "nack_items_loop (Suc n) lost r = do {
     (pid, r) \<leftarrow> ReadUInt16 r;
     (blp, r) \<leftarrow> ReadUInt16 r;
     nack_items_loop n ((lost @ [pid]) @ nack_bits (pid + 1) blp) r }"

text \<open>The number of items is computed in \<open>size_t\<close>: a length field below two wraps around to an
  astronomic count.\<close>

definition nack_items :: "u16 \<Rightarrow> nat" where
  "nack_items len = unat ((of_nat (unat len * 4) - of_nat kCommonFeedbackLength :: u64) div of_nat kNackItemLength)"

definition NackParse :: "NackPacket \<Rightarrow> byte_reader \<Rightarrow> (NackPacket \<times> byte_reader) option" where
  "NackParse p r = do {
     (p, r) \<leftarrow> ParseCommonHeader p r;
     (p, r) \<leftarrow> ParseCommonFeedback p r;
     (lost, r) \<leftarrow> nack_items_loop (nack_items (hdr_length (header p))) (packet_lost_sequence_numbers p) r;
     Some (p\<lparr>packet_lost_sequence_numbers := lost\<rparr>, r) }"

definition enc_item :: "PackedNack \<Rightarrow> bytes" where
  "enc_item i = StoreUInt16BE (first_pid i) @ StoreUInt16BE (bitmask i)"

definition nack_header :: "nat \<Rightarrow> RtcpCommonHeader" where
  "nack_header n = \<lparr>count_or_format = 1, padding = 0, version = 2, packet_type = 205,
                    hdr_length = of_nat (n + 2)\<rparr>"

definition enc_nack :: "NackPacket \<Rightarrow> bytes" where
  "enc_nack p = (let items = nack_pack (packet_lost_sequence_numbers p)
     in enc_header (nack_header (length items)) @ enc_feedback p @ concat (map enc_item items))"

lemma length_enc_items: "length (concat (map enc_item is)) = 4 * length is"
  by (induction "is") (simp_all add: enc_item_def)

lemma length_enc_nack: "length (enc_nack p) = 12 + 4 * length (nack_pack (packet_lost_sequence_numbers p))"
  by (simp add: enc_nack_def Let_def length_enc_items)

lemma length_enc_nack_le: "length (enc_nack p) \<le> NackSize p"
  using length_nack_pack [of "packet_lost_sequence_numbers p"]
  by (simp add: length_enc_nack NackSize_def kHeaderLength_def kCommonFeedbackLength_def kNackItemLength_def)

lemma fold_NackItemWrite:
  "writer_ok w \<Longrightarrow> 4 * length is \<le> WriterLeft w \<Longrightarrow> fold NackItemWrite is w = put w (concat (map enc_item is))"
proof (induction "is" arbitrary: w)
  case (Cons i "is")
  have "NackItemWrite i w = put w (enc_item i)"
    using Cons.prems by (simp add: NackItemWrite_def try_write_def writer_defs writer_ok_put put_put enc_item_def)
  moreover have "length (enc_item i) = 4" by (simp add: enc_item_def)
  ultimately show ?case
    using Cons length_enc_items [of "is"] by (simp add: writer_ok_put put_put)
qed simp

lemma NackSerialize_enc:
  assumes "writer_ok w" "NackSize p \<le> WriterLeft w"
  shows "map_option snd (NackSerialize p w) = Some (put w (enc_nack p))"
proof -
  let ?is = "nack_pack (packet_lost_sequence_numbers p)"
  have l: "(12 + 4 * n) div 4 - Suc 0 = n + 2" for n :: nat by simp
  have "12 + 4 * length ?is \<le> WriterLeft w"
    using length_enc_nack_le [of p] assms(2) by (simp add: length_enc_nack)
  then show ?thesis
    using assms(1) length_enc_items [of ?is]
    by (simp add: NackSerialize_def Let_def SerializeCommonHeader_enc SerializeCommonFeedback_enc
      writer_ok_put put_put kHeaderLength_def kCommonFeedbackLength_def kNackItemLength_def l
      nack_header_def fold_NackItemWrite enc_nack_def enc_feedback_def)
qed

lemma nack_items_loop_enc:
  "reader_ok r \<Longrightarrow> CurrentData r = concat (map enc_item is) @ bs \<Longrightarrow>
   nack_items_loop (length is) lost r =
     Some (lost @ concat (map nack_unpack_item is), skip r (4 * length is))"
proof (induction "is" arbitrary: lost r)
  case (Cons i "is")
  have "ReadUInt16 r = Some (first_pid i, skip r 2)"
    "ReadUInt16 (skip r 2) = Some (bitmask i, skip r 4)"
    using Cons.prems by (simp_all add: reader_step reader_ok_skip enc_item_def)
  moreover have "nack_items_loop (length is) (lost @ nack_unpack_item i) (skip r 4)
    = Some ((lost @ nack_unpack_item i) @ concat (map nack_unpack_item is), skip (skip r 4) (4 * length is))"
    using Cons.prems by (intro Cons.IH) (simp_all add: reader_ok_skip enc_item_def)
  ultimately show ?case by (simp add: nack_unpack_item_def [of i])
qed simp

lemma nack_items_exact: "2 \<le> unat len \<Longrightarrow> nack_items len = unat len - 2"
proof -
  assume len: "2 \<le> unat len"
  have "unat len < 65536" using unsigned_less [of len, where ?'a = nat] by simp
  then have "unat (of_nat (unat len * 4) :: u64) = unat len * 4"
    by (intro unat_of_nat_small) simp
  then have "unat (of_nat (unat len * 4) - 8 :: u64) = unat len * 4 - 8"
    using len by (subst unat_sub) (auto simp: word_le_nat_alt)
  then show ?thesis
    by (simp only: nack_items_def kCommonFeedbackLength_def kNackItemLength_def of_nat_numeral unat_div)
      simp
qed

lemma nack_items_wraps: "unat len < 2 \<Longrightarrow> 4611686018427387902 \<le> nack_items len"
proof -
  assume "unat len < 2"
  then have "unat len = unat (0 :: u16) \<or> unat len = unat (1 :: u16)" by auto
  then have "len = 0 \<or> len = 1" by (simp only: word_unat_eq_iff)
  then show ?thesis
    by (auto simp: nack_items_def kCommonFeedbackLength_def kNackItemLength_def unat_div)
qed

lemma nack_items_loop_moved:
  "reader_ok r \<Longrightarrow> nack_items_loop n lost r = Some (lost', r') \<Longrightarrow> moved (4 * n) r r'"
proof (induction n arbitrary: lost r)
  case 0
  then show ?case by (simp add: moved_def)
next
  case (Suc n)
  then have l: "4 \<le> length (CurrentData r)"
    by (auto simp: reader_step reader_ok_skip split: if_splits)
  moreover have "\<exists>lost2. nack_items_loop n lost2 (skip r 4) = Some (lost', r')"
  proof -
    have "\<not> length (CurrentData r) - 2 < 2" "\<not> length (CurrentData r) < 2" using l by linarith+
    then show ?thesis using Suc.prems l by (auto simp: reader_step reader_ok_skip)
  qed
  ultimately have "moved 4 r (skip r 4)" "moved (4 * n) (skip r 4) r'"
    using Suc.prems(1) Suc.IH [of "skip r 4"] by (auto simp: reader_ok_skip moved_skip)
  from moved_trans [OF this] show ?case by simp
qed

lemma NackParse_moved:
  assumes "reader_ok r" "NackParse p r = Some (p', r')"
  shows "moved (12 + 4 * nack_items (hdr_length (header p'))) r r'"
proof -
  from assms(2) obtain q s q2 s2 lost where *: "ParseCommonHeader p r = Some (q, s)"
    "ParseCommonFeedback q s = Some (q2, s2)"
    "nack_items_loop (nack_items (hdr_length (header q2))) (packet_lost_sequence_numbers q2) s2 = Some (lost, r')"
    "p' = q2\<lparr>packet_lost_sequence_numbers := lost\<rparr>"
    by (auto simp: NackParse_def Option.bind_eq_Some_conv)
  have m1: "moved 4 r s" using assms(1) *(1) by (rule ParseCommonHeader_moved)
  have m2: "moved 8 s s2" using ParseCommonFeedback_moved [OF moved_ok [OF m1] *(2)] by simp
  have m3: "moved (4 * nack_items (hdr_length (header q2))) s2 r'"
    using nack_items_loop_moved [OF moved_ok [OF m2] *(3)] .
  from moved_trans [OF moved_trans [OF m1 m2] m3] show ?thesis by (simp add: *(4))
qed

lemma NackParse_enc:
  assumes "reader_ok r" "CurrentData r = enc_nack p @ bs"
    and "length (packet_lost_sequence_numbers p) \<le> 65533" "packet_lost_sequence_numbers q = []"
  shows "\<exists>q'. NackParse q r = Some (q', skip r (length (enc_nack p)))
    \<and> packet_lost_sequence_numbers q'
       = concat (map nack_unpack_item (nack_pack (packet_lost_sequence_numbers p)))
    \<and> sender_ssrc q' = sender_ssrc p \<and> media_ssrc q' = media_ssrc p"
proof -
  let ?is = "nack_pack (packet_lost_sequence_numbers p)"
  have n: "nack_items (of_nat (length ?is + 2)) = length ?is"
  proof -
    have "unat (of_nat (length ?is + 2) :: u16) = length ?is + 2"
      using length_nack_pack [of "packet_lost_sequence_numbers p"] assms(3)
      by (intro unat_of_nat_small) simp
    then show ?thesis by (simp only: nack_items_exact)
  qed
  have h: "ParseCommonHeader q r = Some (q\<lparr>header := nack_header (length ?is)\<rparr>, skip r 4)"
    using assms(1,2) by (simp add: ParseCommonHeader_enc enc_nack_def Let_def)
  have f: "ParseCommonFeedback x (skip r 4)
      = Some (x\<lparr>sender_ssrc := sender_ssrc p, media_ssrc := media_ssrc p\<rparr>, skip r 12)" for x :: NackPacket
    using assms(1,2) ParseCommonFeedback_enc [of "skip r 4" p _ x]
    by (simp add: reader_ok_skip enc_nack_def Let_def)
  have "nack_items_loop (length ?is) [] (skip r 12)
      = Some ([] @ concat (map nack_unpack_item ?is), skip (skip r 12) (4 * length ?is))"
    using assms(1,2) by (intro nack_items_loop_enc) (simp_all add: reader_ok_skip enc_nack_def Let_def)
  then show ?thesis
    using h f n assms(4) by (simp add: NackParse_def nack_header_def length_enc_nack)
qed

text \<open>A NACK sent and received again: for lost sequence numbers that increase around the circle,
  as the nack list keeps them, serialising into a large enough buffer and parsing what was written
  returns the very list and both sources, and consumes exactly what was written.\<close>

lemma nack_roundtrip:
  assumes "sorted_wrt (\<lambda>a b. seq_dist base a < seq_dist base b) (packet_lost_sequence_numbers p)"
    and "length (packet_lost_sequence_numbers p) \<le> 65533" "NackSize p \<le> sz" "sz \<le> length buf"
    and "packet_lost_sequence_numbers q = []"
  shows "\<exists>p' w' q' r'. NackSerialize p (ByteWriter buf sz) = Some (p', w')
    \<and> NackParse q (ByteReader (written w')) = Some (q', r') \<and> ReaderLeft r' = 0
    \<and> packet_lost_sequence_numbers q' = packet_lost_sequence_numbers p
    \<and> sender_ssrc q' = sender_ssrc p \<and> media_ssrc q' = media_ssrc p"
proof -
  let ?w = "ByteWriter buf sz"
  have w: "writer_ok ?w" "NackSize p \<le> WriterLeft ?w" using assms(3,4) by simp_all
  then obtain p' where p': "NackSerialize p ?w = Some (p', put ?w (enc_nack p))"
    using NackSerialize_enc [OF w] by (cases "NackSerialize p ?w") auto
  have wr: "written (put ?w (enc_nack p)) = enc_nack p"
    using w length_enc_nack_le [of p] by (simp add: written_put)
  obtain q' where "NackParse q (ByteReader (enc_nack p)) = Some (q', skip (ByteReader (enc_nack p)) (length (enc_nack p)))"
    "packet_lost_sequence_numbers q' = packet_lost_sequence_numbers p"
    "sender_ssrc q' = sender_ssrc p" "media_ssrc q' = media_ssrc p"
    using NackParse_enc [of "ByteReader (enc_nack p)" p "[]" q] assms(2,5)
      nack_unpack_pack_sorted [OF assms(1)] by auto
  then show ?thesis using p' wr by (auto simp: ReaderLeft_def ByteReader_def)
qed

lemma nack_roundtrip_witness:
  fixes h :: RtcpCommonHeader
  defines "h \<equiv> \<lparr>count_or_format = 0, padding = 0, version = 0, packet_type = 0, hdr_length = 0\<rparr>"
  shows "\<exists>p' w' q' r'. NackSerialize \<lparr>header = h, sender_ssrc = 1, media_ssrc = 2,
        packet_lost_sequence_numbers = [65530, 65535, 3, 40]\<rparr> (ByteWriter (replicate 100 0) 100) = Some (p', w')
    \<and> NackParse \<lparr>header = h, sender_ssrc = 0, media_ssrc = 0, packet_lost_sequence_numbers = []\<rparr>
        (ByteReader (written w')) = Some (q', r') \<and> ReaderLeft r' = 0
    \<and> packet_lost_sequence_numbers q' = [65530, 65535, 3, 40] \<and> sender_ssrc q' = 1 \<and> media_ssrc q' = 2"
  using nack_roundtrip [of 65000 "\<lparr>header = h, sender_ssrc = 1, media_ssrc = 2,
      packet_lost_sequence_numbers = [65530, 65535, 3, 40]\<rparr>" 100 "replicate 100 0"
      "\<lparr>header = h, sender_ssrc = 0, media_ssrc = 0, packet_lost_sequence_numbers = []\<rparr>"]
  by (simp add: seq_dist_def NackSize_def kHeaderLength_def kCommonFeedbackLength_def kNackItemLength_def)

text \<open>A NACK whose length field is too small for the feedback header is refused, although the item
  count underflows: the reader runs dry before the loop ends.\<close>

lemma nack_short_length_refused:
  assumes "length data < 2 ^ 62" "\<forall>q r. ParseCommonHeader p (ByteReader data) = Some (q, r) \<longrightarrow> unat (hdr_length (header q)) < 2"
  shows "NackParse p (ByteReader data) = None"
proof (rule ccontr)
  assume "NackParse p (ByteReader data) \<noteq> None"
  then obtain p' r' where n: "NackParse p (ByteReader data) = Some (p', r')" by auto
  then obtain q s where q: "ParseCommonHeader p (ByteReader data) = Some (q, s)" "header p' = header q"
    using ParseCommonFeedback_moved moved_ok [OF ParseCommonHeader_moved [OF ByteReader_ok(1)]]
    by (fastforce simp: NackParse_def Option.bind_eq_Some_conv)
  have "unat (hdr_length (header p')) < 2" using assms(2) q by auto
  then have "4611686018427387902 \<le> nack_items (hdr_length (header p'))" by (rule nack_items_wraps)
  moreover have "length data = 12 + 4 * nack_items (hdr_length (header p')) + length (CurrentData r')"
    using moved_left [OF NackParse_moved [OF _ n]] by simp
  ultimately show False using assms(1) by simp
qed

lemma nack_short_length_refused_witness:
  fixes h :: RtcpCommonHeader
  defines "h \<equiv> \<lparr>count_or_format = 0, padding = 0, version = 0, packet_type = 0, hdr_length = 0\<rparr>"
  shows "NackParse \<lparr>header = h, sender_ssrc = 0, media_ssrc = 0, packet_lost_sequence_numbers = []\<rparr>
    (ByteReader (0x81 # 205 # 0 # 1 # replicate 40 7)) = None"
  by (rule nack_short_length_refused)
    (auto simp: ParseCommonHeader_def reader_step header_of_memory_def htons_def)

end
