(* ===== verification/Rtcp_Xr.thy ===== *)
theory Rtcp_Xr
  imports Rtcp_Packet Base_Utils
begin

text \<open>
  RTCP extended reports of \<^verbatim>\<open>src/src/rtp_rtcp/rtcp_packet.{h,cpp}\<close> (\<open>RrtrBlockContext\<close>,
  \<open>DlrrBlockContext\<close>, \<open>XrPacket\<close>). The loop over the report blocks is modelled with the
  comparison of a signed length with a \<open>size_t\<close> that the code makes, and with the inverted test
  for unknown blocks; it ends because every iteration reads a block header.
\<close>

section \<open>Report blocks\<close>

record RrtrBlockContext =
  rrtr_ntp :: "NtpTime option"

definition RrtrParse :: "byte_reader \<Rightarrow> (RrtrBlockContext \<times> byte_reader) option" where
  "RrtrParse r = do {
     (seconds, r) \<leftarrow> ReadUInt32 r;
     (fraction, r) \<leftarrow> ReadUInt32 r;
     Some (\<lparr>rrtr_ntp = Some \<lparr>ntp_sec = seconds, ntp_frac = fraction\<rparr>\<rparr>, r) }"

definition RrtrSerialize :: "RrtrBlockContext \<Rightarrow> byte_writer \<Rightarrow> byte_writer option" where
  "RrtrSerialize b w = (case rrtr_ntp b of
     None \<Rightarrow> None
   | Some t \<Rightarrow> do { w \<leftarrow> WriteUInt32 (ntp_sec t) w; WriteUInt32 (ntp_frac t) w })"

definition RrtrSizeIn32bits :: "RrtrBlockContext \<Rightarrow> u16" where
  "RrtrSizeIn32bits b = of_nat (8 div 4)"

definition RrtrSize :: "RrtrBlockContext \<Rightarrow> nat" where
  "RrtrSize b = 8"

record ReceiveTimeInfo =
  rti_ssrc :: u32
  last_rr :: u32
  delay_since_last_rr :: u32

definition TimeInfoParse :: "byte_reader \<Rightarrow> (ReceiveTimeInfo \<times> byte_reader) option" where
  "TimeInfoParse r = do {
     (ssrc, r) \<leftarrow> ReadUInt32 r;
     (lrr, r) \<leftarrow> ReadUInt32 r;
     (dlrr, r) \<leftarrow> ReadUInt32 r;
     Some (\<lparr>rti_ssrc = ssrc, last_rr = lrr, delay_since_last_rr = dlrr\<rparr>, r) }"

definition TimeInfoSerialize :: "ReceiveTimeInfo \<Rightarrow> byte_writer \<Rightarrow> byte_writer option" where
  "TimeInfoSerialize b w = do {
     w \<leftarrow> WriteUInt32 (rti_ssrc b) w;
     w \<leftarrow> WriteUInt32 (last_rr b) w;
     WriteUInt32 (delay_since_last_rr b) w }"

record DlrrBlockContext =
  sub_blocks :: "ReceiveTimeInfo list"

definition AddDlrrItem :: "ReceiveTimeInfo \<Rightarrow> DlrrBlockContext \<Rightarrow> DlrrBlockContext" where
  "AddDlrrItem i b = b\<lparr>sub_blocks := sub_blocks b @ [i]\<rparr>"

definition DlrrParse :: "u16 \<Rightarrow> byte_reader \<Rightarrow> (DlrrBlockContext \<times> byte_reader) option" where
  "DlrrParse block_length r =
     (if unat block_length mod 3 \<noteq> 0 then None
      else do {
        (infos, r) \<leftarrow> read_n TimeInfoParse (unat block_length div 3) r;
        Some (\<lparr>sub_blocks = infos\<rparr>, r) })"

definition DlrrSerialize :: "DlrrBlockContext \<Rightarrow> byte_writer \<Rightarrow> byte_writer option" where
  "DlrrSerialize b w = write_all TimeInfoSerialize (sub_blocks b) w"

definition DlrrSizeIn32bits :: "DlrrBlockContext \<Rightarrow> u16" where
  "DlrrSizeIn32bits b = of_nat (12 * length (sub_blocks b) div 4)"

definition DlrrSize :: "DlrrBlockContext \<Rightarrow> nat" where
  "DlrrSize b = 12 * length (sub_blocks b)"

definition enc_info :: "ReceiveTimeInfo \<Rightarrow> bytes" where
  "enc_info b = StoreUInt32BE (rti_ssrc b) @ StoreUInt32BE (last_rr b) @ StoreUInt32BE (delay_since_last_rr b)"

interpretation info_codec: fixed_codec enc_info TimeInfoParse TimeInfoSerialize "\<lambda>_. True" 12
  by unfold_locales
    (auto simp: TimeInfoParse_def TimeInfoSerialize_def enc_info_def codec_prims put_put writer_ok_put
      reader_ok_skip split: if_splits intro!: moved_skip)

section \<open>The packet\<close>

record XrPacket = RtcpPacket +
  rrtr_block_context :: "RrtrBlockContext option"
  dlrr_block_context :: "DlrrBlockContext option"

text \<open>One iteration of the block loop: the packet, the block length read and the reader. For an unknown
  block type the code returns false when the block could be skipped, and otherwise goes on without
  skipping it.\<close>

definition XrParseBlock :: "XrPacket \<Rightarrow> byte_reader \<Rightarrow> (XrPacket \<times> u16 \<times> byte_reader) option" where
  "XrParseBlock p r = do {
     (block_type, r) \<leftarrow> ReadUInt8 r;
     r \<leftarrow> ReaderConsume 1 r;
     (block_length, r) \<leftarrow> ReadUInt16 r;
     (if block_type = 4 then do {
        (rrtr, r) \<leftarrow> RrtrParse r;
        Some (p\<lparr>rrtr_block_context := Some rrtr\<rparr>, block_length, r) }
      else if block_type = 5 then do {
        (dlrr, r) \<leftarrow> DlrrParse block_length r;
        Some (p\<lparr>dlrr_block_context := Some dlrr\<rparr>, block_length, r) }
      else (case ReaderConsume (unat block_length * 4) r of
              Some r' \<Rightarrow> None
            | None \<Rightarrow> Some (p, block_length, r))) }"

definition advanced :: "byte_reader \<Rightarrow> byte_reader \<Rightarrow> bool" where
  "advanced r r' \<longleftrightarrow> br_end r' = br_end r \<and> br_start r \<le> br_start r'"

lemma advanced_trans: "advanced r s \<Longrightarrow> advanced s t \<Longrightarrow> advanced r t"
  by (simp add: advanced_def)

lemma read_advanced:
  "ReadUInt32 r = Some (x, r') \<Longrightarrow> advanced r r'"
  "ReadUInt16 r = Some (y, r') \<Longrightarrow> advanced r r'"
  "ReaderConsume n r = Some r' \<Longrightarrow> advanced r r'"
  "ReadUInt8 r = Some (z, r') \<Longrightarrow> advanced r r' \<and> ReaderLeft r' < ReaderLeft r"
  by (auto simp: ReadUInt32_def ReadUInt16_def ReadUInt8_def ReaderConsume_def advanced_def ReaderLeft_def
      split: if_splits)

lemma TimeInfoParse_advanced: "TimeInfoParse r = Some (x, r') \<Longrightarrow> advanced r r'"
  by (auto simp: TimeInfoParse_def Option.bind_eq_Some_conv dest!: read_advanced intro: advanced_trans)

lemma read_n_advanced:
  "read_n TimeInfoParse n r = Some (xs, r') \<Longrightarrow> advanced r r'"
proof (induction n arbitrary: r xs)
  case (Suc n)
  then show ?case
    by (fastforce simp: Option.bind_eq_Some_conv dest: TimeInfoParse_advanced intro: advanced_trans)
qed (simp add: advanced_def)

lemma XrParseBlock_progress:
  assumes "XrParseBlock p r = Some (p', len, r')"
  shows "ReaderLeft r' < ReaderLeft r"
proof -
  obtain ty r1 r2 bl r3 where s: "ReadUInt8 r = Some (ty, r1)" "ReaderConsume 1 r1 = Some r2"
    "ReadUInt16 r2 = Some (bl, r3)"
    and f: "(if ty = 4 then do {
        (rrtr, r) \<leftarrow> RrtrParse r3;
        Some (p\<lparr>rrtr_block_context := Some rrtr\<rparr>, bl, r) }
      else if ty = 5 then do {
        (dlrr, r) \<leftarrow> DlrrParse bl r3;
        Some (p\<lparr>dlrr_block_context := Some dlrr\<rparr>, bl, r) }
      else (case ReaderConsume (unat bl * 4) r3 of
              Some r' \<Rightarrow> None
            | None \<Rightarrow> Some (p, bl, r3))) = Some (p', len, r')"
    using assms unfolding XrParseBlock_def
    by (auto simp only: Option.bind_eq_Some_conv split_paired_Ex prod.case split del: if_split)
  have tail: "advanced r3 r'"
  proof -
    consider "ty = 4" | "ty = 5" | "ty \<noteq> 4" "ty \<noteq> 5" by blast
    then show ?thesis
    proof cases
      case 1
      then show ?thesis using f
        by (auto simp: RrtrParse_def Option.bind_eq_Some_conv dest!: read_advanced intro: advanced_trans)
    next
      case 2
      then show ?thesis using f
        by (auto simp: DlrrParse_def Option.bind_eq_Some_conv dest!: read_n_advanced split: if_splits)
    next
      case 3
      then show ?thesis using f by (auto simp: advanced_def split: option.splits)
    qed
  qed
  have "advanced r1 r'" using s tail by (blast dest: read_advanced intro: advanced_trans)
  then have "ReaderLeft r' \<le> ReaderLeft r1" by (auto simp: advanced_def ReaderLeft_def intro: diff_le_mono2)
  then show ?thesis using read_advanced(4) [OF s(1)] by linarith
qed

text \<open>The length that is left is an \<open>int\<close> compared with a \<open>size_t\<close>: a negative value counts as large.\<close>

function XrLoop :: "int \<Rightarrow> XrPacket \<Rightarrow> byte_reader \<Rightarrow> (XrPacket \<times> byte_reader) option" where
  "XrLoop payload_len p r =
     (if payload_len < 0 \<or> 4 \<le> payload_len then
        case XrParseBlock p r of
          None \<Rightarrow> None
        | Some (p, block_length, r) \<Rightarrow> XrLoop (payload_len - (uint block_length + 1) * 4) p r
      else Some (p, r))"
  by pat_completeness auto
termination
  by (relation "measure (\<lambda>(n, p, r). ReaderLeft r)") (auto dest: XrParseBlock_progress)

declare XrLoop.simps [simp del]

definition XrParse :: "XrPacket \<Rightarrow> byte_reader \<Rightarrow> (XrPacket \<times> byte_reader) option" where
  "XrParse p r = do {
     (p, r) \<leftarrow> ParseCommonHeader p r;
     (ssrc, r) \<leftarrow> ReadUInt32 r;
     let payload_len = uint (hdr_length (header p)) * 4 - 4;
     XrLoop payload_len (p\<lparr>sender_ssrc := ssrc\<rparr>) r }"

text \<open>\<open>Serialize\<close> adds to whatever \<open>header_.length\<close> held, never sets \<open>count_or_format\<close>, and steps over
  the reserved byte of a block without writing it.\<close>

definition XrWriteBlock :: "u8 \<Rightarrow> u16 \<Rightarrow> byte_writer \<Rightarrow> byte_writer option" where
  "XrWriteBlock ty len w = do {
     w \<leftarrow> WriteUInt8 ty w;
     w \<leftarrow> WriterConsume 1 w;
     WriteUInt16 len w }"

definition XrSerialize :: "XrPacket \<Rightarrow> byte_writer \<Rightarrow> (XrPacket \<times> byte_writer) option" where
  "XrSerialize p w = do {
     let len = hdr_length (header p);
     let len = (case rrtr_block_context p of None \<Rightarrow> len | Some b \<Rightarrow> len + (RrtrSizeIn32bits b + 1 + 1));
     let len = (case dlrr_block_context p of None \<Rightarrow> len | Some b \<Rightarrow> len + (DlrrSizeIn32bits b + 1 + 1));
     let p = p\<lparr>header := (header p)\<lparr>hdr_length := len, packet_type := 207, version := 2, padding := 0\<rparr>\<rparr>;
     (p, w) \<leftarrow> SerializeCommonHeader p w;
     w \<leftarrow> WriteUInt32 (sender_ssrc p) w;
     w \<leftarrow> (case rrtr_block_context p of None \<Rightarrow> Some w
           | Some b \<Rightarrow> do { w \<leftarrow> XrWriteBlock 4 (RrtrSizeIn32bits b) w; RrtrSerialize b w });
     w \<leftarrow> (case dlrr_block_context p of None \<Rightarrow> Some w
           | Some b \<Rightarrow> do { w \<leftarrow> XrWriteBlock 5 (DlrrSizeIn32bits b) w; DlrrSerialize b w });
     Some (p, w) }"

definition SetRrtr :: "RrtrBlockContext \<Rightarrow> XrPacket \<Rightarrow> XrPacket" where
  "SetRrtr b p = p\<lparr>rrtr_block_context := Some b\<rparr>"

definition SetDlrr :: "DlrrBlockContext \<Rightarrow> XrPacket \<Rightarrow> XrPacket" where
  "SetDlrr b p = p\<lparr>dlrr_block_context := Some b\<rparr>"

definition XrSize :: "XrPacket \<Rightarrow> nat" where
  "XrSize p = kHeaderLength + 4
     + (case dlrr_block_context p of None \<Rightarrow> 0 | Some b \<Rightarrow> DlrrSize b + 4)
     + (case rrtr_block_context p of None \<Rightarrow> 0 | Some b \<Rightarrow> RrtrSize b + 4)"

section \<open>What is written\<close>

text \<open>The reserved byte keeps what the buffer held.\<close>

lemma WriterConsume_put:
  assumes "writer_ok w" "1 \<le> WriterLeft w"
  shows "WriterConsume 1 w = Some (put w [bw_bytes w ! bw_len w])"
proof -
  have "bw_len w < length (bw_bytes w)" using writer_fits(1) [OF assms] by simp
  then have "overwrite (bw_bytes w) (bw_len w) [bw_bytes w ! bw_len w] = bw_bytes w"
    by (simp add: overwrite_def id_take_nth_drop [symmetric])
  then show ?thesis using assms(2) by (simp add: WriterConsume_def put_def)
qed

lemma XrWriteBlock_put:
  assumes "writer_ok w" "4 \<le> WriterLeft w"
  shows "\<exists>x. XrWriteBlock ty len w = Some (put w ([ty, x] @ StoreUInt16BE len))"
  using assms
  by (intro exI [of _ "bw_bytes (put w [ty]) ! Suc (bw_len w)"])
    (auto simp: XrWriteBlock_def writer_defs WriterConsume_put writer_ok_put put_put StoreUInt8BE_def)

lemma DlrrSerialize_put:
  assumes "writer_ok w" "DlrrSize b \<le> WriterLeft w"
  shows "DlrrSerialize b w = Some (put w (concat (map enc_info (sub_blocks b))))"
  using assms info_codec.write_all_enc [of w "sub_blocks b"]
  by (simp add: DlrrSerialize_def DlrrSize_def info_codec.length_concat_enc)

lemma RrtrSerialize_put:
  assumes "writer_ok w" "8 \<le> WriterLeft w" "rrtr_ntp b = Some t"
  shows "RrtrSerialize b w = Some (put w (StoreUInt32BE (ntp_sec t) @ StoreUInt32BE (ntp_frac t)))"
  using assms by (simp add: RrtrSerialize_def writer_defs writer_ok_put put_put)

text \<open>Blocks as parsed and written.\<close>

definition enc_rrtr :: "u8 \<Rightarrow> NtpTime \<Rightarrow> bytes" where
  "enc_rrtr x t = [4, x] @ StoreUInt16BE 2 @ StoreUInt32BE (ntp_sec t) @ StoreUInt32BE (ntp_frac t)"

definition enc_dlrr :: "u8 \<Rightarrow> DlrrBlockContext \<Rightarrow> bytes" where
  "enc_dlrr x b = [5, x] @ StoreUInt16BE (DlrrSizeIn32bits b) @ concat (map enc_info (sub_blocks b))"

lemma ReadUInt8_Cons: "reader_ok r \<Longrightarrow> CurrentData r = x # bs \<Longrightarrow> ReadUInt8 r = Some (x, skip r 1)"
  by (simp add: reader_step LoadUInt8BE_def)

lemma XrParseBlock_rrtr:
  assumes "reader_ok r" "CurrentData r = enc_rrtr x t @ bs"
  shows "XrParseBlock p r = Some (p\<lparr>rrtr_block_context := Some \<lparr>rrtr_ntp = Some t\<rparr>\<rparr>, 2, skip r 12)"
  using assms
  by (simp add: XrParseBlock_def ReadUInt8_Cons reader_step reader_ok_skip enc_rrtr_def RrtrParse_def)

lemma XrParseBlock_dlrr:
  assumes "reader_ok r" "CurrentData r = enc_dlrr x b @ bs" "3 * length (sub_blocks b) < 65536"
  shows "XrParseBlock p r = Some (p\<lparr>dlrr_block_context := Some b\<rparr>, DlrrSizeIn32bits b, skip r (4 + DlrrSize b))"
proof -
  have n: "unat (DlrrSizeIn32bits b) = 3 * length (sub_blocks b)"
    using assms(3) unat_of_nat_small [of "3 * length (sub_blocks b)", where ?'a = 16]
    by (simp add: DlrrSizeIn32bits_def)
  have r1: "ReadUInt8 r = Some (5, skip r 1)" "ReaderConsume 1 (skip r 1) = Some (skip r 2)"
    "ReadUInt16 (skip r 2) = Some (DlrrSizeIn32bits b, skip r 4)"
    using assms(1,2) by (simp_all add: ReadUInt8_Cons reader_step reader_ok_skip enc_dlrr_def)
  have "read_n TimeInfoParse (length (sub_blocks b)) (skip r 4)
      = Some (sub_blocks b, skip (skip r 4) (length (concat (map enc_info (sub_blocks b)))))"
    using assms(1,2) by (intro info_codec.read_n_enc) (simp_all add: reader_ok_skip enc_dlrr_def)
  then show ?thesis
    using r1 n by (simp add: XrParseBlock_def DlrrParse_def info_codec.length_concat_enc DlrrSize_def)
qed

definition xr_header :: "5 word \<Rightarrow> nat \<Rightarrow> RtcpCommonHeader" where
  "xr_header c len = \<lparr>count_or_format = c, padding = 0, version = 2, packet_type = 207, hdr_length = of_nat len\<rparr>"

lemma XrSerialize_rrtr:
  assumes "writer_ok w" "20 \<le> WriterLeft w" "rrtr_block_context p = Some \<lparr>rrtr_ntp = Some t\<rparr>"
    and "dlrr_block_context p = None" "hdr_length (header p) = 0"
  shows "\<exists>x. map_option snd (XrSerialize p w) = Some (put w (enc_header (xr_header (count_or_format (header p)) 4)
      @ StoreUInt32BE (sender_ssrc p) @ enc_rrtr x t))"
proof -
  let ?u = "put w (enc_header (xr_header (count_or_format (header p)) 4) @ StoreUInt32BE (sender_ssrc p))"
  have "writer_ok ?u" "WriterLeft ?u = WriterLeft w - 8" using assms(1,2) by (simp_all add: writer_ok_put)
  moreover have "4 \<le> WriterLeft w - 8" using assms(2) by linarith
  ultimately obtain x where x: "XrWriteBlock 4 2 ?u = Some (put ?u ([4, x] @ StoreUInt16BE 2))"
    using XrWriteBlock_put [of ?u 4 2] by auto
  have h: "(header p)\<lparr>hdr_length := 4, packet_type := 207, version := 2, padding := 0\<rparr>
      = xr_header (count_or_format (header p)) 4" by (simp add: xr_header_def)
  show ?thesis
    using assms x
    by (intro exI [of _ x]) (simp add: XrSerialize_def Let_def SerializeCommonHeader_enc writer_defs writer_ok_put put_put
        RrtrSizeIn32bits_def RrtrSerialize_put enc_rrtr_def h)
qed

lemma XrSerialize_both:
  assumes "writer_ok w" "XrSize p \<le> WriterLeft w" "rrtr_block_context p = Some \<lparr>rrtr_ntp = Some t\<rparr>"
    and "dlrr_block_context p = Some b" "hdr_length (header p) = 0"
  shows "\<exists>x y. map_option snd (XrSerialize p w) = Some (put w
      (enc_header (xr_header (count_or_format (header p)) (6 + 3 * length (sub_blocks b)))
      @ StoreUInt32BE (sender_ssrc p) @ enc_rrtr x t @ enc_dlrr y b))"
proof -
  let ?h = "xr_header (count_or_format (header p)) (6 + 3 * length (sub_blocks b))"
  let ?w = "put w (enc_header ?h @ StoreUInt32BE (sender_ssrc p))"
  have room: "24 + 12 * length (sub_blocks b) \<le> WriterLeft w"
    using assms(2-4) by (simp add: XrSize_def kHeaderLength_def DlrrSize_def RrtrSize_def)
  have "writer_ok ?w" "WriterLeft ?w = WriterLeft w - 8" using assms(1) room by (simp_all add: writer_ok_put)
  moreover have "4 \<le> WriterLeft w - 8" using room by linarith
  ultimately obtain x where x: "XrWriteBlock 4 2 ?w = Some (put ?w ([4, x] @ StoreUInt16BE 2))"
    using XrWriteBlock_put [of ?w 4 2] by auto
  let ?v = "put w (enc_header ?h @ StoreUInt32BE (sender_ssrc p) @ enc_rrtr x t)"
  have v: "writer_ok ?v" "4 \<le> WriterLeft ?v" using assms(1) room by (simp_all add: writer_ok_put enc_rrtr_def)
  obtain y where y: "XrWriteBlock 5 (DlrrSizeIn32bits b) ?v = Some (put ?v ([5, y] @ StoreUInt16BE (DlrrSizeIn32bits b)))"
    using XrWriteBlock_put [OF v] by blast
  have "hdr_length ?h = RrtrSizeIn32bits \<lparr>rrtr_ntp = Some t\<rparr> + 1 + 1 + (DlrrSizeIn32bits b + 1 + 1)"
    by (simp add: xr_header_def RrtrSizeIn32bits_def DlrrSizeIn32bits_def)
  then have h: "(header p)\<lparr>hdr_length := RrtrSizeIn32bits \<lparr>rrtr_ntp = Some t\<rparr> + 1 + 1 + (DlrrSizeIn32bits b + 1 + 1),
      packet_type := 207, version := 2, padding := 0\<rparr> = ?h" by (simp add: xr_header_def)
  have "RrtrSerialize \<lparr>rrtr_ntp = Some t\<rparr> (put ?w ([4, x] @ StoreUInt16BE 2)) = Some ?v"
    using assms(1) room by (subst RrtrSerialize_put) (auto simp: writer_ok_put put_put enc_rrtr_def)
  moreover have "DlrrSerialize b (put ?v ([5, y] @ StoreUInt16BE (DlrrSizeIn32bits b)))
      = Some (put ?v (enc_dlrr y b))"
    using v(1) assms(1) room
    by (subst DlrrSerialize_put) (auto simp: writer_ok_put put_put enc_dlrr_def DlrrSize_def enc_rrtr_def
        info_codec.length_concat_enc)
  moreover have "put ?v (enc_dlrr y b) = put w (enc_header ?h @ StoreUInt32BE (sender_ssrc p) @ enc_rrtr x t @ enc_dlrr y b)"
    using assms(1) room by (subst put_put) (auto simp: enc_rrtr_def enc_dlrr_def info_codec.length_concat_enc)
  moreover have "SerializeCommonHeader (p\<lparr>header := ?h\<rparr>) w = Some (p\<lparr>header := ?h\<lparr>hdr_length := htons (hdr_length ?h)\<rparr>\<rparr>, put w (enc_header ?h))"
    using assms(1) room by (simp add: SerializeCommonHeader_enc)
  moreover have "WriteUInt32 (sender_ssrc p) (put w (enc_header ?h)) = Some ?w"
    using assms(1) room by (simp add: writer_defs put_put)
  ultimately show ?thesis
    using assms(3-5) x y h
    by (intro exI [of _ x] exI [of _ y]) (simp add: XrSerialize_def Let_def RrtrSizeIn32bits_def)
qed

section \<open>Properties\<close>

text \<open>The loop on no bytes: it fails exactly when the length left says there is more.\<close>

lemma XrLoop_empty:
  "reader_ok r \<Longrightarrow> CurrentData r = [] \<Longrightarrow> XrLoop n p r = (if n < 0 \<or> 4 \<le> n then None else Some (p, r))"
  by (subst XrLoop.simps) (simp add: XrParseBlock_def reader_step)

lemma XrParse_prefix:
  assumes "reader_ok r" "CurrentData r = enc_header (xr_header c len) @ StoreUInt32BE s @ bs" "len < 65536"
  shows "XrParse p r = XrLoop (int len * 4 - 4) (p\<lparr>header := xr_header c len, sender_ssrc := s\<rparr>) (skip r 8)"
proof -
  have "ParseCommonHeader p r = Some (p\<lparr>header := xr_header c len\<rparr>, skip r 4)"
    using assms(1,2) by (simp add: ParseCommonHeader_enc)
  moreover have "ReadUInt32 (skip r 4) = Some (s, skip r 8)"
    using assms(1,2) by (simp add: reader_step reader_ok_skip)
  moreover have "uint (hdr_length (xr_header c len)) = int len"
    using assms(3) unat_of_nat_small [of len, where ?'a = 16] by (simp add: xr_header_def uint_nat)
  ultimately show ?thesis by (simp add: XrParse_def Let_def)
qed

text \<open>An extended report that carries only a reference time, written from a zeroed header, is parsed
  back with that time.\<close>

theorem xr_rrtr_roundtrip:
  assumes "rrtr_block_context p = Some \<lparr>rrtr_ntp = Some t\<rparr>" "dlrr_block_context p = None"
    and "hdr_length (header p) = 0" "20 \<le> sz" "sz \<le> length buf"
  shows "\<exists>p' w' q' r'. XrSerialize p (ByteWriter buf sz) = Some (p', w')
    \<and> XrParse q (ByteReader (written w')) = Some (q', r') \<and> ReaderLeft r' = 0
    \<and> rrtr_block_context q' = rrtr_block_context p \<and> sender_ssrc q' = sender_ssrc p"
proof -
  let ?w = "ByteWriter buf sz" and ?h = "xr_header (count_or_format (header p)) 4"
  have w: "writer_ok ?w" "20 \<le> WriterLeft ?w" using assms(4,5) by simp_all
  obtain x where x: "map_option snd (XrSerialize p ?w)
      = Some (put ?w (enc_header ?h @ StoreUInt32BE (sender_ssrc p) @ enc_rrtr x t))"
    using XrSerialize_rrtr [OF w assms(1-3)] by blast
  let ?e = "enc_header ?h @ StoreUInt32BE (sender_ssrc p) @ enc_rrtr x t"
  obtain p' where p': "XrSerialize p ?w = Some (p', put ?w ?e)"
    using x by (cases "XrSerialize p ?w") auto
  have len: "length ?e = 20" by (simp add: enc_rrtr_def)
  then have wr: "written (put ?w ?e) = ?e" using w by (simp add: written_put)
  let ?r = "ByteReader ?e"
  have pre: "XrParse q ?r = XrLoop (int 4 * 4 - 4) (q\<lparr>header := ?h, sender_ssrc := sender_ssrc p\<rparr>) (skip ?r 8)"
    by (rule XrParse_prefix [where bs = "enc_rrtr x t"]) simp_all
  have r8: "reader_ok (skip ?r 8)" "CurrentData (skip ?r 8) = enc_rrtr x t @ []"
    by (simp_all add: reader_ok_skip)
  have r20: "reader_ok (skip ?r 20)" "CurrentData (skip ?r 20) = []"
    using len by (simp_all add: reader_ok_skip)
  have "XrLoop 12 (q\<lparr>header := ?h, sender_ssrc := sender_ssrc p\<rparr>) (skip ?r 8)
      = XrLoop 0 (q\<lparr>header := ?h, sender_ssrc := sender_ssrc p, rrtr_block_context := Some \<lparr>rrtr_ntp = Some t\<rparr>\<rparr>) (skip ?r 20)"
    using XrParseBlock_rrtr [OF r8] by (subst XrLoop.simps) simp
  then have "XrParse q ?r = Some (q\<lparr>header := ?h, sender_ssrc := sender_ssrc p,
      rrtr_block_context := Some \<lparr>rrtr_ntp = Some t\<rparr>\<rparr>, skip ?r 20)"
    using pre XrLoop_empty [OF r20] by simp
  moreover have "ReaderLeft (skip ?r 20) = 0" using r20 ReaderLeft_rest by simp
  ultimately show ?thesis using p' wr assms(1) by auto
qed

theorem xr_rrtr_roundtrip_witness:
  fixes h :: RtcpCommonHeader
  defines "h \<equiv> \<lparr>count_or_format = 0, padding = 0, version = 0, packet_type = 0, hdr_length = 0\<rparr>"
  shows "\<exists>p' w' q' r'. XrSerialize \<lparr>header = h, sender_ssrc = 7,
        rrtr_block_context = Some \<lparr>rrtr_ntp = Some \<lparr>ntp_sec = 5, ntp_frac = 6\<rparr>\<rparr>, dlrr_block_context = None\<rparr>
        (ByteWriter (replicate 20 0) 20) = Some (p', w')
    \<and> XrParse \<lparr>header = h, sender_ssrc = 0, rrtr_block_context = None, dlrr_block_context = None\<rparr>
        (ByteReader (written w')) = Some (q', r') \<and> ReaderLeft r' = 0
    \<and> rrtr_block_context q' = Some \<lparr>rrtr_ntp = Some \<lparr>ntp_sec = 5, ntp_frac = 6\<rparr>\<rparr> \<and> sender_ssrc q' = 7"
  using xr_rrtr_roundtrip [of "\<lparr>header = h, sender_ssrc = 7,
        rrtr_block_context = Some \<lparr>rrtr_ntp = Some \<lparr>ntp_sec = 5, ntp_frac = 6\<rparr>\<rparr>, dlrr_block_context = None\<rparr>"
      "\<lparr>ntp_sec = 5, ntp_frac = 6\<rparr>" 20 "replicate 20 0"
      "\<lparr>header = h, sender_ssrc = 0, rrtr_block_context = None, dlrr_block_context = None\<rparr>"]
  by (simp add: h_def)

text \<open>A report with both a reference time and a DLRR block carries a length field that is one word too
  large, even when the header started from zero, and the program's own parser refuses it: after
  the second block it looks for a third.\<close>

theorem xr_both_blocks_refused:
  assumes "rrtr_block_context p = Some \<lparr>rrtr_ntp = Some t\<rparr>" "dlrr_block_context p = Some b"
    and "hdr_length (header p) = 0" "length (sub_blocks b) \<le> 50" "XrSize p \<le> sz" "sz \<le> length buf"
  shows "\<exists>p' w'. XrSerialize p (ByteWriter buf sz) = Some (p', w') \<and> length (written w') = XrSize p
    \<and> XrParse q (ByteReader (written w')) = None"
proof -
  let ?w = "ByteWriter buf sz" and ?n = "length (sub_blocks b)"
  let ?h = "xr_header (count_or_format (header p)) (6 + 3 * ?n)"
  have w: "writer_ok ?w" "XrSize p \<le> WriterLeft ?w" using assms(5,6) by simp_all
  obtain x y where x: "map_option snd (XrSerialize p ?w)
      = Some (put ?w (enc_header ?h @ StoreUInt32BE (sender_ssrc p) @ enc_rrtr x t @ enc_dlrr y b))"
    using XrSerialize_both [OF w assms(1-3)] by blast
  let ?e = "enc_header ?h @ StoreUInt32BE (sender_ssrc p) @ enc_rrtr x t @ enc_dlrr y b"
  obtain p' where p': "XrSerialize p ?w = Some (p', put ?w ?e)"
    using x by (cases "XrSerialize p ?w") auto
  have len: "length ?e = 24 + 12 * ?n" "XrSize p = 24 + 12 * ?n"
    using assms(1,2) by (simp_all add: enc_rrtr_def enc_dlrr_def info_codec.length_concat_enc XrSize_def
        kHeaderLength_def DlrrSize_def RrtrSize_def)
  then have wr: "written (put ?w ?e) = ?e" using w by (simp add: written_put)
  let ?r = "ByteReader ?e" and ?q = "q\<lparr>header := ?h, sender_ssrc := sender_ssrc p\<rparr>"
  let ?q1 = "?q\<lparr>rrtr_block_context := Some \<lparr>rrtr_ntp = Some t\<rparr>\<rparr>"
  have pre: "XrParse q ?r = XrLoop (int (6 + 3 * ?n) * 4 - 4) ?q (skip ?r 8)"
    using assms(4) by (intro XrParse_prefix [where bs = "enc_rrtr x t @ enc_dlrr y b"]) simp_all
  have r8: "reader_ok (skip ?r 8)" "CurrentData (skip ?r 8) = enc_rrtr x t @ enc_dlrr y b"
    by (simp_all add: reader_ok_skip)
  have r20: "reader_ok (skip ?r 20)" "CurrentData (skip ?r 20) = enc_dlrr y b @ []"
    by (simp_all add: reader_ok_skip enc_rrtr_def)
  have r_end: "reader_ok (skip ?r (24 + 12 * ?n))" "CurrentData (skip ?r (24 + 12 * ?n)) = []"
    using len(1) by (simp_all add: reader_ok_skip)
  have s1: "XrLoop (20 + 12 * int ?n) ?q (skip ?r 8) = XrLoop (8 + 12 * int ?n) ?q1 (skip ?r 20)"
    using XrParseBlock_rrtr [OF r8] by (subst XrLoop.simps) simp
  have u: "uint (DlrrSizeIn32bits b) = 3 * int ?n"
    using assms(4) unat_of_nat_small [of "3 * ?n", where ?'a = 16] by (simp add: DlrrSizeIn32bits_def uint_nat)
  have s2: "XrLoop (8 + 12 * int ?n) ?q1 (skip ?r 20) = XrLoop 4 (?q1\<lparr>dlrr_block_context := Some b\<rparr>) (skip ?r (24 + 12 * ?n))"
    using XrParseBlock_dlrr [OF r20, of ?q1] assms(4) u by (subst XrLoop.simps) (simp add: DlrrSize_def)
  have "XrParse q ?r = None" using pre s1 s2 XrLoop_empty [OF r_end, of 4] by simp
  then show ?thesis using p' wr len by auto
qed

theorem xr_both_blocks_refused_witness:
  fixes h :: RtcpCommonHeader
  defines "h \<equiv> \<lparr>count_or_format = 0, padding = 0, version = 0, packet_type = 0, hdr_length = 0\<rparr>"
  shows "\<exists>p' w'. XrSerialize \<lparr>header = h, sender_ssrc = 7,
        rrtr_block_context = Some \<lparr>rrtr_ntp = Some \<lparr>ntp_sec = 5, ntp_frac = 6\<rparr>\<rparr>,
        dlrr_block_context = Some \<lparr>sub_blocks = [\<lparr>rti_ssrc = 1, last_rr = 2, delay_since_last_rr = 3\<rparr>]\<rparr>\<rparr>
        (ByteWriter (replicate 36 0) 36) = Some (p', w') \<and> length (written w') = 36
    \<and> XrParse \<lparr>header = h, sender_ssrc = 0, rrtr_block_context = None, dlrr_block_context = None\<rparr>
        (ByteReader (written w')) = None"
  using xr_both_blocks_refused [of "\<lparr>header = h, sender_ssrc = 7,
        rrtr_block_context = Some \<lparr>rrtr_ntp = Some \<lparr>ntp_sec = 5, ntp_frac = 6\<rparr>\<rparr>,
        dlrr_block_context = Some \<lparr>sub_blocks = [\<lparr>rti_ssrc = 1, last_rr = 2, delay_since_last_rr = 3\<rparr>]\<rparr>\<rparr>"
      "\<lparr>ntp_sec = 5, ntp_frac = 6\<rparr>" "\<lparr>sub_blocks = [\<lparr>rti_ssrc = 1, last_rr = 2, delay_since_last_rr = 3\<rparr>]\<rparr>"
      36 "replicate 36 0" "\<lparr>header = h, sender_ssrc = 0, rrtr_block_context = None, dlrr_block_context = None\<rparr>"]
  by (simp add: h_def XrSize_def kHeaderLength_def DlrrSize_def RrtrSize_def)

end
