(* ===== verification/Round_Trip_Time.thy ===== *)
theory Round_Trip_Time
  imports Base_Utils
begin

text \<open>
  The arithmetic behind the round trip times both kinds of tracks compute from NTP time stamps in compact
  form (\<open>PublishStreamTrack::ReceiveDlrrSubBlock\<close>, \<open>SubscribeStreamTrack::ReceiveReceiverReport\<close>):
  the compact form of a time in milliseconds, the milliseconds of a compact interval, and the error of
  the difference.
\<close>

text \<open>The compact form counts units of \<open>1/65536\<close> of a second, modulo \<open>2^32\<close>.\<close>

lemma compact_ntp_of: "ToCompactNtp (CreateFromMillis (of_nat t)) = of_nat (65536 * t div 1000)" if "t < 2 ^ 64"
proof -
  define s r where "s = t div 1000" "r = t mod 1000"
  have u: "unat (of_nat t :: u64) = t" using that by (intro unat_of_nat_small) simp
  have r: "r < 1000" by (simp add: s_r_def)
  have f: "r * 2 ^ 32 div 1000 < 2 ^ 32" using r by (simp add: less_mult_imp_div_less)
  have low: "drop_bit 16 (of_nat (r * 2 ^ 32 div 1000) :: u32) = of_nat (r * 65536 div 1000)"
  proof -
    have "r * 2 ^ 32 div 1000 div 65536 = r * 2 ^ 32 div 65536 div 1000" by (simp add: div_mult2_eq [symmetric] mult.commute)
    also have "\<dots> = r * 65536 div 1000" by simp
    finally have d: "r * 2 ^ 32 div 1000 div 65536 = r * 65536 div 1000" .
    have l: "r * 65536 div 1000 < 2 ^ 32" using r by (simp add: less_mult_imp_div_less)
    have "unat (drop_bit 16 (of_nat (r * 2 ^ 32 div 1000) :: u32)) = r * 2 ^ 32 div 1000 div 65536"
      using unat_of_nat_small [of "r * 2 ^ 32 div 1000", where 'a = 32] f
      by (simp add: drop_bit_eq_div unat_div)
    also have "\<dots> = unat (of_nat (r * 65536 div 1000) :: u32)"
      unfolding d using l by (subst unat_of_nat_small) simp_all
    finally show ?thesis by (simp only: word_unat_eq_iff)
  qed
  have disj: "push_bit 16 (of_nat s :: u32) AND of_nat (r * 65536 div 1000) = 0"
  proof (rule bit_word_eqI)
    fix n
    have "r * 65536 div 1000 < 2 ^ 16" using r by (simp add: less_mult_imp_div_less)
    then have "take_bit 16 (r * 65536 div 1000) = r * 65536 div 1000" by (simp add: take_bit_nat_eq_self)
    then have "\<not> bit (r * 65536 div 1000) n" if "16 \<le> n" using that by (metis bit_take_bit_iff not_less)
    then show "bit (push_bit 16 (of_nat s :: u32) AND of_nat (r * 65536 div 1000)) n = bit (0 :: u32) n"
      by (auto simp: bit_simps)
  qed
  have "ToCompactNtp (CreateFromMillis (of_nat t)) = push_bit 16 (of_nat s) OR of_nat (r * 65536 div 1000)"
    unfolding ToCompactNtp_def CreateFromMillis_def u by (simp only: NtpTime.simps low flip: s_r_def)
  also have "\<dots> = push_bit 16 (of_nat s) + of_nat (r * 65536 div 1000)"
    using disjunctive_add_eq_or [OF disj] by simp
  also have "\<dots> = of_nat (s * 65536 + r * 65536 div 1000)" by (simp add: push_bit_eq_mult)
  also have "s * 65536 + r * 65536 div 1000 = 65536 * t div 1000"
  proof -
    have "t = 1000 * s + r" by (simp add: s_r_def)
    then have "65536 * t = 1000 * (s * 65536) + r * 65536" by linarith
    then have "65536 * t div 1000 = (1000 * (s * 65536) + r * 65536) div 1000" by simp
    also have "\<dots> = s * 65536 + r * 65536 div 1000" by (subst div_mult_self4) simp_all
    finally show ?thesis by simp
  qed
  finally show ?thesis .
qed

lemma compact_millis: "ToMillis (CreateFromCompactNtp c) = (1000 * uint c + 32768) div 65536"
proof -
  have s: "uint (drop_bit 16 c) = uint c div 65536" by (simp add: drop_bit_eq_div uint_div)
  have f: "uint (push_bit 16 c) = (uint c mod 65536) * 65536"
  proof -
    have "uint (push_bit 16 c) = (uint c * 65536) mod 2 ^ 32" by (simp add: push_bit_eq_mult uint_word_ariths mult.commute)
    also have "\<dots> = (uint c mod 65536) * 65536"
      using mult_mod_left [of "uint c" 65536 65536] by (simp add: mult.commute)
    finally show ?thesis .
  qed
  have "(1000 * uint c + 32768) div 65536 = (1000 * (65536 * (uint c div 65536) + uint c mod 65536) + 32768) div 65536" by simp
  also have "\<dots> = (65536 * (1000 * (uint c div 65536)) + (1000 * (uint c mod 65536) + 32768)) div 65536"
    by (simp only: distrib_left mult.left_commute mult.assoc add.assoc)
  also have "\<dots> = 1000 * (uint c div 65536) + (1000 * (uint c mod 65536) + 32768) div 65536"
    by (subst div_mult_self4) simp_all
  also have "(1000 * (uint c mod 65536) + 32768) div 65536 = (65536 * (uint c mod 65536) * 1000 + 2 ^ 31) div 2 ^ 32"
    using div_mult_mult1 [of 65536 "1000 * (uint c mod 65536) + 32768" 65536] by (simp add: mult.commute mult.left_commute)
  finally show ?thesis unfolding ToMillis_def CreateFromCompactNtp_def by (simp add: s f mult.commute)
qed

text \<open>The time between \<open>t0\<close> and \<open>t1\<close> without the delay \<open>d\<close> of the peer: the result is within
  \<open>33768/65536\<close> of a millisecond, whatever wraps.\<close>

lemma rtt_accurate:
  assumes t: "t1 < 2 ^ 64" "t0 < 2 ^ 64"
    and d: "65536 * t0 div 1000 + unat d \<le> 65536 * t1 div 1000" "65536 * t1 div 1000 < 65536 * t0 div 1000 + 2 ^ 32"
  shows "\<bar>65536 * ToMillis (CreateFromCompactNtp (ToCompactNtp (CreateFromMillis (of_nat t1)) - d - ToCompactNtp (CreateFromMillis (of_nat t0))))
     - (65536 * (int t1 - int t0) - 1000 * int (unat d))\<bar> \<le> 33768"
proof -
  define A B x where ab: "A = 65536 * t1 div 1000" "B = 65536 * t0 div 1000" "x = A - B - unat d"
  have x: "int x = int A - int B - int (unat d)" "x < 2 ^ 32" using d by (simp_all add: ab)
  have "(of_nat A - d - of_nat B :: u32) = of_int (int A - int (unat d) - int B)"
    by simp
  also have "int A - int (unat d) - int B = int x" using x(1) by simp
  finally have w: "of_nat A - d - of_nat B = (of_nat x :: u32)" by simp
  have u: "uint (of_nat x :: u32) = int x" using unat_of_nat_small [of x, where 'a = 32] x(2) by (simp add: uint_nat)
  have r: "ToMillis (CreateFromCompactNtp (ToCompactNtp (CreateFromMillis (of_nat t1)) - d - ToCompactNtp (CreateFromMillis (of_nat t0))))
     = (1000 * int x + 32768) div 65536"
    unfolding compact_ntp_of [OF t(1)] compact_ntp_of [OF t(2)] compact_millis ab(1,2) [symmetric] w u ..
  define R where "R = (1000 * int x + 32768) div 65536"
  have dv: "c * (a div c) \<le> a" "a < c * (a div c) + c" if "0 < c" for a c :: int
    using mult_div_mod_eq [of c a] pos_mod_bound [OF that, of a] pos_mod_sign [OF that, of a] by linarith+
  have "65536 * R \<le> 1000 * int x + 32768" "1000 * int x + 32768 < 65536 * R + 65536"
    unfolding R_def using dv [of 65536 "1000 * int x + 32768"] by simp_all
  moreover have "int A = 65536 * int t1 div 1000" "int B = 65536 * int t0 div 1000" by (simp_all add: ab zdiv_int)
  then have "1000 * int A \<le> 65536 * int t1" "65536 * int t1 < 1000 * int A + 1000"
    "1000 * int B \<le> 65536 * int t0" "65536 * int t0 < 1000 * int B + 1000"
    using dv [of 1000 "65536 * int t1"] dv [of 1000 "65536 * int t0"] by (simp_all only:)
  ultimately show ?thesis unfolding r R_def [symmetric] abs_le_iff using x(1) by (simp add: algebra_simps)
qed

end
