(* ===== verification/Publish_Stream_Track.thy ===== *)
theory Publish_Stream_Track
  imports Track_Statistics Nack_Requester Rtcp_Nack Rtcp_Xr Round_Trip_Time
begin

text \<open>
  A published track, \<^verbatim>\<open>src/src/transport/publish_stream_track.{h,cpp}\<close>, and its key frame requester,
  \<^verbatim>\<open>src/src/transport/keyframe_requester.{h,cpp}\<close>. The track composes the reception statistics, the NACK
  requester and the repair of retransmissions. The RTCP packets it hands to its observer are the list an
  operation returns; the timers are outside, and their time-outs are operations. All readings of the
  clock within one operation are one argument.

  \<open>None\<close> is behaviour C++ does not define: a division by zero, a null pointer, a read behind a packet.
\<close>

section \<open>RTCP packets sent\<close>

datatype rtcp_out = OutNack NackPacket | OutRr ReceiverReportPacket | OutXr XrPacket | OutPli RtcpCommonFeedback
  | OutFir RtcpFirPacket | OutSr SenderReportPacket

text \<open>The constructors leave the header as it is in memory, here \<open>h\<close>; serialising sets it.\<close>

definition make_nack :: "RtcpCommonHeader \<Rightarrow> u32 \<Rightarrow> u16 list \<Rightarrow> rtcp_out" where
  "make_nack h s l = OutNack \<lparr>header = h, sender_ssrc = s, media_ssrc = s, packet_lost_sequence_numbers = l\<rparr>"

definition make_rr :: "RtcpCommonHeader \<Rightarrow> ReceiverReportPacket" where
  "make_rr h = \<lparr>header = h, sender_ssrc = 0, report_blocks = []\<rparr>"

definition make_xr :: "RtcpCommonHeader \<Rightarrow> u32 \<Rightarrow> NtpTime \<Rightarrow> rtcp_out" where
  "make_xr h s t = OutXr \<lparr>header = h, sender_ssrc = s, rrtr_block_context = Some \<lparr>rrtr_ntp = Some t\<rparr>, dlrr_block_context = None\<rparr>"

section \<open>The key frame requester\<close>

definition kKeyFrameRequestIntervalMillis :: int where "kKeyFrameRequestIntervalMillis = 1000"

record KeyframeRequester =
  requested :: bool
  kf_timer :: bool

definition new_keyframe_requester :: KeyframeRequester where
  "new_keyframe_requester = \<lparr>requested = False, kf_timer = False\<rparr>"

text \<open>\<open>kf_timer\<close> says that the timer runs.\<close>

definition KeyframeStart :: "KeyframeRequester \<Rightarrow> KeyframeRequester" where
  "KeyframeStart k = k\<lparr>kf_timer := True\<rparr>"

definition KeyframeStop :: "KeyframeRequester \<Rightarrow> KeyframeRequester" where
  "KeyframeStop k = k\<lparr>kf_timer := False\<rparr>"

definition KeyFrameRequest :: "KeyframeRequester \<Rightarrow> KeyframeRequester" where
  "KeyFrameRequest k = k\<lparr>requested := True\<rparr>"

text \<open>Whether the observer, still \<open>alive\<close> or not, is asked.\<close>

definition KeyframeTimerTimeout :: "bool \<Rightarrow> KeyframeRequester \<Rightarrow> bool \<times> KeyframeRequester" where
  "KeyframeTimerTimeout alive k = (requested k \<and> alive, k\<lparr>requested := False\<rparr>)"

section \<open>The track\<close>

definition kSimulcastSubscribeVideoSsrc :: u32 where "kSimulcastSubscribeVideoSsrc = 9527"
definition kDefaultVideoReportIntervalMillis :: int where "kDefaultVideoReportIntervalMillis = 1000"
definition kDefaultAudioReportIntervalMillis :: int where "kDefaultAudioReportIntervalMillis = 5000"

record PublishConfiguration =
  pc_ssrc :: u32
  pc_payload_type :: u8
  pc_rtx_ssrc :: "u32 option"
  pc_rtx_payload_type :: u8
  pc_rtx_enabled :: bool
  pc_nack_enabled :: bool
  pc_codec :: string
  pc_rid :: u32
  pc_audio :: bool
  pc_rtcpfb_pli :: bool
  pc_rtcpfb_fir :: bool
  pc_clock_rate :: u32
  pc_extension_capability :: ext_capability

record PublishStreamTrack =
  configuration :: PublishConfiguration
  report_interval :: int
  track_statistics :: TrackStatistics
  rtx_track_statistics :: "TrackStatistics option"
  nack_requester :: "NackRequester option"
  fir_seq_num :: u8
  rtt_millis :: int
  pt_last_sr :: "SenderReportPacket option"
  key_frame_requester :: "KeyframeRequester option"
  rtcp_timer :: bool

text \<open>The payload type stands where \<open>TrackStatistics\<close> has the clock rate.\<close>

definition rtx_statistics :: "u32 \<Rightarrow> PublishConfiguration \<Rightarrow> TrackStatistics" where
  "rtx_statistics s cfg = new_statistics s (ucast (pc_rtx_payload_type cfg))"

definition new_publish_track :: "PublishConfiguration \<Rightarrow> PublishStreamTrack" where
  "new_publish_track cfg =
     \<lparr>configuration = cfg,
      report_interval = (if pc_audio cfg then kDefaultAudioReportIntervalMillis else kDefaultVideoReportIntervalMillis),
      track_statistics = (let s = new_statistics (pc_ssrc cfg) (pc_clock_rate cfg)
        in if pc_rtx_enabled cfg then s else EnableRetransmitDetection True s),
      rtx_track_statistics = (if pc_rtx_enabled cfg then map_option (\<lambda>s. rtx_statistics s cfg) (pc_rtx_ssrc cfg) else None),
      nack_requester = (if pc_nack_enabled cfg then Some new_requester else None),
      fir_seq_num = 0, rtt_millis = 100, pt_last_sr = None, key_frame_requester = None, rtcp_timer = False\<rparr>"

definition PubTrackInit :: "PublishStreamTrack \<Rightarrow> PublishStreamTrack" where
  "PubTrackInit s = s\<lparr>rtcp_timer := True, key_frame_requester := Some (KeyframeStart new_keyframe_requester)\<rparr>"

definition PubTrackDeinit :: "PublishStreamTrack \<Rightarrow> PublishStreamTrack" where
  "PubTrackDeinit s = s\<lparr>rtcp_timer := False, key_frame_requester := map_option KeyframeStop (key_frame_requester s)\<rparr>"

text \<open>\<open>OnNackRequesterRequestNack\<close> and \<open>OnNackRequesterRequestKeyFrame\<close>, one request after the other.\<close>

fun track_requests :: "RtcpCommonHeader \<Rightarrow> nack_request list \<Rightarrow> PublishStreamTrack \<Rightarrow> (PublishStreamTrack \<times> rtcp_out list) option" where
  "track_requests h [] s = Some (s, [])"
| "track_requests h (RequestNack l # rs) s =
     map_option (map_prod id ((#) (make_nack h (pc_ssrc (configuration s)) l))) (track_requests h rs s)"
| "track_requests h (RequestKeyFrame # rs) s =
     (case key_frame_requester s of None \<Rightarrow> None
      | Some k \<Rightarrow> track_requests h rs (s\<lparr>key_frame_requester := Some (KeyFrameRequest k)\<rparr>))"

text \<open>\<open>ReceiveRtpPacket\<close> behind the repair of a retransmission: whether the packet is passed on, and the
  packet.\<close>

definition track_deliver :: "RtcpCommonHeader \<Rightarrow> int \<Rightarrow> bool \<Rightarrow> RtpPacket \<Rightarrow> PublishStreamTrack
    \<Rightarrow> (bool \<times> RtpPacket \<times> PublishStreamTrack \<times> rtcp_out list) option" where
  "track_deliver h now is_rtx p s =
     (let cfg = configuration s in
      case (if pc_audio cfg then Some p else ParsePayload (pc_codec cfg) p) of
        None \<Rightarrow> Some (False, p, s, [])
      | Some p \<Rightarrow> do {
          (s, outs) \<leftarrow>
            (if pc_nack_enabled cfg then
               (case nack_requester s of None \<Rightarrow> None
                | Some n \<Rightarrow>
                    let (_, n', requests) = NackOnReceivedPacket (sequence_number p) (IsKeyFrame p) is_rtx now n
                    in track_requests h requests (s\<lparr>nack_requester := Some n'\<rparr>))
             else Some (s, []));
          Some (True, if pc_rid cfg \<noteq> 0 then SetSsrc kSimulcastSubscribeVideoSsrc p else p, s, outs) })"

text \<open>\<open>LoadUInt16BE(rtp_packet->Payload())\<close>.\<close>

definition payload_u16 :: "RtpPacket \<Rightarrow> u16 option" where
  "payload_u16 p = (if payload_offset p + 2 \<le> length (data p) then Some (LoadUInt16BE (drop (payload_offset p) (data p))) else None)"

definition PubTrackReceiveRtpPacket :: "RtcpCommonHeader \<Rightarrow> int \<Rightarrow> RtpPacket \<Rightarrow> PublishStreamTrack
    \<Rightarrow> (bool \<times> RtpPacket \<times> PublishStreamTrack \<times> rtcp_out list) option" where
  "PubTrackReceiveRtpPacket h now p s =
     (let cfg = configuration s in
      if pc_rtx_enabled cfg \<and> pc_rtx_ssrc cfg = Some (ssrc p) then do {
        s \<leftarrow> (case rtx_track_statistics s of None \<Rightarrow> Some s
             | Some t \<Rightarrow> map_option (\<lambda>t. s\<lparr>rtx_track_statistics := Some t\<rparr>) (ReceivePacket p now t));
        original \<leftarrow> payload_u16 p;
        (case RtxRepair original (pc_payload_type cfg) (pc_ssrc cfg) p of
           OutOfBounds \<Rightarrow> None
         | Fails \<Rightarrow> Some (False, p, s, [])
         | Returns p \<Rightarrow> track_deliver h now True p s) }
      else do {
        t \<leftarrow> ReceivePacket p now (track_statistics s);
        track_deliver h now False p (s\<lparr>track_statistics := t\<rparr>) })"

definition SetRtxSSRC :: "u32 \<Rightarrow> PublishStreamTrack \<Rightarrow> PublishStreamTrack" where
  "SetRtxSSRC r s =
     (if pc_rtx_enabled (configuration s) then
        s\<lparr>configuration := (configuration s)\<lparr>pc_rtx_ssrc := Some r\<rparr>, rtx_track_statistics := Some (rtx_statistics r (configuration s))\<rparr>
      else s)"

definition SendRequestkeyFrame :: "PublishStreamTrack \<Rightarrow> PublishStreamTrack" where
  "SendRequestkeyFrame s = s\<lparr>key_frame_requester := map_option KeyFrameRequest (key_frame_requester s)\<rparr>"

definition ReceiveDlrrSubBlock :: "int \<Rightarrow> ReceiveTimeInfo \<Rightarrow> PublishStreamTrack \<Rightarrow> PublishStreamTrack option" where
  "ReceiveDlrrSubBlock now b s =
     (if rti_ssrc b = pc_ssrc (configuration s) then
        let compact_ntp = ToCompactNtp (CreateFromMillis (of_int now)) in
        if last_rr b \<noteq> 0 \<and> compact_ntp > last_rr b + delay_since_last_rr b then
          let rtp_compact_ntp = compact_ntp - delay_since_last_rr b - last_rr b;
              s = s\<lparr>rtt_millis := ToMillis (CreateFromCompactNtp rtp_compact_ntp)\<rparr>
          in if pc_nack_enabled (configuration s) then
               map_option (\<lambda>n. s\<lparr>nack_requester := Some (UpdateRtt (rtt_millis s) n)\<rparr>) (nack_requester s)
             else Some s
        else Some s
      else Some s)"

definition ReceiveSenderReport :: "SenderReportPacket \<Rightarrow> PublishStreamTrack \<Rightarrow> PublishStreamTrack" where
  "ReceiveSenderReport sr s = s\<lparr>pt_last_sr := Some sr\<rparr>"

definition PubTrackBitrate :: "int \<Rightarrow> PublishStreamTrack \<Rightarrow> int \<times> PublishStreamTrack" where
  "PubTrackBitrate now s = (let (r, t) = BitrateReceived now (track_statistics s) in (r, s\<lparr>track_statistics := t\<rparr>))"

text \<open>The time-out of the NACK requester's timer.\<close>

definition PubTrackNackTimeout :: "RtcpCommonHeader \<Rightarrow> int \<Rightarrow> PublishStreamTrack \<Rightarrow> (PublishStreamTrack \<times> rtcp_out list) option" where
  "PubTrackNackTimeout h now s =
     (case nack_requester s of None \<Rightarrow> Some (s, [])
      | Some n \<Rightarrow> let (n', requests) = NackTimerTimeout now n in track_requests h requests (s\<lparr>nack_requester := Some n'\<rparr>))"

text \<open>The interval to the next report; \<open>random\<close> draws a number between two bounds.\<close>

definition report_min_interval :: "int \<Rightarrow> int \<Rightarrow> int" where
  "report_min_interval interval rate =
     (let send_bitrate_kbit = cdiv rate 1000
      in if rate \<noteq> 0 \<and> send_bitrate_kbit \<noteq> 0 then min (cdiv (360 * 1000) send_bitrate_kbit) interval else interval)"

definition next_report :: "(int \<Rightarrow> int \<Rightarrow> int) \<Rightarrow> int \<Rightarrow> int" where
  "next_report random min_interval = random (cdiv (min_interval * 1) 2) (cdiv (min_interval * 3) 2)"

definition opt_list :: "'a option \<Rightarrow> 'a list" where
  "opt_list x = (case x of None \<Rightarrow> [] | Some y \<Rightarrow> [y])"

text \<open>The blocks of both statistics in one receiver report, when there is one.\<close>

definition track_report :: "RtcpCommonHeader \<Rightarrow> int \<Rightarrow> PublishStreamTrack \<Rightarrow> PublishStreamTrack \<times> rtcp_out list" where
  "track_report h now s =
     (let (b1, t1) = MaybeAppendReportBlockAndReset now (track_statistics s);
          (b2, t2) = (case rtx_track_statistics s of None \<Rightarrow> (None, None)
            | Some t \<Rightarrow> map_prod id Some (MaybeAppendReportBlockAndReset now t));
          blocks = opt_list b1 @ opt_list b2;
          rr = (case SetReportBlocks blocks (make_rr h) of None \<Rightarrow> make_rr h | Some rr \<Rightarrow> rr)
      in (s\<lparr>track_statistics := t1, rtx_track_statistics := t2\<rparr>, if blocks \<noteq> [] then [OutRr rr] else []))"

definition PubTrackTimerTimeout :: "RtcpCommonHeader \<Rightarrow> (int \<Rightarrow> int \<Rightarrow> int) \<Rightarrow> int \<Rightarrow> PublishStreamTrack
    \<Rightarrow> PublishStreamTrack \<times> rtcp_out list \<times> int" where
  "PubTrackTimerTimeout h random now s =
     (let (s, reports) = track_report h now s;
          xr = make_xr h (pc_ssrc (configuration s)) (CreateFromMillis (of_int now));
          (min_interval, s) =
            (if pc_audio (configuration s) then (report_interval s, s)
             else let (rate, s) = PubTrackBitrate now s in (report_min_interval (report_interval s) rate, s))
      in (s, reports @ [xr], next_report random min_interval))"

definition PubTrackKeyframeRequest :: "RtcpCommonHeader \<Rightarrow> PublishStreamTrack \<Rightarrow> PublishStreamTrack \<times> rtcp_out list" where
  "PubTrackKeyframeRequest h s =
     (let i = pc_ssrc (configuration s) in
      if pc_rtcpfb_pli (configuration s) then (s, [OutPli \<lparr>header = h, sender_ssrc = i, media_ssrc = i\<rparr>])
      else if pc_rtcpfb_fir (configuration s) then
        let n = fir_seq_num s + 1
        in (s\<lparr>fir_seq_num := n\<rparr>, [OutFir (AddFciEntry i n \<lparr>header = h, sender_ssrc = i, media_ssrc = 0, FCI = []\<rparr>)])
      else (s, []))"

definition PubTrackKeyframeTimeout :: "RtcpCommonHeader \<Rightarrow> bool \<Rightarrow> PublishStreamTrack \<Rightarrow> PublishStreamTrack \<times> rtcp_out list" where
  "PubTrackKeyframeTimeout h alive s =
     (case key_frame_requester s of None \<Rightarrow> (s, [])
      | Some k \<Rightarrow> let (ask, k') = KeyframeTimerTimeout alive k; s = s\<lparr>key_frame_requester := Some k'\<rparr>
          in if ask then PubTrackKeyframeRequest h s else (s, []))"

section \<open>Every operation of a well-formed track is defined\<close>

definition kind_of :: "TrackStatistics \<Rightarrow> u32 \<times> u32 \<times> bool" where
  "kind_of t = (ts_ssrc t, ts_clock_rate t, enable_retransmit_detection t)"

definition stats_ok :: "TrackStatistics \<Rightarrow> bool" where
  "stats_ok t \<longleftrightarrow> (enable_retransmit_detection t \<longrightarrow> ts_clock_rate t div 1000 \<noteq> 0)"

definition rtx_ok :: "PublishConfiguration \<Rightarrow> TrackStatistics option \<Rightarrow> bool" where
  "rtx_ok cfg st = (case st of
      None \<Rightarrow> \<not> (pc_rtx_enabled cfg \<and> pc_rtx_ssrc cfg \<noteq> None)
    | Some t \<Rightarrow> pc_rtx_enabled cfg \<and> stats_ok t \<and> pc_rtx_ssrc cfg = Some (ts_ssrc t))"

definition track_ok :: "PublishStreamTrack \<Rightarrow> bool" where
  "track_ok s \<longleftrightarrow> (nack_requester s \<noteq> None \<longleftrightarrow> pc_nack_enabled (configuration s)) \<and> key_frame_requester s \<noteq> None
     \<and> stats_ok (track_statistics s) \<and> ts_ssrc (track_statistics s) = pc_ssrc (configuration s)
     \<and> rtx_ok (configuration s) (rtx_track_statistics s)"

lemma out_of_order_kind: "out_of_order p x now s = Some (b, s') \<Longrightarrow> kind_of s' = kind_of s"
  by (auto simp: out_of_order_def kind_of_def Option.bind_eq_Some_conv split: if_splits)

lemma out_of_order_total: "stats_ok s \<Longrightarrow> \<exists>b s'. out_of_order p x now s = Some (b, s')"
  using IsRetransmit_total [of s p now] by (auto simp: out_of_order_def stats_ok_def ex_bool_eq)

lemma UpdateOutOfOrder_total:
  assumes "stats_ok s"
  shows "\<exists>b s'. UpdateOutOfOrder p x now s = Some (b, s') \<and> kind_of s' = kind_of s"
proof (cases "received_seq_out_of_order s")
  case None
  then show ?thesis
    using out_of_order_total [OF assms, of p x now] out_of_order_kind by (fastforce simp: UpdateOutOfOrder_def)
next
  case (Some e)
  let ?s = "s\<lparr>cumulative_loss := cast32 (cumulative_loss s - 1), received_seq_out_of_order := None\<rparr>"
  have "stats_ok ?s" "kind_of ?s = kind_of s" using assms by (simp_all add: stats_ok_def kind_of_def)
  then obtain b t where "out_of_order p x now ?s = Some (b, t)" "kind_of t = kind_of s"
    using out_of_order_total out_of_order_kind by metis
  then show ?thesis using Some by (auto simp: UpdateOutOfOrder_def Let_def kind_of_def ex_bool_eq)
qed

lemma in_order_kind: "kind_of (in_order p x now s) = kind_of s"
  by (simp add: kind_of_def in_order_fields)

lemma ReceivePacket_total:
  assumes "stats_ok s"
  shows "\<exists>s'. ReceivePacket p now s = Some s' \<and> kind_of s' = kind_of s"
proof (cases "ts_ssrc s = ssrc p")
  case True
  obtain x where x: "UnwrapWithoutUpdate (sequence_number p) (seq_unwrapper s)
      = (x, (seq_unwrapper s)\<lparr>last_without_update_value := Some (sequence_number p)\<rparr>)"
    by (simp add: UnwrapWithoutUpdate_def)
  have n: "stats_ok (noted p now s)" "kind_of (noted p now s) = kind_of s"
    using assms by (simp_all add: stats_ok_def kind_of_def)
  obtain b t where "UpdateOutOfOrder p x now (noted p now s) = Some (b, t)" "kind_of t = kind_of s"
    using UpdateOutOfOrder_total [OF n(1), of p x now] n(2) by auto
  then show ?thesis
    using ReceivePacket_noted [OF True x, of now] n(2) by (simp add: in_order_kind) (simp add: kind_of_def)
qed (simp add: ReceivePacket_def)

lemma kind_stats_ok: "kind_of s' = kind_of s \<Longrightarrow> stats_ok s' = stats_ok s" "kind_of s' = kind_of s \<Longrightarrow> ts_ssrc s' = ts_ssrc s"
  by (auto simp: kind_of_def stats_ok_def)

lemma report_kind: "MaybeAppendReportBlockAndReset now s = (b, s') \<Longrightarrow> kind_of s' = kind_of s"
  by (auto simp: MaybeAppendReportBlockAndReset_def Let_def kind_of_def split: if_splits)

lemma track_requests_total:
  assumes "track_ok s"
  shows "\<exists>s' outs. track_requests h rs s = Some (s', outs) \<and> track_ok s' \<and> configuration s' = configuration s"
  using assms
proof (induction h rs s rule: track_requests.induct)
  case (3 h rs s)
  then obtain k where k: "key_frame_requester s = Some k" by (auto simp: track_ok_def)
  have "track_ok (s\<lparr>key_frame_requester := Some (KeyFrameRequest k)\<rparr>)" using 3(2) by (simp add: track_ok_def)
  from 3(1) [OF k this] show ?case using k by simp
qed fastforce+

lemma track_deliver_total:
  assumes "track_ok s"
  shows "\<exists>b p' s' outs. track_deliver h now is_rtx p s = Some (b, p', s', outs) \<and> track_ok s'"
proof (cases "if pc_audio (configuration s) then Some p else ParsePayload (pc_codec (configuration s)) p")
  case None
  then show ?thesis using assms by (simp add: track_deliver_def ex_bool_eq)
next
  case (Some q)
  show ?thesis
  proof (cases "pc_nack_enabled (configuration s)")
    case True
    then obtain n where n: "nack_requester s = Some n" using assms by (auto simp: track_ok_def)
    obtain r n' ev where e: "NackOnReceivedPacket (sequence_number q) (IsKeyFrame q) is_rtx now n = (r, n', ev)" by (metis surj_pair)
    have "track_ok (s\<lparr>nack_requester := Some n'\<rparr>)" using assms True by (simp add: track_ok_def)
    then obtain s' outs where "track_requests h ev (s\<lparr>nack_requester := Some n'\<rparr>) = Some (s', outs)" "track_ok s'"
      using track_requests_total by blast
    then show ?thesis using Some True n e by (simp add: track_deliver_def ex_bool_eq)
  qed (use Some assms in \<open>simp add: track_deliver_def ex_bool_eq\<close>)
qed

datatype track_input = InRtp RtpPacket | InNackTimer | InReportTimer | InKeyframeTimer bool | InDlrr ReceiveTimeInfo
  | InSenderReport SenderReportPacket | InSetRtx u32 | InKeyframeRequest | InBitrate

text \<open>An operation on the track and the RTCP packets it sends.\<close>

fun track_step :: "RtcpCommonHeader \<Rightarrow> (int \<Rightarrow> int \<Rightarrow> int) \<Rightarrow> int \<Rightarrow> track_input \<Rightarrow> PublishStreamTrack
    \<Rightarrow> (PublishStreamTrack \<times> rtcp_out list) option" where
  "track_step h random now (InRtp p) s = map_option (\<lambda>(_, _, s, outs). (s, outs)) (PubTrackReceiveRtpPacket h now p s)"
| "track_step h random now InNackTimer s = PubTrackNackTimeout h now s"
| "track_step h random now InReportTimer s = (let (s, outs, _) = PubTrackTimerTimeout h random now s in Some (s, outs))"
| "track_step h random now (InKeyframeTimer alive) s = Some (PubTrackKeyframeTimeout h alive s)"
| "track_step h random now (InDlrr b) s = map_option (\<lambda>s. (s, [])) (ReceiveDlrrSubBlock now b s)"
| "track_step h random now (InSenderReport sr) s = Some (ReceiveSenderReport sr s, [])"
| "track_step h random now (InSetRtx r) s = Some (SetRtxSSRC r s, [])"
| "track_step h random now InKeyframeRequest s = Some (SendRequestkeyFrame s, [])"
| "track_step h random now InBitrate s = Some (snd (PubTrackBitrate now s), [])"

text \<open>A retransmission must have a payload that holds the original number, and no padding.\<close>

definition input_ok :: "PublishStreamTrack \<Rightarrow> track_input \<Rightarrow> bool" where
  "input_ok s i = (case i of
     InRtp p \<Rightarrow> pc_rtx_ssrc (configuration s) = Some (ssrc p) \<longrightarrow>
       2 \<le> payload_size p \<and> padding_size p = 0 \<and> payload_offset p + payload_size p \<le> length (data p)
   | _ \<Rightarrow> True)"

lemma RtxRepair_total:
  assumes "2 \<le> payload_size p" "padding_size p = 0"
  shows "\<exists>q. RtxRepair n t i p = Returns q"
  using assms by (simp add: RtxRepair_def Let_def SetSsrc_def SetSequenceNumber_def SetPayloadType_def kRtxHeaderSize_def)

lemma ReceiveRtp_total:
  assumes ok: "track_ok s" and i: "input_ok s (InRtp p)"
  shows "\<exists>b p' s' outs. PubTrackReceiveRtpPacket h now p s = Some (b, p', s', outs) \<and> track_ok s'"
proof (cases "pc_rtx_enabled (configuration s) \<and> pc_rtx_ssrc (configuration s) = Some (ssrc p)")
  case True
  obtain t where t: "rtx_track_statistics s = Some t" "stats_ok t" "ts_ssrc t = ssrc p"
    using ok True by (auto simp: track_ok_def rtx_ok_def split: option.splits)
  obtain t' where t': "ReceivePacket p now t = Some t'" "kind_of t' = kind_of t"
    using ReceivePacket_total [OF t(2), of p now] by auto
  let ?s = "s\<lparr>rtx_track_statistics := Some t'\<rparr>"
  have s: "track_ok ?s" using ok True t t'(2) kind_stats_ok [OF t'(2)] by (simp add: track_ok_def rtx_ok_def)
  have b: "2 \<le> payload_size p" "padding_size p = 0" "payload_offset p + payload_size p \<le> length (data p)"
    using i True by (simp_all add: input_ok_def)
  then obtain n where n: "payload_u16 p = Some n" by (simp add: payload_u16_def)
  obtain q where q: "RtxRepair n (pc_payload_type (configuration s)) (pc_ssrc (configuration s)) p = Returns q"
    using RtxRepair_total b by blast
  show ?thesis using track_deliver_total [OF s, of h now True q] True t t' n q
    by (simp add: PubTrackReceiveRtpPacket_def Let_def)
next
  case False
  have t: "stats_ok (track_statistics s)" using ok by (simp add: track_ok_def)
  obtain t' where t': "ReceivePacket p now (track_statistics s) = Some t'" "kind_of t' = kind_of (track_statistics s)"
    using ReceivePacket_total [OF t, of p now] by auto
  have "track_ok (s\<lparr>track_statistics := t'\<rparr>)" using ok kind_stats_ok [OF t'(2)] by (simp add: track_ok_def)
  from track_deliver_total [OF this, of h now False p] show ?thesis
    using False t'(1) by (auto simp: PubTrackReceiveRtpPacket_def Let_def)
qed

lemma SetRtxSSRC_ok: "track_ok s \<Longrightarrow> track_ok (SetRtxSSRC r s)"
  by (simp add: track_ok_def SetRtxSSRC_def rtx_ok_def rtx_statistics_def new_statistics_def stats_ok_def)

lemma Dlrr_total: "track_ok s \<Longrightarrow> \<exists>s'. ReceiveDlrrSubBlock now b s = Some s' \<and> track_ok s'"
  by (cases "nack_requester s") (auto simp: ReceiveDlrrSubBlock_def Let_def track_ok_def)

lemma track_report_ok: "track_ok s \<Longrightarrow> track_ok (fst (track_report h now s)) \<and> configuration (fst (track_report h now s)) = configuration s"
proof -
  assume ok: "track_ok s"
  obtain b1 t1 where b1: "MaybeAppendReportBlockAndReset now (track_statistics s) = (b1, t1)" by fastforce
  note k1 = kind_stats_ok [OF report_kind [OF b1]]
  show ?thesis
  proof (cases "rtx_track_statistics s")
    case None
    then show ?thesis using ok b1 k1 by (simp add: track_report_def Let_def track_ok_def)
  next
    case (Some t)
    obtain b2 t2 where b2: "MaybeAppendReportBlockAndReset now t = (b2, t2)" by fastforce
    show ?thesis using Some ok b1 k1 b2 kind_stats_ok [OF report_kind [OF b2]]
      by (simp add: track_report_def Let_def track_ok_def rtx_ok_def)
  qed
qed

lemma Bitrate_ok: "track_ok s \<Longrightarrow> PubTrackBitrate now s = (r, s') \<Longrightarrow> track_ok s' \<and> configuration s' = configuration s"
  by (auto simp: PubTrackBitrate_def BitrateReceived_def track_ok_def stats_ok_def split: prod.splits)

text \<open>The timers of a track.\<close>

lemma track_steps_ok:
  assumes "track_ok t"
  shows "\<exists>t' outs. track_step h random now InNackTimer t = Some (t', outs) \<and> track_ok t'"
    and "\<exists>t' outs. track_step h random now InReportTimer t = Some (t', outs) \<and> track_ok t'"
    and "\<exists>t' outs. track_step h random now (InKeyframeTimer alive) t = Some (t', outs) \<and> track_ok t'"
proof -
  show "\<exists>t' outs. track_step h random now InNackTimer t = Some (t', outs) \<and> track_ok t'"
  proof (cases "nack_requester t")
    case (Some n)
    obtain n' rs where n: "NackTimerTimeout now n = (n', rs)" by fastforce
    have "track_ok (t\<lparr>nack_requester := Some n'\<rparr>)" using assms Some by (simp add: track_ok_def)
    then show ?thesis using track_requests_total [of _ h rs] Some n by (fastforce simp: PubTrackNackTimeout_def)
  qed (use assms in \<open>simp add: PubTrackNackTimeout_def\<close>)
  obtain s1 r where r: "track_report h now t = (s1, r)" by fastforce
  have s1: "track_ok s1" using track_report_ok [OF assms, of h now] r by simp
  obtain rate s2 where b: "PubTrackBitrate now s1 = (rate, s2)" by fastforce
  show "\<exists>t' outs. track_step h random now InReportTimer t = Some (t', outs) \<and> track_ok t'"
    using s1 Bitrate_ok [OF s1 b] r b by (auto simp: PubTrackTimerTimeout_def Let_def)
  show "\<exists>t' outs. track_step h random now (InKeyframeTimer alive) t = Some (t', outs) \<and> track_ok t'"
    using assms by (auto simp: PubTrackKeyframeTimeout_def PubTrackKeyframeRequest_def track_ok_def Let_def split: option.splits prod.splits)
qed

section \<open>A retransmission fills the gap\<close>

text \<open>A packet behind the newest ends its requests.\<close>

lemma late_packet:
  assumes ok: "nack_ok N R n" and k: "N - 10000 \<le> k" "k < N"
  shows "\<exists>r n'. NackOnReceivedPacket (seq16 k) kf is_recovered now n = (r, n', []) \<and> seq16 k \<notin> fst ` set (nack_list n')
     \<and> (\<forall>e\<in>set (nack_list n). fst e \<noteq> seq16 k \<longrightarrow> e \<in> set (nack_list n'))"
proof -
  have n: "initialized n" "newest_seq_num n = seq16 N" "missing_keys N R (nack_list n)" using ok by (simp_all add: nack_ok_def)
  have gt: "SeqNumGT (seq16 N) (seq16 k)" using SeqNumGT_int [of N k] k by simp
  then have ne: "seq16 k \<noteq> seq16 N" by (metis SeqNumGT_irrefl)
  have o: "seq_keys.ordered (seq16 (N - 10000)) (nack_list n)" using n(3) by (simp add: missing_keys_def)
  have w: "seq16 k \<in> half_window (seq16 (N - 10000))" using half_window_int(1) [of "N - 10000" k] k by simp
  note f = seq_keys.find_key_map_of [OF o w] and e = seq_keys.erase_key_filter [OF o w]
  show ?thesis
  proof (cases "map_of (nack_list n) (seq16 k)")
    case None
    then have "seq16 k \<notin> fst ` set (nack_list n)" by (simp add: map_of_eq_None_iff)
    then show ?thesis using n gt ne f None by (auto simp: NackOnReceivedPacket_def)
  next
    case (Some i)
    then show ?thesis using n gt ne f e by (auto simp: NackOnReceivedPacket_def)
  qed
qed

lemma RtxRepair_payload: "RtxRepair n t i p = Returns p' \<Longrightarrow> 2 \<le> payload_size p"
proof (rule ccontr)
  assume "\<not> 2 \<le> payload_size p"
  then have "payload_size p = 0 \<or> payload_size p = 1" by linarith
  moreover assume "RtxRepair n t i p = Returns p'"
  ultimately show False
    by (auto simp: RtxRepair_def Let_def SetSsrc_def SetSequenceNumber_def SetPayloadType_def kRtxHeaderSize_def)
qed

lemma rtx_received:
  assumes "coherent q" "padding_size q = 0" "t < 128"
  shows "\<exists>r r'. RtpCreate p (rtx_encapsulate m t x q) = Some r \<and> ssrc r = x \<and> payload_u16 r = Some (LoadUInt16BE (drop (payload_offset r) (data r)))
    \<and> RtxRepair (LoadUInt16BE (drop (payload_offset r) (data r))) (payload_type q) (ssrc q) r = Returns r'
    \<and> take (RtpSize r') (data r') = data q \<and> payload_type r' = payload_type q \<and> sequence_number r' = sequence_number q
    \<and> ssrc r' = ssrc q \<and> payload_offset r' = payload_offset q \<and> payload_size r' = payload_size q"
proof -
  obtain r r' where r: "RtpCreate p (rtx_encapsulate m t x q) = Some r"
    "RtxRepair (LoadUInt16BE (drop (payload_offset r) (data r))) (payload_type q) (ssrc q) r = Returns r'"
    "take (RtpSize r') (data r') = data q \<and> payload_type r' = payload_type q \<and> sequence_number r' = sequence_number q
      \<and> ssrc r' = ssrc q \<and> payload_offset r' = payload_offset q \<and> payload_size r' = payload_size q"
    using rtx_restored [OF assms, of p m x] by auto
  have c: "coherent r" using RtpCreate_coherent [OF r(1)] by simp
  have "2 \<le> payload_size r" using RtxRepair_payload [OF r(2)] .
  then have u: "payload_u16 r = Some (LoadUInt16BE (drop (payload_offset r) (data r)))"
    using coherent_size [OF c] by (simp add: payload_u16_def RtpSize_def)
  let ?h = "SetRtpPayloadType t (SetRtpSequenceNumber m (take (payload_offset q) (data q) @ StoreUInt16BE (sequence_number q)
      @ drop (payload_offset q) (data q)))"
  have "12 \<le> length ?h" using coherent_fixedD(6) [OF assms(1)]
    by (simp add: SetRtpPayloadType_def SetRtpSequenceNumber_def rtp_consts)
  then have "drop 8 (rtx_encapsulate m t x q) = StoreUInt32BE x @ drop 12 ?h"
    by (simp add: rtx_encapsulate_def SetRtpSsrc_def rtp_consts overwrite_def)
  then have "LoadUInt32BE (drop 8 (rtx_encapsulate m t x q)) = x" by simp
  moreover have "ssrc r = LoadUInt32BE (drop 8 (rtx_encapsulate m t x q))"
    using r(1) by (auto simp: RtpCreate_def RtpParse_layout with_layout_def with_fixed_def split: prod.splits)
  ultimately show ?thesis using r u by (intro exI [of _ r] exI [of _ r']) simp
qed

lemma ParsePayload_fields: "ParsePayload c p = Some p' \<Longrightarrow> \<exists>i. p' = p\<lparr>payload_info := i\<rparr>"
proof (cases "payload_size p = 0")
  case True
  moreover assume "ParsePayload c p = Some p'"
  ultimately show ?thesis by (intro exI [of _ "payload_info p"]) (simp add: ParsePayload_def)
qed (auto simp: ParsePayload_def)

text \<open>The payload parser sees nothing but the payload.\<close>

lemma ParsePayload_same:
  assumes "take (RtpSize p) (data p) = data q" "payload_offset p = payload_offset q" "payload_size p = payload_size q"
    "ParsePayload c q \<noteq> None" "payload_offset q + payload_size q \<le> length (data q)"
  shows "\<exists>i. ParsePayload c p = Some (p\<lparr>payload_info := i\<rparr>)"
proof -
  let ?n = "payload_size q" and ?o = "payload_offset q"
  have "?o + ?n \<le> RtpSize p" using assms(2,3) by (simp add: RtpSize_def)
  then have "take ?n (drop ?o (data p)) = take ?n (drop ?o (take (RtpSize p) (data p)))"
    by (simp add: drop_take min_def)
  then have "take ?n (drop ?o (data p)) = take ?n (drop ?o (data q))" by (simp only: assms(1))
  then have "ParsePayload c p \<noteq> None" using assms(2-4) by (auto simp: ParsePayload_def split: if_splits)
  then show ?thesis using ParsePayload_fields by fastforce
qed

section \<open>Properties\<close>

text \<open>A published track is type safe: in a well-formed state every operation, whatever packet, report,
  time-out or request it handles, runs without a null pointer, a division by zero or a read behind a
  packet, and leaves a well-formed state. Only retransmissions with padding or without an original
  sequence number are excepted.\<close>

theorem track_progress:
  assumes "track_ok s" "input_ok s i"
  shows "\<exists>s' outs. track_step h random now i s = Some (s', outs) \<and> track_ok s'"
proof (cases i)
  case (InRtp p)
  then obtain b p' s' outs where "PubTrackReceiveRtpPacket h now p s = Some (b, p', s', outs)" "track_ok s'"
    using ReceiveRtp_total [of s p h now] assms by auto
  then show ?thesis using InRtp by simp
next
  case (InDlrr b)
  then show ?thesis using Dlrr_total [OF assms(1), of now b] by auto
next
  case (InSetRtx r)
  then show ?thesis using SetRtxSSRC_ok [OF assms(1)] by simp
next
  case InBitrate
  then show ?thesis using Bitrate_ok [OF assms(1), of now] by (metis prod.collapse track_step.simps(9))
qed (use assms(1) track_steps_ok in \<open>auto simp: track_ok_def ReceiveSenderReport_def SendRequestkeyFrame_def simp del: track_step.simps(2-4)\<close>)

definition video_configuration :: PublishConfiguration where
  "video_configuration = \<lparr>pc_ssrc = 7, pc_payload_type = 96, pc_rtx_ssrc = Some 8, pc_rtx_payload_type = 97, pc_rtx_enabled = True,
     pc_nack_enabled = True, pc_codec = ''vp8'', pc_rid = 0, pc_audio = False, pc_rtcpfb_pli = True, pc_rtcpfb_fir = True,
     pc_clock_rate = 90000, pc_extension_capability = []\<rparr>"

definition zero_header :: RtcpCommonHeader where
  "zero_header = \<lparr>count_or_format = 0, padding = 0, version = 0, packet_type = 0, hdr_length = 0\<rparr>"

lemma video_track_ok: "track_ok (PubTrackInit (new_publish_track video_configuration))"
  by (simp add: track_ok_def PubTrackInit_def new_publish_track_def video_configuration_def rtx_ok_def rtx_statistics_def
      new_statistics_def stats_ok_def)

theorem track_progress_witness:
  "\<exists>s' outs. track_step zero_header (\<lambda>a b. a) 1000 (InRtp (numbered 5)) (PubTrackInit (new_publish_track video_configuration))
     = Some (s', outs) \<and> track_ok s'"
  by (rule track_progress [OF video_track_ok])
    (simp add: input_ok_def PubTrackInit_def new_publish_track_def video_configuration_def numbered_def)

text \<open>The round trip time a publisher's DLRR block gives is right: for a report sent at \<open>t0\<close>, echoed
  by the peer after the delay it states and received at \<open>t1\<close>, the track's round trip time, which is also
  handed to the NACK requester, is the elapsed time without that delay, to within \<open>33768/65536\<close> of a
  millisecond. The two times must lie in one period of the 32-bit clock, 18 hours.\<close>

theorem dlrr_rtt_accurate:
  assumes t: "t0 \<le> t1" "t1 < 2 ^ 64" and ok: "track_ok s" and i: "rti_ssrc b = pc_ssrc (configuration s)"
    and l: "last_rr b = ToCompactNtp (CreateFromMillis (of_nat t0))" "last_rr b \<noteq> 0"
    and d: "65536 * t0 div 1000 + unat (delay_since_last_rr b) < 65536 * t1 div 1000"
    and e: "65536 * t0 div 1000 div 2 ^ 32 = 65536 * t1 div 1000 div 2 ^ 32"
  shows "\<exists>s'. ReceiveDlrrSubBlock (int t1) b s = Some s'
     \<and> \<bar>65536 * rtt_millis s' - (65536 * (int t1 - int t0) - 1000 * int (unat (delay_since_last_rr b)))\<bar> \<le> 33768
     \<and> (\<forall>n. nack_requester s' = Some n \<longrightarrow> rtt_ms n = rtt_millis s')"
proof -
  define A B where ab: "A = 65536 * t1 div 1000" "B = 65536 * t0 div 1000"
  have t0: "t0 < 2 ^ 64" using t by simp
  let ?d = "delay_since_last_rr b"
  define K :: nat where "K = 4294967296"
  have K: "2 ^ 32 = K" "0 < K" by (simp_all add: K_def)
  have q: "B + unat ?d < A" "B div K = A div K" using d e by (simp_all add: ab K_def)
  have a: "A = K * (A div K) + A mod K" "B = K * (A div K) + B mod K" "A mod K < K"
    using mult_div_mod_eq [of K A] mult_div_mod_eq [of K B] q(2) K(2) by simp_all
  have near: "A < B + K" and sum: "B mod K + unat ?d < A mod K" using a q(1) by linarith+
  have u: "unat (of_nat n :: u32) = n mod K" for n by (simp add: unat_of_nat take_bit_eq_mod K_def)
  have "unat (of_nat B + ?d) = B mod K + unat ?d"
    using sum a(3) by (simp add: unat_word_ariths u K_def)
  then have gt: "last_rr b + ?d < ToCompactNtp (CreateFromMillis (of_int (int t1)))"
    unfolding l(1) compact_ntp_of [OF t0] of_int_of_nat_eq compact_ntp_of [OF t(2)] ab [symmetric]
    using sum by (simp only: word_less_nat_alt u)
  define r where "r = ToMillis (CreateFromCompactNtp (ToCompactNtp (CreateFromMillis (of_nat t1)) - ?d - ToCompactNtp (CreateFromMillis (of_nat t0))))"
  have acc: "\<bar>65536 * r - (65536 * (int t1 - int t0) - 1000 * int (unat ?d))\<bar> \<le> 33768"
    unfolding r_def using q(1) near ab by (intro rtt_accurate [OF t(2) t0]) (simp_all add: K_def)
  have "ReceiveDlrrSubBlock (int t1) b s =
     (if pc_nack_enabled (configuration s) then map_option (\<lambda>n. s\<lparr>rtt_millis := r, nack_requester := Some (UpdateRtt r n)\<rparr>) (nack_requester s)
      else Some (s\<lparr>rtt_millis := r\<rparr>))"
    using gt i l by (simp add: ReceiveDlrrSubBlock_def Let_def r_def)
  then show ?thesis using acc ok by (cases "nack_requester s") (auto simp: track_ok_def UpdateRtt_def)
qed

theorem dlrr_rtt_accurate_witness:
  "\<exists>s'. ReceiveDlrrSubBlock (int 1700000000250)
       \<lparr>rti_ssrc = 7, last_rr = ToCompactNtp (CreateFromMillis (of_nat 1700000000000)), delay_since_last_rr = 6554\<rparr>
       (PubTrackInit (new_publish_track video_configuration)) = Some s'
     \<and> \<bar>65536 * rtt_millis s' - (65536 * (int 1700000000250 - int 1700000000000) - 1000 * int (unat (6554 :: u32)))\<bar> \<le> 33768
     \<and> (\<forall>n. nack_requester s' = Some n \<longrightarrow> rtt_ms n = rtt_millis s')"
proof -
  let ?b = "\<lparr>rti_ssrc = 7, last_rr = ToCompactNtp (CreateFromMillis (of_nat 1700000000000)), delay_since_last_rr = 6554\<rparr>"
  have i: "rti_ssrc ?b = pc_ssrc (configuration (PubTrackInit (new_publish_track video_configuration)))"
    by (simp add: PubTrackInit_def new_publish_track_def video_configuration_def)
  have "(of_nat (65536 * 1700000000000 div 1000) :: u32) \<noteq> 0" by simp
  moreover have "ToCompactNtp (CreateFromMillis (of_nat 1700000000000)) = of_nat (65536 * 1700000000000 div 1000)"
    by (rule compact_ntp_of) simp
  ultimately have l: "last_rr ?b \<noteq> 0" by (simp only: ReceiveTimeInfo.select_convs) simp
  show ?thesis
    using dlrr_rtt_accurate [OF _ _ video_track_ok i _ l, of 1700000000000 1700000000250] by (simp only: ReceiveTimeInfo.select_convs) simp
qed

text \<open>C20. A retransmission is as good as the packet: when a packet of the track, which was lost, arrives
  in a retransmission, the track passes on the packet itself, with its bytes, number and source, and
  its number is no longer asked for. That holds for any state of the NACK requester its runs can reach.\<close>

theorem retransmission_fills_gap:
  assumes q: "coherent q" "padding_size q = 0" "t < 128"
    and s: "track_ok s" "pc_rtx_enabled (configuration s)" "pc_rtx_ssrc (configuration s) = Some x" "pc_rid (configuration s) = 0"
      "pc_payload_type (configuration s) = payload_type q" "pc_ssrc (configuration s) = ssrc q"
      "pc_audio (configuration s) \<or> ParsePayload (pc_codec (configuration s)) q \<noteq> None"
    and n: "pc_nack_enabled (configuration s)" "nack_requester s = Some n" "nack_ok N R n"
      "sequence_number q = seq16 k" "N - 10000 \<le> k" "k < N"
  shows "\<exists>r r' s' n'. RtpCreate p (rtx_encapsulate m t x q) = Some r
    \<and> PubTrackReceiveRtpPacket h now r s = Some (True, r', s', [])
    \<and> take (RtpSize r') (data r') = data q \<and> sequence_number r' = sequence_number q \<and> ssrc r' = ssrc q
    \<and> payload_type r' = payload_type q \<and> nack_requester s' = Some n' \<and> sequence_number q \<notin> fst ` set (nack_list n')"
proof -
  obtain r r1 where r: "RtpCreate p (rtx_encapsulate m t x q) = Some r" "ssrc r = x"
    "payload_u16 r = Some (LoadUInt16BE (drop (payload_offset r) (data r)))"
    "RtxRepair (LoadUInt16BE (drop (payload_offset r) (data r))) (payload_type q) (ssrc q) r = Returns r1"
    and r1: "take (RtpSize r1) (data r1) = data q" "payload_type r1 = payload_type q" "sequence_number r1 = sequence_number q"
    "ssrc r1 = ssrc q" "payload_offset r1 = payload_offset q" "payload_size r1 = payload_size q"
    using rtx_received [OF q, of p m x] by auto
  have "payload_offset q + payload_size q \<le> length (data q)" using coherent_size [OF q(1)] by (simp add: RtpSize_def)
  then obtain i where i: "(if pc_audio (configuration s) then Some r1 else ParsePayload (pc_codec (configuration s)) r1)
      = Some (r1\<lparr>payload_info := i\<rparr>)"
  proof (cases "pc_audio (configuration s)")
    case True
    have "r1 = r1\<lparr>payload_info := payload_info r1\<rparr>" by simp
    then show ?thesis using that [of "payload_info r1"] True by simp
  next
    case False
    then show ?thesis
      using that ParsePayload_same [OF r1(1,5,6)] s(7) \<open>payload_offset q + payload_size q \<le> length (data q)\<close> by auto
  qed
  let ?r = "r1\<lparr>payload_info := i\<rparr>"
  obtain rt n' where n': "NackOnReceivedPacket (seq16 k) (IsKeyFrame ?r) True now n = (rt, n', [])" "seq16 k \<notin> fst ` set (nack_list n')"
    using late_packet [OF n(3,5,6)] by meson
  obtain st where st: "rtx_track_statistics s = Some st" "stats_ok st"
    using s(1-3) by (auto simp: track_ok_def rtx_ok_def split: option.splits)
  obtain st' where st': "ReceivePacket r now st = Some st'" using ReceivePacket_total [OF st(2)] by blast
  let ?s = "s\<lparr>rtx_track_statistics := Some st', nack_requester := Some n'\<rparr>"
  have "track_deliver h now True r1 (s\<lparr>rtx_track_statistics := Some st'\<rparr>) = Some (True, ?r, ?s, [])"
    using i n n'(1) s(4) r1(3) by (simp add: track_deliver_def Let_def)
  then have "PubTrackReceiveRtpPacket h now r s = Some (True, ?r, ?s, [])"
    using s r(2-4) st(1) st' by (simp add: PubTrackReceiveRtpPacket_def Let_def)
  moreover have "take (RtpSize ?r) (data ?r) = data q" using r1(1) by (simp add: RtpSize_def)
  ultimately show ?thesis
    using r(1) r1 n(4) n'(2) by (intro exI [of _ r] exI [of _ ?r] exI [of _ ?s] exI [of _ n']) simp
qed

theorem retransmission_fills_gap_witness:
  "\<exists>q s r r' s' n'. RtpCreate blank_rtp [0x80, 0x60, 0, 0, 0, 0, 0, 9, 0, 0, 0, 7, 1, 2, 3] = Some q
    \<and> RtpCreate blank_rtp (rtx_encapsulate 77 97 8 q) = Some r
    \<and> PubTrackReceiveRtpPacket zero_header 200 r s = Some (True, r', s', [])
    \<and> take (RtpSize r') (data r') = data q \<and> nack_requester s' = Some n' \<and> sequence_number q \<notin> fst ` set (nack_list n')"
proof -
  let ?b = "[0x80, 0x60, 0, 0, 0, 0, 0, 9, 0, 0, 0, 7, 1, 2, 3] :: bytes"
  let ?c = "video_configuration\<lparr>pc_audio := True\<rparr>"
  obtain q where q: "RtpCreate blank_rtp ?b = Some q" "padding_size q = 0" "payload_type q = 96" "ssrc q = 7" "sequence_number q = seq16 65536"
    by (simp add: RtpCreate_def RtpParse_def blank_rtp_def rtp_consts LoadUInt16BE_def LoadUInt32BE_def Let_def)
  obtain n where n: "nack_ok 65538 {65538, 65534} n" using nack_run_ok [OF nack_run_example] by blast
  let ?s = "(PubTrackInit (new_publish_track ?c))\<lparr>nack_requester := Some n\<rparr>"
  have "track_ok ?s"
    by (simp add: track_ok_def PubTrackInit_def new_publish_track_def video_configuration_def rtx_ok_def rtx_statistics_def
        new_statistics_def stats_ok_def)
  then show ?thesis
    using retransmission_fills_gap [of q 97 ?s 8 n 65538 "{65538, 65534}" 65536 blank_rtp 77 zero_header 200] q n RtpCreate_coherent [OF q(1)]
    by (simp add: PubTrackInit_def new_publish_track_def video_configuration_def) metis
qed

end
