(* ===== verification/Sdp_Negotiator.thy ===== *)
theory Sdp_Negotiator
  imports Json Publish_Stream_Track
begin

text \<open>
  The negotiation of session descriptions, \<^verbatim>\<open>src/src/transport/sdp_negotiator.{h,cpp}\<close>, with \<open>SetupSelector\<close> of
  \<^verbatim>\<open>src/src/dtls_srtp/dtls_transport.cpp\<close>. Descriptions are JSON; libsdptransform, which reads and writes their text, is
  a parameter: \<open>parse\<close> and \<open>write\<close>, both of which may throw.

  \<open>Fails\<close> is an exception that leaves the function, \<open>OutOfBounds\<close> the debug assertion on an unknown DTLS role, or
  without assertions the value of an empty optional. An offer that is refused is dropped with its negotiator by the
  caller; what a call that throws has written so far is not modelled.
\<close>

section \<open>The code\<close>

definition kSimulcastSubscribeVideoRtxSsrc :: u32 where "kSimulcastSubscribeVideoRtxSsrc = 9526"
definition kMaxIceCandidatePriority :: int where "kMaxIceCandidatePriority = 2147483647"
definition kCandidateComponentRtp :: int where "kCandidateComponentRtp = 1"

record SdpNegotiator =
  local_candidate :: json
  publish_offer_sdp :: json
  publish_anwser_sdp :: json
  subscribe_offer_sdp :: json
  subscribe_anwser_sdp :: json
  remote_dtls_setup :: string
  remote_ice_ufrag :: string
  remote_ice_pwd :: string
  remote_fingerprint_type :: string
  remote_fingerprint_hash :: string
  local_dtls_setup :: string
  local_ice_ufrag :: string
  local_ice_password :: string
  local_fingerprint_type :: string
  local_fingerprint_hash :: string
  media_section_ssrcs_map :: "string \<rightharpoonup> json"
  media_section_ssrc_groups_map :: "string \<rightharpoonup> json"
  media_section_rtpmaps_map :: "string \<rightharpoonup> json list"

definition new_negotiator :: SdpNegotiator where
  "new_negotiator = \<lparr>local_candidate = JNull, publish_offer_sdp = JNull, publish_anwser_sdp = JNull, subscribe_offer_sdp = JNull,
     subscribe_anwser_sdp = JNull, remote_dtls_setup = [], remote_ice_ufrag = [], remote_ice_pwd = [], remote_fingerprint_type = [],
     remote_fingerprint_hash = [], local_dtls_setup = ''active'', local_ice_ufrag = [], local_ice_password = [],
     local_fingerprint_type = [], local_fingerprint_hash = [], media_section_ssrcs_map = Map.empty,
     media_section_ssrc_groups_map = Map.empty, media_section_rtpmaps_map = Map.empty\<rparr>"

subsection \<open>Offers\<close>

text \<open>A function that returns false has the value \<open>Returns None\<close>.\<close>

fun require :: "'a option outcome \<Rightarrow> ('a \<Rightarrow> 'b option outcome) \<Rightarrow> 'b option outcome" where
  "require (Returns (Some x)) f = f x"
| "require (Returns None) f = Returns None"
| "require Fails f = Fails"
| "require OutOfBounds f = OutOfBounds"

fun each_section :: "(json \<Rightarrow> 's \<Rightarrow> 's option outcome) \<Rightarrow> json list \<Rightarrow> 's \<Rightarrow> 's option outcome" where
  "each_section f [] s = Returns (Some s)"
| "each_section f (m # ms) s = require (f m s) (each_section f ms)"

text \<open>The media sections, known not to be empty; indexing anything but an array throws.\<close>

fun json_sections :: "json \<Rightarrow> json list outcome" where
  "json_sections (JArray ms) = Returns ms"
| "json_sections _ = Fails"

definition json_find_string :: "string \<Rightarrow> json \<Rightarrow> string option outcome" where
  "json_find_string k j = (case json_at k j of None \<Rightarrow> Returns None | Some v \<Rightarrow> bind_outcome (json_string v) (\<lambda>s. Returns (Some s)))"

text \<open>The part of both offers that describes the remote transport.\<close>

definition remote_transport :: "json \<Rightarrow> json \<Rightarrow> SdpNegotiator \<Rightarrow> SdpNegotiator option outcome" where
  "remote_transport sdp m s =
     require (json_find_string ''setup'' m) (\<lambda>setup.
     require (json_find_string ''iceUfrag'' m) (\<lambda>ufrag.
     require (json_find_string ''icePwd'' m) (\<lambda>pwd.
     require (Returns (case json_at ''fingerprint'' m of Some f \<Rightarrow> Some f | None \<Rightarrow> json_at ''fingerprint'' sdp)) (\<lambda>f.
     bind_outcome (json_get_string ''type'' f) (\<lambda>type.
     bind_outcome (json_get_string ''hash'' f) (\<lambda>hash.
     Returns (Some (s\<lparr>remote_dtls_setup := setup, remote_ice_ufrag := ufrag, remote_ice_pwd := pwd,
       remote_fingerprint_type := type, remote_fingerprint_hash := hash\<rparr>))))))))"

definition put_found :: "string \<Rightarrow> string \<Rightarrow> json \<Rightarrow> (string \<rightharpoonup> json) \<Rightarrow> (string \<rightharpoonup> json)" where
  "put_found k type m f = (case json_at k m of None \<Rightarrow> f | Some v \<Rightarrow> f(type \<mapsto> v))"

definition publish_offer_section :: "json \<Rightarrow> json \<Rightarrow> SdpNegotiator \<Rightarrow> SdpNegotiator option outcome" where
  "publish_offer_section sdp m s =
     (if json_at ''direction'' m \<noteq> Some (JString ''sendonly'') then Returns None
      else bind_outcome (json_get_string ''type'' m) (\<lambda>type.
        remote_transport sdp m
          (s\<lparr>media_section_ssrcs_map := put_found ''ssrcs'' type m (media_section_ssrcs_map s),
             media_section_ssrc_groups_map := put_found ''ssrcGroups'' type m (media_section_ssrc_groups_map s)\<rparr>)))"

text \<open>\<open>None\<close> is false. Every exception is caught.\<close>

definition SetPublishOffer :: "(string \<Rightarrow> json outcome) \<Rightarrow> string \<Rightarrow> SdpNegotiator \<Rightarrow> SdpNegotiator option" where
  "SetPublishOffer parse offer s =
     (case bind_outcome (parse offer) (\<lambda>sdp.
        require (Returns (json_at ''media'' sdp)) (\<lambda>media.
        if json_empty media then Returns None
        else require (Returns (json_at ''groups'' sdp)) (\<lambda>groups.
        bind_outcome (map_outcome (json_get ''type'') (json_elements groups)) (\<lambda>types.
        if length (filter (\<lambda>t. t = JString ''BUNDLE'') types) \<noteq> 1 then Returns None
        else bind_outcome (json_sections media) (\<lambda>ms.
        require (each_section (publish_offer_section sdp) ms s) (\<lambda>s.
        Returns (Some (s\<lparr>publish_offer_sdp := sdp\<rparr>)))))))) of
      Returns r \<Rightarrow> r | _ \<Rightarrow> None)"

text \<open>No exception is caught here.\<close>

definition SetSubscribeOffer :: "(string \<Rightarrow> json outcome) \<Rightarrow> string \<Rightarrow> SdpNegotiator \<Rightarrow> SdpNegotiator option outcome" where
  "SetSubscribeOffer parse offer s =
     bind_outcome (parse offer) (\<lambda>sdp.
       require (Returns (json_at ''media'' sdp)) (\<lambda>media.
       if json_empty media then Returns None
       else bind_outcome (json_sections media) (\<lambda>ms.
         each_section (remote_transport sdp) ms (s\<lparr>subscribe_offer_sdp := sdp\<rparr>))))"

subsection \<open>The answer to a publisher\<close>

definition SetupSelector :: "string \<Rightarrow> string option" where
  "SetupSelector i = (if i = ''passive'' then Some ''active'' else if i = ''actpass'' then Some ''active''
     else if i = ''active'' then Some ''passive'' else None)"

type_synonym json_fields = "(string \<times> json) list"

definition put_transport :: "string \<Rightarrow> SdpNegotiator \<Rightarrow> json_fields \<Rightarrow> json_fields" where
  "put_transport direction s fs =
     json_put ''iceUfrag'' (JString (local_ice_ufrag s)) (json_put ''icePwd'' (JString (local_ice_password s))
       (json_put ''direction'' (JString direction) (json_put ''candidates'' (JArray [local_candidate s]) fs)))"

text \<open>The direction of the simulcast layers.\<close>

definition orient :: "string \<Rightarrow> json_fields \<Rightarrow> json_fields" where
  "orient d fs =
     update_field ''simulcast'' (\<lambda>j. json_replace ''dir2'' (JString d) (json_replace ''dir1'' (JString d) j))
       (update_field ''rids'' (json_map_elements (json_replace ''direction'' (JString d))) fs)"

text \<open>An answered section up to its codecs.\<close>

definition answer_transport :: "SdpNegotiator \<Rightarrow> json \<Rightarrow> json_fields outcome" where
  "answer_transport s m =
     (case m of
        JObject fs \<Rightarrow>
          (case map_of fs ''port'' of
             None \<Rightarrow> Fails
           | Some port \<Rightarrow>
               let fs = (if port = JInt 0 then json_put ''port'' (JInt 9) fs else fs);
                   fs = fold json_erase [''ssrcs'', ''ssrcGroups'', ''iceOptions'', ''candidates'', ''extmapAllowMixed''] fs;
                   fs = json_put ''icelite'' (JString ''ice-lite'') (put_transport ''recvonly'' s fs)
               in bind_outcome (put_in ''fingerprint'' ''type'' (JString (local_fingerprint_type s)) fs) (\<lambda>fs.
                  bind_outcome (put_in ''fingerprint'' ''hash'' (JString (local_fingerprint_hash s)) fs) (\<lambda>fs.
                  case SetupSelector (remote_dtls_setup s) of
                    None \<Rightarrow> OutOfBounds
                  | Some setup \<Rightarrow> Returns (orient ''recv'' (json_put ''setup'' (JString setup) fs)))))
      | _ \<Rightarrow> Fails)"

definition select_codec :: "string \<Rightarrow> string option" where
  "select_codec type = (if type = ''video'' then Some ''VP8'' else if type = ''audio'' then Some ''opus'' else None)"

fun find_codec :: "string \<Rightarrow> json list \<Rightarrow> json option outcome" where
  "find_codec codec [] = Returns None"
| "find_codec codec (j # js) = bind_outcome (json_get ''codec'' j) (\<lambda>c. if c = JString codec then Returns (Some j) else find_codec codec js)"

definition push_rtpmap :: "string \<Rightarrow> json \<Rightarrow> SdpNegotiator \<Rightarrow> SdpNegotiator" where
  "push_rtpmap type j s = s\<lparr>media_section_rtpmaps_map := (media_section_rtpmaps_map s)(type \<mapsto>
     (case media_section_rtpmaps_map s type of None \<Rightarrow> [] | Some js \<Rightarrow> js) @ [j])\<rparr>"

text \<open>The payload type of the codec, \<open>None\<close> when the section does not offer it.\<close>

definition codec_payload :: "string \<Rightarrow> string \<Rightarrow> json_fields \<Rightarrow> SdpNegotiator \<Rightarrow> (int option \<times> SdpNegotiator) outcome" where
  "codec_payload type codec fs s =
     (case map_of fs ''rtp'' of
        None \<Rightarrow> Returns (Some (- 1), s)
      | Some rtp \<Rightarrow> bind_outcome (find_codec codec (json_elements rtp)) (\<lambda>r.
          case r of None \<Rightarrow> Returns (None, s)
          | Some j \<Rightarrow> bind_outcome (json_get_int ''payload'' j) (\<lambda>n.
              Returns (if cast32 n = - 1 then None else Some (cast32 n), push_rtpmap type j s))))"

text \<open>The three passes over lists of the section: format parameters, which also tell the payload type of the
  retransmissions, codecs, and feedback.\<close>

definition keep_fmtp :: "int \<Rightarrow> json \<Rightarrow> int \<Rightarrow> (bool \<times> int) outcome" where
  "keep_fmtp c item rtx =
     bind_outcome (json_get ''config'' item) (\<lambda>config.
       if config = JString (''apt='' @ to_string c) then bind_outcome (json_get_int ''payload'' item) (\<lambda>n. Returns (True, cast32 n))
       else bind_outcome (json_get ''payload'' item) (\<lambda>p. Returns (p = JInt c, rtx)))"

definition add_dtx :: "int \<Rightarrow> json \<Rightarrow> json outcome" where
  "add_dtx c item =
     bind_outcome (json_get ''payload'' item) (\<lambda>p.
       if p = JInt c then bind_outcome (json_get_string ''config'' item) (\<lambda>config.
         Returns (json_replace ''config'' (JString (config @ '';usedtx=1'')) item))
       else Returns item)"

definition keep_rtp :: "string \<Rightarrow> int \<Rightarrow> int \<Rightarrow> json \<Rightarrow> SdpNegotiator \<Rightarrow> (bool \<times> SdpNegotiator) outcome" where
  "keep_rtp type c rtx item s =
     bind_outcome (json_get ''payload'' item) (\<lambda>p.
       if rtx \<noteq> - 1 \<and> p = JInt rtx then Returns (True, push_rtpmap type item s) else Returns (p = JInt c, s))"

definition keep_feedback :: "int \<Rightarrow> json \<Rightarrow> unit \<Rightarrow> (bool \<times> unit) outcome" where
  "keep_feedback c item u = bind_outcome (json_get ''payload'' item) (\<lambda>p. Returns (p = JString (to_string c) \<or> p = JString ''*'', u))"

definition restrict_section :: "bool \<Rightarrow> string \<Rightarrow> string \<Rightarrow> int \<Rightarrow> json_fields \<Rightarrow> SdpNegotiator \<Rightarrow> (json_fields \<times> SdpNegotiator) outcome" where
  "restrict_section dtx type codec c fs s =
     bind_outcome (filter_field ''fmtp'' (keep_fmtp c) fs (- 1)) (\<lambda>(fs, rtx).
     bind_outcome (if dtx \<and> codec = ''opus'' then map_field ''fmtp'' (add_dtx c) fs else Returns fs) (\<lambda>fs.
     bind_outcome (filter_field ''rtp'' (keep_rtp type c rtx) fs s) (\<lambda>(fs, s).
     bind_outcome (filter_field ''rtcpFb'' (keep_feedback c) fs ()) (\<lambda>(fs, u).
     bind_outcome (filter_field ''rtcpFbTrrInt'' (keep_feedback c) fs ()) (\<lambda>(fs, u).
     Returns (json_put ''payloads'' (JString (if rtx = - 1 then to_string c else to_string c @ '' '' @ to_string rtx)) fs, s))))))"

text \<open>The section, whether the answer goes on, and the negotiator.\<close>

definition publish_section :: "bool \<Rightarrow> json \<Rightarrow> SdpNegotiator \<Rightarrow> (json \<times> bool \<times> SdpNegotiator) outcome" where
  "publish_section dtx m s =
     bind_outcome (answer_transport s m) (\<lambda>fs.
     let s = s\<lparr>local_dtls_setup := the (SetupSelector (remote_dtls_setup s))\<rparr> in
     bind_outcome (json_get_string ''type'' (JObject fs)) (\<lambda>type.
     case select_codec type of
       None \<Rightarrow> Returns (JObject fs, True, s)
     | Some codec \<Rightarrow> bind_outcome (codec_payload type codec fs s) (\<lambda>(c, s).
         case c of
           None \<Rightarrow> Returns (JObject fs, False, s)
         | Some c \<Rightarrow> bind_outcome (restrict_section dtx type codec c fs s) (\<lambda>(fs, s). Returns (JObject fs, True, s)))))"

fun publish_sections :: "bool \<Rightarrow> json list \<Rightarrow> SdpNegotiator \<Rightarrow> (json list \<times> bool \<times> SdpNegotiator) outcome" where
  "publish_sections dtx [] s = Returns ([], True, s)"
| "publish_sections dtx (m # ms) s =
     bind_outcome (publish_section dtx m s) (\<lambda>(m', ok, s).
       if ok then bind_outcome (publish_sections dtx ms s) (\<lambda>(ms', ok, s). Returns (m' # ms', ok, s))
       else Returns (m' # ms, False, s))"

definition CreatePublishAnswer :: "(json \<Rightarrow> string outcome) \<Rightarrow> bool \<Rightarrow> SdpNegotiator \<Rightarrow> (string option \<times> SdpNegotiator) outcome" where
  "CreatePublishAnswer write dtx s =
     (case publish_offer_sdp s of
        JObject fs \<Rightarrow>
          let fs = fold json_erase [''iceOptions'', ''fingerprint'', ''direction'', ''extmapAllowMixed''] fs in
          bind_outcome (json_get ''media'' (JObject fs)) (\<lambda>media.
          bind_outcome (json_sections media) (\<lambda>ms.
          bind_outcome (publish_sections dtx ms s) (\<lambda>(ms, ok, s).
          let answer = JObject (json_put ''media'' (JArray ms) fs); s = s\<lparr>publish_anwser_sdp := answer\<rparr>
          in if ok then bind_outcome (write answer) (\<lambda>t. Returns (Some t, s)) else Returns (None, s))))
      | _ \<Rightarrow> Fails)"

subsection \<open>The answer to a subscriber\<close>

text \<open>The first part of a string before a blank; \<open>None\<close> when there is none.\<close>

definition before_blank :: "string \<Rightarrow> string option" where
  "before_blank s = (if CHR '' '' \<in> set s then Some (takeWhile (\<lambda>c. c \<noteq> CHR '' '') s) else None)"

definition simulcast_ssrc :: "u32 \<Rightarrow> string \<Rightarrow> json" where
  "simulcast_ssrc i cname = JObject [(''attribute'', JString ''cname''), (''id'', JInt (uint i)), (''value'', JString cname)]"

definition simulcast_sources :: "string \<Rightarrow> json_fields \<Rightarrow> json_fields" where
  "simulcast_sources cname fs =
     json_put ''ssrcGroups'' (JArray [JObject [(''semantics'', JString ''FID''), (''ssrcs'', JString (to_string (uint kSimulcastSubscribeVideoSsrc)
         @ '' '' @ to_string (uint kSimulcastSubscribeVideoRtxSsrc)))]])
       (json_put ''ssrcs'' (JArray [simulcast_ssrc kSimulcastSubscribeVideoSsrc cname, simulcast_ssrc kSimulcastSubscribeVideoRtxSsrc cname])
         (json_erase ''ssrcGroups'' (json_erase ''ssrcs'' fs)))"

definition put_known :: "string \<Rightarrow> string \<Rightarrow> (string \<rightharpoonup> json) \<Rightarrow> json_fields \<Rightarrow> json_fields" where
  "put_known k type f fs = (case f type of None \<Rightarrow> fs | Some v \<Rightarrow> json_put k v fs)"

text \<open>The section, \<open>Returns None\<close> when the function gives up.\<close>

definition subscribe_section :: "SdpNegotiator \<Rightarrow> json \<Rightarrow> json option outcome" where
  "subscribe_section s m =
     (case m of
        JObject fs \<Rightarrow>
          let fs = json_put ''fingerprint'' (JObject [(''hash'', JString (local_fingerprint_hash s)), (''type'', JString (local_fingerprint_type s))])
              (put_transport ''sendonly'' s fs)
          in (case SetupSelector (remote_dtls_setup s) of
                None \<Rightarrow> OutOfBounds
              | Some setup \<Rightarrow>
                  let fs = json_put ''setup'' (JString setup) fs in
                  bind_outcome (json_get_string ''type'' (JObject fs)) (\<lambda>type.
                  let fs = orient ''send'' (put_known ''ssrcGroups'' type (media_section_ssrc_groups_map s)
                        (put_known ''ssrcs'' type (media_section_ssrcs_map s) fs))
                  in if map_of fs ''simulcast'' = None then Returns (Some (JObject (json_erase ''rids'' (json_erase ''simulcast'' fs))))
                  else bind_outcome (json_get_string ''msid'' (JObject fs)) (\<lambda>msid.
                    case before_blank msid of
                      None \<Rightarrow> Returns None
                    | Some cname \<Rightarrow> Returns (Some (JObject (json_erase ''rids'' (json_erase ''simulcast'' (simulcast_sources cname fs))))))))
      | _ \<Rightarrow> Fails)"

fun subscribe_sections :: "SdpNegotiator \<Rightarrow> json list \<Rightarrow> json list option outcome" where
  "subscribe_sections s [] = Returns (Some [])"
| "subscribe_sections s (m # ms) =
     require (subscribe_section s m) (\<lambda>m'. require (subscribe_sections s ms) (\<lambda>ms'. Returns (Some (m' # ms'))))"

fun catch_all :: "'a option outcome \<Rightarrow> 'a option outcome" where
  "catch_all Fails = Returns None"
| "catch_all x = x"

text \<open>Exceptions are caught. An answer that is not finished is read by nobody.\<close>

definition CreateSubscribeAnswer :: "(json \<Rightarrow> string outcome) \<Rightarrow> SdpNegotiator \<Rightarrow> (string \<times> SdpNegotiator) option outcome" where
  "CreateSubscribeAnswer write s =
     catch_all (require (Returns (json_at ''media'' (publish_anwser_sdp s))) (\<lambda>media.
       bind_outcome (json_sections media) (\<lambda>ms.
       require (subscribe_sections s ms) (\<lambda>ms.
       case publish_anwser_sdp s of
         JObject fs \<Rightarrow>
           let answer = JObject (json_put ''media'' (JArray ms) fs)
           in bind_outcome (write answer) (\<lambda>t.
             Returns (Some (t, s\<lparr>subscribe_anwser_sdp := answer, local_dtls_setup := the (SetupSelector (remote_dtls_setup s))\<rparr>)))
       | _ \<Rightarrow> Fails))))"

subsection \<open>What the streams set and read\<close>

definition SetLocalHostAddress :: "string \<Rightarrow> u16 \<Rightarrow> SdpNegotiator \<Rightarrow> SdpNegotiator" where
  "SetLocalHostAddress ip port s = s\<lparr>local_candidate := JObject (fold (\<lambda>(k, v). json_put k v)
     [(''foundation'', JString ''ylrtc''), (''component'', JInt kCandidateComponentRtp), (''transport'', JString ''udp''),
      (''priority'', JInt kMaxIceCandidatePriority), (''ip'', JString ip), (''port'', JInt (uint port)), (''type'', JString ''host'')]
     (case local_candidate s of JObject fs \<Rightarrow> fs | _ \<Rightarrow> []))\<rparr>"

definition SetLocalIceInfo :: "string \<Rightarrow> string \<Rightarrow> SdpNegotiator \<Rightarrow> SdpNegotiator" where
  "SetLocalIceInfo ufrag password s = s\<lparr>local_ice_ufrag := ufrag, local_ice_password := password\<rparr>"

definition SetLocalFingerprint :: "string \<Rightarrow> string \<Rightarrow> SdpNegotiator \<Rightarrow> SdpNegotiator" where
  "SetLocalFingerprint type hash s = s\<lparr>local_fingerprint_type := type, local_fingerprint_hash := hash\<rparr>"

definition GetPrimarySsrc :: "string \<Rightarrow> SdpNegotiator \<Rightarrow> u32 option outcome" where
  "GetPrimarySsrc type s =
     (case media_section_ssrcs_map s type of
        None \<Rightarrow> Returns None
      | Some ssrcs \<Rightarrow> if json_empty ssrcs then Returns None
          else bind_outcome (json_first ssrcs) (\<lambda>j. bind_outcome (json_get_int ''id'' j) (\<lambda>i. Returns (Some (of_int i)))))"

definition SdpHasVideo :: "SdpNegotiator \<Rightarrow> bool" where
  "SdpHasVideo s \<longleftrightarrow> media_section_rtpmaps_map s ''video'' \<noteq> None"

definition SdpHasAudio :: "SdpNegotiator \<Rightarrow> bool" where
  "SdpHasAudio s \<longleftrightarrow> media_section_rtpmaps_map s ''audio'' \<noteq> None"

text \<open>A section of the publish answer gets its sources back; one that is no object has no type.\<close>

definition section_sources :: "SdpNegotiator \<Rightarrow> json \<Rightarrow> json outcome" where
  "section_sources s m =
     (case m of
        JObject fs \<Rightarrow>
          (case map_of fs ''type'' of
             None \<Rightarrow> Returns m
           | Some t \<Rightarrow> bind_outcome (json_string t) (\<lambda>type.
               Returns (JObject (put_known ''ssrcGroups'' type (media_section_ssrc_groups_map s)
                 (put_known ''ssrcs'' type (media_section_ssrcs_map s) fs)))))
      | _ \<Rightarrow> Returns m)"

definition GetMediaSections :: "SdpNegotiator \<Rightarrow> json outcome" where
  "GetMediaSections s =
     (case json_at ''media'' (subscribe_anwser_sdp s) of
        Some media \<Rightarrow> Returns media
      | None \<Rightarrow> (case json_at ''media'' (publish_anwser_sdp s) of
            Some media \<Rightarrow> json_map_outcome (section_sources s) media
          | None \<Rightarrow> Returns JNull))"

section \<open>What an answer says\<close>

text \<open>A section of the answer is one of the offer with the server's own transport, and for media the server knows it is
  left with one codec, its retransmissions and what belongs to them.\<close>

definition payload_of :: "json \<Rightarrow> json option" where
  "payload_of = json_at ''payload''"

definition own_transport :: "string \<Rightarrow> SdpNegotiator \<Rightarrow> json_fields \<Rightarrow> bool" where
  "own_transport d s fs \<longleftrightarrow> map_of fs ''direction'' = Some (JString d) \<and> map_of fs ''candidates'' = Some (JArray [local_candidate s])
     \<and> map_of fs ''iceUfrag'' = Some (JString (local_ice_ufrag s)) \<and> map_of fs ''icePwd'' = Some (JString (local_ice_password s))
     \<and> (\<exists>gs. map_of fs ''fingerprint'' = Some (JObject gs) \<and> map_of gs ''type'' = Some (JString (local_fingerprint_type s))
          \<and> map_of gs ''hash'' = Some (JString (local_fingerprint_hash s)))
     \<and> map_option JString (SetupSelector (remote_dtls_setup s)) = map_of fs ''setup''"

text \<open>A list of the answer: those elements of the offered one that pass, in their order, each changed by \<open>f\<close>.\<close>

definition selected :: "string \<Rightarrow> (json \<Rightarrow> bool) \<Rightarrow> (json \<Rightarrow> json) \<Rightarrow> json_fields \<Rightarrow> json_fields \<Rightarrow> bool" where
  "selected k P f fs fs' \<longleftrightarrow> (map_of fs k = None \<longrightarrow> map_of fs' k = None)
     \<and> (\<forall>xs. map_of fs k = Some (JArray xs) \<longrightarrow> map_of fs' k = Some (JArray (map f (filter P xs))))"

definition apt_config :: "int \<Rightarrow> json" where
  "apt_config c = JString (''apt='' @ to_string c)"

definition apt_item :: "int \<Rightarrow> json \<Rightarrow> bool" where
  "apt_item c x \<longleftrightarrow> json_at ''config'' x = Some (apt_config c)"

definition payload_number :: "json \<Rightarrow> int \<Rightarrow> bool" where
  "payload_number x c \<longleftrightarrow> (\<exists>n. json_get_int ''payload'' x = Returns n \<and> cast32 n = c)"

text \<open>The payload type of the codec is that of the first item with its name; without a list it is -1.\<close>

definition codec_chosen :: "string \<Rightarrow> int \<Rightarrow> json_fields \<Rightarrow> bool" where
  "codec_chosen codec c fs \<longleftrightarrow> (map_of fs ''rtp'' = None \<longrightarrow> c = - 1)
     \<and> (\<forall>xs. map_of fs ''rtp'' = Some (JArray xs) \<longrightarrow>
          (\<exists>x. find (\<lambda>x. json_at ''codec'' x = Some (JString codec)) xs = Some x \<and> payload_number x c))"

text \<open>The payload type of the retransmissions is that of the last item tied to the codec; without one it is -1.\<close>

definition rtx_chosen :: "int \<Rightarrow> int \<Rightarrow> json_fields \<Rightarrow> bool" where
  "rtx_chosen c rtx fs \<longleftrightarrow> (map_of fs ''fmtp'' = None \<longrightarrow> rtx = - 1)
     \<and> (\<forall>xs. map_of fs ''fmtp'' = Some (JArray xs) \<longrightarrow>
          (if filter (apt_item c) xs = [] then rtx = - 1 else payload_number (last (filter (apt_item c) xs)) rtx))"

fun append_text :: "string \<Rightarrow> json \<Rightarrow> json" where
  "append_text t (JString s) = JString (s @ t)"
| "append_text t j = j"

definition with_dtx :: "bool \<Rightarrow> int \<Rightarrow> json \<Rightarrow> json" where
  "with_dtx dtx c x = (case json_at ''config'' x of
     Some v \<Rightarrow> if dtx \<and> payload_of x = Some (JInt c) then json_replace ''config'' (append_text '';usedtx=1'' v) x else x
   | None \<Rightarrow> x)"

definition feedback_for :: "int \<Rightarrow> json \<Rightarrow> bool" where
  "feedback_for c x \<longleftrightarrow> payload_of x = Some (JString (to_string c)) \<or> payload_of x = Some (JString ''*'')"

definition restricted :: "bool \<Rightarrow> string \<Rightarrow> json_fields \<Rightarrow> json_fields \<Rightarrow> bool" where
  "restricted dtx codec fs fs' \<longleftrightarrow> (\<exists>c rtx. codec_chosen codec c fs \<and> rtx_chosen c rtx fs
     \<and> map_of fs' ''payloads'' = Some (JString (if rtx = - 1 then to_string c else to_string c @ '' '' @ to_string rtx))
     \<and> selected ''rtp'' (\<lambda>x. payload_of x = Some (JInt c) \<or> rtx \<noteq> - 1 \<and> payload_of x = Some (JInt rtx)) id fs fs'
     \<and> selected ''fmtp'' (\<lambda>x. apt_item c x \<or> payload_of x = Some (JInt c)) (with_dtx (dtx \<and> codec = ''opus'') c) fs fs'
     \<and> selected ''rtcpFb'' (feedback_for c) id fs fs' \<and> selected ''rtcpFbTrrInt'' (feedback_for c) id fs fs')"

definition answers :: "bool \<Rightarrow> SdpNegotiator \<Rightarrow> json \<Rightarrow> json \<Rightarrow> bool" where
  "answers dtx s m m' \<longleftrightarrow> (\<exists>fs fs'. m = JObject fs \<and> m' = JObject fs' \<and> own_transport ''recvonly'' s fs' \<and> map_of fs' ''ssrcs'' = None
     \<and> (\<forall>type. map_of fs ''type'' = Some (JString type) \<longrightarrow> (case select_codec type of
          Some codec \<Rightarrow> restricted dtx codec fs fs'
        | None \<Rightarrow> \<forall>k\<in>{''rtp'', ''fmtp'', ''rtcpFb'', ''rtcpFbTrrInt'', ''payloads''}. map_of fs' k = map_of fs k)))"

subsection \<open>The passes\<close>

lemma filter_outcome_state:
  "filter_outcome keep xs s = Returns (ys, s') \<Longrightarrow> I s \<Longrightarrow> (\<And>x s b s'. x \<in> set xs \<Longrightarrow> I s \<Longrightarrow> keep x s = Returns (b, s') \<Longrightarrow> I s') \<Longrightarrow> I s'"
proof (induction xs arbitrary: s ys)
  case (Cons x xs)
  then obtain b t zs where "keep x s = Returns (b, t)" "filter_outcome keep xs t = Returns (zs, s')"
    by (auto simp: bind_outcome_eq_Returns split: if_splits)
  then show ?case using Cons by (meson list.set_intros)
qed simp

lemma filter_outcome_filter:
  "filter_outcome keep xs s = Returns (ys, s') \<Longrightarrow> (\<And>x s b s'. keep x s = Returns (b, s') \<Longrightarrow> b = P x) \<Longrightarrow> ys = filter P xs"
  by (induction xs arbitrary: s ys) (fastforce simp: bind_outcome_eq_Returns split: if_splits)+

text \<open>A pass over a field: the other fields stay, and of its elements those that pass the test.\<close>

lemma filter_field_other: "filter_field k keep fs s = Returns (fs', s') \<Longrightarrow> l \<noteq> k \<Longrightarrow> map_of fs' l = map_of fs l"
  by (auto simp: filter_field_def bind_outcome_eq_Returns split: option.splits)

lemma filter_field_selects:
  "filter_field k keep fs s = Returns (fs', s') \<Longrightarrow> (\<And>x s b s'. keep x s = Returns (b, s') \<Longrightarrow> b = P x) \<Longrightarrow> selected k P id fs fs'"
  using filter_outcome_filter [of keep _ s _ s' P]
  by (auto simp: filter_field_def selected_def bind_outcome_eq_Returns split: option.splits)

lemma filter_field_state:
  assumes "filter_field k keep fs s = Returns (fs', s')" "I s" "\<And>x s b s'. I s \<Longrightarrow> keep x s = Returns (b, s') \<Longrightarrow> I s'"
  shows "I s'"
proof (cases "map_of fs k")
  case (Some j)
  then obtain j' where "json_filter keep j s = Returns (j', s')"
    using assms(1) by (auto simp: filter_field_def bind_outcome_eq_Returns)
  then obtain ys where "filter_outcome keep (json_elements j) s = Returns (ys, s')"
    by (cases j) (auto simp: bind_outcome_eq_Returns)
  then show ?thesis using filter_outcome_state [of keep "json_elements j" s ys s' I] assms(2,3) by blast
qed (use assms(1,2) in \<open>simp add: filter_field_def\<close>)

lemma selected_cong: "map_of fs k = map_of gs k \<Longrightarrow> map_of fs' k = map_of gs' k \<Longrightarrow> selected k P f fs fs' = selected k P f gs gs'"
  by (simp add: selected_def)

lemma map_outcome_map: "map_outcome f xs = Returns ys \<Longrightarrow> (\<And>x y. f x = Returns y \<Longrightarrow> y = g x) \<Longrightarrow> ys = map g xs"
  by (induction xs arbitrary: ys) (auto simp: bind_outcome_eq_Returns)

lemma map_field_selects:
  assumes "map_field k f fs = Returns fs'" "\<And>x y. f x = Returns y \<Longrightarrow> y = g x" "selected k P id gs fs"
  shows "selected k P g gs fs'"
  unfolding selected_def
proof (intro conjI allI impI)
  show "map_of fs' k = None" if "map_of gs k = None" using assms(1,3) that by (auto simp: map_field_def selected_def)
  fix xs
  assume "map_of gs k = Some (JArray xs)"
  then have "map_of fs k = Some (JArray (filter P xs))" using assms(3) by (simp add: selected_def)
  then show "map_of fs' k = Some (JArray (map g (filter P xs)))"
    using assms(1,2) map_outcome_map [of f "filter P xs" _ g] by (auto simp: map_field_def bind_outcome_eq_Returns)
qed

lemma map_field_other: "map_field k f fs = Returns fs' \<Longrightarrow> l \<noteq> k \<Longrightarrow> map_of fs' l = map_of fs l"
  by (auto simp: map_field_def bind_outcome_eq_Returns split: option.splits)

lemma json_get_eq: "json_get k j = Returns v \<longleftrightarrow> json_at k j = Some v"
  by (cases "json_at k j") (simp_all add: json_get_def)

subsection \<open>One section\<close>

text \<open>What the transport fields of a negotiator are; the work on codecs leaves them alone.\<close>

definition transport_of :: "SdpNegotiator \<Rightarrow> json \<times> string list" where
  "transport_of s = (local_candidate s, [local_ice_ufrag s, local_ice_password s, local_fingerprint_type s, local_fingerprint_hash s, remote_dtls_setup s])"

lemma own_transport_cong: "transport_of s = transport_of s' \<Longrightarrow> own_transport d s = own_transport d s'"
  by (intro ext) (simp add: own_transport_def transport_of_def)

lemma transport_push [simp]: "transport_of (push_rtpmap type j s) = transport_of s"
  by (simp add: push_rtpmap_def transport_of_def)

lemma find_codec_find: "find_codec codec js = Returns r \<Longrightarrow> find (\<lambda>x. json_at ''codec'' x = Some (JString codec)) js = r"
  by (induction js) (auto simp: bind_outcome_eq_Returns json_get_eq split: if_splits)

lemma codec_payload_spec:
  assumes "codec_payload type codec fs s = Returns (Some c, s')"
  shows "transport_of s' = transport_of s" "codec_chosen codec c fs"
  using assms
  by (auto simp: codec_payload_def codec_chosen_def payload_number_def bind_outcome_eq_Returns dest!: find_codec_find split: option.splits if_splits)

text \<open>The pass over the format parameters remembers the last item that names the codec.\<close>

lemma keep_fmtp_test: "keep_fmtp c x rtx = Returns (b, rtx') \<Longrightarrow> b = (apt_item c x \<or> payload_of x = Some (JInt c))"
  by (auto simp: keep_fmtp_def payload_of_def apt_item_def apt_config_def bind_outcome_eq_Returns json_get_eq split: if_splits)

lemma keep_fmtp_rtx:
  "filter_outcome (keep_fmtp c) xs rtx = Returns (ys, rtx') \<Longrightarrow>
   (if filter (apt_item c) xs = [] then rtx' = rtx else payload_number (last (filter (apt_item c) xs)) rtx')"
proof (induction xs arbitrary: rtx ys)
  case (Cons x xs)
  then obtain b t zs where b: "keep_fmtp c x rtx = Returns (b, t)" "filter_outcome (keep_fmtp c) xs t = Returns (zs, rtx')"
    by (auto simp: bind_outcome_eq_Returns split: if_splits)
  have "if apt_item c x then payload_number x t else t = rtx"
    using b(1) by (auto simp: keep_fmtp_def apt_item_def apt_config_def payload_number_def bind_outcome_eq_Returns json_get_eq split: if_splits)
  then show ?case using Cons.IH [OF b(2)] by (auto split: if_splits)
qed simp

lemma add_dtx_with: "add_dtx c x = Returns y \<Longrightarrow> y = with_dtx True c x"
  by (auto simp: add_dtx_def with_dtx_def payload_of_def json_get_string_def bind_outcome_eq_Returns json_get_eq
      elim!: json_string.elims split: if_splits option.splits)

lemma with_dtx_off: "with_dtx False c = id"
  by (auto simp: with_dtx_def split: option.split)

lemma restrict_section_spec:
  assumes r: "restrict_section dtx type codec c fs s = Returns (fs', s')" and c: "codec_chosen codec c fs"
  shows "transport_of s' = transport_of s" "restricted dtx codec fs fs'"
    and "k \<notin> {''fmtp'', ''rtp'', ''rtcpFb'', ''rtcpFbTrrInt'', ''payloads''} \<Longrightarrow> map_of fs' k = map_of fs k"
proof -
  obtain f1 rtx f2 f3 f4 f5 where
    f1: "filter_field ''fmtp'' (keep_fmtp c) fs (- 1) = Returns (f1, rtx)"
    and f2: "(if dtx \<and> codec = ''opus'' then map_field ''fmtp'' (add_dtx c) f1 else Returns f1) = Returns f2"
    and f3: "filter_field ''rtp'' (keep_rtp type c rtx) f2 s = Returns (f3, s')"
    and f4: "filter_field ''rtcpFb'' (keep_feedback c) f3 () = Returns (f4, ())"
    and f5: "filter_field ''rtcpFbTrrInt'' (keep_feedback c) f4 () = Returns (f5, ())"
    and f': "fs' = json_put ''payloads'' (JString (if rtx = - 1 then to_string c else to_string c @ '' '' @ to_string rtx)) f5"
    using r by (auto simp: restrict_section_def bind_outcome_eq_Returns)
  have o2: "k \<noteq> ''fmtp'' \<Longrightarrow> map_of f2 k = map_of fs k" for k
    using f2 filter_field_other [OF f1, of k] map_field_other [of "''fmtp''" _ f1 f2 k] by (auto split: if_splits)
  note o3 = filter_field_other [OF f3] and o4 = filter_field_other [OF f4] and o5 = filter_field_other [OF f5]
  show "map_of fs' k = map_of fs k" if "k \<notin> {''fmtp'', ''rtp'', ''rtcpFb'', ''rtcpFbTrrInt'', ''payloads''}"
    using that o2 [of k] o3 [of k] o4 [of k] o5 [of k] by (simp add: f')
  show "transport_of s' = transport_of s"
    by (rule filter_field_state [OF f3, where I = "\<lambda>t. transport_of t = transport_of s"])
      (auto simp: keep_rtp_def bind_outcome_eq_Returns split: if_splits)
  have "selected ''fmtp'' (\<lambda>x. apt_item c x \<or> payload_of x = Some (JInt c)) id fs f1"
    by (rule filter_field_selects [OF f1 keep_fmtp_test])
  then have "selected ''fmtp'' (\<lambda>x. apt_item c x \<or> payload_of x = Some (JInt c)) (with_dtx (dtx \<and> codec = ''opus'') c) fs f2"
    using f2 map_field_selects [OF _ add_dtx_with] by (auto simp: with_dtx_off split: if_splits)
  then have fmtp: "selected ''fmtp'' (\<lambda>x. apt_item c x \<or> payload_of x = Some (JInt c)) (with_dtx (dtx \<and> codec = ''opus'') c) fs fs'"
    using o3 o4 o5 by (simp add: selected_def f')
  have "selected ''rtp'' (\<lambda>x. payload_of x = Some (JInt c) \<or> rtx \<noteq> - 1 \<and> payload_of x = Some (JInt rtx)) id f2 f3"
    by (rule filter_field_selects [OF f3]) (auto simp: keep_rtp_def payload_of_def bind_outcome_eq_Returns json_get_eq split: if_splits)
  then have rtp: "selected ''rtp'' (\<lambda>x. payload_of x = Some (JInt c) \<or> rtx \<noteq> - 1 \<and> payload_of x = Some (JInt rtx)) id fs fs'"
    using o2 o4 o5 by (simp add: selected_def f')
  have keep: "keep_feedback c x u = Returns (b, u') \<Longrightarrow> b = feedback_for c x" for x u b u'
    by (auto simp: keep_feedback_def feedback_for_def payload_of_def bind_outcome_eq_Returns json_get_eq)
  have "selected ''rtcpFb'' (feedback_for c) id f3 f4" "selected ''rtcpFbTrrInt'' (feedback_for c) id f4 f5"
    using filter_field_selects [OF f4 keep] filter_field_selects [OF f5 keep] by simp_all
  then have fb: "selected ''rtcpFb'' (feedback_for c) id fs fs'" "selected ''rtcpFbTrrInt'' (feedback_for c) id fs fs'"
    using o2 o3 o4 o5 by (simp_all add: selected_def f')
  have "rtx_chosen c rtx fs"
    using f1 keep_fmtp_rtx [of c _ "- 1" _ rtx] by (auto simp: rtx_chosen_def filter_field_def bind_outcome_eq_Returns split: option.splits)
  moreover have "map_of fs' ''payloads'' = Some (JString (if rtx = - 1 then to_string c else to_string c @ '' '' @ to_string rtx))"
    by (simp add: f')
  ultimately show "restricted dtx codec fs fs'"
    unfolding restricted_def using c rtp fmtp fb by blast
qed

lemma put_in_map: "put_in k l v fs = Returns fs' \<Longrightarrow> (\<forall>x. x \<noteq> k \<longrightarrow> map_of fs' x = map_of fs x)
    \<and> (\<exists>gs. map_of fs' k = Some (JObject gs) \<and> map_of gs l = Some v \<and> (\<forall>x hs. x \<noteq> l \<longrightarrow> map_of fs k = Some (JObject hs) \<longrightarrow> map_of gs x = map_of hs x))"
  by (auto simp: put_in_def split: option.splits json.splits)

lemma orient_map: "k \<noteq> ''simulcast'' \<Longrightarrow> k \<noteq> ''rids'' \<Longrightarrow> map_of (orient d fs) k = map_of fs k"
  by (simp add: orient_def)

text \<open>The transport part leaves the fields of the codecs and the type as they are.\<close>

lemma answer_transport_spec:
  assumes "answer_transport s m = Returns fs'"
  shows "\<exists>fs. m = JObject fs \<and> own_transport ''recvonly'' s fs' \<and> map_of fs' ''ssrcs'' = None
     \<and> (\<forall>k\<in>{''type'', ''rtp'', ''fmtp'', ''rtcpFb'', ''rtcpFbTrrInt'', ''payloads''}. map_of fs' k = map_of fs k)"
proof -
  obtain fs port where m: "m = JObject fs" "map_of fs ''port'' = Some port"
    using assms by (auto simp: answer_transport_def split: json.splits option.splits)
  define f1 where "f1 = json_put ''icelite'' (JString ''ice-lite'') (put_transport ''recvonly'' s
    (fold json_erase [''ssrcs'', ''ssrcGroups'', ''iceOptions'', ''candidates'', ''extmapAllowMixed''] (if port = JInt 0 then json_put ''port'' (JInt 9) fs else fs)))"
  obtain f2 f3 role where f2: "put_in ''fingerprint'' ''type'' (JString (local_fingerprint_type s)) f1 = Returns f2"
    and f3: "put_in ''fingerprint'' ''hash'' (JString (local_fingerprint_hash s)) f2 = Returns f3"
    and role: "SetupSelector (remote_dtls_setup s) = Some role" and fs': "fs' = orient ''recv'' (json_put ''setup'' (JString role) f3)"
    using assms m by (auto simp: answer_transport_def Let_def f1_def bind_outcome_eq_Returns split: option.splits)
  have k: "map_of fs' x = map_of f1 x" if "x \<notin> {''setup'', ''fingerprint'', ''simulcast'', ''rids''}" for x
    using that put_in_map [OF f2] put_in_map [OF f3] by (simp add: fs' orient_map)
  have st: "map_of fs' ''setup'' = Some (JString role)" by (simp add: fs' orient_map)
  have fp: "\<exists>gs. map_of fs' ''fingerprint'' = Some (JObject gs) \<and> map_of gs ''type'' = Some (JString (local_fingerprint_type s))
      \<and> map_of gs ''hash'' = Some (JString (local_fingerprint_hash s))"
    using put_in_map [OF f2] put_in_map [OF f3] by (simp add: fs' orient_map) force
  have "own_transport ''recvonly'' s fs'"
    using k st fp role by (simp add: own_transport_def f1_def put_transport_def)
  moreover have "map_of fs' ''ssrcs'' = None" by (simp add: k f1_def put_transport_def)
  moreover have "\<forall>k\<in>{''type'', ''rtp'', ''fmtp'', ''rtcpFb'', ''rtcpFbTrrInt'', ''payloads''}. map_of fs' k = map_of fs k"
    by (simp add: k f1_def put_transport_def)
  ultimately show ?thesis using m by blast
qed

lemma restricted_cong:
  "\<forall>k\<in>{''rtp'', ''fmtp'', ''rtcpFb'', ''rtcpFbTrrInt''}. map_of fs k = map_of gs k \<Longrightarrow> restricted dtx codec fs fs' = restricted dtx codec gs fs'"
  by (simp add: restricted_def selected_def codec_chosen_def rtx_chosen_def)

lemma publish_section_answers:
  assumes "publish_section dtx m s = Returns (m', True, s')"
  shows "answers dtx s m m' \<and> transport_of s' = transport_of s"
proof -
  define s1 where "s1 = s\<lparr>local_dtls_setup := the (SetupSelector (remote_dtls_setup s))\<rparr>"
  have t1: "transport_of s1 = transport_of s" by (simp add: s1_def transport_of_def)
  obtain f1 type where f1: "answer_transport s m = Returns f1" and type: "json_get_string ''type'' (JObject f1) = Returns type"
    and rest: "(case select_codec type of None \<Rightarrow> Returns (JObject f1, True, s1)
      | Some codec \<Rightarrow> bind_outcome (codec_payload type codec f1 s1) (\<lambda>(c, s). case c of None \<Rightarrow> Returns (JObject f1, False, s)
         | Some c \<Rightarrow> bind_outcome (restrict_section dtx type codec c f1 s) (\<lambda>(fs, s). Returns (JObject fs, True, s)))) = Returns (m', True, s')"
    using assms unfolding publish_section_def Let_def s1_def [symmetric] by (auto simp: bind_outcome_eq_Returns)
  obtain fs where fs: "m = JObject fs" "own_transport ''recvonly'' s f1" "map_of f1 ''ssrcs'' = None"
    "\<forall>k\<in>{''type'', ''rtp'', ''fmtp'', ''rtcpFb'', ''rtcpFbTrrInt'', ''payloads''}. map_of f1 k = map_of fs k"
    using answer_transport_spec [OF f1] by blast
  have ty: "map_of fs ''type'' = Some (JString type)"
    using type fs(4) by (auto simp: json_get_string_def bind_outcome_eq_Returns json_get_eq elim: json_string.elims)
  show ?thesis
  proof (cases "select_codec type")
    case None
    then have "m' = JObject f1" "s' = s1" using rest by simp_all
    moreover have "answers dtx s m (JObject f1)"
      unfolding answers_def using fs ty None by (intro exI [of _ fs] exI [of _ f1]) simp
    ultimately show ?thesis using t1 by simp
  next
    case (Some codec)
    obtain c s2 f2 where c: "codec_payload type codec f1 s1 = Returns (Some c, s2)"
      and f2: "restrict_section dtx type codec c f1 s2 = Returns (f2, s')" and m': "m' = JObject f2"
      using rest Some by (auto simp: bind_outcome_eq_Returns split: option.splits)
    note r = restrict_section_spec [OF f2 codec_payload_spec(2) [OF c]]
    have "own_transport ''recvonly'' s f2" "map_of f2 ''ssrcs'' = None" using fs(2,3) r(3) by (simp_all add: own_transport_def)
    moreover have "restricted dtx codec fs f2" using r(2) fs(4) restricted_cong [of f1 fs dtx codec f2] by simp
    ultimately have "answers dtx s m m'"
      unfolding answers_def using fs(1) ty Some m' by (intro exI [of _ fs] exI [of _ f2]) simp
    then show ?thesis using r(1) codec_payload_spec(1) [OF c] t1 by simp
  qed
qed

lemma answers_cong: "transport_of s = transport_of s' \<Longrightarrow> answers dtx s = answers dtx s'"
  by (intro ext) (simp only: answers_def own_transport_cong [of s s'])

lemma publish_sections_answer:
  "publish_sections dtx ms s = Returns (ms', True, s') \<Longrightarrow> list_all2 (answers dtx s) ms ms'"
proof (induction ms arbitrary: s ms')
  case (Cons m ms)
  then obtain m' t ns where m: "publish_section dtx m s = Returns (m', True, t)" "publish_sections dtx ms t = Returns (ns, True, s')" "ms' = m' # ns"
    by (auto simp: bind_outcome_eq_Returns split: if_splits)
  show ?case using Cons.IH [OF m(2)] publish_section_answers [OF m(1)] answers_cong [of s t dtx] m(3) by simp
qed simp

section \<open>Properties\<close>

text \<open>C19. What the answer to a publisher is, section by section. It carries the server's own transport with a DTLS role opposite
  to the offered one. In a section of audio or video the codec is the first offered one with the name Opus or VP8, and the
  retransmissions are the last that the format parameters tie to it. Of the offered codecs, format parameters and feedback
  the lists have exactly the items of these two payload types and, for feedback, of all types, unchanged and in their
  order, but that Opus is offered DTX when it is enabled; the payload types are listed. Other sections keep
  their lists.\<close>

theorem publish_answer_restricts:
  assumes "CreatePublishAnswer write dtx s = Returns (Some t, s')" "json_at ''media'' (publish_offer_sdp s) = Some (JArray ms)"
  shows "\<exists>fs ms'. publish_anwser_sdp s' = JObject fs \<and> write (JObject fs) = Returns t \<and> map_of fs ''media'' = Some (JArray ms')
    \<and> list_all2 (answers dtx s) ms ms'"
proof -
  obtain fs where fs: "publish_offer_sdp s = JObject fs" using assms(2) by (cases "publish_offer_sdp s") simp_all
  define f1 where "f1 = fold json_erase [''iceOptions'', ''fingerprint'', ''direction'', ''extmapAllowMixed''] fs"
  have "map_of f1 ''media'' = Some (JArray ms)" using assms(2) fs by (simp add: f1_def)
  then obtain ms' s1 where s1: "publish_sections dtx ms s = Returns (ms', True, s1)"
    "write (JObject (json_put ''media'' (JArray ms') f1)) = Returns t" "s' = s1\<lparr>publish_anwser_sdp := JObject (json_put ''media'' (JArray ms') f1)\<rparr>"
    using assms(1) unfolding CreatePublishAnswer_def fs json.case Let_def f1_def [symmetric]
    by (auto simp: json_get_eq bind_outcome_eq_Returns split: if_splits)
  then show ?thesis using publish_sections_answer [OF s1(1)] by (intro exI [of _ "json_put ''media'' (JArray ms') f1"] exI [of _ ms']) simp
qed

text \<open>A video section with VP8 and its retransmissions, offered behind H264.\<close>

definition codec_item :: "string \<Rightarrow> int \<Rightarrow> json" where
  "codec_item codec n = JObject [(''codec'', JString codec), (''payload'', JInt n), (''rate'', JInt 90000)]"

definition video_section :: json where
  "video_section = JObject [(''fmtp'', JArray [JObject [(''config'', JString ''apt=96''), (''payload'', JInt 97)]]), (''port'', JInt 9),
     (''rtp'', JArray [codec_item ''H264'' 98, codec_item ''VP8'' 96, codec_item ''rtx'' 97]), (''type'', JString ''video'')]"

definition video_offer :: SdpNegotiator where
  "video_offer = new_negotiator\<lparr>publish_offer_sdp := JObject [(''media'', JArray [video_section])], remote_dtls_setup := ''actpass''\<rparr>"

lemma decimal_step: "decimal n = (if n < 10 then [char_of (48 + n)] else decimal (n div 10) @ [char_of (48 + n mod 10)])"
  by (rule decimal.simps)

lemma decimal_96: "to_string 96 = ''96''" "to_string 97 = ''97''"
  by (simp_all add: to_string_def decimal_step [of 96] decimal_step [of 97] decimal_step [of 9] char_of_eq_iff)

lemmas publish_answer_eval = CreatePublishAnswer_def Let_def json_get_def json_get_int_def json_get_string_def publish_section_def answer_transport_def put_transport_def
  put_in_def orient_def update_field_def select_codec_def codec_payload_def push_rtpmap_def restrict_section_def filter_field_def
  keep_fmtp_def keep_rtp_def keep_feedback_def json_erase_def SetupSelector_def cast32_def

lemma video_answer: "\<exists>s'. CreatePublishAnswer (\<lambda>_. Returns ''v=0'') True video_offer = Returns (Some ''v=0'', s')"
  by (simp add: publish_answer_eval video_offer_def video_section_def codec_item_def new_negotiator_def decimal_96)

theorem publish_answer_restricts_witness:
  "\<exists>s' fs fs'. CreatePublishAnswer (\<lambda>_. Returns ''v=0'') True video_offer = Returns (Some ''v=0'', s')
    \<and> publish_anwser_sdp s' = JObject fs \<and> map_of fs ''media'' = Some (JArray [JObject fs'])
    \<and> map_of fs' ''rtp'' = Some (JArray [codec_item ''VP8'' 96, codec_item ''rtx'' 97]) \<and> map_of fs' ''payloads'' = Some (JString ''96 97'')"
proof -
  obtain s' where s': "CreatePublishAnswer (\<lambda>_. Returns ''v=0'') True video_offer = Returns (Some ''v=0'', s')" using video_answer by blast
  have "json_at ''media'' (publish_offer_sdp video_offer) = Some (JArray [video_section])" by (simp add: video_offer_def)
  from publish_answer_restricts [OF s' this] obtain fs fs' where fs: "publish_anwser_sdp s' = JObject fs" "map_of fs ''media'' = Some (JArray [JObject fs'])"
    and a: "answers True video_offer video_section (JObject fs')"
    by (auto simp: list_all2_Cons1 answers_def)
  from a obtain c rtx where c: "c = 96" "rtx = 97"
    and r: "map_of fs' ''rtp'' = Some (JArray [codec_item ''VP8'' 96, codec_item ''rtx'' 97])" "map_of fs' ''payloads'' = Some (JString ''96 97'')"
    by (auto simp: answers_def video_section_def restricted_def select_codec_def selected_def codec_chosen_def rtx_chosen_def codec_item_def
        payload_number_def payload_of_def json_get_int_def json_get_def apt_item_def apt_config_def decimal_96 cast32_def)
  show ?thesis using s' fs r by blast
qed

end
