(* ===== verification/Packet_Arrival_Map.thy ===== *)
theory Packet_Arrival_Map
  imports Prelude
begin

text \<open>
  The arrival times of received packets, \<^verbatim>\<open>src/src/congestion_controller/packet_arrival_map.{h,cpp}\<close>: a
  deque of times that starts at a sequence number and in which zero stands for a packet that has not
  arrived. The first half is the code, the second the abstract specification, a partial function from
  sequence numbers to times, and the proof that the code refines it. Sequence numbers are unwrapped.
\<close>

section \<open>The code\<close>

definition kMaxNumberOfPackets :: nat where "kMaxNumberOfPackets = 2 ^ 15"

record PacketArrivalTimeMap =
  arrival_times :: "int list"
  begin_sequence_number :: int
  has_seen_packet :: bool

definition new_arrival_map :: PacketArrivalTimeMap where
  "new_arrival_map = \<lparr>arrival_times = [], begin_sequence_number = 0, has_seen_packet = False\<rparr>"

definition end_sequence_number :: "PacketArrivalTimeMap \<Rightarrow> int" where
  "end_sequence_number m = begin_sequence_number m + int (length (arrival_times m))"

definition has_received :: "int \<Rightarrow> PacketArrivalTimeMap \<Rightarrow> bool" where
  "has_received seq m =
     (let pos = seq - begin_sequence_number m
      in 0 \<le> pos \<and> pos < int (length (arrival_times m)) \<and> arrival_times m ! nat pos \<noteq> 0)"

text \<open>Called between \<open>begin_sequence_number\<close> and \<open>end_sequence_number\<close> only.\<close>

definition arrival_get :: "int \<Rightarrow> PacketArrivalTimeMap \<Rightarrow> int" where
  "arrival_get seq m = arrival_times m ! nat (seq - begin_sequence_number m)"

definition arrival_clamp :: "int \<Rightarrow> PacketArrivalTimeMap \<Rightarrow> int" where
  "arrival_clamp seq m =
     (if seq < begin_sequence_number m then begin_sequence_number m
      else if end_sequence_number m < seq then end_sequence_number m else seq)"

text \<open>The loop that trims leading packets that have not arrived.\<close>

definition trim_from :: "nat \<Rightarrow> int list \<Rightarrow> nat" where
  "trim_from n ts = n + length (takeWhile (\<lambda>t. t = 0) (drop n ts))"

definition make_space :: "int \<Rightarrow> int \<Rightarrow> int list \<Rightarrow> int \<Rightarrow> int list \<times> int \<times> int" where
  "make_space seq pos ts b =
     (if nat pos \<ge> kMaxNumberOfPackets then
        let packets_to_remove = nat pos - kMaxNumberOfPackets + 1
        in if packets_to_remove \<ge> length ts then ([], seq, 0)
           else let packets_to_remove = trim_from packets_to_remove ts
                in (drop packets_to_remove ts, b + int packets_to_remove, pos - int packets_to_remove)
      else (ts, b, pos))"

definition AddPacket :: "int \<Rightarrow> int \<Rightarrow> PacketArrivalTimeMap \<Rightarrow> PacketArrivalTimeMap" where
  "AddPacket seq t m =
     (if \<not> has_seen_packet m then
        m\<lparr>has_seen_packet := True, begin_sequence_number := seq, arrival_times := arrival_times m @ [t]\<rparr>
      else
        let pos = seq - begin_sequence_number m; ts = arrival_times m in
        if 0 \<le> pos \<and> pos < int (length ts) then m\<lparr>arrival_times := ts[nat pos := t]\<rparr>
        else if pos < 0 then
          let missing_packets = nat (- pos)
          in if missing_packets + length ts > kMaxNumberOfPackets then m
             else m\<lparr>arrival_times := (replicate missing_packets 0 @ ts)[0 := t], begin_sequence_number := seq\<rparr>
        else
          let (ts, b, pos) = make_space seq pos ts (begin_sequence_number m);
              missing_gap_packets = nat pos - length ts
          in m\<lparr>arrival_times := ts @ replicate missing_gap_packets 0 @ [t], begin_sequence_number := b\<rparr>)"

fun remove_old :: "int \<Rightarrow> int \<Rightarrow> int list \<Rightarrow> int \<Rightarrow> int list \<times> int" where
  "remove_old seq limit [] b = ([], b)"
| "remove_old seq limit (t # ts) b = (if b < seq \<and> t \<le> limit then remove_old seq limit ts (b + 1) else (t # ts, b))"

definition RemoveOldPackets :: "int \<Rightarrow> int \<Rightarrow> PacketArrivalTimeMap \<Rightarrow> PacketArrivalTimeMap" where
  "RemoveOldPackets seq arrival_time_limit m =
     (let (ts, b) = remove_old seq arrival_time_limit (arrival_times m) (begin_sequence_number m)
      in m\<lparr>arrival_times := ts, begin_sequence_number := b\<rparr>)"

definition EraseTo :: "int \<Rightarrow> PacketArrivalTimeMap \<Rightarrow> PacketArrivalTimeMap" where
  "EraseTo seq m =
     (if seq > begin_sequence_number m then
        let n = min (nat (seq - begin_sequence_number m)) (length (arrival_times m))
        in m\<lparr>arrival_times := drop n (arrival_times m), begin_sequence_number := begin_sequence_number m + int n\<rparr>
      else m)"

section \<open>The specification\<close>

text \<open>What a list of times from \<open>b\<close> on says of \<open>y\<close>.\<close>

definition slot :: "int list \<Rightarrow> int \<Rightarrow> int \<Rightarrow> int option" where
  "slot ts b y = (if b \<le> y \<and> y < b + int (length ts) \<and> ts ! nat (y - b) \<noteq> 0 then Some (ts ! nat (y - b)) else None)"

definition arrived :: "PacketArrivalTimeMap \<Rightarrow> int \<Rightarrow> int option" where
  "arrived m = slot (arrival_times m) (begin_sequence_number m)"

definition map_ok :: "PacketArrivalTimeMap \<Rightarrow> bool" where
  "map_ok m \<longleftrightarrow> length (arrival_times m) \<le> kMaxNumberOfPackets \<and> (\<not> has_seen_packet m \<longrightarrow> arrival_times m = [])"

text \<open>A packet is too old for the map when it would make it longer than the limit.\<close>

definition too_old :: "int \<Rightarrow> PacketArrivalTimeMap \<Rightarrow> bool" where
  "too_old y m \<longleftrightarrow> has_seen_packet m \<and> y < begin_sequence_number m \<and> end_sequence_number m - y > int kMaxNumberOfPackets"

lemma slot_Nil [simp]: "slot [] b y = None"
  by (simp add: slot_def)

lemma slot_append: "slot (xs @ ys) b y = (if y < b + int (length xs) then slot xs b y else slot ys (b + int (length xs)) y)"
proof (cases "y < b + int (length xs)")
  case True
  then show ?thesis by (auto simp: slot_def nth_append)
next
  case False
  then have "nat (y - b) - length xs = nat (y - (b + int (length xs)))" "\<not> nat (y - b) < length xs" by linarith+
  then show ?thesis using False by (auto simp: slot_def nth_append)
qed

lemma slot_zeros [simp]: "slot (replicate n 0) b y = None"
proof -
  have "b \<le> y \<Longrightarrow> y < b + int n \<Longrightarrow> replicate n (0::int) ! nat (y - b) = 0" by (rule nth_replicate) linarith
  then show ?thesis by (simp only: slot_def length_replicate) auto
qed

lemma slot_Cons: "slot (t # ts) b y = (if y = b then if t = 0 then None else Some t else slot ts (b + 1) y)"
proof (cases "y \<le> b")
  case False
  then have "nat (y - b) = Suc (nat (y - (b + 1)))" by linarith
  then show ?thesis using False by (auto simp: slot_def)
qed (auto simp: slot_def)

lemma slot_drop: "slot (drop k ts) (b + int k) y = (if b + int k \<le> y then slot ts b y else None)"
proof (cases "b + int k \<le> y \<and> y < b + int (length ts)")
  case True
  then have "drop k ts ! nat (y - (b + int k)) = ts ! nat (y - b)"
    by (subst nth_drop) (auto simp: nat_diff_distrib intro!: arg_cong [of _ _ "(!) ts"])
  then show ?thesis using True by (auto simp: slot_def)
qed (auto simp: slot_def)

lemma slot_update:
  assumes "k < length ts" "t \<noteq> 0"
  shows "slot (ts[k := t]) b y = (if y = b + int k then Some t else slot ts b y)"
proof (cases "y = b + int k")
  case False
  then have "b \<le> y \<Longrightarrow> ts[k := t] ! nat (y - b) = ts ! nat (y - b)" by (subst nth_list_update_neq) auto
  then show ?thesis using False by (auto simp: slot_def)
qed (use assms in \<open>simp add: slot_def\<close>)

lemma arrived_received: "has_received y m \<longleftrightarrow> arrived m y \<noteq> None"
  by (auto simp: has_received_def arrived_def slot_def Let_def)

lemma slot_range: "slot ts b y = Some t \<Longrightarrow> b \<le> y \<and> y < b + int (length ts)"
  by (auto simp: slot_def split: if_splits)

text \<open>Trimming takes away only what has not arrived.\<close>

lemma trim_from:
  assumes "n \<le> length ts"
  shows "n \<le> trim_from n ts" "trim_from n ts \<le> length ts"
    and "slot (drop (trim_from n ts) ts) (b + int (trim_from n ts)) y = slot (drop n ts) (b + int n) y"
proof -
  let ?z = "takeWhile (\<lambda>t. t = 0) (drop n ts)"
  show "n \<le> trim_from n ts" by (simp add: trim_from_def)
  have l: "length ?z \<le> length (drop n ts)" by (rule length_takeWhile_le)
  then show "trim_from n ts \<le> length ts" using assms by (simp add: trim_from_def)
  define L D where "L = length ?z" "D = dropWhile (\<lambda>t. t = 0) (drop n ts)"
  have k: "trim_from n ts = n + L" by (simp add: trim_from_def L_D_def)
  have z: "?z = replicate L 0"
    unfolding L_D_def by (rule replicate_length_same [symmetric]) (auto dest: set_takeWhileD)
  have "drop n ts = ?z @ D" by (simp add: L_D_def)
  then have split: "drop n ts = replicate L 0 @ D" by (simp only: z)
  have D: "D = drop (trim_from n ts) ts"
    unfolding k by (simp add: L_D_def(2) dropWhile_eq_drop L_D_def(1) ac_simps)
  have "slot (drop n ts) (b + int n) y = (if y < b + int (trim_from n ts) then None else slot D (b + int (trim_from n ts)) y)"
    unfolding split slot_append k by (simp add: add.assoc)
  also have "\<dots> = slot (drop (trim_from n ts) ts) (b + int (trim_from n ts)) y"
    unfolding D by (cases "y < b + int (trim_from n ts)") (auto simp: slot_def)
  finally show "slot (drop (trim_from n ts) ts) (b + int (trim_from n ts)) y = slot (drop n ts) (b + int n) y" ..
qed

text \<open>Making space forgets exactly what is a window's length behind the new packet.\<close>

lemma make_space:
  assumes "make_space seq pos ts b = (ts', b', pos')" "pos = seq - b" "int (length ts) \<le> pos"
  shows "int (length ts') \<le> pos'" "pos' < int kMaxNumberOfPackets" "seq = b' + pos'"
    and "length ts \<le> kMaxNumberOfPackets \<Longrightarrow> slot ts' b' y = (if seq - int kMaxNumberOfPackets < y then slot ts b y else None)"
proof -
  let ?M = kMaxNumberOfPackets
  let ?n = "nat pos - ?M + 1"
  have p0: "0 \<le> pos" using assms(3) by linarith
  have goals: "int (length ts') \<le> pos' \<and> pos' < int ?M \<and> seq = b' + pos'
    \<and> (length ts \<le> ?M \<longrightarrow> slot ts' b' y = (if seq - int ?M < y then slot ts b y else None))"
  proof (cases "nat pos \<ge> ?M")
    case False
    then have "ts' = ts" "b' = b" "pos' = pos" using assms(1) by (simp_all add: make_space_def)
    moreover have "\<not> seq - int ?M < y \<Longrightarrow> slot ts b y = None" using False assms(2,3) by (auto simp: slot_def)
    ultimately show ?thesis using False assms(2,3) by auto
  next
    case True
    show ?thesis
    proof (cases "?n \<ge> length ts")
      case big: True
      then have "ts' = []" "b' = seq" "pos' = 0" using assms(1) True by (simp_all add: make_space_def)
      moreover have "slot ts b y = None" if "seq - int ?M < y"
      proof -
        have "b + int ?n = seq - int ?M + 1" using True assms(2) p0 by simp
        then have "\<not> y < b + int (length ts)" using big that by linarith
        then show ?thesis by (simp add: slot_def)
      qed
      ultimately show ?thesis by (auto simp: kMaxNumberOfPackets_def)
    next
      case False
      define k where "k = trim_from ?n ts"
      have r: "ts' = drop k ts" "b' = b + int k" "pos' = pos - int k"
        using assms(1) True False by (simp_all add: make_space_def k_def Let_def)
      have n: "?n \<le> length ts" using False by simp
      note tr = trim_from [OF n, folded k_def]
      have "slot ts' b' y = (if b + int ?n \<le> y then slot ts b y else None)"
        unfolding r tr(3) by (rule slot_drop)
      moreover have "b + int ?n = seq - int ?M + 1" using True assms(2) p0 by simp
      ultimately show ?thesis using r tr(1,2) assms(2,3) True by auto
    qed
  qed
  then show "int (length ts') \<le> pos'" "pos' < int ?M" "seq = b' + pos'"
    and "length ts \<le> ?M \<Longrightarrow> slot ts' b' y = (if seq - int ?M < y then slot ts b y else None)"
    by blast+
qed

lemma AddPacket_before:
  assumes ok: "map_ok m" and t: "t \<noteq> 0" and seen: "has_seen_packet m" and before: "x < begin_sequence_number m"
  shows "map_ok (AddPacket x t m) \<and> has_seen_packet (AddPacket x t m) \<and> arrived (AddPacket x t m) y =
      (if too_old x m then arrived m y else if y = x then Some t else if x - int kMaxNumberOfPackets < y then arrived m y else None)"
proof -
  let ?M = kMaxNumberOfPackets and ?ts = "arrival_times m" and ?b = "begin_sequence_number m"
  define pos where "pos = x - ?b"
  have M: "0 < ?M" by (simp add: kMaxNumberOfPackets_def)
  have p0: "pos < 0" using before by (simp add: pos_def)
  define n where "n = nat (- pos)"
  have n: "n = Suc (n - 1)" "int n = ?b - x" using p0 by (simp_all add: n_def pos_def)
  show ?thesis
  proof (cases "n + length ?ts > ?M")
    case True
    then have "too_old x m" using seen p0 n(2) by (simp add: too_old_def end_sequence_number_def pos_def)
    then show ?thesis using seen p0 True ok by (simp add: AddPacket_def Let_def pos_def [symmetric] n_def)
  next
    case False
    have "(replicate n 0 @ ?ts)[0 := t] = t # replicate (n - 1) 0 @ ?ts" by (subst n(1)) simp
    then have "AddPacket x t m = m\<lparr>arrival_times := t # replicate (n - 1) 0 @ ?ts, begin_sequence_number := x\<rparr>"
      using seen p0 False by (simp add: AddPacket_def Let_def pos_def [symmetric] n_def)
    moreover have "x + 1 + int (n - 1) = ?b" using n by linarith
    moreover have "slot ?ts ?b y = None" if "y < ?b" using that by (simp add: slot_def)
    moreover have "\<not> too_old x m" using False n(2) by (simp add: too_old_def end_sequence_number_def)
    moreover have "length (t # replicate (n - 1) 0 @ ?ts) \<le> ?M" using False n(1) by simp
    ultimately show ?thesis using seen t M n p0
      by (auto simp: map_ok_def arrived_def slot_Cons slot_append pos_def)
  qed
qed

lemma AddPacket_behind:
  assumes ok: "map_ok m" and t: "t \<noteq> 0" and seen: "has_seen_packet m" and behind: "end_sequence_number m \<le> x"
  shows "map_ok (AddPacket x t m) \<and> has_seen_packet (AddPacket x t m) \<and> arrived (AddPacket x t m) y =
      (if too_old x m then arrived m y else if y = x then Some t else if x - int kMaxNumberOfPackets < y then arrived m y else None)"
proof -
  let ?M = kMaxNumberOfPackets and ?ts = "arrival_times m" and ?b = "begin_sequence_number m"
  define pos where "pos = x - ?b"
  have len: "length ?ts \<le> ?M" using ok by (simp add: map_ok_def)
  have behind: "int (length ?ts) \<le> pos" using behind by (simp add: pos_def end_sequence_number_def)
  obtain ts' b' pos' where mk: "make_space x pos ?ts ?b = (ts', b', pos')" by (metis surj_pair)
  note ms = make_space [OF mk pos_def behind]
  let ?z = "replicate (nat pos' - length ts') 0 @ [t]"
  have a: "AddPacket x t m = m\<lparr>arrival_times := ts' @ ?z, begin_sequence_number := b'\<rparr>"
    using seen behind mk by (simp add: AddPacket_def Let_def pos_def)
  have e: "b' + int (length ts') + int (nat pos' - length ts') = x" using ms(1,3) by simp
  have "slot ts' b' y = None" if "\<not> y < b' + int (length ts')" using that by (simp add: slot_def)
  then have "slot (ts' @ ?z) b' y = (if y = x then Some t else slot ts' b' y)"
    using ms(1,3) t e by (auto simp: slot_append slot_Cons)
  moreover have "length (ts' @ ?z) \<le> ?M" using ms(1,2) by simp
  moreover have "\<not> too_old x m" using behind by (simp add: too_old_def pos_def)
  ultimately show ?thesis using a seen ms(4) [OF len] by (simp add: map_ok_def arrived_def)
qed

lemma AddPacket_refines:
  assumes ok: "map_ok m" and t: "t \<noteq> 0"
  shows "map_ok (AddPacket x t m)" "has_seen_packet (AddPacket x t m)"
    and "arrived (AddPacket x t m) y =
      (if too_old x m then arrived m y else if y = x then Some t else if x - int kMaxNumberOfPackets < y then arrived m y else None)"
proof -
  let ?M = kMaxNumberOfPackets and ?ts = "arrival_times m" and ?b = "begin_sequence_number m"
  have len: "length ?ts \<le> ?M" using ok by (simp add: map_ok_def)
  have M: "0 < ?M" by (simp add: kMaxNumberOfPackets_def)
  have "map_ok (AddPacket x t m) \<and> has_seen_packet (AddPacket x t m) \<and> arrived (AddPacket x t m) y =
      (if too_old x m then arrived m y else if y = x then Some t else if x - int ?M < y then arrived m y else None)"
  proof (cases "has_seen_packet m")
    case False
    then have "?ts = []" using ok by (simp add: map_ok_def)
    then show ?thesis using False t M by (simp add: AddPacket_def map_ok_def arrived_def slot_Cons too_old_def)
  next
    case seen: True
    define pos where "pos = x - ?b"
    consider (inside) "0 \<le> pos" "pos < int (length ?ts)" | (before) "pos < 0" | (behind) "int (length ?ts) \<le> pos" by linarith
    then show ?thesis
    proof cases
      case inside
      have b: "?b + int (nat pos) = x" using inside by (simp add: pos_def)
      have "AddPacket x t m = m\<lparr>arrival_times := ?ts[nat pos := t]\<rparr>" using seen inside by (simp add: AddPacket_def Let_def pos_def)
      moreover have "slot (?ts[nat pos := t]) ?b y = (if y = x then Some t else slot ?ts ?b y)"
        using slot_update [of "nat pos" ?ts t ?b y] inside t b by simp
      moreover have "slot ?ts ?b y = None" if "\<not> x - int ?M < y" using that inside len by (auto simp: slot_def pos_def)
      ultimately show ?thesis using seen len inside by (auto simp: map_ok_def arrived_def too_old_def pos_def)
    next
      case before
      then show ?thesis using AddPacket_before [OF ok t seen, of x y] by (simp add: pos_def)
    next
      case behind
      then show ?thesis using AddPacket_behind [OF ok t seen, of x y] by (simp add: pos_def end_sequence_number_def)
    qed
  qed
  then show "map_ok (AddPacket x t m)" "has_seen_packet (AddPacket x t m)"
    and "arrived (AddPacket x t m) y =
      (if too_old x m then arrived m y else if y = x then Some t else if x - int ?M < y then arrived m y else None)"
    by blast+
qed

lemma remove_old_drop:
  "\<exists>k. remove_old x l ts b = (drop k ts, b + int k) \<and> k \<le> length ts \<and> (0 < k \<longrightarrow> b + int k \<le> x) \<and> (\<forall>t\<in>set (take k ts). t \<le> l)"
proof (induction ts arbitrary: b)
  case (Cons t ts)
  show ?case
  proof (cases "b < x \<and> t \<le> l")
    case True
    obtain k where k: "remove_old x l ts (b + 1) = (drop k ts, b + 1 + int k)" "k \<le> length ts" "0 < k \<longrightarrow> b + 1 + int k \<le> x"
      "\<forall>t\<in>set (take k ts). t \<le> l"
      using Cons.IH by blast
    then show ?thesis using True by (intro exI [of _ "Suc k"]) auto
  qed (auto intro: exI [of _ 0])
qed simp

lemma AddPacket_map_ok: "map_ok m \<Longrightarrow> map_ok (AddPacket x t m)"
  using AddPacket_refines(1) [of m 1 x] by (auto simp: AddPacket_def Let_def map_ok_def split: prod.splits)

lemma RemoveOld_refines:
  assumes "map_ok m"
  shows "\<exists>k. map_ok (RemoveOldPackets x l m) \<and> begin_sequence_number (RemoveOldPackets x l m) = begin_sequence_number m + int k
     \<and> end_sequence_number (RemoveOldPackets x l m) = end_sequence_number m
     \<and> has_seen_packet (RemoveOldPackets x l m) = has_seen_packet m \<and> (0 < k \<longrightarrow> begin_sequence_number m + int k \<le> x)
     \<and> (\<forall>y. arrived (RemoveOldPackets x l m) y = (if begin_sequence_number m + int k \<le> y then arrived m y else None))
     \<and> (\<forall>y<begin_sequence_number m + int k. \<forall>t. arrived m y = Some t \<longrightarrow> t \<le> l)"
proof -
  let ?ts = "arrival_times m" and ?b = "begin_sequence_number m"
  obtain k where k: "remove_old x l ?ts ?b = (drop k ?ts, ?b + int k)" "k \<le> length ?ts" "0 < k \<longrightarrow> ?b + int k \<le> x"
    "\<forall>t\<in>set (take k ?ts). t \<le> l"
    using remove_old_drop by blast
  have r: "RemoveOldPackets x l m = m\<lparr>arrival_times := drop k ?ts, begin_sequence_number := ?b + int k\<rparr>"
    by (simp add: RemoveOldPackets_def k(1))
  have "t \<le> l" if "y < ?b + int k" "arrived m y = Some t" for y t
  proof -
    have y: "?b \<le> y" "y < ?b + int (length ?ts)" "t = ?ts ! nat (y - ?b)" using that(2) by (auto simp: arrived_def slot_def split: if_splits)
    then have "nat (y - ?b) < k" "nat (y - ?b) < length ?ts" using that(1) by linarith+
    then have "t \<in> set (take k ?ts)" using y(3) by (auto simp: in_set_conv_nth intro: exI [of _ "nat (y - ?b)"])
    then show ?thesis using k(4) by blast
  qed
  then show ?thesis
    using assms k(2,3) unfolding r
    by (intro exI [of _ k]) (auto simp: map_ok_def arrived_def slot_drop end_sequence_number_def)
qed

section \<open>Properties\<close>

text \<open>C18. The arrival map refines a partial function from sequence numbers to times: recording a packet updates
  the function and forgets what lies a window of \<open>2^15\<close> behind it, unless the packet itself lies that far
  behind the newest, then nothing changes; asking for a packet looks the function up. The deque never
  grows beyond the window, however far the numbers jump.\<close>

theorem arrival_map_refines:
  assumes "map_ok m" "t \<noteq> 0"
  shows "arrived (AddPacket x t m) = (if too_old x m then arrived m else ((arrived m)(x \<mapsto> t)) |` {y. x - int kMaxNumberOfPackets < y})
    \<and> map_ok (AddPacket x t m) \<and> (has_received y m \<longleftrightarrow> y \<in> dom (arrived m))
    \<and> (has_received y m \<longrightarrow> arrived m y = Some (arrival_get y m))"
proof (intro conjI)
  show "arrived (AddPacket x t m) = (if too_old x m then arrived m else ((arrived m)(x \<mapsto> t)) |` {y. x - int kMaxNumberOfPackets < y})"
    using AddPacket_refines(3) [OF assms] by (auto simp: fun_eq_iff restrict_map_def kMaxNumberOfPackets_def)
  show "has_received y m \<longrightarrow> arrived m y = Some (arrival_get y m)"
    by (auto simp: has_received_def arrived_def slot_def arrival_get_def Let_def)
qed (use AddPacket_refines(1) [OF assms] in \<open>auto simp: arrived_received\<close>)

theorem arrival_map_refines_witness:
  "arrived (AddPacket 40000 9 (AddPacket 3 5 new_arrival_map)) = [40000 \<mapsto> 9]"
proof -
  have n: "map_ok new_arrival_map" "arrived new_arrival_map = Map.empty" "\<not> too_old 3 new_arrival_map"
    by (simp_all add: map_ok_def new_arrival_map_def arrived_def fun_eq_iff too_old_def)
  have a: "arrived (AddPacket 3 5 new_arrival_map) = [3 \<mapsto> 5]" "map_ok (AddPacket 3 5 new_arrival_map)"
    using arrival_map_refines [OF n(1), of 5 3] n(2,3) by (auto simp: fun_eq_iff restrict_map_def kMaxNumberOfPackets_def)
  have "\<not> too_old 40000 (AddPacket 3 5 new_arrival_map)" by (simp add: too_old_def AddPacket_def new_arrival_map_def)
  then show ?thesis
    using arrival_map_refines [OF a(2), of 9 40000] a(1) by (auto simp: fun_eq_iff restrict_map_def kMaxNumberOfPackets_def)
qed

end
