(* ===== verification/Twcc_Chunk.thy ===== *)
theory Twcc_Chunk
  imports Prelude
begin

text \<open>
  The packet status chunks of a transport-wide feedback, \<open>TransportFeedback::LastChunk\<close> in
  \<^verbatim>\<open>src/src/rtp_rtcp/transport_feedback.{h,cpp}\<close>: the last, still growing chunk and the three
  encodings (run length, one bit and two bit status vectors). The abstraction of a chunk is the
  list of delta sizes it holds; adding appends to it, emitting splits a prefix off that decodes to
  itself, and encoding the last chunk loses nothing.
\<close>

section \<open>The code\<close>

record LastChunk =
  delta_sizes :: "u8 list"
  chunk_size :: nat
  all_same :: bool
  has_large_delta :: bool

definition kMaxRunLengthCapacity :: nat where "kMaxRunLengthCapacity = 0x1fff"
definition kMaxOneBitCapacity :: nat where "kMaxOneBitCapacity = 14"
definition kMaxTwoBitCapacity :: nat where "kMaxTwoBitCapacity = 7"
definition kMaxVectorCapacity :: nat where "kMaxVectorCapacity = kMaxOneBitCapacity"
definition kLarge :: u8 where "kLarge = 2"

definition ChunkEmpty :: "LastChunk \<Rightarrow> bool" where
  "ChunkEmpty c \<longleftrightarrow> chunk_size c = 0"

definition ChunkClear :: "LastChunk \<Rightarrow> LastChunk" where
  "ChunkClear c = c\<lparr>chunk_size := 0, all_same := True, has_large_delta := False\<rparr>"

text \<open>The constructor leaves the array as it finds it.\<close>

definition new_chunk :: LastChunk where
  "new_chunk = \<lparr>delta_sizes = replicate kMaxVectorCapacity 0, chunk_size = 0, all_same = True, has_large_delta = False\<rparr>"

definition CanAdd :: "u8 \<Rightarrow> LastChunk \<Rightarrow> bool" where
  "CanAdd d c \<longleftrightarrow>
     (if chunk_size c < kMaxTwoBitCapacity then True
      else if chunk_size c < kMaxOneBitCapacity \<and> \<not> has_large_delta c \<and> d \<noteq> kLarge then True
      else chunk_size c < kMaxRunLengthCapacity \<and> all_same c \<and> delta_sizes c ! 0 = d)"

definition ChunkAdd :: "u8 \<Rightarrow> LastChunk \<Rightarrow> LastChunk" where
  "ChunkAdd d c =
     (let ds = (if chunk_size c < kMaxVectorCapacity then (delta_sizes c)[chunk_size c := d] else delta_sizes c)
      in \<lparr>delta_sizes = ds, chunk_size = chunk_size c + 1,
          all_same = (all_same c \<and> d = ds ! 0), has_large_delta = (has_large_delta c \<or> d = kLarge)\<rparr>)"

definition EncodeOneBit :: "LastChunk \<Rightarrow> u16" where
  "EncodeOneBit c =
     fold (\<lambda>i chunk. chunk OR push_bit (kMaxOneBitCapacity - 1 - i) (ucast (delta_sizes c ! i)))
       [0..<chunk_size c] 0x8000"

definition EncodeTwoBit :: "nat \<Rightarrow> LastChunk \<Rightarrow> u16" where
  "EncodeTwoBit n c =
     fold (\<lambda>i chunk. chunk OR push_bit (2 * (kMaxTwoBitCapacity - 1 - i)) (ucast (delta_sizes c ! i)))
       [0..<n] 0xc000"

definition EncodeRunLength :: "LastChunk \<Rightarrow> u16" where
  "EncodeRunLength c = push_bit 13 (ucast (delta_sizes c ! 0)) OR of_nat (chunk_size c)"

definition set_sizes :: "(nat \<Rightarrow> u8) \<Rightarrow> nat \<Rightarrow> u8 list \<Rightarrow> u8 list" where
  "set_sizes f n ds = fold (\<lambda>i ds. ds[i := f i]) [0..<n] ds"

definition DecodeOneBit :: "u16 \<Rightarrow> nat \<Rightarrow> LastChunk \<Rightarrow> LastChunk" where
  "DecodeOneBit chunk max_size c =
     (let n = min kMaxOneBitCapacity max_size
      in \<lparr>delta_sizes = set_sizes (\<lambda>i. ucast (drop_bit (kMaxOneBitCapacity - 1 - i) chunk AND 0x01)) n (delta_sizes c),
          chunk_size = n, all_same = False, has_large_delta = False\<rparr>)"

definition DecodeTwoBit :: "u16 \<Rightarrow> nat \<Rightarrow> LastChunk \<Rightarrow> LastChunk" where
  "DecodeTwoBit chunk max_size c =
     (let n = min kMaxTwoBitCapacity max_size
      in \<lparr>delta_sizes = set_sizes (\<lambda>i. ucast (drop_bit (2 * (kMaxTwoBitCapacity - 1 - i)) chunk AND 0x03)) n (delta_sizes c),
          chunk_size = n, all_same = False, has_large_delta = True\<rparr>)"

definition DecodeRunLength :: "u16 \<Rightarrow> nat \<Rightarrow> LastChunk \<Rightarrow> LastChunk" where
  "DecodeRunLength chunk max_count c =
     (let n = min (unat (chunk AND 0x1fff)) max_count;
          d = ucast (drop_bit 13 chunk AND 0x03)
      in \<lparr>delta_sizes = set_sizes (\<lambda>i. d) (min n kMaxVectorCapacity) (delta_sizes c),
          chunk_size = n, all_same = True, has_large_delta = (kLarge \<le> d)\<rparr>)"

definition ChunkDecode :: "u16 \<Rightarrow> nat \<Rightarrow> LastChunk \<Rightarrow> LastChunk" where
  "ChunkDecode chunk max_size c =
     (if chunk AND 0x8000 = 0 then DecodeRunLength chunk max_size c
      else if chunk AND 0x4000 = 0 then DecodeOneBit chunk max_size c
      else DecodeTwoBit chunk max_size c)"

text \<open>The loop at the end of \<open>Emit\<close>: the remaining sizes move to the front of the array while the two
  flags are computed afresh.\<close>

definition shift_step :: "nat \<Rightarrow> LastChunk \<Rightarrow> LastChunk" where
  "shift_step i c =
     (let d = delta_sizes c ! (kMaxTwoBitCapacity + i);
          ds = (delta_sizes c)[i := d]
      in c\<lparr>delta_sizes := ds, all_same := (all_same c \<and> d = ds ! 0),
           has_large_delta := (has_large_delta c \<or> d = kLarge)\<rparr>)"

definition Emit :: "LastChunk \<Rightarrow> u16 \<times> LastChunk" where
  "Emit c =
     (if all_same c then (EncodeRunLength c, ChunkClear c)
      else if chunk_size c = kMaxOneBitCapacity then (EncodeOneBit c, ChunkClear c)
      else (EncodeTwoBit kMaxTwoBitCapacity c,
            fold shift_step [0..<chunk_size c - kMaxTwoBitCapacity]
              (c\<lparr>chunk_size := chunk_size c - kMaxTwoBitCapacity, all_same := True, has_large_delta := False\<rparr>)))"

definition EncodeLast :: "LastChunk \<Rightarrow> u16" where
  "EncodeLast c =
     (if all_same c then EncodeRunLength c
      else if chunk_size c \<le> kMaxTwoBitCapacity then EncodeTwoBit (chunk_size c) c
      else EncodeOneBit c)"

text \<open>\<open>AppendTo\<close> appends this list.\<close>

definition chunk_list :: "LastChunk \<Rightarrow> u8 list" where
  "chunk_list c = (if all_same c then replicate (chunk_size c) (delta_sizes c ! 0)
                   else take (chunk_size c) (delta_sizes c))"

lemmas chunk_consts = kMaxRunLengthCapacity_def kMaxOneBitCapacity_def kMaxTwoBitCapacity_def
  kMaxVectorCapacity_def kLarge_def

section \<open>Well-formed chunks and adding\<close>

definition chunk_ok :: "LastChunk \<Rightarrow> bool" where
  "chunk_ok c \<longleftrightarrow> length (delta_sizes c) = 14 \<and> chunk_size c \<le> 8191
     \<and> (\<forall>i<min (chunk_size c) 14. delta_sizes c ! i \<le> 2)
     \<and> (all_same c \<longrightarrow> (\<forall>i<min (chunk_size c) 14. delta_sizes c ! 0 = delta_sizes c ! i))
     \<and> (\<not> all_same c \<longrightarrow> chunk_size c \<le> 14)
     \<and> (\<not> has_large_delta c \<longrightarrow> (\<forall>i<min (chunk_size c) 14. delta_sizes c ! i \<noteq> 2))
     \<and> (has_large_delta c \<and> \<not> all_same c \<longrightarrow> chunk_size c \<le> 7)"

lemma chunk_ok_new: "chunk_ok new_chunk" "chunk_list new_chunk = []"
  by (simp_all add: chunk_ok_def new_chunk_def chunk_list_def chunk_consts)

lemma chunk_ok_clear: "length (delta_sizes c) = 14 \<Longrightarrow> chunk_ok (ChunkClear c)" "chunk_list (ChunkClear c) = []"
  by (simp_all add: chunk_ok_def ChunkClear_def chunk_list_def)

lemma CanAdd_clear: "CanAdd d (ChunkClear c)"
  by (simp add: CanAdd_def ChunkClear_def chunk_consts)

lemma chunk_list_take:
  assumes "chunk_ok c" "chunk_size c \<le> 14"
  shows "chunk_list c = take (chunk_size c) (delta_sizes c)"
  using assms by (auto simp: chunk_list_def chunk_ok_def intro!: nth_equalityI)

lemma length_chunk_list: "chunk_ok c \<Longrightarrow> length (chunk_list c) = chunk_size c"
  by (auto simp: chunk_list_def chunk_ok_def)

lemma ChunkAdd_small:
  assumes "chunk_ok c" "chunk_size c < 14" "CanAdd d c" "d \<le> 2"
  shows "chunk_ok (ChunkAdd d c)"
proof -
  let ?n = "chunk_size c" and ?ds = "(delta_sizes c)[chunk_size c := d]"
  have len: "length (delta_sizes c) = 14" using assms(1) by (simp add: chunk_ok_def)
  have nth: "?ds ! i = (if i = ?n then d else delta_sizes c ! i)" if "i < 14" for i
    using that len assms(2) by (simp add: nth_list_update)
  have m: "min ?n 14 = ?n" "min (Suc ?n) 14 = Suc ?n" using assms(2) by simp_all
  note ok = assms(1) [unfolded chunk_ok_def m]
  have 1: "\<forall>i<Suc ?n. ?ds ! i \<le> 2"
    using ok assms(2,4) nth by (simp add: less_Suc_eq)
  have 2: "\<forall>i<Suc ?n. ?ds ! 0 = ?ds ! i" if same: "all_same c" "d = ?ds ! 0"
  proof (intro allI impI)
    fix i assume "i < Suc ?n"
    then consider "i = ?n" | "i < ?n" by linarith
    then show "?ds ! 0 = ?ds ! i"
    proof cases
      case 1
      then show ?thesis using same(2) nth [of i] assms(2) by simp
    next
      case 2
      then have "delta_sizes c ! 0 = delta_sizes c ! i" using ok same(1) by blast
      then show ?thesis using nth [of 0] nth [of i] 2 assms(2) by simp
    qed
  qed
  have 3: "\<forall>i<Suc ?n. ?ds ! i \<noteq> 2" if "\<not> has_large_delta c" "d \<noteq> 2"
    using ok assms(2) that nth by (simp add: less_Suc_eq)
  have 4: "?n \<le> 6" if "has_large_delta c \<or> d = 2" "\<not> (all_same c \<and> d = ?ds ! 0)"
  proof (rule ccontr)
    assume big: "\<not> ?n \<le> 6"
    then have "all_same c" "delta_sizes c ! 0 = d"
      using assms(3) that(1) by (simp_all add: CanAdd_def chunk_consts split: if_splits)
    then show False using that(2) nth [of 0] big by simp
  qed
  have sel: "delta_sizes (ChunkAdd d c) = ?ds" "chunk_size (ChunkAdd d c) = Suc ?n"
    "all_same (ChunkAdd d c) \<longleftrightarrow> all_same c \<and> d = ?ds ! 0"
    "has_large_delta (ChunkAdd d c) \<longleftrightarrow> has_large_delta c \<or> d = 2"
    using assms(2) by (simp_all add: ChunkAdd_def Let_def chunk_consts)
  show ?thesis
    unfolding chunk_ok_def sel m
  proof (intro conjI impI)
    show "length ?ds = 14" "Suc ?n \<le> 8191" "Suc ?n \<le> 14" using assms(2) len by simp_all
    show "\<forall>i<Suc ?n. ?ds ! i \<le> 2" by (rule 1)
    show "\<forall>i<Suc ?n. ?ds ! 0 = ?ds ! i" if "all_same c \<and> d = ?ds ! 0" using that by (intro 2) blast+
    show "\<forall>i<Suc ?n. ?ds ! i \<noteq> 2" if "\<not> (has_large_delta c \<or> d = 2)" using that by (intro 3) blast+
    show "Suc ?n \<le> 7" if "(has_large_delta c \<or> d = 2) \<and> \<not> (all_same c \<and> d = ?ds ! 0)"
      using 4 that by linarith
  qed
qed

lemma ChunkAdd_large:
  assumes "chunk_ok c" "\<not> chunk_size c < 14" "CanAdd d c"
  shows "chunk_ok (ChunkAdd d c)" "all_same c" "delta_sizes c ! 0 = d"
proof -
  show s: "all_same c" "delta_sizes c ! 0 = d" using assms by (auto simp: CanAdd_def chunk_consts)
  have "chunk_size c < 8191" using assms by (auto simp: CanAdd_def chunk_consts)
  moreover have "d \<noteq> 2" if "\<not> has_large_delta c" proof -
    have "0 < min (chunk_size c) 14" using assms(2) by simp
    then show ?thesis using assms(1) s(2) that unfolding chunk_ok_def by blast
  qed
  ultimately show "chunk_ok (ChunkAdd d c)"
    using assms(1,2) s by (auto simp: chunk_ok_def ChunkAdd_def Let_def chunk_consts)
qed

lemma ChunkAdd_ok: "chunk_ok c \<Longrightarrow> CanAdd d c \<Longrightarrow> d \<le> 2 \<Longrightarrow> chunk_ok (ChunkAdd d c)"
  using ChunkAdd_small ChunkAdd_large(1) by blast

lemma ChunkAdd_list:
  assumes "chunk_ok c" "CanAdd d c" "d \<le> 2"
  shows "chunk_list (ChunkAdd d c) = chunk_list c @ [d]"
proof (cases "chunk_size c < 14")
  case True
  have ok: "chunk_ok (ChunkAdd d c)" using assms by (rule ChunkAdd_ok)
  have sz: "chunk_size (ChunkAdd d c) = Suc (chunk_size c)"
    "delta_sizes (ChunkAdd d c) = (delta_sizes c)[chunk_size c := d]"
    using True by (simp_all add: ChunkAdd_def Let_def chunk_consts)
  show ?thesis
    using chunk_list_take [OF ok] chunk_list_take [OF assms(1)] True sz assms(1)
    by (simp add: take_Suc_conv_app_nth chunk_ok_def)
next
  case False
  then show ?thesis
    using ChunkAdd_large [OF assms(1) False assms(2)]
    by (simp add: chunk_list_def ChunkAdd_def Let_def chunk_consts replicate_append_same)
qed

section \<open>Packing and unpacking symbols\<close>

definition pack_fields :: "nat \<Rightarrow> nat \<Rightarrow> nat \<Rightarrow> u8 list \<Rightarrow> u16 \<Rightarrow> u16" where
  "pack_fields w N n ds h = fold (\<lambda>i chunk. chunk OR push_bit (w * (N - 1 - i)) (ucast (ds ! i))) [0..<n] h"

lemma EncodeOneBit_pack: "EncodeOneBit c = pack_fields 1 14 (chunk_size c) (delta_sizes c) 0x8000"
  by (simp add: EncodeOneBit_def pack_fields_def chunk_consts)

lemma EncodeTwoBit_pack: "EncodeTwoBit n c = pack_fields 2 7 n (delta_sizes c) 0xc000"
  by (simp add: EncodeTwoBit_def pack_fields_def chunk_consts)

lemma bit_fold_or:
  "bit (fold (\<lambda>i chunk. chunk OR f i) xs h) k \<longleftrightarrow> bit h k \<or> (\<exists>i\<in>set xs. bit (f i :: 'a::len word) k)"
  by (induction xs arbitrary: h) (auto simp: bit_or_iff)

lemma small_bits: "d < 2 ^ w \<Longrightarrow> w \<le> 8 \<Longrightarrow> bit (d :: u8) m \<Longrightarrow> m < w"
proof -
  assume "d < 2 ^ w" "w \<le> 8" "bit d m"
  then have "take_bit w d = d"
    by (cases "w = 8") (simp_all add: take_bit_eq_mask less_mask_eq take_bit_word_eq_self)
  then show "m < w" using \<open>bit d m\<close> by (metis bit_take_bit_iff)
qed

lemma slot_end: "i < (N :: nat) \<Longrightarrow> w * (N - 1 - i) + w = w * (N - i)"
proof -
  assume "i < N"
  then have "N - i = Suc (N - 1 - i)" by simp
  then show ?thesis by (simp only: mult_Suc_right add.commute)
qed

lemma unpack_field:
  assumes "i < n" "n \<le> N" "0 < w" "w \<le> 2" "w * N \<le> 14" "\<forall>j<n. ds ! j < 2 ^ w" "\<forall>k<14. \<not> bit h k"
  shows "ucast (drop_bit (w * (N - 1 - i)) (pack_fields w N n ds h) AND mask w) = ds ! i"
proof (rule bit_word_eqI)
  fix m :: nat
  let ?k = "w * (N - 1 - i) + m"
  have in_range: "?k < 14" if "m < w"
  proof -
    have "?k < w * (N - 1 - i) + w" using that by simp
    also have "\<dots> = w * (N - i)" using assms(1,2) by (intro slot_end) linarith
    also have "\<dots> \<le> w * N" by simp
    finally show ?thesis using assms(5) by linarith
  qed
  have own: "j = i" if j: "j < n" "w * (N - 1 - j) \<le> ?k" "?k - w * (N - 1 - j) < w" and m: "m < w" for j
  proof -
    have "?k = w * (N - 1 - j) + (?k - w * (N - 1 - j))" using j(2) by simp
    then have "?k div w = N - 1 - j" using j(3) assms(3) by (metis div_mult_self4 div_less add_0_right less_not_refl)
    moreover have "?k div w = N - 1 - i" using m assms(3) by simp
    ultimately show ?thesis using j(1) assms(1,2) by linarith
  qed
  have "bit (ds ! i) m \<longleftrightarrow> m < w \<and> bit (pack_fields w N n ds h) ?k"
  proof (cases "m < w")
    case True
    have "bit (pack_fields w N n ds h) ?k
        \<longleftrightarrow> (\<exists>j<n. w * (N - 1 - j) \<le> ?k \<and> bit (ds ! j) (?k - w * (N - 1 - j)))"
      using in_range [OF True] assms(7) unfolding pack_fields_def bit_fold_or
      by (auto simp: bit_push_bit_iff bit_unsigned_iff dest: bit_imp_le_length)
    also have "\<dots> \<longleftrightarrow> bit (ds ! i) m"
    proof
      assume "\<exists>j<n. w * (N - 1 - j) \<le> ?k \<and> bit (ds ! j) (?k - w * (N - 1 - j))"
      then obtain j where j: "j < n" "w * (N - 1 - j) \<le> ?k" "bit (ds ! j) (?k - w * (N - 1 - j))" by blast
      moreover have "?k - w * (N - 1 - j) < w"
        using small_bits [of "ds ! j" w] j assms(4,6) by auto
      ultimately have "j = i" using own True by blast
      then show "bit (ds ! i) m" using j(3) by simp
    qed (use assms(1) in auto)
    finally show ?thesis using True by simp
  next
    case False
    then show ?thesis using small_bits [of "ds ! i" w m] assms(1,4,6) by auto
  qed
  moreover have "m < 8 \<longrightarrow> (bit (ucast (drop_bit (w * (N - 1 - i)) (pack_fields w N n ds h) AND mask w) :: u8) m
      \<longleftrightarrow> m < w \<and> bit (pack_fields w N n ds h) ?k)"
    using assms(4) by (auto simp: bit_unsigned_iff bit_and_iff bit_drop_bit_eq bit_mask_iff)
  ultimately show "m < LENGTH(8) \<Longrightarrow>
      bit (ucast (drop_bit (w * (N - 1 - i)) (pack_fields w N n ds h) AND mask w) :: u8) m = bit (ds ! i) m"
    by simp
qed

lemma pack_header:
  assumes "n \<le> N" "0 < w" "w * N \<le> 14" "\<forall>j<n. ds ! j < 2 ^ w" "w \<le> 2" "14 \<le> k" "k < 16"
  shows "bit (pack_fields w N n ds h) k = bit h k"
proof -
  have "\<not> bit (push_bit (w * (N - 1 - i)) (ucast (ds ! i)) :: u16) k" if i: "i < n" for i
  proof
    assume b: "bit (push_bit (w * (N - 1 - i)) (ucast (ds ! i)) :: u16) k"
    then have "bit (ds ! i) (k - w * (N - 1 - i))" "w * (N - 1 - i) \<le> k"
      by (auto simp: bit_push_bit_iff bit_unsigned_iff)
    then have "k - w * (N - 1 - i) < w" using small_bits [of "ds ! i" w] assms(4,5) i by auto
    then have "k < w * (N - 1 - i) + w" by linarith
    also have "\<dots> = w * (N - i)" using assms(1) i by (intro slot_end) linarith
    also have "\<dots> \<le> w * N" by simp
    finally show False using assms(3,6) by linarith
  qed
  then show ?thesis unfolding pack_fields_def bit_fold_or by auto
qed

lemma top_bits:
  "(c :: u16) AND 0x8000 = 0 \<longleftrightarrow> \<not> bit c 15" "(c :: u16) AND 0x4000 = 0 \<longleftrightarrow> \<not> bit c 14"
  using and_exp_eq_0_iff_not_bit [of c 15] and_exp_eq_0_iff_not_bit [of c 14] by simp_all

lemma header_bits:
  "k < 14 \<Longrightarrow> \<not> bit (0x8000 :: u16) k" "bit (0x8000 :: u16) 15" "\<not> bit (0x8000 :: u16) 14"
  "k < 14 \<Longrightarrow> \<not> bit (0xc000 :: u16) k" "bit (0xc000 :: u16) 15" "bit (0xc000 :: u16) 14"
proof -
  have e: "(0x8000 :: u16) = push_bit 15 1" "(0xc000 :: u16) = push_bit 15 1 OR push_bit 14 1" by simp_all
  show "k < 14 \<Longrightarrow> \<not> bit (0x8000 :: u16) k" "bit (0x8000 :: u16) 15" "\<not> bit (0x8000 :: u16) 14"
    "k < 14 \<Longrightarrow> \<not> bit (0xc000 :: u16) k" "bit (0xc000 :: u16) 15" "bit (0xc000 :: u16) 14"
    unfolding e by (simp_all only: bit_or_iff bit_push_bit_iff bit_1_iff) auto
qed

lemma set_sizes_nth:
  "n \<le> length ds \<Longrightarrow> length (set_sizes f n ds) = length ds
   \<and> (\<forall>i<length ds. set_sizes f n ds ! i = (if i < n then f i else ds ! i))"
  by (induction n) (auto simp: set_sizes_def nth_list_update)

lemma take_set_sizes: "n \<le> length ds \<Longrightarrow> take n (set_sizes f n ds) = map f [0..<n]"
  using set_sizes_nth [of n ds f] by (intro nth_equalityI) auto

section \<open>Decoding what was encoded\<close>

lemma Decode_OneBit:
  assumes "length (delta_sizes c0) = 14" "chunk_size c \<le> 14" "\<forall>j<chunk_size c. delta_sizes c ! j < 2"
    and "m = chunk_size c \<or> chunk_size c = 14 \<and> 14 \<le> m" "length (delta_sizes c) = 14"
  shows "chunk_list (ChunkDecode (EncodeOneBit c) m c0) = take (chunk_size c) (delta_sizes c)"
proof -
  let ?e = "EncodeOneBit c" and ?n = "chunk_size c"
  have h: "bit ?e 15" "\<not> bit ?e 14"
    unfolding EncodeOneBit_pack using assms(2,3) header_bits(2,3)
    by (simp_all add: pack_header)
  have f: "ucast (drop_bit (13 - i) ?e AND 1) = delta_sizes c ! i" if "i < ?n" for i
    using unpack_field [of i ?n 14 1 "delta_sizes c" "0x8000"] that assms(2,3) header_bits(1)
    by (simp add: EncodeOneBit_pack mask_eq_exp_minus_1)
  have n: "min 14 m = ?n" using assms(2,4) by auto
  have "ChunkDecode ?e m c0 = DecodeOneBit ?e m c0" using h by (simp add: ChunkDecode_def top_bits)
  then have "chunk_list (ChunkDecode ?e m c0) = map (\<lambda>i. ucast (drop_bit (13 - i) ?e AND 1)) [0..<?n]"
    using assms(1,2) by (simp add: DecodeOneBit_def Let_def chunk_list_def chunk_consts n take_set_sizes)
  also have "\<dots> = take ?n (delta_sizes c)"
    using f assms(2,5) by (intro nth_equalityI) simp_all
  finally show ?thesis .
qed

lemma Decode_TwoBit:
  assumes "length (delta_sizes c0) = 14" "n \<le> 7" "\<forall>j<n. delta_sizes c ! j < 4"
    and "m = n \<or> n = 7 \<and> 7 \<le> m" "length (delta_sizes c) = 14"
  shows "chunk_list (ChunkDecode (EncodeTwoBit n c) m c0) = take n (delta_sizes c)"
proof -
  let ?e = "EncodeTwoBit n c"
  have h: "bit ?e 15" "bit ?e 14"
    unfolding EncodeTwoBit_pack using assms(2,3) header_bits(5,6)
    by (simp_all add: pack_header)
  have f: "ucast (drop_bit (2 * (6 - i)) ?e AND 3) = delta_sizes c ! i" if "i < n" for i
    using unpack_field [of i n 7 2 "delta_sizes c" "0xc000"] that assms(2,3) header_bits(4)
    by (simp add: EncodeTwoBit_pack mask_eq_exp_minus_1)
  have n: "min 7 m = n" using assms(2,4) by auto
  have "ChunkDecode ?e m c0 = DecodeTwoBit ?e m c0" using h by (simp add: ChunkDecode_def top_bits)
  then have "chunk_list (ChunkDecode ?e m c0) = map (\<lambda>i. ucast (drop_bit (2 * (6 - i)) ?e AND 3)) [0..<n]"
    using assms(1,2) by (simp add: DecodeTwoBit_def Let_def chunk_list_def chunk_consts n take_set_sizes)
  also have "\<dots> = take n (delta_sizes c)"
    using f assms(2,5) by (intro nth_equalityI) simp_all
  finally show ?thesis .
qed

lemma run_length_bits:
  fixes d :: u8
  assumes "d < 4" "n \<le> 8191"
  defines "e \<equiv> push_bit 13 (ucast d) OR of_nat n :: u16"
  shows "\<not> bit e 15" "unat (e AND 0x1fff) = n" "ucast (drop_bit 13 e AND 0x03) = d"
proof -
  have nb: "bit (of_nat n :: u16) k \<longleftrightarrow> bit n k \<and> k < 16" for k by (auto simp: bit_of_nat_iff)
  have small: "bit n k \<Longrightarrow> k < 13" for k
  proof -
    have "take_bit 13 n = n" using assms(2) by (simp add: take_bit_nat_eq_self)
    then show "bit n k \<Longrightarrow> k < 13" by (metis bit_take_bit_iff)
  qed
  have db: "bit d k \<Longrightarrow> k < 2" for k using small_bits [of d 2 k] assms(1) by simp
  have e: "bit e k \<longleftrightarrow> k < 16 \<and> (13 \<le> k \<and> bit d (k - 13) \<or> bit n k)" for k
    by (auto simp: e_def bit_or_iff bit_push_bit_iff bit_unsigned_iff nb dest: bit_imp_le_length)
  show "\<not> bit e 15" using small [of 15] db [of 2] by (auto simp: e)
  have m: "(0x1fff :: u16) = mask 13" "(3 :: u16) = mask 2" by (simp_all add: mask_eq_exp_minus_1)
  have "e AND 0x1fff = of_nat n"
    using small by (intro bit_word_eqI) (auto simp: m bit_and_iff bit_mask_iff e nb)
  then show "unat (e AND 0x1fff) = n" using assms(2) by (simp add: unat_of_nat_small)
  show "ucast (drop_bit 13 e AND 0x03) = d"
  proof (rule bit_word_eqI)
    fix k assume "k < LENGTH(8)"
    then show "bit (ucast (drop_bit 13 e AND 0x03) :: u8) k = bit d k"
      using small [of "13 + k"] db [of k]
      by (auto simp: m bit_unsigned_iff bit_and_iff bit_mask_iff bit_drop_bit_eq e)
  qed
qed

lemma Decode_RunLength:
  assumes "length (delta_sizes c0) = 14" "chunk_size c \<le> 8191" "delta_sizes c ! 0 < 4" "chunk_size c \<le> m"
  shows "chunk_list (ChunkDecode (EncodeRunLength c) m c0) = replicate (chunk_size c) (delta_sizes c ! 0)"
proof -
  let ?e = "EncodeRunLength c"
  note b = run_length_bits [OF assms(3,2), folded EncodeRunLength_def]
  have "ChunkDecode ?e m c0 = DecodeRunLength ?e m c0" using b(1) by (simp add: ChunkDecode_def top_bits)
  moreover have "set_sizes (\<lambda>i. x) (min n 14) (delta_sizes c0) ! 0 = x" if "0 < n" for n x
    using set_sizes_nth [of "min n 14" "delta_sizes c0" "\<lambda>i. x"] that assms(1) by simp
  moreover have "min (chunk_size c) m = chunk_size c" using assms(4) by simp
  ultimately show ?thesis
    by (cases "chunk_size c = 0") (simp_all add: DecodeRunLength_def Let_def chunk_list_def chunk_consts b del: replicate.simps)
qed

section \<open>Emitting\<close>

text \<open>The shifting loop is adding the remaining sizes one by one to an empty chunk.\<close>

definition shifted :: "LastChunk \<Rightarrow> nat \<Rightarrow> LastChunk" where
  "shifted c k = fold shift_step [0..<k] (c\<lparr>all_same := True, has_large_delta := False\<rparr>)"

lemma shifted_spec:
  assumes "length (delta_sizes c) = 14" "k \<le> 7"
  shows "length (delta_sizes (shifted c k)) = 14 \<and> chunk_size (shifted c k) = chunk_size c
    \<and> (\<forall>i<14. delta_sizes (shifted c k) ! i = (if i < k then delta_sizes c ! (7 + i) else delta_sizes c ! i))
    \<and> (all_same (shifted c k) \<longrightarrow> (\<forall>i<k. delta_sizes c ! (7 + i) = delta_sizes c ! 7))
    \<and> (\<not> has_large_delta (shifted c k) \<longrightarrow> (\<forall>i<k. delta_sizes c ! (7 + i) \<noteq> 2))"
  using assms
proof (induction k)
  case 0
  then show ?case by (simp add: shifted_def)
next
  case (Suc k)
  let ?s = "shifted c k"
  have s: "shifted c (Suc k) = shift_step k ?s" by (simp add: shifted_def)
  note IH = Suc.IH [OF Suc.prems(1)]
  have k: "k \<le> 7" "7 + k < 14" using Suc.prems(2) by simp_all
  have d: "delta_sizes ?s ! (7 + k) = delta_sizes c ! (7 + k)" using IH k by auto
  have z: "(delta_sizes ?s)[k := delta_sizes c ! (7 + k)] ! 0 = delta_sizes c ! 7"
    using IH k by (cases k) auto
  show ?case
    using IH k d z unfolding s
    by (auto simp: shift_step_def Let_def chunk_consts nth_list_update less_Suc_eq)
qed

text \<open>Emitting is possible whenever some size could not be added.\<close>

lemma chunk_full:
  assumes "chunk_ok c" "\<not> CanAdd d c" "d \<le> 2"
  shows "7 \<le> chunk_size c" "\<forall>i<min (chunk_size c) 14. delta_sizes c ! i \<le> 2"
  using assms by (auto simp: CanAdd_def chunk_consts chunk_ok_def split: if_splits)

lemma le2_less4: "(d :: u8) \<le> 2 \<Longrightarrow> d < 4"
  by (simp add: word_le_nat_alt word_less_nat_alt)

lemma le2_less2: "(d :: u8) \<le> 2 \<Longrightarrow> d \<noteq> 2 \<Longrightarrow> d < 2"
  by (simp add: word_le_nat_alt word_less_nat_alt word_unat_eq_iff)

lemma Emit_two_bit:
  assumes "chunk_ok c" "\<not> CanAdd d c" "d \<le> 2" "Emit c = (chunk, c')" "length (delta_sizes c0) = 14"
    and two: "\<not> all_same c" "chunk_size c \<noteq> 14"
  shows "chunk_ok c' \<and> CanAdd d c' \<and> chunk_list (ChunkDecode chunk 65535 c0) @ chunk_list c' = chunk_list c
    \<and> chunk_size c' < chunk_size c"
proof -
  have len: "length (delta_sizes c) = 14" "chunk_size c \<le> 8191" using assms(1) by (simp_all add: chunk_ok_def)
  note full = chunk_full [OF assms(1-3)]
  let ?k = "chunk_size c - 7"
  have lt: "chunk_size c < 14" "?k < 7" using assms(1) two full(1) by (auto simp: chunk_ok_def)
  have e: "chunk = EncodeTwoBit 7 c" "c' = shifted (c\<lparr>chunk_size := ?k\<rparr>) ?k"
    using assms(4) two by (simp_all add: Emit_def chunk_consts shifted_def)
  have "\<forall>j<7. delta_sizes c ! j < 4" using full lt by (auto intro: le2_less4)
  then have dec: "chunk_list (ChunkDecode chunk 65535 c0) = take 7 (delta_sizes c)"
    using Decode_TwoBit [of c0 7 c 65535] e(1) len assms(5) by simp
  note sh = shifted_spec [of "c\<lparr>chunk_size := ?k\<rparr>" ?k, folded e(2)]
  have sh': "length (delta_sizes c') = 14" "chunk_size c' = ?k"
    "\<forall>i<?k. delta_sizes c' ! i = delta_sizes c ! (7 + i)"
    "all_same c' \<longrightarrow> (\<forall>i<?k. delta_sizes c ! (7 + i) = delta_sizes c ! 7)"
    "\<not> has_large_delta c' \<longrightarrow> (\<forall>i<?k. delta_sizes c ! (7 + i) \<noteq> 2)"
    using sh len lt by auto
  have m: "min ?k 14 = ?k" using lt by simp
  have ok: "chunk_ok c'"
    unfolding chunk_ok_def sh'(2) m
  proof (intro conjI impI)
    show "\<forall>i<?k. delta_sizes c' ! i \<le> 2" using sh'(3) full(2) lt by auto
    show "\<forall>i<?k. delta_sizes c' ! 0 = delta_sizes c' ! i" if "all_same c'"
      using sh'(3,4) that by (metis add_0_right less_nat_zero_code linorder_neqE_nat)
    show "\<forall>i<?k. delta_sizes c' ! i \<noteq> 2" if "\<not> has_large_delta c'" using sh'(3,5) that by simp
  qed (use sh'(1) lt in simp_all)
  have "take ?k (delta_sizes c') = drop 7 (take (chunk_size c) (delta_sizes c))"
    using sh'(1,3) len lt full(1) by (intro nth_equalityI) (auto simp: add.commute)
  then have "chunk_list c' = drop 7 (chunk_list c)"
    using chunk_list_take [OF ok] sh'(2) lt two by (simp add: chunk_list_def)
  moreover have "take 7 (delta_sizes c) = take 7 (chunk_list c)"
    using two full(1) by (simp add: chunk_list_def min_def)
  ultimately have "chunk_list (ChunkDecode chunk 65535 c0) @ chunk_list c' = chunk_list c"
    using dec by simp
  moreover have "CanAdd d c'" using sh'(2) lt by (simp add: CanAdd_def chunk_consts)
  ultimately show ?thesis using ok sh'(2) lt full(1) by simp
qed

lemma Emit_ok:
  assumes "chunk_ok c" "\<not> CanAdd d c" "d \<le> 2" "Emit c = (chunk, c')" "length (delta_sizes c0) = 14"
  shows "chunk_ok c' \<and> CanAdd d c' \<and> chunk_list (ChunkDecode chunk 65535 c0) @ chunk_list c' = chunk_list c
    \<and> chunk_size c' < chunk_size c"
proof -
  have len: "length (delta_sizes c) = 14" "chunk_size c \<le> 8191" using assms(1) by (simp_all add: chunk_ok_def)
  note full = chunk_full [OF assms(1-3)]
  have cleared: "chunk_ok (ChunkClear c)" "CanAdd d (ChunkClear c)" "chunk_list (ChunkClear c) = []"
    "chunk_size (ChunkClear c) < chunk_size c"
    using chunk_ok_clear len CanAdd_clear full(1) by (auto simp: ChunkClear_def)
  consider (run) "all_same c" | (one) "\<not> all_same c" "chunk_size c = 14" | (two) "\<not> all_same c" "chunk_size c \<noteq> 14"
    by blast
  then show ?thesis
  proof cases
    case run
    then have e: "chunk = EncodeRunLength c" "c' = ChunkClear c" using assms(4) by (simp_all add: Emit_def)
    have "delta_sizes c ! 0 < 4" using full by (intro le2_less4) auto
    then have "chunk_list (ChunkDecode chunk 65535 c0) = chunk_list c"
      using Decode_RunLength [of c0 c 65535] e len assms(5) run by (simp add: chunk_list_def)
    then show ?thesis using e cleared by simp
  next
    case one
    then have e: "chunk = EncodeOneBit c" "c' = ChunkClear c"
      using assms(4) by (simp_all add: Emit_def chunk_consts)
    have "\<not> has_large_delta c" using assms(1) one by (auto simp: chunk_ok_def)
    then have "\<forall>j<14. delta_sizes c ! j < 2"
      using assms(1) one(2) full(2) by (auto simp: chunk_ok_def intro: le2_less2)
    then have "chunk_list (ChunkDecode chunk 65535 c0) = chunk_list c"
      using Decode_OneBit [of c0 c 65535] e(1) len assms(5) one by (simp add: chunk_list_def)
    then show ?thesis using e cleared by simp
  next
    case two
    then show ?thesis by (rule Emit_two_bit [OF assms])
  qed
qed

lemma EncodeLast_decodes:
  assumes "chunk_ok c" "0 < chunk_size c" "length (delta_sizes c0) = 14"
  shows "chunk_list (ChunkDecode (EncodeLast c) (chunk_size c) c0) = chunk_list c"
proof -
  have len: "length (delta_sizes c) = 14" "chunk_size c \<le> 8191"
    and le2: "\<forall>i<min (chunk_size c) 14. delta_sizes c ! i \<le> 2" using assms(1) by (simp_all add: chunk_ok_def)
  consider "all_same c" | "\<not> all_same c" "chunk_size c \<le> 7" | "\<not> all_same c" "7 < chunk_size c" by linarith
  then show ?thesis
  proof cases
    case 1
    have "delta_sizes c ! 0 < 4" using le2 assms(2) by (intro le2_less4) auto
    then show ?thesis
      using 1 Decode_RunLength [of c0 c "chunk_size c"] len assms(3) by (simp add: EncodeLast_def chunk_list_def)
  next
    case 2
    have "\<forall>j<chunk_size c. delta_sizes c ! j < 4" using le2 2 by (auto intro: le2_less4)
    then show ?thesis
      using 2 Decode_TwoBit [of c0 "chunk_size c" c "chunk_size c"] len assms(3)
      by (simp add: EncodeLast_def chunk_list_def chunk_consts)
  next
    case 3
    have "chunk_size c \<le> 14" "\<not> has_large_delta c" using assms(1) 3 by (auto simp: chunk_ok_def)
    then have "\<forall>j<chunk_size c. delta_sizes c ! j < 2"
      using assms(1) le2 by (auto simp: chunk_ok_def intro: le2_less2)
    then show ?thesis
      using 3 Decode_OneBit [of c0 c "chunk_size c"] len assms(3) \<open>chunk_size c \<le> 14\<close>
      by (simp add: EncodeLast_def chunk_list_def chunk_consts)
  qed
qed

section \<open>The interface of a chunk encoder\<close>

text \<open>What an encoded chunk decodes to when nothing limits the number of symbols. Any limit that is not
  below its length gives the same, and so does any previous content of the decoder.\<close>

definition full_decode :: "u16 \<Rightarrow> u8 list" where
  "full_decode ch = chunk_list (ChunkDecode ch 65535 new_chunk)"

lemma length_decoded_array: "length (delta_sizes c) = 14 \<Longrightarrow> length (delta_sizes (ChunkDecode ch m c)) = 14"
  by (simp add: ChunkDecode_def DecodeRunLength_def DecodeOneBit_def DecodeTwoBit_def Let_def chunk_consts
      set_sizes_nth)

lemma decoded_list:
  assumes "length (delta_sizes c) = 14"
  shows "chunk_list (ChunkDecode ch m c) =
    (if ch AND 0x8000 = 0 then replicate (min (unat (ch AND 0x1fff)) m) (ucast (drop_bit 13 ch AND 0x03))
     else if ch AND 0x4000 = 0 then map (\<lambda>i. ucast (drop_bit (13 - i) ch AND 0x01)) [0..<min 14 m]
     else map (\<lambda>i. ucast (drop_bit (2 * (6 - i)) ch AND 0x03)) [0..<min 7 m])"
proof -
  have z: "set_sizes (\<lambda>i. x) (min n 14) (delta_sizes c) ! 0 = x" if "0 < n" for n x
    using set_sizes_nth [of "min n 14" "delta_sizes c" "\<lambda>i. x"] that assms by simp
  have "chunk_list (DecodeRunLength ch m c)
      = replicate (min (unat (ch AND 0x1fff)) m) (ucast (drop_bit 13 ch AND 0x03))"
    using z [of "min (unat (ch AND 0x1fff)) m"]
    by (cases "min (unat (ch AND 0x1fff)) m = 0")
      (simp_all add: DecodeRunLength_def chunk_list_def Let_def chunk_consts del: replicate.simps)
  moreover have "chunk_list (DecodeOneBit ch m c) = map (\<lambda>i. ucast (drop_bit (13 - i) ch AND 0x01)) [0..<min 14 m]"
    using assms by (simp add: DecodeOneBit_def Let_def chunk_list_def chunk_consts take_set_sizes)
  moreover have "chunk_list (DecodeTwoBit ch m c) = map (\<lambda>i. ucast (drop_bit (2 * (6 - i)) ch AND 0x03)) [0..<min 7 m]"
    using assms by (simp add: DecodeTwoBit_def Let_def chunk_list_def chunk_consts take_set_sizes)
  ultimately show ?thesis by (simp only: ChunkDecode_def split: if_split) blast
qed

lemma decode_full:
  assumes "length (delta_sizes c) = 14" "length (full_decode ch) \<le> m"
  shows "chunk_list (ChunkDecode ch m c) = full_decode ch"
proof -
  have "unat (ch AND 0x1fff) \<le> 65535" using unsigned_less [of "ch AND 0x1fff", where ?'a = nat] by simp
  moreover have "length (delta_sizes new_chunk) = 14" by (simp add: new_chunk_def chunk_consts)
  ultimately show ?thesis
    using assms(2) unfolding full_decode_def decoded_list [OF assms(1)] decoded_list [OF \<open>length (delta_sizes new_chunk) = 14\<close>]
    by (auto simp: min_def split: if_splits)
qed

text \<open>The contract between the packet and its growing chunk: what is added can be read back from the
  emitted chunks followed by the current one.\<close>

locale chunk_encoder =
  fixes ok :: "'c \<Rightarrow> bool" and lst :: "'c \<Rightarrow> u8 list" and can_add :: "u8 \<Rightarrow> 'c \<Rightarrow> bool"
    and add :: "u8 \<Rightarrow> 'c \<Rightarrow> 'c" and emit :: "'c \<Rightarrow> u16 \<times> 'c" and dec :: "u16 \<Rightarrow> u8 list"
  assumes add_law: "ok c \<Longrightarrow> can_add d c \<Longrightarrow> d \<le> 2 \<Longrightarrow> ok (add d c) \<and> lst (add d c) = lst c @ [d]"
    and emit_law: "ok c \<Longrightarrow> \<not> can_add d c \<Longrightarrow> d \<le> 2 \<Longrightarrow> emit c = (ch, c')
      \<Longrightarrow> ok c' \<and> can_add d c' \<and> dec ch @ lst c' = lst c"
begin

lemma emit_add:
  assumes "ok c" "\<not> can_add d c" "d \<le> 2" "emit c = (ch, c')"
  shows "ok (add d c') \<and> dec ch @ lst (add d c') = lst c @ [d]"
  using emit_law [OF assms] add_law [of c' d] assms(3) by (metis append.assoc)

end

interpretation twcc: chunk_encoder chunk_ok chunk_list CanAdd ChunkAdd Emit full_decode
proof unfold_locales
  fix c c' d ch
  show "chunk_ok c \<Longrightarrow> CanAdd d c \<Longrightarrow> d \<le> 2 \<Longrightarrow> chunk_ok (ChunkAdd d c) \<and> chunk_list (ChunkAdd d c) = chunk_list c @ [d]"
    by (simp add: ChunkAdd_ok ChunkAdd_list)
  show "chunk_ok c \<Longrightarrow> \<not> CanAdd d c \<Longrightarrow> d \<le> 2 \<Longrightarrow> Emit c = (ch, c')
      \<Longrightarrow> chunk_ok c' \<and> CanAdd d c' \<and> full_decode ch @ chunk_list c' = chunk_list c"
    using Emit_ok [of c d ch c' new_chunk] by (simp add: full_decode_def new_chunk_def chunk_consts)
qed

text \<open>A whole run of the encoder: symbols are pushed one at a time, a full chunk is emitted first.\<close>

definition push_symbol :: "u8 \<Rightarrow> u16 list \<times> LastChunk \<Rightarrow> u16 list \<times> LastChunk" where
  "push_symbol d = (\<lambda>(chs, c). if CanAdd d c then (chs, ChunkAdd d c)
     else let (ch, c') = Emit c in (chs @ [ch], ChunkAdd d c'))"

lemma push_symbol_spec:
  assumes "chunk_ok c" "d \<le> 2" "push_symbol d (chs, c) = (chs', c')"
  shows "chunk_ok c' \<and> concat (map full_decode chs') @ chunk_list c'
    = concat (map full_decode chs) @ chunk_list c @ [d]"
proof (cases "CanAdd d c")
  case True
  then show ?thesis using assms twcc.add_law [OF assms(1) True assms(2)] by (simp add: push_symbol_def)
next
  case False
  obtain ch e where e: "Emit c = (ch, e)" by (cases "Emit c")
  then show ?thesis
    using assms False twcc.emit_add [OF assms(1) False assms(2) e] by (auto simp: push_symbol_def)
qed

section \<open>Properties\<close>

text \<open>The run of the chunk encoder is lossless: whatever sequence of delta sizes is added, the emitted
  chunks decoded one after another, followed by the content of the growing chunk, are that
  sequence, and the growing chunk stays well formed.\<close>

theorem chunk_encoder_lossless:
  assumes "\<forall>d\<in>set ds. d \<le> 2" "fold push_symbol ds ([], new_chunk) = (chs, c)"
  shows "concat (map full_decode chs) @ chunk_list c = ds \<and> chunk_ok c"
proof -
  have "concat (map full_decode chs) @ chunk_list c = concat (map full_decode chs0) @ chunk_list c0 @ ds \<and> chunk_ok c"
    if "chunk_ok c0" "fold push_symbol ds (chs0, c0) = (chs, c)" for chs0 c0
    using that assms(1)
  proof (induction ds arbitrary: chs0 c0)
    case (Cons d ds)
    obtain chs1 c1 where s: "push_symbol d (chs0, c0) = (chs1, c1)" by (cases "push_symbol d (chs0, c0)")
    have sp: "chunk_ok c1 \<and> concat (map full_decode chs1) @ chunk_list c1
        = concat (map full_decode chs0) @ chunk_list c0 @ [d]"
      using push_symbol_spec [OF Cons.prems(1) _ s] Cons.prems(3) by simp
    have "concat (map full_decode chs) @ chunk_list c = concat (map full_decode chs1) @ chunk_list c1 @ ds \<and> chunk_ok c"
      using Cons.IH [of c1 chs1] sp Cons.prems(2,3) s by simp
    then show ?case using sp by (metis append.assoc append_Cons append_Nil)
  qed simp
  from this [OF chunk_ok_new(1) assms(2)] show ?thesis by (simp add: chunk_ok_new)
qed

theorem chunk_encoder_lossless_witness:
  "concat (map full_decode [fst (Emit (fold ChunkAdd [1, 1, 0, 2, 1, 0, 1] new_chunk))])
     @ chunk_list (ChunkAdd 2 (snd (Emit (fold ChunkAdd [1, 1, 0, 2, 1, 0, 1] new_chunk)))) = [1, 1, 0, 2, 1, 0, 1, 2]
   \<and> chunk_ok (ChunkAdd 2 (snd (Emit (fold ChunkAdd [1, 1, 0, 2, 1, 0, 1] new_chunk))))"
  by (rule chunk_encoder_lossless)
    (simp_all add: push_symbol_def CanAdd_def ChunkAdd_def new_chunk_def chunk_consts Let_def split_def numeral_eq_Suc)

text \<open>The last chunk of a packet is lossless as well: decoded with its own length as the limit, as the
  parser does, it gives back every symbol.\<close>

theorem EncodeLast_lossless:
  assumes "chunk_ok c" "\<not> ChunkEmpty c" "length (delta_sizes c0) = 14"
  shows "chunk_list (ChunkDecode (EncodeLast c) (chunk_size c) c0) = chunk_list c"
  using EncodeLast_decodes [of c c0] assms by (simp add: ChunkEmpty_def)

theorem EncodeLast_lossless_witness:
  "chunk_list (ChunkDecode (EncodeLast \<lparr>delta_sizes = [1, 0, 1, 2, 1, 0, 0, 0, 0, 0, 0, 0, 0, 0], chunk_size = 5,
       all_same = False, has_large_delta = True\<rparr>) 5 new_chunk) = [1, 0, 1, 2, 1]"
  using EncodeLast_lossless [of "\<lparr>delta_sizes = [1, 0, 1, 2, 1, 0, 0, 0, 0, 0, 0, 0, 0, 0], chunk_size = 5,
       all_same = False, has_large_delta = True\<rparr>" new_chunk]
  by (simp add: chunk_ok_def ChunkEmpty_def new_chunk_def chunk_consts chunk_list_def less_Suc_eq numeral_eq_Suc)

end
