(* ===== verification/Transport_Feedback.thy ===== *)
theory Transport_Feedback
  imports Rtcp_Packet Twcc_Chunk
begin

text \<open>
  Transport-wide congestion control feedback, \<^verbatim>\<open>src/src/rtp_rtcp/transport_feedback.{h,cpp}\<close>: the
  packet that reports which packets arrived and when. Status symbols are packed into chunks
  (theory \<open>Twcc_Chunk\<close>), arrival times are differences in ticks of 250 microseconds.

  \<open>Parse\<close> reads the payload through a raw pointer without asking the reader how much is left, so
  it has the outcome \<open>OutOfBounds\<close>. The moved-from and copy constructors are plain copies of the
  record.
\<close>

section \<open>State\<close>

record ReceivedPacket =
  rp_sequence_number :: u16
  delta_ticks :: int
  received :: bool

record TransportFeedback = RtcpCommonFeedback +
  include_lost :: bool
  base_seq_no :: u16
  num_seq_no :: u16
  base_time_ticks :: int
  feedback_seq :: u8
  include_timestamps :: bool
  last_timestamp_us :: int
  received_packets :: "ReceivedPacket list"
  all_packets :: "ReceivedPacket list"
  encoded_chunks :: "u16 list"
  last_chunk :: LastChunk
  size_bytes :: nat

definition kTransportFeedbackHeaderSizeBytes :: nat where "kTransportFeedbackHeaderSizeBytes = 4 + 8 + 8"
definition kChunkSizeBytes :: nat where "kChunkSizeBytes = 2"
definition kMaxSizeBytes :: nat where "kMaxSizeBytes = 2 ^ 16 * 4"
definition kDeltaScaleFactor :: int where "kDeltaScaleFactor = 250"
definition kBaseScaleFactor :: int where "kBaseScaleFactor = kDeltaScaleFactor * 2 ^ 8"
definition kTimeWrapPeriodUs :: int where "kTimeWrapPeriodUs = 2 ^ 24 * kBaseScaleFactor"
definition kMaxReportedPackets :: nat where "kMaxReportedPackets = 0xffff"

lemmas tf_consts = kTransportFeedbackHeaderSizeBytes_def kChunkSizeBytes_def kMaxSizeBytes_def
  kDeltaScaleFactor_def kBaseScaleFactor_def kTimeWrapPeriodUs_def kMaxReportedPackets_def

definition received_at :: "u16 \<Rightarrow> int \<Rightarrow> ReceivedPacket" where
  "received_at s d = \<lparr>rp_sequence_number = s, delta_ticks = d, received = True\<rparr>"

text \<open>The one-argument constructor leaves \<open>delta_ticks_\<close> unset; nothing reads it then.\<close>

definition not_received :: "u16 \<Rightarrow> ReceivedPacket" where
  "not_received s = \<lparr>rp_sequence_number = s, delta_ticks = 0, received = False\<rparr>"

definition delta_us :: "ReceivedPacket \<Rightarrow> int" where
  "delta_us p = delta_ticks p * kDeltaScaleFactor"

definition new_feedback :: "RtcpCommonHeader \<Rightarrow> bool \<Rightarrow> bool \<Rightarrow> TransportFeedback" where
  "new_feedback h timestamps lost =
     \<lparr>header = h, sender_ssrc = 0, media_ssrc = 0, include_lost = lost, base_seq_no = 0, num_seq_no = 0,
      base_time_ticks = 0, feedback_seq = 0, include_timestamps = timestamps, last_timestamp_us = 0,
      received_packets = [], all_packets = [], encoded_chunks = [], last_chunk = new_chunk,
      size_bytes = kTransportFeedbackHeaderSizeBytes\<rparr>"

section \<open>Operations\<close>

definition GetBaseTimeUs :: "TransportFeedback \<Rightarrow> int" where
  "GetBaseTimeUs p = base_time_ticks p * kBaseScaleFactor"

definition SetBase :: "u16 \<Rightarrow> int \<Rightarrow> TransportFeedback \<Rightarrow> TransportFeedback" where
  "SetBase base_sequence ref_timestamp_us p =
     (let p = p\<lparr>base_seq_no := base_sequence,
                base_time_ticks := cdiv (cmod ref_timestamp_us kTimeWrapPeriodUs) kBaseScaleFactor\<rparr>
      in p\<lparr>last_timestamp_us := GetBaseTimeUs p\<rparr>)"

definition SetFeedbackSequenceNumber :: "u8 \<Rightarrow> TransportFeedback \<Rightarrow> TransportFeedback" where
  "SetFeedbackSequenceNumber s p = p\<lparr>feedback_seq := s\<rparr>"

definition TfClear :: "TransportFeedback \<Rightarrow> TransportFeedback" where
  "TfClear p = p\<lparr>num_seq_no := 0, last_timestamp_us := GetBaseTimeUs p, received_packets := [],
     all_packets := [], encoded_chunks := [], last_chunk := ChunkClear (last_chunk p),
     size_bytes := kTransportFeedbackHeaderSizeBytes\<rparr>"

definition AddDeltaSize :: "u8 \<Rightarrow> TransportFeedback \<Rightarrow> TransportFeedback option" where
  "AddDeltaSize d p =
     (if unat (num_seq_no p) = kMaxReportedPackets then None
      else let add_chunk_size = (if ChunkEmpty (last_chunk p) then kChunkSizeBytes else 0)
      in if size_bytes p + unat d + add_chunk_size > kMaxSizeBytes then None
      else if CanAdd d (last_chunk p) then
        Some (p\<lparr>size_bytes := size_bytes p + add_chunk_size,
                last_chunk := ChunkAdd d (last_chunk p), num_seq_no := num_seq_no p + 1\<rparr>)
      else if size_bytes p + unat d + kChunkSizeBytes > kMaxSizeBytes then None
      else let (chunk, c) = Emit (last_chunk p)
      in Some (p\<lparr>encoded_chunks := encoded_chunks p @ [chunk], size_bytes := size_bytes p + kChunkSizeBytes,
                 last_chunk := ChunkAdd d c, num_seq_no := num_seq_no p + 1\<rparr>))"

text \<open>The loop that reports the packets between the last one and the new one as missing; a refused
  addition leaves what was added before it.\<close>

function add_missing :: "u16 \<Rightarrow> u16 \<Rightarrow> TransportFeedback \<Rightarrow> bool \<times> TransportFeedback" where
  "add_missing next s p =
     (if next = s then (True, p)
      else case AddDeltaSize 0 p of
        None \<Rightarrow> (False, p)
      | Some p \<Rightarrow> add_missing (next + 1) s
          (if include_lost p then p\<lparr>all_packets := all_packets p @ [not_received next]\<rparr> else p))"
  by pat_completeness auto
termination
proof (relation "measure (\<lambda>(next, s, p). unat (s - next))")
  fix "next" s :: u16 and p q :: TransportFeedback
  assume "next \<noteq> s"
  then have "s - next \<noteq> 0" by simp
  then have "unat (s - next - 1) < unat (s - next)" by (simp add: unat_minus_one unat_gt_0)
  then show "((next + 1, s, if include_lost q then q\<lparr>all_packets := all_packets q @ [not_received next]\<rparr> else q),
      next, s, p) \<in> measure (\<lambda>(next, s, p). unat (s - next))"
    by (simp add: diff_diff_eq)
qed simp

declare add_missing.simps [simp del]

definition delta_of :: "int \<Rightarrow> TransportFeedback \<Rightarrow> int" where
  "delta_of timestamp_us p =
     (let delta_full = cmod (timestamp_us - last_timestamp_us p) kTimeWrapPeriodUs;
          delta_full = (if delta_full > cdiv kTimeWrapPeriodUs 2 then delta_full - kTimeWrapPeriodUs else delta_full);
          delta_full = delta_full + (if delta_full < 0 then - cdiv kDeltaScaleFactor 2 else cdiv kDeltaScaleFactor 2)
      in cdiv delta_full kDeltaScaleFactor)"

definition delta_size_of :: "int \<Rightarrow> u8" where
  "delta_size_of delta = (if 0 \<le> delta \<and> delta \<le> 0xff then 1 else 2)"

definition AddReceivedPacket :: "u16 \<Rightarrow> int \<Rightarrow> TransportFeedback \<Rightarrow> bool \<times> TransportFeedback" where
  "AddReceivedPacket s timestamp_us p =
     (let delta_full = (if include_timestamps p then delta_of timestamp_us p else 0);
          delta = cast16 delta_full
      in if delta \<noteq> delta_full then (False, p)
      else let next_seq_no = base_seq_no p + num_seq_no p;
          (ok, p) = (if s \<noteq> next_seq_no
                     then if \<not> SeqNumGT s (next_seq_no - 1) then (False, p) else add_missing next_seq_no s p
                     else (True, p))
      in if \<not> ok then (False, p)
      else let d = delta_size_of delta
      in case AddDeltaSize d p of
        None \<Rightarrow> (False, p)
      | Some p \<Rightarrow>
          let p = p\<lparr>received_packets := received_packets p @ [received_at s delta],
                    all_packets := (if include_lost p then all_packets p @ [received_at s delta] else all_packets p),
                    last_timestamp_us := last_timestamp_us p + delta * kDeltaScaleFactor\<rparr>
          in (True, if include_timestamps p then p\<lparr>size_bytes := size_bytes p + unat d\<rparr> else p))"

definition GetBaseDeltaUs :: "int \<Rightarrow> TransportFeedback \<Rightarrow> int" where
  "GetBaseDeltaUs prev_timestamp_us p =
     (let delta = GetBaseTimeUs p - prev_timestamp_us
      in if \<bar>delta - kTimeWrapPeriodUs\<bar> < \<bar>delta\<bar> then delta - kTimeWrapPeriodUs
      else if \<bar>delta + kTimeWrapPeriodUs\<bar> < \<bar>delta\<bar> then delta + kTimeWrapPeriodUs
      else delta)"

section \<open>Consistency\<close>

text \<open>The symbols all chunks describe, as \<open>IsConsistent\<close> decodes them: one decoder object is reused.\<close>

fun decode_chunks :: "u16 list \<Rightarrow> LastChunk \<Rightarrow> u8 list" where
  "decode_chunks [] c = []"
| "decode_chunks (ch # chs) c =
     (let c = ChunkDecode ch kMaxReportedPackets c in chunk_list c @ decode_chunks chs c)"

definition symbols :: "TransportFeedback \<Rightarrow> u8 list" where
  "symbols p = decode_chunks (encoded_chunks p) new_chunk
     @ (if ChunkEmpty (last_chunk p) then [] else chunk_list (last_chunk p))"

text \<open>The loop over the symbols: it fails, or it ends with the time stamp, the packet size and the
  received packets that are left.\<close>

fun check_symbols :: "bool \<Rightarrow> u8 list \<Rightarrow> u16 \<Rightarrow> ReceivedPacket list \<Rightarrow> int \<Rightarrow> nat
    \<Rightarrow> (ReceivedPacket list \<times> int \<times> nat) option" where
  "check_symbols ts [] s ps t sz = Some (ps, t, sz)"
| "check_symbols ts (d # ds) s ps t sz =
     (if 0 < d then
        case ps of
          [] \<Rightarrow> None
        | q # qs \<Rightarrow>
            if rp_sequence_number q \<noteq> s then None
            else if d = 1 \<and> (delta_ticks q < 0 \<or> delta_ticks q > 0xff) then None
            else check_symbols ts ds (s + 1) qs (t + delta_us q) (if ts then sz + unat d else sz)
      else check_symbols ts ds (s + 1) ps t (if ts then sz + unat d else sz))"

definition consistent_from :: "int \<Rightarrow> TransportFeedback \<Rightarrow> bool" where
  "consistent_from base_us p =
     (let sz = kTransportFeedbackHeaderSizeBytes + kChunkSizeBytes * length (encoded_chunks p)
               + (if ChunkEmpty (last_chunk p) then 0 else kChunkSizeBytes)
      in unat (num_seq_no p) = length (symbols p)
         \<and> (case check_symbols (include_timestamps p) (symbols p) (base_seq_no p) (received_packets p) base_us sz of
              None \<Rightarrow> False
            | Some (ps, t, sz) \<Rightarrow> ps = [] \<and> t = last_timestamp_us p \<and> size_bytes p = sz))"

text \<open>\<open>base_time_ticks_ * kBaseScaleFactor\<close> is a product of 32-bit integers, which overflows from 33555
  ticks on.\<close>

definition IsConsistent :: "TransportFeedback \<Rightarrow> bool" where
  "IsConsistent p = consistent_from (cast32 (base_time_ticks p * kBaseScaleFactor)) p"

section \<open>The representation invariant\<close>

text \<open>The symbols the packet holds, independent of the decoder.\<close>

definition syms :: "TransportFeedback \<Rightarrow> u8 list" where
  "syms p = concat (map full_decode (encoded_chunks p)) @ chunk_list (last_chunk p)"

definition n_chunks :: "TransportFeedback \<Rightarrow> nat" where
  "n_chunks p = length (encoded_chunks p) + (if ChunkEmpty (last_chunk p) then 0 else 1)"

text \<open>The received packets are those of the non-zero symbols, in order, each with the symbol its
  difference needs.\<close>

fun match_syms :: "u16 \<Rightarrow> u8 list \<Rightarrow> ReceivedPacket list \<Rightarrow> bool" where
  "match_syms s [] ps = (ps = [])"
| "match_syms s (d # ds) ps =
     (if d = 0 then match_syms (s + 1) ds ps
      else case ps of [] \<Rightarrow> False
      | q # qs \<Rightarrow> q = received_at s (delta_ticks q) \<and> d = delta_size_of (delta_ticks q)
          \<and> - 32768 \<le> delta_ticks q \<and> delta_ticks q \<le> 32767 \<and> match_syms (s + 1) ds qs)"

text \<open>The chunk layer of the invariant.\<close>

definition chunks_ok :: "TransportFeedback \<Rightarrow> bool" where
  "chunks_ok p \<longleftrightarrow> chunk_ok (last_chunk p) \<and> (encoded_chunks p \<noteq> [] \<longrightarrow> \<not> ChunkEmpty (last_chunk p))
     \<and> unat (num_seq_no p) = length (syms p)"

definition tf_ok :: "TransportFeedback \<Rightarrow> bool" where
  "tf_ok p \<longleftrightarrow> chunks_ok p \<and> match_syms (base_seq_no p) (syms p) (received_packets p)
     \<and> last_timestamp_us p = GetBaseTimeUs p + sum_list (map delta_us (received_packets p))
     \<and> size_bytes p = 20 + 2 * n_chunks p
         + (if include_timestamps p then sum_list (map unat (syms p)) else 0)
     \<and> size_bytes p \<le> kMaxSizeBytes"

lemma decode_chunks_full:
  "length (delta_sizes c) = 14 \<Longrightarrow> decode_chunks chs c = concat (map full_decode chs)"
proof (induction chs arbitrary: c)
  case (Cons ch chs)
  have "length (full_decode ch) \<le> 65535"
    using unsigned_less [of "ch AND 0x1fff", where ?'a = nat]
    by (simp add: full_decode_def decoded_list new_chunk_def chunk_consts)
  then show ?case
    using Cons decode_full [of c ch 65535] length_decoded_array [of c]
    by (simp add: Let_def kMaxReportedPackets_def)
qed simp

lemma chunk_list_empty: "chunk_ok c \<Longrightarrow> ChunkEmpty c \<longleftrightarrow> chunk_list c = []"
  using length_chunk_list [of c] by (metis ChunkEmpty_def length_0_conv)

lemma symbols_syms: "chunks_ok p \<Longrightarrow> symbols p = syms p"
  by (simp add: symbols_def syms_def decode_chunks_full new_chunk_def chunk_consts chunks_ok_def chunk_list_empty)

lemma ChunkAdd_not_empty: "\<not> ChunkEmpty (ChunkAdd d c)"
  by (simp add: ChunkEmpty_def ChunkAdd_def Let_def)

lemma AddDeltaSize_spec:
  assumes "chunks_ok p" "d \<le> 2" "AddDeltaSize d p = Some p'"
  shows "chunks_ok p' \<and> syms p' = syms p @ [d] \<and> size_bytes p' + 2 * n_chunks p = size_bytes p + 2 * n_chunks p'
    \<and> size_bytes p' + unat d \<le> kMaxSizeBytes
    \<and> p' = p\<lparr>encoded_chunks := encoded_chunks p', last_chunk := last_chunk p', size_bytes := size_bytes p',
             num_seq_no := num_seq_no p + 1\<rparr>"
proof -
  have ok: "chunk_ok (last_chunk p)" "unat (num_seq_no p) = length (syms p)"
    "encoded_chunks p \<noteq> [] \<longrightarrow> \<not> ChunkEmpty (last_chunk p)"
    using assms(1) by (simp_all add: chunks_ok_def)
  have "unat (num_seq_no p) \<noteq> 65535"
    using assms(3) by (auto simp: AddDeltaSize_def kMaxReportedPackets_def)
  then have num: "unat (num_seq_no p + 1) = length (syms p) + 1"
    using ok(2) unsigned_less [of "num_seq_no p", where ?'a = nat] by (subst unat_plus_simple [THEN iffD1]) (auto simp: word_le_nat_alt unat_word_ariths)
  show ?thesis
  proof (cases "CanAdd d (last_chunk p)")
    case True
    have a: "chunk_ok (ChunkAdd d (last_chunk p))" "chunk_list (ChunkAdd d (last_chunk p)) = chunk_list (last_chunk p) @ [d]"
      using twcc.add_law [OF ok(1) True assms(2)] by simp_all
    show ?thesis
      using assms(3) True a num ok(3)
      by (auto simp: AddDeltaSize_def Let_def chunks_ok_def syms_def n_chunks_def ChunkAdd_not_empty
          kChunkSizeBytes_def split: if_splits)
  next
    case False
    obtain ch c where e: "Emit (last_chunk p) = (ch, c)" by (cases "Emit (last_chunk p)")
    have a: "chunk_ok (ChunkAdd d c)" "full_decode ch @ chunk_list (ChunkAdd d c) = chunk_list (last_chunk p) @ [d]"
      using twcc.emit_add [OF ok(1) False assms(2) e] by simp_all
    have ne: "\<not> ChunkEmpty (last_chunk p)"
      using False by (auto simp: CanAdd_def ChunkEmpty_def chunk_consts split: if_splits)
    have "length (full_decode ch) + length (chunk_list (ChunkAdd d c)) = Suc (length (chunk_list (last_chunk p)))"
      using a(2) by (metis length_append length_append_singleton)
    then show ?thesis
      using assms(3) False a num ne e
      by (auto simp: AddDeltaSize_def Let_def chunks_ok_def syms_def n_chunks_def ChunkAdd_not_empty
          kChunkSizeBytes_def split: if_splits)
  qed
qed

lemma match_syms_missing: "match_syms s ds ps \<Longrightarrow> match_syms s (ds @ [0]) ps"
  by (induction s ds ps rule: match_syms.induct) (auto split: list.splits if_splits)

lemma match_syms_received:
  assumes "match_syms s ds ps" "- 32768 \<le> delta" "delta \<le> 32767"
  shows "match_syms s (ds @ [delta_size_of delta]) (ps @ [received_at (s + of_nat (length ds)) delta])"
  using assms
proof (induction s ds ps rule: match_syms.induct)
  case (1 s ps)
  then show ?case by (simp add: received_at_def delta_size_of_def)
next
  case (2 s d ds ps)
  then show ?case by (cases ps) (auto simp: algebra_simps)
qed

lemma delta_size_le: "delta_size_of x \<le> 2" "delta_size_of x \<noteq> 0"
  by (simp_all add: delta_size_of_def)

lemma unat_sum_append: "sum_list (map unat (xs @ [x])) = sum_list (map unat xs) + unat x"
  by simp

text \<open>Adding a missing packet.\<close>

lemma AddDeltaSize_missing:
  assumes "tf_ok p" "AddDeltaSize 0 p = Some p'"
  shows "tf_ok (p'\<lparr>all_packets := x\<rparr>)" "syms p' = syms p @ [0]"
proof -
  have c: "chunks_ok p" using assms(1) by (simp add: tf_ok_def)
  note s = AddDeltaSize_spec [OF c _ assms(2)]
  have eq: "p' = p\<lparr>encoded_chunks := encoded_chunks p', last_chunk := last_chunk p', size_bytes := size_bytes p',
             num_seq_no := num_seq_no p + 1\<rparr>" and sy: "syms p' = syms p @ [0]" using s by simp_all
  have f: "base_seq_no p' = base_seq_no p" "received_packets p' = received_packets p"
    "last_timestamp_us p' = last_timestamp_us p" "include_timestamps p' = include_timestamps p"
    "GetBaseTimeUs p' = GetBaseTimeUs p"
    using arg_cong [OF eq, of base_seq_no] arg_cong [OF eq, of received_packets]
      arg_cong [OF eq, of last_timestamp_us] arg_cong [OF eq, of include_timestamps]
      arg_cong [OF eq, of base_time_ticks] by (simp_all add: GetBaseTimeUs_def)
  have upd: "chunks_ok (p'\<lparr>all_packets := x\<rparr>) = chunks_ok p'" "syms (p'\<lparr>all_packets := x\<rparr>) = syms p'"
    "n_chunks (p'\<lparr>all_packets := x\<rparr>) = n_chunks p'" "GetBaseTimeUs (p'\<lparr>all_packets := x\<rparr>) = GetBaseTimeUs p'"
    by (simp_all add: chunks_ok_def syms_def n_chunks_def GetBaseTimeUs_def)
  show "tf_ok (p'\<lparr>all_packets := x\<rparr>)"
    using assms(1) s match_syms_missing unfolding tf_ok_def upd f
    by (auto simp: f sy)
  show "syms p' = syms p @ [0]" by (rule sy)
qed

lemma add_missing_ok:
  assumes "tf_ok p" "add_missing next s p = (b, p')"
  shows "tf_ok p' \<and> (b \<longrightarrow> syms p' = syms p @ replicate (unat (s - next)) 0)
    \<and> received_packets p' = received_packets p \<and> last_timestamp_us p' = last_timestamp_us p
    \<and> base_seq_no p' = base_seq_no p \<and> include_timestamps p' = include_timestamps p"
  using assms
proof (induction "next" s p rule: add_missing.induct)
  case (1 "next" s p)
  show ?case
  proof (cases "next = s \<or> AddDeltaSize 0 p = None")
    case True
    then show ?thesis using 1(2,3) by (auto simp: add_missing.simps [of "next" s p] split: if_splits)
  next
    case False
    then obtain q where q: "AddDeltaSize 0 p = Some q" "next \<noteq> s" by auto
    let ?q = "if include_lost q then q\<lparr>all_packets := all_packets q @ [not_received next]\<rparr> else q"
    have ok: "tf_ok ?q" and sy: "syms ?q = syms p @ [0]"
      using AddDeltaSize_missing(1) [OF 1(2) q(1), of "all_packets q @ [not_received next]"]
        AddDeltaSize_missing(1) [OF 1(2) q(1), of "all_packets q"] AddDeltaSize_missing(2) [OF 1(2) q(1)]
      by (simp_all add: syms_def)
    have rec: "add_missing (next + 1) s ?q = (b, p')"
      using 1(3) q by (simp add: add_missing.simps [of "next" s p])
    have eq: "q = p\<lparr>encoded_chunks := encoded_chunks q, last_chunk := last_chunk q, size_bytes := size_bytes q,
             num_seq_no := num_seq_no p + 1\<rparr>"
    proof -
      have "chunks_ok p" using 1(2) by (simp add: tf_ok_def)
      then show ?thesis using AddDeltaSize_spec [OF _ _ q(1)] by simp
    qed
    have f: "base_seq_no ?q = base_seq_no p" "received_packets ?q = received_packets p"
      "last_timestamp_us ?q = last_timestamp_us p" "include_timestamps ?q = include_timestamps p"
      using arg_cong [OF eq, of base_seq_no] arg_cong [OF eq, of received_packets]
        arg_cong [OF eq, of last_timestamp_us] arg_cong [OF eq, of include_timestamps] by simp_all
    have n: "unat (s - next) = Suc (unat (s - (next + 1)))"
    proof -
      have "s - next \<noteq> 0" using q(2) by simp
      then show ?thesis by (simp add: unat_minus_one unat_gt_0 flip: diff_diff_eq)
    qed
    show ?thesis
      using 1(1) [OF q(2,1) ok rec] sy f n by simp
  qed
qed

text \<open>Adding a received packet, on every path.\<close>

text \<open>The packets between the last one and the new one are added as missing.\<close>

lemma missing_filled_ok:
  assumes ok: "tf_ok p" and nxt: "nxt = base_seq_no p + num_seq_no p"
    and q: "(if s \<noteq> nxt then if \<not> SeqNumGT s (nxt - 1) then (False, p) else add_missing nxt s p else (True, p)) = (ok', q)"
  shows "tf_ok q \<and> received_packets q = received_packets p \<and> last_timestamp_us q = last_timestamp_us p
      \<and> base_seq_no q = base_seq_no p \<and> include_timestamps q = include_timestamps p
      \<and> (ok' \<longrightarrow> base_seq_no p + of_nat (length (syms q)) = s)"
proof -
  have nx: "nxt = base_seq_no p + of_nat (length (syms p))"
  proof -
    have "of_nat (unat (num_seq_no p)) = num_seq_no p" by simp
    moreover have "unat (num_seq_no p) = length (syms p)" using ok by (simp add: tf_ok_def chunks_ok_def)
    ultimately show ?thesis by (simp only: nxt)
  qed
  show ?thesis
  proof (cases "s = nxt")
    case True
    then show ?thesis using q ok nx by auto
  next
    case False
    show ?thesis
    proof (cases "SeqNumGT s (nxt - 1)")
      case True
      then have "add_missing nxt s p = (ok', q)" using False q by simp
      from add_missing_ok [OF ok this]
      have m: "tf_ok q \<and> (ok' \<longrightarrow> syms q = syms p @ replicate (unat (s - nxt)) 0)
        \<and> received_packets q = received_packets p \<and> last_timestamp_us q = last_timestamp_us p
        \<and> base_seq_no q = base_seq_no p \<and> include_timestamps q = include_timestamps p" .
      moreover have "ok' \<Longrightarrow> base_seq_no p + of_nat (length (syms q)) = s" using m nx by (simp flip: add.assoc)
      ultimately show ?thesis by blast
    qed (use False q ok in auto)
  qed
qed

lemma AddReceivedPacket_ok:
  assumes "tf_ok p" "AddReceivedPacket s t p = (b, p')"
  shows "tf_ok p' \<and> base_seq_no p' = base_seq_no p \<and> include_timestamps p' = include_timestamps p
    \<and> (if b then \<exists>delta. received_packets p' = received_packets p @ [received_at s delta]
              \<and> (include_timestamps p \<longrightarrow> delta = delta_of t p)
              \<and> last_timestamp_us p' = last_timestamp_us p + delta * 250
       else received_packets p' = received_packets p)"
proof -
  define delta where "delta = (if include_timestamps p then delta_of t p else 0)"
  define nxt where "nxt = base_seq_no p + num_seq_no p"
  define ok_q where "ok_q = (if s \<noteq> nxt then if \<not> SeqNumGT s (nxt - 1) then (False, p) else add_missing nxt s p
                             else (True, p))"
  obtain ok q where q: "ok_q = (ok, q)" by (cases ok_q)
  have Q: "tf_ok q \<and> received_packets q = received_packets p \<and> last_timestamp_us q = last_timestamp_us p
      \<and> base_seq_no q = base_seq_no p \<and> include_timestamps q = include_timestamps p
      \<and> (ok \<longrightarrow> base_seq_no p + of_nat (length (syms q)) = s)"
    using missing_filled_ok [OF assms(1) nxt_def] q unfolding ok_q_def .
  show ?thesis
  proof (cases "cast16 delta = delta \<and> ok \<and> AddDeltaSize (delta_size_of delta) q \<noteq> None")
    case False
    then have "\<not> b \<and> (p' = p \<or> p' = q)"
      using assms(2) q by (auto simp: AddReceivedPacket_def Let_def ok_q_def [symmetric] nxt_def [symmetric]
          delta_def [symmetric] split: option.splits if_splits)
    then show ?thesis using Q assms(1) by auto
  next
    case True
    then obtain a where a: "AddDeltaSize (delta_size_of delta) q = Some a" by auto
    have c: "chunks_ok q" using Q by (simp add: tf_ok_def)
    note sp = AddDeltaSize_spec [OF c delta_size_le(1) a]
    have eq: "a = q\<lparr>encoded_chunks := encoded_chunks a, last_chunk := last_chunk a, size_bytes := size_bytes a,
        num_seq_no := num_seq_no q + 1\<rparr>" using sp by simp
    have f: "base_seq_no a = base_seq_no p" "received_packets a = received_packets p"
      "last_timestamp_us a = last_timestamp_us p" "include_timestamps a = include_timestamps p"
      "GetBaseTimeUs a = GetBaseTimeUs q"
      using arg_cong [OF eq, of base_seq_no] arg_cong [OF eq, of received_packets]
        arg_cong [OF eq, of last_timestamp_us] arg_cong [OF eq, of include_timestamps]
        arg_cong [OF eq, of base_time_ticks] Q by (simp_all add: GetBaseTimeUs_def)
    define a' where "a' = a\<lparr>received_packets := received_packets p @ [received_at s delta],
      all_packets := (if include_lost a then all_packets a @ [received_at s delta] else all_packets a),
      last_timestamp_us := last_timestamp_us p + delta * 250,
      size_bytes := size_bytes a + (if include_timestamps p then unat (delta_size_of delta) else 0)\<rparr>"
    have res: "b" "p' = a'"
      using assms(2) q True a f by (auto simp: AddReceivedPacket_def Let_def ok_q_def [symmetric] nxt_def [symmetric]
          delta_def [symmetric] a'_def kDeltaScaleFactor_def split: if_splits)
    have sel: "chunks_ok a' = chunks_ok a" "syms a' = syms a" "n_chunks a' = n_chunks a"
      "GetBaseTimeUs a' = GetBaseTimeUs a" "base_seq_no a' = base_seq_no p"
      "received_packets a' = received_packets p @ [received_at s delta]"
      "last_timestamp_us a' = last_timestamp_us p + delta * 250" "include_timestamps a' = include_timestamps p"
      "size_bytes a' = size_bytes a + (if include_timestamps p then unat (delta_size_of delta) else 0)"
      using f by (simp_all add: a'_def chunks_ok_def syms_def n_chunks_def GetBaseTimeUs_def)
    have rng: "- 32768 \<le> delta" "delta \<le> 32767" using True cast16_bounds [of delta] by auto
    have "match_syms (base_seq_no p) (syms a) (received_packets p @ [received_at s delta])"
      using match_syms_received [of "base_seq_no p" "syms q" "received_packets p" delta] rng Q sp True
      by (auto simp: tf_ok_def)
    moreover have "delta_us (received_at s delta) = delta * 250"
      by (simp add: delta_us_def received_at_def kDeltaScaleFactor_def)
    ultimately have "tf_ok a'"
      unfolding tf_ok_def sel using sp Q f by (auto simp: tf_ok_def)
    then show ?thesis unfolding res(2) using sel res(1) by (auto simp: delta_def)
  qed
qed

text \<open>The invariant implies the executable consistency check of the code.\<close>

lemma check_symbols_match:
  "match_syms s ds ps \<Longrightarrow> check_symbols ts ds s ps t sz =
     Some ([], t + sum_list (map delta_us ps), if ts then sz + sum_list (map unat ds) else sz)"
proof (induction s ds ps arbitrary: t sz rule: match_syms.induct)
  case (2 s d ds ps)
  show ?case
  proof (cases "d = 0")
    case True
    then show ?thesis using 2 by simp
  next
    case False
    then obtain q qs where ps: "ps = q # qs" using 2(3) by (cases ps) auto
    have q: "q = received_at s (delta_ticks q)" "d = delta_size_of (delta_ticks q)" "match_syms (s + 1) ds qs"
      using 2(3) False ps by auto
    have "rp_sequence_number q = s" by (subst q(1)) (simp add: received_at_def)
    moreover have "\<not> (d = 1 \<and> (delta_ticks q < 0 \<or> delta_ticks q > 0xff))"
      using q(2) by (auto simp: delta_size_of_def)
    moreover have "0 < d" using False by (simp add: word_neq_0_conv)
    ultimately show ?thesis using 2(2) [OF False ps q(3)] by (simp add: ps)
  qed
qed simp

lemma tf_ok_consistent_iff: "tf_ok p \<Longrightarrow> consistent_from t p \<longleftrightarrow> t = GetBaseTimeUs p"
  by (auto simp add: consistent_from_def Let_def symbols_syms tf_ok_def chunks_ok_def check_symbols_match
      n_chunks_def kTransportFeedbackHeaderSizeBytes_def kChunkSizeBytes_def)

lemma tf_ok_set_base:
  "0 \<le> t \<Longrightarrow> tf_ok (SetBase s t (new_feedback h ts lost))"
  by (simp add: tf_ok_def chunks_ok_def syms_def n_chunks_def SetBase_def Let_def new_feedback_def
      GetBaseTimeUs_def chunk_ok_new tf_consts) (simp add: ChunkEmpty_def new_chunk_def)

section \<open>Parsing\<close>

text \<open>The loop over the packet chunks; \<open>pl\<close> are the bytes from the payload pointer on, \<open>e\<close> the
  declared payload length.\<close>

function tf_parse_chunks :: "bytes \<Rightarrow> nat \<Rightarrow> nat \<Rightarrow> nat \<Rightarrow> u8 list \<Rightarrow> u16 list \<Rightarrow> LastChunk
    \<Rightarrow> (nat \<times> u8 list \<times> u16 list \<times> LastChunk) outcome" where
  "tf_parse_chunks pl e n idx ds chs c =
     (if length ds < n then
        if idx + kChunkSizeBytes > e then Fails
        else if length pl < idx + 2 then OutOfBounds
        else let chunk = LoadUInt16BE (drop idx pl);
                 c = ChunkDecode chunk (n - length ds) c
             in tf_parse_chunks pl e n (idx + kChunkSizeBytes) (ds @ chunk_list c) (chs @ [chunk]) c
      else Returns (idx, ds, chs, c))"
  by pat_completeness auto
termination
  by (relation "measure (\<lambda>(pl, e, n, idx, ds, chs, c). e - idx)") (auto simp: kChunkSizeBytes_def)

declare tf_parse_chunks.simps [simp del]

record tf_deltas =
  td_index :: nat
  td_received :: "ReceivedPacket list"
  td_all :: "ReceivedPacket list"
  td_last_us :: int

definition td_add :: "bool \<Rightarrow> u16 \<Rightarrow> int \<Rightarrow> nat \<Rightarrow> tf_deltas \<Rightarrow> tf_deltas" where
  "td_add lost s delta n st =
     st\<lparr>td_index := td_index st + n, td_received := td_received st @ [received_at s delta],
        td_all := (if lost then td_all st @ [received_at s delta] else td_all st),
        td_last_us := td_last_us st + delta * kDeltaScaleFactor\<rparr>"

fun tf_parse_deltas :: "bytes \<Rightarrow> nat \<Rightarrow> bool \<Rightarrow> u8 list \<Rightarrow> u16 \<Rightarrow> tf_deltas \<Rightarrow> tf_deltas outcome" where
  "tf_parse_deltas pl e lost [] s st = Returns st"
| "tf_parse_deltas pl e lost (d # ds) s st =
     (if td_index st + unat d > e then Fails
      else if d = 0 then
        tf_parse_deltas pl e lost ds (s + 1) (if lost then st\<lparr>td_all := td_all st @ [not_received s]\<rparr> else st)
      else if d = 1 then
        if length pl < td_index st + 1 then OutOfBounds
        else tf_parse_deltas pl e lost ds (s + 1) (td_add lost s (uint (pl ! td_index st)) 1 st)
      else if d = 2 then
        if length pl < td_index st + 2 then OutOfBounds
        else tf_parse_deltas pl e lost ds (s + 1)
               (td_add lost s (cast16 (uint (LoadUInt16BE (drop (td_index st) pl)))) 2 st)
      else if d = 3 then Fails
      else tf_parse_deltas pl e lost ds (s + 1) st)"

text \<open>The branch for a packet without receive deltas.\<close>

fun tf_no_deltas :: "bool \<Rightarrow> u8 list \<Rightarrow> u16 \<Rightarrow> tf_deltas \<Rightarrow> tf_deltas" where
  "tf_no_deltas lost [] s st = st"
| "tf_no_deltas lost (d # ds) s st =
     (let st = (if 0 < d then st\<lparr>td_received := td_received st @ [received_at s 0]\<rparr> else st);
          st = (if lost then st\<lparr>td_all := td_all st @ [if 0 < d then received_at s 0 else not_received s]\<rparr> else st)
      in tf_no_deltas lost ds (s + 1) st)"

definition TransportFeedbackParse :: "TransportFeedback \<Rightarrow> byte_reader \<Rightarrow> (TransportFeedback \<times> byte_reader) outcome" where
  "TransportFeedbackParse p r =
     bind_outcome (of_option (ParseCommonHeader p r)) (\<lambda>(p, r).
     if packet_type (header p) \<noteq> 205 \<or> count_or_format (header p) \<noteq> 15 then Fails
     else bind_outcome (of_option (ParseCommonFeedback p r)) (\<lambda>(p, r).
     let payload_len = unat (hdr_length (header p)) * 4;
         pl = drop (br_start r - kCommonFeedbackLength) (br_bytes r)
     in if length pl < 16 then OutOfBounds
     else let status_count = LoadUInt16BE (drop 10 pl);
         p = TfClear (p\<lparr>base_seq_no := LoadUInt16BE (drop 8 pl),
                        base_time_ticks := uint (LoadUInt24BE (drop 12 pl)), feedback_seq := pl ! 15\<rparr>)
     in if status_count = 0 then Fails
     else bind_outcome (tf_parse_chunks pl payload_len (unat status_count) 16 [] [] (last_chunk p))
       (\<lambda>(idx, ds, chs, c).
        let p = p\<lparr>encoded_chunks := butlast chs, last_chunk := c, num_seq_no := status_count\<rparr>;
            st = \<lparr>td_index = idx, td_received = [], td_all = [], td_last_us = last_timestamp_us p\<rparr>;
            with_deltas = (payload_len \<ge> idx + sum_list (map unat ds))
        in bind_outcome (if with_deltas then tf_parse_deltas pl payload_len (include_lost p) ds (base_seq_no p) st
                         else Returns (tf_no_deltas (include_lost p) ds (base_seq_no p) st))
          (\<lambda>st. Returns
            (p\<lparr>include_timestamps := (with_deltas \<and> include_timestamps p), received_packets := td_received st,
               all_packets := td_all st, last_timestamp_us := td_last_us st, size_bytes := kHeaderLength + td_index st\<rparr>,
             case ReaderConsume (payload_len - kCommonFeedbackLength) r of None \<Rightarrow> r | Some r' \<Rightarrow> r')))))"

section \<open>Serialising\<close>

definition DeltaWrite :: "ReceivedPacket \<Rightarrow> byte_writer \<Rightarrow> byte_writer option" where
  "DeltaWrite q w =
     (let delta = delta_ticks q
      in if 0 \<le> delta \<and> delta \<le> 0xFF then WriteUInt8 (word_of_int delta) w
         else WriteUInt16 (word_of_int delta) w)"

definition tf_padded_length :: "TransportFeedback \<Rightarrow> nat" where
  "tf_padded_length p = unat ((of_nat (size_bytes p) + 3 :: u64) AND NOT 3)"

definition TransportFeedbackSerialize :: "TransportFeedback \<Rightarrow> byte_writer \<Rightarrow> (TransportFeedback \<times> byte_writer) option" where
  "TransportFeedbackSerialize p w = do {
     let len = tf_padded_length p;
     let padding_length = len - size_bytes p;
     let p = p\<lparr>header := \<lparr>count_or_format = 15, padding = (if 0 < padding_length then 1 else 0), version = 2,
                packet_type = 205, hdr_length = of_nat ((len - kHeaderLength) div 4)\<rparr>\<rparr>;
     (p, w) \<leftarrow> SerializeCommonHeader p w;
     w \<leftarrow> SerializeCommonFeedback p w;
     w \<leftarrow> WriteUInt16 (base_seq_no p) w;
     w \<leftarrow> WriteUInt16 (num_seq_no p) w;
     w \<leftarrow> WriteUInt24 (word_of_int (base_time_ticks p)) w;
     w \<leftarrow> WriteUInt8 (feedback_seq p) w;
     w \<leftarrow> write_all WriteUInt16 (encoded_chunks p) w;
     w \<leftarrow> (if ChunkEmpty (last_chunk p) then Some w else WriteUInt16 (EncodeLast (last_chunk p)) w);
     w \<leftarrow> (if include_timestamps p then write_all DeltaWrite (received_packets p) w else Some w);
     w \<leftarrow> (if 0 < padding_length then do {
              w \<leftarrow> write_all WriteUInt8 (replicate (padding_length - 1) 0) w;
              WriteUInt8 (of_nat padding_length) w }
            else Some w);
     Some (p, w) }"

definition TransportFeedbackSize :: "TransportFeedback \<Rightarrow> nat" where
  "TransportFeedbackSize p = tf_padded_length p"

section \<open>The encoding of a packet\<close>

definition enc_delta :: "ReceivedPacket \<Rightarrow> bytes" where
  "enc_delta q = (if 0 \<le> delta_ticks q \<and> delta_ticks q \<le> 0xFF then [word_of_int (delta_ticks q)]
                  else StoreUInt16BE (word_of_int (delta_ticks q)))"

definition tf_chunks :: "TransportFeedback \<Rightarrow> u16 list" where
  "tf_chunks p = encoded_chunks p @ (if ChunkEmpty (last_chunk p) then [] else [EncodeLast (last_chunk p)])"

definition tf_padding :: "nat \<Rightarrow> bytes" where
  "tf_padding n = (if 0 < n then replicate (n - 1) 0 @ [of_nat n] else [])"

definition enc_tf_body :: "TransportFeedback \<Rightarrow> bytes" where
  "enc_tf_body p = enc_feedback p @ StoreUInt16BE (base_seq_no p) @ StoreUInt16BE (num_seq_no p)
     @ StoreUInt24BE (word_of_int (base_time_ticks p)) @ [feedback_seq p]
     @ concat (map StoreUInt16BE (tf_chunks p)) @ concat (map enc_delta (received_packets p))
     @ tf_padding (tf_padded_length p - size_bytes p)"

definition tf_header :: "TransportFeedback \<Rightarrow> RtcpCommonHeader" where
  "tf_header p = \<lparr>count_or_format = 15, padding = (if size_bytes p < tf_padded_length p then 1 else 0),
     version = 2, packet_type = 205, hdr_length = of_nat (tf_padded_length p div 4 - 1)\<rparr>"

lemma length_enc_delta: "length (enc_delta q) = unat (delta_size_of (delta_ticks q))"
  by (simp add: enc_delta_def delta_size_of_def)

lemma length_tf_padding: "length (tf_padding n) = n"
  by (simp add: tf_padding_def)

lemma tf_padded_length_eq:
  assumes "size_bytes p \<le> kMaxSizeBytes"
  shows "tf_padded_length p = (size_bytes p + 3) div 4 * 4"
proof -
  let ?x = "of_nat (size_bytes p) + 3 :: u64"
  have n: "NOT (3 :: u64) = NOT (mask 2)" by (simp add: mask_eq_exp_minus_1)
  have "?x AND NOT 3 = push_bit 2 (drop_bit 2 ?x)"
  proof (rule bit_word_eqI)
    fix k assume "k < LENGTH(64)"
    then show "bit (?x AND NOT 3) k = bit (push_bit 2 (drop_bit 2 ?x)) k"
      unfolding n by (cases "k < 2") (auto simp: bit_and_iff bit_not_iff bit_mask_iff bit_push_bit_iff bit_drop_bit_eq
          not_less le_iff_add)
  qed
  moreover have u: "unat ?x = size_bytes p + 3"
    using assms unat_of_nat_small [of "size_bytes p + 3", where ?'a = 64] by (simp add: kMaxSizeBytes_def)
  moreover have "unat (push_bit 2 (drop_bit 2 ?x)) = (size_bytes p + 3) div 4 * 4"
  proof -
    have "unat (drop_bit 2 ?x) = (size_bytes p + 3) div 4" by (simp add: drop_bit_eq_div unat_div u)
    moreover have "(size_bytes p + 3) div 4 * 4 < 2 ^ 64" using assms by (simp add: kMaxSizeBytes_def)
    ultimately show ?thesis by (simp add: push_bit_eq_mult unat_word_ariths)
  qed
  ultimately show ?thesis by (simp add: tf_padded_length_def)
qed

lemma match_syms_sum:
  "match_syms s ds ps \<Longrightarrow> sum_list (map unat ds) = length (concat (map enc_delta ps))"
proof (induction s ds ps rule: match_syms.induct)
  case (2 s d ds ps)
  then show ?case
    by (cases "d = 0"; cases ps) (auto simp: length_enc_delta)
qed simp

lemma length_concat_store16: "length (concat (map StoreUInt16BE xs)) = 2 * length xs"
  by (induction xs) simp_all

lemma length_enc_tf_body:
  assumes "tf_ok p" "include_timestamps p"
  shows "4 + length (enc_tf_body p) = tf_padded_length p"
proof -
  have "size_bytes p \<le> tf_padded_length p"
    using assms(1) by (simp add: tf_ok_def tf_padded_length_eq)
  moreover have "length (tf_chunks p) = n_chunks p" by (simp add: tf_chunks_def n_chunks_def)
  moreover have "length (concat (map enc_delta (received_packets p))) = sum_list (map unat (syms p))"
    using assms(1) match_syms_sum [of "base_seq_no p" "syms p" "received_packets p"] by (simp add: tf_ok_def)
  moreover have "size_bytes p = 20 + 2 * n_chunks p + sum_list (map unat (syms p))"
    using assms by (simp add: tf_ok_def)
  ultimately show ?thesis
    by (simp only: enc_tf_body_def length_append length_concat_store16 length_tf_padding length_enc_feedback
        length_Store list.size)
qed

lemma TransportFeedbackSerialize_enc:
  assumes "tf_ok p" "include_timestamps p" "writer_ok w" "tf_padded_length p \<le> WriterLeft w"
  shows "map_option snd (TransportFeedbackSerialize p w) = Some (put w (enc_header (tf_header p) @ enc_tf_body p))"
proof -
  let ?pad = "tf_padded_length p - size_bytes p"
  have len: "4 + length (enc_tf_body p) = tf_padded_length p" using assms(1,2) by (rule length_enc_tf_body)
  have hl: "(x - kHeaderLength) div 4 = x div 4 - 1" for x
    by (simp add: kHeaderLength_def)
  have d: "DeltaWrite q w = Some (put w (enc_delta q))" if "writer_ok w" "length (enc_delta q) \<le> WriterLeft w" for q w
    using that by (auto simp: DeltaWrite_def enc_delta_def Let_def writer_defs StoreUInt8BE_def split: if_splits)
  have c: "write_all WriteUInt16 (encoded_chunks p) v = Some (put v (concat (map StoreUInt16BE (encoded_chunks p))))"
    if "writer_ok v" "2 * length (encoded_chunks p) \<le> WriterLeft v" for v
    using that by (intro u16_codec.write_all_enc) (simp_all add: length_concat_store16)
  have dw: "write_all DeltaWrite (received_packets p) v = Some (put v (concat (map enc_delta (received_packets p))))"
    if "writer_ok v" "length (concat (map enc_delta (received_packets p))) \<le> WriterLeft v" for v
    using that d by (intro write_all_put) auto
  have z: "write_all WriteUInt8 (replicate n 0) v = Some (put v (replicate n 0))"
    if "writer_ok v" "n \<le> WriterLeft v" for n v
    using that u8_codec.write_all_enc [of v "replicate n 0"]
    by (simp add: StoreUInt8BE_def concat_replicate_trivial [symmetric] del: concat_replicate_trivial)
  have le: "size_bytes p \<le> tf_padded_length p"
    using assms(1) by (simp add: tf_ok_def tf_padded_length_eq)
  let ?D = "concat (map enc_delta (received_packets p))" and ?C = "concat (map StoreUInt16BE (encoded_chunks p))"
  have lc: "length ?C = 2 * length (encoded_chunks p)" by (rule length_concat_store16)
  define pad where "pad = ?pad"
  have pad: "tf_padded_length p = size_bytes p + pad" using le by (simp add: pad_def)
  have total: "20 + 2 * length (encoded_chunks p) + (if ChunkEmpty (last_chunk p) then 0 else 2) + length ?D + pad
      \<le> WriterLeft w"
    using len assms(4) by (simp add: enc_tf_body_def tf_chunks_def length_concat_store16 length_tf_padding lc pad split: if_splits)
  show ?thesis
    using assms(2,3) total lc
    by (cases "ChunkEmpty (last_chunk p)"; cases "0 < pad")
      (auto simp: TransportFeedbackSerialize_def Let_def SerializeCommonHeader_enc SerializeCommonFeedback_enc
        writer_defs writer_ok_put put_put c dw z hl tf_header_def enc_tf_body_def tf_chunks_def tf_padding_def
        StoreUInt8BE_def enc_feedback_def pad)
qed

section \<open>Parsing what was serialised\<close>

lemma tf_parse_chunks_emitted:
  assumes "drop idx pl = concat (map StoreUInt16BE chs) @ rest" "idx + 2 * length chs \<le> e"
    and "length (delta_sizes c) = 14" "length ds + length (concat (map full_decode chs)) < n"
  shows "\<exists>c'. length (delta_sizes c') = 14 \<and> tf_parse_chunks pl e n idx ds es c
    = tf_parse_chunks pl e n (idx + 2 * length chs) (ds @ concat (map full_decode chs)) (es @ chs) c'"
  using assms
proof (induction chs arbitrary: idx ds es c)
  case (Cons ch chs)
  let ?c = "ChunkDecode ch (n - length ds) c"
  have l: "idx + 2 \<le> length pl"
    using drop_room [of idx pl "StoreUInt16BE ch"] Cons.prems(1) by (simp add: StoreUInt16BE_def)
  have dec: "chunk_list ?c = full_decode ch"
    using Cons.prems(3,4) by (intro decode_full) simp_all
  have d: "drop (idx + 2) pl = concat (map StoreUInt16BE chs) @ rest"
    using drop_step [of idx pl "StoreUInt16BE ch"] Cons.prems(1) by simp
  have "tf_parse_chunks pl e n idx ds es c
      = tf_parse_chunks pl e n (idx + 2) (ds @ full_decode ch) (es @ [ch]) ?c"
    using Cons.prems l dec by (subst tf_parse_chunks.simps) (simp add: kChunkSizeBytes_def Let_def)
  moreover obtain c' where "length (delta_sizes c') = 14" "tf_parse_chunks pl e n (idx + 2) (ds @ full_decode ch) (es @ [ch]) ?c
     = tf_parse_chunks pl e n (idx + 2 + 2 * length chs) ((ds @ full_decode ch) @ concat (map full_decode chs))
         ((es @ [ch]) @ chs) c'"
    using Cons.IH [of "idx + 2" ?c "ds @ full_decode ch" "es @ [ch]"] Cons.prems d length_decoded_array by auto
  ultimately show ?case by (intro exI [of _ c']) (simp add: add.assoc)
qed auto

lemma tf_parse_chunks_enc:
  assumes "chunks_ok p" "\<not> ChunkEmpty (last_chunk p)" "length (delta_sizes c) = 14"
    and "drop idx pl = concat (map StoreUInt16BE (tf_chunks p)) @ rest" "idx + 2 * n_chunks p \<le> e"
  shows "\<exists>c'. tf_parse_chunks pl e (length (syms p)) idx [] [] c
    = Returns (idx + 2 * n_chunks p, syms p, tf_chunks p, c')"
proof -
  let ?es = "encoded_chunks p" and ?lc = "EncodeLast (last_chunk p)" and ?L = "chunk_list (last_chunk p)"
  let ?D = "concat (map full_decode ?es)"
  have ok: "chunk_ok (last_chunk p)" using assms(1) by (simp add: chunks_ok_def)
  have L: "length ?L = chunk_size (last_chunk p)" "0 < chunk_size (last_chunk p)"
    using length_chunk_list [OF ok] assms(2) by (simp_all add: ChunkEmpty_def)
  have sy: "syms p = ?D @ ?L" by (simp add: syms_def)
  have ch: "tf_chunks p = ?es @ [?lc]" "n_chunks p = length ?es + 1"
    using assms(2) by (simp_all add: tf_chunks_def n_chunks_def)
  obtain c' where c': "length (delta_sizes c') = 14" "tf_parse_chunks pl e (length (syms p)) idx [] [] c
      = tf_parse_chunks pl e (length (syms p)) (idx + 2 * length ?es) ?D ?es c'"
    using tf_parse_chunks_emitted [of idx pl ?es "StoreUInt16BE ?lc @ rest" e c "[]" "length (syms p)" "[]"]
      assms(3-5) L by (auto simp: ch sy)
  have dl: "drop (idx + 2 * length ?es) pl = StoreUInt16BE ?lc @ rest"
    using drop_step [of idx pl "concat (map StoreUInt16BE ?es)" "StoreUInt16BE ?lc @ rest"] assms(4)
    by (simp add: ch length_concat_store16)
  then have len: "idx + 2 * length ?es + 2 \<le> length pl"
    using drop_room [OF dl] by (simp add: StoreUInt16BE_def)
  have dec: "chunk_list (ChunkDecode ?lc (length (syms p) - length ?D) c') = ?L"
    using EncodeLast_decodes [OF ok L(2) c'(1)] L(1) by (simp add: sy)
  have "tf_parse_chunks pl e (length (syms p)) (idx + 2 * length ?es) ?D ?es c'
      = Returns (idx + 2 * n_chunks p, syms p, tf_chunks p, ChunkDecode ?lc (length (syms p) - length ?D) c')"
    using assms(5) L len dl dec
    by (subst tf_parse_chunks.simps, subst tf_parse_chunks.simps) (simp add: kChunkSizeBytes_def Let_def ch sy)
  then show ?thesis using c'(2) by auto
qed

lemma read_delta_1: "0 \<le> d \<Longrightarrow> d \<le> 255 \<Longrightarrow> uint (word_of_int d :: u8) = d"
  by (simp add: uint_word_of_int)

lemma read_delta_2: "- 32768 \<le> d \<Longrightarrow> d \<le> 32767 \<Longrightarrow> cast16 (uint (word_of_int d :: u16)) = d"
  by (simp add: uint_word_of_int cast16_def mod_simps)

lemma tf_parse_deltas_enc:
  assumes "match_syms s ds ps" "drop (td_index st) pl = concat (map enc_delta ps) @ rest"
    and "td_index st + length (concat (map enc_delta ps)) \<le> e"
  shows "\<exists>st'. tf_parse_deltas pl e lost ds s st = Returns st'
    \<and> td_index st' = td_index st + length (concat (map enc_delta ps)) \<and> td_received st' = td_received st @ ps
    \<and> td_last_us st' = td_last_us st + sum_list (map delta_us ps)"
  using assms
proof (induction s ds ps arbitrary: st rule: match_syms.induct)
  case (2 s d ds ps)
  show ?case
  proof (cases "d = 0")
    case True
    then show ?thesis
      using 2(1) [of "if lost then st\<lparr>td_all := td_all st @ [not_received s]\<rparr> else st"] 2(3-5) by auto
  next
    case False
    then obtain q qs where ps: "ps = q # qs" using 2(3) by (cases ps) auto
    let ?x = "delta_ticks q"
    have q: "q = received_at s ?x" "d = delta_size_of ?x" "match_syms (s + 1) ds qs"
      "- 32768 \<le> ?x" "?x \<le> 32767" using 2(3) False ps by auto
    let ?st = "td_add lost s ?x (unat d) st"
    have dd: "drop (td_index st) pl = enc_delta q @ concat (map enc_delta qs) @ rest" using 2(4) ps by simp
    have ld: "length (enc_delta q) = unat d" using length_enc_delta [of q] q(2) by simp
    have "enc_delta q \<noteq> []" by (simp add: enc_delta_def StoreUInt16BE_def)
    then have len: "td_index st + unat d \<le> length pl" using drop_room [OF dd] ld by simp
    have dr: "drop (td_index ?st) pl = concat (map enc_delta qs) @ rest"
      using drop_step [OF dd] ld by (simp add: td_add_def)
    obtain st' where st': "tf_parse_deltas pl e lost ds (s + 1) ?st = Returns st'"
      "td_index st' = td_index ?st + length (concat (map enc_delta qs))" "td_received st' = td_received ?st @ qs"
      "td_last_us st' = td_last_us ?st + sum_list (map delta_us qs)"
      using 2(2) [OF False ps q(3) dr] 2(5) ps ld by (auto simp: td_add_def)
    have step: "tf_parse_deltas pl e lost (d # ds) s st = tf_parse_deltas pl e lost ds (s + 1) ?st"
    proof (cases "0 \<le> ?x \<and> ?x \<le> 255")
      case True
      then have "d = 1" "pl ! td_index st = word_of_int ?x"
        using q(2) dd len nth_via_drop [of "td_index st" pl] by (simp_all add: delta_size_of_def enc_delta_def)
      then show ?thesis using True len 2(5) ps ld read_delta_1 by simp
    next
      case False
      then have "d = 2" "LoadUInt16BE (drop (td_index st) pl) = word_of_int ?x"
        using q(2) dd by (auto simp: delta_size_of_def enc_delta_def)
      then show ?thesis using len 2(5) ps ld read_delta_2 q(4,5) by simp
    qed
    have "delta_us q = ?x * 250" by (simp add: delta_us_def kDeltaScaleFactor_def)
    then show ?thesis
      using st' step ps ld q(1) by (auto simp: td_add_def kDeltaScaleFactor_def)
  qed
qed auto

lemma tf_body_layout:
  assumes "tf_ok p" "0 \<le> base_time_ticks p" "base_time_ticks p < 2 ^ 24"
  defines "b \<equiv> enc_tf_body p"
  shows "16 \<le> length b" "LoadUInt16BE (drop 8 b) = base_seq_no p" "LoadUInt16BE (drop 10 b) = num_seq_no p"
    "uint (LoadUInt24BE (drop 12 b)) = base_time_ticks p" "b ! 15 = feedback_seq p"
    "drop 16 b = concat (map StoreUInt16BE (tf_chunks p)) @ concat (map enc_delta (received_packets p))
                 @ tf_padding (tf_padded_length p - size_bytes p)"
proof -
  let ?t = "concat (map StoreUInt16BE (tf_chunks p)) @ concat (map enc_delta (received_packets p))
                 @ tf_padding (tf_padded_length p - size_bytes p)"
  have d8: "drop 8 b = StoreUInt16BE (base_seq_no p) @ StoreUInt16BE (num_seq_no p)
     @ StoreUInt24BE (word_of_int (base_time_ticks p)) @ [feedback_seq p] @ ?t"
    by (simp add: b_def enc_tf_body_def)
  have d10: "drop 10 b = StoreUInt16BE (num_seq_no p) @ StoreUInt24BE (word_of_int (base_time_ticks p)) @ [feedback_seq p] @ ?t"
    using drop_step [OF d8] by simp
  have d12: "drop 12 b = StoreUInt24BE (word_of_int (base_time_ticks p)) @ [feedback_seq p] @ ?t"
    using drop_step [OF d10] by simp
  have d15: "drop 15 b = [feedback_seq p] @ ?t" using drop_step [OF d12] by simp
  show "drop 16 b = ?t" using drop_step [OF d15] by simp
  show "16 \<le> length b" using drop_room [OF d15] by simp
  show "LoadUInt16BE (drop 8 b) = base_seq_no p" "LoadUInt16BE (drop 10 b) = num_seq_no p"
    unfolding d8 d10 by simp_all
  have "uint (word_of_int (base_time_ticks p) :: u32) = base_time_ticks p"
    using assms(2,3) by (simp add: uint_word_of_int)
  moreover have "take_bit 24 (word_of_int (base_time_ticks p) :: u32) = word_of_int (base_time_ticks p)"
  proof -
    have "(word_of_int (base_time_ticks p) :: u32) < 2 ^ 24"
      using assms(2,3) by (simp add: word_less_def uint_word_of_int)
    then show ?thesis by (simp only: take_bit_eq_mask less_mask_eq)
  qed
  ultimately show "uint (LoadUInt24BE (drop 12 b)) = base_time_ticks p" unfolding d12 by simp
  show "b ! 15 = feedback_seq p" using nth_via_drop [of 15 b] d15 by simp
qed

lemma TransportFeedbackParse_enc:
  assumes ok: "tf_ok p" and ts: "include_timestamps p" and ne: "num_seq_no p \<noteq> 0"
    and base: "0 \<le> base_time_ticks p" "base_time_ticks p < 2 ^ 24"
    and r: "reader_ok r" "CurrentData r = enc_header (tf_header p) @ enc_tf_body p @ bs"
    and room: "tf_padded_length p \<le> kMaxSizeBytes" and q: "length (delta_sizes (last_chunk q)) = 14" "include_timestamps q"
  shows "\<exists>q'. TransportFeedbackParse q r = Returns (q', skip r (tf_padded_length p))
    \<and> received_packets q' = received_packets p \<and> base_seq_no q' = base_seq_no p \<and> num_seq_no q' = num_seq_no p
    \<and> base_time_ticks q' = base_time_ticks p \<and> feedback_seq q' = feedback_seq p
    \<and> last_timestamp_us q' = last_timestamp_us p \<and> include_timestamps q' \<and> sender_ssrc q' = sender_ssrc p
    \<and> media_ssrc q' = media_ssrc p"
proof -
  let ?b = "enc_tf_body p" and ?N = "tf_padded_length p" and ?D = "concat (map enc_delta (received_packets p))"
  note lay = tf_body_layout [OF ok base]
  have cok: "chunks_ok p" and m: "match_syms (base_seq_no p) (syms p) (received_packets p)"
    and sz: "size_bytes p = 20 + 2 * n_chunks p + length ?D" "size_bytes p \<le> kMaxSizeBytes"
    and last: "last_timestamp_us p = GetBaseTimeUs p + sum_list (map delta_us (received_packets p))"
    using ok ts match_syms_sum [of "base_seq_no p" "syms p" "received_packets p"] by (simp_all add: tf_ok_def)
  have n: "unat (num_seq_no p) = length (syms p)" using cok by (simp add: chunks_ok_def)
  have nem: "\<not> ChunkEmpty (last_chunk p)"
  proof
    assume e: "ChunkEmpty (last_chunk p)"
    then have "syms p = []" using cok chunk_list_empty [of "last_chunk p"] by (auto simp: chunks_ok_def syms_def)
    then show False using n ne by (simp add: unat_eq_0)
  qed
  have N: "4 + length ?b = ?N" "?N = (size_bytes p + 3) div 4 * 4"
    using length_enc_tf_body [OF ok ts] tf_padded_length_eq [OF sz(2)] by simp_all
  have plen: "unat (hdr_length (tf_header p)) * 4 = ?N - 4"
  proof -
    have "?N div 4 - 1 < 2 ^ 16" using room N by (simp add: kMaxSizeBytes_def)
    then have "unat (of_nat (?N div 4 - 1) :: u16) = ?N div 4 - 1" by (simp add: unat_of_nat_small)
    then show ?thesis using N(2) by (simp add: tf_header_def)
  qed
  have idx: "16 + 2 * n_chunks p + length ?D \<le> ?N - 4" using N sz by linarith
  have pl: "drop (br_start r + 4) (br_bytes r) = ?b @ bs"
    using r(2) drop_step [of "br_start r" "br_bytes r" "enc_header (tf_header p)"] by (simp add: CurrentData_def)
  have lay2: "LoadUInt16BE (drop k (?b @ bs)) = LoadUInt16BE (drop k ?b)" if "k + 2 \<le> length ?b" for k
    using that by (auto simp: LoadUInt16BE_def nth_append)
  have lay3: "LoadUInt24BE (drop 12 (?b @ bs)) = LoadUInt24BE (drop 12 ?b)"
    using lay(1) by (auto simp: LoadUInt24BE_def nth_append)
  obtain c' where ch: "tf_parse_chunks (?b @ bs) (?N - 4) (length (syms p)) 16 [] [] (ChunkClear (last_chunk q))
      = Returns (16 + 2 * n_chunks p, syms p, tf_chunks p, c')"
    using tf_parse_chunks_enc [OF cok nem, of "ChunkClear (last_chunk q)" 16 "?b @ bs"
        "?D @ tf_padding (?N - size_bytes p) @ bs" "?N - 4"] lay(1,6) q idx
    by (auto simp: ChunkClear_def)
  have dd: "drop (16 + 2 * n_chunks p) (?b @ bs) = ?D @ tf_padding (?N - size_bytes p) @ bs"
    using drop_step [of 16 "?b @ bs" "concat (map StoreUInt16BE (tf_chunks p))"] lay(1,6)
    by (simp add: length_concat_store16 tf_chunks_def n_chunks_def split: if_splits)
  let ?st = "\<lparr>td_index = 16 + 2 * n_chunks p, td_received = [], td_all = [], td_last_us = base_time_ticks p * kBaseScaleFactor\<rparr>"
  obtain st' where st': "tf_parse_deltas (?b @ bs) (?N - 4) (include_lost q) (syms p) (base_seq_no p) ?st = Returns st'"
    "td_index st' = size_bytes p - 4" "td_received st' = received_packets p"
    "td_last_us st' = last_timestamp_us p"
    using tf_parse_deltas_enc [OF m, of ?st "?b @ bs" "tf_padding (?N - size_bytes p) @ bs" "?N - 4" "include_lost q"]
      dd idx last sz by (auto simp: GetBaseTimeUs_def)
  have h: "ParseCommonHeader q r = Some (q\<lparr>header := tf_header p\<rparr>, skip r 4)"
    using r by (simp add: ParseCommonHeader_enc)
  have f: "ParseCommonFeedback (q\<lparr>header := tf_header p\<rparr>) (skip r 4)
      = Some (q\<lparr>header := tf_header p, sender_ssrc := sender_ssrc p, media_ssrc := media_ssrc p\<rparr>, skip r 12)"
    using ParseCommonFeedback_enc [of "skip r 4" p "drop 8 (?b @ bs)" "q\<lparr>header := tf_header p\<rparr>"] r
    by (simp add: reader_ok_skip enc_tf_body_def)
  have cons: "ReaderConsume (?N - 4 - 8) (skip r 12) = Some (skip r ?N)"
  proof -
    have "reader_ok (skip r 12)" "?N - 12 \<le> length (CurrentData (skip r 12))"
      using r N(1) lay(1) by (simp_all add: reader_ok_skip)
    then show ?thesis using N(1) lay(1) by (simp add: reader_step)
  qed
  have deltas: "16 + 2 * n_chunks p + sum_list (map unat (syms p)) \<le> ?N - 4"
    using idx match_syms_sum [OF m] by simp
  have tail: "drop (br_start (skip r 12) - kCommonFeedbackLength) (br_bytes (skip r 12)) = ?b @ bs"
    using pl by (simp add: kCommonFeedbackLength_def add.commute)
  have pt: "packet_type (tf_header p) = 205" "count_or_format (tf_header p) = 15" by (simp_all add: tf_header_def)
  have b15: "(?b @ bs) ! 15 = feedback_seq p" using lay(1,5) by (simp add: nth_append)
  show ?thesis
    unfolding TransportFeedbackParse_def h f of_option_simps bind_outcome.simps prod.case
    using tail ch st' cons deltas pt b15 lay lay2 [of 8] lay2 [of 10] lay3 ne n plen q(2)
    by (simp add: Let_def TfClear_def GetBaseTimeUs_def kCommonFeedbackLength_def)
qed

section \<open>Reading within the buffer\<close>

lemma tf_parse_chunks_in_bounds:
  "e \<le> length pl \<Longrightarrow> tf_parse_chunks pl e n idx ds chs c \<noteq> OutOfBounds"
proof (induction pl e n idx ds chs c rule: tf_parse_chunks.induct)
  case (1 pl e n idx ds chs c)
  then show ?case
    by (subst tf_parse_chunks.simps) (auto simp: kChunkSizeBytes_def Let_def)
qed

lemma tf_parse_deltas_in_bounds:
  "e \<le> length pl \<Longrightarrow> tf_parse_deltas pl e lost ds s st \<noteq> OutOfBounds"
proof (induction ds arbitrary: s st)
  case (Cons d ds)
  have "unat d = 1" if "d = 1" using that by simp
  moreover have "unat d = 2" if "d = 2" using that by simp
  ultimately show ?case using Cons by auto
qed simp

lemma of_option_not_OutOfBounds: "of_option x \<noteq> OutOfBounds"
  by (cases x) simp_all

lemma bind_outcome_OutOfBounds:
  "bind_outcome m f = OutOfBounds \<longleftrightarrow> m = OutOfBounds \<or> (\<exists>x. m = Returns x \<and> f x = OutOfBounds)"
  by (cases m) auto

section \<open>Quantisation of arrival times\<close>

lemma cdiv_round:
  "\<bar>cdiv (x + (if x < 0 then - 125 else 125)) 250 * 250 - x\<bar> \<le> 125"
proof (cases "x < 0")
  case True
  let ?y = "125 - x"
  have "cdiv (x + - 125) 250 = - (?y div 250)" using True by (subst cdiv_neg) simp_all
  moreover have "?y - 249 \<le> ?y div 250 * 250 \<and> ?y div 250 * 250 \<le> ?y" by presburger
  ultimately show ?thesis using True by auto
next
  case False
  have "cdiv (x + 125) 250 = (x + 125) div 250" using False by (subst cdiv_nonneg) simp_all
  moreover have "x + 125 - 249 \<le> (x + 125) div 250 * 250 \<and> (x + 125) div 250 * 250 \<le> x + 125" by presburger
  ultimately show ?thesis using False by auto
qed

lemma cmod_small: "\<bar>x\<bar> < m \<Longrightarrow> cmod x m = x"
  by (cases "0 \<le> x") (simp_all add: cmod_def cdiv_nonneg cdiv_neg)

lemma delta_of_close:
  assumes "\<bar>t - last_timestamp_us p\<bar> < kTimeWrapPeriodUs div 2"
  shows "\<bar>last_timestamp_us p + delta_of t p * 250 - t\<bar> \<le> 125"
proof -
  let ?x = "t - last_timestamp_us p"
  have k: "cdiv kTimeWrapPeriodUs 2 = kTimeWrapPeriodUs div 2" "cdiv kDeltaScaleFactor 2 = 125"
    by (simp_all add: cdiv_nonneg tf_consts)
  have "cmod ?x kTimeWrapPeriodUs = ?x" using assms by (intro cmod_small) (simp add: tf_consts)
  moreover have "\<not> ?x > kTimeWrapPeriodUs div 2" using assms by linarith
  moreover have "cdiv 250 2 = 125" using k(2) by (simp add: kDeltaScaleFactor_def)
  ultimately have "delta_of t p = cdiv (?x + (if ?x < 0 then - 125 else 125)) 250"
    by (simp add: delta_of_def Let_def k kDeltaScaleFactor_def)
  then show ?thesis using cdiv_round [of ?x] by (simp add: algebra_simps)
qed

section \<open>Properties\<close>

definition add_all :: "(u16 \<times> int) list \<Rightarrow> TransportFeedback \<Rightarrow> TransportFeedback" where
  "add_all pkts p = fold (\<lambda>(s, t) p. snd (AddReceivedPacket s t p)) pkts p"

lemma add_all_ok: "tf_ok p \<Longrightarrow> tf_ok (add_all pkts p) \<and> base_seq_no (add_all pkts p) = base_seq_no p
    \<and> include_timestamps (add_all pkts p) = include_timestamps p"
proof (induction pkts arbitrary: p)
  case (Cons x pkts)
  obtain s t where x: "x = (s, t)" by (cases x)
  obtain b p' where a: "AddReceivedPacket s t p = (b, p')" by (cases "AddReceivedPacket s t p")
  show ?case using AddReceivedPacket_ok [OF Cons.prems a] Cons.IH [of p'] x a by (simp add: add_all_def)
qed (simp add: add_all_def)

lemma AddDeltaSize_base: "AddDeltaSize d p = Some p' \<Longrightarrow> base_time_ticks p' = base_time_ticks p"
  by (auto simp: AddDeltaSize_def Let_def split: if_splits prod.splits)

lemma add_missing_base: "base_time_ticks (snd (add_missing nxt s p)) = base_time_ticks p"
proof (induction nxt s p rule: add_missing.induct)
  case (1 nxt s p)
  then show ?case
    by (subst add_missing.simps) (auto dest: AddDeltaSize_base split: option.split)
qed

lemma AddReceivedPacket_base: "base_time_ticks (snd (AddReceivedPacket s t p)) = base_time_ticks p"
  using add_missing_base [of "base_seq_no p + num_seq_no p" s p]
  by (auto simp: AddReceivedPacket_def Let_def split: prod.splits option.splits if_splits dest!: AddDeltaSize_base)

lemma add_all_base: "base_time_ticks (add_all pkts p) = base_time_ticks p"
  by (induction pkts arbitrary: p) (auto simp: add_all_def AddReceivedPacket_base split: prod.splits)

text \<open>The product of the base time and its scale, in \<open>int\<close>, is the base time itself up to 33554 ticks.\<close>

lemma base_product: "0 \<le> n \<Longrightarrow> cast32 (n * kBaseScaleFactor) = n * kBaseScaleFactor \<longleftrightarrow> n < 33555"
proof -
  assume n: "0 \<le> n"
  have "cast32 i < 2 ^ 31" for i unfolding cast32_def using pos_mod_bound [of "2 ^ 32" "i + 2 ^ 31"] by simp
  from this [of "n * kBaseScaleFactor"] n show ?thesis by (auto simp: cast32_id tf_consts)
qed

text \<open>C26. The documented precondition of \<open>Serialize\<close> and postcondition of \<open>SetBase\<close> and \<open>AddReceivedPacket\<close>: whatever packets are
  added, in whatever order and whether they are accepted or refused, a packet built from \<open>SetBase\<close> is
  consistent: for every base time the symbols match the received packets, their deltas fit, and they add up to the
  last time and the size. The check of the class says so exactly up to 33554 ticks of base time, 35.8 minutes of the
  12.4 days of a period: with a later base it fails, or is undefined, as its own product overflows \<open>int\<close>.\<close>

theorem feedback_consistency_exact:
  assumes "0 \<le> t0" and p: "p = add_all pkts (SetBase s0 t0 (new_feedback h timestamps lost))"
  shows "consistent_from (GetBaseTimeUs p) p \<and> (IsConsistent p \<longleftrightarrow> t0 mod kTimeWrapPeriodUs < 33555 * kBaseScaleFactor)"
proof -
  have ok: "tf_ok p" unfolding p using add_all_ok tf_ok_set_base [OF assms(1)] by blast
  have base: "base_time_ticks p = t0 mod kTimeWrapPeriodUs div kBaseScaleFactor"
    using assms(1) by (simp add: p add_all_base SetBase_def Let_def cmod_nonneg cdiv_nonneg tf_consts)
  have ticks: "x div 64000 < 33555 \<longleftrightarrow> x < 2147520000" for x :: int by linarith
  have nonneg: "0 \<le> base_time_ticks p" using base by (simp add: tf_consts pos_imp_zdiv_nonneg_iff)
  have "IsConsistent p \<longleftrightarrow> cast32 (base_time_ticks p * kBaseScaleFactor) = GetBaseTimeUs p"
    by (simp add: IsConsistent_def tf_ok_consistent_iff [OF ok])
  also have "\<dots> \<longleftrightarrow> base_time_ticks p < 33555" using base_product [OF nonneg] by (simp add: GetBaseTimeUs_def)
  also have "\<dots> \<longleftrightarrow> t0 mod kTimeWrapPeriodUs < 33555 * kBaseScaleFactor"
    by (simp add: base tf_consts ticks)
  finally show ?thesis using tf_ok_consistent_iff [OF ok] by simp
qed

definition blank_header :: RtcpCommonHeader where
  "blank_header = \<lparr>count_or_format = 0, padding = 0, version = 0, packet_type = 0, hdr_length = 0\<rparr>"

theorem feedback_consistency_exact_witness:
  "IsConsistent (add_all [(65534, 64000), (1, 70000), (1, 80000), (5, 9000000)] (SetBase 65534 64000 (new_feedback blank_header True True)))
   \<and> \<not> IsConsistent (add_all [(7, 2147520500)] (SetBase 7 2147520000 (new_feedback blank_header True True)))"
  using feedback_consistency_exact [OF _ refl, of 64000 "[(65534, 64000), (1, 70000), (1, 80000), (5, 9000000)]" 65534 blank_header True True]
    feedback_consistency_exact [OF _ refl, of 2147520000 "[(7, 2147520500)]" 7 blank_header True True]
  by (simp add: tf_consts)

text \<open>C10. A feedback survives the wire: any packet built by adding received packets, at least one of
  them accepted, that is serialised into a large enough buffer is parsed back with the same
  packets, arrival times, base and sources, and exactly the bytes written are consumed.\<close>

theorem feedback_roundtrip:
  assumes "0 \<le> t0" and p: "p = add_all pkts (SetBase s0 t0 (new_feedback h True lost))" and "num_seq_no p \<noteq> 0"
    and "TransportFeedbackSize p \<le> sz" "sz \<le> length buf" "TransportFeedbackSize p \<le> kMaxSizeBytes"
  shows "\<exists>p' w' q' r'. TransportFeedbackSerialize p (ByteWriter buf sz) = Some (p', w')
    \<and> TransportFeedbackParse (new_feedback h' True lost') (ByteReader (written w')) = Returns (q', r')
    \<and> ReaderLeft r' = 0 \<and> received_packets q' = received_packets p \<and> base_seq_no q' = s0
    \<and> num_seq_no q' = num_seq_no p \<and> base_time_ticks q' = base_time_ticks p
    \<and> last_timestamp_us q' = last_timestamp_us p \<and> sender_ssrc q' = sender_ssrc p \<and> media_ssrc q' = media_ssrc p"
proof -
  let ?w = "ByteWriter buf sz" and ?e = "enc_header (tf_header p) @ enc_tf_body p"
  have init: "tf_ok (SetBase s0 t0 (new_feedback h True lost))" using assms(1) by (rule tf_ok_set_base)
  have ok: "tf_ok p" "include_timestamps p" "base_seq_no p = s0"
    using add_all_ok [OF init, of pkts] p by (simp_all add: SetBase_def Let_def new_feedback_def)
  have base: "0 \<le> base_time_ticks p" "base_time_ticks p < 2 ^ 24"
    unfolding p add_all_base using assms(1)
    by (simp_all add: SetBase_def Let_def cmod_nonneg cdiv_nonneg tf_consts pos_imp_zdiv_nonneg_iff
        div_less_iff_less_mult)
  have w: "writer_ok ?w" "tf_padded_length p \<le> WriterLeft ?w"
    using assms(4,5) by (simp_all add: TransportFeedbackSize_def)
  obtain p' where p': "TransportFeedbackSerialize p ?w = Some (p', put ?w ?e)"
    using TransportFeedbackSerialize_enc [OF ok(1,2) w] by (cases "TransportFeedbackSerialize p ?w") auto
  have len: "length ?e = tf_padded_length p" using length_enc_tf_body [OF ok(1,2)] by simp
  then have wr: "written (put ?w ?e) = ?e" using w by (simp add: written_put)
  obtain q' where q': "TransportFeedbackParse (new_feedback h' True lost') (ByteReader ?e)
      = Returns (q', skip (ByteReader ?e) (tf_padded_length p))"
    "received_packets q' = received_packets p" "base_seq_no q' = base_seq_no p" "num_seq_no q' = num_seq_no p"
    "base_time_ticks q' = base_time_ticks p" "last_timestamp_us q' = last_timestamp_us p"
    "sender_ssrc q' = sender_ssrc p" "media_ssrc q' = media_ssrc p"
    using TransportFeedbackParse_enc [OF ok(1,2) assms(3) base, of "ByteReader ?e" "[]" "new_feedback h' True lost'"] assms(6)
    by (auto simp: TransportFeedbackSize_def new_feedback_def new_chunk_def chunk_consts)
  have "ReaderLeft (skip (ByteReader ?e) (tf_padded_length p)) = 0"
    using len by (simp add: ReaderLeft_def) (simp add: ByteReader_def)
  with p' wr q' ok(3) show ?thesis by auto
qed

lemmas feedback_eval = add_all_def SetBase_def new_feedback_def Let_def AddReceivedPacket_def AddDeltaSize_def
  delta_of_def cast16_def delta_size_of_def cmod_nonneg cdiv_nonneg GetBaseTimeUs_def tf_consts
  ChunkEmpty_def new_chunk_def CanAdd_def ChunkAdd_def chunk_consts

lemma sample_feedback:
  "num_seq_no (add_all [(10, 65000)] (SetBase 10 64000 (new_feedback blank_header True True))) = 1"
  "size_bytes (add_all [(10, 65000)] (SetBase 10 64000 (new_feedback blank_header True True))) = 23"
  "fst (AddReceivedPacket 10 65000 (SetBase 10 64000 (new_feedback blank_header True True)))"
  "last_timestamp_us (SetBase 10 64000 (new_feedback blank_header True True)) = 64000"
  by (simp_all add: feedback_eval)

theorem feedback_roundtrip_witness:
  "\<exists>p' w' q' r'. TransportFeedbackSerialize (add_all [(10, 65000)] (SetBase 10 64000 (new_feedback blank_header True True)))
        (ByteWriter (replicate 100 0) 100) = Some (p', w')
    \<and> TransportFeedbackParse (new_feedback blank_header True True) (ByteReader (written w')) = Returns (q', r')
    \<and> ReaderLeft r' = 0
    \<and> received_packets q' = received_packets (add_all [(10, 65000)] (SetBase 10 64000 (new_feedback blank_header True True)))
    \<and> base_seq_no q' = 10
    \<and> num_seq_no q' = num_seq_no (add_all [(10, 65000)] (SetBase 10 64000 (new_feedback blank_header True True)))
    \<and> base_time_ticks q' = base_time_ticks (add_all [(10, 65000)] (SetBase 10 64000 (new_feedback blank_header True True)))
    \<and> last_timestamp_us q' = last_timestamp_us (add_all [(10, 65000)] (SetBase 10 64000 (new_feedback blank_header True True)))
    \<and> sender_ssrc q' = sender_ssrc (add_all [(10, 65000)] (SetBase 10 64000 (new_feedback blank_header True True)))
    \<and> media_ssrc q' = media_ssrc (add_all [(10, 65000)] (SetBase 10 64000 (new_feedback blank_header True True)))"
  by (rule feedback_roundtrip [where ?t0.0 = 64000, OF _ refl])
    (simp_all add: sample_feedback TransportFeedbackSize_def tf_padded_length_eq kMaxSizeBytes_def)

text \<open>C28. Arrival times are reported to within half a tick: an accepted packet moves the time stamp of the
  feedback to within 125 microseconds of the packet's arrival, so rounding errors do not add up.\<close>

theorem feedback_time_accurate:
  assumes "AddReceivedPacket s t p = (True, p')" "tf_ok p" "include_timestamps p"
    and "\<bar>t - last_timestamp_us p\<bar> < kTimeWrapPeriodUs div 2"
  shows "\<bar>last_timestamp_us p' - t\<bar> \<le> 125"
  using AddReceivedPacket_ok [OF assms(2,1)] delta_of_close [OF assms(4)] assms(3) by auto

theorem feedback_time_accurate_witness:
  "\<bar>last_timestamp_us (snd (AddReceivedPacket 10 65000 (SetBase 10 64000 (new_feedback blank_header True True)))) - 65000\<bar> \<le> 125"
proof (rule feedback_time_accurate)
  show "AddReceivedPacket 10 65000 (SetBase 10 64000 (new_feedback blank_header True True)) =
      (True, snd (AddReceivedPacket 10 65000 (SetBase 10 64000 (new_feedback blank_header True True))))"
    using sample_feedback(3) by (cases "AddReceivedPacket 10 65000 (SetBase 10 64000 (new_feedback blank_header True True))") simp
qed (simp_all add: tf_ok_set_base sample_feedback tf_consts, simp add: SetBase_def Let_def new_feedback_def)

text \<open>The parser stays inside the datagram whenever the length field is honest and covers the fixed part:
  it never reads out of bounds then, whatever the chunks and deltas say.\<close>

theorem feedback_parse_in_bounds:
  assumes "reader_ok r" "ParseCommonHeader p r = Some (q, r1)"
    and "unat (hdr_length (header q)) * 4 \<le> ReaderLeft r1" "4 \<le> unat (hdr_length (header q))"
  shows "TransportFeedbackParse p r \<noteq> OutOfBounds"
proof -
  let ?e = "unat (hdr_length (header q)) * 4"
  have m1: "moved 4 r r1" using assms(1,2) by (rule ParseCommonHeader_moved)
  have e: "?e \<le> length (CurrentData r1)" "16 \<le> ?e"
    using assms(3,4) ReaderLeft_rest [OF moved_ok [OF m1]] by simp_all
  have pl: "drop (br_start r2 - kCommonFeedbackLength) (br_bytes r2) = CurrentData r1" if "moved 8 r1 r2" for r2
    using that by (auto simp: moved_def CurrentData_def kCommonFeedbackLength_def)
  show ?thesis
  proof (cases "ParseCommonFeedback q r1")
    case None
    then show ?thesis by (simp add: TransportFeedbackParse_def assms(2))
  next
    case (Some x)
    obtain q2 r2 where x: "x = (q2, r2)" by (cases x)
    have m2: "moved 8 r1 r2" "header q2 = header q"
      using ParseCommonFeedback_moved [OF moved_ok [OF m1]] Some x by auto
    have lp: "length (br_bytes r2) - (br_start r2 - kCommonFeedbackLength) = length (CurrentData r1)"
      using pl [OF m2(1)] by (metis length_drop)
    show ?thesis
      using e Some x m2 pl [OF m2(1)] lp
      by (auto simp: TransportFeedbackParse_def assms(2) Let_def bind_outcome_OutOfBounds
          tf_parse_chunks_in_bounds tf_parse_deltas_in_bounds split: if_splits)
  qed
qed

theorem feedback_parse_in_bounds_witness:
  "TransportFeedbackParse (new_feedback blank_header True True)
     (ByteReader ([0x8f, 205, 0, 5, 0, 0, 0, 1, 0, 0, 0, 2, 0, 7, 0, 1, 0, 0, 0, 0, 0, 1, 0, 0])) \<noteq> OutOfBounds"
  by (rule feedback_parse_in_bounds [where q = "(new_feedback blank_header True True)\<lparr>header := \<lparr>count_or_format = 15,
        padding = 0, version = 2, packet_type = 205, hdr_length = 5\<rparr>\<rparr>"
      and ?r1.0 = "skip (ByteReader ([0x8f, 205, 0, 5, 0, 0, 0, 1, 0, 0, 0, 2, 0, 7, 0, 1, 0, 0, 0, 0, 0, 1, 0, 0])) 4"])
    (simp_all add: ParseCommonHeader_def reader_step header_of_memory_def htons_def ReaderLeft_rest reader_ok_skip)

text \<open>Without that the parser does leave the buffer: a feedback of twelve bytes is accepted as far as
  the base sequence number, which is read from behind the datagram.\<close>

theorem feedback_parse_out_of_bounds:
  "TransportFeedbackParse (new_feedback blank_header True True)
     (ByteReader [0x8f, 205, 0, 2, 0, 0, 0, 1, 0, 0, 0, 2]) = OutOfBounds"
  by (simp add: TransportFeedbackParse_def ParseCommonHeader_def ParseCommonFeedback_def reader_step reader_ok_skip
      header_of_memory_def htons_def Let_def kCommonFeedbackLength_def)

end
