(* ===== verification/Receive_Side_Twcc.thy ===== *)
theory Receive_Side_Twcc
  imports Packet_Arrival_Map Transport_Feedback Seq_Num
begin

text \<open>
  The receiver of transport-wide congestion control, \<^verbatim>\<open>src/src/congestion_controller/receive_side_twcc.{h,cpp}\<close>:
  it unwraps the transport sequence numbers, records arrivals in a \<open>PacketArrivalTimeMap\<close> and reports them in
  \<open>TransportFeedback\<close> packets every 100 ms. The clock is an argument and the observer receives the list of
  feedbacks an operation returns; \<open>h\<close> is what a constructor finds in memory for the header.

  The loop of \<open>SendPeriodicFeedbacks\<close> runs until the window is reported. Nothing in the code bounds it, so
  it is a partial function, whose value \<open>None\<close> is a loop that does not end.
\<close>

section \<open>The code\<close>

definition kMaxTimeMs :: int where "kMaxTimeMs = (2 ^ 63 - 1) div 1000"
definition kSendIntervalMillis :: int where "kSendIntervalMillis = 100"
definition kBackWindowMillis :: int where "kBackWindowMillis = 100"

record ReceiveSideTWCC =
  last_process_time_millis :: int
  twcc_media_ssrc :: u32
  feedback_packet_count :: u8
  twcc_unwrapper :: SeqNumUnwrapper
  periodic_window_start_seq :: "int option"
  packet_arrival_times :: PacketArrivalTimeMap

definition new_receive_twcc :: ReceiveSideTWCC where
  "new_receive_twcc = \<lparr>last_process_time_millis = - 1, twcc_media_ssrc = 0, feedback_packet_count = 0,
     twcc_unwrapper = new_unwrapper, periodic_window_start_seq = None, packet_arrival_times = new_arrival_map\<rparr>"

definition MaybeCullOldPackets :: "int \<Rightarrow> int \<Rightarrow> ReceiveSideTWCC \<Rightarrow> ReceiveSideTWCC" where
  "MaybeCullOldPackets seq arrival_time_ms s =
     (case periodic_window_start_seq s of None \<Rightarrow> s
      | Some w \<Rightarrow> if w \<ge> end_sequence_number (packet_arrival_times s)
          then s\<lparr>packet_arrival_times := RemoveOldPackets seq (arrival_time_ms - kBackWindowMillis) (packet_arrival_times s)\<rparr>
          else s)"

definition IncomingPacket :: "int \<Rightarrow> u32 \<Rightarrow> u16 \<Rightarrow> ReceiveSideTWCC \<Rightarrow> ReceiveSideTWCC" where
  "IncomingPacket arrival_time_ms i transport_sequence_number s =
     (if arrival_time_ms < 0 \<or> arrival_time_ms > kMaxTimeMs then s
      else
        let (seq, u) = Unwrap transport_sequence_number (twcc_unwrapper s);
            s = MaybeCullOldPackets seq arrival_time_ms (s\<lparr>twcc_media_ssrc := i, twcc_unwrapper := u\<rparr>);
            s = (case periodic_window_start_seq s of
                   None \<Rightarrow> s\<lparr>periodic_window_start_seq := Some seq\<rparr>
                 | Some w \<Rightarrow> if seq < w then s\<lparr>periodic_window_start_seq := Some seq\<rparr> else s)
        in if has_received seq (packet_arrival_times s) then s
        else
          let m = AddPacket seq arrival_time_ms (packet_arrival_times s); s = s\<lparr>packet_arrival_times := m\<rparr>
          in case periodic_window_start_seq s of
               None \<Rightarrow> s\<lparr>periodic_window_start_seq := Some (begin_sequence_number m)\<rparr>
             | Some w \<Rightarrow> if w < begin_sequence_number m
                 then s\<lparr>periodic_window_start_seq := Some (begin_sequence_number m)\<rparr> else s)"

definition TimeUntilNextProcess :: "int \<Rightarrow> ReceiveSideTWCC \<Rightarrow> int" where
  "TimeUntilNextProcess now s =
     (if last_process_time_millis s \<noteq> - 1 \<and> now - last_process_time_millis s < kSendIntervalMillis
      then last_process_time_millis s + kSendIntervalMillis - now else 0)"

text \<open>The packet created for the first arrival.\<close>

definition open_feedback :: "RtcpCommonHeader \<Rightarrow> bool \<Rightarrow> int \<Rightarrow> int \<Rightarrow> u32 \<Rightarrow> u8 \<Rightarrow> TransportFeedback" where
  "open_feedback h timestamps begin_seq arrival_time_ms i n =
     SetFeedbackSequenceNumber n (SetBase (of_int begin_seq) (arrival_time_ms * 1000) ((new_feedback h timestamps False)\<lparr>media_ssrc := i\<rparr>))"

text \<open>The loop over the sequence numbers: the packet so far, the next sequence number and the counter.\<close>

fun build_loop :: "RtcpCommonHeader \<Rightarrow> bool \<Rightarrow> int \<Rightarrow> u32 \<Rightarrow> PacketArrivalTimeMap \<Rightarrow> int list
    \<Rightarrow> TransportFeedback option \<Rightarrow> int \<Rightarrow> u8 \<Rightarrow> TransportFeedback option \<times> int \<times> u8" where
  "build_loop h timestamps begin_seq i m [] fb nxt n = (fb, nxt, n)"
| "build_loop h timestamps begin_seq i m (seq # seqs) fb nxt n =
     (let arrival_time_ms = arrival_get seq m in
      if arrival_time_ms = 0 then build_loop h timestamps begin_seq i m seqs fb nxt n
      else
        let (p, n) = (case fb of Some p \<Rightarrow> (p, n)
              | None \<Rightarrow> (open_feedback h timestamps begin_seq arrival_time_ms i n, n + 1));
            (added, p) = AddReceivedPacket (of_int seq) (arrival_time_ms * 1000) p
        in if \<not> added then (Some p, nxt, n) else build_loop h timestamps begin_seq i m seqs (Some p) (seq + 1) n)"

definition MaybeBuildFeedbackPacket :: "RtcpCommonHeader \<Rightarrow> bool \<Rightarrow> int \<Rightarrow> int \<Rightarrow> bool \<Rightarrow> ReceiveSideTWCC
    \<Rightarrow> TransportFeedback option \<times> ReceiveSideTWCC" where
  "MaybeBuildFeedbackPacket h timestamps begin_seq end_seq is_periodic_update s =
     (let m = packet_arrival_times s; start = arrival_clamp begin_seq m; stop = arrival_clamp end_seq m;
          (fb, nxt, n) = build_loop h timestamps begin_seq (twcc_media_ssrc s) m [start..stop - 1] None begin_seq (feedback_packet_count s);
          s = s\<lparr>feedback_packet_count := n\<rparr>
      in (fb, if is_periodic_update then s\<lparr>periodic_window_start_seq := Some nxt\<rparr> else s))"

partial_function (option) feedback_loop :: "RtcpCommonHeader \<Rightarrow> int \<Rightarrow> ReceiveSideTWCC \<Rightarrow> (TransportFeedback list \<times> ReceiveSideTWCC) option" where
  "feedback_loop h stop s =
     (case periodic_window_start_seq s of None \<Rightarrow> Some ([], s)
      | Some w \<Rightarrow>
          if w < stop then
            (case MaybeBuildFeedbackPacket h True w stop True s of
               (None, s) \<Rightarrow> Some ([], s)
             | (Some fb, s) \<Rightarrow> Option.bind (feedback_loop h stop s) (\<lambda>(fbs, s). Some (fb # fbs, s)))
          else Some ([], s))"

definition SendPeriodicFeedbacks :: "RtcpCommonHeader \<Rightarrow> ReceiveSideTWCC \<Rightarrow> (TransportFeedback list \<times> ReceiveSideTWCC) option" where
  "SendPeriodicFeedbacks h s = feedback_loop h (end_sequence_number (packet_arrival_times s)) s"

definition TwccTimerTimeout :: "RtcpCommonHeader \<Rightarrow> int \<Rightarrow> ReceiveSideTWCC \<Rightarrow> (TransportFeedback list \<times> int \<times> ReceiveSideTWCC) option" where
  "TwccTimerTimeout h now s =
     map_option (\<lambda>(fbs, s). (fbs, TimeUntilNextProcess now s, s)) (SendPeriodicFeedbacks h (s\<lparr>last_process_time_millis := now\<rparr>))"

section \<open>A fresh feedback takes its first packet\<close>

lemma AddDeltaSize_succeeds:
  assumes "unat (num_seq_no p) < 65535" "size_bytes p + unat d + 2 \<le> kMaxSizeBytes"
  shows "\<exists>p'. AddDeltaSize d p = Some p' \<and> size_bytes p' \<le> size_bytes p + 2 \<and> num_seq_no p' = num_seq_no p + 1"
  using assms by (cases "Emit (last_chunk p)") (auto simp: AddDeltaSize_def Let_def tf_consts)

lemma add_missing_succeeds:
  assumes "unat (num_seq_no p) + unat (s - nxt) < 65535" "size_bytes p + 2 * unat (s - nxt) + 2 \<le> kMaxSizeBytes"
  shows "\<exists>p'. add_missing nxt s p = (True, p') \<and> size_bytes p' \<le> size_bytes p + 2 * unat (s - nxt)
     \<and> num_seq_no p' = num_seq_no p + (s - nxt)"
  using assms
proof (induction nxt s p rule: add_missing.induct)
  case (1 nxt s p)
  show ?case
  proof (cases "nxt = s")
    case False
    then have pos: "0 < unat (s - nxt)" by (simp add: unat_gt_0)
    have step: "unat (s - (nxt + 1)) = unat (s - nxt) - 1"
      using pos by (simp add: diff_diff_eq [symmetric] unat_minus_one unat_gt_0)
    obtain q where q: "AddDeltaSize 0 p = Some q" "size_bytes q \<le> size_bytes p + 2" "num_seq_no q = num_seq_no p + 1"
      using AddDeltaSize_succeeds [of p 0] 1(2,3) pos by auto
    let ?q = "if include_lost q then q\<lparr>all_packets := all_packets q @ [not_received nxt]\<rparr> else q"
    have u: "unat (num_seq_no p + 1) = unat (num_seq_no p) + 1"
      using 1(2) pos by (subst unat_plus_simple [THEN iffD1]) (auto simp: word_le_nat_alt unat_word_ariths)
    have qf: "size_bytes ?q = size_bytes q" "num_seq_no ?q = num_seq_no p + 1" using q(3) by simp_all
    have a1: "unat (num_seq_no ?q) + unat (s - (nxt + 1)) < 65535"
      unfolding qf(2) u step using 1(2) pos by linarith
    have a2: "size_bytes ?q + 2 * unat (s - (nxt + 1)) + 2 \<le> kMaxSizeBytes"
      unfolding qf(1) step using 1(3) q(2) pos by linarith
    obtain r where r: "add_missing (nxt + 1) s ?q = (True, r)" "size_bytes r \<le> size_bytes ?q + 2 * unat (s - (nxt + 1))"
      "num_seq_no r = num_seq_no ?q + (s - (nxt + 1))"
      using 1(1) [OF False q(1) a1 a2] by blast
    have "add_missing nxt s p = (True, r)" using False q(1) r(1) by (simp add: add_missing.simps [of nxt s p])
    moreover have "size_bytes r \<le> size_bytes p + 2 * unat (s - nxt)" using r(2) qf(1) q(2) pos unfolding step by linarith
    moreover have "num_seq_no r = num_seq_no p + (s - nxt)" using r(3) qf(2) by simp
    ultimately show ?thesis by blast
    next
    case True
    then show ?thesis by (subst add_missing.simps) simp
  qed
qed

lemma AddDeltaSize_received: "AddDeltaSize d p = Some p' \<Longrightarrow> received_packets p' = received_packets p"
  by (auto simp: AddDeltaSize_def Let_def split: if_splits prod.splits)

lemma add_missing_received: "received_packets (snd (add_missing nxt s p)) = received_packets p"
proof (induction nxt s p rule: add_missing.induct)
  case (1 nxt s p)
  show ?case
  proof (cases "nxt = s \<or> AddDeltaSize 0 p = None")
    case True
    then show ?thesis by (subst add_missing.simps) auto
  next
    case False
    then obtain q where q: "AddDeltaSize 0 p = Some q" "nxt \<noteq> s" by auto
    have "add_missing nxt s p = add_missing (nxt + 1) s (if include_lost q then q\<lparr>all_packets := all_packets q @ [not_received nxt]\<rparr> else q)"
      using q by (subst add_missing.simps) simp
    then show ?thesis using 1 [OF q(2,1)] AddDeltaSize_received [OF q(1)] by simp
  qed
qed

definition numbers :: "TransportFeedback \<Rightarrow> u16 list" where
  "numbers p = map rp_sequence_number (received_packets p)"

lemma AddReceivedPacket_eq:
  assumes "dl = (if include_timestamps p then delta_of t p else 0)"
    and "(if s \<noteq> base_seq_no p + num_seq_no p then if \<not> SeqNumGT s (base_seq_no p + num_seq_no p - 1)
      then (False, p) else add_missing (base_seq_no p + num_seq_no p) s p else (True, p)) = (ok, q)"
  shows "AddReceivedPacket s t p = (if cast16 dl \<noteq> dl then (False, p) else if \<not> ok then (False, q)
    else case AddDeltaSize (delta_size_of (cast16 dl)) q of None \<Rightarrow> (False, q)
      | Some r \<Rightarrow> let p = r\<lparr>received_packets := received_packets r @ [received_at s (cast16 dl)],
            all_packets := (if include_lost r then all_packets r @ [received_at s (cast16 dl)] else all_packets r),
            last_timestamp_us := last_timestamp_us r + cast16 dl * kDeltaScaleFactor\<rparr>
        in (True, if include_timestamps p then p\<lparr>size_bytes := size_bytes p + unat (delta_size_of (cast16 dl))\<rparr> else p))"
  unfolding AddReceivedPacket_def Let_def assms(1) [symmetric] assms(2) by simp

text \<open>A feedback takes a packet and reports it, or refuses it and reports what it did before.\<close>

lemma AddReceivedPacket_numbers:
  assumes "AddReceivedPacket s t p = (b, p')"
  shows "numbers p' = (if b then numbers p @ [s] else numbers p)"
proof -
  define dl where "dl = (if include_timestamps p then delta_of t p else 0)"
  define st where "st = (if s \<noteq> base_seq_no p + num_seq_no p then if \<not> SeqNumGT s (base_seq_no p + num_seq_no p - 1)
    then (False, p) else add_missing (base_seq_no p + num_seq_no p) s p else (True, p))"
  obtain ok q where q: "st = (ok, q)" by (cases st)
  have rq: "received_packets q = received_packets p"
    using q add_missing_received [of "base_seq_no p + num_seq_no p" s p] by (auto simp: st_def split: if_splits)
  note eq = AddReceivedPacket_eq [OF dl_def q [unfolded st_def]]
  show ?thesis
  proof (cases "cast16 dl \<noteq> dl \<or> \<not> ok \<or> AddDeltaSize (delta_size_of (cast16 dl)) q = None")
    case True
    then show ?thesis using assms rq unfolding eq by (auto simp: numbers_def split: if_splits)
  next
    case False
    then obtain r where r: "AddDeltaSize (delta_size_of (cast16 dl)) q = Some r" "cast16 dl = dl" ok by auto
    then show ?thesis using assms rq AddDeltaSize_received [OF r(1)] unfolding eq
      by (auto simp: numbers_def Let_def received_at_def)
  qed
qed

lemma u16_of_int: "0 \<le> x \<Longrightarrow> x < 65536 \<Longrightarrow> int (unat (of_int x :: u16)) = x"
  by (simp add: uint_word_of_int flip: uint_nat)

text \<open>The first time in a feedback differs from its base time by less than one base tick.\<close>

lemma fresh_delta:
  assumes "0 \<le> t" "last_timestamp_us p = cdiv (cmod t kTimeWrapPeriodUs) kBaseScaleFactor * kBaseScaleFactor"
  shows "0 \<le> delta_of t p" "delta_of t p \<le> 256"
proof -
  define W K r where "W = (1073741824000::int)" "K = (64000::int)" "r = t mod W"
  have c: "kTimeWrapPeriodUs = W" "kBaseScaleFactor = K" by (simp_all add: tf_consts W_K_r_def)
  have r: "0 \<le> r" "r < W" by (simp_all add: W_K_r_def)
  have l: "last_timestamp_us p = r div K * K"
    unfolding assms(2) c using assms(1) r by (simp add: cmod_nonneg cdiv_nonneg W_K_r_def)
  have e: "r = r div K * K + r mod K" by simp
  have m: "0 \<le> r mod K" "r mod K < K" by (simp_all add: W_K_r_def)
  have q: "t = W * (t div W) + r" by (simp add: W_K_r_def)
  then have d: "t - last_timestamp_us p = W * (t div W) + r mod K" unfolding l using e by linarith
  have "0 \<le> t div W" using assms(1) by (simp add: W_K_r_def)
  then have "0 \<le> W * (t div W)" by (simp add: W_K_r_def)
  then have "0 \<le> t - last_timestamp_us p" using d m by linarith
  then have "cmod (t - last_timestamp_us p) W = (W * (t div W) + r mod K) mod W" unfolding d by (simp add: cmod_nonneg W_K_r_def)
  also have "\<dots> = r mod K" using m by (simp add: W_K_r_def)
  finally have f: "cmod (t - last_timestamp_us p) W = r mod K" .
  have "delta_of t p = (r mod K + 125) div 250"
    using f m by (simp add: delta_of_def Let_def c cdiv_nonneg kDeltaScaleFactor_def) (simp add: W_K_r_def cdiv_nonneg)
  then show "0 \<le> delta_of t p" "delta_of t p \<le> 256" using m by (simp_all add: W_K_r_def)
qed

lemma fresh_accepts:
  assumes t: "0 \<le> t" and gap: "b \<le> f" "f - b < 32767"
  shows "\<exists>p. AddReceivedPacket (of_int f) (t * 1000) (open_feedback h True b t i n) = (True, p)
     \<and> numbers p = [of_int f]"
proof -
  let ?p = "open_feedback h True b t i n" and ?d = "delta_of (t * 1000) (open_feedback h True b t i n)"
  have f: "include_timestamps ?p" "base_seq_no ?p = of_int b" "num_seq_no ?p = 0" "size_bytes ?p = 20" "received_packets ?p = []"
    by (simp_all add: open_feedback_def SetFeedbackSequenceNumber_def SetBase_def new_feedback_def Let_def tf_consts)
  have d: "0 \<le> ?d" "?d \<le> 256"
    using fresh_delta [of "t * 1000" ?p] t
    by (simp_all add: open_feedback_def SetFeedbackSequenceNumber_def SetBase_def GetBaseTimeUs_def Let_def)
  have c: "cast16 ?d = ?d" using d by (intro cast16_id) linarith+
  define g :: u16 where "g = of_int f - of_int b"
  have gi: "g = of_int (f - b)" by (simp add: g_def)
  have g: "int (unat g) = f - b" unfolding gi using gap by (intro u16_of_int) linarith+
  have gu: "unat g < 32767" using g gap by linarith
  have gt: "SeqNumGT (of_int f) (of_int b - 1)" if "g \<noteq> 0"
  proof -
    have "(of_int f - (of_int b - 1) :: u16) = of_int (f - b + 1)" by simp
    then have "int (seq_dist (of_int b - 1) (of_int f)) = f - b + 1"
      unfolding seq_dist_def using gap by (simp only:) (intro u16_of_int; linarith)
    then show ?thesis using gap by (simp add: SeqNumGT_dist)
  qed
  obtain q where q: "(if of_int f \<noteq> (of_int b :: u16) then if \<not> SeqNumGT (of_int f) (of_int b - 1) then (False, ?p) else add_missing (of_int b) (of_int f) ?p else (True, ?p)) = (True, q)"
    "size_bytes q \<le> 20 + 2 * unat g" "num_seq_no q = g"
  proof (cases "g = 0")
    case True
    then show ?thesis using that [of ?p] f by (simp add: g_def)
  next
    case False
    have "unat (num_seq_no ?p) + unat (of_int f - of_int b :: u16) < 65535"
      "size_bytes ?p + 2 * unat (of_int f - of_int b :: u16) + 2 \<le> kMaxSizeBytes"
      unfolding g_def [symmetric] f using gu by (simp_all add: kMaxSizeBytes_def)
    then obtain q where "add_missing (of_int b) (of_int f) ?p = (True, q)" "size_bytes q \<le> 20 + 2 * unat g" "num_seq_no q = g"
      using add_missing_succeeds [of ?p "of_int f" "of_int b"] f(3,4) unfolding g_def by auto
    then show ?thesis using that [of q] gt False by (simp add: g_def)
  qed
  obtain r where r: "AddDeltaSize (delta_size_of ?d) q = Some r"
    using AddDeltaSize_succeeds [of q "delta_size_of ?d"] q(2,3) gu delta_size_le(1) [of ?d]
    by (auto simp: kMaxSizeBytes_def word_le_nat_alt)
  have dl: "?d = (if include_timestamps ?p then delta_of (t * 1000) ?p else 0)" by (simp only: f if_True)
  have st: "(if of_int f \<noteq> base_seq_no ?p + num_seq_no ?p then if \<not> SeqNumGT (of_int f) (base_seq_no ?p + num_seq_no ?p - 1)
      then (False, ?p) else add_missing (base_seq_no ?p + num_seq_no ?p) (of_int f) ?p else (True, ?p)) = (True, q)"
    unfolding f add_0_right by (rule q(1))
  have "fst (AddReceivedPacket (of_int f) (t * 1000) ?p)"
    unfolding AddReceivedPacket_eq [OF dl st] c r by (simp add: Let_def)
  then obtain p where p: "AddReceivedPacket (of_int f) (t * 1000) ?p = (True, p)" by (cases "AddReceivedPacket (of_int f) (t * 1000) ?p") auto
  then show ?thesis using AddReceivedPacket_numbers [OF p] f(5) by (simp add: numbers_def)
qed

section \<open>The loops\<close>

lemma upto_split: "a \<le> b \<Longrightarrow> b \<le> c \<Longrightarrow> [a..c - 1] = [a..b - 1] @ [b..c - (1::int)]"
  by (cases "b = c") (auto intro: upto_split1)

lemma filter_none: "\<forall>y. a \<le> y \<and> y < b \<longrightarrow> \<not> P y \<Longrightarrow> filter P [a..b - 1] = []"
  by (auto simp: filter_empty_conv)

text \<open>Once a feedback is open: it reports what arrived up to the new window start.\<close>

lemma build_loop_open:
  assumes "build_loop h ts bs i m [a..e - 1] (Some p) nxt n = (fb, nxt', n')"
    and "nxt \<le> a" "a \<le> e" "\<forall>y. nxt \<le> y \<and> y < a \<longrightarrow> arrival_get y m = 0"
  shows "\<exists>p'. fb = Some p' \<and> nxt \<le> nxt' \<and> nxt' \<le> e
     \<and> numbers p' = numbers p @ map of_int (filter (\<lambda>y. arrival_get y m \<noteq> 0) [nxt..nxt' - 1])"
  using assms
proof (induction "nat (e - a)" arbitrary: a p nxt n)
  case 0
  then have "e = a" "fb = Some p" "nxt' = nxt" by simp_all
  then show ?case using 0 by simp
next
  case (Suc k)
  let ?R = "\<lambda>y. arrival_get y m \<noteq> 0"
  have lt: "a < e" using Suc.hyps(2) by linarith
  then have ups: "[a..e - 1] = a # [a + 1..e - 1]" by (simp add: upto_rec1)
  have k: "k = nat (e - (a + 1))" using Suc.hyps(2) by linarith
  show ?case
  proof (cases "arrival_get a m = 0")
    case True
    have "\<forall>y. nxt \<le> y \<and> y < a + 1 \<longrightarrow> arrival_get y m = 0"
      using Suc.prems(4) True by (metis zless_add1_eq)
    moreover have "build_loop h ts bs i m [a + 1..e - 1] (Some p) nxt n = (fb, nxt', n')"
      using Suc.prems(1) True unfolding ups by simp
    ultimately show ?thesis using Suc.hyps(1) [OF k] Suc.prems(2) lt by simp
  next
    case False
    obtain b q where q: "AddReceivedPacket (of_int a) (arrival_get a m * 1000) p = (b, q)"
      by (cases "AddReceivedPacket (of_int a) (arrival_get a m * 1000) p")
    note num = AddReceivedPacket_numbers [OF q]
    show ?thesis
    proof (cases b)
      case refused: False
      then have "fb = Some q" "nxt' = nxt" using Suc.prems(1) False q unfolding ups by simp_all
      then show ?thesis using num refused Suc.prems(2,3) by simp
    next
      case True
      have "build_loop h ts bs i m [a + 1..e - 1] (Some q) (a + 1) n = (fb, nxt', n')"
        using Suc.prems(1) False q True unfolding ups by simp
      from Suc.hyps(1) [OF k this] lt obtain p' where p': "fb = Some p'" "a + 1 \<le> nxt'" "nxt' \<le> e"
        "numbers p' = numbers q @ map of_int (filter ?R [a + 1..nxt' - 1])" by auto
      have "[nxt..nxt' - 1] = [nxt..a - 1] @ a # [a + 1..nxt' - 1]"
        using Suc.prems(2) p'(2) upto_split [of nxt a nxt'] by (simp add: upto_rec1)
      then have "filter ?R [nxt..nxt' - 1] = a # filter ?R [a + 1..nxt' - 1]"
        using filter_none [of nxt a ?R] Suc.prems(4) False by simp
      then show ?thesis using p' num True Suc.prems(2) by simp
    qed
  qed
qed

text \<open>A feedback is opened for the first arrival, and always takes it.\<close>

lemma build_loop_closed:
  assumes "build_loop h True w i m [a..e - 1] None w n = (fb, nxt', n')"
    and "w \<le> a" "a \<le> e" "\<forall>y. w \<le> y \<and> y < a \<longrightarrow> arrival_get y m = 0" "e - w \<le> 32767"
    and "\<forall>y. a \<le> y \<and> y < e \<longrightarrow> 0 \<le> arrival_get y m"
  shows "(fb = None \<longrightarrow> nxt' = w \<and> (\<forall>y. w \<le> y \<and> y < e \<longrightarrow> arrival_get y m = 0))
     \<and> (\<forall>p. fb = Some p \<longrightarrow> w < nxt' \<and> nxt' \<le> e
          \<and> numbers p = map of_int (filter (\<lambda>y. arrival_get y m \<noteq> 0) [w..nxt' - 1]))"
  using assms
proof (induction "nat (e - a)" arbitrary: a)
  case 0
  then show ?case by auto
next
  case (Suc k)
  let ?R = "\<lambda>y. arrival_get y m \<noteq> 0"
  have lt: "a < e" using Suc.hyps(2) by linarith
  then have ups: "[a..e - 1] = a # [a + 1..e - 1]" by (simp add: upto_rec1)
  have k: "k = nat (e - (a + 1))" using Suc.hyps(2) by linarith
  show ?case
  proof (cases "arrival_get a m = 0")
    case True
    have "\<forall>y. w \<le> y \<and> y < a + 1 \<longrightarrow> arrival_get y m = 0"
      using Suc.prems(4) True by (metis zless_add1_eq)
    moreover have "build_loop h True w i m [a + 1..e - 1] None w n = (fb, nxt', n')"
      using Suc.prems(1) True unfolding ups by simp
    ultimately show ?thesis using Suc.hyps(1) [OF k] Suc.prems(2,5,6) lt by simp
  next
    case False
    have "0 \<le> arrival_get a m" using Suc.prems(6) lt by simp
    from fresh_accepts [OF this Suc.prems(2), of h i n] Suc.prems(5) lt
    obtain q where q: "AddReceivedPacket (of_int a) (arrival_get a m * 1000) (open_feedback h True w (arrival_get a m) i n) = (True, q)"
      "numbers q = [of_int a]" by auto
    have "build_loop h True w i m [a + 1..e - 1] (Some q) (a + 1) (n + 1) = (fb, nxt', n')"
      using Suc.prems(1) False q(1) unfolding ups by simp
    from build_loop_open [OF this] lt obtain p' where p': "fb = Some p'" "a + 1 \<le> nxt'" "nxt' \<le> e"
      "numbers p' = numbers q @ map of_int (filter ?R [a + 1..nxt' - 1])" by auto
    have "[w..nxt' - 1] = [w..a - 1] @ a # [a + 1..nxt' - 1]"
      using Suc.prems(2) p'(2) upto_split [of w a nxt'] by (simp add: upto_rec1)
    then have "filter ?R [w..nxt' - 1] = a # filter ?R [a + 1..nxt' - 1]"
      using filter_none [of w a ?R] Suc.prems(4) False by simp
    then show ?thesis using p' q(2) Suc.prems(2) by simp
  qed
qed

section \<open>What the receiver keeps\<close>

definition twcc_ok :: "ReceiveSideTWCC \<Rightarrow> bool" where
  "twcc_ok s \<longleftrightarrow> map_ok (packet_arrival_times s) \<and> (\<forall>t \<in> set (arrival_times (packet_arrival_times s)). 0 \<le> t)
     \<and> (\<forall>w. periodic_window_start_seq s = Some w \<longrightarrow> begin_sequence_number (packet_arrival_times s) \<le> w)"

lemma twcc_okD:
  assumes "twcc_ok s"
  shows "map_ok (packet_arrival_times s)" "t \<in> set (arrival_times (packet_arrival_times s)) \<Longrightarrow> 0 \<le> t"
    and "periodic_window_start_seq s = Some w \<Longrightarrow> begin_sequence_number (packet_arrival_times s) \<le> w"
  using assms by (simp_all add: twcc_ok_def)

lemma arrival_get_nonneg:
  assumes "\<forall>t \<in> set (arrival_times m). 0 \<le> t" "begin_sequence_number m \<le> y" "y < end_sequence_number m"
  shows "0 \<le> arrival_get y m"
  unfolding arrival_get_def using assms by (intro bspec [OF assms(1)] nth_mem) (simp add: end_sequence_number_def)

lemma arrival_get_received:
  "begin_sequence_number m \<le> y \<Longrightarrow> y < end_sequence_number m \<Longrightarrow> arrival_get y m \<noteq> 0 \<longleftrightarrow> has_received y m"
  by (simp add: arrival_get_def has_received_def end_sequence_number_def Let_def)

text \<open>A window that is not wider than half the circle is reported in full, and the loop ends.\<close>

lemma feedback_loop_reports:
  assumes "twcc_ok s" "periodic_window_start_seq s = Some w" "stop = end_sequence_number (packet_arrival_times s)"
    and "stop - w \<le> 32767"
  shows "\<exists>fbs n w'. feedback_loop h stop s = Some (fbs, s\<lparr>feedback_packet_count := n, periodic_window_start_seq := Some w'\<rparr>)
     \<and> w \<le> w' \<and> (\<forall>y. w' \<le> y \<and> y < stop \<longrightarrow> \<not> has_received y (packet_arrival_times s))
     \<and> concat (map numbers fbs) = map of_int (filter (\<lambda>y. has_received y (packet_arrival_times s)) [w..w' - 1])"
  using assms
proof (induction "nat (stop - w)" arbitrary: s w rule: less_induct)
  case less
  let ?m = "packet_arrival_times s"
  have beg: "begin_sequence_number ?m \<le> w" using twcc_okD(3) [OF less.prems(1,2)] .
  show ?case
  proof (cases "w < stop")
    case False
    then have "feedback_loop h stop s = Some ([], s\<lparr>feedback_packet_count := feedback_packet_count s, periodic_window_start_seq := Some w\<rparr>)"
      using less.prems(2) by (subst feedback_loop.simps) simp
    then show ?thesis using False by (intro exI [of _ "[]"] exI [of _ "feedback_packet_count s"] exI [of _ w]) (simp, linarith)
  next
    case True
    have clamp: "arrival_clamp w ?m = w" "arrival_clamp stop ?m = stop"
      using beg True less.prems(3) by (simp_all add: arrival_clamp_def)
    obtain fb w1 n where b: "build_loop h True w (twcc_media_ssrc s) ?m [w..stop - 1] None w (feedback_packet_count s) = (fb, w1, n)"
      by (cases "build_loop h True w (twcc_media_ssrc s) ?m [w..stop - 1] None w (feedback_packet_count s)")
    have rec: "arrival_get y ?m \<noteq> 0 \<longleftrightarrow> has_received y ?m" if "w \<le> y" "y < stop" for y
      using arrival_get_received [of ?m y] that beg less.prems(3) by simp
    have nn: "\<forall>y. w \<le> y \<and> y < stop \<longrightarrow> 0 \<le> arrival_get y ?m"
      using arrival_get_nonneg [of ?m] twcc_okD(2) [OF less.prems(1)] beg less.prems(3) by simp
    note bl = build_loop_closed [OF b order_refl _ _ less.prems(4) nn]
    define s1 where "s1 = s\<lparr>feedback_packet_count := n, periodic_window_start_seq := Some w1\<rparr>"
    have mb: "MaybeBuildFeedbackPacket h True w stop True s = (fb, s1)"
      unfolding MaybeBuildFeedbackPacket_def Let_def clamp b s1_def by simp
    show ?thesis
    proof (cases fb)
      case None
      have fl: "feedback_loop h stop s = Some ([], s1)"
        using None True mb less.prems(2) by (subst feedback_loop.simps) simp
      have b1: "w1 = w \<and> (\<forall>y. w \<le> y \<and> y < stop \<longrightarrow> arrival_get y ?m = 0)"
        using bl None True by simp
      then have w1: "w1 = w" and no: "\<forall>y. w \<le> y \<and> y < stop \<longrightarrow> \<not> has_received y ?m"
        using rec by auto
      show ?thesis unfolding fl using no w1
        by (intro exI [of _ "[]"] exI [of _ n] exI [of _ w]) (simp add: s1_def)
    next
      case (Some p)
      with bl True have p: "w < w1" "w1 \<le> stop" "numbers p = map of_int (filter (\<lambda>y. arrival_get y ?m \<noteq> 0) [w..w1 - 1])"
        by simp_all
      have m1: "packet_arrival_times s1 = ?m" "periodic_window_start_seq s1 = Some w1" by (simp_all add: s1_def)
      have ok1: "twcc_ok s1" using less.prems(1) beg p(1) by (simp add: twcc_ok_def s1_def)
      have less1: "nat (stop - w1) < nat (stop - w)" "stop - w1 \<le> 32767" using p(1,2) True less.prems(4) by linarith+
      obtain fbs n' w' where r: "feedback_loop h stop s1 = Some (fbs, s1\<lparr>feedback_packet_count := n', periodic_window_start_seq := Some w'\<rparr>)"
        "w1 \<le> w'" "\<forall>y. w' \<le> y \<and> y < stop \<longrightarrow> \<not> has_received y ?m"
        "concat (map numbers fbs) = map of_int (filter (\<lambda>y. has_received y ?m) [w1..w' - 1])"
        using less.hyps [OF less1(1) ok1 m1(2) _ less1(2)] less.prems(3) m1(1) by auto
      have fl: "feedback_loop h stop s = Some (p # fbs, s\<lparr>feedback_packet_count := n', periodic_window_start_seq := Some w'\<rparr>)"
        using less.prems(2) True mb Some r(1) by (subst feedback_loop.simps) (simp add: s1_def)
      have "filter (\<lambda>y. arrival_get y ?m \<noteq> 0) [w..w1 - 1] = filter (\<lambda>y. has_received y ?m) [w..w1 - 1]"
        using rec p(2) by (intro filter_cong) auto
      then have c: "concat (map numbers (p # fbs)) = map of_int (filter (\<lambda>y. has_received y ?m) [w..w' - 1])"
        using p(1,3) r(2,4) upto_split [of w w1 w'] by simp
      show ?thesis unfolding fl using c r(2,3) p(1)
        by (intro exI [of _ "p # fbs"] exI [of _ n'] exI [of _ w']) simp
    qed
  qed
qed

text \<open>The operations keep the invariant.\<close>

lemma set_make_space: "make_space x pos ts b = (ts', b', pos') \<Longrightarrow> set ts' \<subseteq> set ts"
  by (auto simp: make_space_def Let_def split: if_splits dest: in_set_dropD)

lemma set_AddPacket: "set (arrival_times (AddPacket x t m)) \<subseteq> insert t (insert 0 (set (arrival_times m)))"
proof -
  obtain ts b pos where m: "make_space x (x - begin_sequence_number m) (arrival_times m) (begin_sequence_number m) = (ts, b, pos)"
    by (metis prod_cases3)
  show ?thesis using set_make_space [OF m] m
    by (auto simp: AddPacket_def Let_def dest!: subsetD [OF set_update_subset_insert] split: if_splits)
qed

lemma MaybeCull_ok:
  assumes "twcc_ok s"
  shows "twcc_ok (MaybeCullOldPackets x t s)"
proof (cases "periodic_window_start_seq s")
  case (Some w)
  let ?m = "packet_arrival_times s" and ?r = "RemoveOldPackets x (t - kBackWindowMillis) (packet_arrival_times s)"
  obtain k where k: "map_ok ?r" "end_sequence_number ?r = end_sequence_number ?m"
    using RemoveOld_refines [OF twcc_okD(1) [OF assms]] by blast
  have b: "begin_sequence_number ?r \<le> end_sequence_number ?m" using k(2) by (simp add: end_sequence_number_def)
  have "set (arrival_times ?r) \<subseteq> set (arrival_times ?m)"
    using remove_old_drop [of x "t - kBackWindowMillis" "arrival_times ?m" "begin_sequence_number ?m"]
    by (auto simp: RemoveOldPackets_def dest: in_set_dropD)
  then have "twcc_ok (s\<lparr>packet_arrival_times := ?r\<rparr>)" if "w \<ge> end_sequence_number ?m"
    using assms k(1) b that Some by (auto simp: twcc_ok_def)
  then show ?thesis using assms Some by (simp add: MaybeCullOldPackets_def)
qed (use assms in \<open>simp add: MaybeCullOldPackets_def\<close>)

lemma IncomingPacket_ok:
  assumes "twcc_ok s"
  shows "twcc_ok (IncomingPacket t i v s)"
proof (cases "t < 0 \<or> t > kMaxTimeMs")
  case False
  obtain x u where x: "Unwrap v (twcc_unwrapper s) = (x, u)" by fastforce
  define s1 where "s1 = MaybeCullOldPackets x t (s\<lparr>twcc_media_ssrc := i, twcc_unwrapper := u\<rparr>)"
  have ok1: "twcc_ok s1" unfolding s1_def using assms by (intro MaybeCull_ok) (simp add: twcc_ok_def)
  define s2 where "s2 = (case periodic_window_start_seq s1 of None \<Rightarrow> s1\<lparr>periodic_window_start_seq := Some x\<rparr>
                 | Some w \<Rightarrow> if x < w then s1\<lparr>periodic_window_start_seq := Some x\<rparr> else s1)"
  obtain w where w: "periodic_window_start_seq s2 = Some w"
    "w = x \<or> begin_sequence_number (packet_arrival_times s1) \<le> w"
    "packet_arrival_times s2 = packet_arrival_times s1"
    using twcc_okD(3) [OF ok1] that by (cases "periodic_window_start_seq s1"; cases "x < the (periodic_window_start_seq s1)") (auto simp: s2_def)
  define m where "m = packet_arrival_times s2"
  define s3 where "s3 = s2\<lparr>packet_arrival_times := AddPacket x t m\<rparr>"
  have eq: "IncomingPacket t i v s = (if has_received x m then s2 else
      if w < begin_sequence_number (AddPacket x t m) then s3\<lparr>periodic_window_start_seq := Some (begin_sequence_number (AddPacket x t m))\<rparr> else s3)"
    using False w(1) unfolding IncomingPacket_def x Let_def m_def s3_def
    by (simp only: prod.case s1_def [symmetric] s2_def [symmetric]) simp
  have ok_m: "map_ok m" and nn: "\<forall>t\<in>set (arrival_times m). 0 \<le> t" using ok1 w(3) by (simp_all add: twcc_ok_def m_def)
  show ?thesis
  proof (cases "has_received x m")
    case True
    then have "begin_sequence_number m \<le> x" by (simp add: has_received_def Let_def)
    then show ?thesis using eq True w ok_m nn by (auto simp: twcc_ok_def m_def)
  next
    case new: False
    have "\<forall>t\<in>set (arrival_times (AddPacket x t m)). 0 \<le> t" using set_AddPacket [of x t m] nn False by auto
    moreover have "map_ok (AddPacket x t m)" by (rule AddPacket_map_ok [OF ok_m])
    ultimately show ?thesis using eq new w(1) by (auto simp: twcc_ok_def s3_def)
  qed
qed (use assms in \<open>simp add: IncomingPacket_def\<close>)

lemma feedback_loop_ok:
  assumes "twcc_ok s" "periodic_window_start_seq s = Some w" "w \<le> w'"
  shows "twcc_ok (s\<lparr>feedback_packet_count := n, periodic_window_start_seq := Some w'\<rparr>)"
  using assms by (auto simp: twcc_ok_def)

section \<open>Properties\<close>

text \<open>C11. Every tick of the feedback timer ends, although nothing bounds the loop: in a state the receiver can
  be in, with a window no wider than half the circle of sequence numbers, the feedbacks sent
  report exactly the packets that have arrived since the window start, each once and in order;
  the window moves past all of them; and both the tick and every arrival keep the receiver's invariant.\<close>

theorem feedback_tick_reports_window:
  assumes "twcc_ok s" "periodic_window_start_seq s = Some w"
    and "end_sequence_number (packet_arrival_times s) - w \<le> 32767" "0 \<le> now"
  shows "(\<exists>fbs delay s'. TwccTimerTimeout h now s = Some (fbs, delay, s') \<and> delay = kSendIntervalMillis
      \<and> concat (map numbers fbs) = map of_int (filter (\<lambda>y. has_received y (packet_arrival_times s))
          [w..end_sequence_number (packet_arrival_times s) - 1])
      \<and> (\<exists>w'. periodic_window_start_seq s' = Some w' \<and> w \<le> w'
           \<and> (\<forall>y. w' \<le> y \<and> y < end_sequence_number (packet_arrival_times s) \<longrightarrow> \<not> has_received y (packet_arrival_times s)))
      \<and> packet_arrival_times s' = packet_arrival_times s \<and> twcc_ok s')
    \<and> twcc_ok (IncomingPacket t i v s)"
proof (intro conjI)
  define e where "e = end_sequence_number (packet_arrival_times s)"
  let ?R = "\<lambda>y. has_received y (packet_arrival_times s)" and ?s = "s\<lparr>last_process_time_millis := now\<rparr>"
  have ok: "twcc_ok ?s" "periodic_window_start_seq ?s = Some w" "e = end_sequence_number (packet_arrival_times ?s)" "e - w \<le> 32767"
    using assms(1-3) by (simp_all add: twcc_ok_def e_def)
  obtain fbs n w' where r: "feedback_loop h e ?s = Some (fbs, ?s\<lparr>feedback_packet_count := n, periodic_window_start_seq := Some w'\<rparr>)"
    "w \<le> w'" "\<forall>y. w' \<le> y \<and> y < e \<longrightarrow> \<not> ?R y" "concat (map numbers fbs) = map of_int (filter ?R [w..w' - 1])"
    using feedback_loop_reports [OF ok, of h] by auto
  have "filter ?R [w..w' - 1] = filter ?R [w..e - 1]"
  proof (cases "w' \<le> e")
    case True
    then show ?thesis using r(2) upto_split [of w w' e] filter_none [of w' e ?R] r(3) by simp
  next
    case False
    have none: "\<forall>y. max w e \<le> y \<and> y < w' \<longrightarrow> \<not> ?R y" by (auto simp: has_received_def e_def end_sequence_number_def Let_def)
    show ?thesis
    proof (cases "w \<le> e")
      case True
      then show ?thesis using False upto_split [of w e w'] filter_none [of e w' ?R] none by simp
    next
      case gt: False
      then show ?thesis using filter_none [of w w' ?R] none by simp
    qed
  qed
  with r(4) have c: "concat (map numbers fbs) = map of_int (filter ?R [w..e - 1])" by simp
  have t: "TwccTimerTimeout h now s = Some (fbs, kSendIntervalMillis, ?s\<lparr>feedback_packet_count := n, periodic_window_start_seq := Some w'\<rparr>)"
    using r(1) assms(4) by (simp add: TwccTimerTimeout_def SendPeriodicFeedbacks_def e_def TimeUntilNextProcess_def kSendIntervalMillis_def)
  show "\<exists>fbs delay s'. TwccTimerTimeout h now s = Some (fbs, delay, s') \<and> delay = kSendIntervalMillis
      \<and> concat (map numbers fbs) = map of_int (filter ?R [w..end_sequence_number (packet_arrival_times s) - 1])
      \<and> (\<exists>w'. periodic_window_start_seq s' = Some w' \<and> w \<le> w'
           \<and> (\<forall>y. w' \<le> y \<and> y < end_sequence_number (packet_arrival_times s) \<longrightarrow> \<not> ?R y))
      \<and> packet_arrival_times s' = packet_arrival_times s \<and> twcc_ok s'"
    unfolding e_def [symmetric] using t c r(2,3) feedback_loop_ok [OF ok(1,2) r(2), of n]
    by (intro exI [of _ fbs] exI [of _ kSendIntervalMillis]
        exI [of _ "?s\<lparr>feedback_packet_count := n, periodic_window_start_seq := Some w'\<rparr>"] conjI exI [of _ w']) simp_all
qed (rule IncomingPacket_ok [OF assms(1)])

text \<open>Three packets with one missing, reported by one tick.\<close>

definition three_arrivals :: ReceiveSideTWCC where
  "three_arrivals = IncomingPacket 1030 7 5 (IncomingPacket 1020 7 4 (IncomingPacket 1000 7 2 new_receive_twcc))"

theorem feedback_tick_reports_window_witness:
  "\<forall>h. \<exists>fbs delay s'. TwccTimerTimeout h 1100 three_arrivals = Some (fbs, delay, s') \<and> concat (map numbers fbs) = [2, 4, 5]"
proof
  fix h
  let ?m = "\<lparr>arrival_times = [1000, 0, 1020, 1030], begin_sequence_number = 2, has_seen_packet = True\<rparr>"
  let ?s = "\<lparr>last_process_time_millis = - 1, twcc_media_ssrc = 7, feedback_packet_count = 0,
      twcc_unwrapper = \<lparr>last_unwrapped = 5, last_value = Some 5, last_without_update_value = None\<rparr>,
      periodic_window_start_seq = Some 2, packet_arrival_times = ?m\<rparr>"
  note ops = IncomingPacket_def MaybeCullOldPackets_def Unwrap_def seq_step_def SeqNumGE_def maxDist_def kMaxTimeMs_def
    has_received_def AddPacket_def make_space_def kMaxNumberOfPackets_def end_sequence_number_def Let_def
  have "IncomingPacket 1000 7 2 new_receive_twcc = ?s\<lparr>twcc_unwrapper := \<lparr>last_unwrapped = 2, last_value = Some 2, last_without_update_value = None\<rparr>,
      packet_arrival_times := ?m\<lparr>arrival_times := [1000]\<rparr>\<rparr>"
    by (simp add: ops new_receive_twcc_def new_arrival_map_def new_unwrapper_def)
  then have t: "three_arrivals = ?s" by (simp add: three_arrivals_def ops)
  have w: "periodic_window_start_seq three_arrivals = Some 2" "end_sequence_number (packet_arrival_times three_arrivals) = 6"
    unfolding t by (simp_all add: end_sequence_number_def)
  have f: "filter (\<lambda>y. has_received y (packet_arrival_times three_arrivals)) [2..6 - 1] = [2, 4, 5]"
    unfolding t by (simp add: ops upto.simps)
  have ok: "twcc_ok three_arrivals" unfolding t by (auto simp: twcc_ok_def map_ok_def kMaxNumberOfPackets_def)
  from feedback_tick_reports_window [of three_arrivals 2 1100 h 0 0 0, OF ok w(1)]
  obtain fbs delay s' where "TwccTimerTimeout h 1100 three_arrivals = Some (fbs, delay, s')"
    "concat (map numbers fbs) = map of_int [2, 4, 5]" unfolding w(2) f by auto
  then show "\<exists>fbs delay s'. TwccTimerTimeout h 1100 three_arrivals = Some (fbs, delay, s') \<and> concat (map numbers fbs) = [2, 4, 5]" by auto
qed

end
