(* ===== verification/Rtcp_Compound.thy ===== *)
theory Rtcp_Compound
  imports Rtcp_Nack Rtcp_Xr Transport_Feedback
begin

text \<open>
  Compound RTCP packets, \<open>RtcpCompound\<close> in \<^verbatim>\<open>src/src/rtp_rtcp/rtcp_packet.cpp\<close>: the loop that
  looks at a packet's type and format, parses it with the parser of its class, and goes on behind
  it. It ends because every parser that succeeds has read a header. A packet object is created
  with an indeterminate header, an argument here, which every parser overwrites.
\<close>

datatype ParsedRtcp = PktNack NackPacket | PktTwcc TransportFeedback | PktRr ReceiverReportPacket
  | PktXr XrPacket | PktSr SenderReportPacket | PktOther RtcpPacket

definition RtcpParseOne :: "RtcpCommonHeader \<Rightarrow> byte_reader \<Rightarrow> (ParsedRtcp \<times> byte_reader) outcome" where
  "RtcpParseOne h r =
     (let b0 = CurrentData r ! 0; type = CurrentData r ! 1; format = b0 AND 0x1f
      in if type = 205 then
           if format = 1 then
             of_option (map_option (apfst PktNack) (NackParse
               \<lparr>header = h, sender_ssrc = 0, media_ssrc = 0, packet_lost_sequence_numbers = []\<rparr> r))
           else if format = 15 then
             bind_outcome (TransportFeedbackParse (new_feedback h True True) r) (\<lambda>(p, r). Returns (PktTwcc p, r))
           else of_option (map_option (apfst PktOther) (RtcpPacketParse \<lparr>header = h, sender_ssrc = 0\<rparr> r))
         else if type = 201 then
           of_option (map_option (apfst PktRr) (ReceiverReportParse \<lparr>header = h, sender_ssrc = 0, report_blocks = []\<rparr> r))
         else if type = 207 then
           of_option (map_option (apfst PktXr) (XrParse
             \<lparr>header = h, sender_ssrc = 0, rrtr_block_context = None, dlrr_block_context = None\<rparr> r))
         else if type = 200 then
           of_option (map_option (apfst PktSr) (SenderReportParse
             \<lparr>header = h, sender_ssrc = 0, ntp_seconds = 0, ntp_fractions = 0, rtp_timestamp = 0,
              send_packet_count = 0, send_octets = 0\<rparr> r))
         else of_option (map_option (apfst PktOther) (RtcpPacketParse \<lparr>header = h, sender_ssrc = 0\<rparr> r)))"

section \<open>Progress\<close>

text \<open>\<open>consumes r r'\<close>: the reader has moved forward by at least a header.\<close>

definition consumes :: "byte_reader \<Rightarrow> byte_reader \<Rightarrow> bool" where
  "consumes r r' \<longleftrightarrow> br_end r' = br_end r \<and> br_start r + 4 \<le> br_start r' \<and> 4 \<le> ReaderLeft r"

lemma consumes_left: "consumes r r' \<Longrightarrow> ReaderLeft r' < ReaderLeft r"
  by (auto simp: consumes_def ReaderLeft_def)

lemma header_consumes:
  "ParseCommonHeader p r = Some (p', r') \<Longrightarrow> consumes r r'"
  by (auto simp: ParseCommonHeader_def ReadBytes_def consumes_def ReaderLeft_def Let_def split: if_splits)

lemma consumes_advanced: "consumes r s \<Longrightarrow> advanced s t \<Longrightarrow> consumes r t"
  by (auto simp: consumes_def advanced_def)

lemma advanced_refl [simp]: "advanced r r"
  by (simp add: advanced_def)

lemma read_n_advanced_gen:
  assumes "\<And>r x r'. rd r = Some (x, r') \<Longrightarrow> advanced r r'"
  shows "read_n rd n r = Some (xs, r') \<Longrightarrow> advanced r r'"
proof (induction n arbitrary: r xs)
  case (Suc n)
  then show ?case by (fastforce simp: Option.bind_eq_Some_conv dest: assms intro: advanced_trans)
qed simp

lemma ReadUInt24_advanced: "ReadUInt24 r = Some (x, r') \<Longrightarrow> advanced r r'"
  by (auto simp: ReadUInt24_def advanced_def split: if_splits)

lemma ReportBlockParse_advanced: "ReportBlockParse r = Some (x, r') \<Longrightarrow> advanced r r'"
  by (auto simp: ReportBlockParse_def Option.bind_eq_Some_conv dest!: read_advanced ReadUInt24_advanced)
    (simp add: advanced_def)

lemma ParseCommonFeedback_advanced: "ParseCommonFeedback p r = Some (p', r') \<Longrightarrow> advanced r r'"
  by (auto simp: ParseCommonFeedback_def Option.bind_eq_Some_conv dest!: read_advanced intro: advanced_trans)

lemma nack_items_loop_advanced: "nack_items_loop n lost r = Some (xs, r') \<Longrightarrow> advanced r r'"
proof (induction n arbitrary: lost r)
  case (Suc n)
  then show ?case by (fastforce simp: Option.bind_eq_Some_conv dest: read_advanced intro: advanced_trans)
qed simp

lemma XrParseBlock_advanced: "XrParseBlock p r = Some (p', l, r') \<Longrightarrow> advanced r r'"
  by (auto simp: XrParseBlock_def RrtrParse_def DlrrParse_def Option.bind_eq_Some_conv
      dest!: read_advanced read_n_advanced split: if_splits option.splits) (simp_all add: advanced_def)

lemma XrLoop_advanced: "XrLoop n p r = Some (p', r') \<Longrightarrow> advanced r r'"
proof (induction n p r rule: XrLoop.induct)
  case (1 n p r)
  then show ?case
    by (subst (asm) XrLoop.simps) (auto dest: XrParseBlock_advanced intro: advanced_trans split: if_splits option.splits)
qed

lemma read_blocks_advanced: "read_n ReportBlockParse n r = Some (xs, r') \<Longrightarrow> advanced r r'"
  by (rule read_n_advanced_gen) (rule ReportBlockParse_advanced)

lemma NackParse_consumes: "NackParse p r = Some (p', r') \<Longrightarrow> consumes r r'"
  by (auto simp: NackParse_def Option.bind_eq_Some_conv dest!: header_consumes ParseCommonFeedback_advanced
      nack_items_loop_advanced intro: consumes_advanced advanced_trans)

lemma RtcpPacketParse_consumes: "RtcpPacketParse p r = Some (p', r') \<Longrightarrow> consumes r r'"
  by (auto simp: RtcpPacketParse_def Option.bind_eq_Some_conv dest!: header_consumes read_advanced
      intro: consumes_advanced)

lemma ReceiverReportParse_consumes: "ReceiverReportParse p r = Some (p', r') \<Longrightarrow> consumes r r'"
  by (auto simp: ReceiverReportParse_def Option.bind_eq_Some_conv dest!: header_consumes read_advanced
      read_blocks_advanced intro: consumes_advanced advanced_trans)

lemma SenderReportParse_consumes: "SenderReportParse p r = Some (p', r') \<Longrightarrow> consumes r r'"
  by (auto simp: SenderReportParse_def Option.bind_eq_Some_conv dest!: header_consumes read_advanced
      intro: consumes_advanced advanced_trans)

lemma XrParse_consumes: "XrParse p r = Some (p', r') \<Longrightarrow> consumes r r'"
  by (auto simp: XrParse_def Let_def Option.bind_eq_Some_conv dest!: header_consumes read_advanced XrLoop_advanced
      intro: consumes_advanced advanced_trans)

lemma of_option_eq_Returns: "of_option x = Returns y \<longleftrightarrow> x = Some y"
  by (cases x) simp_all

lemma TransportFeedbackParse_consumes:
  "TransportFeedbackParse p r = Returns (p', r') \<Longrightarrow> consumes r r'"
  by (auto simp: TransportFeedbackParse_def Let_def bind_outcome_eq_Returns of_option_eq_Returns
      dest!: header_consumes ParseCommonFeedback_advanced intro: consumes_advanced dest: read_advanced(3)
      split: if_splits option.splits)

lemma RtcpParseOne_consumes: "RtcpParseOne h r = Returns (k, r') \<Longrightarrow> consumes r r'"
  by (auto simp: RtcpParseOne_def Let_def bind_outcome_eq_Returns of_option_eq_Returns apfst_def map_prod_def
      dest: NackParse_consumes RtcpPacketParse_consumes ReceiverReportParse_consumes SenderReportParse_consumes
        XrParse_consumes TransportFeedbackParse_consumes split: if_splits)

section \<open>The loop\<close>

function RtcpCompoundLoop :: "RtcpCommonHeader \<Rightarrow> ParsedRtcp list \<Rightarrow> byte_reader \<Rightarrow> ParsedRtcp list outcome" where
  "RtcpCompoundLoop h rtcps r =
     (if 2 \<le> ReaderLeft r then
        case RtcpParseOne h r of
          Returns (k, r') \<Rightarrow> RtcpCompoundLoop h (rtcps @ [k]) r'
        | Fails \<Rightarrow> Fails
        | OutOfBounds \<Rightarrow> OutOfBounds
      else Returns rtcps)"
  by pat_completeness auto
termination
  by (relation "measure (\<lambda>(h, ks, r). ReaderLeft r)") (auto dest!: RtcpParseOne_consumes consumes_left)

declare RtcpCompoundLoop.simps [simp del]

definition RtcpCompoundParse :: "RtcpCommonHeader \<Rightarrow> bytes \<Rightarrow> ParsedRtcp list outcome" where
  "RtcpCompoundParse h data = RtcpCompoundLoop h [] (ByteReader data)"

lemma RtcpCompoundLoop_bound:
  "RtcpCompoundLoop h ks r = Returns ks' \<Longrightarrow> 4 * length ks' \<le> 4 * length ks + ReaderLeft r"
proof (induction h ks r rule: RtcpCompoundLoop.induct)
  case (1 h ks r)
  show ?case
  proof (cases "2 \<le> ReaderLeft r")
    case True
    then obtain k r' where k: "RtcpParseOne h r = Returns (k, r')" "RtcpCompoundLoop h (ks @ [k]) r' = Returns ks'"
      using 1(2) by (subst (asm) RtcpCompoundLoop.simps) (auto split: outcome.splits)
    have "4 * length ks' \<le> 4 * length (ks @ [k]) + ReaderLeft r'" using 1(1) [OF True k(1) refl k(2)] .
    moreover have "ReaderLeft r' + 4 \<le> ReaderLeft r"
      using RtcpParseOne_consumes [OF k(1)] by (auto simp: consumes_def ReaderLeft_def)
    ultimately show ?thesis by simp
  next
    case False
    then show ?thesis using 1(2) by (subst (asm) RtcpCompoundLoop.simps) simp
  qed
qed

section \<open>Parsing what was serialised\<close>

text \<open>Dispatch to the virtual \<open>Serialize\<close> and \<open>Size\<close> of the packet's class.\<close>

fun RtcpSerialize :: "ParsedRtcp \<Rightarrow> byte_writer \<Rightarrow> byte_writer option" where
  "RtcpSerialize (PktNack p) w = map_option snd (NackSerialize p w)"
| "RtcpSerialize (PktTwcc p) w = map_option snd (TransportFeedbackSerialize p w)"
| "RtcpSerialize (PktRr p) w = map_option snd (ReceiverReportSerialize p w)"
| "RtcpSerialize (PktXr p) w = map_option snd (XrSerialize p w)"
| "RtcpSerialize (PktSr p) w = map_option snd (SenderReportSerialize p w)"
| "RtcpSerialize (PktOther p) w = Some w"

fun RtcpSize :: "ParsedRtcp \<Rightarrow> nat" where
  "RtcpSize (PktNack p) = NackSize p"
| "RtcpSize (PktTwcc p) = TransportFeedbackSize p"
| "RtcpSize (PktRr p) = ReceiverReportSize p"
| "RtcpSize (PktXr p) = XrSize p"
| "RtcpSize (PktSr p) = SenderReportSize p"
| "RtcpSize (PktOther p) = 0"

fun enc_pkt :: "ParsedRtcp \<Rightarrow> bytes" where
  "enc_pkt (PktNack p) = enc_nack p"
| "enc_pkt (PktTwcc p) = enc_header (tf_header p) @ enc_tf_body p"
| "enc_pkt (PktRr p) = enc_rr p"
| "enc_pkt (PktSr p) = enc_sr p"
| "enc_pkt k = []"

text \<open>The packets covered: reports, NACKs and non-empty feedbacks within the limits of their formats.\<close>

fun pkt_ok :: "ParsedRtcp \<Rightarrow> bool" where
  "pkt_ok (PktNack p) \<longleftrightarrow> length (packet_lost_sequence_numbers p) \<le> 65533"
| "pkt_ok (PktTwcc p) \<longleftrightarrow> tf_ok p \<and> include_timestamps p \<and> num_seq_no p \<noteq> 0 \<and> 0 \<le> base_time_ticks p
     \<and> base_time_ticks p < 2 ^ 24 \<and> TransportFeedbackSize p \<le> kMaxSizeBytes"
| "pkt_ok (PktRr p) \<longleftrightarrow> length (report_blocks p) \<le> kMaxNumberOfReportBlocks \<and> (\<forall>b\<in>set (report_blocks p). valid_block b)"
| "pkt_ok (PktSr p) \<longleftrightarrow> True"
| "pkt_ok k \<longleftrightarrow> False"

fun same_pkt :: "ParsedRtcp \<Rightarrow> ParsedRtcp \<Rightarrow> bool" where
  "same_pkt (PktNack p) (PktNack q) \<longleftrightarrow> set (packet_lost_sequence_numbers q) = set (packet_lost_sequence_numbers p)
     \<and> sender_ssrc q = sender_ssrc p \<and> media_ssrc q = media_ssrc p"
| "same_pkt (PktTwcc p) (PktTwcc q) \<longleftrightarrow> received_packets q = received_packets p \<and> base_seq_no q = base_seq_no p
     \<and> num_seq_no q = num_seq_no p \<and> base_time_ticks q = base_time_ticks p \<and> sender_ssrc q = sender_ssrc p
     \<and> media_ssrc q = media_ssrc p"
| "same_pkt (PktRr p) (PktRr q) \<longleftrightarrow> report_blocks q = report_blocks p \<and> sender_ssrc q = sender_ssrc p"
| "same_pkt (PktSr p) (PktSr q) \<longleftrightarrow> (\<exists>h. q = p\<lparr>header := h\<rparr>)"
| "same_pkt _ _ \<longleftrightarrow> False"

lemma enc_pkt_size: "pkt_ok k \<Longrightarrow> length (enc_pkt k) \<le> RtcpSize k"
  by (cases k) (auto simp: length_enc_nack_le length_enc_rr length_enc_sr TransportFeedbackSize_def
      length_enc_tf_body [symmetric])

lemma RtcpSerialize_put:
  assumes "pkt_ok k" "writer_ok w" "RtcpSize k \<le> WriterLeft w"
  shows "RtcpSerialize k w = Some (put w (enc_pkt k))"
  using assms
  by (cases k) (simp_all add: NackSerialize_enc ReceiverReportSerialize_enc SenderReportSerialize_enc
      TransportFeedbackSerialize_enc TransportFeedbackSize_def)

lemma peek_header:
  assumes "CurrentData r = enc_header h @ bs"
  shows "CurrentData r ! 0 AND 0x1f = ucast (count_or_format h)" "CurrentData r ! 1 = packet_type h"
proof -
  have m: "(0x1f :: u8) = mask 5" by (simp add: mask_eq_exp_minus_1)
  show "CurrentData r ! 0 AND 0x1f = ucast (count_or_format h)"
    unfolding m by (rule bit_word_eqI) (auto simp: assms enc_header_def bit_simps dest: bit_imp_le_length)
  show "CurrentData r ! 1 = packet_type h" by (simp add: assms enc_header_def)
qed

lemma RtcpParseOne_enc:
  assumes r: "reader_ok r" "CurrentData r = enc_pkt k @ bs" and ok: "pkt_ok k"
  shows "\<exists>k'. RtcpParseOne h r = Returns (k', skip r (length (enc_pkt k))) \<and> same_pkt k k'"
proof (cases k)
  case (PktNack p)
  have "CurrentData r = enc_header (nack_header (length (nack_pack (packet_lost_sequence_numbers p))))
      @ drop 4 (enc_nack p) @ bs"
    using r PktNack by (simp add: enc_nack_def Let_def)
  note pk = peek_header [OF this]
  obtain q where "NackParse \<lparr>header = h, sender_ssrc = 0, media_ssrc = 0, packet_lost_sequence_numbers = []\<rparr> r
      = Some (q, skip r (length (enc_nack p)))"
    "packet_lost_sequence_numbers q = concat (map nack_unpack_item (nack_pack (packet_lost_sequence_numbers p)))"
    "sender_ssrc q = sender_ssrc p" "media_ssrc q = media_ssrc p"
    using NackParse_enc [of r p bs "\<lparr>header = h, sender_ssrc = 0, media_ssrc = 0, packet_lost_sequence_numbers = []\<rparr>"]
      r ok PktNack by auto
  then show ?thesis
    using pk PktNack set_nack_unpack_pack [of "packet_lost_sequence_numbers p"]
    by (simp add: RtcpParseOne_def nack_header_def)
next
  case (PktTwcc p)
  have cd: "CurrentData r = enc_header (tf_header p) @ enc_tf_body p @ bs" using r PktTwcc by simp
  note pk = peek_header [OF cd]
  have ok': "tf_ok p" "include_timestamps p" "num_seq_no p \<noteq> 0" "0 \<le> base_time_ticks p" "base_time_ticks p < 2 ^ 24"
    "tf_padded_length p \<le> kMaxSizeBytes" using ok PktTwcc by (simp_all add: TransportFeedbackSize_def)
  have len: "length (enc_pkt k) = tf_padded_length p"
    using PktTwcc length_enc_tf_body [OF ok'(1,2)] by simp
  obtain q where q: "TransportFeedbackParse (new_feedback h True True) r = Returns (q, skip r (tf_padded_length p))"
    "received_packets q = received_packets p" "base_seq_no q = base_seq_no p" "num_seq_no q = num_seq_no p"
    "base_time_ticks q = base_time_ticks p" "sender_ssrc q = sender_ssrc p" "media_ssrc q = media_ssrc p"
    using TransportFeedbackParse_enc [OF ok'(1-5) r(1) cd ok'(6), of "new_feedback h True True"]
    by (auto simp: new_feedback_def new_chunk_def chunk_consts)
  then show ?thesis
    using pk PktTwcc len by (simp add: RtcpParseOne_def tf_header_def)
next
  case (PktRr p)
  have "CurrentData r = enc_header (rr_header (length (report_blocks p))) @ drop 4 (enc_rr p) @ bs"
    using r PktRr by (simp add: enc_rr_def)
  note pk = peek_header [OF this]
  show ?thesis
    using pk PktRr ReceiverReportParse_enc [of r p bs "\<lparr>header = h, sender_ssrc = 0, report_blocks = []\<rparr>"] r ok
    by (simp add: RtcpParseOne_def rr_header_def length_enc_rr)
next
  case (PktSr p)
  have "CurrentData r = enc_header sr_header @ drop 4 (enc_sr p) @ bs"
    using r PktSr by (simp add: enc_sr_def)
  note pk = peek_header [OF this]
  show ?thesis
    using pk PktSr SenderReportParse_enc [of r p bs] r
    by (auto simp: RtcpParseOne_def sr_header_def length_enc_sr)
qed (use ok in auto)

lemma RtcpCompoundLoop_enc:
  assumes "reader_ok r" "CurrentData r = concat (map enc_pkt ks)" "\<forall>k\<in>set ks. pkt_ok k"
  shows "\<exists>ks'. RtcpCompoundLoop h done r = Returns (done @ ks') \<and> list_all2 same_pkt ks ks'"
  using assms
proof (induction ks arbitrary: r "done")
  case Nil
  then show ?case
    by (intro exI [of _ "[]"]) (subst RtcpCompoundLoop.simps, simp add: ReaderLeft_rest)
next
  case (Cons k ks)
  obtain k' where k': "RtcpParseOne h r = Returns (k', skip r (length (enc_pkt k)))" "same_pkt k k'"
    using RtcpParseOne_enc [of r k "concat (map enc_pkt ks)" h] Cons.prems by auto
  have "2 \<le> ReaderLeft r"
    using RtcpParseOne_consumes [OF k'(1)] by (simp add: consumes_def)
  moreover obtain ks' where "RtcpCompoundLoop h (done @ [k']) (skip r (length (enc_pkt k))) = Returns ((done @ [k']) @ ks')"
    "list_all2 same_pkt ks ks'"
    using Cons.IH [of "skip r (length (enc_pkt k))" "done @ [k']"] Cons.prems by (auto simp: reader_ok_skip)
  ultimately show ?case
    using k' by (intro exI [of _ "k' # ks'"]) (subst RtcpCompoundLoop.simps, simp)
qed

lemma serialize_all_pkts:
  "writer_ok w \<Longrightarrow> \<forall>k\<in>set ks. pkt_ok k \<Longrightarrow> sum_list (map RtcpSize ks) \<le> WriterLeft w \<Longrightarrow>
   fold_option RtcpSerialize ks w = Some (put w (concat (map enc_pkt ks)))
   \<and> length (concat (map enc_pkt ks)) \<le> WriterLeft w"
proof (induction ks arbitrary: w)
  case (Cons k ks)
  note sz = enc_pkt_size [of k]
  have w: "writer_ok (put w (enc_pkt k))" "sum_list (map RtcpSize ks) \<le> WriterLeft (put w (enc_pkt k))"
    using Cons.prems sz by (auto simp: writer_ok_put)
  have room: "length (enc_pkt k) \<le> WriterLeft w" "RtcpSize k \<le> WriterLeft w" using Cons.prems sz by auto
  from Cons.IH [OF w(1) _ w(2)] Cons.prems
  have IH: "fold_option RtcpSerialize ks (put w (enc_pkt k)) = Some (put (put w (enc_pkt k)) (concat (map enc_pkt ks)))"
    "length (concat (map enc_pkt ks)) \<le> WriterLeft w - length (enc_pkt k)" by auto
  then have "length (enc_pkt k) + length (concat (map enc_pkt ks)) \<le> WriterLeft w" using room by linarith
  then show ?case using Cons.prems IH(1) room by (simp add: RtcpSerialize_put put_put)
qed simp

lemmas serialize_all = serialize_all_pkts [THEN conjunct1] serialize_all_pkts [THEN conjunct2]

section \<open>Properties\<close>

text \<open>C25. Compound packets: any sequence of sender reports, receiver reports, NACKs and transport feedbacks
  written one after another into one buffer is parsed back as the same sequence with the same
  content, and nothing is left over.\<close>

theorem compound_roundtrip:
  assumes "\<forall>k\<in>set ks. pkt_ok k" "sum_list (map RtcpSize ks) \<le> sz" "sz \<le> length buf"
  shows "\<exists>w' ks'. fold_option RtcpSerialize ks (ByteWriter buf sz) = Some w'
    \<and> RtcpCompoundParse h (written w') = Returns ks' \<and> list_all2 same_pkt ks ks'"
proof -
  let ?w = "ByteWriter buf sz" and ?e = "concat (map enc_pkt ks)"
  have w: "writer_ok ?w" "sum_list (map RtcpSize ks) \<le> WriterLeft ?w" using assms(2,3) by simp_all
  have "written (put ?w ?e) = ?e" using w serialize_all(2) [OF w(1) assms(1) w(2)] by (simp add: written_put)
  then show ?thesis
    using serialize_all(1) [OF w(1) assms(1) w(2)] RtcpCompoundLoop_enc [of "ByteReader ?e" ks h "[]"] assms(1)
    by (auto simp: RtcpCompoundParse_def)
qed

text \<open>Parsing a compound packet always ends, and what it returns is bounded by the datagram: four bytes
  at least for every packet.\<close>

theorem compound_bound:
  "(\<exists>ks. RtcpCompoundParse h data = Returns ks \<and> 4 * length ks \<le> length data)
   \<or> RtcpCompoundParse h data = Fails \<or> RtcpCompoundParse h data = OutOfBounds"
proof (cases "RtcpCompoundParse h data")
  case (Returns ks)
  then show ?thesis
    using RtcpCompoundLoop_bound [of h "[]" "ByteReader data" ks]
    by (simp add: RtcpCompoundParse_def ReaderLeft_def) (simp add: ByteReader_def)
qed simp_all

text \<open>The sender report parser never looks at report blocks: whatever the count and length fields say,
  it stops 28 bytes on, so the blocks of a report that has some are taken for the next packet.\<close>

theorem sender_report_ignores_blocks:
  assumes "reader_ok r" "SenderReportParse p r = Some (p', r')"
  shows "br_start r' = br_start r + 28"
proof -
  from assms obtain q s where q: "ParseCommonHeader p r = Some (q, s)"
    by (auto simp: SenderReportParse_def Option.bind_eq_Some_conv)
  have s: "s = skip r 4" using ParseCommonHeader_moved [OF assms(1) q] by (simp add: moved_def)
  show ?thesis
    using assms(2) q s
    by (auto simp: SenderReportParse_def ReadUInt32_def Option.bind_eq_Some_conv split: if_splits)
qed

theorem sender_report_ignores_blocks_witness:
  fixes q :: SenderReportPacket
  defines "q \<equiv> \<lparr>header = sr_header, sender_ssrc = 0, ntp_seconds = 0, ntp_fractions = 0, rtp_timestamp = 0,
    send_packet_count = 0, send_octets = 0\<rparr>"
  shows "br_start (skip (ByteReader (enc_sr q @ replicate 24 0)) 28) = br_start (ByteReader (enc_sr q @ replicate 24 0)) + 28"
  using sender_report_ignores_blocks [OF _ SenderReportParse_enc [of "ByteReader (enc_sr q @ replicate 24 0)" q "replicate 24 0" q]]
  by (simp add: SenderReportSize_def kHeaderLength_def)

theorem compound_roundtrip_witness:
  fixes q :: SenderReportPacket and n :: NackPacket
  defines "q \<equiv> \<lparr>header = blank_header, sender_ssrc = 1, ntp_seconds = 2, ntp_fractions = 3, rtp_timestamp = 4,
      send_packet_count = 5, send_octets = 6\<rparr>"
    and "n \<equiv> \<lparr>header = blank_header, sender_ssrc = 1, media_ssrc = 2, packet_lost_sequence_numbers = [7, 9]\<rparr>"
  shows "\<exists>w' ks'. fold_option RtcpSerialize [PktSr q, PktNack n] (ByteWriter (replicate 100 0) 100) = Some w'
    \<and> RtcpCompoundParse blank_header (written w') = Returns ks' \<and> list_all2 same_pkt [PktSr q, PktNack n] ks'"
  by (rule compound_roundtrip)
    (simp_all add: n_def q_def SenderReportSize_def NackSize_def kHeaderLength_def kCommonFeedbackLength_def kNackItemLength_def)

end
