(* ===== verification/Publish_Stream.thy ===== *)
theory Publish_Stream
  imports Sdp_Negotiator Receive_Side_Twcc Rtcp_Compound
begin

text \<open>
  A published stream, \<^verbatim>\<open>src/src/transport/publish_stream.{h,cpp}\<close>: it makes the tracks from the negotiated description
  or, for simulcast, from the stream id of the first packet of a layer, hands packets to their track, to the
  congestion control and to the subscribers, and answers what subscribers ask about layers.

  Tracks are shared objects that only \<open>tracks_\<close> creates: a pointer is an index into that list. Subscribers are
  references. What an operation sends is the list it returns. \<open>Fails\<close> is an exception that leaves the operation, which
  ends the process because no worker thread catches it; \<open>OutOfBounds\<close> is behaviour C++ does not define. The clock,
  the memory a header or a configuration is created in (\<open>h\<close>, \<open>blank\<close>, \<open>raw\<close>) are arguments. What \<open>Stop\<close> and the
  data observers mean for a room is in \<open>Room\<close>.
\<close>

section \<open>The code\<close>

datatype publish_event = SendRtcpPacket rtcp_out | SendFeedback TransportFeedback | Forward nat RtpPacket | ShutdownNotified

record PublishStream =
  ps_sdp :: SdpNegotiator
  ps_data_observers :: "nat list"
  ps_tracks :: "PublishStreamTrack list"
  ps_ssrc_track_map :: "u32 \<rightharpoonup> nat"
  ps_rid_track_map :: "(u32 \<times> nat) list"
  ps_receive_side_twcc :: "ReceiveSideTWCC option"
  ps_rid_configuration_map :: "u32 \<rightharpoonup> PublishConfiguration"
  ps_extension_capabilities :: "ext_capability list"
  ps_has_video :: bool
  ps_has_audio :: bool
  ps_stoped :: bool

definition new_publish_stream :: PublishStream where
  "new_publish_stream = \<lparr>ps_sdp = new_negotiator, ps_data_observers = [], ps_tracks = [], ps_ssrc_track_map = Map.empty,
     ps_rid_track_map = [], ps_receive_side_twcc = None, ps_rid_configuration_map = Map.empty, ps_extension_capabilities = [],
     ps_has_video = False, ps_has_audio = False, ps_stoped = False\<rparr>"

definition PubInit :: "PublishStream \<Rightarrow> PublishStream" where
  "PubInit s = s\<lparr>ps_receive_side_twcc := Some new_receive_twcc\<rparr>"

definition PubSetRemoteDescription :: "(string \<Rightarrow> json outcome) \<Rightarrow> string \<Rightarrow> PublishStream \<Rightarrow> PublishStream option" where
  "PubSetRemoteDescription parse offer s = map_option (\<lambda>sdp. s\<lparr>ps_sdp := sdp\<rparr>) (SetPublishOffer parse offer (ps_sdp s))"

definition PubCreateAnswer :: "(json \<Rightarrow> string outcome) \<Rightarrow> bool \<Rightarrow> PublishStream \<Rightarrow> (string option \<times> PublishStream) outcome" where
  "PubCreateAnswer write dtx s =
     bind_outcome (CreatePublishAnswer write dtx (ps_sdp s)) (\<lambda>(t, sdp). Returns (t, s\<lparr>ps_sdp := sdp\<rparr>))"

text \<open>\<open>insert\<close> of a hash map and of the map of layers, which is ordered from the highest id down: neither overwrites.\<close>

definition insert_new :: "'k \<Rightarrow> 'v \<Rightarrow> ('k \<rightharpoonup> 'v) \<Rightarrow> ('k \<rightharpoonup> 'v)" where
  "insert_new k v m = (if m k = None then m(k \<mapsto> v) else m)"

fun rid_insert :: "u32 \<Rightarrow> nat \<Rightarrow> (u32 \<times> nat) list \<Rightarrow> (u32 \<times> nat) list" where
  "rid_insert r t [] = [(r, t)]"
| "rid_insert r t ((q, u) # es) =
     (if q = r then (q, u) # es else if q < r then (r, t) # (q, u) # es else (q, u) # rid_insert r t es)"

subsection \<open>The negotiated description\<close>

definition to_lower :: "char \<Rightarrow> char" where
  "to_lower c = (let n = of_char c :: nat in if 65 \<le> n \<and> n \<le> 90 then char_of (n + 32) else c)"

definition StringToLower :: "string \<Rightarrow> string" where "StringToLower = map to_lower"

text \<open>A configuration before it is filled: the source and the payload type are not initialised.\<close>

definition default_configuration :: "u32 \<times> u8 \<Rightarrow> PublishConfiguration" where
  "default_configuration raw = \<lparr>pc_ssrc = fst raw, pc_payload_type = snd raw, pc_rtx_ssrc = None, pc_rtx_payload_type = 0, pc_rtx_enabled = False,
     pc_nack_enabled = False, pc_codec = [], pc_rid = 0, pc_audio = False, pc_rtcpfb_pli = False, pc_rtcpfb_fir = False, pc_clock_rate = 0,
     pc_extension_capability = []\<rparr>"

text \<open>What is done with a field when the section has it.\<close>

definition when_field :: "string \<Rightarrow> json \<Rightarrow> (json \<Rightarrow> 's \<Rightarrow> 's outcome) \<Rightarrow> 's \<Rightarrow> 's outcome" where
  "when_field k m f s = (case json_at k m of None \<Rightarrow> Returns s | Some v \<Rightarrow> f v s)"

text \<open>The first source of a section, and whether there is one.\<close>

definition first_source :: "json \<Rightarrow> u32 option outcome" where
  "first_source m = when_field ''ssrcs'' m (\<lambda>ssrcs _. if json_empty ssrcs then Returns None
     else bind_outcome (json_first ssrcs) (\<lambda>j. bind_outcome (json_get_int ''id'' j) (\<lambda>i. Returns (Some (of_int i))))) None"

definition rtp_config :: "json \<Rightarrow> PublishConfiguration \<Rightarrow> PublishConfiguration outcome" where
  "rtp_config rtpmaps cfg =
     bind_outcome (if json_empty rtpmaps then Returns cfg
       else bind_outcome (json_first rtpmaps) (\<lambda>j.
         bind_outcome (json_get_int ''payload'' j) (\<lambda>n.
         bind_outcome (json_get_string ''codec'' j) (\<lambda>c.
         bind_outcome (json_get_int ''rate'' j) (\<lambda>r.
         Returns (cfg\<lparr>pc_payload_type := of_int n, pc_codec := StringToLower c, pc_clock_rate := of_int r\<rparr>))))))
     (fold_outcome (\<lambda>j cfg. bind_outcome (json_get ''codec'' j) (\<lambda>c.
        if c = JString ''rtx'' then bind_outcome (json_get_int ''payload'' j) (\<lambda>n.
          Returns (cfg\<lparr>pc_rtx_enabled := True, pc_rtx_payload_type := of_int n\<rparr>))
        else Returns cfg)) (json_elements rtpmaps))"

text \<open>The second source of a group whose first is the section's.\<close>

definition fid_source :: "u32 \<Rightarrow> json \<Rightarrow> u32 option outcome" where
  "fid_source x g =
     bind_outcome (json_get ''semantics'' g) (\<lambda>sem.
       if sem \<noteq> JString ''FID'' then Returns None
       else bind_outcome (json_get_string ''ssrcs'' g) (\<lambda>t.
         case StringSplit t '' '' of
           Some [a, b] \<Rightarrow> bind_outcome (stol a) (\<lambda>i.
             if i = uint x then bind_outcome (stol b) (\<lambda>j. Returns (Some (of_int j))) else Returns None)
         | _ \<Rightarrow> Returns None))"

definition group_config :: "json \<Rightarrow> PublishConfiguration \<Rightarrow> PublishConfiguration outcome" where
  "group_config groups = fold_outcome (\<lambda>g cfg. bind_outcome (fid_source (pc_ssrc cfg) g) (\<lambda>r.
     Returns (case r of None \<Rightarrow> cfg | Some x \<Rightarrow> cfg\<lparr>pc_rtx_ssrc := Some x\<rparr>))) (json_elements groups)"

definition feedback_config :: "json \<Rightarrow> PublishConfiguration \<Rightarrow> PublishConfiguration" where
  "feedback_config fb cfg =
     (if json_at ''payload'' fb = None \<or> json_at ''type'' fb = None then cfg
      else case json_at ''subtype'' fb of
        None \<Rightarrow> if json_at ''payload'' fb = Some (JString (to_string (uint (pc_payload_type cfg)))) \<and> json_at ''type'' fb = Some (JString ''nack'')
            then cfg\<lparr>pc_nack_enabled := True\<rparr> else cfg
      | Some t \<Rightarrow> if t = JString ''fir'' then cfg\<lparr>pc_rtcpfb_fir := True\<rparr>
            else if t = JString ''pli'' then cfg\<lparr>pc_rtcpfb_pli := True\<rparr> else cfg)"

definition register_extensions :: "json \<Rightarrow> ext_capability \<Rightarrow> ext_capability outcome" where
  "register_extensions exts = fold_outcome (\<lambda>e cap. bind_outcome (json_get_int ''value'' e) (\<lambda>i.
     bind_outcome (json_get_string ''uri'' e) (\<lambda>uri. Returns (RegisterExtension (cast32 i) uri cap)))) (json_elements exts)"

text \<open>The configuration of a section before its extensions.\<close>

definition section_config :: "u32 \<times> u8 \<Rightarrow> json \<Rightarrow> (PublishConfiguration \<times> bool) outcome" where
  "section_config raw m =
     bind_outcome (json_get ''type'' m) (\<lambda>type.
     bind_outcome (first_source m) (\<lambda>src.
     let cfg = default_configuration raw;
         cfg = cfg\<lparr>pc_audio := type = JString ''audio'', pc_ssrc := (case src of None \<Rightarrow> pc_ssrc cfg | Some x \<Rightarrow> x)\<rparr>
     in bind_outcome (when_field ''rtp'' m rtp_config cfg) (\<lambda>cfg.
        bind_outcome (when_field ''ssrcGroups'' m group_config cfg) (\<lambda>cfg.
        bind_outcome (when_field ''rtcpFb'' m (\<lambda>fbs cfg. Returns (fold feedback_config (json_elements fbs) cfg)) cfg) (\<lambda>cfg.
        Returns (cfg, src \<noteq> None))))))"

text \<open>The layers a section announces, with its configuration, which has no extensions yet.\<close>

definition announce_layers :: "PublishConfiguration \<Rightarrow> json \<Rightarrow> PublishStream \<Rightarrow> PublishStream outcome" where
  "announce_layers cfg sim s =
     (case json_at ''list1'' sim of
        None \<Rightarrow> Returns s
      | Some l \<Rightarrow> bind_outcome (json_string l) (\<lambda>rids.
          case StringSplit rids '';'' of None \<Rightarrow> OutOfBounds
          | Some toks \<Rightarrow> fold_outcome (\<lambda>t s. bind_outcome (stoi t) (\<lambda>i.
              Returns (s\<lparr>ps_rid_configuration_map := insert_new (of_int i) cfg (ps_rid_configuration_map s)\<rparr>))) toks s))"

definition add_track :: "PublishConfiguration \<Rightarrow> PublishStream \<Rightarrow> PublishStream" where
  "add_track cfg s = s\<lparr>ps_ssrc_track_map := insert_new (pc_ssrc cfg) (length (ps_tracks s)) (ps_ssrc_track_map s),
     ps_tracks := ps_tracks s @ [PubTrackInit (new_publish_track cfg)]\<rparr>"

text \<open>With retransmissions but without a group for them the empty source is dereferenced.\<close>

definition describe_section :: "u32 \<times> u8 \<Rightarrow> json \<Rightarrow> PublishStream \<Rightarrow> PublishStream outcome" where
  "describe_section raw m s =
     bind_outcome (section_config raw m) (\<lambda>(cfg, has_ssrc).
     let s = (if pc_audio cfg then s\<lparr>ps_has_audio := True\<rparr>
           else if json_at ''type'' m = Some (JString ''video'') then s\<lparr>ps_has_video := True\<rparr> else s)
     in bind_outcome (when_field ''simulcast'' m (announce_layers cfg) s) (\<lambda>s.
        bind_outcome (when_field ''ext'' m (\<lambda>exts (cfg, s). bind_outcome (register_extensions exts (pc_extension_capability cfg)) (\<lambda>cap.
            Returns (cfg\<lparr>pc_extension_capability := cap\<rparr>, s\<lparr>ps_extension_capabilities := ps_extension_capabilities s @ [cap]\<rparr>))) (cfg, s)) (\<lambda>(cfg, s).
        if \<not> has_ssrc then Returns s
        else let t = length (ps_tracks s); s = add_track cfg s in
          if \<not> pc_rtx_enabled cfg then Returns s
          else (case pc_rtx_ssrc cfg of None \<Rightarrow> OutOfBounds
            | Some r \<Rightarrow> Returns (s\<lparr>ps_ssrc_track_map := insert_new r t (ps_ssrc_track_map s)\<rparr>)))))"

definition SetLocalDescription :: "u32 \<times> u8 \<Rightarrow> PublishStream \<Rightarrow> PublishStream outcome" where
  "SetLocalDescription raw s =
     bind_outcome (GetMediaSections (ps_sdp s)) (\<lambda>media.
       case media of
         JNull \<Rightarrow> Returns s
       | JArray ms \<Rightarrow> fold_outcome (describe_section raw) ms s
       | _ \<Rightarrow> Fails)"

subsection \<open>Packets\<close>

text \<open>The layer a packet says it belongs to, or repairs.\<close>

definition stream_rid :: "RtpPacket \<Rightarrow> u32 option outcome" where
  "stream_rid p =
     (case GetStreamId kRtpExtensionRtpStreamId p of
        Returns r \<Rightarrow> Returns (Some r)
      | OutOfBounds \<Rightarrow> OutOfBounds
      | Fails \<Rightarrow> (case GetStreamId kRtpExtensionRepairedRtpStreamId p of
            Returns r \<Rightarrow> Returns (Some r) | OutOfBounds \<Rightarrow> OutOfBounds | Fails \<Rightarrow> Returns None))"

text \<open>The retransmissions of a layer: the track's old source, empty in the beginning, is registered before the new one is set.\<close>

definition learn_rtx :: "u32 \<Rightarrow> u32 \<Rightarrow> nat \<Rightarrow> PublishStream \<Rightarrow> PublishStream outcome" where
  "learn_rtx rid x i s =
     (if pc_rid (configuration (ps_tracks s ! i)) = rid then
        case pc_rtx_ssrc (configuration (ps_tracks s ! i)) of
          None \<Rightarrow> OutOfBounds
        | Some r \<Rightarrow> Returns (s\<lparr>ps_ssrc_track_map := insert_new r i (ps_ssrc_track_map s),
              ps_tracks := (ps_tracks s)[i := SetRtxSSRC x (ps_tracks s ! i)]\<rparr>)
      else Returns s)"

definition learn_layer :: "RtpPacket \<Rightarrow> ext_capability \<Rightarrow> PublishStream \<Rightarrow> PublishStream outcome" where
  "learn_layer p cap s =
     bind_outcome (stream_rid (SetExtensionCapability cap p)) (\<lambda>r.
       case r of None \<Rightarrow> Returns s
       | Some rid \<Rightarrow>
           (case ps_rid_configuration_map s rid of
              None \<Rightarrow> Fails
            | Some cfg \<Rightarrow>
                if payload_type p = pc_payload_type cfg then
                  let cfg = cfg\<lparr>pc_ssrc := ssrc p, pc_rid := rid, pc_extension_capability := cap\<rparr>;
                      t = length (ps_tracks s);
                      s = add_track cfg (s\<lparr>ps_rid_configuration_map := (ps_rid_configuration_map s)(rid \<mapsto> cfg)\<rparr>)
                  in Returns (s\<lparr>ps_rid_track_map := rid_insert rid t (ps_rid_track_map s)\<rparr>)
                else if payload_type p = pc_rtx_payload_type cfg then
                  fold_outcome (learn_rtx rid (ssrc p)) [0..<length (ps_tracks s)] s
                else Returns s))"

text \<open>A packet of the track \<open>i\<close>.\<close>

definition track_packet :: "RtcpCommonHeader \<Rightarrow> int \<Rightarrow> RtpPacket \<Rightarrow> nat \<Rightarrow> PublishStream \<Rightarrow> (PublishStream \<times> publish_event list) outcome" where
  "track_packet h now p i s =
     (let t = ps_tracks s ! i; p = SetExtensionCapability (pc_extension_capability (configuration t)) p in
      bind_outcome (case GetTransportSequenceNumber p of
          None \<Rightarrow> Returns s
        | Some v \<Rightarrow> (case ps_receive_side_twcc s of None \<Rightarrow> OutOfBounds
            | Some r \<Rightarrow> Returns (s\<lparr>ps_receive_side_twcc := Some (IncomingPacket now (ssrc p) v r)\<rparr>))) (\<lambda>s.
      case PubTrackReceiveRtpPacket h now p t of
        None \<Rightarrow> OutOfBounds
      | Some (pass, p, t, outs) \<Rightarrow>
          Returns (s\<lparr>ps_tracks := (ps_tracks s)[i := t]\<rparr>,
            map SendRtcpPacket outs @ (if pass then map (\<lambda>x. Forward x p) (ps_data_observers s) else []))))"

definition OnRtpPacketReceive :: "RtcpCommonHeader \<Rightarrow> int \<Rightarrow> RtpPacket \<Rightarrow> bytes \<Rightarrow> PublishStream
    \<Rightarrow> (PublishStream \<times> publish_event list) outcome" where
  "OnRtpPacketReceive h now blank buffer s =
     (case RtpCreate blank buffer of
        None \<Rightarrow> Returns (s, [])
      | Some p \<Rightarrow>
          bind_outcome (if ps_ssrc_track_map s (ssrc p) = None then fold_outcome (learn_layer p) (ps_extension_capabilities s) s
              else Returns s) (\<lambda>s.
          case ps_ssrc_track_map s (ssrc p) of
            None \<Rightarrow> Returns (s, [])
          | Some i \<Rightarrow> track_packet h now p i s))"

definition on_track :: "(PublishStreamTrack \<Rightarrow> PublishStreamTrack) \<Rightarrow> nat \<Rightarrow> PublishStream \<Rightarrow> PublishStream" where
  "on_track f i s = s\<lparr>ps_tracks := (ps_tracks s)[i := f (ps_tracks s ! i)]\<rparr>"

definition receive_dlrr :: "int \<Rightarrow> ReceiveTimeInfo \<Rightarrow> PublishStream \<Rightarrow> PublishStream outcome" where
  "receive_dlrr now b s =
     (case ps_ssrc_track_map s (rti_ssrc b) of
        None \<Rightarrow> Returns s
      | Some i \<Rightarrow> (case ReceiveDlrrSubBlock now b (ps_tracks s ! i) of
          None \<Rightarrow> OutOfBounds | Some t \<Rightarrow> Returns (on_track (\<lambda>_. t) i s)))"

fun receive_rtcp :: "int \<Rightarrow> ParsedRtcp \<Rightarrow> PublishStream \<Rightarrow> PublishStream outcome" where
  "receive_rtcp now (PktXr x) s =
     (case dlrr_block_context x of None \<Rightarrow> Returns s | Some d \<Rightarrow> fold_outcome (receive_dlrr now) (sub_blocks d) s)"
| "receive_rtcp now (PktSr sr) s =
     (case ps_ssrc_track_map s (sender_ssrc sr) of None \<Rightarrow> Returns s | Some i \<Rightarrow> Returns (on_track (ReceiveSenderReport sr) i s))"
| "receive_rtcp now _ s = Returns s"

definition OnRtcpPacketReceive :: "RtcpCommonHeader \<Rightarrow> int \<Rightarrow> bytes \<Rightarrow> PublishStream \<Rightarrow> PublishStream outcome" where
  "OnRtcpPacketReceive h now buffer s =
     (case RtcpCompoundParse h buffer of
        Returns ks \<Rightarrow> fold_outcome (receive_rtcp now) ks s
      | Fails \<Rightarrow> Returns s
      | OutOfBounds \<Rightarrow> OutOfBounds)"

subsection \<open>Timers\<close>

text \<open>What the timers of a track and of the congestion control make the stream send. A feedback loop that does not end
  is \<open>OutOfBounds\<close> too.\<close>

definition track_timer :: "RtcpCommonHeader \<Rightarrow> (int \<Rightarrow> int \<Rightarrow> int) \<Rightarrow> int \<Rightarrow> track_input \<Rightarrow> nat \<Rightarrow> PublishStream
    \<Rightarrow> (PublishStream \<times> publish_event list) outcome" where
  "track_timer h random now e i s =
     (case track_step h random now e (ps_tracks s ! i) of
        None \<Rightarrow> OutOfBounds
      | Some (t, outs) \<Rightarrow> Returns (on_track (\<lambda>_. t) i s, map SendRtcpPacket outs))"

definition twcc_timer :: "RtcpCommonHeader \<Rightarrow> int \<Rightarrow> PublishStream \<Rightarrow> (PublishStream \<times> publish_event list) outcome" where
  "twcc_timer h now s =
     (case ps_receive_side_twcc s of
        None \<Rightarrow> Returns (s, [])
      | Some r \<Rightarrow> (case TwccTimerTimeout h now r of
          None \<Rightarrow> OutOfBounds
        | Some (fbs, _, r) \<Rightarrow> Returns (s\<lparr>ps_receive_side_twcc := Some r\<rparr>, map SendFeedback fbs)))"

subsection \<open>Subscribers\<close>

definition RegisterDataObserver :: "nat \<Rightarrow> PublishStream \<Rightarrow> PublishStream" where
  "RegisterDataObserver x s = (if x \<in> set (ps_data_observers s) then s else s\<lparr>ps_data_observers := ps_data_observers s @ [x]\<rparr>)"

definition UnregisterDataObserver :: "nat \<Rightarrow> PublishStream \<Rightarrow> PublishStream" where
  "UnregisterDataObserver x s = s\<lparr>ps_data_observers := remove1 x (ps_data_observers s)\<rparr>"

definition OnSubscribeStreamFrameRequested :: "u32 \<Rightarrow> PublishStream \<Rightarrow> PublishStream" where
  "OnSubscribeStreamFrameRequested rid s = s\<lparr>ps_tracks := map (\<lambda>t.
     if rid = 0 \<and> \<not> pc_audio (configuration t) then SendRequestkeyFrame t
     else if \<not> pc_audio (configuration t) \<and> pc_rid (configuration t) = rid then SendRequestkeyFrame t else t) (ps_tracks s)\<rparr>"

definition OnSubscribeStreamLastSrRequested :: "u32 \<Rightarrow> PublishStream \<Rightarrow> SenderReportPacket option \<Rightarrow> SenderReportPacket option" where
  "OnSubscribeStreamLastSrRequested rid s = fold (\<lambda>t sr.
     if \<not> pc_audio (configuration t) \<and> pc_rid (configuration t) = rid then pt_last_sr t else sr) (ps_tracks s)"

fun find_layer :: "u32 \<Rightarrow> int \<Rightarrow> (u32 \<times> nat) list \<Rightarrow> PublishStream \<Rightarrow> u32 option \<times> PublishStream" where
  "find_layer want now [] s = (None, s)"
| "find_layer want now ((r, i) # es) s =
     (if r \<le> want then
        let (rate, t) = PubTrackBitrate now (ps_tracks s ! i); s = on_track (\<lambda>_. t) i s
        in if rate > 0 then (Some r, s) else find_layer want now es s
      else find_layer want now es s)"

definition OnSubscribeStreamQueryRID :: "u32 \<Rightarrow> int \<Rightarrow> PublishStream \<Rightarrow> u32 \<times> PublishStream" where
  "OnSubscribeStreamQueryRID want now s =
     (if ps_rid_track_map s = [] then (0, s)
      else let (r, s') = find_layer want now (ps_rid_track_map s) s
        in (case r of Some r \<Rightarrow> r | None \<Rightarrow> fst (last (ps_rid_track_map s)), s'))"

text \<open>\<open>Stop\<close> as its task runs it; closing the transport is outside.\<close>

definition PubStop :: "PublishStream \<Rightarrow> PublishStream \<times> publish_event list" where
  "PubStop s =
     (if ps_stoped s then (s, [])
      else (s\<lparr>ps_stoped := True, ps_tracks := map PubTrackDeinit (ps_tracks s)\<rparr>, [ShutdownNotified]))"

section \<open>The invariant\<close>

definition clock_ok :: "PublishConfiguration \<Rightarrow> bool" where
  "clock_ok cfg \<longleftrightarrow> pc_rtx_enabled cfg \<or> pc_clock_rate cfg div 1000 \<noteq> 0"

definition tracks_ok :: "PublishStream \<Rightarrow> bool" where
  "tracks_ok s \<longleftrightarrow> (\<forall>t\<in>set (ps_tracks s). track_ok t) \<and> (\<forall>x i. ps_ssrc_track_map s x = Some i \<longrightarrow> i < length (ps_tracks s))
     \<and> (\<forall>(r, i)\<in>set (ps_rid_track_map s). i < length (ps_tracks s))"

definition publish_ok :: "PublishStream \<Rightarrow> bool" where
  "publish_ok s \<longleftrightarrow> tracks_ok s \<and> sorted_wrt (\<lambda>a b. fst b < fst a) (ps_rid_track_map s) \<and> distinct (map snd (ps_rid_track_map s))
     \<and> (\<forall>r cfg. ps_rid_configuration_map s r = Some cfg \<longrightarrow> clock_ok cfg)
     \<and> (\<exists>w. ps_receive_side_twcc s = Some w \<and> twcc_ok w)"

lemma publish_okD:
  assumes "publish_ok s"
  shows "t \<in> set (ps_tracks s) \<Longrightarrow> track_ok t" "ps_ssrc_track_map s x = Some i \<Longrightarrow> i < length (ps_tracks s)"
    "(r, j) \<in> set (ps_rid_track_map s) \<Longrightarrow> j < length (ps_tracks s)"
    "ps_rid_configuration_map s r = Some cfg \<Longrightarrow> clock_ok cfg" "\<exists>w. ps_receive_side_twcc s = Some w \<and> twcc_ok w"
  using assms by (auto simp: publish_ok_def tracks_ok_def)

lemma track_at: "publish_ok s \<Longrightarrow> ps_ssrc_track_map s x = Some i \<Longrightarrow> track_ok (ps_tracks s ! i)"
  by (simp add: publish_okD)

text \<open>A track that changes keeps the invariant.\<close>

lemma publish_ok_update:
  assumes "publish_ok s" "track_ok t"
  shows "publish_ok (s\<lparr>ps_tracks := (ps_tracks s)[i := t]\<rparr>)"
  using assms by (auto simp: publish_ok_def tracks_ok_def dest!: subsetD [OF set_update_subset_insert])

lemma publish_ok_on_track: "publish_ok s \<Longrightarrow> track_ok (f (ps_tracks s ! i)) \<Longrightarrow> publish_ok (on_track f i s)"
  unfolding on_track_def by (rule publish_ok_update)

lemma new_track_ok: "clock_ok cfg \<Longrightarrow> track_ok (PubTrackInit (new_publish_track cfg))"
  by (auto simp: track_ok_def PubTrackInit_def new_publish_track_def rtx_ok_def rtx_statistics_def new_statistics_def stats_ok_def
      clock_ok_def EnableRetransmitDetection_def Let_def split: option.splits)

lemma rid_insert_set: "set (rid_insert r t es) \<subseteq> insert (r, t) (set es)"
  by (induction es) (auto split: if_splits)

lemma rid_insert_sorted: "sorted_wrt (\<lambda>a b. fst b < fst a) es \<Longrightarrow> sorted_wrt (\<lambda>a b. fst b < fst a) (rid_insert r t es)"
proof (induction es)
  case (Cons e es)
  obtain q u where e: "e = (q, u)" by (cases e)
  show ?case using Cons rid_insert_set [of r t es] unfolding e by (auto simp: not_less_iff_gr_or_eq)
qed simp

lemma rid_insert_distinct: "distinct (map snd es) \<Longrightarrow> t \<notin> snd ` set es \<Longrightarrow> distinct (map snd (rid_insert r t es))"
proof (induction es)
  case (Cons e es)
  then show ?case using rid_insert_set [of r t es] by (cases e) (auto simp: image_iff)
qed simp

lemma add_track_ok:
  assumes "publish_ok s" "clock_ok cfg"
  shows "publish_ok (add_track cfg s)"
  using assms new_track_ok [OF assms(2)]
  by (auto simp: publish_ok_def tracks_ok_def add_track_def insert_new_def less_Suc_eq split: if_splits)

section \<open>Every operation of a well-formed stream is defined\<close>

lemma TwccTimer_ok:
  assumes "twcc_ok r" "\<And>w. periodic_window_start_seq r = Some w \<Longrightarrow> end_sequence_number (packet_arrival_times r) - w \<le> 32767"
  shows "\<exists>fbs d r'. TwccTimerTimeout h now r = Some (fbs, d, r') \<and> twcc_ok r'"
proof -
  let ?r = "r\<lparr>last_process_time_millis := now\<rparr>" and ?e = "end_sequence_number (packet_arrival_times r)"
  have ok: "twcc_ok ?r" "?e = end_sequence_number (packet_arrival_times ?r)" using assms(1) by (simp_all add: twcc_ok_def)
  have "\<exists>fbs r'. feedback_loop h ?e ?r = Some (fbs, r') \<and> twcc_ok r'"
  proof (cases "periodic_window_start_seq r")
    case None
    then show ?thesis using ok(1) by (subst feedback_loop.simps) simp
  next
    case (Some w)
    then obtain fbs n w' where "feedback_loop h ?e ?r = Some (fbs, ?r\<lparr>feedback_packet_count := n, periodic_window_start_seq := Some w'\<rparr>)" "w \<le> w'"
      using feedback_loop_reports [OF ok(1) _ ok(2), of w h] assms(2) by auto
    then show ?thesis using feedback_loop_ok [OF ok(1), of w w' n] Some by simp
  qed
  then show ?thesis by (auto simp: TwccTimerTimeout_def SendPeriodicFeedbacks_def)
qed

text \<open>Whether the source is known as one of retransmissions, now or once a layer is learnt.\<close>

definition retransmission :: "PublishStream \<Rightarrow> u32 \<Rightarrow> bool" where
  "retransmission s x \<longleftrightarrow> (\<exists>t\<in>set (ps_tracks s). pc_rtx_ssrc (configuration t) = Some x)
     \<or> (\<exists>r cfg. ps_rid_configuration_map s r = Some cfg \<and> pc_rtx_ssrc cfg = Some x)"

text \<open>A packet that does no harm: a layer it names was announced, it is not the first word of a layer's retransmissions, and
  a retransmission has an original number and no padding.\<close>

definition harmless_packet :: "PublishStream \<Rightarrow> RtpPacket \<Rightarrow> bool" where
  "harmless_packet s p \<longleftrightarrow>
     (ps_ssrc_track_map s (ssrc p) = None \<longrightarrow> (\<forall>cap\<in>set (ps_extension_capabilities s).
        \<exists>r. stream_rid (SetExtensionCapability cap p) = Returns r \<and> (\<forall>rid. r = Some rid \<longrightarrow>
          (\<exists>cfg. ps_rid_configuration_map s rid = Some cfg \<and> (payload_type p = pc_payload_type cfg \<or> payload_type p \<noteq> pc_rtx_payload_type cfg)))))
     \<and> (retransmission s (ssrc p) \<longrightarrow> 2 \<le> payload_size p \<and> padding_size p = 0)"

definition layer_types :: "PublishStream \<Rightarrow> u32 \<Rightarrow> (u8 \<times> u8) option" where
  "layer_types s rid = map_option (\<lambda>cfg. (pc_payload_type cfg, pc_rtx_payload_type cfg)) (ps_rid_configuration_map s rid)"

text \<open>What learning a layer keeps.\<close>

definition learns :: "PublishStream \<Rightarrow> PublishStream \<Rightarrow> bool" where
  "learns s s' \<longleftrightarrow> publish_ok s' \<and> layer_types s' = layer_types s \<and> (\<forall>x. retransmission s' x \<longrightarrow> retransmission s x)"

lemma learn_layer_ok:
  assumes l: "learns s0 s" and r: "stream_rid (SetExtensionCapability cap p) = Returns r"
    and known: "\<And>rid. r = Some rid \<Longrightarrow> \<exists>a b. layer_types s0 rid = Some (a, b) \<and> (payload_type p = a \<or> payload_type p \<noteq> b)"
  shows "\<exists>s'. learn_layer p cap s = Returns s' \<and> learns s0 s'"
proof (cases r)
  case None
  then show ?thesis using l r by (simp add: learn_layer_def)
next
  case (Some rid)
  have ok: "publish_ok s" and ty: "layer_types s = layer_types s0" using l by (simp_all add: learns_def)
  obtain cfg where cfg: "ps_rid_configuration_map s rid = Some cfg"
    "payload_type p = pc_payload_type cfg \<or> payload_type p \<noteq> pc_rtx_payload_type cfg"
    using known [OF Some] unfolding ty [symmetric] by (auto simp: layer_types_def)
  show ?thesis
  proof (cases "payload_type p = pc_payload_type cfg")
    case True
    define c where "c = cfg\<lparr>pc_ssrc := ssrc p, pc_rid := rid, pc_extension_capability := cap\<rparr>"
    define s1 where "s1 = s\<lparr>ps_rid_configuration_map := (ps_rid_configuration_map s)(rid \<mapsto> c)\<rparr>"
    define s2 where "s2 = (add_track c s1)\<lparr>ps_rid_track_map := rid_insert rid (length (ps_tracks s)) (ps_rid_track_map s)\<rparr>"
    have c: "clock_ok c" using publish_okD(4) [OF ok cfg(1)] by (simp add: c_def clock_ok_def)
    have "publish_ok s1" using ok c by (auto simp: s1_def publish_ok_def tracks_ok_def)
    then have a: "publish_ok (add_track c s1)" by (rule add_track_ok [OF _ c])
    have "publish_ok s2" unfolding publish_ok_def tracks_ok_def
    proof (intro conjI)
      show "\<forall>(r, i)\<in>set (ps_rid_track_map s2). i < length (ps_tracks s2)"
        using rid_insert_set [of rid "length (ps_tracks s)" "ps_rid_track_map s"] publish_okD(3) [OF ok]
        by (auto simp: s2_def s1_def add_track_def less_Suc_eq)
      have "length (ps_tracks s) \<notin> snd ` set (ps_rid_track_map s)" using publish_okD(3) [OF ok] by (force simp: image_iff)
      then show "distinct (map snd (ps_rid_track_map s2))"
        using rid_insert_distinct ok by (simp add: s2_def publish_ok_def)
    qed (use a rid_insert_sorted [of "ps_rid_track_map s"] ok in \<open>simp_all add: s2_def publish_ok_def tracks_ok_def\<close>)
    moreover have "layer_types s2 = layer_types s0" using cfg(1) unfolding ty [symmetric]
      by (intro ext) (simp add: layer_types_def s2_def s1_def add_track_def c_def)
    moreover have "retransmission s2 x \<Longrightarrow> retransmission s x" for x
      using cfg(1) by (auto simp: retransmission_def s2_def s1_def add_track_def c_def PubTrackInit_def new_publish_track_def split: if_splits)
    moreover have "learn_layer p cap s = Returns s2"
      using r Some cfg(1) True by (simp add: learn_layer_def Let_def c_def s1_def s2_def add_track_def)
    ultimately show ?thesis using l by (auto simp: learns_def)
  qed (use l r Some cfg in \<open>simp add: learn_layer_def\<close>)
qed

lemma track_packet_ok:
  assumes ok: "publish_ok s" and i: "i < length (ps_tracks s)" and in_ok: "input_ok (ps_tracks s ! i) (InRtp p)"
  shows "\<exists>s' evs. track_packet h now p i s = Returns (s', evs) \<and> publish_ok s'"
proof -
  let ?t = "ps_tracks s ! i"
  define q where "q = SetExtensionCapability (pc_extension_capability (configuration ?t)) p"
  obtain w where w: "ps_receive_side_twcc s = Some w" "twcc_ok w" using publish_okD(5) [OF ok] by blast
  have "\<exists>s1. (case GetTransportSequenceNumber q of None \<Rightarrow> Returns s
        | Some v \<Rightarrow> (case ps_receive_side_twcc s of None \<Rightarrow> OutOfBounds
            | Some r \<Rightarrow> Returns (s\<lparr>ps_receive_side_twcc := Some (IncomingPacket now (ssrc q) v r)\<rparr>))) = Returns s1
      \<and> publish_ok s1 \<and> ps_tracks s1 = ps_tracks s"
    using ok w IncomingPacket_ok [OF w(2)]
    by (cases "GetTransportSequenceNumber q") (auto simp: publish_ok_def tracks_ok_def)
  then obtain s1 where s1: "(case GetTransportSequenceNumber q of None \<Rightarrow> Returns s
        | Some v \<Rightarrow> (case ps_receive_side_twcc s of None \<Rightarrow> OutOfBounds
            | Some r \<Rightarrow> Returns (s\<lparr>ps_receive_side_twcc := Some (IncomingPacket now (ssrc q) v r)\<rparr>))) = Returns s1"
      "publish_ok s1" "ps_tracks s1 = ps_tracks s" by blast
  have "track_ok ?t" using publish_okD(1) [OF ok] i by simp
  moreover have "input_ok ?t (InRtp q)" using in_ok by (simp add: input_ok_def q_def SetExtensionCapability_def)
  ultimately obtain b p' t' outs where t': "PubTrackReceiveRtpPacket h now q ?t = Some (b, p', t', outs)" "track_ok t'"
    using ReceiveRtp_total by blast
  show ?thesis using s1(1) t' publish_ok_update [OF s1(2) t'(2), of i] s1(3)
    unfolding track_packet_def Let_def q_def [symmetric] by simp
qed

lemma OnRtp_ok:
  assumes ok: "publish_ok s" and h: "\<And>p. RtpCreate blank b = Some p \<Longrightarrow> harmless_packet s p"
  shows "\<exists>s' evs. OnRtpPacketReceive h now blank b s = Returns (s', evs) \<and> publish_ok s'"
proof (cases "RtpCreate blank b")
  case None
  then show ?thesis using ok by (simp add: OnRtpPacketReceive_def)
next
  case (Some p)
  note hp = h [OF Some, unfolded harmless_packet_def]
  have size: "payload_offset p + payload_size p \<le> length (data p)"
    using RtpCreate_coherent [OF Some] coherent_size [of p] by (simp add: RtpSize_def)
  have l0: "learns s s" using ok by (simp add: learns_def)
  have "\<exists>s1. (if ps_ssrc_track_map s (ssrc p) = None then fold_outcome (learn_layer p) (ps_extension_capabilities s) s else Returns s) = Returns s1
      \<and> learns s s1"
  proof (cases "ps_ssrc_track_map s (ssrc p)")
    case None
    have "\<exists>t'. learn_layer p cap t = Returns t' \<and> learns s t'" if cap: "cap \<in> set (ps_extension_capabilities s)" and t: "learns s t" for cap t
    proof -
      obtain r where r: "stream_rid (SetExtensionCapability cap p) = Returns r" "\<forall>rid. r = Some rid \<longrightarrow>
          (\<exists>cfg. ps_rid_configuration_map s rid = Some cfg \<and> (payload_type p = pc_payload_type cfg \<or> payload_type p \<noteq> pc_rtx_payload_type cfg))"
        using hp None cap by blast
      have "\<exists>a b. layer_types s rid = Some (a, b) \<and> (payload_type p = a \<or> payload_type p \<noteq> b)" if rid: "r = Some rid" for rid
      proof -
        obtain cfg where "ps_rid_configuration_map s rid = Some cfg"
          "payload_type p = pc_payload_type cfg \<or> payload_type p \<noteq> pc_rtx_payload_type cfg" using r(2) rid by blast
        then show ?thesis by (intro exI [of _ "pc_payload_type cfg"] exI [of _ "pc_rtx_payload_type cfg"]) (simp add: layer_types_def)
      qed
      then show ?thesis using learn_layer_ok [OF t r(1)] by blast
    qed
    then show ?thesis using fold_outcome_total [of "ps_extension_capabilities s" "learns s" "learn_layer p" s] l0 None by auto
  qed (use l0 in simp)
  then obtain s1 where s1: "(if ps_ssrc_track_map s (ssrc p) = None then fold_outcome (learn_layer p) (ps_extension_capabilities s) s else Returns s) = Returns s1"
      "learns s s1" by blast
  have ok1: "publish_ok s1" using s1(2) by (simp add: learns_def)
  show ?thesis
  proof (cases "ps_ssrc_track_map s1 (ssrc p)")
    case None
    then show ?thesis using Some s1(1) ok1 by (simp add: OnRtpPacketReceive_def)
  next
    case (Some i)
    have i: "i < length (ps_tracks s1)" using publish_okD(2) [OF ok1 Some] .
    have "input_ok (ps_tracks s1 ! i) (InRtp p)"
      unfolding input_ok_def using hp s1(2) size nth_mem [OF i] by (auto simp: learns_def retransmission_def)
    then show ?thesis using track_packet_ok [OF ok1 i] s1(1) Some \<open>RtpCreate blank b = Some p\<close> by (simp add: OnRtpPacketReceive_def)
  qed
qed

lemma receive_rtcp_ok:
  assumes "publish_ok s"
  shows "\<exists>s'. receive_rtcp now k s = Returns s' \<and> publish_ok s'"
proof (cases k)
  case (PktXr x)
  show ?thesis
  proof (cases "dlrr_block_context x")
    case (Some d)
    have "\<exists>t'. receive_dlrr now b t = Returns t' \<and> publish_ok t'" if t: "publish_ok t" for b t
    proof (cases "ps_ssrc_track_map t (rti_ssrc b)")
      case (Some i)
      then obtain u where "ReceiveDlrrSubBlock now b (ps_tracks t ! i) = Some u" "track_ok u"
        using Dlrr_total [OF track_at [OF t Some]] by blast
      then show ?thesis using Some publish_ok_on_track [OF t, of "\<lambda>_. u" i] by (simp add: receive_dlrr_def)
    qed (use t in \<open>simp add: receive_dlrr_def\<close>)
    then show ?thesis using fold_outcome_total [of "sub_blocks d" publish_ok "receive_dlrr now" s] assms PktXr Some by simp
  qed (use PktXr assms in simp)
next
  case (PktSr sr)
  show ?thesis
  proof (cases "ps_ssrc_track_map s (sender_ssrc sr)")
    case (Some i)
    then show ?thesis using PktSr publish_ok_on_track [OF assms, of "ReceiveSenderReport sr" i] track_at [OF assms Some]
      by (simp add: track_ok_def ReceiveSenderReport_def)
  qed (use PktSr assms in simp)
qed (use assms in simp_all)

lemma find_layer_ok:
  "publish_ok s \<Longrightarrow> \<forall>(r, i)\<in>set es. i < length (ps_tracks s) \<Longrightarrow> publish_ok (snd (find_layer want now es s))"
proof (induction es arbitrary: s)
  case (Cons e es)
  obtain r i where e: "e = (r, i)" by (cases e)
  obtain rate t where b: "PubTrackBitrate now (ps_tracks s ! i) = (rate, t)" by fastforce
  have "track_ok t" using Bitrate_ok [OF _ b] publish_okD(1) [OF Cons.prems(1)] Cons.prems(2) e by simp
  then have ok: "publish_ok (on_track (\<lambda>_. t) i s)" by (intro publish_ok_on_track [OF Cons.prems(1)])
  have "\<forall>(r, j)\<in>set es. j < length (ps_tracks (on_track (\<lambda>_. t) i s))" using Cons.prems(2) by (auto simp: on_track_def)
  then show ?case using Cons.IH [OF ok] Cons.IH [OF Cons.prems(1)] Cons.prems(2) ok e b by (simp add: Let_def)
qed simp

datatype publish_input = RtpIn bytes | RtcpIn bytes | NackTick nat | ReportTick nat | KeyframeTick nat bool | TwccTick
  | FrameRequest u32 | QueryRid u32 | Register nat | Unregister nat | StopIn

fun publish_step :: "RtcpCommonHeader \<Rightarrow> RtpPacket \<Rightarrow> (int \<Rightarrow> int \<Rightarrow> int) \<Rightarrow> int \<Rightarrow> publish_input \<Rightarrow> PublishStream
    \<Rightarrow> (PublishStream \<times> publish_event list) outcome" where
  "publish_step h blank random now (RtpIn b) s = OnRtpPacketReceive h now blank b s"
| "publish_step h blank random now (RtcpIn b) s = bind_outcome (OnRtcpPacketReceive h now b s) (\<lambda>s. Returns (s, []))"
| "publish_step h blank random now (NackTick i) s = track_timer h random now InNackTimer i s"
| "publish_step h blank random now (ReportTick i) s = track_timer h random now InReportTimer i s"
| "publish_step h blank random now (KeyframeTick i alive) s = track_timer h random now (InKeyframeTimer alive) i s"
| "publish_step h blank random now TwccTick s = twcc_timer h now s"
| "publish_step h blank random now (FrameRequest rid) s = Returns (OnSubscribeStreamFrameRequested rid s, [])"
| "publish_step h blank random now (QueryRid want) s = Returns (snd (OnSubscribeStreamQueryRID want now s), [])"
| "publish_step h blank random now (Register x) s = Returns (RegisterDataObserver x s, [])"
| "publish_step h blank random now (Unregister x) s = Returns (UnregisterDataObserver x s, [])"
| "publish_step h blank random now StopIn s = Returns (PubStop s)"

text \<open>Inputs the stream survives: harmless packets, reports whose feedbacks are complete, timers of tracks it has, and a
  congestion control window of at most half the circle.\<close>

fun harmless :: "RtcpCommonHeader \<Rightarrow> RtpPacket \<Rightarrow> PublishStream \<Rightarrow> publish_input \<Rightarrow> bool" where
  "harmless h blank s (RtpIn b) \<longleftrightarrow> (\<forall>p. RtpCreate blank b = Some p \<longrightarrow> harmless_packet s p)"
| "harmless h blank s (RtcpIn b) \<longleftrightarrow> RtcpCompoundParse h b \<noteq> OutOfBounds"
| "harmless h blank s (NackTick i) \<longleftrightarrow> i < length (ps_tracks s)"
| "harmless h blank s (ReportTick i) \<longleftrightarrow> i < length (ps_tracks s)"
| "harmless h blank s (KeyframeTick i alive) \<longleftrightarrow> i < length (ps_tracks s)"
| "harmless h blank s TwccTick \<longleftrightarrow> (\<forall>r w. ps_receive_side_twcc s = Some r \<longrightarrow> periodic_window_start_seq r = Some w \<longrightarrow>
     end_sequence_number (packet_arrival_times r) - w \<le> 32767)"
| "harmless h blank s _ \<longleftrightarrow> True"

lemma track_timer_ok:
  assumes "publish_ok s" "i < length (ps_tracks s)"
    and "\<And>t. track_ok t \<Longrightarrow> \<exists>t' outs. track_step h random now e t = Some (t', outs) \<and> track_ok t'"
  shows "\<exists>s' evs. track_timer h random now e i s = Returns (s', evs) \<and> publish_ok s'"
proof -
  obtain t outs where t: "track_step h random now e (ps_tracks s ! i) = Some (t, outs)" "track_ok t"
    using assms(3) [of "ps_tracks s ! i"] publish_okD(1) [OF assms(1)] assms(2) by auto
  then show ?thesis using publish_ok_on_track [OF assms(1), of "\<lambda>_. t" i] by (simp add: track_timer_def)
qed

section \<open>Properties\<close>

text \<open>C8. A published stream is type safe. In a state that is well formed every packet, report, timer and request of a
  subscriber that does no harm is handled without an exception, a null pointer, an empty optional or an endless loop,
  and leaves a well-formed state. Harm is named exactly: a stream id that was not announced, a first
  retransmission of a layer, a retransmission with padding or without an original number, a transport feedback that is cut short.\<close>

theorem publish_stream_progress:
  assumes "publish_ok s" "harmless h blank s i"
  shows "\<exists>s' evs. publish_step h blank random now i s = Returns (s', evs) \<and> publish_ok s'"
proof (cases i)
  case (RtpIn b)
  then show ?thesis using OnRtp_ok [OF assms(1), of blank b h now] assms(2) by simp
next
  case (RtcpIn b)
  have "\<exists>s'. OnRtcpPacketReceive h now b s = Returns s' \<and> publish_ok s'"
  proof (cases "RtcpCompoundParse h b")
    case (Returns ks)
    then show ?thesis using fold_outcome_total [of ks publish_ok "receive_rtcp now" s] receive_rtcp_ok assms(1) by (simp add: OnRtcpPacketReceive_def)
  qed (use assms RtcpIn in \<open>simp_all add: OnRtcpPacketReceive_def\<close>)
  then show ?thesis using RtcpIn by auto
next
  case TwccTick
  obtain w where w: "ps_receive_side_twcc s = Some w" "twcc_ok w" using publish_okD(5) [OF assms(1)] by blast
  then obtain fbs d r where "TwccTimerTimeout h now w = Some (fbs, d, r)" "twcc_ok r"
    using TwccTimer_ok [of w h now] assms(2) TwccTick by auto
  then show ?thesis using assms(1) w TwccTick by (auto simp: twcc_timer_def publish_ok_def tracks_ok_def)
next
  case (FrameRequest rid)
  have "\<forall>t\<in>set (ps_tracks s). track_ok (SendRequestkeyFrame t)"
    using publish_okD(1) [OF assms(1)] by (auto simp: track_ok_def SendRequestkeyFrame_def)
  then show ?thesis using assms(1) FrameRequest
    by (auto simp: publish_ok_def tracks_ok_def OnSubscribeStreamFrameRequested_def)
next
  case (QueryRid want)
  have "\<forall>(r, j)\<in>set (ps_rid_track_map s). j < length (ps_tracks s)" using publish_okD(3) [OF assms(1)] by blast
  then have "publish_ok (snd (find_layer want now (ps_rid_track_map s) s))" by (rule find_layer_ok [OF assms(1)])
  then show ?thesis using QueryRid assms(1) by (auto simp: OnSubscribeStreamQueryRID_def Let_def split: prod.splits)
next
  case StopIn
  have "\<forall>t\<in>set (ps_tracks s). track_ok (PubTrackDeinit t)"
    using publish_okD(1) [OF assms(1)] by (auto simp: track_ok_def PubTrackDeinit_def)
  then show ?thesis using assms(1) StopIn by (auto simp: PubStop_def publish_ok_def tracks_ok_def)
qed (use assms track_timer_ok track_steps_ok in \<open>auto simp: RegisterDataObserver_def UnregisterDataObserver_def publish_ok_def tracks_ok_def\<close>)


text \<open>A stream with one announced layer, and the first packet of that layer.\<close>

definition one_layer :: PublishStream where
  "one_layer = (PubInit new_publish_stream)\<lparr>ps_rid_configuration_map := [1 \<mapsto> video_configuration\<lparr>pc_rtx_ssrc := None\<rparr>],
     ps_extension_capabilities := [[(kRtpExtensionRtpStreamId, 3)]]\<rparr>"

text \<open>A datagram of 20 bytes with the payload type \<open>t\<close> and the source \<open>x\<close>, and with the stream id \<open>d\<close> in the extension \<open>n\<close>.\<close>

definition layer_datagram :: "u8 \<Rightarrow> u32 \<Rightarrow> u8 \<Rightarrow> u8 \<Rightarrow> bytes" where
  "layer_datagram t x n d = [0x90, t, 0, 0, 0, 0, 0, 0] @ StoreUInt32BE x @ [0xBE, 0xDE, 0, 1, push_bit 4 n, 0x30 + d, 0, 0]"

lemma high_bits_clear: "unat (n :: u8) < 2 ^ k \<Longrightarrow> k \<le> i \<Longrightarrow> \<not> bit n i"
proof -
  assume "unat n < 2 ^ k" "k \<le> i"
  moreover from this have "take_bit k n = n"
    by (intro word_unat_eq_iff [THEN iffD2]) (simp add: unsigned_take_bit_eq take_bit_nat_eq_self)
  ultimately show ?thesis by (metis bit_take_bit_iff linorder_not_le)
qed

lemma nibble:
  assumes "0 < n" "(n :: u8) < 15"
  shows "drop_bit 4 (push_bit 4 n) = n" "push_bit 4 n AND 0xf = 0" "push_bit 4 n \<noteq> 0"
proof -
  have "unat n < 2 ^ 4" using assms(2) by (simp add: word_less_nat_alt)
  note b = high_bits_clear [OF this]
  show d: "drop_bit 4 (push_bit 4 n) = n"
  proof (rule bit_word_eqI)
    fix i assume "i < LENGTH(8)"
    then show "bit (drop_bit 4 (push_bit 4 n)) i = bit n i" using b [of i] by (cases "i < 4") (auto simp: bit_simps)
  qed
  have "push_bit 4 n AND 0xf = take_bit 4 (push_bit 4 n)" by (simp add: take_bit_eq_mask mask_eq_exp_minus_1)
  also have "\<dots> = 0" by (simp add: take_bit_push_bit)
  finally show "push_bit 4 n AND 0xf = 0" .
  show "push_bit 4 n \<noteq> 0" using d assms(1) by auto
qed

lemma seven_bits: "(t :: u8) < 128 \<Longrightarrow> t AND 0x80 = 0 \<and> t AND 0x7f = t"
  using high_bit_or [of 0 t t] by simp

lemma ucast_nonzero: "d \<noteq> 0 \<Longrightarrow> (ucast (d :: u8) :: u32) \<noteq> 0"
proof
  assume d: "d \<noteq> 0" "(ucast d :: u32) = 0"
  have "ucast (ucast d :: u32) = d" by (rule bit_word_eqI) (auto simp: bit_simps)
  then show False using d by simp
qed

lemma layer_datagram_created:
  assumes t: "t < 128" and n: "0 < n" "n < 15"
  shows "RtpCreate blank (layer_datagram t x n d) = Some (blank\<lparr>marker := False, payload_type := t, padding_size := 0, sequence_number := 0,
     timestamp := 0, ssrc := x, payload_offset := 20, payload_size := 0,
     extension_entries := [\<lparr>ext_id = n, ext_length = 1, ext_offset = 17, ext_header_length = 1\<rparr>], extensions_size := 3,
     data := layer_datagram t x n d\<rparr>)"
proof -
  obtain a b c e where x: "StoreUInt32BE x = [a, b, c, e]" by (simp add: StoreUInt32BE_def)
  have l: "LoadUInt32BE (a # b # c # e # ys) = x" for ys using Load_Store_32 [of x ys] x by simp
  have z: "LoadUInt32BE (0 # 0 # 0 # 0 # ys) = 0" for ys by (simp add: LoadUInt32BE_def)
  show ?thesis
    using nibble [OF n] n seven_bits [OF t] l z unfolding layer_datagram_def x
    by (simp add: RtpCreate_def RtpParse_def rtp_consts LoadUInt16BE_def parse_extensions.simps Let_def)
qed

lemma layer_datagram_rid:
  assumes "t < 128" "0 < n" "n < 15" "0 < d" "d < 10" "RtpCreate blank (layer_datagram t x n d) = Some p"
    and "GetTypeId kRtpExtensionRtpStreamId cap = Some (uint n)"
  shows "stream_rid (SetExtensionCapability cap p) = Returns (Some (ucast d))"
proof -
  have p: "extension_entries p = [\<lparr>ext_id = n, ext_length = 1, ext_offset = 17, ext_header_length = 1\<rparr>]" "data p = layer_datagram t x n d"
    using layer_datagram_created [OF assms(1-3), of blank x d] assms(6) by auto
  have dr: "drop 17 (layer_datagram t x n d) = [0x30 + d, 0, 0]" by (simp add: layer_datagram_def StoreUInt32BE_def)
  have u: "unat (0x30 + d) = 0x30 + unat d" using assms(5) by (subst unat_plus_simple [THEN iffD1]) (auto simp: word_le_nat_alt word_less_nat_alt unat_word_ariths)
  have "\<not> is_space (0x30 + d)" "0x30 + d \<noteq> 0x2D" "0x30 + d \<noteq> 0x2B" "is_digit (0x30 + d)" "0x30 + d \<noteq> 0"
    using u assms(5) by (auto simp: is_space_def is_digit_def word_le_nat_alt word_less_nat_alt word_unat_eq_iff)
  moreover have "uint (0x30 + d) - 0x30 = uint d" unfolding uint_nat u by simp
  moreover have "(of_int (uint d) :: u32) = ucast d" by simp
  moreover have "(of_int (uint d) :: u32) \<noteq> 0" using ucast_nonzero [of d] assms(4) by auto
  ultimately have "atoi [0x30 + d, 0, 0] = Returns (uint d)" by (simp add: is_digit_def)
  then show ?thesis using assms(7) p dr \<open>0x30 + d \<noteq> 0\<close> \<open>(of_int (uint d) :: u32) \<noteq> 0\<close> \<open>(of_int (uint d) :: u32) = ucast d\<close>
    by (simp add: stream_rid_def GetStreamId_def FindExtension_def SetExtensionCapability_def StreamIdParse_def)
qed

lemma fold_learn_rtx:
  assumes "i \<in> set is" "pc_rid (configuration (ps_tracks s ! i)) = rid" "pc_rtx_ssrc (configuration (ps_tracks s ! i)) = None" "distinct is"
  shows "fold_outcome (learn_rtx rid x) is s = OutOfBounds"
  using assms
proof (induction "is" arbitrary: s)
  case (Cons j js)
  show ?case
  proof (cases "i = j")
    case False
    have "learn_rtx rid x j s = OutOfBounds \<or> (\<exists>s'. learn_rtx rid x j s = Returns s' \<and> ps_tracks s' ! i = ps_tracks s ! i)"
      using False by (auto simp: learn_rtx_def split: option.splits)
    then show ?thesis using Cons False by auto
  qed (use Cons in \<open>simp add: learn_rtx_def\<close>)
qed simp

text \<open>C32. One datagram of a connected publisher ends the server: a packet that names a layer the offer did not announce
  makes \<open>at\<close> throw on the worker thread, where nothing catches. And the first retransmission of every announced layer
  dereferences the empty source of retransmissions of its track.\<close>

theorem layer_packet_ends_process:
  assumes "ps_extension_capabilities s = cap # caps" "GetTypeId kRtpExtensionRtpStreamId cap = Some (uint n)" "0 < n" "n < 15"
    and "0 < d" "d < 10" "t < 128" "ps_ssrc_track_map s x = None"
  shows "(ps_rid_configuration_map s (ucast d) = None \<longrightarrow> OnRtpPacketReceive h now blank (layer_datagram t x n d) s = Fails)
    \<and> (\<forall>cfg i. ps_rid_configuration_map s (ucast d) = Some cfg \<and> pc_payload_type cfg \<noteq> t \<and> pc_rtx_payload_type cfg = t
         \<and> i < length (ps_tracks s) \<and> pc_rid (configuration (ps_tracks s ! i)) = ucast d \<and> pc_rtx_ssrc (configuration (ps_tracks s ! i)) = None
         \<longrightarrow> OnRtpPacketReceive h now blank (layer_datagram t x n d) s = OutOfBounds)"
proof -
  obtain p where p: "RtpCreate blank (layer_datagram t x n d) = Some p" "ssrc p = x" "payload_type p = t"
    using layer_datagram_created [OF assms(7,3,4), of blank x d] by simp
  note rid = layer_datagram_rid [OF assms(7,3-6) p(1) assms(2)]
  have "OnRtpPacketReceive h now blank (layer_datagram t x n d) s = Fails" if "ps_rid_configuration_map s (ucast d) = None"
    using assms(1,8) p rid that by (simp add: OnRtpPacketReceive_def learn_layer_def)
  moreover have "OnRtpPacketReceive h now blank (layer_datagram t x n d) s = OutOfBounds"
    if "ps_rid_configuration_map s (ucast d) = Some cfg" "pc_payload_type cfg \<noteq> t" "pc_rtx_payload_type cfg = t"
      "i < length (ps_tracks s)" "pc_rid (configuration (ps_tracks s ! i)) = ucast d" "pc_rtx_ssrc (configuration (ps_tracks s ! i)) = None" for cfg i
    using assms(1,8) p rid that fold_learn_rtx [of i "[0..<length (ps_tracks s)]" s "ucast d" x]
    by (simp add: OnRtpPacketReceive_def learn_layer_def)
  ultimately show ?thesis by blast
qed

theorem layer_packet_ends_process_witness:
  "OnRtpPacketReceive zero_header 0 blank_rtp (layer_datagram 96 7 3 2) one_layer = Fails"
  using layer_packet_ends_process [of one_layer "[(kRtpExtensionRtpStreamId, 3)]" "[]" 3 2 96 7 zero_header 0 blank_rtp]
  by (simp add: one_layer_def PubInit_def new_publish_stream_def GetTypeId_def)

lemma one_layer_ok: "publish_ok one_layer"
  by (auto simp: publish_ok_def tracks_ok_def one_layer_def PubInit_def new_publish_stream_def clock_ok_def video_configuration_def
      twcc_ok_def new_receive_twcc_def new_arrival_map_def map_ok_def)

theorem publish_stream_progress_witness:
  "\<exists>s' evs. publish_step zero_header blank_rtp (\<lambda>a b. a) 1000 (RtpIn (layer_datagram 96 7 3 1)) one_layer = Returns (s', evs) \<and> publish_ok s'"
proof (rule publish_stream_progress [OF one_layer_ok])
  obtain p where p: "RtpCreate blank_rtp (layer_datagram 96 7 3 1) = Some p" "ssrc p = 7" "payload_type p = 96"
    using layer_datagram_created [of 96 3 blank_rtp 7 1] by simp
  have "stream_rid (SetExtensionCapability [(kRtpExtensionRtpStreamId, 3)] p) = Returns (Some (ucast (1 :: u8)))"
    by (rule layer_datagram_rid [OF _ _ _ _ _ p(1)]) (simp_all add: GetTypeId_def)
  then show "harmless zero_header blank_rtp one_layer (RtpIn (layer_datagram 96 7 3 1))"
    using p by (auto simp: harmless_packet_def one_layer_def PubInit_def new_publish_stream_def video_configuration_def retransmission_def)
qed

section \<open>The layer a subscriber gets\<close>

definition layer_rate :: "int \<Rightarrow> PublishStream \<Rightarrow> nat \<Rightarrow> int" where
  "layer_rate now s i = fst (PubTrackBitrate now (ps_tracks s ! i))"

definition best_layer :: "u32 \<Rightarrow> (nat \<Rightarrow> int) \<Rightarrow> (u32 \<times> nat) list \<Rightarrow> u32 option \<Rightarrow> bool" where
  "best_layer want rate es r \<longleftrightarrow> (case r of
      None \<Rightarrow> \<forall>(q, i)\<in>set es. q \<le> want \<longrightarrow> rate i \<le> 0
    | Some r \<Rightarrow> (\<exists>i. (r, i) \<in> set es \<and> r \<le> want \<and> 0 < rate i) \<and> (\<forall>(q, j)\<in>set es. q \<le> want \<and> 0 < rate j \<longrightarrow> q \<le> r))"

lemma best_layer_skip: "best_layer want rate es r \<Longrightarrow> \<not> (q \<le> want \<and> 0 < rate i) \<Longrightarrow> best_layer want rate ((q, i) # es) r"
  by (cases r) (auto simp: best_layer_def)

lemma best_layer_hit: "q \<le> want \<Longrightarrow> 0 < rate i \<Longrightarrow> \<forall>(p, j)\<in>set es. p < q \<Longrightarrow> best_layer want rate ((q, i) # es) (Some q)"
  by (auto simp: best_layer_def)

lemma best_layer_cong: "\<forall>(q, j)\<in>set es. rate j = rate' j \<Longrightarrow> best_layer want rate es r \<longleftrightarrow> best_layer want rate' es r"
  by (cases r) (fastforce simp: best_layer_def)+

lemma find_layer_spec:
  "sorted_wrt (\<lambda>a b. fst b < fst a) es \<Longrightarrow> distinct (map snd es) \<Longrightarrow> best_layer want (layer_rate now s) es (fst (find_layer want now es s))"
proof (induction es arbitrary: s)
  case (Cons e es)
  obtain r i where e: "e = (r, i)" by (cases e)
  obtain rate t where b: "PubTrackBitrate now (ps_tracks s ! i) = (rate, t)" by fastforce
  let ?s = "on_track (\<lambda>_. t) i s"
  have i: "i \<notin> snd ` set es" and below: "\<forall>(q, j)\<in>set es. q < r" using Cons.prems e by auto
  have ri: "layer_rate now s i = rate" by (simp add: layer_rate_def b)
  have "\<forall>(q, j)\<in>set es. layer_rate now ?s j = layer_rate now s j" using i by (force simp: layer_rate_def on_track_def image_iff)
  then have rest: "best_layer want (layer_rate now s) es (fst (find_layer want now es ?s))"
    using Cons.IH [of ?s] Cons.prems by (subst best_layer_cong [of es _ "layer_rate now ?s"]) auto
  consider "r \<le> want" "0 < rate" | "r \<le> want" "rate \<le> 0" | "\<not> r \<le> want" by linarith
  then show ?case
  proof cases
    case 1
    then show ?thesis using best_layer_hit [of r want "layer_rate now s" i es] ri below by (simp add: e b)
  next
    case 2
    then show ?thesis using best_layer_skip [OF rest, of r i] ri by (simp add: e b)
  next
    case 3
    then show ?thesis using best_layer_skip [of want "layer_rate now s" es "fst (find_layer want now es s)" r i] Cons by (simp add: e)
  qed
qed (simp add: best_layer_def)

text \<open>The layer a subscriber asks for is served as well as possible: the highest layer up to the one
  wanted from which packets are arriving; when there is none, the lowest layer there is; and 0 when the stream has no layers.\<close>

theorem query_rid_best_layer:
  assumes "publish_ok s" "OnSubscribeStreamQueryRID want now s = (r, s')"
  shows "(ps_rid_track_map s = [] \<longrightarrow> r = 0)
    \<and> (\<forall>(q, j)\<in>set (ps_rid_track_map s). q \<le> want \<and> 0 < layer_rate now s j \<longrightarrow>
         q \<le> r \<and> (\<exists>i. (r, i) \<in> set (ps_rid_track_map s) \<and> r \<le> want \<and> 0 < layer_rate now s i))
    \<and> ((\<forall>(q, j)\<in>set (ps_rid_track_map s). q \<le> want \<longrightarrow> layer_rate now s j \<le> 0) \<longrightarrow>
         (\<forall>(q, j)\<in>set (ps_rid_track_map s). r \<le> q \<and> r \<in> fst ` set (ps_rid_track_map s)))"
proof (cases "ps_rid_track_map s = []")
  case False
  let ?es = "ps_rid_track_map s"
  have o: "sorted_wrt (\<lambda>a b. fst b < fst a) ?es" "distinct (map snd ?es)" using assms(1) by (simp_all add: publish_ok_def)
  note f = find_layer_spec [OF o, of want now s, unfolded best_layer_def]
  have lowest: "fst (last ?es) \<le> q" if "(q, j) \<in> set ?es" for q j
  proof -
    obtain k where k: "k < length ?es" "?es ! k = (q, j)" using \<open>(q, j) \<in> set ?es\<close> by (meson in_set_conv_nth)
    show ?thesis
    proof (cases "k = length ?es - 1")
      case True
      then show ?thesis using k False by (simp add: last_conv_nth)
    next
      case lt: False
      then have "fst (?es ! (length ?es - 1)) < fst (?es ! k)" using k(1) by (intro sorted_wrt_nth_less [OF o(1)]) simp_all
      then show ?thesis using k(2) False by (simp add: last_conv_nth)
    qed
  qed
  show ?thesis
  proof (cases "fst (find_layer want now ?es s)")
    case None
    then have "r = fst (last ?es)" using assms(2) False by (auto simp: OnSubscribeStreamQueryRID_def Let_def split: prod.splits)
    then have low: "\<forall>(q, j)\<in>set ?es. r \<le> q \<and> r \<in> fst ` set ?es" using lowest last_in_set [OF False] by auto
    have none: "\<forall>(q, j)\<in>set ?es. q \<le> want \<longrightarrow> layer_rate now s j \<le> 0" using f None by simp
    then have "\<not> (q \<le> want \<and> 0 < layer_rate now s j)" if "(q, j) \<in> set ?es" for q j using that by fastforce
    then show ?thesis using low False by blast
  next
    case (Some q)
    then have "r = q" using assms(2) False by (auto simp: OnSubscribeStreamQueryRID_def Let_def split: prod.splits)
    then obtain i where i: "(r, i) \<in> set ?es" "r \<le> want" "0 < layer_rate now s i"
      "\<forall>(q, j)\<in>set ?es. q \<le> want \<and> 0 < layer_rate now s j \<longrightarrow> q \<le> r" using f Some by auto
    then have "\<not> (\<forall>(q, j)\<in>set ?es. q \<le> want \<longrightarrow> layer_rate now s j \<le> 0)" by fastforce
    then show ?thesis using i False by blast
  qed
qed (use assms(2) in \<open>simp add: OnSubscribeStreamQueryRID_def\<close>)

definition layered :: PublishStream where
  "layered = one_layer\<lparr>ps_tracks := [PubTrackInit (new_publish_track video_configuration)], ps_rid_track_map := [(1, 0)]\<rparr>"

theorem query_rid_best_layer_witness:
  "\<exists>s'. OnSubscribeStreamQueryRID 2 1000 layered = (1, s') \<and> ((\<forall>(q, j)\<in>set (ps_rid_track_map layered). layer_rate 1000 layered j \<le> 0)
     \<longrightarrow> (1 :: u32) \<in> fst ` set (ps_rid_track_map layered))"
proof -
  have "publish_ok layered" using one_layer_ok video_track_ok by (auto simp: layered_def publish_ok_def tracks_ok_def one_layer_def PubInit_def new_publish_stream_def)
  moreover obtain rate t where "PubTrackBitrate 1000 (PubTrackInit (new_publish_track video_configuration)) = (rate, t)" by fastforce
  then obtain s' where "OnSubscribeStreamQueryRID 2 1000 layered = (1, s')"
    by (auto simp: OnSubscribeStreamQueryRID_def layered_def Let_def)
  ultimately show ?thesis using query_rid_best_layer [of layered 2 1000 1 s'] by (auto simp: layered_def)
qed

section \<open>From the description to the track\<close>

lemma decimal_no_blank: "CHR '' '' \<notin> set (decimal n)"
proof
  assume "CHR '' '' \<in> set (decimal n)"
  then have "digit_of CHR '' '' \<noteq> None" using decimal_digits by blast
  then show False by (simp add: digit_of_def Let_def)
qed

lemma to_string_nat: "to_string (int n) = decimal n"
  by (simp add: to_string_def)

lemma split_sources: "StringSplit (to_string (int a) @ CHR '' '' # to_string (int b)) '' '' = Some [to_string (int a), to_string (int b)]"
proof -
  have "takeWhile (\<lambda>x. x \<noteq> CHR '' '') (decimal a @ CHR '' '' # decimal b) = decimal a"
    "dropWhile (\<lambda>x. x \<noteq> CHR '' '') (decimal a @ CHR '' '' # decimal b) = CHR '' '' # decimal b"
    using decimal_no_blank by (subst takeWhile_append2 dropWhile_append2; auto)+
  then show ?thesis using decimal_no_blank decimal_digits by (simp add: StringSplit_char fields_in fields_not_in to_string_nat)
qed

text \<open>A section of the answer with a codec, its retransmissions, a source and perhaps a group.\<close>

definition rtp_item :: "string \<Rightarrow> u8 \<Rightarrow> u32 \<Rightarrow> json" where
  "rtp_item codec n rate = JObject [(''codec'', JString codec), (''payload'', JInt (uint n)), (''rate'', JInt (uint rate))]"

definition fid_group :: "u32 \<Rightarrow> u32 \<Rightarrow> json" where
  "fid_group x y = JObject [(''semantics'', JString ''FID''), (''ssrcs'', JString (to_string (uint x) @ '' '' @ to_string (uint y)))]"

definition plain_section :: "u8 \<Rightarrow> u8 \<Rightarrow> u32 \<Rightarrow> json list \<Rightarrow> json" where
  "plain_section n k x groups = JObject [(''rtp'', JArray [rtp_item ''VP8'' n 90000, rtp_item ''rtx'' k 90000]), (''ssrcGroups'', JArray groups),
     (''ssrcs'', JArray [JObject [(''attribute'', JString ''cname''), (''id'', JInt (uint x))]]), (''type'', JString ''video'')]"

lemma fid_source_group: "fid_source x (fid_group x y) = Returns (Some y)"
proof -
  define a b where "a = unat x" and "b = unat y"
  have u: "uint x = int a" "uint y = int b" by (simp_all add: a_def b_def)
  have l: "int a < 2 ^ 63" "int b < 2 ^ 63" using uint_bounded [of x] uint_bounded [of y] u by simp_all
  have y: "(of_int (int b) :: u32) = y" unfolding u(2) [symmetric] by simp
  have "stol (to_string (int a)) = Returns (int a)" "stol (to_string (int b)) = Returns (int b)" using l by (simp_all add: stol_to_string)
  then show ?thesis unfolding fid_source_def fid_group_def
    using y by (simp add: json_get_def json_get_string_def u split_sources)
qed

definition plain_config :: "u8 \<Rightarrow> u8 \<Rightarrow> u32 \<Rightarrow> PublishConfiguration" where
  "plain_config n k x = (default_configuration (x, n))\<lparr>pc_codec := ''vp8'', pc_clock_rate := 90000, pc_rtx_enabled := True, pc_rtx_payload_type := k\<rparr>"

lemma plain_section_config:
  "section_config raw (plain_section n k x groups) = bind_outcome (group_config (JArray groups) (plain_config n k x)) (\<lambda>cfg. Returns (cfg, True))"
proof -
  have "StringToLower ''VP8'' = ''vp8''" by (simp add: StringToLower_def to_lower_def Let_def char_of_eq_iff)
  then show ?thesis
    by (simp add: section_config_def plain_section_def first_source_def when_field_def json_get_def json_get_int_def json_get_string_def rtp_config_def
        rtp_item_def default_configuration_def plain_config_def Let_def)
qed

text \<open>What is negotiated is what the track gets: from a video section with a codec, its retransmissions, a source and the group of
  the source of the retransmissions, one track is made with that configuration, and packets of both sources find it. The
  same section without the group makes the server dereference an empty source.\<close>

theorem described_track:
  assumes "ps_ssrc_track_map s x = None" "ps_ssrc_track_map s y = None"
  shows "(\<exists>s'. describe_section raw (plain_section n k x [fid_group x y]) s = Returns s'
      \<and> ps_tracks s' = ps_tracks s @ [PubTrackInit (new_publish_track ((plain_config n k x)\<lparr>pc_rtx_ssrc := Some y\<rparr>))]
      \<and> ps_ssrc_track_map s' x = Some (length (ps_tracks s)) \<and> ps_ssrc_track_map s' y = Some (length (ps_tracks s)) \<and> ps_has_video s')
    \<and> describe_section raw (plain_section n k x []) s = OutOfBounds"
proof -
  have cfg: "pc_ssrc (plain_config n k x) = x" "pc_rtx_ssrc (plain_config n k x) = None" "pc_rtx_enabled (plain_config n k x)" "\<not> pc_audio (plain_config n k x)"
    by (simp_all add: plain_config_def default_configuration_def)
  have g: "group_config (JArray [fid_group x y]) (plain_config n k x) = Returns ((plain_config n k x)\<lparr>pc_rtx_ssrc := Some y\<rparr>)"
    "group_config (JArray []) (plain_config n k x) = Returns (plain_config n k x)"
    by (simp_all add: group_config_def cfg fid_source_group)
  have f: "json_at ''simulcast'' (plain_section n k x gs) = None" "json_at ''ext'' (plain_section n k x gs) = None"
    "json_at ''type'' (plain_section n k x gs) = Some (JString ''video'')" for gs by (simp_all add: plain_section_def)
  show ?thesis
    using assms by (simp add: describe_section_def plain_section_config g f cfg when_field_def add_track_def insert_new_def Let_def)
qed

theorem described_track_witness:
  "\<exists>s'. describe_section (0, 0) (plain_section 96 97 7 [fid_group 7 8]) new_publish_stream = Returns s'
     \<and> ps_ssrc_track_map s' 7 = Some 0 \<and> ps_ssrc_track_map s' 8 = Some 0"
  using described_track [of new_publish_stream 7 8 "(0, 0)" 96 97] by (simp add: new_publish_stream_def) blast

end
