(* ===== verification/Packet_Recorder.thy ===== *)
theory Packet_Recorder
  imports Rtp_Packet Seq_Num
begin

text \<open>
  The history of sent packets that answers retransmission requests,
  \<^verbatim>\<open>src/src/transport/send_packet_recorder.{h,cpp}\<close>. The queue is a list; an entry without a packet is a
  \<open>nullptr\<close>. The front packet is dereferenced unchecked, so \<open>GetPacketIndex\<close> and \<open>Record\<close> are partial:
  \<open>None\<close> is a null dereference, and the invariant shows that there is none. The clock is an argument.
\<close>

section \<open>The code\<close>

record RecordedPacket =
  send_time_ms :: int
  recorded_packet :: "RtpPacket option"
  times_retransmitted :: nat

definition new_recorded :: "RtpPacket option \<Rightarrow> int \<Rightarrow> RecordedPacket" where
  "new_recorded p t = \<lparr>send_time_ms = t, recorded_packet = p, times_retransmitted = 0\<rparr>"

record SendPacketRecorder =
  packet_queue :: "RecordedPacket list"
  recorder_rtt_ms :: int

definition new_recorder :: SendPacketRecorder where
  "new_recorder = \<lparr>packet_queue = [], recorder_rtt_ms = - 1\<rparr>"

definition kMaxCapacity :: nat where "kMaxCapacity = 9600"
definition kMinPacketDurationMs :: int where "kMinPacketDurationMs = 1000"
definition kMinPacketDurationRtt :: int where "kMinPacketDurationRtt = 3"
definition kPacketCullingDelayFactor :: int where "kPacketCullingDelayFactor = 3"

definition GetPacketIndex :: "u16 \<Rightarrow> RecordedPacket list \<Rightarrow> int option" where
  "GetPacketIndex seq q =
     (case q of [] \<Rightarrow> Some 0
      | e # _ \<Rightarrow> Option.bind (recorded_packet e) (\<lambda>p.
          let first_seq = sequence_number p; packet_index = uint seq - uint first_seq in
          Some (if packet_index \<noteq> 0 then
                  if SeqNumGT seq first_seq then (if seq < first_seq then packet_index + (65535 + 1) else packet_index)
                  else if first_seq < seq then packet_index - (65535 + 1) else packet_index
                else packet_index)))"

definition RemovePacket :: "nat \<Rightarrow> RecordedPacket list \<Rightarrow> RecordedPacket list" where
  "RemovePacket i q =
     (let q' = q[i := (q ! i)\<lparr>recorded_packet := None\<rparr>]
      in if i = 0 then dropWhile (\<lambda>e. recorded_packet e = None) q' else q')"

lemma RemovePacket_shorter: "q \<noteq> [] \<Longrightarrow> length (RemovePacket 0 q) < length q"
proof (cases q)
  case (Cons e es)
  have "length (dropWhile (\<lambda>e. recorded_packet e = None) es) \<le> length es" by (rule length_dropWhile_le)
  then show ?thesis using Cons by (simp add: RemovePacket_def)
qed simp

function CullOldPackets :: "int \<Rightarrow> int \<Rightarrow> RecordedPacket list \<Rightarrow> RecordedPacket list" where
  "CullOldPackets rtt now_ms q =
     (let packet_duration_ms = max (kMinPacketDurationRtt * rtt) kMinPacketDurationMs in
      if q = [] then []
      else if length q \<ge> kMaxCapacity then CullOldPackets rtt now_ms (RemovePacket 0 q)
      else if send_time_ms (hd q) + packet_duration_ms > now_ms then q
      else if send_time_ms (hd q) + packet_duration_ms * kPacketCullingDelayFactor \<le> now_ms
        then CullOldPackets rtt now_ms (RemovePacket 0 q)
      else q)"
  by pat_completeness auto
termination by (relation "measure (\<lambda>(rtt, now, q). length q)") (auto dest: RemovePacket_shorter)

declare CullOldPackets.simps [simp del]

definition RecorderSetRtt :: "int \<Rightarrow> int \<Rightarrow> SendPacketRecorder \<Rightarrow> SendPacketRecorder" where
  "RecorderSetRtt rtt now_ms s = s\<lparr>recorder_rtt_ms := rtt, packet_queue := CullOldPackets rtt now_ms (packet_queue s)\<rparr>"

text \<open>Both expansion loops and the assignment of \<open>Record\<close>.\<close>

definition store_at :: "int \<Rightarrow> RecordedPacket \<Rightarrow> RecordedPacket list \<Rightarrow> RecordedPacket list" where
  "store_at packet_index r q =
     (let q1 = replicate (nat (- packet_index)) (new_recorded None 0) @ q;
          i = nat packet_index;
          q2 = q1 @ replicate (Suc i - length q1) (new_recorded None 0)
      in q2[i := r])"

definition Record :: "RtpPacket \<Rightarrow> int \<Rightarrow> SendPacketRecorder \<Rightarrow> SendPacketRecorder option" where
  "Record packet now_ms s = do {
     let q = CullOldPackets (recorder_rtt_ms s) now_ms (packet_queue s);
     let rtp_seq_no = sequence_number packet;
     packet_index \<leftarrow> GetPacketIndex rtp_seq_no q;
     (packet_index, q) \<leftarrow>
       (if packet_index \<ge> 0 \<and> nat packet_index < length q \<and> recorded_packet (q ! nat packet_index) \<noteq> None
        then let q' = RemovePacket (nat packet_index) q
             in map_option (\<lambda>i. (i, q')) (GetPacketIndex rtp_seq_no q')
        else Some (packet_index, q));
     Some (s\<lparr>packet_queue := store_at packet_index (new_recorded (Some packet) now_ms) q\<rparr>)
   }"

text \<open>\<open>GetRecordedPacket\<close> returns a pointer into the queue, here the index.\<close>

definition GetRecordedPacket :: "u16 \<Rightarrow> SendPacketRecorder \<Rightarrow> nat option option" where
  "GetRecordedPacket seq s = do {
     index \<leftarrow> GetPacketIndex seq (packet_queue s);
     Some (if index < 0 \<or> nat index \<ge> length (packet_queue s) \<or> recorded_packet (packet_queue s ! nat index) = None
           then None else Some (nat index))
   }"

definition Query :: "u16 \<Rightarrow> int \<Rightarrow> SendPacketRecorder \<Rightarrow> (RtpPacket option \<times> SendPacketRecorder) option" where
  "Query seq now_ms s = do {
     found \<leftarrow> GetRecordedPacket seq s;
     case found of None \<Rightarrow> Some (None, s)
     | Some i \<Rightarrow>
         let e = packet_queue s ! i in
         if send_time_ms e \<noteq> 0 \<and> times_retransmitted e > 0 \<and> now_ms < send_time_ms e + recorder_rtt_ms s then Some (None, s)
         else
           let e' = e\<lparr>times_retransmitted := (if send_time_ms e \<noteq> 0 then times_retransmitted e + 1 else times_retransmitted e),
                      send_time_ms := now_ms\<rparr>
           in map_option (\<lambda>p. (Some (RtpCopy p), s\<lparr>packet_queue := (packet_queue s)[i := e']\<rparr>)) (recorded_packet e)
   }"

section \<open>The invariant\<close>

text \<open>The front is populated, and position in the queue is distance in sequence numbers.\<close>

definition positions :: "u16 \<Rightarrow> RecordedPacket list \<Rightarrow> bool" where
  "positions first q \<longleftrightarrow> (\<forall>i<length q. \<forall>p. recorded_packet (q ! i) = Some p \<longrightarrow> sequence_number p = first + of_nat i)"

definition queue_ok :: "RecordedPacket list \<Rightarrow> bool" where
  "queue_ok q \<longleftrightarrow> q = [] \<or> (recorded_packet (q ! 0) \<noteq> None \<and> (\<exists>first. positions first q))"

lemma positionsD: "positions first q \<Longrightarrow> i < length q \<Longrightarrow> recorded_packet (q ! i) = Some p \<Longrightarrow> sequence_number p = first + of_nat i"
  by (simp add: positions_def)

lemma GetPacketIndex_step:
  "recorded_packet e = Some p \<Longrightarrow> GetPacketIndex seq (e # q) = Some (seq_step (sequence_number p) seq)"
proof -
  assume p: "recorded_packet e = Some p"
  let ?f = "sequence_number p"
  have b: "0 \<le> uint seq" "uint seq < 65536" "0 \<le> uint ?f" "uint ?f < 65536"
    using uint_lt2p [of seq] uint_lt2p [of ?f] by simp_all
  have d: "uint (seq - ?f) = (uint seq - uint ?f) mod 65536" by (simp add: uint_word_ariths)
  have d': "uint (seq - ?f) = (if uint ?f \<le> uint seq then uint seq - uint ?f else uint seq - uint ?f + 65536)"
  proof (cases "uint ?f \<le> uint seq")
    case True
    then have "(uint seq - uint ?f) mod 65536 = uint seq - uint ?f" using b by (intro mod_pos_pos_trivial) linarith+
    then show ?thesis using True d by simp
  next
    case False
    have "(uint seq - uint ?f) mod 65536 = (uint seq - uint ?f + 65536) mod 65536" by simp
    moreover have "(uint seq - uint ?f + 65536) mod 65536 = uint seq - uint ?f + 65536"
      using False b by (intro mod_pos_pos_trivial) linarith+
    ultimately show ?thesis using False d by simp
  qed
  have eq: "uint seq - uint ?f = 0 \<longleftrightarrow> seq = ?f" by (simp add: word_uint_eq_iff)
  show ?thesis
    using p d' eq b by (auto simp: GetPacketIndex_def seq_step_def SeqNumGT_def word_less_def Let_def)
qed

lemma seq_step_word: "of_int (seq_step lv v) = v - lv"
  by (simp add: seq_step_def Let_def)

lemma seq_step_self [simp]: "seq_step v v = 0"
  by (simp add: seq_step_def)

lemma positions_drop: "positions first q \<Longrightarrow> positions (first + of_nat n) (drop n q)"
  by (auto simp: positions_def add.assoc of_nat_add [symmetric] simp del: of_nat_add)

lemma positions_clear: "positions first q \<Longrightarrow> positions first (q[i := (q ! i)\<lparr>recorded_packet := None\<rparr>])"
  by (cases "i < length q") (auto simp: positions_def nth_list_update split: if_splits)

lemma queue_ok_front:
  assumes "queue_ok q" "q \<noteq> []"
  obtains e q0 p where "q = e # q0" "recorded_packet e = Some p" "positions (sequence_number p) q"
proof -
  obtain e q0 where q: "q = e # q0" using assms(2) by (cases q) auto
  obtain first p where f: "positions first q" "recorded_packet e = Some p" using assms q by (auto simp: queue_ok_def)
  then have "sequence_number p = first" using positionsD [OF f(1), of 0] q by simp
  then show ?thesis using that q f by blast
qed

lemma queue_ok_drop: "queue_ok q \<Longrightarrow> drop n q = [] \<or> recorded_packet (drop n q ! 0) \<noteq> None \<Longrightarrow> queue_ok (drop n q)"
  unfolding queue_ok_def using positions_drop by fastforce

lemma RemovePacket_ok:
  assumes "queue_ok q" "i < length q"
  shows "queue_ok (RemovePacket i q)"
proof (cases "i = 0")
  case True
  obtain e q0 where q: "q = e # q0" using assms(2) by (cases q) auto
  let ?d = "dropWhile (\<lambda>e. recorded_packet e = None) q0"
  obtain n where n: "?d = drop n q0" by (metis dropWhile_eq_drop)
  have r: "RemovePacket i q = ?d" using True q by (simp add: RemovePacket_def)
  have "?d = drop (Suc n) q" using q n by simp
  moreover have "?d = [] \<or> recorded_packet (?d ! 0) \<noteq> None"
    using hd_dropWhile [of "\<lambda>e. recorded_packet e = None" q0] by (cases ?d) auto
  ultimately show ?thesis using queue_ok_drop [OF assms(1), of "Suc n"] r by simp
next
  case False
  then have "RemovePacket i q = q[i := (q ! i)\<lparr>recorded_packet := None\<rparr>]" by (simp add: RemovePacket_def)
  then show ?thesis using assms positions_clear False by (auto simp: queue_ok_def)
qed

lemma CullOldPackets_ok: "queue_ok q \<Longrightarrow> queue_ok (CullOldPackets rtt now q) \<and> length (CullOldPackets rtt now q) < kMaxCapacity"
proof (induction rtt now q rule: CullOldPackets.induct)
  case (1 rtt now q)
  show ?case
    using 1 RemovePacket_ok [OF "1.prems", of 0] kMaxCapacity_def
    by (subst (1 2) CullOldPackets.simps) (auto simp: Let_def not_le)
qed

lemma GetPacketIndex_front:
  assumes "queue_ok q" "q \<noteq> []"
  obtains e q0 p where "q = e # q0" "recorded_packet e = Some p" "positions (sequence_number p) q"
    "\<And>seq. GetPacketIndex seq q = Some (seq_step (sequence_number p) seq)"
  using queue_ok_front [OF assms] GetPacketIndex_step by metis

lemma GetPacketIndex_total:
  assumes "queue_ok q"
  shows "\<exists>i. GetPacketIndex seq q = Some i \<and> - 32768 \<le> i \<and> i \<le> 32768"
proof (cases "q = []")
  case False
  then show ?thesis using GetPacketIndex_front [OF assms] seq_step_bounds by metis
qed (simp add: GetPacketIndex_def)

lemma positions_store:
  assumes "positions first q" "sequence_number p = first + of_nat i"
  shows "positions first ((q @ replicate n (new_recorded None t0))[i := new_recorded (Some p) t])"
proof -
  have "sequence_number p' = first + of_nat j"
    if "j < length q + n" "recorded_packet ((q @ replicate n (new_recorded None t0))[i := new_recorded (Some p) t] ! j) = Some p'" for j p'
    using that assms by (cases "j = i") (auto simp: positions_def new_recorded_def nth_append split: if_splits)
  then show ?thesis by (auto simp: positions_def)
qed

lemma positions_shift: "positions first q \<Longrightarrow> positions (first - of_nat m) (replicate m (new_recorded None t0) @ q)"
proof -
  assume p: "positions first q"
  have "sequence_number p' = first - of_nat m + of_nat j"
    if "j < m + length q" "recorded_packet ((replicate m (new_recorded None t0) @ q) ! j) = Some p'" for j p'
  proof (cases "j < m")
    case False
    then have "sequence_number p' = first + of_nat (j - m)"
      using that positionsD [OF p, of "j - m" p'] by (simp add: nth_append)
    then show ?thesis using False by (simp add: of_nat_diff)
  qed (use that in \<open>simp add: nth_append new_recorded_def\<close>)
  then show ?thesis by (simp add: positions_def)
qed

lemma store_at_ok:
  assumes "queue_ok q" "GetPacketIndex (sequence_number p) q = Some idx"
  shows "queue_ok (store_at idx (new_recorded (Some p) t) q)
    \<and> GetPacketIndex (sequence_number p) (store_at idx (new_recorded (Some p) t) q) = Some (max idx 0)
    \<and> nat idx < length (store_at idx (new_recorded (Some p) t) q)
    \<and> store_at idx (new_recorded (Some p) t) q ! nat idx = new_recorded (Some p) t
    \<and> length (store_at idx (new_recorded (Some p) t) q) \<le> length q + 32769"
proof (cases "q = []")
  case True
  then have "idx = 0" using assms(2) by (simp add: GetPacketIndex_def)
  then show ?thesis using True
    by (simp add: store_at_def new_recorded_def queue_ok_def positions_def GetPacketIndex_step
        exI [of _ "sequence_number p"])
next
  case False
  from assms(1) False obtain e q0 p0 where q: "q = e # q0" "recorded_packet e = Some p0" "positions (sequence_number p0) q"
    "\<And>seq. GetPacketIndex seq q = Some (seq_step (sequence_number p0) seq)"
    by (rule GetPacketIndex_front) blast
  have idx: "idx = seq_step (sequence_number p0) (sequence_number p)" using assms(2) q(4) by simp
  then have sp: "sequence_number p = sequence_number p0 + of_int idx" by (simp add: seq_step_word)
  have b: "- 32768 \<le> idx" "idx \<le> 32768" unfolding idx by (rule seq_step_bounds)+
  let ?r = "new_recorded (Some p) t"
  show ?thesis
  proof (cases "0 \<le> idx")
    case True
    let ?n = "Suc (nat idx) - length q"
    have st: "store_at idx ?r q = (q @ replicate ?n (new_recorded None 0))[nat idx := ?r]"
      using True by (simp add: store_at_def Let_def)
    have sp': "sequence_number p = sequence_number p0 + of_nat (nat idx)" using sp True by simp
    have pos: "positions (sequence_number p0) (store_at idx ?r q)" unfolding st by (rule positions_store [OF q(3) sp'])
    have len: "nat idx < length (store_at idx ?r q)" "length (store_at idx ?r q) \<le> length q + 32769"
      unfolding st using b by auto
    have at: "store_at idx ?r q ! nat idx = ?r" using len(1) unfolding st by simp
    have "\<exists>e' q'. store_at idx ?r q = e' # q' \<and> (\<exists>p'. recorded_packet e' = Some p' \<and> sequence_number p' = sequence_number p0)"
    proof (cases "nat idx")
      case 0
      then show ?thesis unfolding st unfolding q(1) using 0 sp' by (simp add: new_recorded_def)
    next
      case (Suc m)
      then show ?thesis unfolding st unfolding q(1) using Suc q(2) by simp
    qed
    then obtain e' q' p' where f: "store_at idx ?r q = e' # q'" "recorded_packet e' = Some p'" "sequence_number p' = sequence_number p0" by blast
    have "GetPacketIndex (sequence_number p) (store_at idx ?r q) = Some idx"
      unfolding f(1) by (subst GetPacketIndex_step [OF f(2)]) (simp add: f(3) idx)
    moreover have "queue_ok (store_at idx ?r q)" using pos f(1,2) by (auto simp: queue_ok_def)
    ultimately show ?thesis using len at True by (simp add: max_def)
  next
    case False
    let ?m = "nat (- idx)"
    have i0: "nat idx = 0" using False by simp
    have st: "store_at idx ?r q = (replicate ?m (new_recorded None 0) @ q)[0 := ?r]"
      using False unfolding store_at_def i0 Let_def q(1) by simp
    have m: "?m = Suc (nat (- idx - 1))" using False by simp
    have sp': "sequence_number p = sequence_number p0 - of_nat ?m + of_nat 0" using sp False by simp
    have pos: "positions (sequence_number p0 - of_nat ?m) (store_at idx ?r q)"
      unfolding st using positions_store [OF positions_shift [OF q(3), of ?m 0] sp', of 0 0 t] by simp
    have f: "store_at idx ?r q = ?r # replicate (nat (- idx - 1)) (new_recorded None 0) @ q"
      unfolding st m by simp
    have "queue_ok (store_at idx ?r q)" using pos f by (auto simp: queue_ok_def new_recorded_def)
    moreover have "GetPacketIndex (sequence_number p) (store_at idx ?r q) = Some 0"
      unfolding f by (subst GetPacketIndex_step [where p = p]) (simp_all add: new_recorded_def)
    moreover have "length (store_at idx ?r q) \<le> length q + 32769" unfolding f using b by simp
    ultimately show ?thesis using False i0 f by (simp add: max_def)
  qed
qed

lemma queue_ok_update:
  assumes "queue_ok q" "recorded_packet e = recorded_packet (q ! i)"
  shows "queue_ok (q[i := e])"
proof -
  have same: "recorded_packet (q[i := e] ! j) = recorded_packet (q ! j)" if "j < length q" for j
    using that assms(2) by (cases "j = i") auto
  then have "positions first (q[i := e]) \<longleftrightarrow> positions first q" for first by (auto simp: positions_def)
  then show ?thesis using assms(1) same [of 0] by (auto simp: queue_ok_def)
qed

lemma Record_cases:
  assumes "queue_ok (packet_queue s)"
  obtains q idx where "queue_ok q" "length q < kMaxCapacity" "GetPacketIndex (sequence_number p) q = Some idx"
    "Record p now s = Some (s\<lparr>packet_queue := store_at idx (new_recorded (Some p) now) q\<rparr>)"
proof -
  define q where "q = CullOldPackets (recorder_rtt_ms s) now (packet_queue s)"
  have q: "queue_ok q" "length q < kMaxCapacity" using CullOldPackets_ok [OF assms] by (simp_all add: q_def)
  obtain i where i: "GetPacketIndex (sequence_number p) q = Some i" using GetPacketIndex_total [OF q(1)] by blast
  show ?thesis
  proof (cases "i \<ge> 0 \<and> nat i < length q \<and> recorded_packet (q ! nat i) \<noteq> None")
    case True
    let ?q = "RemovePacket (nat i) q"
    have q': "queue_ok ?q" using RemovePacket_ok [OF q(1)] True by simp
    then obtain j where j: "GetPacketIndex (sequence_number p) ?q = Some j" using GetPacketIndex_total by blast
    have "length ?q \<le> length q" 
      using length_dropWhile_le [of "\<lambda>e. recorded_packet e = None" "q[nat i := (q ! nat i)\<lparr>recorded_packet := None\<rparr>]"]
      by (cases "nat i = 0") (simp_all only: RemovePacket_def Let_def if_True if_False length_list_update refl order_refl)
    then show ?thesis
      using that [OF q' _ j] q(2) i j True by (simp add: Record_def q_def [symmetric] Let_def)
  next
    case False
    have "Record p now s = Some (s\<lparr>packet_queue := store_at i (new_recorded (Some p) now) q\<rparr>)"
      by (simp only: Record_def Let_def q_def [symmetric] i bind.bind_lunit if_not_P [OF False] prod.case)
    then show ?thesis by (rule that [OF q i])
  qed
qed

lemma recorder_total:
  assumes ok: "queue_ok (packet_queue s)"
  shows "(\<exists>s'. Record p now s = Some s' \<and> queue_ok (packet_queue s') \<and> length (packet_queue s') < kMaxCapacity + 32769)
    \<and> (\<exists>r s'. Query seq now s = Some (r, s') \<and> queue_ok (packet_queue s') \<and> length (packet_queue s') = length (packet_queue s))
    \<and> queue_ok (packet_queue (RecorderSetRtt rtt now s)) \<and> length (packet_queue (RecorderSetRtt rtt now s)) < kMaxCapacity"
proof (intro conjI)
  obtain q idx where r: "queue_ok q" "length q < kMaxCapacity" "GetPacketIndex (sequence_number p) q = Some idx"
    "Record p now s = Some (s\<lparr>packet_queue := store_at idx (new_recorded (Some p) now) q\<rparr>)"
    by (rule Record_cases [OF ok])
  then show "\<exists>s'. Record p now s = Some s' \<and> queue_ok (packet_queue s') \<and> length (packet_queue s') < kMaxCapacity + 32769"
    using store_at_ok [OF r(1,3), of now] by auto
  obtain i where i: "GetPacketIndex seq (packet_queue s) = Some i" using GetPacketIndex_total [OF ok] by blast
  show "\<exists>r s'. Query seq now s = Some (r, s') \<and> queue_ok (packet_queue s') \<and> length (packet_queue s') = length (packet_queue s)"
  proof (cases "i < 0 \<or> nat i \<ge> length (packet_queue s) \<or> recorded_packet (packet_queue s ! nat i) = None")
    case True
    then show ?thesis using i ok by (auto simp: Query_def GetRecordedPacket_def)
  next
    case False
    then obtain p where p: "recorded_packet (packet_queue s ! nat i) = Some p" by auto
    have "queue_ok ((packet_queue s)[nat i := (packet_queue s ! nat i)\<lparr>times_retransmitted := n, send_time_ms := t\<rparr>])" for n t
      by (rule queue_ok_update [OF ok]) simp
    then show ?thesis using i False p ok by (auto simp: Query_def GetRecordedPacket_def Let_def)
  qed
qed (use CullOldPackets_ok [OF ok] in \<open>auto simp: RecorderSetRtt_def\<close>)

text \<open>An answer is a copy of an entry of the queue, and carries the requested number.\<close>

lemma Query_answer:
  assumes ok: "queue_ok (packet_queue s)" and q: "Query seq t s = Some (Some p, s')"
  shows "\<exists>e c. e \<in> set (packet_queue s) \<and> recorded_packet e = Some c \<and> sequence_number c = seq \<and> p = RtpCopy c"
proof -
  have "packet_queue s \<noteq> []" using q by (auto simp: Query_def GetRecordedPacket_def GetPacketIndex_def)
  from ok this obtain e q0 p0 where f: "packet_queue s = e # q0" "recorded_packet e = Some p0" "positions (sequence_number p0) (packet_queue s)"
    "\<And>n. GetPacketIndex n (packet_queue s) = Some (seq_step (sequence_number p0) n)"
    by (rule GetPacketIndex_front) blast
  define i where "i = seq_step (sequence_number p0) seq"
  have g: "GetRecordedPacket seq s = Some (if i < 0 \<or> nat i \<ge> length (packet_queue s) \<or> recorded_packet (packet_queue s ! nat i) = None
         then None else Some (nat i))" by (simp add: GetRecordedPacket_def f(4) i_def)
  then obtain c where c: "\<not> i < 0" "nat i < length (packet_queue s)" "recorded_packet (packet_queue s ! nat i) = Some c" "p = RtpCopy c"
    using q by (auto simp: Query_def Let_def split: if_splits)
  have "sequence_number c = seq"
    using positionsD [OF f(3) c(2,3)] c(1) seq_step_word [of "sequence_number p0" seq] by (simp add: i_def)
  then show ?thesis using c by (intro exI [of _ "packet_queue s ! nat i"] exI [of _ c]) simp
qed

text \<open>The history is never in a state its code cannot handle: from a well-formed queue, storing a packet,
  changing the round trip time and answering a request all return, with no null pointer
  dereferenced, and leave a well-formed queue; it holds at most 9599 + 32769 entries.\<close>

theorem recorder_invariant:
  assumes ok: "queue_ok (packet_queue s)"
  shows "(\<exists>s'. Record p now s = Some s' \<and> queue_ok (packet_queue s') \<and> length (packet_queue s') < kMaxCapacity + 32769)
    \<and> (\<exists>r s'. Query seq now s = Some (r, s') \<and> queue_ok (packet_queue s') \<and> length (packet_queue s') = length (packet_queue s))
    \<and> queue_ok (packet_queue (RecorderSetRtt rtt now s)) \<and> length (packet_queue (RecorderSetRtt rtt now s)) < kMaxCapacity"
  using assms by (rule recorder_total)

definition some_rtp :: "u16 \<Rightarrow> RtpPacket" where
  "some_rtp n = blank_rtp\<lparr>sequence_number := n\<rparr>"

theorem recorder_invariant_witness:
  "\<exists>s' r s''. Record (some_rtp 65535) 5 new_recorder = Some s' \<and> Query 65535 9 new_recorder = Some (r, s'')
     \<and> queue_ok (packet_queue (RecorderSetRtt 20 7 new_recorder))"
proof -
  have "queue_ok (packet_queue new_recorder)" by (simp add: queue_ok_def new_recorder_def)
  from recorder_invariant [OF this, where p = "some_rtp 65535" and now = 5] recorder_invariant [OF this, where seq = 65535 and now = 9]
    recorder_invariant [OF this, where rtt = 20 and now = 7]
  show ?thesis by blast
qed

text \<open>What has been sent can be sent again: a request for a packet that has just been stored is answered
  with a copy of that packet, whatever the history held before and however its number is ordered
  relative to the others.\<close>

theorem Record_then_Query:
  assumes ok: "queue_ok (packet_queue s)" and r: "Record p now s = Some s'"
  shows "\<exists>s''. Query (sequence_number p) t s' = Some (Some (RtpCopy p), s'')"
proof -
  obtain q idx where q: "queue_ok q" "length q < kMaxCapacity" "GetPacketIndex (sequence_number p) q = Some idx"
    "Record p now s = Some (s\<lparr>packet_queue := store_at idx (new_recorded (Some p) now) q\<rparr>)"
    by (rule Record_cases [OF ok])
  have s': "packet_queue s' = store_at idx (new_recorded (Some p) now) q" using r q(4) by auto
  note st = store_at_ok [OF q(1,3), of now]
  have "nat (max idx 0) = nat idx" by simp
  then have "GetRecordedPacket (sequence_number p) s' = Some (Some (nat idx))"
    using st unfolding GetRecordedPacket_def s' by (auto simp: new_recorded_def)
  then show ?thesis using st unfolding s' [symmetric] by (simp add: Query_def new_recorded_def Let_def)
qed

theorem Record_then_Query_witness:
  "\<exists>s1 s2 s''. Record (some_rtp 3) 5 new_recorder = Some s1 \<and> Record (some_rtp 65534) 6 s1 = Some s2
     \<and> Query 65534 9 s2 = Some (Some (RtpCopy (some_rtp 65534)), s'')"
proof -
  have o: "queue_ok (packet_queue new_recorder)" by (simp add: queue_ok_def new_recorder_def)
  obtain s1 where s1: "Record (some_rtp 3) 5 new_recorder = Some s1" "queue_ok (packet_queue s1)"
    using recorder_invariant [OF o, where p = "some_rtp 3" and now = 5] by blast
  obtain s2 where s2: "Record (some_rtp 65534) 6 s1 = Some s2"
    using recorder_invariant [OF s1(2), where p = "some_rtp 65534" and now = 6] by blast
  show ?thesis using Record_then_Query [OF s1(2) s2, of 9] s1 s2 by (auto simp: some_rtp_def)
qed

text \<open>Requests are answered with the packet asked for and not faster than the round trip time: an answer
  carries the requested number, and after the first answer to a request at a nonzero time the next
  answer to the same number is at least a round trip time later.\<close>

theorem Query_throttled:
  assumes ok: "queue_ok (packet_queue s)" and q1: "Query seq t1 s = Some (Some p, s1)" and q2: "Query seq t2 s1 = Some (Some p', s2)"
    and sent: "\<forall>e\<in>set (packet_queue s). recorded_packet e \<noteq> None \<longrightarrow> send_time_ms e \<noteq> 0" and "t1 \<noteq> 0"
  shows "sequence_number p = seq \<and> p' = p \<and> t1 + recorder_rtt_ms s \<le> t2"
proof -
  have "packet_queue s \<noteq> []" using q1 by (auto simp: Query_def GetRecordedPacket_def GetPacketIndex_def)
  from ok this obtain e q0 p0 where f: "packet_queue s = e # q0" "recorded_packet e = Some p0" "positions (sequence_number p0) (packet_queue s)"
    "\<And>n. GetPacketIndex n (packet_queue s) = Some (seq_step (sequence_number p0) n)"
    by (rule GetPacketIndex_front) blast
  define i where "i = seq_step (sequence_number p0) seq"
  obtain c where c: "\<not> i < 0" "nat i < length (packet_queue s)" "recorded_packet (packet_queue s ! nat i) = Some c" "p = RtpCopy c"
    and s1: "s1 = s\<lparr>packet_queue := (packet_queue s)[nat i := (packet_queue s ! nat i)\<lparr>times_retransmitted := times_retransmitted (packet_queue s ! nat i) + 1, send_time_ms := t1\<rparr>]\<rparr>"
  proof -
    have g: "GetRecordedPacket seq s = Some (if i < 0 \<or> nat i \<ge> length (packet_queue s) \<or> recorded_packet (packet_queue s ! nat i) = None
           then None else Some (nat i))" by (simp add: GetRecordedPacket_def f(4) i_def)
    then have n: "\<not> (i < 0 \<or> nat i \<ge> length (packet_queue s) \<or> recorded_packet (packet_queue s ! nat i) = None)"
      using q1 by (auto simp: Query_def split: if_splits)
    then have "send_time_ms (packet_queue s ! nat i) \<noteq> 0" using sent by simp
    then show ?thesis using that q1 g n by (auto simp: Query_def Let_def split: if_splits)
  qed
  have seq: "sequence_number c = seq"
    using positionsD [OF f(3) c(2,3)] c(1) seq_step_word [of "sequence_number p0" seq] by (simp add: i_def)
  have f1: "recorded_packet (hd (packet_queue s1)) = Some p0" "packet_queue s1 \<noteq> []"
    using f(1,2) unfolding s1 by (cases "nat i", auto)+
  then have "GetPacketIndex seq (packet_queue s1) = Some i"
    using GetPacketIndex_step [OF f1(1), of seq "tl (packet_queue s1)"] by (simp add: i_def)
  moreover have at: "packet_queue s1 ! nat i = (packet_queue s ! nat i)\<lparr>times_retransmitted := times_retransmitted (packet_queue s ! nat i) + 1, send_time_ms := t1\<rparr>"
    "length (packet_queue s1) = length (packet_queue s)" "recorder_rtt_ms s1 = recorder_rtt_ms s" using c(2) by (simp_all add: s1)
  ultimately have g: "GetRecordedPacket seq s1 = Some (Some (nat i))" using c by (simp add: GetRecordedPacket_def at)
  have "p' = RtpCopy c \<and> t1 + recorder_rtt_ms s \<le> t2"
    using q2 g at c(3) \<open>t1 \<noteq> 0\<close> by (auto simp: Query_def Let_def split: if_splits)
  then show ?thesis using c(4) seq by (simp add: RtpCopy_def)
qed

theorem Query_throttled_witness:
  "let s = \<lparr>packet_queue = [\<lparr>send_time_ms = 4, recorded_packet = Some (some_rtp 7), times_retransmitted = 0\<rparr>], recorder_rtt_ms = 50\<rparr>
   in \<exists>s1 s2 p. Query 7 100 s = Some (Some p, s1) \<and> Query 7 150 s1 = Some (Some p, s2) \<and> 100 + recorder_rtt_ms s \<le> 150"
proof -
  let ?s = "\<lparr>packet_queue = [\<lparr>send_time_ms = 4, recorded_packet = Some (some_rtp 7), times_retransmitted = 0\<rparr>], recorder_rtt_ms = 50\<rparr>"
  have ok: "queue_ok (packet_queue ?s)" by (auto simp: queue_ok_def positions_def intro: exI [of _ 7])
  obtain s1 where q1: "Query 7 100 ?s = Some (Some (RtpCopy (some_rtp 7)), s1)"
    by (simp add: Query_def GetRecordedPacket_def GetPacketIndex_def some_rtp_def Let_def)
  then obtain s2 where q2: "Query 7 150 s1 = Some (Some (RtpCopy (some_rtp 7)), s2)"
    by (auto simp: Query_def GetRecordedPacket_def GetPacketIndex_def some_rtp_def Let_def)
  have "100 + recorder_rtt_ms ?s \<le> 150" using Query_throttled [OF ok q1 q2] by simp
  then show ?thesis using q1 q2 by auto
qed

end
