(* ===== verification/Subscribe_Stream_Track.thy ===== *)
theory Subscribe_Stream_Track
  imports Packet_Recorder Publish_Stream_Track
begin

text \<open>
  A subscribed track, \<^verbatim>\<open>src/src/transport/subscribe_stream_track.{h,cpp}\<close>: it numbers the packets it
  forwards, keeps them for retransmission, answers NACKs, and reports as a sender. What it asks of its
  observer is the list an operation returns. The observer of a forwarded packet works on the packet
  itself before the track records it, so it is an argument, the function \<open>send\<close>. The clock is an
  argument; \<open>None\<close> is a null pointer.
\<close>

section \<open>The code\<close>

record SubscribeConfiguration =
  sc_ssrc :: u32
  sc_payload_type :: u8
  sc_rtx_ssrc :: u32
  sc_rtx_payload_type :: u8
  sc_rtx_enabled :: bool
  sc_nack_enabled :: bool
  sc_clock_rate :: u32
  sc_audio :: bool
  sc_extension_capability :: ext_capability

record SubscribeStreamTrack =
  sub_configuration :: SubscribeConfiguration
  rtx_sequence_number :: u16
  send_packet_recorder :: SendPacketRecorder
  packets_sent :: u32
  media_bytes_sent :: nat
  last_rtp_timestamp :: u32
  last_send_timestamp :: int
  sub_rtt_millis :: int
  rate_statistics :: BitRateEstimator
  sub_report_interval :: int
  max_rtp_seq :: u16
  base_rtp_seq :: u16
  first_packet :: bool

definition new_subscribe_track :: "SubscribeConfiguration \<Rightarrow> SubscribeStreamTrack" where
  "new_subscribe_track cfg =
     \<lparr>sub_configuration = cfg, rtx_sequence_number = 0, send_packet_recorder = new_recorder, packets_sent = 0,
      media_bytes_sent = 0, last_rtp_timestamp = 0, last_send_timestamp = - 1, sub_rtt_millis = 100,
      rate_statistics = new_estimator,
      sub_report_interval = (if sc_audio cfg then kDefaultAudioReportIntervalMillis else kDefaultVideoReportIntervalMillis),
      max_rtp_seq = 0, base_rtp_seq = 0, first_packet = True\<rparr>"

text \<open>\<open>SendRtpPacket\<close> up to the observer: the packet with its new number.\<close>

definition number_packet :: "int \<Rightarrow> RtpPacket \<Rightarrow> SubscribeStreamTrack \<Rightarrow> RtpPacket \<times> SubscribeStreamTrack" where
  "number_packet now p s =
     (let seq = base_rtp_seq s + sequence_number p
      in (SetSequenceNumber seq p,
          s\<lparr>packets_sent := packets_sent s + 1, media_bytes_sent := media_bytes_sent s + RtpSize p,
            last_rtp_timestamp := timestamp p, last_send_timestamp := now,
            rate_statistics := AddData (int (RtpSize p)) now (rate_statistics s),
            max_rtp_seq := (if first_packet s then seq else if SeqNumGT seq (max_rtp_seq s) then seq else max_rtp_seq s),
            first_packet := False\<rparr>))"

definition SubTrackSendRtpPacket :: "(RtpPacket \<Rightarrow> RtpPacket) \<Rightarrow> int \<Rightarrow> RtpPacket \<Rightarrow> SubscribeStreamTrack
    \<Rightarrow> (RtpPacket \<times> SubscribeStreamTrack) option" where
  "SubTrackSendRtpPacket send now p s =
     (let (p, s) = number_packet now p s; p = send p
      in if sc_nack_enabled (sub_configuration s) then
           map_option (\<lambda>r. (p, s\<lparr>send_packet_recorder := r\<rparr>)) (Record p now (send_packet_recorder s))
         else Some (p, s))"

datatype resend = Resend RtpPacket | SendRtx RtpPacket u8 u32 u16

text \<open>The loop of \<open>ReceiveNack\<close>.\<close>

fun answer_nacks :: "int \<Rightarrow> u16 list \<Rightarrow> SubscribeStreamTrack \<Rightarrow> (resend list \<times> SubscribeStreamTrack) option" where
  "answer_nacks now [] s = Some ([], s)"
| "answer_nacks now (seq # seqs) s = do {
     (packet, r) \<leftarrow> Query seq now (send_packet_recorder s);
     let s = s\<lparr>send_packet_recorder := r\<rparr>;
     case packet of
       None \<Rightarrow> answer_nacks now seqs s
     | Some p \<Rightarrow>
         if \<not> sc_rtx_enabled (sub_configuration s) then
           map_option (map_prod ((#) (Resend p)) id) (answer_nacks now seqs s)
         else
           map_option (map_prod ((#) (SendRtx p (sc_rtx_payload_type (sub_configuration s)) (sc_rtx_ssrc (sub_configuration s))
               (rtx_sequence_number s))) id)
             (answer_nacks now seqs (s\<lparr>rtx_sequence_number := rtx_sequence_number s + 1\<rparr>)) }"

definition ReceiveNack :: "int \<Rightarrow> NackPacket \<Rightarrow> SubscribeStreamTrack \<Rightarrow> (resend list \<times> SubscribeStreamTrack) option" where
  "ReceiveNack now nack s =
     (if \<not> sc_nack_enabled (sub_configuration s) then Some ([], s)
      else answer_nacks now (packet_lost_sequence_numbers nack) s)"

definition ReceiveReceiverReport :: "int \<Rightarrow> ReportBlock \<Rightarrow> SubscribeStreamTrack \<Rightarrow> SubscribeStreamTrack" where
  "ReceiveReceiverReport now b s =
     (let compact_ntp = ToCompactNtp (CreateFromMillis (of_int now)) in
      if ReportBlock.last_sr b \<noteq> 0 then
        let rtp_compact_ntp = compact_ntp - delay_since_last_sr b - ReportBlock.last_sr b;
            rtt = ToMillis (CreateFromCompactNtp rtp_compact_ntp)
        in s\<lparr>sub_rtt_millis := rtt, send_packet_recorder := RecorderSetRtt rtt now (send_packet_recorder s)\<rparr>
      else s)"

definition SyncSequenceNumber :: "u16 \<Rightarrow> SubscribeStreamTrack \<Rightarrow> SubscribeStreamTrack" where
  "SyncSequenceNumber seq s = s\<lparr>base_rtp_seq := max_rtp_seq s - seq + 1\<rparr>"

text \<open>\<open>now_millis\<close> is an \<open>int\<close>. The products and the quotient are of type \<open>int64_t\<close>.\<close>

definition BuildSr :: "RtcpCommonHeader \<Rightarrow> int \<Rightarrow> SubscribeStreamTrack \<Rightarrow> SenderReportPacket option" where
  "BuildSr h now s =
     (if last_send_timestamp s = - 1 then None
      else
        let now_millis = cast32 now;
            ntp = CreateFromMillis (of_int now_millis);
            diff_in_millis = now_millis - last_send_timestamp s;
            diff_in_clockrate = cdiv (diff_in_millis * uint (sc_clock_rate (sub_configuration s))) 1000
        in Some \<lparr>header = h, sender_ssrc = sc_ssrc (sub_configuration s), ntp_seconds = ntp_sec ntp, ntp_fractions = ntp_frac ntp,
                rtp_timestamp = last_rtp_timestamp s + of_int diff_in_clockrate, send_packet_count = packets_sent s,
                send_octets = of_nat (media_bytes_sent s)\<rparr>)"

definition SubTrackTimerTimeout :: "RtcpCommonHeader \<Rightarrow> (int \<Rightarrow> int \<Rightarrow> int) \<Rightarrow> int \<Rightarrow> SubscribeStreamTrack
    \<Rightarrow> SubscribeStreamTrack \<times> rtcp_out list \<times> int" where
  "SubTrackTimerTimeout h random now s =
     (let outs = map OutSr (opt_list (BuildSr h now s));
          (min_interval, s) =
            (if sc_audio (sub_configuration s) then (sub_report_interval s, s)
             else let (rate, e) = EstimatorRate now (rate_statistics s)
                  in (case rate of None \<Rightarrow> sub_report_interval s | Some r \<Rightarrow> report_min_interval (sub_report_interval s) r,
                      s\<lparr>rate_statistics := e\<rparr>))
      in (s, outs, next_report random min_interval))"

section \<open>Numbering\<close>

fun send_all :: "(RtpPacket \<Rightarrow> RtpPacket) \<Rightarrow> (int \<times> RtpPacket) list \<Rightarrow> SubscribeStreamTrack \<Rightarrow> (RtpPacket list \<times> SubscribeStreamTrack) option" where
  "send_all send [] s = Some ([], s)"
| "send_all send ((now, p) # ps) s = do {
     (p, s) \<leftarrow> SubTrackSendRtpPacket send now p s;
     map_option (map_prod ((#) p) id) (send_all send ps s) }"

definition sub_ok :: "SubscribeStreamTrack \<Rightarrow> bool" where
  "sub_ok s \<longleftrightarrow> queue_ok (packet_queue (send_packet_recorder s))"

lemma send_ok:
  assumes "sub_ok s"
  shows "\<exists>s'. SubTrackSendRtpPacket send now p s = Some (send (SetSequenceNumber (base_rtp_seq s + sequence_number p) p), s') \<and> sub_ok s'
     \<and> base_rtp_seq s' = base_rtp_seq s \<and> sub_configuration s' = sub_configuration s \<and> first_packet s' = False
     \<and> max_rtp_seq s' = (let q = base_rtp_seq s + sequence_number p in
         if first_packet s then q else if SeqNumGT q (max_rtp_seq s) then q else max_rtp_seq s)"
proof (cases "sc_nack_enabled (sub_configuration s)")
  case True
  let ?p = "send (SetSequenceNumber (base_rtp_seq s + sequence_number p) p)"
  obtain r where "Record ?p now (send_packet_recorder s) = Some r" "queue_ok (packet_queue r)"
    using recorder_total [of "send_packet_recorder s" ?p now] assms by (auto simp: sub_ok_def)
  then show ?thesis using True by (simp add: SubTrackSendRtpPacket_def number_packet_def Let_def sub_ok_def)
qed (use assms in \<open>simp add: SubTrackSendRtpPacket_def number_packet_def Let_def sub_ok_def\<close>)

lemma send_run:
  assumes "sub_ok s" "\<not> first_packet s" "\<And>p. sequence_number (send p) = sequence_number p"
    and "map (\<lambda>x. base_rtp_seq s + sequence_number (snd x)) ps = map (\<lambda>i. max_rtp_seq s + 1 + of_nat i) [0..<length ps]"
  shows "\<exists>out s'. send_all send ps s = Some (out, s') \<and> sub_ok s' \<and> max_rtp_seq s' = max_rtp_seq s + of_nat (length ps)
     \<and> map sequence_number out = map (\<lambda>i. max_rtp_seq s + 1 + of_nat i) [0..<length ps]"
  using assms
proof (induction ps arbitrary: s)
  case (Cons x ps)
  obtain now p where x: "x = (now, p)" by fastforce
  let ?m = "max_rtp_seq s"
  have split: "[0..<length (x # ps)] = 0 # map Suc [0..<length ps]" by (metis length_Cons map_Suc_upt upt_conv_Cons zero_less_Suc)
  have hd: "base_rtp_seq s + sequence_number p = ?m + 1"
    and tl: "map (\<lambda>x. base_rtp_seq s + sequence_number (snd x)) ps = map (\<lambda>i. ?m + 1 + 1 + of_nat i) [0..<length ps]"
    using Cons.prems(4) unfolding split by (simp_all add: x o_def add.assoc)
  have gt: "SeqNumGT (?m + 1) ?m" using seq_dist_add [of 1 ?m] by (simp add: SeqNumGT_dist)
  obtain s1 where s1: "SubTrackSendRtpPacket send now p s = Some (send (SetSequenceNumber (?m + 1) p), s1)" "sub_ok s1"
    "base_rtp_seq s1 = base_rtp_seq s" "\<not> first_packet s1" "max_rtp_seq s1 = ?m + 1"
    using send_ok [OF Cons.prems(1), of send now p] Cons.prems(2) gt by (auto simp: hd Let_def)
  obtain out s' where out: "send_all send ps s1 = Some (out, s')" "sub_ok s'" "max_rtp_seq s' = max_rtp_seq s1 + of_nat (length ps)"
    "map sequence_number out = map (\<lambda>i. max_rtp_seq s1 + 1 + of_nat i) [0..<length ps]"
    using Cons.IH [OF s1(2,4) Cons.prems(3)] tl s1(3,5) by auto
  have "sequence_number (send (SetSequenceNumber (?m + 1) p)) = ?m + 1" using Cons.prems(3) by (simp add: SetSequenceNumber_def)
  then show ?case
    using s1(1,5) out unfolding split by (simp add: x o_def add.assoc)
qed simp

section \<open>Answers to requests\<close>

fun resend_packet :: "resend \<Rightarrow> RtpPacket" where
  "resend_packet (Resend p) = p"
| "resend_packet (SendRtx p t s n) = p"

text \<open>The numbers on the retransmission stream go up by one, from \<open>n\<close>; all else is as configured.\<close>

fun resends_ok :: "SubscribeConfiguration \<Rightarrow> u16 \<Rightarrow> resend list \<Rightarrow> bool" where
  "resends_ok cfg n [] = True"
| "resends_ok cfg n (Resend p # rs) = (\<not> sc_rtx_enabled cfg \<and> resends_ok cfg n rs)"
| "resends_ok cfg n (SendRtx p t s k # rs) =
     (sc_rtx_enabled cfg \<and> t = sc_rtx_payload_type cfg \<and> s = sc_rtx_ssrc cfg \<and> k = n \<and> resends_ok cfg (n + 1) rs)"

lemma answer_nacks_ok:
  assumes "sub_ok s"
  shows "\<exists>rs s'. answer_nacks now seqs s = Some (rs, s') \<and> sub_ok s' \<and> resends_ok (sub_configuration s) (rtx_sequence_number s) rs
     \<and> length rs \<le> length seqs \<and> (\<forall>r\<in>set rs. sequence_number (resend_packet r) \<in> set seqs)"
  using assms
proof (induction seqs arbitrary: s)
  case (Cons seq seqs)
  let ?cfg = "sub_configuration s"
  obtain ans r where q: "Query seq now (send_packet_recorder s) = Some (ans, r)" "queue_ok (packet_queue r)"
    using recorder_total [of "send_packet_recorder s" blank_rtp now seq now] Cons.prems by (auto simp: sub_ok_def)
  show ?case
  proof (cases ans)
    case None
    then show ?thesis using Cons.IH [of "s\<lparr>send_packet_recorder := r\<rparr>"] q by (auto simp: sub_ok_def)
  next
    case (Some p)
    have p: "sequence_number p = seq"
      using Query_answer [of "send_packet_recorder s" seq now p r] Cons.prems q(1) Some by (auto simp: sub_ok_def RtpCopy_def)
    show ?thesis
      using Cons.IH [of "s\<lparr>send_packet_recorder := r\<rparr>"] Cons.IH [of "s\<lparr>send_packet_recorder := r, rtx_sequence_number := rtx_sequence_number s + 1\<rparr>"]
        q Some p by (cases "sc_rtx_enabled ?cfg") (auto simp: sub_ok_def Let_def)
  qed
qed simp

section \<open>Properties\<close>

text \<open>Switching between simulcast layers leaves no seam: after the track has synchronised with the first
  number \<open>n\<close> of the new layer, the packets of that layer go out numbered on from the highest number
  sent, without a gap or a repetition, and the next switch finds the track in the same state.\<close>

theorem layer_switch_seamless:
  assumes "sub_ok s" "\<not> first_packet s" "\<And>p. sequence_number (send p) = sequence_number p"
    and ps: "map (\<lambda>x. sequence_number (snd x)) ps = map (\<lambda>i. n + of_nat i) [0..<length ps]"
  shows "\<exists>out s'. send_all send ps (SyncSequenceNumber n s) = Some (out, s') \<and> sub_ok s'
     \<and> map sequence_number out = map (\<lambda>i. max_rtp_seq s + 1 + of_nat i) [0..<length ps]
     \<and> max_rtp_seq s' = max_rtp_seq s + of_nat (length ps)"
proof -
  let ?s = "SyncSequenceNumber n s"
  have "map (\<lambda>x. base_rtp_seq ?s + sequence_number (snd x)) ps = map ((+) (base_rtp_seq ?s)) (map (\<lambda>x. sequence_number (snd x)) ps)"
    by simp
  also have "\<dots> = map (\<lambda>i. max_rtp_seq ?s + 1 + of_nat i) [0..<length ps]"
    unfolding ps by (simp add: SyncSequenceNumber_def)
  finally have "map (\<lambda>x. base_rtp_seq ?s + sequence_number (snd x)) ps = map (\<lambda>i. max_rtp_seq ?s + 1 + of_nat i) [0..<length ps]" .
  from send_run [OF _ _ assms(3) this] show ?thesis
    using assms(1,2) by (auto simp: sub_ok_def SyncSequenceNumber_def)
qed

definition audio_subscription :: SubscribeConfiguration where
  "audio_subscription = \<lparr>sc_ssrc = 7, sc_payload_type = 96, sc_rtx_ssrc = 8, sc_rtx_payload_type = 97, sc_rtx_enabled = True,
     sc_nack_enabled = True, sc_clock_rate = 90000, sc_audio = False, sc_extension_capability = []\<rparr>"

theorem layer_switch_seamless_witness:
  "\<exists>out s'. send_all id [(10, some_rtp 65535), (20, some_rtp 0)]
       (SyncSequenceNumber 65535 ((new_subscribe_track audio_subscription)\<lparr>first_packet := False, max_rtp_seq := 41\<rparr>)) = Some (out, s')
     \<and> map sequence_number out = [42, 43]"
proof -
  let ?s = "(new_subscribe_track audio_subscription)\<lparr>first_packet := False, max_rtp_seq := 41\<rparr>"
  have "sub_ok ?s" "\<not> first_packet ?s" by (simp_all add: sub_ok_def new_subscribe_track_def new_recorder_def queue_ok_def)
  from layer_switch_seamless [OF this, of id "[(10, some_rtp 65535), (20, some_rtp 0)]" 65535]
  show ?thesis by (auto simp: some_rtp_def)
qed

text \<open>A NACK is answered with what it asks for and nothing else: the answers are at most as many as the
  numbers requested, each carries a requested number, without RTX they are the packets and with RTX they
  go to the configured source and payload type with consecutive numbers. No pointer is null.\<close>

theorem nack_answered:
  assumes "sub_ok s"
  shows "\<exists>rs s'. ReceiveNack now nack s = Some (rs, s') \<and> sub_ok s' \<and> resends_ok (sub_configuration s) (rtx_sequence_number s) rs
     \<and> length rs \<le> length (packet_lost_sequence_numbers nack)
     \<and> (\<forall>r\<in>set rs. sequence_number (resend_packet r) \<in> set (packet_lost_sequence_numbers nack))"
  using answer_nacks_ok [OF assms] assms by (simp add: ReceiveNack_def)

theorem nack_answered_witness:
  "\<exists>s1 p rs s'. SubTrackSendRtpPacket id 5 (some_rtp 7) (new_subscribe_track audio_subscription) = Some (p, s1)
     \<and> ReceiveNack 9 \<lparr>header = zero_header, sender_ssrc = 1, media_ssrc = 7, packet_lost_sequence_numbers = [6, 7]\<rparr> s1 = Some (rs, s')
     \<and> resends_ok audio_subscription (rtx_sequence_number s1) rs \<and> length rs \<le> 2"
proof -
  have "sub_ok (new_subscribe_track audio_subscription)"
    by (simp add: sub_ok_def new_subscribe_track_def new_recorder_def queue_ok_def)
  from send_ok [OF this, of id 5 "some_rtp 7"] obtain p s1 where
    s1: "SubTrackSendRtpPacket id 5 (some_rtp 7) (new_subscribe_track audio_subscription) = Some (p, s1)" "sub_ok s1"
      "sub_configuration s1 = audio_subscription" by (auto simp: new_subscribe_track_def)
  show ?thesis
    using s1 nack_answered [OF s1(2), of 9 "\<lparr>header = zero_header, sender_ssrc = 1, media_ssrc = 7, packet_lost_sequence_numbers = [6, 7]\<rparr>"]
    by auto
qed

text \<open>The sender report's clock is wrong: the time is cut to 32 bits before it is converted, so its NTP
  time is not the present one, and when a peer returns it at once in a receiver report 50 milliseconds
  later, the round trip time comes out as hours.\<close>

theorem sender_report_clock_wrong:
  "\<exists>sr. BuildSr zero_header 1700000000000 ((new_subscribe_track audio_subscription)\<lparr>last_send_timestamp := 1699999999990\<rparr>) = Some sr
     \<and> ntp_seconds sr \<noteq> ntp_sec (CreateFromMillis 1700000000000)
     \<and> sub_rtt_millis (ReceiveReceiverReport 1700000000050
          \<lparr>source_ssrc = 7, fraction_lost = 0, cumulative_lost = 0, extended_high_seq_num = 0, jitter = 0,
           ReportBlock.last_sr = ToCompactNtp \<lparr>ntp_sec = ntp_seconds sr, ntp_frac = ntp_fractions sr\<rparr>, delay_since_last_sr = 0\<rparr>
          (new_subscribe_track audio_subscription)) > 3600000"
proof -
  have u: "(of_int (cast32 1700000000000) :: u64) = of_nat 18446744072902502400" by (simp add: cast32_def)
  have n: "(18446744072902502400 :: nat) < 2 ^ 64" "(1700000000050 :: nat) < 2 ^ 64" by simp_all
  define t where "t = CreateFromMillis (of_nat 18446744072902502400)"
  have sec: "ntp_sec t = 1270503270" "ntp_sec (CreateFromMillis 1700000000000) = 1700000000"
    unfolding t_def CreateFromMillis_def by simp_all
  obtain sr where sr: "BuildSr zero_header 1700000000000 ((new_subscribe_track audio_subscription)\<lparr>last_send_timestamp := 1699999999990\<rparr>) = Some sr"
    "ntp_seconds sr = ntp_sec t" "ntp_fractions sr = ntp_frac t"
    by (simp add: BuildSr_def Let_def u t_def)
  have c: "ToCompactNtp \<lparr>ntp_sec = ntp_seconds sr, ntp_frac = ntp_fractions sr\<rparr> = 1466328678"
  proof -
    have "\<lparr>ntp_sec = ntp_seconds sr, ntp_frac = ntp_fractions sr\<rparr> = t" by (simp add: sr)
    then show ?thesis using compact_ntp_of [OF n(1)] by (simp add: t_def)
  qed
  have "ToCompactNtp (CreateFromMillis (of_int 1700000000050)) = of_nat (65536 * 1700000000050 div 1000)"
    using compact_ntp_of [OF n(2)] by simp
  then show ?thesis
    using sr c sec by (simp add: ReceiveReceiverReport_def Let_def compact_millis)
qed

end
