(* ===== verification/Send_Side_Twcc.thy ===== *)
theory Send_Side_Twcc
  imports Transport_Feedback Seq_Num "HOL-Library.AList"
begin

text \<open>
  The sender of transport-wide congestion control: the grouping of packets into bursts,
  \<^verbatim>\<open>src/src/congestion_controller/inter_arrival_delta.{h,cpp}\<close>, and the history of sent packets that transport feedback is
  matched with, \<^verbatim>\<open>src/src/congestion_controller/send_side_twcc.{h,cpp}\<close>. What the trend line estimator
  (theory \<open>Trendline_Estimator\<close>) is told is the list an operation returns. 64-bit times are integers, the
  ordered map of the history is an association list with rising keys. The debug assertions are left out.
\<close>

section \<open>Differences between bursts\<close>

definition kBurstDeltaThresholdMillis :: int where "kBurstDeltaThresholdMillis = 5"
definition kMaxBurstDurationMillis :: int where "kMaxBurstDurationMillis = 100"
definition kDefaultSendTimeGroupLengthMillis :: int where "kDefaultSendTimeGroupLengthMillis = 5"
definition kReorderedResetThreshold :: int where "kReorderedResetThreshold = 3"
definition kArrivalTimeOffsetThresholdMillis :: int where "kArrivalTimeOffsetThresholdMillis = 3000"

lemmas delta_consts = kBurstDeltaThresholdMillis_def kMaxBurstDurationMillis_def kDefaultSendTimeGroupLengthMillis_def
  kReorderedResetThreshold_def kArrivalTimeOffsetThresholdMillis_def

record SendTimeGroup =
  group_size :: nat
  first_send_time_millis :: int
  send_time_millis :: int
  first_arrival_millis :: int
  complete_time_millis :: int
  last_system_time_millis :: int

definition new_group :: SendTimeGroup where
  "new_group = \<lparr>group_size = 0, first_send_time_millis = - 1, send_time_millis = - 1, first_arrival_millis = - 1,
     complete_time_millis = - 1, last_system_time_millis = - 1\<rparr>"

definition IsFirstPacket :: "SendTimeGroup \<Rightarrow> bool" where
  "IsFirstPacket g \<longleftrightarrow> complete_time_millis g = - 1"

record InterArrivalDelta =
  current_timestamp_group :: SendTimeGroup
  prev_timestamp_group :: SendTimeGroup
  num_consecutive_reordered_packets :: int

definition new_inter_arrival :: InterArrivalDelta where
  "new_inter_arrival = \<lparr>current_timestamp_group = new_group, prev_timestamp_group = new_group, num_consecutive_reordered_packets = 0\<rparr>"

definition BelongsToBurst :: "int \<Rightarrow> int \<Rightarrow> SendTimeGroup \<Rightarrow> bool" where
  "BelongsToBurst arrival send g =
     (let arrival_delta = arrival - complete_time_millis g; send_delta = send - send_time_millis g in
      if send_delta = 0 then True
      else let propagation_delta = arrival_delta - send_delta
        in propagation_delta < 0 \<and> arrival_delta \<le> kBurstDeltaThresholdMillis
           \<and> arrival - first_arrival_millis g < kMaxBurstDurationMillis)"

definition NewTimestampGroup :: "int \<Rightarrow> int \<Rightarrow> SendTimeGroup \<Rightarrow> bool" where
  "NewTimestampGroup arrival send g =
     (if IsFirstPacket g then False
      else if BelongsToBurst arrival send g then False
      else send - first_send_time_millis g > kDefaultSendTimeGroupLengthMillis)"

text \<open>The end of \<open>ComputeDeltas\<close>: the packet is added to the current group.\<close>

definition accumulate :: "int \<Rightarrow> int \<Rightarrow> nat \<Rightarrow> InterArrivalDelta \<Rightarrow> InterArrivalDelta" where
  "accumulate arrival system sz s = s\<lparr>current_timestamp_group := (current_timestamp_group s)
     \<lparr>group_size := group_size (current_timestamp_group s) + sz, complete_time_millis := arrival, last_system_time_millis := system\<rparr>\<rparr>"

definition start_group :: "int \<Rightarrow> int \<Rightarrow> SendTimeGroup \<Rightarrow> SendTimeGroup" where
  "start_group send arrival g = g\<lparr>first_send_time_millis := send, send_time_millis := send, first_arrival_millis := arrival\<rparr>"

definition next_group :: "int \<Rightarrow> int \<Rightarrow> InterArrivalDelta \<Rightarrow> InterArrivalDelta" where
  "next_group send arrival s = s\<lparr>prev_timestamp_group := current_timestamp_group s,
     current_timestamp_group := (start_group send arrival (current_timestamp_group s))\<lparr>group_size := 0\<rparr>\<rparr>"

text \<open>The three results go through pointers and keep their values \<open>d\<close> when they are not written.\<close>

type_synonym deltas = "int \<times> int \<times> int"

definition ComputeDeltas :: "int \<Rightarrow> int \<Rightarrow> int \<Rightarrow> nat \<Rightarrow> deltas \<Rightarrow> InterArrivalDelta \<Rightarrow> bool \<times> deltas \<times> InterArrivalDelta" where
  "ComputeDeltas send arrival system sz d s =
     (let cur = current_timestamp_group s; prev = prev_timestamp_group s in
      if IsFirstPacket cur then
        (False, d, accumulate arrival system sz (s\<lparr>current_timestamp_group := start_group send arrival cur\<rparr>))
      else if first_send_time_millis cur > send then (False, d, s)
      else if NewTimestampGroup arrival send cur then
        if complete_time_millis prev \<ge> 0 then
          let send_delta = send_time_millis cur - send_time_millis prev;
              arrival_delta = complete_time_millis cur - complete_time_millis prev;
              system_delta = last_system_time_millis cur - last_system_time_millis prev
          in if arrival_delta - system_delta \<ge> kArrivalTimeOffsetThresholdMillis then
               (False, (send_delta, arrival_delta, snd (snd d)), new_inter_arrival)
             else if arrival_delta < 0 then
               let n = num_consecutive_reordered_packets s + 1
               in (False, (send_delta, arrival_delta, snd (snd d)),
                   if n \<ge> kReorderedResetThreshold then new_inter_arrival else s\<lparr>num_consecutive_reordered_packets := n\<rparr>)
             else
               let size_delta = cast32 (cast32 (int (group_size cur)) - cast32 (int (group_size prev)))
               in (True, (send_delta, arrival_delta, size_delta),
                   accumulate arrival system sz (next_group send arrival (s\<lparr>num_consecutive_reordered_packets := 0\<rparr>)))
        else (False, d, accumulate arrival system sz (next_group send arrival s))
      else (False, d, accumulate arrival system sz
              (s\<lparr>current_timestamp_group := cur\<lparr>send_time_millis := max (send_time_millis cur) send\<rparr>\<rparr>)))"

section \<open>The history of sent packets\<close>

definition kSendTimeWindowMillis :: int where "kSendTimeWindowMillis = 60000"

record PacketStatus =
  sent_time_millis :: int
  receive_time_millis :: int
  packet_size :: nat
  transport_wide_sequence_number :: int

definition IsSent :: "PacketStatus \<Rightarrow> bool" where
  "IsSent p \<longleftrightarrow> sent_time_millis p \<noteq> - 1 \<and> packet_size p \<noteq> 0 \<and> transport_wide_sequence_number p \<noteq> - 1"

type_synonym history = "(int \<times> PacketStatus) list"

record SendSideTWCC =
  sent_history :: history
  send_unwrapper :: SeqNumUnwrapper
  inter_arrival_delta :: InterArrivalDelta

definition new_send_twcc :: SendSideTWCC where
  "new_send_twcc = \<lparr>sent_history = [], send_unwrapper = new_unwrapper, inter_arrival_delta = new_inter_arrival\<rparr>"

fun history_insert :: "int \<Rightarrow> PacketStatus \<Rightarrow> history \<Rightarrow> history" where
  "history_insert k p [] = [(k, p)]"
| "history_insert k p ((l, q) # es) =
     (if k = l then (l, q) # es else if k < l then (k, p) # (l, q) # es else (l, q) # history_insert k p es)"

definition SendPacket :: "PacketStatus \<Rightarrow> SendSideTWCC \<Rightarrow> SendSideTWCC" where
  "SendPacket p s =
     (if \<not> IsSent p then s
      else s\<lparr>sent_history := history_insert (transport_wide_sequence_number p) p
        (dropWhile (\<lambda>(k, q). sent_time_millis p - sent_time_millis q > kSendTimeWindowMillis) (sent_history s))\<rparr>)"

text \<open>The first loop of \<open>ReceiveTransportFeedback\<close>.\<close>

fun match_packets :: "int \<Rightarrow> ReceivedPacket list \<Rightarrow> int \<Rightarrow> SeqNumUnwrapper \<Rightarrow> history \<Rightarrow> PacketStatus list \<times> SeqNumUnwrapper \<times> history" where
  "match_packets base [] off u hist = ([], u, hist)"
| "match_packets base (p # ps) off u hist =
     (let (k, u) = Unwrap (rp_sequence_number p) u in
      case map_of hist k of
        None \<Rightarrow> match_packets base ps off u hist
      | Some st \<Rightarrow>
          if IsSent st \<and> received p then
            let off = off + delta_us p; st = st\<lparr>receive_time_millis := cdiv (base + off) 1000\<rparr>;
                (sts, u, hist) = match_packets base ps off u (AList.delete k hist)
            in (st # sts, u, hist)
          else match_packets base ps off u hist)"

text \<open>A call of \<open>TrendlineEstimator::Update\<close>.\<close>

record estimator_update =
  upd_arrival_delta :: int
  upd_send_delta :: int
  upd_status :: PacketStatus
  upd_calculated :: bool

fun estimate :: "int \<Rightarrow> PacketStatus list \<Rightarrow> deltas \<Rightarrow> InterArrivalDelta \<Rightarrow> estimator_update list \<times> InterArrivalDelta" where
  "estimate now [] d s = ([], s)"
| "estimate now (p # ps) d s =
     (let (calculated, d, s) = ComputeDeltas (sent_time_millis p) (receive_time_millis p) now (packet_size p) d s;
          (us, s) = estimate now ps d s
      in (\<lparr>upd_arrival_delta = fst (snd d), upd_send_delta = fst d, upd_status = p, upd_calculated = calculated\<rparr> # us, s))"

definition ReceiveTransportFeedback :: "int \<Rightarrow> TransportFeedback \<Rightarrow> SendSideTWCC \<Rightarrow> estimator_update list \<times> SendSideTWCC" where
  "ReceiveTransportFeedback now fb s =
     (if num_seq_no fb = 0 then ([], s)
      else
        let (sts, u, hist) = match_packets (GetBaseTimeUs fb) (all_packets fb) 0 (send_unwrapper s) (sent_history s);
            s = s\<lparr>send_unwrapper := u, sent_history := hist\<rparr>
        in if sts = [] then ([], s)
           else let (us, d) = estimate now sts (- 1, - 1, - 1) (inter_arrival_delta s) in (us, s\<lparr>inter_arrival_delta := d\<rparr>))"

section \<open>Matching\<close>

text \<open>The history is keyed by the 16 bits that were sent.\<close>

definition history_ok :: "history \<Rightarrow> bool" where
  "history_ok hist \<longleftrightarrow> (\<forall>(k, p)\<in>set hist. 0 \<le> k \<and> k < 65536 \<and> transport_wide_sequence_number p = k \<and> IsSent p) \<and> sorted_wrt (<) (map fst hist)"

text \<open>The packets that the numbers \<open>ks\<close> name, starting from the number \<open>x\<close>: each near the one before.\<close>

fun near :: "int \<Rightarrow> int list \<Rightarrow> bool" where
  "near x [] = True"
| "near x (k # ks) \<longleftrightarrow> \<bar>k - x\<bar> < 32768 \<and> near k ks"

definition unwraps_from :: "int \<Rightarrow> SeqNumUnwrapper \<Rightarrow> bool" where
  "unwraps_from x u \<longleftrightarrow> last_unwrapped u = x \<and> last_value u = Some (of_int x)"

lemma Unwrap_near: "unwraps_from x u \<Longrightarrow> \<bar>k - x\<bar> < 32768 \<Longrightarrow> fst (Unwrap (of_int k) u) = k \<and> unwraps_from k (snd (Unwrap (of_int k) u))"
  using seq_step_exact [of k x] by (simp add: Unwrap_def unwraps_from_def)

lemma sorted_delete: "sorted_wrt (<) (map fst hist) \<Longrightarrow> sorted_wrt (<) (map fst (AList.delete k hist))"
  by (induction hist) (auto simp: AList.delete_eq)

lemma history_ok_delete: "history_ok hist \<Longrightarrow> history_ok (AList.delete k hist)"
  using sorted_delete [of hist k] by (auto simp: history_ok_def AList.delete_eq)

lemma match_packets_spec:
  assumes "map rp_sequence_number ps = map of_int ks" "near x ks" "distinct ks" "unwraps_from x u" "history_ok hist"
    and "match_packets base ps off u hist = (sts, u', hist')"
  shows "map transport_wide_sequence_number sts = map fst (filter (\<lambda>(k, p). received p \<and> k \<in> fst ` set hist) (zip ks ps))
     \<and> fst ` set hist' = fst ` set hist - set (map fst (filter (\<lambda>(k, p). received p \<and> k \<in> fst ` set hist) (zip ks ps))) \<and> history_ok hist'
     \<and> unwraps_from (last (x # ks)) u' \<and> (sts = [] \<longrightarrow> hist' = hist)"
  using assms
proof (induction ps arbitrary: ks x u hist off sts u' hist')
  case (Cons p ps)
  then obtain k js where k: "ks = k # js" "rp_sequence_number p = of_int k" "map rp_sequence_number ps = map of_int js" by auto
  obtain v where v: "Unwrap (of_int k) u = (k, v)" "unwraps_from k v"
    using Unwrap_near [OF Cons.prems(4), of k] Cons.prems(2) k(1) by (cases "Unwrap (of_int k) u") auto
  have kjs: "near k js" "distinct js" "k \<notin> set js" using Cons.prems(2,3) k(1) by simp_all
  note IH = Cons.IH [OF k(3) kjs(1,2) v(2)]
  show ?case
  proof (cases "k \<in> fst ` set hist \<and> received p")
    case False
    then have "map_of hist k = None \<or> \<not> received p" by (auto simp: map_of_eq_None_iff)
    then have m: "match_packets base ps off v hist = (sts, u', hist')"
      using Cons.prems(6) k(2) v(1) by (auto split: option.splits)
    have "\<not> (received p \<and> k \<in> fst ` set hist)" using False by blast
    note I = IH [OF Cons.prems(5) m]
    then show ?thesis using I \<open>\<not> (received p \<and> k \<in> fst ` set hist)\<close> k(1) by simp
  next
    case True
    then obtain st where st: "map_of hist k = Some st" by (metis map_of_eq_None_iff not_Some_eq)
    then have ok: "transport_wide_sequence_number st = k" "IsSent st" using Cons.prems(5) by (auto simp: history_ok_def dest!: map_of_SomeD)
    obtain ss h2 where ss: "match_packets base ps (off + delta_us p) v (AList.delete k hist) = (ss, u', h2)" "hist' = h2"
      "sts = st\<lparr>receive_time_millis := cdiv (base + (off + delta_us p)) 1000\<rparr> # ss"
      using Cons.prems(6) k(2) v(1) st ok(2) True by (auto simp: Let_def split: prod.splits)
    have keys: "fst ` set (AList.delete k hist) = fst ` set hist - {k}" by (auto simp: AList.delete_eq image_iff)
    have rest: "filter (\<lambda>(j, p). received p \<and> j \<in> fst ` set hist - {k}) (zip js ps) = filter (\<lambda>(j, p). received p \<and> j \<in> fst ` set hist) (zip js ps)"
      using kjs(3) by (intro filter_cong) (auto dest: set_zip_leftD)
    note I = IH [OF history_ok_delete [OF Cons.prems(5)] ss(1), unfolded keys rest]
    have head: "filter (\<lambda>(j, p). received p \<and> j \<in> fst ` set hist) (zip ks (p # ps)) = (k, p) # filter (\<lambda>(j, p). received p \<and> j \<in> fst ` set hist) (zip js ps)"
      using True k(1) by simp
    define R where "R = filter (\<lambda>(j, p). received p \<and> j \<in> fst ` set hist) (zip js ps)"
    have "fst ` set hist - {k} - set (map fst R) = fst ` set hist - set (map fst ((k, p) # R))" by auto
    then show ?thesis unfolding head R_def [symmetric] using I [folded R_def] ss(2,3) ok(1) k(1) by simp
  qed
qed simp


lemma match_packets_history_ok:
  "history_ok hist \<Longrightarrow> match_packets base ps off u hist = (sts, u', hist') \<Longrightarrow> history_ok hist'"
proof (induction ps arbitrary: off u hist sts u' hist')
  case (Cons p ps)
  obtain k v where "Unwrap (rp_sequence_number p) u = (k, v)" by fastforce
  then show ?case using Cons.prems Cons.IH history_ok_delete [of hist k]
    by (fastforce simp: Let_def split: option.splits if_splits prod.splits)
qed simp

lemma ReceiveTransportFeedback_ok:
  assumes "history_ok (sent_history s)" "ReceiveTransportFeedback now fb s = (us, s')"
  shows "history_ok (sent_history s')"
proof -
  obtain sts u hist where m: "match_packets (GetBaseTimeUs fb) (all_packets fb) 0 (send_unwrapper s) (sent_history s) = (sts, u, hist)"
    by (cases "match_packets (GetBaseTimeUs fb) (all_packets fb) 0 (send_unwrapper s) (sent_history s)") auto
  show ?thesis using assms match_packets_history_ok [OF assms(1) m] m
    by (auto simp: ReceiveTransportFeedback_def Let_def split: if_splits prod.splits)
qed

lemma estimate_updates: "map upd_status (fst (estimate now ps d s)) = ps"
proof (induction ps arbitrary: d s)
  case (Cons p ps)
  obtain b d' s' where c: "ComputeDeltas (sent_time_millis p) (receive_time_millis p) now (packet_size p) d s = (b, d', s')"
    by (cases "ComputeDeltas (sent_time_millis p) (receive_time_millis p) now (packet_size p) d s") auto
  obtain us t where "estimate now ps d' s' = (us, t)" by fastforce
  then show ?case using Cons [of d' s'] c by simp
qed simp

lemma history_ok_dropWhile: "history_ok hist \<Longrightarrow> history_ok (dropWhile P hist)"
  using sorted_wrt_dropWhile [of "\<lambda>a b. fst a < fst b" hist P] by (auto simp: history_ok_def sorted_wrt_map dest: set_dropWhileD)

lemma history_insert_set: "set (history_insert k p hist) \<subseteq> insert (k, p) (set hist)"
  by (induction hist) (auto split: if_splits)

lemma history_insert_sorted: "sorted_wrt (<) (map fst hist) \<Longrightarrow> sorted_wrt (<) (map fst (history_insert k p hist))"
proof (induction hist)
  case (Cons e es)
  obtain a b where e: "e = (a, b)" by (cases e)
  have "\<forall>x\<in>fst ` set (history_insert k p es). a < x" if "a < k" using history_insert_set [of k p es] Cons.prems e that by force
  then show ?case using Cons by (auto simp: e)
qed simp

lemma SendPacket_ok:
  assumes "history_ok (sent_history s)" "0 \<le> transport_wide_sequence_number p" "transport_wide_sequence_number p < 65536"
  shows "history_ok (sent_history (SendPacket p s))"
proof (cases "IsSent p")
  case True
  define h where "h = dropWhile (\<lambda>(k, q). sent_time_millis p - sent_time_millis q > kSendTimeWindowMillis) (sent_history s)"
  have "history_ok h" unfolding h_def by (rule history_ok_dropWhile [OF assms(1)])
  then show ?thesis using history_insert_set [of "transport_wide_sequence_number p" p h] history_insert_sorted [of h] assms(2,3) True
    by (auto simp: SendPacket_def h_def [symmetric] history_ok_def)
qed (use assms in \<open>simp add: SendPacket_def\<close>)

section \<open>Properties\<close>

text \<open>C33. Feedback is matched with the packets it reports, but only for the first 65536 packets of a connection. When a feedback
  names the packets \<open>ks\<close> (their true numbers, near the last one named), the estimator is told exactly the received ones that the
  history knows, in their order, and they leave the history. The history knows 16-bit numbers, the code looks up
  unwrapped ones: a feedback on packets from number 65536 on matches nothing, so after the first turn of the sequence numbers
  the congestion control is without data for good.\<close>

theorem feedback_matched_first_cycle:
  assumes "history_ok (sent_history s)" "unwraps_from x (send_unwrapper s)" "near x ks" "distinct ks"
    and "map rp_sequence_number (all_packets fb) = map of_int ks" "num_seq_no fb \<noteq> 0"
  shows "\<exists>us s'. ReceiveTransportFeedback now fb s = (us, s')
    \<and> map (\<lambda>u. transport_wide_sequence_number (upd_status u)) us
        = map fst (filter (\<lambda>(k, p). received p \<and> k \<in> fst ` set (sent_history s)) (zip ks (all_packets fb)))
    \<and> history_ok (sent_history s') \<and> unwraps_from (last (x # ks)) (send_unwrapper s')
    \<and> ((\<forall>k\<in>set ks. 65536 \<le> k) \<longrightarrow> us = [] \<and> sent_history s' = sent_history s \<and> inter_arrival_delta s' = inter_arrival_delta s)"
proof -
  obtain sts u hist where m: "match_packets (GetBaseTimeUs fb) (all_packets fb) 0 (send_unwrapper s) (sent_history s) = (sts, u, hist)"
    by (cases "match_packets (GetBaseTimeUs fb) (all_packets fb) 0 (send_unwrapper s) (sent_history s)") auto
  note spec = match_packets_spec [OF assms(5,3,4,2,1) m]
  have none: "sts = []" if "\<forall>k\<in>set ks. 65536 \<le> k"
  proof -
    have "filter (\<lambda>(k, p). received p \<and> k \<in> fst ` set (sent_history s)) (zip ks (all_packets fb)) = []"
      using that assms(1) by (fastforce simp: filter_empty_conv history_ok_def dest: set_zip_leftD)
    then have "map transport_wide_sequence_number sts = []" using spec by simp
    then show ?thesis by simp
  qed
  show ?thesis
  proof (cases "sts = []")
    case True
    then show ?thesis using m assms(1,6) spec by (simp add: ReceiveTransportFeedback_def)
  next
    case False
    obtain us d where us: "estimate now sts (- 1, - 1, - 1) (inter_arrival_delta s) = (us, d)" by fastforce
    then have "map upd_status us = sts" using estimate_updates [of now sts "(- 1, - 1, - 1)" "inter_arrival_delta s"] by simp
    then have "map (\<lambda>u. transport_wide_sequence_number (upd_status u)) us = map transport_wide_sequence_number sts" by auto
    moreover have "\<not> (\<forall>k\<in>set ks. 65536 \<le> k)" using none False by blast
    ultimately show ?thesis using m assms(6) spec False us unfolding ReceiveTransportFeedback_def by (auto simp: Let_def)
  qed
qed

definition sent_packet :: "int \<Rightarrow> int \<Rightarrow> PacketStatus" where
  "sent_packet k t = \<lparr>sent_time_millis = t, receive_time_millis = - 1, packet_size = 1200, transport_wide_sequence_number = k\<rparr>"

text \<open>Two packets sent over the turn of the numbers: the second, number 65536, is never matched.\<close>

definition turning :: SendSideTWCC where
  "turning = SendPacket (sent_packet 0 1010) (SendPacket (sent_packet 65535 1000)
     (new_send_twcc\<lparr>send_unwrapper := \<lparr>last_unwrapped = 65534, last_value = Some 65534, last_without_update_value = None\<rparr>\<rparr>))"

definition turning_feedback :: "RtcpCommonHeader \<Rightarrow> TransportFeedback" where
  "turning_feedback h = (new_feedback h True True)\<lparr>num_seq_no := 2, all_packets := [received_at 65535 4, received_at 0 4]\<rparr>"

theorem feedback_matched_first_cycle_witness:
  "\<forall>h. \<exists>us s'. ReceiveTransportFeedback 1100 (turning_feedback h) turning = (us, s')
     \<and> map (\<lambda>u. transport_wide_sequence_number (upd_status u)) us = [65535]"
proof
  fix h
  let ?s = "turning" and ?fb = "turning_feedback h"
  have s: "sent_history ?s = [(0, sent_packet 0 1010), (65535, sent_packet 65535 1000)]"
    "send_unwrapper ?s = \<lparr>last_unwrapped = 65534, last_value = Some 65534, last_without_update_value = None\<rparr>"
    by (simp_all add: turning_def SendPacket_def IsSent_def sent_packet_def new_send_twcc_def kSendTimeWindowMillis_def)
  have a: "history_ok (sent_history ?s)" unfolding s by (simp add: history_ok_def sent_packet_def IsSent_def)
  have b: "unwraps_from 65534 (send_unwrapper ?s)" unfolding s by (simp add: unwraps_from_def)
  have c: "near 65534 [65535, 65536]" "distinct [65535, 65536 :: int]" by simp_all
  have d: "map rp_sequence_number (all_packets ?fb) = map of_int [65535, 65536]" "num_seq_no ?fb \<noteq> 0"
    by (simp_all add: turning_feedback_def received_at_def)
  obtain us s' where r: "ReceiveTransportFeedback 1100 ?fb ?s = (us, s')"
    "map (\<lambda>u. transport_wide_sequence_number (upd_status u)) us
        = map fst (filter (\<lambda>(k, p). received p \<and> k \<in> fst ` set (sent_history ?s)) (zip [65535, 65536] (all_packets ?fb)))"
    using feedback_matched_first_cycle [OF a b c d, of 1100] by (elim exE conjE) (rule that; assumption)
  have "map fst (filter (\<lambda>(k, p). received p \<and> k \<in> fst ` set (sent_history ?s)) (zip [65535, 65536] (all_packets ?fb))) = [65535]"
    unfolding s by (simp add: turning_feedback_def received_at_def)
  with r show "\<exists>us s'. ReceiveTransportFeedback 1100 ?fb ?s = (us, s') \<and> map (\<lambda>u. transport_wide_sequence_number (upd_status u)) us = [65535]"
    by simp
qed

section \<open>Paced packets\<close>

text \<open>A packet is its times of sending and arrival, the system's time and its size.\<close>

type_synonym timed = "int \<times> int \<times> int \<times> nat"

fun run_deltas :: "timed list \<Rightarrow> InterArrivalDelta \<Rightarrow> deltas option list" where
  "run_deltas [] s = []"
| "run_deltas ((send, arrival, system, sz) # ps) s =
     (let (calculated, d, s) = ComputeDeltas send arrival system sz (- 1, - 1, - 1) s
      in (if calculated then Some d else None) # run_deltas ps s)"

definition spaced :: "timed \<Rightarrow> timed \<Rightarrow> bool" where
  "spaced p q \<longleftrightarrow> (case (p, q) of ((s, a, t, z), (s', a', t', z')) \<Rightarrow>
     5 < s' - s \<and> 5 < a' - a \<and> a' - a - (t' - t) < 3000 \<and> 0 \<le> a \<and> z < 2 ^ 31 \<and> z' < 2 ^ 31)"

fun spaced_list :: "timed \<Rightarrow> timed list \<Rightarrow> bool" where
  "spaced_list p [] = True"
| "spaced_list p (q # qs) \<longleftrightarrow> spaced p q \<and> spaced_list q qs"

fun differences :: "timed \<Rightarrow> timed \<Rightarrow> timed list \<Rightarrow> deltas option list" where
  "differences p q [] = []"
| "differences (s, a, t, z) (s', a', t', z') (r # rs) = Some (s' - s, a' - a, int z' - int z) # differences (s', a', t', z') r rs"

definition group_of :: "timed \<Rightarrow> SendTimeGroup" where
  "group_of p = (case p of (s, a, t, z) \<Rightarrow> \<lparr>group_size = z, first_send_time_millis = s, send_time_millis = s, first_arrival_millis = a,
     complete_time_millis = a, last_system_time_millis = t\<rparr>)"

lemma ComputeDeltas_spaced:
  assumes "spaced p q" "spaced q r" "current_timestamp_group s = group_of q" "prev_timestamp_group s = group_of p"
    and "r = (send, arrival, system, sz)"
  shows "\<exists>s'. ComputeDeltas send arrival system sz d s = (True, the (hd (differences p q [r])), s')
     \<and> current_timestamp_group s' = group_of r \<and> prev_timestamp_group s' = group_of q"
  using assms by (cases p; cases q) (auto simp: ComputeDeltas_def spaced_def group_of_def IsFirstPacket_def NewTimestampGroup_def BelongsToBurst_def
      delta_consts accumulate_def next_group_def start_group_def cast32_id Let_def)

text \<open>Packets that are sent and arrive more than 5 ms apart are groups of their own, and from the third on the
  estimator gets exactly the differences of the two packets before, in sending time, arrival time and size.\<close>

theorem paced_packets_exact_deltas:
  assumes "spaced_list p (q # qs)"
  shows "run_deltas (p # q # qs) new_inter_arrival = None # None # differences p q qs"
proof -
  have run: "run_deltas qs s = differences p q qs"
    if "spaced p q" "spaced_list q qs" "current_timestamp_group s = group_of q" "prev_timestamp_group s = group_of p" for p q qs s
    using that
  proof (induction qs arbitrary: p q s)
    case (Cons r rs)
    obtain send arrival system sz where r: "r = (send, arrival, system, sz)" by (cases r)
    obtain s' where s': "ComputeDeltas send arrival system sz (- 1, - 1, - 1) s = (True, the (hd (differences p q [r])), s')"
      "current_timestamp_group s' = group_of r" "prev_timestamp_group s' = group_of q"
      using ComputeDeltas_spaced [OF Cons.prems(1) _ Cons.prems(3,4) r, of "(- 1, - 1, - 1)"] Cons.prems(2) by auto
    have "run_deltas rs s' = differences q r rs" using Cons.IH [OF _ _ s'(2,3)] Cons.prems(2) by simp
    then show ?case using s'(1) r by (cases p; cases q) simp
  qed simp
  obtain s a t z where p: "p = (s, a, t, z)" by (cases p)
  obtain s' a' t' z' where q: "q = (s', a', t', z')" by (cases q)
  have sp: "spaced p q" using assms by simp
  define s1 where "s1 = new_inter_arrival\<lparr>current_timestamp_group := group_of p\<rparr>"
  define s2 where "s2 = new_inter_arrival\<lparr>current_timestamp_group := group_of q, prev_timestamp_group := group_of p\<rparr>"
  have 1: "ComputeDeltas s a t z (- 1, - 1, - 1) new_inter_arrival = (False, (- 1, - 1, - 1), s1)"
    by (simp add: ComputeDeltas_def new_inter_arrival_def new_group_def IsFirstPacket_def accumulate_def start_group_def s1_def group_of_def p Let_def)
  have 2: "ComputeDeltas s' a' t' z' (- 1, - 1, - 1) s1 = (False, (- 1, - 1, - 1), s2)"
    using sp by (auto simp: ComputeDeltas_def s1_def s2_def group_of_def p q spaced_def IsFirstPacket_def NewTimestampGroup_def BelongsToBurst_def
        delta_consts accumulate_def next_group_def start_group_def new_inter_arrival_def new_group_def Let_def)
  have "run_deltas qs s2 = differences p q qs" using run [OF sp, of qs s2] assms by (simp add: s2_def)
  then show ?thesis using 1 2 by (simp add: p q)
qed

theorem paced_packets_exact_deltas_witness:
  "run_deltas [(0, 100, 200, 1000), (10, 112, 200, 1200), (20, 125, 200, 900)] new_inter_arrival = [None, None, Some (10, 12, 200)]"
  using paced_packets_exact_deltas [of "(0, 100, 200, 1000)" "(10, 112, 200, 1200)" "[(20, 125, 200, 900)]"] by (simp add: spaced_def)

end
