(* ===== verification/Subscribe_Stream.thy ===== *)
theory Subscribe_Stream
  imports Publish_Stream Subscribe_Stream_Track Send_Side_Twcc
begin

text \<open>
  A subscribed stream, \<^verbatim>\<open>src/src/transport/subscribe_stream.{h,cpp}\<close>: it makes a track for every section of its answer,
  waits for a key frame, forwards the packets of the published stream, of one layer when there are several, switches
  between layers, answers the feedback of the subscriber and counts what it sends for the congestion control.

  A track is an index into \<open>tracks_\<close>. The observer is the published stream as long as it lives, an argument; its frame
  requests are tasks of another thread and so events an operation returns, its answers to the questions it is asked in
  between are computed from its state. What goes through the SRTP session to the socket is the event \<open>SendRtp\<close>, with
  the plain packet. \<open>pool\<close> is the memory a retransmission is written to, \<open>raw\<close> that of a configuration. 64-bit times
  are integers. \<open>OutOfBounds\<close> is behaviour C++ does not define, \<open>Fails\<close> an exception that leaves the operation.
\<close>

section \<open>The code\<close>

record SubscribeStream =
  su_sdp :: SdpNegotiator
  su_tracks :: "SubscribeStreamTrack list"
  su_ssrc_track_map :: "u32 \<rightharpoonup> nat"
  su_transport_seq :: u64
  su_data_received :: bool
  su_current_layer_rid :: u32
  su_target_layer_rid :: u32
  su_reference_layer_rid :: u32
  su_timestamp_offset :: u32
  su_send_side_twcc :: SendSideTWCC
  su_connection_established :: bool
  su_stoped :: bool

definition new_subscribe_stream :: SubscribeStream where
  "new_subscribe_stream = \<lparr>su_sdp = new_negotiator, su_tracks = [], su_ssrc_track_map = Map.empty, su_transport_seq = 0,
     su_data_received = False, su_current_layer_rid = 1, su_target_layer_rid = 1, su_reference_layer_rid = 1, su_timestamp_offset = 0,
     su_send_side_twcc = new_send_twcc, su_connection_established = False, su_stoped = False\<rparr>"

definition SubKMaxSimulcastLayers :: u32 where "SubKMaxSimulcastLayers = 3"
definition SubKInvalidLayerIndex :: u32 where "SubKInvalidLayerIndex = 0"

datatype subscribe_event = SendRtp bytes | SendSubscriberRtcp rtcp_out | RequestFrame u32 | Estimated "estimator_update list"
  | SubscriberShutdown

definition SetSdpNegotiator :: "SdpNegotiator \<Rightarrow> SubscribeStream \<Rightarrow> SubscribeStream" where
  "SetSdpNegotiator sdp s = s\<lparr>su_sdp := sdp\<rparr>"

definition SubSetRemoteDescription :: "(string \<Rightarrow> json outcome) \<Rightarrow> string \<Rightarrow> SubscribeStream \<Rightarrow> SubscribeStream option outcome" where
  "SubSetRemoteDescription parse offer s =
     bind_outcome (SetSubscribeOffer parse offer (su_sdp s)) (\<lambda>r. Returns (map_option (\<lambda>sdp. s\<lparr>su_sdp := sdp\<rparr>) r))"

definition SubCreateAnswer :: "(json \<Rightarrow> string outcome) \<Rightarrow> SubscribeStream \<Rightarrow> (string \<times> SubscribeStream) option outcome" where
  "SubCreateAnswer write s =
     bind_outcome (CreateSubscribeAnswer write (su_sdp s)) (\<lambda>r. Returns (map_option (\<lambda>(t, sdp). (t, s\<lparr>su_sdp := sdp\<rparr>)) r))"

subsection \<open>The negotiated description\<close>

definition default_sub_configuration :: "u32 \<times> u8 \<Rightarrow> SubscribeConfiguration" where
  "default_sub_configuration raw = \<lparr>sc_ssrc = fst raw, sc_payload_type = snd raw, sc_rtx_ssrc = 0, sc_rtx_payload_type = 0, sc_rtx_enabled = False,
     sc_nack_enabled = False, sc_clock_rate = 0, sc_audio = False, sc_extension_capability = []\<rparr>"

definition sub_rtp_config :: "json \<Rightarrow> SubscribeConfiguration \<Rightarrow> SubscribeConfiguration outcome" where
  "sub_rtp_config rtpmaps cfg =
     bind_outcome (if json_empty rtpmaps then Returns cfg
       else bind_outcome (json_first rtpmaps) (\<lambda>j.
         bind_outcome (json_get_int ''payload'' j) (\<lambda>n.
         bind_outcome (json_get_int ''rate'' j) (\<lambda>r.
         Returns (cfg\<lparr>sc_payload_type := of_int n, sc_clock_rate := of_int r\<rparr>)))))
     (fold_outcome (\<lambda>j cfg. bind_outcome (json_get ''codec'' j) (\<lambda>c.
        if c = JString ''rtx'' then bind_outcome (json_get_int ''payload'' j) (\<lambda>n.
          Returns (cfg\<lparr>sc_rtx_enabled := True, sc_rtx_payload_type := of_int n\<rparr>))
        else Returns cfg)) (json_elements rtpmaps))"

definition sub_group_config :: "json \<Rightarrow> SubscribeConfiguration \<Rightarrow> SubscribeConfiguration outcome" where
  "sub_group_config groups = fold_outcome (\<lambda>g cfg. bind_outcome (fid_source (sc_ssrc cfg) g) (\<lambda>r.
     Returns (case r of None \<Rightarrow> cfg | Some x \<Rightarrow> cfg\<lparr>sc_rtx_ssrc := x\<rparr>))) (json_elements groups)"

text \<open>The second test is made only when the first holds.\<close>

definition sub_feedback_config :: "json \<Rightarrow> SubscribeConfiguration \<Rightarrow> SubscribeConfiguration outcome" where
  "sub_feedback_config fb cfg =
     bind_outcome (json_get ''payload'' fb) (\<lambda>n.
       if n \<noteq> JString (to_string (uint (sc_payload_type cfg))) then Returns cfg
       else bind_outcome (json_get ''type'' fb) (\<lambda>t.
         Returns (if t = JString ''nack'' \<and> json_at ''subtype'' fb = None then cfg\<lparr>sc_nack_enabled := True\<rparr> else cfg)))"

definition sub_section_config :: "u32 \<times> u8 \<Rightarrow> json \<Rightarrow> SubscribeConfiguration outcome" where
  "sub_section_config raw m =
     bind_outcome (json_get ''type'' m) (\<lambda>type.
     bind_outcome (first_source m) (\<lambda>src.
     let cfg = default_sub_configuration raw;
         cfg = cfg\<lparr>sc_audio := type = JString ''audio'', sc_ssrc := (case src of None \<Rightarrow> sc_ssrc cfg | Some x \<Rightarrow> x)\<rparr>
     in bind_outcome (when_field ''rtp'' m sub_rtp_config cfg) (\<lambda>cfg.
        bind_outcome (when_field ''ssrcGroups'' m sub_group_config cfg) (\<lambda>cfg.
        bind_outcome (when_field ''rtcpFb'' m (\<lambda>fbs. fold_outcome sub_feedback_config (json_elements fbs)) cfg) (\<lambda>cfg.
        when_field ''ext'' m (\<lambda>exts cfg. bind_outcome (register_extensions exts (sc_extension_capability cfg)) (\<lambda>cap.
          Returns (cfg\<lparr>sc_extension_capability := cap\<rparr>))) cfg)))))"

definition sub_describe_section :: "u32 \<times> u8 \<Rightarrow> json \<Rightarrow> SubscribeStream \<Rightarrow> SubscribeStream outcome" where
  "sub_describe_section raw m s =
     bind_outcome (sub_section_config raw m) (\<lambda>cfg.
       Returns (s\<lparr>su_ssrc_track_map := insert_new (sc_ssrc cfg) (length (su_tracks s)) (su_ssrc_track_map s),
         su_tracks := su_tracks s @ [new_subscribe_track cfg]\<rparr>))"

definition SubSetLocalDescription :: "u32 \<times> u8 \<Rightarrow> SubscribeStream \<Rightarrow> SubscribeStream outcome" where
  "SubSetLocalDescription raw s =
     bind_outcome (GetMediaSections (su_sdp s)) (\<lambda>media.
       case media of
         JNull \<Rightarrow> Returns s
       | JArray ms \<Rightarrow> fold_outcome (sub_describe_section raw) ms s
       | _ \<Rightarrow> Fails)"

subsection \<open>Sending\<close>

definition InjectSendSideTWCC :: "int \<Rightarrow> RtpPacket \<Rightarrow> u16 \<Rightarrow> SubscribeStream \<Rightarrow> SubscribeStream" where
  "InjectSendSideTWCC now p twsn s = s\<lparr>su_send_side_twcc := SendPacket
     \<lparr>sent_time_millis = now, receive_time_millis = - 1, packet_size = RtpSize p, transport_wide_sequence_number = uint twsn\<rparr>
     (su_send_side_twcc s)\<rparr>"

text \<open>A packet gets the next transport-wide number, and the history an entry.\<close>

definition stamp :: "int \<Rightarrow> RtpPacket \<Rightarrow> SubscribeStream \<Rightarrow> RtpPacket \<times> SubscribeStream" where
  "stamp now p s =
     (let n = su_transport_seq s + 1; twsn = ucast (n AND 0xFFFF); p = SetTransportSequenceNumber twsn p
      in (p, InjectSendSideTWCC now p twsn (s\<lparr>su_transport_seq := n\<rparr>)))"

definition rtp_datagram :: "RtpPacket \<Rightarrow> bytes" where
  "rtp_datagram p = take (RtpSize p) (data p)"

text \<open>\<open>WebrtcStream::SendRtp\<close> before the encryption.\<close>

definition send_rtp :: "bytes \<Rightarrow> SubscribeStream \<Rightarrow> subscribe_event list" where
  "send_rtp b s = (if su_connection_established s then [SendRtp b] else [])"

definition OnSubscribeStreamTrackSendRtpPacket :: "int \<Rightarrow> RtpPacket \<Rightarrow> SubscribeStream \<Rightarrow> RtpPacket \<times> SubscribeStream \<times> subscribe_event list" where
  "OnSubscribeStreamTrackSendRtpPacket now p s = (let (p, s) = stamp now p s in (p, s, send_rtp (rtp_datagram p) s))"

definition OnSubscribeStreamTrackResendRtpPacket :: "int \<Rightarrow> RtpPacket \<Rightarrow> SubscribeStream \<Rightarrow> SubscribeStream \<times> subscribe_event list" where
  "OnSubscribeStreamTrackResendRtpPacket now p s =
     (if \<not> su_connection_established s then (s, [])
      else let (p, s) = stamp now p s in (s, send_rtp (rtp_datagram p) s))"

text \<open>The retransmission is put together in memory of the pool: header, original number, payload. Padding is not
  copied, but counts.\<close>

definition rtx_datagram :: "(nat \<Rightarrow> u8) \<Rightarrow> RtpPacket \<Rightarrow> u8 \<Rightarrow> u32 \<Rightarrow> u16 \<Rightarrow> bytes" where
  "rtx_datagram pool p pt x seq =
     (let b = map pool [0..<RtpSize p + kRtxHeaderSize];
          b = overwrite b 0 (take (payload_offset p) (data p));
          b = overwrite b (payload_offset p + kRtxHeaderSize) (take (payload_size p) (drop (payload_offset p) (data p)));
          b = overwrite b (payload_offset p) (StoreUInt16BE (sequence_number p))
      in SetRtpSequenceNumber seq (SetRtpPayloadType pt (SetRtpSsrc x b)))"

definition OnSubscribeStreamTrackSendRtxPacket :: "(nat \<Rightarrow> u8) \<Rightarrow> int \<Rightarrow> RtpPacket \<Rightarrow> u8 \<Rightarrow> u32 \<Rightarrow> u16 \<Rightarrow> SubscribeStream
    \<Rightarrow> SubscribeStream \<times> subscribe_event list" where
  "OnSubscribeStreamTrackSendRtxPacket pool now p pt x seq s =
     (if \<not> su_connection_established s then (s, [])
      else let (p, s) = stamp now p s in (s, [SendRtp (rtx_datagram pool p pt x seq)]))"

text \<open>A packet for the track \<open>i\<close>, which numbers it and hands it to the stream.\<close>

definition send_on_track :: "int \<Rightarrow> RtpPacket \<Rightarrow> nat \<Rightarrow> SubscribeStream \<Rightarrow> (SubscribeStream \<times> subscribe_event list) outcome" where
  "send_on_track now p i s =
     (let t = su_tracks s ! i;
          (_, s', evs) = OnSubscribeStreamTrackSendRtpPacket now (fst (number_packet now p t)) s
      in case SubTrackSendRtpPacket (\<lambda>p. fst (OnSubscribeStreamTrackSendRtpPacket now p s)) now p t of
           None \<Rightarrow> OutOfBounds
         | Some (_, t') \<Rightarrow> Returns (s'\<lparr>su_tracks := (su_tracks s')[i := t']\<rparr>, evs))"

subsection \<open>Packets of the published stream\<close>

text \<open>A question to the observer, unless it is gone.\<close>

definition last_sr_of :: "PublishStream option \<Rightarrow> u32 \<Rightarrow> SenderReportPacket option" where
  "last_sr_of pub rid = (case pub of None \<Rightarrow> None | Some w \<Rightarrow> OnSubscribeStreamLastSrRequested rid w None)"

definition request_frame :: "PublishStream option \<Rightarrow> u32 \<Rightarrow> subscribe_event list" where
  "request_frame pub rid = (if pub = None then [] else [RequestFrame rid])"

definition sr_millis :: "SenderReportPacket \<Rightarrow> int" where
  "sr_millis sr = ToMillis \<lparr>ntp_sec = ntp_seconds sr, ntp_frac = ntp_fractions sr\<rparr>"

text \<open>What the timestamps of the target layer are ahead of those of the reference layer.\<close>

definition layer_offset :: "u32 \<Rightarrow> SenderReportPacket \<Rightarrow> SenderReportPacket \<Rightarrow> u32" where
  "layer_offset clock_rate ref target =
     (let reference_millis = sr_millis ref;
          target_millis = sr_millis target;
          diff_millis = (if target_millis \<ge> reference_millis then target_millis - reference_millis
            else - 1 * (reference_millis - target_millis));
          diff_timestamp = cdiv (diff_millis * uint clock_rate) 1000;
          point = rtp_timestamp target - of_int diff_timestamp
      in point - rtp_timestamp ref)"

definition switch_layer :: "PublishStream option \<Rightarrow> RtpPacket \<Rightarrow> u32 \<Rightarrow> nat \<Rightarrow> SubscribeStream \<Rightarrow> SubscribeStream \<times> subscribe_event list" where
  "switch_layer pub p rid i s =
     (if su_current_layer_rid s \<noteq> su_target_layer_rid s \<and> rid = su_target_layer_rid s \<and> IsKeyFrame p then
        case (last_sr_of pub (su_reference_layer_rid s), last_sr_of pub (su_target_layer_rid s)) of
          (Some ref, Some target) \<Rightarrow>
            (s\<lparr>su_timestamp_offset := layer_offset (sc_clock_rate (sub_configuration (su_tracks s ! i))) ref target,
               su_current_layer_rid := su_target_layer_rid s,
               su_tracks := (su_tracks s)[i := SyncSequenceNumber (sequence_number p) (su_tracks s ! i)]\<rparr>, [])
        | _ \<Rightarrow> (s, request_frame pub (su_target_layer_rid s))
      else (s, []))"

text \<open>A copy of the packet with a track.\<close>

definition forward_packet :: "PublishStream option \<Rightarrow> int \<Rightarrow> RtpPacket \<Rightarrow> nat \<Rightarrow> SubscribeStream \<Rightarrow> (SubscribeStream \<times> subscribe_event list) outcome" where
  "forward_packet pub now p i s =
     bind_outcome (UpdateExtensionCapability (sc_extension_capability (sub_configuration (su_tracks s ! i))) p) (\<lambda>p.
     bind_outcome (stream_rid p) (\<lambda>r.
       case r of
         None \<Rightarrow> send_on_track now p i s
       | Some rid \<Rightarrow>
           let (s, evs) = switch_layer pub p rid i s
           in if rid \<noteq> su_current_layer_rid s then Returns (s, evs)
           else bind_outcome (send_on_track now (SetTimestamp (timestamp p - su_timestamp_offset s) p) i s) (\<lambda>(s, evs').
             Returns (s, evs @ evs'))))"

definition ReceivePublishStreamRtpPacket :: "PublishStream option \<Rightarrow> int \<Rightarrow> RtpPacket \<Rightarrow> SubscribeStream
    \<Rightarrow> (SubscribeStream \<times> subscribe_event list) outcome" where
  "ReceivePublishStreamRtpPacket pub now p s =
     (if \<not> su_connection_established s then Returns (s, [])
      else if \<not> su_data_received s \<and> \<not> IsKeyFrame p then Returns (s, request_frame pub 0)
      else
        let s = s\<lparr>su_data_received := True\<rparr>; p = RtpCopy p
        in case su_ssrc_track_map s (ssrc p) of
             None \<Rightarrow> Returns (s, [])
           | Some i \<Rightarrow> forward_packet pub now p i s)"

subsection \<open>The choice of a layer\<close>

definition SubSetSimulcastLayer :: "PublishStream option \<Rightarrow> int \<Rightarrow> u32 \<Rightarrow> SubscribeStream \<Rightarrow> SubscribeStream \<times> PublishStream option \<times> subscribe_event list" where
  "SubSetSimulcastLayer pub now rid s =
     (if rid > SubKMaxSimulcastLayers \<or> rid = SubKInvalidLayerIndex then (s, pub, [])
      else if rid = su_current_layer_rid s then (s, pub, [])
      else let (selected, pub) = (case pub of None \<Rightarrow> (0, None) | Some w \<Rightarrow> apsnd Some (OnSubscribeStreamQueryRID rid now w))
        in if selected = 0 then (s, pub, [])
           else (s\<lparr>su_target_layer_rid := selected\<rparr>, pub, request_frame pub selected))"

subsection \<open>Feedback\<close>

fun resend_one :: "(nat \<Rightarrow> u8) \<Rightarrow> int \<Rightarrow> resend \<Rightarrow> SubscribeStream \<Rightarrow> SubscribeStream \<times> subscribe_event list" where
  "resend_one pool now (Resend p) s = OnSubscribeStreamTrackResendRtpPacket now p s"
| "resend_one pool now (SendRtx p pt x seq) s = OnSubscribeStreamTrackSendRtxPacket pool now p pt x seq s"

fun resend_all :: "(nat \<Rightarrow> u8) \<Rightarrow> int \<Rightarrow> resend list \<Rightarrow> SubscribeStream \<Rightarrow> SubscribeStream \<times> subscribe_event list" where
  "resend_all pool now [] s = (s, [])"
| "resend_all pool now (r # rs) s =
     (let (s, evs) = resend_one pool now r s; (s, evs') = resend_all pool now rs s in (s, evs @ evs'))"

text \<open>\<open>operator[]\<close> puts a null pointer where there is no track, and it is called.\<close>

definition receive_nack :: "(nat \<Rightarrow> u8) \<Rightarrow> int \<Rightarrow> NackPacket \<Rightarrow> SubscribeStream \<Rightarrow> (SubscribeStream \<times> subscribe_event list) outcome" where
  "receive_nack pool now nack s =
     (case su_ssrc_track_map s (media_ssrc nack) of
        None \<Rightarrow> OutOfBounds
      | Some i \<Rightarrow> (case ReceiveNack now nack (su_tracks s ! i) of
          None \<Rightarrow> OutOfBounds
        | Some (rs, t) \<Rightarrow> Returns (resend_all pool now rs (s\<lparr>su_tracks := (su_tracks s)[i := t]\<rparr>))))"

definition receive_block :: "int \<Rightarrow> ReportBlock \<Rightarrow> SubscribeStream \<Rightarrow> SubscribeStream" where
  "receive_block now b s =
     (case su_ssrc_track_map s (source_ssrc b) of
        None \<Rightarrow> s
      | Some i \<Rightarrow> s\<lparr>su_tracks := (su_tracks s)[i := ReceiveReceiverReport now b (su_tracks s ! i)]\<rparr>)"

fun sub_receive_rtcp :: "(nat \<Rightarrow> u8) \<Rightarrow> PublishStream option \<Rightarrow> int \<Rightarrow> ParsedRtcp \<Rightarrow> SubscribeStream
    \<Rightarrow> (SubscribeStream \<times> subscribe_event list) outcome" where
  "sub_receive_rtcp pool pub now (PktNack n) s = receive_nack pool now n s"
| "sub_receive_rtcp pool pub now (PktTwcc fb) s =
     (let (us, w) = ReceiveTransportFeedback now fb (su_send_side_twcc s) in Returns (s\<lparr>su_send_side_twcc := w\<rparr>, [Estimated us]))"
| "sub_receive_rtcp pool pub now (PktRr r) s = Returns (fold (receive_block now) (report_blocks r) s, [])"
| "sub_receive_rtcp pool pub now (PktOther p) s =
     Returns (s, if Type p = 206 \<and> Format p = 1 then request_frame pub (su_current_layer_rid s) else [])"
| "sub_receive_rtcp pool pub now _ s = Returns (s, [])"

fun sub_receive_all :: "(nat \<Rightarrow> u8) \<Rightarrow> PublishStream option \<Rightarrow> int \<Rightarrow> ParsedRtcp list \<Rightarrow> SubscribeStream
    \<Rightarrow> (SubscribeStream \<times> subscribe_event list) outcome" where
  "sub_receive_all pool pub now [] s = Returns (s, [])"
| "sub_receive_all pool pub now (k # ks) s =
     bind_outcome (sub_receive_rtcp pool pub now k s) (\<lambda>(s, evs).
     bind_outcome (sub_receive_all pool pub now ks s) (\<lambda>(s, evs'). Returns (s, evs @ evs')))"

definition SubOnRtcpPacketReceive :: "RtcpCommonHeader \<Rightarrow> (nat \<Rightarrow> u8) \<Rightarrow> PublishStream option \<Rightarrow> int \<Rightarrow> bytes \<Rightarrow> SubscribeStream
    \<Rightarrow> (SubscribeStream \<times> subscribe_event list) outcome" where
  "SubOnRtcpPacketReceive h pool pub now buffer s =
     (case RtcpCompoundParse h buffer of
        Returns ks \<Rightarrow> sub_receive_all pool pub now ks s
      | Fails \<Rightarrow> Returns (s, [])
      | OutOfBounds \<Rightarrow> OutOfBounds)"

subsection \<open>Timers and the end\<close>

definition sub_track_timer :: "RtcpCommonHeader \<Rightarrow> (int \<Rightarrow> int \<Rightarrow> int) \<Rightarrow> int \<Rightarrow> nat \<Rightarrow> SubscribeStream \<Rightarrow> SubscribeStream \<times> subscribe_event list" where
  "sub_track_timer h random now i s =
     (let (t, outs, _) = SubTrackTimerTimeout h random now (su_tracks s ! i)
      in (s\<lparr>su_tracks := (su_tracks s)[i := t]\<rparr>, if su_connection_established s then map SendSubscriberRtcp outs else []))"

text \<open>\<open>Stop\<close> as its task runs it; closing the transport is outside.\<close>

definition SubStop :: "SubscribeStream \<Rightarrow> SubscribeStream \<times> subscribe_event list" where
  "SubStop s = (if su_stoped s then (s, []) else (s\<lparr>su_stoped := True\<rparr>, [SubscriberShutdown]))"

section \<open>The invariant\<close>

definition sub_tracks_ok :: "SubscribeStream \<Rightarrow> bool" where
  "sub_tracks_ok s \<longleftrightarrow> (\<forall>t\<in>set (su_tracks s). sub_ok t) \<and> (\<forall>x i. su_ssrc_track_map s x = Some i \<longrightarrow> i < length (su_tracks s))"

definition subscribe_ok :: "SubscribeStream \<Rightarrow> bool" where
  "subscribe_ok s \<longleftrightarrow> sub_tracks_ok s \<and> history_ok (sent_history (su_send_side_twcc s))"

lemma subscribe_okD:
  assumes "subscribe_ok s"
  shows "su_ssrc_track_map s x = Some i \<Longrightarrow> i < length (su_tracks s)" "i < length (su_tracks s) \<Longrightarrow> sub_ok (su_tracks s ! i)"
  using assms by (auto simp: subscribe_ok_def sub_tracks_ok_def)

lemma subscribe_ok_update:
  "subscribe_ok s \<Longrightarrow> sub_ok t \<Longrightarrow> subscribe_ok (s\<lparr>su_tracks := (su_tracks s)[i := t]\<rparr>)"
  by (auto simp: subscribe_ok_def sub_tracks_ok_def dest!: subsetD [OF set_update_subset_insert])

text \<open>What an operation does not touch: sources, connection, and the numbers and histories of the tracks.\<close>

lemma stamp_frame:
  assumes "stamp now p s = (p', s')"
  shows "su_tracks s' = su_tracks s" "su_ssrc_track_map s' = su_ssrc_track_map s" "su_connection_established s' = su_connection_established s"
    "su_data_received s' = su_data_received s" "su_transport_seq s' = su_transport_seq s + 1"
    "p' = SetTransportSequenceNumber (ucast ((su_transport_seq s + 1) AND 0xFFFF)) p"
    "su_current_layer_rid s' = su_current_layer_rid s" "su_timestamp_offset s' = su_timestamp_offset s"
  using assms by (auto simp: stamp_def InjectSendSideTWCC_def Let_def)

lemma stamp_ok:
  assumes "subscribe_ok s" "stamp now p s = (p', s')"
  shows "subscribe_ok s'"
proof -
  have b: "uint (ucast ((su_transport_seq s + 1) AND 0xFFFF) :: u16) < 65536"
    using uint_bounded [of "ucast ((su_transport_seq s + 1) AND 0xFFFF) :: u16"] by simp
  show ?thesis using assms b
    by (auto simp: stamp_def InjectSendSideTWCC_def subscribe_ok_def sub_tracks_ok_def Let_def intro!: SendPacket_ok)
qed

lemma SetTransport_fields [simp]:
  "sequence_number (SetTransportSequenceNumber v p) = sequence_number p" "timestamp (SetTransportSequenceNumber v p) = timestamp p"
  "payload_offset (SetTransportSequenceNumber v p) = payload_offset p" "payload_size (SetTransportSequenceNumber v p) = payload_size p"
  "padding_size (SetTransportSequenceNumber v p) = padding_size p" "ssrc (SetTransportSequenceNumber v p) = ssrc p"
  by (auto simp: SetTransportSequenceNumber_def split: option.splits)

lemma SetTransport_size [simp]: "RtpSize (SetTransportSequenceNumber v p) = RtpSize p"
  by (simp add: RtpSize_def)

text \<open>A packet on a track is numbered, stamped, sent and kept.\<close>

lemma send_on_track_spec:
  assumes ok: "subscribe_ok s" and i: "i < length (su_tracks s)"
  shows "\<exists>s' evs. send_on_track now p i s = Returns (s', evs) \<and> subscribe_ok s'
     \<and> evs = send_rtp (rtp_datagram (SetTransportSequenceNumber (ucast ((su_transport_seq s + 1) AND 0xFFFF))
          (SetSequenceNumber (base_rtp_seq (su_tracks s ! i) + sequence_number p) p))) s
     \<and> su_transport_seq s' = su_transport_seq s + 1 \<and> su_connection_established s' = su_connection_established s
     \<and> su_current_layer_rid s' = su_current_layer_rid s \<and> su_timestamp_offset s' = su_timestamp_offset s"
proof -
  let ?t = "su_tracks s ! i" and ?q = "SetSequenceNumber (base_rtp_seq (su_tracks s ! i) + sequence_number p) p"
  obtain p1 s1 where st: "stamp now ?q s = (p1, s1)" by fastforce
  note f = stamp_frame [OF st]
  obtain t' where t: "SubTrackSendRtpPacket (\<lambda>p. fst (OnSubscribeStreamTrackSendRtpPacket now p s)) now p ?t = Some (fst (OnSubscribeStreamTrackSendRtpPacket now ?q s), t')"
    "sub_ok t'" using send_ok [OF subscribe_okD(2) [OF ok i], of "\<lambda>p. fst (OnSubscribeStreamTrackSendRtpPacket now p s)" now p] by blast
  have n: "fst (number_packet now p ?t) = ?q" by (simp add: number_packet_def Let_def)
  have o: "OnSubscribeStreamTrackSendRtpPacket now ?q s = (p1, s1, send_rtp (rtp_datagram p1) s)"
    using st f(3) by (simp add: OnSubscribeStreamTrackSendRtpPacket_def send_rtp_def)
  have "send_on_track now p i s = Returns (s1\<lparr>su_tracks := (su_tracks s1)[i := t']\<rparr>, send_rtp (rtp_datagram p1) s)"
    unfolding send_on_track_def Let_def n using o t(1) by simp
  then show ?thesis using subscribe_ok_update [OF stamp_ok [OF ok st] t(2), of i] f by simp
qed

text \<open>The copy has lost its extension capability, so there is nothing to translate.\<close>

lemma update_entries_nothing: "update_entries [] cap es d = Returns (es, d)"
  by (induction es) (simp_all add: update_entry_def GetIdType_def)

lemma Update_copy: "UpdateExtensionCapability cap (RtpCopy p) = Returns ((RtpCopy p)\<lparr>extension_capability := cap\<rparr>)"
  by (simp add: UpdateExtensionCapability_def RtpCopy_def update_entries_nothing)

text \<open>The packet a track of the subscriber sees.\<close>

definition for_track :: "RtpPacket \<Rightarrow> SubscribeStreamTrack \<Rightarrow> RtpPacket" where
  "for_track p t = (RtpCopy p)\<lparr>extension_capability := sc_extension_capability (sub_configuration t)\<rparr>"

lemma for_track_fields [simp]: "ssrc (for_track p t) = ssrc p" "timestamp (for_track p t) = timestamp p"
  "sequence_number (for_track p t) = sequence_number p" "IsKeyFrame (for_track p t) = IsKeyFrame p" "IsKeyFrame (RtpCopy p) = IsKeyFrame p"
  "ssrc (RtpCopy p) = ssrc p"
  by (simp_all add: for_track_def RtpCopy_def IsKeyFrame_def)

lemma switch_layer_ok:
  assumes "subscribe_ok s" "i < length (su_tracks s)" "switch_layer pub p rid i s = (s', evs)"
  shows "subscribe_ok s' \<and> i < length (su_tracks s')"
proof -
  have "sub_ok (SyncSequenceNumber n (su_tracks s ! i))" for n
    using subscribe_okD(2) [OF assms(1,2)] by (simp add: sub_ok_def SyncSequenceNumber_def)
  from subscribe_ok_update [OF assms(1) this, where i = i] show ?thesis using assms
    by (auto simp: switch_layer_def subscribe_ok_def sub_tracks_ok_def split: if_splits option.splits)
qed

lemma forward_ok:
  assumes ok: "subscribe_ok s" "i < length (su_tracks s)" and r: "stream_rid (for_track p (su_tracks s ! i)) = Returns r"
  shows "\<exists>s' evs. forward_packet pub now (RtpCopy p) i s = Returns (s', evs) \<and> subscribe_ok s'"
proof (cases r)
  case None
  then show ?thesis using send_on_track_spec [OF ok, of now "for_track p (su_tracks s ! i)"] r
    by (auto simp: forward_packet_def Update_copy for_track_def)
next
  case (Some rid)
  obtain s1 evs where sw: "switch_layer pub (for_track p (su_tracks s ! i)) rid i s = (s1, evs)" by fastforce
  note ok1 = switch_layer_ok [OF ok sw]
  let ?p = "for_track p (su_tracks s ! i)"
  obtain s2 evs2 where "send_on_track now (SetTimestamp (timestamp ?p - su_timestamp_offset s1) ?p) i s1 = Returns (s2, evs2)" "subscribe_ok s2"
    using send_on_track_spec [OF conjunct1 [OF ok1] conjunct2 [OF ok1]] by blast
  then show ?thesis using r Some sw ok1 unfolding forward_packet_def Update_copy for_track_def [symmetric] by simp
qed

lemma resend_all_ok: "subscribe_ok s \<Longrightarrow> subscribe_ok (fst (resend_all pool now rs s))"
proof (induction rs arbitrary: s)
  case (Cons r rs)
  have "subscribe_ok (fst (resend_one pool now r s))"
    using Cons.prems by (cases r) (auto simp: OnSubscribeStreamTrackResendRtpPacket_def OnSubscribeStreamTrackSendRtxPacket_def
        dest: stamp_ok split: prod.splits)
  then obtain s1 evs where "resend_one pool now r s = (s1, evs)" "subscribe_ok s1" by (cases "resend_one pool now r s") simp
  then show ?case using Cons.IH [of s1] by (auto split: prod.splits)
qed simp

lemma receive_blocks_ok: "subscribe_ok s \<Longrightarrow> subscribe_ok (fold (receive_block now) bs s)"
proof (induction bs arbitrary: s)
  case (Cons b bs)
  have "subscribe_ok (receive_block now b s)"
  proof (cases "su_ssrc_track_map s (source_ssrc b)")
    case (Some i)
    have "sub_ok (ReceiveReceiverReport now b (su_tracks s ! i))"
      using subscribe_okD [OF Cons.prems] Some by (auto simp: sub_ok_def ReceiveReceiverReport_def RecorderSetRtt_def CullOldPackets_ok Let_def)
    then show ?thesis using subscribe_ok_update [OF Cons.prems] Some by (simp add: receive_block_def)
  qed (use Cons.prems in \<open>simp add: receive_block_def\<close>)
  then show ?case using Cons.IH by simp
qed simp

lemma resend_all_map: "su_ssrc_track_map (fst (resend_all pool now rs s)) = su_ssrc_track_map s"
proof (induction rs arbitrary: s)
  case (Cons r rs)
  have "su_ssrc_track_map (fst (resend_one pool now r s)) = su_ssrc_track_map s"
    by (cases r) (auto simp: OnSubscribeStreamTrackResendRtpPacket_def OnSubscribeStreamTrackSendRtxPacket_def
        dest: stamp_frame split: prod.splits)
  then obtain s1 evs where "resend_one pool now r s = (s1, evs)" "su_ssrc_track_map s1 = su_ssrc_track_map s"
    by (cases "resend_one pool now r s") simp
  then show ?case using Cons.IH [of s1] by (auto split: prod.splits)
qed simp

lemma receive_blocks_map: "su_ssrc_track_map (fold (receive_block now) bs s) = su_ssrc_track_map s"
  by (induction bs arbitrary: s) (simp_all add: receive_block_def split: option.splits)

lemma sub_receive_ok:
  assumes ok: "subscribe_ok s" and known: "\<And>n. k = PktNack n \<Longrightarrow> su_ssrc_track_map s (media_ssrc n) \<noteq> None"
  shows "\<exists>s' evs. sub_receive_rtcp pool pub now k s = Returns (s', evs) \<and> subscribe_ok s' \<and> su_ssrc_track_map s' = su_ssrc_track_map s"
proof (cases k)
  case (PktNack n)
  then obtain i where i: "su_ssrc_track_map s (media_ssrc n) = Some i" using known by blast
  have t: "sub_ok (su_tracks s ! i)" using subscribe_okD [OF ok] i by blast
  have "\<exists>rs t'. ReceiveNack now n (su_tracks s ! i) = Some (rs, t') \<and> sub_ok t'"
    using answer_nacks_ok [OF t, of now "packet_lost_sequence_numbers n"] t by (auto simp: ReceiveNack_def)
  then obtain rs t' where a: "ReceiveNack now n (su_tracks s ! i) = Some (rs, t')" "sub_ok t'" by blast
  obtain s' evs where r: "resend_all pool now rs (s\<lparr>su_tracks := (su_tracks s)[i := t']\<rparr>) = (s', evs)" by fastforce
  show ?thesis
    using resend_all_ok [OF subscribe_ok_update [OF ok a(2), of i], of pool now rs] resend_all_map [of pool now rs "s\<lparr>su_tracks := (su_tracks s)[i := t']\<rparr>"]
      PktNack i a(1) r by (simp add: receive_nack_def)
next
  case (PktTwcc fb)
  obtain us w where "ReceiveTransportFeedback now fb (su_send_side_twcc s) = (us, w)" by fastforce
  then show ?thesis using PktTwcc ok ReceiveTransportFeedback_ok [of "su_send_side_twcc s"] by (auto simp: subscribe_ok_def sub_tracks_ok_def)
qed (use ok receive_blocks_ok receive_blocks_map in auto)

lemma sub_receive_all_ok:
  assumes "subscribe_ok s" "\<And>n. PktNack n \<in> set ks \<Longrightarrow> su_ssrc_track_map s (media_ssrc n) \<noteq> None"
  shows "\<exists>s' evs. sub_receive_all pool pub now ks s = Returns (s', evs) \<and> subscribe_ok s'"
  using assms
proof (induction ks arbitrary: s)
  case (Cons k ks)
  obtain s1 evs where s1: "sub_receive_rtcp pool pub now k s = Returns (s1, evs)" "subscribe_ok s1" "su_ssrc_track_map s1 = su_ssrc_track_map s"
    using sub_receive_ok [OF Cons.prems(1), of k pool pub now] Cons.prems(2) by auto
  have "\<And>n. PktNack n \<in> set ks \<Longrightarrow> su_ssrc_track_map s1 (media_ssrc n) \<noteq> None" using Cons.prems(2) s1(3) by simp
  from Cons.IH [OF s1(2) this] show ?case using s1(1) by auto
qed simp

lemma stream_rid_returns: "stream_rid p \<noteq> OutOfBounds \<Longrightarrow> \<exists>r. stream_rid p = Returns r"
  by (auto simp: stream_rid_def split: outcome.splits)

datatype subscribe_input = PacketIn RtpPacket | FeedbackIn bytes | SenderReportTick nat | LayerIn u32 | SubStopIn

fun subscribe_step :: "RtcpCommonHeader \<Rightarrow> (nat \<Rightarrow> u8) \<Rightarrow> PublishStream option \<Rightarrow> (int \<Rightarrow> int \<Rightarrow> int) \<Rightarrow> int \<Rightarrow> subscribe_input
    \<Rightarrow> SubscribeStream \<Rightarrow> (SubscribeStream \<times> subscribe_event list) outcome" where
  "subscribe_step h pool pub random now (PacketIn p) s = ReceivePublishStreamRtpPacket pub now p s"
| "subscribe_step h pool pub random now (FeedbackIn b) s = SubOnRtcpPacketReceive h pool pub now b s"
| "subscribe_step h pool pub random now (SenderReportTick i) s = Returns (sub_track_timer h random now i s)"
| "subscribe_step h pool pub random now (LayerIn rid) s = (let (s, _, evs) = SubSetSimulcastLayer pub now rid s in Returns (s, evs))"
| "subscribe_step h pool pub random now SubStopIn s = Returns (SubStop s)"

text \<open>Inputs the stream survives: stream ids that end inside the packet, complete feedbacks, and requests for known sources only.\<close>

fun survivable :: "RtcpCommonHeader \<Rightarrow> SubscribeStream \<Rightarrow> subscribe_input \<Rightarrow> bool" where
  "survivable h s (PacketIn p) \<longleftrightarrow> (\<forall>i. su_ssrc_track_map s (ssrc p) = Some i \<longrightarrow> stream_rid (for_track p (su_tracks s ! i)) \<noteq> OutOfBounds)"
| "survivable h s (FeedbackIn b) \<longleftrightarrow> RtcpCompoundParse h b \<noteq> OutOfBounds
     \<and> (\<forall>ks n. RtcpCompoundParse h b = Returns ks \<longrightarrow> PktNack n \<in> set ks \<longrightarrow> su_ssrc_track_map s (media_ssrc n) \<noteq> None)"
| "survivable h s (SenderReportTick i) \<longleftrightarrow> i < length (su_tracks s)"
| "survivable h s _ \<longleftrightarrow> True"

section \<open>Properties\<close>

text \<open>C9. A subscribed stream is type safe. In a well-formed state every packet of the publisher, every report of the subscriber,
  every timer and every change of layer is handled without undefined behaviour and leaves a well-formed state, as long as
  stream ids end inside their packet, feedbacks are complete, and a NACK names a source the stream has.\<close>

theorem subscribe_stream_progress:
  assumes "subscribe_ok s" "survivable h s i"
  shows "\<exists>s' evs. subscribe_step h pool pub random now i s = Returns (s', evs) \<and> subscribe_ok s'"
proof (cases i)
  case (PacketIn p)
  let ?s = "s\<lparr>su_data_received := True\<rparr>"
  have ok: "subscribe_ok ?s" using assms(1) by (simp add: subscribe_ok_def sub_tracks_ok_def)
  show ?thesis
  proof (cases "su_ssrc_track_map s (ssrc p)")
    case (Some j)
    then obtain r where "stream_rid (for_track p (su_tracks s ! j)) = Returns r" using assms(2) PacketIn stream_rid_returns by fastforce
    with forward_ok [OF ok, of j p r pub now] subscribe_okD(1) [OF assms(1) Some] show ?thesis
      using PacketIn Some assms(1) by (auto simp: ReceivePublishStreamRtpPacket_def Let_def)
  qed (use assms(1) ok PacketIn in \<open>auto simp: ReceivePublishStreamRtpPacket_def Let_def\<close>)
next
  case (FeedbackIn b)
  then show ?thesis using assms sub_receive_all_ok [OF assms(1)]
    by (cases "RtcpCompoundParse h b") (auto simp: SubOnRtcpPacketReceive_def)
next
  case (SenderReportTick j)
  obtain t outs n where t: "SubTrackTimerTimeout h random now (su_tracks s ! j) = (t, outs, n)" by (cases "SubTrackTimerTimeout h random now (su_tracks s ! j)") auto
  have "sub_ok t" using subscribe_okD(2) [OF assms(1)] assms(2) SenderReportTick t
    by (auto simp: SubTrackTimerTimeout_def sub_ok_def Let_def split: if_splits prod.splits)
  then show ?thesis using subscribe_ok_update [OF assms(1)] t SenderReportTick by (simp add: sub_track_timer_def)
qed (use assms in \<open>auto simp: SubSetSimulcastLayer_def SubStop_def subscribe_ok_def sub_tracks_ok_def Let_def split: option.splits prod.splits\<close>)

text \<open>Two tracks, video and audio, of a connected subscriber.\<close>

definition video_config :: SubscribeConfiguration where
  "video_config = (default_sub_configuration (7, 96))\<lparr>sc_clock_rate := 90000, sc_nack_enabled := True\<rparr>"

definition connected :: SubscribeStream where
  "connected = new_subscribe_stream\<lparr>su_connection_established := True, su_tracks := [new_subscribe_track video_config],
     su_ssrc_track_map := [7 \<mapsto> 0]\<rparr>"

lemma connected_ok: "subscribe_ok connected"
  by (simp add: subscribe_ok_def sub_tracks_ok_def connected_def new_subscribe_stream_def sub_ok_def new_subscribe_track_def new_recorder_def queue_ok_def
      history_ok_def new_send_twcc_def)

theorem subscribe_stream_progress_witness:
  "\<exists>s' evs. subscribe_step zero_header (\<lambda>_. 0) None (\<lambda>a b. a) 50 (PacketIn (some_rtp 4)) connected = Returns (s', evs) \<and> subscribe_ok s'"
  by (rule subscribe_stream_progress [OF connected_ok])
    (simp add: connected_def some_rtp_def blank_rtp_def stream_rid_def GetStreamId_def FindExtension_def GetTypeId_def for_track_def RtpCopy_def
      video_config_def default_sub_configuration_def new_subscribe_track_def)

subsection \<open>Waiting for a key frame\<close>

fun forward_all :: "PublishStream option \<Rightarrow> (int \<times> RtpPacket) list \<Rightarrow> SubscribeStream \<Rightarrow> (SubscribeStream \<times> subscribe_event list) outcome" where
  "forward_all pub [] s = Returns (s, [])"
| "forward_all pub ((now, p) # ps) s =
     bind_outcome (ReceivePublishStreamRtpPacket pub now p s) (\<lambda>(s, evs).
     bind_outcome (forward_all pub ps s) (\<lambda>(s, evs'). Returns (s, evs @ evs')))"

text \<open>What an audio track of a published stream hands to the subscribers.\<close>

definition from_audio_track :: "RtpPacket \<Rightarrow> bool" where
  "from_audio_track p \<longleftrightarrow> (\<exists>h now blank b q cap t t' outs. RtpCreate blank b = Some q \<and> \<not> keyframe (payload_info blank)
     \<and> pc_audio (configuration t) \<and> PubTrackReceiveRtpPacket h now (SetExtensionCapability cap q) t = Some (True, p, t', outs))"

lemma repair_case: "(case r of Returns p \<Rightarrow> f p | Fails \<Rightarrow> Some (False, x) | OutOfBounds \<Rightarrow> None) = Some (True, y) \<longleftrightarrow> (\<exists>p. r = Returns p \<and> f p = Some (True, y))"
  by (cases r) auto

lemma SetExtensionCapability_payload: "payload_info (SetExtensionCapability cap q) = payload_info q"
  by (simp add: SetExtensionCapability_def)

lemma from_audio_track_no_key_frame: "from_audio_track p \<Longrightarrow> \<not> IsKeyFrame p"
proof -
  have deliver: "payload_info p' = payload_info q" if "track_deliver h now r q t = Some (b, p', t', outs)" "pc_audio (configuration t)"
    for h now r q t b p' t' outs
    using that by (auto simp: track_deliver_def SetSsrc_def Let_def bind_eq_Some_conv split: option.splits if_splits prod.splits)
  have repair: "payload_info p' = payload_info q" if "RtxRepair n pt x q = Returns p'" for n pt x q p'
    using that by (auto simp: RtxRepair_def SetSsrc_def SetSequenceNumber_def SetPayloadType_def Let_def split: if_splits)
  assume "from_audio_track p"
  then obtain h now blank b q cap t t' outs where q: "RtpCreate blank b = Some q" "\<not> keyframe (payload_info blank)" "pc_audio (configuration t)"
    "PubTrackReceiveRtpPacket h now (SetExtensionCapability cap q) t = Some (True, p, t', outs)" unfolding from_audio_track_def by blast
  have "payload_info q = payload_info blank" using q(1) by (auto simp: RtpCreate_def RtpParse_layout with_layout_def with_fixed_def split: prod.splits)
  moreover have "payload_info p = payload_info q"
  proof (cases "pc_rtx_enabled (configuration t) \<and> pc_rtx_ssrc (configuration t) = Some (ssrc (SetExtensionCapability cap q))")
    case True
    then obtain t1 n q1 where "RtxRepair n (pc_payload_type (configuration t)) (pc_ssrc (configuration t)) (SetExtensionCapability cap q) = Returns q1"
      "track_deliver h now True q1 t1 = Some (True, p, t', outs)" "configuration t1 = configuration t"
      using q(4) unfolding PubTrackReceiveRtpPacket_def
      by (auto simp: Let_def bind_eq_Some_conv repair_case split: option.splits)
    then show ?thesis using deliver repair q(3) by (metis SetExtensionCapability_payload)
  next
    case False
    then obtain t1 where "track_deliver h now False (SetExtensionCapability cap q) t1 = Some (True, p, t', outs)" "configuration t1 = configuration t"
      using q(4) unfolding PubTrackReceiveRtpPacket_def by (auto simp: Let_def bind_eq_Some_conv)
    then show ?thesis using deliver q(3) by (metis SetExtensionCapability_payload)
  qed
  ultimately show ?thesis using q(2) by (simp add: IsKeyFrame_def)
qed

text \<open>C34. A subscription to audio alone never starts. The stream forwards nothing before a key frame, and an audio track never
  delivers one: whatever packets an audio track passes on, the subscriber is sent none of them, its state does not
  change, and every packet asks the publisher for another key frame.\<close>

theorem audio_subscription_never_starts:
  assumes "\<not> su_data_received s" "\<forall>(now, p)\<in>set ps. from_audio_track p"
  shows "forward_all pub ps s = Returns (s, if su_connection_established s \<and> pub \<noteq> None then replicate (length ps) (RequestFrame 0) else [])"
  using assms(2)
proof (induction ps)
  case (Cons x ps)
  obtain now p where x: "x = (now, p)" by fastforce
  have "\<not> IsKeyFrame p" using Cons.prems x from_audio_track_no_key_frame by simp
  then have "ReceivePublishStreamRtpPacket pub now p s = Returns (s, if su_connection_established s \<and> pub \<noteq> None then [RequestFrame 0] else [])"
    using assms(1) by (simp add: ReceivePublishStreamRtpPacket_def request_frame_def)
  then show ?case using Cons x by (cases pub) simp_all
qed simp

lemma audio_packet_exists: "\<exists>p. from_audio_track p"
proof -
  obtain q where q: "RtpCreate blank_rtp example_rtp = Some q" using example_create by blast
  define t where "t = new_publish_track \<lparr>pc_ssrc = 7, pc_payload_type = 96, pc_rtx_ssrc = None, pc_rtx_payload_type = 0, pc_rtx_enabled = False,
     pc_nack_enabled = False, pc_codec = ''opus'', pc_rid = 0, pc_audio = True, pc_rtcpfb_pli = False, pc_rtcpfb_fir = False,
     pc_clock_rate = 48000, pc_extension_capability = []\<rparr>"
  have t: "\<not> pc_rtx_enabled (configuration t)" "\<not> pc_nack_enabled (configuration t)" "pc_audio (configuration t)" "stats_ok (track_statistics t)"
    by (simp_all add: t_def new_publish_track_def new_statistics_def stats_ok_def EnableRetransmitDetection_def Let_def)
  obtain st where "ReceivePacket (SetExtensionCapability [] q) 5 (track_statistics t) = Some st" using ReceivePacket_total [OF t(4)] by blast
  then have "\<exists>p t'. PubTrackReceiveRtpPacket zero_header 5 (SetExtensionCapability [] q) t = Some (True, p, t', [])"
    using t by (auto simp: PubTrackReceiveRtpPacket_def track_deliver_def Let_def)
  moreover have "\<not> keyframe (payload_info blank_rtp)" by (simp add: blank_rtp_def new_payload_info_def)
  ultimately show ?thesis using q t(3) unfolding from_audio_track_def by blast
qed

theorem audio_subscription_never_starts_witness:
  "\<exists>p. from_audio_track p \<and> forward_all (Some new_publish_stream) [(5, p), (25, p)] connected = Returns (connected, [RequestFrame 0, RequestFrame 0])"
proof -
  obtain p where p: "from_audio_track p" using audio_packet_exists by blast
  have "\<not> su_data_received connected" by (simp add: connected_def new_subscribe_stream_def)
  from audio_subscription_never_starts [OF this, of "[(5, p), (25, p)]" "Some new_publish_stream"] p show ?thesis
    by (auto simp: connected_def numeral_2_eq_2)
qed

subsection \<open>Switching layers\<close>

lemma rtp_datagram_head:
  assumes "coherent p" "length (data p) < 2 ^ 16"
  shows "length (rtp_datagram (SetTransportSequenceNumber v p)) = length (data p)"
    and "i < 12 \<Longrightarrow> rtp_datagram (SetTransportSequenceNumber v p) ! i = data p ! i"
proof -
  obtain pad xs es off where l: "layout (data p) = Some (pad, xs, es, off)" "extension_entries p = es" "payload_offset p = off"
    by (rule coherent_layout [OF assms(1)]) simp
  have sz: "RtpSize p = length (data p)" "12 \<le> length (data p)" using coherent_size [OF assms(1)] by simp_all
  have room: "\<forall>e\<in>set es. 16 \<le> unat (ext_offset e) \<and> unat (ext_offset e) + unat (ext_length e) \<le> length (data p)"
    using layout_bounds [OF l(1)] assms(2) by (fastforce simp: entry_ok_def)
  define q where "q = SetTransportSequenceNumber v p"
  have "RtpSize q = RtpSize p" by (simp add: q_def)
  have "data q = data p \<or> (\<exists>o1 b. data q = overwrite (data p) o1 b \<and> 16 \<le> o1 \<and> o1 + length b \<le> length (data p))"
  proof (cases "FindExtension kRtpExtensionTransportSequenceNumber p")
    case (Some e)
    then have "e \<in> set es" using l(2) by (auto simp: FindExtension_def bind_eq_Some_conv find_Some_iff)
    then have "16 \<le> unat (ext_offset e)" "unat (ext_offset e) + unat (ext_length e) \<le> length (data p)" using room by blast+
    moreover have "data q = (if unat (ext_length e) = 2 then overwrite (data p) (unat (ext_offset e)) (StoreUInt16BE v) else data p)"
      using Some by (simp add: q_def SetTransportSequenceNumber_def TransportSequenceNumberSerialize_def)
    moreover have "length (StoreUInt16BE v) = 2" by simp
    ultimately show ?thesis by metis
  qed (simp add: q_def SetTransportSequenceNumber_def)
  then show "length (rtp_datagram (SetTransportSequenceNumber v p)) = length (data p)"
    "i < 12 \<Longrightarrow> rtp_datagram (SetTransportSequenceNumber v p) ! i = data p ! i"
    unfolding q_def [symmetric] rtp_datagram_def \<open>RtpSize q = RtpSize p\<close> sz(1) using sz(2) by (auto simp: nth_overwrite)
qed

text \<open>The number and the time a peer reads in the datagram.\<close>

lemma rtp_datagram_fields:
  assumes "coherent p" "length (data p) < 2 ^ 16"
  shows "LoadUInt16BE (drop 2 (rtp_datagram (SetTransportSequenceNumber v p))) = sequence_number p"
    and "LoadUInt32BE (drop 4 (rtp_datagram (SetTransportSequenceNumber v p))) = timestamp p"
proof -
  note f = coherent_fixedD [OF assms(1)] and h = rtp_datagram_head [OF assms, where v = v]
  show "LoadUInt16BE (drop 2 (rtp_datagram (SetTransportSequenceNumber v p))) = sequence_number p"
    "LoadUInt32BE (drop 4 (rtp_datagram (SetTransportSequenceNumber v p))) = timestamp p"
    using f h by (simp_all add: Load16_nth Load32_nth)
qed

lemma for_track_coherent: "coherent p \<Longrightarrow> coherent (for_track p t) \<and> data (for_track p t) = data p"
proof -
  assume c: "coherent p"
  have "for_track p t = p\<lparr>extension_capability := sc_extension_capability (sub_configuration t)\<rparr>"
    using coherent_size [OF c] by (simp add: for_track_def RtpCopy_def)
  moreover have "RtpParse (p\<lparr>extension_capability := cap\<rparr>) b = map_option (\<lambda>q. q\<lparr>extension_capability := cap\<rparr>) (RtpParse p b)" for cap b
    by (cases "layout b") (auto simp: RtpParse_layout with_layout_def with_fixed_def)
  ultimately show ?thesis using c by (simp add: coherent_def)
qed

lemma layer_offset_timelines:
  assumes "uint rate = 1000 * k" "rtp_timestamp ref = a + of_int (k * sr_millis ref)" "rtp_timestamp target = b + of_int (k * sr_millis target)"
  shows "layer_offset rate ref target = b - a"
proof -
  have "cdiv ((sr_millis target - sr_millis ref) * uint rate) 1000 = (sr_millis target - sr_millis ref) * k"
  proof -
    have exact: "cdiv (1000 * x) 1000 = x" for x by (cases "0 \<le> x") (simp_all add: cdiv_nonneg cdiv_neg)
    have "(sr_millis target - sr_millis ref) * uint rate = 1000 * ((sr_millis target - sr_millis ref) * k)" using assms(1) by simp
    then show ?thesis by (simp only: exact)
  qed
  then have "layer_offset rate ref target = rtp_timestamp target - of_int ((sr_millis target - sr_millis ref) * k) - rtp_timestamp ref"
    unfolding layer_offset_def Let_def by (simp add: if_distrib)
  then show ?thesis using assms(2,3) by (simp add: algebra_simps)
qed

text \<open>C17. A switch between layers goes unnoticed. When the sender reports put the timestamps of both layers on the publisher's clock,
  the key frame that completes the switch reaches the subscriber with the next sequence number and with the timestamp the
  reference layer has at the time the frame was taken, and later frames of the layer keep to that clock.\<close>

theorem layer_switch_continues_timeline:
  assumes ok: "subscribe_ok s" "su_connection_established s" "su_data_received s" "su_current_layer_rid s \<noteq> su_target_layer_rid s"
    and track: "su_ssrc_track_map s (ssrc p) = Some i" "uint (sc_clock_rate (sub_configuration (su_tracks s ! i))) = 1000 * k"
    and p: "coherent p" "length (data p) < 2 ^ 16" "IsKeyFrame p"
      "stream_rid (for_track p (su_tracks s ! i)) = Returns (Some (su_target_layer_rid s))"
    and reports: "last_sr_of pub (su_reference_layer_rid s) = Some ref" "last_sr_of pub (su_target_layer_rid s) = Some target"
      "rtp_timestamp ref = a + of_int (k * sr_millis ref)" "rtp_timestamp target = b + of_int (k * sr_millis target)"
    and taken: "timestamp p = b + of_int (k * t)"
  shows "\<exists>s' d. ReceivePublishStreamRtpPacket pub now p s = Returns (s', [SendRtp d]) \<and> subscribe_ok s'
     \<and> LoadUInt16BE (drop 2 d) = max_rtp_seq (su_tracks s ! i) + 1 \<and> LoadUInt32BE (drop 4 d) = a + of_int (k * t)
     \<and> su_current_layer_rid s' = su_target_layer_rid s \<and> su_timestamp_offset s' = b - a"
proof -
  let ?t = "su_tracks s ! i" and ?s = "s\<lparr>su_data_received := True\<rparr>"
  let ?p = "for_track p ?t"
  define s1 where "s1 = s\<lparr>su_timestamp_offset := b - a, su_current_layer_rid := su_target_layer_rid s,
      su_tracks := (su_tracks s)[i := SyncSequenceNumber (sequence_number p) ?t]\<rparr>"
  have i: "i < length (su_tracks s)" using subscribe_okD(1) [OF ok(1) track(1)] .
  have sw: "switch_layer pub ?p (su_target_layer_rid s) i s = (s1, [])"
    using ok(4) p(3) reports layer_offset_timelines [OF track(2) reports(3,4)] by (simp add: switch_layer_def s1_def)
  have ok1: "subscribe_ok s1" "i < length (su_tracks s1)" using switch_layer_ok [OF ok(1) i sw] by auto
  define q where "q = SetSequenceNumber (base_rtp_seq (su_tracks s1 ! i) + sequence_number p) (SetTimestamp (timestamp p - (b - a)) ?p)"
  have q: "coherent q" "length (data q) < 2 ^ 16" "timestamp q = a + of_int (k * t)" "sequence_number q = max_rtp_seq ?t + 1"
    using for_track_coherent [OF p(1), of ?t] p(2) taken i coherent_size [OF p(1)]
    by (auto simp: q_def SetSequenceNumber_coherent SetTimestamp_coherent s1_def SyncSequenceNumber_def)
      (simp_all add: SetSequenceNumber_def SetTimestamp_def)
  obtain s2 evs where s2: "send_on_track now (SetTimestamp (timestamp p - (b - a)) ?p) i s1 = Returns (s2, evs)" "subscribe_ok s2"
    "evs = send_rtp (rtp_datagram (SetTransportSequenceNumber (ucast ((su_transport_seq s1 + 1) AND 0xFFFF)) q)) s1"
    "su_current_layer_rid s2 = su_current_layer_rid s1" "su_timestamp_offset s2 = su_timestamp_offset s1"
    using send_on_track_spec [OF ok1, of now "SetTimestamp (timestamp p - (b - a)) ?p"] by (auto simp: q_def SetTimestamp_def)
  have "forward_packet pub now (RtpCopy p) i s = Returns (s2, evs)"
    unfolding forward_packet_def Update_copy for_track_def [symmetric] using p(4) sw s2(1) by (simp add: s1_def)
  moreover have "s\<lparr>su_data_received := True\<rparr> = s" using ok(3) by simp
  ultimately have "ReceivePublishStreamRtpPacket pub now p s = Returns (s2, evs)"
    unfolding ReceivePublishStreamRtpPacket_def Let_def using ok(2,3) track(1) by (simp only:) simp
  then show ?thesis using s2(2-5) ok(2) rtp_datagram_fields [OF q(1,2)] q(3,4) by (simp add: send_rtp_def s1_def)
qed

subsection \<open>Retransmissions\<close>

text \<open>What stands in the memory of a retransmission: the padding is what was there before.\<close>

lemma rtx_datagram_bytes:
  assumes "RtpSize p = length (data p)" "payload_offset p + payload_size p \<le> length (data p)"
  shows "rtx_datagram pool p pt x seq = SetRtpSequenceNumber seq (SetRtpPayloadType pt (SetRtpSsrc x
     (take (payload_offset p) (data p) @ StoreUInt16BE (sequence_number p) @ take (payload_size p) (drop (payload_offset p) (data p))
       @ map pool [payload_offset p + 2 + payload_size p..<length (data p) + 2])))"
proof -
  let ?o = "payload_offset p" and ?n = "length (data p)" and ?pl = "take (payload_size p) (drop (payload_offset p) (data p))"
  define m where "m = map pool [0..<?n + 2]"
  have l: "length m = ?n + 2" "?o \<le> ?n" "length ?pl = payload_size p" "length (take ?o (data p)) = ?o" using assms(2) by (auto simp: m_def)
  have 1: "overwrite m 0 (take ?o (data p)) = take ?o (data p) @ drop ?o m" using l by (simp add: overwrite_def)
  have 2: "overwrite (take ?o (data p) @ drop ?o m) (?o + 2) ?pl = take ?o (data p) @ take 2 (drop ?o m) @ ?pl @ drop (?o + 2 + payload_size p) m"
    using l unfolding overwrite_def by (simp add: min_def add.commute add.left_commute)
  have 3: "overwrite (take ?o (data p) @ take 2 (drop ?o m) @ ?pl @ drop (?o + 2 + payload_size p) m) ?o (StoreUInt16BE (sequence_number p))
      = take ?o (data p) @ StoreUInt16BE (sequence_number p) @ ?pl @ drop (?o + 2 + payload_size p) m"
    using l unfolding overwrite_def by simp
  have 4: "drop (?o + 2 + payload_size p) m = map pool [?o + 2 + payload_size p..<?n + 2]" by (simp add: m_def drop_map del: upt_Suc)
  show ?thesis
    unfolding rtx_datagram_def Let_def assms(1) rtp_consts m_def [symmetric] 1 2 3 unfolding 4 ..
qed

lemma rtx_setters_commute:
  "12 \<le> length b \<Longrightarrow> SetRtpSequenceNumber seq (SetRtpPayloadType pt (SetRtpSsrc x b)) = SetRtpSsrc x (SetRtpPayloadType pt (SetRtpSequenceNumber seq b))"
  by (rule nth_equalityI) (auto simp: SetRtpSsrc_def SetRtpPayloadType_def SetRtpSequenceNumber_def rtp_consts nth_overwrite nth_list_update)

lemma rtx_datagram_encapsulates:
  assumes "coherent p" "padding_size p = 0"
  shows "rtx_datagram pool p pt x seq = rtx_encapsulate seq pt x p"
proof -
  have c: "RtpSize p = length (data p)" "12 \<le> payload_offset p" "payload_offset p + payload_size p = length (data p)"
    using coherent_size [OF assms(1)] assms(2) by (simp_all add: RtpSize_def)
  then have "[payload_offset p + 2 + payload_size p..<length (data p) + 2] = []" "payload_offset p + payload_size p \<le> length (data p)" by simp_all
  then show ?thesis using c rtx_setters_commute
    by (simp add: rtx_datagram_bytes rtx_encapsulate_def del: upt_rec_numeral)
qed

lemma rtx_datagram_target:
  assumes "coherent p" "t < 128" "RtpCreate blank (rtx_encapsulate n t x p) = Some r"
  shows "ssrc r = x \<and> payload_type r = t"
proof -
  have o: "12 \<le> payload_offset p" "payload_offset p \<le> length (data p)" using coherent_size [OF assms(1)] by simp_all
  have c: "coherent r" "data r = rtx_encapsulate n t x p" using RtpCreate_coherent [OF assms(3)] by auto
  have "LoadUInt32BE (drop 8 (rtx_encapsulate n t x p)) = x"
    using o by (simp add: rtx_encapsulate_def SetRtpSsrc_def SetRtpPayloadType_def SetRtpSequenceNumber_def rtp_consts drop_overwrite_at)
  moreover have "(rtx_encapsulate n t x p ! 1) AND 0x7f = t" using rtx_nth(4) [OF o] high_bit_or [OF refl assms(2)] by simp
  ultimately show ?thesis using coherent_fixedD(2,5) [OF c(1)] c(2) by simp
qed

lemma copy_not_stamped: "SetTransportSequenceNumber v (RtpCopy p) = RtpCopy p"
  by (simp add: SetTransportSequenceNumber_def FindExtension_def GetTypeId_def RtpCopy_def)

lemma copy_coherent: "coherent p \<Longrightarrow> coherent (RtpCopy p) \<and> data (RtpCopy p) = data p"
proof -
  assume c: "coherent p"
  have "RtpCopy p = p\<lparr>extension_capability := []\<rparr>" using coherent_size [OF c] by (simp add: RtpCopy_def)
  moreover have "RtpParse (p\<lparr>extension_capability := cap\<rparr>) b = map_option (\<lambda>q. q\<lparr>extension_capability := cap\<rparr>) (RtpParse p b)" for cap b
    by (cases "layout b") (auto simp: RtpParse_layout with_layout_def with_fixed_def)
  ultimately show ?thesis using c by (simp add: coherent_def)
qed

lemma send_then_query:
  assumes "sub_ok t" "sc_nack_enabled (sub_configuration t)" "SubTrackSendRtpPacket send now p t = Some (q, t')"
  shows "sub_ok t' \<and> sub_configuration t' = sub_configuration t \<and> rtx_sequence_number t' = rtx_sequence_number t
     \<and> (\<exists>r. Query (sequence_number q) later (send_packet_recorder t') = Some (Some (RtpCopy q), r) \<and> queue_ok (packet_queue r))"
proof -
  let ?r = "send_packet_recorder t"
  have ok: "queue_ok (packet_queue ?r)" using assms(1) by (simp add: sub_ok_def)
  obtain p1 t1 where n: "number_packet now p t = (p1, t1)" by fastforce
  have t1: "send_packet_recorder t1 = ?r" "sub_configuration t1 = sub_configuration t" "rtx_sequence_number t1 = rtx_sequence_number t"
    using n by (auto simp: number_packet_def Let_def)
  obtain r where r: "Record q now ?r = Some r" "t' = t1\<lparr>send_packet_recorder := r\<rparr>"
    using assms(2,3) n t1 by (auto simp: SubTrackSendRtpPacket_def Let_def)
  have rok: "queue_ok (packet_queue r)" using recorder_total [OF ok, of q now] r(1) by auto
  obtain r2 where "Query (sequence_number q) later r = Some (Some (RtpCopy q), r2)" using Record_then_Query [OF ok r(1)] by blast
  moreover have "queue_ok (packet_queue r2)"
    using recorder_total [OF rok, where seq = "sequence_number q" and now = later] calculation by auto
  ultimately show ?thesis using r(2) rok t1 by (simp add: sub_ok_def)
qed

text \<open>The subscriber's NACK for one number, as the bytes of a datagram.\<close>

lemma nack_datagram_parsed:
  assumes "pkt_ok (PktNack n)"
  shows "\<exists>n'. RtcpCompoundParse h (enc_nack n) = Returns [PktNack n'] \<and> media_ssrc n' = media_ssrc n
     \<and> set (packet_lost_sequence_numbers n') = set (packet_lost_sequence_numbers n)"
proof -
  have "reader_ok (ByteReader (enc_nack n))" "CurrentData (ByteReader (enc_nack n)) = concat (map enc_pkt [PktNack n])"
    by (simp_all add: ByteReader_def reader_ok_def CurrentData_def)
  from RtcpCompoundLoop_enc [OF this, of h "[]"] obtain ks where
    ks: "RtcpCompoundParse h (enc_nack n) = Returns ks" "list_all2 same_pkt [PktNack n] ks"
    using assms by (auto simp: RtcpCompoundParse_def)
  then obtain k where "ks = [k]" "same_pkt (PktNack n) k" by (auto simp: list_all2_Cons1)
  then show ?thesis using ks(1) by (cases k) auto
qed

text \<open>A request for a source the stream does not send ends the server: the lookup creates a null pointer and calls it. Any
  subscriber can send it.\<close>

theorem nack_for_unknown_source_is_fatal:
  assumes "pkt_ok (PktNack n)" "su_ssrc_track_map s (media_ssrc n) = None"
  shows "SubOnRtcpPacketReceive h pool pub now (enc_nack n) s = OutOfBounds"
proof -
  obtain n' where "RtcpCompoundParse h (enc_nack n) = Returns [PktNack n']" "media_ssrc n' = media_ssrc n"
    using nack_datagram_parsed [OF assms(1)] by blast
  then show ?thesis using assms(2) by (simp add: SubOnRtcpPacketReceive_def receive_nack_def)
qed

definition nack_of :: "u32 \<Rightarrow> u16 \<Rightarrow> NackPacket" where
  "nack_of x n = \<lparr>header = zero_header, sender_ssrc = 1, media_ssrc = x, packet_lost_sequence_numbers = [n]\<rparr>"

theorem nack_for_unknown_source_is_fatal_witness:
  "SubOnRtcpPacketReceive zero_header (\<lambda>_. 0) None 10 (enc_nack (nack_of 8 3)) connected = OutOfBounds"
  by (rule nack_for_unknown_source_is_fatal) (simp_all add: nack_of_def connected_def)

lemma send_on_track_kept:
  assumes ok: "subscribe_ok s" and i: "i < length (su_tracks s)" and nack: "sc_nack_enabled (sub_configuration (su_tracks s ! i))"
    and stamped: "q = SetTransportSequenceNumber (ucast ((su_transport_seq s + 1) AND 0xFFFF))
          (SetSequenceNumber (base_rtp_seq (su_tracks s ! i) + sequence_number p) p)"
  shows "\<exists>s'. send_on_track now p i s = Returns (s', send_rtp (rtp_datagram q) s) \<and> subscribe_ok s' \<and> su_ssrc_track_map s' = su_ssrc_track_map s
     \<and> su_connection_established s' = su_connection_established s \<and> length (su_tracks s') = length (su_tracks s)
     \<and> sub_configuration (su_tracks s' ! i) = sub_configuration (su_tracks s ! i)
     \<and> (\<exists>r. Query (sequence_number q) later (send_packet_recorder (su_tracks s' ! i)) = Some (Some (RtpCopy q), r) \<and> queue_ok (packet_queue r))"
proof -
  let ?t = "su_tracks s ! i" and ?q = "SetSequenceNumber (base_rtp_seq (su_tracks s ! i) + sequence_number p) p"
  let ?send = "\<lambda>p. fst (OnSubscribeStreamTrackSendRtpPacket now p s)"
  obtain p1 s1 where st: "stamp now ?q s = (p1, s1)" by fastforce
  note f = stamp_frame [OF st]
  have p1: "p1 = q" using f(6) stamped by simp
  have t: "sub_ok ?t" using subscribe_okD(2) [OF ok i] .
  obtain t' where t': "SubTrackSendRtpPacket ?send now p ?t = Some (?send ?q, t')" "sub_ok t'" using send_ok [OF t, of ?send now p] by blast
  have o: "OnSubscribeStreamTrackSendRtpPacket now ?q s = (q, s1, send_rtp (rtp_datagram q) s)"
    using st f(3) p1 by (simp add: OnSubscribeStreamTrackSendRtpPacket_def send_rtp_def)
  have n: "fst (number_packet now p ?t) = ?q" by (simp add: number_packet_def Let_def)
  have "send_on_track now p i s = Returns (s1\<lparr>su_tracks := (su_tracks s1)[i := t']\<rparr>, send_rtp (rtp_datagram q) s)"
    unfolding send_on_track_def Let_def n using o t'(1) by simp
  moreover have "SubTrackSendRtpPacket ?send now p ?t = Some (q, t')" using t'(1) o by simp
  ultimately show ?thesis
    using subscribe_ok_update [OF stamp_ok [OF ok st] t'(2), of i] f i send_then_query [OF t nack, of ?send now p q t' later] by auto
qed

text \<open>A packet that is still in the history, asked for in a datagram of its own, is the first thing that is sent.\<close>

lemma nack_first_answer:
  assumes s: "subscribe_ok s" "su_connection_established s" "su_ssrc_track_map s x = Some i"
    and cfg: "sub_configuration (su_tracks s ! i) = cfg" "sc_nack_enabled cfg" "sc_rtx_enabled cfg"
    and kept: "Query n later (send_packet_recorder (su_tracks s ! i)) = Some (Some (RtpCopy q), r0)" "queue_ok (packet_queue r0)"
  shows "\<exists>s' evs. SubOnRtcpPacketReceive h pool pub later (enc_nack (nack_of x n)) s
    = Returns (s', SendRtp (rtx_datagram pool (RtpCopy q) (sc_rtx_payload_type cfg) (sc_rtx_ssrc cfg) (rtx_sequence_number (su_tracks s ! i))) # evs)"
proof -
  obtain n' where n': "RtcpCompoundParse h (enc_nack (nack_of x n)) = Returns [PktNack n']" "media_ssrc n' = x" "set (packet_lost_sequence_numbers n') = {n}"
    using nack_datagram_parsed [of "nack_of x n" h] by (auto simp: nack_of_def)
  then obtain rest where lost: "packet_lost_sequence_numbers n' = n # rest" by (cases "packet_lost_sequence_numbers n'") auto
  define t where "t = su_tracks s ! i"
  define t1 where "t1 = t\<lparr>send_packet_recorder := r0, rtx_sequence_number := rtx_sequence_number t + 1\<rparr>"
  obtain rs t2 where rs: "answer_nacks later rest t1 = Some (rs, t2)"
    using answer_nacks_ok [of t1 later rest] kept(2) by (auto simp: sub_ok_def t1_def)
  let ?first = "SendRtx (RtpCopy q) (sc_rtx_payload_type cfg) (sc_rtx_ssrc cfg) (rtx_sequence_number t)"
  have a: "ReceiveNack later n' t = Some (?first # rs, t2)"
    using kept(1) cfg rs by (simp add: ReceiveNack_def lost t_def [symmetric] t1_def)
  define s1 where "s1 = s\<lparr>su_tracks := (su_tracks s)[i := t2]\<rparr>"
  obtain q1 s3 where st: "stamp later (RtpCopy q) s1 = (q1, s3)" by fastforce
  have first: "resend_one pool later ?first s1
      = (s3, [SendRtp (rtx_datagram pool (RtpCopy q) (sc_rtx_payload_type cfg) (sc_rtx_ssrc cfg) (rtx_sequence_number t))])"
    using st stamp_frame(6) [OF st] s(2) by (simp add: OnSubscribeStreamTrackSendRtxPacket_def copy_not_stamped s1_def)
  obtain s2 evs where re: "resend_all pool later rs s3 = (s2, evs)" by fastforce
  show ?thesis
    using n' a first re s(3) by (simp add: SubOnRtcpPacketReceive_def receive_nack_def t_def [symmetric] s1_def [symmetric] del: resend_one.simps)
qed

text \<open>C2. A lost packet comes back. When a track with retransmissions has sent a packet without padding, and the subscriber
  asks for its number, the first answer is a datagram from which a receiver by RFC 4588 restores the very bytes that were sent.\<close>

theorem lost_packet_recovered:
  assumes ok: "subscribe_ok s" "su_connection_established s" "su_ssrc_track_map s x = Some i"
    and cfg: "sub_configuration (su_tracks s ! i) = cfg" "sc_nack_enabled cfg" "sc_rtx_enabled cfg" "sc_rtx_payload_type cfg < 128"
    and p: "coherent p" "length (data p) < 2 ^ 16" "padding_size p = 0"
  shows "\<exists>d1 s1 d2 evs s2 r r'. send_on_track now p i s = Returns (s1, [SendRtp d1])
     \<and> SubOnRtcpPacketReceive h pool pub later (enc_nack (nack_of x (LoadUInt16BE (drop 2 d1)))) s1 = Returns (s2, SendRtp d2 # evs)
     \<and> RtpCreate blank d2 = Some r \<and> ssrc r = sc_rtx_ssrc cfg \<and> payload_type r = sc_rtx_payload_type cfg
     \<and> RtxRepair (LoadUInt16BE (drop (payload_offset r) (data r))) (payload_type p) (ssrc p) r = Returns r'
     \<and> take (RtpSize r') (data r') = d1"
proof -
  define v :: u16 where "v = ucast ((su_transport_seq s + 1) AND 0xFFFF)"
  define q0 where "q0 = SetSequenceNumber (base_rtp_seq (su_tracks s ! i) + sequence_number p) p"
  define q where "q = SetTransportSequenceNumber v q0"
  have i: "i < length (su_tracks s)" using subscribe_okD(1) [OF ok(1,3)] .
  obtain s1 r0 where s1: "send_on_track now p i s = Returns (s1, send_rtp (rtp_datagram q) s)" "subscribe_ok s1" "su_ssrc_track_map s1 = su_ssrc_track_map s"
    "su_connection_established s1 = su_connection_established s" "length (su_tracks s1) = length (su_tracks s)" "sub_configuration (su_tracks s1 ! i) = cfg"
    "Query (sequence_number q) later (send_packet_recorder (su_tracks s1 ! i)) = Some (Some (RtpCopy q), r0)" "queue_ok (packet_queue r0)"
    using send_on_track_kept [OF ok(1) i, where q = q and p = p and later = later and now = now] cfg(1,2) by (auto simp: q_def q0_def v_def)
  have q0: "coherent q0" "length (data q0) < 2 ^ 16"
    using SetSequenceNumber_coherent [OF p(1)] coherent_size [OF p(1)] p(2) by (simp_all add: q0_def) (simp add: SetSequenceNumber_def)
  have q: "coherent q" "rtp_datagram q = data q" "padding_size q = 0" "payload_type q = payload_type p" "ssrc q = ssrc p"
    using SetTransportSequenceNumber_coherent [OF q0, of v] coherent_size p(3)
    by (auto simp: q_def rtp_datagram_def q0_def SetSequenceNumber_def SetTransportSequenceNumber_def split: option.splits)
  have number: "LoadUInt16BE (drop 2 (data q)) = sequence_number q" using coherent_fixedD(3) [OF q(1)] by simp
  let ?d2 = "rtx_datagram pool (RtpCopy q) (sc_rtx_payload_type cfg) (sc_rtx_ssrc cfg) (rtx_sequence_number (su_tracks s1 ! i))"
  obtain s2 evs where answered: "SubOnRtcpPacketReceive h pool pub later (enc_nack (nack_of x (sequence_number q))) s1 = Returns (s2, SendRtp ?d2 # evs)"
    using nack_first_answer [OF s1(2) _ _ s1(6) cfg(2,3) s1(7,8), of x h pool pub] s1(3,4) ok(2,3) by auto
  have cq: "coherent (RtpCopy q)" "padding_size (RtpCopy q) = 0" "data (RtpCopy q) = data q" "payload_type (RtpCopy q) = payload_type p" "ssrc (RtpCopy q) = ssrc p"
    using copy_coherent [OF q(1)] q(3,4,5) by (auto simp: RtpCopy_def)
  obtain r r' where r: "RtpCreate blank ?d2 = Some r"
    "RtxRepair (LoadUInt16BE (drop (payload_offset r) (data r))) (payload_type p) (ssrc p) r = Returns r'" "take (RtpSize r') (data r') = data q"
    using rtx_restored [OF cq(1,2) cfg(4), of blank "rtx_sequence_number (su_tracks s1 ! i)" "sc_rtx_ssrc cfg"] cq(3-5)
    unfolding rtx_datagram_encapsulates [OF cq(1,2)] by auto
  have on: "ssrc r = sc_rtx_ssrc cfg \<and> payload_type r = sc_rtx_payload_type cfg"
    using rtx_datagram_target [OF cq(1) cfg(4) r(1) [unfolded rtx_datagram_encapsulates [OF cq(1,2)]]] .
  show ?thesis using s1(1) answered r on ok(2) number unfolding q(2) send_rtp_def by auto
qed

definition with_rtx :: SubscribeStream where
  "with_rtx = connected\<lparr>su_tracks := [new_subscribe_track (video_config\<lparr>sc_rtx_enabled := True, sc_rtx_ssrc := 8, sc_rtx_payload_type := 97\<rparr>)]\<rparr>"

lemma with_rtx_ok: "subscribe_ok with_rtx"
  using connected_ok by (simp add: with_rtx_def connected_def subscribe_ok_def sub_tracks_ok_def sub_ok_def new_subscribe_track_def)

theorem lost_packet_recovered_witness:
  "\<exists>q d1 s1 d2 evs s2 r. RtpCreate blank_rtp example_rtp = Some q \<and> send_on_track 10 q 0 with_rtx = Returns (s1, [SendRtp d1])
     \<and> SubOnRtcpPacketReceive zero_header (\<lambda>_. 0) None 60 (enc_nack (nack_of 7 (LoadUInt16BE (drop 2 d1)))) s1 = Returns (s2, SendRtp d2 # evs)
     \<and> RtpCreate blank_rtp d2 = Some r \<and> ssrc r = 8 \<and> payload_type r = 97"
proof -
  obtain q where q: "RtpCreate blank_rtp example_rtp = Some q" "padding_size q = 0" "data q = example_rtp" using example_create by auto
  have c: "coherent q" using RtpCreate_coherent [OF q(1)] by simp
  have m: "su_connection_established with_rtx" "su_ssrc_track_map with_rtx 7 = Some 0" by (simp_all add: with_rtx_def connected_def)
  define cfg where "cfg = video_config\<lparr>sc_rtx_enabled := True, sc_rtx_ssrc := 8, sc_rtx_payload_type := 97\<rparr>"
  have g: "sub_configuration (su_tracks with_rtx ! 0) = cfg" "sc_nack_enabled cfg" "sc_rtx_enabled cfg" "sc_rtx_payload_type cfg < 128"
    by (simp_all add: cfg_def with_rtx_def new_subscribe_track_def video_config_def)
  have l: "length (data q) < 2 ^ 16" by (simp add: q(3) example_rtp_def)
  note r = lost_packet_recovered [OF with_rtx_ok m g c l q(2), where h = zero_header and pool = "\<lambda>_. 0" and pub = None and later = 60
      and now = 10 and blank = blank_rtp]
  have "sc_rtx_ssrc cfg = 8" "sc_rtx_payload_type cfg = 97" by (simp_all add: cfg_def)
  then show ?thesis using r q(1) by (elim exE conjE) (intro exI conjI; simp?; assumption)
qed

text \<open>The padding of a retransmission is whatever the memory of the pool held.\<close>

lemma rtx_padding_is_pool_memory:
  assumes "coherent p" "length (data p) + 2 - unat (padding_size p) \<le> j" "j < length (data p) + 2"
  shows "rtx_datagram pool p pt x seq ! j = pool j"
proof -
  let ?o = "payload_offset p" and ?n = "length (data p)"
  have c: "RtpSize p = ?n" "12 \<le> ?o" "?o + payload_size p + unat (padding_size p) = ?n"
    using coherent_size [OF assms(1)] by (simp_all add: RtpSize_def)
  define b where "b = take ?o (data p) @ StoreUInt16BE (sequence_number p) @ take (payload_size p) (drop ?o (data p)) @ map pool [?o + 2 + payload_size p..<?n + 2]"
  have len: "length b = ?n + 2" using c by (simp add: b_def) arith
  have j: "?o + 2 + payload_size p \<le> j" using assms(2) c(3) by linarith
  have "rtx_datagram pool p pt x seq = SetRtpSequenceNumber seq (SetRtpPayloadType pt (SetRtpSsrc x b))"
    using c by (simp add: rtx_datagram_bytes b_def)
  also have "\<dots> ! j = b ! j" using j c(2) len assms(3) by (simp add: SetRtpSsrc_def SetRtpPayloadType_def SetRtpSequenceNumber_def rtp_consts nth_overwrite)
  also have "b ! j = map pool [?o + 2 + payload_size p..<?n + 2] ! (j - (?o + 2 + payload_size p))"
    using j c by (simp add: b_def nth_append less_diff_conv2 del: upt_Suc map_upt_eqI)
  also have "\<dots> = pool j" using j assms(3) by (simp del: upt_Suc) (simp add: numeral_2_eq_2 Suc_diff_Suc)
  finally show ?thesis .
qed

text \<open>A layer switch with the numbers filled in: a key frame taken half a second after the second report.\<close>

definition report_at :: "u32 \<Rightarrow> u32 \<Rightarrow> SenderReportPacket" where
  "report_at seconds rtp = \<lparr>header = zero_header, sender_ssrc = 7, ntp_seconds = seconds, ntp_fractions = 0, rtp_timestamp = rtp,
     send_packet_count = 0, send_octets = 0\<rparr>"

definition layers_reported :: PublishStream where
  "layers_reported = new_publish_stream\<lparr>ps_tracks :=
     [(new_publish_track (video_configuration\<lparr>pc_rid := 1\<rparr>))\<lparr>pt_last_sr := Some (report_at 1000 90000000)\<rparr>,
      (new_publish_track (video_configuration\<lparr>pc_rid := 2\<rparr>))\<lparr>pt_last_sr := Some (report_at 1001 (- 45000))\<rparr>]\<rparr>"

definition switching :: SubscribeStream where
  "switching = connected\<lparr>su_data_received := True, su_target_layer_rid := 2,
     su_tracks := [new_subscribe_track (video_config\<lparr>sc_extension_capability := [(kRtpExtensionRtpStreamId, 3)]\<rparr>)]\<rparr>"

theorem layer_switch_continues_timeline_witness:
  "\<exists>p s' d. ReceivePublishStreamRtpPacket (Some layers_reported) 10 p switching = Returns (s', [SendRtp d])
     \<and> LoadUInt16BE (drop 2 d) = 1 \<and> LoadUInt32BE (drop 4 d) = 90135000"
proof -
  let ?blank = "blank_rtp\<lparr>payload_info := \<lparr>keyframe = True\<rparr>\<rparr>"
  obtain p where p: "RtpCreate ?blank (layer_datagram 96 7 3 2) = Some p" "ssrc p = 7" "timestamp p = 0" "payload_info p = \<lparr>keyframe = True\<rparr>"
    "extension_capability p = []"
    using layer_datagram_created [of 96 3 ?blank 7 2] by (auto simp: blank_rtp_def)
  have c: "coherent p" "data p = layer_datagram 96 7 3 2" using RtpCreate_coherent [OF p(1)] by auto
  have ft: "for_track p t = SetExtensionCapability (sc_extension_capability (sub_configuration t)) p" for t
    using coherent_size [OF c(1)] by (simp add: for_track_def RtpCopy_def SetExtensionCapability_def)
  have ok: "subscribe_ok switching" "su_connection_established switching" "su_data_received switching"
    "su_current_layer_rid switching \<noteq> su_target_layer_rid switching"
    using connected_ok by (simp_all add: switching_def connected_def new_subscribe_stream_def subscribe_ok_def sub_tracks_ok_def sub_ok_def new_subscribe_track_def)
  have track: "su_ssrc_track_map switching (ssrc p) = Some 0" "uint (sc_clock_rate (sub_configuration (su_tracks switching ! 0))) = 1000 * 90"
    using p(2) by (simp_all add: switching_def connected_def new_subscribe_track_def video_config_def default_sub_configuration_def)
  have rid: "stream_rid (for_track p (su_tracks switching ! 0)) = Returns (Some (su_target_layer_rid switching))"
    using layer_datagram_rid [OF _ _ _ _ _ p(1), of "[(kRtpExtensionRtpStreamId, 3)]"]
    by (simp add: ft switching_def new_subscribe_track_def GetTypeId_def)
  have l: "length (data p) < 2 ^ 16" "IsKeyFrame p" using p(4) by (simp_all add: c(2) layer_datagram_def StoreUInt32BE_def IsKeyFrame_def)
  have m: "sr_millis (report_at 1000 x) = 1000000" "sr_millis (report_at 1001 x) = 1001000" for x by (simp_all add: sr_millis_def report_at_def ToMillis_def)
  have sr: "last_sr_of (Some layers_reported) (su_reference_layer_rid switching) = Some (report_at 1000 90000000)"
    "last_sr_of (Some layers_reported) (su_target_layer_rid switching) = Some (report_at 1001 (- 45000))"
    by (simp_all add: last_sr_of_def layers_reported_def OnSubscribeStreamLastSrRequested_def new_publish_stream_def new_publish_track_def video_configuration_def
        switching_def connected_def new_subscribe_stream_def)
  have lines: "rtp_timestamp (report_at 1000 90000000) = 0 + of_int (90 * sr_millis (report_at 1000 90000000))"
    "rtp_timestamp (report_at 1001 (- 45000)) = - 90135000 + of_int (90 * sr_millis (report_at 1001 (- 45000)))"
    "timestamp p = - 90135000 + of_int (90 * 1001500)"
    using p(3) by (simp_all add: m) (simp_all add: report_at_def)
  have "max_rtp_seq (su_tracks switching ! 0) + 1 = 1" "(0 :: u32) + of_int (90 * 1001500) = 90135000"
    by (simp_all add: switching_def new_subscribe_track_def)
  then show ?thesis
    using layer_switch_continues_timeline [OF ok track c(1) l rid sr lines, of 10] by (intro exI [of _ p]) auto
qed

end
