(* ===== verification/Trendline_Estimator.thy ===== *)
theory Trendline_Estimator
  imports Complex_Main Send_Side_Twcc
begin

text \<open>
  The estimator of the delay trend, \<^verbatim>\<open>src/src/congestion_controller/trendline_estimator.{h,cpp}\<close>, which says whether the
  path is over-used. It computes with \<open>double\<close>; the arithmetic is the argument \<open>f\<close> of the model, a record of the
  operations the code applies, so that what is proved for all \<open>f\<close> holds with rounding, infinities and NaN.
  \<open>real_fp\<close> is exact arithmetic, for the statements about what the formulas compute. A decimal literal is the pair of
  the numerator and the denominator. \<open>int\<close> counters are unbounded here.
\<close>

record 'd fp =
  f_add :: "'d \<Rightarrow> 'd \<Rightarrow> 'd"
  f_sub :: "'d \<Rightarrow> 'd \<Rightarrow> 'd"
  f_mul :: "'d \<Rightarrow> 'd \<Rightarrow> 'd"
  f_div :: "'d \<Rightarrow> 'd \<Rightarrow> 'd"
  f_neg :: "'d \<Rightarrow> 'd"
  f_abs :: "'d \<Rightarrow> 'd"
  f_lt :: "'d \<Rightarrow> 'd \<Rightarrow> bool"
  f_ge :: "'d \<Rightarrow> 'd \<Rightarrow> bool"
  f_eq :: "'d \<Rightarrow> 'd \<Rightarrow> bool"
  f_int :: "int \<Rightarrow> 'd"
  f_lit :: "int \<Rightarrow> int \<Rightarrow> 'd"
  f_nan :: "'d"

definition real_fp :: "real fp" where
  "real_fp = \<lparr>f_add = (+), f_sub = (-), f_mul = (*), f_div = (/), f_neg = uminus, f_abs = abs, f_lt = (<), f_ge = (\<ge>), f_eq = (=),
     f_int = of_int, f_lit = (\<lambda>n d. of_int n / of_int d), f_nan = 0\<rparr>"

lemma real_fp_simps [simp]:
  "f_add real_fp = (+)" "f_sub real_fp = (-)" "f_mul real_fp = (*)" "f_div real_fp = (/)" "f_neg real_fp = uminus" "f_abs real_fp = abs"
  "f_lt real_fp = (<)" "f_ge real_fp = (\<ge>)" "f_eq real_fp = (=)" "f_int real_fp = of_int" "f_lit real_fp n d = of_int n / of_int d"
  by (simp_all add: real_fp_def)

record 'd TrendlineEstimatorSettings =
  enable_sort :: bool
  enable_cap :: bool
  beginning_packets :: nat
  end_packets :: nat
  cap_uncertainty :: 'd
  window_size :: nat

definition default_settings :: "'d fp \<Rightarrow> 'd TrendlineEstimatorSettings" where
  "default_settings f = \<lparr>enable_sort = False, enable_cap = False, beginning_packets = 7, end_packets = 7, cap_uncertainty = f_int f 0,
     window_size = 20\<rparr>"

record 'd PacketTiming =
  pt_arrival_time_ms :: 'd
  pt_smoothed_delay_ms :: 'd
  pt_raw_delay_ms :: 'd

datatype BandwidthUsage = kBwNormal | kBwUnderusing | kBwOverusing

record 'd TrendlineEstimator =
  te_settings :: "'d TrendlineEstimatorSettings"
  num_of_deltas :: int
  first_arrival_time_ms :: int
  accumulated_delay :: 'd
  smoothed_delay :: 'd
  delay_hist :: "'d PacketTiming list"
  te_threshold :: 'd
  prev_modified_trend :: 'd
  last_update_ms :: int
  prev_trend :: 'd
  time_over_using :: 'd
  overuse_counter :: int
  hypothesis :: BandwidthUsage

definition kMinNumDeltas :: int where "kMinNumDeltas = 60"
definition kDeltaCounterMax :: int where "kDeltaCounterMax = 1000"
definition kMaxTimeDeltaMs :: int where "kMaxTimeDeltaMs = 100"

definition smoothing_coef :: "'d fp \<Rightarrow> 'd" where "smoothing_coef f = f_lit f 9 10"
definition threshold_gain :: "'d fp \<Rightarrow> 'd" where "threshold_gain f = f_lit f 4 1"
definition k_up :: "'d fp \<Rightarrow> 'd" where "k_up f = f_lit f 87 10000"
definition k_down :: "'d fp \<Rightarrow> 'd" where "k_down f = f_lit f 39 1000"
definition kMaxAdaptOffsetMs :: "'d fp \<Rightarrow> 'd" where "kMaxAdaptOffsetMs f = f_lit f 15 1"
definition overusing_time_threshold :: "'d fp \<Rightarrow> 'd" where "overusing_time_threshold f = f_lit f 10 1"

definition new_trendline_estimator :: "'d fp \<Rightarrow> 'd TrendlineEstimator" where
  "new_trendline_estimator f = \<lparr>te_settings = default_settings f, num_of_deltas = 0, first_arrival_time_ms = - 1, accumulated_delay = f_int f 0,
     smoothed_delay = f_int f 0, delay_hist = [], te_threshold = f_lit f 125 10, prev_modified_trend = f_nan f, last_update_ms = - 1,
     prev_trend = f_lit f 0 1, time_over_using = f_int f (- 1), overuse_counter = 0, hypothesis = kBwNormal\<rparr>"

section \<open>The slope\<close>

definition LinearFitSlope :: "'d fp \<Rightarrow> 'd PacketTiming list \<Rightarrow> 'd option" where
  "LinearFitSlope f ps =
     (let sum_x = fold (\<lambda>p s. f_add f s (pt_arrival_time_ms p)) ps (f_int f 0);
          sum_y = fold (\<lambda>p s. f_add f s (pt_smoothed_delay_ms p)) ps (f_int f 0);
          x_avg = f_div f sum_x (f_int f (int (length ps)));
          y_avg = f_div f sum_y (f_int f (int (length ps)));
          numerator = fold (\<lambda>p s. f_add f s (f_mul f (f_sub f (pt_arrival_time_ms p) x_avg) (f_sub f (pt_smoothed_delay_ms p) y_avg))) ps (f_int f 0);
          denominator = fold (\<lambda>p s. f_add f s (f_mul f (f_sub f (pt_arrival_time_ms p) x_avg) (f_sub f (pt_arrival_time_ms p) x_avg))) ps (f_int f 0)
      in if f_eq f denominator (f_int f 0) then None else Some (f_div f numerator denominator))"

text \<open>The least raw delay, the first of equals. The lists are not empty: the callers' settings ask for one packet or more.\<close>

definition least_delay :: "'d fp \<Rightarrow> 'd PacketTiming list \<Rightarrow> 'd PacketTiming" where
  "least_delay f ps = fold (\<lambda>p e. if f_lt f (pt_raw_delay_ms p) (pt_raw_delay_ms e) then p else e) (tl ps) (hd ps)"

definition ComputeSlopeCap :: "'d fp \<Rightarrow> 'd PacketTiming list \<Rightarrow> 'd TrendlineEstimatorSettings \<Rightarrow> 'd option" where
  "ComputeSlopeCap f ps st =
     (let early = least_delay f (take (beginning_packets st) ps);
          late = least_delay f (drop (length ps - end_packets st) ps);
          dt = f_sub f (pt_arrival_time_ms late) (pt_arrival_time_ms early)
      in if f_lt f dt (f_int f 1) then None
         else Some (f_add f (f_div f (f_sub f (pt_raw_delay_ms late) (pt_raw_delay_ms early)) dt) (cap_uncertainty st)))"

section \<open>Detection\<close>

definition clamp :: "'d fp \<Rightarrow> 'd \<Rightarrow> 'd \<Rightarrow> 'd \<Rightarrow> 'd" where
  "clamp f v lo hi = (if f_lt f v lo then lo else if f_lt f hi v then hi else v)"

definition UpdateThreshold :: "'d fp \<Rightarrow> 'd \<Rightarrow> int \<Rightarrow> 'd TrendlineEstimator \<Rightarrow> 'd TrendlineEstimator" where
  "UpdateThreshold f modified_trend now s =
     (let s = (if last_update_ms s = - 1 then s\<lparr>last_update_ms := now\<rparr> else s)
      in if f_lt f (f_add f (te_threshold s) (kMaxAdaptOffsetMs f)) (f_abs f modified_trend) then s\<lparr>last_update_ms := now\<rparr>
         else let k = (if f_lt f (f_abs f modified_trend) (te_threshold s) then k_down f else k_up f);
                  time_delta = min (now - last_update_ms s) kMaxTimeDeltaMs;
                  t = f_add f (te_threshold s)
                        (f_mul f (f_mul f k (f_sub f (f_abs f modified_trend) (te_threshold s))) (f_int f time_delta))
              in s\<lparr>te_threshold := clamp f t (f_lit f 6 1) (f_lit f 600 1), last_update_ms := now\<rparr>)"

definition modified :: "'d fp \<Rightarrow> 'd \<Rightarrow> 'd TrendlineEstimator \<Rightarrow> 'd" where
  "modified f trend s = f_mul f (f_mul f (f_int f (min (num_of_deltas s) kMinNumDeltas)) trend) (threshold_gain f)"

definition Detect :: "'d fp \<Rightarrow> 'd \<Rightarrow> 'd \<Rightarrow> int \<Rightarrow> 'd TrendlineEstimator \<Rightarrow> 'd TrendlineEstimator" where
  "Detect f trend ts_delta now s =
     (if num_of_deltas s < 2 then s\<lparr>hypothesis := kBwNormal\<rparr>
      else
        let m = modified f trend s;
            s = s\<lparr>prev_modified_trend := m\<rparr>;
            s = (if f_lt f (te_threshold s) m then
                   let t = (if f_eq f (time_over_using s) (f_int f (- 1)) then f_div f ts_delta (f_int f 2)
                            else f_add f (time_over_using s) ts_delta);
                       s = s\<lparr>time_over_using := t, overuse_counter := overuse_counter s + 1\<rparr>
                   in if f_lt f (overusing_time_threshold f) t \<and> overuse_counter s > 1 \<and> f_ge f trend (prev_trend s)
                      then s\<lparr>time_over_using := f_int f 0, overuse_counter := 0, hypothesis := kBwOverusing\<rparr> else s
                 else if f_lt f m (f_neg f (te_threshold s)) then
                   s\<lparr>time_over_using := f_int f (- 1), overuse_counter := 0, hypothesis := kBwUnderusing\<rparr>
                 else s\<lparr>time_over_using := f_int f (- 1), overuse_counter := 0, hypothesis := kBwNormal\<rparr>)
        in UpdateThreshold f m now (s\<lparr>prev_trend := trend\<rparr>))"

text \<open>The last element sinks to its place; the list is given from its end.\<close>

fun sink :: "'d fp \<Rightarrow> 'd PacketTiming list \<Rightarrow> 'd PacketTiming list" where
  "sink f (p # q # r) = (if f_lt f (pt_arrival_time_ms p) (pt_arrival_time_ms q) then q # sink f (p # r) else p # q # r)"
| "sink f r = r"

text \<open>\<open>UpdateTrendline\<close> up to the regression, the trend it computes, and the whole.\<close>

definition take_sample :: "'d fp \<Rightarrow> 'd \<Rightarrow> 'd \<Rightarrow> int \<Rightarrow> 'd TrendlineEstimator \<Rightarrow> 'd TrendlineEstimator" where
  "take_sample f recv_delta send_delta arrival s =
     (let delta = f_sub f recv_delta send_delta;
          s = s\<lparr>num_of_deltas := min (num_of_deltas s + 1) kDeltaCounterMax\<rparr>;
          s = (if first_arrival_time_ms s = - 1 then s\<lparr>first_arrival_time_ms := arrival\<rparr> else s);
          s = s\<lparr>accumulated_delay := f_add f (accumulated_delay s) delta\<rparr>;
          s = s\<lparr>smoothed_delay := f_add f (f_mul f (smoothing_coef f) (smoothed_delay s))
                 (f_mul f (f_sub f (f_int f 1) (smoothing_coef f)) (accumulated_delay s))\<rparr>;
          p = \<lparr>pt_arrival_time_ms = f_int f (arrival - first_arrival_time_ms s), pt_smoothed_delay_ms = smoothed_delay s,
               pt_raw_delay_ms = accumulated_delay s\<rparr>;
          h = delay_hist s @ [p];
          h = (if enable_sort (te_settings s) then rev (sink f (rev h)) else h)
      in s\<lparr>delay_hist := if window_size (te_settings s) < length h then tl h else h\<rparr>)"

definition find_trend :: "'d fp \<Rightarrow> 'd TrendlineEstimator \<Rightarrow> 'd" where
  "find_trend f s =
     (if length (delay_hist s) = window_size (te_settings s) then
        let trend = (case LinearFitSlope f (delay_hist s) of Some k \<Rightarrow> k | None \<Rightarrow> prev_trend s)
        in if enable_cap (te_settings s) then
             (case ComputeSlopeCap f (delay_hist s) (te_settings s) of
                Some cap \<Rightarrow> if f_ge f trend (f_int f 0) \<and> f_lt f cap trend then cap else trend
              | None \<Rightarrow> trend)
           else trend
      else prev_trend s)"

definition UpdateTrendline :: "'d fp \<Rightarrow> 'd \<Rightarrow> 'd \<Rightarrow> int \<Rightarrow> 'd TrendlineEstimator \<Rightarrow> 'd TrendlineEstimator" where
  "UpdateTrendline f recv_delta send_delta arrival s =
     (let s = take_sample f recv_delta send_delta arrival s in Detect f (find_trend f s) send_delta arrival s)"

text \<open>The calls that \<open>SendSideTWCC::ReceiveTransportFeedback\<close> makes.\<close>

definition EstimatorUpdate :: "'d fp \<Rightarrow> estimator_update \<Rightarrow> 'd TrendlineEstimator \<Rightarrow> 'd TrendlineEstimator" where
  "EstimatorUpdate f u s =
     (if upd_calculated u
      then UpdateTrendline f (f_int f (upd_arrival_delta u)) (f_int f (upd_send_delta u)) (receive_time_millis (upd_status u)) s else s)"

definition EstimatorState :: "'d TrendlineEstimator \<Rightarrow> BandwidthUsage" where
  "EstimatorState s = hypothesis s"

section \<open>Runs\<close>

definition estimator_run :: "'d fp \<Rightarrow> estimator_update list \<Rightarrow> 'd TrendlineEstimator" where
  "estimator_run f us = fold (EstimatorUpdate f) us (new_trendline_estimator f)"

definition sampled :: "'d fp \<Rightarrow> estimator_update \<Rightarrow> 'd TrendlineEstimator \<Rightarrow> 'd TrendlineEstimator" where
  "sampled f u s = take_sample f (f_int f (upd_arrival_delta u)) (f_int f (upd_send_delta u)) (receive_time_millis (upd_status u)) s"

text \<open>An update whose modified trend is above the threshold.\<close>

definition above :: "'d fp \<Rightarrow> estimator_update \<Rightarrow> 'd TrendlineEstimator \<Rightarrow> bool" where
  "above f u s \<longleftrightarrow> (let s = sampled f u s in 2 \<le> num_of_deltas s \<and> f_lt f (te_threshold s) (modified f (find_trend f s) s))"

lemma run_snoc: "estimator_run f (us @ [u]) = EstimatorUpdate f u (estimator_run f us)"
  by (simp add: estimator_run_def)

lemma run_calculated: "estimator_run f us = estimator_run f (filter upd_calculated us)"
  unfolding estimator_run_def
proof (induction us rule: rev_induct)
  case (snoc u us)
  then show ?case by (cases "upd_calculated u") (simp_all add: EstimatorUpdate_def)
qed simp

lemma update_sampled:
  "upd_calculated u \<Longrightarrow> EstimatorUpdate f u s
     = Detect f (find_trend f (sampled f u s)) (f_int f (upd_send_delta u)) (receive_time_millis (upd_status u)) (sampled f u s)"
  by (simp add: EstimatorUpdate_def UpdateTrendline_def sampled_def Let_def)

lemma sampled_fields [simp]:
  "te_settings (sampled f u s) = te_settings s" "te_threshold (sampled f u s) = te_threshold s" "prev_trend (sampled f u s) = prev_trend s"
  "overuse_counter (sampled f u s) = overuse_counter s" "hypothesis (sampled f u s) = hypothesis s"
  "num_of_deltas (sampled f u s) = min (num_of_deltas s + 1) kDeltaCounterMax"
  by (simp_all add: sampled_def take_sample_def Let_def)

lemma threshold_fields [simp]:
  "te_settings (UpdateThreshold f m now s) = te_settings s" "prev_trend (UpdateThreshold f m now s) = prev_trend s"
  "overuse_counter (UpdateThreshold f m now s) = overuse_counter s" "hypothesis (UpdateThreshold f m now s) = hypothesis s"
  "num_of_deltas (UpdateThreshold f m now s) = num_of_deltas s" "delay_hist (UpdateThreshold f m now s) = delay_hist s"
  "accumulated_delay (UpdateThreshold f m now s) = accumulated_delay s" "smoothed_delay (UpdateThreshold f m now s) = smoothed_delay s"
  by (simp_all add: UpdateThreshold_def Let_def)

lemma Detect_fields [simp]:
  "te_settings (Detect f t d now s) = te_settings s" "delay_hist (Detect f t d now s) = delay_hist s"
  "num_of_deltas (Detect f t d now s) = num_of_deltas s" "accumulated_delay (Detect f t d now s) = accumulated_delay s"
  "smoothed_delay (Detect f t d now s) = smoothed_delay s"
  "prev_trend (Detect f t d now s) = (if num_of_deltas s < 2 then prev_trend s else t)"
  by (simp_all add: Detect_def Let_def)

lemma Detect_counter:
  "0 < overuse_counter (Detect f t d now s) \<Longrightarrow> num_of_deltas s < 2 \<and> 0 < overuse_counter s \<or> 2 \<le> num_of_deltas s \<and> f_lt f (te_threshold s) (modified f t s)"
  by (auto simp: Detect_def Let_def split: if_splits)

lemma Detect_overusing:
  "hypothesis (Detect f t d now s) = kBwOverusing \<Longrightarrow> hypothesis s \<noteq> kBwOverusing
     \<Longrightarrow> 2 \<le> num_of_deltas s \<and> f_lt f (te_threshold s) (modified f t s) \<and> 0 < overuse_counter s \<and> f_ge f t (prev_trend s)"
  by (auto simp: Detect_def Let_def split: if_splits)

section \<open>Overuse is never reported for a single sample\<close>

text \<open>The counter belongs to the last update, and the first update leaves it at zero.\<close>

lemma run_num: "num_of_deltas (estimator_run f us) = min (int (length (filter upd_calculated us))) kDeltaCounterMax"
proof (induction us rule: rev_induct)
  case Nil
  show ?case by (simp add: estimator_run_def new_trendline_estimator_def kDeltaCounterMax_def)
next
  case (snoc u us)
  then show ?case
    by (cases "upd_calculated u") (simp_all add: run_snoc update_sampled kDeltaCounterMax_def, simp add: EstimatorUpdate_def)
qed

lemma run_counter:
  assumes "0 < overuse_counter (estimator_run f us)"
  shows "\<exists>vs v. filter upd_calculated us = vs @ [v] \<and> above f v (estimator_run f vs)"
  using assms
proof (induction us rule: rev_induct)
  case Nil
  then show ?case by (simp add: estimator_run_def new_trendline_estimator_def)
next
  case (snoc u us)
  show ?case
  proof (cases "upd_calculated u")
    case False
    then show ?thesis using snoc by (simp add: run_snoc EstimatorUpdate_def)
  next
    case True
    let ?s = "estimator_run f us"
    have few: "filter upd_calculated us = []" if "num_of_deltas (sampled f u ?s) < 2"
      using that by (cases "filter upd_calculated us") (simp_all add: run_num kDeltaCounterMax_def)
    have "\<not> (num_of_deltas (sampled f u ?s) < 2 \<and> 0 < overuse_counter (sampled f u ?s))"
      using few snoc.IH by auto
    then have "above f u ?s"
      using Detect_counter snoc.prems True by (fastforce simp: run_snoc update_sampled above_def Let_def)
    then show ?thesis using True run_calculated [of f us] by simp
  qed
qed

text \<open>C22. However the arithmetic rounds, one sample never raises the alarm: when the state turns to over-using, this
  sample and the one before were both above the threshold that was in force, and the trend did not fall between them.\<close>

theorem overuse_needs_two_rises:
  assumes "EstimatorState (estimator_run f us) \<noteq> kBwOverusing" "EstimatorState (estimator_run f (us @ [u])) = kBwOverusing"
  shows "upd_calculated u \<and> above f u (estimator_run f us)
    \<and> (\<exists>vs v. filter upd_calculated us = vs @ [v] \<and> above f v (estimator_run f vs))
    \<and> f_ge f (prev_trend (estimator_run f (us @ [u]))) (prev_trend (estimator_run f us))"
proof -
  let ?s = "estimator_run f us"
  have c: "upd_calculated u" using assms by (auto simp: EstimatorState_def run_snoc EstimatorUpdate_def split: if_splits)
  from Detect_overusing [of f "find_trend f (sampled f u ?s)" "f_int f (upd_send_delta u)" "receive_time_millis (upd_status u)" "sampled f u ?s"]
  have d: "2 \<le> num_of_deltas (sampled f u ?s)" "f_lt f (te_threshold (sampled f u ?s)) (modified f (find_trend f (sampled f u ?s)) (sampled f u ?s))"
    "0 < overuse_counter ?s" "f_ge f (find_trend f (sampled f u ?s)) (prev_trend ?s)"
    using assms c by (auto simp: EstimatorState_def run_snoc update_sampled)
  then show ?thesis using c run_counter [OF d(3)] by (auto simp: above_def run_snoc update_sampled Let_def)
qed

section \<open>The threshold\<close>

lemma clamped_threshold:
  assumes literals: "\<And>a b c d. 0 < b \<Longrightarrow> 0 < d \<Longrightarrow> f_lt f (f_lit f a b) (f_lit f c d) \<Longrightarrow> a * d < c * b"
  shows "\<not> f_lt f (te_threshold (estimator_run f us)) (f_lit f 6 1) \<and> \<not> f_lt f (f_lit f 600 1) (te_threshold (estimator_run f us))"
proof -
  define bounded where "bounded s \<longleftrightarrow> \<not> f_lt f (te_threshold s) (f_lit f 6 1) \<and> \<not> f_lt f (f_lit f 600 1) (te_threshold s)"
    for s :: "'a TrendlineEstimator"
  have c: "\<not> f_lt f (clamp f v (f_lit f 6 1) (f_lit f 600 1)) (f_lit f 6 1) \<and> \<not> f_lt f (f_lit f 600 1) (clamp f v (f_lit f 6 1) (f_lit f 600 1))" for v
    using literals [of 1 1 6 6] literals [of 1 1 600 6] literals [of 1 1 600 600] by (auto simp: clamp_def)
  have u: "bounded (UpdateThreshold f m now s)" if "bounded s" for m now s
    using that c by (auto simp: UpdateThreshold_def Let_def bounded_def)
  have "bounded (Detect f t d now s)" if "bounded s" for t d now s
    using that by (auto simp: Detect_def Let_def bounded_def intro!: u [unfolded bounded_def])
  then have "bounded (EstimatorUpdate f u s)" if "bounded s" for u s
    using that by (cases "upd_calculated u") (simp_all add: update_sampled, simp_all add: bounded_def EstimatorUpdate_def)
  then have "bounded (estimator_run f us)"
    using literals [of 10 1 125 6] literals [of 1 10 600 125]
    by (induction us rule: rev_induct) (auto simp: run_snoc, auto simp: bounded_def estimator_run_def new_trendline_estimator_def)
  then show ?thesis by (simp add: bounded_def)
qed

text \<open>The adaptive threshold stays between 6 and 600 in every run, provided that rounding keeps the order of literals
  (\<open>literals\<close>): it is below neither bound nor above, even if the arithmetic yields infinities.\<close>

theorem threshold_stays_bounded:
  assumes literals: "\<And>a b c d. 0 < b \<Longrightarrow> 0 < d \<Longrightarrow> f_lt f (f_lit f a b) (f_lit f c d) \<Longrightarrow> a * d < c * b"
  shows "\<not> f_lt f (te_threshold (estimator_run f us)) (f_lit f 6 1) \<and> \<not> f_lt f (f_lit f 600 1) (te_threshold (estimator_run f us))"
  by (rule clamped_threshold) (rule literals)

lemma real_literals: "0 < b \<Longrightarrow> 0 < d \<Longrightarrow> f_lt real_fp (f_lit real_fp a b) (f_lit real_fp c d) \<Longrightarrow> a * d < c * b"
proof -
  assume b: "0 < b" "0 < d" and "f_lt real_fp (f_lit real_fp a b) (f_lit real_fp c d)"
  then have "real_of_int (a * d) < real_of_int (c * b)" by (simp add: field_simps)
  then show "a * d < c * b" by (simp only: of_int_less_iff)
qed

section \<open>What the formulas compute\<close>

lemma fold_sum: "fold (\<lambda>p s. s + g p) ps z = z + (\<Sum>p\<leftarrow>ps. g p)" for g :: "'a \<Rightarrow> real"
  by (induction ps arbitrary: z) simp_all

lemma sum_list_scale: "(\<Sum>p\<leftarrow>ps. c * g p) = c * (\<Sum>p\<leftarrow>ps. g p)" for g :: "'a \<Rightarrow> real"
  by (rule sum_list_const_mult)

lemma in_set_tl: "x \<in> set (tl xs) \<Longrightarrow> x \<in> set xs"
  by (cases xs) simp_all

definition mean :: "('a \<Rightarrow> real) \<Rightarrow> 'a list \<Rightarrow> real" where
  "mean g ps = (\<Sum>p\<leftarrow>ps. g p) / real (length ps)"

lemma LinearFitSlope_real:
  "LinearFitSlope real_fp ps =
     (let xm = mean pt_arrival_time_ms ps; ym = mean pt_smoothed_delay_ms ps;
          d = (\<Sum>p\<leftarrow>ps. (pt_arrival_time_ms p - xm) * (pt_arrival_time_ms p - xm))
      in if d = 0 then None else Some ((\<Sum>p\<leftarrow>ps. (pt_arrival_time_ms p - xm) * (pt_smoothed_delay_ms p - ym)) / d))"
  by (simp add: LinearFitSlope_def mean_def fold_sum Let_def)

lemma deviations_vanish: "ps \<noteq> [] \<Longrightarrow> (\<Sum>p\<leftarrow>ps. g p - mean g ps) = 0"
  by (simp add: sum_list_subtractf sum_list_triv mean_def)

text \<open>The squared error of a line splits into the error of its slope through the centre and the distance from the centre.\<close>

lemma squared_error:
  fixes g h :: "'a \<Rightarrow> real"
  assumes "ps \<noteq> []"
  shows "(\<Sum>p\<leftarrow>ps. (h p - (a + b * g p)) ^ 2)
     = (\<Sum>p\<leftarrow>ps. (h p - mean h ps) ^ 2) - 2 * b * (\<Sum>p\<leftarrow>ps. (g p - mean g ps) * (h p - mean h ps))
       + b ^ 2 * (\<Sum>p\<leftarrow>ps. (g p - mean g ps) * (g p - mean g ps)) + real (length ps) * (mean h ps - a - b * mean g ps) ^ 2"
proof -
  let ?c = "mean h ps - a - b * mean g ps"
  have e: "(h p - (a + b * g p)) ^ 2 = (h p - mean h ps) ^ 2 + (- (2 * b)) * ((g p - mean g ps) * (h p - mean h ps))
      + b ^ 2 * ((g p - mean g ps) * (g p - mean g ps)) + (2 * ?c) * (h p - mean h ps) + (- (2 * ?c * b)) * (g p - mean g ps) + ?c ^ 2" for p
    by (simp add: power2_eq_square algebra_simps)
  show ?thesis
    unfolding e sum_list_addf sum_list_scale deviations_vanish [OF assms] by (simp add: sum_list_triv)
qed

text \<open>C23. In exact arithmetic the slope is the one of the least-squares line: with a suitable offset no other line has a
  smaller squared error, and there is no slope only if all packets arrived at the same time.\<close>

theorem LinearFitSlope_least_squares:
  assumes "ps \<noteq> []"
  shows "case LinearFitSlope real_fp ps of
      None \<Rightarrow> \<forall>p\<in>set ps. pt_arrival_time_ms p = mean pt_arrival_time_ms ps
    | Some k \<Rightarrow> (\<Sum>p\<leftarrow>ps. (pt_smoothed_delay_ms p - (mean pt_smoothed_delay_ms ps - k * mean pt_arrival_time_ms ps + k * pt_arrival_time_ms p)) ^ 2)
        \<le> (\<Sum>p\<leftarrow>ps. (pt_smoothed_delay_ms p - (a + b * pt_arrival_time_ms p)) ^ 2)"
proof -
  define x y :: "real PacketTiming \<Rightarrow> real" where "x = pt_arrival_time_ms" and "y = pt_smoothed_delay_ms"
  define d n where "d = (\<Sum>p\<leftarrow>ps. (x p - mean x ps) * (x p - mean x ps))" and "n = (\<Sum>p\<leftarrow>ps. (x p - mean x ps) * (y p - mean y ps))"
  have slope: "LinearFitSlope real_fp ps = (if d = 0 then None else Some (n / d))"
    by (simp add: LinearFitSlope_real x_def y_def d_def n_def Let_def)
  have "0 \<le> d" unfolding d_def n_def by (rule sum_list_nonneg) auto
  show ?thesis
  proof (cases "d = 0")
    case True
    then have "\<forall>z\<in>set (map (\<lambda>p. (x p - mean x ps) * (x p - mean x ps)) ps). z = 0"
      unfolding d_def n_def by (subst (asm) sum_list_nonneg_eq_0_iff) auto
    then show ?thesis using True by (simp add: slope x_def y_def)
  next
    case False
    with \<open>0 \<le> d\<close> have "0 \<le> (b * d - n) ^ 2 / d" by simp
    also have "\<dots> = (b ^ 2 * d - 2 * b * n) - ((n / d) ^ 2 * d - 2 * (n / d) * n)" using False by (simp add: power2_eq_square field_simps)
    finally have "(n / d) ^ 2 * d - 2 * (n / d) * n \<le> b ^ 2 * d - 2 * b * n" by simp
    moreover define e where "e = real (length ps) * (mean y ps - a - b * mean x ps) ^ 2"
    moreover have "0 \<le> e" unfolding e_def by simp
    ultimately have "(\<Sum>p\<leftarrow>ps. (y p - (mean y ps - n / d * mean x ps + n / d * x p)) ^ 2) \<le> (\<Sum>p\<leftarrow>ps. (y p - (a + b * x p)) ^ 2)"
      unfolding squared_error [OF assms] d_def [symmetric] n_def [symmetric] e_def [symmetric] by simp
    then show ?thesis using False by (simp add: slope x_def y_def)
  qed
qed

text \<open>In exact arithmetic a path on which every packet group arrives as far from the one before as it was sent is never
  reported as over-used or under-used, however long it runs and whatever the arrival times are.\<close>

theorem steady_path_is_normal:
  assumes "\<forall>u\<in>set us. upd_calculated u \<longrightarrow> upd_arrival_delta u = upd_send_delta u"
  shows "EstimatorState (estimator_run real_fp us) = kBwNormal"
proof -
  define quiet where "quiet s \<longleftrightarrow> te_settings s = default_settings real_fp \<and> accumulated_delay s = 0 \<and> smoothed_delay s = 0
    \<and> (\<forall>p\<in>set (delay_hist s). pt_smoothed_delay_ms p = 0) \<and> prev_trend s = 0 \<and> hypothesis s = kBwNormal" for s :: "real TrendlineEstimator"
  have zero: "(\<Sum>p\<leftarrow>ps. g p * pt_smoothed_delay_ms p) = 0" if "\<forall>p\<in>set ps. pt_smoothed_delay_ms p = 0" for ps and g :: "real PacketTiming \<Rightarrow> real"
    using that by (induction ps) simp_all
  have slope: "find_trend real_fp s = 0" if "quiet s" for s
    using that zero [of "delay_hist s" "\<lambda>_. 1"] zero [of "delay_hist s" "\<lambda>p. pt_arrival_time_ms p - mean pt_arrival_time_ms (delay_hist s)"]
    by (auto simp: find_trend_def quiet_def default_settings_def LinearFitSlope_real mean_def Let_def)
  have sample: "quiet (sampled real_fp u s)" if "quiet s" "upd_arrival_delta u = upd_send_delta u" for u s
    using that by (auto simp: quiet_def sampled_def take_sample_def default_settings_def smoothing_coef_def Let_def dest!: in_set_tl)
  have bounds: "6 \<le> te_threshold (estimator_run real_fp us)" for us
    using clamped_threshold [of real_fp us, OF real_literals] by simp
  have "quiet (estimator_run real_fp us)" using assms
  proof (induction us rule: rev_induct)
    case Nil
    show ?case by (simp add: quiet_def estimator_run_def new_trendline_estimator_def)
  next
    case (snoc u us)
    then have q: "quiet (estimator_run real_fp us)" by simp
    show ?case
    proof (cases "upd_calculated u")
      case False
      then show ?thesis using q by (simp add: run_snoc EstimatorUpdate_def)
    next
      case True
      then have t: "quiet (sampled real_fp u (estimator_run real_fp us))" using q snoc.prems by (intro sample) auto
      then show ?thesis using slope [OF t] bounds [of us] True
        by (simp add: run_snoc update_sampled quiet_def) (simp add: Detect_def modified_def Let_def)
    qed
  qed
  then show ?thesis by (simp add: quiet_def EstimatorState_def)
qed

section \<open>Runs on concrete samples\<close>

text \<open>Fixed-point arithmetic with three decimals, and a path on which each group arrives 100 ms later than the last.\<close>

definition milli_fp :: "int fp" where
  "milli_fp = \<lparr>f_add = (+), f_sub = (-), f_mul = (\<lambda>a b. a * b div 1000), f_div = (\<lambda>a b. 1000 * a div b), f_neg = uminus, f_abs = abs,
     f_lt = (<), f_ge = (\<ge>), f_eq = (=), f_int = (\<lambda>n. 1000 * n), f_lit = (\<lambda>n d. 1000 * n div d), f_nan = 0\<rparr>"

definition delayed :: "int \<Rightarrow> int \<Rightarrow> estimator_update" where
  "delayed d k = \<lparr>upd_arrival_delta = 50 + d, upd_send_delta = 50,
     upd_status = \<lparr>sent_time_millis = 0, receive_time_millis = (50 + d) * k, packet_size = 1, transport_wide_sequence_number = 0\<rparr>,
     upd_calculated = True\<rparr>"

theorem overuse_needs_two_rises_witness:
  "\<exists>vs v. map (delayed 100) [1..20] = vs @ [v] \<and> above milli_fp v (estimator_run milli_fp vs)"
proof -
  have q: "EstimatorState (estimator_run milli_fp (map (delayed 100) [1..20])) \<noteq> kBwOverusing"
    "EstimatorState (estimator_run milli_fp (map (delayed 100) [1..20] @ [delayed 100 21])) = kBwOverusing"
    by code_simp+
  have "filter upd_calculated (map (delayed 100) [1..20]) = map (delayed 100) [1..20]"
    by (rule filter_True) (auto simp: delayed_def)
  then show ?thesis using overuse_needs_two_rises [OF q] by simp
qed

theorem threshold_stays_bounded_witness: "6 \<le> te_threshold (estimator_run real_fp [delayed 100 1, delayed 100 2])"
  using threshold_stays_bounded [of real_fp "[delayed 100 1, delayed 100 2]"] real_literals by fastforce

theorem LinearFitSlope_least_squares_witness:
  "let p = (\<lambda>t y. \<lparr>pt_arrival_time_ms = t, pt_smoothed_delay_ms = y, pt_raw_delay_ms = y\<rparr>); ps = [p 0 1, p 2 5]
   in LinearFitSlope real_fp ps = Some 2 \<and> 0 \<le> (\<Sum>q\<leftarrow>ps. (pt_smoothed_delay_ms q - (3 + 1 * pt_arrival_time_ms q)) ^ 2)"
proof -
  let ?p = "\<lambda>t y. \<lparr>pt_arrival_time_ms = t, pt_smoothed_delay_ms = y, pt_raw_delay_ms = y\<rparr>"
  have k: "LinearFitSlope real_fp [?p 0 1, ?p 2 5] = Some 2" by (simp add: LinearFitSlope_def)
  show ?thesis using LinearFitSlope_least_squares [of "[?p 0 1, ?p 2 5]" 3 1] k by (simp add: Let_def mean_def)
qed

theorem steady_path_is_normal_witness: "EstimatorState (estimator_run real_fp (map (delayed 0) [1..30])) = kBwNormal"
  by (rule steady_path_is_normal) (auto simp: delayed_def)

end
