(* ===== verification/Stun.thy ===== *)
theory Stun
  imports Byte_Buffer Crc32 Base_Utils
begin

text \<open>
  STUN binding requests and responses, \<^verbatim>\<open>src/src/ice/stun_common.{h,cpp}\<close> and \<^verbatim>\<open>src/src/ice/stun_message.{h,cpp}\<close>.
  Strings are byte lists. HMAC-SHA1 is OpenSSL's: it is the parameter \<open>hmac\<close> of key and data, and what is
  used of it is that its result has 20 bytes. The attribute handlers of \<open>Parse\<close> read at the cursor without
  asking the reader how much is left: such a read is the outcome \<open>OutOfBounds\<close>. A message that fails to
  parse is dropped by its only caller, so a failure carries no state. The buffer a response is written to
  comes from the memory pool and is the argument \<open>mem\<close>.
\<close>

section \<open>The code\<close>

definition kStunAttributeHeaderSize :: nat where "kStunAttributeHeaderSize = 4"
definition kStunHeaderSize :: nat where "kStunHeaderSize = 20"
definition kStunTransactionIdLength :: nat where "kStunTransactionIdLength = 12"
definition kStunMagicCookie :: u32 where "kStunMagicCookie = 0x2112A442"
definition kLengthOffset :: nat where "kLengthOffset = 2"
definition kFingerprintAttrLength :: nat where "kFingerprintAttrLength = 4"
definition kXorMappedAddressAttributeLength :: nat where "kXorMappedAddressAttributeLength = 8"
definition kMessageIntegrityAttributeLength :: nat where "kMessageIntegrityAttributeLength = 20"
definition kSha1ResultLength :: nat where "kSha1ResultLength = 20"

definition kBindingResponse :: u16 where "kBindingResponse = 0x0101"
definition kAttrUsername :: u16 where "kAttrUsername = 0x0006"
definition kAttrMessageIntegrity :: u16 where "kAttrMessageIntegrity = 0x0008"
definition kAttrXorMappedAddress :: u16 where "kAttrXorMappedAddress = 0x0020"
definition kAttrUseCandidate :: u16 where "kAttrUseCandidate = 0x0025"
definition kAttrFingerprint :: u16 where "kAttrFingerprint = 0x8028"

lemmas stun_consts = kStunAttributeHeaderSize_def kStunHeaderSize_def kStunTransactionIdLength_def kLengthOffset_def
  kFingerprintAttrLength_def kXorMappedAddressAttributeLength_def kMessageIntegrityAttributeLength_def kSha1ResultLength_def
lemmas stun_attrs = kAttrUsername_def kAttrMessageIntegrity_def kAttrXorMappedAddress_def kAttrUseCandidate_def kAttrFingerprint_def

definition IsStun :: "bytes \<Rightarrow> bool" where
  "IsStun data \<longleftrightarrow> 20 \<le> length data \<and> data ! 0 < 3 \<and> LoadUInt32BE (drop 4 data) = kStunMagicCookie"

definition MakeUfrag :: "bytes \<Rightarrow> bytes \<Rightarrow> bytes" where
  "MakeUfrag room_id stream_id = room_id @ [0x2F] @ stream_id"

definition ExtractUfragInfo :: "bytes \<Rightarrow> (bytes \<times> bytes) option" where
  "ExtractUfragInfo ufrag =
     (case StringSplit ufrag [0x2F] of Some [room_id, stream_id] \<Rightarrow> Some (room_id, stream_id) | _ \<Rightarrow> None)"

text \<open>The padding is added in sixteen bits, so that lengths from 65533 on become zero.\<close>

definition pad_length :: "u16 \<Rightarrow> u16" where
  "pad_length len = (if len mod 4 \<noteq> 0 then len + (4 - len mod 4) else len)"

definition ReadAttributeHeader :: "byte_reader \<Rightarrow> (u16 \<times> u16 \<times> byte_reader) option" where
  "ReadAttributeHeader r = do { (t, r) \<leftarrow> ReadUInt16 r; (len, r) \<leftarrow> ReadUInt16 r; Some (t, len, r) }"

lemma ReadAttributeHeader_left: "ReadAttributeHeader r = Some (t, len, q) \<Longrightarrow> ReaderLeft q < ReaderLeft r"
  by (auto simp: ReadAttributeHeader_def ReadUInt16_def ReaderLeft_def bind_eq_Some_conv split: if_splits)

lemma ReaderConsume_left: "ReaderConsume n r = Some q \<Longrightarrow> ReaderLeft q \<le> ReaderLeft r"
  by (auto simp: ReaderConsume_def ReaderLeft_def split: if_splits)

definition local_part :: "bytes \<Rightarrow> bytes outcome" where
  "local_part user_name = (case StringSplit user_name [0x3A] of Some [a, b] \<Rightarrow> Returns a | _ \<Rightarrow> Fails)"

function find_username :: "byte_reader \<Rightarrow> bytes outcome" where
  "find_username r =
     (if ReaderLeft r = 0 then Fails
      else case ReadAttributeHeader r of
        None \<Rightarrow> Fails
      | Some (t, len, r) \<Rightarrow>
          if t = kAttrUsername then
            if ReaderLeft r < unat len then OutOfBounds else local_part (take (unat len) (CurrentData r))
          else case ReaderConsume (unat (pad_length len)) r of None \<Rightarrow> Fails | Some r \<Rightarrow> find_username r)"
  by pat_completeness auto
termination
  by (relation "measure ReaderLeft") (auto dest!: ReadAttributeHeader_left ReaderConsume_left)

definition FastGetLocalUfrag :: "bytes \<Rightarrow> bytes outcome" where
  "FastGetLocalUfrag data = (case ReaderConsume 20 (ByteReader data) of None \<Rightarrow> Fails | Some r \<Rightarrow> find_username r)"

text \<open>A UDP endpoint of boost: the address as the code reads it, and the port.\<close>

datatype endpoint = V4 u32 u16 | V6 bytes u16

record StunMessage =
  transaction_id :: bytes
  mapped_endpoint :: "endpoint option"
  stun_data :: bytes
  stun_size :: nat
  has_use_candidate :: bool
  local_ufrag :: bytes
  local_password :: bytes
  remote_ufrag :: bytes

definition new_stun :: "bytes \<Rightarrow> bytes \<Rightarrow> bytes \<Rightarrow> StunMessage" where
  "new_stun lu pw ru = \<lparr>transaction_id = [], mapped_endpoint = None, stun_data = [], stun_size = 0,
     has_use_candidate = False, local_ufrag = lu, local_password = pw, remote_ufrag = ru\<rparr>"

text \<open>What the attribute loop gathers: the position of MESSAGE-INTEGRITY and whether FINGERPRINT and
  USE-CANDIDATE were seen.\<close>

record stun_scan =
  integrity_at :: "nat option"
  has_fingerprint :: bool
  use_candidate_seen :: bool

definition stun_attribute :: "bytes \<Rightarrow> bytes \<Rightarrow> u16 \<Rightarrow> u16 \<Rightarrow> byte_reader \<Rightarrow> stun_scan \<Rightarrow> stun_scan outcome" where
  "stun_attribute data user t len r s =
     (if t = kAttrUsername then
        if ReaderLeft r < unat len then OutOfBounds
        else if take (unat len) (CurrentData r) \<noteq> user then Fails else Returns s
      else if t = kAttrMessageIntegrity then Returns (s\<lparr>integrity_at := Some (ReaderUsed r - kStunAttributeHeaderSize)\<rparr>)
      else if t = kAttrFingerprint then
        if ReaderLeft r < 4 then OutOfBounds
        else if LoadUInt32BE (CurrentData r) \<noteq> Calculate (take (ReaderUsed r - kStunAttributeHeaderSize) data) XOR 0x5354554e
          then Fails else Returns (s\<lparr>has_fingerprint := True\<rparr>)
      else if t = kAttrUseCandidate then Returns (s\<lparr>use_candidate_seen := True\<rparr>)
      else Returns s)"

function stun_loop :: "bytes \<Rightarrow> bytes \<Rightarrow> byte_reader \<Rightarrow> stun_scan \<Rightarrow> stun_scan outcome" where
  "stun_loop data user r s =
     (if ReaderLeft r = 0 then Returns s
      else case ReadAttributeHeader r of
        None \<Rightarrow> Fails
      | Some (t, len, r) \<Rightarrow>
          case stun_attribute data user t len r s of
            OutOfBounds \<Rightarrow> OutOfBounds
          | Fails \<Rightarrow> Fails
          | Returns s \<Rightarrow>
              case ReaderConsume (unat (pad_length len)) r of None \<Rightarrow> Fails | Some r \<Rightarrow> stun_loop data user r s)"
  by pat_completeness auto
termination
  by (relation "measure (\<lambda>(_, _, r, _). ReaderLeft r)") (auto dest!: ReadAttributeHeader_left ReaderConsume_left)

declare find_username.simps [simp del] stun_loop.simps [simp del]

definition ReadStunHeader :: "bytes \<Rightarrow> byte_reader \<Rightarrow> (bytes \<times> byte_reader) option" where
  "ReadStunHeader tid r = do {
     (_, r) \<leftarrow> ReadUInt16 r;
     (_, r) \<leftarrow> ReadUInt16 r;
     (magic_cookie, r) \<leftarrow> ReadUInt32 r;
     if magic_cookie \<noteq> kStunMagicCookie then None else ReadString tid kStunTransactionIdLength r }"

definition set_length :: "nat \<Rightarrow> bytes \<Rightarrow> bytes" where
  "set_length n data = overwrite data kLengthOffset (StoreUInt16BE (of_nat n))"

definition check_integrity :: "(bytes \<Rightarrow> bytes \<Rightarrow> bytes) \<Rightarrow> bytes \<Rightarrow> bytes \<Rightarrow> stun_scan \<Rightarrow> bytes outcome" where
  "check_integrity hmac password data s =
     (case integrity_at s of
        None \<Rightarrow> Returns data
      | Some start \<Rightarrow>
          let data' = (if has_fingerprint s
                then set_length (length data - kStunHeaderSize - kFingerprintAttrLength - kStunAttributeHeaderSize) data else data)
          in if length data < start + kStunAttributeHeaderSize + kSha1ResultLength then OutOfBounds
          else if take kSha1ResultLength (drop (start + kStunAttributeHeaderSize) data') \<noteq> hmac password (take start data') then Fails
          else Returns (if has_fingerprint s then set_length (length data - kStunHeaderSize) data' else data'))"

text \<open>The value is the message and the datagram, whose length field the check rewrites.\<close>

definition StunParse :: "(bytes \<Rightarrow> bytes \<Rightarrow> bytes) \<Rightarrow> bytes \<Rightarrow> StunMessage \<Rightarrow> (StunMessage \<times> bytes) outcome" where
  "StunParse hmac data msg =
     (case ReadStunHeader (transaction_id msg) (ByteReader data) of
        None \<Rightarrow> Fails
      | Some (tid, r) \<Rightarrow>
          bind_outcome (stun_loop data (local_ufrag msg @ [0x3A] @ remote_ufrag msg) r
              \<lparr>integrity_at = None, has_fingerprint = False, use_candidate_seen = has_use_candidate msg\<rparr>) (\<lambda>s.
          bind_outcome (check_integrity hmac (local_password msg) data s) (\<lambda>data.
          Returns (msg\<lparr>transaction_id := tid, has_use_candidate := use_candidate_seen s\<rparr>, data))))"

definition SetXorMappedAddress :: "endpoint \<Rightarrow> StunMessage \<Rightarrow> StunMessage" where
  "SetXorMappedAddress e msg = msg\<lparr>mapped_endpoint := Some e\<rparr>"

definition write_mapped :: "endpoint option \<Rightarrow> byte_writer \<Rightarrow> byte_writer option" where
  "write_mapped e w =
     (case e of
        Some (V4 address port) \<Rightarrow> do {
          w \<leftarrow> WriteUInt16 kAttrXorMappedAddress w;
          w \<leftarrow> WriteUInt16 (of_nat kXorMappedAddressAttributeLength) w;
          w \<leftarrow> WriteUInt8 0 w;
          w \<leftarrow> WriteUInt8 0x01 w;
          w \<leftarrow> WriteUInt16 (port XOR ucast (drop_bit 16 kStunMagicCookie)) w;
          WriteUInt32 (address XOR kStunMagicCookie) w }
      | _ \<Rightarrow> Some w)"

definition patch_length :: "nat \<Rightarrow> byte_writer \<Rightarrow> byte_writer" where
  "patch_length n w = w\<lparr>bw_bytes := overwrite (bw_bytes w) 2 (StoreUInt16BE (of_nat n))\<rparr>"

definition CreateResponse :: "(bytes \<Rightarrow> bytes \<Rightarrow> bytes) \<Rightarrow> bytes \<Rightarrow> StunMessage \<Rightarrow> StunMessage option" where
  "CreateResponse hmac mem msg = do {
     let attrs_size = kStunAttributeHeaderSize + kXorMappedAddressAttributeLength + kStunAttributeHeaderSize + kMessageIntegrityAttributeLength;
     let sz = kStunHeaderSize + attrs_size + kStunAttributeHeaderSize + kFingerprintAttrLength;
     let w = ByteWriter mem sz;
     w \<leftarrow> WriteUInt16 kBindingResponse w;
     w \<leftarrow> WriteUInt16 (of_nat (sz - kStunHeaderSize)) w;
     w \<leftarrow> WriteUInt32 kStunMagicCookie w;
     w \<leftarrow> WriteString (transaction_id msg) w;
     w \<leftarrow> write_mapped (mapped_endpoint msg) w;
     let w = patch_length attrs_size w;
     let result = hmac (local_password msg) (take (WriterUsed w) (bw_bytes w));
     w \<leftarrow> WriteUInt16 kAttrMessageIntegrity w;
     w \<leftarrow> WriteUInt16 (of_nat kSha1ResultLength) w;
     w \<leftarrow> WriteBytes result w;
     let w = patch_length (attrs_size + kStunAttributeHeaderSize + kFingerprintAttrLength) w;
     let crc32 = Calculate (take (WriterUsed w) (bw_bytes w));
     w \<leftarrow> WriteUInt16 kAttrFingerprint w;
     w \<leftarrow> WriteUInt16 (of_nat kFingerprintAttrLength) w;
     w \<leftarrow> WriteUInt32 (crc32 XOR 0x5354554e) w;
     Some (msg\<lparr>stun_data := bw_bytes w, stun_size := sz\<rparr>) }"

section \<open>Walking the attributes\<close>

definition enc_attribute :: "u16 \<Rightarrow> u16 \<Rightarrow> bytes \<Rightarrow> bytes" where
  "enc_attribute t len v = StoreUInt16BE t @ StoreUInt16BE len @ v"

lemma length_enc_attribute [simp]: "length (enc_attribute t len v) = 4 + length v"
  by (simp add: enc_attribute_def)

lemma ReadAttributeHeader_enc:
  assumes "reader_ok r" "CurrentData r = enc_attribute t len v @ rest"
  shows "ReadAttributeHeader r = Some (t, len, skip r 4)"
  using assms by (simp add: ReadAttributeHeader_def reader_step reader_ok_skip enc_attribute_def)

lemma skip_attribute:
  assumes "reader_ok r" "CurrentData r = enc_attribute t len v @ rest"
  shows "reader_ok (skip r 4)" "CurrentData (skip r 4) = v @ rest" "ReaderLeft (skip r 4) = length v + length rest"
    and "ReaderLeft r = 4 + length v + length rest" "reader_ok (skip r (4 + length v))" "CurrentData (skip r (4 + length v)) = rest"
    and "ReaderConsume (length v) (skip r 4) = Some (skip r (4 + length v))"
proof -
  show s: "reader_ok (skip r 4)" "CurrentData (skip r 4) = v @ rest"
    using assms by (simp_all add: reader_ok_skip enc_attribute_def)
  show "ReaderLeft (skip r 4) = length v + length rest" "ReaderLeft r = 4 + length v + length rest"
    using ReaderLeft_rest [OF s(1)] ReaderLeft_rest [OF assms(1)] s(2) assms(2) by simp_all
  show "reader_ok (skip r (4 + length v))" "CurrentData (skip r (4 + length v)) = rest"
    using assms by (simp_all add: reader_ok_skip enc_attribute_def)
  show "ReaderConsume (length v) (skip r 4) = Some (skip r (4 + length v))"
    using s by (simp add: reader_step)
qed

lemma stun_loop_end: "reader_ok r \<Longrightarrow> CurrentData r = [] \<Longrightarrow> stun_loop data user r s = Returns s"
  by (subst stun_loop.simps) (simp add: ReaderLeft_rest)

lemma stun_loop_attribute:
  assumes r: "reader_ok r" "CurrentData r = enc_attribute t len v @ rest" and v: "length v = unat (pad_length len)"
    and a: "stun_attribute data user t len (skip r 4) s = Returns s'"
  shows "stun_loop data user r s = stun_loop data user (skip r (4 + length v)) s'"
  using ReadAttributeHeader_enc [OF r] skip_attribute [OF r] a
  by (subst stun_loop.simps) (simp add: v [symmetric])

section \<open>The user name\<close>

lemma StringSplit_pair:
  assumes "a \<noteq> []" "b \<noteq> []" "c \<notin> set a" "c \<notin> set b"
  shows "StringSplit (a @ [c] @ b) [c] = Some [a, b]"
proof -
  have f: "Base_Utils.fields c b = [b]" using assms(4) by (induction b) auto
  have "Base_Utils.fields c (a @ [c] @ b) = [a, b]" using assms(3) f by (induction a) auto
  then show ?thesis using assms(1,2) StringSplit_char [of "a @ [c] @ b" c] by simp
qed

lemma local_part_pair:
  "a \<noteq> [] \<Longrightarrow> b \<noteq> [] \<Longrightarrow> 0x3A \<notin> set a \<Longrightarrow> 0x3A \<notin> set b \<Longrightarrow> local_part (a @ [0x3A] @ b) = Returns a"
  unfolding local_part_def by (subst StringSplit_pair) simp_all

lemma find_username_first:
  assumes "reader_ok r" "CurrentData r = enc_attribute kAttrUsername len v @ rest" "unat len \<le> length v"
  shows "find_username r = local_part (take (unat len) v)"
  using ReadAttributeHeader_enc [OF assms(1,2)] skip_attribute [OF assms(1,2)] assms(3)
  by (subst find_username.simps) simp

lemma find_username_other:
  assumes "reader_ok r" "CurrentData r = enc_attribute t len v @ rest" "t \<noteq> kAttrUsername" "length v = unat (pad_length len)"
  shows "find_username r = find_username (skip r (4 + length v))"
  using ReadAttributeHeader_enc [OF assms(1,2)] skip_attribute [OF assms(1,2)] assms(3)
  by (subst find_username.simps) (simp add: assms(4) [symmetric])

text \<open>A list of padded attributes, and the header they follow.\<close>

definition well_padded :: "(u16 \<times> u16 \<times> bytes) list \<Rightarrow> bool" where
  "well_padded as \<longleftrightarrow> (\<forall>(t, len, v) \<in> set as. length v = unat (pad_length len))"

definition enc_attributes :: "(u16 \<times> u16 \<times> bytes) list \<Rightarrow> bytes" where
  "enc_attributes as = concat (map (\<lambda>(t, len, v). enc_attribute t len v) as)"

lemma find_username_after:
  assumes "reader_ok r" "CurrentData r = enc_attributes as @ rest" "well_padded as" "\<forall>(t, len, v) \<in> set as. t \<noteq> kAttrUsername"
  shows "find_username r = find_username (skip r (length (enc_attributes as)))"
  using assms
proof (induction as arbitrary: r)
  case (Cons a as)
  obtain t len v where a: "a = (t, len, v)" by (cases a)
  have c: "CurrentData r = enc_attribute t len v @ enc_attributes as @ rest" using Cons.prems(2) a by (simp add: enc_attributes_def)
  have l: "t \<noteq> kAttrUsername" "length v = unat (pad_length len)" using Cons.prems(3,4) a by (auto simp: well_padded_def)
  note sk = skip_attribute [OF Cons.prems(1) c]
  have "find_username r = find_username (skip r (4 + length v))" by (rule find_username_other [OF Cons.prems(1) c l])
  also have "\<dots> = find_username (skip (skip r (4 + length v)) (length (enc_attributes as)))"
    using Cons.prems(3,4) by (intro Cons.IH [OF sk(5,6)]) (auto simp: well_padded_def)
  finally show ?case using a by (simp add: enc_attributes_def)
qed (simp add: enc_attributes_def)

text \<open>The demultiplexer finds the stream a STUN request is for: in a request whose first USERNAME, after
  any other attributes, is the server's user name fragment and the client's, the room and the stream that the
  fragment was made from are recovered, provided neither name is empty or contains one of the separators.\<close>

theorem ufrag_finds_stream:
  assumes "length hdr = 20" "well_padded as" "\<forall>(t, len, v) \<in> set as. t \<noteq> kAttrUsername"
    and "user = MakeUfrag room stream @ [0x3A] @ remote" "unat len = length user"
    and "room \<noteq> []" "stream \<noteq> []" "remote \<noteq> []"
    and "{0x2F, 0x3A} \<inter> (set room \<union> set stream) = {}" "0x3A \<notin> set remote"
    and "data = hdr @ enc_attributes as @ enc_attribute kAttrUsername len (user @ padding) @ rest"
  shows "\<exists>ufrag. FastGetLocalUfrag data = Returns ufrag \<and> ExtractUfragInfo ufrag = Some (room, stream)"
proof -
  let ?u = "MakeUfrag room stream" and ?r = "skip (ByteReader data) 20"
  have r: "reader_ok ?r" "CurrentData ?r = enc_attributes as @ enc_attribute kAttrUsername len (user @ padding) @ rest"
    using assms(1,11) by (simp_all add: reader_ok_skip)
  have c: "ReaderConsume 20 (ByteReader data) = Some ?r" using assms(1,11) by (simp add: reader_step)
  let ?q = "skip ?r (length (enc_attributes as))"
  have q: "reader_ok ?q" "CurrentData ?q = enc_attribute kAttrUsername len (user @ padding) @ rest"
    by (simp_all only: reader_ok_skip [OF r(1)] CurrentData_skip [of ?r] r(2)) simp_all
  have "FastGetLocalUfrag data = find_username ?q"
    unfolding FastGetLocalUfrag_def c using find_username_after [OF r assms(2,3)] by simp
  also have "\<dots> = local_part user" using find_username_first [OF q] assms(5) by simp
  also have "\<dots> = Returns ?u"
    unfolding assms(4) using assms(6-10) by (intro local_part_pair) (auto simp: MakeUfrag_def)
  finally have "FastGetLocalUfrag data = Returns ?u" .
  moreover have "StringSplit ?u [0x2F] = Some [room, stream]"
    unfolding MakeUfrag_def using assms(6,7,9) by (intro StringSplit_pair) auto
  then have "ExtractUfragInfo ?u = Some (room, stream)" by (simp add: ExtractUfragInfo_def)
  ultimately show ?thesis by blast
qed

text \<open>Room \<open>r1\<close>, stream \<open>s\<close>, after one attribute of another type.\<close>

theorem ufrag_finds_stream_witness:
  "\<exists>ufrag. FastGetLocalUfrag (replicate 20 0 @ [0, 0x24, 0, 2, 1, 1, 0, 0] @ [0, 6, 0, 6, 0x72, 0x31, 0x2F, 0x73, 0x3A, 0x78, 0, 0]) = Returns ufrag
     \<and> ExtractUfragInfo ufrag = Some ([0x72, 0x31], [0x73])"
  by (rule ufrag_finds_stream [of "replicate 20 0" "[(0x24, 2, [1, 1, 0, 0])]" "[0x72, 0x31, 0x2F, 0x73, 0x3A, 0x78]" "[0x72, 0x31]" "[0x73]" "[0x78]"
        6 _ "[0, 0]" "[]"])
    (simp_all add: well_padded_def enc_attributes_def enc_attribute_def pad_length_def kAttrUsername_def MakeUfrag_def StoreUInt16BE_def)

section \<open>Signed messages\<close>

text \<open>A message of the attributes \<open>as\<close> that is signed with \<open>mac\<close> and carries a fingerprint. The code the sender
  computes is over the message up to MESSAGE-INTEGRITY, with a length field that ends there.\<close>

definition stun_head :: "u16 \<Rightarrow> nat \<Rightarrow> bytes \<Rightarrow> (u16 \<times> u16 \<times> bytes) list \<Rightarrow> bytes" where
  "stun_head t n tid as = StoreUInt16BE t @ StoreUInt16BE (of_nat n) @ StoreUInt32BE kStunMagicCookie @ tid @ enc_attributes as"

definition attrs_len :: "(u16 \<times> u16 \<times> bytes) list \<Rightarrow> nat" where
  "attrs_len as = length (enc_attributes as)"

definition stun_signed :: "u16 \<Rightarrow> nat \<Rightarrow> bytes \<Rightarrow> (u16 \<times> u16 \<times> bytes) list \<Rightarrow> bytes \<Rightarrow> bytes" where
  "stun_signed t n tid as mac = stun_head t n tid as @ enc_attribute kAttrMessageIntegrity 20 mac"

definition stun_full :: "u16 \<Rightarrow> bytes \<Rightarrow> (u16 \<times> u16 \<times> bytes) list \<Rightarrow> bytes \<Rightarrow> bytes" where
  "stun_full t tid as mac = (let n = attrs_len as + 32 in stun_signed t n tid as mac
     @ enc_attribute kAttrFingerprint 4 (StoreUInt32BE (Calculate (stun_signed t n tid as mac) XOR 0x5354554e)))"

lemma set_length_head: "set_length n (stun_head t l tid as @ rest) = stun_head t n tid as @ rest"
  by (simp add: set_length_def stun_head_def overwrite_def kLengthOffset_def)

lemma ReadStunHeader_enc:
  assumes "reader_ok r" "CurrentData r = StoreUInt16BE t @ StoreUInt16BE n @ StoreUInt32BE kStunMagicCookie @ tid @ rest" "length tid = 12"
  shows "ReadStunHeader [] r = Some (tid, skip r 20)"
  using assms by (simp add: ReadStunHeader_def reader_step reader_ok_skip stun_consts)

text \<open>The attributes before the signature are neither signature nor fingerprint, and a USERNAME is the expected one.\<close>

definition plain :: "bytes \<Rightarrow> (u16 \<times> u16 \<times> bytes) list \<Rightarrow> bool" where
  "plain user as \<longleftrightarrow> well_padded as \<and> (\<forall>(t, len, v) \<in> set as. t \<noteq> kAttrMessageIntegrity \<and> t \<noteq> kAttrFingerprint
     \<and> (t = kAttrUsername \<longrightarrow> unat len \<le> length v \<and> take (unat len) v = user))"

definition nominates :: "(u16 \<times> u16 \<times> bytes) list \<Rightarrow> bool" where
  "nominates as \<longleftrightarrow> kAttrUseCandidate \<in> fst ` set as"

lemma stun_loop_plain:
  assumes "reader_ok r" "CurrentData r = enc_attributes as @ rest" "plain user as"
  shows "stun_loop data user r s = stun_loop data user (skip r (attrs_len as))
       (s\<lparr>use_candidate_seen := use_candidate_seen s \<or> nominates as\<rparr>)
     \<and> reader_ok (skip r (attrs_len as)) \<and> CurrentData (skip r (attrs_len as)) = rest"
  using assms
proof (induction as arbitrary: r s)
  case (Cons a as)
  obtain t len v where a: "a = (t, len, v)" by (cases a)
  have c: "CurrentData r = enc_attribute t len v @ enc_attributes as @ rest" using Cons.prems(2) a by (simp add: enc_attributes_def)
  have l: "length v = unat (pad_length len)" "t \<noteq> kAttrMessageIntegrity" "t \<noteq> kAttrFingerprint"
    "t = kAttrUsername \<Longrightarrow> unat len \<le> length v \<and> take (unat len) v = user" and p: "plain user as"
    using Cons.prems(3) a by (auto simp: plain_def well_padded_def)
  note sk = skip_attribute [OF Cons.prems(1) c]
  let ?s = "s\<lparr>use_candidate_seen := use_candidate_seen s \<or> t = kAttrUseCandidate\<rparr>"
  have at: "stun_attribute data user t len (skip r 4) s = Returns ?s"
    using l(2,3) l(4) sk(2,3) by (auto simp: stun_attribute_def) (auto simp: stun_attrs)
  have e: "attrs_len (a # as) = 4 + length v + attrs_len as" "nominates (a # as) \<longleftrightarrow> t = kAttrUseCandidate \<or> nominates as"
    using a by (auto simp: attrs_len_def enc_attributes_def nominates_def)
  show ?case
    using stun_loop_attribute [OF Cons.prems(1) c l(1) at] Cons.IH [OF sk(5,6) p, of ?s] unfolding e
    by (simp add: disj_assoc add.assoc)
qed (simp add: enc_attributes_def attrs_len_def nominates_def)

text \<open>The parser takes the message exactly if the code is right.\<close>

lemma signed_parsed:
  assumes tid: "length tid = 12" and mac: "length mac = 20" and p: "plain (lu @ [0x3A] @ ru) as"
  shows "StunParse hmac (stun_full t tid as mac) (new_stun lu pw ru)
     = (if mac = hmac pw (stun_head t (attrs_len as + 24) tid as)
        then Returns ((new_stun lu pw ru)\<lparr>transaction_id := tid, has_use_candidate := nominates as\<rparr>, stun_full t tid as mac) else Fails)"
proof -
  let ?m = "attrs_len as" and ?d = "stun_full t tid as mac"
  define H where "H = (\<lambda>n. stun_head t n tid as)"
  define S where "S = stun_signed t (?m + 32) tid as mac"
  define f where "f = StoreUInt32BE (Calculate S XOR 0x5354554e)"
  have S: "S = H (?m + 32) @ enc_attribute kAttrMessageIntegrity 20 mac" by (simp add: S_def H_def stun_signed_def)
  have d: "?d = S @ enc_attribute kAttrFingerprint 4 f" by (simp add: stun_full_def Let_def S_def f_def)
  have lH: "length (H n) = 20 + ?m" for n using tid by (simp add: H_def stun_head_def attrs_len_def)
  have len: "length S = ?m + 44" "length f = 4" "length ?d = ?m + 52" using lH mac by (simp_all add: S f_def d)
  let ?r0 = "skip (ByteReader ?d) 20"
  have rd: "ReadStunHeader [] (ByteReader ?d) = Some (tid, ?r0)"
    using tid by (intro ReadStunHeader_enc) (simp_all add: d S H_def stun_head_def)
  have r0: "reader_ok ?r0" "CurrentData ?r0 = enc_attributes as @ enc_attribute kAttrMessageIntegrity 20 mac @ enc_attribute kAttrFingerprint 4 f"
    using tid len by (simp_all add: reader_ok_skip d S H_def stun_head_def)
  let ?u = "lu @ [0x3A] @ ru" and ?s0 = "\<lparr>integrity_at = None, has_fingerprint = False, use_candidate_seen = False\<rparr>"
  let ?s1 = "?s0\<lparr>use_candidate_seen := nominates as\<rparr>" and ?r1 = "skip ?r0 ?m"
  let ?s2 = "?s1\<lparr>integrity_at := Some (?m + 20)\<rparr>" and ?s3 = "?s1\<lparr>integrity_at := Some (?m + 20), has_fingerprint := True\<rparr>"
  have l1: "stun_loop ?d ?u ?r0 ?s0 = stun_loop ?d ?u ?r1 ?s1" "reader_ok ?r1"
    "CurrentData ?r1 = enc_attribute kAttrMessageIntegrity 20 mac @ enc_attribute kAttrFingerprint 4 f"
    using stun_loop_plain [OF r0 p, of ?d ?s0] by simp_all
  note k1 = skip_attribute [OF l1(2,3)]
  let ?r2 = "skip ?r1 (4 + length mac)"
  have c2: "CurrentData ?r2 = enc_attribute kAttrFingerprint 4 f @ []" using k1(6) by simp
  note k2 = skip_attribute [OF k1(5) c2]
  have "stun_loop ?d ?u ?r1 ?s1 = stun_loop ?d ?u ?r2 ?s2"
    using mac by (intro stun_loop_attribute [OF l1(2,3)])
      (simp_all add: pad_length_def stun_attribute_def stun_attrs ReaderUsed_def skip_def ByteReader_def stun_consts)
  also have "\<dots> = stun_loop ?d ?u (skip ?r2 (4 + length f)) ?s3"
  proof (rule stun_loop_attribute [OF k1(5) c2])
    have "take (ReaderUsed (skip ?r2 4) - kStunAttributeHeaderSize) ?d = S"
      using len mac by (simp add: ReaderUsed_def skip_def ByteReader_def stun_consts d)
    then show "stun_attribute ?d ?u kAttrFingerprint 4 (skip ?r2 4) ?s2 = Returns ?s3"
      unfolding stun_attribute_def k2(2,3) using len(2) Load_Store_32 [of _ "[]", unfolded append_Nil2] by (simp add: stun_attrs f_def)
  qed (simp add: len pad_length_def)
  also have "\<dots> = Returns ?s3" using k2(5,6) by (intro stun_loop_end)
  finally have lp: "stun_loop ?d ?u ?r0 ?s0 = Returns ?s3" unfolding l1(1) .
  define D where "D = set_length (?m + 24) ?d"
  have D: "D = H (?m + 24) @ enc_attribute kAttrMessageIntegrity 20 mac @ enc_attribute kAttrFingerprint 4 f"
    unfolding D_def d S H_def by (simp add: set_length_head)
  have s32: "set_length (?m + 32) D = ?d" unfolding D d S H_def by (simp add: set_length_head)
  have tk: "take 20 (drop (?m + 24) D) = mac" "take (?m + 20) D = H (?m + 24)"
    using mac lH [of "?m + 24"] by (simp_all add: D enc_attribute_def)
  define d0 h0 where "d0 = ?d" "h0 = hmac pw (H (?m + 24))"
  have d0: "length d0 = ?m + 52" "set_length (?m + 24) d0 = D" "set_length (?m + 32) D = d0"
    using len(3) s32 by (simp_all add: d0_h0_def D_def)
  have "check_integrity hmac pw d0 ?s3 = (if mac = h0 then Returns d0 else Fails)"
    using d0 d0 [unfolded add.commute [of ?m]] tk tk [unfolded add.commute [of ?m]]
    by (simp add: check_integrity_def stun_consts Let_def d0_h0_def(2))
  then have ck: "check_integrity hmac pw ?d ?s3 = (if mac = hmac pw (H (?m + 24)) then Returns ?d else Fails)"
    by (simp only: d0_h0_def)
  show ?thesis using rd lp ck by (simp add: StunParse_def new_stun_def H_def)
qed

section \<open>The response\<close>

definition enc_mapped :: "endpoint option \<Rightarrow> bytes" where
  "enc_mapped e =
     (case e of
        Some (V4 address port) \<Rightarrow> enc_attribute kAttrXorMappedAddress 8 (StoreUInt8BE 0 @ StoreUInt8BE 0x01
            @ StoreUInt16BE (port XOR 0x2112) @ StoreUInt32BE (address XOR kStunMagicCookie))
      | _ \<Rightarrow> [])"

definition response_head :: "u16 \<Rightarrow> StunMessage \<Rightarrow> bytes" where
  "response_head n msg = StoreUInt16BE kBindingResponse @ StoreUInt16BE n @ StoreUInt32BE kStunMagicCookie
     @ transaction_id msg @ enc_mapped (mapped_endpoint msg)"

definition response_mac :: "(bytes \<Rightarrow> bytes \<Rightarrow> bytes) \<Rightarrow> StunMessage \<Rightarrow> bytes" where
  "response_mac hmac msg = hmac (local_password msg) (response_head 36 msg)"

definition response_signed :: "(bytes \<Rightarrow> bytes \<Rightarrow> bytes) \<Rightarrow> StunMessage \<Rightarrow> u16 \<Rightarrow> bytes" where
  "response_signed hmac msg n = response_head n msg @ enc_attribute kAttrMessageIntegrity 20 (response_mac hmac msg)"

definition response_bytes :: "(bytes \<Rightarrow> bytes \<Rightarrow> bytes) \<Rightarrow> StunMessage \<Rightarrow> bytes" where
  "response_bytes hmac msg = response_signed hmac msg 44
     @ enc_attribute kAttrFingerprint 4 (StoreUInt32BE (Calculate (response_signed hmac msg 44) XOR 0x5354554e))"

lemma length_enc_mapped: "length (enc_mapped e) \<le> 12"
  by (auto simp: enc_mapped_def split: option.split endpoint.split)

lemma write_mapped_put:
  assumes "writer_ok w" "length (enc_mapped e) \<le> WriterLeft w"
  shows "write_mapped e w = Some (put w (enc_mapped e))"
proof (cases e)
  case (Some ep)
  then show ?thesis
  proof (cases ep)
    case (V4 address port)
    have "length (enc_mapped e) = 12" using Some V4 by (simp add: enc_mapped_def)
    then have l: "12 \<le> WriterLeft w" using assms(2) by simp
    have c: "ucast (drop_bit 16 kStunMagicCookie) = (0x2112 :: u16)" by (simp add: kStunMagicCookie_def)
    show ?thesis using assms(1) l Some V4
      by (simp add: write_mapped_def enc_mapped_def enc_attribute_def c writer_simps kXorMappedAddressAttributeLength_def) arith
  qed (simp add: write_mapped_def enc_mapped_def)
qed (simp add: write_mapped_def enc_mapped_def)

lemma patch_put:
  assumes "writer_ok w" "bw_len w = 0" "4 + length rest \<le> WriterLeft w"
  shows "patch_length n (put w (StoreUInt16BE a @ StoreUInt16BE b @ rest)) = put w (StoreUInt16BE a @ StoreUInt16BE (of_nat n) @ rest)"
  using writer_fits [OF assms(1,3)] assms(2) by (simp add: patch_length_def put_def overwrite_def)

lemma written_bytes: "writer_ok w \<Longrightarrow> bw_len w = 0 \<Longrightarrow> length d \<le> WriterLeft w \<Longrightarrow> take (WriterUsed (put w d)) (bw_bytes (put w d)) = d"
  using writer_fits [of w "length d"] by (simp add: WriterUsed_def put_def overwrite_def)

lemma CreateResponse_bytes:
  assumes "length (transaction_id msg) = 12" "\<forall>k d. length (hmac k d) = 20" "64 \<le> length mem"
  shows "CreateResponse hmac mem msg = Some (msg\<lparr>stun_data := overwrite mem 0 (response_bytes hmac msg), stun_size := 64\<rparr>)"
proof -
  let ?w = "ByteWriter mem 64" and ?m = "mapped_endpoint msg"
  have w: "writer_ok ?w" "bw_len ?w = 0" "WriterLeft ?w = 64" using assms(3) by simp_all
  note lm = length_enc_mapped [of ?m]
  let ?h = "\<lambda>n. put ?w (response_head n msg)" and ?s = "\<lambda>n. put ?w (response_signed hmac msg n)"
  have head: "do { w \<leftarrow> WriteUInt16 kBindingResponse ?w; w \<leftarrow> WriteUInt16 (of_nat (64 - kStunHeaderSize)) w;
      w \<leftarrow> WriteUInt32 kStunMagicCookie w; w \<leftarrow> WriteString (transaction_id msg) w; write_mapped ?m w } = Some (?h 44)"
    using w assms(1) lm by (simp add: writer_simps write_mapped_put response_head_def stun_consts)
  have lh: "length (response_head n msg) = 20 + length (enc_mapped ?m)" for n using assms(1) by (simp add: response_head_def)
  have p1: "patch_length 36 (?h 44) = ?h 36"
    unfolding response_head_def using w assms(1) lm by (subst patch_put) simp_all
  have u1: "take (WriterUsed (?h 36)) (bw_bytes (?h 36)) = response_head 36 msg"
    using w lh lm by (intro written_bytes) simp_all
  have ls: "length (response_signed hmac msg n) = 44 + length (enc_mapped ?m)" for n
    using lh assms(2) by (simp add: response_signed_def response_mac_def)
  have tail: "do { w \<leftarrow> WriteUInt16 kAttrMessageIntegrity (?h 36); w \<leftarrow> WriteUInt16 (of_nat kSha1ResultLength) w;
      WriteBytes (response_mac hmac msg) w } = Some (?s 36)"
    using w lh lm assms(2) by (simp add: writer_simps response_signed_def enc_attribute_def response_mac_def stun_consts) arith
  have p2: "patch_length 44 (?s 36) = ?s 44"
    unfolding response_signed_def response_head_def using w assms(1,2) lm
    by (simp only: append_assoc, subst patch_put) (simp_all add: response_mac_def)
  have u2: "take (WriterUsed (?s 44)) (bw_bytes (?s 44)) = response_signed hmac msg 44"
    using w ls lm by (intro written_bytes) simp_all
  have fin: "do { w \<leftarrow> WriteUInt16 kAttrFingerprint (?s 44); w \<leftarrow> WriteUInt16 (of_nat kFingerprintAttrLength) w;
      WriteUInt32 (Calculate (response_signed hmac msg 44) XOR 0x5354554e) w } = Some (put ?w (response_bytes hmac msg))"
    using w ls lm by (simp add: writer_simps response_bytes_def enc_attribute_def stun_consts) arith
  have "CreateResponse hmac mem msg = do {
      w \<leftarrow> do { w \<leftarrow> WriteUInt16 kBindingResponse ?w; w \<leftarrow> WriteUInt16 (of_nat (64 - kStunHeaderSize)) w;
        w \<leftarrow> WriteUInt32 kStunMagicCookie w; w \<leftarrow> WriteString (transaction_id msg) w; write_mapped ?m w };
      let w = patch_length 36 w;
      let mac = hmac (local_password msg) (take (WriterUsed w) (bw_bytes w));
      w \<leftarrow> do { w \<leftarrow> WriteUInt16 kAttrMessageIntegrity w; w \<leftarrow> WriteUInt16 (of_nat kSha1ResultLength) w; WriteBytes mac w };
      let w = patch_length 44 w;
      let crc = Calculate (take (WriterUsed w) (bw_bytes w));
      w \<leftarrow> do { w \<leftarrow> WriteUInt16 kAttrFingerprint w; w \<leftarrow> WriteUInt16 (of_nat kFingerprintAttrLength) w; WriteUInt32 (crc XOR 0x5354554e) w };
      Some (msg\<lparr>stun_data := bw_bytes w, stun_size := 64\<rparr>) }"
    by (simp add: CreateResponse_def Let_def stun_consts Option.bind_assoc)
  also have "\<dots> = Some (msg\<lparr>stun_data := bw_bytes (put ?w (response_bytes hmac msg)), stun_size := 64\<rparr>)"
    unfolding head Option.bind.bind_lunit Let_def p1 u1 response_mac_def [symmetric] tail p2 u2 fin ..
  finally show ?thesis by (simp add: put_def)
qed

text \<open>What the parser sees in the datagram of a response to an IPv4 client.\<close>

lemma response_parsed:
  assumes v4: "mapped_endpoint msg = Some (V4 address port)" and tid: "length (transaction_id msg) = 12"
    and mac: "\<forall>k d. length (hmac k d) = 20"
  shows "StunParse hmac (response_bytes hmac msg) (new_stun lu (local_password msg) ru)
     = Returns ((new_stun lu (local_password msg) ru)\<lparr>transaction_id := transaction_id msg\<rparr>, response_bytes hmac msg)"
proof -
  let ?v = "StoreUInt8BE 0 @ StoreUInt8BE 0x01 @ StoreUInt16BE (port XOR 0x2112) @ StoreUInt32BE (address XOR kStunMagicCookie)"
  let ?as = "[(kAttrXorMappedAddress, 8, ?v)] :: (u16 \<times> u16 \<times> bytes) list"
  have as: "plain (lu @ [0x3A] @ ru) ?as" "attrs_len ?as = 12" "\<not> nominates ?as"
    by (simp_all add: plain_def well_padded_def stun_attrs pad_length_def attrs_len_def enc_attributes_def nominates_def)
  have h: "response_head (of_nat n) msg = stun_head kBindingResponse n (transaction_id msg) ?as" for n
    using v4 by (simp add: response_head_def stun_head_def enc_mapped_def enc_attributes_def)
  have r: "response_bytes hmac msg = stun_full kBindingResponse (transaction_id msg) ?as (response_mac hmac msg)"
    using h [of 44] as(2) by (simp add: response_bytes_def stun_full_def response_signed_def stun_signed_def Let_def)
  have m: "response_mac hmac msg = hmac (local_password msg) (stun_head kBindingResponse (attrs_len ?as + 24) (transaction_id msg) ?as)"
    using h [of 36] as(2) by (simp add: response_mac_def)
  have "length (response_mac hmac msg) = 20" using mac by (simp add: response_mac_def)
  from signed_parsed [OF tid this as(1), of hmac kBindingResponse "local_password msg"] show ?thesis
    unfolding r by (subst (asm) if_P [OF m]) (simp add: as(3) new_stun_def)
qed

text \<open>C21. The binding response answers the request: for a client at an IPv4 address it is a STUN message of 64
  bytes that carries the request's transaction id, whose FINGERPRINT and MESSAGE-INTEGRITY the parser accepts
  under the same password, and whose mapped address decodes to the client's address and port.\<close>

theorem response_roundtrip:
  assumes "mapped_endpoint msg = Some (V4 address port)" "length (transaction_id msg) = 12"
    and "\<forall>k d. length (hmac k d) = 20" "64 \<le> length mem"
  shows "\<exists>r d. CreateResponse hmac mem msg = Some r \<and> stun_size r = 64 \<and> d = take 64 (stun_data r) \<and> IsStun d
     \<and> (\<exists>q. StunParse hmac d (new_stun lu (local_password msg) ru) = Returns (q, d) \<and> transaction_id q = transaction_id msg)
     \<and> LoadUInt16BE (drop 26 d) XOR 0x2112 = port \<and> LoadUInt32BE (drop 28 d) XOR kStunMagicCookie = address"
proof -
  let ?d = "response_bytes hmac msg"
  have l: "length ?d = 64"
    using assms(1-3) by (simp add: response_bytes_def response_signed_def response_head_def response_mac_def enc_mapped_def)
  have t: "take 64 (overwrite mem 0 ?d) = ?d" using l by (simp add: overwrite_def)
  have "drop 26 ?d = StoreUInt16BE (port XOR 0x2112) @ drop 28 ?d" "drop 28 ?d = StoreUInt32BE (address XOR kStunMagicCookie) @ drop 32 ?d"
    using assms(1,2) by (simp_all add: response_bytes_def response_signed_def response_head_def enc_mapped_def enc_attribute_def StoreUInt16BE_def StoreUInt8BE_def StoreUInt32BE_def)
  then have "LoadUInt16BE (drop 26 ?d) XOR 0x2112 = port" "LoadUInt32BE (drop 28 ?d) XOR kStunMagicCookie = address"
    by (simp_all add: xor.assoc del: drop_drop)
  moreover have "IsStun ?d"
    using l by (simp add: IsStun_def response_bytes_def response_signed_def response_head_def kBindingResponse_def StoreUInt16BE_def)
  ultimately show ?thesis
    using CreateResponse_bytes [OF assms(2-4)] response_parsed [OF assms(1-3), of lu ru] t by simp
qed

theorem response_roundtrip_witness:
  "\<exists>r d. CreateResponse (\<lambda>k d. replicate 20 7) (replicate 64 0)
       ((new_stun [1] [2] [3])\<lparr>transaction_id := replicate 12 5, mapped_endpoint := Some (V4 0x7F000001 6666)\<rparr>) = Some r
     \<and> d = take 64 (stun_data r) \<and> LoadUInt16BE (drop 26 d) XOR 0x2112 = 6666"
  using response_roundtrip [where msg = "(new_stun [1] [2] [3])\<lparr>transaction_id := replicate 12 5, mapped_endpoint := Some (V4 0x7F000001 6666)\<rparr>"
      and address = "0x7F000001" and port = 6666 and hmac = "\<lambda>k d. replicate 20 7" and mem = "replicate 64 0"]
  by auto

text \<open>A client at an IPv6 address gets a broken response: the mapped address is not written, but the
  response is still sent as 64 bytes with a length field that counts it, and its last twelve bytes are what the
  pooled buffer happened to hold.\<close>

theorem response_v6_leaks:
  assumes "mapped_endpoint msg = Some (V6 address port)" "length (transaction_id msg) = 12"
    and "\<forall>k d. length (hmac k d) = 20" "64 \<le> length mem"
  shows "\<exists>r. CreateResponse hmac mem msg = Some r \<and> stun_size r = 64 \<and> LoadUInt16BE (drop 2 (stun_data r)) = 44
     \<and> drop 52 (stun_data r) = drop 52 mem"
proof -
  have "length (response_bytes hmac msg) = 52"
    using assms(1-3) by (simp add: response_bytes_def response_signed_def response_head_def response_mac_def enc_mapped_def)
  then have "drop 52 (overwrite mem 0 (response_bytes hmac msg)) = drop 52 mem" by (simp add: overwrite_def)
  moreover have "drop 2 (overwrite mem 0 (response_bytes hmac msg)) = StoreUInt16BE 44 @ drop 4 (overwrite mem 0 (response_bytes hmac msg))"
    by (simp add: overwrite_def response_bytes_def response_signed_def response_head_def StoreUInt16BE_def)
  ultimately show ?thesis using CreateResponse_bytes [OF assms(2-4)] by simp
qed

theorem response_v6_leaks_witness:
  "\<exists>r. CreateResponse (\<lambda>k d. replicate 20 7) (replicate 52 0 @ replicate 12 9)
       ((new_stun [1] [2] [3])\<lparr>transaction_id := replicate 12 5, mapped_endpoint := Some (V6 [] 6666)\<rparr>) = Some r
     \<and> drop 52 (stun_data r) = replicate 12 9"
  using response_v6_leaks [where msg = "(new_stun [1] [2] [3])\<lparr>transaction_id := replicate 12 5, mapped_endpoint := Some (V6 [] 6666)\<rparr>"
      and address = "[]" and port = 6666 and hmac = "\<lambda>k d. replicate 20 7" and mem = "replicate 52 0 @ replicate 12 9"] by auto

end
