(* ===== verification/Ice_Lite.thy ===== *)
theory Ice_Lite
  imports Stun
begin

text \<open>
  The ICE-lite agent, \<^verbatim>\<open>src/src/ice/ice_lite.{h,cpp}\<close>: it answers binding requests and selects the address a
  request with USE-CANDIDATE comes from. Calls of the observer are the list of events an operation returns; \<open>mem\<close>
  is the pooled buffer of the response, and the constructor's password is drawn with \<open>RandomString\<close>.
\<close>

section \<open>The code\<close>

datatype ice_event = IceCompleted | IceError | StunSend bytes nat endpoint

record IceLite =
  ice_local_ufrag :: bytes
  ice_local_password :: bytes
  ice_remote_ufrag :: bytes
  selected_candidate :: endpoint
  old_selected_candidate :: endpoint

definition kDefaultPasswordLength :: nat where "kDefaultPasswordLength = 24"

text \<open>A default-constructed endpoint is address 0.0.0.0 and port 0.\<close>

definition new_ice :: "nat list \<Rightarrow> bytes \<Rightarrow> bytes \<Rightarrow> bytes \<Rightarrow> IceLite" where
  "new_ice draws room_id stream_id ru =
     \<lparr>ice_local_ufrag = MakeUfrag room_id stream_id,
      ice_local_password = map (\<lambda>c. of_nat (of_char c)) (RandomString draws kDefaultPasswordLength),
      ice_remote_ufrag = ru, selected_candidate = V4 0 0, old_selected_candidate = V4 0 0\<rparr>"

definition select_candidate :: "endpoint \<Rightarrow> IceLite \<Rightarrow> IceLite \<times> ice_event list" where
  "select_candidate e ice =
     (let ice = ice\<lparr>old_selected_candidate := selected_candidate ice\<rparr>; ice = ice\<lparr>selected_candidate := e\<rparr>
      in (ice, if old_selected_candidate ice \<noteq> selected_candidate ice then [IceCompleted] else []))"

definition ProcessStunMessage :: "(bytes \<Rightarrow> bytes \<Rightarrow> bytes) \<Rightarrow> bytes \<Rightarrow> bytes \<Rightarrow> endpoint \<Rightarrow> IceLite
    \<Rightarrow> (IceLite \<times> ice_event list) outcome" where
  "ProcessStunMessage hmac mem data remote_ep ice =
     (case StunParse hmac data (new_stun (ice_local_ufrag ice) (ice_local_password ice) (ice_remote_ufrag ice)) of
        OutOfBounds \<Rightarrow> OutOfBounds
      | Fails \<Rightarrow> Returns (ice, [IceError])
      | Returns (msg, _) \<Rightarrow>
          let (ice, es) = (if has_use_candidate msg then select_candidate remote_ep ice else (ice, []))
          in case CreateResponse hmac mem (SetXorMappedAddress remote_ep msg) of
            None \<Rightarrow> Returns (ice, es)
          | Some r \<Rightarrow> Returns (ice, es @ [StunSend (stun_data r) (stun_size r) remote_ep]))"

section \<open>Requests as the agent receives them\<close>

text \<open>The header of a message and a list of padded attributes.\<close>

definition enc_stun :: "u16 \<Rightarrow> bytes \<Rightarrow> (u16 \<times> u16 \<times> bytes) list \<Rightarrow> bytes" where
  "enc_stun t tid as = StoreUInt16BE t @ StoreUInt16BE (of_nat (length (enc_attributes as))) @ StoreUInt32BE kStunMagicCookie
     @ tid @ enc_attributes as"

lemma enc_stun_reader:
  assumes "length tid = 12"
  shows "ReadStunHeader [] (ByteReader (enc_stun t tid as)) = Some (tid, skip (ByteReader (enc_stun t tid as)) 20)"
    and "reader_ok (skip (ByteReader (enc_stun t tid as)) 20)"
    and "CurrentData (skip (ByteReader (enc_stun t tid as)) 20) = enc_attributes as"
  using assms by (auto simp: enc_stun_def reader_ok_skip intro!: ReadStunHeader_enc)

text \<open>Reading an attribute stays inside the datagram when the attributes the parser interprets are complete.\<close>

definition complete :: "(u16 \<times> u16 \<times> bytes) list \<Rightarrow> bool" where
  "complete as \<longleftrightarrow> (\<forall>(t, len, v) \<in> set as. (t = kAttrUsername \<longrightarrow> unat len \<le> length v)
     \<and> (t = kAttrFingerprint \<longrightarrow> 4 \<le> length v) \<and> (t = kAttrMessageIntegrity \<longrightarrow> 20 \<le> length v))"

lemma stun_loop_in_bounds:
  assumes "reader_ok r" "CurrentData r = enc_attributes as" "well_padded as" "complete as" "br_bytes r = data" "br_end r = length data"
    and "\<forall>k. integrity_at s = Some k \<longrightarrow> k + 24 \<le> length data"
  shows "stun_loop data user r s \<noteq> OutOfBounds \<and> (\<forall>s' k. stun_loop data user r s = Returns s' \<and> integrity_at s' = Some k \<longrightarrow> k + 24 \<le> length data)"
  using assms
proof (induction as arbitrary: r s)
  case Nil
  then have "stun_loop data user r s = Returns s" by (intro stun_loop_end) (simp_all add: enc_attributes_def)
  then show ?case using Nil by simp
next
  case (Cons a as)
  obtain t len v where a: "a = (t, len, v)" by (cases a)
  have c: "CurrentData r = enc_attribute t len v @ enc_attributes as" using Cons.prems(2) a by (simp add: enc_attributes_def)
  have l: "length v = unat (pad_length len)" "t = kAttrUsername \<Longrightarrow> unat len \<le> length v" "t = kAttrFingerprint \<Longrightarrow> 4 \<le> length v"
    "t = kAttrMessageIntegrity \<Longrightarrow> 20 \<le> length v"
    using Cons.prems(3,4) a by (auto simp: well_padded_def complete_def)
  note sk = skip_attribute [OF Cons.prems(1) c]
  show ?case
  proof (cases "stun_attribute data user t len (skip r 4) s")
    case (Returns s')
    have i: "\<forall>k. integrity_at s' = Some k \<longrightarrow> k + 24 \<le> length data"
    proof (cases "t = kAttrMessageIntegrity")
      case True
      then have "integrity_at s' = Some (br_start r)"
        using Returns by (auto simp: stun_attribute_def stun_attrs ReaderUsed_def skip_def stun_consts)
      moreover have "br_start r + 24 \<le> length data"
        using sk(4) l(4) [OF True] Cons.prems(1,6) by (simp add: ReaderLeft_def reader_ok_def)
      ultimately show ?thesis by simp
    next
      case False
      then have "integrity_at s' = integrity_at s" using Returns by (auto simp: stun_attribute_def split: if_splits)
      then show ?thesis using Cons.prems(7) by simp
    qed
    have "well_padded as" "complete as" "br_bytes (skip r (4 + length v)) = data" "br_end (skip r (4 + length v)) = length data"
      using Cons.prems(3-6) by (simp_all add: well_padded_def complete_def)
    from Cons.IH [OF sk(5,6) this i] show ?thesis
      unfolding stun_loop_attribute [OF Cons.prems(1) c l(1) Returns] .
  next
    case Fails
    then have "stun_loop data user r s = Fails"
      using ReadAttributeHeader_enc [OF Cons.prems(1) c] sk(4) by (subst stun_loop.simps) simp
    then show ?thesis by simp
  next
    case OutOfBounds
    then show ?thesis using l(2,3) sk(3) by (auto simp: stun_attribute_def split: if_splits)
  qed
qed

text \<open>The answer to a message that parsed.\<close>

lemma CreateResponse_length:
  assumes "length (transaction_id msg) = 12" "\<forall>k d. length (hmac k d) = 20" "64 \<le> length mem"
  shows "\<exists>r. CreateResponse hmac mem msg = Some r \<and> stun_size r = 64"
  using CreateResponse_bytes [OF assms] by simp

section \<open>Properties\<close>

text \<open>C7. The agent serves exactly the signed requests whose code is right: a request for this agent, with any
  attributes, a MESSAGE-INTEGRITY and a FINGERPRINT, changes nothing and is reported as an error unless its
  code is the HMAC under the agent's password; otherwise it is answered, its source is selected
  if it nominates, and completion is reported exactly when that changes the selection.\<close>

theorem request_authenticated:
  assumes "length tid = 12" "length mac = 20" "plain (ice_local_ufrag ice @ [0x3A] @ ice_remote_ufrag ice) as"
    and "\<forall>k d. length (hmac k d) = 20" "64 \<le> length mem"
  shows "\<exists>response. ProcessStunMessage hmac mem (stun_full t tid as mac) e ice =
     Returns (if mac = hmac (ice_local_password ice) (stun_head t (attrs_len as + 24) tid as)
       then (if nominates as then ice\<lparr>old_selected_candidate := selected_candidate ice, selected_candidate := e\<rparr> else ice,
             (if nominates as \<and> selected_candidate ice \<noteq> e then [IceCompleted] else []) @ [StunSend response 64 e])
       else (ice, [IceError]))"
proof -
  let ?m = "(new_stun (ice_local_ufrag ice) (ice_local_password ice) (ice_remote_ufrag ice))\<lparr>transaction_id := tid, has_use_candidate := nominates as\<rparr>"
  obtain r where r: "CreateResponse hmac mem (SetXorMappedAddress e ?m) = Some r" "stun_size r = 64"
    using CreateResponse_length [of "SetXorMappedAddress e ?m" hmac mem] assms(1,4,5) by (auto simp: SetXorMappedAddress_def)
  show ?thesis
    using r signed_parsed [OF assms(1-3), of hmac t "ice_local_password ice"]
    by (intro exI [of _ "stun_data r"]) (simp add: ProcessStunMessage_def select_candidate_def Let_def)
qed

theorem request_authenticated_witness:
  "\<exists>response ice. ProcessStunMessage (\<lambda>k d. replicate 20 7) (replicate 64 0)
      (stun_full 1 (replicate 12 5) [(kAttrUsername, 3, [0x61, 0x3A, 0x62, 0]), (kAttrUseCandidate, 0, [])] (replicate 20 7)) (V4 1 2)
      \<lparr>ice_local_ufrag = [0x61], ice_local_password = [1], ice_remote_ufrag = [0x62], selected_candidate = V4 0 0, old_selected_candidate = V4 0 0\<rparr>
     = Returns (ice, [IceCompleted, StunSend response 64 (V4 1 2)])"
  using request_authenticated [of "replicate 12 5" "replicate 20 7"
      "\<lparr>ice_local_ufrag = [0x61], ice_local_password = [1], ice_remote_ufrag = [0x62], selected_candidate = V4 0 0, old_selected_candidate = V4 0 0\<rparr>"
      "[(kAttrUsername, 3, [0x61, 0x3A, 0x62, 0]), (kAttrUseCandidate, 0, [])]" "\<lambda>k d. replicate 20 7" "replicate 64 0" 1 "V4 1 2"]
  by (auto simp: plain_def well_padded_def stun_attrs pad_length_def nominates_def)

text \<open>A request needs no signature: whoever sends a STUN header and a USE-CANDIDATE attribute, with
  no user name, no MESSAGE-INTEGRITY and no knowledge of the password, becomes the selected
  candidate of the agent.\<close>

theorem unsigned_request_selects:
  assumes "length tid = 12" "plain (ice_local_ufrag ice @ [0x3A] @ ice_remote_ufrag ice) as" "nominates as"
    and "\<forall>k d. length (hmac k d) = 20" "64 \<le> length mem"
  shows "\<exists>ice' es. ProcessStunMessage hmac mem (enc_stun t tid as) e ice = Returns (ice', es)
     \<and> selected_candidate ice' = e \<and> (selected_candidate ice \<noteq> e \<longrightarrow> IceCompleted \<in> set es)"
proof -
  let ?d = "enc_stun t tid as" and ?n = "new_stun (ice_local_ufrag ice) (ice_local_password ice) (ice_remote_ufrag ice)"
  note rd = enc_stun_reader [OF assms(1), of t as]
  have c: "CurrentData (skip (ByteReader ?d) 20) = enc_attributes as @ []" using rd(3) by simp
  note lp = stun_loop_plain [OF rd(2) c assms(2), of ?d]
  have "StunParse hmac ?d ?n = Returns (?n\<lparr>transaction_id := tid, has_use_candidate := True\<rparr>, ?d)"
    using rd(1) lp assms(3) by (simp add: StunParse_def new_stun_def stun_loop_end check_integrity_def)
  moreover obtain r where "CreateResponse hmac mem (SetXorMappedAddress e (?n\<lparr>transaction_id := tid, has_use_candidate := True\<rparr>)) = Some r"
    using CreateResponse_length [of "SetXorMappedAddress e (?n\<lparr>transaction_id := tid, has_use_candidate := True\<rparr>)" hmac mem] assms(1,4,5)
    by (auto simp: SetXorMappedAddress_def)
  ultimately show ?thesis by (simp add: ProcessStunMessage_def select_candidate_def Let_def)
qed

theorem unsigned_request_selects_witness:
  "\<exists>ice' es. ProcessStunMessage (\<lambda>k d. replicate 20 7) (replicate 64 0) (enc_stun 1 (replicate 12 5) [(kAttrUseCandidate, 0, [])]) (V4 1 2)
      (new_ice (replicate 24 0) [0x61] [0x62] [0x63]) = Returns (ice', es) \<and> selected_candidate ice' = V4 1 2"
  using unsigned_request_selects [of "replicate 12 5" "new_ice (replicate 24 0) [0x61] [0x62] [0x63]" "[(kAttrUseCandidate, 0, [])]"
      "\<lambda>k d. replicate 20 7" "replicate 64 0" 1 "V4 1 2"]
  by (auto simp: plain_def well_padded_def stun_attrs pad_length_def nominates_def)

text \<open>A request whose attributes are complete is processed without reading outside the datagram.\<close>

theorem request_in_bounds:
  assumes "length tid = 12" "well_padded as" "complete as"
  shows "ProcessStunMessage hmac mem (enc_stun t tid as) e ice \<noteq> OutOfBounds"
proof -
  let ?d = "enc_stun t tid as" and ?r = "skip (ByteReader (enc_stun t tid as)) 20" and ?u = "ice_local_ufrag ice @ [0x3A] @ ice_remote_ufrag ice"
    and ?s = "\<lparr>integrity_at = None, has_fingerprint = False, use_candidate_seen = False\<rparr>"
  note rd = enc_stun_reader [OF assms(1), of t as]
  have lp: "stun_loop ?d ?u ?r ?s \<noteq> OutOfBounds" and k: "stun_loop ?d ?u ?r ?s = Returns s' \<Longrightarrow> integrity_at s' = Some k \<Longrightarrow> k + 24 \<le> length ?d" for s' k
    using stun_loop_in_bounds [OF rd(2,3) assms(2,3), of ?d ?s ?u] by (simp_all add: ByteReader_def skip_def)
  have "StunParse hmac ?d (new_stun (ice_local_ufrag ice) (ice_local_password ice) (ice_remote_ufrag ice)) \<noteq> OutOfBounds"
  proof (cases "stun_loop ?d ?u ?r ?s")
    case (Returns s')
    have "check_integrity hmac (ice_local_password ice) ?d s' \<noteq> OutOfBounds"
      using k [OF Returns] by (auto simp: check_integrity_def Let_def stun_consts split: option.split)
    then show ?thesis using rd(1) Returns
      by (cases "check_integrity hmac (ice_local_password ice) ?d s'") (simp_all add: StunParse_def new_stun_def)
  qed (use rd(1) lp in \<open>simp_all add: StunParse_def new_stun_def\<close>)
  then show ?thesis
    by (auto simp: ProcessStunMessage_def Let_def split: outcome.splits option.splits prod.splits)
qed

theorem request_in_bounds_witness:
  "ProcessStunMessage (\<lambda>k d. []) [] (enc_stun 1 (replicate 12 5) [(kAttrUsername, 3, [0x61, 0x3A, 0x62, 0])]) (V4 1 2) (new_ice [] [0x61] [0x62] [0x63]) \<noteq> OutOfBounds"
  by (rule request_in_bounds) (simp_all add: well_padded_def complete_def stun_attrs pad_length_def)

end
