(* ===== verification/Write_Queue.thy ===== *)
theory Write_Queue
  imports Prelude
begin

text \<open>
  The contract of a sender that has one write in progress at a time. The web socket and the HTTP connection of the
  signaling server (theory \<open>Server_Session\<close>) and the UDP socket (theory \<open>Udp_Socket\<close>) each keep a queue whose first
  element is the one being written: \<open>hand\<close> appends and starts the write of a queue that was empty, \<open>complete\<close>, which
  the library calls at the end of a write, removes the first and starts the next. \<open>wire\<close> is what has been started so
  far, \<open>live\<close> holds until the sender is closed.
\<close>

locale serial_writer =
  fixes waiting :: "'s \<Rightarrow> 'a list" and wire :: "'s \<Rightarrow> 'a list" and live :: "'s \<Rightarrow> bool"
    and hand :: "'a \<Rightarrow> 's \<Rightarrow> 's" and complete :: "'s \<Rightarrow> 's"
  assumes hand_waiting: "live s \<Longrightarrow> waiting (hand x s) = waiting s @ [x]"
    and hand_wire: "live s \<Longrightarrow> wire (hand x s) = (if waiting s = [] then wire s @ [x] else wire s)"
    and hand_live: "live (hand x s) = live s"
    and complete_waiting: "live s \<Longrightarrow> waiting (complete s) = tl (waiting s)"
    and complete_wire: "live s \<Longrightarrow> wire (complete s) = wire s @ take 1 (tl (waiting s))"
    and complete_live: "live (complete s) = live s"
begin

text \<open>What has been started and what waits behind the write in progress: all that was handed over.\<close>

definition submitted :: "'s \<Rightarrow> 'a list" where
  "submitted s = wire s @ tl (waiting s)"

lemma submitted_hand: "live s \<Longrightarrow> submitted (hand x s) = submitted s @ [x]"
  by (cases "waiting s") (simp_all add: submitted_def hand_waiting hand_wire)

lemma submitted_complete: "live s \<Longrightarrow> submitted (complete s) = submitted s"
  by (cases "tl (waiting s)") (simp_all add: submitted_def complete_waiting complete_wire)

text \<open>The write in progress is the last that was started, and the first that waits.\<close>

definition in_progress :: "'s \<Rightarrow> bool" where
  "in_progress s \<longleftrightarrow> waiting s = [] \<or> (wire s \<noteq> [] \<and> last (wire s) = hd (waiting s))"

lemma in_progress_hand: "live s \<Longrightarrow> in_progress s \<Longrightarrow> in_progress (hand x s)"
  by (auto simp: in_progress_def hand_waiting hand_wire)

lemma in_progress_complete: "live s \<Longrightarrow> in_progress (complete s)"
  by (cases "tl (waiting s)") (simp_all add: in_progress_def complete_waiting complete_wire)

text \<open>Any sequence of \<open>hand\<close> (an element) and \<open>complete\<close> (none): what is on the wire is a front part of what was handed
  over, and with as many completions as elements all of it is.\<close>

definition perform :: "'a option \<Rightarrow> 's \<Rightarrow> 's" where
  "perform e s = (case e of Some x \<Rightarrow> hand x s | None \<Rightarrow> complete s)"

lemma perform_live: "live (fold perform es s) = live s"
  by (induction es arbitrary: s) (simp_all add: perform_def hand_live complete_live split: option.split)

lemma perform_submitted: "live s \<Longrightarrow> submitted (fold perform es s) = submitted s @ List.map_filter id es"
proof (induction es arbitrary: s)
  case (Cons e es)
  have "live (perform e s)" using Cons.prems by (simp add: perform_def hand_live complete_live split: option.split)
  then show ?case using Cons
    by (cases e) (simp_all add: perform_def submitted_hand submitted_complete List.map_filter_simps)
qed (simp add: List.map_filter_simps)

lemma perform_in_progress: "live s \<Longrightarrow> in_progress s \<Longrightarrow> in_progress (fold perform es s)"
proof (induction es arbitrary: s)
  case (Cons e es)
  then show ?case
    by (cases e) (simp_all add: perform_def hand_live complete_live in_progress_hand in_progress_complete)
qed simp

lemma drained:
  assumes "live s" "in_progress s"
  shows "waiting ((complete ^^ n) s) = drop n (waiting s)"
    and "length (waiting s) \<le> Suc n \<Longrightarrow> wire ((complete ^^ n) s) = submitted s"
proof -
  have l: "live ((complete ^^ n) s)" for n by (induction n) (simp_all add: assms(1) complete_live)
  show w: "waiting ((complete ^^ n) s) = drop n (waiting s)" for n
    by (induction n) (simp_all add: complete_waiting l tl_drop drop_Suc)
  have "submitted ((complete ^^ n) s) = submitted s" by (induction n) (simp_all add: submitted_complete l)
  then show "length (waiting s) \<le> Suc n \<Longrightarrow> wire ((complete ^^ n) s) = submitted s"
    by (simp add: submitted_def [of "(complete ^^ n) s"] w tl_drop drop_Suc [symmetric])
qed

end

end
