(* ===== verification/Udp_Socket.thy ===== *)
theory Udp_Socket
  imports Stun Write_Queue
begin

text \<open>
  A UDP socket, \<^verbatim>\<open>src/src/base/udp_socket.{h,cpp}\<close>: a queue of datagrams of which the first is being sent. The socket of
  Boost.Asio is outside: whether opening and binding succeed is an argument, what goes to \<open>async_send_to\<close> is the log
  \<open>us_wire\<close>, completions are the operations that the library calls, and a call of the observer is a returned event.
\<close>

record UdpSocket =
  us_closed :: bool
  us_listening :: bool
  us_receiving :: bool
  us_send_queue :: "(endpoint \<times> bytes) list"
  us_wire :: "(endpoint \<times> bytes) list"

datatype socket_event = SocketData bytes endpoint | SocketError

definition new_udp_socket :: UdpSocket where
  "new_udp_socket = \<lparr>us_closed = False, us_listening = False, us_receiving = False, us_send_queue = [], us_wire = []\<rparr>"

definition StartReceive :: "UdpSocket \<Rightarrow> UdpSocket" where
  "StartReceive s = (if us_closed s then s else s\<lparr>us_receiving := True\<rparr>)"

text \<open>An address that does not parse throws. The socket that connects to one endpoint is made later and with the address that
  the listening one has parsed.\<close>

definition Listen :: "bool \<Rightarrow> bool \<Rightarrow> bool \<Rightarrow> UdpSocket \<Rightarrow> (bool \<times> UdpSocket) outcome" where
  "Listen opened address_ok bound s =
     (let s = s\<lparr>us_listening := True\<rparr>
      in if \<not> opened then Returns (False, s)
         else if \<not> address_ok then Fails
         else if \<not> bound then Returns (False, s)
         else Returns (True, StartReceive s))"

definition ListenSpecificEndpoint :: "bool \<Rightarrow> UdpSocket \<Rightarrow> bool \<times> UdpSocket" where
  "ListenSpecificEndpoint bound s = (bound, s\<lparr>us_listening := True\<rparr>)"

definition DoSend :: "UdpSocket \<Rightarrow> UdpSocket" where
  "DoSend s = (if us_closed s then s else s\<lparr>us_wire := us_wire s @ [hd (us_send_queue s)]\<rparr>)"

definition SendData :: "endpoint \<Rightarrow> bytes \<Rightarrow> UdpSocket \<Rightarrow> UdpSocket" where
  "SendData ep d s =
     (if us_closed s then s
      else let s = s\<lparr>us_send_queue := us_send_queue s @ [(ep, d)]\<rparr>
        in if length (us_send_queue s) = 1 then DoSend s else s)"

text \<open>The observer of an error only stops its stream, which does not touch the queue.\<close>

definition HandSend :: "bool \<Rightarrow> UdpSocket \<Rightarrow> UdpSocket \<times> socket_event list" where
  "HandSend failed s =
     (if us_closed s then (s, [])
      else let s' = s\<lparr>us_send_queue := tl (us_send_queue s)\<rparr>
        in (if us_send_queue s' \<noteq> [] then DoSend s' else s', if failed then [SocketError] else []))"

definition SocketClose :: "UdpSocket \<Rightarrow> UdpSocket" where
  "SocketClose s = (if us_closed s then s else s\<lparr>us_closed := True\<rparr>)"

definition HandleReceive :: "bool \<Rightarrow> bytes \<Rightarrow> endpoint \<Rightarrow> UdpSocket \<Rightarrow> UdpSocket \<times> socket_event list" where
  "HandleReceive failed d ep s =
     (let s = s\<lparr>us_receiving := False\<rparr> in
      if us_closed s then (s, [])
      else if \<not> failed then (StartReceive s, [SocketData d ep])
      else (s, [SocketError]))"

definition HandleConnected :: "bool \<Rightarrow> UdpSocket \<Rightarrow> UdpSocket \<times> socket_event list" where
  "HandleConnected failed s = (if failed then (s, [SocketError]) else (StartReceive s, []))"

text \<open>Datagrams go out in the order they were handed over, and none after the socket was closed.\<close>

interpretation udp: serial_writer us_send_queue us_wire "\<lambda>s. \<not> us_closed s" "\<lambda>(ep, d). SendData ep d" "\<lambda>s. fst (HandSend failed s)" for failed
  by unfold_locales (auto simp: SendData_def HandSend_def DoSend_def Let_def take_Suc length_Suc_conv split: if_splits)

lemma SendData_wire: "\<not> us_closed s \<Longrightarrow> udp.submitted (SendData ep d s) = udp.submitted s @ [(ep, d)]"
  using udp.submitted_hand [of s "(ep, d)"] by simp

lemma HandSend_wire: "udp.submitted (fst (HandSend failed s)) = udp.submitted s"
  by (cases "us_closed s") (simp add: HandSend_def, rule udp.submitted_complete, simp)

lemma closed_is_silent: "us_closed s \<Longrightarrow> SendData ep d s = s \<and> HandSend failed s = (s, []) \<and> snd (HandleReceive failed d ep s) = []"
  by (simp add: SendData_def HandSend_def HandleReceive_def Let_def)

end
