(* ===== verification/Srtp_Session.thy ===== *)
theory Srtp_Session
  imports Base_Utils
begin

text \<open>
  The encryption of media, \<^verbatim>\<open>src/src/dtls_srtp/srtp_session.{h,cpp}\<close>. Libsrtp is outside: what it makes of a packet
  (\<open>protect\<close>, \<open>unprotect\<close>), whether it creates a session, and the length of the authentication tag of a policy
  (\<open>tag\<close>) are arguments. Modelled are the choice of policies, the key sizes and the sizes of the buffers.
\<close>

datatype CipherSuite = SUITE_NONE | SUITE_AES_CM_128_HMAC_SHA1_80 | SUITE_AES_CM_128_HMAC_SHA1_32 | SUITE_AEAD_AES_128_GCM
  | SUITE_AEAD_AES_256_GCM

datatype srtp_policy = aes_cm_128_hmac_sha1_80 | aes_cm_128_hmac_sha1_32 | aes_gcm_128_16_auth | aes_gcm_256_16_auth

record SrtpSession =
  sr_session :: bool
  rtp_auth_tag_len :: nat
  rtcp_auth_tag_len :: nat

definition new_srtp :: SrtpSession where
  "new_srtp = \<lparr>sr_session = False, rtp_auth_tag_len = 0, rtcp_auth_tag_len = 0\<rparr>"

definition GetCipherSuiteFromString :: "string \<Rightarrow> CipherSuite" where
  "GetCipherSuiteFromString s =
     (if s = ''SRTP_AES128_CM_SHA1_80'' then SUITE_AES_CM_128_HMAC_SHA1_80
      else if s = ''SRTP_AES128_CM_SHA1_32'' then SUITE_AES_CM_128_HMAC_SHA1_32
      else if s = ''SRTP_AEAD_AES_128_GCM'' then SUITE_AEAD_AES_128_GCM
      else if s = ''SRTP_AEAD_AES_256_GCM'' then SUITE_AEAD_AES_256_GCM
      else SUITE_NONE)"

fun GetSuiteKeySaltLength :: "CipherSuite \<Rightarrow> nat \<times> nat" where
  "GetSuiteKeySaltLength SUITE_AES_CM_128_HMAC_SHA1_80 = (16, 14)"
| "GetSuiteKeySaltLength SUITE_AES_CM_128_HMAC_SHA1_32 = (16, 14)"
| "GetSuiteKeySaltLength SUITE_AEAD_AES_128_GCM = (16, 12)"
| "GetSuiteKeySaltLength SUITE_AEAD_AES_256_GCM = (32, 12)"
| "GetSuiteKeySaltLength SUITE_NONE = (0, 0)"

text \<open>The policies for RTP and RTCP; there are none for an unknown suite.\<close>

fun suite_policies :: "CipherSuite \<Rightarrow> (srtp_policy \<times> srtp_policy) option" where
  "suite_policies SUITE_AES_CM_128_HMAC_SHA1_80 = Some (aes_cm_128_hmac_sha1_80, aes_cm_128_hmac_sha1_80)"
| "suite_policies SUITE_AES_CM_128_HMAC_SHA1_32 = Some (aes_cm_128_hmac_sha1_32, aes_cm_128_hmac_sha1_80)"
| "suite_policies SUITE_AEAD_AES_128_GCM = Some (aes_gcm_128_16_auth, aes_gcm_128_16_auth)"
| "suite_policies SUITE_AEAD_AES_256_GCM = Some (aes_gcm_256_16_auth, aes_gcm_256_16_auth)"
| "suite_policies SUITE_NONE = None"

definition SrtpInit :: "(srtp_policy \<Rightarrow> nat) \<Rightarrow> bool \<Rightarrow> CipherSuite \<Rightarrow> SrtpSession \<Rightarrow> bool \<times> SrtpSession" where
  "SrtpInit tag created suite s =
     (case suite_policies suite of
        None \<Rightarrow> (False, s)
      | Some (rtp, rtcp) \<Rightarrow>
          if \<not> created then (False, s)
          else (True, s\<lparr>sr_session := True, rtp_auth_tag_len := tag rtp, rtcp_auth_tag_len := tag rtcp\<rparr>))"

definition GetProtectRtpNeedLength :: "nat \<Rightarrow> SrtpSession \<Rightarrow> nat" where
  "GetProtectRtpNeedLength len s = len + rtp_auth_tag_len s"

definition GetProtectRtcpNeedLength :: "nat \<Rightarrow> SrtpSession \<Rightarrow> nat" where
  "GetProtectRtcpNeedLength len s = len + 4 + rtcp_auth_tag_len s"

text \<open>Libsrtp writes into the buffer of \<open>max_len\<close> bytes; more than that is undefined behaviour.\<close>

definition protect_into :: "(bytes \<Rightarrow> bytes option) \<Rightarrow> nat \<Rightarrow> bytes \<Rightarrow> bytes outcome" where
  "protect_into protect max_len d =
     (case protect d of None \<Rightarrow> Fails | Some e \<Rightarrow> if length e \<le> max_len then Returns e else OutOfBounds)"

definition ProtectRtp :: "(bytes \<Rightarrow> bytes option) \<Rightarrow> bytes \<Rightarrow> nat \<Rightarrow> SrtpSession \<Rightarrow> bytes outcome" where
  "ProtectRtp protect d max_len s =
     (if \<not> sr_session s then Fails
      else if max_len < length d + rtp_auth_tag_len s then Fails
      else protect_into protect max_len d)"

definition ProtectRtcp :: "(bytes \<Rightarrow> bytes option) \<Rightarrow> bytes \<Rightarrow> nat \<Rightarrow> SrtpSession \<Rightarrow> bytes outcome" where
  "ProtectRtcp protect d max_len s =
     (if \<not> sr_session s then Fails
      else if max_len < length d + 4 + rtcp_auth_tag_len s then Fails
      else protect_into protect max_len d)"

definition UnprotectRtp :: "(bytes \<Rightarrow> bytes option) \<Rightarrow> bytes \<Rightarrow> SrtpSession \<Rightarrow> bytes outcome" where
  "UnprotectRtp unprotect d s = (if \<not> sr_session s then Fails else of_option (unprotect d))"

definition UnprotectRtcp :: "(bytes \<Rightarrow> bytes option) \<Rightarrow> bytes \<Rightarrow> SrtpSession \<Rightarrow> bytes outcome" where
  "UnprotectRtcp unprotect d s = (if \<not> sr_session s then Fails else of_option (unprotect d))"

text \<open>Key and salt of every suite fit in the 44 bytes the transport keeps for them.\<close>

lemma key_salt_fits: "GetSuiteKeySaltLength suite = (k, s) \<Longrightarrow> k + s \<le> 44"
  by (cases suite) auto

lemma ProtectRtp_fits:
  "(\<And>e. protect d = Some e \<Longrightarrow> length e \<le> length d + rtp_auth_tag_len s) \<Longrightarrow> ProtectRtp protect d (GetProtectRtpNeedLength (length d) s) s \<noteq> OutOfBounds"
  by (auto simp: ProtectRtp_def protect_into_def GetProtectRtpNeedLength_def split: option.split)

lemma ProtectRtcp_fits:
  "(\<And>e. protect d = Some e \<Longrightarrow> length e \<le> length d + 4 + rtcp_auth_tag_len s) \<Longrightarrow> ProtectRtcp protect d (GetProtectRtcpNeedLength (length d) s) s \<noteq> OutOfBounds"
  by (auto simp: ProtectRtcp_def protect_into_def GetProtectRtcpNeedLength_def split: option.split)

end
