(* ===== verification/Dtls_Transport.thy ===== *)
theory Dtls_Transport
  imports Srtp_Session Json
begin

text \<open>
  The DTLS transport of a stream, \<^verbatim>\<open>src/src/dtls_srtp/dtls_transport.{h,cpp}\<close>, and what it uses of
  \<^verbatim>\<open>src/src/dtls_srtp/dtls_context.{h,cpp}\<close>: names of hashes, the fingerprint in hexadecimal, the test for DTLS.

  OpenSSL is outside. What it gives is an argument: the certificate of the peer, the digest of a certificate, the
  selected SRTP profile, the exported keying material, whether it has data to send. A null \<open>ssl_\<close> that is handed to
  it is undefined behaviour (\<open>OutOfBounds\<close>). Calls of the observer are returned events.
\<close>

section \<open>Hashes and fingerprints\<close>

datatype Hash = kSha1 | kSha224 | kSha256 | kSha384 | kSha512 | kUnknownHash

definition GetHashFromString :: "string \<Rightarrow> Hash" where
  "GetHashFromString s =
     (if s = ''sha-1'' then kSha1 else if s = ''sha-224'' then kSha224 else if s = ''sha-256'' then kSha256
      else if s = ''sha-384'' then kSha384 else if s = ''sha-512'' then kSha512 else kUnknownHash)"

fun GetStringFromHash :: "Hash \<Rightarrow> string" where
  "GetStringFromHash kSha1 = ''sha-1''"
| "GetStringFromHash kSha224 = ''sha-224''"
| "GetStringFromHash kSha256 = ''sha-256''"
| "GetStringFromHash kSha384 = ''sha-384''"
| "GetStringFromHash kSha512 = ''sha-512''"
| "GetStringFromHash kUnknownHash = []"

definition IsDtls :: "bytes \<Rightarrow> bool" where
  "IsDtls d \<longleftrightarrow> 13 \<le> length d \<and> 19 < d ! 0 \<and> d ! 0 < 64"

text \<open>\<open>sprintf\<close> with \<open>%.2X:\<close> for each byte, of which the last colon is overwritten by the end of the string.\<close>

definition hex_digit :: "nat \<Rightarrow> char" where
  "hex_digit n = (if n < 10 then char_of (48 + n) else char_of (55 + n))"

definition hex_byte :: "u8 \<Rightarrow> string" where
  "hex_byte b = [hex_digit (unat b div 16), hex_digit (unat b mod 16), CHR '':'']"

definition hex_fingerprint :: "bytes \<Rightarrow> string" where
  "hex_fingerprint d = butlast (concat (map hex_byte d))"

text \<open>\<open>sscanf\<close> with \<open>%02x\<close>: white space, then at most two characters of a hexadecimal number with an optional sign; a
  prefix \<open>0x\<close> alone is no number. The result is an \<open>unsigned int\<close>.\<close>

definition hex_value :: "char \<Rightarrow> nat option" where
  "hex_value c = (let n = of_char c in
     if 48 \<le> n \<and> n \<le> 57 then Some (n - 48) else if 65 \<le> n \<and> n \<le> 70 then Some (n - 55) else if 97 \<le> n \<and> n \<le> 102 then Some (n - 87) else None)"

fun read_hex :: "nat option \<Rightarrow> string \<Rightarrow> nat option" where
  "read_hex acc [] = acc"
| "read_hex acc (c # cs) = (case hex_value c of None \<Rightarrow> acc | Some d \<Rightarrow> read_hex (Some (16 * (case acc of None \<Rightarrow> 0 | Some n \<Rightarrow> n) + d)) cs)"

definition scan_hex :: "string \<Rightarrow> u32 option" where
  "scan_hex s =
     (case take 2 (dropWhile white s) of
        [] \<Rightarrow> None
      | c # cs \<Rightarrow>
          if c = CHR ''-'' then map_option (\<lambda>n. - of_nat n) (read_hex None cs)
          else if c = CHR ''+'' then map_option of_nat (read_hex None cs)
          else if c = CHR ''0'' \<and> (cs = ''x'' \<or> cs = ''X'') then None
          else map_option of_nat (read_hex None (c # cs)))"

definition EVP_MAX_MD_SIZE :: nat where "EVP_MAX_MD_SIZE = 64"

text \<open>\<open>strsep\<close> splits at every colon. The integer of four bytes is written in the order of a little-endian machine.\<close>

fun split_colons :: "string \<Rightarrow> string list" where
  "split_colons [] = [[]]"
| "split_colons (c # cs) = (if c = CHR '':'' then [] # split_colons cs
     else case split_colons cs of [] \<Rightarrow> [[c]] | v # vs \<Rightarrow> (c # v) # vs)"

definition little_endian :: "u32 \<Rightarrow> bytes" where
  "little_endian v = map (\<lambda>k. ucast (drop_bit (8 * k) v)) [0..<4]"

fun scan_fingerprint :: "string list \<Rightarrow> nat \<Rightarrow> bytes \<Rightarrow> bytes outcome" where
  "scan_fingerprint [] pos fp = Returns fp"
| "scan_fingerprint (v # vs) pos fp =
     (if pos = EVP_MAX_MD_SIZE - 1 then Returns fp
      else case scan_hex v of
             None \<Rightarrow> scan_fingerprint vs (Suc pos) fp
           | Some n \<Rightarrow>
               if pos + 4 \<le> EVP_MAX_MD_SIZE then scan_fingerprint vs (Suc pos) (overwrite fp pos (little_endian n))
               else OutOfBounds)"

section \<open>The transport\<close>

datatype Setup = kActive | kPassive | kActPass | kUnknownSetup

fun string_to_setup :: "string \<Rightarrow> Setup option" where
  "string_to_setup s = (if s = ''active'' then Some kActive else if s = ''passive'' then Some kPassive
     else if s = ''actpass'' then Some kActPass else None)"

fun setup_to_string :: "Setup \<Rightarrow> string option" where
  "setup_to_string kActive = Some ''active''"
| "setup_to_string kPassive = Some ''passive''"
| "setup_to_string kActPass = Some ''actpass''"
| "setup_to_string kUnknownSetup = None"

fun DtlsSetupSelector :: "Setup \<Rightarrow> Setup option" where
  "DtlsSetupSelector kPassive = Some kActive"
| "DtlsSetupSelector kActPass = Some kActive"
| "DtlsSetupSelector kActive = Some kPassive"
| "DtlsSetupSelector kUnknownSetup = None"

datatype dtls_event = DtlsSendData bytes | DtlsSetup CipherSuite bytes bytes | DtlsError | DtlsShutdown
datatype dtls_task = SetupTask | CheckPendingTask

record DtlsTransport =
  dt_ssl :: bool
  dt_setup :: Setup
  dt_remote_fingerprint :: bytes
  dt_remote_hash :: Hash
  dt_inited :: bool
  dt_timer :: bool

definition new_dtls :: DtlsTransport where
  "new_dtls = \<lparr>dt_ssl = False, dt_setup = kUnknownSetup, dt_remote_fingerprint = replicate EVP_MAX_MD_SIZE 0, dt_remote_hash = kUnknownHash,
     dt_inited = False, dt_timer = False\<rparr>"

text \<open>\<open>at\<close> throws for a setup that is not set.\<close>

definition GetLocalSetup :: "DtlsTransport \<Rightarrow> string outcome" where
  "GetLocalSetup t = of_option (setup_to_string (dt_setup t))"

definition DtlsInit :: "bool \<Rightarrow> DtlsTransport \<Rightarrow> bool \<times> DtlsTransport" where
  "DtlsInit allocated t = (allocated, t\<lparr>dt_ssl := allocated\<rparr>)"

definition SetRemoteFingerprint :: "string \<Rightarrow> string \<Rightarrow> DtlsTransport \<Rightarrow> DtlsTransport outcome" where
  "SetRemoteFingerprint hash fingerprint t =
     bind_outcome (scan_fingerprint (split_colons fingerprint) 0 (dt_remote_fingerprint t)) (\<lambda>fp.
       Returns (t\<lparr>dt_remote_hash := GetHashFromString hash, dt_remote_fingerprint := fp\<rparr>))"

definition kReadBufferSize :: nat where "kReadBufferSize = 65536"

text \<open>\<open>pending\<close> is what OpenSSL wants to send.\<close>

definition TrySendPendingData :: "bytes \<Rightarrow> dtls_event list" where
  "TrySendPendingData pending = (if pending \<noteq> [] then [DtlsSendData (take kReadBufferSize pending)] else [])"

definition CheckPending :: "bytes \<Rightarrow> DtlsTransport \<Rightarrow> dtls_event list" where
  "CheckPending pending t = (if \<not> dt_inited t then [] else TrySendPendingData pending)"

definition DtlsTimeout :: "bool \<Rightarrow> bytes \<Rightarrow> DtlsTransport \<Rightarrow> dtls_event list" where
  "DtlsTimeout failed pending t = (if \<not> dt_inited t then [] else if failed then [] else TrySendPendingData pending)"

text \<open>Whether it is initialised is only logged. \<open>closed\<close> is a close_notify of the peer.\<close>

definition ProcessDataFromPeer :: "bytes \<Rightarrow> bool \<Rightarrow> DtlsTransport \<Rightarrow> dtls_event list outcome" where
  "ProcessDataFromPeer pending closed t =
     (if \<not> dt_ssl t then OutOfBounds
      else Returns (TrySendPendingData pending @ (if closed then [DtlsShutdown] else [])))"

definition DtlsStart :: "string \<Rightarrow> bool \<Rightarrow> DtlsTransport \<Rightarrow> bool \<times> DtlsTransport" where
  "DtlsStart setup_in_sdp worker t =
     (case string_to_setup setup_in_sdp of
        None \<Rightarrow> (False, t)
      | Some remote \<Rightarrow>
          case DtlsSetupSelector remote of
            None \<Rightarrow> (False, t)
          | Some s \<Rightarrow>
              let t = t\<lparr>dt_setup := s\<rparr>
              in if \<not> dt_ssl t then (False, t)
                 else let t = t\<lparr>dt_inited := True\<rparr>
                   in if \<not> worker then (False, t) else (True, t\<lparr>dt_timer := True\<rparr>))"

definition DtlsStop :: "bytes \<Rightarrow> DtlsTransport \<Rightarrow> DtlsTransport \<times> dtls_event list" where
  "DtlsStop pending t =
     (t\<lparr>dt_inited := False, dt_ssl := False, dt_timer := False\<rparr>, if dt_ssl t then TrySendPendingData pending else [])"

definition memcmp_equal :: "bytes \<Rightarrow> bytes \<Rightarrow> bool" where
  "memcmp_equal d fp \<longleftrightarrow> d = take (length d) fp"

definition CheckRemoteCertificate :: "(Hash \<Rightarrow> 'cert \<Rightarrow> bytes option) \<Rightarrow> 'cert option \<Rightarrow> DtlsTransport \<Rightarrow> bool" where
  "CheckRemoteCertificate digest peer t =
     (case peer of
        None \<Rightarrow> False
      | Some c \<Rightarrow>
          if dt_remote_hash t = kUnknownHash then False
          else case digest (dt_remote_hash t) c of None \<Rightarrow> False | Some d \<Rightarrow> memcmp_equal d (dt_remote_fingerprint t))"

text \<open>The keys and salts in the order of RFC 5764: client key, server key, client salt, server salt.\<close>

definition split_material :: "nat \<Rightarrow> nat \<Rightarrow> bytes \<Rightarrow> (bytes \<times> bytes) \<times> (bytes \<times> bytes)" where
  "split_material k s m =
     ((take k m, take s (drop (2 * k) m)), (take k (drop k m), take s (drop (2 * k + s) m)))"

definition ExtractSrtpParams :: "string option \<Rightarrow> (nat \<Rightarrow> bytes option) \<Rightarrow> DtlsTransport \<Rightarrow> bool \<times> dtls_event list" where
  "ExtractSrtpParams profile export t =
     (let max_length = 44 in
      case profile of
        None \<Rightarrow> (False, [])
      | Some name \<Rightarrow>
          let suite = GetCipherSuiteFromString name
          in if suite = SUITE_NONE then (False, [])
             else case export (max_length * 2) of
                    None \<Rightarrow> (False, [])
                  | Some material \<Rightarrow>
                      let (k, s) = GetSuiteKeySaltLength suite; (client, server) = split_material k s material;
                          (loc, remote) = (if dt_setup t = kActive then (client, server) else (server, client))
                      in (True, [DtlsSetup suite (fst loc @ snd loc) (fst remote @ snd remote)]))"

text \<open>The result of \<open>ExtractSrtpParams\<close> is not looked at.\<close>

definition SetupSRTP :: "(Hash \<Rightarrow> 'cert \<Rightarrow> bytes option) \<Rightarrow> 'cert option \<Rightarrow> string option \<Rightarrow> (nat \<Rightarrow> bytes option) \<Rightarrow> DtlsTransport \<Rightarrow> bool \<times> dtls_event list" where
  "SetupSRTP digest peer profile export t =
     (if \<not> CheckRemoteCertificate digest peer t then (False, [])
      else (True, snd (ExtractSrtpParams profile export t)))"

definition OnSSLInfo :: "bool \<Rightarrow> dtls_task list" where
  "OnSSLInfo handshake_done = (if handshake_done then [SetupTask] else []) @ [CheckPendingTask]"

text \<open>The tasks, as the worker runs them.\<close>

definition run_setup :: "(Hash \<Rightarrow> 'cert \<Rightarrow> bytes option) \<Rightarrow> 'cert option \<Rightarrow> string option \<Rightarrow> (nat \<Rightarrow> bytes option) \<Rightarrow> DtlsTransport \<Rightarrow> dtls_event list" where
  "run_setup digest peer profile export t =
     (let (ok, evs) = SetupSRTP digest peer profile export t in evs @ (if \<not> ok then [DtlsError] else []))"

section \<open>Fingerprints\<close>

lemma hex_digit_value: "n < 16 \<Longrightarrow> hex_value (hex_digit n) = Some n"
  by (auto simp: hex_value_def hex_digit_def Let_def)

lemma hex_digit_code: "n < 16 \<Longrightarrow> (of_char (hex_digit n) :: nat) = (if n < 10 then 48 + n else 55 + n)"
  by (simp add: hex_digit_def)

lemma hex_digit_plain:
  assumes "n < 16"
  shows "\<not> white (hex_digit n)" "hex_digit n \<noteq> CHR ''-''" "hex_digit n \<noteq> CHR ''+''" "hex_digit n \<noteq> CHR '':''"
    "hex_digit n \<noteq> CHR ''x''" "hex_digit n \<noteq> CHR ''X''"
proof -
  have c: "hex_digit n = c \<Longrightarrow> (of_char c :: nat) = (if n < 10 then 48 + n else 55 + n)" for c using hex_digit_code [OF assms] by blast
  show "\<not> white (hex_digit n)" using hex_digit_code [OF assms] assms by (simp add: white_def)
  show "hex_digit n \<noteq> CHR ''-''" "hex_digit n \<noteq> CHR ''+''" "hex_digit n \<noteq> CHR '':''" "hex_digit n \<noteq> CHR ''x''" "hex_digit n \<noteq> CHR ''X''"
    using assms by (auto dest!: c split: if_splits)
qed

definition hex_pair :: "u8 \<Rightarrow> string" where
  "hex_pair b = [hex_digit (unat b div 16), hex_digit (unat b mod 16)]"

lemma nibbles: "unat (b :: u8) div 16 < 16" "unat (b :: u8) mod 16 < 16"
  using unsigned_less [of b, where 'a = nat] by simp_all

lemma scan_hex_pair: "scan_hex (hex_pair b) = Some (ucast b)"
proof -
  have v: "(of_nat (16 * (unat b div 16) + unat b mod 16) :: u32) = ucast b" by (simp add: unsigned_ucast_eq)
  have "take 2 (dropWhile white (hex_pair b)) = hex_pair b" by (simp add: hex_pair_def hex_digit_plain [OF nibbles(1)])
  then show ?thesis
    using hex_digit_plain(2,3) [OF nibbles(1), of b] hex_digit_plain(5,6) [OF nibbles(2), of b] hex_digit_value [OF nibbles(1), of b]
      hex_digit_value [OF nibbles(2), of b] v
    by (simp add: scan_hex_def) (simp add: hex_pair_def)
qed

lemma split_colons_pair: "split_colons (hex_pair b @ CHR '':'' # s) = hex_pair b # split_colons s" "split_colons (hex_pair b) = [hex_pair b]"
  using hex_digit_plain(4) [OF nibbles(1), of b] hex_digit_plain(4) [OF nibbles(2), of b] by (simp_all add: hex_pair_def)

lemma hex_fingerprint_Cons: "hex_fingerprint (b # c # d) = hex_pair b @ CHR '':'' # hex_fingerprint (c # d)" "hex_fingerprint [b] = hex_pair b"
  by (simp_all add: hex_fingerprint_def hex_byte_def hex_pair_def)

lemma split_hex_fingerprint: "d \<noteq> [] \<Longrightarrow> split_colons (hex_fingerprint d) = map hex_pair d"
proof (induction d)
  case (Cons b d)
  then show ?case by (cases d) (simp_all add: hex_fingerprint_Cons split_colons_pair)
qed simp

lemma little_endian_byte: "little_endian (ucast (b :: u8)) = [b, 0, 0, 0]"
proof -
  have "(ucast (drop_bit (8 * k) (ucast b :: u32)) :: u8) = 0" if "0 < k" for k
    using that by (intro bit_word_eqI) (auto simp: bit_simps dest: bit_imp_le_length)
  from this [of 1] this [of 2] this [of 3]
  have z: "(ucast (drop_bit 8 (ucast b :: u32)) :: u8) = 0" "(ucast (drop_bit 16 (ucast b :: u32)) :: u8) = 0" "(ucast (drop_bit 24 (ucast b :: u32)) :: u8) = 0"
    by simp_all
  have "(ucast (ucast b :: u32) :: u8) = b" by (intro bit_word_eqI) (auto simp: bit_simps)
  moreover have "[0..<4] = [0, 1, 2, 3::nat]" by (simp add: upt_rec)
  ultimately show ?thesis using z by (simp add: little_endian_def)
qed

lemma scan_fingerprint_hex:
  "length fp = 64 \<Longrightarrow> pos + length d \<le> 61 \<Longrightarrow> \<exists>fp'. scan_fingerprint (map hex_pair d) pos fp = Returns fp' \<and> length fp' = 64
     \<and> take (pos + length d) fp' = take pos fp @ d"
proof (induction d arbitrary: pos fp)
  case (Cons b d)
  let ?fp = "overwrite fp pos [b, 0, 0, 0]"
  have l: "length ?fp = 64" using Cons.prems by simp
  obtain fp' where fp': "scan_fingerprint (map hex_pair d) (Suc pos) ?fp = Returns fp'" "length fp' = 64"
    "take (Suc pos + length d) fp' = take (Suc pos) ?fp @ d"
    using Cons.IH [OF l, of "Suc pos"] Cons.prems(2) by auto
  have "take (Suc pos) ?fp = take pos fp @ [b]" using Cons.prems by (simp add: overwrite_def)
  then show ?case using fp' Cons.prems by (simp add: scan_hex_pair little_endian_byte EVP_MAX_MD_SIZE_def)
qed simp

lemma scan_fingerprint_overruns:
  "length fp = 64 \<Longrightarrow> pos \<le> 61 \<Longrightarrow> 62 \<le> pos + length d \<Longrightarrow> scan_fingerprint (map hex_pair d) pos fp = OutOfBounds"
proof (induction d arbitrary: pos fp)
  case (Cons b d)
  show ?case
  proof (cases "pos = 61")
    case True
    then show ?thesis by (simp add: scan_hex_pair EVP_MAX_MD_SIZE_def)
  next
    case False
    then have "scan_fingerprint (map hex_pair d) (Suc pos) (overwrite fp pos [b, 0, 0, 0]) = OutOfBounds"
      using Cons.prems by (intro Cons.IH) auto
    then show ?thesis using False Cons.prems by (simp add: scan_hex_pair little_endian_byte EVP_MAX_MD_SIZE_def)
  qed
qed simp

text \<open>C16. The fingerprint of a certificate, written as the server writes its own, comes back as it was for every hash but
  SHA-512, and then exactly the certificates with that digest are accepted.\<close>

theorem fingerprint_accepts_exactly:
  assumes "d \<noteq> []" "length d \<le> 61" "h \<noteq> kUnknownHash" "\<And>c e. digest h c = Some e \<Longrightarrow> length e = length d"
  shows "\<exists>t. SetRemoteFingerprint (GetStringFromHash h) (hex_fingerprint d) new_dtls = Returns t \<and> dt_remote_hash t = h
     \<and> (\<forall>peer. CheckRemoteCertificate digest peer t \<longleftrightarrow> (\<exists>c. peer = Some c \<and> digest h c = Some d))"
proof -
  obtain fp where fp: "scan_fingerprint (map hex_pair d) 0 (replicate EVP_MAX_MD_SIZE 0) = Returns fp" "take (length d) fp = d"
    using scan_fingerprint_hex [of "replicate EVP_MAX_MD_SIZE 0" 0 d] assms(2) by (auto simp: EVP_MAX_MD_SIZE_def)
  let ?t = "new_dtls\<lparr>dt_remote_hash := h, dt_remote_fingerprint := fp\<rparr>"
  have "GetHashFromString (GetStringFromHash h) = h" using assms(3) by (cases h) (simp_all add: GetHashFromString_def)
  then have "SetRemoteFingerprint (GetStringFromHash h) (hex_fingerprint d) new_dtls = Returns ?t"
    using fp(1) by (simp add: SetRemoteFingerprint_def split_hex_fingerprint [OF assms(1)] new_dtls_def)
  moreover have "CheckRemoteCertificate digest peer ?t \<longleftrightarrow> (\<exists>c. peer = Some c \<and> digest h c = Some d)" for peer
    using fp(2) assms(3) assms(4) by (auto simp: CheckRemoteCertificate_def memcmp_equal_def split: option.split)
  ultimately show ?thesis by auto
qed

theorem fingerprint_accepts_exactly_witness:
  "\<exists>t. SetRemoteFingerprint ''sha-1'' (hex_fingerprint (replicate 20 0xAB)) new_dtls = Returns t
     \<and> CheckRemoteCertificate (\<lambda>h c. Some (replicate 20 c)) (Some 0xAB) t \<and> \<not> CheckRemoteCertificate (\<lambda>h c. Some (replicate 20 c)) (Some 0xAC) t"
  using fingerprint_accepts_exactly [of "replicate 20 0xAB" kSha1 "\<lambda>h c. Some (replicate 20 c)"] by auto

text \<open>An offer with a SHA-512 fingerprint is undefined behaviour: each byte is stored as an integer of four bytes, and
  the last ones run over the end of the array.\<close>

theorem sha512_fingerprint_overruns:
  assumes "62 \<le> length d"
  shows "SetRemoteFingerprint hash (hex_fingerprint d) new_dtls = OutOfBounds"
proof -
  have "d \<noteq> []" using assms by auto
  then show ?thesis using scan_fingerprint_overruns [of "replicate EVP_MAX_MD_SIZE 0" 0 d] assms
    by (simp add: SetRemoteFingerprint_def split_hex_fingerprint new_dtls_def EVP_MAX_MD_SIZE_def)
qed

theorem sha512_fingerprint_overruns_witness: "SetRemoteFingerprint ''sha-512'' (hex_fingerprint (replicate 64 0)) new_dtls = OutOfBounds"
  by (rule sha512_fingerprint_overruns) simp

section \<open>Keys\<close>

text \<open>C37. The two ends of a connection, one active and one passive, that export the same material get the same keys: what
  one encrypts with the other decrypts with. The keys have the sizes of the suite and make up the material in the
  order of RFC 5764: client key, server key, client salt, server salt.\<close>

theorem dtls_keys_agree:
  assumes "GetCipherSuiteFromString name = suite" "suite \<noteq> SUITE_NONE" "GetSuiteKeySaltLength suite = (k, s)"
    and "export 88 = Some m" "length m = 88" "dt_setup client = kActive" "dt_setup server = kPassive"
  shows "\<exists>a b. ExtractSrtpParams (Some name) export client = (True, [DtlsSetup suite a b])
     \<and> ExtractSrtpParams (Some name) export server = (True, [DtlsSetup suite b a]) \<and> length a = k + s \<and> length b = k + s
     \<and> take (2 * (k + s)) m = take k a @ take k b @ drop k a @ drop k b"
proof -
  have ks: "2 * (k + s) \<le> length m" using key_salt_fits [OF assms(3)] assms(5) by simp
  let ?a = "take k m @ take s (drop (2 * k) m)" and ?b = "take k (drop k m) @ take s (drop (2 * k + s) m)"
  have "take (2 * (k + s)) m = take k m @ take k (drop k m) @ take s (drop (2 * k) m) @ take s (drop (2 * k + s) m)"
    by (simp add: take_add [symmetric] mult_2 add.assoc [symmetric] flip: append_assoc)
  then show ?thesis using assms ks
    by (intro exI [of _ ?a] exI [of _ ?b]) (simp add: ExtractSrtpParams_def split_material_def Let_def)
qed

theorem dtls_keys_agree_witness:
  "\<exists>a b. ExtractSrtpParams (Some ''SRTP_AES128_CM_SHA1_80'') (\<lambda>n. Some (replicate n 7)) (new_dtls\<lparr>dt_setup := kActive\<rparr>)
       = (True, [DtlsSetup SUITE_AES_CM_128_HMAC_SHA1_80 a b]) \<and> length a = 30"
  using dtls_keys_agree [of "''SRTP_AES128_CM_SHA1_80''" SUITE_AES_CM_128_HMAC_SHA1_80 16 14 "\<lambda>n. Some (replicate n 7)" "replicate 88 7"
      "new_dtls\<lparr>dt_setup := kActive\<rparr>" "new_dtls\<lparr>dt_setup := kPassive\<rparr>"]
  by (auto simp: GetCipherSuiteFromString_def)

end
