(* ===== verification/Notification.thy ===== *)
theory Notification
  imports Json
begin

text \<open>
  The messages the server sends to participants, \<^verbatim>\<open>src/src/signaling/notification.{h,cpp}\<close>. Field access is the
  record's selectors.
\<close>

record Notification =
  notify_room_id :: string
  notify_participant_id :: string
  notify_context :: json

definition kNotifyAllParticipants :: string where "kNotifyAllParticipants = []"

definition notification :: "string \<Rightarrow> string \<Rightarrow> (string \<times> json) list \<Rightarrow> Notification" where
  "notification rid type data =
     \<lparr>notify_room_id = rid, notify_participant_id = kNotifyAllParticipants,
      notify_context = JObject [(''type'', JString type), (''data'', JObject data)]\<rparr>"

definition MakeStreamAddedNotification :: "string \<Rightarrow> string \<Rightarrow> string \<Rightarrow> bool \<Rightarrow> bool \<Rightarrow> Notification" where
  "MakeStreamAddedNotification rid participant_id publish_stream_id has_video has_audio =
     notification rid ''streamAdded'' [(''participantId'', JString participant_id), (''publishStreamId'', JString publish_stream_id),
       (''hasVideo'', JBool has_video), (''hasAudio'', JBool has_audio)]"

definition MakeStreamRemovedNotification :: "string \<Rightarrow> string \<Rightarrow> string \<Rightarrow> Notification" where
  "MakeStreamRemovedNotification rid participant_id publish_stream_id =
     notification rid ''streamRemoved'' [(''publishParticipantId'', JString participant_id), (''publishStreamId'', JString publish_stream_id)]"

definition MakePublishMuteOrUnmuteNotification :: "string \<Rightarrow> bool \<Rightarrow> string \<Rightarrow> string \<Rightarrow> Notification" where
  "MakePublishMuteOrUnmuteNotification rid muted type publish_stream_id =
     notification rid ''publishMuteOrUnmute'' [(''publishStreamId'', JString publish_stream_id), (''muted'', JBool muted), (''type'', JString type)]"

definition MakeParticipantJoinedNotification :: "string \<Rightarrow> string \<Rightarrow> Notification" where
  "MakeParticipantJoinedNotification rid participant_id = notification rid ''participantJoined'' [(''participantId'', JString participant_id)]"

definition MakeParticipantLeftNotification :: "string \<Rightarrow> string \<Rightarrow> Notification" where
  "MakeParticipantLeftNotification rid participant_id = notification rid ''participantLeft'' [(''participantId'', JString participant_id)]"

end
