(* ===== verification/Server_Session.thy ===== *)
theory Server_Session
  imports Notification Write_Queue
begin

text \<open>
  The sessions of the signaling server: a web socket of a participant, \<^verbatim>\<open>src/src/signaling/signaling_server_base.{h,cpp}\<close>
  with the notifications it holds back (\<^verbatim>\<open>src/src/signaling/signaling_handler.cpp\<close>), and an HTTP connection with its queue of
  responses. The streams of Boost.Beast are outside: what a session starts to write is a log, and the completions of
  reads and writes are the operations that the library calls. A message is the JSON value that \<open>dump\<close> writes out. That it may
  throw is modelled for responses (theory \<open>Signaling\<close>); the strings of a notification are ones that the library has read.
\<close>

section \<open>A web socket\<close>

record Session =
  se_room_id :: string
  se_participant_id :: string
  se_room_info_when_joining :: json
  se_last_receive_keep_alive :: "int option"
  se_timed_out :: bool
  se_timer_armed :: bool
  se_close_requested :: bool
  se_write_buffers :: "json list"
  se_wire :: "json list"

definition new_session :: Session where
  "new_session = \<lparr>se_room_id = [], se_participant_id = [], se_room_info_when_joining = JNull, se_last_receive_keep_alive = None,
     se_timed_out = False, se_timer_armed = True, se_close_requested = False, se_write_buffers = [], se_wire = []\<rparr>"

definition kCheckKeepAliveInterval :: u64 where "kCheckKeepAliveInterval = 3000"
definition kKeepAliveTimeoutThreshold :: u64 where "kKeepAliveTimeoutThreshold = 3000"

definition DoWrite :: "Session \<Rightarrow> Session" where
  "DoWrite s = s\<lparr>se_wire := se_wire s @ [hd (se_write_buffers s)]\<rparr>"

definition SendText :: "json \<Rightarrow> Session \<Rightarrow> Session" where
  "SendText t s =
     (let s = s\<lparr>se_write_buffers := se_write_buffers s @ [t]\<rparr>
      in if length (se_write_buffers s) = 1 then DoWrite s else s)"

text \<open>A write that has been completed.\<close>

definition OnWrite :: "Session \<Rightarrow> Session" where
  "OnWrite s =
     (let s = s\<lparr>se_write_buffers := tl (se_write_buffers s)\<rparr>
      in if se_write_buffers s \<noteq> [] then DoWrite s else s)"

fun listed_stream :: "string \<Rightarrow> json list \<Rightarrow> bool outcome" where
  "listed_stream sid [] = Returns False"
| "listed_stream sid (x # xs) =
     bind_outcome (json_get ''publishStreamId'' x) (\<lambda>v. if v = JString sid then Returns True else listed_stream sid xs)"

definition HijackNotification :: "Notification \<Rightarrow> Session \<Rightarrow> bool" where
  "HijackNotification n s =
     (case bind_outcome (json_get ''type'' (notify_context n)) (\<lambda>type.
        if type \<noteq> JString ''streamAdded'' then Returns False
        else bind_outcome (json_get ''data'' (notify_context n)) (\<lambda>data.
          bind_outcome (json_get_string ''publishStreamId'' data) (\<lambda>sid.
          bind_outcome (json_get ''streams'' (se_room_info_when_joining s)) (\<lambda>streams.
          listed_stream sid (json_elements streams))))) of
        Returns b \<Rightarrow> b | _ \<Rightarrow> False)"

definition SendNotification :: "Notification \<Rightarrow> Session \<Rightarrow> Session" where
  "SendNotification n s = (if HijackNotification n s then s else SendText (notify_context n) s)"

text \<open>The age of the last sign of life is compared as an unsigned number.\<close>

definition OnTimerTimeout :: "int \<Rightarrow> Session \<Rightarrow> Session" where
  "OnTimerTimeout now s =
     (let s = (case se_last_receive_keep_alive s of
            None \<Rightarrow> s
          | Some t \<Rightarrow> if (of_int (now - t) :: u64) > kKeepAliveTimeoutThreshold
              then s\<lparr>se_close_requested := True, se_timed_out := True\<rparr> else s)
      in s\<lparr>se_timer_armed := \<not> se_timed_out s\<rparr>)"

section \<open>An HTTP connection\<close>

text \<open>\<open>hs_answered\<close> are the responses of all requests so far, \<open>hs_started\<close> those that have gone to \<open>async_write\<close>.\<close>

record 'r HttpSession =
  hs_items :: "'r list"
  hs_reading :: bool
  hs_open :: bool
  hs_answered :: "'r list"
  hs_started :: "'r list"

datatype 'r read_result = ReadEof | ReadError | ReadUpgrade | ReadRequest 'r

definition limit :: nat where "limit = 8"

definition IsFull :: "'r HttpSession \<Rightarrow> bool" where
  "IsFull h \<longleftrightarrow> limit \<le> length (hs_items h)"

definition HttpDoRead :: "'r HttpSession \<Rightarrow> 'r HttpSession" where
  "HttpDoRead h = h\<lparr>hs_reading := True\<rparr>"

definition start_first :: "'r HttpSession \<Rightarrow> 'r HttpSession" where
  "start_first h = h\<lparr>hs_started := hs_started h @ [hd (hs_items h)]\<rparr>"

definition QueueSend :: "'r \<Rightarrow> 'r HttpSession \<Rightarrow> 'r HttpSession" where
  "QueueSend r h =
     (let h = h\<lparr>hs_items := hs_items h @ [r], hs_answered := hs_answered h @ [r]\<rparr>
      in if length (hs_items h) = 1 then start_first h else h)"

definition QueueOnWrite :: "'r HttpSession \<Rightarrow> bool \<times> 'r HttpSession" where
  "QueueOnWrite h =
     (let was_full = IsFull h; h = h\<lparr>hs_items := tl (hs_items h)\<rparr>
      in (was_full, if hs_items h \<noteq> [] then start_first h else h))"

definition new_http_session :: "'r HttpSession" where
  "new_http_session = HttpDoRead \<lparr>hs_items = [], hs_reading = False, hs_open = True, hs_answered = [], hs_started = []\<rparr>"

text \<open>After the end of the stream, an error or an upgrade nothing is read any more.\<close>

definition HttpOnRead :: "'r read_result \<Rightarrow> 'r HttpSession \<Rightarrow> 'r HttpSession" where
  "HttpOnRead r h =
     (let h = h\<lparr>hs_reading := False\<rparr>
      in case r of
           ReadRequest x \<Rightarrow> let h = QueueSend x h in if \<not> IsFull h then HttpDoRead h else h
         | _ \<Rightarrow> h\<lparr>hs_open := False\<rparr>)"

definition HttpOnWrite :: "bool \<Rightarrow> bool \<Rightarrow> 'r HttpSession \<Rightarrow> 'r HttpSession" where
  "HttpOnWrite failed close h =
     (if failed \<or> close then h\<lparr>hs_open := False\<rparr>
      else let (was_full, h) = QueueOnWrite h in if was_full then HttpDoRead h else h)"

section \<open>Writes in order\<close>

text \<open>Both sessions write one message at a time. The first of those that wait is the one that is being written.\<close>

lemma SendText_fields [simp]:
  "se_room_id (SendText t s) = se_room_id s" "se_participant_id (SendText t s) = se_participant_id s"
  "se_room_info_when_joining (SendText t s) = se_room_info_when_joining s" "se_timer_armed (SendText t s) = se_timer_armed s"
  "se_last_receive_keep_alive (SendText t s) = se_last_receive_keep_alive s" "se_timed_out (SendText t s) = se_timed_out s"
  "se_write_buffers (SendText t s) = se_write_buffers s @ [t]"
  by (simp_all add: SendText_def DoWrite_def Let_def)

interpretation ws: serial_writer se_write_buffers se_wire "\<lambda>_. True" SendText OnWrite
  by unfold_locales (auto simp: SendText_def OnWrite_def DoWrite_def Let_def take_Suc length_Suc_conv)

interpretation http: serial_writer hs_items hs_started "\<lambda>_. True" QueueSend "\<lambda>h. snd (QueueOnWrite h)"
  by unfold_locales (auto simp: QueueSend_def QueueOnWrite_def start_first_def Let_def take_Suc length_Suc_conv)

abbreviation outgoing :: "Session \<Rightarrow> json list" where
  "outgoing \<equiv> ws.submitted"

lemma outgoing_SendText: "outgoing (SendText t s) = outgoing s @ [t]"
  by (rule ws.submitted_hand) simp

lemma outgoing_OnWrite: "outgoing (OnWrite s) = outgoing s"
  by (rule ws.submitted_complete) simp

lemma outgoing_SendNotification:
  "outgoing (SendNotification n s) = outgoing s @ (if HijackNotification n s then [] else [notify_context n])"
  by (simp add: SendNotification_def outgoing_SendText)

lemma outgoing_OnTimerTimeout [simp]: "outgoing (OnTimerTimeout now s) = outgoing s"
  by (simp add: OnTimerTimeout_def ws.submitted_def Let_def split: option.split)

lemma outgoing_new [simp]: "outgoing new_session = []"
  by (simp add: ws.submitted_def new_session_def)

inductive session_step :: "Session \<times> json list \<Rightarrow> Session \<times> json list \<Rightarrow> bool" where
  say: "session_step (s, ts) (SendText t s, ts @ [t])"
| notify: "session_step (s, ts) (SendNotification n s, ts @ (if HijackNotification n s then [] else [notify_context n]))"
| wrote: "se_write_buffers s \<noteq> [] \<Longrightarrow> session_step (s, ts) (OnWrite s, ts)"
| tick: "session_step (s, ts) (OnTimerTimeout now s, ts)"

inductive http_step :: "'r HttpSession \<Rightarrow> 'r HttpSession \<Rightarrow> bool" where
  has_read: "hs_reading h \<Longrightarrow> http_step h (HttpOnRead r h)"
| has_written: "hs_items h \<noteq> [] \<Longrightarrow> http_step h (HttpOnWrite failed close h)"

definition http_ok :: "'r HttpSession \<Rightarrow> bool" where
  "http_ok h \<longleftrightarrow> length (hs_items h) \<le> limit \<and> hs_answered h = hs_started h @ tl (hs_items h)
     \<and> (hs_reading h \<longrightarrow> length (hs_items h) < limit) \<and> (hs_open h \<longrightarrow> length (hs_items h) < limit \<longrightarrow> hs_reading h)"

lemma http_ok_new: "http_ok new_http_session"
  by (simp add: http_ok_def new_http_session_def HttpDoRead_def limit_def)

lemma HttpOnRead_ok: "http_ok h \<Longrightarrow> hs_reading h \<Longrightarrow> http_ok (HttpOnRead r h)"
  by (cases r; cases "hs_items h")
    (auto simp: http_ok_def HttpOnRead_def QueueSend_def start_first_def HttpDoRead_def IsFull_def limit_def Let_def)

lemma HttpOnWrite_ok: "http_ok h \<Longrightarrow> hs_items h \<noteq> [] \<Longrightarrow> http_ok (HttpOnWrite failed close h)"
  by (cases "hs_items h"; cases "tl (hs_items h)")
    (auto simp: http_ok_def HttpOnWrite_def QueueOnWrite_def start_first_def HttpDoRead_def IsFull_def limit_def Let_def)

lemma http_step_ok: "http_step h h' \<Longrightarrow> http_ok h \<Longrightarrow> http_ok h'"
  by (induction rule: http_step.induct) (auto intro: HttpOnRead_ok HttpOnWrite_ok)

text \<open>C38. An HTTP connection pipelines at most eight requests and never stalls: as long as it is open it waits for a
  request exactly if its queue is not full and else for a write to end, and the responses are started one at
  a time in the order of their requests.\<close>

theorem http_pipeline_never_stalls:
  assumes "http_step\<^sup>*\<^sup>* new_http_session h" "hs_open h"
  shows "hs_reading h = (length (hs_items h) < 8) \<and> length (hs_items h) \<le> 8 \<and> (hs_reading h \<or> hs_items h \<noteq> [])
    \<and> hs_answered h = hs_started h @ tl (hs_items h)"
proof -
  have "http_ok h" using assms(1) by (induction rule: rtranclp_induct) (auto intro: http_ok_new http_step_ok)
  then show ?thesis using assms(2) by (auto simp: http_ok_def limit_def)
qed

theorem http_pipeline_never_stalls_witness:
  "let h = HttpOnRead (ReadRequest ''b'') (HttpOnRead (ReadRequest ''a'') new_http_session)
   in hs_reading h \<and> hs_answered h = [''a'', ''b''] \<and> hs_started h = [''a'']"
proof -
  let ?a = "HttpOnRead (ReadRequest ''a'') new_http_session"
  let ?h = "HttpOnRead (ReadRequest ''b'') ?a"
  note eval = HttpOnRead_def QueueSend_def start_first_def HttpDoRead_def IsFull_def limit_def new_http_session_def Let_def
  have r: "hs_reading new_http_session" "hs_reading ?a" "hs_open ?h" "hs_items ?h = [''a'', ''b'']" "hs_answered ?h = [''a'', ''b'']"
    by (simp_all add: eval)
  have "http_step\<^sup>*\<^sup>* new_http_session ?h"
    using http_step.has_read [OF r(1), of "ReadRequest ''a''"] http_step.has_read [OF r(2), of "ReadRequest ''b''"] by auto
  then show ?thesis using http_pipeline_never_stalls [of ?h] r by (simp add: Let_def)
qed

lemma session_step_outgoing: "session_step x y \<Longrightarrow> outgoing (fst x) = snd x \<Longrightarrow> outgoing (fst y) = snd y"
  by (induction rule: session_step.induct) (simp_all add: outgoing_SendText outgoing_SendNotification outgoing_OnWrite)

text \<open>Whatever a session is told to send goes out once and in order: at any time what has been started is a front part
  of it, and all that waits is the rest, with at most one write in progress.\<close>

theorem session_writes_in_order:
  assumes "session_step\<^sup>*\<^sup>* (new_session, []) (s, ts)"
  shows "ts = se_wire s @ tl (se_write_buffers s)"
proof -
  have "outgoing (fst (s, ts)) = snd (s, ts)"
    using assms by (induction rule: rtranclp_induct) (auto intro: session_step_outgoing)
  then show ?thesis by (simp add: ws.submitted_def)
qed

theorem session_writes_in_order_witness:
  "let s = OnWrite (SendText JNull (SendText (JBool True) new_session)) in se_wire s = [JBool True, JNull] \<and> se_write_buffers s = [JNull]"
proof -
  let ?s = "SendText (JBool True) new_session"
  let ?t = "SendText JNull ?s"
  let ?u = "OnWrite ?t"
  have b: "se_write_buffers ?t = [JBool True, JNull]" "se_write_buffers ?u = [JNull]"
    by (simp_all add: new_session_def OnWrite_def DoWrite_def Let_def)
  have "session_step (new_session, []) (?s, [JBool True])" "session_step (?s, [JBool True]) (?t, [JBool True, JNull])"
    "session_step (?t, [JBool True, JNull]) (?u, [JBool True, JNull])"
    using session_step.say [of new_session "[]" "JBool True"] session_step.say [of ?s "[JBool True]" JNull]
      session_step.wrote [of ?t "[JBool True, JNull]"] b by simp_all
  then have "session_step\<^sup>*\<^sup>* (new_session, []) (?u, [JBool True, JNull])" by auto
  from session_writes_in_order [OF this] show ?thesis using b by (simp add: Let_def)
qed

text \<open>A session is closed for silence exactly if its last sign of life is more than three seconds old, or lies in
  the future because the clock went back; a session that never gave one is never closed.\<close>

theorem keep_alive_timeout:
  assumes "0 \<le> now" "now < 2 ^ 63" "\<not> se_close_requested s" "\<And>t. se_last_receive_keep_alive s = Some t \<Longrightarrow> 0 \<le> t \<and> t < 2 ^ 63"
  shows "se_close_requested (OnTimerTimeout now s)
    \<longleftrightarrow> (\<exists>t. se_last_receive_keep_alive s = Some t \<and> (now - t > 3000 \<or> now < t))"
proof (cases "se_last_receive_keep_alive s")
  case None
  then show ?thesis using assms(3) by (simp add: OnTimerTimeout_def Let_def)
next
  case (Some t)
  have u: "uint (of_int k :: u64) = k mod 2 ^ 64" for k by (simp add: uint_word_of_int)
  have "(of_int (now - t) :: u64) > 3000 \<longleftrightarrow> (now - t) mod 2 ^ 64 > 3000" unfolding word_less_def u [of "now - t"] by simp
  also have "\<dots> \<longleftrightarrow> now - t > 3000 \<or> now < t"
  proof (cases "now < t")
    case True
    have "(now - t) mod 2 ^ 64 = (now - t + 2 ^ 64) mod 2 ^ 64" by simp
    also have "\<dots> = now - t + 2 ^ 64" using True assms(1,2) assms(4) [OF Some] by (intro mod_pos_pos_trivial) auto
    finally show ?thesis using True assms(1,2) assms(4) [OF Some] by simp
  next
    case False
    then show ?thesis using assms(1,2) assms(4) [OF Some] by (simp add: mod_pos_pos_trivial)
  qed
  finally show ?thesis using Some assms(3) by (simp add: OnTimerTimeout_def kKeepAliveTimeoutThreshold_def Let_def)
qed

theorem keep_alive_timeout_witness:
  "se_close_requested (OnTimerTimeout 5000 (new_session\<lparr>se_last_receive_keep_alive := Some 1000\<rparr>))"
  using keep_alive_timeout [of 5000 "new_session\<lparr>se_last_receive_keep_alive := Some 1000\<rparr>"] by (simp add: new_session_def)

end
