(* ===== verification/Room.thy ===== *)
theory Room
  imports Notification
begin

text \<open>
  A conference room, \<^verbatim>\<open>src/src/signaling/room.{h,cpp}\<close>, with the life cycle of the streams it owns: \<open>Stop\<close> and the
  data observers of \<^verbatim>\<open>src/src/transport/publish_stream.cpp\<close> and \<^verbatim>\<open>src/src/transport/subscribe_stream.cpp\<close>, \<open>Shutdown\<close>
  and the connection events of \<^verbatim>\<open>src/src/transport/webrtc_stream.cpp\<close>.

  Streams are shared objects: the world holds them in a list and a pointer is an index. What an operation posts to a
  thread is a task in a queue: every stream has the queue of what was posted to its worker thread for it, the main
  thread has one queue. Each queue is first in, first out; the queues run in any order against each other and against
  the calls of the signaling server, which is the relation \<open>room_step\<close>. Hash maps are association lists and hash sets
  distinct lists, in the order an iteration meets them. Stream identifiers are random: \<open>draws\<close> are the strings
  drawn. Whether an offer is accepted and the transport starts (\<open>offer\<close>, \<open>start\<close>) is the business of the SDP
  negotiator and of DTLS, as is what media the offer has: either may throw or be undefined behaviour. An operation that
  does not return is \<open>None\<close>. Notifications are collected in the order they are sent.

  The handler of a DTLS connection first posts to the main thread and then sets a flag that the main thread
  reads, so it is two steps: \<open>st_announcing\<close> says that a worker is between them.
\<close>

section \<open>The code\<close>

datatype worker_task = StopTask | RegisterTask nat | UnregisterTask nat
datatype main_task = ConnectedTask string | ShutdownTask string

record stream =
  st_id :: string
  st_stopped :: bool
  st_announcing :: bool
  st_connected :: bool
  st_sdp_video :: bool
  st_sdp_audio :: bool
  st_video :: bool
  st_audio :: bool
  st_observers :: "nat list"
  st_tasks :: "worker_task list"

record Room =
  room_id :: string
  participant_id_set :: "string list"
  participant_publishs_map :: "(string \<times> nat list) list"
  publish_subscribes_map :: "(nat \<times> nat list) list"
  participant_subscribes_map :: "(string \<times> nat list) list"

record room_world =
  room :: Room
  streams :: "stream list"
  main_tasks :: "main_task list"
  notified :: "Notification list"

definition new_room :: "string \<Rightarrow> Room" where
  "new_room i = \<lparr>room_id = i, participant_id_set = [], participant_publishs_map = [], publish_subscribes_map = [],
     participant_subscribes_map = []\<rparr>"

definition Notify :: "Notification \<Rightarrow> room_world \<Rightarrow> room_world" where
  "Notify n w = w\<lparr>notified := notified w @ [n]\<rparr>"

definition on_room :: "(Room \<Rightarrow> Room) \<Rightarrow> room_world \<Rightarrow> room_world" where
  "on_room f w = w\<lparr>room := f (room w)\<rparr>"

definition on_stream :: "(stream \<Rightarrow> stream) \<Rightarrow> nat \<Rightarrow> room_world \<Rightarrow> room_world" where
  "on_stream f p w = w\<lparr>streams := (streams w)[p := f (streams w ! p)]\<rparr>"

definition stream_id :: "room_world \<Rightarrow> nat \<Rightarrow> string" where
  "stream_id w p = st_id (streams w ! p)"

definition members :: "'k \<Rightarrow> ('k \<times> 'v list) list \<Rightarrow> 'v list" where
  "members k m = (case map_of m k of None \<Rightarrow> [] | Some xs \<Rightarrow> xs)"

definition add_member :: "'k \<Rightarrow> 'v \<Rightarrow> ('k \<times> 'v list) list \<Rightarrow> ('k \<times> 'v list) list" where
  "add_member k x m = AList.update k (List.insert x (members k m)) m"

subsection \<open>On the worker thread of a stream\<close>

definition post :: "worker_task \<Rightarrow> nat \<Rightarrow> room_world \<Rightarrow> room_world" where
  "post t = on_stream (\<lambda>s. s\<lparr>st_tasks := st_tasks s @ [t]\<rparr>)"

definition Shutdown :: "nat \<Rightarrow> room_world \<Rightarrow> room_world" where
  "Shutdown p w =
     (if st_stopped (streams w ! p) then w
      else on_stream (\<lambda>s. s\<lparr>st_stopped := True\<rparr>) p w\<lparr>main_tasks := main_tasks w @ [ShutdownTask (stream_id w p)]\<rparr>)"

definition OnDtlsTransportSetup :: "bool \<Rightarrow> nat \<Rightarrow> room_world \<Rightarrow> room_world" where
  "OnDtlsTransportSetup srtp_ok p w =
     (if \<not> srtp_ok then Shutdown p w
      else on_stream (\<lambda>s. s\<lparr>st_announcing := True\<rparr>) p w\<lparr>main_tasks := main_tasks w @ [ConnectedTask (stream_id w p)]\<rparr>)"

text \<open>The last line of the handler.\<close>

definition SetEstablished :: "nat \<Rightarrow> room_world \<Rightarrow> room_world" where
  "SetEstablished = on_stream (\<lambda>s. s\<lparr>st_announcing := False, st_connected := True\<rparr>)"

text \<open>The transport and the tracks, which \<open>Stop\<close> closes too, are outside this model.\<close>

definition run_worker_task :: "worker_task \<Rightarrow> nat \<Rightarrow> room_world \<Rightarrow> room_world" where
  "run_worker_task t p w =
     (case t of
        StopTask \<Rightarrow> if st_stopped (streams w ! p) then w else Shutdown p w
      | RegisterTask s \<Rightarrow> on_stream (\<lambda>st. if s \<in> set (st_observers st) then st else st\<lparr>st_observers := st_observers st @ [s]\<rparr>) p w
      | UnregisterTask s \<Rightarrow> on_stream (\<lambda>st. st\<lparr>st_observers := remove1 s (st_observers st)\<rparr>) p w)"

definition run_worker :: "nat \<Rightarrow> room_world \<Rightarrow> room_world" where
  "run_worker p w =
     (case st_tasks (streams w ! p) of [] \<Rightarrow> w
      | t # ts \<Rightarrow> run_worker_task t p (on_stream (\<lambda>s. s\<lparr>st_tasks := ts\<rparr>) p w))"

subsection \<open>On the main thread\<close>

text \<open>What \<open>SetLocalDescription\<close> and \<open>UpdateMuteInfo\<close> of a published stream do to the media flags. For a type that is
  neither audio nor video \<open>NOTREACHED\<close> aborts the process: \<open>None\<close>.\<close>

definition SetLocalMedia :: "bool \<Rightarrow> bool \<Rightarrow> nat \<Rightarrow> room_world \<Rightarrow> room_world" where
  "SetLocalMedia video audio = on_stream (\<lambda>s. s\<lparr>st_video := st_video s \<or> video, st_audio := st_audio s \<or> audio\<rparr>)"

definition UpdateMuteInfo :: "string \<Rightarrow> bool \<Rightarrow> nat \<Rightarrow> room_world \<Rightarrow> room_world option" where
  "UpdateMuteInfo type muted p w =
     (if type = ''audio'' then Some (on_stream (\<lambda>s. s\<lparr>st_audio := \<not> muted\<rparr>) p w)
      else if type = ''video'' then Some (on_stream (\<lambda>s. s\<lparr>st_video := \<not> muted\<rparr>) p w)
      else None)"

definition Join :: "string \<Rightarrow> room_world \<Rightarrow> YlError \<times> room_world" where
  "Join pid w =
     (if pid \<in> set (participant_id_set (room w)) then (kParticipantAlreadyJoined, w)
      else (kOk, Notify (MakeParticipantJoinedNotification (room_id (room w)) pid)
             (on_room (\<lambda>r. r\<lparr>participant_id_set := participant_id_set r @ [pid]\<rparr>) w)))"

definition Leave :: "string \<Rightarrow> room_world \<Rightarrow> room_world" where
  "Leave pid w =
     (let w = fold (post StopTask) (members pid (participant_publishs_map (room w))) w;
          w = fold (post StopTask) (members pid (participant_subscribes_map (room w))) w
      in if pid \<in> set (participant_id_set (room w))
         then Notify (MakeParticipantLeftNotification (room_id (room w)) pid)
                (on_room (\<lambda>r. r\<lparr>participant_id_set := remove1 pid (participant_id_set r)\<rparr>) w)
         else w)"

definition KickoutParticipant :: "string \<Rightarrow> room_world \<Rightarrow> room_world" where
  "KickoutParticipant = Leave"

definition Destroy :: "room_world \<Rightarrow> room_world" where
  "Destroy w =
     (let w = fold (post StopTask) (concat (map snd (participant_publishs_map (room w)))) w
      in fold (post StopTask) (concat (map snd (participant_subscribes_map (room w)))) w)"

definition StreamIdExist :: "string \<Rightarrow> room_world \<Rightarrow> bool" where
  "StreamIdExist sid w \<longleftrightarrow> (\<exists>(pid, ps) \<in> set (participant_publishs_map (room w)). \<exists>p \<in> set ps. stream_id w p = sid)
     \<or> (\<exists>(pid, ps) \<in> set (participant_subscribes_map (room w)). \<exists>p \<in> set ps. stream_id w p = sid)"

text \<open>The loop that draws until the identifier is new; \<open>None\<close> when the draws given are used up before.\<close>

definition draw_id :: "string list \<Rightarrow> room_world \<Rightarrow> string option" where
  "draw_id draws w = find (\<lambda>sid. \<not> StreamIdExist sid w) draws"

definition make_stream :: "string \<Rightarrow> bool \<Rightarrow> bool \<Rightarrow> room_world \<Rightarrow> nat \<times> room_world" where
  "make_stream sid video audio w =
     (length (streams w), w\<lparr>streams := streams w @ [\<lparr>st_id = sid, st_stopped = False, st_announcing = False, st_connected = False, st_sdp_video = video,
        st_sdp_audio = audio, st_video = False, st_audio = False, st_observers = [], st_tasks = []\<rparr>]\<rparr>)"

text \<open>The remote description of a new stream and its start: the stream is dropped unless both succeed.\<close>

definition set_up :: "bool outcome \<Rightarrow> bool outcome \<Rightarrow> nat \<Rightarrow> room_world \<Rightarrow> room_world \<Rightarrow> (nat option outcome \<times> room_world) option" where
  "set_up offer start p dropped kept =
     (case bind_outcome offer (\<lambda>ok. if ok then start else Returns False) of
        Returns ok \<Rightarrow> Some (if ok then (Returns (Some p), kept) else (Returns None, dropped))
      | Fails \<Rightarrow> Some (Fails, dropped)
      | OutOfBounds \<Rightarrow> None)"

definition ParticipantPublish :: "string list \<Rightarrow> bool outcome \<Rightarrow> bool outcome \<Rightarrow> bool \<Rightarrow> bool \<Rightarrow> string \<Rightarrow> room_world
    \<Rightarrow> (nat option outcome \<times> room_world) option" where
  "ParticipantPublish draws offer start video audio pid w =
     (if pid \<notin> set (participant_id_set (room w)) then Some (Returns None, w)
      else do {
        sid \<leftarrow> draw_id draws w;
        let (p, w) = make_stream sid video audio w;
        set_up offer start p w (on_room (\<lambda>r. r\<lparr>participant_publishs_map := add_member pid p (participant_publishs_map r)\<rparr>) w) })"

definition ParticipantSubscribe :: "string list \<Rightarrow> bool outcome \<Rightarrow> bool outcome \<Rightarrow> string \<Rightarrow> string \<Rightarrow> string \<Rightarrow> room_world
    \<Rightarrow> (nat option outcome \<times> room_world) option" where
  "ParticipantSubscribe draws offer start src dst sid w =
     (if src \<notin> set (participant_id_set (room w)) \<or> dst \<notin> set (participant_id_set (room w)) then Some (Returns None, w)
      else case map_of (participant_publishs_map (room w)) dst of
        None \<Rightarrow> Some (Returns None, w)
      | Some ps \<Rightarrow>
          case find (\<lambda>p. stream_id w p = sid) ps of
            None \<Rightarrow> Some (Returns None, w)
          | Some p \<Rightarrow> do {
              new_id \<leftarrow> draw_id draws w;
              let (s, w) = make_stream new_id (st_sdp_video (streams w ! p)) (st_sdp_audio (streams w ! p)) w;
              set_up offer start s w (on_room (\<lambda>r. r\<lparr>publish_subscribes_map := add_member p s (publish_subscribes_map r),
                  participant_subscribes_map := add_member src s (participant_subscribes_map r)\<rparr>)
                (post (RegisterTask s) p w)) })"

fun notify_added :: "string \<Rightarrow> (string \<times> nat list) list \<Rightarrow> room_world \<Rightarrow> room_world" where
  "notify_added sid [] w = w"
| "notify_added sid ((pid, ps) # es) w =
     (case find (\<lambda>p. stream_id w p = sid) ps of
        None \<Rightarrow> notify_added sid es w
      | Some p \<Rightarrow> notify_added sid es (Notify (MakeStreamAddedNotification (room_id (room w)) pid (stream_id w p)
            (st_sdp_video (streams w ! p)) (st_sdp_audio (streams w ! p))) w))"

definition OnWebrtcStreamConnected :: "string \<Rightarrow> room_world \<Rightarrow> room_world" where
  "OnWebrtcStreamConnected sid w = notify_added sid (participant_publishs_map (room w)) w"

text \<open>The subscribers of a published stream that has gone.\<close>

definition close_subscribers :: "nat \<Rightarrow> room_world \<Rightarrow> room_world" where
  "close_subscribers p w =
     (case map_of (publish_subscribes_map (room w)) p of
        None \<Rightarrow> w
      | Some ss \<Rightarrow> on_room (\<lambda>r. r\<lparr>publish_subscribes_map := AList.delete p (publish_subscribes_map r)\<rparr>)
          (fold (\<lambda>s w. post StopTask s (post (UnregisterTask s) p w)) ss w))"

definition publish_gone :: "string \<Rightarrow> nat \<Rightarrow> room_world \<Rightarrow> room_world" where
  "publish_gone pid p w = close_subscribers p (Notify (MakeStreamRemovedNotification (room_id (room w)) pid (stream_id w p)) w)"

text \<open>Both loops of \<open>OnWebrtcStreamShutdown\<close> look for the stream in every entry, act on it, erase it
  from the entry and erase entries that are empty.\<close>

fun erase_stream :: "(string \<Rightarrow> nat \<Rightarrow> room_world \<Rightarrow> room_world) \<Rightarrow> string \<Rightarrow> (string \<times> nat list) list \<Rightarrow> room_world
    \<Rightarrow> (string \<times> nat list) list \<times> room_world" where
  "erase_stream act sid [] w = ([], w)"
| "erase_stream act sid ((pid, ps) # es) w =
     (let (ps, w) = (case find (\<lambda>p. stream_id w p = sid) ps of
            None \<Rightarrow> (ps, w)
          | Some p \<Rightarrow> (remove1 p ps, act pid p w));
          (es, w) = erase_stream act sid es w
      in (if ps = [] then es else (pid, ps) # es, w))"

fun detach :: "string \<Rightarrow> (nat \<times> nat list) list \<Rightarrow> room_world \<Rightarrow> (nat \<times> nat list) list \<times> room_world" where
  "detach sid [] w = ([], w)"
| "detach sid ((p, ss) # es) w =
     (let w = fold (\<lambda>s. post (UnregisterTask s) p) (filter (\<lambda>s. stream_id w s = sid) ss) w;
          (es, w) = detach sid es w
      in ((p, filter (\<lambda>s. stream_id w s \<noteq> sid) ss) # es, w))"

definition subscription_gone :: "string \<Rightarrow> string \<Rightarrow> nat \<Rightarrow> room_world \<Rightarrow> room_world" where
  "subscription_gone sid pid s w =
     (let (m, w) = detach sid (publish_subscribes_map (room w)) w in on_room (\<lambda>r. r\<lparr>publish_subscribes_map := m\<rparr>) w)"

definition OnWebrtcStreamShutdown :: "string \<Rightarrow> room_world \<Rightarrow> room_world" where
  "OnWebrtcStreamShutdown sid w =
     (let (m, w) = erase_stream publish_gone sid (participant_publishs_map (room w)) w;
          w = on_room (\<lambda>r. r\<lparr>participant_publishs_map := m\<rparr>) w;
          (m, w) = erase_stream (subscription_gone sid) sid (participant_subscribes_map (room w)) w
      in on_room (\<lambda>r. r\<lparr>participant_subscribes_map := m\<rparr>) w)"

definition run_main :: "room_world \<Rightarrow> room_world" where
  "run_main w =
     (case main_tasks w of [] \<Rightarrow> w
      | ConnectedTask sid # ts \<Rightarrow> OnWebrtcStreamConnected sid (w\<lparr>main_tasks := ts\<rparr>)
      | ShutdownTask sid # ts \<Rightarrow> OnWebrtcStreamShutdown sid (w\<lparr>main_tasks := ts\<rparr>))"

definition find_stream :: "string \<Rightarrow> (string \<times> nat list) list \<Rightarrow> room_world \<Rightarrow> nat option" where
  "find_stream sid m w = find (\<lambda>p. stream_id w p = sid) (concat (map snd m))"

definition GetStreamById :: "string \<Rightarrow> room_world \<Rightarrow> nat option" where
  "GetStreamById sid w =
     (case find_stream sid (participant_publishs_map (room w)) w of
        Some p \<Rightarrow> Some p | None \<Rightarrow> find_stream sid (participant_subscribes_map (room w)) w)"

definition stream_info :: "room_world \<Rightarrow> string \<Rightarrow> nat \<Rightarrow> json" where
  "stream_info w pid p = JObject [(''participantId'', JString pid), (''publishStreamId'', JString (stream_id w p)),
     (''hasVideo'', JBool (st_video (streams w ! p))), (''hasAudio'', JBool (st_audio (streams w ! p)))]"

definition GetRoomInfo :: "room_world \<Rightarrow> json" where
  "GetRoomInfo w = JObject [(''participants'', JArray (map JString (participant_id_set (room w)))),
     (''streams'', JArray (concat (map (\<lambda>(pid, ps). map (stream_info w pid) (filter (\<lambda>p. st_connected (streams w ! p)) ps))
        (participant_publishs_map (room w)))))]"

section \<open>What can happen\<close>

text \<open>Tasks that are run, and what comes from outside: the calls of the signaling server and events of the network.\<close>

inductive task_step :: "room_world \<Rightarrow> room_world \<Rightarrow> bool" where
  worker: "p < length (streams w) \<Longrightarrow> st_tasks (streams w ! p) \<noteq> [] \<Longrightarrow> task_step w (run_worker p w)"
| main: "main_tasks w \<noteq> [] \<Longrightarrow> task_step w (run_main w)"

inductive room_step :: "room_world \<Rightarrow> room_world \<Rightarrow> bool" where
  task: "task_step w w' \<Longrightarrow> room_step w w'"
| join: "room_step w (snd (Join pid w))"
| leave: "room_step w (Leave pid w)"
| destroy: "room_step w (Destroy w)"
| publish: "ParticipantPublish draws offer start video audio pid w = Some (r, w') \<Longrightarrow> room_step w w'"
| subscribe: "ParticipantSubscribe draws offer start src dst sid w = Some (r, w') \<Longrightarrow> room_step w w'"
| connected: "p < length (streams w) \<Longrightarrow> room_step w (OnDtlsTransportSetup srtp_ok p w)"
| established: "p < length (streams w) \<Longrightarrow> st_announcing (streams w ! p) \<Longrightarrow> room_step w (SetEstablished p w)"
| failure: "p < length (streams w) \<Longrightarrow> room_step w (Shutdown p w)"
| mute: "p < length (streams w) \<Longrightarrow> UpdateMuteInfo type muted p w = Some w' \<Longrightarrow> room_step w w'"
| media: "p < length (streams w) \<Longrightarrow> room_step w (SetLocalMedia video audio p w)"

end
