(* ===== verification/Room_Invariant.thy ===== *)
theory Room_Invariant
  imports Room
begin

text \<open>
  The invariant of a conference room under every interleaving of the main thread, the worker threads, the calls
  of the signaling server and the events of the network (theory \<open>Room\<close>), and that the tasks a room posts
  always run dry, which together give what a room looks like once it is at rest.
\<close>

section \<open>Maps of members\<close>

definition prune :: "('k \<times> 'v list) list \<Rightarrow> ('k \<times> 'v list) list" where
  "prune m = filter (\<lambda>(k, xs). xs \<noteq> []) m"

definition without :: "'v \<Rightarrow> ('k \<times> 'v list) list \<Rightarrow> ('k \<times> 'v list) list" where
  "without x m = map (\<lambda>(k, xs). (k, remove1 x xs)) m"

definition held :: "('k \<times> 'v list) list \<Rightarrow> 'v set" where
  "held m = (\<Union>k. set (members k m))"

text \<open>Every value has one owner.\<close>

definition owned :: "('k \<times> 'v list) list \<Rightarrow> bool" where
  "owned m \<longleftrightarrow> distinct (map fst m) \<and> (\<forall>k. distinct (members k m))
     \<and> (\<forall>k k' x. x \<in> set (members k m) \<longrightarrow> x \<in> set (members k' m) \<longrightarrow> k = k')"

lemma owned_unique: "owned m \<Longrightarrow> x \<in> set (members k m) \<Longrightarrow> x \<in> set (members k' m) \<Longrightarrow> k = k'"
  unfolding owned_def by blast

lemma members_Nil [simp]: "members k [] = []"
  by (simp add: members_def)

lemma members_Cons: "members k ((k', xs) # m) = (if k = k' then xs else members k m)"
  by (simp add: members_def)

lemma members_entry: "distinct (map fst m) \<Longrightarrow> (k, xs) \<in> set m \<Longrightarrow> members k m = xs"
  by (simp add: members_def)

lemma members_in: "x \<in> set (members k m) \<Longrightarrow> \<exists>xs. (k, xs) \<in> set m \<and> x \<in> set xs"
  by (auto simp: members_def split: option.splits dest!: map_of_SomeD [OF sym])

lemma members_not_key: "k \<notin> fst ` set m \<Longrightarrow> members k m = []"
  using map_of_eq_None_iff [of m k] by (simp add: members_def)

lemma held_entry: "distinct (map fst m) \<Longrightarrow> x \<in> held m \<longleftrightarrow> (\<exists>(k, xs) \<in> set m. x \<in> set xs)"
  using members_entry [of m] members_in [of x _ m] by (fastforce simp: held_def)

lemma members_prune: "distinct (map fst m) \<Longrightarrow> members k (prune m) = members k m"
proof (induction m)
  case (Cons e m)
  obtain k' xs where e: "e = (k', xs)" by (cases e)
  have "members k' m = []" if "xs = []" using Cons.prems e by (intro members_not_key) auto
  moreover have "members k' (prune m) = []" using Cons.prems e by (intro members_not_key) (auto simp: prune_def)
  ultimately show ?case using Cons e by (auto simp: prune_def members_Cons)
qed (simp add: prune_def)

lemma distinct_prune: "distinct (map fst m) \<Longrightarrow> distinct (map fst (prune m))"
  by (induction m) (auto simp: prune_def)

lemma members_without: "members k (without x m) = remove1 x (members k m)"
  by (induction m) (auto simp: without_def members_Cons)

lemma keys_without: "map fst (without x m) = map fst m"
  by (auto simp: without_def)

lemma members_add: "members k (add_member k' x m) = (if k = k' then List.insert x (members k m) else members k m)"
  by (auto simp: add_member_def members_def update_conv')

lemma owned_add: "owned m \<Longrightarrow> x \<notin> held m \<Longrightarrow> owned (add_member k x m)"
  unfolding owned_def held_def members_add
  by (auto simp: add_member_def distinct_update)

lemma held_add: "held (add_member k x m) = insert x (held m)"
  by (auto simp: held_def members_add split: if_splits)

lemma owned_remove:
  assumes "owned m" "distinct (map fst m')" "\<And>k. members k m' = remove1 x (members k m)"
  shows "owned m'" "held m' = held m - {x}"
proof -
  have d: "distinct (members k m)" for k using assms(1) by (simp add: owned_def)
  show "owned m'" using assms(1,2) d unfolding owned_def assms(3) by (auto simp: set_remove1_eq)
  show "held m' = held m - {x}" unfolding held_def assms(3) using d by (auto simp: set_remove1_eq)
qed

lemma owned_without: "owned m \<Longrightarrow> owned (without x m)" "owned m \<Longrightarrow> held (without x m) = held m - {x}"
  by (rule owned_remove; simp add: members_without keys_without owned_def)+

lemma owned_prune: "owned m \<Longrightarrow> owned (prune m)" "owned m \<Longrightarrow> held (prune m) = held m"
  using members_prune [of m] distinct_prune [of m] by (auto simp: owned_def held_def)

lemma owned_erase:
  assumes "owned m"
  shows "owned (prune (without x m))" "held (prune (without x m)) = held m - {x}" "members k (prune (without x m)) = remove1 x (members k m)"
  using owned_without [OF assms, of x] owned_prune [of "without x m"] members_prune [of "without x m" k]
  by (simp_all add: members_without owned_def)

section \<open>Posting tasks\<close>

definition posts :: "(nat \<times> worker_task) list \<Rightarrow> room_world \<Rightarrow> room_world" where
  "posts l w = fold (\<lambda>(p, t). post t p) l w"

definition tasks_for :: "nat \<Rightarrow> (nat \<times> worker_task) list \<Rightarrow> worker_task list" where
  "tasks_for p l = map snd (filter (\<lambda>(q, t). q = p) l)"

lemma posts_append: "posts (l @ l') w = posts l' (posts l w)"
  by (simp add: posts_def)

lemma on_stream_simps [simp]:
  "room (on_stream f p w) = room w" "main_tasks (on_stream f p w) = main_tasks w" "notified (on_stream f p w) = notified w"
  "length (streams (on_stream f p w)) = length (streams w)"
  "on_stream f p (w\<lparr>main_tasks := ts\<rparr>) = on_stream f p w\<lparr>main_tasks := ts\<rparr>"
  by (simp_all add: on_stream_def)

lemma on_stream_nth: "q < length (streams w) \<Longrightarrow> streams (on_stream f p w) ! q = (if q = p then f (streams w ! q) else streams w ! q)"
  by (simp add: on_stream_def)

lemma posts_simps [simp]:
  "room (posts l w) = room w" "main_tasks (posts l w) = main_tasks w" "length (streams (posts l w)) = length (streams w)"
  by (induction l arbitrary: w) (auto simp: posts_def post_def)

lemma posts_nth: "q < length (streams w) \<Longrightarrow> streams (posts l w) ! q = (streams w ! q)\<lparr>st_tasks := st_tasks (streams w ! q) @ tasks_for q l\<rparr>"
proof (induction l arbitrary: w)
  case (Cons e l)
  obtain p t where e: "e = (p, t)" by (cases e)
  have "streams (posts (e # l) w) ! q = streams (posts l (post t p w)) ! q" by (simp add: posts_def e)
  also have "\<dots> = (streams (post t p w) ! q)\<lparr>st_tasks := st_tasks (streams (post t p w) ! q) @ tasks_for q l\<rparr>"
    using Cons by (simp add: post_def)
  finally show ?case using Cons.prems by (simp add: post_def on_stream_nth e tasks_for_def)
qed (simp add: posts_def tasks_for_def)

lemma stream_id_posts [simp]: "p < length (streams w) \<Longrightarrow> stream_id (posts l w) p = stream_id w p"
  by (simp add: stream_id_def posts_nth)

lemma fold_posts: "fold (\<lambda>x. posts (f x)) xs w = posts (concat (map f xs)) w"
  by (induction xs arbitrary: w) (simp_all add: posts_def)

lemma post_posts: "post t p = posts [(p, t)]"
  by (simp add: posts_def fun_eq_iff)

section \<open>The loops of a shutdown\<close>

definition unique_id :: "room_world \<Rightarrow> string \<Rightarrow> nat set \<Rightarrow> bool" where
  "unique_id w sid A \<longleftrightarrow> (\<forall>p \<in> A. \<forall>q \<in> A. stream_id w p = sid \<longrightarrow> stream_id w q = sid \<longrightarrow> p = q)"

lemma Notify_simps [simp]: "room (Notify n w) = room w" "streams (Notify n w) = streams w" "main_tasks (Notify n w) = main_tasks w"
  "stream_id (Notify n w) = stream_id w"
  by (simp_all add: Notify_def stream_id_def fun_eq_iff)

lemma on_room_simps [simp]: "room (on_room f w) = f (room w)" "streams (on_room f w) = streams w" "main_tasks (on_room f w) = main_tasks w"
  "notified (on_room f w) = notified w" "stream_id (on_room f w) = stream_id w"
  by (simp_all add: on_room_def stream_id_def fun_eq_iff)

definition closing :: "nat \<Rightarrow> nat list \<Rightarrow> (nat \<times> worker_task) list" where
  "closing p ss = concat (map (\<lambda>s. [(p, UnregisterTask s), (s, StopTask)]) ss)"

lemma close_subscribers_posts:
  "close_subscribers p w = on_room (\<lambda>r. r\<lparr>publish_subscribes_map := AList.delete p (publish_subscribes_map r)\<rparr>)
     (posts (closing p (members p (publish_subscribes_map (room w)))) w)"
proof (cases "map_of (publish_subscribes_map (room w)) p")
  case None
  then have "AList.delete p (publish_subscribes_map (room w)) = publish_subscribes_map (room w)"
    by (simp add: AList.delete_idem map_of_eq_None_iff)
  then show ?thesis using None by (simp add: close_subscribers_def members_def closing_def posts_def on_room_def)
next
  case (Some ss)
  have "fold (\<lambda>s w. post StopTask s (post (UnregisterTask s) p w)) ss w = posts (closing p ss) w" for w
    by (induction ss arbitrary: w) (simp_all add: closing_def posts_def)
  then show ?thesis using Some by (simp add: close_subscribers_def members_def)
qed

lemma erase_stream_absent:
  "(\<And>k ps p. (k, ps) \<in> set es \<Longrightarrow> p \<in> set ps \<Longrightarrow> stream_id w p \<noteq> sid) \<Longrightarrow> erase_stream act sid es w = (prune es, w)"
proof (induction es)
  case (Cons e es)
  obtain k ps where e: "e = (k, ps)" by (cases e)
  have "find (\<lambda>p. stream_id w p = sid) ps = None" using Cons.prems [of k ps] e by (auto simp: find_None_iff)
  moreover have "erase_stream act sid es w = (prune es, w)" using Cons.prems by (intro Cons.IH) auto
  ultimately show ?case by (simp add: e prune_def)
qed (simp add: prune_def)

lemma map_upd_simps [simp]: "room (w\<lparr>main_tasks := ts\<rparr>) = room w" "streams (w\<lparr>main_tasks := ts\<rparr>) = streams w"
  "stream_id (w\<lparr>main_tasks := ts\<rparr>) = stream_id w"
  by (simp_all add: stream_id_def fun_eq_iff)

lemma find_unique:
  assumes "p \<in> set ps" "\<forall>q \<in> set ps. P q \<longleftrightarrow> q = p"
  shows "find P ps = Some p"
  using assms by (induction ps) auto

lemma erase_stream_present:
  assumes "owned es" "(k, ps) \<in> set es" "p \<in> set ps" "\<And>q. q \<in> held es \<Longrightarrow> stream_id w q = sid \<longleftrightarrow> q = p"
    and "\<And>q. q \<in> held es \<Longrightarrow> stream_id (act k p w) q = stream_id w q"
  shows "erase_stream act sid es w = (prune (without p es), act k p w)"
  using assms
proof (induction es)
  case (Cons e es)
  obtain k' xs where e: "e = (k', xs)" by (cases e)
  have d: "distinct (map fst es)" "k' \<notin> fst ` set es" using Cons.prems(1) by (auto simp: owned_def e)
  have me: "members l es = (if l = k' then [] else members l (e # es))" for l
    using members_not_key [OF d(2)] by (auto simp: members_Cons e)
  have oe: "owned es" using Cons.prems(1) d(1) unfolding owned_def me by auto
  have he: "held es \<subseteq> held (e # es)" unfolding held_def me by (auto split: if_splits)
  have mk: "members k (e # es) = ps" using Cons.prems(1,2) by (intro members_entry) (simp_all add: owned_def)
  have hx: "set xs \<subseteq> held (e # es)" by (auto simp: held_def members_Cons e intro!: exI [of _ k'])
  show ?case
  proof (cases "k = k'")
    case True
    then have xs: "xs = ps" using mk by (simp add: members_Cons e)
    have f: "find (\<lambda>p. stream_id w p = sid) xs = Some p"
      using Cons.prems(3,4) hx xs by (intro find_unique) auto
    have no: "q \<noteq> p" if qh: "q \<in> held es" for q
    proof
      assume "q = p"
      then obtain l where l: "p \<in> set (members l es)" using qh unfolding held_def by blast
      then have "l \<noteq> k'" "p \<in> set (members l (e # es))" by (auto simp: me split: if_splits)
      moreover have "p \<in> set (members k' (e # es))" using mk True Cons.prems(3) by simp
      ultimately show False using owned_unique [OF Cons.prems(1)] by blast
    qed
    let ?w = "act k p w"
    have "stream_id ?w q \<noteq> sid" if "(l, ys) \<in> set es" "q \<in> set ys" for l ys q
    proof -
      have q: "q \<in> held es" using held_entry [OF d(1)] that by auto
      then have "stream_id ?w q = stream_id w q" using Cons.prems(5) he by auto
      then show ?thesis using Cons.prems(4) no [OF q] he q by auto
    qed
    then have "erase_stream act sid es ?w = (prune es, ?w)" by (rule erase_stream_absent)
    moreover have "prune es = prune (without p es)"
    proof -
      have "remove1 p ys = ys" if "(l, ys) \<in> set es" for l ys
        using no held_entry [OF d(1)] that by (intro remove1_idem) auto
      then have "without p es = es" by (auto simp: without_def intro!: map_idI)
      then show ?thesis by simp
    qed
    ultimately show ?thesis using f True by (simp add: e xs prune_def without_def)
  next
    case False
    have pin: "(k, ps) \<in> set es" using Cons.prems(2) False e by auto
    have np: "p \<notin> set xs"
    proof
      assume "p \<in> set xs"
      then have "p \<in> set (members k' (e # es))" by (simp add: members_Cons e)
      then show False using owned_unique [OF Cons.prems(1)] mk Cons.prems(3) False by auto
    qed
    then have "find (\<lambda>p. stream_id w p = sid) xs = None" using Cons.prems(4) hx by (auto simp: find_None_iff)
    moreover have "erase_stream act sid es w = (prune (without p es), act k p w)"
      using Cons.prems(4,5) he by (intro Cons.IH [OF oe pin Cons.prems(3)]) auto
    ultimately show ?thesis using np by (simp add: e prune_def without_def remove1_idem)
  qed
qed simp

text \<open>Removing a subscription from the publisher it hangs on.\<close>

definition detaching :: "nat \<Rightarrow> (nat \<times> nat list) list \<Rightarrow> (nat \<times> worker_task) list" where
  "detaching s m = concat (map (\<lambda>(p, ss). if s \<in> set ss then [(p, UnregisterTask s)] else []) m)"

lemma detach_posts:
  assumes "owned m" "\<And>q. q \<in> held m \<Longrightarrow> stream_id w q = sid \<longleftrightarrow> q = s" "held m \<subseteq> {..<length (streams w)}"
  shows "detach sid m w = (without s m, posts (detaching s m) w)"
  using assms
proof (induction m arbitrary: w)
  case (Cons e m)
  obtain k ss where e: "e = (k, ss)" by (cases e)
  have d: "distinct (map fst m)" "k \<notin> fst ` set m" "distinct ss"
  proof -
    have "members k (e # m) = ss" by (simp add: members_Cons e)
    then show "distinct ss" using Cons.prems(1) unfolding owned_def by metis
  qed (use Cons.prems(1) in \<open>auto simp: owned_def e\<close>)
  have me: "members l m = (if l = k then [] else members l (e # m))" for l
    using members_not_key [OF d(2)] by (auto simp: members_Cons e)
  have om: "owned m" using Cons.prems(1) d(1) unfolding owned_def me by auto
  have hm: "held m \<subseteq> held (e # m)" "set ss \<subseteq> held (e # m)"
    unfolding held_def me by (auto simp: members_Cons e split: if_splits intro!: exI [of _ k])
  have f: "filter (\<lambda>x. stream_id w x = sid) ss = (if s \<in> set ss then [s] else [])"
    "filter (\<lambda>x. stream_id w' x \<noteq> sid) ss = remove1 s ss" if "\<forall>q \<in> set ss. stream_id w' q = stream_id w q" for w'
  proof -
    have "filter (\<lambda>x. stream_id w x = sid) ss = filter (\<lambda>x. x = s) ss"
      using Cons.prems(2) hm(2) by (intro filter_cong) auto
    also have "\<dots> = (if s \<in> set ss then [s] else [])" using d(3) by (induction ss) (auto simp: filter_empty_conv)
    finally show "filter (\<lambda>x. stream_id w x = sid) ss = (if s \<in> set ss then [s] else [])" .
    have "filter (\<lambda>x. stream_id w' x \<noteq> sid) ss = filter (\<lambda>x. x \<noteq> s) ss"
      using Cons.prems(2) hm(2) that by (intro filter_cong) auto
    also have "\<dots> = remove1 s ss" using d(3) by (simp add: distinct_remove1_removeAll removeAll_filter_not_eq eq_commute)
    finally show "filter (\<lambda>x. stream_id w' x \<noteq> sid) ss = remove1 s ss" .
  qed
  define l where "l = (if s \<in> set ss then [(k, UnregisterTask s)] else [])"
  have w1: "fold (\<lambda>s. post (UnregisterTask s) k) (filter (\<lambda>x. stream_id w x = sid) ss) w = posts l w"
    using f(1) [of w] by (simp add: l_def posts_def)
  have sub: "held (e # m) \<subseteq> {..<length (streams w)}" by (rule Cons.prems(3))
  have ids: "stream_id (posts l w) q = stream_id w q" if "q \<in> held (e # m)" for q
    using sub that by (intro stream_id_posts) auto
  have "detach sid m (posts l w) = (without s m, posts (detaching s m) (posts l w))"
  proof (rule Cons.IH [OF om])
    show "stream_id (posts l w) q = sid \<longleftrightarrow> q = s" if "q \<in> held m" for q
      using Cons.prems(2) [of q] ids [of q] that hm(1) by auto
  qed (use sub hm(1) in auto)
  moreover have "filter (\<lambda>x. stream_id (posts l w) x \<noteq> sid) ss = remove1 s ss"
    using ids hm(2) by (intro f(2)) auto
  moreover have "filter (\<lambda>x. stream_id (posts (detaching s m) (posts l w)) x \<noteq> sid) ss = remove1 s ss"
    using ids hm(2) sub by (intro f(2)) (auto simp: subset_iff)
  ultimately show ?case
    by (simp add: e w1 without_def detaching_def posts_append l_def)
qed (simp add: without_def detaching_def posts_def)

section \<open>The invariant\<close>

text \<open>What a stream's observers will be once its tasks have run.\<close>

definition apply_task :: "worker_task \<Rightarrow> nat list \<Rightarrow> nat list" where
  "apply_task t os = (case t of StopTask \<Rightarrow> os | RegisterTask s \<Rightarrow> if s \<in> set os then os else os @ [s] | UnregisterTask s \<Rightarrow> remove1 s os)"

definition final_observers :: "stream \<Rightarrow> nat list" where
  "final_observers s = fold apply_task (st_tasks s) (st_observers s)"

abbreviation pubs :: "room_world \<Rightarrow> (string \<times> nat list) list" where "pubs w \<equiv> participant_publishs_map (room w)"
abbreviation subs :: "room_world \<Rightarrow> (string \<times> nat list) list" where "subs w \<equiv> participant_subscribes_map (room w)"
abbreviation links :: "room_world \<Rightarrow> (nat \<times> nat list) list" where "links w \<equiv> publish_subscribes_map (room w)"

definition registered :: "room_world \<Rightarrow> nat set" where
  "registered w = held (pubs w) \<union> held (subs w)"

text \<open>A stream is doomed when it has stopped or is about to.\<close>

definition doomed :: "room_world \<Rightarrow> nat \<Rightarrow> bool" where
  "doomed w p \<longleftrightarrow> st_stopped (streams w ! p) \<or> StopTask \<in> set (st_tasks (streams w ! p))"

definition maps_ok :: "room_world \<Rightarrow> bool" where
  "maps_ok w \<longleftrightarrow> distinct (participant_id_set (room w)) \<and> owned (pubs w) \<and> owned (subs w) \<and> owned (links w)
     \<and> held (pubs w) \<inter> held (subs w) = {} \<and> held (links w) \<subseteq> held (subs w) \<and> (\<forall>p. members p (links w) \<noteq> [] \<longrightarrow> p \<in> held (pubs w))"

definition ids_ok :: "room_world \<Rightarrow> bool" where
  "ids_ok w \<longleftrightarrow> registered w \<subseteq> {..<length (streams w)} \<and> inj_on (stream_id w) (registered w)"

definition observers_ok :: "room_world \<Rightarrow> bool" where
  "observers_ok w \<longleftrightarrow> (\<forall>p < length (streams w). distinct (st_observers (streams w ! p))
     \<and> set (final_observers (streams w ! p)) = set (members p (links w)))"

definition stops_ok :: "string set \<Rightarrow> room_world \<Rightarrow> bool" where
  "stops_ok X w \<longleftrightarrow> (\<forall>p \<in> registered w. st_stopped (streams w ! p) \<longrightarrow> stream_id w p \<notin> X \<longrightarrow> ShutdownTask (stream_id w p) \<in> set (main_tasks w))"

definition orphans_ok :: "room_world \<Rightarrow> bool" where
  "orphans_ok w \<longleftrightarrow> (\<forall>s \<in> held (subs w) - held (links w). doomed w s)"

definition gone_ok :: "room_world \<Rightarrow> bool" where
  "gone_ok w \<longleftrightarrow> (\<forall>pid p. pid \<notin> set (participant_id_set (room w)) \<longrightarrow> p \<in> set (members pid (pubs w)) \<union> set (members pid (subs w)) \<longrightarrow> doomed w p)"

definition room_ok_except :: "string set \<Rightarrow> room_world \<Rightarrow> bool" where
  "room_ok_except X w \<longleftrightarrow> maps_ok w \<and> ids_ok w \<and> observers_ok w \<and> stops_ok X w \<and> orphans_ok w \<and> gone_ok w"

definition room_ok :: "room_world \<Rightarrow> bool" where
  "room_ok = room_ok_except {}"

lemma room_okD:
  assumes "room_ok_except X w"
  shows "maps_ok w" "ids_ok w" "observers_ok w" "stops_ok X w" "orphans_ok w" "gone_ok w"
  using assms by (simp_all add: room_ok_except_def)

lemma distinct_apply: "distinct os \<Longrightarrow> distinct (apply_task t os)"
  by (auto simp: apply_task_def split: worker_task.split)

lemma distinct_final: "distinct os \<Longrightarrow> distinct (fold apply_task ts os)"
  by (induction ts arbitrary: os) (simp_all add: distinct_apply)

lemma final_append: "final_observers (s\<lparr>st_tasks := st_tasks s @ ts\<rparr>) = fold apply_task ts (final_observers s)"
  by (simp add: final_observers_def)

lemma fold_stops: "set ts \<subseteq> {StopTask} \<Longrightarrow> fold apply_task ts os = os"
  by (induction ts) (simp_all add: apply_task_def)

lemma fold_unregister: "distinct os \<Longrightarrow> set (fold apply_task (map UnregisterTask ss) os) = set os - set ss"
  by (induction ss arbitrary: os) (auto simp: apply_task_def)

lemma members_held: "p \<in> set (members k m) \<Longrightarrow> p \<in> held m"
  by (auto simp: held_def)

lemma registered_less: "ids_ok w \<Longrightarrow> p \<in> registered w \<Longrightarrow> p < length (streams w)"
  by (auto simp: ids_ok_def)

lemma doomed_posts: "p < length (streams w) \<Longrightarrow> doomed (posts l w) p \<longleftrightarrow> doomed w p \<or> StopTask \<in> set (tasks_for p l)"
  by (auto simp: doomed_def posts_nth)

lemma doomed_room [simp]: "doomed (on_room f w) = doomed w" "doomed (w\<lparr>main_tasks := ts\<rparr>) = doomed w" "doomed (Notify n w) = doomed w"
  by (simp_all add: doomed_def fun_eq_iff)

text \<open>The components for a world whose room is unchanged or has changed in the three maps only.\<close>

lemma registered_posts [simp]: "registered (posts l w) = registered w" "registered (Notify n w) = registered w" "registered (w\<lparr>main_tasks := ts\<rparr>) = registered w"
  by (simp_all add: registered_def)

lemma inj_on_stream_id: "A \<subseteq> {..<length (streams w)} \<Longrightarrow> inj_on (stream_id (posts l w)) A \<longleftrightarrow> inj_on (stream_id w) A"
  by (intro inj_on_cong stream_id_posts) auto

text \<open>Posting stop tasks.\<close>

lemma posts_stop_ok:
  assumes ok: "room_ok_except X w" and l: "snd ` set l \<subseteq> {StopTask}"
  shows "room_ok_except X (posts l w)"
proof -
  note c = room_okD [OF ok]
  have t: "set (tasks_for q l) \<subseteq> {StopTask}" for q using l by (auto simp: tasks_for_def)
  have lt: "p < length (streams w)" if "p \<in> registered w" for p using registered_less [OF c(2) that] .
  have reg: "p \<in> registered w" if "p \<in> set (members k (pubs w)) \<union> set (members k (subs w))" for p k
    using that by (auto simp: registered_def dest: members_held)
  have "maps_ok (posts l w)" using c(1) by (simp add: maps_ok_def)
  moreover have "ids_ok (posts l w)" using c(2) by (auto simp: ids_ok_def inj_on_stream_id)
  moreover have "observers_ok (posts l w)" using c(3) t by (simp add: observers_ok_def posts_nth final_append fold_stops)
  moreover have "stops_ok X (posts l w)" using c(4) lt by (simp add: stops_ok_def posts_nth)
  moreover have "orphans_ok (posts l w)" using c(5) lt by (auto simp: orphans_ok_def doomed_posts registered_def)
  moreover have "gone_ok (posts l w)"
    unfolding gone_ok_def using c(6) lt reg by (simp add: gone_ok_def doomed_posts)
  ultimately show ?thesis by (simp add: room_ok_except_def)
qed

text \<open>A change that only posts tasks and takes members away keeps the invariant, provided what is posted to a publisher
  takes the same observers away and a subscription that loses its publisher is told to stop.\<close>

lemma change_ok:
  assumes ok: "room_ok_except X w"
    and st: "\<And>q. q < length (streams w) \<Longrightarrow> streams w' ! q = (streams w ! q)\<lparr>st_tasks := st_tasks (streams w ! q) @ ts q\<rparr>"
    and same: "length (streams w') = length (streams w)" "main_tasks w' = main_tasks w" "participant_id_set (room w') = participant_id_set (room w)"
    and own: "owned (pubs w')" "owned (subs w')" "owned (links w')"
    and sub: "\<And>k. set (members k (pubs w')) \<subseteq> set (members k (pubs w))" "\<And>k. set (members k (subs w')) \<subseteq> set (members k (subs w))"
    and lk: "\<And>q s. s \<in> set (members q (links w')) \<Longrightarrow> q \<in> held (pubs w') \<and> s \<in> held (subs w')"
    and obs: "\<And>q os. distinct os \<Longrightarrow> set os = set (members q (links w)) \<Longrightarrow> set (fold apply_task (ts q) os) = set (members q (links w'))"
    and orph: "\<And>s. s \<in> held (subs w') \<Longrightarrow> s \<in> held (links w) \<Longrightarrow> s \<notin> held (links w') \<Longrightarrow> StopTask \<in> set (ts s)"
  shows "room_ok_except X w' \<and> registered w' \<subseteq> registered w \<and> (\<forall>q \<in> registered w. stream_id w' q = stream_id w q)"
proof (intro conjI)
  note c = room_okD [OF ok]
  have lt: "q < length (streams w)" if "q \<in> registered w" for q using registered_less [OF c(2) that] .
  have h: "held (pubs w') \<subseteq> held (pubs w)" "held (subs w') \<subseteq> held (subs w)"
    by (auto simp: held_def dest: subsetD [OF sub(1)] subsetD [OF sub(2)])
  show reg: "registered w' \<subseteq> registered w" using h by (auto simp: registered_def)
  show ids: "\<forall>q \<in> registered w. stream_id w' q = stream_id w q" using lt st by (simp add: stream_id_def)
  have dm: "doomed w' q \<longleftrightarrow> doomed w q \<or> StopTask \<in> set (ts q)" if "q < length (streams w)" for q
    using st [OF that] by (auto simp: doomed_def)
  have "maps_ok w'"
  proof -
    have "held (links w') \<subseteq> held (subs w')" using lk by (auto simp: held_def [of "links w'"])
    moreover have "q \<in> held (pubs w')" if "members q (links w') \<noteq> []" for q using lk [of "hd (members q (links w'))" q] that by simp
    ultimately show ?thesis using c(1) own h unfolding maps_ok_def same by auto
  qed
  moreover have "ids_ok w'"
  proof -
    have "inj_on (stream_id w') (registered w') \<longleftrightarrow> inj_on (stream_id w) (registered w')"
      using ids reg by (intro inj_on_cong) auto
    then show ?thesis using c(2) reg inj_on_subset [of "stream_id w" "registered w"] unfolding ids_ok_def same by auto
  qed
  moreover have "observers_ok w'"
    unfolding observers_ok_def same
  proof (intro allI impI conjI)
    fix q
    assume q: "q < length (streams w)"
    then have od: "distinct (st_observers (streams w ! q))" "set (final_observers (streams w ! q)) = set (members q (links w))"
      using c(3) by (simp_all add: observers_ok_def)
    then show "distinct (st_observers (streams w' ! q))" using st [OF q] by simp
    have fd: "distinct (final_observers (streams w ! q))" using od(1) by (simp add: final_observers_def distinct_final)
    show "set (final_observers (streams w' ! q)) = set (members q (links w'))"
      unfolding st [OF q] final_append by (rule obs [OF fd od(2)])
  qed
  moreover have "stops_ok X w'" using c(4) reg ids lt st by (auto simp: stops_ok_def same)
  moreover have "orphans_ok w'"
    unfolding orphans_ok_def
  proof
    fix s
    assume s: "s \<in> held (subs w') - held (links w')"
    then have "s < length (streams w)" using lt h by (auto simp: registered_def)
    moreover have "doomed w s \<or> StopTask \<in> set (ts s)" using s h(2) c(5) orph by (auto simp: orphans_ok_def)
    ultimately show "doomed w' s" using dm by blast
  qed
  moreover have "gone_ok w'"
    unfolding gone_ok_def same
  proof (intro allI impI)
    fix pid q
    assume a: "pid \<notin> set (participant_id_set (room w))" "q \<in> set (members pid (pubs w')) \<union> set (members pid (subs w'))"
    then have "q \<in> set (members pid (pubs w)) \<union> set (members pid (subs w))" using sub by blast
    moreover from this have "q < length (streams w)" using lt by (auto simp: registered_def dest: members_held)
    ultimately show "doomed w' q" using a(1) c(6) dm by (auto simp: gone_ok_def)
  qed
  ultimately show "room_ok_except X w'" by (simp add: room_ok_except_def)
qed

text \<open>A published stream goes.\<close>

lemma tasks_for_closing:
  assumes "p \<notin> set ss"
  shows "tasks_for p (closing p ss) = map UnregisterTask ss"
    and "q \<noteq> p \<Longrightarrow> set (tasks_for q (closing p ss)) \<subseteq> {StopTask}"
    and "s \<in> set ss \<Longrightarrow> StopTask \<in> set (tasks_for s (closing p ss))"
  using assms by (induction ss) (auto simp: closing_def tasks_for_def)

lemma publish_gone_ok:
  assumes ok: "room_ok_except X w" and p: "p \<in> held (pubs w)"
    and w': "w' = on_room (\<lambda>r. r\<lparr>participant_publishs_map := prune (without p (pubs w))\<rparr>) (publish_gone k p w)"
  shows "room_ok_except X w'" "registered w' = registered w - {p}" "\<forall>q \<in> registered w. stream_id w' q = stream_id w q"
    and "subs w' = subs w" "main_tasks w' = main_tasks w" "length (streams w') = length (streams w)"
proof -
  note c = room_okD [OF ok]
  have o: "owned (pubs w)" "owned (subs w)" "owned (links w)" and disj: "held (pubs w) \<inter> held (subs w) = {}"
    and ls: "held (links w) \<subseteq> held (subs w)" using c(1) by (auto simp: maps_ok_def)
  have lp: "q \<in> held (pubs w)" if "x \<in> set (members q (links w))" for x q
    using c(1) that unfolding maps_ok_def by (metis empty_iff empty_set)
  let ?ss = "members p (links w)" and ?n = "Notify (MakeStreamRemovedNotification (room_id (room w)) k (stream_id w p)) w"
  have eq: "w' = on_room (\<lambda>r. r\<lparr>publish_subscribes_map := AList.delete p (links w), participant_publishs_map := prune (without p (pubs w))\<rparr>)
      (posts (closing p ?ss) ?n)"
    unfolding w' by (simp add: publish_gone_def close_subscribers_posts on_room_def)
  have ps: "p \<notin> set ?ss" using p disj ls by (auto dest: members_held)
  note tf = tasks_for_closing [OF ps]
  have r: "pubs w' = prune (without p (pubs w))" "subs w' = subs w" "links w' = AList.delete p (links w)"
    "participant_id_set (room w') = participant_id_set (room w)" "main_tasks w' = main_tasks w" "length (streams w') = length (streams w)"
    by (simp_all add: eq)
  note er = owned_erase [OF o(1), where x = p, folded r(1)]
  have ml: "members q (links w') = (if q = p then [] else members q (links w))" for q
    by (simp add: r(3) members_def delete_conv')
  have ol: "owned (links w')"
    using o(3) unfolding owned_def ml by (auto simp: r(3) distinct_delete)
  have "room_ok_except X w' \<and> registered w' \<subseteq> registered w \<and> (\<forall>q \<in> registered w. stream_id w' q = stream_id w q)"
  proof (rule change_ok [OF ok, where ts = "\<lambda>q. tasks_for q (closing p ?ss)"])
    show "q \<in> held (pubs w') \<and> s \<in> held (subs w')" if "s \<in> set (members q (links w'))" for q s
      using that lp [of s q] ls er(2) r(2) by (auto simp: ml dest: members_held split: if_splits)
    show "set (fold apply_task (tasks_for q (closing p ?ss)) os) = set (members q (links w'))"
      if "distinct os" "set os = set (members q (links w))" for q os
      using that tf(1) tf(2) [of q] by (cases "q = p") (simp_all add: fold_unregister fold_stops ml)
    show "StopTask \<in> set (tasks_for s (closing p ?ss))" if "s \<in> held (links w)" "s \<notin> held (links w')" for s
    proof -
      obtain q where q: "s \<in> set (members q (links w))" using \<open>s \<in> held (links w)\<close> by (auto simp: held_def)
      then have "q = p" using \<open>s \<notin> held (links w')\<close> ml [of q] members_held [of s q "links w'"] by (auto split: if_splits)
      then show ?thesis using q tf(3) by simp
    qed
  qed (use r o er ol in \<open>auto simp: eq posts_nth dest: notin_set_remove1\<close>)
  then show "room_ok_except X w'" "\<forall>q \<in> registered w. stream_id w' q = stream_id w q" by blast+
  show "registered w' = registered w - {p}" using er(2) disj p by (auto simp: registered_def r(2))
qed (simp_all add: w' publish_gone_def close_subscribers_posts)

text \<open>A subscription goes.\<close>

lemma tasks_for_detaching:
  assumes "owned m"
  shows "tasks_for q (detaching s m) = (if s \<in> set (members q m) then [UnregisterTask s] else [])"
  using assms
proof (induction m)
  case (Cons e m)
  obtain k ss where e: "e = (k, ss)" by (cases e)
  have d: "distinct (map fst m)" "k \<notin> fst ` set m" using Cons.prems by (auto simp: owned_def e)
  have me: "members l m = (if l = k then [] else members l (e # m))" for l
    using members_not_key [OF d(2)] by (auto simp: members_Cons e)
  have om: "owned m" using Cons.prems d(1) unfolding owned_def me by auto
  have "tasks_for q (detaching s (e # m)) = (if q = k \<and> s \<in> set ss then [UnregisterTask s] else []) @ tasks_for q (detaching s m)"
    by (auto simp: detaching_def tasks_for_def e)
  moreover have "members k m = []" by (rule members_not_key [OF d(2)])
  ultimately show ?case using Cons.IH [OF om] by (simp add: members_Cons e)
qed (simp add: detaching_def tasks_for_def)

lemma subscription_gone_ok:
  assumes ok: "room_ok_except X w" and p: "s \<in> held (subs w)"
    and w': "w' = on_room (\<lambda>r. r\<lparr>participant_subscribes_map := prune (without s (subs w))\<rparr>) (subscription_gone (stream_id w s) k s w)"
  shows "room_ok_except X w'" "registered w' = registered w - {s}" "\<forall>q \<in> registered w. stream_id w' q = stream_id w q"
    and "main_tasks w' = main_tasks w" "length (streams w') = length (streams w)"
proof -
  note c = room_okD [OF ok]
  have o: "owned (pubs w)" "owned (subs w)" "owned (links w)" and disj: "held (pubs w) \<inter> held (subs w) = {}"
    and ls: "held (links w) \<subseteq> held (subs w)" using c(1) by (auto simp: maps_ok_def)
  have lp: "q \<in> held (pubs w)" if "x \<in> set (members q (links w))" for x q
    using c(1) that unfolding maps_ok_def by (metis empty_iff empty_set)
  have ids: "registered w \<subseteq> {..<length (streams w)}" "inj_on (stream_id w) (registered w)" using c(2) by (auto simp: ids_ok_def)
  have det: "detach (stream_id w s) (links w) w = (without s (links w), posts (detaching s (links w)) w)"
  proof (rule detach_posts [OF o(3)])
    show "stream_id w q = stream_id w s \<longleftrightarrow> q = s" if "q \<in> held (links w)" for q
      using inj_on_eq_iff [OF ids(2)] that ls p by (auto simp: registered_def)
  qed (use ids ls in \<open>auto simp: registered_def\<close>)
  have eq: "w' = on_room (\<lambda>r. r\<lparr>publish_subscribes_map := without s (links w), participant_subscribes_map := prune (without s (subs w))\<rparr>)
      (posts (detaching s (links w)) w)"
    unfolding w' by (simp add: subscription_gone_def det on_room_def)
  have r: "pubs w' = pubs w" "subs w' = prune (without s (subs w))" "links w' = without s (links w)"
    "participant_id_set (room w') = participant_id_set (room w)" "main_tasks w' = main_tasks w" "length (streams w') = length (streams w)"
    by (simp_all add: eq)
  note er = owned_erase [OF o(2), where x = s, folded r(2)] and ow = owned_without [OF o(3), where x = s, folded r(3)]
  have ml: "members q (links w') = remove1 s (members q (links w))" for q by (simp add: r(3) members_without)
  have dl: "distinct (members q (links w))" for q using o(3) by (simp add: owned_def)
  have "room_ok_except X w' \<and> registered w' \<subseteq> registered w \<and> (\<forall>q \<in> registered w. stream_id w' q = stream_id w q)"
  proof (rule change_ok [OF ok, where ts = "\<lambda>q. tasks_for q (detaching s (links w))"])
    show "q \<in> held (pubs w') \<and> x \<in> held (subs w')" if "x \<in> set (members q (links w'))" for q x
    proof -
      have x: "x \<noteq> s" "x \<in> set (members q (links w))" using that dl by (simp_all add: ml set_remove1_eq)
      then show ?thesis using lp [of x q] ls er(2) r(1) by (auto dest: members_held)
    qed
    show "set (fold apply_task (tasks_for q (detaching s (links w))) os) = set (members q (links w'))"
      if "distinct os" "set os = set (members q (links w))" for q os
      using that dl by (simp add: tasks_for_detaching [OF o(3)] apply_task_def ml set_remove1_eq)
    show "StopTask \<in> set (tasks_for x (detaching s (links w)))" if "x \<in> held (subs w')" "x \<in> held (links w)" "x \<notin> held (links w')" for x
      using that ow(2) er(2) by simp
  qed (use r o er ow in \<open>auto simp: eq posts_nth dest: notin_set_remove1\<close>)
  then show "room_ok_except X w'" "\<forall>q \<in> registered w. stream_id w' q = stream_id w q" by blast+
  show "registered w' = registered w - {s}" using er(2) disj p by (auto simp: registered_def r(1))
  show "main_tasks w' = main_tasks w" "length (streams w') = length (streams w)" using r by simp_all
qed

subsection \<open>The work that is left\<close>

definition weight :: "worker_task \<Rightarrow> nat" where
  "weight t = (if t = StopTask then 2 else 1)"

definition queued :: "room_world \<Rightarrow> nat" where
  "queued w = sum_list (map (\<lambda>s. sum_list (map weight (st_tasks s))) (streams w))"

definition link_count :: "(nat \<times> nat list) list \<Rightarrow> nat" where
  "link_count m = sum_list (map (\<lambda>(p, ss). length ss) m)"

definition work :: "room_world \<Rightarrow> nat" where
  "work w = queued w + length (main_tasks w) + 4 * link_count (links w)"

lemma queued_on_stream:
  "p < length (streams w) \<Longrightarrow> queued (on_stream f p w) + sum_list (map weight (st_tasks (streams w ! p)))
     = queued w + sum_list (map weight (st_tasks (f (streams w ! p))))"
  using member_le_sum_list [of "sum_list (map weight (st_tasks (streams w ! p)))" "map (\<lambda>s. sum_list (map weight (st_tasks s))) (streams w)"]
  by (simp add: queued_def on_stream_def map_update sum_list_update)

lemma queued_posts: "fst ` set l \<subseteq> {..<length (streams w)} \<Longrightarrow> queued (posts l w) = queued w + sum_list (map (weight \<circ> snd) l)"
proof (induction l arbitrary: w)
  case (Cons e l)
  obtain p t where e: "e = (p, t)" by (cases e)
  have "queued (post t p w) = queued w + weight t"
    using Cons.prems queued_on_stream [of p w "\<lambda>s. s\<lparr>st_tasks := st_tasks s @ [t]\<rparr>"] by (simp add: post_def e)
  then show ?case using Cons by (simp add: posts_def e post_def)
qed (simp add: posts_def)

lemma queued_simps [simp]: "queued (on_room f w) = queued w" "queued (Notify n w) = queued w" "queued (w\<lparr>main_tasks := ts\<rparr>) = queued w"
  by (simp_all add: queued_def)

lemma work_closing: "sum_list (map (weight \<circ> snd) (closing p ss)) = 3 * length ss"
  by (induction ss) (simp_all add: closing_def weight_def)

lemma link_count_delete: "distinct (map fst m) \<Longrightarrow> link_count (AList.delete p m) + length (members p m) = link_count m"
proof (induction m)
  case (Cons e m)
  obtain k ss where e: "e = (k, ss)" by (cases e)
  have "members k m = []" "AList.delete k m = m" using Cons.prems e by (auto intro: members_not_key simp: AList.delete_eq filter_id_conv image_iff)
  then show ?case using Cons by (auto simp: link_count_def members_Cons e)
qed (simp add: link_count_def)

lemma link_count_without: "link_count (without s m) + length (detaching s m) = link_count m"
proof (induction m)
  case (Cons e m)
  obtain k ss where e: "e = (k, ss)" by (cases e)
  have "length (remove1 s ss) + (if s \<in> set ss then 1 else 0) = length ss"
    using length_pos_if_in_set [of s ss] by (auto simp: length_remove1)
  then show ?case using Cons by (auto simp: link_count_def without_def detaching_def e)
qed (simp add: link_count_def without_def detaching_def)

lemma work_detaching: "sum_list (map (weight \<circ> snd) (detaching s m)) = length (detaching s m)"
  by (induction m) (auto simp: detaching_def weight_def)

text \<open>The loops of a shutdown do not make more work than they take away.\<close>

lemma publish_gone_work:
  assumes ok: "room_ok_except X w" and p: "p \<in> held (pubs w)"
  shows "work (publish_gone k p w) \<le> work w" "participant_id_set (room (publish_gone k p w)) = participant_id_set (room w)"
proof -
  note c = room_okD [OF ok]
  let ?l = "closing p (members p (links w))"
  have d: "distinct (map fst (links w))" "held (links w) \<subseteq> held (subs w)" using c(1) by (simp_all add: maps_ok_def owned_def)
  have lt: "q < length (streams w)" if "q \<in> registered w" for q using registered_less [OF c(2) that] .
  have "fst ` set ?l \<subseteq> {..<length (streams w)}"
    using lt p d(2) by (auto simp: closing_def registered_def dest: members_held)
  then have "queued (posts ?l w) = queued w + 3 * length (members p (links w))" by (simp add: queued_posts work_closing)
  then show "work (publish_gone k p w) \<le> work w"
    using link_count_delete [OF d(1), of p] queued_posts [of ?l "Notify (MakeStreamRemovedNotification (room_id (room w)) k (stream_id w p)) w"]
    by (simp add: work_def publish_gone_def close_subscribers_posts queued_posts [of ?l w] work_closing \<open>fst ` set ?l \<subseteq> _\<close>)
  show "participant_id_set (room (publish_gone k p w)) = participant_id_set (room w)"
    by (simp add: publish_gone_def close_subscribers_posts)
qed

lemma subscription_gone_work:
  assumes ok: "room_ok_except X w" and s: "s \<in> held (subs w)"
  shows "work (subscription_gone (stream_id w s) k s w) \<le> work w"
    and "participant_id_set (room (subscription_gone (stream_id w s) k s w)) = participant_id_set (room w)"
proof -
  note c = room_okD [OF ok]
  have o: "owned (links w)" and ls: "held (links w) \<subseteq> held (subs w)" using c(1) by (auto simp: maps_ok_def)
  have lp: "q \<in> held (pubs w)" if "x \<in> set (members q (links w))" for x q
    using c(1) that unfolding maps_ok_def by (metis empty_iff empty_set)
  have ids: "registered w \<subseteq> {..<length (streams w)}" "inj_on (stream_id w) (registered w)" using c(2) by (auto simp: ids_ok_def)
  let ?l = "detaching s (links w)"
  have det: "detach (stream_id w s) (links w) w = (without s (links w), posts ?l w)"
  proof (rule detach_posts [OF o])
    show "stream_id w q = stream_id w s \<longleftrightarrow> q = s" if "q \<in> held (links w)" for q
      using inj_on_eq_iff [OF ids(2)] that ls s by (auto simp: registered_def)
  qed (use ids ls in \<open>auto simp: registered_def\<close>)
  have "fst ` set ?l \<subseteq> held (pubs w)"
  proof
    fix q
    assume "q \<in> fst ` set ?l"
    then obtain ss where "(q, ss) \<in> set (links w)" "s \<in> set ss" by (auto simp: detaching_def split: if_splits)
    then have "s \<in> set (members q (links w))" using o members_entry [of "links w" q ss] by (simp add: owned_def)
    then show "q \<in> held (pubs w)" by (rule lp)
  qed
  then have "queued (posts ?l w) = queued w + length ?l"
    using ids(1) by (subst queued_posts) (auto simp: registered_def work_detaching)
  then show "work (subscription_gone (stream_id w s) k s w) \<le> work w"
    using link_count_without [of s "links w"] by (simp add: work_def subscription_gone_def det)
  show "participant_id_set (room (subscription_gone (stream_id w s) k s w)) = participant_id_set (room w)"
    by (simp add: subscription_gone_def det)
qed

text \<open>The whole handler: afterwards no stream of that identifier is registered.\<close>

lemma prune_ok:
  assumes ok: "room_ok_except X w"
  shows "room_ok_except X (on_room (\<lambda>r. r\<lparr>participant_publishs_map := prune (pubs w)\<rparr>) w)"
    and "room_ok_except X (on_room (\<lambda>r. r\<lparr>participant_subscribes_map := prune (subs w)\<rparr>) w)"
proof -
  note c = room_okD [OF ok]
  have o: "owned (pubs w)" "owned (subs w)" "owned (links w)" "held (links w) \<subseteq> held (subs w)" using c(1) by (auto simp: maps_ok_def)
  have m: "members k (prune (pubs w)) = members k (pubs w)" "members k (prune (subs w)) = members k (subs w)" for k
    using o by (simp_all add: members_prune owned_def)
  note pr = owned_prune [OF o(1)] owned_prune [OF o(2)]
  have i: "on_room (\<lambda>r. r\<lparr>participant_publishs_map := prune (pubs w)\<rparr>) w = w\<lparr>room := (room w)\<lparr>participant_publishs_map := prune (pubs w)\<rparr>\<rparr>"
    "on_room (\<lambda>r. r\<lparr>participant_subscribes_map := prune (subs w)\<rparr>) w = w\<lparr>room := (room w)\<lparr>participant_subscribes_map := prune (subs w)\<rparr>\<rparr>"
    by (simp_all add: on_room_def)
  have sid: "stream_id (w\<lparr>room := r\<rparr>) = stream_id w" "doomed (w\<lparr>room := r\<rparr>) = doomed w" for r by (simp_all add: stream_id_def doomed_def fun_eq_iff)
  show "room_ok_except X (on_room (\<lambda>r. r\<lparr>participant_publishs_map := prune (pubs w)\<rparr>) w)"
    "room_ok_except X (on_room (\<lambda>r. r\<lparr>participant_subscribes_map := prune (subs w)\<rparr>) w)"
    using c pr m unfolding i room_ok_except_def maps_ok_def ids_ok_def observers_ok_def stops_ok_def orphans_ok_def gone_ok_def registered_def sid
    by simp_all
qed

lemma detach_room: "detach sid m w = (m', w') \<Longrightarrow> room w' = room w"
proof (induction m arbitrary: w m')
  case (Cons e m)
  have "room (fold (\<lambda>s. post (UnregisterTask s) p) ss w) = room w" for ss p
    by (induction ss arbitrary: w) (simp_all add: post_def)
  then show ?case using Cons by (cases e) (auto simp: Let_def split: prod.splits)
qed simp

lemma publish_loop:
  assumes ok: "room_ok_except X w" and e: "erase_stream publish_gone sid (pubs w) w = (m, w1)"
    and w': "w' = on_room (\<lambda>r. r\<lparr>participant_publishs_map := m\<rparr>) w1"
  shows "room_ok_except X w' \<and> registered w' \<subseteq> registered w \<and> (\<forall>q \<in> registered w. stream_id w' q = stream_id w q)
     \<and> (\<forall>q \<in> held (pubs w'). stream_id w' q \<noteq> sid) \<and> subs w' = subs w \<and> main_tasks w' = main_tasks w
     \<and> work w' \<le> work w \<and> participant_id_set (room w') = participant_id_set (room w)"
proof (cases "\<exists>p \<in> held (pubs w). stream_id w p = sid")
  case False
  note c = room_okD [OF ok]
  have o: "owned (pubs w)" using c(1) by (simp add: maps_ok_def)
  have "erase_stream publish_gone sid (pubs w) w = (prune (pubs w), w)"
    using False held_entry [of "pubs w"] o by (intro erase_stream_absent) (fastforce simp: owned_def)
  then have "m = prune (pubs w)" "w1 = w" using e by simp_all
  then show ?thesis
    using prune_ok(1) [OF ok] False owned_prune [OF o] unfolding w' by (auto simp: registered_def work_def)
next
  case True
  then obtain p where p: "p \<in> held (pubs w)" "stream_id w p = sid" by blast
  note c = room_okD [OF ok]
  have o: "owned (pubs w)" using c(1) by (simp add: maps_ok_def)
  have inj: "inj_on (stream_id w) (registered w)" "registered w \<subseteq> {..<length (streams w)}" using c(2) by (simp_all add: ids_ok_def)
  obtain k ps where k: "(k, ps) \<in> set (pubs w)" "p \<in> set ps"
    using p(1) held_entry [of "pubs w" p] o by (auto simp: owned_def)
  have u: "stream_id w q = sid \<longleftrightarrow> q = p" if "q \<in> held (pubs w)" for q
    using inj_on_eq_iff [OF inj(1)] that p by (auto simp: registered_def)
  define v where "v = on_room (\<lambda>r. r\<lparr>participant_publishs_map := prune (without p (pubs w))\<rparr>) (publish_gone k p w)"
  note g = publish_gone_ok [OF ok p(1) v_def]
  have sv: "stream_id v = stream_id (publish_gone k p w)" by (simp add: v_def)
  have "erase_stream publish_gone sid (pubs w) w = (prune (without p (pubs w)), publish_gone k p w)"
    using g(3) by (intro erase_stream_present [OF o k u]) (simp_all add: sv registered_def)
  then have "w' = v" using e by (simp add: w' v_def)
  moreover have "stream_id v q \<noteq> sid" if "q \<in> held (pubs v)" for q
  proof -
    have "q \<in> held (pubs w)" "q \<noteq> p" using that owned_erase(2) [OF o, of p] by (simp_all add: v_def)
    then show ?thesis using u g(3) by (simp add: registered_def)
  qed
  moreover have "work v \<le> work w" "participant_id_set (room v) = participant_id_set (room w)"
    using publish_gone_work [OF ok p(1), of k] by (simp_all add: v_def work_def)
  ultimately show ?thesis using g by auto
qed

lemma subscribe_loop:
  assumes ok: "room_ok_except X w" and e: "erase_stream (subscription_gone sid) sid (subs w) w = (m, w1)"
    and w': "w' = on_room (\<lambda>r. r\<lparr>participant_subscribes_map := m\<rparr>) w1"
  shows "room_ok_except X w' \<and> registered w' \<subseteq> registered w \<and> (\<forall>q \<in> registered w. stream_id w' q = stream_id w q)
     \<and> (\<forall>q \<in> held (subs w'). stream_id w' q \<noteq> sid) \<and> pubs w' = pubs w \<and> main_tasks w' = main_tasks w
     \<and> work w' \<le> work w \<and> participant_id_set (room w') = participant_id_set (room w)"
proof (cases "\<exists>p \<in> held (subs w). stream_id w p = sid")
  case False
  note c = room_okD [OF ok]
  have o: "owned (subs w)" using c(1) by (simp add: maps_ok_def)
  have "erase_stream (subscription_gone sid) sid (subs w) w = (prune (subs w), w)"
    using False held_entry [of "subs w"] o by (intro erase_stream_absent) (fastforce simp: owned_def)
  then have "m = prune (subs w)" "w1 = w" using e by simp_all
  then show ?thesis
    using prune_ok(2) [OF ok] False owned_prune [OF o] unfolding w' by (auto simp: registered_def work_def)
next
  case True
  then obtain s where s: "s \<in> held (subs w)" "stream_id w s = sid" by blast
  note c = room_okD [OF ok]
  have o: "owned (subs w)" using c(1) by (simp add: maps_ok_def)
  have inj: "inj_on (stream_id w) (registered w)" using c(2) by (simp add: ids_ok_def)
  obtain k ss where k: "(k, ss) \<in> set (subs w)" "s \<in> set ss"
    using s(1) held_entry [of "subs w" s] o by (auto simp: owned_def)
  have u: "stream_id w q = sid \<longleftrightarrow> q = s" if "q \<in> held (subs w)" for q
    using inj_on_eq_iff [OF inj] that s by (auto simp: registered_def)
  define v where "v = on_room (\<lambda>r. r\<lparr>participant_subscribes_map := prune (without s (subs w))\<rparr>) (subscription_gone sid k s w)"
  note g = subscription_gone_ok [OF ok s(1) v_def [folded s(2)]]
  have sv: "stream_id v = stream_id (subscription_gone sid k s w)" by (simp add: v_def)
  have "erase_stream (subscription_gone sid) sid (subs w) w = (prune (without s (subs w)), subscription_gone sid k s w)"
    using g(3) by (intro erase_stream_present [OF o k u]) (simp_all add: sv registered_def)
  then have "w' = v" using e by (simp add: w' v_def)
  moreover have "stream_id v q \<noteq> sid" if "q \<in> held (subs v)" for q
  proof -
    have "q \<in> held (subs w)" "q \<noteq> s" using that owned_erase(2) [OF o, of s] by (simp_all add: v_def)
    then show ?thesis using u g(3) by (simp add: registered_def)
  qed
  moreover have "pubs v = pubs w" by (auto simp: v_def subscription_gone_def Let_def dest: detach_room split: prod.split)
  moreover have "work v \<le> work w" "participant_id_set (room v) = participant_id_set (room w)"
    using subscription_gone_work [OF ok s(1), of k] s(2) by (simp_all add: v_def work_def)
  ultimately show ?thesis using g by auto
qed

lemma shutdown_ok:
  assumes "room_ok_except {sid} w"
  shows "room_ok (OnWebrtcStreamShutdown sid w) \<and> work (OnWebrtcStreamShutdown sid w) \<le> work w
     \<and> participant_id_set (room (OnWebrtcStreamShutdown sid w)) = participant_id_set (room w)"
proof -
  obtain m w1 where e1: "erase_stream publish_gone sid (pubs w) w = (m, w1)" by fastforce
  define w2 where "w2 = on_room (\<lambda>r. r\<lparr>participant_publishs_map := m\<rparr>) w1"
  note l1 = publish_loop [OF assms e1 w2_def]
  obtain m' w3 where e2: "erase_stream (subscription_gone sid) sid (subs w2) w2 = (m', w3)" by fastforce
  define w4 where "w4 = on_room (\<lambda>r. r\<lparr>participant_subscribes_map := m'\<rparr>) w3"
  have ok2: "room_ok_except {sid} w2" using l1 by blast
  note l2 = subscribe_loop [OF ok2 e2 w4_def]
  have "OnWebrtcStreamShutdown sid w = w4"
    using e1 e2 by (simp add: OnWebrtcStreamShutdown_def w2_def w4_def)
  moreover have "stream_id w4 q \<noteq> sid" if "q \<in> registered w4" for q
  proof (cases "q \<in> held (subs w4)")
    case False
    then have "q \<in> held (pubs w2)" using that l2 by (simp add: registered_def)
    then show ?thesis using l1 l2 by (auto simp: registered_def)
  qed (use l2 in simp)
  then have "stops_ok {} w4" using l2 by (auto simp: room_ok_except_def stops_ok_def)
  ultimately show ?thesis using l1 l2 by (simp add: room_ok_def room_ok_except_def)
qed

section \<open>Every step keeps the invariant\<close>

lemma final_on_stream: "st_tasks (f s) = st_tasks s \<Longrightarrow> st_observers (f s) = st_observers s \<Longrightarrow> final_observers (f s) = final_observers s"
  by (simp add: final_observers_def)

text \<open>A change of one stream that keeps what its observers will be, its identifier and its doom, and
  announces a stop that it makes.\<close>

lemma on_stream_ok:
  assumes ok: "room_ok_except X w" and p: "p < length (streams w)"
    and f: "st_id (f (streams w ! p)) = st_id (streams w ! p)" "distinct (st_observers (f (streams w ! p)))"
      "set (final_observers (f (streams w ! p))) = set (final_observers (streams w ! p))"
      "st_stopped (streams w ! p) \<or> StopTask \<in> set (st_tasks (streams w ! p)) \<Longrightarrow> st_stopped (f (streams w ! p)) \<or> StopTask \<in> set (st_tasks (f (streams w ! p)))"
    and stop: "st_stopped (f (streams w ! p)) \<Longrightarrow> \<not> st_stopped (streams w ! p) \<Longrightarrow> ShutdownTask (stream_id w p) \<in> set ts"
    and ts: "set (main_tasks w) \<subseteq> set ts"
  shows "room_ok_except X (on_stream f p w\<lparr>main_tasks := ts\<rparr>)" (is "room_ok_except X ?w")
proof -
  note c = room_okD [OF ok]
  have st: "streams ?w ! q = (if q = p then f (streams w ! p) else streams w ! q)" if "q < length (streams w)" for q
    using that by (simp add: on_stream_nth)
  have sid: "stream_id ?w q = stream_id w q" if "q < length (streams w)" for q using st [OF that] f(1) by (simp add: stream_id_def)
  have lt: "q < length (streams w)" if "q \<in> registered w" for q using registered_less [OF c(2) that] .
  have dm: "doomed w q \<Longrightarrow> doomed ?w q" if "q < length (streams w)" for q
    using st [OF that] f(4) by (auto simp: doomed_def)
  have reg: "registered ?w = registered w" by (simp add: registered_def)
  have mem: "p \<in> registered w" if "p \<in> set (members k (pubs w)) \<union> set (members k (subs w))" for p k
    using that by (auto simp: registered_def dest: members_held)
  have "maps_ok ?w" using c(1) by (simp add: maps_ok_def)
  moreover have "ids_ok ?w"
  proof -
    have "inj_on (stream_id ?w) (registered w) \<longleftrightarrow> inj_on (stream_id w) (registered w)" using sid lt by (intro inj_on_cong) auto
    then show ?thesis using c(2) unfolding ids_ok_def reg by simp
  qed
  moreover have "observers_ok ?w" using c(3) f(2,3) by (auto simp: observers_ok_def on_stream_nth)
  moreover have "stops_ok X ?w"
    unfolding stops_ok_def reg
  proof (intro ballI impI)
    fix q
    assume a: "q \<in> registered w" "st_stopped (streams ?w ! q)" "stream_id ?w q \<notin> X"
    then show "ShutdownTask (stream_id ?w q) \<in> set (main_tasks ?w)"
      using lt [OF a(1)] st [OF lt [OF a(1)]] sid [OF lt [OF a(1)]] stop ts c(4)
      by (cases "q = p"; cases "st_stopped (streams w ! p)") (auto simp: stops_ok_def)
  qed
  moreover have "orphans_ok ?w" using c(5) dm lt by (auto simp: orphans_ok_def registered_def)
  moreover have "gone_ok ?w"
    unfolding gone_ok_def
  proof (intro allI impI)
    fix pid q
    assume a: "pid \<notin> set (participant_id_set (room ?w))" "q \<in> set (members pid (pubs ?w)) \<union> set (members pid (subs ?w))"
    then have "q < length (streams w)" using lt [OF mem [of q pid]] by simp
    moreover have "doomed w q" using a c(6) [unfolded gone_ok_def, rule_format, of pid q] by simp
    ultimately show "doomed ?w q" by (rule dm)
  qed
  ultimately show ?thesis by (simp add: room_ok_except_def)
qed

lemma Shutdown_ok:
  assumes "room_ok_except X w" "p < length (streams w)"
  shows "room_ok_except X (Shutdown p w)"
proof (cases "st_stopped (streams w ! p)")
  case False
  have "room_ok_except X (on_stream (\<lambda>s. s\<lparr>st_stopped := True\<rparr>) p w\<lparr>main_tasks := main_tasks w @ [ShutdownTask (stream_id w p)]\<rparr>)"
    using room_okD(3) [OF assms(1)] assms(2) by (intro on_stream_ok assms) (auto simp: observers_ok_def final_observers_def)
  then show ?thesis using False by (simp add: Shutdown_def)
qed (use assms in \<open>simp add: Shutdown_def\<close>)

lemma main_tasks_id: "on_stream f p w = on_stream f p w\<lparr>main_tasks := main_tasks w\<rparr>"
  by (simp add: on_stream_def)

lemma run_worker_ok:
  assumes ok: "room_ok_except X w" and p: "p < length (streams w)"
  shows "room_ok_except X (run_worker p w)"
proof (cases "st_tasks (streams w ! p)")
  case (Cons t ts)
  let ?s = "streams w ! p" and ?pop = "\<lambda>s. s\<lparr>st_tasks := ts\<rparr>"
  have d: "distinct (st_observers ?s)" using room_okD(3) [OF ok] p by (simp add: observers_ok_def)
  have fin: "final_observers ?s = fold apply_task ts (apply_task t (st_observers ?s))" using Cons by (simp add: final_observers_def)
  show ?thesis
  proof (cases t)
    case StopTask
    have rw: "run_worker p w = (if st_stopped ?s then on_stream ?pop p w
        else on_stream (\<lambda>s. s\<lparr>st_tasks := ts, st_stopped := True\<rparr>) p w\<lparr>main_tasks := main_tasks w @ [ShutdownTask (stream_id w p)]\<rparr>)"
      using Cons StopTask p by (simp add: run_worker_def run_worker_task_def Shutdown_def on_stream_nth stream_id_def) (simp add: on_stream_def)
    show ?thesis
    proof (cases "st_stopped ?s")
      case True
      have "room_ok_except X (on_stream ?pop p w\<lparr>main_tasks := main_tasks w\<rparr>)"
        using d fin True StopTask by (intro on_stream_ok ok p) (simp_all add: final_observers_def apply_task_def)
      then show ?thesis using rw True main_tasks_id [of ?pop p w] by simp
    next
      case False
      have "room_ok_except X (on_stream (\<lambda>s. s\<lparr>st_tasks := ts, st_stopped := True\<rparr>) p w\<lparr>main_tasks := main_tasks w @ [ShutdownTask (stream_id w p)]\<rparr>)"
        using d fin StopTask by (intro on_stream_ok ok p) (auto simp: final_observers_def apply_task_def)
      then show ?thesis using rw False by simp
    qed
  next
    case (RegisterTask s)
    let ?f = "\<lambda>st. st\<lparr>st_tasks := ts, st_observers := apply_task t (st_observers st)\<rparr>"
    have "room_ok_except X (on_stream ?f p w\<lparr>main_tasks := main_tasks w\<rparr>)"
      using d fin Cons RegisterTask by (intro on_stream_ok ok p) (auto simp: final_observers_def distinct_apply)
    moreover have "run_worker p w = on_stream ?f p w"
      using Cons RegisterTask p by (simp add: run_worker_def run_worker_task_def on_stream_def apply_task_def)
    ultimately show ?thesis using main_tasks_id [of ?f p w] by simp
  next
    case (UnregisterTask s)
    let ?f = "\<lambda>st. st\<lparr>st_tasks := ts, st_observers := apply_task t (st_observers st)\<rparr>"
    have "room_ok_except X (on_stream ?f p w\<lparr>main_tasks := main_tasks w\<rparr>)"
      using d fin Cons UnregisterTask by (intro on_stream_ok ok p) (auto simp: final_observers_def distinct_apply)
    moreover have "run_worker p w = on_stream ?f p w"
      using Cons UnregisterTask p by (simp add: run_worker_def run_worker_task_def on_stream_def apply_task_def)
    ultimately show ?thesis using main_tasks_id [of ?f p w] by simp
  qed
qed (use ok in \<open>simp add: run_worker_def\<close>)

lemma Notify_ok: "room_ok_except X (Notify n w) = room_ok_except X w"
  by (simp add: room_ok_except_def maps_ok_def ids_ok_def observers_ok_def stops_ok_def orphans_ok_def gone_ok_def)

lemma Join_ok:
  assumes ok: "room_ok_except X w"
  shows "room_ok_except X (snd (Join pid w))"
proof (cases "pid \<in> set (participant_id_set (room w))")
  case False
  let ?w = "on_room (\<lambda>r. r\<lparr>participant_id_set := participant_id_set r @ [pid]\<rparr>) w"
  have "gone_ok ?w"
    using room_okD(6) [OF ok] unfolding gone_ok_def by auto
  then have "room_ok_except X ?w"
    using ok False unfolding room_ok_except_def maps_ok_def ids_ok_def observers_ok_def stops_ok_def orphans_ok_def registered_def by simp
  then show ?thesis using False by (simp add: Join_def Notify_ok)
qed (use ok in \<open>simp add: Join_def\<close>)

lemma fold_stop_posts: "fold (post StopTask) ps w = posts (map (\<lambda>p. (p, StopTask)) ps) w"
  by (induction ps arbitrary: w) (simp_all add: posts_def)

lemma tasks_for_stops: "p \<in> set ps \<Longrightarrow> StopTask \<in> set (tasks_for p (map (\<lambda>p. (p, StopTask)) ps))"
  by (force simp: tasks_for_def)

lemma Leave_ok:
  assumes ok: "room_ok_except X w"
  shows "room_ok_except X (Leave pid w)"
proof -
  let ?l = "map (\<lambda>p. (p, StopTask)) (members pid (pubs w) @ members pid (subs w))"
  let ?w = "posts ?l w"
  have ok1: "room_ok_except X ?w" by (rule posts_stop_ok [OF ok]) auto
  have eq: "Leave pid w = (if pid \<in> set (participant_id_set (room w)) then Notify (MakeParticipantLeftNotification (room_id (room w)) pid)
      (on_room (\<lambda>r. r\<lparr>participant_id_set := remove1 pid (participant_id_set r)\<rparr>) ?w) else ?w)"
    by (simp add: Leave_def Let_def fold_stop_posts posts_append [symmetric])
  have dist: "distinct (participant_id_set (room w))" using room_okD(1) [OF ok] by (simp add: maps_ok_def)
  have lt: "q < length (streams w)" if "q \<in> set (members k (pubs w)) \<union> set (members k (subs w))" for q k
    using registered_less [OF room_okD(2) [OF ok]] that by (auto simp: registered_def dest: members_held)
  have "room_ok_except X (on_room (\<lambda>r. r\<lparr>participant_id_set := remove1 pid (participant_id_set r)\<rparr>) ?w)" (is "room_ok_except X ?v")
  proof -
    have "gone_ok ?v"
      unfolding gone_ok_def
    proof (intro allI impI)
      fix k q
      assume a: "k \<notin> set (participant_id_set (room ?v))" "q \<in> set (members k (pubs ?v)) \<union> set (members k (subs ?v))"
      then have q: "q \<in> set (members k (pubs w)) \<union> set (members k (subs w))" by simp
      show "doomed ?v q"
      proof (cases "k = pid")
        case True
        then have "StopTask \<in> set (tasks_for q ?l)" using q by (intro tasks_for_stops) auto
        then show ?thesis using doomed_posts [OF lt [OF q]] by simp
      next
        case False
        then have "k \<notin> set (participant_id_set (room w))" using a(1) dist by (simp add: set_remove1_eq)
        then have "doomed w q" using room_okD(6) [OF ok] q unfolding gone_ok_def by blast
        then show ?thesis using doomed_posts [OF lt [OF q]] by simp
      qed
    qed
    then show ?thesis
      using ok1 unfolding room_ok_except_def maps_ok_def ids_ok_def observers_ok_def stops_ok_def orphans_ok_def registered_def
      by simp
  qed
  then show ?thesis using ok1 by (simp add: eq Notify_ok)
qed

lemma Destroy_ok:
  assumes "room_ok_except X w"
  shows "room_ok_except X (Destroy w)"
  unfolding Destroy_def Let_def fold_stop_posts by (intro posts_stop_ok assms) auto

lemma Connected_ok:
  assumes "room_ok_except X w"
  shows "room_ok_except X (OnWebrtcStreamConnected sid w)"
proof -
  have "room_ok_except X (notify_added sid es w)" if "room_ok_except X w" for es w
    using that by (induction es arbitrary: w) (auto simp: Notify_ok split: option.split)
  then show ?thesis using assms by (simp add: OnWebrtcStreamConnected_def)
qed

lemma run_main_ok:
  assumes ok: "room_ok w"
  shows "room_ok (run_main w)"
proof (cases "main_tasks w")
  case (Cons t ts)
  show ?thesis
  proof (cases t)
    case (ConnectedTask sid)
    have "room_ok (w\<lparr>main_tasks := ts\<rparr>)"
      using ok Cons ConnectedTask
      unfolding room_ok_def room_ok_except_def maps_ok_def ids_ok_def observers_ok_def stops_ok_def orphans_ok_def gone_ok_def by auto
    then show ?thesis using Cons ConnectedTask Connected_ok by (simp add: run_main_def room_ok_def)
  next
    case (ShutdownTask sid)
    have "room_ok_except {sid} (w\<lparr>main_tasks := ts\<rparr>)"
      using ok Cons ShutdownTask
      unfolding room_ok_def room_ok_except_def maps_ok_def ids_ok_def observers_ok_def stops_ok_def orphans_ok_def gone_ok_def by auto
    then show ?thesis using Cons ShutdownTask shutdown_ok [of sid "w\<lparr>main_tasks := ts\<rparr>"] by (simp add: run_main_def)
  qed
qed (use ok in \<open>simp add: run_main_def\<close>)

lemma StreamIdExist_registered: "maps_ok w \<Longrightarrow> StreamIdExist sid w \<longleftrightarrow> (\<exists>q \<in> registered w. stream_id w q = sid)"
  using held_entry [of "pubs w"] held_entry [of "subs w"]
  unfolding StreamIdExist_def registered_def maps_ok_def owned_def by fastforce

lemma draw_id_fresh: "maps_ok w \<Longrightarrow> draw_id draws w = Some sid \<Longrightarrow> q \<in> registered w \<Longrightarrow> stream_id w q \<noteq> sid"
  using StreamIdExist_registered [of w sid] by (auto simp: draw_id_def find_Some_iff)

definition fresh_stream :: "string \<Rightarrow> bool \<Rightarrow> bool \<Rightarrow> stream" where
  "fresh_stream sid video audio = \<lparr>st_id = sid, st_stopped = False, st_announcing = False, st_connected = False, st_sdp_video = video, st_sdp_audio = audio,
     st_video = False, st_audio = False, st_observers = [], st_tasks = []\<rparr>"

lemma make_stream_eq: "make_stream sid video audio w = (length (streams w), w\<lparr>streams := streams w @ [fresh_stream sid video audio]\<rparr>)"
  by (simp add: make_stream_def fresh_stream_def)

lemma make_stream_ok:
  assumes ok: "room_ok_except X w" and w': "w' = w\<lparr>streams := streams w @ [fresh_stream sid video audio]\<rparr>"
  shows "room_ok_except X w'" "members (length (streams w)) (links w) = []"
    and "\<forall>q \<in> registered w. stream_id w' q = stream_id w q" "stream_id w' (length (streams w)) = sid"
proof -
  note c = room_okD [OF ok]
  let ?n = "length (streams w)"
  have lt: "q < ?n" if "q \<in> registered w" for q using registered_less [OF c(2) that] .
  show mn: "members ?n (links w) = []"
    using c(1) lt [of ?n] unfolding maps_ok_def registered_def by auto
  have nth: "streams w' ! q = (if q < ?n then streams w ! q else fresh_stream sid video audio)" if "q \<le> ?n" for q
    using that by (auto simp: w' nth_append)
  have nthr: "streams w' ! q = streams w ! q" if "q \<in> registered w" for q using nth [of q] lt [OF that] by simp
  show sid: "\<forall>q \<in> registered w. stream_id w' q = stream_id w q" using nthr by (simp add: stream_id_def)
  show "stream_id w' ?n = sid" using nth [of ?n] by (simp add: stream_id_def fresh_stream_def)
  have r: "room w' = room w" "main_tasks w' = main_tasks w" "length (streams w') = Suc ?n" "registered w' = registered w"
    by (simp_all add: w' registered_def)
  have dm: "doomed w' q \<longleftrightarrow> doomed w q" if "q < ?n" for q using nth that by (simp add: doomed_def)
  have "ids_ok w'"
  proof -
    have "inj_on (stream_id w') (registered w) \<longleftrightarrow> inj_on (stream_id w) (registered w)" using sid by (intro inj_on_cong) simp
    then show ?thesis using c(2) lt unfolding ids_ok_def r(3,4) by fastforce
  qed
  moreover have "observers_ok w'"
    using c(3) mn nth by (auto simp: observers_ok_def r less_Suc_eq fresh_stream_def final_observers_def)
  moreover have "stops_ok X w'" using c(4) sid nthr by (simp add: stops_ok_def r)
  moreover have "orphans_ok w'" using c(5) dm lt unfolding orphans_ok_def r by (auto simp: registered_def)
  moreover have "gone_ok w'"
    unfolding gone_ok_def r
  proof (intro allI impI)
    fix pid q
    assume a: "pid \<notin> set (participant_id_set (room w))" "q \<in> set (members pid (pubs w)) \<union> set (members pid (subs w))"
    then have "q \<in> registered w" by (auto simp: registered_def dest: members_held)
    then show "doomed w' q" using dm lt a c(6) [unfolded gone_ok_def, rule_format, of pid q] by simp
  qed
  moreover have "maps_ok w'" using c(1) by (simp add: maps_ok_def r)
  ultimately show "room_ok_except X w'" by (simp add: room_ok_except_def)
qed

text \<open>Registering a new stream, published or subscribed.\<close>

lemma set_up_Some: "set_up offer start p v u = Some (r, w) \<Longrightarrow> w = v \<and> (\<forall>q. r \<noteq> Returns (Some q)) \<or> w = u \<and> r = Returns (Some p)"
  by (auto simp: set_up_def split: outcome.splits if_splits)

lemma publish_ok:
  assumes ok: "room_ok_except X w" and pub: "ParticipantPublish draws offer start video audio pid w = Some (r, w')"
  shows "room_ok_except X w'"
proof (cases "pid \<in> set (participant_id_set (room w))")
  case True
  then obtain sid where sid: "draw_id draws w = Some sid"
    using pub by (auto simp: ParticipantPublish_def bind_eq_Some_conv)
  let ?n = "length (streams w)"
  define v where "v = w\<lparr>streams := streams w @ [fresh_stream sid video audio]\<rparr>"
  note mk = make_stream_ok [OF ok v_def]
  define u where "u = on_room (\<lambda>r. r\<lparr>participant_publishs_map := add_member pid ?n (participant_publishs_map r)\<rparr>) v"
  have "set_up offer start ?n v u = Some (r, w')" using pub True sid by (simp add: ParticipantPublish_def make_stream_eq v_def u_def)
  then consider "w' = v" | "w' = u" using set_up_Some by blast
  then show ?thesis
  proof cases
    case 1
    then show ?thesis using mk by simp
  next
    case w': 2
    note c = room_okD [OF mk(1)]
    have rv: "room v = room w" "registered v = registered w" "length (streams v) = Suc ?n" by (simp_all add: v_def registered_def)
    have n: "?n \<notin> registered w" using registered_less [OF room_okD(2) [OF ok]] by blast
    have pu: "pubs u = add_member pid ?n (pubs v)" "subs u = subs v" "links u = links v" "streams u = streams v"
      "main_tasks u = main_tasks v" "participant_id_set (room u) = participant_id_set (room v)" "stream_id u = stream_id v" "doomed u = doomed v"
      by (simp_all add: u_def)
    have ow: "owned (pubs u)" "held (pubs u) = insert ?n (held (pubs v))"
      using c(1) n by (simp_all add: pu(1) held_add owned_add maps_ok_def registered_def rv)
    have reg: "registered u = insert ?n (registered w)" using ow(2) by (auto simp: registered_def pu rv)
    have "maps_ok u" using c(1) ow n unfolding maps_ok_def pu by (auto simp: registered_def rv)
    moreover have "ids_ok u"
    proof -
      have "\<forall>q \<in> registered w. stream_id w q \<noteq> sid" using draw_id_fresh [OF room_okD(1) [OF ok] sid] by blast
      then have "stream_id v ?n \<notin> stream_id v ` registered w" using mk(3,4) by auto
      then show ?thesis using c(2) n unfolding ids_ok_def reg pu by (auto simp: rv)
    qed
    moreover have "observers_ok u" using c(3) by (simp add: observers_ok_def pu)
    moreover have "stops_ok X u"
    proof -
      have "\<not> st_stopped (streams v ! ?n)" by (simp add: v_def fresh_stream_def)
      then show ?thesis using c(4) unfolding stops_ok_def reg pu by (simp add: rv)
    qed
    moreover have "orphans_ok u" using c(5) by (simp add: orphans_ok_def pu)
    moreover have "gone_ok u" using c(6) True unfolding gone_ok_def pu by (auto simp: members_add rv)
    ultimately show ?thesis unfolding w' by (simp add: room_ok_except_def)
  qed
qed (use pub ok in \<open>simp add: ParticipantPublish_def\<close>)

lemma final_register: "final_observers (s\<lparr>st_tasks := st_tasks s @ [RegisterTask x]\<rparr>) = apply_task (RegisterTask x) (final_observers s)"
  by (simp add: final_observers_def)

text \<open>A new stream that is registered as a subscription.\<close>

lemma subscription_added_ok:
  assumes ok: "room_ok_except X w" and i: "draw_id draws w = Some i" and v_def: "v = w\<lparr>streams := streams w @ [fresh_stream i video audio]\<rparr>"
    and pp: "p \<in> held (pubs w)" and src: "src \<in> set (participant_id_set (room w))"
    and u_def: "u = on_room (\<lambda>r. r\<lparr>publish_subscribes_map := add_member p (length (streams w)) (publish_subscribes_map r),
        participant_subscribes_map := add_member src (length (streams w)) (participant_subscribes_map r)\<rparr>) (posts [(p, RegisterTask (length (streams w)))] v)"
  shows "room_ok_except X u"
proof -
  let ?n = "length (streams w)"
  note mk = make_stream_ok [OF ok v_def]
  note c = room_okD [OF mk(1)]
  have rv: "room v = room w" "registered v = registered w" "length (streams v) = Suc ?n" by (simp_all add: v_def registered_def)
  have n: "?n \<notin> registered w" using registered_less [OF room_okD(2) [OF ok]] by blast
  have lp: "p < ?n" "p \<noteq> ?n" using registered_less [OF room_okD(2) [OF ok], of p] pp by (auto simp: registered_def)
  have pu: "pubs u = pubs v" "subs u = add_member src ?n (subs v)" "links u = add_member p ?n (links v)" "length (streams u) = Suc ?n"
    "main_tasks u = main_tasks v" "participant_id_set (room u) = participant_id_set (room v)"
    by (simp_all add: u_def rv)
  have st: "streams u ! q = (streams v ! q)\<lparr>st_tasks := st_tasks (streams v ! q) @ (if q = p then [RegisterTask ?n] else [])\<rparr>" if "q < Suc ?n" for q
    using that by (simp add: u_def posts_nth rv tasks_for_def)
  have sid: "stream_id u q = stream_id v q" "doomed u q = doomed v q" if "q < Suc ?n" for q
    using st [OF that] by (simp_all add: stream_id_def doomed_def)
  have lt: "q < Suc ?n" if "q \<in> registered w" for q using registered_less [OF room_okD(2) [OF ok] that] by simp
  have nl: "?n \<notin> held (links v)" using c(1) n unfolding maps_ok_def by (auto simp: rv registered_def)
  have ow: "owned (subs u)" "held (subs u) = insert ?n (held (subs v))" "owned (links u)" "held (links u) = insert ?n (held (links v))"
    using c(1) n nl by (simp_all add: pu held_add owned_add maps_ok_def registered_def rv)
  have reg: "registered u = insert ?n (registered w)" using ow(2) by (auto simp: registered_def pu rv)
  have "maps_ok u"
    using c(1) ow n pp unfolding maps_ok_def pu by (auto simp: registered_def rv members_add)
  moreover have "ids_ok u"
  proof -
    have "\<forall>q \<in> registered w. stream_id w q \<noteq> i" using draw_id_fresh [OF room_okD(1) [OF ok] i] by blast
    then have "stream_id v ?n \<notin> stream_id v ` registered w" using mk(3,4) by auto
    then have "inj_on (stream_id v) (registered u)" using c(2) n unfolding ids_ok_def reg by (auto simp: rv)
    moreover have "inj_on (stream_id u) (registered u) \<longleftrightarrow> inj_on (stream_id v) (registered u)"
      using sid lt reg by (intro inj_on_cong) auto
    ultimately show ?thesis using lt unfolding ids_ok_def pu reg by auto
  qed
  moreover have "observers_ok u"
    unfolding observers_ok_def pu(4)
  proof (intro allI impI conjI)
    fix q
    assume q: "q < Suc ?n"
    then have od: "distinct (st_observers (streams v ! q))" "set (final_observers (streams v ! q)) = set (members q (links v))"
      using c(3) by (simp_all add: observers_ok_def rv)
    then show "distinct (st_observers (streams u ! q))" using st [OF q] by simp
    show "set (final_observers (streams u ! q)) = set (members q (links u))"
      using od(2) unfolding st [OF q] final_append pu(3) by (auto simp: members_add apply_task_def)
  qed
  moreover have "stops_ok X u"
  proof -
    have "\<not> st_stopped (streams u ! ?n)" using st [of ?n] lp by (simp add: v_def fresh_stream_def)
    moreover have "st_stopped (streams u ! q) = st_stopped (streams v ! q)" if "q \<in> registered w" for q using st [OF lt [OF that]] by simp
    ultimately show ?thesis using c(4) sid lt unfolding stops_ok_def reg pu by (auto simp: rv)
  qed
  moreover have "orphans_ok u"
    using c(5) sid(2) lt unfolding orphans_ok_def ow by (auto simp: registered_def rv)
  moreover have "gone_ok u"
    unfolding gone_ok_def pu
  proof (intro allI impI)
    fix pid q
    assume a: "pid \<notin> set (participant_id_set (room v))" "q \<in> set (members pid (pubs v)) \<union> set (members pid (add_member src ?n (subs v)))"
    then have "pid \<noteq> src" using src by (auto simp: rv)
    then have q: "q \<in> set (members pid (pubs v)) \<union> set (members pid (subs v))" using a(2) by (simp add: members_add)
    then have "q \<in> registered w" by (auto simp: registered_def rv dest: members_held)
    then show "doomed u q" using sid(2) lt a(1) q c(6) [unfolded gone_ok_def, rule_format, of pid q] by simp
  qed
  ultimately show ?thesis by (simp add: room_ok_except_def)
qed

lemma subscribe_ok:
  assumes ok: "room_ok_except X w" and sub: "ParticipantSubscribe draws offer start src dst sid w = Some (r, w')"
  shows "room_ok_except X w'"
proof (cases "src \<in> set (participant_id_set (room w)) \<and> dst \<in> set (participant_id_set (room w))
    \<and> find (\<lambda>p. stream_id w p = sid) (members dst (pubs w)) \<noteq> None")
  case False
  then have "w' = w" using sub
    by (auto simp: ParticipantSubscribe_def members_def split: if_splits option.splits)
  then show ?thesis using ok by simp
next
  case True
  then obtain p ps where p: "map_of (pubs w) dst = Some ps" "find (\<lambda>p. stream_id w p = sid) ps = Some p" "src \<in> set (participant_id_set (room w))"
    by (auto simp: members_def split: option.splits)
  then obtain i where i: "draw_id draws w = Some i"
    using sub True by (auto simp: ParticipantSubscribe_def bind_eq_Some_conv)
  let ?n = "length (streams w)"
  define v where "v = w\<lparr>streams := streams w @ [fresh_stream i (st_sdp_video (streams w ! p)) (st_sdp_audio (streams w ! p))]\<rparr>"
  note mk = make_stream_ok [OF ok v_def]
  define u where "u = on_room (\<lambda>r. r\<lparr>publish_subscribes_map := add_member p ?n (publish_subscribes_map r),
      participant_subscribes_map := add_member src ?n (participant_subscribes_map r)\<rparr>) (posts [(p, RegisterTask ?n)] v)"
  have "set_up offer start ?n v u = Some (r, w')"
    using sub True p i by (simp add: ParticipantSubscribe_def make_stream_eq v_def u_def post_posts)
  then consider "w' = v" | "w' = u" using set_up_Some by blast
  then show ?thesis
  proof cases
    case 1
    then show ?thesis using mk by simp
  next
    case w': 2
    have "p \<in> set ps" using p(2) by (auto simp: find_Some_iff)
    then have "p \<in> held (pubs w)" using p(1) members_held [of p dst "pubs w"] by (simp add: members_def)
    then show ?thesis unfolding w' by (rule subscription_added_ok [OF ok i v_def _ p(3) u_def])
  qed
qed

lemma on_stream_flags_ok:
  assumes "room_ok_except X w" "p < length (streams w)"
    and "\<And>s. st_id (f s) = st_id s \<and> st_stopped (f s) = st_stopped s \<and> st_observers (f s) = st_observers s \<and> st_tasks (f s) = st_tasks s"
    and "set (main_tasks w) \<subseteq> set ts"
  shows "room_ok_except X (on_stream f p w\<lparr>main_tasks := ts\<rparr>)"
  using room_okD(3) [OF assms(1)] assms(2-4)
  by (intro on_stream_ok assms(1,2)) (auto simp: observers_ok_def final_observers_def)

lemma task_step_ok: "task_step w w' \<Longrightarrow> room_ok w \<Longrightarrow> room_ok w'"
  by (induction rule: task_step.induct) (auto simp: run_main_ok room_ok_def [symmetric] intro: run_worker_ok [of "{}", folded room_ok_def])

lemma room_step_ok: "room_step w w' \<Longrightarrow> room_ok w \<Longrightarrow> room_ok w'"
proof (induction rule: room_step.induct)
  case (connected p w srtp_ok)
  then show ?case
    using Shutdown_ok [of "{}" w p] on_stream_flags_ok [of "{}" w p "\<lambda>s. s\<lparr>st_announcing := True\<rparr>" "main_tasks w @ [ConnectedTask (stream_id w p)]"]
    by (auto simp: OnDtlsTransportSetup_def room_ok_def)
next
  case (established p w)
  then show ?case
    using on_stream_flags_ok [of "{}" w p "\<lambda>s. s\<lparr>st_announcing := False, st_connected := True\<rparr>" "main_tasks w"]
      main_tasks_id [of _ p w] by (simp add: SetEstablished_def room_ok_def)
next
  case (mute p w type muted w')
  then show ?case
    using on_stream_flags_ok [of "{}" w p "\<lambda>s. s\<lparr>st_audio := \<not> muted\<rparr>" "main_tasks w"]
      on_stream_flags_ok [of "{}" w p "\<lambda>s. s\<lparr>st_video := \<not> muted\<rparr>" "main_tasks w"]
      main_tasks_id [of _ p w] by (auto simp: UpdateMuteInfo_def room_ok_def split: if_splits)
next
  case (media p w video audio)
  then show ?case
    using on_stream_flags_ok [of "{}" w p "\<lambda>s. s\<lparr>st_video := st_video s \<or> video, st_audio := st_audio s \<or> audio\<rparr>" "main_tasks w"]
      main_tasks_id [of _ p w] by (simp add: SetLocalMedia_def room_ok_def)
qed (auto simp: room_ok_def intro: Join_ok Leave_ok Destroy_ok publish_ok subscribe_ok Shutdown_ok task_step_ok [unfolded room_ok_def])

section \<open>The room at rest\<close>

lemma run_worker_work:
  assumes p: "p < length (streams w)" "st_tasks (streams w ! p) \<noteq> []"
  shows "work (run_worker p w) < work w" "participant_id_set (room (run_worker p w)) = participant_id_set (room w)"
proof -
  obtain t ts where t: "st_tasks (streams w ! p) = t # ts" using p(2) by (cases "st_tasks (streams w ! p)") auto
  have pop: "queued (on_stream f p w) + weight t = queued w" if "\<And>s. st_tasks (f s) = ts" for f
    using queued_on_stream [OF p(1), of f] that t by simp
  have w: "\<And>x. weight (RegisterTask x) = 1" "\<And>x. weight (UnregisterTask x) = 1" "weight StopTask = 2" by (simp_all add: weight_def)
  have "\<exists>f ms. (\<forall>s. st_tasks (f s) = ts) \<and> run_worker p w = on_stream f p w\<lparr>main_tasks := main_tasks w @ ms\<rparr> \<and> length ms < weight t"
  proof (cases "t = StopTask \<and> \<not> st_stopped (streams w ! p)")
    case True
    have "run_worker p w = on_stream (\<lambda>s. s\<lparr>st_tasks := ts, st_stopped := True\<rparr>) p w\<lparr>main_tasks := main_tasks w @ [ShutdownTask (stream_id w p)]\<rparr>"
      using t True p(1) by (simp add: run_worker_def run_worker_task_def Shutdown_def on_stream_nth stream_id_def) (simp add: on_stream_def)
    then show ?thesis using True w by (intro exI [of _ "\<lambda>s. s\<lparr>st_tasks := ts, st_stopped := True\<rparr>"] exI [of _ "[ShutdownTask (stream_id w p)]"]) simp
  next
    case False
    let ?f = "\<lambda>s. s\<lparr>st_tasks := ts, st_observers := apply_task t (st_observers s)\<rparr>"
    have "run_worker p w = on_stream ?f p w"
      using t False p(1) by (cases t) (simp_all add: run_worker_def run_worker_task_def on_stream_def apply_task_def)
    then show ?thesis using w main_tasks_id [of ?f p w] by (intro exI [of _ ?f] exI [of _ "[]"]) (cases t; simp)
  qed
  then obtain f ms where f: "\<And>s. st_tasks (f s) = ts" "run_worker p w = on_stream f p w\<lparr>main_tasks := main_tasks w @ ms\<rparr>" "length ms < weight t"
    by blast
  show "work (run_worker p w) < work w" using pop [of f, OF f(1)] f(3) by (simp add: f(2) work_def)
  show "participant_id_set (room (run_worker p w)) = participant_id_set (room w)" by (simp add: f(2))
qed

lemma notify_added_same: "queued (notify_added sid es w) = queued w \<and> room (notify_added sid es w) = room w \<and> main_tasks (notify_added sid es w) = main_tasks w"
  by (induction es arbitrary: w) (auto split: option.split)

lemma run_main_work:
  assumes ok: "room_ok w" and t: "main_tasks w \<noteq> []"
  shows "work (run_main w) < work w \<and> participant_id_set (room (run_main w)) = participant_id_set (room w)"
proof -
  obtain t ts where t: "main_tasks w = t # ts" using t by (cases "main_tasks w") auto
  let ?w = "w\<lparr>main_tasks := ts\<rparr>"
  have w: "work ?w < work w" using t by (simp add: work_def)
  show ?thesis
  proof (cases t)
    case (ConnectedTask sid)
    then show ?thesis using t w notify_added_same [of sid "pubs w" ?w] by (simp add: run_main_def OnWebrtcStreamConnected_def work_def)
  next
    case (ShutdownTask sid)
    have "room_ok_except {sid} ?w"
      using ok t ShutdownTask
      unfolding room_ok_def room_ok_except_def maps_ok_def ids_ok_def observers_ok_def stops_ok_def orphans_ok_def gone_ok_def by auto
    from shutdown_ok [OF this] show ?thesis using t w ShutdownTask by (simp add: run_main_def)
  qed
qed

lemma task_step_work: "task_step w w' \<Longrightarrow> room_ok w \<Longrightarrow> work w' < work w \<and> participant_id_set (room w') = participant_id_set (room w)"
  by (induction rule: task_step.induct) (simp_all add: run_worker_work run_main_work)

definition at_rest :: "room_world \<Rightarrow> bool" where
  "at_rest w \<longleftrightarrow> main_tasks w = [] \<and> (\<forall>s \<in> set (streams w). st_tasks s = [])"

text \<open>Nothing is left to tidy up: the streams in the room are alive and belong to participants who are in it, every
  subscription hangs on a published stream of the room, and who gets the data of a published stream is who subscribed.\<close>

definition tidy :: "room_world \<Rightarrow> bool" where
  "tidy w \<longleftrightarrow>
     (\<forall>pid p. p \<in> set (members pid (pubs w)) \<union> set (members pid (subs w)) \<longrightarrow> pid \<in> set (participant_id_set (room w)) \<and> \<not> st_stopped (streams w ! p))
     \<and> (\<forall>pid s. s \<in> set (members pid (subs w)) \<longrightarrow> (\<exists>!p. s \<in> set (members p (links w))))
     \<and> (\<forall>p s. s \<in> set (members p (links w)) \<longrightarrow> p \<in> held (pubs w))
     \<and> (\<forall>p < length (streams w). set (st_observers (streams w ! p)) = set (members p (links w)))"

lemma at_rest_tidy:
  assumes ok: "room_ok w" and rest: "at_rest w"
  shows "tidy w"
proof -
  note c = room_okD [OF ok [unfolded room_ok_def]]
  have lt: "q < length (streams w)" if "q \<in> registered w" for q using registered_less [OF c(2) that] .
  have q: "st_tasks (streams w ! p) = []" if "p < length (streams w)" for p using rest that by (auto simp: at_rest_def)
  have alive: "\<not> st_stopped (streams w ! p)" if "p \<in> registered w" for p
    using c(4) that rest by (auto simp: stops_ok_def at_rest_def)
  then have nd: "\<not> doomed w p" if "p \<in> registered w" for p using that q [OF lt [OF that]] by (simp add: doomed_def)
  show ?thesis
    unfolding tidy_def
  proof (intro conjI allI impI)
    fix pid p
    assume p: "p \<in> set (members pid (pubs w)) \<union> set (members pid (subs w))"
    then have r: "p \<in> registered w" by (auto simp: registered_def dest: members_held)
    then show "\<not> st_stopped (streams w ! p)" by (rule alive)
    show "pid \<in> set (participant_id_set (room w))" using c(6) [unfolded gone_ok_def, rule_format, OF _ p] nd [OF r] by blast
  next
    fix pid s
    assume "s \<in> set (members pid (subs w))"
    then have s: "s \<in> held (subs w)" by (rule members_held)
    then have "s \<in> held (links w)" using c(5) nd [of s] by (auto simp: orphans_ok_def registered_def)
    moreover have "owned (links w)" using c(1) by (simp add: maps_ok_def)
    ultimately show "\<exists>!p. s \<in> set (members p (links w))" using owned_unique [of "links w" s] by (auto simp: held_def)
  next
    fix p s
    assume "s \<in> set (members p (links w))"
    then show "p \<in> held (pubs w)" using c(1) unfolding maps_ok_def by (metis empty_iff empty_set)
  next
    fix p
    assume "p < length (streams w)"
    then show "set (st_observers (streams w ! p)) = set (members p (links w))"
      using c(3) q by (simp add: observers_ok_def final_observers_def)
  qed
qed

definition empty_world :: "string \<Rightarrow> room_world" where
  "empty_world i = \<lparr>room = new_room i, streams = [], main_tasks = [], notified = []\<rparr>"

lemma empty_world_ok: "room_ok (empty_world i)"
  by (simp add: room_ok_def room_ok_except_def maps_ok_def ids_ok_def observers_ok_def stops_ok_def orphans_ok_def gone_ok_def
      registered_def owned_def held_def empty_world_def new_room_def)

lemma reachable_ok: "room_step\<^sup>*\<^sup>* (empty_world i) w \<Longrightarrow> room_ok w"
  by (induction rule: rtranclp_induct) (use empty_world_ok room_step_ok in auto)

lemma tasks_bounded: "(task_step ^^ n) w w' \<Longrightarrow> room_ok w \<Longrightarrow> n + work w' \<le> work w \<and> room_ok w' \<and> participant_id_set (room w') = participant_id_set (room w)"
proof (induction n arbitrary: w')
  case (Suc n)
  then obtain v where "(task_step ^^ n) w v" "task_step v w'" by auto
  then show ?case using Suc.IH Suc.prems(2) task_step_work [of v w'] task_step_ok [of v w'] by fastforce
qed simp

lemma not_at_rest_step: "\<not> at_rest w \<Longrightarrow> \<exists>w'. task_step w w'"
  unfolding at_rest_def by (metis in_set_conv_nth task_step.intros)

lemma tasks_reach_rest: "room_ok w \<Longrightarrow> \<exists>w'. task_step\<^sup>*\<^sup>* w w' \<and> at_rest w'"
proof (induction "work w" arbitrary: w rule: less_induct)
  case less
  show ?case
  proof (cases "at_rest w")
    case False
    then obtain v where v: "task_step w v" using not_at_rest_step by blast
    then show ?thesis using less.hyps [of v] task_step_work [OF v less.prems] task_step_ok [OF v less.prems]
      by (meson converse_rtranclp_into_rtranclp)
  qed blast
qed

text \<open>C4. Whatever participants, streams, the network and the threads do, and in whatever order, a room that has no task
  left is tidy: its streams are alive and belong to participants in the room, each subscription hangs on exactly
  one published stream of the room, and the published streams send their data to exactly their subscribers.\<close>

theorem room_at_rest_tidy:
  assumes "room_step\<^sup>*\<^sup>* (empty_world i) w" "at_rest w"
  shows "tidy w"
  using at_rest_tidy [OF reachable_ok [OF assms(1)] assms(2)] .

text \<open>C12. A room always comes to rest: without new events the posted tasks end after a bounded number of steps, in
  every order; and when a participant has left, the room at rest holds none of the participant's streams and every
  other participant.\<close>

theorem room_comes_to_rest:
  assumes "room_step\<^sup>*\<^sup>* (empty_world i) w"
  shows "(\<forall>n w'. (task_step ^^ n) (Leave pid w) w' \<longrightarrow> n \<le> work (Leave pid w))
    \<and> (\<exists>w'. task_step\<^sup>*\<^sup>* (Leave pid w) w' \<and> at_rest w')
    \<and> (\<forall>w'. task_step\<^sup>*\<^sup>* (Leave pid w) w' \<and> at_rest w' \<longrightarrow> members pid (participant_publishs_map (room w')) = []
         \<and> members pid (participant_subscribes_map (room w')) = []
         \<and> participant_id_set (room w') = remove1 pid (participant_id_set (room w)) \<and> tidy w')"
proof (intro conjI allI impI)
  have okw: "room_ok w" using reachable_ok [OF assms] .
  have ok: "room_ok (Leave pid w)" using Leave_ok okw by (simp add: room_ok_def)
  show "n \<le> work (Leave pid w)" if "(task_step ^^ n) (Leave pid w) w'" for n w'
    using tasks_bounded [OF that ok] by linarith
  show "\<exists>w'. task_step\<^sup>*\<^sup>* (Leave pid w) w' \<and> at_rest w'" by (rule tasks_reach_rest [OF ok])
  fix w'
  assume a: "task_step\<^sup>*\<^sup>* (Leave pid w) w' \<and> at_rest w'"
  then obtain n where "(task_step ^^ n) (Leave pid w) w'" by (auto dest: rtranclp_imp_relpowp)
  note b = tasks_bounded [OF this ok]
  then show t: "tidy w'" using a at_rest_tidy by blast
  have "participant_id_set (room (Leave pid w)) = remove1 pid (participant_id_set (room w))"
    by (simp add: Leave_def Let_def fold_stop_posts remove1_idem)
  then show p: "participant_id_set (room w') = remove1 pid (participant_id_set (room w))" using b by simp
  have "distinct (participant_id_set (room w))" using room_okD(1) [OF okw [unfolded room_ok_def]] by (simp add: maps_ok_def)
  then have gone: "pid \<notin> set (participant_id_set (room w'))" by (simp add: p set_remove1_eq)
  have "\<forall>x. x \<notin> set (members pid (pubs w')) \<union> set (members pid (subs w'))" using t gone unfolding tidy_def by blast
  then have "set (members pid (pubs w') @ members pid (subs w')) = {}" by (intro equals0I) simp
  then show "members pid (participant_publishs_map (room w')) = []" "members pid (participant_subscribes_map (room w')) = []" by simp_all
qed

text \<open>Alice publishes \<open>s\<close> and Bob subscribes to it.\<close>

definition alice_publishes :: room_world where
  "alice_publishes = snd (the (ParticipantPublish [''s''] (Returns True) (Returns True) True True ''alice'' (snd (Join ''alice'' (empty_world ''r'')))))"

definition bob_subscribes :: room_world where
  "bob_subscribes = snd (the (ParticipantSubscribe [''s'', ''t''] (Returns True) (Returns True) ''bob'' ''alice'' ''s'' (snd (Join ''bob'' alice_publishes))))"

lemmas room_eval = ParticipantPublish_def ParticipantSubscribe_def draw_id_def StreamIdExist_def Join_def Notify_def on_room_def
  on_stream_def post_def empty_world_def new_room_def make_stream_def set_up_def add_member_def members_def stream_id_def Let_def

lemma alice_some: "ParticipantPublish [''s''] (Returns True) (Returns True) True True ''alice'' (snd (Join ''alice'' (empty_world ''r''))) = Some (Returns (Some 0), alice_publishes)"
  by (simp add: alice_publishes_def room_eval)

lemma alice_world:
  "room alice_publishes = \<lparr>room_id = ''r'', participant_id_set = [''alice''], participant_publishs_map = [(''alice'', [0])],
     publish_subscribes_map = [], participant_subscribes_map = []\<rparr>"
  "streams alice_publishes = [\<lparr>st_id = ''s'', st_stopped = False, st_announcing = False, st_connected = False, st_sdp_video = True, st_sdp_audio = True,
     st_video = False, st_audio = False, st_observers = [], st_tasks = []\<rparr>]" "main_tasks alice_publishes = []"
  by (simp_all add: alice_publishes_def room_eval)

lemma bob_some: "ParticipantSubscribe [''s'', ''t''] (Returns True) (Returns True) ''bob'' ''alice'' ''s'' (snd (Join ''bob'' alice_publishes)) = Some (Returns (Some 1), bob_subscribes)"
  by (simp add: bob_subscribes_def room_eval alice_world)

lemma bob_participants: "participant_id_set (room bob_subscribes) = [''alice'', ''bob'']"
  by (simp add: bob_subscribes_def room_eval alice_world)

lemma alice_reachable: "room_step\<^sup>*\<^sup>* (empty_world ''r'') alice_publishes"
  by (meson room_step.join room_step.publish [OF alice_some] converse_rtranclp_into_rtranclp rtranclp.rtrancl_refl)

lemma bob_reachable: "room_step\<^sup>*\<^sup>* (empty_world ''r'') bob_subscribes"
  using alice_reachable room_step.join [of alice_publishes "''bob''"] room_step.subscribe [OF bob_some]
  by (meson rtranclp.rtrancl_into_rtrancl)

theorem room_at_rest_tidy_witness:
  "tidy alice_publishes \<and> members ''alice'' (participant_publishs_map (room alice_publishes)) = [0]"
proof
  have "at_rest alice_publishes" by (simp add: at_rest_def alice_world)
  then show "tidy alice_publishes" by (rule room_at_rest_tidy [OF alice_reachable])
qed (simp add: alice_world members_def)

theorem room_comes_to_rest_witness:
  "\<exists>w'. task_step\<^sup>*\<^sup>* (Leave ''alice'' bob_subscribes) w' \<and> at_rest w' \<and> participant_id_set (room w') = [''bob'']
     \<and> members ''alice'' (participant_publishs_map (room w')) = []"
  using room_comes_to_rest [OF bob_reachable, of "''alice''"] by (auto simp: bob_participants)

end
