(* ===== verification/Room_Manager.thy ===== *)
theory Room_Manager
  imports Server_Session Room_Invariant
begin

text \<open>
  The rooms of the server, \<^verbatim>\<open>src/src/signaling/room_manager.{h,cpp}\<close>, the set of its web sockets with the delivery of
  notifications, \<^verbatim>\<open>src/src/signaling/signaling_server_base.cpp\<close> and \<^verbatim>\<open>src/src/signaling/signaling_server.cpp\<close>, and the
  management API, \<^verbatim>\<open>src/src/signaling/manage_api.h\<close>.

  All of it runs on the main thread. The server state holds the singletons; a session pointer is an index. What a
  room notifies in an operation is delivered to the open sessions, in order, when the operation is done: no
  operation of a room reads a session. A room that was destroyed may still have tasks and stays in
  \<open>destroyed_rooms\<close>. The HTTP library is outside: a request is its method, target and body, a response its status
  and body.
\<close>

section \<open>The code\<close>

record server =
  id_room_map :: "(string \<times> room_world) list"
  destroyed_rooms :: "room_world list"
  sessions :: "Session list"
  open_sessions :: "nat list"
  layer_requests :: "(string \<times> nat \<times> u32) list"

definition new_server :: server where
  "new_server = \<lparr>id_room_map = [], destroyed_rooms = [], sessions = [], open_sessions = [], layer_requests = []\<rparr>"

definition on_session :: "(Session \<Rightarrow> Session) \<Rightarrow> nat \<Rightarrow> server \<Rightarrow> server" where
  "on_session f i srv = srv\<lparr>sessions := (sessions srv)[i := f (sessions srv ! i)]\<rparr>"

subsection \<open>The set of sessions\<close>

text \<open>A web socket joins the set when it is made and leaves it when it is destroyed.\<close>

definition SetJoin :: "server \<Rightarrow> server" where
  "SetJoin srv = srv\<lparr>sessions := sessions srv @ [new_session], open_sessions := open_sessions srv @ [length (sessions srv)]\<rparr>"

definition SetLeave :: "nat \<Rightarrow> server \<Rightarrow> server" where
  "SetLeave i srv = srv\<lparr>open_sessions := remove1 i (open_sessions srv)\<rparr>"

definition addressed :: "Notification \<Rightarrow> Session \<Rightarrow> bool" where
  "addressed n s \<longleftrightarrow> se_room_id s = notify_room_id n
     \<and> (notify_participant_id n = kNotifyAllParticipants \<or> se_participant_id s = notify_participant_id n)"

definition SetNotify :: "Notification \<Rightarrow> server \<Rightarrow> server" where
  "SetNotify n srv = fold (\<lambda>i srv. if addressed n (sessions srv ! i) then on_session (SendNotification n) i srv else srv) (open_sessions srv) srv"

definition SetClear :: "server \<Rightarrow> server" where
  "SetClear srv = (fold (on_session (\<lambda>s. s\<lparr>se_close_requested := True\<rparr>)) (open_sessions srv) srv)\<lparr>open_sessions := []\<rparr>"

text \<open>The state of a room after an operation on it, with its notifications delivered.\<close>

definition put_room :: "string \<Rightarrow> room_world \<Rightarrow> server \<Rightarrow> server" where
  "put_room rid w srv =
     fold SetNotify (notified w) (srv\<lparr>id_room_map := AList.update rid (w\<lparr>notified := []\<rparr>) (id_room_map srv)\<rparr>)"

subsection \<open>The rooms\<close>

definition GetRoomById :: "string \<Rightarrow> server \<Rightarrow> room_world option" where
  "GetRoomById rid srv = map_of (id_room_map srv) rid"

definition CreateRoom :: "string \<Rightarrow> server \<Rightarrow> YlError \<times> server" where
  "CreateRoom rid srv =
     (if GetRoomById rid srv \<noteq> None then (kRoomIdAlreadyExists, srv)
      else (kOk, srv\<lparr>id_room_map := AList.update rid (empty_world rid) (id_room_map srv)\<rparr>))"

definition GetAllRoomId :: "server \<Rightarrow> string list" where
  "GetAllRoomId srv = map fst (id_room_map srv)"

definition DestroyRoom :: "string \<Rightarrow> server \<Rightarrow> server" where
  "DestroyRoom rid srv =
     (case GetRoomById rid srv of
        None \<Rightarrow> srv
      | Some w \<Rightarrow> srv\<lparr>id_room_map := AList.delete rid (id_room_map srv), destroyed_rooms := destroyed_rooms srv @ [Destroy w]\<rparr>)"

definition ClearRooms :: "server \<Rightarrow> server" where
  "ClearRooms srv = srv\<lparr>id_room_map := [], destroyed_rooms := destroyed_rooms srv @ map (Destroy \<circ> snd) (id_room_map srv)\<rparr>"

text \<open>An error of a web socket: its participant leaves the room.\<close>

definition HandleWsError :: "nat \<Rightarrow> server \<Rightarrow> server" where
  "HandleWsError i srv =
     (let s = sessions srv ! i in
      case GetRoomById (se_room_id s) srv of
        None \<Rightarrow> srv | Some w \<Rightarrow> put_room (se_room_id s) (Leave (se_participant_id s) w) srv)"

subsection \<open>The management API\<close>

datatype http_method = GetMethod | PostMethod | DeleteMethod | OtherMethod
datatype http_response = BadRequest string | OkResponse "json option"

definition contains :: "string \<Rightarrow> string \<Rightarrow> bool" where
  "contains pat s \<longleftrightarrow> find_sub pat s \<noteq> None"

text \<open>What comes after the last slash of a target, which starts with one.\<close>

definition last_component :: "string \<Rightarrow> string" where
  "last_component t = rev (takeWhile (\<lambda>c. c \<noteq> CHR ''/'') (rev t))"

definition create_request :: "(string \<Rightarrow> json outcome) \<Rightarrow> string \<Rightarrow> server \<Rightarrow> http_response \<times> server" where
  "create_request parse body srv =
     (case bind_outcome (parse body) (json_get_string ''id'') of
        Returns rid \<Rightarrow>
          (case CreateRoom rid srv of
             (kOk, srv) \<Rightarrow> (OkResponse (Some (JObject [(''id'', JString rid)])), srv)
           | (e, srv) \<Rightarrow> (BadRequest (YlErrorToString e), srv))
      | _ \<Rightarrow> (BadRequest ''Request parse error'', srv))"

definition delete_request :: "string \<Rightarrow> server \<Rightarrow> http_response \<times> server" where
  "delete_request target srv =
     (if last_component target = [] then (BadRequest ''Request parse error'', srv)
      else (OkResponse None, DestroyRoom (last_component target) srv))"

definition kickout_request :: "string \<Rightarrow> server \<Rightarrow> http_response \<times> server" where
  "kickout_request target srv =
     (case StringSplit target ''/'' of
        Some [_, rid, _, pid] \<Rightarrow>
          (case GetRoomById rid srv of
             None \<Rightarrow> (BadRequest ''Request parse error'', srv)
           | Some w \<Rightarrow> (OkResponse None, put_room rid (KickoutParticipant pid w) srv))
      | _ \<Rightarrow> (BadRequest ''Request parse error'', srv))"

definition HandleRequest :: "(string \<Rightarrow> json outcome) \<Rightarrow> http_method \<Rightarrow> string \<Rightarrow> string \<Rightarrow> server \<Rightarrow> http_response \<times> server" where
  "HandleRequest parse m target body srv =
     (if m = OtherMethod then (BadRequest ''Unknown HTTP-method'', srv)
      else if target = [] \<or> hd target \<noteq> CHR ''/'' \<or> contains ''..'' target then (BadRequest ''Illegal request-target'', srv)
      else if contains ''/rooms'' target \<and> \<not> contains ''/participants'' target then
        (case m of
           PostMethod \<Rightarrow> create_request parse body srv
         | GetMethod \<Rightarrow> (OkResponse (Some (JArray (map JString (GetAllRoomId srv)))), srv)
         | DeleteMethod \<Rightarrow> delete_request target srv
         | OtherMethod \<Rightarrow> (BadRequest ''Unsupported HTTP-method'', srv))
      else if contains ''/participants'' target then
        (if m = DeleteMethod then kickout_request target srv else (BadRequest ''Request parse error'', srv))
      else (BadRequest ''Request parse error'', srv))"

section \<open>Delivery\<close>

lemma on_session_simps [simp]:
  "id_room_map (on_session f i srv) = id_room_map srv" "destroyed_rooms (on_session f i srv) = destroyed_rooms srv"
  "open_sessions (on_session f i srv) = open_sessions srv" "length (sessions (on_session f i srv)) = length (sessions srv)"
  "layer_requests (on_session f i srv) = layer_requests srv" "GetRoomById rid (on_session f i srv) = GetRoomById rid srv"
  by (simp_all add: on_session_def GetRoomById_def)

lemma on_session_nth [simp]: "j < length (sessions srv) \<Longrightarrow> sessions (on_session f i srv) ! j = (if i = j then f (sessions srv ! j) else sessions srv ! j)"
  by (simp add: on_session_def)

definition receive :: "Notification \<Rightarrow> Session \<Rightarrow> Session" where
  "receive n s = (if addressed n s then SendNotification n s else s)"

lemma SetNotify_receive: "SetNotify n srv = fold (on_session (receive n)) (open_sessions srv) srv"
proof -
  have "fold (\<lambda>i srv. if addressed n (sessions srv ! i) then on_session (SendNotification n) i srv else srv) is srv
      = fold (on_session (receive n)) is srv" for "is"
    by (induction "is" arbitrary: srv) (simp_all add: on_session_def receive_def)
  then show ?thesis by (simp add: SetNotify_def)
qed

lemma fold_on_session:
  "length (sessions (fold (on_session f) is srv)) = length (sessions srv)"
  "id_room_map (fold (on_session f) is srv) = id_room_map srv" "destroyed_rooms (fold (on_session f) is srv) = destroyed_rooms srv"
  "open_sessions (fold (on_session f) is srv) = open_sessions srv" "layer_requests (fold (on_session f) is srv) = layer_requests srv"
  "distinct is \<Longrightarrow> j < length (sessions srv) \<Longrightarrow> sessions (fold (on_session f) is srv) ! j = (if j \<in> set is then f (sessions srv ! j) else sessions srv ! j)"
  by (induction "is" arbitrary: srv) auto

lemma SetNotify_simps [simp]:
  "length (sessions (SetNotify n srv)) = length (sessions srv)" "id_room_map (SetNotify n srv) = id_room_map srv"
  "destroyed_rooms (SetNotify n srv) = destroyed_rooms srv" "open_sessions (SetNotify n srv) = open_sessions srv"
  "layer_requests (SetNotify n srv) = layer_requests srv"
  by (simp_all add: SetNotify_receive fold_on_session)

lemma SetNotify_nth:
  "distinct (open_sessions srv) \<Longrightarrow> j < length (sessions srv) \<Longrightarrow>
   sessions (SetNotify n srv) ! j = (if j \<in> set (open_sessions srv) then receive n (sessions srv ! j) else sessions srv ! j)"
  by (simp add: SetNotify_receive fold_on_session)

lemma fold_SetNotify:
  "length (sessions (fold SetNotify ns srv)) = length (sessions srv)" "id_room_map (fold SetNotify ns srv) = id_room_map srv"
  "destroyed_rooms (fold SetNotify ns srv) = destroyed_rooms srv" "open_sessions (fold SetNotify ns srv) = open_sessions srv"
  "layer_requests (fold SetNotify ns srv) = layer_requests srv"
  "distinct (open_sessions srv) \<Longrightarrow> j < length (sessions srv) \<Longrightarrow> sessions (fold SetNotify ns srv) ! j
     = (if j \<in> set (open_sessions srv) then fold receive ns (sessions srv ! j) else sessions srv ! j)"
  by (induction ns arbitrary: srv) (auto simp: SetNotify_nth)

lemma put_room_simps [simp]:
  "length (sessions (put_room rid w srv)) = length (sessions srv)"
  "id_room_map (put_room rid w srv) = AList.update rid (w\<lparr>notified := []\<rparr>) (id_room_map srv)"
  "destroyed_rooms (put_room rid w srv) = destroyed_rooms srv" "open_sessions (put_room rid w srv) = open_sessions srv"
  "layer_requests (put_room rid w srv) = layer_requests srv"
  "GetRoomById r (put_room rid w srv) = (if r = rid then Some (w\<lparr>notified := []\<rparr>) else GetRoomById r srv)"
  by (simp_all add: put_room_def fold_SetNotify GetRoomById_def update_conv')

lemma put_room_nth: "distinct (open_sessions srv) \<Longrightarrow> j < length (sessions srv) \<Longrightarrow> sessions (put_room rid w srv) ! j
     = (if j \<in> set (open_sessions srv) then fold receive (notified w) (sessions srv ! j) else sessions srv ! j)"
  by (simp add: put_room_def fold_SetNotify)

text \<open>What a session is, apart from what it writes, a notification does not change.\<close>

lemma SendNotification_fields [simp]:
  "se_room_id (SendNotification n s) = se_room_id s" "se_participant_id (SendNotification n s) = se_participant_id s"
  "se_room_info_when_joining (SendNotification n s) = se_room_info_when_joining s"
  by (simp_all add: SendNotification_def)

lemma receive_fields [simp]:
  "se_room_id (receive n s) = se_room_id s" "se_participant_id (receive n s) = se_participant_id s"
  "se_room_info_when_joining (receive n s) = se_room_info_when_joining s"
  by (simp_all add: receive_def)

lemma fold_receive_fields [simp]:
  "se_room_id (fold receive ns s) = se_room_id s" "se_participant_id (fold receive ns s) = se_participant_id s"
  "se_room_info_when_joining (fold receive ns s) = se_room_info_when_joining s"
  by (induction ns arbitrary: s) simp_all

definition heard :: "Session \<Rightarrow> Notification list \<Rightarrow> json list" where
  "heard s ns = map notify_context (filter (\<lambda>n. addressed n s \<and> \<not> HijackNotification n s) ns)"

lemma Hijack_cong: "se_room_info_when_joining s = se_room_info_when_joining t \<Longrightarrow> HijackNotification n s = HijackNotification n t"
  unfolding HijackNotification_def by (erule arg_cong)

lemma outgoing_fold_receive: "outgoing (fold receive ns s) = outgoing s @ heard s ns"
proof (induction ns arbitrary: s)
  case (Cons n ns)
  have "heard (receive n s) ns = heard s ns"
    unfolding heard_def by (intro arg_cong [where f = "map notify_context"] filter_cong refl) (simp add: addressed_def Hijack_cong [of "receive n s" s])
  then show ?case using Cons.IH [of "receive n s"] by (simp add: receive_def outgoing_SendNotification heard_def)
qed (simp add: heard_def)

end
