(* ===== verification/Signaling.thy ===== *)
theory Signaling
  imports Room_Manager
begin

text \<open>
  The requests of participants, \<^verbatim>\<open>src/src/signaling/signaling_handler.cpp\<close>, and the server they act on.

  A request is the JSON value that the library read from the text, or its exception. An exception inside the
  handler is caught: the response then has what had been put into it, and the text of the exception (\<open>reason\<close>).
  \<open>None\<close> is a request that does not return: the process aborts or its behaviour is undefined, the loop that draws
  stream identifiers goes on (see \<open>draw_id\<close>), or an exception leaves the handler. The last happens where the response
  is written out, after the handler has caught its exceptions: \<open>dumps\<close> says which values the library can write. Nothing
  between there and \<open>main\<close> catches it, so it ends the process. What the new stream of a publish or subscribe request makes of its offer is a \<open>negotiation\<close>: the
  operations of \<open>Publish_Stream\<close>, \<open>Subscribe_Stream\<close> and of the DTLS transport give it.
\<close>

section \<open>The code\<close>

record negotiation =
  ng_offer :: "bool outcome"
  ng_start :: "bool outcome"
  ng_sdp_video :: bool
  ng_sdp_audio :: bool
  ng_answer :: "string option outcome"
  ng_local :: "unit outcome"
  ng_video :: bool
  ng_audio :: bool

text \<open>The result of an action: an error code, or \<open>None\<close> for an exception, the response so far and the server.\<close>

type_synonym response = "(string \<times> json) list"
type_synonym handled = "(YlError option \<times> response \<times> server) option"

definition attempt :: "'a outcome \<Rightarrow> response \<Rightarrow> server \<Rightarrow> ('a \<Rightarrow> handled) \<Rightarrow> handled" where
  "attempt x res srv f = (case x of Returns v \<Rightarrow> f v | Fails \<Rightarrow> Some (None, res, srv) | OutOfBounds \<Rightarrow> None)"

definition in_room :: "string \<Rightarrow> response \<Rightarrow> server \<Rightarrow> (room_world \<Rightarrow> handled) \<Rightarrow> handled" where
  "in_room rid res srv f = (case GetRoomById rid srv of None \<Rightarrow> Some (Some kNoRoomWithCorrespondingID, res, srv) | Some w \<Rightarrow> f w)"

text \<open>The answer and the local description of a new stream; an empty optional that is dereferenced there is undefined
  behaviour.\<close>

definition describe :: "negotiation \<Rightarrow> YlError \<Rightarrow> response \<Rightarrow> server \<Rightarrow> server \<Rightarrow> handled" where
  "describe n failed res srv described =
     attempt (ng_answer n) res srv (\<lambda>answer.
       case answer of
         None \<Rightarrow> Some (Some failed, res, srv)
       | Some a \<Rightarrow>
           let res = json_put ''answer'' (JString a) res
           in case ng_local n of
                Returns _ \<Rightarrow> Some (Some kOk, res, described)
              | Fails \<Rightarrow> Some (None, res, described)
              | OutOfBounds \<Rightarrow> None)"

definition subscribe_action :: "string list \<Rightarrow> (string \<Rightarrow> negotiation) \<Rightarrow> json \<Rightarrow> nat \<Rightarrow> response \<Rightarrow> server \<Rightarrow> handled" where
  "subscribe_action draws negotiate req i res srv =
     attempt (json_get_string ''streamId'' req) res srv (\<lambda>sid.
     attempt (json_get_string ''offer'' req) res srv (\<lambda>offer.
     attempt (json_get_string ''participantId'' req) res srv (\<lambda>pid.
     let rid = se_room_id (sessions srv ! i); n = negotiate offer
     in in_room rid res srv (\<lambda>w.
       Option.bind (ParticipantSubscribe draws (ng_offer n) (ng_start n) (se_participant_id (sessions srv ! i)) pid sid w) (\<lambda>(r, w).
       let srv = put_room rid w srv
       in attempt r res srv (\<lambda>s.
            case s of
              None \<Rightarrow> Some (Some kSubscriptionFailed, res, srv)
            | Some s \<Rightarrow> describe n kSubscriptionFailed (json_put ''streamId'' (JString (stream_id w s)) res) srv srv))))))"

definition publish_action :: "string list \<Rightarrow> (string \<Rightarrow> negotiation) \<Rightarrow> json \<Rightarrow> nat \<Rightarrow> response \<Rightarrow> server \<Rightarrow> handled" where
  "publish_action draws negotiate req i res srv =
     (let rid = se_room_id (sessions srv ! i)
      in in_room rid res srv (\<lambda>w.
        attempt (json_get_string ''offer'' req) res srv (\<lambda>offer.
        let n = negotiate offer
        in Option.bind (ParticipantPublish draws (ng_offer n) (ng_start n) (ng_sdp_video n) (ng_sdp_audio n)
              (se_participant_id (sessions srv ! i)) w) (\<lambda>(r, w).
           let srv = put_room rid w srv
           in attempt r res srv (\<lambda>p.
                case p of
                  None \<Rightarrow> Some (Some kPublishFailed, res, srv)
                | Some p \<Rightarrow> describe n kPublishFailed (json_put ''streamId'' (JString (stream_id w p)) res) srv
                    (put_room rid (SetLocalMedia (ng_video n) (ng_audio n) p (w\<lparr>notified := []\<rparr>)) srv))))))"

text \<open>The result of \<open>Room::Join\<close> goes to a variable of its own that hides the one of the request, so the request
  succeeds in any case that the room exists.\<close>

definition join_action :: "json \<Rightarrow> nat \<Rightarrow> response \<Rightarrow> server \<Rightarrow> handled" where
  "join_action req i res srv =
     attempt (json_get_string ''roomId'' req) res srv (\<lambda>rid.
     attempt (json_get_string ''participantId'' req) res srv (\<lambda>pid.
     in_room rid res srv (\<lambda>w.
       let (e, w) = Join pid w; srv = put_room rid w srv
       in if e = kOk \<or> e = kParticipantAlreadyJoined then
            Some (Some kOk, json_put ''roomInfo'' (GetRoomInfo w) res,
              on_session (\<lambda>s. s\<lparr>se_room_info_when_joining := GetRoomInfo w, se_room_id := rid, se_participant_id := pid\<rparr>) i srv)
          else Some (Some kOk, res, srv))))"

definition published :: "nat \<Rightarrow> room_world \<Rightarrow> bool" where
  "published p w \<longleftrightarrow> p \<in> set (concat (map snd (participant_publishs_map (room w))))"

definition mute_action :: "json \<Rightarrow> nat \<Rightarrow> response \<Rightarrow> server \<Rightarrow> handled" where
  "mute_action req i res srv =
     attempt (json_get_string ''streamId'' req) res srv (\<lambda>sid.
     attempt (bind_outcome (json_get ''muted'' req) json_bool) res srv (\<lambda>muted.
     attempt (json_get_string ''type'' req) res srv (\<lambda>type.
     let rid = se_room_id (sessions srv ! i)
     in in_room rid res srv (\<lambda>w.
       case GetStreamById sid w of
         None \<Rightarrow> Some (Some kNoStreamWithCorrespondingIdFound, res, srv)
       | Some p \<Rightarrow>
           if \<not> published p w then Some (Some kNoStreamWithCorrespondingIdFound, res, srv)
           else Option.bind (UpdateMuteInfo type muted p w) (\<lambda>w.
             Some (Some kOk, res, SetNotify (MakePublishMuteOrUnmuteNotification rid muted type sid) (put_room rid w srv)))))))"

definition layer_action :: "json \<Rightarrow> nat \<Rightarrow> response \<Rightarrow> server \<Rightarrow> handled" where
  "layer_action req i res srv =
     attempt (json_get_string ''subscribeStreamId'' req) res srv (\<lambda>sid.
     attempt (json_get_string ''simulcastLayer'' req) res srv (\<lambda>layer.
     let rid = se_room_id (sessions srv ! i)
     in in_room rid res srv (\<lambda>w.
       case GetStreamById sid w of
         None \<Rightarrow> Some (Some kNoStreamWithCorrespondingIdFound, res, srv)
       | Some s \<Rightarrow>
           if published s w then Some (Some kNoStreamWithCorrespondingIdFound, res, srv)
           else attempt (stoi layer) res srv (\<lambda>l.
             Some (Some kOk, res, srv\<lparr>layer_requests := layer_requests srv @ [(rid, s, of_int l)]\<rparr>)))))"

definition run_action :: "int \<Rightarrow> string list \<Rightarrow> (string \<Rightarrow> negotiation) \<Rightarrow> string \<Rightarrow> json \<Rightarrow> nat \<Rightarrow> response \<Rightarrow> server \<Rightarrow> handled" where
  "run_action now draws negotiate action req i res srv =
     (if action = ''subscribe'' then subscribe_action draws negotiate req i res srv
      else if action = ''publish'' then publish_action draws negotiate req i res srv
      else if action = ''join'' then join_action req i res srv
      else if action = ''publish_muteOrUnmute'' then mute_action req i res srv
      else if action = ''keepAlive'' then Some (Some kOk, res, on_session (\<lambda>s. s\<lparr>se_last_receive_keep_alive := Some now\<rparr>) i srv)
      else if action = ''ChangeSimulcastLayer'' then layer_action req i res srv
      else Some (Some kUnsupportedActions, res, srv))"

definition handle_request :: "int \<Rightarrow> string list \<Rightarrow> (string \<Rightarrow> negotiation) \<Rightarrow> json outcome \<Rightarrow> nat \<Rightarrow> server \<Rightarrow> handled" where
  "handle_request now draws negotiate parsed i srv =
     attempt parsed [] srv (\<lambda>req.
     attempt (json_get_string ''action'' req) [] srv (\<lambda>action.
     run_action now draws negotiate action req i
       (case json_at ''transactionId'' req of None \<Rightarrow> [] | Some t \<Rightarrow> json_put ''transactionId'' t []) srv))"

definition respond :: "string \<Rightarrow> YlError option \<Rightarrow> response \<Rightarrow> json" where
  "respond reason e res = JObject (case e of
       Some e \<Rightarrow> json_put ''detail'' (JString (YlErrorToString e)) (json_put ''error'' (JBool (e \<noteq> kOk)) res)
     | None \<Rightarrow> json_put ''detail'' (JString (''Bad request. Reason: '' @ reason @ ''.'')) (json_put ''error'' (JBool True) res))"

definition HandleSignaling :: "(json \<Rightarrow> bool) \<Rightarrow> int \<Rightarrow> string \<Rightarrow> string list \<Rightarrow> (string \<Rightarrow> negotiation) \<Rightarrow> json outcome \<Rightarrow> nat \<Rightarrow> server
    \<Rightarrow> (json \<times> server) option" where
  "HandleSignaling dumps now reason draws negotiate parsed i srv =
     Option.bind (handle_request now draws negotiate parsed i srv) (\<lambda>(e, res, srv).
       if dumps (respond reason e res) then Some (respond reason e res, srv) else None)"

text \<open>A message of the web socket and its response, and the events of a session.\<close>

definition WsOnRead :: "(json \<Rightarrow> bool) \<Rightarrow> int \<Rightarrow> string \<Rightarrow> string list \<Rightarrow> (string \<Rightarrow> negotiation) \<Rightarrow> json outcome \<Rightarrow> nat \<Rightarrow> server \<Rightarrow> server option" where
  "WsOnRead dumps now reason draws negotiate parsed i srv =
     Option.bind (HandleSignaling dumps now reason draws negotiate parsed i srv) (\<lambda>(t, srv). Some (on_session (SendText t) i srv))"

inductive server_step :: "server \<Rightarrow> server \<Rightarrow> bool" where
  accepted: "server_step srv (SetJoin srv)"
| message: "i < length (sessions srv) \<Longrightarrow> WsOnRead dumps now reason draws negotiate parsed i srv = Some srv' \<Longrightarrow> server_step srv srv'"
| wrote: "i < length (sessions srv) \<Longrightarrow> se_write_buffers (sessions srv ! i) \<noteq> [] \<Longrightarrow> server_step srv (on_session OnWrite i srv)"
| timer: "i < length (sessions srv) \<Longrightarrow> server_step srv (on_session (OnTimerTimeout now) i srv)"
| ws_error: "i < length (sessions srv) \<Longrightarrow> server_step srv (HandleWsError i srv)"
| gone: "server_step srv (SetLeave i srv)"
| manage: "server_step srv (snd (HandleRequest parse m target body srv))"
| clear: "server_step srv (ClearRooms srv)"
| close: "server_step srv (SetClear srv)"
| task: "GetRoomById rid srv = Some w \<Longrightarrow> task_step w w' \<Longrightarrow> server_step srv (put_room rid w' srv)"
| connected: "GetRoomById rid srv = Some w \<Longrightarrow> p < length (streams w) \<Longrightarrow> server_step srv (put_room rid (OnDtlsTransportSetup srtp_ok p w) srv)"
| established: "GetRoomById rid srv = Some w \<Longrightarrow> p < length (streams w) \<Longrightarrow> st_announcing (streams w ! p) \<Longrightarrow>
    server_step srv (put_room rid (SetEstablished p w) srv)"
| failure: "GetRoomById rid srv = Some w \<Longrightarrow> p < length (streams w) \<Longrightarrow> server_step srv (put_room rid (Shutdown p w) srv)"
| late: "k < length (destroyed_rooms srv) \<Longrightarrow> task_step (destroyed_rooms srv ! k) w \<Longrightarrow>
    server_step srv (fold SetNotify (notified w) (srv\<lparr>destroyed_rooms := (destroyed_rooms srv)[k := w\<lparr>notified := []\<rparr>]\<rparr>))"

section \<open>The rooms of a server\<close>

lemma erase_stream_room_id:
  "(\<And>pid p w. room_id (room (act pid p w)) = room_id (room w)) \<Longrightarrow> erase_stream act sid m w = (m', w') \<Longrightarrow> room_id (room w') = room_id (room w)"
  by (induction m arbitrary: w m' w') (auto simp: Let_def split: prod.splits option.splits if_splits)

lemma close_subscribers_room_id: "room_id (room (close_subscribers p w)) = room_id (room w)"
proof -
  have "room (fold (\<lambda>s w. post StopTask s (post (UnregisterTask s) p w)) ss v) = room v" for ss v
    by (induction ss arbitrary: v) (simp_all add: post_def on_stream_def)
  then show ?thesis by (simp add: close_subscribers_def split: option.split)
qed

lemma gone_room_id:
  "room_id (room (publish_gone pid p w)) = room_id (room w)" "room_id (room (subscription_gone sid pid s w)) = room_id (room w)"
  by (simp_all add: publish_gone_def close_subscribers_room_id subscription_gone_def split_beta detach_room [of sid "publish_subscribes_map (room w)" w, OF prod.collapse [symmetric]] Let_def)

lemma run_main_room_id: "room_id (room (run_main w)) = room_id (room w)"
proof -
  have "room_id (room (OnWebrtcStreamShutdown sid v)) = room_id (room v)" for sid v
  proof -
    obtain m u where a: "erase_stream publish_gone sid (participant_publishs_map (room v)) v = (m, u)" by fastforce
    define u1 where "u1 = on_room (\<lambda>r. r\<lparr>participant_publishs_map := m\<rparr>) u"
    obtain m2 u2 where b: "erase_stream (subscription_gone sid) sid (participant_subscribes_map (room u1)) u1 = (m2, u2)" by fastforce
    have "room_id (room u2) = room_id (room u1)" "room_id (room u) = room_id (room v)"
      using erase_stream_room_id [OF gone_room_id(2) b] erase_stream_room_id [OF gone_room_id(1) a] by auto
    then show ?thesis using a b by (simp add: OnWebrtcStreamShutdown_def Let_def u1_def)
  qed
  then show ?thesis by (cases "main_tasks w")
    (auto simp: run_main_def OnWebrtcStreamConnected_def notify_added_same split: main_task.split)
qed

lemma task_step_room_id: "task_step w w' \<Longrightarrow> room_id (room w') = room_id (room w)"
  by (induction rule: task_step.induct)
    (simp_all add: run_main_room_id run_worker_def run_worker_task_def Shutdown_def split: list.split worker_task.split)

lemma fold_post_room: "room (fold (post t) ps w) = room w"
  by (induction ps arbitrary: w) (simp_all add: post_def on_stream_def)

lemma operation_room_id:
  "room_id (room (snd (Join pid w))) = room_id (room w)" "room_id (room (Leave pid w)) = room_id (room w)"
  "room_id (room (Destroy w)) = room_id (room w)" "room_id (room (OnDtlsTransportSetup b p w)) = room_id (room w)"
  "room_id (room (Shutdown p w)) = room_id (room w)" "room_id (room (SetLocalMedia v a p w)) = room_id (room w)"
  "room_id (room (SetEstablished p w)) = room_id (room w)"
  by (simp_all add: SetEstablished_def Join_def Leave_def Destroy_def Let_def fold_post_room OnDtlsTransportSetup_def Shutdown_def SetLocalMedia_def)

lemma partial_room_id:
  "ParticipantPublish draws o_ok s_ok v a pid w = Some (r, w') \<Longrightarrow> room_id (room w') = room_id (room w)"
  "ParticipantSubscribe draws offer s_ok src dst sid w = Some (q, w') \<Longrightarrow> room_id (room w') = room_id (room w)"
  "UpdateMuteInfo type muted p w = Some w' \<Longrightarrow> room_id (room w') = room_id (room w)"
  by (auto simp: ParticipantPublish_def ParticipantSubscribe_def UpdateMuteInfo_def make_stream_def bind_eq_Some_conv Let_def post_def
      split: if_splits option.splits dest!: set_up_Some)

lemma room_step_room_id: "room_step w w' \<Longrightarrow> room_id (room w') = room_id (room w)"
  by (induction rule: room_step.induct) (simp_all add: task_step_room_id operation_room_id partial_room_id)

definition world_ok :: "string \<Rightarrow> room_world \<Rightarrow> bool" where
  "world_ok rid w \<longleftrightarrow> room_ok w \<and> room_id (room w) = rid \<and> notified w = []"

definition server_ok :: "server \<Rightarrow> bool" where
  "server_ok srv \<longleftrightarrow> distinct (map fst (id_room_map srv)) \<and> (\<forall>rid w. GetRoomById rid srv = Some w \<longrightarrow> world_ok rid w)
     \<and> distinct (open_sessions srv) \<and> set (open_sessions srv) \<subseteq> {..<length (sessions srv)}
     \<and> (\<forall>w \<in> set (destroyed_rooms srv). room_ok w \<and> notified w = [])"

lemma server_okD:
  assumes "server_ok srv"
  shows "distinct (map fst (id_room_map srv))" "GetRoomById rid srv = Some w \<Longrightarrow> world_ok rid w" "distinct (open_sessions srv)"
    "set (open_sessions srv) \<subseteq> {..<length (sessions srv)}" "w \<in> set (destroyed_rooms srv) \<Longrightarrow> room_ok w"
    "w \<in> set (destroyed_rooms srv) \<Longrightarrow> notified w = []"
  using assms by (auto simp: server_ok_def)

lemma room_ok_notified [simp]: "room_ok (w\<lparr>notified := ns\<rparr>) = room_ok w"
  by (simp add: room_ok_def room_ok_except_def maps_ok_def ids_ok_def observers_ok_def stops_ok_def orphans_ok_def gone_ok_def
    registered_def doomed_def stream_id_def inj_on_def)

lemma put_room_ok: "server_ok srv \<Longrightarrow> GetRoomById rid srv = Some w \<Longrightarrow> room_step w w' \<Longrightarrow> server_ok (put_room rid w' srv)"
  using room_step_ok [of w w'] room_step_room_id [of w w'] server_okD(2) [of srv rid w]
  by (auto simp: server_ok_def world_ok_def distinct_update)

lemma on_session_ok: "server_ok srv \<Longrightarrow> server_ok (on_session f i srv)"
  by (simp add: server_ok_def)

lemma SetNotify_ok: "server_ok srv \<Longrightarrow> server_ok (SetNotify n srv)"
  by (simp add: server_ok_def GetRoomById_def)

lemma fold_SetNotify_ok: "server_ok srv \<Longrightarrow> server_ok (fold SetNotify ns srv)"
  by (induction ns arbitrary: srv) (simp_all add: SetNotify_ok)

lemma layer_requests_ok: "server_ok srv \<Longrightarrow> server_ok (srv\<lparr>layer_requests := l\<rparr>)"
  by (simp add: server_ok_def GetRoomById_def)

subsection \<open>Requests keep them\<close>

definition keeps :: "server \<Rightarrow> handled \<Rightarrow> bool" where
  "keeps srv h \<longleftrightarrow> (\<forall>e res srv'. h = Some (e, res, srv') \<longrightarrow> server_ok srv' \<and> length (sessions srv') = length (sessions srv))"

lemma keeps_Some [simp]: "keeps srv (Some (e, res, srv')) \<longleftrightarrow> server_ok srv' \<and> length (sessions srv') = length (sessions srv)"
  by (simp add: keeps_def)

lemma keeps_None [simp]: "keeps srv None"
  by (simp add: keeps_def)

lemma keeps_attempt:
  "server_ok s \<Longrightarrow> length (sessions s) = length (sessions srv) \<Longrightarrow> (\<And>v. x = Returns v \<Longrightarrow> keeps srv (f v)) \<Longrightarrow> keeps srv (attempt x res s f)"
  by (cases x) (simp_all add: attempt_def)

lemma keeps_in_room: "server_ok srv \<Longrightarrow> (\<And>w. GetRoomById rid srv = Some w \<Longrightarrow> keeps srv (f w)) \<Longrightarrow> keeps srv (in_room rid res srv f)"
  by (simp add: in_room_def split: option.split)

lemma keeps_bind: "(\<And>v. x = Some v \<Longrightarrow> keeps srv (f v)) \<Longrightarrow> keeps srv (Option.bind x f)"
  by (cases x) simp_all

lemma keeps_describe:
  "server_ok s \<Longrightarrow> server_ok t \<Longrightarrow> length (sessions s) = length (sessions srv) \<Longrightarrow> length (sessions t) = length (sessions srv) \<Longrightarrow>
   keeps srv (describe n failed res s t)"
  unfolding describe_def by (rule keeps_attempt) (auto simp: Let_def split: option.split outcome.split)

lemma subscribe_keeps: "server_ok srv \<Longrightarrow> keeps srv (subscribe_action draws negotiate req i res srv)"
  unfolding subscribe_action_def Let_def
  by (intro keeps_attempt keeps_in_room keeps_bind refl)
    (auto simp: Let_def split: option.split intro!: keeps_attempt keeps_describe put_room_ok room_step.subscribe)

lemma published_less: "room_ok w \<Longrightarrow> ParticipantPublish draws o_ok s_ok v a pid w = Some (Returns (Some p), w') \<Longrightarrow> p < length (streams w')"
  by (auto simp: ParticipantPublish_def make_stream_def bind_eq_Some_conv split: if_splits dest!: set_up_Some)

lemma publish_keeps: "server_ok srv \<Longrightarrow> keeps srv (publish_action draws negotiate req i res srv)"
  unfolding publish_action_def Let_def
proof (intro keeps_attempt keeps_in_room keeps_bind refl, goal_cases)
  case (3 w offer v)
  let ?n = "negotiate offer" and ?rid = "se_room_id (sessions srv ! i)"
  obtain r w' where v: "v = (r, w')" by (cases v)
  note pub = 3(4) [unfolded v]
  have ok: "server_ok (put_room ?rid w' srv)" using 3(1,2) room_step.publish [OF pub] by (rule put_room_ok)
  show ?case
  proof (cases "\<exists>q. r = Returns (Some q)")
    case True
    then obtain q where q: "r = Returns (Some q)" ..
    have "room_ok w" using server_okD(2) [OF 3(1,2)] by (simp add: world_ok_def)
    then have "room_step (w'\<lparr>notified := []\<rparr>) (SetLocalMedia (ng_video ?n) (ng_audio ?n) q (w'\<lparr>notified := []\<rparr>))"
      using published_less [OF _ pub [unfolded q]] by (intro room_step.media) simp
    then have "server_ok (put_room ?rid (SetLocalMedia (ng_video ?n) (ng_audio ?n) q (w'\<lparr>notified := []\<rparr>)) (put_room ?rid w' srv))"
      by (intro put_room_ok [OF ok]) simp_all
    then show ?thesis using ok by (simp add: v q attempt_def keeps_describe)
  qed (use ok v in \<open>auto simp: attempt_def split: outcome.split option.split\<close>)
qed auto

lemma join_keeps: "server_ok srv \<Longrightarrow> keeps srv (join_action req i res srv)"
  unfolding join_action_def
proof (intro keeps_attempt keeps_in_room refl, goal_cases)
  case (4 rid pid w)
  have "server_ok (put_room rid (snd (Join pid w)) srv)" using 4(1,4) room_step.join by (rule put_room_ok)
  then show ?case by (simp add: split_beta Let_def on_session_ok)
qed auto

lemma find_mem: "find P xs = Some x \<Longrightarrow> x \<in> set xs"
  by (auto simp: find_Some_iff)

lemma GetStreamById_less: "room_ok w \<Longrightarrow> GetStreamById sid w = Some p \<Longrightarrow> p < length (streams w)"
proof -
  assume ok: "room_ok w" and p: "GetStreamById sid w = Some p"
  note c = room_okD [OF ok [unfolded room_ok_def]]
  have "p \<in> set (concat (map snd (pubs w))) \<union> set (concat (map snd (subs w)))"
    using p find_mem unfolding GetStreamById_def find_stream_def by (fastforce split: option.splits)
  then have "p \<in> registered w" using c(1) by (auto simp: registered_def held_entry maps_ok_def owned_def)
  then show ?thesis using registered_less [OF c(2)] by blast
qed

lemma mute_keeps: "server_ok srv \<Longrightarrow> keeps srv (mute_action req i res srv)"
  unfolding mute_action_def Let_def
proof (intro keeps_attempt keeps_in_room refl, goal_cases)
  case (5 sid muted type w)
  have "room_ok w" using server_okD(2) [OF 5(1,5)] by (simp add: world_ok_def)
  then show ?case using 5(1,5)
    by (auto split: option.split intro!: keeps_bind SetNotify_ok put_room_ok room_step.mute intro: GetStreamById_less)
qed auto

lemma layer_keeps: "server_ok srv \<Longrightarrow> keeps srv (layer_action req i res srv)"
  unfolding layer_action_def Let_def
  by (intro keeps_attempt keeps_in_room refl) (auto split: option.split intro!: keeps_attempt layer_requests_ok)

lemma run_action_keeps: "server_ok srv \<Longrightarrow> keeps srv (run_action now draws negotiate action req i res srv)"
  by (simp add: run_action_def subscribe_keeps publish_keeps join_keeps mute_keeps layer_keeps on_session_ok)

lemma handle_request_keeps: "server_ok srv \<Longrightarrow> keeps srv (handle_request now draws negotiate parsed i srv)"
  unfolding handle_request_def by (intro keeps_attempt run_action_keeps refl)

subsection \<open>Every step keeps them\<close>

lemma WsOnRead_keeps:
  assumes "server_ok srv" "WsOnRead dumps now reason draws negotiate parsed i srv = Some srv'"
  shows "server_ok srv'" "length (sessions srv') = length (sessions srv)"
  using assms(2) handle_request_keeps [OF assms(1), of now draws negotiate parsed i]
  by (auto simp: WsOnRead_def HandleSignaling_def bind_eq_Some_conv on_session_ok split: if_splits)

lemma HandleWsError_ok: "server_ok srv \<Longrightarrow> server_ok (HandleWsError i srv)"
  by (auto simp: HandleWsError_def Let_def split: option.split intro: put_room_ok room_step.leave)

lemma GetRoomById_update [simp]:
  "GetRoomById r (srv\<lparr>id_room_map := AList.update rid w (id_room_map srv)\<rparr>) = (if r = rid then Some w else GetRoomById r srv)"
  "GetRoomById r (srv\<lparr>id_room_map := AList.delete rid (id_room_map srv), destroyed_rooms := ds\<rparr>) = (if r = rid then None else GetRoomById r srv)"
  by (simp_all add: GetRoomById_def update_conv' delete_conv')

lemma CreateRoom_ok: "server_ok srv \<Longrightarrow> server_ok (snd (CreateRoom rid srv))"
  by (auto simp: CreateRoom_def server_ok_def distinct_update world_ok_def empty_world_ok split: if_splits)
    (simp_all add: empty_world_def new_room_def)

lemma Destroy_still_ok: "world_ok rid w \<Longrightarrow> room_ok (Destroy w) \<and> notified (Destroy w) = []"
proof -
  have "notified (fold (post t) ps v) = notified v" for t ps v by (induction ps arbitrary: v) (simp_all add: post_def on_stream_def)
  then show "world_ok rid w \<Longrightarrow> ?thesis" using room_step_ok [OF room_step.destroy] by (simp add: world_ok_def) (simp add: Destroy_def Let_def)
qed

lemma DestroyRoom_ok: "server_ok srv \<Longrightarrow> server_ok (DestroyRoom rid srv)"
  using Destroy_still_ok [of rid]
  by (auto simp: DestroyRoom_def server_ok_def distinct_delete split: option.split if_splits)

lemma ClearRooms_ok:
  assumes "server_ok srv"
  shows "server_ok (ClearRooms srv)"
proof -
  have "room_ok (Destroy w) \<and> notified (Destroy w) = []" if "(rid, w) \<in> set (id_room_map srv)" for rid w
    using that server_okD(1,2) [OF assms] by (intro Destroy_still_ok [of rid]) (simp add: GetRoomById_def)
  then show ?thesis using assms by (auto simp: ClearRooms_def server_ok_def GetRoomById_def)
qed

lemma kickout_ok: "server_ok srv \<Longrightarrow> server_ok (snd (kickout_request target srv))"
  unfolding kickout_request_def KickoutParticipant_def by (auto split: list.split option.split intro!: put_room_ok room_step.leave)

lemma create_request_ok: "server_ok srv \<Longrightarrow> server_ok (snd (create_request parse body srv))"
  using CreateRoom_ok [of srv] unfolding create_request_def
  by (cases "bind_outcome (parse body) (json_get_string ''id'')") (force simp: CreateRoom_def split: if_splits)+

lemma HandleRequest_ok: "server_ok srv \<Longrightarrow> server_ok (snd (HandleRequest parse m target body srv))"
  using create_request_ok [of srv parse body] DestroyRoom_ok [of srv "last_component target"] kickout_ok [of srv target]
  by (cases m) (simp_all add: HandleRequest_def delete_request_def)

lemma late_ok:
  assumes ok: "server_ok srv" and k: "k < length (destroyed_rooms srv)" "task_step (destroyed_rooms srv ! k) w"
  shows "server_ok (fold SetNotify (notified w) (srv\<lparr>destroyed_rooms := (destroyed_rooms srv)[k := w\<lparr>notified := []\<rparr>]\<rparr>))"
proof (rule fold_SetNotify_ok)
  have "room_ok w" using task_step_ok [OF k(2)] server_okD(5) [OF ok] k(1) by simp
  then have "x \<in> set ((destroyed_rooms srv)[k := w\<lparr>notified := []\<rparr>]) \<Longrightarrow> room_ok x \<and> notified x = []" for x
    using server_okD(5,6) [OF ok] set_update_subset_insert [of "destroyed_rooms srv" k "w\<lparr>notified := []\<rparr>"] by auto
  then show "server_ok (srv\<lparr>destroyed_rooms := (destroyed_rooms srv)[k := w\<lparr>notified := []\<rparr>]\<rparr>)"
    using ok by (simp add: server_ok_def GetRoomById_def)
qed

lemma SetClear_ok:
  assumes "server_ok srv"
  shows "server_ok (SetClear srv)"
proof -
  have f: "server_ok (fold (on_session f) is srv)" if "server_ok srv" for f "is" srv
    using that by (induction "is" arbitrary: srv) (simp_all add: on_session_ok)
  have n: "server_ok (srv\<lparr>open_sessions := []\<rparr>)" if "server_ok srv" for srv
    using that by (simp add: server_ok_def GetRoomById_def)
  show ?thesis unfolding SetClear_def by (intro n f assms)
qed

lemma server_step_ok: "server_step srv srv' \<Longrightarrow> server_ok srv \<Longrightarrow> server_ok srv'"
proof (induction rule: server_step.induct)
  case (accepted srv)
  then show ?case by (auto simp: SetJoin_def server_ok_def GetRoomById_def)
next
  case (gone srv i)
  then show ?case by (auto simp: SetLeave_def server_ok_def GetRoomById_def dest: notin_set_remove1 set_remove1_subset [THEN subsetD])
qed (auto intro: WsOnRead_keeps(1) on_session_ok HandleWsError_ok HandleRequest_ok ClearRooms_ok SetClear_ok late_ok
    put_room_ok room_step.task room_step.connected room_step.established room_step.failure)

lemma new_server_ok: "server_ok new_server"
  by (simp add: new_server_def server_ok_def GetRoomById_def)

lemma reachable_server_ok: "server_step\<^sup>*\<^sup>* new_server srv \<Longrightarrow> server_ok srv"
  by (induction rule: rtranclp_induct) (auto intro: new_server_ok server_step_ok)

text \<open>C3. Whatever requests, management calls, network events and tasks a server sees, and in whatever order: a room of it is
  the one its identifier says, and tidy when it has no task left. And whatever then happens in the room, each
  open session gets at once, in order and after what it was sent before, the notifications that this makes and that are
  addressed to it, apart from the announcements it holds back; the room keeps none of them.\<close>

theorem server_rooms_tidy:
  assumes "server_step\<^sup>*\<^sup>* new_server srv" "GetRoomById rid srv = Some w"
  shows "room_id (room w) = rid \<and> (at_rest w \<longrightarrow> tidy w)
    \<and> (\<forall>w' ns. room_step w w' \<and> notified w' = notified w @ ns \<longrightarrow>
         GetRoomById rid (put_room rid w' srv) = Some (w'\<lparr>notified := []\<rparr>)
         \<and> (\<forall>i\<in>set (open_sessions srv). outgoing (sessions (put_room rid w' srv) ! i) = outgoing (sessions srv ! i)
              @ map notify_context (filter (\<lambda>n. addressed n (sessions srv ! i) \<and> \<not> HijackNotification n (sessions srv ! i)) ns)))"
proof -
  note ok = reachable_server_ok [OF assms(1)]
  have w: "room_ok w" "room_id (room w) = rid" "notified w = []"
    using server_okD(2) [OF ok assms(2)] by (simp_all add: world_ok_def)
  have "outgoing (sessions (put_room rid w' srv) ! i) = outgoing (sessions srv ! i) @ heard (sessions srv ! i) (notified w')"
    if "i \<in> set (open_sessions srv)" for w' i
    using that server_okD(4) [OF ok] by (subst put_room_nth [OF server_okD(3) [OF ok]]) (auto simp: outgoing_fold_receive)
  then show ?thesis using w at_rest_tidy by (simp add: heard_def)
qed


section \<open>What a participant gets\<close>

subsection \<open>Every request is answered\<close>

text \<open>A result that can be written out and has the transaction identifier of the request.\<close>

definition answers :: "response \<Rightarrow> handled \<Rightarrow> bool" where
  "answers res h \<longleftrightarrow> (\<exists>e res' srv'. h = Some (e, res', srv') \<and> map_of res' ''transactionId'' = map_of res ''transactionId''
     \<and> json_utf8 (JObject res'))"

lemma answers_Some [simp]:
  "answers res (Some (e, res', srv')) \<longleftrightarrow> map_of res' ''transactionId'' = map_of res ''transactionId'' \<and> json_utf8 (JObject res')"
  by (simp add: answers_def)

lemma answers_attempt:
  "map_of res' ''transactionId'' = map_of res ''transactionId'' \<Longrightarrow> json_utf8 (JObject res') \<Longrightarrow> x \<noteq> OutOfBounds \<Longrightarrow>
   (\<And>v. x = Returns v \<Longrightarrow> answers res (f v)) \<Longrightarrow> answers res (attempt x res' s f)"
  by (cases x) (simp_all add: attempt_def)

lemma answers_in_room:
  "json_utf8 (JObject res) \<Longrightarrow> (\<And>w. GetRoomById rid srv = Some w \<Longrightarrow> answers res (f w)) \<Longrightarrow> answers res (in_room rid res srv f)"
  by (simp add: in_room_def split: option.split)

text \<open>What is assumed of the negotiation of an offer: it is defined, and writes texts.\<close>

definition sound :: "negotiation \<Rightarrow> bool" where
  "sound n \<longleftrightarrow> ng_offer n \<noteq> OutOfBounds \<and> ng_start n \<noteq> OutOfBounds \<and> ng_answer n \<noteq> OutOfBounds \<and> ng_local n \<noteq> OutOfBounds
     \<and> (\<forall>a. ng_answer n = Returns (Some a) \<longrightarrow> utf8 a)"

lemma answers_describe:
  "map_of res' ''transactionId'' = map_of res ''transactionId'' \<Longrightarrow> json_utf8 (JObject res') \<Longrightarrow> sound n \<Longrightarrow> answers res (describe n failed res' s t)"
  unfolding describe_def
  by (rule answers_attempt) (auto simp: sound_def Let_def split: option.split outcome.split intro: put_json_utf8 [simplified])

definition can_draw :: "string list \<Rightarrow> server \<Rightarrow> bool" where
  "can_draw draws srv \<longleftrightarrow> list_all utf8 draws \<and> (\<forall>(rid, w) \<in> set (id_room_map srv). \<exists>d \<in> set draws. \<not> StreamIdExist d w)"

lemma can_draw_room: "can_draw draws srv \<Longrightarrow> GetRoomById rid srv = Some w \<Longrightarrow> \<exists>d. draw_id draws w = Some d \<and> utf8 d"
proof -
  assume a: "can_draw draws srv" "GetRoomById rid srv = Some w"
  then obtain d where "d \<in> set draws" "\<not> StreamIdExist d w" unfolding can_draw_def GetRoomById_def using map_of_SomeD by fast
  then obtain c where "draw_id draws w = Some c" by (cases "draw_id draws w") (auto simp: draw_id_def find_None_iff)
  moreover from this have "utf8 c" using a(1) by (auto simp: draw_id_def can_draw_def list_all_iff find_Some_iff)
  ultimately show ?thesis by blast
qed

lemma json_get_string_iff: "json_get_string k j = Returns s \<longleftrightarrow> json_at k j = Some (JString s)"
  by (cases "json_at k j") (auto simp: json_get_string_def json_get_def of_option_def elim: json_string.elims)

lemma json_get_defined [simp]: "json_get_string k j \<noteq> OutOfBounds" "bind_outcome (json_get k j) json_bool \<noteq> OutOfBounds" "stoi s \<noteq> OutOfBounds"
proof -
  have "json_string v \<noteq> OutOfBounds" "json_bool v \<noteq> OutOfBounds" for v by (cases v; simp)+
  then show "json_get_string k j \<noteq> OutOfBounds" "bind_outcome (json_get k j) json_bool \<noteq> OutOfBounds"
    by (cases "json_at k j"; simp add: json_get_string_def json_get_def)+
  show "stoi s \<noteq> OutOfBounds" by (simp add: stoi_def parse_number_def Let_def split_beta)
qed

text \<open>The identifier of a new stream is the one that was drawn.\<close>

lemma set_up_defined:
  assumes "offer \<noteq> OutOfBounds" "start \<noteq> OutOfBounds"
  obtains r w where "set_up offer start p v u = Some (r, w)" "r \<noteq> OutOfBounds" "\<And>q. r = Returns (Some q) \<Longrightarrow> w = u \<and> q = p"
proof -
  have "\<exists>r w. set_up offer start p v u = Some (r, w) \<and> r \<noteq> OutOfBounds \<and> (\<forall>q. r = Returns (Some q) \<longrightarrow> w = u \<and> q = p)"
    using assms by (cases offer; cases start) (auto simp: set_up_def split: if_split)
  then show thesis using that by blast
qed

lemma stream_id_post: "stream_id (post t p w) q = stream_id w q"
  by (cases "p < length (streams w)") (auto simp: stream_id_def post_def on_stream_def nth_list_update list_update_beyond)

lemma publish_draws:
  assumes "draw_id draws w = Some d" "offer \<noteq> OutOfBounds" "start \<noteq> OutOfBounds"
  obtains r w' where "ParticipantPublish draws offer start v a pid w = Some (r, w')" "r \<noteq> OutOfBounds"
    "\<And>q. r = Returns (Some q) \<Longrightarrow> stream_id w' q = d"
proof (cases "pid \<in> set (participant_id_set (room w))")
  case True
  let ?n = "length (streams w)"
  define u where "u = snd (make_stream d v a w)"
  define k where "k = on_room (\<lambda>r. r\<lparr>participant_publishs_map := add_member pid ?n (participant_publishs_map r)\<rparr>) u"
  obtain r w' where r: "set_up offer start ?n u k = Some (r, w')" "r \<noteq> OutOfBounds" "\<And>q. r = Returns (Some q) \<Longrightarrow> w' = k \<and> q = ?n"
    using set_up_defined [OF assms(2,3), of ?n u k] by blast
  have "stream_id k ?n = d" by (simp add: k_def u_def make_stream_def stream_id_def on_room_def)
  then show ?thesis using r True assms(1)
    by (intro that [of r w']) (auto simp: ParticipantPublish_def k_def u_def make_stream_def)
qed (use that [of "Returns None" w] in \<open>simp add: ParticipantPublish_def\<close>)

lemma subscribe_draws:
  assumes "draw_id draws w = Some d" "offer \<noteq> OutOfBounds" "start \<noteq> OutOfBounds"
  obtains r w' where "ParticipantSubscribe draws offer start src dst sid w = Some (r, w')" "r \<noteq> OutOfBounds"
    "\<And>q. r = Returns (Some q) \<Longrightarrow> stream_id w' q = d"
proof (cases "src \<in> set (participant_id_set (room w)) \<and> dst \<in> set (participant_id_set (room w))
    \<and> find (\<lambda>p. stream_id w p = sid) (members dst (pubs w)) \<noteq> None")
  case True
  then obtain p ps where p: "map_of (pubs w) dst = Some ps" "find (\<lambda>p. stream_id w p = sid) ps = Some p"
    by (auto simp: members_def split: option.splits)
  let ?n = "length (streams w)"
  define u where "u = snd (make_stream d (st_sdp_video (streams w ! p)) (st_sdp_audio (streams w ! p)) w)"
  define k where "k = on_room (\<lambda>r. r\<lparr>publish_subscribes_map := add_member p ?n (publish_subscribes_map r),
    participant_subscribes_map := add_member src ?n (participant_subscribes_map r)\<rparr>) (post (RegisterTask ?n) p u)"
  obtain r w' where r: "set_up offer start ?n u k = Some (r, w')" "r \<noteq> OutOfBounds" "\<And>q. r = Returns (Some q) \<Longrightarrow> w' = k \<and> q = ?n"
    using set_up_defined [OF assms(2,3), of ?n u k] by blast
  have "stream_id (on_room f x) q = stream_id x q" for f x q by (simp add: stream_id_def on_room_def)
  then have "stream_id k ?n = d" by (simp add: k_def stream_id_post) (simp add: u_def make_stream_def stream_id_def)
  then show ?thesis using r True p assms(1)
    by (intro that [of r w']) (auto simp: ParticipantSubscribe_def k_def u_def make_stream_def)
next
  case False
  then have "ParticipantSubscribe draws offer start src dst sid w = Some (Returns None, w)"
    by (auto simp: ParticipantSubscribe_def members_def split: option.splits)
  then show ?thesis using that [of "Returns None" w] by simp
qed

lemma publish_answers:
  assumes "can_draw draws srv" "\<And>offer. sound (negotiate offer)" "json_utf8 (JObject res)"
  shows "answers res (publish_action draws negotiate req i res srv)"
  unfolding publish_action_def Let_def
proof (intro answers_in_room answers_attempt refl assms(3) json_get_defined, goal_cases)
  case (1 w offer)
  let ?n = "negotiate offer"
  have n: "sound ?n" by (rule assms(2))
  obtain d where d: "draw_id draws w = Some d" "utf8 d" using can_draw_room [OF assms(1) 1(1)] by blast
  obtain r w' where r: "ParticipantPublish draws (ng_offer ?n) (ng_start ?n) (ng_sdp_video ?n) (ng_sdp_audio ?n) (se_participant_id (sessions srv ! i)) w = Some (r, w')"
    "r \<noteq> OutOfBounds" "\<And>q. r = Returns (Some q) \<Longrightarrow> stream_id w' q = d"
    using publish_draws [OF d(1)] n unfolding sound_def by metis
  show ?case using r d(2) n assms(3)
    by (auto simp: put_json_utf8 [simplified] intro!: answers_attempt answers_describe split: option.split)
qed

lemma subscribe_answers:
  assumes "can_draw draws srv" "\<And>offer. sound (negotiate offer)" "json_utf8 (JObject res)"
  shows "answers res (subscribe_action draws negotiate req i res srv)"
  unfolding subscribe_action_def Let_def
proof (intro answers_in_room answers_attempt refl assms(3) json_get_defined, goal_cases)
  case (1 sid offer pid w)
  let ?n = "negotiate offer"
  have n: "sound ?n" by (rule assms(2))
  obtain d where d: "draw_id draws w = Some d" "utf8 d" using can_draw_room [OF assms(1) 1(4)] by blast
  obtain r w' where r: "ParticipantSubscribe draws (ng_offer ?n) (ng_start ?n) (se_participant_id (sessions srv ! i)) pid sid w = Some (r, w')"
    "r \<noteq> OutOfBounds" "\<And>q. r = Returns (Some q) \<Longrightarrow> stream_id w' q = d"
    using subscribe_draws [OF d(1)] n unfolding sound_def by metis
  show ?case using r d(2) n assms(3)
    by (auto simp: put_json_utf8 [simplified] intro!: answers_attempt answers_describe split: option.split)
qed

lemma room_info_Join: "utf8 pid \<Longrightarrow> json_utf8 (GetRoomInfo w) \<Longrightarrow> json_utf8 (GetRoomInfo (snd (Join pid w)))"
  by (simp add: Join_def GetRoomInfo_def stream_info_def [abs_def] stream_id_def)

lemma join_answers:
  assumes "json_utf8 req" "json_utf8 (JObject res)" "\<And>rid w. GetRoomById rid srv = Some w \<Longrightarrow> json_utf8 (GetRoomInfo w)"
  shows "answers res (join_action req i res srv)"
  unfolding join_action_def Let_def
proof (intro answers_in_room answers_attempt refl assms(2) json_get_defined, goal_cases)
  case (1 rid pid w)
  have "utf8 pid" using json_utf8_at [OF assms(1), of _ "JString pid"] 1(2) by (simp add: json_get_string_iff)
  then show ?case using room_info_Join [of pid w] assms(3) [OF 1(3)] assms(2)
    by (simp add: split_beta put_json_utf8 [simplified] del: json_utf8.simps(2))
qed

lemma layer_answers: "json_utf8 (JObject res) \<Longrightarrow> answers res (layer_action req i res srv)"
  unfolding layer_action_def Let_def
  by (intro answers_in_room answers_attempt refl json_get_defined) (auto split: option.split intro!: answers_attempt)

lemma mute_answers:
  assumes "json_utf8 (JObject res)" "\<And>t. json_at ''type'' req = Some (JString t) \<Longrightarrow> t = ''audio'' \<or> t = ''video''"
  shows "answers res (mute_action req i res srv)"
  unfolding mute_action_def Let_def
proof (intro answers_in_room answers_attempt refl assms(1) json_get_defined, goal_cases)
  case (1 sid muted type w)
  then show ?case using assms by (auto simp: UpdateMuteInfo_def json_get_string_iff split: option.split)
qed

lemma put_utf8_iff: "utf8 k \<Longrightarrow> json_utf8 (JObject fs) \<Longrightarrow> json_utf8 (JObject (json_put k v fs)) \<longleftrightarrow> json_utf8 v"
  by (induction k v fs rule: json_put.induct) auto

lemma reason_utf8: "utf8 (''Bad request. Reason: '' @ reason @ ''.'') \<longleftrightarrow> utf8 reason"
  by (simp add: utf8_append)

lemma respond_utf8:
  assumes "json_utf8 (JObject res)"
  shows "json_utf8 (respond reason e res) \<longleftrightarrow> e \<noteq> None \<or> utf8 reason"
proof -
  have "utf8 ''error''" "utf8 ''detail''" by simp_all
  note put = put_utf8_iff [OF this(1) assms] put_utf8_iff [OF this(2)]
  show ?thesis
  proof (cases e)
    case None
    then show ?thesis using reason_utf8 [of reason] by (simp add: respond_def put del: json_utf8.simps(3) append.simps)
  next
    case (Some x)
    have "utf8 (YlErrorToString x)" by (cases x) simp_all
    then show ?thesis by (simp add: respond_def Some put del: json_utf8.simps(3))
  qed
qed

text \<open>C6. Every message a participant sends, well-formed or not, is answered with an error flag and a text, and with the
  transaction identifier of the request; a response without error says Ok. The exception is a text that the library
  cannot read and of which it quotes bytes that are no UTF-8: the response to it cannot be written out, and the
  process ends. Excluded are a mute request whose type is neither audio nor video, an offer whose negotiation is
  undefined behaviour or aborts (\<open>sound\<close>), and draws of random identifiers none of which is new. Of the library it is
  assumed that it writes exactly the values whose strings are UTF-8 and reads no others, so that those of the request,
  of the rooms and of the answers are.\<close>

theorem request_answered:
  assumes library: "\<And>j. dumps j \<longleftrightarrow> json_utf8 j" "parsed \<noteq> OutOfBounds" "\<And>req. parsed = Returns req \<Longrightarrow> json_utf8 req \<and> utf8 reason"
    and rooms: "\<And>rid w. GetRoomById rid srv = Some w \<Longrightarrow> json_utf8 (GetRoomInfo w)"
    and draws: "can_draw draws srv" and offers: "\<And>offer. sound (negotiate offer)"
    and mute: "\<And>req t. parsed = Returns req \<Longrightarrow> json_at ''action'' req = Some (JString ''publish_muteOrUnmute'')
       \<Longrightarrow> json_at ''type'' req = Some (JString t) \<Longrightarrow> t = ''audio'' \<or> t = ''video''"
  shows "if utf8 reason
    then \<exists>res srv' b text. HandleSignaling dumps now reason draws negotiate parsed i srv = Some (JObject res, srv')
      \<and> map_of res ''error'' = Some (JBool b) \<and> map_of res ''detail'' = Some (JString text) \<and> (\<not> b \<longrightarrow> text = ''Ok.'')
      \<and> (\<forall>req a j. parsed = Returns req \<longrightarrow> json_get_string ''action'' req = Returns a \<longrightarrow> json_at ''transactionId'' req = Some j
           \<longrightarrow> map_of res ''transactionId'' = Some j)
    else HandleSignaling dumps now reason draws negotiate parsed i srv = None"
proof (cases parsed)
  case Fails
  then show ?thesis
    using respond_utf8 [of "[]" reason None] library(1) [of "respond reason None []"]
    by (simp add: HandleSignaling_def handle_request_def attempt_def) (auto simp: respond_def)
next
  case (Returns req)
  have req: "json_utf8 req" "utf8 reason" using library(3) [OF Returns] by simp_all
  have run: "answers res (run_action now draws negotiate a req i res srv)"
    if "json_get_string ''action'' req = Returns a" "json_utf8 (JObject res)" for a res
  proof -
    have "a = ''publish_muteOrUnmute'' \<Longrightarrow> answers res (mute_action req i res srv)"
      using mute [OF Returns] that by (intro mute_answers) (auto simp: json_get_string_iff)
    then show ?thesis using that(2)
      by (simp add: run_action_def publish_answers [OF draws offers] subscribe_answers [OF draws offers] layer_answers
          join_answers [OF req(1) _ rooms])
  qed
  let ?start = "case json_at ''transactionId'' req of None \<Rightarrow> [] | Some t \<Rightarrow> json_put ''transactionId'' t []"
  have start: "json_utf8 (JObject ?start)" using json_utf8_at [OF req(1)] by (simp split: option.split)
  have "\<exists>e res srv'. handle_request now draws negotiate parsed i srv = Some (e, res, srv') \<and> json_utf8 (JObject res)
    \<and> (\<forall>a j. json_get_string ''action'' req = Returns a \<longrightarrow> json_at ''transactionId'' req = Some j \<longrightarrow> map_of res ''transactionId'' = Some j)"
  proof (cases "json_get_string ''action'' req")
    case (Returns a)
    from run [OF Returns start] show ?thesis
      unfolding handle_request_def \<open>parsed = Returns req\<close> attempt_def Returns outcome.case answers_def by auto
  qed (simp_all add: handle_request_def attempt_def Returns)
  then obtain e res srv' where h: "handle_request now draws negotiate parsed i srv = Some (e, res, srv')" "json_utf8 (JObject res)"
    "\<And>a j. json_get_string ''action'' req = Returns a \<Longrightarrow> json_at ''transactionId'' req = Some j \<Longrightarrow> map_of res ''transactionId'' = Some j"
    by blast
  have "dumps (respond reason e res)" using respond_utf8 [OF h(2)] library(1) req(2) by simp
  then show ?thesis using h(1,3) req(2) Returns
    by (cases e) (auto simp: HandleSignaling_def respond_def split: YlError.split)
qed (use library(2) in simp)

end
