(* ===== verification/Signaling_Properties.thy ===== *)
theory Signaling_Properties
  imports Signaling
begin

text \<open>What participants and the management API can rely on, and where the signaling fails them.\<close>

section \<open>Requests and what they do\<close>

definition join_request :: "string \<Rightarrow> string \<Rightarrow> json" where
  "join_request rid pid = JObject [(''action'', JString ''join''), (''participantId'', JString pid), (''roomId'', JString rid)]"

definition mute_request :: "string \<Rightarrow> bool \<Rightarrow> string \<Rightarrow> json" where
  "mute_request sid muted type = JObject [(''action'', JString ''publish_muteOrUnmute''), (''muted'', JBool muted),
     (''streamId'', JString sid), (''type'', JString type)]"

lemmas request_simps = HandleSignaling_def handle_request_def run_action_def attempt_def json_get_string_def json_get_def in_room_def

lemma join_handled:
  assumes "GetRoomById rid srv = Some w"
  shows "HandleSignaling dumps now reason draws negotiate (Returns (join_request rid pid)) i srv
     = (let w = snd (Join pid w); t = respond reason (Some kOk) [(''roomInfo'', GetRoomInfo w)]
        in if dumps t then Some (t, on_session (\<lambda>s. s\<lparr>se_room_info_when_joining := GetRoomInfo w, se_room_id := rid,
             se_participant_id := pid\<rparr>) i (put_room rid w srv)) else None)"
  using assms by (simp add: request_simps join_request_def join_action_def Join_def Let_def)

subsection \<open>Streams are not announced twice\<close>

definition announced :: "string \<Rightarrow> room_world \<Rightarrow> bool" where
  "announced sid w \<longleftrightarrow> (\<exists>(pid, ps) \<in> set (participant_publishs_map (room w)). \<exists>p \<in> set ps. st_connected (streams w ! p) \<and> stream_id w p = sid)"

lemma listed_stream_ids:
  "(\<And>x. x \<in> set xs \<Longrightarrow> json_at ''publishStreamId'' x = Some (JString (f x))) \<Longrightarrow> listed_stream sid xs = Returns (sid \<in> f ` set xs)"
  by (induction xs) (auto simp: json_get_def)

fun info_id :: "json \<Rightarrow> string" where
  "info_id j = (case json_at ''publishStreamId'' j of Some (JString s) \<Rightarrow> s | _ \<Rightarrow> [])"

lemma info_id_stream_info: "json_at ''publishStreamId'' (stream_info w pid p) = Some (JString (stream_id w p))" "info_id (stream_info w pid p) = stream_id w p"
  by (simp_all add: stream_info_def)

lemma Hijack_added:
  assumes "se_room_info_when_joining s = GetRoomInfo w"
  shows "HijackNotification (MakeStreamAddedNotification rid pid sid video audio) s \<longleftrightarrow> announced sid w"
proof -
  let ?xs = "concat (map (\<lambda>(pid, ps). map (stream_info w pid) (filter (\<lambda>p. st_connected (streams w ! p)) ps)) (participant_publishs_map (room w)))"
  have "listed_stream sid ?xs = Returns (sid \<in> info_id ` set ?xs)"
    by (rule listed_stream_ids) (auto simp: info_id_stream_info simp del: info_id.simps)
  also have "info_id ` set ?xs = (\<Union>(pid, ps) \<in> set (participant_publishs_map (room w)). stream_id w ` {p \<in> set ps. st_connected (streams w ! p)})"
    by (simp add: image_UN split_beta image_image info_id_stream_info del: info_id.simps)
  also have "sid \<in> \<dots> \<longleftrightarrow> announced sid w"
    unfolding announced_def by blast
  finally show ?thesis
    by (simp add: HijackNotification_def assms MakeStreamAddedNotification_def notification_def json_get_def json_get_string_def GetRoomInfo_def)
qed

lemma Hijack_removed: "\<not> HijackNotification (MakeStreamRemovedNotification rid pid sid) s"
  by (simp add: HijackNotification_def MakeStreamRemovedNotification_def notification_def json_get_def)

lemma announced_Join: "announced sid (snd (Join pid w)) = announced sid w"
  by (simp add: announced_def Join_def stream_id_def)

lemma notified_session:
  assumes ok: "server_ok srv" and i: "i \<in> set (open_sessions srv)"
    and n: "notify_room_id n = se_room_id (sessions srv ! i)" "notify_participant_id n = kNotifyAllParticipants"
  shows "outgoing (sessions (SetNotify n srv) ! i)
     = outgoing (sessions srv ! i) @ (if HijackNotification n (sessions srv ! i) then [] else [notify_context n])"
proof -
  have "i < length (sessions srv)" using server_okD(4) [OF ok] i by auto
  then show ?thesis using i n
    by (simp add: SetNotify_nth [OF server_okD(3) [OF ok]] receive_def addressed_def outgoing_SendNotification)
qed

text \<open>The task that the connection of a published stream posts makes one announcement, with the names of its owner.\<close>

lemma notified_notify_added:
  "streams w = streams u \<Longrightarrow> room w = room u \<Longrightarrow> notified (notify_added sid es w)
     = notified w @ concat (map (\<lambda>(pid, ps). case find (\<lambda>p. stream_id u p = sid) ps of None \<Rightarrow> []
     | Some p \<Rightarrow> [MakeStreamAddedNotification (room_id (room u)) pid (stream_id u p) (st_sdp_video (streams u ! p)) (st_sdp_audio (streams u ! p))]) es)"
proof (induction es arbitrary: w)
  case (Cons e es)
  have s: "stream_id w = stream_id u" using Cons.prems by (simp add: stream_id_def fun_eq_iff)
  have "notified (Notify n w) = notified w @ [n]" for n by (simp add: Notify_def)
  then show ?case using Cons.IH [of w] Cons.IH [of "Notify n w" for n] Cons.prems s by (cases e) (simp split: option.split)
qed simp

lemma concat_map_one:
  "distinct (map fst es) \<Longrightarrow> (k, x) \<in> set es \<Longrightarrow> (\<And>k' y. (k', y) \<in> set es \<Longrightarrow> k' \<noteq> k \<Longrightarrow> f (k', y) = []) \<Longrightarrow> concat (map f es) = f (k, x)"
proof (induction es)
  case (Cons e es)
  show ?case
  proof (cases "e = (k, x)")
    case True
    then have "f e' = []" if "e' \<in> set es" for e' using Cons.prems(1,3) that by (cases e') force
    then show ?thesis using True by simp
  next
    case False
    then have k: "(k, x) \<in> set es" using Cons.prems(2) by simp
    then have "k \<in> fst ` set es" by force
    then have "fst e \<noteq> k" using Cons.prems(1) by auto
    then show ?thesis using Cons.IH [OF _ k] Cons.prems(1,3) by (cases e) simp
  qed
qed simp

lemma announcement:
  assumes ok: "room_ok w" and p: "p \<in> set (members pid (participant_publishs_map (room w)))"
  shows "notified (OnWebrtcStreamConnected (stream_id w p) w) = notified w @ [MakeStreamAddedNotification (room_id (room w)) pid (stream_id w p)
    (st_sdp_video (streams w ! p)) (st_sdp_audio (streams w ! p))]"
proof -
  note c = room_okD [OF ok [unfolded room_ok_def]]
  have ow: "owned (pubs w)" using c(1) by (simp add: maps_ok_def)
  have same: "q = p \<and> pid' = pid" if "q \<in> set (members pid' (pubs w))" "stream_id w q = stream_id w p" for q pid'
  proof -
    have "q \<in> registered w" "p \<in> registered w" using that(1) p members_held by (auto simp: registered_def)
    then have "q = p" using c(2) that(2) by (auto simp: ids_ok_def inj_on_def)
    then show ?thesis using owned_unique [OF ow] that(1) p by blast
  qed
  have d: "distinct (map fst (pubs w))" using ow by (simp add: owned_def)
  obtain ps where ps: "(pid, ps) \<in> set (pubs w)" "p \<in> set ps" using members_in [OF p] by blast
  obtain q where q: "find (\<lambda>q. stream_id w q = stream_id w p) ps = Some q"
    using ps(2) by (cases "find (\<lambda>q. stream_id w q = stream_id w p) ps") (auto simp: find_None_iff)
  have "q \<in> set ps" "stream_id w q = stream_id w p" using q by (auto simp: find_Some_iff)
  then have "q = p" using same [of q pid] members_entry [OF d ps(1)] by simp
  moreover have "find (\<lambda>q. stream_id w q = stream_id w p) ps' = None" if "(pid', ps') \<in> set (pubs w)" "pid' \<noteq> pid" for pid' ps'
    using same [of _ pid'] members_entry [OF d that(1)] that(2) by (auto simp: find_None_iff)
  ultimately show ?thesis
    unfolding OnWebrtcStreamConnected_def notified_notify_added [OF refl refl] using q by (subst concat_map_one [OF d ps(1)]) auto
qed

text \<open>C15. A participant who has joined is not told of a stream twice. The response to the join lists the streams that are
  connected. However much later the task runs that announces a published stream, with anything in between but another
  join of the session: if the response listed the stream, nothing is sent to the session, otherwise exactly this
  announcement is, with the name of the publisher and the media of the offer. That a stream has gone is always told.\<close>

theorem joined_session_not_told_twice:
  assumes reach: "server_step\<^sup>*\<^sup>* new_server srv" and i: "i \<in> set (open_sessions srv)" and w: "GetRoomById rid srv = Some w"
    and joined: "HandleSignaling dumps now reason draws negotiate (Returns (join_request rid pid)) i srv = Some (t, srv')"
    and later: "server_step\<^sup>*\<^sup>* (on_session (SendText t) i srv') srv2" "i \<in> set (open_sessions srv2)"
    and same_join: "se_room_id (sessions srv2 ! i) = rid"
      "se_room_info_when_joining (sessions srv2 ! i) = se_room_info_when_joining (sessions srv' ! i)"
    and room2: "GetRoomById rid srv2 = Some w2" "main_tasks w2 = ConnectedTask (stream_id w2 p) # ts"
      "p \<in> set (members pid' (participant_publishs_map (room w2)))"
  shows "json_at ''error'' t = Some (JBool False) \<and> json_at ''roomInfo'' t = Some (GetRoomInfo (snd (Join pid w)))
    \<and> outgoing (sessions (put_room rid (run_main w2) srv2) ! i)
      = outgoing (sessions srv2 ! i) @ (if announced (stream_id w2 p) w then []
          else [notify_context (MakeStreamAddedNotification rid pid' (stream_id w2 p) (st_sdp_video (streams w2 ! p)) (st_sdp_audio (streams w2 ! p)))])
    \<and> outgoing (sessions (SetNotify (MakeStreamRemovedNotification rid pid' sid) srv2) ! i)
      = outgoing (sessions srv2 ! i) @ [notify_context (MakeStreamRemovedNotification rid pid' sid)]"
proof (intro conjI)
  let ?n = "MakeStreamAddedNotification rid pid' (stream_id w2 p) (st_sdp_video (streams w2 ! p)) (st_sdp_audio (streams w2 ! p))"
  have il: "i < length (sessions srv)" using server_okD(4) [OF reachable_server_ok [OF reach]] i by auto
  define v where "v = snd (Join pid w)"
  have srv': "srv' = on_session (\<lambda>s. s\<lparr>se_room_info_when_joining := GetRoomInfo v, se_room_id := rid, se_participant_id := pid\<rparr>) i (put_room rid v srv)"
    and t: "t = respond reason (Some kOk) [(''roomInfo'', GetRoomInfo v)]"
    using joined join_handled [OF w] by (auto simp: v_def split_beta Let_def split: if_splits)
  show "json_at ''roomInfo'' t = Some (GetRoomInfo (snd (Join pid w)))" "json_at ''error'' t = Some (JBool False)"
    by (simp_all add: t respond_def v_def)
  have "WsOnRead dumps now reason draws negotiate (Returns (join_request rid pid)) i srv = Some (on_session (SendText t) i srv')"
    using joined by (simp add: WsOnRead_def)
  from server_step.message [OF il this] have "server_step srv (on_session (SendText t) i srv')" .
  then have ok: "server_ok srv2" using reach later(1) by (intro reachable_server_ok) (meson rtranclp.rtrancl_into_rtrancl rtranclp_trans)
  have info: "se_room_info_when_joining (sessions srv2 ! i) = GetRoomInfo v" using il by (simp add: same_join(2) srv')
  have w2: "room_ok w2" "room_id (room w2) = rid" "notified w2 = []" using server_okD(2) [OF ok room2(1)] by (simp_all add: world_ok_def)
  let ?w = "w2\<lparr>main_tasks := ts\<rparr>"
  have "room_ok ?w"
    using w2(1) room2(2) unfolding room_ok_def room_ok_except_def maps_ok_def ids_ok_def observers_ok_def stops_ok_def orphans_ok_def gone_ok_def
    by auto
  from announcement [OF this, of p pid'] have n: "notified (run_main w2) = [?n]"
    using room2(2,3) w2(2,3) by (simp add: run_main_def stream_id_def)
  have i2: "i < length (sessions srv2)" using server_okD(4) [OF ok] later(2) by auto
  have h: "HijackNotification ?n (sessions srv2 ! i) = announced (stream_id w2 p) w"
    using Hijack_added [OF info] by (simp add: v_def announced_Join)
  have "addressed ?n (sessions srv2 ! i)" using same_join(1) by (simp add: addressed_def MakeStreamAddedNotification_def notification_def)
  then show "outgoing (sessions (put_room rid (run_main w2) srv2) ! i)
      = outgoing (sessions srv2 ! i) @ (if announced (stream_id w2 p) w then [] else [notify_context ?n])"
    using later(2) i2 h by (simp add: put_room_nth [OF server_okD(3) [OF ok]] n receive_def outgoing_SendNotification)
  show "outgoing (sessions (SetNotify (MakeStreamRemovedNotification rid pid' sid) srv2) ! i)
      = outgoing (sessions srv2 ! i) @ [notify_context (MakeStreamRemovedNotification rid pid' sid)]"
    using notified_session [OF ok later(2), of "MakeStreamRemovedNotification rid pid' sid"] Hijack_removed same_join(1)
    by simp (simp add: MakeStreamRemovedNotification_def notification_def)
qed

text \<open>Not twice, but perhaps never: the worker of a stream posts the announcement before it sets the flag that the room info
  reads. When the main thread announces the stream and handles a join in between, the newcomer finds the
  stream in neither, and nothing is left to be done.\<close>

theorem join_between_misses_stream:
  "\<exists>w w'. room_step\<^sup>*\<^sup>* (empty_world ''r'') w \<and> \<not> announced ''s'' (snd (Join ''bob'' w)) \<and> main_tasks (snd (Join ''bob'' w)) = []
     \<and> room_step (snd (Join ''bob'' w)) w' \<and> announced ''s'' w' \<and> at_rest w'"
proof (intro exI conjI)
  let ?v = "Room.OnDtlsTransportSetup True 0 alice_publishes"
  let ?w = "run_main ?v"
  let ?j = "snd (Join ''bob'' ?w)"
  note eval = Room.OnDtlsTransportSetup_def on_stream_def alice_world run_main_def OnWebrtcStreamConnected_def stream_id_def Notify_def Join_def on_room_def
    announced_def SetEstablished_def at_rest_def
  have "room_step alice_publishes ?v" by (rule room_step.connected) (simp add: alice_world)
  moreover have "room_step ?v ?w" by (intro room_step.task task_step.main) (simp add: eval)
  ultimately show "room_step\<^sup>*\<^sup>* (empty_world ''r'') ?w" using alice_reachable by (meson rtranclp.rtrancl_into_rtrancl)
  show "\<not> announced ''s'' ?j" "main_tasks ?j = []" by (simp_all add: eval)
  show "room_step ?j (SetEstablished 0 ?j)" by (rule room_step.established) (simp_all add: eval)
  show "announced ''s'' (SetEstablished 0 ?j)" "at_rest (SetEstablished 0 ?j)" by (simp_all add: eval)
qed

section \<open>Sessions and participants\<close>

text \<open>A session that joins a second room does not leave the first: the request succeeds, and after the connection has
  gone the participant is still in the first room, with its streams.\<close>

theorem second_join_leaves_ghost:
  assumes "server_step\<^sup>*\<^sup>* new_server srv" "i \<in> set (open_sessions srv)" "a \<noteq> b"
    and "se_room_id (sessions srv ! i) = a" "GetRoomById a srv = Some wa" "GetRoomById b srv = Some wb"
    and "HandleSignaling dumps now reason draws negotiate (Returns (join_request b pid)) i srv = Some (t, srv')"
  shows "json_at ''error'' t = Some (JBool False) \<and> GetRoomById a (SetLeave i (HandleWsError i srv')) = Some wa"
proof -
  have il: "i < length (sessions srv)" using server_okD(4) [OF reachable_server_ok [OF assms(1)]] assms(2) by auto
  have n: "wa\<lparr>notified := []\<rparr> = wa"
    using server_okD(2) [OF reachable_server_ok [OF assms(1)] assms(5)] by (simp add: world_ok_def)
  have "GetRoomById a (SetLeave i s) = GetRoomById a s" for s by (simp add: SetLeave_def GetRoomById_def)
  then show ?thesis using assms(3,5,7) il join_handled [OF assms(6)]
    by (auto simp: respond_def Let_def HandleWsError_def split: option.split if_splits)
qed

lemma is_prefix_append: "is_prefix_of d (d @ s)"
  by (induction d) simp_all

lemma contains_infix: "pat \<noteq> [] \<Longrightarrow> contains pat (a @ pat @ b)"
proof (induction a)
  case Nil
  then show ?case using is_prefix_append [of pat b] by (cases pat) (simp_all add: contains_def)
qed (auto simp: contains_def)

definition kickout_target :: "string \<Rightarrow> string \<Rightarrow> string" where
  "kickout_target rid pid = ''/rooms/'' @ rid @ ''/participants/'' @ pid"

lemma fields_append: "c \<notin> set s \<Longrightarrow> Base_Utils.fields c (s @ c # t) = s # Base_Utils.fields c t"
proof -
  assume "c \<notin> set s"
  then have "\<forall>x\<in>set s. x \<noteq> c" by blast
  then have "takeWhile (\<lambda>x. x \<noteq> c) (s @ c # t) = s" "dropWhile (\<lambda>x. x \<noteq> c) (s @ c # t) = c # t"
    by (simp_all add: takeWhile_append2 dropWhile_append2)
  then show ?thesis by (simp add: fields_in)
qed

lemma split_kickout_target:
  assumes "CHR ''/'' \<notin> set rid" "CHR ''/'' \<notin> set pid" "rid \<noteq> []" "pid \<noteq> []"
  shows "StringSplit (kickout_target rid pid) ''/'' = Some [''rooms'', rid, ''participants'', pid]"
proof -
  have t: "kickout_target rid pid = [] @ CHR ''/'' # (''rooms'' @ CHR ''/'' # (rid @ CHR ''/'' # (''participants'' @ CHR ''/'' # pid)))"
    by (simp add: kickout_target_def)
  have "Base_Utils.fields CHR ''/'' (kickout_target rid pid) = [[], ''rooms'', rid, ''participants'', pid]"
    unfolding t using assms by (simp add: fields_append fields_not_in del: append.simps append_Cons append_Nil)
  then show ?thesis using assms by (simp add: StringSplit_char)
qed

text \<open>To kick a participant out takes it out of the room, but its session stays: what the room tells all participants
  still goes to it.\<close>

theorem kicked_out_session_still_hears:
  assumes reach: "server_step\<^sup>*\<^sup>* new_server srv" and i: "i \<in> set (open_sessions srv)" and w: "GetRoomById rid srv = Some w"
    and s: "se_room_id (sessions srv ! i) = rid" "se_participant_id (sessions srv ! i) = pid"
    and names: "CHR ''/'' \<notin> set rid" "CHR ''/'' \<notin> set pid" "rid \<noteq> []" "pid \<noteq> []" "\<not> contains ''..'' (kickout_target rid pid)"
    and kicked: "HandleRequest parse DeleteMethod (kickout_target rid pid) body srv = (r, srv')"
  shows "r = OkResponse None \<and> (\<exists>w'. GetRoomById rid srv' = Some w' \<and> pid \<notin> set (participant_id_set (room w')))
    \<and> (\<forall>n. notify_room_id n = rid \<and> notify_participant_id n = kNotifyAllParticipants \<and> \<not> HijackNotification n (sessions srv' ! i)
         \<longrightarrow> outgoing (sessions (SetNotify n srv') ! i) = outgoing (sessions srv' ! i) @ [notify_context n])"
proof -
  note ok = reachable_server_ok [OF reach]
  have il: "i < length (sessions srv)" using server_okD(4) [OF ok] i by auto
  have c: "contains ''/participants'' (kickout_target rid pid)"
    using contains_infix [of "''/participants''" "''/rooms/'' @ rid" "CHR ''/'' # pid"] by (simp add: kickout_target_def)
  have "kickout_target rid pid \<noteq> [] \<and> hd (kickout_target rid pid) = CHR ''/''" by (simp add: kickout_target_def)
  then have k: "r = OkResponse None" "srv' = put_room rid (Leave pid w) srv"
    using kicked c names(5) split_kickout_target [OF names(1-4)] w
    by (auto simp: HandleRequest_def kickout_request_def KickoutParticipant_def)
  have "distinct (participant_id_set (room w))"
    using server_okD(2) [OF ok w] room_okD(1) by (auto simp: world_ok_def room_ok_def maps_ok_def)
  then have gone: "pid \<notin> set (participant_id_set (room (Leave pid w)))"
    by (simp add: Leave_def Let_def fold_post_room set_remove1_eq)
  have ok': "server_ok srv'" unfolding k(2) by (intro put_room_ok [OF ok w] room_step.leave)
  have i': "i \<in> set (open_sessions srv')" "se_room_id (sessions srv' ! i) = rid"
    using i s il server_okD(3) [OF ok] by (simp_all add: k(2) put_room_nth)
  show ?thesis
    using k gone notified_session [OF ok' i'(1)] i'(2) by auto
qed

section \<open>A mute request that ends the process\<close>

text \<open>A mute request for a published stream of the room is answered exactly if its type is audio or video: with any other
  type, which the client chooses, the server aborts.\<close>

theorem mute_of_unknown_type_aborts:
  assumes "GetRoomById (se_room_id (sessions srv ! i)) srv = Some w" "GetStreamById sid w = Some p" "published p w"
    and "dumps (respond reason (Some kOk) [])"
  shows "(HandleSignaling dumps now reason draws negotiate (Returns (mute_request sid muted type)) i srv = None) = (type \<notin> {''audio'', ''video''})"
  using assms by (simp add: request_simps mute_request_def mute_action_def UpdateMuteInfo_def Let_def)

text \<open>A negotiation in which the offer does not parse and every step after it throws.\<close>

definition refused_offer :: "string \<Rightarrow> negotiation" where
  "refused_offer offer = \<lparr>ng_offer = Returns False, ng_start = Returns False, ng_sdp_video = False, ng_sdp_audio = False, ng_answer = Fails,
     ng_local = Fails, ng_video = False, ng_audio = False\<rparr>"

definition alice_server :: server where
  "alice_server = \<lparr>id_room_map = [(''r'', alice_publishes)], destroyed_rooms = [], sessions = [new_session\<lparr>se_room_id := ''r''\<rparr>],
     open_sessions = [0], layer_requests = []\<rparr>"

lemma alice_stream: "GetStreamById ''s'' alice_publishes = Some 0" "published 0 alice_publishes"
  by (simp_all add: GetStreamById_def find_stream_def published_def stream_id_def alice_world)

theorem mute_of_unknown_type_aborts_witness:
  "HandleSignaling json_utf8 0 [] [] refused_offer (Returns (mute_request ''s'' True ''screen'')) 0 alice_server = None"
proof -
  have "GetRoomById (se_room_id (sessions alice_server ! 0)) alice_server = Some alice_publishes"
    by (simp add: alice_server_def GetRoomById_def)
  from mute_of_unknown_type_aborts [OF this alice_stream, of json_utf8 "[]" 0 "[]" refused_offer True "''screen''"] show ?thesis
    by (simp add: respond_def)
qed

section \<open>The life of a room\<close>

definition room_target :: "string \<Rightarrow> string" where
  "room_target rid = ''/rooms/'' @ rid"

lemma last_component_target: "CHR ''/'' \<notin> set rid \<Longrightarrow> last_component (room_target rid) = rid"
proof -
  assume "CHR ''/'' \<notin> set rid"
  then have "\<forall>c \<in> set (rev rid). c \<noteq> CHR ''/''" by auto
  then have "takeWhile (\<lambda>c. c \<noteq> CHR ''/'') (rev rid @ rev ''/rooms/'') = rev rid" by (subst takeWhile_append2) auto
  then show ?thesis by (simp add: last_component_def room_target_def)
qed

lemma update_new: "k \<notin> fst ` set m \<Longrightarrow> AList.update k v m = m @ [(k, v)]"
  by (induction m) auto

lemma delete_last: "k \<notin> fst ` set m \<Longrightarrow> AList.delete k (m @ [(k, v)]) = m"
  by (induction m) (auto simp: AList.delete_eq)

text \<open>Through the management API a room is created, listed, refused a second time and destroyed, after which the
  server has the rooms it had before.\<close>

theorem room_created_listed_destroyed:
  assumes body: "parse body = Returns j" "json_get_string ''id'' j = Returns rid"
    and new: "GetRoomById rid srv = None"
    and name: "rid \<noteq> []" "CHR ''/'' \<notin> set rid" "\<not> contains ''..'' (room_target rid)" "\<not> contains ''/participants'' (room_target rid)"
    and steps: "HandleRequest parse PostMethod ''/rooms'' body srv = (r1, srv1)"
      "HandleRequest parse GetMethod ''/rooms'' body' srv1 = (r2, srv2)"
      "HandleRequest parse PostMethod ''/rooms'' body srv2 = (r3, srv3)"
      "HandleRequest parse DeleteMethod (room_target rid) body' srv3 = (r4, srv4)"
  shows "r1 = OkResponse (Some (JObject [(''id'', JString rid)])) \<and> GetRoomById rid srv1 = Some (empty_world rid)
    \<and> r2 = OkResponse (Some (JArray (map JString (GetAllRoomId srv @ [rid])))) \<and> r3 = BadRequest ''Room ID already exists.''
    \<and> r4 = OkResponse None \<and> id_room_map srv4 = id_room_map srv"
proof -
  have rooms: "contains ''/rooms'' ''/rooms''" "\<not> contains ''/participants'' ''/rooms''" "\<not> contains ''..'' ''/rooms''"
    "contains ''/rooms'' (room_target rid)" "room_target rid \<noteq> []" "hd (room_target rid) = CHR ''/''"
    using contains_infix [of "''/rooms''" "[]" "CHR ''/'' # rid"] by (simp_all add: contains_def room_target_def)
  have k: "rid \<notin> fst ` set (id_room_map srv)" using new by (simp add: GetRoomById_def map_of_eq_None_iff)
  have 1: "r1 = OkResponse (Some (JObject [(''id'', JString rid)]))" "srv1 = srv\<lparr>id_room_map := id_room_map srv @ [(rid, empty_world rid)]\<rparr>"
    using steps(1) rooms body new by (auto simp: HandleRequest_def create_request_def CreateRoom_def update_new [OF k])
  have g: "GetRoomById rid srv1 = Some (empty_world rid)" using new by (simp add: 1(2) GetRoomById_def map_add_def)
  have 2: "r2 = OkResponse (Some (JArray (map JString (GetAllRoomId srv @ [rid]))))" "srv2 = srv1"
    using steps(2) rooms by (simp_all add: HandleRequest_def GetAllRoomId_def 1(2))
  have 3: "r3 = BadRequest ''Room ID already exists.''" "srv3 = srv1"
    using steps(3) rooms body g 2(2) by (auto simp: HandleRequest_def create_request_def CreateRoom_def)
  have "r4 = OkResponse None \<and> id_room_map srv4 = id_room_map srv"
    using steps(4) rooms name g delete_last [OF k]
    by (auto simp: HandleRequest_def delete_request_def DestroyRoom_def last_component_target 3(2) 1(2) split: if_splits)
  then show ?thesis using 1(1) 2(1) 3(1) g by simp
qed

theorem room_created_listed_destroyed_witness:
  "let parse = (\<lambda>_. Returns (JObject [(''id'', JString ''r'')])); srv1 = snd (HandleRequest parse PostMethod ''/rooms'' [] new_server)
   in GetRoomById ''r'' srv1 = Some (empty_world ''r'') \<and> fst (HandleRequest parse GetMethod ''/rooms'' [] srv1) = OkResponse (Some (JArray [JString ''r'']))"
proof -
  let ?parse = "\<lambda>_::string. Returns (JObject [(''id'', JString ''r'')])"
  let ?do = "\<lambda>m t srv. HandleRequest ?parse m t [] srv"
  let ?s1 = "snd (?do PostMethod ''/rooms'' new_server)"
  let ?s2 = "snd (?do GetMethod ''/rooms'' ?s1)"
  let ?s3 = "snd (?do PostMethod ''/rooms'' ?s2)"
  have "GetRoomById ''r'' ?s1 = Some (empty_world ''r'')
    \<and> fst (?do GetMethod ''/rooms'' ?s1) = OkResponse (Some (JArray (map JString (GetAllRoomId new_server @ [''r'']))))"
    using room_created_listed_destroyed [of ?parse "[]" "JObject [(''id'', JString ''r'')]" "''r''" new_server
        "fst (?do PostMethod ''/rooms'' new_server)" ?s1 "[]" "fst (?do GetMethod ''/rooms'' ?s1)" ?s2
        "fst (?do PostMethod ''/rooms'' ?s2)" ?s3 "fst (?do DeleteMethod (room_target ''r'') ?s3)" "snd (?do DeleteMethod (room_target ''r'') ?s3)"]
    by (simp add: json_get_string_def json_get_def new_server_def GetRoomById_def room_target_def contains_def)
  then show ?thesis by (simp add: Let_def GetAllRoomId_def new_server_def)
qed

section \<open>Two rooms and Alice\<close>

text \<open>A server with the rooms \<open>r\<close> and \<open>q\<close> and one web socket, before and after Alice has joined \<open>r\<close> with it.\<close>

definition two_rooms :: server where
  "two_rooms = \<lparr>id_room_map = [(''r'', empty_world ''r''), (''q'', empty_world ''q'')], destroyed_rooms = [], sessions = [new_session],
     open_sessions = [0], layer_requests = []\<rparr>"

lemma two_rooms_reachable: "server_step\<^sup>*\<^sup>* new_server two_rooms"
proof -
  define make where "make r srv = snd (HandleRequest (\<lambda>_. Returns (JObject [(''id'', JString r)])) PostMethod ''/rooms'' [] srv)" for r srv
  have "two_rooms = make ''q'' (make ''r'' (SetJoin new_server))"
    by (simp add: make_def two_rooms_def HandleRequest_def create_request_def contains_def CreateRoom_def SetJoin_def new_server_def
        json_get_string_def json_get_def GetRoomById_def)
  moreover have "server_step srv (make r srv)" for r srv unfolding make_def by (rule server_step.manage)
  ultimately show ?thesis by (metis server_step.accepted converse_rtranclp_into_rtranclp rtranclp.rtrancl_refl)
qed

lemma two_rooms_facts: "GetRoomById ''r'' two_rooms = Some (empty_world ''r'')" "GetRoomById ''q'' two_rooms = Some (empty_world ''q'')"
  "0 \<in> set (open_sessions two_rooms)"
  by (simp_all add: two_rooms_def GetRoomById_def)

definition alice_in_r :: server where
  "alice_in_r = the (WsOnRead json_utf8 0 [] [] refused_offer (Returns (join_request ''r'' ''alice'')) 0 two_rooms)"

lemma join_read:
  "GetRoomById rid srv = Some w \<Longrightarrow> dumps (respond reason (Some kOk) [(''roomInfo'', GetRoomInfo (snd (Join pid w)))]) \<Longrightarrow>
   \<exists>t srv'. HandleSignaling dumps now reason draws negotiate (Returns (join_request rid pid)) i srv = Some (t, srv')
     \<and> WsOnRead dumps now reason draws negotiate (Returns (join_request rid pid)) i srv = Some (on_session (SendText t) i srv')"
  by (simp add: WsOnRead_def join_handled split_beta Let_def)

lemma join_written: "json_utf8 (respond [] (Some kOk) [(''roomInfo'', GetRoomInfo (snd (Join ''alice'' (empty_world r))))])"
  by (simp add: respond_def GetRoomInfo_def Join_def empty_world_def new_room_def Notify_def on_room_def)

lemma alice_joins:
  "GetRoomById rid srv = Some (empty_world rid) \<Longrightarrow> \<exists>t srv'. HandleSignaling json_utf8 0 [] [] refused_offer (Returns (join_request rid ''alice'')) i srv = Some (t, srv')
     \<and> WsOnRead json_utf8 0 [] [] refused_offer (Returns (join_request rid ''alice'')) i srv = Some (on_session (SendText t) i srv')"
  by (rule join_read [where dumps = json_utf8, OF _ join_written])

lemma alice_reads: "WsOnRead json_utf8 0 [] [] refused_offer (Returns (join_request ''r'' ''alice'')) 0 two_rooms = Some alice_in_r"
  unfolding alice_in_r_def using alice_joins [OF two_rooms_facts(1), of 0] by (elim exE conjE) simp

lemma alice_in_r_reachable: "server_step\<^sup>*\<^sup>* new_server alice_in_r"
  using two_rooms_reachable server_step.message [OF _ alice_reads] by (simp add: two_rooms_def rtranclp.rtrancl_into_rtrancl)

lemma alice_in_r_facts:
  "se_room_id (sessions alice_in_r ! 0) = ''r''" "se_participant_id (sessions alice_in_r ! 0) = ''alice''" "0 \<in> set (open_sessions alice_in_r)"
  "GetRoomById ''r'' alice_in_r = Some (snd (Join ''alice'' (empty_world ''r''))\<lparr>notified := []\<rparr>)"
  "GetRoomById ''q'' alice_in_r = Some (empty_world ''q'')"
  unfolding alice_in_r_def WsOnRead_def join_handled [OF two_rooms_facts(1)]
  by (simp_all add: join_written Let_def two_rooms_facts) (simp_all add: two_rooms_def Join_def empty_world_def new_room_def)

theorem server_rooms_tidy_witness: "\<exists>w. GetRoomById ''r'' two_rooms = Some w \<and> tidy w"
  using server_rooms_tidy [OF two_rooms_reachable two_rooms_facts(1)] two_rooms_facts(1) by (simp add: at_rest_def empty_world_def)

text \<open>An action that is unknown is answered. A text that starts with a byte from the middle of a character ends the process: the
  library quotes the byte in its message.\<close>

theorem request_answered_witness:
  "(\<exists>res srv' b. HandleSignaling json_utf8 0 [] [] refused_offer
      (Returns (JObject [(''action'', JString ''dance''), (''transactionId'', JInt 7)])) 0 new_server = Some (JObject res, srv')
    \<and> map_of res ''error'' = Some (JBool b) \<and> map_of res ''transactionId'' = Some (JInt 7))
   \<and> HandleSignaling json_utf8 0 [char_of (0xA9 :: nat)] [] refused_offer Fails 0 new_server = None"
proof
  let ?req = "JObject [(''action'', JString ''dance''), (''transactionId'', JInt 7)]"
  have rooms: "\<And>rid w. GetRoomById rid new_server = Some w \<Longrightarrow> json_utf8 (GetRoomInfo w)" by (simp add: GetRoomById_def new_server_def)
  have draws: "can_draw [] new_server" by (simp add: can_draw_def new_server_def)
  have offers: "\<And>offer. sound (refused_offer offer)" by (simp add: sound_def refused_offer_def)
  have "if utf8 [] then \<exists>res srv' b text. HandleSignaling json_utf8 0 [] [] refused_offer (Returns ?req) 0 new_server = Some (JObject res, srv')
      \<and> map_of res ''error'' = Some (JBool b) \<and> map_of res ''detail'' = Some (JString text) \<and> (\<not> b \<longrightarrow> text = ''Ok.'')
      \<and> (\<forall>req a j. Returns ?req = Returns req \<longrightarrow> json_get_string ''action'' req = Returns a \<longrightarrow> json_at ''transactionId'' req = Some j
           \<longrightarrow> map_of res ''transactionId'' = Some j)
    else HandleSignaling json_utf8 0 [] [] refused_offer (Returns ?req) 0 new_server = None"
    by (rule request_answered) (use rooms draws offers in auto)
  then show "\<exists>res srv' b. HandleSignaling json_utf8 0 [] [] refused_offer (Returns ?req) 0 new_server = Some (JObject res, srv')
      \<and> map_of res ''error'' = Some (JBool b) \<and> map_of res ''transactionId'' = Some (JInt 7)"
    by (auto simp: json_get_string_def json_get_def)
  have "\<not> utf8 [char_of (0xA9 :: nat)]" by (simp add: utf8_def utf8_lead_def)
  with request_answered [OF refl _ _ rooms draws offers, where parsed = Fails and reason = "[char_of (0xA9 :: nat)]" and now = 0 and i = 0]
  show "HandleSignaling json_utf8 0 [char_of (0xA9 :: nat)] [] refused_offer Fails 0 new_server = None" by simp
qed

text \<open>Alice joins, publishes and is connected. The response to her join did not list the stream, so she is told of it.\<close>

definition accepted_offer :: "string \<Rightarrow> negotiation" where
  "accepted_offer offer = \<lparr>ng_offer = Returns True, ng_start = Returns True, ng_sdp_video = True, ng_sdp_audio = True,
     ng_answer = Returns (Some ''v=0''), ng_local = Returns (), ng_video = True, ng_audio = True\<rparr>"

definition publish_request :: json where
  "publish_request = JObject [(''action'', JString ''publish''), (''offer'', JString ''v=0'')]"

lemma alice_publish_reads:
  "\<exists>srv w. WsOnRead json_utf8 0 [] [''s''] accepted_offer (Returns publish_request) 0 alice_in_r = Some srv \<and> GetRoomById ''r'' srv = Some w
     \<and> room w = room alice_publishes \<and> length (streams w) = 1 \<and> st_id (streams w ! 0) = ''s'' \<and> st_sdp_video (streams w ! 0)
     \<and> st_sdp_audio (streams w ! 0) \<and> main_tasks w = [] \<and> open_sessions srv = [0] \<and> length (sessions srv) = 1
     \<and> se_room_id (sessions srv ! 0) = ''r'' \<and> se_room_info_when_joining (sessions srv ! 0) = se_room_info_when_joining (sessions alice_in_r ! 0)"
proof -
  have l: "length (sessions alice_in_r) = 1" "open_sessions alice_in_r = [0]"
    unfolding alice_in_r_def WsOnRead_def join_handled [OF two_rooms_facts(1)] by (simp_all add: join_written Let_def) (simp_all add: two_rooms_def)
  note run = WsOnRead_def request_simps publish_request_def publish_action_def describe_def accepted_offer_def respond_def Let_def
  show ?thesis
    by (simp add: run alice_in_r_facts l room_eval alice_world SetLocalMedia_def put_room_nth)
qed

theorem joined_session_not_told_twice_witness:
  "\<exists>srv w. server_step\<^sup>*\<^sup>* new_server srv \<and> GetRoomById ''r'' srv = Some w \<and> outgoing (sessions (put_room ''r'' (run_main w) srv) ! 0)
     = outgoing (sessions srv ! 0) @ [notify_context (MakeStreamAddedNotification ''r'' ''alice'' ''s'' True True)]"
proof -
  obtain t srv' where t: "HandleSignaling json_utf8 0 [] [] refused_offer (Returns (join_request ''r'' ''alice'')) 0 two_rooms = Some (t, srv')"
    "on_session (SendText t) 0 srv' = alice_in_r"
    using alice_joins [OF two_rooms_facts(1), of 0] alice_reads by auto
  obtain srv w where p: "WsOnRead json_utf8 0 [] [''s''] accepted_offer (Returns publish_request) 0 alice_in_r = Some srv" "GetRoomById ''r'' srv = Some w"
    and w: "room w = room alice_publishes" "length (streams w) = 1" "st_id (streams w ! 0) = ''s''" "st_sdp_video (streams w ! 0)"
      "st_sdp_audio (streams w ! 0)" "main_tasks w = []"
    and s: "open_sessions srv = [0]" "length (sessions srv) = 1" "se_room_id (sessions srv ! 0) = ''r''"
      "se_room_info_when_joining (sessions srv ! 0) = se_room_info_when_joining (sessions alice_in_r ! 0)"
    using alice_publish_reads by (elim exE conjE) (rule that; assumption)
  define v where "v = Room.OnDtlsTransportSetup True 0 w"
  let ?srv = "put_room ''r'' v srv" and ?w = "v\<lparr>notified := []\<rparr>"
  have l: "length (sessions alice_in_r) = 1" "length (sessions srv') = 1"
    using on_session_simps(4) [of "SendText t" 0 srv'] WsOnRead_keeps(2) [OF reachable_server_ok [OF alice_in_r_reachable] p(1)] s(2) t(2) by simp_all
  have i: "se_room_info_when_joining (sessions alice_in_r ! 0) = se_room_info_when_joining (sessions srv' ! 0)"
    using l(2) by (simp flip: t(2))
  have "server_step alice_in_r srv" using l p(1) by (intro server_step.message) simp_all
  moreover have "server_step srv ?srv" unfolding v_def using p(2) w(2) by (intro server_step.connected) simp_all
  ultimately have later: "server_step\<^sup>*\<^sup>* alice_in_r ?srv" by (meson converse_rtranclp_into_rtranclp rtranclp.rtrancl_refl)
  have v: "room ?w = room alice_publishes" "streams ?w ! 0 = (streams w ! 0)\<lparr>st_announcing := True\<rparr>" "main_tasks ?w = [ConnectedTask (stream_id ?w 0)]"
    using w by (simp_all add: v_def Room.OnDtlsTransportSetup_def stream_id_def on_stream_nth)
  have "\<not> announced ''s'' (empty_world ''r'')" by (simp add: announced_def empty_world_def new_room_def)
  moreover have "stream_id ?w 0 = ''s''" using v w by (simp add: stream_id_def)
  moreover have "0 \<in> set (members ''alice'' (participant_publishs_map (room ?w)))" by (simp add: v(1) alice_world members_def)
  ultimately have "outgoing (sessions (put_room ''r'' (run_main ?w) ?srv) ! 0)
     = outgoing (sessions ?srv ! 0) @ [notify_context (MakeStreamAddedNotification ''r'' ''alice'' ''s'' True True)]"
    using joined_session_not_told_twice [OF two_rooms_reachable two_rooms_facts(3,1) t(1), of ?srv ?w 0 "[]" "''alice''" "[]"] later t(2) v w s i
    by (simp add: put_room_nth)
  moreover have "server_step\<^sup>*\<^sup>* new_server ?srv" using alice_in_r_reachable later by (rule rtranclp_trans)
  ultimately show ?thesis by (intro exI [of _ ?srv] exI [of _ ?w]) simp
qed

theorem second_join_leaves_ghost_witness:
  "\<exists>t srv' w. HandleSignaling json_utf8 0 [] [] refused_offer (Returns (join_request ''q'' ''alice'')) 0 alice_in_r = Some (t, srv')
     \<and> GetRoomById ''r'' (SetLeave 0 (HandleWsError 0 srv')) = Some w \<and> participant_id_set (room w) = [''alice'']"
proof -
  obtain wr where w: "GetRoomById ''r'' alice_in_r = Some wr" "participant_id_set (room wr) = [''alice'']"
      "GetRoomById ''q'' alice_in_r = Some (empty_world ''q'')"
    using alice_in_r_facts(4,5) by (auto simp: Join_def empty_world_def new_room_def Notify_def on_room_def)
  obtain t srv' where t: "HandleSignaling json_utf8 0 [] [] refused_offer (Returns (join_request ''q'' ''alice'')) 0 alice_in_r = Some (t, srv')"
    using alice_joins [OF w(3)] by blast
  from second_join_leaves_ghost [OF alice_in_r_reachable alice_in_r_facts(3) _ alice_in_r_facts(1) w(1,3) t] t w(2) show ?thesis by auto
qed

theorem kicked_out_session_still_hears_witness:
  "let srv' = snd (HandleRequest (\<lambda>_. Fails) DeleteMethod (kickout_target ''r'' ''alice'') [] alice_in_r); n = MakeParticipantJoinedNotification ''r'' ''bob''
   in outgoing (sessions (SetNotify n srv') ! 0) = outgoing (sessions srv' ! 0) @ [notify_context n]"
proof -
  let ?r = "fst (HandleRequest (\<lambda>_. Fails) DeleteMethod (kickout_target ''r'' ''alice'') [] alice_in_r)"
  let ?s = "snd (HandleRequest (\<lambda>_. Fails) DeleteMethod (kickout_target ''r'' ''alice'') [] alice_in_r)"
  let ?n = "MakeParticipantJoinedNotification ''r'' ''bob''"
  obtain w where w: "GetRoomById ''r'' alice_in_r = Some w" using alice_in_r_facts(4) by blast
  have "\<not> contains ''..'' (kickout_target ''r'' ''alice'')" by (simp add: contains_def kickout_target_def)
  then have k: "notify_room_id n = ''r'' \<and> notify_participant_id n = kNotifyAllParticipants \<and> \<not> HijackNotification n (sessions ?s ! 0)
         \<longrightarrow> outgoing (sessions (SetNotify n ?s) ! 0) = outgoing (sessions ?s ! 0) @ [notify_context n]" for n
    using kicked_out_session_still_hears [OF alice_in_r_reachable alice_in_r_facts(3) w alice_in_r_facts(1,2), of "\<lambda>_. Fails" "[]" ?r ?s] by simp
  have "notify_room_id ?n = ''r'' \<and> notify_participant_id ?n = kNotifyAllParticipants \<and> \<not> HijackNotification ?n (sessions ?s ! 0)"
    by (simp add: MakeParticipantJoinedNotification_def notification_def HijackNotification_def json_get_def)
  then show ?thesis using k [of ?n] by (simp add: Let_def)
qed

end
