(* ===== verification/Webrtc_Stream.thy ===== *)
theory Webrtc_Stream
  imports Ice_Lite Udp_Socket Dtls_Transport Sdp_Negotiator Rtp_Packet Rtcp_Packet Signaling_Properties
begin

text \<open>
  The connection of a stream, \<^verbatim>\<open>src/src/transport/webrtc_stream.{h,cpp}\<close>, in which ICE, DTLS, SRTP and the socket work
  together, and the proxy that finds the stream of a first STUN message, \<^verbatim>\<open>src/src/transport/webrtc_stream_proxy.cpp\<close>.

  Calls of the observer and of the derived class (a published or subscribed stream) are returned events; what goes to
  the network is in the socket. What the libraries make of a call is its argument \<open>lib\<close>. \<open>OutOfBounds\<close> is undefined
  behaviour or an abort. Operations run on the worker thread of the stream, one after the other.
\<close>

section \<open>The code\<close>

record library =
  lb_hmac :: "bytes \<Rightarrow> bytes \<Rightarrow> bytes"
  lb_memory :: bytes
  lb_tag :: "srtp_policy \<Rightarrow> nat"
  lb_srtp_send :: bool
  lb_srtp_receive :: bool
  lb_unprotect :: "bytes \<Rightarrow> bytes option"
  lb_protect :: "bytes \<Rightarrow> bytes option"
  lb_pending :: bytes
  lb_close_notify :: bool

datatype stream_event = RtpReceived bytes | RtcpReceived bytes | StreamConnected | StreamShutdown

record WebrtcStream =
  ws_room_id :: string
  ws_stream_id :: string
  ws_sdp :: SdpNegotiator
  ws_ice :: "IceLite option"
  ws_dtls :: "DtlsTransport option"
  ws_send_srtp :: "SrtpSession option"
  ws_recv_srtp :: "SrtpSession option"
  ws_socket :: "UdpSocket option"
  ws_selected_endpoint :: endpoint
  ws_connected :: bool
  ws_dtls_ready :: bool
  ws_stoped :: bool

definition new_webrtc_stream :: "string \<Rightarrow> string \<Rightarrow> WebrtcStream" where
  "new_webrtc_stream rid sid = \<lparr>ws_room_id = rid, ws_stream_id = sid, ws_sdp = new_negotiator, ws_ice = None, ws_dtls = None,
     ws_send_srtp = None, ws_recv_srtp = None, ws_socket = None, ws_selected_endpoint = V4 0 0, ws_connected = False,
     ws_dtls_ready = False, ws_stoped = False\<rparr>"

definition bytes_of :: "string \<Rightarrow> bytes" where "bytes_of = map of_char"
definition text_of :: "bytes \<Rightarrow> string" where "text_of = map (\<lambda>b. char_of (unat b))"

definition WsStart :: "nat list \<Rightarrow> bool \<Rightarrow> string \<Rightarrow> u16 \<Rightarrow> string \<Rightarrow> WebrtcStream \<Rightarrow> (bool \<times> WebrtcStream) outcome" where
  "WsStart draws allocated ip port fingerprint s =
     (let ice = new_ice draws (bytes_of (ws_room_id s)) (bytes_of (ws_stream_id s)) (bytes_of (remote_ice_ufrag (ws_sdp s)))
      in bind_outcome (SetRemoteFingerprint (remote_fingerprint_type (ws_sdp s)) (remote_fingerprint_hash (ws_sdp s)) new_dtls) (\<lambda>t.
         let (ok, t) = DtlsInit allocated t;
             s = s\<lparr>ws_ice := Some ice, ws_send_srtp := Some new_srtp, ws_recv_srtp := Some new_srtp, ws_dtls := Some t\<rparr>
         in Returns (if \<not> ok then (False, s)
              else (True, s\<lparr>ws_sdp := SetLocalIceInfo (text_of (ice_local_ufrag ice)) (text_of (ice_local_password ice))
                (SetLocalFingerprint ''sha-256'' fingerprint (SetLocalHostAddress ip port (ws_sdp s)))\<rparr>))))"

definition WsShutdown :: "WebrtcStream \<Rightarrow> WebrtcStream \<times> stream_event list" where
  "WsShutdown s = (if ws_stoped s then (s, []) else (s\<lparr>ws_stoped := True\<rparr>, [StreamShutdown]))"

definition send_udp :: "bytes \<Rightarrow> WebrtcStream \<Rightarrow> WebrtcStream" where
  "send_udp d s = (case ws_socket s of None \<Rightarrow> s | Some u \<Rightarrow> s\<lparr>ws_socket := Some (SendData (ws_selected_endpoint s) d u)\<rparr>)"

text \<open>The first datagram that the proxy hands over makes the socket; the rest happens in a task, for this datagram.\<close>

definition ReceiveDataFromProxy :: "bool \<Rightarrow> bytes \<Rightarrow> endpoint \<Rightarrow> WebrtcStream \<Rightarrow> WebrtcStream \<times> (bytes \<times> endpoint) list" where
  "ReceiveDataFromProxy bound dat ep s =
     (case ws_socket s of
        Some _ \<Rightarrow> (s, [(dat, ep)])
      | None \<Rightarrow>
          let (ok, u) = ListenSpecificEndpoint bound new_udp_socket
          in if \<not> ok then (s, []) else (s\<lparr>ws_socket := Some u\<rparr>, [(dat, ep)]))"

subsection \<open>ICE\<close>

text \<open>The answer goes to the selected endpoint, whatever endpoint the message came from.\<close>

definition OnStunMessageSend :: "bytes \<Rightarrow> nat \<Rightarrow> endpoint \<Rightarrow> WebrtcStream \<Rightarrow> WebrtcStream" where
  "OnStunMessageSend d n ep s = send_udp (take n d) s"

definition OnIceConnectionCompleted :: "WebrtcStream \<Rightarrow> WebrtcStream" where
  "OnIceConnectionCompleted s =
     (let s = (case ws_ice s of None \<Rightarrow> s | Some ice \<Rightarrow> s\<lparr>ws_selected_endpoint := selected_candidate ice\<rparr>)
      in case ws_dtls s of
           None \<Rightarrow> s
         | Some t \<Rightarrow>
             let (ok, t) = DtlsStart (remote_dtls_setup (ws_sdp s)) True t; s = s\<lparr>ws_dtls := Some t\<rparr>
             in if \<not> ok then s else s\<lparr>ws_dtls_ready := True\<rparr>)"

fun on_ice_event :: "ice_event \<Rightarrow> WebrtcStream \<Rightarrow> WebrtcStream \<times> stream_event list" where
  "on_ice_event IceCompleted s = (OnIceConnectionCompleted s, [])"
| "on_ice_event IceError s = WsShutdown s"
| "on_ice_event (StunSend d n ep) s = (OnStunMessageSend d n ep s, [])"

fun on_ice_events :: "ice_event list \<Rightarrow> WebrtcStream \<Rightarrow> WebrtcStream \<times> stream_event list" where
  "on_ice_events [] s = (s, [])"
| "on_ice_events (e # es) s = (let (s, a) = on_ice_event e s; (s, b) = on_ice_events es s in (s, a @ b))"

subsection \<open>DTLS\<close>

text \<open>\<open>CHECK\<close> aborts when a session is missing.\<close>

definition WsOnDtlsTransportSetup :: "library \<Rightarrow> CipherSuite \<Rightarrow> WebrtcStream \<Rightarrow> (WebrtcStream \<times> stream_event list) outcome" where
  "WsOnDtlsTransportSetup lib suite s =
     (case (ws_send_srtp s, ws_recv_srtp s) of
        (Some a, Some b) \<Rightarrow>
          let (ok, a) = SrtpInit (lb_tag lib) (lb_srtp_send lib) suite a; s = s\<lparr>ws_send_srtp := Some a\<rparr>
          in if \<not> ok then Returns (WsShutdown s)
             else let (ok, b) = SrtpInit (lb_tag lib) (lb_srtp_receive lib) suite b; s = s\<lparr>ws_recv_srtp := Some b\<rparr>
               in if \<not> ok then Returns (WsShutdown s)
                  else Returns (s\<lparr>ws_connected := True\<rparr>, [StreamConnected])
      | _ \<Rightarrow> OutOfBounds)"

fun on_dtls_event :: "library \<Rightarrow> dtls_event \<Rightarrow> WebrtcStream \<Rightarrow> (WebrtcStream \<times> stream_event list) outcome" where
  "on_dtls_event lib (DtlsSendData d) s = Returns (send_udp d s, [])"
| "on_dtls_event lib (DtlsSetup suite _ _) s = WsOnDtlsTransportSetup lib suite s"
| "on_dtls_event lib DtlsError s = Returns (WsShutdown s)"
| "on_dtls_event lib DtlsShutdown s = Returns (WsShutdown s)"

fun on_dtls_events :: "library \<Rightarrow> dtls_event list \<Rightarrow> WebrtcStream \<Rightarrow> (WebrtcStream \<times> stream_event list) outcome" where
  "on_dtls_events lib [] s = Returns (s, [])"
| "on_dtls_events lib (e # es) s =
     bind_outcome (on_dtls_event lib e s) (\<lambda>(s, a). bind_outcome (on_dtls_events lib es s) (\<lambda>(s, b). Returns (s, a @ b)))"

definition with_dtls :: "library \<Rightarrow> (DtlsTransport \<Rightarrow> dtls_event list outcome) \<Rightarrow> WebrtcStream \<Rightarrow> (WebrtcStream \<times> stream_event list) outcome" where
  "with_dtls lib f s =
     (case ws_dtls s of None \<Rightarrow> Returns (s, []) | Some t \<Rightarrow> bind_outcome (f t) (\<lambda>es. on_dtls_events lib es s))"

subsection \<open>Datagrams\<close>

text \<open>Without a receive session the length stays zero.\<close>

definition receive_media :: "(bytes \<Rightarrow> stream_event) \<Rightarrow> (bytes \<Rightarrow> SrtpSession \<Rightarrow> bytes outcome) \<Rightarrow> bytes \<Rightarrow> WebrtcStream \<Rightarrow> WebrtcStream \<times> stream_event list" where
  "receive_media deliver unprotect dat s =
     (if \<not> ws_connected s then (s, [])
      else case ws_recv_srtp s of
             None \<Rightarrow> (s, [deliver []])
           | Some sr \<Rightarrow> (case unprotect dat sr of Returns d \<Rightarrow> (s, [deliver d]) | _ \<Rightarrow> (s, [])))"

definition WsOnUdpSocketDataReceive :: "library \<Rightarrow> bytes \<Rightarrow> endpoint \<Rightarrow> WebrtcStream \<Rightarrow> (WebrtcStream \<times> stream_event list) outcome" where
  "WsOnUdpSocketDataReceive lib dat ep s =
     (if IsStun dat then
        (case ws_ice s of
           None \<Rightarrow> Returns (s, [])
         | Some ice \<Rightarrow> bind_outcome (ProcessStunMessage (lb_hmac lib) (lb_memory lib) dat ep ice) (\<lambda>(ice, es).
             Returns (on_ice_events es (s\<lparr>ws_ice := Some ice\<rparr>))))
      else if IsDtls dat then
        (if ws_dtls_ready s then with_dtls lib (ProcessDataFromPeer (lb_pending lib) (lb_close_notify lib)) s else Returns (s, []))
      else if IsRtcp dat then Returns (receive_media RtcpReceived (UnprotectRtcp (lb_unprotect lib)) dat s)
      else if IsRtpPacket dat then Returns (receive_media RtpReceived (UnprotectRtp (lb_unprotect lib)) dat s)
      else Returns (s, []))"

definition send_protected :: "bytes outcome \<Rightarrow> WebrtcStream \<Rightarrow> WebrtcStream outcome" where
  "send_protected r s = (case r of Returns d \<Rightarrow> Returns (send_udp d s) | Fails \<Rightarrow> Returns s | OutOfBounds \<Rightarrow> OutOfBounds)"

definition WsSendRtp :: "library \<Rightarrow> bytes \<Rightarrow> WebrtcStream \<Rightarrow> WebrtcStream outcome" where
  "WsSendRtp lib dat s =
     (if \<not> ws_connected s then Returns s
      else case ws_send_srtp s of
             None \<Rightarrow> OutOfBounds
           | Some sr \<Rightarrow> send_protected (ProtectRtp (lb_protect lib) dat (GetProtectRtpNeedLength (length dat) sr) sr) s)"

text \<open>\<open>packet\<close> is what the packet serialises to, if it does.\<close>

definition WsSendRtcp :: "library \<Rightarrow> bytes option \<Rightarrow> WebrtcStream \<Rightarrow> WebrtcStream outcome" where
  "WsSendRtcp lib packet s =
     (if \<not> ws_connected s then Returns s
      else case ws_send_srtp s of
             None \<Rightarrow> OutOfBounds
           | Some sr \<Rightarrow>
               case packet of
                 None \<Rightarrow> Returns s
               | Some dat \<Rightarrow> send_protected (ProtectRtcp (lb_protect lib) dat (GetProtectRtcpNeedLength (length dat) sr) sr) s)"

definition WsStop :: "library \<Rightarrow> WebrtcStream \<Rightarrow> (WebrtcStream \<times> stream_event list) outcome" where
  "WsStop lib s =
     (let (t, es) = (case ws_dtls s of None \<Rightarrow> (None, []) | Some t \<Rightarrow> apfst Some (DtlsStop (lb_pending lib) t))
      in bind_outcome (on_dtls_events lib es (s\<lparr>ws_dtls := t\<rparr>)) (\<lambda>(s, a).
           let (s, b) = WsShutdown (s\<lparr>ws_socket := map_option SocketClose (ws_socket s)\<rparr>) in Returns (s, a @ b)))"

section \<open>The proxy\<close>

text \<open>The stream to which the proxy hands a datagram: a room and the index of a stream in it.\<close>

definition proxy_target :: "bytes \<Rightarrow> server \<Rightarrow> (string \<times> nat) option outcome" where
  "proxy_target dat srv =
     (if \<not> IsStun dat then Returns None
      else case FastGetLocalUfrag dat of
             OutOfBounds \<Rightarrow> OutOfBounds
           | Fails \<Rightarrow> Returns None
           | Returns ufrag \<Rightarrow>
               Returns (case ExtractUfragInfo ufrag of
                 None \<Rightarrow> None
               | Some (rid, sid) \<Rightarrow>
                   (case GetRoomById (text_of rid) srv of
                      None \<Rightarrow> None
                    | Some w \<Rightarrow> map_option (Pair (text_of rid)) (GetStreamById (text_of sid) w))))"

section \<open>What can happen to a stream\<close>

datatype 'cert stream_input =
    DatagramIn library bytes endpoint
  | HandshakeDone library "'cert option" "string option" "nat \<Rightarrow> bytes option"
  | PendingIn library
  | TimerIn library bool
  | SocketErrorIn
  | SendRtpIn library bytes
  | SendRtcpIn library "bytes option"
  | StopIn library

fun handle_input :: "(Hash \<Rightarrow> 'cert \<Rightarrow> bytes option) \<Rightarrow> 'cert stream_input \<Rightarrow> WebrtcStream \<Rightarrow> (WebrtcStream \<times> stream_event list) outcome" where
  "handle_input digest (DatagramIn lib d ep) s = WsOnUdpSocketDataReceive lib d ep s"
| "handle_input digest (HandshakeDone lib peer profile export) s = with_dtls lib (\<lambda>t. Returns (run_setup digest peer profile export t)) s"
| "handle_input digest (PendingIn lib) s = with_dtls lib (\<lambda>t. Returns (CheckPending (lb_pending lib) t)) s"
| "handle_input digest (TimerIn lib failed) s = with_dtls lib (\<lambda>t. Returns (DtlsTimeout failed (lb_pending lib) t)) s"
| "handle_input digest SocketErrorIn s = Returns (WsShutdown s)"
| "handle_input digest (SendRtpIn lib d) s = bind_outcome (WsSendRtp lib d s) (\<lambda>s. Returns (s, []))"
| "handle_input digest (SendRtcpIn lib p) s = bind_outcome (WsSendRtcp lib p s) (\<lambda>s. Returns (s, []))"
| "handle_input digest (StopIn lib) s = WsStop lib s"

fun stream_run :: "(Hash \<Rightarrow> 'cert \<Rightarrow> bytes option) \<Rightarrow> 'cert stream_input list \<Rightarrow> WebrtcStream \<Rightarrow> (WebrtcStream \<times> stream_event list) outcome" where
  "stream_run digest [] s = Returns (s, [])"
| "stream_run digest (x # xs) s =
     bind_outcome (handle_input digest x s) (\<lambda>(s, a). bind_outcome (stream_run digest xs s) (\<lambda>(s, b). Returns (s, a @ b)))"

section \<open>The room's view of a stream\<close>

text \<open>A room knows of a stream whether it has stopped and whether it is connected, and hears of it through tasks.\<close>

definition seen_as :: "WebrtcStream \<Rightarrow> room_world \<Rightarrow> nat \<Rightarrow> bool" where
  "seen_as s w p \<longleftrightarrow> p < length (streams w) \<and> st_id (streams w ! p) = ws_stream_id s \<and> st_stopped (streams w ! p) = ws_stoped s
     \<and> st_connected (streams w ! p) = ws_connected s"

fun told :: "string \<Rightarrow> stream_event \<Rightarrow> main_task list" where
  "told sid StreamConnected = [ConnectedTask sid]"
| "told sid StreamShutdown = [ShutdownTask sid]"
| "told sid _ = []"

definition implements :: "WebrtcStream \<Rightarrow> WebrtcStream \<times> stream_event list \<Rightarrow> bool" where
  "implements s r \<longleftrightarrow> ws_stream_id (fst r) = ws_stream_id s \<and> (\<forall>w p. seen_as s w p \<longrightarrow> (\<exists>w'. room_step\<^sup>*\<^sup>* w w' \<and> seen_as (fst r) w' p
     \<and> main_tasks w' = main_tasks w @ concat (map (told (ws_stream_id s)) (snd r)) \<and> room w' = room w))"

definition same_life :: "WebrtcStream \<Rightarrow> WebrtcStream \<Rightarrow> bool" where
  "same_life s t \<longleftrightarrow> ws_stream_id s = ws_stream_id t \<and> ws_stoped s = ws_stoped t \<and> ws_connected s = ws_connected t"

lemma implements_same: "same_life s t \<Longrightarrow> (\<And>e. e \<in> set es \<Longrightarrow> told (ws_stream_id s) e = []) \<Longrightarrow> implements s (t, es)"
proof -
  assume s: "same_life s t" and "\<And>e. e \<in> set es \<Longrightarrow> told (ws_stream_id s) e = []"
  then have "concat (map (told (ws_stream_id s)) es) = []" by simp
  then show ?thesis using s by (auto simp: implements_def seen_as_def same_life_def)
qed

lemma implements_Nil [simp]: "same_life s t \<Longrightarrow> implements s (t, [])"
  by (rule implements_same) simp_all

lemma implements_trans:
  assumes "implements s (t, a)" "implements t (u, b)"
  shows "implements s (u, a @ b)"
  unfolding implements_def
proof (intro conjI allI impI)
  show "ws_stream_id (fst (u, a @ b)) = ws_stream_id s" using assms by (simp add: implements_def)
  have id: "ws_stream_id t = ws_stream_id s" using assms(1) by (simp add: implements_def)
  fix w p
  assume "seen_as s w p"
  then obtain v where v: "room_step\<^sup>*\<^sup>* w v" "seen_as t v p" "main_tasks v = main_tasks w @ concat (map (told (ws_stream_id s)) a)" "room v = room w"
    using assms(1) by (auto simp: implements_def)
  then obtain v' where "room_step\<^sup>*\<^sup>* v v'" "seen_as u v' p" "main_tasks v' = main_tasks v @ concat (map (told (ws_stream_id s)) b)" "room v' = room v"
    using assms(2) [unfolded implements_def, THEN conjunct2, rule_format, OF v(2)] id by auto
  then show "\<exists>w'. room_step\<^sup>*\<^sup>* w w' \<and> seen_as (fst (u, a @ b)) w' p
      \<and> main_tasks w' = main_tasks w @ concat (map (told (ws_stream_id s)) (snd (u, a @ b))) \<and> room w' = room w"
    using v by (intro exI [of _ v']) (simp add: rtranclp_trans [OF v(1)])
qed

lemma implements_before: "same_life s t \<Longrightarrow> implements t r \<Longrightarrow> implements s r"
  using implements_trans [of s t "[]" "fst r" "snd r"] implements_same [of s t "[]"] by simp

lemma WsShutdown_implements: "implements s (WsShutdown s)"
proof (cases "ws_stoped s")
  case False
  have "\<exists>w'. room_step\<^sup>*\<^sup>* w w' \<and> seen_as (s\<lparr>ws_stoped := True\<rparr>) w' p \<and> main_tasks w' = main_tasks w @ [ShutdownTask (ws_stream_id s)] \<and> room w' = room w"
    if "seen_as s w p" for w p
    using that False room_step.failure [of p w]
    by (intro exI [of _ "Shutdown p w"]) (auto simp: seen_as_def Shutdown_def on_stream_nth stream_id_def)
  then show ?thesis using False by (simp add: WsShutdown_def implements_def)
qed (auto simp: WsShutdown_def same_life_def intro: implements_same)

lemma connected_implements: "same_life s t \<Longrightarrow> implements s (t\<lparr>ws_connected := True\<rparr>, [StreamConnected])"
proof -
  assume st: "same_life s t"
  have "\<exists>w'. room_step\<^sup>*\<^sup>* w w' \<and> seen_as (t\<lparr>ws_connected := True\<rparr>) w' p \<and> main_tasks w' = main_tasks w @ [ConnectedTask (ws_stream_id s)] \<and> room w' = room w"
    if "seen_as s w p" for w p
  proof (intro exI conjI)
    let ?v = "Room.OnDtlsTransportSetup True p w"
    have "room_step w ?v" using that by (intro room_step.connected) (simp add: seen_as_def)
    moreover have "room_step ?v (SetEstablished p ?v)"
      using that by (intro room_step.established) (simp_all add: seen_as_def Room.OnDtlsTransportSetup_def on_stream_nth)
    ultimately show "room_step\<^sup>*\<^sup>* w (SetEstablished p ?v)" by (meson converse_rtranclp_into_rtranclp rtranclp.rtrancl_refl)
  qed (use that st in \<open>simp_all add: seen_as_def same_life_def Room.OnDtlsTransportSetup_def SetEstablished_def on_stream_nth stream_id_def\<close>)
  then show ?thesis using st by (simp add: implements_def same_life_def)
qed

lemma same_life_refl [simp]: "same_life s s"
  by (simp add: same_life_def)

lemma send_udp_life [simp]: "same_life s (send_udp d t) = same_life s t"
  by (simp add: send_udp_def same_life_def split: option.split)

lemma on_ice_event_implements: "implements s (on_ice_event e s)"
proof (cases e)
  case IceCompleted
  have "same_life s (OnIceConnectionCompleted s)"
    by (simp add: OnIceConnectionCompleted_def Let_def same_life_def split: option.split prod.split)
  then show ?thesis using IceCompleted by simp
qed (auto simp: WsShutdown_implements OnStunMessageSend_def intro!: implements_same)

lemma on_ice_events_implements: "implements s (on_ice_events es s)"
proof (induction es arbitrary: s)
  case (Cons e es)
  obtain t a where t: "on_ice_event e s = (t, a)" by fastforce
  obtain u b where u: "on_ice_events es t = (u, b)" by fastforce
  show ?case using implements_trans [of s t a u b] on_ice_event_implements [of s e] Cons.IH [of t] by (simp add: t u)
qed simp

lemma WsOnDtlsTransportSetup_implements: "WsOnDtlsTransportSetup lib suite s = Returns r \<Longrightarrow> implements s r"
  by (auto simp: WsOnDtlsTransportSetup_def Let_def same_life_def split: option.splits prod.splits if_splits
      intro!: connected_implements implements_before [OF _ WsShutdown_implements])

lemma on_dtls_event_implements: "on_dtls_event lib e s = Returns r \<Longrightarrow> implements s r"
  by (cases e) (auto intro: WsOnDtlsTransportSetup_implements WsShutdown_implements implements_same)

lemma on_dtls_events_implements: "on_dtls_events lib es s = Returns r \<Longrightarrow> implements s r"
proof (induction es arbitrary: s r)
  case (Cons e es)
  then show ?case
    by (auto simp: bind_outcome_eq_Returns intro: implements_trans on_dtls_event_implements)
qed simp

lemma with_dtls_implements: "with_dtls lib f s = Returns r \<Longrightarrow> implements s r"
  by (auto simp: with_dtls_def bind_outcome_eq_Returns split: option.splits intro: on_dtls_events_implements)

lemma receive_media_implements:
  "(\<And>d. told (ws_stream_id s) (deliver d) = []) \<Longrightarrow> implements s (receive_media deliver unprotect dat s)"
  by (auto simp: receive_media_def intro!: implements_same split: option.split outcome.split)

lemma send_life:
  "WsSendRtp lib d s = Returns t \<Longrightarrow> same_life s t" "WsSendRtcp lib p s = Returns t \<Longrightarrow> same_life s t"
  by (auto simp: WsSendRtp_def WsSendRtcp_def send_protected_def split: if_splits option.splits outcome.splits)

lemma WsStop_implements: "WsStop lib s = Returns r \<Longrightarrow> implements s r"
proof -
  assume r: "WsStop lib s = Returns r"
  obtain t es where t: "(case ws_dtls s of None \<Rightarrow> (None, []) | Some t \<Rightarrow> apfst Some (DtlsStop (lb_pending lib) t)) = (t, es)" by fastforce
  obtain u a where u: "on_dtls_events lib es (s\<lparr>ws_dtls := t\<rparr>) = Returns (u, a)"
    "r = (let (v, b) = WsShutdown (u\<lparr>ws_socket := map_option SocketClose (ws_socket u)\<rparr>) in (v, a @ b))"
    using r t by (auto simp: WsStop_def bind_outcome_eq_Returns split_beta)
  have "implements s (u, a)" using on_dtls_events_implements [OF u(1)] by (rule implements_before [rotated]) (simp add: same_life_def)
  moreover have "implements u (WsShutdown (u\<lparr>ws_socket := map_option SocketClose (ws_socket u)\<rparr>))"
    by (rule implements_before [OF _ WsShutdown_implements]) (simp add: same_life_def)
  ultimately show ?thesis unfolding u(2) by (auto split: prod.split intro: implements_trans)
qed

lemma datagram_implements: "WsOnUdpSocketDataReceive lib d ep s = Returns r \<Longrightarrow> implements s r"
proof -
  have ice: "implements s (on_ice_events es (s\<lparr>ws_ice := i\<rparr>))" for es i
    by (rule implements_before [OF _ on_ice_events_implements]) (simp add: same_life_def)
  show "WsOnUdpSocketDataReceive lib d ep s = Returns r \<Longrightarrow> ?thesis"
    by (auto simp: WsOnUdpSocketDataReceive_def bind_outcome_eq_Returns ice receive_media_implements
        split: if_splits option.splits intro: with_dtls_implements)
qed

text \<open>C5. The model of a stream in a room is an abstraction of the connection: whatever a stream does on an input, the room
  can do in its steps, with the same tasks posted to the main thread in the same order.\<close>

theorem stream_implements_room_view:
  assumes "handle_input digest x s = Returns (s', evs)" "seen_as s w p"
  shows "\<exists>w'. room_step\<^sup>*\<^sup>* w w' \<and> seen_as s' w' p \<and> main_tasks w' = main_tasks w @ concat (map (told (ws_stream_id s)) evs) \<and> room w' = room w"
proof -
  have "implements s (s', evs)" using assms(1) WsShutdown_implements [of s]
    by (cases x) (auto simp: bind_outcome_eq_Returns intro: datagram_implements with_dtls_implements WsStop_implements
        implements_Nil [OF send_life(1)] implements_Nil [OF send_life(2)])
  then show ?thesis using assms(2) by (auto simp: implements_def)
qed

section \<open>Media only with the announced peer\<close>

definition announced_peer :: "WebrtcStream \<Rightarrow> (Hash \<times> bytes) option" where
  "announced_peer s = map_option (\<lambda>t. (dt_remote_hash t, dt_remote_fingerprint t)) (ws_dtls s)"

fun is_media :: "stream_event \<Rightarrow> bool" where
  "is_media (RtpReceived _) = True"
| "is_media (RtcpReceived _) = True"
| "is_media _ = False"

text \<open>Nothing that matters for the identity of the peer happens.\<close>

definition harmless :: "WebrtcStream \<Rightarrow> WebrtcStream \<times> stream_event list \<Rightarrow> bool" where
  "harmless s r \<longleftrightarrow> announced_peer (fst r) = announced_peer s \<and> (ws_connected (fst r) \<longrightarrow> ws_connected s)
     \<and> (\<not> ws_connected s \<longrightarrow> (\<forall>e \<in> set (snd r). \<not> is_media e))"

lemma harmless_Nil: "harmless s (t, []) \<longleftrightarrow> announced_peer t = announced_peer s \<and> (ws_connected t \<longrightarrow> ws_connected s)"
  by (simp add: harmless_def)

lemma harmless_trans: "harmless s (t, a) \<Longrightarrow> harmless t (u, b) \<Longrightarrow> harmless s (u, a @ b)"
  by (auto simp: harmless_def)

lemma harmless_before: "announced_peer t = announced_peer s \<Longrightarrow> ws_connected t = ws_connected s \<Longrightarrow> harmless t r \<Longrightarrow> harmless s r"
  by (auto simp: harmless_def)

lemma harmless_WsShutdown: "harmless s (WsShutdown s)"
  by (simp add: harmless_def WsShutdown_def announced_peer_def)

lemma send_udp_peer [simp]: "announced_peer (send_udp d s) = announced_peer s" "ws_connected (send_udp d s) = ws_connected s"
  by (simp_all add: send_udp_def announced_peer_def split: option.split)

lemma DtlsStart_peer: "DtlsStart setup worker t = (ok, t') \<Longrightarrow> dt_remote_hash t' = dt_remote_hash t \<and> dt_remote_fingerprint t' = dt_remote_fingerprint t"
  by (auto simp: DtlsStart_def Let_def split: option.splits if_splits)

lemma completed_peer: "announced_peer (OnIceConnectionCompleted s) = announced_peer s" "ws_connected (OnIceConnectionCompleted s) = ws_connected s"
  by (auto simp: OnIceConnectionCompleted_def Let_def announced_peer_def dest: DtlsStart_peer split: option.split prod.split)

lemma harmless_on_ice_event: "harmless s (on_ice_event e s)"
  by (cases e) (auto simp: harmless_WsShutdown harmless_Nil completed_peer OnStunMessageSend_def)

lemma harmless_on_ice_events: "harmless s (on_ice_events es s)"
proof (induction es arbitrary: s)
  case (Cons e es)
  obtain t a where t: "on_ice_event e s = (t, a)" by fastforce
  obtain u b where u: "on_ice_events es t = (u, b)" by fastforce
  show ?case using harmless_trans [of s t a u b] harmless_on_ice_event [of s e] Cons.IH [of t] by (simp add: t u)
qed (simp add: harmless_Nil)

fun no_setup :: "dtls_event \<Rightarrow> bool" where
  "no_setup (DtlsSetup _ _ _) = False"
| "no_setup _ = True"

lemma harmless_on_dtls_events: "\<forall>e \<in> set es. no_setup e \<Longrightarrow> on_dtls_events lib es s = Returns r \<Longrightarrow> harmless s r"
proof (induction es arbitrary: s r)
  case (Cons e es)
  then obtain t a u b where t: "on_dtls_event lib e s = Returns (t, a)" "on_dtls_events lib es t = Returns (u, b)" "r = (u, a @ b)"
    by (auto simp: bind_outcome_eq_Returns)
  have "harmless s (t, a)" using t(1) Cons.prems(1) harmless_WsShutdown [of s] by (cases e) (auto simp: harmless_Nil)
  then show ?case using Cons.IH [OF _ t(2)] Cons.prems(1) by (auto simp: t(3) intro: harmless_trans)
qed (simp add: harmless_Nil)

lemma harmless_with_dtls:
  "(\<And>t es. ws_dtls s = Some t \<Longrightarrow> f t = Returns es \<Longrightarrow> \<forall>e \<in> set es. no_setup e) \<Longrightarrow> with_dtls lib f s = Returns r \<Longrightarrow> harmless s r"
  by (auto simp: with_dtls_def bind_outcome_eq_Returns harmless_Nil split: option.splits intro: harmless_on_dtls_events)

lemma no_setup_pending: "e \<in> set (TrySendPendingData pending) \<Longrightarrow> no_setup e"
  by (auto simp: TrySendPendingData_def split: if_splits)

lemma harmless_datagram: "WsOnUdpSocketDataReceive lib d ep s = Returns r \<Longrightarrow> harmless s r"
proof -
  have ice: "harmless s (on_ice_events es (s\<lparr>ws_ice := i\<rparr>))" for es i
    by (rule harmless_before [OF _ _ harmless_on_ice_events]) (simp_all add: announced_peer_def)
  have media: "harmless s (receive_media deliver unprotect d s)" for deliver unprotect
    by (auto simp: receive_media_def harmless_def split: option.split outcome.split)
  have dtls: "harmless s r" if "with_dtls lib (ProcessDataFromPeer (lb_pending lib) (lb_close_notify lib)) s = Returns r" for r
    using that by (rule harmless_with_dtls [rotated]) (auto simp: ProcessDataFromPeer_def no_setup_pending split: if_splits)
  show "WsOnUdpSocketDataReceive lib d ep s = Returns r \<Longrightarrow> ?thesis"
    by (auto simp: WsOnUdpSocketDataReceive_def bind_outcome_eq_Returns ice media harmless_Nil split: if_splits option.splits intro: dtls)
qed

lemma harmless_send:
  "WsSendRtp lib d s = Returns t \<Longrightarrow> harmless s (t, [])" "WsSendRtcp lib p s = Returns t \<Longrightarrow> harmless s (t, [])"
  by (auto simp: WsSendRtp_def WsSendRtcp_def send_protected_def harmless_Nil split: if_splits option.splits outcome.splits)

lemma harmless_WsStop: "WsStop lib s = Returns r \<Longrightarrow> harmless s r"
proof -
  assume r: "WsStop lib s = Returns r"
  obtain t es where t: "(case ws_dtls s of None \<Rightarrow> (None, []) | Some t \<Rightarrow> apfst Some (DtlsStop (lb_pending lib) t)) = (t, es)" by fastforce
  then have tp: "announced_peer (s\<lparr>ws_dtls := t\<rparr>) = announced_peer s" "\<forall>e \<in> set es. no_setup e"
    by (auto simp: announced_peer_def DtlsStop_def split: option.splits if_splits dest: no_setup_pending)
  obtain u a where u: "on_dtls_events lib es (s\<lparr>ws_dtls := t\<rparr>) = Returns (u, a)"
    "r = (let (v, b) = WsShutdown (u\<lparr>ws_socket := map_option SocketClose (ws_socket u)\<rparr>) in (v, a @ b))"
    using r t by (auto simp: WsStop_def bind_outcome_eq_Returns split_beta)
  have "harmless s (u, a)" using harmless_on_dtls_events [OF tp(2) u(1)] tp(1) by (rule_tac harmless_before) simp_all
  moreover have "harmless u (WsShutdown (u\<lparr>ws_socket := map_option SocketClose (ws_socket u)\<rparr>))"
    by (rule harmless_before [OF _ _ harmless_WsShutdown]) (simp_all add: announced_peer_def)
  ultimately show ?thesis unfolding u(2) by (auto split: prod.split intro: harmless_trans)
qed

text \<open>Only the end of a handshake with a peer whose certificate fits connects the stream.\<close>

lemma input_harmless_or_verified:
  assumes "handle_input digest x s = Returns (s', evs)"
  shows "harmless s (s', evs) \<or> announced_peer s' = announced_peer s
    \<and> (\<exists>lib c profile export t. x = HandshakeDone lib (Some c) profile export \<and> ws_dtls s = Some t \<and> CheckRemoteCertificate digest (Some c) t)"
proof (cases "\<exists>lib peer profile export. x = HandshakeDone lib peer profile export")
  case False
  have dtls: "harmless s (s', evs)" if "with_dtls lib (\<lambda>t. Returns (f t)) s = Returns (s', evs)" "\<And>t. \<forall>e \<in> set (f t). no_setup e" for lib f
    by (rule harmless_with_dtls [OF _ that(1)]) (use that(2) in blast)
  have "\<forall>e \<in> set (CheckPending p t). no_setup e" "\<forall>e \<in> set (DtlsTimeout b p t). no_setup e" for b p t
    using no_setup_pending [of _ p] by (auto simp: CheckPending_def DtlsTimeout_def)
  then have "harmless s (s', evs)"
    using assms False harmless_WsShutdown [of s] harmless_send [of _ _ s s']
    by (cases x) (auto simp: bind_outcome_eq_Returns intro: harmless_datagram harmless_WsStop dtls)
  then show ?thesis ..
next
  case True
  then obtain lib peer profile export where x: "x = HandshakeDone lib peer profile export" by blast
  show ?thesis
  proof (cases "\<exists>t. ws_dtls s = Some t \<and> CheckRemoteCertificate digest peer t")
    case False
    have "with_dtls lib (\<lambda>t. Returns (run_setup digest peer profile export t)) s = Returns (s', evs)" using assms by (simp add: x)
    then have "harmless s (s', evs)"
      by (rule harmless_with_dtls [rotated]) (use False in \<open>auto simp: run_setup_def SetupSRTP_def\<close>)
    then show ?thesis ..
  next
    case True
    then obtain t where t: "ws_dtls s = Some t" "CheckRemoteCertificate digest peer t" by blast
    have "announced_peer u = announced_peer v" if "WsOnDtlsTransportSetup lib suite v = Returns (u, a)" for u v a suite
      using that by (auto simp: WsOnDtlsTransportSetup_def WsShutdown_def Let_def announced_peer_def split: option.splits prod.splits if_splits)
    then have "announced_peer s' = announced_peer s"
      using assms t by (auto simp: x with_dtls_def run_setup_def SetupSRTP_def ExtractSrtpParams_def Let_def bind_outcome_eq_Returns
          split: option.splits prod.splits if_splits)
    moreover obtain c where "peer = Some c" using t(2) by (auto simp: CheckRemoteCertificate_def split: option.splits)
    ultimately show ?thesis using x t by blast
  qed
qed

lemma check_announced:
  "map_option (\<lambda>t. (dt_remote_hash t, dt_remote_fingerprint t)) (Some t) = map_option (\<lambda>t. (dt_remote_hash t, dt_remote_fingerprint t)) (Some u)
   \<Longrightarrow> CheckRemoteCertificate digest peer t = CheckRemoteCertificate digest peer u"
  by (simp add: CheckRemoteCertificate_def split: option.split)

text \<open>C1. Whatever datagrams, timers, errors and handshakes come, a stream counts as connected and hands on media only after
  a handshake with a peer whose certificate has the fingerprint that the offer announced.\<close>

theorem media_needs_verified_peer:
  assumes "stream_run digest xs s = Returns (s', evs)" "\<not> ws_connected s" "ws_dtls s = Some t"
    and "ws_connected s' \<or> (\<exists>e \<in> set evs. is_media e)"
  shows "\<exists>lib c profile export. HandshakeDone lib (Some c) profile export \<in> set xs \<and> CheckRemoteCertificate digest (Some c) t"
  using assms
proof (induction xs arbitrary: s t evs)
  case (Cons x xs)
  then obtain u a b where u: "handle_input digest x s = Returns (u, a)" "stream_run digest xs u = Returns (s', b)" "evs = a @ b"
    by (auto simp: bind_outcome_eq_Returns)
  from input_harmless_or_verified [OF u(1)] show ?case
  proof
    assume h: "harmless s (u, a)"
    then have "announced_peer u = announced_peer s" by (simp add: harmless_def)
    then obtain v where v: "ws_dtls u = Some v" "announced_peer u = announced_peer s" using Cons.prems(3) by (auto simp: announced_peer_def)
    then have same: "CheckRemoteCertificate digest peer v = CheckRemoteCertificate digest peer t" for peer
      using Cons.prems(3) by (intro check_announced) (simp add: announced_peer_def)
    have uc: "\<not> ws_connected u" using h Cons.prems(2) by (auto simp: harmless_def)
    have "ws_connected s' \<or> (\<exists>e \<in> set b. is_media e)" using Cons.prems(2,4) h by (auto simp: u(3) harmless_def)
    from Cons.IH [OF u(2) uc v(1) this] show ?thesis using same by auto
  qed (use Cons.prems(3) in auto)
qed simp

section \<open>Datagrams find their way\<close>

lemma IsStun_full: "length tid = 12 \<Longrightarrow> IsStun (stun_full 1 tid as mac)"
  by (simp add: IsStun_def stun_full_def stun_signed_def stun_head_def Let_def StoreUInt16BE_def)

lemma text_of_bytes [simp]: "text_of (bytes_of s) = s"
proof -
  have "unat (of_char c :: u8) = of_char c" for c :: char
  proof -
    have "unat (of_nat (of_char c) :: u8) = of_char c mod 256" by (simp add: unat_of_nat)
    then show ?thesis by (simp add: of_nat_of_char del: of_char_mod_256)
  qed
  then show ?thesis by (simp add: text_of_def bytes_of_def o_def)
qed

lemma version_two: "drop_bit 6 (b :: u8) = 2 \<longleftrightarrow> 128 \<le> b \<and> b < 192"
proof -
  have "drop_bit 6 b = 2 \<longleftrightarrow> unat b div 64 = 2"
    by (simp add: word_unat_eq_iff unat_drop_bit_eq drop_bit_eq_div unat_div)
  also have "\<dots> \<longleftrightarrow> 128 \<le> unat b \<and> unat b < 192" by linarith
  finally show ?thesis by (simp add: word_le_nat_alt word_less_nat_alt)
qed

lemma demux_disjoint:
  "IsStun d \<Longrightarrow> \<not> IsDtls d \<and> \<not> IsRtcp d \<and> \<not> IsRtpPacket d"
  "IsDtls d \<Longrightarrow> \<not> IsRtcp d \<and> \<not> IsRtpPacket d"
  by (auto simp: IsStun_def IsDtls_def IsRtcp_def IsRtpPacket_def kRtpVersion_def Let_def version_two word_le_nat_alt word_less_nat_alt)

text \<open>C35. The first STUN request of a client reaches its stream: its user name is made of room and stream, and the proxy
  hands it to the stream of that identifier in that room. The names must not be empty nor contain a slash or a colon.\<close>

theorem first_check_reaches_stream:
  assumes "IsStun d" "d = hdr @ enc_attributes as @ enc_attribute kAttrUsername len (user @ fill) @ rest" "length hdr = 20"
    and "well_padded as" "\<forall>(t, len, v) \<in> set as. t \<noteq> kAttrUsername"
    and "user = MakeUfrag (bytes_of rid) (bytes_of sid) @ [0x3A] @ remote" "unat len = length user" "remote \<noteq> []" "0x3A \<notin> set remote"
    and "rid \<noteq> []" "sid \<noteq> []" "{0x2F, 0x3A} \<inter> (set (bytes_of rid) \<union> set (bytes_of sid)) = {}"
    and "GetRoomById rid srv = Some w" "GetStreamById sid w = Some p"
  shows "proxy_target d srv = Returns (Some (rid, p))"
proof -
  obtain ufrag where "FastGetLocalUfrag d = Returns ufrag" "ExtractUfragInfo ufrag = Some (bytes_of rid, bytes_of sid)"
    using ufrag_finds_stream [OF assms(3-7) _ _ assms(8,12,9,2)] assms(10,11) by (auto simp: bytes_of_def)
  then show ?thesis using assms(1,13,14) by (simp add: proxy_target_def)
qed

text \<open>C36. One datagram with a wrong code ends a stream: a STUN request for the stream that is well formed but not signed
  with its password does not just go unanswered, the stream is shut down and its room told so.\<close>

theorem forged_check_ends_stream:
  assumes "ws_ice s = Some ice" "\<not> ws_stoped s" "length tid = 12" "length mac = 20"
    and "plain (ice_local_ufrag ice @ [0x3A] @ ice_remote_ufrag ice) as"
    and "mac \<noteq> lb_hmac lib (ice_local_password ice) (stun_head 1 (attrs_len as + 24) tid as)"
  shows "WsOnUdpSocketDataReceive lib (stun_full 1 tid as mac) ep s = Returns (s\<lparr>ws_stoped := True\<rparr>, [StreamShutdown])"
proof -
  have "StunParse (lb_hmac lib) (stun_full 1 tid as mac) (new_stun (ice_local_ufrag ice) (ice_local_password ice) (ice_remote_ufrag ice)) = Fails"
    using signed_parsed [OF assms(3-5), of "lb_hmac lib" 1 "ice_local_password ice"] assms(6) by simp
  then show ?thesis using assms(1,2) IsStun_full [OF assms(3)]
    by (simp add: WsOnUdpSocketDataReceive_def ProcessStunMessage_def WsShutdown_def)
qed

text \<open>A rightly signed check that does not nominate is answered, but not to where it came from: before a candidate is
  selected the answer goes to address 0.0.0.0 and port 0.\<close>

theorem check_before_nomination_misses_client:
  assumes "ws_ice s = Some ice" "ws_selected_endpoint s = V4 0 0" "ws_socket s = Some u" "length tid = 12" "length mac = 20"
    and "plain (ice_local_ufrag ice @ [0x3A] @ ice_remote_ufrag ice) as" "\<not> nominates as"
    and "mac = lb_hmac lib (ice_local_password ice) (stun_head 1 (attrs_len as + 24) tid as)"
    and "\<forall>k d. length (lb_hmac lib k d) = 20" "64 \<le> length (lb_memory lib)"
  shows "\<exists>response. length response \<le> 64 \<and> WsOnUdpSocketDataReceive lib (stun_full 1 tid as mac) ep s
     = Returns (s\<lparr>ws_socket := Some (SendData (V4 0 0) response u)\<rparr>, [])"
proof -
  let ?m = "(new_stun (ice_local_ufrag ice) (ice_local_password ice) (ice_remote_ufrag ice))\<lparr>transaction_id := tid, has_use_candidate := False\<rparr>"
  obtain r where r: "CreateResponse (lb_hmac lib) (lb_memory lib) (SetXorMappedAddress ep ?m) = Some r" "stun_size r = 64"
    using CreateResponse_length [of "SetXorMappedAddress ep ?m" "lb_hmac lib" "lb_memory lib"] assms(4,9,10) by (auto simp: SetXorMappedAddress_def)
  have "ProcessStunMessage (lb_hmac lib) (lb_memory lib) (stun_full 1 tid as mac) ep ice = Returns (ice, [StunSend (stun_data r) 64 ep])"
    using r signed_parsed [OF assms(4-6), of "lb_hmac lib" 1 "ice_local_password ice"] assms(7,8) by (simp add: ProcessStunMessage_def)
  then show ?thesis using assms(1-3) IsStun_full [OF assms(4)]
    by (intro exI [of _ "take 64 (stun_data r)"]) (simp add: WsOnUdpSocketDataReceive_def OnStunMessageSend_def send_udp_def)
qed

section \<open>An example\<close>

definition demo_library :: library where
  "demo_library = \<lparr>lb_hmac = (\<lambda>k d. replicate 20 7), lb_memory = replicate 64 0, lb_tag = (\<lambda>_. 10), lb_srtp_send = True, lb_srtp_receive = True,
     lb_unprotect = (\<lambda>d. None), lb_protect = (\<lambda>d. None), lb_pending = [], lb_close_notify = False\<rparr>"

definition demo_transport :: DtlsTransport where
  "demo_transport = new_dtls\<lparr>dt_ssl := True, dt_remote_hash := kSha1\<rparr>"

definition demo_stream :: WebrtcStream where
  "demo_stream = (new_webrtc_stream ''r'' ''s'')\<lparr>ws_dtls := Some demo_transport, ws_send_srtp := Some new_srtp, ws_recv_srtp := Some new_srtp,
     ws_ice := Some (new_ice (replicate 24 0) [0x72] [0x73] [0x63]), ws_socket := Some new_udp_socket\<rparr>"

definition demo_handshake :: "unit stream_input" where
  "demo_handshake = HandshakeDone demo_library (Some ()) (Some ''SRTP_AES128_CM_SHA1_80'') (\<lambda>n. Some (replicate n 1))"

lemma demo_connects: "\<exists>s. handle_input (\<lambda>h c. Some (replicate 20 0)) demo_handshake demo_stream = Returns (s, [StreamConnected]) \<and> ws_connected s"
  by (simp add: demo_handshake_def demo_stream_def demo_library_def demo_transport_def new_webrtc_stream_def with_dtls_def run_setup_def SetupSRTP_def
      CheckRemoteCertificate_def memcmp_equal_def new_dtls_def EVP_MAX_MD_SIZE_def ExtractSrtpParams_def GetCipherSuiteFromString_def
      split_material_def Let_def WsOnDtlsTransportSetup_def SrtpInit_def new_srtp_def)

theorem media_needs_verified_peer_witness:
  "\<exists>lib c profile export. HandshakeDone lib (Some c) profile export \<in> set [demo_handshake]
     \<and> CheckRemoteCertificate (\<lambda>h c. Some (replicate 20 0)) (Some c) demo_transport"
proof -
  obtain s where s: "handle_input (\<lambda>h c. Some (replicate 20 0)) demo_handshake demo_stream = Returns (s, [StreamConnected])" "ws_connected s"
    using demo_connects by blast
  have "stream_run (\<lambda>h c. Some (replicate 20 0)) [demo_handshake] demo_stream = Returns (s, [StreamConnected])" using s(1) by simp
  from media_needs_verified_peer [OF this] s(2) show ?thesis by (auto simp: demo_stream_def new_webrtc_stream_def)
qed

theorem stream_implements_room_view_witness:
  "\<exists>w'. room_step\<^sup>*\<^sup>* alice_publishes w' \<and> main_tasks w' = [ConnectedTask ''s'']"
proof -
  obtain s where s: "handle_input (\<lambda>h c. Some (replicate 20 0)) demo_handshake demo_stream = Returns (s, [StreamConnected])"
    using demo_connects by blast
  have "seen_as demo_stream alice_publishes 0" by (simp add: seen_as_def alice_world demo_stream_def new_webrtc_stream_def)
  from stream_implements_room_view [OF s this] show ?thesis by (auto simp: alice_world demo_stream_def new_webrtc_stream_def)
qed

theorem forged_check_ends_stream_witness:
  "WsOnUdpSocketDataReceive demo_library (stun_full 1 (replicate 12 5) [] (replicate 20 8)) (V4 1 2) demo_stream
     = Returns (demo_stream\<lparr>ws_stoped := True\<rparr>, [StreamShutdown])"
  by (rule forged_check_ends_stream)
    (simp_all add: demo_stream_def new_webrtc_stream_def demo_library_def plain_def well_padded_def)

theorem check_before_nomination_misses_client_witness:
  "\<exists>response. WsOnUdpSocketDataReceive demo_library (stun_full 1 (replicate 12 5) [] (replicate 20 7)) (V4 1 2) demo_stream
     = Returns (demo_stream\<lparr>ws_socket := Some (SendData (V4 0 0) response new_udp_socket)\<rparr>, [])"
proof -
  have "ws_ice demo_stream = Some (new_ice (replicate 24 0) [0x72] [0x73] [0x63])" "ws_selected_endpoint demo_stream = V4 0 0"
    "ws_socket demo_stream = Some new_udp_socket" by (simp_all add: demo_stream_def new_webrtc_stream_def)
  note ice = this
  have lib: "lb_hmac demo_library = (\<lambda>k d. replicate 20 7)" "lb_memory demo_library = replicate 64 0" by (simp_all add: demo_library_def)
  have "\<exists>response. length response \<le> 64 \<and> WsOnUdpSocketDataReceive demo_library (stun_full 1 (replicate 12 5) [] (replicate 20 7)) (V4 1 2) demo_stream
     = Returns (demo_stream\<lparr>ws_socket := Some (SendData (V4 0 0) response new_udp_socket)\<rparr>, [])"
    by (rule check_before_nomination_misses_client [OF ice]) (simp_all add: lib plain_def well_padded_def nominates_def)
  then show ?thesis by blast
qed

theorem first_check_reaches_stream_witness:
  "proxy_target ((StoreUInt16BE 1 @ StoreUInt16BE 12 @ StoreUInt32BE kStunMagicCookie @ replicate 12 5)
     @ enc_attribute kAttrUsername 5 ([0x72, 0x2F, 0x73, 0x3A, 0x78] @ [0, 0, 0])) alice_server = Returns (Some (''r'', 0))"
proof -
  let ?hdr = "StoreUInt16BE 1 @ StoreUInt16BE 12 @ StoreUInt32BE kStunMagicCookie @ replicate 12 5"
  let ?d = "?hdr @ enc_attribute kAttrUsername 5 ([0x72, 0x2F, 0x73, 0x3A, 0x78] @ [0, 0, 0])"
  have b: "bytes_of ''r'' = [0x72]" "bytes_of ''s'' = [0x73]" by (simp_all add: bytes_of_def)
  have 1: "IsStun ?d" by (simp add: IsStun_def StoreUInt16BE_def)
  have 2: "?d = ?hdr @ enc_attributes [] @ enc_attribute kAttrUsername 5 ([0x72, 0x2F, 0x73, 0x3A, 0x78] @ [0, 0, 0]) @ []" by (simp add: enc_attributes_def)
  have 3: "GetRoomById ''r'' alice_server = Some alice_publishes" by (simp add: alice_server_def GetRoomById_def)
  have 4: "user_ok" if "user_ok = ([0x72, 0x2F, 0x73, 0x3A, 0x78] = MakeUfrag (bytes_of ''r'') (bytes_of ''s'') @ [0x3A] @ [0x78 :: u8])" for user_ok
    using that by (simp add: b MakeUfrag_def)
  show ?thesis
    by (rule first_check_reaches_stream [of ?d ?hdr "[]" 5 "[0x72, 0x2F, 0x73, 0x3A, 0x78]" "[0, 0, 0]" "[]" "''r''" "''s''" "[0x78]" alice_server alice_publishes 0,
          OF 1 2 _ _ _ 4 [OF refl] _ _ _ _ _ _ 3 alice_stream(1)])
      (simp_all add: b well_padded_def)
qed

end
