(* ===== verification/Dtls_Context.thy ===== *)
theory Dtls_Context
  imports Dtls_Transport
begin

text \<open>
  The key and the certificate of the server, \<^verbatim>\<open>src/src/dtls_srtp/dtls_context.{h,cpp}\<close>. OpenSSL is outside: which of
  its calls succeed, and the digests of the certificate it makes, are the argument \<open>lib\<close>. What the code decides is the
  order of the calls, what happens after each failure, and which objects it frees. A pointer is null, points to an
  object, or points to one that has been freed; to free an object twice is undefined behaviour (\<open>OutOfBounds\<close>), to
  free a null pointer does nothing.
\<close>

datatype pointer = Null | Object | Freed

record openssl =
  lib_ctx :: bool
  lib_pkey :: bool
  lib_rsa :: bool
  lib_x509 :: bool
  lib_filled :: bool
  lib_use_certificate :: bool
  lib_use_private_key :: bool
  lib_cipher_list :: bool
  lib_srtp_refused :: bool
  lib_digest :: "Hash \<Rightarrow> bytes"

record DtlsContext =
  dc_ssl_ctx :: pointer
  dc_private_key :: pointer
  dc_certificate :: pointer
  dc_available_hashes :: "Hash list"
  dc_fingerprints :: "Hash \<rightharpoonup> string"

definition new_dtls_context :: DtlsContext where
  "new_dtls_context = \<lparr>dc_ssl_ctx = Null, dc_private_key = Null, dc_certificate = Null, dc_available_hashes = [], dc_fingerprints = Map.empty\<rparr>"

fun free_pointer :: "pointer \<Rightarrow> pointer outcome" where
  "free_pointer Null = Returns Null"
| "free_pointer Object = Returns Freed"
| "free_pointer Freed = OutOfBounds"

text \<open>After a failure the key or the certificate is freed, but the pointer to it stays.\<close>

definition MakeRSAKeyPair :: "openssl \<Rightarrow> DtlsContext \<Rightarrow> (bool \<times> DtlsContext) outcome" where
  "MakeRSAKeyPair lib c =
     (let c = c\<lparr>dc_private_key := if lib_pkey lib then Object else Null\<rparr>
      in if \<not> lib_pkey lib \<or> \<not> lib_rsa lib
         then bind_outcome (free_pointer (dc_private_key c)) (\<lambda>p. Returns (False, c\<lparr>dc_private_key := p\<rparr>))
         else Returns (True, c))"

definition MakeCertificate :: "openssl \<Rightarrow> DtlsContext \<Rightarrow> (bool \<times> DtlsContext) outcome" where
  "MakeCertificate lib c =
     (let c = c\<lparr>dc_certificate := if lib_x509 lib then Object else Null\<rparr>
      in if \<not> lib_x509 lib \<or> \<not> lib_filled lib
         then bind_outcome (free_pointer (dc_certificate c)) (\<lambda>p. Returns (False, c\<lparr>dc_certificate := p\<rparr>))
         else Returns (True, c))"

definition release_pointer :: "pointer \<Rightarrow> pointer outcome" where
  "release_pointer p = (if p \<noteq> Null then bind_outcome (free_pointer p) (\<lambda>_. Returns Null) else Returns Null)"

definition ReleaseResources :: "DtlsContext \<Rightarrow> DtlsContext outcome" where
  "ReleaseResources c =
     bind_outcome (release_pointer (dc_private_key c)) (\<lambda>p.
     bind_outcome (release_pointer (dc_certificate c)) (\<lambda>q.
     bind_outcome (release_pointer (dc_ssl_ctx c)) (\<lambda>r.
     Returns (c\<lparr>dc_private_key := p, dc_certificate := q, dc_ssl_ctx := r\<rparr>))))"

definition give_up :: "DtlsContext \<Rightarrow> (bool \<times> DtlsContext) outcome" where
  "give_up c = bind_outcome (ReleaseResources c) (\<lambda>c. Returns (False, c))"

text \<open>The loop over the hashes: the array for the text holds \<open>EVP_MAX_MD_SIZE\<close> bytes in hexadecimal.\<close>

fun make_fingerprints :: "openssl \<Rightarrow> Hash list \<Rightarrow> DtlsContext \<Rightarrow> (bool \<times> DtlsContext) outcome" where
  "make_fingerprints lib [] c = Returns (True, c)"
| "make_fingerprints lib (h # hs) c =
     (if h = kUnknownHash then give_up c
      else let d = lib_digest lib h in
        if d = [] then give_up c
        else if EVP_MAX_MD_SIZE < length d then OutOfBounds
        else make_fingerprints lib hs (c\<lparr>dc_fingerprints := (dc_fingerprints c)(h \<mapsto> hex_fingerprint d)\<rparr>))"

definition setup_steps :: "openssl \<Rightarrow> bool list" where
  "setup_steps lib = [lib_use_certificate lib, lib_use_private_key lib, lib_cipher_list lib, \<not> lib_srtp_refused lib]"

definition Initialize :: "openssl \<Rightarrow> DtlsContext \<Rightarrow> (bool \<times> DtlsContext) outcome" where
  "Initialize lib c =
     (let c = c\<lparr>dc_ssl_ctx := if lib_ctx lib then Object else Null\<rparr>
      in if \<not> lib_ctx lib then Returns (False, c)
         else
           bind_outcome (MakeRSAKeyPair lib c) (\<lambda>(ok, c). if \<not> ok then give_up c else
           bind_outcome (MakeCertificate lib c) (\<lambda>(ok, c). if \<not> ok then give_up c else
             if \<not> (\<forall>ok\<in>set (setup_steps lib). ok) then give_up c
             else let c = c\<lparr>dc_available_hashes := dc_available_hashes c @ [kSha1, kSha224, kSha256, kSha384, kSha512]\<rparr>
               in make_fingerprints lib (dc_available_hashes c) c)))"

definition GetCertificateFingerPrint :: "Hash \<Rightarrow> DtlsContext \<Rightarrow> string" where
  "GetCertificateFingerPrint h c = (case dc_fingerprints c h of None \<Rightarrow> [] | Some s \<Rightarrow> s)"

section \<open>What initialising can end in\<close>

definition half_made :: "openssl \<Rightarrow> bool" where
  "half_made lib \<longleftrightarrow> lib_ctx lib \<and> lib_pkey lib \<and> (\<not> lib_rsa lib \<or> lib_x509 lib \<and> \<not> lib_filled lib)"

definition all_made :: "openssl \<Rightarrow> bool" where
  "all_made lib \<longleftrightarrow> lib_ctx lib \<and> lib_pkey lib \<and> lib_rsa lib \<and> lib_x509 lib \<and> lib_filled lib \<and> (\<forall>ok\<in>set (setup_steps lib). ok)"

definition released :: "DtlsContext \<Rightarrow> bool" where
  "released c \<longleftrightarrow> dc_ssl_ctx c = Null \<and> dc_private_key c = Null \<and> dc_certificate c = Null"

lemma give_up_releases:
  assumes "dc_ssl_ctx c \<noteq> Freed" "dc_private_key c \<noteq> Freed" "dc_certificate c \<noteq> Freed"
  shows "give_up c = Returns (False, c\<lparr>dc_ssl_ctx := Null, dc_private_key := Null, dc_certificate := Null\<rparr>)"
proof -
  have r: "release_pointer p = Returns Null" if "p \<noteq> Freed" for p using that by (cases p) (simp_all add: release_pointer_def)
  show ?thesis using assms by (simp add: give_up_def ReleaseResources_def r)
qed

lemma give_up_twice: "dc_private_key c = Freed \<or> dc_private_key c \<noteq> Freed \<and> dc_certificate c = Freed \<Longrightarrow> give_up c = OutOfBounds"
  by (cases "dc_private_key c") (auto simp: give_up_def ReleaseResources_def release_pointer_def)

lemma make_fingerprints_all:
  assumes "\<And>h. h \<in> set hs \<Longrightarrow> h \<noteq> kUnknownHash \<and> lib_digest lib h \<noteq> [] \<and> length (lib_digest lib h) \<le> 64"
  shows "\<exists>c'. make_fingerprints lib hs c = Returns (True, c') \<and> c' = c\<lparr>dc_fingerprints := dc_fingerprints c'\<rparr>
     \<and> (\<forall>h. dc_fingerprints c' h = (if h \<in> set hs then Some (hex_fingerprint (lib_digest lib h)) else dc_fingerprints c h))"
  using assms
proof (induction hs arbitrary: c)
  case (Cons h hs)
  let ?c = "c\<lparr>dc_fingerprints := (dc_fingerprints c)(h \<mapsto> hex_fingerprint (lib_digest lib h))\<rparr>"
  obtain c' where c': "make_fingerprints lib hs ?c = Returns (True, c')" "c' = ?c\<lparr>dc_fingerprints := dc_fingerprints c'\<rparr>"
    "\<forall>k. dc_fingerprints c' k = (if k \<in> set hs then Some (hex_fingerprint (lib_digest lib k)) else dc_fingerprints ?c k)"
    using Cons.IH [of ?c] Cons.prems by auto
  have "make_fingerprints lib (h # hs) c = Returns (True, c')"
    using c'(1) Cons.prems [of h] by (simp add: EVP_MAX_MD_SIZE_def Let_def)
  then show ?case using c'(2,3) by auto
qed simp

text \<open>C40. Initialising succeeds exactly if every call of the library does, and then the fingerprints are those of the
  certificate. When it fails everything that was made is released again, but if the key or the certificate is left
  half-made it is freed twice.\<close>

theorem Initialize_frees_twice:
  assumes digests: "\<And>h. h \<noteq> kUnknownHash \<Longrightarrow> lib_digest lib h \<noteq> [] \<and> length (lib_digest lib h) \<le> 64"
  shows "case Initialize lib new_dtls_context of
      Returns (True, c) \<Rightarrow> all_made lib \<and> dc_ssl_ctx c = Object \<and> dc_private_key c = Object \<and> dc_certificate c = Object
        \<and> (\<forall>h. GetCertificateFingerPrint h c = (if h = kUnknownHash then [] else hex_fingerprint (lib_digest lib h)))
    | Returns (False, c) \<Rightarrow> \<not> all_made lib \<and> \<not> half_made lib \<and> released c
    | Fails \<Rightarrow> False
    | OutOfBounds \<Rightarrow> half_made lib"
proof (cases "all_made lib")
  case True
  let ?hs = "[kSha1, kSha224, kSha256, kSha384, kSha512]"
  let ?c = "new_dtls_context\<lparr>dc_ssl_ctx := Object, dc_private_key := Object, dc_certificate := Object, dc_available_hashes := ?hs\<rparr>"
  have "h \<in> set ?hs \<longleftrightarrow> h \<noteq> kUnknownHash" for h by (cases h) auto
  then obtain c' where c': "make_fingerprints lib ?hs ?c = Returns (True, c')" "c' = ?c\<lparr>dc_fingerprints := dc_fingerprints c'\<rparr>"
    "\<forall>h. dc_fingerprints c' h = (if h \<noteq> kUnknownHash then Some (hex_fingerprint (lib_digest lib h)) else None)"
    using make_fingerprints_all [of ?hs lib ?c] digests by (auto simp: new_dtls_context_def)
  have "Initialize lib new_dtls_context = make_fingerprints lib ?hs ?c"
    using True by (auto simp: Initialize_def all_made_def MakeRSAKeyPair_def MakeCertificate_def new_dtls_context_def Let_def
        simp del: make_fingerprints.simps)
  moreover have "dc_ssl_ctx c' = Object" "dc_private_key c' = Object" "dc_certificate c' = Object" by (subst c'(2), simp)+
  ultimately show ?thesis using True c'(1,3) by (simp add: GetCertificateFingerPrint_def)
next
  case False
  note defs = Initialize_def MakeRSAKeyPair_def MakeCertificate_def new_dtls_context_def Let_def
  show ?thesis
  proof (cases "half_made lib")
    case True
    then have "Initialize lib new_dtls_context = OutOfBounds"
      by (auto simp: defs half_made_def give_up_twice)
    then show ?thesis using True by simp
  next
    case half: False
    then have "\<exists>c. Initialize lib new_dtls_context = Returns (False, c) \<and> released c"
      using False by (auto simp: defs half_made_def all_made_def give_up_releases released_def)
    then show ?thesis using False half by auto
  qed
qed

theorem Initialize_frees_twice_witness:
  "let lib = \<lparr>lib_ctx = True, lib_pkey = True, lib_rsa = True, lib_x509 = True, lib_filled = False, lib_use_certificate = True,
     lib_use_private_key = True, lib_cipher_list = True, lib_srtp_refused = False, lib_digest = \<lambda>h. [0xAB]\<rparr>
   in Initialize lib new_dtls_context = OutOfBounds \<and> (\<exists>c. Initialize (lib\<lparr>lib_filled := True\<rparr>) new_dtls_context = Returns (True, c)
     \<and> GetCertificateFingerPrint kSha256 c = ''AB'')"
proof -
  let ?lib = "\<lparr>lib_ctx = True, lib_pkey = True, lib_rsa = True, lib_x509 = True, lib_filled = False, lib_use_certificate = True,
     lib_use_private_key = True, lib_cipher_list = True, lib_srtp_refused = False, lib_digest = \<lambda>h. [0xAB]\<rparr>"
  let ?good = "?lib\<lparr>lib_filled := True\<rparr>"
  have s: "half_made ?lib" "\<not> all_made ?lib" "all_made ?good" "\<not> half_made ?good"
    by (simp_all add: half_made_def all_made_def setup_steps_def)
  have "Initialize ?lib new_dtls_context = OutOfBounds"
    using Initialize_frees_twice [of ?lib] s by (auto split: outcome.splits bool.splits)
  moreover obtain c where "Initialize ?good new_dtls_context = Returns (True, c)" "GetCertificateFingerPrint kSha256 c = hex_fingerprint [0xAB]"
    using Initialize_frees_twice [of ?good] s by (auto split: outcome.splits bool.splits)
  moreover have "hex_fingerprint [0xAB] = ''AB''" by (simp add: hex_fingerprint_def hex_byte_def hex_digit_def char_of_def bit_0)
  ultimately show ?thesis by simp
qed

end
