(* ===== verification/Threads.thy ===== *)
theory Threads
  imports Prelude
begin

text \<open>
  Threads, the pool of worker threads and timers, \<^verbatim>\<open>src/src/base/threads.{h,cpp}\<close> and \<^verbatim>\<open>src/src/base/timer.{h,cpp}\<close>. The
  message loop of Boost.Asio runs the handlers of a thread one at a time in the order in which they were posted. A
  handler is the list of the things it does that concern threads: it posts to others (\<open>PostAsync\<close>), it posts and waits
  (\<open>PostSync\<close>), and at the end of a handler that was waited for it fulfils the promise of the waiting thread
  (\<open>SetPromise\<close>). The other theories run a \<open>PostSync\<close> at once, as part of the caller; that it can block for ever is
  shown here.
\<close>

section \<open>Message loops\<close>

datatype action = PostAsync nat "action list" | PostSync nat "action list" | SetPromise nat

record loop_thread =
  lt_queue :: "action list list"
  lt_running :: "action list"
  lt_waiting :: bool

definition idle_thread :: loop_thread where
  "idle_thread = \<lparr>lt_queue = [], lt_running = [], lt_waiting = False\<rparr>"

type_synonym threads = "loop_thread list"

definition on_thread :: "(loop_thread \<Rightarrow> loop_thread) \<Rightarrow> nat \<Rightarrow> threads \<Rightarrow> threads" where
  "on_thread f i ts = ts[i := f (ts ! i)]"

definition enqueue :: "nat \<Rightarrow> action list \<Rightarrow> threads \<Rightarrow> threads" where
  "enqueue i b = on_thread (\<lambda>t. t\<lparr>lt_queue := lt_queue t @ [b]\<rparr>) i"

text \<open>Thread \<open>i\<close> does the first of its actions, \<open>r\<close> are the others. To post to the own thread and wait is a call.\<close>

fun perform_action :: "nat \<Rightarrow> action \<Rightarrow> action list \<Rightarrow> threads \<Rightarrow> threads" where
  "perform_action i (PostAsync j b) r ts = enqueue j b (on_thread (\<lambda>t. t\<lparr>lt_running := r\<rparr>) i ts)"
| "perform_action i (PostSync j b) r ts =
     (if j = i then on_thread (\<lambda>t. t\<lparr>lt_running := b @ r\<rparr>) i ts
      else enqueue j (b @ [SetPromise i]) (on_thread (\<lambda>t. t\<lparr>lt_running := r, lt_waiting := True\<rparr>) i ts))"
| "perform_action i (SetPromise j) r ts = on_thread (\<lambda>t. t\<lparr>lt_waiting := False\<rparr>) j (on_thread (\<lambda>t. t\<lparr>lt_running := r\<rparr>) i ts)"

definition run_thread :: "nat \<Rightarrow> threads \<Rightarrow> threads option" where
  "run_thread i ts =
     (if lt_waiting (ts ! i) then None
      else case lt_running (ts ! i) of
             a # r \<Rightarrow> Some (perform_action i a r ts)
           | [] \<Rightarrow> (case lt_queue (ts ! i) of
                      b # q \<Rightarrow> Some (on_thread (\<lambda>t. t\<lparr>lt_queue := q, lt_running := b\<rparr>) i ts)
                    | [] \<Rightarrow> None))"

inductive thread_step :: "threads \<Rightarrow> threads \<Rightarrow> bool" where
  run: "i < length ts \<Longrightarrow> run_thread i ts = Some ts' \<Longrightarrow> thread_step ts ts'"

inductive_cases thread_stepE: "thread_step ts ts'"

text \<open>The task of \<open>SubscribeStream::SetSimulcastLayer\<close> for a published stream of thread \<open>j\<close>: it asks for the layer and waits,
  then it requests a key frame. A layer switch asks for two sender reports in the same way.\<close>

definition layer_task :: "nat \<Rightarrow> action list" where
  "layer_task j = [PostSync j [], PostAsync j []]"

definition switch_task :: "nat \<Rightarrow> action list" where
  "switch_task j = [PostSync j [], PostSync j []]"

section \<open>The pool\<close>

text \<open>The use counts of the worker threads, in the order of iteration: one for the pool and one for each stream.\<close>

type_synonym pool = "nat list"

definition kDefaultThreadCount :: u32 where "kDefaultThreadCount = 1"

definition new_pool :: "u32 \<Rightarrow> u32 \<Rightarrow> pool" where
  "new_pool configured hardware =
     replicate (unat (if configured \<noteq> 0 then configured else if hardware \<noteq> 0 then hardware else kDefaultThreadCount)) 1"

text \<open>The position of the first least element; none after all threads have been stopped.\<close>

fun least_used :: "pool \<Rightarrow> nat option" where
  "least_used [] = None"
| "least_used (c # cs) = (case least_used cs of Some i \<Rightarrow> if cs ! i < c then Some (Suc i) else Some 0 | None \<Rightarrow> Some 0)"

definition GetWorkerThread :: "pool \<Rightarrow> (nat \<times> pool) option" where
  "GetWorkerThread p = map_option (\<lambda>i. (i, p[i := p ! i + 1])) (least_used p)"

definition release_thread :: "nat \<Rightarrow> pool \<Rightarrow> pool" where
  "release_thread i p = p[i := p ! i - 1]"

definition StopAll :: "pool \<Rightarrow> pool" where
  "StopAll p = []"

section \<open>Timers\<close>

text \<open>A wait that has ended leaves a handler, which tells whether the time was up or the wait was cancelled.\<close>

record Timer =
  tm_stopped :: bool
  tm_waiting :: bool
  tm_handlers :: "bool list"

definition new_timer :: Timer where
  "new_timer = \<lparr>tm_stopped = False, tm_waiting = False, tm_handlers = []\<rparr>"

definition cancel_wait :: "Timer \<Rightarrow> Timer" where
  "cancel_wait t = (if tm_waiting t then t\<lparr>tm_waiting := False, tm_handlers := tm_handlers t @ [False]\<rparr> else t)"

definition AsyncWait :: "Timer \<Rightarrow> Timer" where
  "AsyncWait t = (if tm_stopped t then t else (cancel_wait t)\<lparr>tm_waiting := True\<rparr>)"

definition timer_expires :: "Timer \<Rightarrow> Timer" where
  "timer_expires t = (if tm_waiting t then t\<lparr>tm_waiting := False, tm_handlers := tm_handlers t @ [True]\<rparr> else t)"

text \<open>The next handler: whether it calls the observer.\<close>

definition OnTimeout :: "bool \<Rightarrow> Timer \<Rightarrow> bool \<times> Timer" where
  "OnTimeout alive t =
     (case tm_handlers t of [] \<Rightarrow> (False, t) | ok # hs \<Rightarrow> (ok \<and> \<not> tm_stopped t \<and> alive, t\<lparr>tm_handlers := hs\<rparr>))"

definition StopTimer :: "Timer \<Rightarrow> Timer" where
  "StopTimer t = (if tm_stopped t then t else (cancel_wait t)\<lparr>tm_stopped := True\<rparr>)"

section \<open>Threads that call downwards finish\<close>

lemma on_thread_simps [simp]:
  "length (on_thread f i ts) = length ts" "i < length ts \<Longrightarrow> on_thread f i ts ! i = f (ts ! i)" "i \<noteq> j \<Longrightarrow> on_thread f i ts ! j = ts ! j"
  by (simp_all add: on_thread_def)

lemma on_thread_nth: "i < length ts \<Longrightarrow> on_thread f i ts ! j = (if i = j then f (ts ! i) else ts ! j)"
  by simp

text \<open>What thread \<open>i\<close> may do when there are \<open>n\<close> threads: it waits only for threads of lower rank.\<close>

fun calls_down :: "(nat \<Rightarrow> nat) \<Rightarrow> nat \<Rightarrow> nat \<Rightarrow> action \<Rightarrow> bool" where
  "calls_down rank n i (PostAsync j b) = (j < n \<and> (\<forall>a\<in>set b. calls_down rank n j a))"
| "calls_down rank n i (PostSync j b) = (j < n \<and> (j = i \<or> rank j < rank i) \<and> (\<forall>a\<in>set b. calls_down rank n j a))"
| "calls_down rank n i (SetPromise j) = False"

text \<open>In the loops there are the promises too; what waits is promised.\<close>

definition may_do :: "(nat \<Rightarrow> nat) \<Rightarrow> nat \<Rightarrow> nat \<Rightarrow> action \<Rightarrow> bool" where
  "may_do rank n i a \<longleftrightarrow> calls_down rank n i a \<or> (\<exists>j<n. a = SetPromise j \<and> rank i < rank j)"

definition pending :: "loop_thread \<Rightarrow> action list" where
  "pending t = lt_running t @ concat (lt_queue t)"

definition threads_ok :: "(nat \<Rightarrow> nat) \<Rightarrow> threads \<Rightarrow> bool" where
  "threads_ok rank ts \<longleftrightarrow> (\<forall>i<length ts. (\<forall>a\<in>set (pending (ts ! i)). may_do rank (length ts) i a)
     \<and> (lt_waiting (ts ! i) \<longrightarrow> (\<exists>k<length ts. SetPromise i \<in> set (pending (ts ! k)))))"

lemma threads_okI:
  assumes "length ts' = length ts"
    and "\<And>i a. i < length ts \<Longrightarrow> a \<in> set (pending (ts' ! i)) \<Longrightarrow> may_do rank (length ts) i a"
    and "\<And>i. i < length ts \<Longrightarrow> lt_waiting (ts' ! i) \<Longrightarrow> \<exists>k<length ts. SetPromise i \<in> set (pending (ts' ! k))"
  shows "threads_ok rank ts'"
  using assms by (auto simp: threads_ok_def)

lemma threads_okD:
  assumes "threads_ok rank ts" "i < length ts"
  shows "a \<in> set (pending (ts ! i)) \<Longrightarrow> may_do rank (length ts) i a"
    and "lt_waiting (ts ! i) \<Longrightarrow> \<exists>k<length ts. SetPromise i \<in> set (pending (ts ! k))"
  using assms by (auto simp: threads_ok_def)

text \<open>A step: what is pending after it was pending before or is posted by it, nothing is lost but the action that is done,
  and who waits after it waited before or begins to wait.\<close>

fun posted :: "nat \<Rightarrow> action \<Rightarrow> nat \<Rightarrow> action set" where
  "posted i (PostAsync j b) k = (if k = j then set b else {})"
| "posted i (PostSync j b) k = (if k = j then set b \<union> (if j = i then {} else {SetPromise i}) else {})"
| "posted i (SetPromise j) k = {}"

fun begins_wait :: "nat \<Rightarrow> action \<Rightarrow> bool" where
  "begins_wait i (PostSync j b) = (j \<noteq> i)"
| "begins_wait i _ = False"

fun target :: "action \<Rightarrow> nat" where
  "target (PostAsync j b) = j"
| "target (PostSync j b) = j"
| "target (SetPromise j) = j"

lemma pending_updates:
  "pending (t\<lparr>lt_running := x\<rparr>) = x @ concat (lt_queue t)" "pending (t\<lparr>lt_waiting := v\<rparr>) = pending t"
  "pending (t\<lparr>lt_queue := lt_queue t @ [b]\<rparr>) = pending t @ b"
  by (simp_all add: pending_def)

lemma performed:
  assumes i: "i < length ts" and run: "lt_running (ts ! i) = a # r" and j: "target a < length ts"
  shows "length (perform_action i a r ts) = length ts"
    and "set (pending (perform_action i a r ts ! k)) \<subseteq> set (pending (ts ! k)) \<union> posted i a k"
    and "set (pending (ts ! k)) \<union> posted i a k \<subseteq> set (pending (perform_action i a r ts ! k)) \<union> (if k = i then {a} else {})"
    and "lt_waiting (perform_action i a r ts ! k) = (lt_waiting (ts ! k) \<and> a \<noteq> SetPromise k \<or> k = i \<and> begins_wait i a)"
proof -
  have pi: "pending (ts ! i) = a # r @ concat (lt_queue (ts ! i))" using run by (simp add: pending_def)
  note simps = enqueue_def on_thread_nth pending_updates
  show "length (perform_action i a r ts) = length ts" using j by (cases a) (simp_all add: enqueue_def)
  show "set (pending (perform_action i a r ts ! k)) \<subseteq> set (pending (ts ! k)) \<union> posted i a k"
    using i j pi by (cases a) (auto simp: simps)
  show "set (pending (ts ! k)) \<union> posted i a k \<subseteq> set (pending (perform_action i a r ts ! k)) \<union> (if k = i then {a} else {})"
    using i j pi by (cases a) (auto simp: simps)
  show "lt_waiting (perform_action i a r ts ! k) = (lt_waiting (ts ! k) \<and> a \<noteq> SetPromise k \<or> k = i \<and> begins_wait i a)"
    using i j by (cases a) (auto simp: simps)
qed

lemma taken:
  assumes "i < length ts" "lt_running (ts ! i) = []" "lt_queue (ts ! i) = b # q"
  shows "pending (on_thread (\<lambda>t. t\<lparr>lt_queue := q, lt_running := b\<rparr>) i ts ! k) = pending (ts ! k)"
    and "lt_waiting (on_thread (\<lambda>t. t\<lparr>lt_queue := q, lt_running := b\<rparr>) i ts ! k) = lt_waiting (ts ! k)"
  using assms by (auto simp: on_thread_nth pending_def)

lemma may_do_posted: "may_do rank n i a \<Longrightarrow> c \<in> posted i a k \<Longrightarrow> i < n \<Longrightarrow> may_do rank n k c"
  by (cases a) (auto simp: may_do_def split: if_splits)

lemma may_do_target: "may_do rank n i a \<Longrightarrow> target a < n"
  by (cases a) (auto simp: may_do_def)

lemma run_thread_ok:
  assumes ok: "threads_ok rank ts" and i: "i < length ts" and run: "run_thread i ts = Some ts'"
  shows "threads_ok rank ts'"
proof (cases "lt_running (ts ! i)")
  case Nil
  then obtain b q where b: "lt_queue (ts ! i) = b # q" "ts' = on_thread (\<lambda>t. t\<lparr>lt_queue := q, lt_running := b\<rparr>) i ts"
    using run by (auto simp: run_thread_def split: if_splits list.splits)
  show ?thesis unfolding b(2)
    using threads_okD [OF ok] by (intro threads_okI [of _ ts]) (simp_all add: taken [OF i Nil b(1)])
next
  case (Cons a r)
  then have ts': "ts' = perform_action i a r ts" and w: "\<not> lt_waiting (ts ! i)" using run by (auto simp: run_thread_def split: if_splits)
  have a: "may_do rank (length ts) i a" using threads_okD(1) [OF ok i] Cons by (simp add: pending_def)
  note p = performed [OF i Cons may_do_target [OF a], folded ts']
  show ?thesis
  proof (rule threads_okI [OF p(1)])
    show "may_do rank (length ts) k c" if "k < length ts" "c \<in> set (pending (ts' ! k))" for k c
      using subsetD [OF p(2) that(2)] threads_okD(1) [OF ok that(1), of c] may_do_posted [OF a _ i, of c k] by auto
    show "\<exists>m<length ts. SetPromise k \<in> set (pending (ts' ! m))" if k: "k < length ts" "lt_waiting (ts' ! k)" for k
    proof (cases "k = i \<and> begins_wait i a")
      case True
      then have "SetPromise k \<in> posted i a (target a)" "a \<noteq> SetPromise k" by (cases a; auto)+
      then show ?thesis using p(3) [of "target a"] may_do_target [OF a] by (auto split: if_splits)
    next
      case False
      then have k': "lt_waiting (ts ! k)" "a \<noteq> SetPromise k" using k(2) p(4) by auto
      from threads_okD(2) [OF ok k(1) this(1)] obtain m where m: "m < length ts" "SetPromise k \<in> set (pending (ts ! m))" by blast
      then show ?thesis using p(3) [of m] \<open>a \<noteq> SetPromise k\<close> by (auto split: if_splits)
    qed
  qed
qed

lemma stuck_is_idle:
  assumes ok: "threads_ok rank ts" and stuck: "\<And>ts'. \<not> thread_step ts ts'" and i: "i < length ts"
  shows "ts ! i = idle_thread"
proof -
  have s: "lt_waiting (ts ! i) \<or> ts ! i = idle_thread" if "i < length ts" for i
  proof (rule ccontr)
    assume "\<not> ?thesis"
    then have "run_thread i ts \<noteq> None" by (cases "ts ! i") (auto simp: run_thread_def idle_thread_def split: list.splits)
    then show False using thread_step.run [OF that] stuck by auto
  qed
  have "\<not> lt_waiting (ts ! i)" if "i < length ts" for i
    using that
  proof (induction i rule: measure_induct_rule [of rank])
    case (less i)
    show ?case
    proof
      assume "lt_waiting (ts ! i)"
      with threads_okD(2) [OF ok less.prems] obtain k where k: "k < length ts" "SetPromise i \<in> set (pending (ts ! k))" by blast
      then have "rank k < rank i" using threads_okD(1) [OF ok k(1) k(2)] by (auto simp: may_do_def)
      then show False using less.IH [OF _ k(1)] s [OF k(1)] k(2) by (auto simp: pending_def idle_thread_def)
    qed
  qed
  with s [OF i] i show ?thesis by auto
qed

text \<open>The work that is left; every step does some.\<close>

fun weight :: "action \<Rightarrow> nat" where
  "weight (PostAsync j b) = 2 + (\<Sum>a\<leftarrow>b. weight a)"
| "weight (PostSync j b) = 4 + (\<Sum>a\<leftarrow>b. weight a)"
| "weight (SetPromise j) = 1"

definition thread_work :: "loop_thread \<Rightarrow> nat" where
  "thread_work t = (\<Sum>a\<leftarrow>lt_running t. weight a) + (\<Sum>b\<leftarrow>lt_queue t. 1 + (\<Sum>a\<leftarrow>b. weight a))"

definition work_left :: "threads \<Rightarrow> nat" where
  "work_left ts = (\<Sum>t\<leftarrow>ts. thread_work t)"

lemma work_on_thread: "i < length ts \<Longrightarrow> work_left (on_thread f i ts) + thread_work (ts ! i) = work_left ts + thread_work (f (ts ! i))"
  using elem_le_sum_list [of i "map thread_work ts"]
  by (simp add: work_left_def on_thread_def map_update sum_list_update)

lemma work_enqueue: "j < length ts \<Longrightarrow> work_left (enqueue j b ts) = work_left ts + 1 + (\<Sum>a\<leftarrow>b. weight a)"
  using work_on_thread [of j ts "\<lambda>t. t\<lparr>lt_queue := lt_queue t @ [b]\<rparr>"] by (simp add: enqueue_def thread_work_def)

lemma work_wake: "j < length ts \<Longrightarrow> work_left (on_thread (\<lambda>t. t\<lparr>lt_waiting := v\<rparr>) j ts) = work_left ts"
  using work_on_thread [of j ts "\<lambda>t. t\<lparr>lt_waiting := v\<rparr>"] by (simp add: thread_work_def)

lemma run_thread_work:
  assumes i: "i < length ts" and ok: "threads_ok rank ts" and run: "run_thread i ts = Some ts'"
  shows "work_left ts' < work_left ts"
proof (cases "lt_running (ts ! i)")
  case Nil
  then obtain b q where b: "lt_queue (ts ! i) = b # q" "ts' = on_thread (\<lambda>t. t\<lparr>lt_queue := q, lt_running := b\<rparr>) i ts"
    using run by (auto simp: run_thread_def split: if_splits list.splits)
  then show ?thesis using work_on_thread [OF i, of "\<lambda>t. t\<lparr>lt_queue := q, lt_running := b\<rparr>"] Nil by (simp add: thread_work_def)
next
  case (Cons a r)
  then have ts': "ts' = perform_action i a r ts" using run by (auto simp: run_thread_def split: if_splits)
  have "may_do rank (length ts) i a" using threads_okD(1) [OF ok i] Cons by (simp add: pending_def)
  then have j: "target a < length ts" by (rule may_do_target)
  have w: "work_left (on_thread f i ts) + weight a = work_left ts + (\<Sum>a\<leftarrow>b. weight a)"
    if "\<And>t. lt_running (f t) = b @ r" "\<And>t. lt_queue (f t) = lt_queue t" for f b
    using work_on_thread [OF i, of f] that Cons by (simp add: thread_work_def)
  show ?thesis
  proof (cases a)
    case (PostSync k b)
    then show ?thesis using j w [of "\<lambda>t. t\<lparr>lt_running := r, lt_waiting := True\<rparr>" "[]"] w [of "\<lambda>t. t\<lparr>lt_running := b @ r\<rparr>" b]
      by (auto simp: ts' work_enqueue)
  qed (use j w [of "\<lambda>t. t\<lparr>lt_running := r\<rparr>" "[]"] in \<open>auto simp: ts' work_enqueue work_wake\<close>)
qed

text \<open>C14. If every handler waits only for threads of lower rank, the threads never block each other: every run ends after at
  most as many steps as there is work, and only when all handlers have been run and nobody waits. With one worker, which
  waits only for itself, this is the case.\<close>

theorem threads_that_wait_downwards_finish:
  assumes init: "\<And>i a. i < length ts \<Longrightarrow> \<not> lt_waiting (ts ! i) \<and> (a \<in> set (pending (ts ! i)) \<longrightarrow> calls_down rank (length ts) i a)"
    and run: "(thread_step ^^ n) ts ts'"
  shows "n \<le> work_left ts \<and> ((\<exists>ts''. thread_step ts' ts'') \<or> (\<forall>t\<in>set ts'. t = idle_thread))"
proof -
  have "threads_ok rank ts" using init by (auto simp: threads_ok_def may_do_def)
  have "threads_ok rank ts' \<and> n + work_left ts' \<le> work_left ts" using run
  proof (induction n arbitrary: ts')
    case 0
    then show ?case using \<open>threads_ok rank ts\<close> by simp
  next
    case (Suc n)
    then obtain mid where m: "(thread_step ^^ n) ts mid" "thread_step mid ts'" by auto
    then show ?case using Suc.IH [OF m(1)] run_thread_ok run_thread_work by (fastforce elim!: thread_stepE)
  qed
  then show ?thesis using stuck_is_idle [of rank ts'] by (fastforce simp: in_set_conv_nth)
qed

section \<open>Threads that wait for each other\<close>

definition deadlocked :: "threads \<Rightarrow> bool" where
  "deadlocked ts \<longleftrightarrow> (\<exists>t\<in>set ts. lt_waiting t) \<and> (\<forall>ts'. \<not> thread_step ts ts')"

text \<open>C39. Two workers block each other for ever when each runs a task that waits for the other, as the change of a
  simulcast layer does if the stream it subscribes to lives on the other worker; whatever else waits in their queues,
  no handler of either is run again.\<close>

theorem layer_changes_deadlock:
  assumes "i < length ts" "j < length ts" "i \<noteq> j" "\<And>k. k < length ts \<Longrightarrow> k \<noteq> i \<Longrightarrow> k \<noteq> j \<Longrightarrow> ts ! k = idle_thread"
    and "ts ! i = idle_thread\<lparr>lt_queue := layer_task j # q\<rparr>" "ts ! j = idle_thread\<lparr>lt_queue := layer_task i # q'\<rparr>"
  shows "\<exists>ts'. thread_step\<^sup>*\<^sup>* ts ts' \<and> deadlocked ts'"
proof -
  let ?run = "\<lambda>b q v. \<lparr>lt_queue = q, lt_running = b, lt_waiting = v\<rparr>"
  let ?ts = "\<lambda>a b. ts[i := a, j := b]"
  note simps = run_thread_def on_thread_def enqueue_def layer_task_def idle_thread_def list_update_swap [OF assms(3)] assms(1-3) assms(3) [symmetric]
  have 1: "thread_step ts (ts[i := ?run (layer_task j) q False])"
    using assms by (intro thread_step.run [of i]) (simp_all add: simps)
  have 2: "thread_step (ts[i := ?run (layer_task j) q False]) (?ts (?run (layer_task j) q False) (?run (layer_task i) q' False))"
    using assms by (intro thread_step.run [of j]) (simp_all add: simps)
  have 3: "thread_step (?ts (?run (layer_task j) q False) (?run (layer_task i) q' False))
      (?ts (?run [PostAsync j []] q True) (?run (layer_task i) (q' @ [[SetPromise i]]) False))"
    using assms by (intro thread_step.run [of i]) (simp_all add: simps)
  have 4: "thread_step (?ts (?run [PostAsync j []] q True) (?run (layer_task i) (q' @ [[SetPromise i]]) False))
      (?ts (?run [PostAsync j []] (q @ [[SetPromise j]]) True) (?run [PostAsync i []] (q' @ [[SetPromise i]]) True))" (is "thread_step _ ?last")
    using assms by (intro thread_step.run [of j]) (simp_all add: simps)
  have "run_thread k ?last = None" if "k < length ts" for k
    using assms that by (cases "k = i"; cases "k = j") (simp_all add: run_thread_def idle_thread_def)
  then have "\<not> thread_step ?last ts'" for ts' by (fastforce elim: thread_stepE)
  moreover have "?run [PostAsync i []] (q' @ [[SetPromise i]]) True \<in> set ?last" using assms(2) by (simp add: set_update_memI)
  then have "\<exists>t\<in>set ?last. lt_waiting t" by (rule bexI [rotated]) simp
  ultimately have "deadlocked ?last" unfolding deadlocked_def by blast
  moreover have "thread_step\<^sup>*\<^sup>* ts ?last"
    by (rule converse_rtranclp_into_rtranclp [OF 1 converse_rtranclp_into_rtranclp [OF 2 converse_rtranclp_into_rtranclp [OF 3 r_into_rtranclp [of thread_step, OF 4]]]])
  ultimately show ?thesis by blast
qed

theorem layer_changes_deadlock_witness:
  "\<exists>ts'. thread_step\<^sup>*\<^sup>* [idle_thread, idle_thread\<lparr>lt_queue := [layer_task 2]\<rparr>, idle_thread\<lparr>lt_queue := [layer_task 1]\<rparr>] ts' \<and> deadlocked ts'"
  by (rule layer_changes_deadlock [of 1 _ 2 "[]" "[]"]) (auto simp: less_Suc_eq numeral_eq_Suc)

theorem threads_that_wait_downwards_finish_witness:
  "let ts = [idle_thread\<lparr>lt_queue := [[PostAsync 1 (layer_task 1)]]\<rparr>, idle_thread\<lparr>lt_queue := [layer_task 1]\<rparr>]
   in \<exists>ts'. (thread_step ^^ 1) ts ts' \<and> ((\<exists>ts''. thread_step ts' ts'') \<or> (\<forall>t\<in>set ts'. t = idle_thread))"
proof -
  let ?ts = "[idle_thread\<lparr>lt_queue := [[PostAsync 1 (layer_task 1)]]\<rparr>, idle_thread\<lparr>lt_queue := [layer_task 1]\<rparr>]"
  have "\<exists>ts'. run_thread 0 ?ts = Some ts'" by (simp add: run_thread_def idle_thread_def)
  then obtain ts' where "thread_step ?ts ts'" using thread_step.run [of 0 ?ts] by auto
  then have r: "(thread_step ^^ 1) ?ts ts'" by (simp only: relpowp_1)
  have i: "\<not> lt_waiting (?ts ! i) \<and> (a \<in> set (pending (?ts ! i)) \<longrightarrow> calls_down (\<lambda>_. 0) (length ?ts) i a)" if "i < length ?ts" for i a
    using that by (auto simp: less_Suc_eq idle_thread_def pending_def layer_task_def)
  show ?thesis using threads_that_wait_downwards_finish [of ?ts "\<lambda>_. 0", OF i r] r by (auto simp: Let_def)
qed

section \<open>Streams are spread evenly\<close>

lemma least_used_spec:
  "p \<noteq> [] \<Longrightarrow> \<exists>i<length p. least_used p = Some i \<and> (\<forall>j<length p. p ! i \<le> p ! j) \<and> (\<forall>j<i. p ! i < p ! j)"
proof (induction p)
  case (Cons c cs)
  show ?case
  proof (cases "cs = []")
    case False
    then obtain i where i: "i < length cs" "least_used cs = Some i" "\<forall>j<length cs. cs ! i \<le> cs ! j" "\<forall>j<i. cs ! i < cs ! j"
      using Cons.IH by blast
    show ?thesis
    proof (cases "cs ! i < c")
      case True
      then show ?thesis using i by (intro exI [of _ "Suc i"]) (auto simp: nth_Cons split: nat.splits)
    next
      case False
      then have "\<forall>j<length cs. c \<le> cs ! j" using i(3) by auto
      then show ?thesis using False i(2) by (intro exI [of _ 0]) (auto simp: nth_Cons split: nat.splits)
    qed
  qed simp
qed simp

fun acquire :: "nat \<Rightarrow> pool \<Rightarrow> pool option" where
  "acquire 0 p = Some p"
| "acquire (Suc n) p = (case GetWorkerThread p of None \<Rightarrow> None | Some (i, p') \<Rightarrow> acquire n p')"

definition balanced :: "pool \<Rightarrow> bool" where
  "balanced p \<longleftrightarrow> (\<forall>i<length p. \<forall>j<length p. p ! i \<le> p ! j + 1)"

lemma GetWorkerThread_balanced:
  assumes "p \<noteq> []" "balanced p"
  shows "\<exists>i p'. GetWorkerThread p = Some (i, p') \<and> balanced p' \<and> length p' = length p \<and> (\<forall>j<length p. p ! i \<le> p ! j)"
proof -
  obtain i where "i < length p" "least_used p = Some i" "\<forall>j<length p. p ! i \<le> p ! j" using least_used_spec [OF assms(1)] by blast
  then show ?thesis using assms(2) by (auto simp: GetWorkerThread_def balanced_def nth_list_update le_Suc_eq)
qed

lemma acquire_balanced: "p \<noteq> [] \<Longrightarrow> balanced p \<Longrightarrow> \<exists>p'. acquire n p = Some p' \<and> balanced p' \<and> length p' = length p"
proof (induction n arbitrary: p)
  case (Suc n)
  obtain i q where q: "GetWorkerThread p = Some (i, q)" "balanced q" "length q = length p" using GetWorkerThread_balanced [OF Suc.prems] by blast
  with Suc.prems have "q \<noteq> []" by auto
  with Suc.IH [OF _ q(2)] q show ?case by simp
qed simp

text \<open>The pool has at least one thread, and as long as no stream is gone the numbers of streams of two threads differ by
  at most one.\<close>

theorem streams_are_spread:
  "\<exists>p. acquire n (new_pool configured hardware) = Some p \<and> balanced p \<and> length p = length (new_pool configured hardware) \<and> 0 < length p"
proof -
  have n: "0 < length (new_pool configured hardware)" by (simp add: new_pool_def kDefaultThreadCount_def unat_gt_0)
  then have "new_pool configured hardware \<noteq> []" "balanced (new_pool configured hardware)" by (auto simp: new_pool_def balanced_def)
  from acquire_balanced [OF this] n show ?thesis by metis
qed

section \<open>Timers call at most once for each wait\<close>

datatype timer_op = Wait | Expire | Handle bool | StopIt

fun timer_run :: "timer_op list \<Rightarrow> Timer \<Rightarrow> nat \<times> Timer" where
  "timer_run [] t = (0, t)"
| "timer_run (Wait # os) t = timer_run os (AsyncWait t)"
| "timer_run (Expire # os) t = timer_run os (timer_expires t)"
| "timer_run (Handle alive # os) t = (let (call, t) = OnTimeout alive t; (n, t) = timer_run os t in ((if call then 1 else 0) + n, t))"
| "timer_run (StopIt # os) t = timer_run os (StopTimer t)"

definition outstanding :: "Timer \<Rightarrow> nat" where
  "outstanding t = (if tm_waiting t then 1 else 0) + length (filter id (tm_handlers t))"

lemma timer_calls: "fst (timer_run os t) \<le> outstanding t + count_list os Wait"
proof (induction os t rule: timer_run.induct)
  case (2 os t)
  then show ?case by (fastforce simp: outstanding_def AsyncWait_def cancel_wait_def split: if_splits)
next
  case (3 os t)
  then show ?case by (auto simp: outstanding_def timer_expires_def split: if_splits)
next
  case (4 alive os t)
  then show ?case by (cases "tm_handlers t") (fastforce simp: outstanding_def OnTimeout_def Let_def split: prod.splits if_splits)+
next
  case (5 os t)
  then show ?case by (auto simp: outstanding_def StopTimer_def cancel_wait_def split: if_splits)
qed simp

lemma stopped_run: "tm_stopped t \<Longrightarrow> fst (timer_run os t) = 0"
proof (induction os t rule: timer_run.induct)
  case (4 alive os t)
  then show ?case by (cases "tm_handlers t") (auto simp: OnTimeout_def Let_def split: prod.splits)
qed (auto simp: AsyncWait_def timer_expires_def StopTimer_def)

text \<open>A timer calls its observer at most once for each time it was set, and never again after it was stopped, even if a
  handler was already waiting to run.\<close>

theorem timer_calls_once:
  "fst (timer_run os new_timer) \<le> count_list os Wait" "fst (timer_run os (StopTimer t)) = 0"
  using timer_calls [of os new_timer] stopped_run [of "StopTimer t" os]
  by (simp_all add: outstanding_def new_timer_def StopTimer_def)

end
