(* ===== verification/Start_Up.thy ===== *)
theory Start_Up
  imports Webrtc_Stream Dtls_Context Threads
begin

text \<open>
  Configuration, the accepting side of the signaling server, and the life of the process:
  \<^verbatim>\<open>src/src/base/server_config.{h,cpp}\<close>, \<^verbatim>\<open>src/src/signaling/signaling_server.cpp\<close> and \<^verbatim>\<open>src/src/main.cpp\<close>. The TOML library,
  Boost.Asio, OpenSSL and the operating system are outside: what they answer is in the argument \<open>env\<close>. An exception
  of the TOML library is \<open>None\<close>. What is logged and the settings of the logger are left out.
\<close>

section \<open>The configuration\<close>

record 't toml =
  tl_parse :: "string \<Rightarrow> 't option"
  tl_table :: "string \<Rightarrow> 't \<Rightarrow> 't option"
  tl_string :: "string \<Rightarrow> 't \<Rightarrow> string option"
  tl_u16 :: "string \<Rightarrow> 't \<Rightarrow> u16 option"
  tl_u32 :: "string \<Rightarrow> 't \<Rightarrow> u32 option"
  tl_size :: "string \<Rightarrow> 't \<Rightarrow> nat option"
  tl_bool :: "string \<Rightarrow> 't \<Rightarrow> bool option"

record ServerConfig =
  local_ip :: string
  announced_ip :: string
  signaling_server_port :: u16
  webrtc_port :: u16
  webrtc_worker_thread_count :: u32
  ssl_cert_file :: string
  ssl_key_file :: string
  memory_pool_enabled :: bool
  memory_pool_max_list_length :: nat
  log_directory :: string
  run_as_daemon :: bool
  core_dump :: bool
  config_loaded :: bool
  enable_dtx :: bool

text \<open>A lookup that throws ends \<open>Load\<close>; what was assigned before stays.\<close>

definition look :: "'v option \<Rightarrow> ServerConfig \<Rightarrow> ('v \<Rightarrow> bool \<times> ServerConfig) \<Rightarrow> bool \<times> ServerConfig" where
  "look x c f = (case x of None \<Rightarrow> (False, c) | Some v \<Rightarrow> f v)"

definition load_system :: "'t toml \<Rightarrow> 't \<Rightarrow> ServerConfig \<Rightarrow> bool \<times> ServerConfig" where
  "load_system lib root c =
     look (tl_table lib ''memory_pool'' root) c (\<lambda>pool.
     look (tl_bool lib ''enabled'' pool) c (\<lambda>v. let c = c\<lparr>memory_pool_enabled := v\<rparr> in
     look (tl_size lib ''maxListLength'' pool) c (\<lambda>v. let c = c\<lparr>memory_pool_max_list_length := v\<rparr> in
     look (tl_table lib ''log'' root) c (\<lambda>log.
     look (tl_string lib ''logDirectory'' log) c (\<lambda>v. let c = c\<lparr>log_directory := v\<rparr> in
     look (tl_table lib ''system'' root) c (\<lambda>system.
     look (tl_bool lib ''runAsdaemon'' system) c (\<lambda>v. let c = c\<lparr>run_as_daemon := v\<rparr> in
     look (tl_bool lib ''coreDump'' system) c (\<lambda>v. (True, c\<lparr>core_dump := v, config_loaded := True\<rparr>)))))))))"

definition Load :: "'t toml \<Rightarrow> string \<Rightarrow> ServerConfig \<Rightarrow> bool \<times> ServerConfig" where
  "Load lib path c =
     look (tl_parse lib path) c (\<lambda>root.
     look (tl_table lib ''webrtc'' root) c (\<lambda>webrtc.
     look (tl_string lib ''localIp'' webrtc) c (\<lambda>v. let c = c\<lparr>local_ip := v\<rparr> in
     look (tl_string lib ''announcedIp'' webrtc) c (\<lambda>v. let c = c\<lparr>announced_ip := v\<rparr> in
     look (tl_u16 lib ''port'' webrtc) c (\<lambda>v. let c = c\<lparr>webrtc_port := v\<rparr> in
     look (tl_u32 lib ''workerThreadCount'' webrtc) c (\<lambda>v. let c = c\<lparr>webrtc_worker_thread_count := v\<rparr> in
     look (tl_bool lib ''enableDTX'' webrtc) c (\<lambda>v. let c = c\<lparr>enable_dtx := v\<rparr> in
     look (tl_table lib ''signaling_server'' root) c (\<lambda>sig.
     look (tl_u16 lib ''port'' sig) c (\<lambda>v. let c = c\<lparr>signaling_server_port := v\<rparr> in
     look (tl_string lib ''certFile'' sig) c (\<lambda>v. let c = c\<lparr>ssl_cert_file := v\<rparr> in
     look (tl_string lib ''keyFile'' sig) c (\<lambda>v. let c = c\<lparr>ssl_key_file := v\<rparr> in
     load_system lib root c)))))))))))"

section \<open>Accepting connections\<close>

record SignalingServer =
  sg_listening :: bool
  sg_accepting :: bool
  sg_closed :: bool

definition new_signaling_server :: SignalingServer where
  "new_signaling_server = \<lparr>sg_listening = False, sg_accepting = False, sg_closed = False\<rparr>"

definition DoAccept :: "SignalingServer \<Rightarrow> SignalingServer" where
  "DoAccept s = (if sg_closed s then s else s\<lparr>sg_accepting := True\<rparr>)"

text \<open>An address that does not parse throws; \<open>steps\<close> says whether opening, setting the option, binding and listening work.\<close>

definition SignalingStart :: "bool \<Rightarrow> bool list \<Rightarrow> SignalingServer \<Rightarrow> (bool \<times> SignalingServer) outcome" where
  "SignalingStart address_ok steps s =
     (if \<not> address_ok then Fails
      else if \<not> (\<forall>ok\<in>set steps. ok) then Returns (False, s)
      else Returns (True, DoAccept (s\<lparr>sg_listening := True\<rparr>)))"

text \<open>A connection goes through these states: it is found out whether it speaks TLS, the handshake is done, requests are
  served, it becomes a web socket, or it ends.\<close>

datatype connection = Detecting | Handshaking | Serving bool | ShuttingDown | Upgraded bool | Ended

definition OnAccept :: "bool \<Rightarrow> SignalingServer \<Rightarrow> connection option \<times> SignalingServer" where
  "OnAccept failed s =
     (let s = s\<lparr>sg_accepting := False\<rparr>
      in if sg_closed s then (None, s) else (if failed then None else Some Detecting, DoAccept s))"

definition SignalingClose :: "SignalingServer \<Rightarrow> SignalingServer" where
  "SignalingClose s = s\<lparr>sg_listening := False, sg_closed := True\<rparr>"

definition OnDetect :: "bool \<Rightarrow> bool \<Rightarrow> connection" where
  "OnDetect failed tls = (if failed then Ended else if tls then Handshaking else Serving False)"

definition OnHandshake :: "bool \<Rightarrow> connection" where
  "OnHandshake failed = (if failed then Ended else Serving True)"

definition DoEof :: "bool \<Rightarrow> connection" where
  "DoEof tls = (if tls then ShuttingDown else Ended)"

fun serve_read :: "bool \<Rightarrow> 'r read_result \<Rightarrow> connection" where
  "serve_read tls ReadEof = DoEof tls"
| "serve_read tls ReadError = Ended"
| "serve_read tls ReadUpgrade = Upgraded tls"
| "serve_read tls (ReadRequest r) = Serving tls"

definition serve_write :: "bool \<Rightarrow> bool \<Rightarrow> bool \<Rightarrow> connection" where
  "serve_write tls failed close = (if failed then Ended else if close then DoEof tls else Serving tls)"

section \<open>The process\<close>

datatype fork_result = ForkError | ForkParent | ForkChild

record 't environment =
  ev_arguments :: "string list"
  ev_toml :: "'t toml"
  ev_fork :: fork_result
  ev_setsid :: bool
  ev_second_fork :: fork_result
  ev_proxy_opened :: bool
  ev_proxy_bound :: bool
  ev_openssl :: openssl
  ev_cert_key :: bool
  ev_address :: bool
  ev_acceptor :: "bool list"

record process =
  pr_config :: ServerConfig
  pr_server :: server
  pr_proxy :: UdpSocket
  pr_dtls :: DtlsContext
  pr_signaling :: SignalingServer
  pr_pool :: pool

datatype 'p start = Runs 'p | Exits bool | Terminates

definition daemonise :: "'t environment \<Rightarrow> 'p start option" where
  "daemonise ev =
     (case ev_fork ev of
        ForkError \<Rightarrow> Some (Exits False)
      | ForkParent \<Rightarrow> Some (Exits True)
      | ForkChild \<Rightarrow>
          if \<not> ev_setsid ev then Some (Exits True)
          else case ev_second_fork ev of ForkError \<Rightarrow> Some (Exits False) | ForkParent \<Rightarrow> Some (Exits True) | ForkChild \<Rightarrow> None)"

text \<open>After the log is set up: the test room, the proxy, DTLS, the certificate of the signaling server, and the server.\<close>

definition start_services :: "'t environment \<Rightarrow> pool \<Rightarrow> ServerConfig \<Rightarrow> process start" where
  "start_services ev workers cfg =
     (let srv = snd (CreateRoom ''9527'' new_server)
      in case Listen (ev_proxy_opened ev) (ev_address ev) (ev_proxy_bound ev) new_udp_socket of
           Returns (True, proxy) \<Rightarrow>
             (case Initialize (ev_openssl ev) new_dtls_context of
                Returns (True, dtls) \<Rightarrow>
                  if \<not> ev_cert_key ev then Exits False
                  else (case SignalingStart (ev_address ev) (ev_acceptor ev) new_signaling_server of
                     Returns (True, sg) \<Rightarrow>
                       Runs \<lparr>pr_config = cfg, pr_server = srv, pr_proxy = proxy, pr_dtls = dtls, pr_signaling = sg, pr_pool = workers\<rparr>
                   | Returns (False, sg) \<Rightarrow> Exits False
                   | _ \<Rightarrow> Terminates)
              | Returns (False, dtls) \<Rightarrow> Exits False
              | _ \<Rightarrow> Terminates)
         | Returns (False, proxy) \<Rightarrow> Exits False
         | _ \<Rightarrow> Terminates)"

text \<open>\<open>memory\<close> is the configuration before it is loaded, \<open>hardware\<close> the number of processors.\<close>

definition main :: "'t environment \<Rightarrow> u32 \<Rightarrow> ServerConfig \<Rightarrow> process start" where
  "main ev hardware memory =
     (case ev_arguments ev of
        [_, path] \<Rightarrow>
          (let (ok, cfg) = Load (ev_toml ev) path memory
           in if \<not> ok then Exits False
              else case (if run_as_daemon cfg then daemonise ev else None) of
                     Some result \<Rightarrow> result
                   | None \<Rightarrow> start_services ev (new_pool (webrtc_worker_thread_count cfg) hardware) cfg)
      | _ \<Rightarrow> Exits False)"

text \<open>The handler of the signals for the end of the process.\<close>

definition OnSignal :: "process \<Rightarrow> process" where
  "OnSignal p = p\<lparr>pr_proxy := SocketClose (pr_proxy p), pr_signaling := SignalingClose (pr_signaling p),
     pr_server := ClearRooms (SetClear (pr_server p)), pr_pool := StopAll (pr_pool p)\<rparr>"

section \<open>A life of the process\<close>

lemma Load_keeps_unloaded: "fst (Load lib path c) = False \<Longrightarrow> config_loaded (snd (Load lib path c)) = config_loaded c"
  by (simp add: Load_def load_system_def look_def Let_def split: option.splits)

lemma Load_loads: "fst (Load lib path c) \<Longrightarrow> config_loaded (snd (Load lib path c))"
  by (auto simp: Load_def load_system_def look_def Let_def split: option.splits)

lemma started:
  assumes "main ev hardware memory = Runs p"
  shows "start_services ev (new_pool (webrtc_worker_thread_count (pr_config p)) hardware) (pr_config p) = Runs p" "config_loaded (pr_config p)"
proof -
  obtain prog path where a: "ev_arguments ev = [prog, path]"
    using assms by (auto simp: main_def split: list.splits)
  obtain ok cfg where l: "Load (ev_toml ev) path memory = (ok, cfg)" by fastforce
  have d: "daemonise ev \<noteq> Some (Runs p)" by (simp add: daemonise_def split: fork_result.split)
  have s: "start_services ev (new_pool (webrtc_worker_thread_count cfg) hardware) cfg = Runs p" and ok: ok
    using assms d by (auto simp: main_def a l split: if_splits option.splits)
  have "pr_config p = cfg" using s
    by (auto simp: start_services_def Let_def split: prod.splits if_splits outcome.splits bool.splits)
  then show "start_services ev (new_pool (webrtc_worker_thread_count (pr_config p)) hardware) (pr_config p) = Runs p" "config_loaded (pr_config p)"
    using s ok Load_loads [of "ev_toml ev" path memory] l by auto
qed

lemma services_run:
  assumes "start_services ev workers cfg = Runs p"
  shows "pr_server p = snd (CreateRoom ''9527'' new_server)" "us_receiving (pr_proxy p)" "\<not> us_closed (pr_proxy p)"
    "Initialize (ev_openssl ev) new_dtls_context = Returns (True, pr_dtls p)" "sg_accepting (pr_signaling p)" "pr_pool p = workers"
  using assms
  by (auto simp: start_services_def Listen_def StartReceive_def new_udp_socket_def SignalingStart_def DoAccept_def new_signaling_server_def Let_def
      split: if_splits outcome.splits bool.splits)

lemma first_room: "server_step new_server (snd (CreateRoom ''9527'' new_server))"
proof -
  have "snd (CreateRoom ''9527'' new_server) = snd (HandleRequest (\<lambda>_. Returns (JObject [(''id'', JString ''9527'')])) PostMethod ''/rooms'' [] new_server)"
    by (simp add: HandleRequest_def create_request_def contains_def CreateRoom_def new_server_def json_get_string_def json_get_def GetRoomById_def)
  then show ?thesis using server_step.manage by metis
qed

lemma SetClear_closes:
  assumes "i \<in> set (open_sessions srv)" "i < length (sessions srv)"
  shows "se_close_requested (sessions (SetClear srv) ! i)"
proof -
  let ?f = "on_session (\<lambda>s. s\<lparr>se_close_requested := True\<rparr>)"
  have keep: "se_close_requested (sessions (fold ?f is s) ! i)" if "se_close_requested (sessions s ! i)" for "is" s
    using that
  proof (induction "is" arbitrary: s)
    case (Cons j js)
    have "se_close_requested (sessions (?f j s) ! i)"
      using Cons.prems by (cases "j < length (sessions s)") (auto simp: on_session_def nth_list_update list_update_beyond)
    then show ?case using Cons.IH by simp
  qed simp
  have "i \<in> set is \<Longrightarrow> i < length (sessions s) \<Longrightarrow> se_close_requested (sessions (fold ?f is s) ! i)" for "is" s
  proof (induction "is" arbitrary: s)
    case (Cons j js)
    have "i = j \<Longrightarrow> se_close_requested (sessions (?f j s) ! i)" using Cons.prems by (simp add: on_session_def)
    then show ?case using keep [of "?f j s" js] Cons.IH [of "?f j s"] Cons.prems by (cases "i = j") simp_all
  qed simp
  then show ?thesis using assms by (simp add: SetClear_def)
qed

text \<open>C13. When \<open>main\<close> gets to its message loop the server is one that its requests could have led to (so that all that holds of
  such servers holds), with the test room; the proxy receives, the server accepts, DTLS is set up and there are workers.
  After a signal, whatever has happened in between, no room is left and every stream of a room has been told to stop, every
  open web socket is being closed, and no connection or datagram gets in any more.\<close>

theorem service_starts_and_stops:
  assumes "main ev hardware memory = Runs p" "server_step\<^sup>*\<^sup>* (pr_server p) srv"
  defines "q \<equiv> OnSignal (p\<lparr>pr_server := srv\<rparr>)"
  shows "server_step\<^sup>*\<^sup>* new_server (pr_server p) \<and> GetAllRoomId (pr_server p) = [''9527''] \<and> us_receiving (pr_proxy p)
      \<and> sg_accepting (pr_signaling p) \<and> Initialize (ev_openssl ev) new_dtls_context = Returns (True, pr_dtls p) \<and> pr_pool p \<noteq> []
    \<and> server_step\<^sup>*\<^sup>* new_server (pr_server q) \<and> GetAllRoomId (pr_server q) = []
    \<and> (\<forall>rid w. GetRoomById rid srv = Some w \<longrightarrow> Destroy w \<in> set (destroyed_rooms (pr_server q)))
    \<and> (\<forall>i\<in>set (open_sessions srv). se_close_requested (sessions (pr_server q) ! i)) \<and> open_sessions (pr_server q) = []
    \<and> fst (OnAccept failed (pr_signaling q)) = None \<and> \<not> sg_accepting (snd (OnAccept failed (pr_signaling q)))
    \<and> snd (HandleReceive failed d ep (pr_proxy q)) = []"
proof -
  note run = services_run [OF started(1) [OF assms(1)]]
  have reach: "server_step\<^sup>*\<^sup>* new_server (pr_server p)" unfolding run(1) using first_room by blast
  then have srv: "server_step\<^sup>*\<^sup>* new_server srv" using assms(2) by (rule rtranclp_trans)
  then have "server_step\<^sup>*\<^sup>* new_server (ClearRooms (SetClear srv))"
    by (meson rtranclp.rtrancl_into_rtrancl server_step.clear server_step.close)
  moreover have "se_close_requested (sessions (ClearRooms (SetClear srv)) ! i)" if "i \<in> set (open_sessions srv)" for i
    using SetClear_closes [OF that] server_okD(4) [OF reachable_server_ok [OF srv]] that by (auto simp: ClearRooms_def)
  moreover have "id_room_map (fold (on_session f) is s) = id_room_map s" for f "is" s by (induction "is" arbitrary: s) simp_all
  then have "id_room_map (SetClear srv) = id_room_map srv" by (simp add: SetClear_def)
  then have "GetRoomById rid srv = Some w \<Longrightarrow> Destroy w \<in> set (destroyed_rooms (ClearRooms (SetClear srv)))" for rid w
    by (force simp: ClearRooms_def GetRoomById_def dest: map_of_SomeD)
  moreover have "pr_pool p \<noteq> []" unfolding run(6) by (auto simp: new_pool_def kDefaultThreadCount_def unat_gt_0)
  moreover have "GetAllRoomId (pr_server p) = [''9527'']"
    unfolding run(1) by (simp add: CreateRoom_def new_server_def GetAllRoomId_def GetRoomById_def)
  ultimately show ?thesis using reach run
    by (simp add: q_def OnSignal_def OnAccept_def SignalingClose_def HandleReceive_def SocketClose_def Let_def)
      (simp add: ClearRooms_def SetClear_def GetAllRoomId_def)
qed

text \<open>An environment in which everything works, and a room that is made through the management API before the signal.\<close>

definition plain_toml :: "unit toml" where
  "plain_toml = \<lparr>tl_parse = \<lambda>_. Some (), tl_table = \<lambda>_ _. Some (), tl_string = \<lambda>_ _. Some ''127.0.0.1'', tl_u16 = \<lambda>_ _. Some 8000,
     tl_u32 = \<lambda>_ _. Some 2, tl_size = \<lambda>_ _. Some 200, tl_bool = \<lambda>k _. Some (k \<noteq> ''runAsdaemon'')\<rparr>"

definition good_environment :: "unit environment" where
  "good_environment = \<lparr>ev_arguments = [''ylrtc'', ''config.toml''], ev_toml = plain_toml, ev_fork = ForkChild, ev_setsid = True,
     ev_second_fork = ForkChild, ev_proxy_opened = True, ev_proxy_bound = True, ev_openssl = \<lparr>lib_ctx = True, lib_pkey = True, lib_rsa = True, lib_x509 = True,
       lib_filled = True, lib_use_certificate = True, lib_use_private_key = True, lib_cipher_list = True, lib_srtp_refused = False,
       lib_digest = \<lambda>h. [1]\<rparr>, ev_cert_key = True, ev_address = True, ev_acceptor = [True, True, True, True]\<rparr>"

definition blank_config :: ServerConfig where
  "blank_config = \<lparr>local_ip = [], announced_ip = [], signaling_server_port = 0, webrtc_port = 0, webrtc_worker_thread_count = 0,
     ssl_cert_file = [], ssl_key_file = [], memory_pool_enabled = False, memory_pool_max_list_length = 0, log_directory = [],
     run_as_daemon = False, core_dump = False, config_loaded = False, enable_dtx = False\<rparr>"

theorem service_starts_and_stops_witness:
  "\<exists>p. main good_environment 4 blank_config = Runs p \<and> GetAllRoomId (pr_server p) = [''9527'']
     \<and> GetAllRoomId (pr_server (OnSignal (p\<lparr>pr_server := SetJoin (pr_server p)\<rparr>))) = []
     \<and> se_close_requested (sessions (pr_server (OnSignal (p\<lparr>pr_server := SetJoin (pr_server p)\<rparr>))) ! 0)"
proof -
  have i: "\<exists>c. Initialize (ev_openssl good_environment) new_dtls_context = Returns (True, c)"
    by (simp add: Initialize_def good_environment_def new_dtls_context_def MakeRSAKeyPair_def MakeCertificate_def setup_steps_def
        EVP_MAX_MD_SIZE_def Let_def)
  have "\<exists>p. main good_environment 4 blank_config = Runs p"
    using i by (auto simp: main_def Load_def load_system_def look_def good_environment_def plain_toml_def start_services_def Listen_def
        SignalingStart_def Let_def)
  then obtain p where p: "main good_environment 4 blank_config = Runs p" ..
  have "open_sessions (pr_server p) = []" "sessions (pr_server p) = []"
    using services_run(1) [OF started(1) [OF p]] by (simp_all add: CreateRoom_def new_server_def GetRoomById_def)
  then have "0 \<in> set (open_sessions (SetJoin (pr_server p)))" by (simp add: SetJoin_def)
  then show ?thesis
    using service_starts_and_stops [OF p, of "SetJoin (pr_server p)"] p server_step.accepted [of "pr_server p"] by auto
qed

end
