(* ===== verification/Spec2Isabelle.thy ===== *)
theory Spec2Isabelle
  imports Crc32 Subscribe_Stream Trendline_Estimator Start_Up
begin

text \<open>
  A verification library for ylrtc, a WebRTC selective forwarding unit (\<^verbatim>\<open>src/src\<close>).

  \<^bold>\<open>The program.\<close> Participants connect to a signaling server by web socket and join a room. Each stream they
  publish or subscribe to is a connection of its own: STUN and ICE-lite find the address of the client, DTLS
  authenticates it by the fingerprint of its session description and yields the SRTP keys, and then RTP and RTCP flow.
  A published stream hands its packets to the streams subscribed to it, which renumber them, answer retransmission
  requests and switch between simulcast layers. Rooms and requests run on the main thread, each stream on a worker
  thread; they talk by posted tasks.

  \<^bold>\<open>Theories and the code they model.\<close> The base is \<open>Prelude\<close> (integer types, theorem collections, list and word
  lemmas) and, from \<^verbatim>\<open>base/\<close>, \<open>Byte_Buffer\<close>, \<open>Base_Utils\<close>, \<open>Seq_Num\<close>, \<open>Crc32\<close>, \<open>Udp_Socket\<close> and \<open>Threads\<close>;
  \<open>Seq_Container\<close> and \<open>Json\<close> stand for the ordered containers and the JSON values that the code uses, and
  \<open>Write_Queue\<close> is the contract of everything that writes one message at a time.

  \<^item> Wire formats (\<^verbatim>\<open>rtp_rtcp/\<close>): \<open>Rtp_Packet\<close>, \<open>Rtp_Payload\<close>, \<open>Rtcp_Packet\<close>, \<open>Rtcp_Nack\<close>, \<open>Rtcp_Xr\<close>, \<open>Rtcp_Compound\<close>,
    \<open>Twcc_Chunk\<close> and \<open>Transport_Feedback\<close>. Each has the parser and the serialiser of the code, a description of valid packets,
    bounds for arbitrary input, and round trips.
  \<^item> Congestion control (\<^verbatim>\<open>congestion_controller/\<close>): \<open>Packet_Arrival_Map\<close>, \<open>Receive_Side_Twcc\<close>, \<open>Send_Side_Twcc\<close>,
    \<open>Trendline_Estimator\<close>. The arrival map refines a partial function; what a tick of the feedback timer reports is the
    window of arrivals; the estimator is a state machine over any arithmetic.
  \<^item> Tracks and streams (\<^verbatim>\<open>transport/\<close>): \<open>Nack_Requester\<close>, \<open>Packet_Recorder\<close>, \<open>Track_Statistics\<close>, \<open>Round_Trip_Time\<close>,
    \<open>Publish_Stream_Track\<close>, \<open>Subscribe_Stream_Track\<close>, \<open>Publish_Stream\<close>, \<open>Subscribe_Stream\<close>, \<open>Sdp_Negotiator\<close>. A record for each
    class, an operation for each method; the stream theorems say that every operation of a well-formed stream comes to an
    end inside its buffers, and follow a lost packet from one end to the other.
  \<^item> Connections (\<^verbatim>\<open>ice/\<close>, \<^verbatim>\<open>dtls_srtp/\<close>, \<^verbatim>\<open>transport/webrtc_stream.cpp\<close>): \<open>Stun\<close>, \<open>Ice_Lite\<close>, \<open>Srtp_Session\<close>, \<open>Dtls_Context\<close>,
    \<open>Dtls_Transport\<close>, and \<open>Webrtc_Stream\<close>, which composes them with the socket. Its theorems say that media needs a
    verified peer and that a connection is, for its room, one of the room model.
  \<^item> Signaling (\<^verbatim>\<open>signaling/\<close>): \<open>Notification\<close>, \<open>Room\<close>, \<open>Room_Invariant\<close>, \<open>Server_Session\<close>, \<open>Room_Manager\<close>, \<open>Signaling\<close>,
    \<open>Signaling_Properties\<close>. \<open>Room\<close> has the tasks of all threads as explicit queues and one step relation for every
    interleaving, in which a handler is one step, but for the one that announces a connection: what others see between its post and
    its flag matters, so it is two; \<open>Room_Invariant\<close> shows its invariant and that tasks run out; \<open>Signaling\<close> lifts it to servers.
  \<^item> \<open>Start_Up\<close> (\<^verbatim>\<open>base/server_config.cpp\<close>, \<^verbatim>\<open>signaling/signaling_server.cpp\<close>, \<^verbatim>\<open>main.cpp\<close>): configuration, accepting, and the
    life of the process from \<open>main\<close> to a signal.
\<close>

text \<open>
  \<^bold>\<open>How code becomes definitions.\<close> A class is a record, a method a function from the record to its result and the
  record after. A method that returns \<open>bool\<close> and writes through a pointer returns an option. \<open>outcome\<close> is a result that
  may be an exception (\<open>Fails\<close>) or undefined behaviour, an abort or a call that never returns (\<open>OutOfBounds\<close>); in the
  theories of rooms and handlers the latter is \<open>None\<close>. Buffers are lists of bytes, and reads beyond the end are such a
  result rather than a value. \<open>uint8_t\<close> to \<open>uint64_t\<close> are words and wrap; \<open>size_t\<close> counts elements in memory and is a
  natural number; \<open>int64_t\<close> times and unwrapped sequence numbers are integers. \<open>std::map\<close> and \<open>std::set\<close> are sorted
  association lists with the comparator of the code, hash maps are association lists or partial functions, shared pointers
  are indices into a list. A call of an observer is an event in the list that an operation returns, and what goes to
  the network is a log.

  \<^bold>\<open>Parameters.\<close> The clock, the numbers the random generators draw (\<open>draws\<close>), HMAC-SHA1, uninitialised memory, and
  what OpenSSL, libsrtp, Boost and the TOML library answer are arguments. Nothing is assumed of them except where a
  theorem says so by a named hypothesis, and then a witness instantiates it. Of the JSON library one property assumes
  that it reads only texts in UTF-8 and writes exactly the values whose strings are such (\<open>Json\<close> defines what UTF-8 is). Loops that need not end on every input
  (drawing an unused identifier, the loop of the feedback tick) recurse over the draws or over what they consume, and that they
  do end is a theorem: enough draws contain a new identifier (\<open>can_draw\<close>), a tick consumes its window, a compound datagram gets shorter.

  \<^bold>\<open>Interfaces.\<close> \<open>wire_codec\<close> and \<open>fixed_codec\<close> (theory \<open>Byte_Buffer\<close>) are the contract between a format and the parsers that use it,
  interpreted for the integers, report blocks and time blocks. \<open>key_order\<close> (\<open>Seq_Container\<close>) is what an ordered container
  needs of its comparator, which wrapping sequence numbers only give on half of the circle. \<open>chunk_encoder\<close> (\<open>Twcc_Chunk\<close>) is the
  contract of the run-length encoder with the feedback builder. \<open>serial_writer\<close> (\<open>Write_Queue\<close>) is the contract of the UDP socket,
  the web socket and the HTTP queue: what was handed over goes out once and in order.

  \<^bold>\<open>What is not modelled.\<close> Making keys and certificates, encryption and the TLS streams are inside OpenSSL, libsrtp and
  Boost; only the calls and what follows from their results are here. HMAC-SHA1 (\<^verbatim>\<open>base/hmac_sha1.cpp\<close>) is one call of OpenSSL.
  Logging, the dump functions, plain accessors of fields, and the unit tests are left out, as is the JavaScript client.
  \<open>PostSync\<close> is a call in the theories of streams; that it can block two workers for ever is shown in \<open>Threads\<close>. Memory is
  not modelled apart from the buffers: object lifetimes are taken from the shared pointers of the code.
\<close>

end
